(* ===== verification/Prelude.thy ===== *)
theory Prelude
  imports Main "HOL-Library.Multiset"
begin

text \<open>
  Shared vocabulary of the development: the lemma collections, results with an error
  branch (every \<open>throw\<close> of the JavaScript is an \<open>Inl\<close>), the stable sort behind
  \<open>Array.prototype.sort\<close>, first-occurrence deduplication behind \<open>new Set\<close>, sums over
  association lists, and decimal printing of integers.
\<close>

named_theorems js_simps \<open>evaluation rules of the JavaScript primitives\<close>
named_theorems result_simps \<open>rules for results with an error branch\<close>
named_theorems sum_simps \<open>sums over lists and association lists\<close>
named_theorems sort_simps \<open>membership, multiset and length under the stable sort\<close>

section \<open>Division\<close>

lemma div_bounds: "0 < n \<Longrightarrow> n * (k div n) \<le> k \<and> k < n * (k div n) + (n::int)"
  by (metis add.commute add_less_cancel_left le_add_same_cancel2 mult_div_mod_eq pos_mod_bound pos_mod_sign)

lemma div_less_of_less_mult: "0 < n \<Longrightarrow> k < n * m \<Longrightarrow> k div n < (m::int)"
  using div_bounds[of n k] by (metis mult_less_cancel_left_pos order_le_less_trans)

section \<open>Results with an error branch\<close>

definition ebind :: "'e + 'a \<Rightarrow> ('a \<Rightarrow> 'e + 'b) \<Rightarrow> 'e + 'b" where
  "ebind m f = (case m of Inl e \<Rightarrow> Inl e | Inr a \<Rightarrow> f a)"

definition echeck :: "bool \<Rightarrow> 'e \<Rightarrow> 'e + unit" where
  "echeck ok e = (if ok then Inr () else Inl e)"

lemma ebind_Inl [simp, result_simps]: "ebind (Inl e) f = Inl e"
  by (simp add: ebind_def)

lemma ebind_Inr [simp, result_simps]: "ebind (Inr a) f = f a"
  by (simp add: ebind_def)

lemma ebind_eq_Inr [result_simps]: "ebind m f = Inr b \<longleftrightarrow> (\<exists>a. m = Inr a \<and> f a = Inr b)"
  by (cases m) auto

lemma ebind_eq_Inl: "ebind m f = Inl e \<longleftrightarrow> m = Inl e \<or> (\<exists>a. m = Inr a \<and> f a = Inl e)"
  by (cases m) auto

lemma ebind_InrE:
  assumes "ebind m f = Inr b"
  obtains a where "m = Inr a" and "f a = Inr b"
  using assms by (auto simp: ebind_eq_Inr)

lemma echeck_eq_Inr [simp, result_simps]: "echeck ok e = Inr u \<longleftrightarrow> ok"
  by (simp add: echeck_def)

lemma echeck_eq_Inl [simp]: "echeck ok e = Inl e' \<longleftrightarrow> \<not> ok \<and> e' = e"
  by (auto simp: echeck_def)

lemma echeck_True [simp]: "echeck True e = Inr ()"
  by (simp add: echeck_def)

lemma echeck_False [simp]: "echeck False e = Inl e"
  by (simp add: echeck_def)

text \<open>A left-to-right loop over a list whose body may throw.\<close>

fun efold :: "('s \<Rightarrow> 'a \<Rightarrow> 'e + 's) \<Rightarrow> 's \<Rightarrow> 'a list \<Rightarrow> 'e + 's" where
  "efold f s [] = Inr s"
| "efold f s (x # xs) = ebind (f s x) (\<lambda>s'. efold f s' xs)"

text \<open>The same loop with the index of \<open>entries()\<close>.\<close>

fun efoldi :: "nat \<Rightarrow> ('s \<Rightarrow> nat \<Rightarrow> 'a \<Rightarrow> 'e + 's) \<Rightarrow> 's \<Rightarrow> 'a list \<Rightarrow> 'e + 's" where
  "efoldi i f s [] = Inr s"
| "efoldi i f s (x # xs) = ebind (f s i x) (\<lambda>s'. efoldi (Suc i) f s' xs)"

lemma efold_append: "efold f s (xs @ ys) = ebind (efold f s xs) (\<lambda>s'. efold f s' ys)"
  by (induction xs arbitrary: s) (auto simp: ebind_def split: sum.splits)

text \<open>An invariant of the loop body is an invariant of the loop.\<close>

lemma efold_invariant:
  assumes "efold f s xs = Inr t" and "I s"
    and "\<And>s x s'. I s \<Longrightarrow> x \<in> set xs \<Longrightarrow> f s x = Inr s' \<Longrightarrow> I s'"
  shows "I t"
  using assms
proof (induction xs arbitrary: s)
  case Nil
  then show ?case by simp
next
  case (Cons x xs)
  obtain s' where s': "f s x = Inr s'" and rest: "efold f s' xs = Inr t"
    using Cons.prems(1) by (auto simp: ebind_eq_Inr)
  have "I s'" by (rule Cons.prems(3)[OF Cons.prems(2) _ s']) (rule list.set_intros(1))
  show ?case
  proof (rule Cons.IH[OF rest \<open>I s'\<close>])
    fix u y u' assume u: "I u" and y: "y \<in> set xs" and fu: "f u y = Inr u'"
    show "I u'" by (rule Cons.prems(3)[OF u list.set_intros(2)[OF y] fu])
  qed
qed

lemma efoldi_invariant:
  assumes "efoldi i f s xs = Inr t" and "I s"
    and "\<And>s j x s'. I s \<Longrightarrow> x \<in> set xs \<Longrightarrow> f s j x = Inr s' \<Longrightarrow> I s'"
  shows "I t"
  using assms
proof (induction xs arbitrary: s i)
  case Nil
  then show ?case by simp
next
  case (Cons x xs)
  obtain s' where s': "f s i x = Inr s'" and rest: "efoldi (Suc i) f s' xs = Inr t"
    using Cons.prems(1) by (auto simp: ebind_eq_Inr)
  have "I s'" by (rule Cons.prems(3)[OF Cons.prems(2) _ s']) (rule list.set_intros(1))
  show ?case
  proof (rule Cons.IH[OF rest \<open>I s'\<close>])
    fix u j y u' assume u: "I u" and y: "y \<in> set xs" and fu: "f u j y = Inr u'"
    show "I u'" by (rule Cons.prems(3)[OF u list.set_intros(2)[OF y] fu])
  qed
qed

section \<open>Stable sort\<close>

text \<open>
  \<open>Array.prototype.sort(cmp)\<close> is a stable sort (ECMA-262) for a consistent comparator.
  \<open>le a b\<close> stands for \<open>cmp(a, b) <= 0\<close>; insertion from the right keeps the order of
  elements that compare equal.
\<close>

fun jinsert :: "('a \<Rightarrow> 'a \<Rightarrow> bool) \<Rightarrow> 'a \<Rightarrow> 'a list \<Rightarrow> 'a list" where
  "jinsert le x [] = [x]"
| "jinsert le x (y # ys) = (if le x y then x # y # ys else y # jinsert le x ys)"

definition jsort :: "('a \<Rightarrow> 'a \<Rightarrow> bool) \<Rightarrow> 'a list \<Rightarrow> 'a list" where
  "jsort le xs = foldr (jinsert le) xs []"

lemma jsort_Nil [simp, sort_simps]: "jsort le [] = []"
  by (simp add: jsort_def)

lemma jsort_Cons: "jsort le (x # xs) = jinsert le x (jsort le xs)"
  by (simp add: jsort_def)

lemma mset_jinsert [simp]: "mset (jinsert le x xs) = add_mset x (mset xs)"
  by (induction xs) auto

lemma mset_jsort [simp, sort_simps]: "mset (jsort le xs) = mset xs"
  by (induction xs) (auto simp: jsort_Cons)

lemma set_jsort [simp, sort_simps]: "set (jsort le xs) = set xs"
  using mset_jsort[of le xs] by (metis set_mset_mset)

lemma set_jinsert [simp]: "set (jinsert le x xs) = insert x (set xs)"
  by (induction xs) auto

lemma length_jsort [simp, sort_simps]: "length (jsort le xs) = length xs"
  using mset_jsort[of le xs] by (metis size_mset)

lemma distinct_jsort [simp, sort_simps]: "distinct (jsort le xs) = distinct xs"
  by (metis mset_jsort mset_eq_imp_distinct_iff)

lemma jsort_eq_Nil [simp, sort_simps]: "jsort le xs = [] \<longleftrightarrow> xs = []"
  by (metis length_0_conv length_jsort)

lemma jsort_map_distinct: "distinct (map f (jsort le xs)) = distinct (map f xs)"
  by (metis mset_eq_imp_distinct_iff mset_jsort mset_map)

lemma sum_list_map_jsort [simp, sum_simps]:
  "sum_list (map f (jsort le xs)) = (sum_list (map f xs) :: 'b::comm_monoid_add)"
  by (metis mset_jsort mset_map sum_mset_sum_list)

lemma jsort_cong: "(\<And>a b. a \<in> set xs \<Longrightarrow> b \<in> set xs \<Longrightarrow> le a b = le' a b) \<Longrightarrow> jsort le xs = jsort le' xs"
proof (induction xs)
  case Nil
  then show ?case by simp
next
  case (Cons x xs)
  have eq: "jsort le xs = jsort le' xs" using Cons by simp
  have "\<And>ys. set ys \<subseteq> set xs \<Longrightarrow> jinsert le x ys = jinsert le' x ys"
  proof -
    fix ys assume "set ys \<subseteq> set xs"
    then show "jinsert le x ys = jinsert le' x ys"
      by (induction ys) (use Cons.prems in auto)
  qed
  from this[of "jsort le' xs"] eq show ?case by (simp add: jsort_Cons)
qed

text \<open>
  The contract of a comparator: a total preorder. Under it the sort is sorted, its head is
  a minimum, and elements that compare equal keep their order.
\<close>

locale comparator =
  fixes le :: "'a \<Rightarrow> 'a \<Rightarrow> bool"
  assumes le_total: "le a b \<or> le b a"
    and le_trans: "le a b \<Longrightarrow> le b c \<Longrightarrow> le a c"
begin

lemma le_refl: "le a a"
  using le_total[of a a] by simp

lemma sorted_jinsert: "sorted_wrt le xs \<Longrightarrow> sorted_wrt le (jinsert le x xs)"
proof (induction xs)
  case Nil
  then show ?case by simp
next
  case (Cons y ys)
  show ?case
  proof (cases "le x y")
    case True
    with Cons.prems have "\<forall>z \<in> set ys. le x z"
      using le_trans[OF True] by auto
    with True Cons.prems show ?thesis by simp
  next
    case False
    then have "le y x" using le_total by blast
    with False Cons show ?thesis by simp
  qed
qed

lemma sorted_jsort: "sorted_wrt le (jsort le xs)"
  by (induction xs) (auto simp: jsort_Cons sorted_jinsert)

lemma jsort_hd_le: "jsort le xs = y # ys \<Longrightarrow> z \<in> set xs \<Longrightarrow> le y z"
proof -
  assume eq: "jsort le xs = y # ys" and z: "z \<in> set xs"
  have "sorted_wrt le (y # ys)" using sorted_jsort[of xs] eq by simp
  moreover have "z \<in> set (y # ys)" using z eq by (metis set_jsort)
  ultimately show "le y z" using le_refl by auto
qed

lemma hd_jsort:
  assumes "xs \<noteq> []"
  shows "hd (jsort le xs) \<in> set xs" and "\<And>z. z \<in> set xs \<Longrightarrow> le (hd (jsort le xs)) z"
proof -
  obtain y ys where eq: "jsort le xs = y # ys"
    using assms by (cases "jsort le xs") auto
  have "y \<in> set (jsort le xs)" by (simp add: eq)
  then have "y \<in> set xs" by (simp only: set_jsort)
  then show "hd (jsort le xs) \<in> set xs" by (simp add: eq)
  show "\<And>z. z \<in> set xs \<Longrightarrow> le (hd (jsort le xs)) z"
    using jsort_hd_le[OF eq] by (simp add: eq)
qed

lemma jinsert_filter_eq:
  "sorted_wrt le ys \<Longrightarrow> filter (\<lambda>y. le y z \<and> le z y) (jinsert le x ys) =
     (if le x z \<and> le z x then x # filter (\<lambda>y. le y z \<and> le z y) ys
      else filter (\<lambda>y. le y z \<and> le z y) ys)"
proof (induction ys)
  case Nil
  then show ?case by simp
next
  case (Cons y ys)
  have "\<not> le x y \<Longrightarrow> le y z \<Longrightarrow> le z y \<Longrightarrow> \<not> (le x z)"
    using le_trans by blast
  with Cons show ?case by auto
qed

lemma jsort_stable:
  "filter (\<lambda>y. le y z \<and> le z y) (jsort le xs) = filter (\<lambda>y. le y z \<and> le z y) xs"
  by (induction xs) (simp_all add: jsort_Cons jinsert_filter_eq sorted_jsort)

text \<open>Sorting is a function of the multiset when equal elements are identical.\<close>

lemma jsort_unique:
  assumes "mset xs = mset ys"
    and anti: "\<And>a b. a \<in> set xs \<Longrightarrow> b \<in> set xs \<Longrightarrow> le a b \<Longrightarrow> le b a \<Longrightarrow> a = b"
  shows "jsort le xs = jsort le ys"
proof -
  have uniq: "us = vs" if "sorted_wrt le us" "sorted_wrt le vs" "mset us = mset vs"
    "\<forall>a \<in> set us. \<forall>b \<in> set us. le a b \<longrightarrow> le b a \<longrightarrow> a = b" for us vs
    using that
  proof (induction us arbitrary: vs)
    case Nil
    then show ?case by simp
  next
    case (Cons u us)
    then obtain v vs' where vs: "vs = v # vs'"
      by (cases vs) auto
    have inset: "set (u # us) = set (v # vs')"
      using Cons.prems(3) vs by (metis mset_eq_setD)
    have "le u v" using Cons.prems(1) inset le_refl by (metis list.set_intros(1) set_ConsD sorted_wrt.simps(2))
    moreover have "le v u" using Cons.prems(2) inset vs le_refl
      by (metis list.set_intros(1) set_ConsD sorted_wrt.simps(2))
    moreover have "v \<in> set (u # us)" using inset by simp
    ultimately have uv: "u = v" using Cons.prems(4) by auto
    then have "us = vs'" using Cons vs by auto
    with uv vs show ?case by simp
  qed
  have "\<forall>a \<in> set (jsort le xs). \<forall>b \<in> set (jsort le xs). le a b \<longrightarrow> le b a \<longrightarrow> a = b"
    using anti by simp
  with assms(1) show ?thesis by (intro uniq) (simp_all add: sorted_jsort)
qed

end

section \<open>Sets and maps of the source\<close>

text \<open>
  \<open>[...new Set(xs)]\<close> keeps the first occurrence of each value, in order.
\<close>

fun dedup :: "'a list \<Rightarrow> 'a list" where
  "dedup [] = []"
| "dedup (x # xs) = x # filter (\<lambda>y. y \<noteq> x) (dedup xs)"

lemma set_dedup [simp]: "set (dedup xs) = set xs"
  by (induction xs) auto

lemma distinct_dedup [simp]: "distinct (dedup xs)"
  by (induction xs) auto

lemma dedup_id: "distinct xs \<Longrightarrow> dedup xs = xs"
proof (induction xs)
  case Nil
  then show ?case by simp
next
  case (Cons x xs)
  then have "dedup xs = xs" "x \<notin> set xs" by auto
  then show ?case by (auto simp: filter_id_conv)
qed

text \<open>
  A JavaScript \<open>Map\<close> is an association list in insertion order: \<open>set\<close> on a present key
  updates in place, on an absent key appends.
\<close>

fun mset_put :: "'k \<Rightarrow> 'v \<Rightarrow> ('k \<times> 'v) list \<Rightarrow> ('k \<times> 'v) list" where
  "mset_put k v [] = [(k, v)]"
| "mset_put k v ((k', v') # m) = (if k' = k then (k, v) # m else (k', v') # mset_put k v m)"

definition mget :: "('k \<times> 'v) list \<Rightarrow> 'k \<Rightarrow> 'v \<Rightarrow> 'v" where
  "mget m k d = (case map_of m k of None \<Rightarrow> d | Some v \<Rightarrow> v)"

lemma map_of_mset_put [simp]: "map_of (mset_put k v m) = (map_of m)(k \<mapsto> v)"
  by (induction m) auto

lemma mget_mset_put [simp]: "mget (mset_put k v m) k' d = (if k' = k then v else mget m k' d)"
  by (simp add: mget_def)

lemma keys_mset_put: "map fst (mset_put k v m) = (if k \<in> fst ` set m then map fst m else map fst m @ [k])"
proof (induction m)
  case Nil
  then show ?case by simp
next
  case (Cons p m)
  then show ?case by (cases p) (simp add: eq_commute)
qed

lemma distinct_keys_mset_put [simp]:
  "distinct (map fst (mset_put k v m)) = distinct (map fst m)"
  by (simp add: keys_mset_put)

lemma set_keys_mset_put [simp]: "fst ` set (mset_put k v m) = insert k (fst ` set m)"
proof -
  have "set (map fst (mset_put k v m)) = insert k (set (map fst m))"
    unfolding keys_mset_put by auto
  then show ?thesis by simp
qed

lemma mget_notin: "k \<notin> fst ` set m \<Longrightarrow> mget m k d = d"
  by (simp add: mget_def map_of_eq_None_iff[THEN iffD2])

lemma mget_in: "distinct (map fst m) \<Longrightarrow> (k, v) \<in> set m \<Longrightarrow> mget m k d = v"
  by (simp add: mget_def)

lemma sum_mset_put [sum_simps]:
  fixes f :: "'k \<Rightarrow> 'v \<Rightarrow> 'b::ab_group_add"
  assumes "distinct (map fst m)" and "f k d = 0"
  shows "(\<Sum>(k, v)\<leftarrow>mset_put k v m. f k v) = (\<Sum>(k, v)\<leftarrow>m. f k v) + f k v - f k (mget m k d)"
  using assms(1)
proof (induction m)
  case Nil
  then show ?case by (simp add: mget_def assms)
next
  case (Cons p m)
  obtain k' v' where p: "p = (k', v')" by (cases p)
  have rest: "k' \<noteq> k \<Longrightarrow> mget (p # m) k d = mget m k d" by (simp add: mget_def p)
  have here: "k' = k \<Longrightarrow> mget (p # m) k d = v'" by (simp add: mget_def p)
  show ?case using Cons rest here by (auto simp: p)
qed

section \<open>Decimal printing\<close>

text \<open>\<open>BigInt.prototype.toString\<close> and template interpolation of an index.\<close>

fun dec_digits :: "nat \<Rightarrow> string" where
  "dec_digits n = (if n < 10 then [char_of (48 + n :: nat)] else dec_digits (n div 10) @ [char_of (48 + n mod 10)])"

declare dec_digits.simps [simp del]

definition dec_int :: "int \<Rightarrow> string" where
  "dec_int z = (if z < 0 then ''-'' @ dec_digits (nat (- z)) else dec_digits (nat z))"

definition digit_val :: "char \<Rightarrow> nat" where
  "digit_val c = of_char c - 48"

definition is_digit :: "char \<Rightarrow> bool" where
  "is_digit c \<longleftrightarrow> 48 \<le> (of_char c :: nat) \<and> (of_char c :: nat) \<le> 57"

definition parse_nat :: "string \<Rightarrow> nat" where
  "parse_nat s = foldl (\<lambda>n c. 10 * n + digit_val c) 0 s"

lemma of_char_digit: "d < 10 \<Longrightarrow> (of_char (char_of (48 + d :: nat) :: char) :: nat) = 48 + d"
  by simp

lemma is_digit_char_of [simp]: "d < 10 \<Longrightarrow> is_digit (char_of (48 + d :: nat))"
  by (simp add: is_digit_def of_char_digit)

lemma digit_val_char_of [simp]: "d < 10 \<Longrightarrow> digit_val (char_of (48 + d :: nat)) = d"
  by (simp add: digit_val_def of_char_digit)

lemma parse_nat_snoc: "parse_nat (s @ [c]) = 10 * parse_nat s + digit_val c"
  by (simp add: parse_nat_def)

lemma parse_dec_digits [simp]: "parse_nat (dec_digits n) = n"
proof (induction n rule: dec_digits.induct)
  case (1 n)
  show ?case
  proof (cases "n < 10")
    case True
    then show ?thesis
      by (subst dec_digits.simps) (simp add: parse_nat_def)
  next
    case False
    with 1 have "parse_nat (dec_digits (n div 10)) = n div 10" by simp
    with False show ?thesis
      by (subst dec_digits.simps) (simp add: parse_nat_snoc)
  qed
qed

lemma dec_digits_ne [simp]: "dec_digits n \<noteq> []"
  by (subst dec_digits.simps) simp

lemma dec_digits_all: "\<forall>c \<in> set (dec_digits n). is_digit c"
proof (induction n rule: dec_digits.induct)
  case (1 n)
  show ?case
  proof (cases "n < 10")
    case True
    then show ?thesis by (subst dec_digits.simps) simp
  next
    case False
    with 1 show ?thesis by (subst dec_digits.simps) simp
  qed
qed

lemma dec_digits_inj: "dec_digits m = dec_digits n \<Longrightarrow> m = n"
  by (metis parse_dec_digits)

text \<open>\<open>BigInt(text)\<close> of a printed integer.\<close>

definition parse_int :: "string \<Rightarrow> int" where
  "parse_int s = (if s \<noteq> [] \<and> hd s = CHR ''-'' then - int (parse_nat (tl s)) else int (parse_nat s))"

lemma dec_digits_hd_digit: "is_digit (hd (dec_digits n))"
  using dec_digits_all[of n] dec_digits_ne[of n] by (metis hd_in_set)

lemma parse_dec_int [simp]: "parse_int (dec_int z) = z"
proof (cases "z < 0")
  case True
  then show ?thesis by (simp add: parse_int_def dec_int_def)
next
  case False
  have "hd (dec_digits (nat z)) \<noteq> CHR ''-''"
    using dec_digits_hd_digit[of "nat z"] by (auto simp: is_digit_def)
  with False show ?thesis by (simp add: parse_int_def dec_int_def)
qed

lemma dec_int_inj [simp]: "dec_int y = dec_int z \<longleftrightarrow> y = z"
  by (metis parse_dec_int)

lemma dec_int_nonneg: "0 \<le> z \<Longrightarrow> dec_int z = dec_digits (nat z)"
  by (simp add: dec_int_def)

text \<open>
  Evaluation of the two functions above on integers, so that closed instances compute without
  unary numbers.
\<close>

function int_digits :: "int \<Rightarrow> string" where
  "int_digits n = (if n < 10 then [char_of (48 + n)] else int_digits (n div 10) @ [char_of (48 + n mod 10)])"
  by pat_completeness auto
termination
  by (relation "measure nat") auto

declare int_digits.simps [simp del]

lemma char_of_int: "0 \<le> n \<Longrightarrow> char_of (48 + n :: int) = char_of (48 + nat n)"
proof -
  assume "0 \<le> n"
  then obtain k where n: "n = int k" using nonneg_int_cases by blast
  have "char_of (of_nat (48 + k) :: int) = char_of (48 + k)" by (rule char_of_nat)
  then show ?thesis by (simp add: n)
qed

lemma int_digits_eq: "0 \<le> n \<Longrightarrow> int_digits n = dec_digits (nat n)"
proof (induction n rule: int_digits.induct)
  case (1 n)
  show ?case
  proof (cases "n < 10")
    case True
    then show ?thesis using 1(2) by (subst int_digits.simps, subst dec_digits.simps) (simp add: char_of_int nat_less_iff)
  next
    case False
    have "int_digits (n div 10) = dec_digits (nat (n div 10))" using 1 False by simp
    moreover have "nat (n div 10) = nat n div 10" "nat (n mod 10) = nat n mod 10"
      using 1(2) by (simp_all add: nat_div_distrib nat_mod_distrib)
    ultimately show ?thesis using False 1(2)
      by (subst int_digits.simps, subst dec_digits.simps) (simp add: char_of_int nat_less_iff)
  qed
qed

lemma dec_int_code [code]: "dec_int z = (if z < 0 then ''-'' @ int_digits (- z) else int_digits z)"
  by (simp add: dec_int_def int_digits_eq)

definition int_of_digits :: "string \<Rightarrow> int" where
  "int_of_digits s = foldl (\<lambda>n c. 10 * n + (of_char c - 48)) 0 s"

lemma int_of_digits_eq: "list_all is_digit s \<Longrightarrow> int_of_digits s = int (parse_nat s)"
proof -
  have "foldl (\<lambda>n c. 10 * n + (of_char c - 48)) (int a) s = int (foldl (\<lambda>n c. 10 * n + digit_val c) a s)"
    if "list_all is_digit s" for a
    using that
  proof (induction s arbitrary: a)
    case Nil
    then show ?case by simp
  next
    case (Cons c s)
    have c: "(of_char c :: int) = int (of_char c)" by (rule of_nat_of_char[symmetric])
    have "10 * int a + (of_char c - 48) = int (10 * a + digit_val c)"
      using Cons.prems c by (simp add: digit_val_def is_digit_def of_nat_diff)
    then show ?case using Cons.IH[of "10 * a + digit_val c"] Cons.prems by simp
  qed
  from this[of 0] show "list_all is_digit s \<Longrightarrow> int_of_digits s = int (parse_nat s)"
    by (simp add: int_of_digits_def parse_nat_def)
qed

end
