(* ===== verification/JsNum.thy ===== *)
theory JsNum
  imports Complex_Main Prelude
begin

text \<open>
  The Number type of JavaScript: IEEE 754 binary64 with round-to-nearest, ties-to-even.
  A finite Number is a rational of the form \<open>k * 2^q\<close> with \<open>|k| <= 2^53\<close> and
  \<open>-1074 <= q\<close>; every arithmetic operator computes the exact rational and rounds it with
  \<open>fl\<close>. The type also has \<open>NaN\<close> and the two infinities. The sign of zero is not
  represented: no operation modelled in this development tells \<open>-0\<close> from \<open>0\<close>.
\<close>

section \<open>Rounding a rational to binary64\<close>

text \<open>Number of bits of a positive integer.\<close>

function (sequential) bits :: "int \<Rightarrow> int" where
  "bits n = (if n \<le> 0 then 0 else 1 + bits (n div 2))"
  by pat_completeness auto
termination
  by (relation "measure nat") auto

declare bits.simps [simp del]

lemma bits_nonneg: "0 \<le> bits n"
  by (induction n rule: bits.induct) (subst bits.simps, simp)

lemma bits_bounds: "0 < n \<Longrightarrow> 2 ^ nat (bits n - 1) \<le> n \<and> n < 2 ^ nat (bits n) \<and> 1 \<le> bits n"
proof (induction n rule: bits.induct)
  case (1 n)
  show ?case
  proof (cases "n = 1")
    case True
    then show ?thesis by (simp add: bits.simps)
  next
    case False
    with 1 have ih: "2 ^ nat (bits (n div 2) - 1) \<le> n div 2" "n div 2 < 2 ^ nat (bits (n div 2))"
      "1 \<le> bits (n div 2)"
      by auto
    have b: "bits n = 1 + bits (n div 2)" using 1(2) by (subst bits.simps) simp
    have e1: "nat (bits n - 1) = Suc (nat (bits (n div 2) - 1))"
      and e2: "nat (bits n) = Suc (nat (bits (n div 2)))"
      using ih(3) b by linarith+
    have "2 ^ nat (bits n - 1) \<le> n" unfolding e1 using ih(1) by simp
    moreover have "n < 2 ^ nat (bits n)" unfolding e2 using ih(2) by simp
    ultimately show ?thesis using ih(3) b by simp
  qed
qed

text \<open>\<open>floor(log2 x)\<close> of a positive rational.\<close>

definition ilog2 :: "rat \<Rightarrow> int" where
  "ilog2 x = (let (n, d) = quotient_of x; e = bits n - bits d
              in if 2 powi e \<le> x then e else e - 1)"

text \<open>Round half to even, and the exponent of the last place.\<close>

definition rne :: "rat \<Rightarrow> int" where
  "rne x = (let f = \<lfloor>x\<rfloor>; r = x - of_int f
            in if r < 1 / 2 then f else if 1 / 2 < r then f + 1 else if even f then f else f + 1)"

definition ulpexp :: "rat \<Rightarrow> int" where
  "ulpexp x = max (ilog2 \<bar>x\<bar> - 52) (- 1074)"

definition fl :: "rat \<Rightarrow> rat" where
  "fl x = (if x = 0 then 0 else of_int (rne (x / 2 powi ulpexp x)) * 2 powi ulpexp x)"

definition is_double :: "rat \<Rightarrow> bool" where
  "is_double x \<longleftrightarrow> fl x = x"

subsection \<open>Powers of two and the exponent\<close>

lemma powi2_pos [simp]: "0 < (2 powi k :: rat)"
  by simp

lemma powi2_nat: "(2 :: rat) ^ nat k = 2 powi k" if "0 \<le> k"
  using that by (simp add: power_int_def)

lemma powi2_less: "i < j \<Longrightarrow> (2 powi i :: rat) < 2 powi j"
  by (rule power_int_strict_increasing) auto

lemma powi2_le: "i \<le> j \<Longrightarrow> (2 powi i :: rat) \<le> 2 powi j"
  by (rule power_int_increasing) auto

lemma powi2_add: "(2 powi (i + j) :: rat) = 2 powi i * 2 powi j"
  by (simp add: power_int_add)

lemma powi2_diff: "(2 powi (i - j) :: rat) = 2 powi i / 2 powi j"
  by (simp add: power_int_diff)

lemma ilog2_bounds:
  assumes "0 < x"
  shows "2 powi (ilog2 x) \<le> x" and "x < 2 powi (ilog2 x + 1)"
proof -
  obtain n d where q: "quotient_of x = (n, d)" by (cases "quotient_of x")
  have d: "0 < d" using quotient_of_denom_pos[OF q] .
  have x: "x = of_int n / of_int d" using quotient_of_div[OF q] .
  have n: "0 < n" using assms x d by (simp add: zero_less_divide_iff)
  let ?bn = "bits n" and ?bd = "bits d"
  have bn: "(2 powi (?bn - 1) :: rat) \<le> of_int n" "(of_int n :: rat) < 2 powi ?bn" "1 \<le> ?bn"
  proof -
    have "(2 ^ nat (?bn - 1) :: int) \<le> n" "n < 2 ^ nat ?bn" "1 \<le> ?bn" using bits_bounds[OF n] by auto
    then have "(of_int (2 ^ nat (?bn - 1)) :: rat) \<le> of_int n" "(of_int n :: rat) < of_int (2 ^ nat ?bn)"
      by (simp_all only: of_int_le_iff of_int_less_iff)
    then show "(2 powi (?bn - 1) :: rat) \<le> of_int n" "(of_int n :: rat) < 2 powi ?bn"
      using \<open>1 \<le> ?bn\<close> by (simp_all add: powi2_nat)
    show "1 \<le> ?bn" by fact
  qed
  have bd: "(2 powi (?bd - 1) :: rat) \<le> of_int d" "(of_int d :: rat) < 2 powi ?bd"
  proof -
    have "(2 ^ nat (?bd - 1) :: int) \<le> d" "d < 2 ^ nat ?bd" "1 \<le> ?bd" using bits_bounds[OF d] by auto
    then have "(of_int (2 ^ nat (?bd - 1)) :: rat) \<le> of_int d" "(of_int d :: rat) < of_int (2 ^ nat ?bd)"
      by (simp_all only: of_int_le_iff of_int_less_iff)
    then show "(2 powi (?bd - 1) :: rat) \<le> of_int d" "(of_int d :: rat) < 2 powi ?bd"
      using \<open>1 \<le> ?bd\<close> by (simp_all add: powi2_nat)
  qed
  have dp: "(0::rat) < of_int d" using d by simp
  have lo: "2 powi (?bn - ?bd - 1) \<le> x"
  proof -
    have "(2 powi (?bn - ?bd - 1) :: rat) * of_int d \<le> 2 powi (?bn - ?bd - 1) * 2 powi ?bd"
      using bd(2) by (intro mult_left_mono) auto
    also have "\<dots> = 2 powi (?bn - 1)" by (simp flip: powi2_add)
    also have "\<dots> \<le> of_int n" by (rule bn(1))
    finally show ?thesis using dp by (simp add: x pos_le_divide_eq)
  qed
  have hi: "x < 2 powi (?bn - ?bd + 1)"
  proof -
    have "of_int n < (2 powi ?bn :: rat)" by (rule bn(2))
    also have "\<dots> = 2 powi (?bn - ?bd + 1) * 2 powi (?bd - 1)" by (simp flip: powi2_add)
    also have "\<dots> \<le> 2 powi (?bn - ?bd + 1) * of_int d"
      using bd(1) by (intro mult_left_mono) auto
    finally show ?thesis using dp by (simp add: x pos_divide_less_eq)
  qed
  show "2 powi (ilog2 x) \<le> x" using lo by (simp add: ilog2_def q Let_def)
  show "x < 2 powi (ilog2 x + 1)" using hi by (simp add: ilog2_def q Let_def)
qed

lemma ilog2_unique: "2 powi e \<le> x \<Longrightarrow> x < 2 powi (e + 1) \<Longrightarrow> ilog2 x = e"
proof -
  assume a: "2 powi e \<le> x" and b: "x < 2 powi (e + 1)"
  have x: "0 < x" using a powi2_pos[of e] by linarith
  note l = ilog2_bounds[OF x]
  have "(2 powi e :: rat) < 2 powi (ilog2 x + 1)" using a l(2) by linarith
  then have "e < ilog2 x + 1" using powi2_le[of "ilog2 x + 1" e] by (meson not_le)
  moreover have "(2 powi (ilog2 x) :: rat) < 2 powi (e + 1)" using b l(1) by linarith
  then have "ilog2 x < e + 1" using powi2_le[of "e + 1" "ilog2 x"] by (meson not_le)
  ultimately show ?thesis by linarith
qed

lemma ilog2_mono: "0 < x \<Longrightarrow> x \<le> y \<Longrightarrow> ilog2 x \<le> ilog2 y"
proof -
  assume x: "0 < x" and xy: "x \<le> y"
  have "2 powi (ilog2 x) < (2 powi (ilog2 y + 1) :: rat)"
    using ilog2_bounds(1)[OF x] ilog2_bounds(2)[of y] x xy by linarith
  then have "ilog2 x < ilog2 y + 1" using powi2_le[of "ilog2 y + 1" "ilog2 x"] by (meson not_le)
  then show ?thesis by simp
qed

lemma ulpexp_neg [simp]: "ulpexp (- x) = ulpexp x"
  by (simp add: ulpexp_def)

subsection \<open>Rounding to the nearest integer\<close>

lemma rne_of_int [simp]: "rne (of_int k) = k"
  by (simp add: rne_def)

lemma rne_bounds: "of_int (rne x) \<le> x + 1 / 2" "x - 1 / 2 \<le> of_int (rne x)"
proof -
  define f where "f = \<lfloor>x\<rfloor>"
  have f: "of_int f \<le> x" "x < of_int f + 1" using floor_correct[of x] by (auto simp: f_def)
  have "rne x = (if x - of_int f < 1 / 2 then f else if 1 / 2 < x - of_int f then f + 1
      else if even f then f else f + 1)"
    by (simp add: rne_def f_def Let_def)
  then show "of_int (rne x) \<le> x + 1 / 2" "x - 1 / 2 \<le> of_int (rne x)"
    using f by (simp_all split: if_splits)
qed

lemma rne_mono: "x \<le> y \<Longrightarrow> rne x \<le> rne y"
proof -
  assume xy: "x \<le> y"
  have f: "\<lfloor>x\<rfloor> \<le> \<lfloor>y\<rfloor>" using xy by (rule floor_mono)
  show ?thesis
  proof (cases "\<lfloor>x\<rfloor> = \<lfloor>y\<rfloor>")
    case True
    then show ?thesis using xy by (auto simp: rne_def Let_def)
  next
    case False
    then have "\<lfloor>x\<rfloor> + 1 \<le> \<lfloor>y\<rfloor>" using f by linarith
    moreover have "rne x \<le> \<lfloor>x\<rfloor> + 1" "\<lfloor>y\<rfloor> \<le> rne y" by (auto simp: rne_def Let_def)
    ultimately show ?thesis by linarith
  qed
qed

lemma rne_neg: "rne (- x) = - rne x"
proof (cases "x = of_int \<lfloor>x\<rfloor>")
  case True
  then obtain k where "x = of_int k" by blast
  then show ?thesis using rne_of_int[of "- k"] by simp
next
  case False
  then have "of_int \<lfloor>x\<rfloor> < x" "x < of_int \<lfloor>x\<rfloor> + 1"
    using floor_correct[of x] by linarith+
  then have "\<lfloor>- x\<rfloor> = - \<lfloor>x\<rfloor> - 1"
    by (intro floor_unique) auto
  then show ?thesis by (auto simp: rne_def Let_def)
qed

lemma rne_le_int: "x \<le> of_int k \<Longrightarrow> rne x \<le> k"
  using rne_mono[of x "of_int k"] by simp

lemma rne_ge_int: "of_int k \<le> x \<Longrightarrow> k \<le> rne x"
  using rne_mono[of "of_int k" x] by simp

subsection \<open>Laws of rounding\<close>

lemma fl_0 [simp]: "fl 0 = 0"
  by (simp add: fl_def)

lemma fl_neg: "fl (- x) = - fl x"
  using rne_neg[of "x / 2 powi ulpexp x"] by (simp add: fl_def)

lemma powi2_split: "j \<le> i \<Longrightarrow> \<exists>k. (2 powi i :: rat) = of_int k * 2 powi j"
proof -
  assume "j \<le> i"
  then have "(2 powi i :: rat) = 2 ^ nat (i - j) * 2 powi j"
    by (simp add: powi2_nat flip: powi2_add)
  then show ?thesis by (intro exI[of _ "2 ^ nat (i - j)"]) simp
qed

lemma fl_nonneg: "0 \<le> x \<Longrightarrow> 0 \<le> fl x"
proof -
  assume "0 \<le> x"
  then have "0 \<le> rne (x / 2 powi ulpexp x)" by (intro rne_ge_int) simp
  then show ?thesis by (simp add: fl_def)
qed

lemma fl_mono_pos:
  assumes x: "0 < x" and xy: "x \<le> y"
  shows "fl x \<le> fl y"
proof (cases "ulpexp x = ulpexp y")
  case True
  then have "rne (x / 2 powi ulpexp x) \<le> rne (y / 2 powi ulpexp y)"
    using xy by (intro rne_mono) (simp add: divide_right_mono)
  then show ?thesis using x xy True by (simp add: fl_def mult_right_mono)
next
  case False
  have y: "0 < y" using x xy by linarith
  have "ulpexp x \<le> ulpexp y" using ilog2_mono[OF x xy] x y by (simp add: ulpexp_def)
  with False have lt: "ulpexp x < ulpexp y" by linarith
  then have ey: "ilog2 y = ulpexp y + 52" and ex: "ilog2 x < ilog2 y"
    using x y by (auto simp: ulpexp_def)
  let ?B = "2 powi (ilog2 y) :: rat"
  obtain kx where kx: "?B = of_int kx * 2 powi ulpexp x"
    using powi2_split[of "ulpexp x" "ilog2 y"] lt ey by auto
  obtain ky where ky: "?B = of_int ky * 2 powi ulpexp y"
    using powi2_split[of "ulpexp y" "ilog2 y"] ey by auto
  have "x \<le> ?B" using ilog2_bounds(2)[OF x] powi2_le[of "ilog2 x + 1" "ilog2 y"] ex by linarith
  then have "x / 2 powi ulpexp x \<le> of_int kx" by (simp add: kx pos_divide_le_eq)
  then have "of_int (rne (x / 2 powi ulpexp x)) * 2 powi ulpexp x \<le> ?B"
    unfolding kx by (intro mult_right_mono) (simp_all add: rne_le_int)
  moreover have "?B \<le> y" using ilog2_bounds(1)[OF y] .
  then have "of_int ky \<le> y / 2 powi ulpexp y" by (simp add: ky pos_le_divide_eq)
  then have "?B \<le> of_int (rne (y / 2 powi ulpexp y)) * 2 powi ulpexp y"
    unfolding ky by (intro mult_right_mono) (simp_all add: rne_ge_int)
  ultimately show ?thesis using x y by (simp add: fl_def)
qed

lemma fl_mono: "x \<le> y \<Longrightarrow> fl x \<le> fl y"
proof -
  assume xy: "x \<le> y"
  consider "0 < x" | "x \<le> 0" "0 \<le> y" | "y < 0" using xy by linarith
  then show ?thesis
  proof cases
    case 1
    then show ?thesis using fl_mono_pos xy by blast
  next
    case 2
    have "0 \<le> fl (- x)" "0 \<le> fl y" using 2 by (simp_all add: fl_nonneg)
    then show ?thesis by (simp add: fl_neg)
  next
    case 3
    then have "fl (- y) \<le> fl (- x)" using xy by (intro fl_mono_pos) auto
    then show ?thesis by (simp add: fl_neg)
  qed
qed

lemma fl_representable:
  assumes "x = of_int k * 2 powi p" and "\<bar>k\<bar> \<le> 2 ^ 53" and "- 1074 \<le> p"
  shows "fl x = x"
proof (cases "x = 0")
  case True
  then show ?thesis by simp
next
  case False
  then have k0: "k \<noteq> 0" using assms(1) by auto
  have ax: "\<bar>x\<bar> = of_int \<bar>k\<bar> * 2 powi p" using assms(1) by (simp add: abs_mult)
  have "\<exists>m. x / 2 powi ulpexp x = of_int m"
  proof (cases "\<bar>k\<bar> = 2 ^ 53")
    case True
    have "\<bar>x\<bar> = 2 ^ 53 * 2 powi p" using ax True by simp
    also have "\<dots> = 2 powi (p + 53)"
      using powi2_add[of p 53] by (simp add: power_int_def)
    finally have axp: "\<bar>x\<bar> = 2 powi (p + 53)" .
    have "ilog2 \<bar>x\<bar> = p + 53"
      unfolding axp by (intro ilog2_unique) (auto intro: powi2_less)
    then have u: "ulpexp x = p + 1" using assms(3) by (simp add: ulpexp_def)
    have "k = 2 ^ 53 \<or> k = - (2 ^ 53)" using True by linarith
    then have "k = 2 ^ 52 * 2 \<or> k = (- (2 ^ 52)) * 2" by simp
    then obtain j where j: "k = j * 2" by blast
    have "x / 2 powi ulpexp x = x / 2 powi (p + 1)" by (simp only: u)
    also have "\<dots> = of_int j" unfolding assms(1) j by (simp add: powi2_add)
    finally have "x / 2 powi ulpexp x = of_int j" .
    then show ?thesis by blast
  next
    case False
    then have "\<bar>k\<bar> < 2 ^ 53" using assms(2) by linarith
    then have "(of_int \<bar>k\<bar> :: rat) < of_int (2 ^ 53)" by (simp only: of_int_less_iff)
    then have "\<bar>x\<bar> < 2 ^ 53 * 2 powi p" unfolding ax by simp
    also have "\<dots> = 2 powi (p + 52 + 1)"
      using powi2_add[of p 53] by (simp add: power_int_def add.commute)
    finally have lt: "\<bar>x\<bar> < 2 powi (p + 52 + 1)" .
    have "2 powi (ilog2 \<bar>x\<bar>) < (2 powi (p + 52 + 1) :: rat)"
      using ilog2_bounds(1)[of "\<bar>x\<bar>"] lt \<open>x \<noteq> 0\<close> by linarith
    then have "ilog2 \<bar>x\<bar> < p + 52 + 1"
      using powi2_le[of "p + 52 + 1" "ilog2 \<bar>x\<bar>"] by (meson not_le)
    then have "ulpexp x \<le> p" using assms(3) by (simp add: ulpexp_def)
    then obtain j where "(2 powi p :: rat) = of_int j * 2 powi ulpexp x"
      using powi2_split by blast
    then have "x = of_int (k * j) * 2 powi ulpexp x" using assms(1) by simp
    then have "x / 2 powi ulpexp x = of_int (k * j)" by (metis nonzero_eq_divide_eq powi2_pos less_irrefl)
    then show ?thesis by blast
  qed
  then obtain m where m: "x / 2 powi ulpexp x = of_int m" by blast
  then have "x = of_int m * 2 powi ulpexp x" by (simp add: nonzero_divide_eq_eq)
  then show ?thesis using False m by (simp add: fl_def)
qed

lemma fl_form:
  obtains k p where "fl x = of_int k * 2 powi p" and "\<bar>k\<bar> \<le> 2 ^ 53" and "- 1074 \<le> p"
proof (cases "x = 0")
  case True
  then show ?thesis using that[of 0 0] by simp
next
  case False
  let ?u = "ulpexp x" and ?k = "rne (x / 2 powi ulpexp x)"
  have "\<bar>x\<bar> < 2 powi (ilog2 \<bar>x\<bar> + 1)" using False by (intro ilog2_bounds) simp
  also have "\<dots> \<le> 2 powi (?u + 53)" by (intro powi2_le) (simp add: ulpexp_def)
  also have "\<dots> = 2 ^ 53 * 2 powi ?u" using powi2_add[of ?u 53] by (simp add: power_int_def)
  finally have "\<bar>x\<bar> / 2 powi ?u < of_int (2 ^ 53)" by (simp add: pos_divide_less_eq)
  then have b: "x / 2 powi ?u \<le> of_int (2 ^ 53)" "of_int (- (2 ^ 53)) \<le> x / 2 powi ?u"
  proof -
    have "\<bar>x / 2 powi ?u\<bar> < of_int (2 ^ 53)"
      using \<open>\<bar>x\<bar> / 2 powi ?u < of_int (2 ^ 53)\<close> by simp
    then show "x / 2 powi ?u \<le> of_int (2 ^ 53)" "of_int (- (2 ^ 53)) \<le> x / 2 powi ?u"
      unfolding abs_less_iff of_int_minus by linarith+
  qed
  have "\<bar>?k\<bar> \<le> 2 ^ 53" using rne_le_int[OF b(1)] rne_ge_int[OF b(2)] by linarith
  moreover have "- 1074 \<le> ?u" by (simp add: ulpexp_def)
  ultimately show ?thesis using False that[of ?k ?u] by (simp add: fl_def)
qed

lemma fl_idem [simp]: "fl (fl x) = fl x"
  by (rule fl_form[of x]) (rule fl_representable)

lemma fl_of_int: "\<bar>k\<bar> \<le> 2 ^ 53 \<Longrightarrow> fl (of_int k) = of_int k"
  by (rule fl_representable[of _ k 0]) auto

lemma fl_error: "2 powi (- 1022) \<le> \<bar>x\<bar> \<Longrightarrow> \<bar>fl x - x\<bar> \<le> \<bar>x\<bar> / 2 ^ 53"
proof -
  assume a: "2 powi (- 1022) \<le> \<bar>x\<bar>"
  have x0: "x \<noteq> 0" using a powi2_pos[of "- 1022"] by auto
  then have xp: "0 < \<bar>x\<bar>" by simp
  have "(2 powi (- 1022) :: rat) < 2 powi (ilog2 \<bar>x\<bar> + 1)" using a ilog2_bounds(2)[OF xp] by linarith
  then have "- 1022 < ilog2 \<bar>x\<bar> + 1"
    using powi2_le[of "ilog2 \<bar>x\<bar> + 1" "- 1022"] by (meson not_le)
  then have u: "ulpexp x = ilog2 \<bar>x\<bar> - 52" by (simp add: ulpexp_def)
  let ?U = "2 powi ulpexp x :: rat"
  have "\<bar>of_int (rne (x / ?U)) - x / ?U\<bar> \<le> 1 / 2"
    using rne_bounds[of "x / ?U"] by linarith
  then have "\<bar>of_int (rne (x / ?U)) - x / ?U\<bar> * ?U \<le> 1 / 2 * ?U" by (intro mult_right_mono) auto
  moreover have "\<bar>of_int (rne (x / ?U)) - x / ?U\<bar> * ?U = \<bar>fl x - x\<bar>"
  proof -
    have "\<bar>of_int (rne (x / ?U)) - x / ?U\<bar> * ?U = \<bar>(of_int (rne (x / ?U)) - x / ?U) * ?U\<bar>"
      by (simp add: abs_mult)
    also have "(of_int (rne (x / ?U)) - x / ?U) * ?U = fl x - x"
      using x0 by (simp add: fl_def left_diff_distrib)
    finally show ?thesis .
  qed
  moreover have "?U * 2 ^ 52 \<le> \<bar>x\<bar>"
  proof -
    have "?U * 2 ^ 52 = 2 powi (ulpexp x + 52)" using powi2_add[of "ulpexp x" 52] by (simp add: power_int_def)
    also have "\<dots> = 2 powi (ilog2 \<bar>x\<bar>)" using u by simp
    finally show ?thesis using ilog2_bounds(1)[OF xp] by simp
  qed
  ultimately show ?thesis by simp
qed


subsection \<open>What the numeric code relies on\<close>

text \<open>
  The clients below use only these laws of rounding: it is monotone, a projection, odd and
  exact at zero.
\<close>

locale rounding =
  fixes rd :: "rat \<Rightarrow> rat"
  assumes rd_mono: "x \<le> y \<Longrightarrow> rd x \<le> rd y"
    and rd_idem: "rd (rd x) = rd x"
    and rd_odd: "rd (- x) = - rd x"
    and rd_zero: "rd 0 = 0"
begin

lemma rd_upper: "x \<le> u \<Longrightarrow> rd u = u \<Longrightarrow> rd x \<le> u"
  using rd_mono[of x u] by simp

lemma rd_lower: "l \<le> x \<Longrightarrow> rd l = l \<Longrightarrow> l \<le> rd x"
  using rd_mono[of l x] by simp

lemma rd_nonneg: "0 \<le> x \<Longrightarrow> 0 \<le> rd x"
  by (rule rd_lower) (simp_all add: rd_zero)

lemma rd_nonpos: "x \<le> 0 \<Longrightarrow> rd x \<le> 0"
  by (rule rd_upper) (simp_all add: rd_zero)

lemma rd_sub_le: "0 \<le> b \<Longrightarrow> rd a = a \<Longrightarrow> rd (a - b) \<le> a"
  by (rule rd_upper) simp_all

lemma rd_add_ge: "0 \<le> b \<Longrightarrow> rd a = a \<Longrightarrow> a \<le> rd (a + b)"
  by (rule rd_lower) simp_all

end

interpretation binary64: rounding fl
  by unfold_locales (simp_all add: fl_mono fl_neg)

section \<open>The Number type\<close>

datatype jsnum = NaN | PInf | NInf | Fin rat

definition rnd :: "rat \<Rightarrow> jsnum" where
  "rnd x = (let r = fl x in if 2 ^ 1024 \<le> r then PInf else if r \<le> - (2 ^ 1024) then NInf else Fin r)"

definition signed_inf :: "rat \<Rightarrow> jsnum" where
  "signed_inf s = (if 0 < s then PInf else if s < 0 then NInf else NaN)"

instantiation jsnum :: "{plus, minus, uminus, times, inverse, ord, zero, one}"
begin

definition zero_jsnum :: jsnum where
  "zero_jsnum = Fin 0"

definition one_jsnum :: jsnum where
  "one_jsnum = Fin 1"

fun plus_jsnum :: "jsnum \<Rightarrow> jsnum \<Rightarrow> jsnum" where
  "plus_jsnum NaN _ = NaN"
| "plus_jsnum _ NaN = NaN"
| "plus_jsnum PInf NInf = NaN"
| "plus_jsnum NInf PInf = NaN"
| "plus_jsnum PInf _ = PInf"
| "plus_jsnum _ PInf = PInf"
| "plus_jsnum NInf _ = NInf"
| "plus_jsnum _ NInf = NInf"
| "plus_jsnum (Fin x) (Fin y) = rnd (x + y)"

fun uminus_jsnum :: "jsnum \<Rightarrow> jsnum" where
  "uminus_jsnum NaN = NaN"
| "uminus_jsnum PInf = NInf"
| "uminus_jsnum NInf = PInf"
| "uminus_jsnum (Fin x) = Fin (- x)"

definition minus_jsnum :: "jsnum \<Rightarrow> jsnum \<Rightarrow> jsnum" where
  "minus_jsnum a b = a + (- b)"

fun times_jsnum :: "jsnum \<Rightarrow> jsnum \<Rightarrow> jsnum" where
  "times_jsnum NaN _ = NaN"
| "times_jsnum _ NaN = NaN"
| "times_jsnum PInf PInf = PInf"
| "times_jsnum PInf NInf = NInf"
| "times_jsnum NInf PInf = NInf"
| "times_jsnum NInf NInf = PInf"
| "times_jsnum PInf (Fin y) = signed_inf y"
| "times_jsnum (Fin x) PInf = signed_inf x"
| "times_jsnum NInf (Fin y) = signed_inf (- y)"
| "times_jsnum (Fin x) NInf = signed_inf (- x)"
| "times_jsnum (Fin x) (Fin y) = rnd (x * y)"

fun divide_jsnum :: "jsnum \<Rightarrow> jsnum \<Rightarrow> jsnum" where
  "divide_jsnum NaN _ = NaN"
| "divide_jsnum _ NaN = NaN"
| "divide_jsnum (Fin x) (Fin y) = (if y = 0 then signed_inf x else rnd (x / y))"
| "divide_jsnum (Fin x) _ = Fin 0"
| "divide_jsnum PInf (Fin y) = (if 0 \<le> y then PInf else NInf)"
| "divide_jsnum NInf (Fin y) = (if 0 \<le> y then NInf else PInf)"
| "divide_jsnum _ _ = NaN"

definition inverse_jsnum :: "jsnum \<Rightarrow> jsnum" where
  "inverse_jsnum a = Fin 1 div a"

fun less_jsnum :: "jsnum \<Rightarrow> jsnum \<Rightarrow> bool" where
  "less_jsnum NaN _ = False"
| "less_jsnum _ NaN = False"
| "less_jsnum (Fin x) (Fin y) = (x < y)"
| "less_jsnum NInf NInf = False"
| "less_jsnum NInf _ = True"
| "less_jsnum PInf _ = False"
| "less_jsnum _ PInf = True"
| "less_jsnum (Fin _) NInf = False"

definition less_eq_jsnum :: "jsnum \<Rightarrow> jsnum \<Rightarrow> bool" where
  "less_eq_jsnum a b = (a < b \<or> (a = b \<and> a \<noteq> NaN))"

instance ..

end

text \<open>\<open>===\<close> on numbers, \<open>Math.min\<close>, \<open>Math.max\<close>, \<open>Math.abs\<close>, \<open>Math.round\<close>, \<open>Math.floor\<close>.\<close>

definition jeq :: "jsnum \<Rightarrow> jsnum \<Rightarrow> bool" where
  "jeq a b = (a = b \<and> a \<noteq> NaN)"

definition jmin :: "jsnum \<Rightarrow> jsnum \<Rightarrow> jsnum" where
  "jmin a b = (if a = NaN \<or> b = NaN then NaN else if a \<le> b then a else b)"

definition jmax :: "jsnum \<Rightarrow> jsnum \<Rightarrow> jsnum" where
  "jmax a b = (if a = NaN \<or> b = NaN then NaN else if a \<le> b then b else a)"

fun jabs :: "jsnum \<Rightarrow> jsnum" where
  "jabs NaN = NaN"
| "jabs PInf = PInf"
| "jabs NInf = PInf"
| "jabs (Fin x) = Fin \<bar>x\<bar>"

fun jround :: "jsnum \<Rightarrow> jsnum" where
  "jround (Fin x) = Fin (of_int \<lfloor>x + 1 / 2\<rfloor>)"
| "jround v = v"

fun jfloor :: "jsnum \<Rightarrow> jsnum" where
  "jfloor (Fin x) = Fin (of_int \<lfloor>x\<rfloor>)"
| "jfloor v = v"

fun is_finite :: "jsnum \<Rightarrow> bool" where
  "is_finite (Fin _) = True"
| "is_finite _ = False"

text \<open>\<open>Number.isInteger\<close>, \<open>Number.isSafeInteger\<close>, \<open>BigInt(number)\<close> and \<open>Number(bigint)\<close>.\<close>

fun is_integer :: "jsnum \<Rightarrow> bool" where
  "is_integer (Fin x) = (of_int \<lfloor>x\<rfloor> = x)"
| "is_integer _ = False"

fun is_safe_integer :: "jsnum \<Rightarrow> bool" where
  "is_safe_integer (Fin x) = (of_int \<lfloor>x\<rfloor> = x \<and> \<bar>x\<bar> \<le> 9007199254740991)"
| "is_safe_integer _ = False"

fun to_bigint :: "jsnum \<Rightarrow> int" where
  "to_bigint (Fin x) = \<lfloor>x\<rfloor>"
| "to_bigint _ = 0"

definition of_bigint :: "int \<Rightarrow> jsnum" where
  "of_bigint k = rnd (of_int k)"

text \<open>A decimal literal of the source.\<close>

definition lit :: "rat \<Rightarrow> jsnum" where
  "lit q = rnd q"

text \<open>Falsy numbers are \<open>NaN\<close> and zero: \<open>a || b\<close> on numbers.\<close>

definition jor :: "jsnum \<Rightarrow> jsnum \<Rightarrow> jsnum" where
  "jor a b = (if a = NaN \<or> a = Fin 0 then b else a)"

text \<open>The values a Number can have.\<close>

fun wf_num :: "jsnum \<Rightarrow> bool" where
  "wf_num (Fin x) = (is_double x \<and> \<bar>x\<bar> < 2 ^ 1024)"
| "wf_num _ = True"

subsection \<open>Laws\<close>

lemma le_Fin [simp, js_simps]: "Fin x \<le> Fin y \<longleftrightarrow> x \<le> y"
  by (auto simp: less_eq_jsnum_def)

lemma le_NaN [simp]: "\<not> NaN \<le> a" "\<not> a \<le> NaN" "\<not> NaN < a" "\<not> a < NaN"
  by (cases a; simp add: less_eq_jsnum_def)+

lemma le_PInf [simp]: "a \<le> PInf \<longleftrightarrow> a \<noteq> NaN"
  by (cases a) (simp_all add: less_eq_jsnum_def)

lemma PInf_le [simp]: "PInf \<le> a \<longleftrightarrow> a = PInf"
  by (cases a) (simp_all add: less_eq_jsnum_def)

lemma NInf_le [simp]: "NInf \<le> a \<longleftrightarrow> a \<noteq> NaN"
  by (cases a) (simp_all add: less_eq_jsnum_def)

lemma le_NInf [simp]: "a \<le> NInf \<longleftrightarrow> a = NInf"
  by (cases a) (simp_all add: less_eq_jsnum_def)

lemma jle_trans: "a \<le> b \<Longrightarrow> b \<le> c \<Longrightarrow> a \<le> (c :: jsnum)"
  by (cases a; cases b; cases c) (auto simp: less_eq_jsnum_def)

lemma jless_imp_le: "a < b \<Longrightarrow> a \<le> (b :: jsnum)"
  by (simp add: less_eq_jsnum_def)

lemma jnot_le: "a \<noteq> NaN \<Longrightarrow> b \<noteq> NaN \<Longrightarrow> (\<not> a \<le> b) = (b < (a :: jsnum))"
  by (cases a; cases b) (auto simp: less_eq_jsnum_def)

lemma jnot_less: "a \<noteq> NaN \<Longrightarrow> b \<noteq> NaN \<Longrightarrow> (\<not> a < b) = (b \<le> (a :: jsnum))"
  by (cases a; cases b) (auto simp: less_eq_jsnum_def)

lemma jle_refl [simp]: "a \<le> a \<longleftrightarrow> a \<noteq> (NaN :: jsnum)"
  by (cases a) (auto simp: less_eq_jsnum_def)

lemma jmin_Fin [simp, js_simps]: "jmin (Fin x) (Fin y) = Fin (min x y)"
  by (simp add: jmin_def min_def)

lemma jmax_Fin [simp, js_simps]: "jmax (Fin x) (Fin y) = Fin (max x y)"
  by (simp add: jmax_def max_def)

lemma jmin_NaN [simp]: "jmin NaN a = NaN" "jmin a NaN = NaN"
  by (simp_all add: jmin_def)

lemma jmax_NaN [simp]: "jmax NaN a = NaN" "jmax a NaN = NaN"
  by (simp_all add: jmax_def)

lemma jmin_le: "jmin a b \<noteq> NaN \<Longrightarrow> jmin a b \<le> a \<and> jmin a b \<le> b"
  by (cases a; cases b) (auto simp: jmin_def)

lemma jmax_ge: "jmax a b \<noteq> NaN \<Longrightarrow> a \<le> jmax a b \<and> b \<le> jmax a b"
  by (cases a; cases b) (auto simp: jmax_def)

lemma jmin_cases: "jmin a b = NaN \<or> jmin a b = a \<or> jmin a b = b"
  by (simp add: jmin_def)

lemma jmax_cases: "jmax a b = NaN \<or> jmax a b = a \<or> jmax a b = b"
  by (simp add: jmax_def)

lemma rnd_not_NaN [simp]: "rnd x \<noteq> NaN"
  by (simp add: rnd_def Let_def)

lemma wf_rnd [simp]: "wf_num (rnd x)"
  by (auto simp: rnd_def Let_def is_double_def abs_less_iff)

lemma rnd_nonneg: "0 \<le> x \<Longrightarrow> Fin 0 \<le> rnd x"
  using fl_nonneg[of x] by (auto simp: rnd_def Let_def)

lemma rnd_exact: "fl x = x \<Longrightarrow> \<bar>x\<bar> < 2 ^ 1024 \<Longrightarrow> rnd x = Fin x"
  by (auto simp: rnd_def Let_def)

lemma rnd_Fin: "\<bar>fl x\<bar> < 2 ^ 1024 \<Longrightarrow> rnd x = Fin (fl x)"
  by (auto simp: rnd_def Let_def)

lemma wf_signed_inf [simp]: "wf_num (signed_inf s)"
  by (simp add: signed_inf_def)

lemma wf_plus [simp]: "wf_num (a + b)" if "wf_num a" "wf_num b"
  using that by (cases a; cases b) auto

lemma wf_uminus [simp]: "wf_num a \<Longrightarrow> wf_num (- a)"
  by (cases a) (auto simp: is_double_def fl_neg)

lemma wf_minus [simp]: "wf_num a \<Longrightarrow> wf_num b \<Longrightarrow> wf_num (a - b)"
  by (simp add: minus_jsnum_def)

lemma wf_times [simp]: "wf_num a \<Longrightarrow> wf_num b \<Longrightarrow> wf_num (a * b)"
  by (cases a; cases b) auto

lemma wf_divide [simp]: "wf_num a \<Longrightarrow> wf_num b \<Longrightarrow> wf_num (a / b)"
  by (cases a; cases b) (auto simp: is_double_def)

lemma wf_jmin [simp]: "wf_num a \<Longrightarrow> wf_num b \<Longrightarrow> wf_num (jmin a b)"
  by (simp add: jmin_def)

lemma wf_jmax [simp]: "wf_num a \<Longrightarrow> wf_num b \<Longrightarrow> wf_num (jmax a b)"
  by (simp add: jmax_def)

lemma minus_Fin [js_simps]: "Fin x - Fin y = rnd (x - y)"
  by (simp add: minus_jsnum_def)

lemma wf_Fin_small: "\<bar>k\<bar> \<le> 2 ^ 53 \<Longrightarrow> wf_num (Fin (of_int k))"
proof -
  assume k: "\<bar>k\<bar> \<le> 2 ^ 53"
  have "\<bar>of_int k :: rat\<bar> = of_int \<bar>k\<bar>" by simp
  also have "\<dots> \<le> of_int (2 ^ 53)" using k by (simp only: of_int_le_iff)
  also have "\<dots> < (2 ^ 1024 :: rat)" by simp
  finally show ?thesis using fl_of_int[OF k] by (simp add: is_double_def)
qed

lemma wf_Fin_0 [simp]: "wf_num (Fin 0)"
  using wf_Fin_small[of 0] by simp

lemma wf_Fin_1 [simp]: "wf_num (Fin 1)"
  using wf_Fin_small[of 1] by simp

text \<open>Exact evaluation: integers up to \<open>2^53\<close> and their quotients by powers of two.\<close>

lemma rnd_of_int [simp, js_simps]: "\<bar>k\<bar> \<le> 2 ^ 53 \<Longrightarrow> rnd (of_int k) = Fin (of_int k)"
  using wf_Fin_small[of k] by (intro rnd_exact) (simp_all add: is_double_def)

lemma rnd_dyadic:
  assumes "x * 2 ^ n = of_int k" and "\<bar>k\<bar> \<le> 2 ^ 53" and "n \<le> 1074"
  shows "rnd x = Fin x"
proof -
  have x: "x = of_int k * 2 powi (- int n)"
    using assms(1) by (simp add: power_int_minus field_simps)
  have f: "fl x = x" using x assms by (intro fl_representable[of x k "- int n"]) auto
  have "\<bar>x\<bar> * 1 \<le> \<bar>x\<bar> * 2 ^ n" by (intro mult_left_mono) auto
  also have "\<dots> = \<bar>x * 2 ^ n\<bar>" by (simp add: abs_mult)
  also have "\<dots> = of_int \<bar>k\<bar>" unfolding assms(1) by simp
  also have "\<dots> \<le> of_int (2 ^ 53)" using assms(2) by (simp only: of_int_le_iff)
  also have "\<dots> < (2 ^ 1024 :: rat)" by simp
  finally show ?thesis using f by (intro rnd_exact) simp_all
qed

lemma rnd_numeral [simp]: "(numeral k :: int) \<le> 2 ^ 53 \<Longrightarrow> rnd (numeral k) = Fin (numeral k)"
  using rnd_of_int[of "numeral k"] by simp

lemma rnd_neg_numeral [simp]: "(numeral k :: int) \<le> 2 ^ 53 \<Longrightarrow> rnd (- numeral k) = Fin (- numeral k)"
  using rnd_of_int[of "- numeral k"] by simp

lemma rnd_0 [simp]: "rnd 0 = Fin 0"
  using rnd_of_int[of 0] by simp

lemma rnd_1 [simp]: "rnd 1 = Fin 1"
  using rnd_of_int[of 1] by simp

subsection \<open>Non-negative or NaN\<close>

text \<open>Amounts of the engine: a value that is never below zero, unless it is \<open>NaN\<close>.\<close>

definition nn :: "jsnum \<Rightarrow> bool" where
  "nn a \<longleftrightarrow> a = NaN \<or> Fin 0 \<le> a"

lemma nn_simps [simp]: "nn NaN" "nn PInf" "\<not> nn NInf" "nn (Fin x) \<longleftrightarrow> 0 \<le> x"
  by (simp_all add: nn_def)

lemma nn_rnd [intro]: "0 \<le> x \<Longrightarrow> nn (rnd x)"
  by (simp add: nn_def rnd_nonneg)

lemma nn_plus [intro]: "nn a \<Longrightarrow> nn b \<Longrightarrow> nn (a + b)"
  by (cases a; cases b) auto

lemma nn_times [intro]: "nn a \<Longrightarrow> nn b \<Longrightarrow> nn (a * b)"
  by (cases a; cases b) (auto simp: signed_inf_def)

lemma nn_divide [intro]: "nn a \<Longrightarrow> nn b \<Longrightarrow> nn (a / b)"
  by (cases a; cases b) (auto simp: signed_inf_def)

lemma nn_jmin [intro]: "nn a \<Longrightarrow> nn b \<Longrightarrow> nn (jmin a b)"
  by (auto simp: jmin_def)

lemma nn_jmax0 [intro, simp]: "nn (jmax (Fin 0) a)"
  by (cases a) (auto simp: jmax_def)

lemma nn_minus: "b \<le> a \<Longrightarrow> nn (a - b)"
  by (cases a; cases b) (auto simp: minus_jsnum_def intro: nn_rnd)

lemma nn_jround [intro]: "nn a \<Longrightarrow> nn (jround a)"
  by (cases a) auto

lemma minus_le: "wf_num a \<Longrightarrow> nn b \<Longrightarrow> a - b \<noteq> NaN \<Longrightarrow> a - b \<le> a"
proof (cases a; cases b)
  fix x y assume ab: "a = Fin x" "b = Fin y" and w: "wf_num a" and n: "nn b"
  have "fl (x - y) \<le> x" using w n ab by (intro binary64.rd_sub_le) (auto simp: is_double_def)
  then show "a - b \<le> a" using w ab by (auto simp: minus_Fin rnd_def Let_def abs_less_iff)
qed (auto simp: minus_jsnum_def)

end
