(* ===== verification/JsVal.thy ===== *)
theory JsVal
  imports JsNum
begin

text \<open>
  Dynamically typed values: what \<open>JSON.parse\<close>, node-postgres or a caller hands to the
  modelled code. Strings are lists of 8-bit code units (the code's grammars are ASCII; a
  code unit above 255 is outside the model). The section also holds the string primitives
  the code calls: trimming, lower case, \<open>includes\<close>, \<open>startsWith\<close>, code-unit order
  and the string-to-number conversion behind \<open>Number(x)\<close>.
\<close>

datatype jsval =
    JUndef
  | JNull
  | JBool bool
  | JNum jsnum
  | JStr string
  | JArr "jsval list"
  | JObj "(string \<times> jsval) list"

definition nullish :: "jsval \<Rightarrow> bool" where
  "nullish v \<longleftrightarrow> v = JUndef \<or> v = JNull"

text \<open>Property read on an object: an absent property reads as \<open>undefined\<close>.\<close>

fun jprop :: "jsval \<Rightarrow> string \<Rightarrow> jsval" where
  "jprop (JObj m) k = (case map_of m k of None \<Rightarrow> JUndef | Some v \<Rightarrow> v)"
| "jprop _ k = JUndef"

fun truthy :: "jsval \<Rightarrow> bool" where
  "truthy JUndef = False"
| "truthy JNull = False"
| "truthy (JBool b) = b"
| "truthy (JNum n) = (n \<noteq> NaN \<and> n \<noteq> Fin 0)"
| "truthy (JStr s) = (s \<noteq> [])"
| "truthy (JArr _) = True"
| "truthy (JObj _) = True"

section \<open>Strings\<close>

abbreviation code :: "char \<Rightarrow> nat" where
  "code c \<equiv> of_char c"

definition is_space :: "char \<Rightarrow> bool" where
  "is_space c \<longleftrightarrow> code c \<in> {9, 10, 11, 12, 13, 32, 160}"

definition js_trim :: "string \<Rightarrow> string" where
  "js_trim s = rev (dropWhile is_space (rev (dropWhile is_space s)))"

definition lower_char :: "char \<Rightarrow> char" where
  "lower_char c = (if (65 \<le> code c \<and> code c \<le> 90) \<or> (192 \<le> code c \<and> code c \<le> 222 \<and> code c \<noteq> 215)
                   then char_of (code c + 32) else c)"

definition js_lower :: "string \<Rightarrow> string" where
  "js_lower s = map lower_char s"

definition upper_ascii_char :: "char \<Rightarrow> char" where
  "upper_ascii_char c = (if 97 \<le> code c \<and> code c \<le> 122 then char_of (code c - 32) else c)"

definition is_lower_alnum :: "char \<Rightarrow> bool" where
  "is_lower_alnum c \<longleftrightarrow> is_digit c \<or> (97 \<le> code c \<and> code c \<le> 122)"

definition is_alpha :: "char \<Rightarrow> bool" where
  "is_alpha c \<longleftrightarrow> (65 \<le> code c \<and> code c \<le> 90) \<or> (97 \<le> code c \<and> code c \<le> 122)"

definition is_hex_lower :: "char \<Rightarrow> bool" where
  "is_hex_lower c \<longleftrightarrow> is_digit c \<or> (97 \<le> code c \<and> code c \<le> 102)"

fun starts_with :: "string \<Rightarrow> string \<Rightarrow> bool" where
  "starts_with s [] = True"
| "starts_with [] (p # ps) = False"
| "starts_with (c # s) (p # ps) = (c = p \<and> starts_with s ps)"

fun str_includes :: "string \<Rightarrow> string \<Rightarrow> bool" where
  "str_includes [] p = (p = [])"
| "str_includes (c # s) p = (starts_with (c # s) p \<or> str_includes s p)"

text \<open>\<open>a < b\<close> on strings: lexicographic by code unit.\<close>

fun str_less :: "string \<Rightarrow> string \<Rightarrow> bool" where
  "str_less _ [] = False"
| "str_less [] (_ # _) = True"
| "str_less (a # s) (b # t) = (code a < code b \<or> (code a = code b \<and> str_less s t))"

definition str_le :: "string \<Rightarrow> string \<Rightarrow> bool" where
  "str_le a b \<longleftrightarrow> \<not> str_less b a"

lemma code_inj [simp]: "code a = code b \<longleftrightarrow> a = b"
  by (rule of_char_eq_iff)

lemma str_less_irrefl [simp]: "\<not> str_less a a"
  by (induction a) auto

lemma str_less_trans: "str_less a b \<Longrightarrow> str_less b c \<Longrightarrow> str_less a c"
proof (induction a b arbitrary: c rule: str_less.induct)
  case (1 uu)
  then show ?case by simp
next
  case (2 b t)
  then show ?case by (cases c) auto
next
  case (3 a s b t)
  then show ?case by (cases c) auto
qed

lemma str_less_linear: "str_less a b \<or> a = b \<or> str_less b a"
  by (induction a b rule: str_less.induct) (auto simp: neq_Nil_conv nat_neq_iff, (metis list.exhaust str_less.simps(2))+)

lemma str_less_asym: "str_less a b \<Longrightarrow> \<not> str_less b a"
  using str_less_trans str_less_irrefl by blast

lemma str_le_iff: "str_le a b \<longleftrightarrow> a = b \<or> str_less a b"
  using str_less_linear[of a b] str_less_asym[of a b] by (auto simp: str_le_def)

lemma str_le_refl [simp]: "str_le a a"
  by (simp add: str_le_def)

lemma str_le_trans: "str_le a b \<Longrightarrow> str_le b c \<Longrightarrow> str_le a c"
  by (auto simp: str_le_iff intro: str_less_trans)

lemma str_le_antisym: "str_le a b \<Longrightarrow> str_le b a \<Longrightarrow> a = b"
  by (auto simp: str_le_iff dest: str_less_asym)

lemma str_le_total: "str_le a b \<or> str_le b a"
  using str_less_linear[of a b] by (auto simp: str_le_iff)

interpretation by_string: comparator str_le
  by unfold_locales (auto intro: str_le_trans simp: str_le_total)

lemma comparator_key: "comparator (\<lambda>a b. str_le (f a) (f b))"
  by unfold_locales (auto intro: str_le_trans simp: str_le_total)

lemma starts_with_iff: "starts_with s p \<longleftrightarrow> (\<exists>t. s = p @ t)"
  by (induction s p rule: starts_with.induct) auto

lemma str_includes_iff: "str_includes s p \<longleftrightarrow> (\<exists>u t. s = u @ p @ t)"
proof (induction s p rule: str_includes.induct)
  case (1 p)
  then show ?case by auto
next
  case (2 c s p)
  show ?case
  proof
    assume "str_includes (c # s) p"
    then consider "starts_with (c # s) p" | "str_includes s p" by auto
    then show "\<exists>u t. c # s = u @ p @ t"
    proof cases
      case 1
      then show ?thesis unfolding starts_with_iff by (metis append_Nil)
    next
      case 2
      with "2.IH" show ?thesis by (metis append_Cons)
    qed
  next
    assume "\<exists>u t. c # s = u @ p @ t"
    then obtain u t where ut: "c # s = u @ p @ t" by blast
    show "str_includes (c # s) p"
    proof (cases u)
      case Nil
      with ut have "starts_with (c # s) p" by (auto simp: starts_with_iff)
      then show ?thesis by simp
    next
      case (Cons a u')
      with ut "2.IH" show ?thesis by auto
    qed
  qed
qed

section \<open>Number(x)\<close>

text \<open>
  \<open>StringNumericLiteral\<close>: after trimming, empty is 0, then an optionally signed
  \<open>Infinity\<close> or decimal literal (digits, fraction, exponent), or an unsigned \<open>0x\<close>,
  \<open>0o\<close>, \<open>0b\<close> integer; anything else is \<open>NaN\<close>. The mathematical value is rounded
  once.
\<close>

definition split_digits :: "string \<Rightarrow> string \<times> string" where
  "split_digits s = (takeWhile is_digit s, dropWhile is_digit s)"

fun parse_exp :: "string \<Rightarrow> int option" where
  "parse_exp [] = Some 0"
| "parse_exp (c # s) =
     (if c \<in> {CHR ''e'', CHR ''E''} then
        (let (neg, ds) = (case s of [] \<Rightarrow> (False, []) | x # xs \<Rightarrow>
              if x = CHR ''-'' then (True, xs) else if x = CHR ''+'' then (False, xs) else (False, s))
         in if ds \<noteq> [] \<and> list_all is_digit ds
            then Some (if neg then - int (parse_nat ds) else int (parse_nat ds)) else None)
      else None)"

definition parse_decimal :: "string \<Rightarrow> rat option" where
  "parse_decimal s =
     (let (ip, r) = split_digits s;
          (fp, r') = (case r of [] \<Rightarrow> ([], []) | c # cs \<Rightarrow> if c = CHR ''.'' then split_digits cs else ([], r))
      in if ip = [] \<and> fp = [] then None
         else case parse_exp r' of None \<Rightarrow> None
              | Some e \<Rightarrow> Some (of_nat (parse_nat (ip @ fp)) * 10 powi (e - int (length fp))))"

definition radix_digit :: "char \<Rightarrow> nat" where
  "radix_digit c = (if is_digit c then digit_val c
     else if 97 \<le> code c \<and> code c \<le> 102 then code c - 87
     else if 65 \<le> code c \<and> code c \<le> 70 then code c - 55 else 99)"

definition parse_radix :: "nat \<Rightarrow> string \<Rightarrow> jsnum" where
  "parse_radix b s = (if s \<noteq> [] \<and> list_all (\<lambda>c. radix_digit c < b) s
     then rnd (of_nat (foldl (\<lambda>n c. b * n + radix_digit c) 0 s)) else NaN)"

definition parse_unsigned :: "string \<Rightarrow> jsnum" where
  "parse_unsigned s = (if s = ''Infinity'' then PInf
     else case parse_decimal s of None \<Rightarrow> NaN | Some q \<Rightarrow> rnd q)"

definition string_to_number :: "string \<Rightarrow> jsnum" where
  "string_to_number str = (let s = js_trim str in
     if s = [] then Fin 0
     else if hd s = CHR ''-'' then - parse_unsigned (tl s)
     else if hd s = CHR ''+'' then parse_unsigned (tl s)
     else if take 2 s \<in> {''0x'', ''0X''} then parse_radix 16 (drop 2 s)
     else if take 2 s \<in> {''0o'', ''0O''} then parse_radix 8 (drop 2 s)
     else if take 2 s \<in> {''0b'', ''0B''} then parse_radix 2 (drop 2 s)
     else parse_unsigned s)"

text \<open>
  \<open>Number(v)\<close>. An array converts through \<open>String(v)\<close>: empty gives 0, one element gives
  that element's conversion (\<open>null\<close> and \<open>undefined\<close> print as the empty string, a boolean
  as a word), two or more contain a comma. A plain object prints as
  \<open>[object Object]\<close>.
\<close>

fun to_number :: "jsval \<Rightarrow> jsnum" where
  "to_number JUndef = NaN"
| "to_number JNull = Fin 0"
| "to_number (JBool b) = (if b then Fin 1 else Fin 0)"
| "to_number (JNum n) = n"
| "to_number (JStr s) = string_to_number s"
| "to_number (JArr []) = Fin 0"
| "to_number (JArr [v]) = (case v of JUndef \<Rightarrow> Fin 0 | JBool _ \<Rightarrow> NaN | _ \<Rightarrow> to_number v)"
| "to_number (JArr _) = NaN"
| "to_number (JObj _) = NaN"

fun wf_val :: "jsval \<Rightarrow> bool" where
  "wf_val (JNum n) = wf_num n"
| "wf_val (JArr xs) = list_all wf_val xs"
| "wf_val (JObj m) = list_all (\<lambda>p. wf_val (snd p)) m"
| "wf_val _ = True"

lemma wf_parse_unsigned [simp]: "wf_num (parse_unsigned s)"
  by (simp add: parse_unsigned_def split: option.splits)

lemma wf_parse_radix [simp]: "wf_num (parse_radix b s)"
  by (simp add: parse_radix_def)

lemma wf_string_to_number [simp]: "wf_num (string_to_number s)"
  by (simp add: string_to_number_def Let_def del: wf_num.simps(1))

lemma wf_to_number [simp]: "wf_val v \<Longrightarrow> wf_num (to_number v)"
  by (induction v rule: to_number.induct) (auto simp del: wf_num.simps(1) split: jsval.splits)

text \<open>\<open>arr(value)\<close>: the array, or the empty array for anything else.\<close>

fun jarr :: "jsval \<Rightarrow> jsval list" where
  "jarr (JArr xs) = xs"
| "jarr _ = []"

text \<open>\<open>array.includes(string)\<close> and \<open>every element is a string\<close>.\<close>

definition has_str :: "jsval list \<Rightarrow> string \<Rightarrow> bool" where
  "has_str xs s \<longleftrightarrow> JStr s \<in> set xs"

fun is_str :: "jsval \<Rightarrow> bool" where
  "is_str (JStr _) = True"
| "is_str _ = False"

end
