(* ===== verification/SharedValidation.thy ===== *)
theory SharedValidation
  imports JsVal
begin

text \<open>
  \<open>api/src/shared_expenses/validation.js\<close>: the checks every shared-expense module runs on
  untrusted JSON, with their error codes. A failed check is \<open>Inl (Failure code field)\<close>, the
  \<open>SharedExpenseError\<close> the code throws. Amounts are \<open>BigInt\<close>s, hence \<open>int\<close>.
\<close>

datatype failure = Failure (fcode: string) (ffield: string) | JsTypeError

definition MAX_EXPENSE_MINOR :: int where
  "MAX_EXPENSE_MINOR = 1000000000"

definition MAX_AGGREGATE_MINOR :: int where
  "MAX_AGGREGATE_MINOR = 9007199254740991"

text \<open>A property read \<open>value.key\<close>: of \<open>undefined\<close> and \<open>null\<close> it is a \<open>TypeError\<close>.\<close>

definition get :: "jsval \<Rightarrow> string \<Rightarrow> failure + jsval" where
  "get v k = (if nullish v then Inl JsTypeError else Inr (jprop v k))"

lemma get_Inr [simp]: "\<not> nullish v \<Longrightarrow> get v k = Inr (jprop v k)"
  by (simp add: get_def)

lemma get_eq_Inr [simp]: "get v k = Inr x \<longleftrightarrow> \<not> nullish v \<and> x = jprop v k"
  by (auto simp: get_def)

lemma nullish_JObj [simp]: "\<not> nullish (JObj m)"
  by (simp add: nullish_def)

text \<open>\<open>record(value, keys, field, code, optional)\<close>: a plain object with exactly these keys.\<close>

definition v_record :: "jsval \<Rightarrow> string list \<Rightarrow> string \<Rightarrow> string \<Rightarrow> string list \<Rightarrow> failure + unit" where
  "v_record v ks field cd opt = (case v of
      JObj m \<Rightarrow> echeck (list_all (\<lambda>k. k \<in> fst ` set m) ks
                      \<and> list_all (\<lambda>p. fst p \<in> set (ks @ opt)) m) (Failure cd field)
    | _ \<Rightarrow> Inl (Failure cd field))"

abbreviation v_record0 :: "jsval \<Rightarrow> string list \<Rightarrow> string \<Rightarrow> failure + unit" where
  "v_record0 v ks field \<equiv> v_record v ks field ''INVALID_INPUT'' []"

text \<open>The grammar \<open>^(0|[1-9][0-9]*)$\<close>.\<close>

definition is_decimal :: "string \<Rightarrow> bool" where
  "is_decimal s \<longleftrightarrow> s = ''0'' \<or> (s \<noteq> [] \<and> list_all is_digit s \<and> hd s \<noteq> CHR ''0'')"

text \<open>\<open>amount(value, field, {max, positive, overflow})\<close>.\<close>

definition v_amount :: "jsval \<Rightarrow> string \<Rightarrow> int \<Rightarrow> bool \<Rightarrow> string \<Rightarrow> failure + int" where
  "v_amount v field mx positive overflow = (case v of
      JStr s \<Rightarrow>
        if length s > 16 \<or> \<not> is_decimal s then Inl (Failure ''INVALID_AMOUNT'' field)
        else let parsed = int (parse_nat s) in
          if positive \<and> parsed = 0 then Inl (Failure ''INVALID_AMOUNT'' field)
          else if parsed > mx then Inl (Failure overflow field)
          else Inr parsed
    | _ \<Rightarrow> Inl (Failure ''INVALID_AMOUNT'' field))"

abbreviation v_amount0 :: "jsval \<Rightarrow> string \<Rightarrow> bool \<Rightarrow> failure + int" where
  "v_amount0 v field positive \<equiv> v_amount v field MAX_EXPENSE_MINOR positive ''AMOUNT_LIMIT_EXCEEDED''"

abbreviation v_aggregate :: "jsval \<Rightarrow> string \<Rightarrow> failure + int" where
  "v_aggregate v field \<equiv> v_amount v field MAX_AGGREGATE_MINOR False ''AGGREGATE_LIMIT_EXCEEDED''"

text \<open>The member grammar \<open>^[A-Za-z0-9][A-Za-z0-9_-]*$\<close>, at most 64 long.\<close>

definition is_alnum :: "char \<Rightarrow> bool" where
  "is_alnum c \<longleftrightarrow> is_digit c \<or> is_alpha c"

definition is_member_id :: "string \<Rightarrow> bool" where
  "is_member_id s \<longleftrightarrow> length s \<le> 64 \<and> s \<noteq> [] \<and> is_alnum (hd s)
     \<and> list_all (\<lambda>c. is_alnum c \<or> c = CHR ''_'' \<or> c = CHR ''-'') (tl s)"

definition v_member :: "jsval \<Rightarrow> string \<Rightarrow> failure + string" where
  "v_member v field = (case v of
      JStr s \<Rightarrow> if is_member_id s then Inr s else Inl (Failure ''INVALID_MEMBER_ID'' field)
    | _ \<Rightarrow> Inl (Failure ''INVALID_MEMBER_ID'' field))"

definition v_currency :: "jsval \<Rightarrow> failure + unit" where
  "v_currency v = echeck (v = JStr ''INR'') (Failure ''UNSUPPORTED_CURRENCY'' ''currency'')"

text \<open>
  \<open>order(value, members, field)\<close>: a permutation of \<open>members\<close>; the result is the order itself,
  from which \<open>rank\<close> reads a member's index as the returned \<open>Map\<close> does.
\<close>

fun str_of :: "jsval \<Rightarrow> string" where
  "str_of (JStr s) = s"
| "str_of _ = []"

definition v_order :: "jsval \<Rightarrow> string list \<Rightarrow> string \<Rightarrow> failure + string list" where
  "v_order v members field = (case v of
      JArr xs \<Rightarrow> if length xs = length (dedup members) \<and> distinct xs
                   \<and> list_all (\<lambda>x. is_str x \<and> str_of x \<in> set members) xs
                 then Inr (map str_of xs) else Inl (Failure ''INVALID_TIE_ORDER'' field)
    | _ \<Rightarrow> Inl (Failure ''INVALID_TIE_ORDER'' field))"

fun rank :: "string list \<Rightarrow> string \<Rightarrow> nat" where
  "rank [] x = 0"
| "rank (y # ys) x = (if y = x then 0 else Suc (rank ys x))"

text \<open>\<open>count(value, max, code, field)\<close>: an array of 1 to \<open>max\<close> entries.\<close>

definition v_count :: "jsval \<Rightarrow> nat \<Rightarrow> string \<Rightarrow> string \<Rightarrow> failure + jsval list" where
  "v_count v mx cd field = (case v of
      JArr xs \<Rightarrow> if length xs < 1 \<or> length xs > mx then Inl (Failure cd field) else Inr xs
    | _ \<Rightarrow> Inl (Failure cd field))"

text \<open>The path of an array element in an error, \<open>field[i]\<close> and \<open>field[i].key\<close>.\<close>

definition at_index :: "string \<Rightarrow> nat \<Rightarrow> string" where
  "at_index field i = field @ ''['' @ dec_digits i @ '']''"

definition at_key :: "string \<Rightarrow> string \<Rightarrow> string" where
  "at_key field k = field @ ''.'' @ k"

section \<open>What an accepted value looks like\<close>

named_theorems accepted \<open>what each check guarantees when it passes\<close>

lemma v_record_Inr [accepted]:
  "v_record v ks field cd opt = Inr u \<Longrightarrow>
     \<exists>m. v = JObj m \<and> set ks \<subseteq> fst ` set m \<and> fst ` set m \<subseteq> set ks \<union> set opt"
  by (cases v) (auto simp: v_record_def list_all_iff)

lemma v_record_object: "v_record v ks field cd opt = Inr u \<Longrightarrow> \<not> nullish v"
  using v_record_Inr by fastforce

lemma v_amount_Inr [accepted]:
  "v_amount v field mx positive ov = Inr n \<Longrightarrow>
     0 \<le> n \<and> n \<le> mx \<and> (positive \<longrightarrow> 0 < n) \<and> (\<exists>s. v = JStr s \<and> is_decimal s \<and> n = int (parse_nat s))"
  by (cases v) (auto simp: v_amount_def Let_def split: if_splits)

lemma v_member_Inr [accepted]: "v_member v field = Inr s \<Longrightarrow> v = JStr s \<and> is_member_id s"
  by (cases v) (auto simp: v_member_def split: if_splits)

lemma v_count_Inr [accepted]:
  "v_count v mx cd field = Inr xs \<Longrightarrow> v = JArr xs \<and> 1 \<le> length xs \<and> length xs \<le> mx"
  by (cases v) (auto simp: v_count_def Suc_le_eq split: if_splits)

lemma v_order_Inr [accepted]:
  assumes "v_order v members field = Inr ord"
  shows "distinct ord \<and> set ord = set members \<and> v = JArr (map JStr ord)"
proof -
  from assms obtain xs where v: "v = JArr xs" and len: "length xs = length (dedup members)"
    and d: "distinct xs" and all: "\<forall>x \<in> set xs. is_str x \<and> str_of x \<in> set members"
    and o: "ord = map str_of xs"
    by (cases v) (auto simp: v_order_def list_all_iff split: if_splits)
  have js: "x = JStr (str_of x)" if "x \<in> set xs" for x
    using all that by (cases x) auto
  have xs: "xs = map JStr ord"
    unfolding o map_map by (rule sym, rule map_idI) (use js in auto)
  have do: "distinct ord" using d unfolding xs by (simp add: distinct_map)
  have sub: "set ord \<subseteq> set members" using all by (auto simp: o)
  have "card (set ord) = card (set members)"
    using do len distinct_card[of "dedup members"] distinct_card[of ord] by (simp add: o)
  then have "set ord = set members" using sub by (simp add: card_subset_eq)
  with do v xs show ?thesis by simp
qed

lemma rank_less: "x \<in> set ord \<Longrightarrow> rank ord x < length ord"
  by (induction ord) auto

lemma rank_inj: "x \<in> set ord \<Longrightarrow> rank ord x = rank ord y \<Longrightarrow> x = y"
  by (induction ord) (auto split: if_splits)

text \<open>Printing then reading an amount is the identity below the width limit.\<close>

lemma hd_dec_digits: "0 < n \<Longrightarrow> hd (dec_digits n) \<noteq> CHR ''0''"
proof (induction n rule: dec_digits.induct)
  case (1 n)
  have z: "char_of (48 + n) \<noteq> CHR ''0''" if "0 < n" "n < 10"
  proof
    assume "char_of (48 + n) = CHR ''0''"
    then have "code (char_of (48 + n) :: char) = code (CHR ''0'')" by simp
    then show False using that by simp
  qed
  show ?case
  proof (cases "n < 10")
    case True
    then show ?thesis using z 1(2) by (subst dec_digits.simps) simp
  next
    case False
    then have "0 < n div 10" by simp
    with 1 False show ?thesis by (subst dec_digits.simps) simp
  qed
qed

lemma is_decimal_dec_digits [simp]: "is_decimal (dec_digits n)"
proof (cases "n = 0")
  case True
  moreover have "char_of (48 :: nat) = CHR ''0''" by code_simp
  ultimately show ?thesis by (simp add: is_decimal_def dec_digits.simps)
next
  case False
  then show ?thesis using hd_dec_digits[of n] dec_digits_all[of n]
    by (simp add: is_decimal_def list_all_iff)
qed


section \<open>Checks fail with an error code, never with a TypeError\<close>

definition no_crash :: "failure + 'a \<Rightarrow> bool" where
  "no_crash m \<longleftrightarrow> m \<noteq> Inl JsTypeError"

named_theorems no_crash_intros \<open>composition rules for no_crash\<close>

lemma no_crash_Inr [simp, no_crash_intros]: "no_crash (Inr a)"
  by (simp add: no_crash_def)

lemma no_crash_Failure [simp, no_crash_intros]: "no_crash (Inl (Failure cd f))"
  by (simp add: no_crash_def)

lemma no_crash_ebind [no_crash_intros]:
  "no_crash m \<Longrightarrow> (\<And>a. m = Inr a \<Longrightarrow> no_crash (f a)) \<Longrightarrow> no_crash (ebind m f)"
  by (cases m) (auto simp: no_crash_def)

lemma no_crash_echeck [no_crash_intros]: "no_crash (echeck ok (Failure cd f))"
  by (simp add: no_crash_def)

lemma no_crash_efoldi [no_crash_intros]: "(\<And>s i x. no_crash (f s i x)) \<Longrightarrow> no_crash (efoldi n f s xs)"
  by (induction xs arbitrary: n s) (auto intro: no_crash_ebind)

lemma no_crash_if [no_crash_intros]:
  "(c \<Longrightarrow> no_crash a) \<Longrightarrow> (\<not> c \<Longrightarrow> no_crash b) \<Longrightarrow> no_crash (if c then a else b)"
  by simp

lemma no_crash_checks [simp, no_crash_intros]:
  "no_crash (v_record v ks field cd opt)" "no_crash (v_amount v field mx positive ov)"
  "no_crash (v_member v field)" "no_crash (v_currency v)" "no_crash (v_order v ms field)"
  "no_crash (v_count v mx' cd field)"
  by (auto simp: no_crash_def v_record_def v_amount_def v_member_def v_currency_def v_order_def v_count_def
      Let_def split: jsval.splits)

text \<open>A property is only read of what was accepted as an object before.\<close>

lemma no_crash_get [no_crash_intros]: "v_record v ks field cd opt = Inr u \<Longrightarrow> no_crash (get v k)"
  using v_record_object[of v ks field cd opt u] by simp

lemma v_amount_code [code]:
  "v_amount v field mx positive overflow = (case v of
      JStr s \<Rightarrow>
        if length s > 16 \<or> \<not> is_decimal s then Inl (Failure ''INVALID_AMOUNT'' field)
        else let parsed = int_of_digits s in
          if positive \<and> parsed = 0 then Inl (Failure ''INVALID_AMOUNT'' field)
          else if parsed > mx then Inl (Failure overflow field)
          else Inr parsed
    | _ \<Rightarrow> Inl (Failure ''INVALID_AMOUNT'' field))"
proof -
  have zero: "int_of_digits ''0'' = 0" "parse_nat ''0'' = 0" by code_simp+
  have "int_of_digits s = int (parse_nat s)" if "is_decimal s" for s
    using that zero unfolding is_decimal_def by (auto simp: int_of_digits_eq)
  then show ?thesis by (auto simp: v_amount_def Let_def split: jsval.splits)
qed

end
