(* ===== verification/SharedDomain.thy ===== *)
theory SharedDomain
  imports SharedValidation
begin

text \<open>
  \<open>api/src/shared_expenses/domain.js\<close>: how one expense is allocated to its participants
  (\<open>allocateExpense\<close>), how contributions and shares become who-owes-whom
  (\<open>projectExpense\<close>), the personal cost of a linked bank payment and the boundary adapter
  for source amounts. All amounts are exact integers (paise).
\<close>

section \<open>allocateExpense\<close>

record alloc_row =
  row_id :: string
  row_value :: int

definition decimal_weight :: "jsval \<Rightarrow> bool" where
  "decimal_weight v = (case v of JStr s \<Rightarrow> length s \<le> 7 \<and> is_decimal s | _ \<Rightarrow> False)"

definition allocation_row :: "string \<Rightarrow> string list \<Rightarrow> nat \<Rightarrow> jsval \<Rightarrow> failure + alloc_row" where
  "allocation_row mode ids index row =
     (let exact = (mode = ''exact''); equal = (mode = ''equal''); field = at_index ''participants'' index in
      ebind (v_record0 row (if equal then [''memberId'']
               else [''memberId'', if exact then ''amountMinor'' else ''weight'']) field) (\<lambda>_.
      ebind (ebind (get row ''memberId'') (\<lambda>x. v_member x (at_key field ''memberId''))) (\<lambda>mid.
      ebind (echeck (mid \<notin> set ids) (Failure ''DUPLICATE_MEMBER'' (at_key field ''memberId''))) (\<lambda>_.
      if exact then
        ebind (ebind (get row ''amountMinor'') (\<lambda>x. v_amount0 x (at_key field ''amountMinor'') False))
          (\<lambda>n. Inr \<lparr>row_id = mid, row_value = n\<rparr>)
      else if equal then Inr \<lparr>row_id = mid, row_value = 1\<rparr>
      else
        ebind (get row ''weight'') (\<lambda>w.
         let bound = (if mode = ''percentage'' then 10000 else 1000000); weight = int (parse_nat (str_of w)) in
         ebind (echeck (decimal_weight w) (Failure ''INVALID_WEIGHT'' (at_key field ''weight''))) (\<lambda>_.
         ebind (echeck (weight \<le> bound) (Failure ''INVALID_WEIGHT'' (at_key field ''weight''))) (\<lambda>_.
         Inr \<lparr>row_id = mid, row_value = weight\<rparr>)))))))"

definition allocation_rows :: "string \<Rightarrow> jsval \<Rightarrow> failure + alloc_row list" where
  "allocation_rows mode input =
     ebind (ebind (get input ''participants'') (\<lambda>x. v_count x 50 ''INVALID_PARTICIPANT_COUNT'' ''participants'')) (\<lambda>rows.
     efoldi 0 (\<lambda>acc i row. ebind (allocation_row mode (map row_id acc) i row) (\<lambda>r. Inr (acc @ [r]))) [] rows)"

record allocation =
  al_memberId :: string
  al_amountMinor :: string

record allocation_result =
  ar_totalMinor :: string
  ar_allocations :: "allocation list"

text \<open>A row while the quotas are computed: whole part and remainder.\<close>

record quota =
  q_id :: string
  q_value :: int
  q_remainder :: int

definition to_quota :: "int \<Rightarrow> int \<Rightarrow> alloc_row \<Rightarrow> quota" where
  "to_quota tot sm r = \<lparr>q_id = row_id r, q_value = tot * row_value r div sm,
                        q_remainder = tot * row_value r mod sm\<rparr>"

text \<open>Larger remainder first, equal remainders by the tie order.\<close>

definition quota_le :: "string list \<Rightarrow> quota \<Rightarrow> quota \<Rightarrow> bool" where
  "quota_le ord a b \<longleftrightarrow> (if q_remainder a = q_remainder b then rank ord (q_id a) \<le> rank ord (q_id b)
                         else q_remainder b < q_remainder a)"

text \<open>\<open>for (i < remaining) calculated[i].value += 1\<close>; an index past the end would throw.\<close>

definition bump :: "nat \<Rightarrow> quota list \<Rightarrow> failure + quota list" where
  "bump n qs = (if n \<le> length qs
     then Inr (map (\<lambda>q. q\<lparr>q_value := q_value q + 1\<rparr>) (take n qs) @ drop n qs) else Inl JsTypeError)"

definition by_row_id :: "alloc_row \<Rightarrow> alloc_row \<Rightarrow> bool" where
  "by_row_id a b \<longleftrightarrow> str_le (row_id a) (row_id b)"

definition by_quota_id :: "quota \<Rightarrow> quota \<Rightarrow> bool" where
  "by_quota_id a b \<longleftrightarrow> str_le (q_id a) (q_id b)"

definition allocate_rows :: "string \<Rightarrow> int \<Rightarrow> alloc_row list \<Rightarrow> string list \<Rightarrow> failure + quota list" where
  "allocate_rows mode tot rows ord =
     (let sm = sum_list (map row_value rows) in
      ebind (echeck (\<not> (sm = 0 \<or> (mode = ''percentage'' \<and> sm \<noteq> 10000)))
               (Failure ''INVALID_WEIGHT'' ''participants'')) (\<lambda>_.
      let calculated = map (to_quota tot sm) rows;
          remaining = tot - sum_list (map q_value calculated) in
      ebind (bump (nat remaining) (jsort (quota_le ord) calculated)) (\<lambda>qs.
      Inr (jsort by_quota_id qs))))"

definition alloc_of_row :: "alloc_row \<Rightarrow> allocation" where
  "alloc_of_row r = \<lparr>al_memberId = row_id r, al_amountMinor = dec_int (row_value r)\<rparr>"

definition alloc_of_quota :: "quota \<Rightarrow> allocation" where
  "alloc_of_quota q = \<lparr>al_memberId = q_id q, al_amountMinor = dec_int (q_value q)\<rparr>"

definition allocateExpense :: "jsval \<Rightarrow> failure + allocation_result" where
  "allocateExpense input =
     ebind (v_record0 input [''currency'', ''totalMinor'', ''mode'', ''participants'', ''tieOrder''] ''$'') (\<lambda>_.
     ebind (ebind (get input ''currency'') v_currency) (\<lambda>_.
     ebind (ebind (get input ''totalMinor'') (\<lambda>x. v_amount0 x ''totalMinor'' True)) (\<lambda>total.
     ebind (get input ''mode'') (\<lambda>m.
     ebind (echeck (is_str m \<and> str_of m \<in> {''equal'', ''exact'', ''percentage'', ''shares''})
              (Failure ''INVALID_MODE'' ''mode'')) (\<lambda>_.
     let mode = str_of m in
     ebind (allocation_rows mode input) (\<lambda>rows.
     ebind (ebind (get input ''tieOrder'') (\<lambda>x. v_order x (map row_id rows) ''tieOrder'')) (\<lambda>ord.
     if mode = ''exact'' then
       ebind (echeck (sum_list (map row_value rows) = total) (Failure ''ALLOCATION_TOTAL_MISMATCH'' ''participants''))
         (\<lambda>_. Inr \<lparr>ar_totalMinor = dec_int total, ar_allocations = map alloc_of_row (jsort by_row_id rows)\<rparr>)
     else
       ebind (allocate_rows mode total rows ord)
         (\<lambda>qs. Inr \<lparr>ar_totalMinor = dec_int total, ar_allocations = map alloc_of_quota qs\<rparr>))))))))"

section \<open>projectExpense\<close>

definition money_row :: "string \<Rightarrow> (string \<times> int) list \<Rightarrow> nat \<Rightarrow> jsval \<Rightarrow> failure + (string \<times> int) list" where
  "money_row field acc index row =
     ebind (v_record0 row [''memberId'', ''amountMinor''] (at_index field index)) (\<lambda>_.
     ebind (ebind (get row ''memberId'') (\<lambda>x. v_member x (at_key (at_index field index) ''memberId''))) (\<lambda>mid.
     ebind (echeck (mid \<notin> fst ` set acc)
              (Failure ''DUPLICATE_MEMBER'' (at_key (at_index field index) ''memberId''))) (\<lambda>_.
     ebind (ebind (get row ''amountMinor'') (\<lambda>x. v_amount0 x (at_key (at_index field index) ''amountMinor'') False)) (\<lambda>n.
     Inr (mset_put mid n acc)))))"

definition money_rows :: "jsval \<Rightarrow> string \<Rightarrow> nat \<Rightarrow> string \<Rightarrow> failure + (string \<times> int) list" where
  "money_rows v field mx cd =
     ebind (v_count v mx cd field) (\<lambda>rows. efoldi 0 (money_row field) [] rows)"

text \<open>
  The greedy matching loop. Each round pays the smaller of the two open amounts, so at least
  one side is finished and the lists shrink. An edge is (debtor, creditor, amount).
\<close>

type_synonym edge = "string \<times> string \<times> int"

function settle :: "(string \<times> int) list \<Rightarrow> (string \<times> int) list \<Rightarrow> edge list" where
  "settle ((di, da) # ds) ((ci, ca) # cs) =
     (let a = (if da < ca then da else ca) in
      (di, ci, a)
      # settle (if da - a = 0 then ds else (di, da - a) # ds) (if ca - a = 0 then cs else (ci, ca - a) # cs))"
| "settle [] cs = []"
| "settle (d # ds) [] = []"
  by pat_completeness auto
termination
  by (relation "measure (\<lambda>(ds, cs). length ds + length cs)") (auto split: if_splits)

record position =
  ps_memberId :: string
  ps_paidMinor :: string
  ps_shareMinor :: string
  ps_balanceMinor :: string

record obligation =
  ob_debtorId :: string
  ob_creditorId :: string
  ob_amountMinor :: string

record projection =
  pr_totalMinor :: string
  pr_positions :: "position list"
  pr_obligations :: "obligation list"

definition balance_of :: "(string \<times> int) list \<Rightarrow> (string \<times> int) list \<Rightarrow> string \<Rightarrow> int" where
  "balance_of paid shares x = mget paid x 0 - mget shares x 0"

definition creditors :: "(string \<Rightarrow> int) \<Rightarrow> string list \<Rightarrow> (string \<times> int) list" where
  "creditors bal ord = map (\<lambda>x. (x, bal x)) (filter (\<lambda>x. 0 < bal x) ord)"

definition debtors :: "(string \<Rightarrow> int) \<Rightarrow> string list \<Rightarrow> (string \<times> int) list" where
  "debtors bal ord = map (\<lambda>x. (x, - bal x)) (filter (\<lambda>x. bal x < 0) ord)"

definition position_row :: "(string \<times> int) list \<Rightarrow> (string \<times> int) list \<Rightarrow> string \<Rightarrow> position" where
  "position_row paid shares x =
     \<lparr>ps_memberId = x, ps_paidMinor = dec_int (mget paid x 0), ps_shareMinor = dec_int (mget shares x 0),
      ps_balanceMinor = dec_int (balance_of paid shares x)\<rparr>"

definition obligation_row :: "edge \<Rightarrow> obligation" where
  "obligation_row e = (case e of (d, c, a) \<Rightarrow>
     \<lparr>ob_debtorId = d, ob_creditorId = c, ob_amountMinor = dec_int a\<rparr>)"

definition project_rows :: "int \<Rightarrow> (string \<times> int) list \<Rightarrow> (string \<times> int) list \<Rightarrow> string list \<Rightarrow> projection" where
  "project_rows tot paid shares ord =
     (let members = dedup (map fst paid @ map fst shares); bal = balance_of paid shares in
      \<lparr>pr_totalMinor = dec_int tot,
       pr_positions = map (position_row paid shares) (jsort str_le members),
       pr_obligations = map obligation_row (settle (debtors bal ord) (creditors bal ord))\<rparr>)"

definition projectExpense :: "jsval \<Rightarrow> failure + projection" where
  "projectExpense input =
     ebind (v_record0 input [''currency'', ''totalMinor'', ''contributions'', ''shares'', ''memberOrder''] ''$'') (\<lambda>_.
     ebind (ebind (get input ''currency'') v_currency) (\<lambda>_.
     ebind (ebind (get input ''totalMinor'') (\<lambda>x. v_amount0 x ''totalMinor'' True)) (\<lambda>total.
     ebind (ebind (get input ''contributions'') (\<lambda>x. money_rows x ''contributions'' 8 ''INVALID_PAYER_COUNT'')) (\<lambda>paid.
     ebind (ebind (get input ''shares'') (\<lambda>x. money_rows x ''shares'' 50 ''INVALID_PARTICIPANT_COUNT'')) (\<lambda>shares.
     ebind (echeck (sum_list (map snd paid) = total) (Failure ''CONTRIBUTION_TOTAL_MISMATCH'' ''contributions'')) (\<lambda>_.
     ebind (echeck (sum_list (map snd shares) = total) (Failure ''ALLOCATION_TOTAL_MISMATCH'' ''shares'')) (\<lambda>_.
     ebind (ebind (get input ''memberOrder'') (\<lambda>x. v_order x (dedup (map fst paid @ map fst shares)) ''memberOrder'')) (\<lambda>ord.
     Inr (project_rows total paid shares ord)))))))))"

section \<open>personalCost and sourceIntToSharedMinor\<close>

record personal_cost =
  pc_residualMinor :: string
  pc_costMinor :: string

definition personalCost :: "jsval \<Rightarrow> failure + personal_cost" where
  "personalCost input =
     ebind (v_record0 input [''sourceAmountMinor'', ''linkedAmountMinor'', ''shareMinor''] ''$'') (\<lambda>_.
     ebind (ebind (get input ''sourceAmountMinor'') (\<lambda>x. v_amount0 x ''sourceAmountMinor'' False)) (\<lambda>source.
     ebind (ebind (get input ''linkedAmountMinor'') (\<lambda>x. v_amount0 x ''linkedAmountMinor'' False)) (\<lambda>linked.
     ebind (ebind (get input ''shareMinor'') (\<lambda>x. v_aggregate x ''shareMinor'')) (\<lambda>share.
     ebind (echeck (\<not> source < linked) (Failure ''SOURCE_OVERALLOCATED'' ''linkedAmountMinor'')) (\<lambda>_.
     let residual = source - linked; cost = residual + share in
     ebind (echeck (\<not> MAX_AGGREGATE_MINOR < cost) (Failure ''AGGREGATE_LIMIT_EXCEEDED'' ''costMinor'')) (\<lambda>_.
     Inr \<lparr>pc_residualMinor = dec_int residual, pc_costMinor = dec_int cost\<rparr>))))))"

definition sourceIntToSharedMinor :: "jsnum \<Rightarrow> failure + string" where
  "sourceIntToSharedMinor value =
     ebind (echeck (is_safe_integer value \<and> \<not> value < Fin 0) (Failure ''INVALID_AMOUNT'' ''sourceMinor'')) (\<lambda>_.
     ebind (v_amount0 (JStr (dec_int (to_bigint value))) ''sourceMinor'' False) (\<lambda>n. Inr (dec_int n)))"


section \<open>What the row parsers accept\<close>

lemma allocation_row_ok:
  assumes "allocation_row mode ids i row = Inr r"
  shows "row_id r \<notin> set ids \<and> 0 \<le> row_value r \<and> is_member_id (row_id r)"
  using assms
  by (auto simp: allocation_row_def Let_def ebind_eq_Inr split: if_splits dest!: v_member_Inr v_amount_Inr)

lemma allocation_rows_ok:
  assumes "allocation_rows mode input = Inr rows"
  shows "distinct (map row_id rows) \<and> (\<forall>r \<in> set rows. 0 \<le> row_value r \<and> is_member_id (row_id r))"
proof -
  obtain vs where "efoldi 0 (\<lambda>acc i row. ebind (allocation_row mode (map row_id acc) i row)
      (\<lambda>r. Inr (acc @ [r]))) [] vs = Inr rows"
    using assms by (auto simp: allocation_rows_def ebind_eq_Inr)
  then show ?thesis
    by (rule efoldi_invariant) (auto simp: ebind_eq_Inr dest!: allocation_row_ok)
qed

definition money_ok :: "(string \<times> int) list \<Rightarrow> bool" where
  "money_ok m \<longleftrightarrow> distinct (map fst m) \<and> (\<forall>(k, n) \<in> set m. 0 \<le> n \<and> n \<le> MAX_EXPENSE_MINOR \<and> is_member_id k)"

lemma set_mset_put: "set (mset_put k v m) \<subseteq> insert (k, v) (set m)"
proof (induction m)
  case Nil
  then show ?case by simp
next
  case (Cons p m)
  then show ?case by (cases p) (auto split: if_splits)
qed

lemma money_row_ok:
  assumes "money_row field acc i row = Inr acc'" and "money_ok acc"
  shows "money_ok acc'"
proof -
  obtain mid n where a: "acc' = mset_put mid n acc" and "is_member_id mid" and "0 \<le> n" "n \<le> MAX_EXPENSE_MINOR"
    using assms(1) by (auto simp: money_row_def ebind_eq_Inr dest!: v_member_Inr v_amount_Inr)
  then show ?thesis using assms(2) set_mset_put[of mid n acc] by (auto simp: money_ok_def)
qed

lemma money_rows_ok: "money_rows v field mx cd = Inr m \<Longrightarrow> money_ok m"
proof -
  assume "money_rows v field mx cd = Inr m"
  then obtain rows where "efoldi 0 (money_row field) [] rows = Inr m"
    by (auto simp: money_rows_def ebind_eq_Inr)
  then show ?thesis
    by (rule efoldi_invariant) (auto simp: money_row_ok, simp add: money_ok_def)
qed

section \<open>Largest remainder\<close>

lemma sum_quota:
  assumes "0 < sm" and "sm = sum_list (map row_value rows)"
  shows "tot = sum_list (map q_value (map (to_quota tot sm) rows)) +
               sum_list (map q_remainder (map (to_quota tot sm) rows)) div sm"
    and "sm dvd sum_list (map q_remainder (map (to_quota tot sm) rows))"
proof -
  have e: "sum_list (map q_value (map (to_quota tot sm) rows)) * sm
      + sum_list (map q_remainder (map (to_quota tot sm) rows)) = tot * sum_list (map row_value rows)"
    by (induction rows) (simp_all add: to_quota_def algebra_simps)
  then have "sum_list (map q_remainder (map (to_quota tot sm) rows))
      = (tot - sum_list (map q_value (map (to_quota tot sm) rows))) * sm"
    using assms(2) by (simp add: algebra_simps)
  then show "sm dvd sum_list (map q_remainder (map (to_quota tot sm) rows))"
    and "tot = sum_list (map q_value (map (to_quota tot sm) rows)) +
               sum_list (map q_remainder (map (to_quota tot sm) rows)) div sm"
    using assms(1) by (metis dvd_triv_right, simp)
qed

lemma sum_remainder_bounds:
  assumes "0 < sm"
  shows "0 \<le> sum_list (map q_remainder (map (to_quota tot sm) rows))"
    and "rows \<noteq> [] \<Longrightarrow> sum_list (map q_remainder (map (to_quota tot sm) rows)) < sm * int (length rows)"
proof -
  have r: "0 \<le> q_remainder (to_quota tot sm x)" "q_remainder (to_quota tot sm x) < sm" for x
    using assms by (simp_all add: to_quota_def)
  show "0 \<le> sum_list (map q_remainder (map (to_quota tot sm) rows))"
    by (rule sum_list_nonneg) (use r in auto)
  show "sum_list (map q_remainder (map (to_quota tot sm) rows)) < sm * int (length rows)" if "rows \<noteq> []"
    using that
  proof (induction rows)
    case Nil
    then show ?case by simp
  next
    case (Cons x rows)
    then show ?case using r[of x] by (cases "rows = []") (auto simp: algebra_simps)
  qed
qed

text \<open>The leftover is less than the number of rows, so the bumping loop never runs off the end.\<close>

lemma leftover_bounds:
  fixes tot :: int
  assumes "0 < sm" and "sm = sum_list (map row_value rows)"
  defines "left \<equiv> tot - sum_list (map q_value (map (to_quota tot sm) rows))"
  shows "0 \<le> left" and "left < int (length rows)"
proof -
  let ?R = "sum_list (map q_remainder (map (to_quota tot sm) rows))"
  have l: "left = ?R div sm" using sum_quota(1)[OF assms(1,2), of tot] by (simp add: left_def)
  show "0 \<le> left" unfolding l using sum_remainder_bounds(1)[OF assms(1)] assms(1)
    by (simp add: pos_imp_zdiv_nonneg_iff)
  have "rows \<noteq> []" using assms(1,2) by auto
  then have "?R < sm * int (length rows)" using sum_remainder_bounds(2)[OF assms(1)] by blast
  then show "left < int (length rows)" unfolding l by (rule div_less_of_less_mult[OF assms(1)])
qed

lemma bump_eq: "bump n qs = Inr qs' \<Longrightarrow>
    sum_list (map q_value qs') = sum_list (map q_value qs) + int n
    \<and> map q_id qs' = map q_id qs \<and> map q_remainder qs' = map q_remainder qs \<and> length qs' = length qs"
proof -
  assume "bump n qs = Inr qs'"
  then have n: "n \<le> length qs" and qs': "qs' = map (\<lambda>q. q\<lparr>q_value := q_value q + 1\<rparr>) (take n qs) @ drop n qs"
    by (auto simp: bump_def split: if_splits)
  have id: "map f (map (\<lambda>q. q\<lparr>q_value := q_value q + 1\<rparr>) (take n qs) @ drop n qs) = map f qs"
    if "\<And>q. f (q\<lparr>q_value := q_value q + 1\<rparr>) = f q" for f :: "quota \<Rightarrow> 'b"
  proof -
    have "map f (map (\<lambda>q. q\<lparr>q_value := q_value q + 1\<rparr>) (take n qs) @ drop n qs)
        = map f (take n qs) @ map f (drop n qs)" using that by simp
    also have "\<dots> = map f qs" by (simp flip: map_append)
    finally show ?thesis .
  qed
  have "sum_list (map q_value (map (\<lambda>q. q\<lparr>q_value := q_value q + 1\<rparr>) xs))
      = sum_list (map q_value xs) + int (length xs)" for xs
    by (induction xs) simp_all
  from this[of "take n qs"] have "sum_list (map q_value qs') =
      sum_list (map q_value (take n qs @ drop n qs)) + int n"
    using n unfolding qs' by (simp del: append_take_drop_id)
  moreover have "map q_id qs' = map q_id qs" "map q_remainder qs' = map q_remainder qs"
    unfolding qs' by (rule id, simp)+
  moreover have "length qs' = length qs" using n by (simp add: qs')
  ultimately show ?thesis by simp
qed

interpretation quota_order: comparator "quota_le ord" for ord
  by unfold_locales (auto simp: quota_le_def split: if_splits)

interpretation quota_id_order: comparator by_quota_id
  using comparator_key[of q_id] by (simp add: by_quota_id_def[abs_def])

interpretation row_id_order: comparator by_row_id
  using comparator_key[of row_id] by (simp add: by_row_id_def[abs_def])

lemma rows_sum_nonneg:
  assumes "\<forall>r \<in> set rows. 0 \<le> row_value r"
  shows "0 \<le> sum_list (map row_value rows)"
  by (rule sum_list_nonneg) (use assms in auto)

text \<open>One statement carries the facts the allocation properties need.\<close>

lemma allocate_rows_spec:
  assumes nn: "\<forall>r \<in> set rows. 0 \<le> row_value r"
    and ok: "\<not> (sum_list (map row_value rows) = 0 \<or> (mode = ''percentage'' \<and> sum_list (map row_value rows) \<noteq> 10000))"
  obtains qs n where "allocate_rows mode tot rows ord = Inr qs"
    and "n < length rows"
    and "qs = jsort by_quota_id (map (\<lambda>q. q\<lparr>q_value := q_value q + 1\<rparr>)
               (take n (jsort (quota_le ord) (map (to_quota tot (sum_list (map row_value rows))) rows)))
             @ drop n (jsort (quota_le ord) (map (to_quota tot (sum_list (map row_value rows))) rows)))"
    and "sum_list (map q_value qs) = tot"
proof -
  let ?sm = "sum_list (map row_value rows)"
  let ?calc = "map (to_quota tot ?sm) rows"
  let ?n = "nat (tot - sum_list (map q_value ?calc))"
  have pos: "0 < ?sm" using rows_sum_nonneg[OF nn] ok by linarith
  note lb = leftover_bounds[OF pos refl, of tot]
  have n: "?n < length rows" using lb by linarith
  obtain qs0 where b: "bump ?n (jsort (quota_le ord) ?calc) = Inr qs0"
    using n by (simp add: bump_def)
  have r: "allocate_rows mode tot rows ord = Inr (jsort by_quota_id qs0)"
    using ok b by (simp add: allocate_rows_def Let_def echeck_def)
  have s: "sum_list (map q_value (jsort by_quota_id qs0)) = tot"
    using bump_eq[OF b] lb by simp
  have "qs0 = map (\<lambda>q. q\<lparr>q_value := q_value q + 1\<rparr>) (take ?n (jsort (quota_le ord) ?calc))
      @ drop ?n (jsort (quota_le ord) ?calc)"
    using b by (auto simp: bump_def split: if_splits)
  then show thesis using that[OF r n _ s] by simp
qed


lemma allocate_rows_members:
  assumes "\<forall>r \<in> set rows. 0 \<le> row_value r" and "allocate_rows mode tot rows ord = Inr qs"
  shows "sum_list (map q_value qs) = tot"
    and "mset (map q_id qs) = mset (map row_id rows)"
    and "\<forall>q \<in> set qs. \<exists>r \<in> set rows. let S = sum_list (map row_value rows) in
           q_id q = row_id r \<and> q_remainder q = tot * row_value r mod S
           \<and> (q_value q = tot * row_value r div S \<or> q_value q = tot * row_value r div S + 1)"
proof -
  let ?S = "sum_list (map row_value rows)"
  let ?srt = "jsort (quota_le ord) (map (to_quota tot ?S) rows)"
  have ok: "\<not> (?S = 0 \<or> (mode = ''percentage'' \<and> ?S \<noteq> 10000))"
    using assms(2) by (auto simp: allocate_rows_def Let_def ebind_eq_Inr)
  from assms(1) ok obtain qs' n where r: "allocate_rows mode tot rows ord = Inr qs'" and "n < length rows"
    and qs: "qs' = jsort by_quota_id (map (\<lambda>q. q\<lparr>q_value := q_value q + 1\<rparr>) (take n ?srt) @ drop n ?srt)"
    and s: "sum_list (map q_value qs') = tot"
    by (rule allocate_rows_spec)
  have q: "qs' = qs" using r assms(2) by simp
  show "sum_list (map q_value qs) = tot" using s q by simp
  have bumped: "map q_id (map (\<lambda>q. q\<lparr>q_value := q_value q + 1\<rparr>) xs @ ys) = map q_id (xs @ ys)" for xs ys
    by simp
  have "mset (map q_id qs') = mset (map q_id (take n ?srt @ drop n ?srt))"
    unfolding qs mset_map mset_jsort using bumped[of "take n ?srt" "drop n ?srt"] by (metis mset_map)
  also have "\<dots> = mset (map q_id (map (to_quota tot ?S) rows))"
    unfolding append_take_drop_id by (metis mset_jsort mset_map)
  also have "map q_id (map (to_quota tot ?S) rows) = map row_id rows" by (simp add: to_quota_def)
  finally show "mset (map q_id qs) = mset (map row_id rows)" by (simp add: q)
  have "\<exists>r \<in> set rows. x = to_quota tot ?S r" if "x \<in> set (take n ?srt) \<union> set (drop n ?srt)" for x
    using that set_take_subset[of n ?srt] set_drop_subset[of n ?srt] by auto
  then show "\<forall>q \<in> set qs. \<exists>r \<in> set rows. let S = ?S in
           q_id q = row_id r \<and> q_remainder q = tot * row_value r mod S
           \<and> (q_value q = tot * row_value r div S \<or> q_value q = tot * row_value r div S + 1)"
    unfolding q[symmetric] qs by (fastforce simp: to_quota_def Let_def)
qed

lemma allocateExpense_cases:
  assumes "allocateExpense input = Inr r"
  obtains (exact) rows tot where "str_of (jprop input ''mode'') = ''exact''"
      and "allocation_rows ''exact'' input = Inr rows" and "sum_list (map row_value rows) = tot"
      and "r = \<lparr>ar_totalMinor = dec_int tot, ar_allocations = map alloc_of_row (jsort by_row_id rows)\<rparr>"
  | (quota) mode rows ord tot qs where "allocation_rows mode input = Inr rows"
      and "mode \<noteq> ''exact''" and "0 < tot" and "allocate_rows mode tot rows ord = Inr qs"
      and "distinct ord" and "set ord = row_id ` set rows"
      and "r = \<lparr>ar_totalMinor = dec_int tot, ar_allocations = map alloc_of_quota qs\<rparr>"
      and "mode = str_of (jprop input ''mode'')"
proof -
  let ?mode = "str_of (jprop input ''mode'')"
  from assms obtain tot rows ord where rows: "allocation_rows ?mode input = Inr rows"
    and tot: "v_amount0 (jprop input ''totalMinor'') ''totalMinor'' True = Inr tot"
    and ord: "v_order (jprop input ''tieOrder'') (map row_id rows) ''tieOrder'' = Inr ord"
    and rest: "(if ?mode = ''exact'' then
       ebind (echeck (sum_list (map row_value rows) = tot) (Failure ''ALLOCATION_TOTAL_MISMATCH'' ''participants''))
         (\<lambda>_. Inr \<lparr>ar_totalMinor = dec_int tot, ar_allocations = map alloc_of_row (jsort by_row_id rows)\<rparr>)
     else
       ebind (allocate_rows ?mode tot rows ord)
         (\<lambda>qs. Inr \<lparr>ar_totalMinor = dec_int tot, ar_allocations = map alloc_of_quota qs\<rparr>)) = Inr r"
    unfolding allocateExpense_def Let_def ebind_eq_Inr get_eq_Inr by blast
  show thesis
  proof (cases "?mode = ''exact''")
    case True
    then show thesis using rows rest exact[of rows tot] by (auto simp: ebind_eq_Inr)
  next
    case False
    then obtain qs where "allocate_rows ?mode tot rows ord = Inr qs"
      and "r = \<lparr>ar_totalMinor = dec_int tot, ar_allocations = map alloc_of_quota qs\<rparr>"
      using rest by (auto simp: ebind_eq_Inr)
    then show thesis using quota[OF rows False] v_amount_Inr[OF tot] v_order_Inr[OF ord] by auto
  qed
qed

definition allocated :: "allocation_result \<Rightarrow> int list" where
  "allocated r = map (\<lambda>a. parse_int (al_amountMinor a)) (ar_allocations r)"

lemma alloc_sel [simp]:
  "al_memberId (alloc_of_row w) = row_id w" "parse_int (al_amountMinor (alloc_of_row w)) = row_value w"
  "al_memberId (alloc_of_quota q) = q_id q" "parse_int (al_amountMinor (alloc_of_quota q)) = q_value q"
  by (simp_all add: alloc_of_row_def alloc_of_quota_def)

lemma alloc_comp [simp]:
  "(\<lambda>a. parse_int (al_amountMinor a)) \<circ> alloc_of_row = row_value"
  "(\<lambda>a. parse_int (al_amountMinor a)) \<circ> alloc_of_quota = q_value"
  "al_memberId \<circ> alloc_of_quota = q_id"
  by (auto simp: fun_eq_iff)

section \<open>The greedy settlement\<close>

definition sum_at :: "(string \<times> int) list \<Rightarrow> string \<Rightarrow> int" where
  "sum_at m x = (\<Sum>(k, a)\<leftarrow>m. if k = x then a else 0)"

definition debits :: "edge list \<Rightarrow> string \<Rightarrow> int" where
  "debits es x = (\<Sum>(d, c, a)\<leftarrow>es. if d = x then a else 0)"

definition credits :: "edge list \<Rightarrow> string \<Rightarrow> int" where
  "credits es x = (\<Sum>(d, c, a)\<leftarrow>es. if c = x then a else 0)"

lemma sum_at_simps [simp, sum_simps]:
  "sum_at [] x = 0" "sum_at ((k, a) # m) x = (if k = x then a else 0) + sum_at m x"
  by (simp_all add: sum_at_def)

lemma debits_simps [simp, sum_simps]:
  "debits [] x = 0" "debits ((d, c, a) # es) x = (if d = x then a else 0) + debits es x"
  "credits [] x = 0" "credits ((d, c, a) # es) x = (if c = x then a else 0) + credits es x"
  by (simp_all add: debits_def credits_def)

definition positive :: "(string \<times> int) list \<Rightarrow> bool" where
  "positive m \<longleftrightarrow> (\<forall>(k, a) \<in> set m. 0 < a)"

lemma positive_sum: "positive m \<Longrightarrow> m \<noteq> [] \<Longrightarrow> 0 < sum_list (map snd m)"
proof (induction m)
  case Nil
  then show ?case by simp
next
  case (Cons p m)
  then show ?case by (cases "m = []") (auto simp: positive_def)
qed

lemma positive_Cons [simp]: "positive ((k, a) # m) \<longleftrightarrow> 0 < a \<and> positive m"
  by (auto simp: positive_def)

lemma settle_spec:
  assumes "positive ds" and "positive cs" and "sum_list (map snd ds) = sum_list (map snd cs)"
  shows "debits (settle ds cs) x = sum_at ds x \<and> credits (settle ds cs) x = sum_at cs x
    \<and> (\<forall>(d, c, a) \<in> set (settle ds cs). 0 < a \<and> d \<in> fst ` set ds \<and> c \<in> fst ` set cs)
    \<and> (ds \<noteq> [] \<longrightarrow> Suc (length (settle ds cs)) \<le> length ds + length cs)"
  using assms
proof (induction ds cs rule: settle.induct)
  case (1 di da ds ci ca cs)
  let ?a = "if da < ca then da else ca"
  let ?ds = "if da - ?a = 0 then ds else (di, da - ?a) # ds"
  let ?cs = "if ca - ?a = 0 then cs else (ci, ca - ?a) # cs"
  have pos: "positive ?ds" "positive ?cs" and sums: "sum_list (map snd ?ds) = sum_list (map snd ?cs)"
    using 1(2-4) by auto
  note ih = 1(1)[OF refl pos sums]
  have at: "sum_at ?ds x = sum_at ((di, da) # ds) x - (if di = x then ?a else 0)"
    "sum_at ?cs x = sum_at ((ci, ca) # cs) x - (if ci = x then ?a else 0)"
    by auto
  have dom: "fst ` set ?ds \<subseteq> fst ` set ((di, da) # ds)" "fst ` set ?cs \<subseteq> fst ` set ((ci, ca) # cs)"
    by auto
  have a: "0 < ?a" using 1(2,3) by simp
  have len: "Suc (Suc (length (settle ?ds ?cs))) \<le> length ((di, da) # ds) + length ((ci, ca) # cs)"
  proof (cases "?ds = []")
    case True
    then have "settle ?ds ?cs = []" by simp
    then show ?thesis by simp
  next
    case False
    then have "Suc (length (settle ?ds ?cs)) \<le> length ?ds + length ?cs" using ih by simp
    moreover have "length ?ds + length ?cs \<le> length ds + length cs + 1" by simp
    ultimately show ?thesis by simp
  qed
  have eq: "settle ((di, da) # ds) ((ci, ca) # cs) = (di, ci, ?a) # settle ?ds ?cs"
    by (simp only: settle.simps Let_def)
  show ?case unfolding eq using ih at dom a len by (auto simp del: settle.simps)
next
  case (2 cs)
  then have "cs = []" using positive_sum[of cs] by fastforce
  then show ?case by simp
next
  case (3 d ds)
  then show ?case using positive_sum[of "d # ds"] by fastforce
qed

lemma sum_balances:
  assumes "distinct (map fst m)" and "set (map fst m) \<subseteq> set ord" and "distinct ord"
  shows "(\<Sum>x\<leftarrow>ord. mget m x 0) = sum_list (map snd (m :: (string \<times> int) list))"
  using assms(1,2)
proof (induction m)
  case Nil
  then show ?case by (simp add: mget_def)
next
  case (Cons p m)
  obtain k v where p: "p = (k, v)" by (cases p)
  have k: "k \<in> set ord" "mget m k 0 = 0" using Cons.prems p by (auto intro: mget_notin)
  have "(\<Sum>x\<leftarrow>ord. mget (p # m) x 0) = (\<Sum>x\<leftarrow>ord. mget m x 0 + (if x = k then v else 0))"
    by (rule arg_cong[of _ _ sum_list], rule map_cong) (use k in \<open>auto simp: p mget_def\<close>)
  also have "\<dots> = (\<Sum>x\<leftarrow>ord. mget m x 0) + (\<Sum>x\<leftarrow>ord. if x = k then v else 0)"
    by (rule sum_list_addf)
  also have "(\<Sum>x\<leftarrow>ord. if x = k then v else 0) = v"
    using assms(3) k(1) by (simp add: sum_list_distinct_conv_sum_set)
  finally show ?case using Cons p by simp
qed

lemma sum_at_filter:
  assumes "distinct ord"
  shows "sum_at (map (\<lambda>x. (x, f x)) (filter P ord)) y = (if y \<in> set ord \<and> P y then f y else 0)"
  using assms by (induction ord) auto

lemma sum_split_sign:
  "(\<Sum>x\<leftarrow>ord. bal x) = (0::int) \<Longrightarrow>
     sum_list (map snd (debtors bal ord)) = sum_list (map snd (creditors bal ord))"
proof -
  have "sum_list (map snd (creditors bal ord)) - sum_list (map snd (debtors bal ord)) = (\<Sum>x\<leftarrow>ord. bal x)"
    by (induction ord) (auto simp: creditors_def debtors_def)
  then show "(\<Sum>x\<leftarrow>ord. bal x) = 0 \<Longrightarrow> ?thesis" by simp
qed

lemma positive_sides [simp]: "positive (creditors bal ord)" "positive (debtors bal ord)"
  by (auto simp: positive_def creditors_def debtors_def)

text \<open>What the projected edges do to each member, and how many there are.\<close>

lemma settle_balances:
  assumes "distinct ord" and "(\<Sum>x\<leftarrow>ord. bal x) = (0::int)"
  defines "es \<equiv> settle (debtors bal ord) (creditors bal ord)"
  shows "x \<in> set ord \<Longrightarrow> credits es x - debits es x = bal x"
    and "\<forall>(d, c, a) \<in> set es. 0 < a \<and> bal d < 0 \<and> 0 < bal c \<and> d \<in> set ord \<and> c \<in> set ord"
    and "es \<noteq> [] \<Longrightarrow> Suc (length es) \<le> length ord"
proof -
  note sp = settle_spec[OF positive_sides(2) positive_sides(1) sum_split_sign[OF assms(2)], folded es_def]
  show "credits es x - debits es x = bal x" if "x \<in> set ord" for x
    using sp[of x] assms(1) that by (simp add: creditors_def debtors_def sum_at_filter)
  show "\<forall>(d, c, a) \<in> set es. 0 < a \<and> bal d < 0 \<and> 0 < bal c \<and> d \<in> set ord \<and> c \<in> set ord"
    using sp by (fastforce simp: creditors_def debtors_def)
  have l: "length (debtors bal ord) + length (creditors bal ord) \<le> length ord"
    by (induction ord) (auto simp: creditors_def debtors_def)
  show "Suc (length es) \<le> length ord" if "es \<noteq> []"
  proof -
    have "debtors bal ord \<noteq> []" using that by (auto simp: es_def)
    then show ?thesis using sp[of undefined] l by linarith
  qed
qed


section \<open>Properties\<close>

lemma nonneg_quota: "0 \<le> tot \<Longrightarrow> 0 \<le> v \<Longrightarrow> 0 \<le> S \<Longrightarrow> 0 \<le> tot * v div (S::int)"
  by (cases "S = 0") (simp_all add: pos_imp_zdiv_nonneg_iff)

text \<open>
  C8: An accepted allocation never creates or loses money: the allocated amounts add up to the
  expense total to the paisa, in every mode, and none of them is negative.
\<close>

theorem allocateExpense_exact_total:
  assumes "allocateExpense input = Inr r"
  shows "sum_list (allocated r) = parse_int (ar_totalMinor r) \<and> (\<forall>n \<in> set (allocated r). 0 \<le> n)"
  using assms
proof (cases rule: allocateExpense_cases)
  case (exact rows tot)
  then show ?thesis using allocation_rows_ok[OF exact(2)] by (auto simp: allocated_def)
next
  case (quota mode rows ord tot qs)
  have nn: "\<forall>r \<in> set rows. 0 \<le> row_value r" using allocation_rows_ok[OF quota(1)] by blast
  note m = allocate_rows_members[OF nn quota(4)]
  have "0 \<le> q_value q" if q: "q \<in> set qs" for q
  proof -
    obtain w where "w \<in> set rows" and "q_value q = tot * row_value w div sum_list (map row_value rows)
        \<or> q_value q = tot * row_value w div sum_list (map row_value rows) + 1"
      using m(3) q by (auto simp: Let_def)
    then show ?thesis
      using nonneg_quota[of tot "row_value w" "sum_list (map row_value rows)"] nn quota(3)
        rows_sum_nonneg[OF nn] by auto
  qed
  then show ?thesis using m(1) by (auto simp: allocated_def quota(7))
qed

definition sample_expense :: jsval where
  "sample_expense = JObj
     [(''currency'', JStr ''INR''), (''totalMinor'', JStr ''7''), (''mode'', JStr ''shares''),
      (''participants'', JArr
         [JObj [(''memberId'', JStr ''a''), (''weight'', JStr ''1'')],
          JObj [(''memberId'', JStr ''b''), (''weight'', JStr ''1'')],
          JObj [(''memberId'', JStr ''c''), (''weight'', JStr ''1'')]]),
      (''tieOrder'', JArr [JStr ''c'', JStr ''a'', JStr ''b''])]"

lemma allocateExpense_exact_total_witness:
  "\<exists>r. allocateExpense sample_expense = Inr r \<and> ar_totalMinor r = ''7'' \<and> sum_list (allocated r) = 7"
proof -
  obtain r where r: "allocateExpense sample_expense = Inr r" and t: "ar_totalMinor r = ''7''"
    by (rule that[of "\<lparr>ar_totalMinor = ''7'', ar_allocations =
      [\<lparr>al_memberId = ''a'', al_amountMinor = ''2''\<rparr>, \<lparr>al_memberId = ''b'', al_amountMinor = ''2''\<rparr>,
       \<lparr>al_memberId = ''c'', al_amountMinor = ''3''\<rparr>]\<rparr>"]) code_simp+
  have "parse_int ''7'' = 7" by code_simp
  then show ?thesis using allocateExpense_exact_total[OF r] r t by auto
qed

text \<open>
  The bumping loop of the largest-remainder method is in range: with non-negative weights the
  leftover is always smaller than the number of participants, so allocating never reads past the
  end of the quota array, whatever the request.
\<close>

theorem allocateExpense_no_crash: "allocateExpense input \<noteq> Inl JsTypeError"
proof -
  have rows: "no_crash (allocation_rows mode input)" if "\<not> nullish input" for mode
    unfolding allocation_rows_def allocation_row_def Let_def get_Inr[OF that] by (intro no_crash_intros)
  have alloc: "no_crash (allocate_rows mode tot rows ord)" if "allocation_rows m input = Inr rows" for m mode tot rows ord
  proof -
    have nn: "\<forall>r \<in> set rows. 0 \<le> row_value r" using allocation_rows_ok[OF that] by blast
    show ?thesis
    proof (cases "sum_list (map row_value rows) = 0 \<or> (mode = ''percentage'' \<and> sum_list (map row_value rows) \<noteq> 10000)")
      case True
      then show ?thesis by (auto simp: allocate_rows_def Let_def no_crash_def ebind_def echeck_def)
    next
      case False
      obtain qs where "allocate_rows mode tot rows ord = Inr qs"
        by (rule allocate_rows_spec[OF nn False])
      then show ?thesis by (simp add: no_crash_def)
    qed
  qed
  have "no_crash (allocateExpense input)"
    unfolding allocateExpense_def Let_def by (intro no_crash_intros rows[OF v_record_object] alloc)
  then show ?thesis by (simp add: no_crash_def)
qed

text \<open>
  Every participant gets the exact share rounded down, or one paisa more: for the weighted
  modes each allocation is \<open>floor(total * weight / sum)\<close> or that plus one, and each participant
  appears exactly once, sorted by member id.
\<close>

theorem allocateExpense_quota_rule:
  assumes "allocateExpense input = Inr r" and "str_of (jprop input ''mode'') \<noteq> ''exact''"
  shows "\<exists>rows. allocation_rows (str_of (jprop input ''mode'')) input = Inr rows
     \<and> mset (map al_memberId (ar_allocations r)) = mset (map row_id rows)
     \<and> sorted_wrt str_le (map al_memberId (ar_allocations r))
     \<and> (\<forall>a \<in> set (ar_allocations r). \<exists>w \<in> set rows. al_memberId a = row_id w \<and>
          (let share = parse_int (ar_totalMinor r) * row_value w div sum_list (map row_value rows)
           in parse_int (al_amountMinor a) = share \<or> parse_int (al_amountMinor a) = share + 1))"
  using assms(1)
proof (cases rule: allocateExpense_cases)
  case (exact rows tot)
  then show ?thesis using assms(2) by simp
next
  case (quota mode rows ord tot qs)
  have rows: "allocation_rows (str_of (jprop input ''mode'')) input = Inr rows"
    using quota(8) quota(1) by simp
  have nn: "\<forall>r \<in> set rows. 0 \<le> row_value r" using allocation_rows_ok[OF quota(1)] by blast
  note m = allocate_rows_members[OF nn quota(4)]
  obtain zs where "qs = jsort by_quota_id zs"
    using quota(4) by (auto simp: allocate_rows_def Let_def ebind_eq_Inr)
  then have "sorted_wrt by_quota_id qs" using quota_id_order.sorted_jsort by simp
  then have srt: "sorted_wrt str_le (map q_id qs)"
    by (simp add: sorted_wrt_map by_quota_id_def[abs_def])
  have ids: "map al_memberId (ar_allocations r) = map q_id qs"
    by (simp add: quota(7) alloc_of_quota_def)
  show ?thesis
    using rows m srt unfolding ids
    by (intro exI[of _ rows]) (fastforce simp: quota(7) alloc_of_quota_def Let_def)
qed


lemma allocateExpense_quota_rule_witness:
  "\<exists>r. allocateExpense sample_expense = Inr r \<and>
     mset (map al_memberId (ar_allocations r)) = {#''a'', ''b'', ''c''#}"
proof -
  have m: "str_of (jprop sample_expense ''mode'') = ''shares''" by code_simp
  have rows: "allocation_rows ''shares'' sample_expense = Inr
     [\<lparr>row_id = ''a'', row_value = 1\<rparr>, \<lparr>row_id = ''b'', row_value = 1\<rparr>, \<lparr>row_id = ''c'', row_value = 1\<rparr>]"
    by code_simp
  have "\<exists>r. allocateExpense sample_expense = Inr r"
    by (rule exI[of _ "\<lparr>ar_totalMinor = ''7'', ar_allocations =
      [\<lparr>al_memberId = ''a'', al_amountMinor = ''2''\<rparr>, \<lparr>al_memberId = ''b'', al_amountMinor = ''2''\<rparr>,
       \<lparr>al_memberId = ''c'', al_amountMinor = ''3''\<rparr>]\<rparr>"]) code_simp
  then obtain r where r: "allocateExpense sample_expense = Inr r" by blast
  show ?thesis using allocateExpense_quota_rule[OF r] m rows r by auto
qed

text \<open>
  The order in which the client lists the participants is irrelevant: with distinct members
  that all appear in the tie order, permuting the rows changes neither the outcome nor any share.
\<close>

theorem allocate_rows_order_independent:
  assumes "mset rows = mset rows'" and "distinct (map row_id rows)" and "row_id ` set rows \<subseteq> set ord"
  shows "allocate_rows mode tot rows ord = allocate_rows mode tot rows' ord"
proof -
  let ?S = "sum_list (map row_value rows)"
  have S: "sum_list (map row_value rows') = ?S"
    using assms(1) by (metis mset_map sum_mset_sum_list)
  let ?c = "map (to_quota tot ?S) rows" and ?c' = "map (to_quota tot ?S) rows'"
  have mc: "mset ?c = mset ?c'" using assms(1) by simp
  have left: "sum_list (map q_value ?c') = sum_list (map q_value ?c)"
    using mc by (metis mset_map sum_mset_sum_list)
  have inj: "a = b" if "a \<in> set ?c" "b \<in> set ?c" "q_id a = q_id b" for a b
    using that assms(2) by (auto simp: to_quota_def distinct_map dest: inj_onD)
  have "jsort (quota_le ord) ?c = jsort (quota_le ord) ?c'"
  proof (rule quota_order.jsort_unique[OF mc])
    fix a b assume a: "a \<in> set ?c" and b: "b \<in> set ?c" and le: "quota_le ord a b" "quota_le ord b a"
    then have "rank ord (q_id a) = rank ord (q_id b)" by (auto simp: quota_le_def split: if_splits)
    moreover have "q_id a \<in> set ord" using a assms(3) by (auto simp: to_quota_def)
    ultimately show "a = b" using rank_inj inj[OF a b] by blast
  qed
  then show ?thesis unfolding allocate_rows_def Let_def S left by simp
qed

lemma allocate_rows_order_independent_witness:
  "allocate_rows ''shares'' 5 [\<lparr>row_id = ''a'', row_value = 1\<rparr>, \<lparr>row_id = ''b'', row_value = 1\<rparr>] [''b'', ''a'']
     = allocate_rows ''shares'' 5 [\<lparr>row_id = ''b'', row_value = 1\<rparr>, \<lparr>row_id = ''a'', row_value = 1\<rparr>] [''b'', ''a'']"
  by (rule allocate_rows_order_independent) simp_all

text \<open>What the obligations do to a member: what it is owed minus what it owes.\<close>

definition net_of :: "obligation list \<Rightarrow> string \<Rightarrow> int" where
  "net_of obs x = (\<Sum>b\<leftarrow>obs. if ob_creditorId b = x then parse_int (ob_amountMinor b) else 0)
                - (\<Sum>b\<leftarrow>obs. if ob_debtorId b = x then parse_int (ob_amountMinor b) else 0)"

lemma net_of_edges: "net_of (map obligation_row es) x = credits es x - debits es x"
proof -
  have "(\<Sum>b\<leftarrow>map obligation_row es. if ob_creditorId b = x then parse_int (ob_amountMinor b) else 0) = credits es x"
    "(\<Sum>b\<leftarrow>map obligation_row es. if ob_debtorId b = x then parse_int (ob_amountMinor b) else 0) = debits es x"
    by (induction es) (auto simp: obligation_row_def)
  then show ?thesis by (simp add: net_of_def)
qed

lemma projectExpense_cases:
  assumes "projectExpense input = Inr p"
  obtains tot paid shares ord where "p = project_rows tot paid shares ord" and "money_ok paid" and "money_ok shares"
    and "sum_list (map snd paid) = tot" and "sum_list (map snd shares) = tot"
    and "distinct ord" and "set ord = fst ` set paid \<union> fst ` set shares" and "ord \<noteq> []"
proof -
  from assms obtain tot paid shares ord where t: "0 < tot"
    and paid: "money_rows (jprop input ''contributions'') ''contributions'' 8 ''INVALID_PAYER_COUNT'' = Inr paid"
    and shares: "money_rows (jprop input ''shares'') ''shares'' 50 ''INVALID_PARTICIPANT_COUNT'' = Inr shares"
    and sp: "sum_list (map snd paid) = tot" and ss: "sum_list (map snd shares) = tot"
    and ord: "v_order (jprop input ''memberOrder'') (dedup (map fst paid @ map fst shares)) ''memberOrder'' = Inr ord"
    and p: "p = project_rows tot paid shares ord"
    unfolding projectExpense_def by (auto simp: ebind_eq_Inr dest!: v_amount_Inr)
  have so: "set ord = fst ` set paid \<union> fst ` set shares"
    using v_order_Inr[OF ord] by (simp add: image_Un)
  have "paid \<noteq> []" using t sp by auto
  then have "ord \<noteq> []" using so by auto
  then show thesis
    by (intro that[OF p money_rows_ok[OF paid] money_rows_ok[OF shares] sp ss _ so])
      (simp add: v_order_Inr[OF ord])
qed

lemma balances_zero:
  assumes "money_ok paid" and "money_ok shares" and "sum_list (map snd paid) = sum_list (map snd shares)"
    and "distinct ord" and "set ord = fst ` set paid \<union> fst ` set shares"
  shows "(\<Sum>x\<leftarrow>ord. balance_of paid shares x) = 0"
proof -
  have "(\<Sum>x\<leftarrow>ord. balance_of paid shares x) = (\<Sum>x\<leftarrow>ord. mget paid x 0) - (\<Sum>x\<leftarrow>ord. mget shares x 0)"
    by (simp add: balance_of_def sum_list_subtractf)
  also have "\<dots> = sum_list (map snd paid) - sum_list (map snd shares)"
    using assms by (subst (1 2) sum_balances) (auto simp: money_ok_def)
  finally show ?thesis using assms(3) by simp
qed

lemma members_mset:
  assumes "distinct ord" and "set ord = fst ` set paid \<union> fst ` set shares"
  shows "mset (jsort str_le (dedup (map fst paid @ map fst shares))) = mset ord"
  using assms by (simp add: set_eq_iff_mset_eq_distinct[symmetric] image_Un[symmetric])

lemma projected_settles:
  assumes "projectExpense input = Inr p"
  shows "(\<forall>m \<in> set (pr_positions p). net_of (pr_obligations p) (ps_memberId m) = parse_int (ps_balanceMinor m))
     \<and> (\<Sum>m\<leftarrow>pr_positions p. parse_int (ps_balanceMinor m)) = 0"
proof -
  obtain tot paid shares ord where p: "p = project_rows tot paid shares ord"
    and ok: "money_ok paid" "money_ok shares" and t: "sum_list (map snd paid) = tot" "sum_list (map snd shares) = tot"
    and ord: "distinct ord" "set ord = fst ` set paid \<union> fst ` set shares"
    using assms by (rule projectExpense_cases)
  have z: "(\<Sum>x\<leftarrow>ord. balance_of paid shares x) = 0" by (rule balances_zero) (use ok t ord in simp_all)
  note sb = settle_balances[OF ord(1) z]
  have "(\<Sum>m\<leftarrow>pr_positions p. parse_int (ps_balanceMinor m)) =
      (\<Sum>x\<leftarrow>jsort str_le (dedup (map fst paid @ map fst shares)). balance_of paid shares x)"
    by (simp add: p project_rows_def position_row_def comp_def Let_def)
  also have "\<dots> = 0" using members_mset[OF ord] z by (metis mset_map sum_mset_sum_list)
  finally show ?thesis
    using sb(1) ord(2) by (auto simp: p project_rows_def position_row_def Let_def net_of_edges)
qed

text \<open>
  C10: Who-owes-whom settles the expense: for every member listed in the positions, the obligations
  pay exactly that member's balance (credits minus debits), and the balances of all members add up
  to zero, so no money appears or disappears.
\<close>

theorem projectExpense_settles:
  assumes "projectExpense input = Inr p"
  shows "(\<forall>m \<in> set (pr_positions p). net_of (pr_obligations p) (ps_memberId m) = parse_int (ps_balanceMinor m))
     \<and> (\<Sum>m\<leftarrow>pr_positions p. parse_int (ps_balanceMinor m)) = 0"
  using assms by (rule projected_settles)

definition sample_split :: jsval where
  "sample_split = JObj
     [(''currency'', JStr ''INR''), (''totalMinor'', JStr ''9''),
      (''contributions'', JArr [JObj [(''memberId'', JStr ''a''), (''amountMinor'', JStr ''9'')]]),
      (''shares'', JArr
         [JObj [(''memberId'', JStr ''a''), (''amountMinor'', JStr ''4'')],
          JObj [(''memberId'', JStr ''b''), (''amountMinor'', JStr ''3'')],
          JObj [(''memberId'', JStr ''c''), (''amountMinor'', JStr ''2'')]]),
      (''memberOrder'', JArr [JStr ''c'', JStr ''a'', JStr ''b''])]"

lemma sample_split_projects:
  "\<exists>p. projectExpense sample_split = Inr p \<and> length (pr_positions p) = 3 \<and> pr_obligations p =
     [\<lparr>ob_debtorId = ''c'', ob_creditorId = ''a'', ob_amountMinor = ''2''\<rparr>,
      \<lparr>ob_debtorId = ''b'', ob_creditorId = ''a'', ob_amountMinor = ''3''\<rparr>]"
  by (rule exI[of _ "\<lparr>pr_totalMinor = ''9'', pr_positions =
      [\<lparr>ps_memberId = ''a'', ps_paidMinor = ''9'', ps_shareMinor = ''4'', ps_balanceMinor = ''5''\<rparr>,
       \<lparr>ps_memberId = ''b'', ps_paidMinor = ''0'', ps_shareMinor = ''3'', ps_balanceMinor = ''-3''\<rparr>,
       \<lparr>ps_memberId = ''c'', ps_paidMinor = ''0'', ps_shareMinor = ''2'', ps_balanceMinor = ''-2''\<rparr>],
      pr_obligations =
     [\<lparr>ob_debtorId = ''c'', ob_creditorId = ''a'', ob_amountMinor = ''2''\<rparr>,
      \<lparr>ob_debtorId = ''b'', ob_creditorId = ''a'', ob_amountMinor = ''3''\<rparr>]\<rparr>"]) code_simp

lemma projectExpense_settles_witness:
  "\<exists>p. projectExpense sample_split = Inr p \<and> (\<Sum>m\<leftarrow>pr_positions p. parse_int (ps_balanceMinor m)) = 0"
  using sample_split_projects projectExpense_settles by blast

lemma projected_edges:
  assumes "projectExpense input = Inr p"
  shows "(\<forall>b \<in> set (pr_obligations p). 0 < parse_int (ob_amountMinor b) \<and> ob_debtorId b \<noteq> ob_creditorId b
            \<and> {ob_debtorId b, ob_creditorId b} \<subseteq> ps_memberId ` set (pr_positions p))
     \<and> length (pr_obligations p) < length (pr_positions p)"
proof -
  obtain tot paid shares ord where p: "p = project_rows tot paid shares ord"
    and ok: "money_ok paid" "money_ok shares" and t: "sum_list (map snd paid) = tot" "sum_list (map snd shares) = tot"
    and ord: "distinct ord" "set ord = fst ` set paid \<union> fst ` set shares" and ne: "ord \<noteq> []"
    using assms by (rule projectExpense_cases)
  have z: "(\<Sum>x\<leftarrow>ord. balance_of paid shares x) = 0" by (rule balances_zero) (use ok t ord in simp_all)
  note sb = settle_balances[OF ord(1) z]
  have "length (pr_positions p) = length ord"
    using members_mset[OF ord] by (simp add: p project_rows_def Let_def) (metis length_jsort size_mset)
  moreover have "length (pr_obligations p) < length ord"
    using sb(3) ne by (cases "settle (debtors (balance_of paid shares) ord) (creditors (balance_of paid shares) ord) = []")
      (auto simp: p project_rows_def Let_def)
  moreover have "ps_memberId ` set (pr_positions p) = set ord"
    using ord(2) by (auto simp: p project_rows_def position_row_def Let_def image_image)
  ultimately show ?thesis using sb(2)
    by (fastforce simp: p project_rows_def obligation_row_def Let_def)
qed

text \<open>
  The obligations are minimal in form: every edge carries a positive amount from a member who
  owes to a different member who is owed, and there are fewer edges than members.
\<close>

theorem projectExpense_edges:
  assumes "projectExpense input = Inr p"
  shows "(\<forall>b \<in> set (pr_obligations p). 0 < parse_int (ob_amountMinor b) \<and> ob_debtorId b \<noteq> ob_creditorId b
            \<and> {ob_debtorId b, ob_creditorId b} \<subseteq> ps_memberId ` set (pr_positions p))
     \<and> length (pr_obligations p) < length (pr_positions p)"
  using assms by (rule projected_edges)

lemma projectExpense_edges_witness:
  "\<exists>p. projectExpense sample_split = Inr p \<and> length (pr_obligations p) < length (pr_positions p)"
  using sample_split_projects projectExpense_edges by blast

text \<open>
  The personal cost of a linked payment is what the bank payment did not cover plus the
  member's own share; an accepted request never over-allocates its source and stays in the range a
  Number can hold exactly.
\<close>

theorem personalCost_value:
  assumes "personalCost input = Inr r"
  shows "\<exists>source linked share. jprop input ''sourceAmountMinor'' = JStr source
     \<and> jprop input ''linkedAmountMinor'' = JStr linked \<and> jprop input ''shareMinor'' = JStr share
     \<and> parse_nat linked \<le> parse_nat source
     \<and> parse_int (pc_residualMinor r) = int (parse_nat source) - int (parse_nat linked)
     \<and> parse_int (pc_costMinor r) = parse_int (pc_residualMinor r) + int (parse_nat share)
     \<and> parse_int (pc_costMinor r) \<le> 2 ^ 53 - 1"
  using assms
  by (fastforce simp: personalCost_def Let_def ebind_eq_Inr MAX_AGGREGATE_MINOR_def dest!: v_amount_Inr)

lemma personalCost_value_witness:
  "\<exists>r. personalCost (JObj [(''sourceAmountMinor'', JStr ''50''), (''linkedAmountMinor'', JStr ''20''),
          (''shareMinor'', JStr ''7'')]) = Inr r \<and> parse_int (pc_costMinor r) \<le> 2 ^ 53 - 1"
proof -
  have "\<exists>r. personalCost (JObj [(''sourceAmountMinor'', JStr ''50''), (''linkedAmountMinor'', JStr ''20''),
          (''shareMinor'', JStr ''7'')]) = Inr r"
    by (rule exI[of _ "\<lparr>pc_residualMinor = ''30'', pc_costMinor = ''37''\<rparr>"]) code_simp
  then show ?thesis using personalCost_value by blast
qed

end
