(* ===== verification/Accumulator.thy ===== *)
theory Accumulator
  imports Prelude
begin

text \<open>
  The contract shared by the keyed integer stores of the program: an operation adds an amount at
  a key, may fail, and otherwise changes every observation linearly and nothing outside the
  store. Whatever is posted through such an operation is additive, so loops over postings,
  reversals and reorderings are proved once here.
\<close>

locale accumulator =
  fixes inv :: "'s \<Rightarrow> bool"
    and ok :: "'k \<Rightarrow> bool"
    and get :: "'s \<Rightarrow> 'x \<Rightarrow> int"
    and weight :: "'k \<Rightarrow> 'x \<Rightarrow> int"
    and frame :: "'s \<Rightarrow> 'f"
    and add :: "'s \<Rightarrow> 'k \<Rightarrow> int \<Rightarrow> 'e + 's"
  assumes add_inv: "inv s \<Longrightarrow> ok k \<Longrightarrow> add s k d = Inr s' \<Longrightarrow> inv s'"
    and add_get: "inv s \<Longrightarrow> ok k \<Longrightarrow> add s k d = Inr s' \<Longrightarrow> get s' x = get s x + weight k x * d"
    and add_frame: "inv s \<Longrightarrow> ok k \<Longrightarrow> add s k d = Inr s' \<Longrightarrow> frame s' = frame s"
begin

text \<open>What a list of postings contributes to the observation \<open>x\<close>.\<close>

definition posted :: "('r \<Rightarrow> 'k) \<Rightarrow> ('r \<Rightarrow> int) \<Rightarrow> 'r list \<Rightarrow> 'x \<Rightarrow> int" where
  "posted key amt rs x = (\<Sum>r\<leftarrow>rs. weight (key r) x * amt r)"

lemma posted_append: "posted key amt (rs @ rs') x = posted key amt rs x + posted key amt rs' x"
  by (simp add: posted_def)

lemma posted_perm: "mset rs = mset rs' \<Longrightarrow> posted key amt rs x = posted key amt rs' x"
  by (simp add: posted_def flip: sum_mset_sum_list)

lemma posted_uminus: "posted key (\<lambda>r. - amt r) rs x = - posted key amt rs x"
  unfolding posted_def by (induction rs) auto

lemma posted_scale: "posted key (\<lambda>r. amt r * c) rs x = posted key amt rs x * c"
  unfolding posted_def by (induction rs) (auto simp: algebra_simps)

lemma fold_add:
  assumes "efold (\<lambda>s r. add s (key r) (amt r)) s rs = Inr t" and "inv s" and "\<forall>r \<in> set rs. ok (key r)"
  shows "inv t \<and> frame t = frame s \<and> (\<forall>x. get t x = get s x + posted key amt rs x)"
  using assms
proof (induction rs arbitrary: s)
  case Nil
  then show ?case by (simp add: posted_def)
next
  case (Cons r rs)
  obtain s' where a: "add s (key r) (amt r) = Inr s'" and f: "efold (\<lambda>s r. add s (key r) (amt r)) s' rs = Inr t"
    using Cons.prems(1) by (auto simp: ebind_eq_Inr)
  have k: "ok (key r)" using Cons.prems(3) by simp
  have "inv s'" by (rule add_inv[OF Cons.prems(2) k a])
  moreover have "\<forall>r \<in> set rs. ok (key r)" using Cons.prems(3) by simp
  ultimately have "inv t \<and> frame t = frame s' \<and> (\<forall>x. get t x = get s' x + posted key amt rs x)"
    by (rule Cons.IH[OF f])
  then show ?case
    using add_get[OF Cons.prems(2) k a] add_frame[OF Cons.prems(2) k a] by (simp add: posted_def)
qed

lemmas fold_add_inv = fold_add[THEN conjunct1]
lemmas fold_add_frame = fold_add[THEN conjunct2, THEN conjunct1]
lemmas fold_add_get = fold_add[THEN conjunct2, THEN conjunct2, THEN spec]

text \<open>The order of the postings does not matter for what is observed.\<close>

lemma fold_add_perm:
  assumes "efold (\<lambda>s r. add s (key r) (amt r)) s rs = Inr t"
    and "efold (\<lambda>s r. add s (key r) (amt r)) s rs' = Inr t'"
    and "mset rs = mset rs'" and "inv s" and "\<forall>r \<in> set rs. ok (key r)"
  shows "get t x = get t' x"
proof -
  have "\<forall>r \<in> set rs'. ok (key r)" using assms(3,5) by (metis set_mset_mset)
  then show ?thesis
    using fold_add_get[OF assms(1,4,5)] fold_add_get[OF assms(2,4)] posted_perm[OF assms(3)] by simp
qed

end

end
