(* ===== verification/SharedJournal.thy ===== *)
theory SharedJournal
  imports SharedDomain Accumulator
begin

text \<open>
  \<open>api/src/shared_expenses/journal.js\<close>: the balances of one shared context, kept twice, as a
  net balance per member and as a signed balance per unordered pair of members. The module
  produces deltas (\<open>expenseRevisionDelta\<close>, \<open>settlementDelta\<close>), adds a delta to the current
  balances (\<open>applyBalanceDelta\<close>) and spreads a settlement over obligations
  (\<open>allocateSettlement\<close>). An envelope is the JSON value the module reads and writes.
\<close>

section \<open>State and codec\<close>

definition MAX_MEMBERS :: int where
  "MAX_MEMBERS = 200"

definition MAX_PAIRS :: int where
  "MAX_PAIRS = MAX_MEMBERS * (MAX_MEMBERS - 1) div 2"

text \<open>One balance between two members: positive when \<open>low\<close> is the creditor.\<close>

record bpair =
  bp_low :: string
  bp_high :: string
  bp_amount :: int

text \<open>The two \<open>Map\<close>s of \<open>empty(contextId)\<close>; the currency is always INR.\<close>

record jstate =
  js_context :: string
  js_members :: "(string \<times> int) list"
  js_pairs :: "(string \<times> bpair) list"

definition empty_state :: "string \<Rightarrow> jstate" where
  "empty_state ctx = \<lparr>js_context = ctx, js_members = [], js_pairs = []\<rparr>"

definition bounded :: "int \<Rightarrow> string \<Rightarrow> failure + int" where
  "bounded value field = (if value > MAX_AGGREGATE_MINOR \<or> value < - MAX_AGGREGATE_MINOR
     then Inl (Failure ''AGGREGATE_LIMIT_EXCEEDED'' field) else Inr value)"

text \<open>The grammar \<open>^(0|-?[1-9][0-9]*)$\<close>.\<close>

definition is_signed_decimal :: "string \<Rightarrow> bool" where
  "is_signed_decimal s \<longleftrightarrow> is_decimal s \<or> (s \<noteq> [] \<and> hd s = CHR ''-'' \<and> is_decimal (tl s) \<and> tl s \<noteq> ''0'')"

definition signed_amount :: "jsval \<Rightarrow> string \<Rightarrow> failure + int" where
  "signed_amount v field = (case v of
      JStr s \<Rightarrow> if length s > 17 \<or> \<not> is_signed_decimal s then Inl (Failure ''INVALID_BALANCE'' field)
                 else bounded (parse_int s) field
    | _ \<Rightarrow> Inl (Failure ''INVALID_BALANCE'' field))"

definition scope :: "jsval \<Rightarrow> failure + string" where
  "scope input =
     ebind (v_member (jprop input ''contextId'') ''contextId'') (\<lambda>ctx.
     ebind (v_currency (jprop input ''currency'')) (\<lambda>_. Inr ctx))"

definition pairKey :: "string \<Rightarrow> string \<Rightarrow> string" where
  "pairKey low high = low @ '':'' @ high"

definition addMember :: "jstate \<Rightarrow> string \<Rightarrow> int \<Rightarrow> failure + jstate" where
  "addMember s x amount =
     ebind (bounded (mget (js_members s) x 0 + amount) ''members'') (\<lambda>n.
     Inr (s\<lparr>js_members := mset_put x n (js_members s)\<rparr>))"

definition pair_amount :: "(string \<times> bpair) list \<Rightarrow> string \<Rightarrow> int" where
  "pair_amount ps k = (case map_of ps k of None \<Rightarrow> 0 | Some r \<Rightarrow> bp_amount r)"

definition addPair :: "jstate \<Rightarrow> string \<Rightarrow> string \<Rightarrow> int \<Rightarrow> failure + jstate" where
  "addPair s creditor debtor amount =
     (let low = (if str_less creditor debtor then creditor else debtor);
          high = (if str_less creditor debtor then debtor else creditor);
          key = pairKey low high;
          delta = (if creditor = low then amount else - amount);
          current = pair_amount (js_pairs s) key in
      ebind (bounded (current + delta) ''pairs'') (\<lambda>n.
      Inr (s\<lparr>js_pairs := mset_put key \<lparr>bp_low = low, bp_high = high, bp_amount = n\<rparr> (js_pairs s)\<rparr>)))"

text \<open>The gross balance: what all pairs together still owe, whatever the direction.\<close>

definition gross :: "(string \<times> bpair) list \<Rightarrow> int" where
  "gross ps = (\<Sum>(k, r)\<leftarrow>ps. if bp_amount r < 0 then - bp_amount r else bp_amount r)"

definition open_pairs :: "jstate \<Rightarrow> bpair list" where
  "open_pairs s = filter (\<lambda>r. bp_amount r \<noteq> 0) (map snd (js_pairs s))"

definition by_member :: "string \<times> int \<Rightarrow> string \<times> int \<Rightarrow> bool" where
  "by_member a b \<longleftrightarrow> str_le (fst a) (fst b)"

definition by_low_high :: "bpair \<Rightarrow> bpair \<Rightarrow> bool" where
  "by_low_high a b \<longleftrightarrow> str_less (bp_low a) (bp_low b) \<or> (bp_low a = bp_low b \<and> str_le (bp_high a) (bp_high b))"

definition member_json :: "string \<times> int \<Rightarrow> jsval" where
  "member_json m = JObj [(''memberId'', JStr (fst m)), (''balanceMinor'', JStr (dec_int (snd m)))]"

definition pair_json :: "bpair \<Rightarrow> jsval" where
  "pair_json r = JObj [(''lowMemberId'', JStr (bp_low r)), (''highMemberId'', JStr (bp_high r)),
                       (''balanceMinor'', JStr (dec_int (bp_amount r)))]"

definition shown_members :: "jstate \<Rightarrow> bool \<Rightarrow> (string \<times> int) list" where
  "shown_members s omitZero =
     (let paired = concat (map (\<lambda>r. [bp_low r, bp_high r]) (open_pairs s)) in
      filter (\<lambda>(x, n). \<not> omitZero \<or> n \<noteq> 0 \<or> x \<in> set paired) (jsort by_member (js_members s)))"

definition envelope :: "string \<Rightarrow> (string \<times> int) list \<Rightarrow> bpair list \<Rightarrow> jsval" where
  "envelope ctx ms ps = JObj [(''contextId'', JStr ctx), (''currency'', JStr ''INR''),
     (''members'', JArr (map member_json ms)), (''pairs'', JArr (map pair_json ps))]"

definition output_env :: "jstate \<Rightarrow> bool \<Rightarrow> failure + jsval" where
  "output_env s omitZeroMembers =
     ebind (bounded (gross (js_pairs s)) ''grossMinor'') (\<lambda>_.
     Inr (envelope (js_context s) (shown_members s omitZeroMembers) (jsort by_low_high (open_pairs s))))"

text \<open>The loops of \<open>parseEnvelope\<close>; the second one also accumulates the incidence.\<close>

definition parse_member :: "string \<Rightarrow> jstate \<Rightarrow> nat \<Rightarrow> jsval \<Rightarrow> failure + jstate" where
  "parse_member field s i row =
     (let path = at_index (at_key field ''members'') i in
      ebind (v_record0 row [''memberId'', ''balanceMinor''] path) (\<lambda>_.
      ebind (v_member (jprop row ''memberId'') (at_key path ''memberId'')) (\<lambda>x.
      ebind (echeck (x \<notin> fst ` set (js_members s)) (Failure ''DUPLICATE_MEMBER'' (at_key path ''memberId''))) (\<lambda>_.
      ebind (signed_amount (jprop row ''balanceMinor'') (at_key path ''balanceMinor'')) (\<lambda>n.
      Inr (s\<lparr>js_members := mset_put x n (js_members s)\<rparr>))))))"

definition parse_pair :: "string \<Rightarrow> jstate \<times> (string \<times> int) list \<Rightarrow> nat \<Rightarrow> jsval \<Rightarrow> failure + jstate \<times> (string \<times> int) list" where
  "parse_pair field st i row =
     (let path = at_index (at_key field ''pairs'') i; s = fst st; inc = snd st in
      ebind (v_record0 row [''lowMemberId'', ''highMemberId'', ''balanceMinor''] path) (\<lambda>_.
      ebind (v_member (jprop row ''lowMemberId'') (at_key path ''lowMemberId'')) (\<lambda>low.
      ebind (v_member (jprop row ''highMemberId'') (at_key path ''highMemberId'')) (\<lambda>high.
      ebind (echeck (str_less low high) (Failure ''INVALID_BALANCE_PAIR'' path)) (\<lambda>_.
      let key = pairKey low high in
      ebind (signed_amount (jprop row ''balanceMinor'') (at_key path ''balanceMinor'')) (\<lambda>n.
      ebind (echeck (key \<notin> fst ` set (js_pairs s)) (Failure ''INVALID_BALANCE_PAIR'' path)) (\<lambda>_.
      let inc1 = mset_put low (mget inc low 0 + n) inc; inc2 = mset_put high (mget inc1 high 0 - n) inc1 in
      Inr (s\<lparr>js_pairs := mset_put key \<lparr>bp_low = low, bp_high = high, bp_amount = n\<rparr> (js_pairs s)\<rparr>, inc2))))))))"

definition as_array :: "jsval \<Rightarrow> int \<Rightarrow> failure \<Rightarrow> failure + jsval list" where
  "as_array v mx e = (case v of JArr xs \<Rightarrow> if int (length xs) > mx then Inl e else Inr xs | _ \<Rightarrow> Inl e)"

definition parseEnvelope :: "jsval \<Rightarrow> string \<Rightarrow> failure + jstate" where
  "parseEnvelope input field =
     ebind (v_record0 input [''contextId'', ''currency'', ''members'', ''pairs''] field) (\<lambda>_.
     ebind (scope input) (\<lambda>ctx.
     ebind (as_array (jprop input ''members'') MAX_MEMBERS
              (Failure ''INVALID_PARTICIPANT_COUNT'' (at_key field ''members''))) (\<lambda>ms.
     ebind (as_array (jprop input ''pairs'') MAX_PAIRS (Failure ''INVALID_BALANCE_PAIR'' (at_key field ''pairs''))) (\<lambda>ps.
     ebind (efoldi 0 (parse_member field) (empty_state ctx) ms) (\<lambda>s0.
     ebind (efoldi 0 (parse_pair field) (s0, []) ps) (\<lambda>(s, inc).
     ebind (echeck (list_all (\<lambda>x. x \<in> fst ` set (js_members s) \<and> mget inc x 0 = mget (js_members s) x 0)
                     (dedup (map fst inc @ map fst (js_members s)))) (Failure ''BALANCE_MISMATCH'' field)) (\<lambda>_.
     ebind (bounded (gross (js_pairs s)) ''grossMinor'') (\<lambda>_.
     Inr s))))))))"

section \<open>Operations\<close>

text \<open>One side of a revision, negated for the previous snapshot; \<open>null\<close> contributes nothing.\<close>

definition add_snapshot :: "int \<Rightarrow> jsval \<Rightarrow> jstate \<Rightarrow> failure + jstate" where
  "add_snapshot sign snapshot s = (if snapshot = JNull then Inr s else
     ebind (projectExpense snapshot) (\<lambda>projected.
     ebind (efold (\<lambda>s row. addMember s (ps_memberId row) (parse_int (ps_balanceMinor row) * sign)) s
              (pr_positions projected)) (\<lambda>s1.
     efold (\<lambda>s e. addPair s (ob_creditorId e) (ob_debtorId e) (parse_int (ob_amountMinor e) * sign)) s1
       (pr_obligations projected))))"

definition revision_state :: "jsval \<Rightarrow> failure + jstate" where
  "revision_state input =
     ebind (v_record0 input [''contextId'', ''currency'', ''previous'', ''next''] ''$'') (\<lambda>_.
     ebind (scope input) (\<lambda>ctx.
     ebind (echeck (\<not> (jprop input ''previous'' = JNull \<and> jprop input ''next'' = JNull))
              (Failure ''INVALID_INPUT'' ''$'')) (\<lambda>_.
     ebind (add_snapshot (-1) (jprop input ''previous'') (empty_state ctx)) (\<lambda>s.
     add_snapshot 1 (jprop input ''next'') s))))"

definition expenseRevisionDelta :: "jsval \<Rightarrow> failure + jsval" where
  "expenseRevisionDelta input = ebind (revision_state input) (\<lambda>s. output_env s True)"

definition settlement_state :: "jsval \<Rightarrow> failure + jstate" where
  "settlement_state input =
     ebind (v_record0 input [''contextId'', ''currency'', ''payerId'', ''receiverId'', ''amountMinor'', ''direction''] ''$'') (\<lambda>_.
     ebind (scope input) (\<lambda>ctx.
     ebind (v_member (jprop input ''payerId'') ''payerId'') (\<lambda>payer.
     ebind (v_member (jprop input ''receiverId'') ''receiverId'') (\<lambda>receiver.
     ebind (echeck (payer \<noteq> receiver) (Failure ''INVALID_SETTLEMENT'' ''receiverId'')) (\<lambda>_.
     ebind (echeck (jprop input ''direction'' \<in> {JStr ''confirm'', JStr ''reverse''})
              (Failure ''INVALID_SETTLEMENT_DIRECTION'' ''direction'')) (\<lambda>_.
     ebind (v_amount0 (jprop input ''amountMinor'') ''amountMinor'' True) (\<lambda>n.
     let amount = n * (if jprop input ''direction'' = JStr ''confirm'' then 1 else -1) in
     ebind (addMember (empty_state ctx) payer amount) (\<lambda>s1.
     ebind (addMember s1 receiver (- amount)) (\<lambda>s2.
     addPair s2 payer receiver amount)))))))))"

definition settlementDelta :: "jsval \<Rightarrow> failure + jsval" where
  "settlementDelta input = ebind (settlement_state input) (\<lambda>s. output_env s True)"

definition add_members :: "jstate \<Rightarrow> (string \<times> int) list \<Rightarrow> failure + jstate" where
  "add_members = efold (\<lambda>s m. addMember s (fst m) (snd m))"

definition add_pairs :: "jstate \<Rightarrow> bpair list \<Rightarrow> failure + jstate" where
  "add_pairs = efold (\<lambda>s r. addPair s (bp_low r) (bp_high r) (bp_amount r))"

definition applyBalanceDelta :: "jsval \<Rightarrow> failure + jsval" where
  "applyBalanceDelta input =
     ebind (v_record0 input [''current'', ''delta''] ''$'') (\<lambda>_.
     ebind (parseEnvelope (jprop input ''current'') ''current'') (\<lambda>current.
     ebind (parseEnvelope (jprop input ''delta'') ''delta'') (\<lambda>delta.
     ebind (echeck (js_context current = js_context delta) (Failure ''CONTEXT_MISMATCH'' ''delta.contextId'')) (\<lambda>_.
     ebind (add_members current (js_members delta)) (\<lambda>s1.
     ebind (echeck (int (length (js_members s1)) \<le> MAX_MEMBERS) (Failure ''INVALID_PARTICIPANT_COUNT'' ''members'')) (\<lambda>_.
     ebind (add_pairs s1 (map snd (js_pairs delta))) (\<lambda>s2.
     output_env s2 False)))))))"

text \<open>\<open>allocateSettlement\<close>: oldest obligations first, the rest is credit.\<close>

definition obligation_entry :: "(string \<times> int) list \<Rightarrow> nat \<Rightarrow> jsval \<Rightarrow> failure + (string \<times> int) list" where
  "obligation_entry acc i row =
     (let path = at_index ''obligations'' i in
      ebind (v_record0 row [''obligationId'', ''outstandingMinor''] path) (\<lambda>_.
      ebind (v_member (jprop row ''obligationId'') (at_key path ''obligationId'')) (\<lambda>x.
      ebind (echeck (x \<notin> fst ` set acc) (Failure ''DUPLICATE_MEMBER'' (at_key path ''obligationId''))) (\<lambda>_.
      ebind (v_aggregate (jprop row ''outstandingMinor'') (at_key path ''outstandingMinor'')) (\<lambda>n.
      Inr (mset_put x n acc))))))"

fun spread :: "(string \<times> int) list \<Rightarrow> int \<Rightarrow> string list \<Rightarrow> (string \<times> int) list \<times> int" where
  "spread rows remaining [] = ([], remaining)"
| "spread rows remaining (x # xs) =
     (let available = mget rows x 0; amount = (if available < remaining then available else remaining);
          (rest, credit) = spread rows (remaining - amount) xs in
      (if amount > 0 then (x, amount) # rest else rest, credit))"

record settlement_allocation =
  sa_allocations :: "(string \<times> string) list"
  sa_creditMinor :: string

definition allocateSettlement :: "jsval \<Rightarrow> failure + settlement_allocation" where
  "allocateSettlement input =
     ebind (v_record0 input [''amountMinor'', ''obligations'', ''allocationOrder''] ''$'') (\<lambda>_.
     ebind (v_amount0 (jprop input ''amountMinor'') ''amountMinor'' True) (\<lambda>total.
     ebind (v_count (jprop input ''obligations'') 100 ''INVALID_OBLIGATION_COUNT'' ''obligations'') (\<lambda>obs.
     ebind (efoldi 0 obligation_entry [] obs) (\<lambda>rows.
     ebind (v_order (jprop input ''allocationOrder'') (map fst rows) ''allocationOrder'') (\<lambda>ord.
     let (allocations, credit) = spread rows total ord in
     Inr \<lparr>sa_allocations = map (\<lambda>(x, n). (x, dec_int n)) allocations, sa_creditMinor = dec_int credit\<rparr>)))))"


section \<open>Invariant and abstraction\<close>

text \<open>The abstract balances: a net amount per member and a signed amount per ordered pair.\<close>

definition member_of :: "jstate \<Rightarrow> string \<Rightarrow> int" where
  "member_of s x = mget (js_members s) x 0"

definition credit_of :: "jstate \<Rightarrow> string \<times> string \<Rightarrow> int" where
  "credit_of s p = (case p of (a, b) \<Rightarrow>
     if str_less a b then pair_amount (js_pairs s) (pairKey a b)
     else if str_less b a then - pair_amount (js_pairs s) (pairKey b a) else 0)"

definition incidence :: "jstate \<Rightarrow> string \<Rightarrow> int" where
  "incidence s x = (\<Sum>(k, r)\<leftarrow>js_pairs s.
     if bp_low r = x then bp_amount r else if bp_high r = x then - bp_amount r else 0)"

definition in_range :: "int \<Rightarrow> bool" where
  "in_range n \<longleftrightarrow> - MAX_AGGREGATE_MINOR \<le> n \<and> n \<le> MAX_AGGREGATE_MINOR"

definition good_pair :: "string \<times> bpair \<Rightarrow> bool" where
  "good_pair p \<longleftrightarrow> fst p = pairKey (bp_low (snd p)) (bp_high (snd p)) \<and> str_less (bp_low (snd p)) (bp_high (snd p))
     \<and> is_member_id (bp_low (snd p)) \<and> is_member_id (bp_high (snd p)) \<and> in_range (bp_amount (snd p))"

definition jwf :: "jstate \<Rightarrow> bool" where
  "jwf s \<longleftrightarrow> is_member_id (js_context s)
     \<and> distinct (map fst (js_members s)) \<and> (\<forall>(x, n) \<in> set (js_members s). is_member_id x \<and> in_range n)
     \<and> distinct (map fst (js_pairs s)) \<and> (\<forall>p \<in> set (js_pairs s). good_pair p)"

text \<open>The two representations agree: a member's net balance is the sum over its pairs.\<close>

definition balanced :: "jstate \<Rightarrow> bool" where
  "balanced s \<longleftrightarrow> (\<forall>x. member_of s x = incidence s x)
     \<and> (\<forall>(k, r) \<in> set (js_pairs s). {bp_low r, bp_high r} \<subseteq> fst ` set (js_members s))"

lemma bounded_Inr: "bounded n f = Inr m \<longleftrightarrow> m = n \<and> in_range n"
  by (auto simp: bounded_def in_range_def)

lemma no_colon:
  assumes "is_member_id x"
  shows "CHR '':'' \<notin> set x"
proof -
  have nc: "\<not> is_alnum (CHR '':'')" by code_simp
  have x: "x = hd x # tl x" and h: "is_alnum (hd x)"
    and t: "\<forall>c \<in> set (tl x). is_alnum c \<or> c = CHR ''_'' \<or> c = CHR ''-''"
    using assms by (auto simp: is_member_id_def list_all_iff)
  have "CHR '':'' \<notin> set (tl x)" using t nc by auto
  moreover have "CHR '':'' \<noteq> hd x" using h nc by auto
  ultimately show ?thesis by (subst x) simp
qed

lemma pairKey_inj:
  assumes "is_member_id a" and "is_member_id b" and "pairKey a b = pairKey c d"
  shows "a = c \<and> b = d"
proof -
  let ?n = "\<lambda>s. length (filter (\<lambda>x. x = CHR '':'') s)"
  have "?n (pairKey a b) = 1"
    using no_colon[OF assms(1)] no_colon[OF assms(2)] by (auto simp: pairKey_def filter_empty_conv)
  then have "?n (pairKey c d) = 1" by (simp add: assms(3))
  then have "CHR '':'' \<notin> set c" by (auto simp: pairKey_def filter_empty_conv)
  then have tw: "takeWhile (\<lambda>x. x \<noteq> CHR '':'') (pairKey c d) = c"
    unfolding pairKey_def by (induction c) auto
  have "takeWhile (\<lambda>x. x \<noteq> CHR '':'') (pairKey a b) = a"
    using no_colon[OF assms(1)] unfolding pairKey_def by (induction a) auto
  then have "a = c" using assms(3) tw by simp
  then show ?thesis using assms(3) by (simp add: pairKey_def)
qed

lemma jwf_empty: "is_member_id ctx \<Longrightarrow> jwf (empty_state ctx)"
  by (simp add: jwf_def empty_state_def)

lemma empty_gets [simp]: "member_of (empty_state ctx) x = 0" "credit_of (empty_state ctx) p = 0"
  "incidence (empty_state ctx) x = 0"
  by (auto simp: member_of_def credit_of_def incidence_def empty_state_def mget_def pair_amount_def split: prod.splits)

lemma pair_amount_in: "distinct (map fst ps) \<Longrightarrow> (k, r) \<in> set ps \<Longrightarrow> pair_amount ps k = bp_amount r"
  by (simp add: pair_amount_def)

lemma pair_amount_notin: "k \<notin> fst ` set ps \<Longrightarrow> pair_amount ps k = 0"
  by (simp add: pair_amount_def map_of_eq_None_iff[THEN iffD2])

lemma pair_amount_put [simp]:
  "pair_amount (mset_put k r ps) k' = (if k' = k then bp_amount r else pair_amount ps k')"
  by (simp add: pair_amount_def)

lemma set_mset_put_cases: "p \<in> set (mset_put k v m) \<Longrightarrow> p = (k, v) \<or> p \<in> set m"
  using set_mset_put[of k v m] by blast

section \<open>Posting to members and pairs\<close>

lemma addMember_step:
  assumes wf: "jwf s" and x: "is_member_id x" and a: "addMember s x d = Inr s'"
  shows "jwf s' \<and> member_of s' y = member_of s y + (if x = y then 1 else 0) * d
     \<and> js_context s' = js_context s \<and> js_pairs s' = js_pairs s
     \<and> fst ` set (js_members s') = insert x (fst ` set (js_members s))"
proof -
  have s': "s' = s\<lparr>js_members := mset_put x (member_of s x + d) (js_members s)\<rparr>" and r: "in_range (member_of s x + d)"
    using a by (auto simp: addMember_def ebind_eq_Inr bounded_Inr member_of_def)
  have "jwf s'" using wf x r unfolding s' jwf_def by (auto dest!: set_mset_put_cases)
  then show ?thesis by (simp add: s' member_of_def)
qed

interpretation member_ledger: accumulator jwf is_member_id member_of
  "\<lambda>x y. if x = y then 1 else 0" "\<lambda>s. (js_context s, js_pairs s)" addMember
  by unfold_locales (use addMember_step in blast)+

definition good_ends :: "string \<times> string \<Rightarrow> bool" where
  "good_ends p \<longleftrightarrow> is_member_id (fst p) \<and> is_member_id (snd p) \<and> fst p \<noteq> snd p"

definition pair_weight :: "string \<times> string \<Rightarrow> string \<times> string \<Rightarrow> int" where
  "pair_weight p q = (if q = p then 1 else if q = (snd p, fst p) then -1 else 0)"

definition end_weight :: "string \<times> string \<Rightarrow> string \<Rightarrow> int" where
  "end_weight p x = (if x = fst p then 1 else if x = snd p then -1 else 0)"

lemma addPair_step:
  assumes wf: "jwf s" and e: "good_ends (c, d)" and a: "addPair s c d n = Inr s'"
  shows "jwf s' \<and> credit_of s' q = credit_of s q + pair_weight (c, d) q * n
     \<and> incidence s' x = incidence s x + end_weight (c, d) x * n
     \<and> js_context s' = js_context s \<and> js_members s' = js_members s
     \<and> (\<forall>(k, r) \<in> set (js_pairs s'). (k, r) \<in> set (js_pairs s) \<or> {bp_low r, bp_high r} = {c, d})"
proof -
  define low where "low = (if str_less c d then c else d)"
  define high where "high = (if str_less c d then d else c)"
  define delta where "delta = (if c = low then n else - n)"
  let ?k = "pairKey low high"
  let ?cur = "pair_amount (js_pairs s) ?k"
  let ?r = "\<lparr>bp_low = low, bp_high = high, bp_amount = ?cur + delta\<rparr>"
  have s': "s' = s\<lparr>js_pairs := mset_put ?k ?r (js_pairs s)\<rparr>" and r: "in_range (?cur + delta)"
    using a by (auto simp: addPair_def Let_def ebind_eq_Inr bounded_Inr low_def high_def delta_def)
  have ids: "is_member_id low" "is_member_id high" "c \<noteq> d"
    using e by (auto simp: low_def high_def good_ends_def)
  have lt: "str_less low high"
    using str_less_linear[of c d] ids(3) by (auto simp: low_def high_def)
  have wf': "jwf s'" using wf ids lt r unfolding s' jwf_def
    by (auto simp: good_pair_def dest!: set_mset_put_cases)
  have key: "pairKey a b = ?k \<longleftrightarrow> a = low \<and> b = high" for a b
    using pairKey_inj[OF ids(1,2), of a b] by metis
  obtain a b where q: "q = (a, b)" by (cases q)
  have upd: "pair_amount (js_pairs s') (pairKey u v) =
      (if u = low \<and> v = high then ?cur + delta else pair_amount (js_pairs s) (pairKey u v))" for u v
    by (simp add: s' key)
  have credit: "credit_of s' q = credit_of s q + pair_weight (c, d) q * n"
    using ids(3) str_less_linear[of a b] str_less_asym[of a b] str_less_linear[of c d] str_less_asym[of c d]
    by (auto simp: q credit_of_def upd pair_weight_def low_def high_def delta_def)
  let ?f = "\<lambda>k r. if bp_low r = x then bp_amount r else if bp_high r = x then - bp_amount r else 0"
  let ?z = "\<lparr>bp_low = low, bp_high = high, bp_amount = 0\<rparr>"
  have dist: "distinct (map fst (js_pairs s))" using wf by (simp add: jwf_def)
  have old: "?f ?k (mget (js_pairs s) ?k ?z) = (if low = x then ?cur else if high = x then - ?cur else 0)"
  proof (cases "map_of (js_pairs s) ?k")
    case None
    show ?thesis unfolding mget_def pair_amount_def None by simp
  next
    case (Some r)
    then have "(?k, r) \<in> set (js_pairs s)" by (rule map_of_SomeD)
    then have "good_pair (?k, r)" using wf by (auto simp: jwf_def)
    then have "bp_low r = low" "bp_high r = high" using key[of "bp_low r" "bp_high r"] by (auto simp: good_pair_def)
    then show ?thesis unfolding mget_def pair_amount_def Some by simp
  qed
  have "incidence s' x = incidence s x + ?f ?k ?r - ?f ?k (mget (js_pairs s) ?k ?z)"
    unfolding incidence_def s' by (simp add: sum_mset_put[OF dist, of ?f ?k ?z] del: mget_mset_put)
  then have inc: "incidence s' x = incidence s x + end_weight (c, d) x * n"
    unfolding old using ids(3) by (auto simp: low_def high_def delta_def end_weight_def)
  have mem: "\<forall>(k, r) \<in> set (js_pairs s'). (k, r) \<in> set (js_pairs s) \<or> {bp_low r, bp_high r} = {c, d}"
    by (auto simp: s' low_def high_def dest!: set_mset_put_cases)
  show ?thesis using wf' credit inc mem by (simp add: s')
qed

interpretation pair_ledger: accumulator jwf good_ends credit_of pair_weight
  "\<lambda>s. (js_context s, js_members s)" "\<lambda>s p n. addPair s (fst p) (snd p) n"
proof unfold_locales
  fix s p n s' q assume "jwf s" "good_ends p" "addPair s (fst p) (snd p) n = Inr s'"
  from addPair_step[of s "fst p" "snd p" n s' q, OF this(1) _ this(3)] this(2)
  show "jwf s'" "credit_of s' q = credit_of s q + pair_weight p q * n"
    "(js_context s', js_members s') = (js_context s, js_members s)" by auto
qed

interpretation incidence_ledger: accumulator jwf good_ends incidence end_weight
  "\<lambda>s. (js_context s, js_members s)" "\<lambda>s p n. addPair s (fst p) (snd p) n"
proof unfold_locales
  fix s p n s' x assume "jwf s" "good_ends p" "addPair s (fst p) (snd p) n = Inr s'"
  from addPair_step[of s "fst p" "snd p" n s' _ x, OF this(1) _ this(3)] this(2)
  show "jwf s'" "incidence s' x = incidence s x + end_weight p x * n"
    "(js_context s', js_members s') = (js_context s, js_members s)" by auto
qed

text \<open>What posting a list of member rows, and of pair rows, does to a well-formed state.\<close>

lemma post_members:
  assumes f: "efold (\<lambda>s r. addMember s (key r) (amt r)) s rs = Inr t" and wf: "jwf s"
    and ok: "\<forall>r \<in> set rs. is_member_id (key r)"
  shows "jwf t \<and> js_context t = js_context s \<and> js_pairs t = js_pairs s
     \<and> (\<forall>x. member_of t x = member_of s x + (\<Sum>r\<leftarrow>rs. if key r = x then amt r else 0))
     \<and> fst ` set (js_members t) = fst ` set (js_members s) \<union> key ` set rs"
proof -
  have "fst ` set (js_members t) = fst ` set (js_members s) \<union> key ` set rs"
    using f wf ok
  proof (induction rs arbitrary: s)
    case Nil
    then show ?case by simp
  next
    case (Cons r rs)
    obtain s' where a: "addMember s (key r) (amt r) = Inr s'"
      and f: "efold (\<lambda>s r. addMember s (key r) (amt r)) s' rs = Inr t"
      using Cons.prems(1) by (auto simp: ebind_eq_Inr)
    have st: "jwf s'" "fst ` set (js_members s') = insert (key r) (fst ` set (js_members s))"
      using addMember_step[OF Cons.prems(2) _ a] Cons.prems(3) by auto
    show ?case using Cons.IH[OF f st(1)] Cons.prems(3) st(2) by auto
  qed
  moreover have "(\<Sum>r\<leftarrow>rs. (if key r = x then 1 else 0) * amt r) = (\<Sum>r\<leftarrow>rs. if key r = x then amt r else 0)" for x
    by (rule arg_cong[of _ _ sum_list], rule map_cong) auto
  ultimately show ?thesis using member_ledger.fold_add[OF f wf ok] by (simp add: member_ledger.posted_def)
qed

lemma post_pairs:
  assumes f: "efold (\<lambda>s r. addPair s (cr r) (db r) (amt r)) s rs = Inr t" and wf: "jwf s"
    and ok: "\<forall>r \<in> set rs. good_ends (cr r, db r)"
  shows "jwf t \<and> js_context t = js_context s \<and> js_members t = js_members s
     \<and> (\<forall>q. credit_of t q = credit_of s q + (\<Sum>r\<leftarrow>rs. pair_weight (cr r, db r) q * amt r))
     \<and> (\<forall>x. incidence t x = incidence s x + (\<Sum>r\<leftarrow>rs. end_weight (cr r, db r) x * amt r))
     \<and> (\<forall>(k, p) \<in> set (js_pairs t). (k, p) \<in> set (js_pairs s) \<or> (\<exists>r \<in> set rs. {bp_low p, bp_high p} = {cr r, db r}))"
proof -
  have f': "efold (\<lambda>s r. addPair s (fst (cr r, db r)) (snd (cr r, db r)) (amt r)) s rs = Inr t" using f by simp
  have "\<forall>(k, p) \<in> set (js_pairs t). (k, p) \<in> set (js_pairs s) \<or> (\<exists>r \<in> set rs. {bp_low p, bp_high p} = {cr r, db r})"
    using f wf ok
  proof (induction rs arbitrary: s)
    case Nil
    then show ?case by auto
  next
    case (Cons r rs)
    obtain s' where a: "addPair s (cr r) (db r) (amt r) = Inr s'"
      and f: "efold (\<lambda>s r. addPair s (cr r) (db r) (amt r)) s' rs = Inr t"
      using Cons.prems(1) by (auto simp: ebind_eq_Inr)
    have g: "good_ends (cr r, db r)" using Cons.prems(3) by simp
    note st = addPair_step[OF Cons.prems(2) g a]
    have "jwf s'" using st by blast
    then have ih: "\<forall>(k, p) \<in> set (js_pairs t). (k, p) \<in> set (js_pairs s') \<or> (\<exists>r \<in> set rs. {bp_low p, bp_high p} = {cr r, db r})"
      using Cons.IH[OF f] Cons.prems(3) by simp
    show ?case
    proof clarify
      fix k p assume kp: "(k, p) \<in> set (js_pairs t)"
        and n: "\<not> (\<exists>x \<in> set (r # rs). {bp_low p, bp_high p} = {cr x, db x})"
      have nr: "{bp_low p, bp_high p} \<noteq> {cr r, db r}" and nrs: "\<not> (\<exists>x \<in> set rs. {bp_low p, bp_high p} = {cr x, db x})"
        using n by simp_all
      have "(k, p) \<in> set (js_pairs s')" using bspec[OF ih kp] nrs by simp
      then have "(k, p) \<in> set (js_pairs s) \<or> {bp_low p, bp_high p} = {cr r, db r}" using st by blast
      then show "(k, p) \<in> set (js_pairs s)" using nr by simp
    qed
  qed
  then show ?thesis
    using pair_ledger.fold_add[OF f' wf ok] incidence_ledger.fold_add[OF f' wf ok]
    by (simp add: pair_ledger.posted_def incidence_ledger.posted_def)
qed

section \<open>Reading back what is written\<close>

lemma mset_put_absent: "k \<notin> fst ` set m \<Longrightarrow> mset_put k v m = m @ [(k, v)]"
  by (induction m) auto

lemma length_dec_digits_bound: "n < 10 ^ Suc k \<Longrightarrow> length (dec_digits n) \<le> Suc k"
proof (induction k arbitrary: n)
  case 0
  then show ?case by (subst dec_digits.simps) simp
next
  case (Suc k)
  show ?case
  proof (cases "n < 10")
    case True
    then show ?thesis by (subst dec_digits.simps) simp
  next
    case False
    have "n div 10 < 10 ^ Suc k" using Suc.prems by (simp add: div_less_iff_less_mult)
    then show ?thesis using Suc.IH False by (subst dec_digits.simps) simp
  qed
qed

lemma signed_amount_dec: "in_range n \<Longrightarrow> signed_amount (JStr (dec_int n)) f = Inr n"
proof -
  assume r: "in_range n"
  have len: "length (dec_digits m) \<le> 16" if "m \<le> 9007199254740991" for m
    using length_dec_digits_bound[of m 15] that by simp
  have "length (dec_int n) \<le> 17"
    using r len[of "nat (- n)"] len[of "nat n"]
    by (simp add: dec_int_def in_range_def MAX_AGGREGATE_MINOR_def nat_le_iff)
  moreover have "is_signed_decimal (dec_int n)"
  proof (cases "n < 0")
    case True
    have "dec_digits (nat (- n)) \<noteq> ''0''"
    proof
      assume "dec_digits (nat (- n)) = ''0''"
      then have "hd (dec_digits (nat (- n))) = CHR ''0''" by simp
      then show False using hd_dec_digits[of "nat (- n)"] True by simp
    qed
    with True show ?thesis by (simp add: is_signed_decimal_def dec_int_def)
  next
    case False
    then show ?thesis by (simp add: is_signed_decimal_def dec_int_def)
  qed
  ultimately show ?thesis using r by (simp add: signed_amount_def bounded_Inr)
qed

lemma parse_members_json:
  assumes "\<forall>(x, n) \<in> set ms. is_member_id x \<and> in_range n" and "distinct (map fst (js_members s @ ms))"
  shows "efoldi i (parse_member field) s (map member_json ms) = Inr (s\<lparr>js_members := js_members s @ ms\<rparr>)"
  using assms
proof (induction ms arbitrary: i s)
  case Nil
  then show ?case by simp
next
  case (Cons m ms)
  obtain x n where m: "m = (x, n)" by (cases m)
  have x: "is_member_id x" "in_range n" "x \<notin> fst ` set (js_members s)" using Cons.prems by (auto simp: m)
  have put: "mset_put x n (js_members s) = js_members s @ [(x, n)]"
    using x(3) by (rule mset_put_absent)
  have "parse_member field s i (member_json m) = Inr (s\<lparr>js_members := js_members s @ [m]\<rparr>)"
    using x by (simp add: parse_member_def member_json_def m Let_def v_record_def v_member_def signed_amount_dec put)
  then show ?case using Cons.IH[of "s\<lparr>js_members := js_members s @ [m]\<rparr>" "Suc i"] Cons.prems by simp
qed

definition key_pair :: "bpair \<Rightarrow> string \<times> bpair" where
  "key_pair r = (pairKey (bp_low r) (bp_high r), r)"

definition row_incidence :: "bpair list \<Rightarrow> string \<Rightarrow> int" where
  "row_incidence rs x = (\<Sum>r\<leftarrow>rs. if bp_low r = x then bp_amount r else if bp_high r = x then - bp_amount r else 0)"

lemma parse_pair_json:
  assumes "good_pair (key_pair r)" and "fst (key_pair r) \<notin> fst ` set (js_pairs s)"
  shows "\<exists>inc'. parse_pair field (s, inc) i (pair_json r) = Inr (s\<lparr>js_pairs := js_pairs s @ [key_pair r]\<rparr>, inc')
     \<and> (\<forall>x. mget inc' x 0 = mget inc x 0 + row_incidence [r] x)
     \<and> fst ` set inc' = fst ` set inc \<union> {bp_low r, bp_high r}"
proof -
  have g: "is_member_id (bp_low r)" "is_member_id (bp_high r)" "str_less (bp_low r) (bp_high r)" "in_range (bp_amount r)"
    using assms(1) by (auto simp: good_pair_def key_pair_def)
  have ne: "bp_low r \<noteq> bp_high r" using g(3) by auto
  have r: "\<lparr>bp_low = bp_low r, bp_high = bp_high r, bp_amount = bp_amount r\<rparr> = r" by simp
  have k: "pairKey (bp_low r) (bp_high r) \<notin> fst ` set (js_pairs s)" using assms(2) by (simp add: key_pair_def)
  show ?thesis
    using g k ne
    by (auto simp: parse_pair_def pair_json_def Let_def v_record_def v_member_def signed_amount_dec
        mset_put_absent[OF k] r key_pair_def row_incidence_def)
qed

lemma parse_pairs_json:
  assumes "\<forall>r \<in> set rs. good_pair (key_pair r)" and "distinct (map fst (js_pairs s @ map key_pair rs))"
  shows "\<exists>inc'. efoldi i (parse_pair field) (s, inc) (map pair_json rs)
        = Inr (s\<lparr>js_pairs := js_pairs s @ map key_pair rs\<rparr>, inc')
     \<and> (\<forall>x. mget inc' x 0 = mget inc x 0 + row_incidence rs x)
     \<and> fst ` set inc' = fst ` set inc \<union> (\<Union>r \<in> set rs. {bp_low r, bp_high r})"
  using assms
proof (induction rs arbitrary: i s inc)
  case Nil
  then show ?case by (simp add: row_incidence_def)
next
  case (Cons r rs)
  obtain inc1 where p: "parse_pair field (s, inc) i (pair_json r) = Inr (s\<lparr>js_pairs := js_pairs s @ [key_pair r]\<rparr>, inc1)"
    and i1: "\<forall>x. mget inc1 x 0 = mget inc x 0 + row_incidence [r] x"
      "fst ` set inc1 = fst ` set inc \<union> {bp_low r, bp_high r}"
    using parse_pair_json[of r s field inc i] Cons.prems by auto
  let ?s1 = "s\<lparr>js_pairs := js_pairs s @ [key_pair r]\<rparr>"
  obtain inc2 where "efoldi (Suc i) (parse_pair field) (?s1, inc1) (map pair_json rs)
        = Inr (?s1\<lparr>js_pairs := js_pairs ?s1 @ map key_pair rs\<rparr>, inc2)"
     "\<forall>x. mget inc2 x 0 = mget inc1 x 0 + row_incidence rs x"
     "fst ` set inc2 = fst ` set inc1 \<union> (\<Union>r \<in> set rs. {bp_low r, bp_high r})"
    using Cons.IH[of ?s1 "Suc i" inc1] Cons.prems by auto
  with p i1 show ?case by (auto simp: row_incidence_def)
qed

text \<open>There are at most \<open>n (n - 1) / 2\<close> ordered pairs over \<open>n\<close> members.\<close>

lemma card_ordered_pairs:
  assumes "finite S" and "P \<subseteq> S \<times> S" and "\<forall>(a, b) \<in> P. str_less a b"
  shows "card P \<le> card S * (card S - 1) div 2"
proof -
  have fin: "finite (S \<times> S)" "finite P" using assms(1,2) finite_subset[of P "S \<times> S"] by auto
  have disj: "P \<inter> prod.swap ` P = {}" using assms(3) str_less_asym by fastforce
  have sub: "P \<union> prod.swap ` P \<subseteq> S \<times> S - Id_on S"
    using assms(2,3) by (auto simp: Id_on_def)
  have "card (prod.swap ` P) = card P" by (rule card_image) simp
  then have "2 * card P = card (P \<union> prod.swap ` P)" using card_Un_disjoint[OF _ _ disj] fin by simp
  also have "\<dots> \<le> card (S \<times> S - Id_on S)" by (rule card_mono[OF _ sub]) (use fin in simp)
  also have "card (S \<times> S - Id_on S) = card S * card S - card S"
  proof -
    have "Id_on S = (\<lambda>x. (x, x)) ` S" by (auto simp: Id_on_def)
    then have "card (Id_on S) = card S" by (simp add: card_image inj_on_def)
    moreover have "Id_on S \<subseteq> S \<times> S" by (auto simp: Id_on_def)
    ultimately show ?thesis using fin assms(1) by (simp add: card_Diff_subset finite_subset card_cartesian_product)
  qed
  finally show ?thesis by (simp add: algebra_simps diff_mult_distrib2)
qed

lemma fst_key_pair_inj:
  assumes "good_pair (key_pair r)" and "good_pair (key_pair r')" and "fst (key_pair r) = fst (key_pair r')"
  shows "bp_low r = bp_low r' \<and> bp_high r = bp_high r'"
  using assms pairKey_inj by (auto simp: good_pair_def key_pair_def)

lemma length_pairs:
  assumes "\<forall>r \<in> set rs. good_pair (key_pair r)" and "distinct (map fst (map key_pair rs))"
    and "\<forall>r \<in> set rs. {bp_low r, bp_high r} \<subseteq> S" and "finite S" and "int (card S) \<le> MAX_MEMBERS"
  shows "int (length rs) \<le> MAX_PAIRS"
proof -
  let ?e = "\<lambda>r. (bp_low r, bp_high r)"
  have "map fst (map key_pair rs) = map (\<lambda>(a, b). pairKey a b) (map ?e rs)" by (simp add: key_pair_def)
  then have "distinct (map (\<lambda>(a, b). pairKey a b) (map ?e rs))" using assms(2) by metis
  then have "distinct (map ?e rs)" unfolding distinct_map[of _ "map ?e rs"] by blast
  then have "length rs = card (?e ` set rs)" by (metis distinct_card length_map set_map)
  also have "\<dots> \<le> card S * (card S - 1) div 2"
    by (rule card_ordered_pairs[OF assms(4)]) (use assms(1,3) in \<open>auto simp: good_pair_def key_pair_def\<close>)
  also have "\<dots> \<le> 200 * (200 - 1) div 2"
    using assms(5) by (intro div_le_mono mult_le_mono diff_le_mono) (simp_all add: MAX_MEMBERS_def)
  finally show ?thesis by (simp add: MAX_PAIRS_def MAX_MEMBERS_def)
qed

lemma gross_nonzero: "gross (map key_pair (filter (\<lambda>r. bp_amount r \<noteq> 0) (map snd ps))) = gross ps"
  by (induction ps) (auto simp: gross_def key_pair_def)

lemma parse_envelope_json:
  assumes ctx: "is_member_id ctx"
    and ms: "\<forall>(x, n) \<in> set ms. is_member_id x \<and> in_range n" "distinct (map fst ms)" "int (length ms) \<le> MAX_MEMBERS"
    and rs: "\<forall>r \<in> set rs. good_pair (key_pair r)" "distinct (map fst (map key_pair rs))"
    and bal: "\<forall>x. mget ms x 0 = row_incidence rs x"
    and ends: "\<forall>r \<in> set rs. {bp_low r, bp_high r} \<subseteq> fst ` set ms"
    and gr: "in_range (gross (map key_pair rs))"
  shows "parseEnvelope (envelope ctx ms rs) field
           = Inr \<lparr>js_context = ctx, js_members = ms, js_pairs = map key_pair rs\<rparr>"
proof -
  have sc: "scope (envelope ctx ms rs) = Inr ctx"
    using ctx by (simp add: scope_def envelope_def v_member_def v_currency_def)
  have card: "int (card (fst ` set ms)) \<le> MAX_MEMBERS"
    using ms(2,3) by (metis distinct_card length_map set_map)
  have len: "int (length rs) \<le> MAX_PAIRS" by (rule length_pairs[OF rs ends _ card]) simp
  have m: "efoldi 0 (parse_member field) (empty_state ctx) (map member_json ms)
      = Inr \<lparr>js_context = ctx, js_members = ms, js_pairs = []\<rparr>"
    using parse_members_json[of ms "empty_state ctx" 0 field] ms by (simp add: empty_state_def)
  let ?s = "\<lparr>js_context = ctx, js_members = ms, js_pairs = []\<rparr>"
  obtain inc where p: "efoldi 0 (parse_pair field) (?s, []) (map pair_json rs)
        = Inr (\<lparr>js_context = ctx, js_members = ms, js_pairs = map key_pair rs\<rparr>, inc)"
      and i: "\<forall>x. mget inc x 0 = row_incidence rs x" "fst ` set inc = (\<Union>r \<in> set rs. {bp_low r, bp_high r})"
    using parse_pairs_json[of rs ?s 0 field "[]"] rs by (auto simp: mget_def)
  have chk: "list_all (\<lambda>x. x \<in> fst ` set ms \<and> mget inc x 0 = mget ms x 0) (dedup (map fst inc @ map fst ms))"
    using i bal ends by (auto simp: list_all_iff)
  have rc: "v_record0 (envelope ctx ms rs) [''contextId'', ''currency'', ''members'', ''pairs''] field = Inr ()"
    by (simp add: v_record_def envelope_def)
  have ar: "as_array (jprop (envelope ctx ms rs) ''members'') MAX_MEMBERS e = Inr (map member_json ms)"
    "as_array (jprop (envelope ctx ms rs) ''pairs'') MAX_PAIRS e = Inr (map pair_json rs)" for e
    using ms(3) len by (simp_all add: envelope_def as_array_def)
  have "bounded (gross (map key_pair rs)) ''grossMinor'' = Inr (gross (map key_pair rs))"
    using gr by (simp add: bounded_Inr)
  then show ?thesis
    unfolding parseEnvelope_def rc sc ar ebind_Inr m p prod.case using chk by simp
qed

lemma map_of_jsort: "distinct (map fst ms) \<Longrightarrow> map_of (jsort le ms) = map_of ms"
  by (rule map_of_inject_set[THEN iffD2]) (simp_all add: jsort_map_distinct)

lemma mget_filter_zero:
  assumes "distinct (map fst ms)" and "\<And>x n. (x, n) \<in> set ms \<Longrightarrow> n \<noteq> 0 \<Longrightarrow> P (x, n)"
  shows "mget (filter P ms) x (0 :: int) = mget ms x 0"
  using assms
proof (induction ms)
  case Nil
  then show ?case by simp
next
  case (Cons m ms)
  obtain y n where m: "m = (y, n)" by (cases m)
  have ih: "mget (filter P ms) x 0 = mget ms x 0" using Cons by simp
  have absent: "y = x \<Longrightarrow> mget ms x 0 = 0" using Cons.prems(1) m by (intro mget_notin) auto
  show ?case
  proof (cases "P m")
    case True
    then show ?thesis using ih by (simp add: m mget_def)
  next
    case False
    then have "n = 0" using Cons.prems(2)[of y n] by (auto simp: m)
    moreover have "mget ((y, n) # ms) x 0 = (if y = x then n else mget ms x 0)" by (simp add: mget_def)
    ultimately show ?thesis using False ih absent by (simp add: m)
  qed
qed

lemma row_incidence_open: "row_incidence (jsort le (open_pairs s)) x = incidence s x"
proof -
  have "row_incidence (jsort le (open_pairs s)) x = row_incidence (open_pairs s) x"
    by (simp add: row_incidence_def)
  moreover have "row_incidence (filter (\<lambda>r. bp_amount r \<noteq> 0) (map snd ps)) x =
      (\<Sum>(k, r)\<leftarrow>ps. if bp_low r = x then bp_amount r else if bp_high r = x then - bp_amount r else 0)" for ps
    by (induction ps) (auto simp: row_incidence_def)
  then have "row_incidence (open_pairs s) x = incidence s x" by (simp add: open_pairs_def incidence_def)
  ultimately show ?thesis by simp
qed

text \<open>Two states with the same context and the same balances, whatever their representation.\<close>

definition same_balances :: "jstate \<Rightarrow> jstate \<Rightarrow> bool" where
  "same_balances s t \<longleftrightarrow> js_context s = js_context t \<and> (\<forall>x. member_of s x = member_of t x)
     \<and> (\<forall>q. credit_of s q = credit_of t q)"

definition shown_state :: "jstate \<Rightarrow> bool \<Rightarrow> jstate" where
  "shown_state s om = \<lparr>js_context = js_context s, js_members = shown_members s om,
     js_pairs = map key_pair (jsort by_low_high (open_pairs s))\<rparr>"

lemma open_pairs_good:
  assumes "jwf s"
  shows "\<forall>r \<in> set (jsort by_low_high (open_pairs s)). good_pair (key_pair r)"
    and "distinct (map fst (map key_pair (jsort by_low_high (open_pairs s))))"
proof -
  have g: "\<forall>(k, r) \<in> set (js_pairs s). key_pair r = (k, r) \<and> good_pair (k, r)"
    using assms by (auto simp: jwf_def good_pair_def key_pair_def)
  then show "\<forall>r \<in> set (jsort by_low_high (open_pairs s)). good_pair (key_pair r)"
    by (auto simp: open_pairs_def)
  have keys: "map (fst \<circ> key_pair) (map snd (js_pairs s)) = map fst (js_pairs s)"
    using g by (auto simp: comp_def)
  have "distinct (map (fst \<circ> key_pair) (map snd (js_pairs s)))" unfolding keys using assms by (simp add: jwf_def)
  then have "distinct (map (fst \<circ> key_pair) (open_pairs s))"
    unfolding open_pairs_def by (rule distinct_map_filter)
  then show "distinct (map fst (map key_pair (jsort by_low_high (open_pairs s))))"
    by (simp only: map_map jsort_map_distinct)
qed

lemma shown_state_same:
  assumes "jwf s"
  shows "same_balances (shown_state s om) s" and "jwf (shown_state s om)"
proof -
  have dm: "distinct (map fst (js_members s))" using assms by (simp add: jwf_def)
  have "member_of (shown_state s om) x = member_of s x" for x
  proof -
    have "mget (shown_members s om) x 0 = mget (jsort by_member (js_members s)) x 0"
      unfolding shown_members_def Let_def by (rule mget_filter_zero) (use dm in \<open>auto simp: jsort_map_distinct\<close>)
    then show ?thesis using map_of_jsort[OF dm] by (simp add: member_of_def shown_state_def mget_def)
  qed
  moreover have pa: "pair_amount (map key_pair (jsort by_low_high (open_pairs s))) k = pair_amount (js_pairs s) k" for k
  proof (cases "\<exists>r. (k, r) \<in> set (js_pairs s) \<and> bp_amount r \<noteq> 0")
    case True
    then obtain r where r: "(k, r) \<in> set (js_pairs s)" "bp_amount r \<noteq> 0" by blast
    then have "key_pair r = (k, r)" using assms by (auto simp: jwf_def good_pair_def key_pair_def)
    then have "(k, r) \<in> set (map key_pair (jsort by_low_high (open_pairs s)))"
      using r by (force simp: open_pairs_def)
    then show ?thesis
      using pair_amount_in[OF open_pairs_good(2)[OF assms]] pair_amount_in[of "js_pairs s" k r] r(1) assms
      by (simp add: jwf_def)
  next
    case False
    then have "pair_amount (js_pairs s) k = 0"
      by (auto simp: pair_amount_def dest: map_of_SomeD split: option.splits)
    moreover have "k \<notin> fst ` set (map key_pair (jsort by_low_high (open_pairs s)))"
    proof
      assume "k \<in> fst ` set (map key_pair (jsort by_low_high (open_pairs s)))"
      then obtain r k' where r: "(k', r) \<in> set (js_pairs s)" "bp_amount r \<noteq> 0" "k = fst (key_pair r)"
        by (auto simp: open_pairs_def)
      then have "k = k'" using assms by (auto simp: jwf_def good_pair_def key_pair_def)
      with r False show False by blast
    qed
    ultimately show ?thesis by (simp add: pair_amount_notin)
  qed
  ultimately show "same_balances (shown_state s om) s"
    by (simp add: same_balances_def credit_of_def shown_state_def split: prod.splits)
  have "distinct (map fst (shown_members s om))"
    unfolding shown_members_def Let_def by (rule distinct_map_filter) (simp add: jsort_map_distinct dm)
  then show "jwf (shown_state s om)"
    using assms open_pairs_good[OF assms] by (auto simp: jwf_def shown_state_def shown_members_def Let_def)
qed

lemma output_parses:
  assumes o: "output_env s om = Inr env" and wf: "jwf s" and bal: "balanced s"
    and len: "int (length (shown_members s om)) \<le> MAX_MEMBERS"
  shows "parseEnvelope env field = Inr (shown_state s om)"
proof -
  let ?rs = "jsort by_low_high (open_pairs s)"
  have env: "env = envelope (js_context s) (shown_members s om) ?rs" and g: "in_range (gross (js_pairs s))"
    using o by (auto simp: output_env_def ebind_eq_Inr bounded_Inr)
  have wf': "jwf (shown_state s om)" and same: "same_balances (shown_state s om) s"
    using shown_state_same[OF wf] by auto
  have "parseEnvelope (envelope (js_context s) (shown_members s om) ?rs) field
      = Inr \<lparr>js_context = js_context s, js_members = shown_members s om, js_pairs = map key_pair ?rs\<rparr>"
  proof (rule parse_envelope_json)
    show "\<forall>x. mget (shown_members s om) x 0 = row_incidence ?rs x"
      using same bal by (simp add: row_incidence_open same_balances_def balanced_def member_of_def shown_state_def)
    show "\<forall>r \<in> set ?rs. {bp_low r, bp_high r} \<subseteq> fst ` set (shown_members s om)"
    proof
      fix r assume r: "r \<in> set ?rs"
      then obtain k where k: "(k, r) \<in> set (js_pairs s)" "bp_amount r \<noteq> 0" by (auto simp: open_pairs_def)
      then have "{bp_low r, bp_high r} \<subseteq> fst ` set (js_members s)" using bal by (auto simp: balanced_def)
      moreover have "r \<in> set (open_pairs s)" using r by simp
      ultimately show "{bp_low r, bp_high r} \<subseteq> fst ` set (shown_members s om)"
        by (force simp: shown_members_def Let_def)
    qed
    have "gross (map key_pair ?rs) = gross (map key_pair (open_pairs s))"
      by (simp add: gross_def comp_def)
    also have "\<dots> = gross (js_pairs s)" by (simp add: open_pairs_def gross_nonzero)
    finally show "in_range (gross (map key_pair ?rs))" using g by simp
  qed (use wf' len open_pairs_good[OF wf] in \<open>auto simp: jwf_def shown_state_def\<close>)
  then show ?thesis by (simp add: env shown_state_def)
qed

text \<open>What an accepted envelope guarantees.\<close>

lemma signed_amount_Inr: "signed_amount v f = Inr n \<Longrightarrow> in_range n"
  by (cases v) (auto simp: signed_amount_def bounded_Inr split: if_splits)

lemma parse_members_ok:
  assumes "efoldi 0 (parse_member field) (empty_state ctx) ms = Inr s" and "is_member_id ctx"
  shows "jwf s \<and> js_pairs s = [] \<and> js_context s = ctx"
  using assms(1)
proof (rule efoldi_invariant)
  show "jwf (empty_state ctx) \<and> js_pairs (empty_state ctx) = [] \<and> js_context (empty_state ctx) = ctx"
    using jwf_empty[OF assms(2)] by (simp add: empty_state_def)
  fix s j x s' assume "jwf s \<and> js_pairs s = [] \<and> js_context s = ctx" and "parse_member field s j x = Inr s'"
  then show "jwf s' \<and> js_pairs s' = [] \<and> js_context s' = ctx"
    by (auto simp: parse_member_def Let_def ebind_eq_Inr jwf_def
        dest!: v_member_Inr signed_amount_Inr set_mset_put_cases)
qed

definition pairs_inv :: "jstate \<Rightarrow> jstate \<times> (string \<times> int) list \<Rightarrow> bool" where
  "pairs_inv s0 st \<longleftrightarrow> jwf (fst st) \<and> js_members (fst st) = js_members s0 \<and> js_context (fst st) = js_context s0
     \<and> (\<forall>x. mget (snd st) x 0 = incidence (fst st) x)
     \<and> (\<forall>(k, r) \<in> set (js_pairs (fst st)). {bp_low r, bp_high r} \<subseteq> fst ` set (snd st))"

lemma parse_pair_inv:
  assumes p: "parse_pair field st i row = Inr st'" and inv: "pairs_inv s0 st"
  shows "pairs_inv s0 st'"
proof -
  obtain s inc where st: "st = (s, inc)" by (cases st)
  obtain low high n where m: "is_member_id low" "is_member_id high" "str_less low high" "in_range n"
    and new: "pairKey low high \<notin> fst ` set (js_pairs s)"
    and st': "st' = (s\<lparr>js_pairs := mset_put (pairKey low high) \<lparr>bp_low = low, bp_high = high, bp_amount = n\<rparr> (js_pairs s)\<rparr>,
       mset_put high (mget (mset_put low (mget inc low 0 + n) inc) high 0 - n) (mset_put low (mget inc low 0 + n) inc))"
    using p by (auto simp: parse_pair_def st Let_def ebind_eq_Inr dest!: v_member_Inr signed_amount_Inr)
  have ne: "low \<noteq> high" using m(3) by auto
  note put = mset_put_absent[OF new, of "\<lparr>bp_low = low, bp_high = high, bp_amount = n\<rparr>"]
  show ?thesis
    using inv m ne new unfolding pairs_inv_def st st'
    by (auto simp: put incidence_def jwf_def good_pair_def)
qed

lemma parse_ok:
  assumes "parseEnvelope v field = Inr s"
  shows "jwf s \<and> balanced s"
proof -
  obtain ctx ms ps s0 inc where ctx: "scope v = Inr ctx"
    and m: "efoldi 0 (parse_member field) (empty_state ctx) ms = Inr s0"
    and p: "efoldi 0 (parse_pair field) (s0, []) ps = Inr (s, inc)"
    and chk: "\<forall>x \<in> fst ` set inc \<union> fst ` set (js_members s). x \<in> fst ` set (js_members s) \<and> mget inc x 0 = mget (js_members s) x 0"
    using assms by (auto simp: parseEnvelope_def ebind_eq_Inr list_all_iff)
  have c: "is_member_id ctx" using ctx by (auto simp: scope_def ebind_eq_Inr dest!: v_member_Inr)
  have s0: "jwf s0" "js_pairs s0 = []" using parse_members_ok[OF m c] by auto
  have "pairs_inv s0 (s0, [])" using s0 by (simp add: pairs_inv_def incidence_def mget_def)
  then have inv: "pairs_inv s0 (s, inc)"
    using efoldi_invariant[OF p, of "pairs_inv s0"] parse_pair_inv by blast
  have "member_of s x = incidence s x" for x
  proof (cases "x \<in> fst ` set inc \<union> fst ` set (js_members s)")
    case True
    then show ?thesis using chk inv by (auto simp: pairs_inv_def member_of_def)
  next
    case False
    then have "mget (js_members s) x 0 = 0" "mget inc x 0 = 0" by (simp_all add: mget_notin)
    then show ?thesis using inv by (simp add: pairs_inv_def member_of_def)
  qed
  moreover have "{bp_low r, bp_high r} \<subseteq> fst ` set (js_members s)" if "(k, r) \<in> set (js_pairs s)" for k r
  proof -
    have "{bp_low r, bp_high r} \<subseteq> fst ` set inc" using inv that by (auto simp: pairs_inv_def)
    then show ?thesis using chk by blast
  qed
  ultimately show ?thesis using inv by (auto simp: balanced_def pairs_inv_def)
qed

text \<open>The incidence of the posted pairs is what the members were posted: the books stay balanced.\<close>

lemma balancedI:
  assumes "\<And>x. member_of t x = incidence t x"
    and "\<forall>(k, p) \<in> set (js_pairs t). {bp_low p, bp_high p} \<subseteq> fst ` set (js_members t)"
  shows "balanced t"
  using assms by (auto simp: balanced_def)

lemma balanced_ends: "balanced t \<Longrightarrow> (k, p) \<in> set (js_pairs t) \<Longrightarrow> {bp_low p, bp_high p} \<subseteq> fst ` set (js_members t)"
  unfolding balanced_def by blast

lemma sum_members: "distinct (map fst ms) \<Longrightarrow> (\<Sum>m\<leftarrow>ms. if fst m = x then snd m else 0) = mget ms x (0::int)"
proof (induction ms)
  case Nil
  then show ?case by (simp add: mget_def)
next
  case (Cons m ms)
  obtain y n where m: "m = (y, n)" by (cases m)
  have "mget ms y 0 = 0" using Cons.prems by (intro mget_notin) (simp add: m)
  moreover have "mget ((y, n) # ms) x 0 = (if y = x then n else mget ms x 0)" by (simp add: mget_def)
  ultimately show ?case using Cons by (auto simp: m)
qed

lemma sum_pairs_end:
  assumes "\<forall>p \<in> set ps. good_pair p"
  shows "(\<Sum>r\<leftarrow>map snd ps. end_weight (bp_low r, bp_high r) x * bp_amount r)
     = (\<Sum>(k, r)\<leftarrow>ps. if bp_low r = x then bp_amount r else if bp_high r = x then - bp_amount r else 0)"
  using assms by (induction ps) (auto simp: end_weight_def)

lemma sum_pairs_credit:
  assumes "\<forall>p \<in> set ps. good_pair p" and "distinct (map fst ps)"
  shows "(\<Sum>r\<leftarrow>map snd ps. pair_weight (bp_low r, bp_high r) q * bp_amount r)
     = (case q of (a, b) \<Rightarrow> if str_less a b then pair_amount ps (pairKey a b)
         else if str_less b a then - pair_amount ps (pairKey b a) else 0)"
  using assms
proof (induction ps)
  case Nil
  then show ?case by (auto simp: pair_amount_def split: prod.splits)
next
  case (Cons p ps)
  obtain k r where p: "p = (k, r)" by (cases p)
  obtain a b where q: "q = (a, b)" by (cases q)
  have g: "k = pairKey (bp_low r) (bp_high r)" "str_less (bp_low r) (bp_high r)"
    "is_member_id (bp_low r)" "is_member_id (bp_high r)"
    using Cons.prems(1) by (auto simp: p good_pair_def)
  have key: "k = pairKey u v \<longleftrightarrow> bp_low r = u \<and> bp_high r = v" for u v
    using pairKey_inj[OF g(3,4), of u v] g(1) by metis
  have absent: "pair_amount ps (pairKey (bp_low r) (bp_high r)) = 0"
    using Cons.prems(2) by (intro pair_amount_notin) (simp add: p g(1))
  have hd: "pair_amount ((k, r) # ps) (pairKey u v) =
      (if bp_low r = u \<and> bp_high r = v then bp_amount r else pair_amount ps (pairKey u v))" for u v
    using key[of u v] by (auto simp: pair_amount_def)
  have ne: "bp_low r \<noteq> bp_high r" using g(2) by auto
  have ih: "(\<Sum>r\<leftarrow>map snd ps. pair_weight (bp_low r, bp_high r) (a, b) * bp_amount r)
     = (if str_less a b then pair_amount ps (pairKey a b)
         else if str_less b a then - pair_amount ps (pairKey b a) else 0)"
    using Cons by (simp add: q)
  consider "str_less a b" | "str_less b a" "\<not> str_less a b" | "a = b" using str_less_linear by blast
  then show ?case
  proof cases
    case 1
    then have n: "\<not> (a = bp_high r \<and> b = bp_low r)" using g(2) str_less_asym by blast
    show ?thesis
    proof (cases "bp_low r = a \<and> bp_high r = b")
      case True
      then show ?thesis using 1 ih absent by (simp add: p q hd pair_weight_def)
    next
      case False
      then have "pair_weight (bp_low r, bp_high r) (a, b) = 0" using n by (auto simp: pair_weight_def)
      moreover have "pair_amount ((k, r) # ps) (pairKey a b) = pair_amount ps (pairKey a b)"
        unfolding hd using False by (rule if_not_P)
      ultimately show ?thesis using 1 ih by (simp add: p q)
    qed
  next
    case 2
    then have n: "\<not> (bp_low r = a \<and> bp_high r = b)" using g(2) by blast
    show ?thesis
    proof (cases "bp_low r = b \<and> bp_high r = a")
      case True
      then show ?thesis using 2 ih absent ne by (simp add: p q hd pair_weight_def)
    next
      case False
      then have "pair_weight (bp_low r, bp_high r) (a, b) = 0" using n by (auto simp: pair_weight_def)
      moreover have "pair_amount ((k, r) # ps) (pairKey b a) = pair_amount ps (pairKey b a)"
        unfolding hd using False by (rule if_not_P)
      ultimately show ?thesis using 2 ih by (simp add: p q)
    qed
  next
    case 3
    then have "pair_weight (bp_low r, bp_high r) (a, b) = 0" using ne by (auto simp: pair_weight_def)
    then show ?thesis using ih 3 by (simp add: p q)
  qed
qed

section \<open>Properties\<close>

lemma post_envelope:
  assumes c: "jwf c" "balanced c" and d: "jwf d" "balanced d"
    and m: "add_members c (js_members d) = Inr s1" and p: "add_pairs s1 (map snd (js_pairs d)) = Inr s2"
  shows "jwf s2 \<and> balanced s2 \<and> js_context s2 = js_context c \<and> js_members s2 = js_members s1
     \<and> (\<forall>x. member_of s2 x = member_of c x + member_of d x)
     \<and> (\<forall>q. credit_of s2 q = credit_of c q + credit_of d q)"
proof -
  have dd: "distinct (map fst (js_members d))" "\<forall>r \<in> set (js_members d). is_member_id (fst r)"
    "\<forall>p \<in> set (js_pairs d). good_pair p" "distinct (map fst (js_pairs d))"
    using d(1) by (auto simp: jwf_def)
  note m' = post_members[OF m[unfolded add_members_def] c(1) dd(2)]
  have ends: "\<forall>r \<in> set (map snd (js_pairs d)). good_ends (bp_low r, bp_high r)"
    using dd(3) by (auto simp: good_pair_def good_ends_def)
  have wf1: "jwf s1" using m' by blast
  note p' = post_pairs[OF p[unfolded add_pairs_def] wf1 ends]
  have mem: "member_of s2 x = member_of c x + member_of d x" for x
    using m' p' sum_members[OF dd(1), of x] by (simp add: member_of_def)
  have inc1: "incidence s1 x = incidence c x" and cr1: "credit_of s1 q = credit_of c q" for x q
    using m' by (simp_all add: incidence_def credit_of_def split: prod.splits)
  have inc: "incidence s2 x = incidence c x + incidence d x" for x
    using p' inc1 sum_pairs_end[OF dd(3), of x] by (simp add: incidence_def)
  have sd: "(\<Sum>r\<leftarrow>map snd (js_pairs d). pair_weight (bp_low r, bp_high r) q * bp_amount r) = credit_of d q" for q
    unfolding credit_of_def by (rule sum_pairs_credit[OF dd(3,4)])
  have cr: "credit_of s2 q = credit_of c q + credit_of d q" for q
    using p'[THEN conjunct2, THEN conjunct2, THEN conjunct2, THEN conjunct1, rule_format, of q]
    unfolding cr1 sd .
  have "balanced s2"
  proof (rule balancedI)
    show "member_of s2 x = incidence s2 x" for x using mem inc c(2) d(2) by (simp add: balanced_def)
    show "\<forall>(k, p) \<in> set (js_pairs s2). {bp_low p, bp_high p} \<subseteq> fst ` set (js_members s2)"
    proof clarify
      fix k p y assume kp: "(k, p) \<in> set (js_pairs s2)" and y: "y \<in> {bp_low p, bp_high p}"
      have "(k, p) \<in> set (js_pairs s1) \<or> (\<exists>r \<in> set (map snd (js_pairs d)). {bp_low p, bp_high p} = {bp_low r, bp_high r})"
        using p' kp by blast
      then have "y \<in> fst ` set (js_members c) \<union> fst ` set (js_members d)"
      proof
        assume "(k, p) \<in> set (js_pairs s1)"
        then have "(k, p) \<in> set (js_pairs c)" using m' by simp
        then show ?thesis using balanced_ends[OF c(2)] y by blast
      next
        assume "\<exists>r \<in> set (map snd (js_pairs d)). {bp_low p, bp_high p} = {bp_low r, bp_high r}"
        then obtain r where r: "r \<in> set (map snd (js_pairs d))" "{bp_low p, bp_high p} = {bp_low r, bp_high r}" ..
        from r(1) obtain k' where "(k', r) \<in> set (js_pairs d)" by auto
        then have "{bp_low r, bp_high r} \<subseteq> fst ` set (js_members d)" by (rule balanced_ends[OF d(2)])
        then have "y \<in> fst ` set (js_members d)" using y unfolding r(2) by (rule subsetD)
        then show ?thesis ..
      qed
      then show "y \<in> fst ` set (js_members s2)" using m' p' by simp
    qed
  qed
  then show ?thesis using p' m' mem cr by simp
qed

lemma applyBalanceDelta_cases:
  assumes "applyBalanceDelta input = Inr env"
  obtains c d s where "parseEnvelope (jprop input ''current'') ''current'' = Inr c"
    and "parseEnvelope (jprop input ''delta'') ''delta'' = Inr d"
    and "js_context c = js_context d" and "jwf s" and "balanced s" and "js_context s = js_context c"
    and "\<And>x. member_of s x = member_of c x + member_of d x"
    and "\<And>q. credit_of s q = credit_of c q + credit_of d q"
    and "\<And>field. parseEnvelope env field = Inr (shown_state s False)"
proof -
  obtain c d s1 s2 where c: "parseEnvelope (jprop input ''current'') ''current'' = Inr c"
    and d: "parseEnvelope (jprop input ''delta'') ''delta'' = Inr d" and ctx: "js_context c = js_context d"
    and m: "add_members c (js_members d) = Inr s1" and len: "int (length (js_members s1)) \<le> MAX_MEMBERS"
    and p: "add_pairs s1 (map snd (js_pairs d)) = Inr s2" and o: "output_env s2 False = Inr env"
    using assms by (auto simp: applyBalanceDelta_def ebind_eq_Inr)
  have post: "jwf s2 \<and> balanced s2 \<and> js_context s2 = js_context c \<and> js_members s2 = js_members s1
     \<and> (\<forall>x. member_of s2 x = member_of c x + member_of d x)
     \<and> (\<forall>q. credit_of s2 q = credit_of c q + credit_of d q)"
    using post_envelope[OF _ _ _ _ m p] parse_ok[OF c] parse_ok[OF d] by blast
  have "length (shown_members s2 False) \<le> length (js_members s1)"
    unfolding shown_members_def Let_def using post length_filter_le[of _ "jsort by_member (js_members s2)"] by simp
  then have "int (length (shown_members s2 False)) \<le> MAX_MEMBERS" using len by simp
  then have "parseEnvelope env field = Inr (shown_state s2 False)" for field
    using output_parses[OF o] post by blast
  then show thesis using that[OF c d ctx] post by blast
qed

text \<open>
  C25: Applying a delta is addition of balances: the new envelope reads back, and in it every
  member's net balance and every pair's signed balance is the current one plus the delta's, in
  the same context. The representation (order, zero rows, which member is stored low) has no
  influence.
\<close>

theorem applyBalanceDelta_adds:
  assumes "applyBalanceDelta (JObj [(''current'', cur), (''delta'', del)]) = Inr env"
  shows "\<exists>c d e. parseEnvelope cur ''current'' = Inr c \<and> parseEnvelope del ''delta'' = Inr d
     \<and> parseEnvelope env field = Inr e \<and> js_context e = js_context c \<and> js_context d = js_context c
     \<and> (\<forall>x. member_of e x = member_of c x + member_of d x)
     \<and> (\<forall>q. credit_of e q = credit_of c q + credit_of d q)"
proof (rule applyBalanceDelta_cases[OF assms])
  fix c d s
  assume "parseEnvelope (jprop (JObj [(''current'', cur), (''delta'', del)]) ''current'') ''current'' = Inr c"
    "parseEnvelope (jprop (JObj [(''current'', cur), (''delta'', del)]) ''delta'') ''delta'' = Inr d"
    "js_context c = js_context d" "jwf s" "js_context s = js_context c"
    "\<And>x. member_of s x = member_of c x + member_of d x"
    "\<And>q. credit_of s q = credit_of c q + credit_of d q"
    "\<And>field. parseEnvelope env field = Inr (shown_state s False)"
  then show ?thesis using shown_state_same(1)[of s False] by (auto simp: same_balances_def)
qed

definition sample_members :: "(string \<times> int) list" where
  "sample_members = [(''a'', 5), (''b'', -5)]"

definition sample_pair :: bpair where
  "sample_pair = \<lparr>bp_low = ''a'', bp_high = ''b'', bp_amount = 5\<rparr>"

definition sample_envelope :: jsval where
  "sample_envelope = envelope ''g'' sample_members [sample_pair]"

definition doubled_envelope :: jsval where
  "doubled_envelope = envelope ''g'' [(''a'', 10), (''b'', -10)] [\<lparr>bp_low = ''a'', bp_high = ''b'', bp_amount = 10\<rparr>]"

lemma applyBalanceDelta_adds_witness:
  "applyBalanceDelta (JObj [(''current'', sample_envelope), (''delta'', sample_envelope)]) = Inr doubled_envelope
   \<and> (\<exists>e. parseEnvelope doubled_envelope ''x'' = Inr e \<and> js_context e = ''g'')"
proof -
  have a: "applyBalanceDelta (JObj [(''current'', sample_envelope), (''delta'', sample_envelope)]) = Inr doubled_envelope"
    by code_simp
  moreover have "parseEnvelope sample_envelope ''current'' = Inr \<lparr>js_context = ''g'', js_members = sample_members,
      js_pairs = [(''a:b'', sample_pair)]\<rparr>" by code_simp
  ultimately show ?thesis using applyBalanceDelta_adds[OF a, of "''x''"] by auto
qed


lemma length_mset_put: "length (mset_put k v m) \<le> Suc (length m)"
  by (induction m) auto

lemma length_money_rows:
  assumes "money_rows v field mx cd = Inr m"
  shows "length m \<le> mx"
proof -
  have step: "length m' \<le> Suc (length m)" if "money_row field m i row = Inr m'" for m m' i row
    using that length_mset_put by (auto simp: money_row_def ebind_eq_Inr)
  have len: "length t \<le> length s + length rows" if "efoldi i (money_row field) s rows = Inr t" for i s rows t
    using that
  proof (induction rows arbitrary: i s)
    case Nil
    then show ?case by simp
  next
    case (Cons r rows)
    then obtain s' where "money_row field s i r = Inr s'" "efoldi (Suc i) (money_row field) s' rows = Inr t"
      by (auto simp: ebind_eq_Inr)
    then show ?case using Cons.IH step by fastforce
  qed
  obtain rows where "v_count v mx cd field = Inr rows" "efoldi 0 (money_row field) [] rows = Inr m"
    using assms by (auto simp: money_rows_def ebind_eq_Inr)
  then show ?thesis using len[of 0 "[]" rows m] v_count_Inr[of v mx cd field rows] by simp
qed

lemma length_dedup: "length (dedup xs) \<le> length xs"
proof (induction xs)
  case Nil
  then show ?case by simp
next
  case (Cons x xs)
  have "length (filter (\<lambda>y. y \<noteq> x) (dedup xs)) \<le> length (dedup xs)" by (rule length_filter_le)
  also have "\<dots> \<le> length xs" by (rule Cons.IH)
  finally show ?case by simp
qed

text \<open>What a projection looks like to the journal.\<close>

lemma projectExpense_rows:
  assumes "projectExpense v = Inr p"
  shows "length (pr_positions p) \<le> 58" and "distinct (map ps_memberId (pr_positions p))"
    and "\<forall>m \<in> set (pr_positions p). is_member_id (ps_memberId m)"
proof -
  obtain tot paid shares ord where
    m: "money_rows (jprop v ''contributions'') ''contributions'' 8 ''INVALID_PAYER_COUNT'' = Inr paid"
      "money_rows (jprop v ''shares'') ''shares'' 50 ''INVALID_PARTICIPANT_COUNT'' = Inr shares"
    and p: "p = project_rows tot paid shares ord"
    using assms unfolding projectExpense_def by (auto simp: ebind_eq_Inr)
  let ?ids = "dedup (map fst paid @ map fst shares)"
  have ids: "map ps_memberId (pr_positions p) = jsort str_le ?ids"
    by (simp add: p project_rows_def Let_def position_row_def comp_def)
  have "length (pr_positions p) = length ?ids" using ids by (metis length_jsort length_map)
  also have "\<dots> \<le> length paid + length shares" using length_dedup[of "map fst paid @ map fst shares"] by simp
  finally show "length (pr_positions p) \<le> 58"
    using length_money_rows[OF m(1)] length_money_rows[OF m(2)] by simp
  show "distinct (map ps_memberId (pr_positions p))" by (simp add: ids)
  have "ps_memberId ` set (pr_positions p) = fst ` set paid \<union> fst ` set shares"
    using arg_cong[OF ids, of set] by auto
  then show "\<forall>m \<in> set (pr_positions p). is_member_id (ps_memberId m)"
    using money_rows_ok[OF m(1)] money_rows_ok[OF m(2)] unfolding money_ok_def by fastforce
qed

definition snapshot_balance :: "jsval \<Rightarrow> string \<Rightarrow> int" where
  "snapshot_balance v x = (case projectExpense v of
     Inr p \<Rightarrow> (\<Sum>m\<leftarrow>pr_positions p. if ps_memberId m = x then parse_int (ps_balanceMinor m) else 0) | Inl _ \<Rightarrow> 0)"

definition snapshot_credit :: "jsval \<Rightarrow> string \<times> string \<Rightarrow> int" where
  "snapshot_credit v q = (case projectExpense v of
     Inr p \<Rightarrow> (\<Sum>b\<leftarrow>pr_obligations p. pair_weight (ob_creditorId b, ob_debtorId b) q * parse_int (ob_amountMinor b))
   | Inl _ \<Rightarrow> 0)"

lemma snapshot_null [simp]: "snapshot_balance JNull x = 0" "snapshot_credit JNull q = 0"
  by (simp_all add: snapshot_balance_def snapshot_credit_def projectExpense_def v_record_def)

lemma obligation_ends:
  assumes "projectExpense v = Inr p"
  shows "\<forall>b \<in> set (pr_obligations p). good_ends (ob_creditorId b, ob_debtorId b)"
  using projected_edges[OF assms] projectExpense_rows(3)[OF assms] unfolding good_ends_def by fastforce

lemma obligations_net:
  assumes "projectExpense v = Inr p"
  shows "(\<Sum>b\<leftarrow>pr_obligations p. end_weight (ob_creditorId b, ob_debtorId b) x * parse_int (ob_amountMinor b))
     = (\<Sum>m\<leftarrow>pr_positions p. if ps_memberId m = x then parse_int (ps_balanceMinor m) else 0)"
proof -
  have net: "(\<Sum>b\<leftarrow>bs. end_weight (ob_creditorId b, ob_debtorId b) x * parse_int (ob_amountMinor b)) = net_of bs x"
    if "\<forall>b \<in> set bs. ob_debtorId b \<noteq> ob_creditorId b" for bs
    using that by (induction bs) (auto simp: net_of_def end_weight_def)
  have e: "\<forall>b \<in> set (pr_obligations p). ob_debtorId b \<noteq> ob_creditorId b"
    "\<forall>b \<in> set (pr_obligations p). {ob_debtorId b, ob_creditorId b} \<subseteq> ps_memberId ` set (pr_positions p)"
    using projected_edges[OF assms] by auto
  have z: "(\<Sum>m\<leftarrow>ms. if ps_memberId m = x then parse_int (ps_balanceMinor m) else 0) = 0"
    if "x \<notin> ps_memberId ` set ms" for ms using that by (induction ms) auto
  have nz: "net_of bs x = 0" if "\<forall>b \<in> set bs. ob_debtorId b \<noteq> x \<and> ob_creditorId b \<noteq> x" for bs
    using that by (induction bs) (auto simp: net_of_def)
  have pos: "(\<Sum>m\<leftarrow>ms. if ps_memberId m = x then parse_int (ps_balanceMinor m) else 0) = parse_int (ps_balanceMinor m)"
    if "m \<in> set ms" "ps_memberId m = x" "distinct (map ps_memberId ms)" for ms m
    using that z by (induction ms) auto
  show ?thesis
  proof (cases "x \<in> ps_memberId ` set (pr_positions p)")
    case True
    then obtain m where m: "m \<in> set (pr_positions p)" "ps_memberId m = x" by auto
    then show ?thesis
      using net[OF e(1)] pos[OF m projectExpense_rows(2)[OF assms]] projected_settles[OF assms] by auto
  next
    case False
    then have "net_of (pr_obligations p) x = 0" using e(2) by (intro nz) auto
    then show ?thesis using net[OF e(1)] z[OF False] by simp
  qed
qed

lemma add_snapshot_posts:
  assumes a: "add_snapshot sg v s = Inr t" and wf: "jwf s" and bal: "balanced s"
  shows "jwf t \<and> balanced t \<and> js_context t = js_context s
     \<and> (\<forall>x. member_of t x = member_of s x + snapshot_balance v x * sg)
     \<and> (\<forall>q. credit_of t q = credit_of s q + snapshot_credit v q * sg)
     \<and> card (fst ` set (js_members t)) \<le> card (fst ` set (js_members s)) + 58"
proof (cases "v = JNull")
  case True
  then show ?thesis using a wf bal by (auto simp: add_snapshot_def)
next
  case False
  then obtain p s1 where p: "projectExpense v = Inr p"
    and m: "efold (\<lambda>s row. addMember s (ps_memberId row) (parse_int (ps_balanceMinor row) * sg)) s (pr_positions p) = Inr s1"
    and e: "efold (\<lambda>s e. addPair s (ob_creditorId e) (ob_debtorId e) (parse_int (ob_amountMinor e) * sg)) s1 (pr_obligations p) = Inr t"
    using a by (auto simp: add_snapshot_def ebind_eq_Inr)
  note rows = projectExpense_rows[OF p]
  note pm = post_members[OF m wf rows(3)]
  have wf1: "jwf s1" using pm by blast
  note pp = post_pairs[OF e wf1 obligation_ends[OF p]]
  have sc: "(\<Sum>m\<leftarrow>ms. if c m then f m * sg else 0) = (\<Sum>m\<leftarrow>ms. if c m then f m else 0) * sg"
    "(\<Sum>m\<leftarrow>ms. f m * (g m * sg)) = (\<Sum>m\<leftarrow>ms. f m * g m) * sg" for ms :: "'a list" and f g :: "'a \<Rightarrow> int" and c
    by (induction ms) (auto simp: algebra_simps)
  have sc': "(\<Sum>m\<leftarrow>ms. f m * (g m * sg)) = (\<Sum>m\<leftarrow>ms. f m * g m) * sg" for ms :: "obligation list" and f g
    by (induction ms) (auto simp: algebra_simps)
  have mem: "member_of t x = member_of s x + snapshot_balance v x * sg" for x
    using pm pp by (simp add: member_of_def snapshot_balance_def p sc)
  have s1: "incidence s1 x = incidence s x" "credit_of s1 q = credit_of s q" for x q
    using pm by (simp_all add: incidence_def credit_of_def split: prod.splits)
  have inc: "incidence t x = incidence s x + snapshot_balance v x * sg" for x
    using pp s1(1) by (simp add: sc' obligations_net[OF p] snapshot_balance_def p)
  have cr: "credit_of t q = credit_of s q + snapshot_credit v q * sg" for q
    using pp[THEN conjunct2, THEN conjunct2, THEN conjunct2, THEN conjunct1, rule_format, of q]
    unfolding s1(2) sc' by (simp add: snapshot_credit_def p)
  have keys: "fst ` set (js_members t) = fst ` set (js_members s) \<union> ps_memberId ` set (pr_positions p)"
    using pm pp by simp
  have "balanced t"
  proof (rule balancedI)
    show "member_of t x = incidence t x" for x using mem inc bal by (simp add: balanced_def)
    show "\<forall>(k, r) \<in> set (js_pairs t). {bp_low r, bp_high r} \<subseteq> fst ` set (js_members t)"
    proof clarify
      fix k r y assume kr: "(k, r) \<in> set (js_pairs t)" and y: "y \<in> {bp_low r, bp_high r}"
      have "(k, r) \<in> set (js_pairs s1) \<or> (\<exists>b \<in> set (pr_obligations p). {bp_low r, bp_high r} = {ob_creditorId b, ob_debtorId b})"
        using pp kr by blast
      then show "y \<in> fst ` set (js_members t)"
      proof
        assume "(k, r) \<in> set (js_pairs s1)"
        then have "(k, r) \<in> set (js_pairs s)" using pm by simp
        then show ?thesis using balanced_ends[OF bal] y keys by blast
      next
        assume "\<exists>b \<in> set (pr_obligations p). {bp_low r, bp_high r} = {ob_creditorId b, ob_debtorId b}"
        then obtain b where b: "b \<in> set (pr_obligations p)" "{bp_low r, bp_high r} = {ob_creditorId b, ob_debtorId b}" ..
        have "{ob_debtorId b, ob_creditorId b} \<subseteq> ps_memberId ` set (pr_positions p)"
          using projected_edges[OF p] b(1) by blast
        then show ?thesis using y keys unfolding b(2) by auto
      qed
    qed
  qed
  moreover have "card (fst ` set (js_members t)) \<le> card (fst ` set (js_members s)) + 58"
  proof -
    have "card (ps_memberId ` set (pr_positions p)) \<le> 58"
      using rows(1,2) by (metis distinct_card length_map set_map)
    then show ?thesis
      unfolding keys using card_Un_le[of "fst ` set (js_members s)" "ps_memberId ` set (pr_positions p)"] by linarith
  qed
  ultimately show ?thesis using pp pm mem cr by simp
qed

lemma length_shown:
  assumes "jwf s"
  shows "length (shown_members s om) \<le> card (fst ` set (js_members s))"
proof -
  have "length (shown_members s om) \<le> length (js_members s)"
    unfolding shown_members_def Let_def using length_filter_le[of _ "jsort by_member (js_members s)"] by simp
  also have "\<dots> = card (fst ` set (js_members s))"
    using assms by (metis distinct_card jwf_def length_map set_map)
  finally show ?thesis .
qed

lemma revision_state_ok:
  assumes "revision_state input = Inr s"
  shows "jwf s \<and> balanced s \<and> card (fst ` set (js_members s)) \<le> 116
     \<and> (\<forall>x. member_of s x = snapshot_balance (jprop input ''next'') x - snapshot_balance (jprop input ''previous'') x)
     \<and> (\<forall>q. credit_of s q = snapshot_credit (jprop input ''next'') q - snapshot_credit (jprop input ''previous'') q)"
proof -
  obtain ctx s1 where ctx: "scope input = Inr ctx"
    and a: "add_snapshot (-1) (jprop input ''previous'') (empty_state ctx) = Inr s1"
    and b: "add_snapshot 1 (jprop input ''next'') s1 = Inr s"
    using assms by (auto simp: revision_state_def ebind_eq_Inr)
  have c: "is_member_id ctx" using ctx by (auto simp: scope_def ebind_eq_Inr dest!: v_member_Inr)
  have bal: "balanced (empty_state ctx)" by (simp add: balanced_def) (simp add: empty_state_def)
  note pa = add_snapshot_posts[OF a jwf_empty[OF c] bal]
  have "jwf s1" "balanced s1" using pa by auto
  note pb = add_snapshot_posts[OF b this]
  have "card (fst ` set (js_members (empty_state ctx))) = 0" by (simp add: empty_state_def)
  then show ?thesis using pa pb by auto
qed

lemma settlement_state_ok:
  assumes "settlement_state input = Inr s"
  shows "jwf s \<and> balanced s \<and> card (fst ` set (js_members s)) \<le> 2 \<and> (\<exists>n payer receiver.
       v_amount0 (jprop input ''amountMinor'') ''amountMinor'' True = Inr n
     \<and> jprop input ''payerId'' = JStr payer \<and> jprop input ''receiverId'' = JStr receiver \<and> payer \<noteq> receiver
     \<and> JStr (js_context s) = jprop input ''contextId''
     \<and> jprop input ''direction'' \<in> {JStr ''confirm'', JStr ''reverse''}
     \<and> (\<forall>q. credit_of s q = pair_weight (payer, receiver) q * (n * (if jprop input ''direction'' = JStr ''confirm'' then 1 else -1)))
     \<and> (\<forall>x. member_of s x = end_weight (payer, receiver) x * (n * (if jprop input ''direction'' = JStr ''confirm'' then 1 else -1))))"
proof -
  obtain ctx n payer receiver s1 s2 where ctx: "scope input = Inr ctx"
    and vp: "v_member (jprop input ''payerId'') ''payerId'' = Inr payer"
    and vr: "v_member (jprop input ''receiverId'') ''receiverId'' = Inr receiver"
    and ne: "payer \<noteq> receiver" and dir: "jprop input ''direction'' \<in> {JStr ''confirm'', JStr ''reverse''}"
    and n: "v_amount0 (jprop input ''amountMinor'') ''amountMinor'' True = Inr n"
    and a1: "addMember (empty_state ctx) payer (n * (if jprop input ''direction'' = JStr ''confirm'' then 1 else -1)) = Inr s1"
    and a2: "addMember s1 receiver (- (n * (if jprop input ''direction'' = JStr ''confirm'' then 1 else -1))) = Inr s2"
    and a3: "addPair s2 payer receiver (n * (if jprop input ''direction'' = JStr ''confirm'' then 1 else -1)) = Inr s"
    using assms unfolding settlement_state_def Let_def ebind_eq_Inr echeck_eq_Inr by blast
  define am where "am = n * (if jprop input ''direction'' = JStr ''confirm'' then 1 else -1)"
  note a1 = a1[folded am_def] and a2 = a2[folded am_def] and a3 = a3[folded am_def]
  have c: "is_member_id ctx" "JStr ctx = jprop input ''contextId''"
    using ctx by (auto simp: scope_def ebind_eq_Inr dest!: v_member_Inr)
  have ids: "is_member_id payer" "is_member_id receiver" "jprop input ''payerId'' = JStr payer"
    "jprop input ''receiverId'' = JStr receiver" using v_member_Inr[OF vp] v_member_Inr[OF vr] by auto
  have g: "good_ends (payer, receiver)" using ids ne by (simp add: good_ends_def)
  note p1 = addMember_step[OF jwf_empty[OF c(1)] ids(1) a1]
  have wf1: "jwf s1" using p1 by blast
  note p2 = addMember_step[OF wf1 ids(2) a2]
  have wf2: "jwf s2" using p2 by blast
  note p3 = addPair_step[OF wf2 g a3]
  have pairs2: "js_pairs s2 = []" using p1 p2 by (simp add: empty_state_def)
  have keys: "fst ` set (js_members s) = {payer, receiver}"
    using p1 p2 p3 by (auto simp: empty_state_def)
  have mem: "member_of s x = end_weight (payer, receiver) x * am" for x
  proof -
    have "member_of s x = member_of s2 x" using p3 by (simp add: member_of_def)
    also have "\<dots> = (if payer = x then 1 else 0) * am + (if receiver = x then 1 else 0) * (- am)"
      using addMember_step[OF jwf_empty[OF c(1)] ids(1) a1, of x] addMember_step[OF wf1 ids(2) a2, of x] by simp
    finally show ?thesis using ne by (auto simp: end_weight_def)
  qed
  have cr: "credit_of s q = pair_weight (payer, receiver) q * am" for q
    using addPair_step[OF wf2 g a3, of q] by (simp add: credit_of_def pairs2 pair_amount_def split: prod.splits)
  have inc: "incidence s x = end_weight (payer, receiver) x * am" for x
    using addPair_step[OF wf2 g a3, of _ x] by (simp add: incidence_def pairs2)
  have "balanced s"
  proof (rule balancedI)
    show "member_of s x = incidence s x" for x by (simp add: mem inc)
    show "\<forall>(k, p) \<in> set (js_pairs s). {bp_low p, bp_high p} \<subseteq> fst ` set (js_members s)"
    proof clarify
      fix k p y assume kp: "(k, p) \<in> set (js_pairs s)" and y: "y \<in> {bp_low p, bp_high p}"
      have all: "\<forall>x \<in> set (js_pairs s). case x of (k, r) \<Rightarrow> {bp_low r, bp_high r} = {payer, receiver}"
        using p3 by (simp add: pairs2)
      have "{bp_low p, bp_high p} = {payer, receiver}" using bspec[OF all kp] by simp
      then show "y \<in> fst ` set (js_members s)" using y unfolding keys by (rule subst)
    qed
  qed
  moreover have "card (fst ` set (js_members s)) \<le> 2" unfolding keys using ne by simp
  moreover have "js_context s = ctx" using p1 p2 p3 by (simp add: empty_state_def)
  ultimately show ?thesis using p3 n ids ne dir mem cr c(2) unfolding am_def by auto
qed

lemma deltas_parse:
  assumes "expenseRevisionDelta input = Inr env \<and> revision_state input = Inr s
         \<or> settlementDelta input = Inr env \<and> settlement_state input = Inr s"
  shows "parseEnvelope env field = Inr (shown_state s True) \<and> same_balances (shown_state s True) s"
proof -
  have o: "output_env s True = Inr env"
    using assms by (auto simp: expenseRevisionDelta_def settlementDelta_def)
  have st: "jwf s \<and> balanced s \<and> card (fst ` set (js_members s)) \<le> 116"
    using assms revision_state_ok[of input s] settlement_state_ok[of input s] by auto
  then have "int (length (shown_members s True)) \<le> MAX_MEMBERS"
    using length_shown[of s True] by (simp add: MAX_MEMBERS_def)
  then show ?thesis using output_parses[OF o] shown_state_same(1) st by blast
qed

text \<open>
  C36: Every delta the module produces is one it accepts: the envelope of an expense revision reads
  back, and in it each member's balance is the next snapshot's position minus the previous
  snapshot's, and each pair's balance the next obligations minus the previous ones. A missing
  (null) snapshot counts as nothing.
\<close>

theorem expenseRevisionDelta_is_difference:
  assumes "expenseRevisionDelta input = Inr env"
  shows "\<exists>e. parseEnvelope env field = Inr e
     \<and> (\<forall>x. member_of e x = snapshot_balance (jprop input ''next'') x - snapshot_balance (jprop input ''previous'') x)
     \<and> (\<forall>q. credit_of e q = snapshot_credit (jprop input ''next'') q - snapshot_credit (jprop input ''previous'') q)"
proof -
  obtain s where s: "revision_state input = Inr s"
    using assms by (auto simp: expenseRevisionDelta_def ebind_eq_Inr)
  then show ?thesis
    using deltas_parse[of input env s field] assms revision_state_ok[OF s] by (auto simp: same_balances_def)
qed

definition sample_revision :: jsval where
  "sample_revision = JObj [(''contextId'', JStr ''g''), (''currency'', JStr ''INR''),
     (''previous'', JNull), (''next'', sample_split)]"

lemma expenseRevisionDelta_is_difference_witness:
  "\<exists>env e. expenseRevisionDelta sample_revision = Inr env \<and> parseEnvelope env ''x'' = Inr e
     \<and> member_of e ''a'' = snapshot_balance sample_split ''a''"
proof -
  have "\<exists>env. expenseRevisionDelta sample_revision = Inr env"
    by (rule exI[of _ "envelope ''g'' [(''a'', 5), (''b'', -3), (''c'', -2)]
      [\<lparr>bp_low = ''a'', bp_high = ''b'', bp_amount = 3\<rparr>, \<lparr>bp_low = ''a'', bp_high = ''c'', bp_amount = 2\<rparr>]"]) code_simp
  then obtain env where e: "expenseRevisionDelta sample_revision = Inr env" ..
  have j: "jprop sample_revision ''next'' = sample_split" "jprop sample_revision ''previous'' = JNull"
    by (simp_all add: sample_revision_def)
  show ?thesis using e expenseRevisionDelta_is_difference[OF e, of "''x''"] by (auto simp: j)
qed

text \<open>
  Reversing a settlement undoes it: applying the confirmed settlement to a balance and then its
  reversal gives back every member's and every pair's balance.
\<close>

theorem settlement_reverse_undoes:
  assumes conf: "settlementDelta (JObj [(''contextId'', ctx), (''currency'', cy), (''payerId'', p), (''receiverId'', r),
             (''amountMinor'', amt), (''direction'', JStr ''confirm'')]) = Inr d1"
    and rev: "settlementDelta (JObj [(''contextId'', ctx), (''currency'', cy), (''payerId'', p), (''receiverId'', r),
             (''amountMinor'', amt), (''direction'', JStr ''reverse'')]) = Inr d2"
    and a1: "applyBalanceDelta (JObj [(''current'', cur), (''delta'', d1)]) = Inr e1"
    and a2: "applyBalanceDelta (JObj [(''current'', e1), (''delta'', d2)]) = Inr e2"
  shows "\<exists>c e. parseEnvelope cur ''current'' = Inr c \<and> parseEnvelope e2 field = Inr e \<and> same_balances e c"
proof -
  obtain s1 where s1: "settlement_state (JObj [(''contextId'', ctx), (''currency'', cy), (''payerId'', p), (''receiverId'', r),
             (''amountMinor'', amt), (''direction'', JStr ''confirm'')]) = Inr s1"
    using conf by (auto simp: settlementDelta_def ebind_eq_Inr)
  obtain s2 where s2: "settlement_state (JObj [(''contextId'', ctx), (''currency'', cy), (''payerId'', p), (''receiverId'', r),
             (''amountMinor'', amt), (''direction'', JStr ''reverse'')]) = Inr s2"
    using rev by (auto simp: settlementDelta_def ebind_eq_Inr)
  have opp: "member_of s1 x + member_of s2 x = 0" "credit_of s1 q + credit_of s2 q = 0" for x q
    using settlement_state_ok[OF s1] settlement_state_ok[OF s2] by (cases q; auto)+
  have p1: "parseEnvelope d1 ''delta'' = Inr (shown_state s1 True)" "same_balances (shown_state s1 True) s1"
    using deltas_parse[of _ d1 s1 "''delta''"] conf s1 by blast+
  have p2: "parseEnvelope d2 ''delta'' = Inr (shown_state s2 True)" "same_balances (shown_state s2 True) s2"
    using deltas_parse[of _ d2 s2 "''delta''"] rev s2 by blast+
  obtain c t1 where c: "parseEnvelope cur ''current'' = Inr c" and t1: "js_context t1 = js_context c" "jwf t1"
    and g1: "\<And>x. member_of t1 x = member_of c x + member_of (shown_state s1 True) x"
      "\<And>q. credit_of t1 q = credit_of c q + credit_of (shown_state s1 True) q"
    and e1: "\<And>f. parseEnvelope e1 f = Inr (shown_state t1 False)"
    by (rule applyBalanceDelta_cases[OF a1]) (use p1(1) in auto)
  obtain t2 where t2: "js_context t2 = js_context (shown_state t1 False)" "jwf t2"
    and g2: "\<And>x. member_of t2 x = member_of (shown_state t1 False) x + member_of (shown_state s2 True) x"
      "\<And>q. credit_of t2 q = credit_of (shown_state t1 False) q + credit_of (shown_state s2 True) q"
    and e2: "\<And>f. parseEnvelope e2 f = Inr (shown_state t2 False)"
    by (rule applyBalanceDelta_cases[OF a2]) (use p2(1) e1 in auto)
  have "same_balances (shown_state t2 False) c"
    using shown_state_same(1)[OF t2(2), of False] shown_state_same(1)[OF t1(2), of False] g1 g2 t1 t2 p1(2) p2(2) opp
    unfolding same_balances_def by (metis (no_types, opaque_lifting) add.assoc add.right_neutral)
  then show ?thesis using c e2 by blast
qed

definition sample_settlement :: "string \<Rightarrow> jsval" where
  "sample_settlement dir = JObj [(''contextId'', JStr ''g''), (''currency'', JStr ''INR''), (''payerId'', JStr ''b''),
     (''receiverId'', JStr ''a''), (''amountMinor'', JStr ''2''), (''direction'', JStr dir)]"

definition settled_envelope :: "int \<Rightarrow> jsval" where
  "settled_envelope n = envelope ''g'' [(''a'', n), (''b'', - n)] [\<lparr>bp_low = ''a'', bp_high = ''b'', bp_amount = n\<rparr>]"

lemma settlement_reverse_undoes_witness:
  "settlementDelta (sample_settlement ''confirm'') = Inr (settled_envelope (-2))
   \<and> applyBalanceDelta (JObj [(''current'', settled_envelope 5), (''delta'', settled_envelope (-2))]) = Inr (settled_envelope 3)
   \<and> applyBalanceDelta (JObj [(''current'', settled_envelope 3), (''delta'', settled_envelope 2)]) = Inr (settled_envelope 5)
   \<and> (\<exists>c e. parseEnvelope (settled_envelope 5) ''current'' = Inr c
        \<and> parseEnvelope (settled_envelope 5) ''x'' = Inr e \<and> same_balances e c)"
proof -
  have s1: "settlementDelta (sample_settlement ''confirm'') = Inr (settled_envelope (-2))" by code_simp
  have s2: "settlementDelta (sample_settlement ''reverse'') = Inr (settled_envelope 2)" by code_simp
  have a1: "applyBalanceDelta (JObj [(''current'', settled_envelope 5), (''delta'', settled_envelope (-2))])
      = Inr (settled_envelope 3)" by code_simp
  have a2: "applyBalanceDelta (JObj [(''current'', settled_envelope 3), (''delta'', settled_envelope 2)])
      = Inr (settled_envelope 5)" by code_simp
  show ?thesis
    using settlement_reverse_undoes[OF s1[unfolded sample_settlement_def] s2[unfolded sample_settlement_def] a1 a2, of "''x''"]
      s1 a1 a2 by blast
qed

section \<open>Spreading a settlement\<close>

lemma spread_total:
  assumes "\<forall>x. 0 \<le> mget rows x 0" and "0 \<le> n"
  shows "0 \<le> snd (spread rows n xs) \<and> sum_list (map snd (fst (spread rows n xs))) + snd (spread rows n xs) = n
     \<and> (\<forall>(x, a) \<in> set (fst (spread rows n xs)). x \<in> set xs \<and> 0 < a \<and> a \<le> mget rows x 0)"
  using assms(2)
proof (induction xs arbitrary: n)
  case Nil
  then show ?case by simp
next
  case (Cons x xs)
  let ?a = "if mget rows x 0 < n then mget rows x 0 else n"
  have a: "0 \<le> ?a" "0 \<le> n - ?a" "?a \<le> mget rows x 0" using Cons.prems assms(1) by auto
  obtain rest credit where r: "spread rows (n - ?a) xs = (rest, credit)" by (cases "spread rows (n - ?a) xs")
  have ih: "0 \<le> credit" "sum_list (map snd rest) + credit = n - ?a"
    "\<forall>(x, a) \<in> set rest. x \<in> set xs \<and> 0 < a \<and> a \<le> mget rows x 0"
    using Cons.IH[OF a(2)] r by auto
  have "spread rows n (x # xs) = (if 0 < ?a then (x, ?a) # rest else rest, credit)"
    by (simp only: spread.simps Let_def r prod.case)
  then show ?case using ih a by (cases "0 < ?a") (auto simp del: spread.simps)
qed

text \<open>Credit only remains when every obligation is paid in full.\<close>

lemma spread_credit:
  assumes "\<forall>x. 0 \<le> mget rows x 0" and "0 \<le> n" and "distinct xs"
  shows "0 < snd (spread rows n xs) \<longrightarrow>
     (\<forall>x \<in> set xs. 0 < mget rows x 0 \<longrightarrow> (x, mget rows x 0) \<in> set (fst (spread rows n xs)))"
  using assms(2,3)
proof (induction xs arbitrary: n)
  case Nil
  then show ?case by simp
next
  case (Cons x xs)
  let ?a = "if mget rows x 0 < n then mget rows x 0 else n"
  have a: "0 \<le> n - ?a" using Cons.prems by auto
  obtain rest credit where r: "spread rows (n - ?a) xs = (rest, credit)" by (cases "spread rows (n - ?a) xs")
  have ih: "0 < credit \<longrightarrow> (\<forall>y \<in> set xs. 0 < mget rows y 0 \<longrightarrow> (y, mget rows y 0) \<in> set rest)"
    using Cons.IH[OF a] Cons.prems r by simp
  have e: "spread rows n (x # xs) = (if 0 < ?a then (x, ?a) # rest else rest, credit)"
    by (simp only: spread.simps Let_def r prod.case)
  have tot: "sum_list (map snd rest) + credit = n - ?a" "\<forall>(x, a) \<in> set rest. 0 < a"
    using spread_total[OF assms(1) a, of xs] r by auto
  have "0 \<le> sum_list (map snd rest)" by (rule sum_list_nonneg) (use tot(2) in auto)
  then have "0 < credit \<Longrightarrow> mget rows x 0 < n" using tot(1) by (auto split: if_splits)
  then show ?case using ih by (auto simp: e simp del: spread.simps)
qed

lemma obligation_entry_ok:
  assumes "obligation_entry acc i row = Inr acc'" and "\<forall>(x, n) \<in> set acc. 0 \<le> n"
  shows "\<forall>(x, n) \<in> set acc'. 0 \<le> n"
  using assms by (auto simp: obligation_entry_def Let_def ebind_eq_Inr dest!: v_member_Inr v_amount_Inr set_mset_put_cases)

lemma allocateSettlement_cases:
  assumes "allocateSettlement input = Inr r"
  obtains total rows ord where "jprop input ''allocationOrder'' = JArr (map JStr ord)" and "distinct ord"
    and "set ord = fst ` set rows" and "v_amount0 (jprop input ''amountMinor'') ''amountMinor'' True = Inr total"
    and "\<forall>x. 0 \<le> mget rows x 0"
    and "\<exists>obs. jprop input ''obligations'' = JArr obs \<and> efoldi 0 obligation_entry [] obs = Inr rows"
    and "sa_allocations r = map (\<lambda>(x, n). (x, dec_int n)) (fst (spread rows total ord))"
    and "sa_creditMinor r = dec_int (snd (spread rows total ord))"
proof -
  obtain total obs rows ord where t: "v_amount0 (jprop input ''amountMinor'') ''amountMinor'' True = Inr total"
    and o: "v_count (jprop input ''obligations'') 100 ''INVALID_OBLIGATION_COUNT'' ''obligations'' = Inr obs"
    and f: "efoldi 0 obligation_entry [] obs = Inr rows"
    and v: "v_order (jprop input ''allocationOrder'') (map fst rows) ''allocationOrder'' = Inr ord"
    and r: "r = \<lparr>sa_allocations = map (\<lambda>(x, n). (x, dec_int n)) (fst (spread rows total ord)),
      sa_creditMinor = dec_int (snd (spread rows total ord))\<rparr>"
    using assms by (auto simp: allocateSettlement_def ebind_eq_Inr split_def Let_def)
  have "\<forall>(x, n) \<in> set rows. 0 \<le> n"
    using f by (rule efoldi_invariant) (auto dest: obligation_entry_ok)
  then have nn: "\<forall>x. 0 \<le> mget rows x 0"
    by (auto simp: mget_def split: option.splits dest!: map_of_SomeD)
  show thesis
    using that[OF _ _ _ t nn] v_order_Inr[OF v] v_count_Inr[OF o] f r by auto
qed

text \<open>
  C37: A settlement is never over- or under-spent: the allocations and the credit add up to the
  amount, every allocation is positive and at most the outstanding amount of an obligation of the
  request, and credit only remains when every open obligation is paid in full.
\<close>

theorem allocateSettlement_exact:
  assumes "allocateSettlement input = Inr r"
  shows "\<exists>total obs rows. v_amount0 (jprop input ''amountMinor'') ''amountMinor'' True = Inr total
     \<and> jprop input ''obligations'' = JArr obs \<and> efoldi 0 obligation_entry [] obs = Inr rows
     \<and> (\<Sum>(x, a)\<leftarrow>sa_allocations r. parse_int a) + parse_int (sa_creditMinor r) = total
     \<and> 0 \<le> parse_int (sa_creditMinor r)
     \<and> (\<forall>(x, a) \<in> set (sa_allocations r). x \<in> fst ` set rows \<and> 0 < parse_int a \<and> parse_int a \<le> mget rows x 0)
     \<and> (0 < parse_int (sa_creditMinor r) \<longrightarrow>
          (\<forall>x \<in> fst ` set rows. 0 < mget rows x 0 \<longrightarrow> (x, dec_int (mget rows x 0)) \<in> set (sa_allocations r)))"
proof (rule allocateSettlement_cases[OF assms])
  fix total rows ord
  assume ord: "distinct ord" "set ord = fst ` set rows"
    and t: "v_amount0 (jprop input ''amountMinor'') ''amountMinor'' True = Inr total"
    and nn: "\<forall>x. 0 \<le> mget rows x 0"
    and obs: "\<exists>obs. jprop input ''obligations'' = JArr obs \<and> efoldi 0 obligation_entry [] obs = Inr rows"
    and r: "sa_allocations r = map (\<lambda>(x, n). (x, dec_int n)) (fst (spread rows total ord))"
      "sa_creditMinor r = dec_int (snd (spread rows total ord))"
  have "0 \<le> total" using v_amount_Inr[OF t] by simp
  note st = spread_total[OF nn this, of ord] and sc = spread_credit[OF nn this ord(1)]
  have sum: "(\<Sum>(x, a)\<leftarrow>sa_allocations r. parse_int a) = sum_list (map snd (fst (spread rows total ord)))"
    unfolding r by (simp add: split_def comp_def)
  obtain o' where o': "jprop input ''obligations'' = JArr o'" "efoldi 0 obligation_entry [] o' = Inr rows"
    using obs by blast
  have "\<forall>(x, a) \<in> set (sa_allocations r). x \<in> fst ` set rows \<and> 0 < parse_int a \<and> parse_int a \<le> mget rows x 0"
    unfolding r using st ord(2) by fastforce
  moreover have "0 < parse_int (sa_creditMinor r) \<longrightarrow>
      (\<forall>x \<in> fst ` set rows. 0 < mget rows x 0 \<longrightarrow> (x, dec_int (mget rows x 0)) \<in> set (sa_allocations r))"
    unfolding r ord(2)[symmetric] using sc by force
  ultimately show ?thesis using t o' st by (intro exI[of _ total] exI[of _ o'] exI[of _ rows]) (simp add: sum r(2))
qed

definition sample_payment :: jsval where
  "sample_payment = JObj [(''amountMinor'', JStr ''9''), (''obligations'', JArr
       [JObj [(''obligationId'', JStr ''o1''), (''outstandingMinor'', JStr ''4'')],
        JObj [(''obligationId'', JStr ''o2''), (''outstandingMinor'', JStr ''3'')]]),
     (''allocationOrder'', JArr [JStr ''o2'', JStr ''o1''])]"

lemma allocateSettlement_exact_witness:
  "\<exists>r. allocateSettlement sample_payment = Inr r \<and> sa_creditMinor r = ''2'' \<and> 0 \<le> parse_int (sa_creditMinor r)"
proof -
  have a: "allocateSettlement sample_payment = Inr \<lparr>sa_allocations = [(''o2'', ''3''), (''o1'', ''4'')], sa_creditMinor = ''2''\<rparr>"
    by code_simp
  then show ?thesis using allocateSettlement_exact[OF a] by auto
qed

end
