(* ===== verification/JsDate.thy ===== *)
theory JsDate
  imports JsVal
begin

text \<open>
  The proleptic Gregorian calendar of ECMA-262 (\<open>DayFromYear\<close>, \<open>MakeDay\<close>,
  \<open>Date.UTC\<close> and the UTC getters). A time value is a number of milliseconds since the epoch
  and a day number is a number of days; both are integers. The printed form
  \<open>YYYY-MM-DD\<close> is what the code stores and compares, so the section ends with the
  agreement of string order and calendar order.
\<close>

definition ms_per_day :: int where
  "ms_per_day = 86400000"

definition leap :: "int \<Rightarrow> bool" where
  "leap y \<longleftrightarrow> y mod 4 = 0 \<and> (y mod 100 \<noteq> 0 \<or> y mod 400 = 0)"

definition leapd :: "int \<Rightarrow> int" where
  "leapd y = (if leap y then 1 else 0)"

definition day_from_year :: "int \<Rightarrow> int" where
  "day_from_year y = 365 * (y - 1970) + (y - 1969) div 4 - (y - 1901) div 100 + (y - 1601) div 400"

definition year_from_day :: "int \<Rightarrow> int" where
  "year_from_day d =
     (let y = 1970 + (400 * d) div 146097
      in if d < day_from_year y then y - 1 else if day_from_year (y + 1) \<le> d then y + 1 else y)"

text \<open>Day of the year on which month \<open>m\<close> (0..11) starts; \<open>l\<close> is 1 in a leap year.\<close>

definition month_start :: "int \<Rightarrow> int \<Rightarrow> int" where
  "month_start l m =
     (if m = 0 then 0 else if m = 1 then 31 else if m = 2 then 59 + l else if m = 3 then 90 + l
      else if m = 4 then 120 + l else if m = 5 then 151 + l else if m = 6 then 181 + l
      else if m = 7 then 212 + l else if m = 8 then 243 + l else if m = 9 then 273 + l
      else if m = 10 then 304 + l else if m = 11 then 334 + l else 365 + l)"

definition month_of :: "int \<Rightarrow> int \<Rightarrow> int" where
  "month_of l r =
     (if r < 31 then 0 else if r < 59 + l then 1 else if r < 90 + l then 2 else if r < 120 + l then 3
      else if r < 151 + l then 4 else if r < 181 + l then 5 else if r < 212 + l then 6
      else if r < 243 + l then 7 else if r < 273 + l then 8 else if r < 304 + l then 9
      else if r < 334 + l then 10 else 11)"

definition utc_year :: "int \<Rightarrow> int" where
  "utc_year d = year_from_day d"

definition day_in_year :: "int \<Rightarrow> int" where
  "day_in_year d = d - day_from_year (year_from_day d)"

definition utc_month :: "int \<Rightarrow> int" where
  "utc_month d = month_of (leapd (utc_year d)) (day_in_year d)"

definition utc_date :: "int \<Rightarrow> int" where
  "utc_date d = day_in_year d - month_start (leapd (utc_year d)) (utc_month d) + 1"

text \<open>\<open>MakeDay\<close> normalises months outside 0..11; \<open>Date.UTC\<close> reads years 0..99 as 19xx.\<close>

definition make_day :: "int \<Rightarrow> int \<Rightarrow> int \<Rightarrow> int" where
  "make_day y m d =
     (let ym = y + m div 12; mn = m mod 12 in day_from_year ym + month_start (leapd ym) mn + d - 1)"

definition date_utc :: "int \<Rightarrow> int \<Rightarrow> int \<Rightarrow> int" where
  "date_utc y m d = make_day (if 0 \<le> y \<and> y \<le> 99 then 1900 + y else y) m d"

definition days_in_month :: "int \<Rightarrow> int \<Rightarrow> int" where
  "days_in_month y m = month_start (leapd y) (m + 1) - month_start (leapd y) m"

lemma leapd_01: "leapd y = 0 \<or> leapd y = 1"
  by (simp add: leapd_def)

lemma month_start_0 [simp]: "month_start l 0 = 0"
  by (simp add: month_start_def)

lemma month_start_12 [simp]: "month_start l 12 = 365 + l"
  by (simp add: month_start_def)

subsection \<open>Years\<close>

lemma div_step: "0 < n \<Longrightarrow> (k + 1) div n = k div n + (if (k + 1) mod n = 0 then 1 else (0::int))"
proof -
  assume n: "0 < n"
  show ?thesis
  proof (cases "(k + 1) mod n = 0")
    case True
    then obtain q where q: "k + 1 = n * q" by (auto elim: dvdE simp: mod_eq_0_iff_dvd)
    then have "k = (n - 1) + n * (q - 1)" by (simp add: algebra_simps)
    then have "k div n = q - 1" using n by (simp add: div_pos_pos_trivial)
    then show ?thesis using True q n by simp
  next
    case False
    have e: "k + 1 = (k + 1) div n * n + (k + 1) mod n" by (simp only: div_mult_mod_eq)
    have r: "0 < (k + 1) mod n" "(k + 1) mod n < n"
      using False pos_mod_bound[OF n, of "k + 1"] pos_mod_sign[OF n, of "k + 1"] by linarith+
    have k: "k = ((k + 1) mod n - 1) + (k + 1) div n * n" using e by linarith
    have "k div n = (((k + 1) mod n - 1) + (k + 1) div n * n) div n" using k by simp
    also have "\<dots> = (k + 1) div n" using n r by (simp add: div_pos_pos_trivial)
    finally have "k div n = (k + 1) div n" .
    then show ?thesis using False by simp
  qed
qed

lemma mod_shift: "(y - c) mod n = 0 \<longleftrightarrow> y mod n = 0" if "(c::int) mod n = 0"
  using that by (metis diff_zero mod_diff_right_eq)

lemma day_from_year_Suc: "day_from_year (y + 1) = day_from_year y + 365 + leapd y"
proof -
  have a: "(y + 1 - 1969) div 4 = (y - 1969) div 4 + (if y mod 4 = 0 then 1 else 0)"
    using div_step[of 4 "y - 1969"] mod_shift[of 1968 4 y] by (simp add: algebra_simps)
  have b: "(y + 1 - 1901) div 100 = (y - 1901) div 100 + (if y mod 100 = 0 then 1 else 0)"
    using div_step[of 100 "y - 1901"] mod_shift[of 1900 100 y] by (simp add: algebra_simps)
  have c: "(y + 1 - 1601) div 400 = (y - 1601) div 400 + (if y mod 400 = 0 then 1 else 0)"
    using div_step[of 400 "y - 1601"] mod_shift[of 1600 400 y] by (simp add: algebra_simps)
  have d: "y mod 400 = 0 \<Longrightarrow> y mod 100 = 0" "y mod 100 = 0 \<Longrightarrow> y mod 4 = 0" by presburger+
  show ?thesis unfolding day_from_year_def a b c
    by (cases "y mod 4 = 0"; cases "y mod 100 = 0"; cases "y mod 400 = 0"; use d in \<open>simp add: leapd_def leap_def\<close>)
qed

lemma day_from_year_less: "i < j \<Longrightarrow> day_from_year i + 365 \<le> day_from_year j"
proof -
  assume ij: "i < j"
  have "day_from_year i + 365 * int (Suc n) \<le> day_from_year (i + int (Suc n))" for n
  proof (induction n)
    case 0
    show ?case using day_from_year_Suc[of i] leapd_01[of i] by auto
  next
    case (Suc n)
    have "day_from_year (i + int (Suc (Suc n))) =
        day_from_year (i + int (Suc n)) + 365 + leapd (i + int (Suc n))"
      using day_from_year_Suc[of "i + int (Suc n)"] by (simp add: algebra_simps)
    with Suc leapd_01[of "i + int (Suc n)"] show ?case by auto
  qed
  from this[of "nat (j - i - 1)"] ij show ?thesis by (simp add: algebra_simps)
qed

lemma year_from_day: "day_from_year (year_from_day d) \<le> d \<and> d < day_from_year (year_from_day d + 1)"
proof -
  define n where "n = (400 * d) div 146097"
  have n: "146097 * n \<le> 400 * d" "400 * d < 146097 * n + 146097"
    using div_bounds[of 146097 "400 * d"] by (auto simp: n_def)
  have lo: "day_from_year (1970 + n - 1) \<le> d"
    using n div_bounds[of 4 n] div_bounds[of 100 "n + 68"] div_bounds[of 400 "n + 368"]
    by (simp add: day_from_year_def)
  have hi: "d < day_from_year (1970 + n + 2)"
    using n div_bounds[of 4 "n + 3"] div_bounds[of 100 "n + 71"] div_bounds[of 400 "n + 371"]
    by (simp add: day_from_year_def)
  have y: "year_from_day d = (if d < day_from_year (1970 + n) then 1970 + n - 1
      else if day_from_year (1970 + n + 1) \<le> d then 1970 + n + 1 else 1970 + n)"
    by (simp only: year_from_day_def Let_def n_def)
  consider "d < day_from_year (1970 + n)" | "day_from_year (1970 + n + 1) \<le> d" "\<not> d < day_from_year (1970 + n)"
    | "\<not> d < day_from_year (1970 + n)" "\<not> day_from_year (1970 + n + 1) \<le> d"
    by blast
  then show ?thesis
  proof cases
    case 1
    then have "year_from_day d = 1970 + n - 1" by (simp add: y)
    with 1 lo show ?thesis by simp
  next
    case 2
    then have "year_from_day d = 1970 + n + 1" by (simp add: y)
    with 2 hi show ?thesis by (simp add: algebra_simps)
  next
    case 3
    then have "year_from_day d = 1970 + n" by (simp add: y)
    with 3 show ?thesis by simp
  qed
qed

lemma year_from_day_unique: "day_from_year y \<le> d \<Longrightarrow> d < day_from_year (y + 1) \<Longrightarrow> year_from_day d = y"
proof -
  assume a: "day_from_year y \<le> d" "d < day_from_year (y + 1)"
  have "\<not> year_from_day d < y"
    using year_from_day[of d] a day_from_year_less[of "year_from_day d + 1" y]
    by (cases "year_from_day d + 1 = y") auto
  moreover have "\<not> y < year_from_day d"
    using year_from_day[of d] a day_from_year_less[of "y + 1" "year_from_day d"]
    by (cases "y + 1 = year_from_day d") auto
  ultimately show ?thesis by linarith
qed

lemma day_in_year_bounds: "0 \<le> day_in_year d \<and> day_in_year d < 365 + leapd (utc_year d)"
  using year_from_day[of d] day_from_year_Suc[of "year_from_day d"]
  by (simp add: day_in_year_def utc_year_def)

subsection \<open>Months\<close>

lemma month_of_range: "0 \<le> r \<Longrightarrow> 0 \<le> month_of l r \<and> month_of l r \<le> 11"
  by (simp add: month_of_def)

lemma month_of_bounds:
  assumes "0 \<le> r" and "r < 365 + l" and "l = 0 \<or> l = 1"
  shows "month_start l (month_of l r) \<le> r \<and> r < month_start l (month_of l r + 1)"
  using assms by (simp add: month_of_def month_start_def)

lemma month_cases:
  assumes "0 \<le> m" and "m \<le> (11::int)"
  obtains "m = 0" | "m = 1" | "m = 2" | "m = 3" | "m = 4" | "m = 5" | "m = 6" | "m = 7" | "m = 8"
    | "m = 9" | "m = 10" | "m = 11"
  using assms by (smt (verit))

lemma days_in_month_bounds: "0 \<le> m \<Longrightarrow> m \<le> 11 \<Longrightarrow> 28 \<le> days_in_month y m \<and> days_in_month y m \<le> 31"
  by (erule (1) month_cases) (use leapd_01[of y] in \<open>auto simp: days_in_month_def month_start_def\<close>)

lemma month_of_unique:
  assumes "0 \<le> m" "m \<le> 11" and "month_start l m \<le> r" and "r < month_start l (m + 1)" and "l = 0 \<or> l = 1"
  shows "month_of l r = m"
  using assms(1,2) by (rule month_cases) (use assms(3-5) in \<open>auto simp: month_of_def month_start_def\<close>)

lemma month_start_bounds: "0 \<le> m \<Longrightarrow> m \<le> 11 \<Longrightarrow> 0 \<le> month_start (leapd y) m"
  by (erule (1) month_cases) (use leapd_01[of y] in \<open>auto simp: month_start_def\<close>)

lemma month_start_upper: "0 \<le> m \<Longrightarrow> m \<le> 11 \<Longrightarrow> month_start (leapd y) (m + 1) \<le> 365 + leapd y"
  by (erule (1) month_cases) (use leapd_01[of y] in \<open>auto simp: month_start_def\<close>)

lemma utc_month_range: "0 \<le> utc_month d" "utc_month d \<le> 11"
  using month_of_range day_in_year_bounds by (simp_all add: utc_month_def)

lemma utc_date_range: "1 \<le> utc_date d" "utc_date d \<le> days_in_month (utc_year d) (utc_month d)"
  using month_of_bounds[of "day_in_year d" "leapd (utc_year d)"] day_in_year_bounds[of d] leapd_01
  by (auto simp: utc_date_def days_in_month_def utc_month_def)

text \<open>The getters invert \<open>MakeDay\<close>.\<close>

lemma make_day_utc: "make_day (utc_year d) (utc_month d) (utc_date d) = d"
  using utc_month_range[of d]
  by (simp add: make_day_def utc_date_def day_in_year_def Let_def utc_year_def)

lemma utc_make_day:
  assumes "0 \<le> m" "m \<le> 11" "1 \<le> t" "t \<le> days_in_month y m"
  shows "utc_year (make_day y m t) = y" "utc_month (make_day y m t) = m" "utc_date (make_day y m t) = t"
proof -
  let ?d = "make_day y m t"
  have d: "?d = day_from_year y + month_start (leapd y) m + t - 1"
    using assms by (simp add: make_day_def Let_def)
  have ub: "month_start (leapd y) m + t - 1 < month_start (leapd y) (m + 1)"
    using assms by (simp add: days_in_month_def)
  show y: "utc_year ?d = y"
    unfolding utc_year_def
    using d ub assms month_start_bounds[of m y] month_start_upper[of m y] day_from_year_Suc[of y]
    by (intro year_from_day_unique) linarith+
  have r: "day_in_year ?d = month_start (leapd y) m + t - 1"
    using y d by (simp add: day_in_year_def utc_year_def)
  show m: "utc_month ?d = m"
    unfolding utc_month_def y r using assms ub leapd_01 by (intro month_of_unique) auto
  show "utc_date ?d = t" unfolding utc_date_def m y r by simp
qed

text \<open>Consecutive months tile the days.\<close>

lemma month_step:
  "(m + 1) mod 12 = (if m mod 12 = 11 then 0 else m mod 12 + 1)"
  "(m + 1) div 12 = m div 12 + (if m mod 12 = 11 then 1 else (0::int))"
proof -
  have m: "(m + 1) mod 12 = (m mod 12 + 1) mod 12" by (simp add: mod_add_left_eq)
  have b: "0 \<le> m mod 12" "m mod 12 < 12" by simp_all
  show s: "(m + 1) mod 12 = (if m mod 12 = 11 then 0 else m mod 12 + 1)"
    unfolding m using b by (auto simp: mod_pos_pos_trivial)
  show "(m + 1) div 12 = m div 12 + (if m mod 12 = 11 then 1 else (0::int))"
    using div_step[of 12 m] s b by (auto split: if_splits)
qed

lemma make_day_next_month:
  "make_day y (m + 1) 1 = make_day y m 1 + days_in_month (y + m div 12) (m mod 12)"
proof (cases "m mod 12 = 11")
  case True
  then show ?thesis using day_from_year_Suc[of "y + m div 12"]
    unfolding make_day_def days_in_month_def Let_def month_step by (simp add: add.assoc)
next
  case False
  then show ?thesis
    unfolding make_day_def days_in_month_def Let_def month_step by simp
qed

lemma make_day_date: "make_day y m t = make_day y m 1 + t - 1"
  by (simp add: make_day_def Let_def)

lemma make_day_norm: "make_day y m t = make_day (y + m div 12) (m mod 12) t"
  by (simp add: make_day_def Let_def)

lemma date_utc_eq: "100 \<le> y \<Longrightarrow> date_utc y m t = make_day y m t"
  by (simp add: date_utc_def)

subsection \<open>Calendar order\<close>


lemma utc_year_mono: "a \<le> b \<Longrightarrow> utc_year a \<le> utc_year b"
proof (rule ccontr)
  assume ab: "a \<le> b" and "\<not> utc_year a \<le> utc_year b"
  then have "utc_year b + 1 \<le> utc_year a" by simp
  then have "day_from_year (utc_year b + 1) \<le> day_from_year (utc_year a)"
    using day_from_year_less[of "utc_year b + 1" "utc_year a"] by (cases "utc_year b + 1 = utc_year a") auto
  then show False using year_from_day[of a] year_from_day[of b] ab by (simp add: utc_year_def)
qed

lemma month_of_mono: "r \<le> s \<Longrightarrow> l = 0 \<or> l = 1 \<Longrightarrow> month_of l r \<le> month_of l s"
  by (auto simp: month_of_def)

text \<open>Days compare as (year, month, date) triples do.\<close>

definition ymd_less :: "int \<Rightarrow> int \<Rightarrow> bool" where
  "ymd_less a b \<longleftrightarrow> utc_year a < utc_year b \<or> (utc_year a = utc_year b \<and>
     (utc_month a < utc_month b \<or> (utc_month a = utc_month b \<and> utc_date a < utc_date b)))"

lemma ymd_less_iff: "ymd_less a b \<longleftrightarrow> a < b"
proof -
  have fwd: "ymd_less a b" if "a < b" for a b
  proof (cases "utc_year a = utc_year b")
    case False
    then show ?thesis using utc_year_mono[of a b] that by (simp add: ymd_less_def)
  next
    case True
    then have r: "day_in_year a < day_in_year b" using that by (simp add: day_in_year_def utc_year_def)
    have m: "utc_month a \<le> utc_month b"
      unfolding utc_month_def True using r leapd_01 by (intro month_of_mono) auto
    show ?thesis
    proof (cases "utc_month a = utc_month b")
      case mm: True
      then have "utc_date a < utc_date b" using r True by (simp add: utc_date_def)
      with mm True show ?thesis by (simp add: ymd_less_def)
    next
      case False
      with m True show ?thesis by (simp add: ymd_less_def)
    qed
  qed
  have "\<not> ymd_less a b" if "b \<le> a"
  proof (cases "a = b")
    case True
    then show ?thesis by (simp add: ymd_less_def)
  next
    case False
    then have "ymd_less b a" using that by (intro fwd) simp
    then show ?thesis by (auto simp: ymd_less_def)
  qed
  with fwd show ?thesis by (metis not_le)
qed

section \<open>The printed day\<close>

text \<open>\<open>String(n).padStart(2, '0')\<close> and \<open>toDateOnly\<close>.\<close>

definition pad :: "int \<Rightarrow> string" where
  "pad n = (let s = dec_int n in replicate (2 - length s) (CHR ''0'') @ s)"

definition toDateOnly :: "int \<Rightarrow> string" where
  "toDateOnly d = dec_int (utc_year d) @ ''-'' @ pad (utc_month d + 1) @ ''-'' @ pad (utc_date d)"

text \<open>
  \<open>new Date('YYYY-MM-DD...Z')\<close>: four, two and two digits; month 1..12 and day 1..31, a day past
  the end of its month running over into the next (the engine's ISO parser).
\<close>

definition parse_day :: "string \<Rightarrow> int option" where
  "parse_day s =
     (if length s = 10 \<and> s ! 4 = CHR ''-'' \<and> s ! 7 = CHR ''-''
         \<and> list_all is_digit (take 4 s) \<and> list_all is_digit (take 2 (drop 5 s)) \<and> list_all is_digit (drop 8 s)
      then let y = int (parse_nat (take 4 s)); m = int (parse_nat (take 2 (drop 5 s)));
               t = int (parse_nat (drop 8 s))
           in if 1 \<le> m \<and> m \<le> 12 \<and> 1 \<le> t \<and> t \<le> 31 then Some (make_day y (m - 1) t) else None
      else None)"

subsection \<open>Fixed-width digit strings\<close>

lemma parse_nat_Cons: "parse_nat (c # s) = digit_val c * 10 ^ length s + parse_nat s"
proof -
  have "foldl (\<lambda>n c. 10 * n + digit_val c) a s = a * 10 ^ length s + foldl (\<lambda>n c. 10 * n + digit_val c) 0 s" for a
  proof (induction s arbitrary: a)
    case Nil
    then show ?case by simp
  next
    case (Cons d s)
    have "foldl (\<lambda>n c. 10 * n + digit_val c) (10 * a + digit_val d) s =
        (10 * a + digit_val d) * 10 ^ length s + foldl (\<lambda>n c. 10 * n + digit_val c) 0 s"
      by (rule Cons)
    also have "\<dots> = a * 10 ^ length (d # s) + (digit_val d * 10 ^ length s + foldl (\<lambda>n c. 10 * n + digit_val c) 0 s)"
      by (simp add: algebra_simps)
    also have "digit_val d * 10 ^ length s + foldl (\<lambda>n c. 10 * n + digit_val c) 0 s
        = foldl (\<lambda>n c. 10 * n + digit_val c) (digit_val d) s"
      by (rule Cons[symmetric])
    finally show ?case by simp
  qed
  from this[of "digit_val c"] show ?thesis by (simp add: parse_nat_def)
qed

lemma parse_nat_Nil [simp]: "parse_nat [] = 0"
  by (simp add: parse_nat_def)

lemma digit_val_less: "is_digit c \<Longrightarrow> digit_val c < 10"
  by (auto simp: is_digit_def digit_val_def)

lemma parse_nat_bound: "list_all is_digit s \<Longrightarrow> parse_nat s < 10 ^ length s"
proof (induction s)
  case Nil
  then show ?case by simp
next
  case (Cons c s)
  then have "digit_val c \<le> 9" "parse_nat s < 10 ^ length s" using digit_val_less[of c] by auto
  then have "digit_val c * 10 ^ length s + parse_nat s < 9 * 10 ^ length s + 10 ^ length s"
    by (metis add_le_less_mono mult_le_mono1)
  then show ?case by (simp add: parse_nat_Cons)
qed

lemma digit_code: "is_digit c \<Longrightarrow> is_digit d \<Longrightarrow> code c < code d \<longleftrightarrow> digit_val c < digit_val d"
  by (auto simp: is_digit_def digit_val_def)

lemma str_less_digits:
  "length s = length t \<Longrightarrow> list_all is_digit s \<Longrightarrow> list_all is_digit t \<Longrightarrow>
     str_less s t \<longleftrightarrow> parse_nat s < parse_nat t"
proof (induction s t rule: list_induct2)
  case Nil
  then show ?case by simp
next
  case (Cons c s d t)
  have sb: "parse_nat s < 10 ^ length t" "parse_nat t < 10 ^ length t"
    using parse_nat_bound[of s] parse_nat_bound[of t] Cons by auto
  have dc: "is_digit c" "is_digit d" using Cons.prems by auto
  then have "code c = code d \<longleftrightarrow> digit_val c = digit_val d"
    unfolding is_digit_def digit_val_def by linarith
  then have cd: "code c < code d \<longleftrightarrow> digit_val c < digit_val d" "c = d \<longleftrightarrow> digit_val c = digit_val d"
    using digit_code[OF dc] by simp_all
  have lt: "digit_val c * 10 ^ length t + parse_nat s < digit_val d * 10 ^ length t + parse_nat t
      \<longleftrightarrow> digit_val c < digit_val d \<or> (digit_val c = digit_val d \<and> parse_nat s < parse_nat t)"
  proof -
    have step: "a * n + x < b * n + y" if "a < b" "x < n" for a b x y n :: nat
    proof -
      have "a * n + x < Suc a * n" using that by simp
      also have "\<dots> \<le> b * n" using that by (intro mult_le_mono1) simp
      finally show ?thesis by simp
    qed
    show ?thesis
      using step[of "digit_val c" "digit_val d" "parse_nat s" "10 ^ length t" "parse_nat t"]
        step[of "digit_val d" "digit_val c" "parse_nat t" "10 ^ length t" "parse_nat s"] sb
      by (metis add_less_cancel_left linorder_neqE_nat not_less_iff_gr_or_eq)
  qed
  show ?case using Cons cd lt by (simp add: parse_nat_Cons)
qed

lemma str_less_append: "length s = length t \<Longrightarrow> str_less (s @ u) (t @ v) \<longleftrightarrow> str_less s t \<or> (s = t \<and> str_less u v)"
  by (induction s t rule: list_induct2) auto

lemma length_dec_digits_4: "1000 \<le> n \<Longrightarrow> n \<le> 9999 \<Longrightarrow> length (dec_digits n) = 4"
proof -
  assume n: "1000 \<le> n" "n \<le> 9999"
  have step: "length (dec_digits k) = Suc (length (dec_digits (k div 10)))" if "10 \<le> k" for k
    using that by (subst dec_digits.simps) simp
  have one: "length (dec_digits k) = 1" if "k < 10" for k
    using that by (subst dec_digits.simps) simp
  show ?thesis
    using n step[of n] step[of "n div 10"] step[of "n div 10 div 10"] one[of "n div 10 div 10 div 10"]
    by (simp flip: div_mult2_eq)
qed

lemma dec_digits_small: "n < 10 \<Longrightarrow> dec_digits n = [char_of (48 + n)]"
  by (subst dec_digits.simps) simp

lemma length_dec_digits_2: "10 \<le> n \<Longrightarrow> n \<le> 99 \<Longrightarrow> length (dec_digits n) = 2"
  by (subst dec_digits.simps, simp, subst dec_digits.simps, simp)

lemma pad_props:
  assumes "0 \<le> n" "n \<le> 99"
  shows "length (pad n) = 2" "list_all is_digit (pad n)" "parse_nat (pad n) = nat n"
proof -
  have z: "is_digit (CHR ''0'')" "digit_val (CHR ''0'') = 0" by (simp_all add: is_digit_def digit_val_def)
  have all: "list_all is_digit (dec_digits (nat n))" using dec_digits_all by (auto simp: list_all_iff)
  show "length (pad n) = 2" "list_all is_digit (pad n)" "parse_nat (pad n) = nat n"
    by (cases "n < 10"; use assms z all length_dec_digits_2[of "nat n"] in
        \<open>simp add: pad_def dec_int_nonneg Let_def dec_digits_small parse_nat_Cons\<close>)+
qed

lemma year4_props:
  assumes "1000 \<le> y" "y \<le> 9999"
  shows "length (dec_int y) = 4" "list_all is_digit (dec_int y)" "parse_nat (dec_int y) = nat y"
  using assms length_dec_digits_4[of "nat y"] dec_digits_all
  by (auto simp: dec_int_nonneg list_all_iff)

definition printable :: "int \<Rightarrow> bool" where
  "printable d \<longleftrightarrow> 1000 \<le> utc_year d \<and> utc_year d \<le> 9999"

lemma utc_small: "0 \<le> utc_month d + 1" "utc_month d + 1 \<le> 99" "0 \<le> utc_date d" "utc_date d \<le> 99"
  using utc_month_range[of d] utc_date_range[of d] days_in_month_bounds[of "utc_month d" "utc_year d"] by auto

text \<open>On four-digit years the string order of printed days is the order of days.\<close>

lemma str_less_toDateOnly:
  assumes "printable a" and "printable b"
  shows "str_less (toDateOnly a) (toDateOnly b) \<longleftrightarrow> a < b"
proof -
  note y = year4_props[of "utc_year a"] year4_props[of "utc_year b"]
  note p = pad_props[OF utc_small(1,2)[of a]] pad_props[OF utc_small(1,2)[of b]]
    pad_props[OF utc_small(3,4)[of a]] pad_props[OF utc_small(3,4)[of b]]
  have ys: "str_less (dec_int (utc_year a)) (dec_int (utc_year b)) \<longleftrightarrow> utc_year a < utc_year b"
    using y assms by (subst str_less_digits) (auto simp: printable_def)
  have yeq: "dec_int (utc_year a) = dec_int (utc_year b) \<longleftrightarrow> utc_year a = utc_year b"
  proof
    assume "dec_int (utc_year a) = dec_int (utc_year b)"
    then have "nat (utc_year a) = nat (utc_year b)" using y assms by (metis printable_def)
    then show "utc_year a = utc_year b" using assms by (simp add: printable_def nat_eq_iff)
  qed simp
  have ms: "str_less (pad (utc_month a + 1)) (pad (utc_month b + 1)) \<longleftrightarrow> utc_month a < utc_month b"
    using p utc_month_range[of a] utc_month_range[of b] by (subst str_less_digits) auto
  have meq: "pad (utc_month a + 1) = pad (utc_month b + 1) \<longleftrightarrow> utc_month a = utc_month b"
  proof
    assume "pad (utc_month a + 1) = pad (utc_month b + 1)"
    then have "nat (utc_month a + 1) = nat (utc_month b + 1)" using p by metis
    then show "utc_month a = utc_month b" using utc_month_range[of a] utc_month_range[of b] by simp
  qed simp
  have ds: "str_less (pad (utc_date a)) (pad (utc_date b)) \<longleftrightarrow> utc_date a < utc_date b"
    using p utc_small[of a] utc_small[of b] utc_date_range[of b] by (subst str_less_digits) auto
  have "str_less (toDateOnly a) (toDateOnly b) \<longleftrightarrow> ymd_less a b"
    unfolding toDateOnly_def ymd_less_def
    using y p assms
    by (simp add: str_less_append ys yeq ms meq ds printable_def)
  then show ?thesis by (simp add: ymd_less_iff)
qed

lemma str_le_toDateOnly:
  "printable a \<Longrightarrow> printable b \<Longrightarrow> str_le (toDateOnly a) (toDateOnly b) \<longleftrightarrow> a \<le> b"
  by (simp add: str_le_def str_less_toDateOnly not_less)

lemma parse_day_toDateOnly:
  assumes "printable d"
  shows "parse_day (toDateOnly d) = Some d"
proof -
  note y = year4_props[of "utc_year d"]
  note p = pad_props[OF utc_small(1,2)[of d]] pad_props[OF utc_small(3,4)[of d]]
  obtain y3 y2 y1 y0 where ys: "dec_int (utc_year d) = [y3, y2, y1, y0]"
    using y(1) assms by (auto simp: printable_def length_Suc_conv numeral_eq_Suc)
  obtain m1 m0 where ms: "pad (utc_month d + 1) = [m1, m0]"
    using p(1) by (auto simp: length_Suc_conv numeral_eq_Suc)
  obtain t1 t0 where ts: "pad (utc_date d) = [t1, t0]"
    using p(4) by (auto simp: length_Suc_conv numeral_eq_Suc)
  have s: "toDateOnly d = [y3, y2, y1, y0, CHR ''-'', m1, m0, CHR ''-'', t1, t0]"
    by (simp add: toDateOnly_def ys ms ts)
  have v: "parse_nat [y3, y2, y1, y0] = nat (utc_year d)" "list_all is_digit [y3, y2, y1, y0]"
    "parse_nat [m1, m0] = nat (utc_month d + 1)" "list_all is_digit [m1, m0]"
    "parse_nat [t1, t0] = nat (utc_date d)" "list_all is_digit [t1, t0]"
    using y p assms unfolding ys ms ts by (simp_all add: printable_def)
  have "utc_date d \<le> 31"
    using utc_date_range(2)[of d] days_in_month_bounds[OF utc_month_range[of d], of "utc_year d"] by linarith
  then show ?thesis
    using v utc_month_range[of d] utc_date_range[of d] assms make_day_utc[of d]
    unfolding s parse_day_def by (simp add: printable_def Let_def)
qed

lemma parse_day_code [code]:
  "parse_day s =
     (if length s = 10 \<and> s ! 4 = CHR ''-'' \<and> s ! 7 = CHR ''-''
         \<and> list_all is_digit (take 4 s) \<and> list_all is_digit (take 2 (drop 5 s)) \<and> list_all is_digit (drop 8 s)
      then let y = int_of_digits (take 4 s); m = int_of_digits (take 2 (drop 5 s)); t = int_of_digits (drop 8 s)
           in if 1 \<le> m \<and> m \<le> 12 \<and> 1 \<le> t \<and> t \<le> 31 then Some (make_day y (m - 1) t) else None
      else None)"
  by (simp add: parse_day_def int_of_digits_eq)

end
