(* ===== verification/Cycles.thy ===== *)
theory Cycles
  imports JsDate
begin

text \<open>
  \<open>api/src/cycles.js\<close>: which period a transaction falls in. Calendar, fiscal, anniversary and
  statement windows of both generations of cards, the anchor dates windows are measured from, and
  the conversion rates of reward units. An instant is a number of milliseconds; windows are pairs
  of printed days, as the tables store them.
\<close>

section \<open>Calendar windows\<close>

definition day_of :: "int \<Rightarrow> int" where
  "day_of t = t div ms_per_day"

type_synonym bounds = "string \<times> string"

definition lastDayOfMonth :: "int \<Rightarrow> int \<Rightarrow> int" where
  "lastDayOfMonth y m = utc_date (date_utc y (m + 1) 0)"

definition calendarMonthBounds :: "int \<Rightarrow> bounds" where
  "calendarMonthBounds ref =
     (let y = utc_year (day_of ref); m = utc_month (day_of ref) in
      (toDateOnly (date_utc y m 1), toDateOnly (date_utc y m (lastDayOfMonth y m))))"

definition calendarQuarterBounds :: "int \<Rightarrow> bounds" where
  "calendarQuarterBounds ref =
     (let y = utc_year (day_of ref); q = utc_month (day_of ref) div 3 * 3 in
      (toDateOnly (date_utc y q 1), toDateOnly (date_utc y (q + 2) (lastDayOfMonth y (q + 2)))))"

definition calendarHalfYearBounds :: "int \<Rightarrow> bounds" where
  "calendarHalfYearBounds ref =
     (let y = utc_year (day_of ref); h = (if utc_month (day_of ref) < 6 then 0 else 6) in
      (toDateOnly (date_utc y h 1), toDateOnly (date_utc y (h + 5) (lastDayOfMonth y (h + 5)))))"

definition calendarYearBounds :: "int \<Rightarrow> bounds" where
  "calendarYearBounds ref =
     (let y = utc_year (day_of ref) in (toDateOnly (date_utc y 0 1), toDateOnly (date_utc y 11 31)))"

definition fiscalYearBounds :: "int \<Rightarrow> bounds" where
  "fiscalYearBounds ref =
     (let y = utc_year (day_of ref); startYear = (if 3 \<le> utc_month (day_of ref) then y else y - 1) in
      (toDateOnly (date_utc startYear 3 1), toDateOnly (date_utc (startYear + 1) 2 31)))"

text \<open>An invalid \<open>Date\<close> prints like this.\<close>

definition invalid_day :: string where
  "invalid_day = ''NaN-NaN-NaN''"

text \<open>The anchor is the time value of \<open>new Date(anchorDate)\<close>, \<open>None\<close> when that is invalid.\<close>

definition anniversaryYearBounds :: "int \<Rightarrow> int option \<Rightarrow> bounds" where
  "anniversaryYearBounds ref anchor = (case anchor of
      None \<Rightarrow> (invalid_day, invalid_day)
    | Some a \<Rightarrow>
        (let month = utc_month (day_of a); day = utc_date (day_of a); y = utc_year (day_of ref);
             startYear = (if ref < ms_per_day * date_utc y month day then y - 1 else y) in
         (toDateOnly (date_utc startYear month day), toDateOnly (date_utc (startYear + 1) month (day - 1)))))"

definition statementCycleBounds :: "int \<Rightarrow> int option \<Rightarrow> bounds" where
  "statementCycleBounds ref statementDay =
     (if statementDay = None \<or> statementDay = Some 0 then calendarMonthBounds ref
      else let sd = the statementDay; y = utc_year (day_of ref); m = utc_month (day_of ref);
               (startYear, startMonth) =
                 (if utc_date (day_of ref) < sd then (if m - 1 < 0 then (y - 1, 11) else (y, m - 1)) else (y, m));
               clampedStartDay = min sd (lastDayOfMonth startYear startMonth);
               (endYear, endMonth) =
                 (if startMonth + 1 > 11 then (startYear + 1, 0) else (startYear, startMonth + 1));
               clampedEndDay = min sd (lastDayOfMonth endYear endMonth) - 1 in
           (toDateOnly (date_utc startYear startMonth clampedStartDay),
            toDateOnly (date_utc endYear endMonth (max clampedEndDay 1))))"

definition LIFETIME_BOUNDS :: bounds where
  "LIFETIME_BOUNDS = (''1970-01-01'', ''9999-12-31'')"

text \<open>
  A date-ish value: null or undefined, a text with the time value \<open>Date.parse\<close> gives it when it
  is not of the date-only form, or a \<open>Date\<close> with its time value (\<open>None\<close> when invalid).
\<close>

datatype date_value = DNull | DText string "int option" | DDate "int option"

definition time_value :: "date_value \<Rightarrow> int option" where
  "time_value v = (case v of
      DNull \<Rightarrow> Some 0
    | DText s p \<Rightarrow> (case parse_day s of Some d \<Rightarrow> Some (ms_per_day * d) | None \<Rightarrow> p)
    | DDate t \<Rightarrow> t)"

fun present :: "date_value \<Rightarrow> bool" where
  "present DNull = False"
| "present (DText s p) = (s \<noteq> [])"
| "present (DDate t) = True"

datatype cycle_error = UnknownPeriod string

definition periodBounds :: "string \<Rightarrow> int \<Rightarrow> int option \<Rightarrow> string option \<Rightarrow> date_value \<Rightarrow> cycle_error + bounds" where
  "periodBounds period occurredAt statementDay anchor anchorDate =
     (if period = ''lifetime'' then Inr LIFETIME_BOUNDS
      else if period = ''statement_cycle'' then Inr (statementCycleBounds occurredAt statementDay)
      else if period = ''calendar_month'' then Inr (calendarMonthBounds occurredAt)
      else if period = ''quarter'' then Inr (calendarQuarterBounds occurredAt)
      else if period = ''half_year'' then Inr (calendarHalfYearBounds occurredAt)
      else if period = ''annual'' then
        (if anchor = Some ''card_anniversary'' \<and> present anchorDate
           then Inr (anniversaryYearBounds occurredAt (time_value anchorDate))
         else if anchor = Some ''fiscal_year'' then Inr (fiscalYearBounds occurredAt)
         else if anchor = Some ''statement_cycle'' then Inr (statementCycleBounds occurredAt statementDay)
         else Inr (calendarYearBounds occurredAt))
      else Inl (UnknownPeriod period))"

section \<open>Second-generation windows\<close>

definition KNOWN_ANCHORS :: "string set" where
  "KNOWN_ANCHORS = {''card_anniversary'', ''calendar_year'', ''fiscal_year'', ''statement_cycle''}"

text \<open>The grammar \<open>^\d{4}-\d{2}-\d{2}$\<close>.\<close>

definition is_date_only :: "string \<Rightarrow> bool" where
  "is_date_only s \<longleftrightarrow> length s = 10 \<and> s ! 4 = CHR ''-'' \<and> s ! 7 = CHR ''-''
     \<and> list_all is_digit (take 4 s) \<and> list_all is_digit (take 2 (drop 5 s)) \<and> list_all is_digit (drop 8 s)"

definition IST_OFFSET_MS :: int where
  "IST_OFFSET_MS = (5 * 60 + 30) * 60 * 1000"

definition istShift :: "int \<Rightarrow> int" where
  "istShift t = t + IST_OFFSET_MS"

definition istDay :: "int \<Rightarrow> string" where
  "istDay t = toDateOnly (day_of (istShift t))"

text \<open>\<open>local t\<close> is the offset of the server's time zone at instant \<open>t\<close>.\<close>

definition calendarDay :: "(int \<Rightarrow> int) \<Rightarrow> date_value \<Rightarrow> string option" where
  "calendarDay local v =
     (if \<not> present v then None
      else case v of
          DText s p \<Rightarrow> if is_date_only s then Some s
             else (case time_value v of None \<Rightarrow> None | Some t \<Rightarrow> Some (toDateOnly (day_of (t + local t))))
        | _ \<Rightarrow> (case time_value v of None \<Rightarrow> None | Some t \<Rightarrow> Some (toDateOnly (day_of (t + local t)))))"

record anchor_date =
  ad_date :: "string option"
  ad_approximate :: bool
  ad_source :: "string option"

definition createdAnchor :: "date_value \<Rightarrow> anchor_date" where
  "createdAnchor createdAt =
     (if \<not> present createdAt then \<lparr>ad_date = None, ad_approximate = True, ad_source = None\<rparr>
      else case time_value createdAt of
          None \<Rightarrow> \<lparr>ad_date = None, ad_approximate = True, ad_source = None\<rparr>
        | Some t \<Rightarrow> \<lparr>ad_date = Some (istDay t), ad_approximate = True, ad_source = Some ''created_at''\<rparr>)"

definition cardAnchorDate :: "(int \<Rightarrow> int) \<Rightarrow> date_value \<Rightarrow> date_value \<Rightarrow> date_value \<Rightarrow> anchor_date" where
  "cardAnchorDate local anniversaryOn openedOn createdAt = (case calendarDay local anniversaryOn of
      Some d \<Rightarrow> \<lparr>ad_date = Some d, ad_approximate = False, ad_source = Some ''anniversary_on''\<rparr>
    | None \<Rightarrow> (case calendarDay local openedOn of
          Some d \<Rightarrow> \<lparr>ad_date = Some d, ad_approximate = False, ad_source = Some ''opened_on''\<rparr>
        | None \<Rightarrow> createdAnchor createdAt))"

definition cardIssueAnchorDate :: "(int \<Rightarrow> int) \<Rightarrow> date_value \<Rightarrow> date_value \<Rightarrow> date_value \<Rightarrow> anchor_date" where
  "cardIssueAnchorDate local anniversaryOn openedOn createdAt = (case calendarDay local openedOn of
      Some d \<Rightarrow> \<lparr>ad_date = Some d, ad_approximate = False, ad_source = Some ''opened_on''\<rparr>
    | None \<Rightarrow> (case calendarDay local anniversaryOn of
          Some d \<Rightarrow> \<lparr>ad_date = Some d, ad_approximate = False, ad_source = Some ''anniversary_on''\<rparr>
        | None \<Rightarrow> createdAnchor createdAt))"

definition addDays :: "string \<Rightarrow> int \<Rightarrow> string" where
  "addDays dateOnly n = (case parse_day dateOnly of None \<Rightarrow> invalid_day | Some d \<Rightarrow> toDateOnly (d + n))"

definition statementDateIn :: "int \<Rightarrow> int \<Rightarrow> int \<Rightarrow> string" where
  "statementDateIn year monthIndex0 statementDay =
     (let y = year + monthIndex0 div 12; m = monthIndex0 mod 12 in
      toDateOnly (date_utc y m (min statementDay (lastDayOfMonth y m))))"

definition statementCycleBoundsV2 :: "int \<Rightarrow> int \<Rightarrow> bounds" where
  "statementCycleBoundsV2 ref statementDay =
     (let y = utc_year (day_of ref); m = utc_month (day_of ref); day = toDateOnly (day_of ref);
          thisMonth = statementDateIn y m statementDay;
          endMonth = (if str_le day thisMonth then m else m + 1);
          ende = statementDateIn y endMonth statementDay;
          previous = statementDateIn y (endMonth - 1) statementDay in
      (addDays previous 1, ende))"

record window =
  w_start :: "string option"
  w_end :: string
  w_approximate :: bool

definition window_of :: "bounds \<Rightarrow> bool \<Rightarrow> window" where
  "window_of b approx = \<lparr>w_start = Some (fst b), w_end = snd b, w_approximate = approx\<rparr>"

text \<open>
  \<open>windowBoundsV2\<close>; \<open>statement_day\<close> and \<open>window_days\<close> are integer columns. A \<open>null\<close> result is
  \<open>Inr None\<close>, a \<open>null\<close> start (an anchor that is no date; comparisons with it are false) is \<open>None\<close>.
\<close>

definition windowBoundsV2 ::
  "(int \<Rightarrow> int) \<Rightarrow> string \<Rightarrow> int \<Rightarrow> string option \<Rightarrow> date_value \<Rightarrow> bool \<Rightarrow> int option \<Rightarrow> int option
     \<Rightarrow> cycle_error + window option" where
  "windowBoundsV2 local period occurredAt anchor0 anchorDate anchorApproximate statementDay0 windowDays =
     (let anchor = (case anchor0 of Some a \<Rightarrow> if a \<in> KNOWN_ANCHORS then Some a else None | None \<Rightarrow> None);
          statementDay = (case statementDay0 of Some n \<Rightarrow> if 1 \<le> n then Some (min n 31) else None | None \<Rightarrow> None);
          ref = istShift occurredAt in
      case windowDays of
        Some days \<Rightarrow>
          (if \<not> 0 < days \<or> \<not> present anchorDate then Inr None
           else let start = calendarDay local anchorDate;
                    ende = (case start of Some s \<Rightarrow> addDays s (days - 1) | None \<Rightarrow> invalid_day);
                    day = toDateOnly (day_of ref) in
                if (case start of Some s \<Rightarrow> str_less day s | None \<Rightarrow> False) \<or> str_less ende day then Inr None
                else Inr (Some \<lparr>w_start = start, w_end = ende, w_approximate = anchorApproximate\<rparr>))
      | None \<Rightarrow>
          if period = ''annual'' \<and> anchor = Some ''card_anniversary'' then
            (if \<not> present anchorDate then Inr (Some (window_of (calendarYearBounds ref) True))
             else Inr (Some (window_of (anniversaryYearBounds ref
                (case calendarDay local anchorDate of
                   Some s \<Rightarrow> map_option (\<lambda>d. ms_per_day * d) (parse_day s) | None \<Rightarrow> Some 0)) anchorApproximate)))
          else if period = ''statement_cycle'' \<or> (period = ''annual'' \<and> anchor = Some ''statement_cycle'') then
            (case statementDay of
               None \<Rightarrow> Inr (Some (window_of (calendarMonthBounds ref) True))
             | Some sd \<Rightarrow> Inr (Some (window_of (statementCycleBoundsV2 ref sd) False)))
          else (case periodBounds period ref None anchor DNull of
               Inl e \<Rightarrow> Inl e | Inr b \<Rightarrow> Inr (Some (window_of b False))))"

section \<open>Reward units\<close>

definition effectiveRatePerRupee :: "string \<Rightarrow> jsnum \<Rightarrow> jsnum \<Rightarrow> jsnum" where
  "effectiveRatePerRupee unit rate pointValueInr =
     (if unit = ''cashback_percent'' \<or> unit = ''discount_percent'' then rate / Fin 100
      else if unit = ''points_per_100'' then (rate * pointValueInr) / Fin 100
      else if unit = ''points_per_150'' then (rate * pointValueInr) / Fin 150
      else if unit = ''points_per_200'' then (rate * pointValueInr) / Fin 200
      else if unit = ''miles_per_100'' then (rate * pointValueInr) / Fin 100
      else Fin 0)"

definition effectivePointsPerRupee :: "string \<Rightarrow> jsnum \<Rightarrow> jsnum" where
  "effectivePointsPerRupee unit rate =
     (if unit = ''cashback_percent'' \<or> unit = ''discount_percent'' then rate / Fin 100
      else if unit = ''points_per_100'' \<or> unit = ''miles_per_100'' then rate / Fin 100
      else if unit = ''points_per_150'' then rate / Fin 150
      else if unit = ''points_per_200'' then rate / Fin 200
      else Fin 0)"


section \<open>Months on one axis\<close>

text \<open>Month \<open>k\<close> counts from year 0; \<open>first_day k\<close> is its first day.\<close>

definition month_index :: "int \<Rightarrow> int" where
  "month_index d = 12 * utc_year d + utc_month d"

definition first_day :: "int \<Rightarrow> int" where
  "first_day k = make_day 0 k 1"

definition month_len :: "int \<Rightarrow> int" where
  "month_len k = days_in_month (k div 12) (k mod 12)"

lemma month_len_bounds: "28 \<le> month_len k" "month_len k \<le> 31"
  using days_in_month_bounds[of "k mod 12" "k div 12"] by (simp_all add: month_len_def)

lemma first_day_Suc: "first_day (k + 1) = first_day k + month_len k"
  using make_day_next_month[of 0 k] by (simp add: first_day_def month_len_def)

lemma first_day_mono: "j \<le> k \<Longrightarrow> first_day j \<le> first_day k"
proof -
  assume "j \<le> k"
  then obtain n where k: "k = j + int n" using zle_iff_zadd by blast
  have "first_day j \<le> first_day (j + int n)" for n
  proof (induction n)
    case 0
    then show ?case by simp
  next
    case (Suc n)
    then show ?case using first_day_Suc[of "j + int n"] month_len_bounds[of "j + int n"]
      by (simp add: algebra_simps)
  qed
  then show ?thesis by (simp add: k)
qed

lemma make_day_linear: "make_day y m t = first_day (12 * y + m) + t - 1"
proof -
  have "make_day y m t = make_day (y + m div 12) (m mod 12) t" by (rule make_day_norm)
  also have "\<dots> = make_day 0 (12 * y + m) t"
    using make_day_norm[of 0 "12 * y + m" t] by (simp add: add.commute)
  finally show ?thesis using make_day_date[of 0 "12 * y + m" t] by (simp add: first_day_def)
qed

lemma day_in_month: "d = first_day (month_index d) + utc_date d - 1"
  using make_day_utc[of d] make_day_linear[of "utc_year d" "utc_month d" "utc_date d"]
  by (simp add: month_index_def)

lemma month_index_bounds: "first_day (month_index d) \<le> d" "d < first_day (month_index d + 1)"
proof -
  have k: "month_index d div 12 = utc_year d" "month_index d mod 12 = utc_month d"
    using utc_month_range[of d] by (simp_all add: month_index_def)
  show "first_day (month_index d) \<le> d" using day_in_month[of d] utc_date_range(1)[of d] by linarith
  show "d < first_day (month_index d + 1)"
    using day_in_month[of d] utc_date_range(2)[of d] first_day_Suc[of "month_index d"]
    by (simp add: month_len_def k)
qed

lemma month_index_unique:
  assumes "first_day k \<le> d" and "d < first_day (k + 1)"
  shows "month_index d = k"
proof (rule ccontr)
  assume "month_index d \<noteq> k"
  then consider "month_index d + 1 \<le> k" | "k + 1 \<le> month_index d" by linarith
  then show False
    using assms month_index_bounds[of d] first_day_mono[of "month_index d + 1" k] first_day_mono[of "k + 1" "month_index d"]
    by cases auto
qed

lemma year_of_month_index: "utc_year d = month_index d div 12" "utc_month d = month_index d mod 12"
  using utc_month_range[of d] by (simp_all add: month_index_def)

lemma lastDayOfMonth_eq:
  assumes "100 \<le> y" and "0 \<le> m" and "m \<le> 11"
  shows "lastDayOfMonth y m = month_len (12 * y + m)"
proof -
  let ?k = "12 * y + m"
  have d: "date_utc y (m + 1) 0 = first_day ?k + month_len ?k - 1"
  proof -
    have "12 * y + (m + 1) = ?k + 1" by simp
    then have "date_utc y (m + 1) 0 = first_day (?k + 1) + 0 - 1"
      using date_utc_eq[OF assms(1)] make_day_linear by metis
    then show ?thesis by (simp add: first_day_Suc)
  qed
  have "month_index (date_utc y (m + 1) 0) = ?k"
    by (rule month_index_unique) (use d first_day_Suc[of ?k] month_len_bounds[of ?k] in auto)
  then show ?thesis using day_in_month[of "date_utc y (m + 1) 0"] d by (simp add: lastDayOfMonth_def)
qed

section \<open>Statement cycles of the second generation\<close>

text \<open>The statement day of month \<open>k\<close>: the chosen day clamped to the month.\<close>

definition statement_date :: "int \<Rightarrow> int \<Rightarrow> int" where
  "statement_date sd k = first_day k + min sd (month_len k) - 1"

lemma statement_date_in_month:
  assumes "1 \<le> sd"
  shows "first_day k \<le> statement_date sd k" "statement_date sd k < first_day (k + 1)"
  using assms first_day_Suc[of k] month_len_bounds[of k] by (auto simp: statement_date_def)

lemma month_index_statement_date: "1 \<le> sd \<Longrightarrow> month_index (statement_date sd k) = k"
  by (rule month_index_unique) (rule statement_date_in_month, assumption)+

lemma statementDateIn_eq:
  assumes "100 \<le> (12 * y + m) div 12"
  shows "statementDateIn y m sd = toDateOnly (statement_date sd (12 * y + m))"
proof -
  let ?y = "y + m div 12" and ?m = "m mod 12"
  have y: "100 \<le> ?y" using assms by simp
  have k: "12 * ?y + ?m = 12 * y + m" using mult_div_mod_eq[of 12 m] by (simp add: algebra_simps)
  have "lastDayOfMonth ?y ?m = month_len (12 * ?y + ?m)" by (rule lastDayOfMonth_eq[OF y]) simp_all
  then have "lastDayOfMonth ?y ?m = month_len (12 * y + m)" unfolding k .
  then show ?thesis
    using make_day_linear[of ?y ?m, unfolded k] by (simp add: statementDateIn_def Let_def date_utc_eq[OF y] statement_date_def)
qed

text \<open>The month whose statement date closes the cycle of day \<open>d\<close>.\<close>

definition closing_month :: "int \<Rightarrow> int \<Rightarrow> int" where
  "closing_month sd d = (if d \<le> statement_date sd (month_index d) then month_index d else month_index d + 1)"

lemma closing_month_iff:
  assumes sd: "1 \<le> sd"
  shows "closing_month sd d = k \<longleftrightarrow> statement_date sd (k - 1) < d \<and> d \<le> statement_date sd k"
proof -
  note b = month_index_bounds[of d]
  have le: "statement_date sd i < statement_date sd j" if "i < j" for i j
  proof -
    have "first_day (i + 1) \<le> first_day j" using that by (intro first_day_mono) simp
    then show ?thesis using statement_date_in_month[OF sd, of i] statement_date_in_month[OF sd, of j] by linarith
  qed
  have sound: "statement_date sd (closing_month sd d - 1) < d \<and> d \<le> statement_date sd (closing_month sd d)"
  proof (cases "d \<le> statement_date sd (month_index d)")
    case True
    have "statement_date sd (month_index d - 1) < first_day (month_index d)"
      using statement_date_in_month(2)[OF sd, of "month_index d - 1"] by simp
    then show ?thesis using True b by (simp add: closing_month_def)
  next
    case False
    then show ?thesis
      using b statement_date_in_month(1)[OF sd, of "month_index d + 1"] by (simp add: closing_month_def)
  qed
  have "closing_month sd d = k" if "statement_date sd (k - 1) < d" "d \<le> statement_date sd k"
  proof (rule ccontr)
    let ?c = "closing_month sd d"
    assume "?c \<noteq> k"
    then consider "?c \<le> k - 1" | "k \<le> ?c - 1" by linarith
    then show False
    proof cases
      case 1
      then have "statement_date sd ?c \<le> statement_date sd (k - 1)" using le[of ?c "k - 1"] by (cases "?c = k - 1") auto
      then show False using sound that by linarith
    next
      case 2
      then have "statement_date sd k \<le> statement_date sd (?c - 1)" using le[of k "?c - 1"] by (cases "k = ?c - 1") auto
      then show False using sound that by linarith
    qed
  qed
  then show ?thesis using sound by auto
qed

definition inner_year :: "int \<Rightarrow> bool" where
  "inner_year d \<longleftrightarrow> 1001 \<le> utc_year d \<and> utc_year d \<le> 9998"

lemma printable_near:
  assumes "inner_year d" and "month_index d - 1 \<le> month_index e" and "month_index e \<le> month_index d + 2"
  shows "printable e"
  using assms year_of_month_index[of d] year_of_month_index[of e] by (auto simp: printable_def inner_year_def)

lemma statementCycleBoundsV2_eq:
  assumes sd: "1 \<le> sd" and d: "inner_year (day_of ref)"
  defines "k \<equiv> closing_month sd (day_of ref)"
  shows "statementCycleBoundsV2 ref sd
      = (toDateOnly (statement_date sd (k - 1) + 1), toDateOnly (statement_date sd k))"
proof -
  let ?d = "day_of ref" and ?s = "statement_date sd"
  let ?m = "month_index (day_of ref)"
  have m: "12 * utc_year ?d + (utc_month ?d + j) = ?m + j" for j by (simp add: month_index_def)
  have m0: "12 * utc_year ?d + utc_month ?d = ?m" by (simp add: month_index_def)
  have big: "100 \<le> (?m + j) div 12" if "-1 \<le> j" for j
  proof -
    have "1001 \<le> ?m div 12" using d year_of_month_index[of ?d] by (simp add: inner_year_def)
    then have "12 * 1001 \<le> ?m" by linarith
    then have "12 * 100 \<le> ?m + j" using that by linarith
    then show ?thesis by linarith
  qed
  have st: "statementDateIn (utc_year ?d) (utc_month ?d + j) sd = toDateOnly (?s (?m + j))" if "-1 \<le> j" for j
    using statementDateIn_eq[of "utc_year ?d" "utc_month ?d + j" sd] big[OF that] by (simp add: m)
  have st0: "statementDateIn (utc_year ?d) (utc_month ?d) sd = toDateOnly (?s ?m)" using st[of 0] by simp
  have pr: "printable ?d" using d by (simp add: printable_def inner_year_def)
  have prs: "printable (?s (?m + j))" if "-1 \<le> j" "j \<le> 2" for j
    by (rule printable_near[OF d]) (use that month_index_statement_date[OF sd] in auto)
  have le: "str_le (toDateOnly ?d) (toDateOnly (?s ?m)) \<longleftrightarrow> ?d \<le> ?s ?m"
    using str_le_toDateOnly[OF pr] prs[of 0] by simp
  have add: "addDays (toDateOnly e) 1 = toDateOnly (e + 1)" if "printable e" for e
    using parse_day_toDateOnly[OF that] by (simp add: addDays_def)
  show ?thesis
  proof (cases "?d \<le> ?s ?m")
    case True
    then show ?thesis
      using st[of "-1"] st0 add[OF prs[of "-1"]] le
      by (simp add: statementCycleBoundsV2_def Let_def k_def closing_month_def)
  next
    case False
    then show ?thesis
      using st[of 1] st0 add[OF prs[of 0]] le
      by (simp add: statementCycleBoundsV2_def Let_def k_def closing_month_def)
  qed
qed

text \<open>
  C21: Statement cycles of second-generation cards tile the calendar: for every statement day from
  1 to 31 the cycle of a day contains that day, every day of the cycle has the same cycle, and the
  day after its end starts the next one, so there is no gap and no overlap.
\<close>

theorem statement_cycles_tile:
  assumes "1 \<le> sd" and "inner_year (day_of ref)"
  shows "\<exists>s e. statementCycleBoundsV2 ref sd = (toDateOnly s, toDateOnly e)
     \<and> s \<le> day_of ref \<and> day_of ref \<le> e
     \<and> (\<forall>ref'. s \<le> day_of ref' \<longrightarrow> day_of ref' \<le> e \<longrightarrow> inner_year (day_of ref') \<longrightarrow>
           statementCycleBoundsV2 ref' sd = statementCycleBoundsV2 ref sd)
     \<and> (\<forall>ref'. day_of ref' = e + 1 \<longrightarrow> inner_year (day_of ref') \<longrightarrow>
           fst (statementCycleBoundsV2 ref' sd) = toDateOnly (e + 1))"
proof -
  let ?k = "closing_month sd (day_of ref)"
  let ?s = "statement_date sd (?k - 1) + 1" and ?e = "statement_date sd ?k"
  have in_cycle: "?s \<le> day_of ref \<and> day_of ref \<le> ?e"
    using closing_month_iff[OF assms(1), of "day_of ref" ?k] by simp
  have same: "statementCycleBoundsV2 ref' sd = statementCycleBoundsV2 ref sd"
    if "?s \<le> day_of ref'" "day_of ref' \<le> ?e" "inner_year (day_of ref')" for ref'
  proof -
    have "closing_month sd (day_of ref') = ?k" using closing_month_iff[OF assms(1)] that by simp
    then show ?thesis using statementCycleBoundsV2_eq[OF assms(1)] assms(2) that(3) by simp
  qed
  have "fst (statementCycleBoundsV2 ref' sd) = toDateOnly (?e + 1)"
    if "day_of ref' = ?e + 1" "inner_year (day_of ref')" for ref'
  proof -
    have "statement_date sd ?k < ?e + 1" "?e + 1 \<le> statement_date sd (?k + 1)"
      using statement_date_in_month[OF assms(1), of ?k] statement_date_in_month[OF assms(1), of "?k + 1"] by auto
    then have "closing_month sd (?e + 1) = ?k + 1" using closing_month_iff[OF assms(1)] by simp
    then show ?thesis using statementCycleBoundsV2_eq[OF assms(1)] that by simp
  qed
  then show ?thesis
    using in_cycle same statementCycleBoundsV2_eq[OF assms] by (intro exI[of _ ?s] exI[of _ ?e]) auto
qed

lemma statement_cycles_tile_witness:
  "day_of 1772236800000 = 20512 \<and> statementCycleBoundsV2 1772236800000 31 = (''2026-02-01'', ''2026-02-28'')
   \<and> (\<exists>s e. (toDateOnly s, toDateOnly e) = (''2026-02-01'', ''2026-02-28'') \<and> s \<le> 20512 \<and> 20512 \<le> e)"
proof -
  have d: "day_of 1772236800000 = 20512" by code_simp
  have y: "inner_year (day_of 1772236800000)" by code_simp
  have b: "statementCycleBoundsV2 1772236800000 31 = (''2026-02-01'', ''2026-02-28'')" by code_simp
  have one: "1 \<le> (31 :: int)" by simp
  obtain s e where "statementCycleBoundsV2 1772236800000 31 = (toDateOnly s, toDateOnly e)"
     "s \<le> day_of 1772236800000" "day_of 1772236800000 \<le> e"
    using statement_cycles_tile[OF one y] by (elim exE conjE) (rule that)
  then show ?thesis unfolding d b by (intro conjI exI) (rule refl | assumption | rule sym)+
qed

text \<open>
  First-generation statement cycles have gaps: with statement day 31 the cycle computed for 28
  February 2026 ends on 27 February, so it does not contain the day it was computed for. With
  statement day 1 a cycle ends on the day the next one starts.
\<close>

theorem v1_statement_cycle_gap:
  "statementCycleBounds 1772236800000 (Some 31) = (''2026-01-31'', ''2026-02-27'')
   \<and> toDateOnly (day_of 1772236800000) = ''2026-02-28''
   \<and> statementCycleBounds 1772236800000 (Some 1) = (''2026-02-01'', ''2026-03-01'')
   \<and> statementCycleBounds 1772323200000 (Some 1) = (''2026-03-01'', ''2026-04-01'')"
proof -
  have day: "utc_year (day_of 1772236800000) = 2026" "utc_month (day_of 1772236800000) = 1" "utc_date (day_of 1772236800000) = 28"
    "utc_year (day_of 1772323200000) = 2026" "utc_month (day_of 1772323200000) = 2" "utc_date (day_of 1772323200000) = 1"
    by code_simp+
  have last: "lastDayOfMonth 2026 0 = 31" "lastDayOfMonth 2026 1 = 28" "lastDayOfMonth 2026 2 = 31" "lastDayOfMonth 2026 3 = 30"
    by code_simp+
  have printed: "toDateOnly (date_utc 2026 0 31) = ''2026-01-31''" "toDateOnly (date_utc 2026 1 27) = ''2026-02-27''"
    "toDateOnly (date_utc 2026 1 1) = ''2026-02-01''" "toDateOnly (date_utc 2026 2 1) = ''2026-03-01''"
    "toDateOnly (date_utc 2026 3 1) = ''2026-04-01''" "toDateOnly (day_of 1772236800000) = ''2026-02-28''"
    by code_simp+
  have "statementCycleBounds 1772236800000 (Some 31) = (''2026-01-31'', ''2026-02-27'')"
    by (simp only: statementCycleBounds_def option.simps if_False Let_def option.sel day)
      (simp add: last, simp only: printed)
  moreover have "statementCycleBounds 1772236800000 (Some 1) = (''2026-02-01'', ''2026-03-01'')"
    by (simp only: statementCycleBounds_def option.simps if_False Let_def option.sel day)
      (simp add: last, simp only: printed)
  moreover have "statementCycleBounds 1772323200000 (Some 1) = (''2026-03-01'', ''2026-04-01'')"
    by (simp only: statementCycleBounds_def option.simps if_False Let_def option.sel day)
      (simp add: last, simp only: printed)
  ultimately show ?thesis using printed(6) by blast
qed

section \<open>Second-generation windows contain the transaction\<close>

text \<open>
  A window whose days are known: it contains day \<open>d\<close> and stays within the neighbouring years, so
  that on inner years its printed days have four-digit years.
\<close>

definition covers :: "bounds \<Rightarrow> int \<Rightarrow> bool" where
  "covers b d \<longleftrightarrow> (\<exists>s e. b = (toDateOnly s, toDateOnly e) \<and> s \<le> d \<and> d \<le> e
     \<and> first_day (12 * (utc_year d - 1)) \<le> s \<and> e < first_day (12 * (utc_year d + 2)))"

lemma coversI:
  "b = (toDateOnly s, toDateOnly e) \<Longrightarrow> s \<le> d \<Longrightarrow> d \<le> e \<Longrightarrow> first_day (12 * (utc_year d - 1)) \<le> s
     \<Longrightarrow> e < first_day (12 * (utc_year d + 2)) \<Longrightarrow> covers b d"
  by (auto simp: covers_def)

text \<open>All calendar windows are runs of whole months.\<close>

lemma covers_months:
  assumes "b = (toDateOnly (first_day i), toDateOnly (first_day (j + 1) - 1))"
    and "i \<le> month_index d" and "month_index d \<le> j"
    and "12 * (utc_year d - 1) \<le> i" and "j + 1 \<le> 12 * (utc_year d + 2)"
  shows "covers b d"
  using month_index_bounds[of d] first_day_mono[OF assms(2)] first_day_mono[of "month_index d + 1" "j + 1"]
    first_day_mono[OF assms(4)] first_day_mono[OF assms(5)] assms(3)
  by (intro coversI[OF assms(1)]) auto

lemma inner_year_100: "inner_year d \<Longrightarrow> 100 \<le> utc_year d" "inner_year d \<Longrightarrow> 100 \<le> utc_year d - 1"
  by (simp_all add: inner_year_def)

lemma month_end:
  assumes "100 \<le> y" and "0 \<le> m" and "m \<le> 11"
  shows "date_utc y m (lastDayOfMonth y m) = first_day (12 * y + m + 1) - 1"
  using lastDayOfMonth_eq[OF assms] first_day_Suc[of "12 * y + m"]
  by (simp add: date_utc_eq[OF assms(1)] make_day_linear)

lemma month_begin: "100 \<le> y \<Longrightarrow> date_utc y m 1 = first_day (12 * y + m)"
  by (simp add: date_utc_eq make_day_linear)

lemma december_31: "100 \<le> y \<Longrightarrow> date_utc y 11 31 = first_day (12 * y + 12) - 1"
proof -
  assume y: "100 \<le> y"
  have "month_len (12 * y + 11) = 31"
    by (simp add: month_len_def days_in_month_def month_start_def)
  then have "first_day (12 * y + 12) = first_day (12 * y + 11) + 31"
    using first_day_Suc[of "12 * y + 11"] by (simp only: add.assoc) simp
  then show ?thesis by (simp add: date_utc_eq[OF y] make_day_linear)
qed

lemma march_31: "100 \<le> y \<Longrightarrow> date_utc y 2 31 = first_day (12 * y + 3) - 1"
proof -
  assume y: "100 \<le> y"
  have "month_len (12 * y + 2) = 31"
    by (simp add: month_len_def days_in_month_def month_start_def)
  then have "first_day (12 * y + 3) = first_day (12 * y + 2) + 31"
    using first_day_Suc[of "12 * y + 2"] by (simp only: add.assoc) simp
  then show ?thesis by (simp add: date_utc_eq[OF y] make_day_linear)
qed

lemma calendar_covers:
  assumes "inner_year (day_of ref)"
  shows "covers (calendarMonthBounds ref) (day_of ref)"
    and "covers (calendarQuarterBounds ref) (day_of ref)"
    and "covers (calendarHalfYearBounds ref) (day_of ref)"
    and "covers (calendarYearBounds ref) (day_of ref)"
    and "covers (fiscalYearBounds ref) (day_of ref)"
proof -
  let ?d = "day_of ref"
  let ?y = "utc_year ?d" and ?m = "utc_month ?d"
  note y = inner_year_100[OF assms]
  note r = utc_month_range[of ?d]
  have k: "month_index ?d = 12 * ?y + ?m" by (simp add: month_index_def)
  show "covers (calendarMonthBounds ref) ?d"
    by (rule covers_months[of _ "12 * ?y + ?m" "12 * ?y + ?m"])
      (use month_begin[OF y(1)] month_end[OF y(1) r] k r in \<open>simp_all add: calendarMonthBounds_def Let_def\<close>)
  define q where "q = ?m div 3 * 3"
  have q: "0 \<le> q" "q \<le> ?m" "?m \<le> q + 2" "q + 2 \<le> 11" unfolding q_def using r by presburger+
  show "covers (calendarQuarterBounds ref) ?d"
    by (rule covers_months[of _ "12 * ?y + q" "12 * ?y + (q + 2)"])
      (use month_begin[OF y(1), of q] month_end[OF y(1), of "q + 2"] k q r in
        \<open>simp_all add: calendarQuarterBounds_def Let_def q_def[symmetric]\<close>)
  define h where "h = (if ?m < 6 then 0 else (6 :: int))"
  have h: "0 \<le> h" "h \<le> ?m" "?m \<le> h + 5" "h + 5 \<le> 11" unfolding h_def using r by auto
  show "covers (calendarHalfYearBounds ref) ?d"
    by (rule covers_months[of _ "12 * ?y + h" "12 * ?y + (h + 5)"])
      (use month_begin[OF y(1), of h] month_end[OF y(1), of "h + 5"] k h r in
        \<open>simp_all only: calendarHalfYearBounds_def Let_def h_def[symmetric], simp_all\<close>)
  show "covers (calendarYearBounds ref) ?d"
    by (rule covers_months[of _ "12 * ?y" "12 * ?y + 11"])
      (use month_begin[OF y(1), of 0] december_31[OF y(1)] k r in \<open>simp_all add: calendarYearBounds_def Let_def add.commute\<close>)
  define s where "s = (if 3 \<le> ?m then ?y else ?y - 1)"
  have s: "100 \<le> s" "100 \<le> s + 1" "12 * s + 3 \<le> 12 * ?y + ?m" "12 * ?y + ?m \<le> 12 * s + 14" "?y - 1 \<le> s" "s \<le> ?y"
    unfolding s_def using y r by auto
  have e: "date_utc (s + 1) 2 31 = first_day (12 * s + 14 + 1) - 1"
    using march_31[OF s(2)] by (simp add: algebra_simps)
  have f: "fiscalYearBounds ref = (toDateOnly (first_day (12 * s + 3)), toDateOnly (first_day (12 * s + 14 + 1) - 1))"
    by (simp only: fiscalYearBounds_def Let_def s_def[symmetric] e month_begin[OF s(1)])
  show "covers (fiscalYearBounds ref) ?d"
    by (rule covers_months[OF f]) (use k s in auto)
qed


lemma day_bounds: "ms_per_day * day_of t \<le> t" "t < ms_per_day * (day_of t + 1)"
  using div_bounds[of ms_per_day t] by (simp_all add: day_of_def ms_per_day_def)

lemma before_day: "t < ms_per_day * d \<longleftrightarrow> day_of t < d"
proof
  assume "t < ms_per_day * d"
  then show "day_of t < d" unfolding day_of_def by (rule div_less_of_less_mult[rotated]) (simp add: ms_per_day_def)
next
  assume "day_of t < d"
  then have "ms_per_day * (day_of t + 1) \<le> ms_per_day * d" by (simp add: ms_per_day_def)
  then show "t < ms_per_day * d" using day_bounds(2)[of t] by linarith
qed

lemma anchor_day_fits: "utc_date a - 1 \<le> month_len (12 * y + utc_month a)"
proof -
  have "(12 * y + utc_month a) div 12 = y" "(12 * y + utc_month a) mod 12 = utc_month a"
    using utc_month_range[of a] by simp_all
  moreover have "days_in_month (utc_year a) (utc_month a) \<le> days_in_month y (utc_month a) + 1"
    by (cases rule: month_cases[OF utc_month_range[of a]])
      (use leapd_01[of y] leapd_01[of "utc_year a"] in \<open>auto simp: days_in_month_def month_start_def\<close>)
  ultimately show ?thesis using utc_date_range(2)[of a] by (simp add: month_len_def)
qed

lemma anniversary_covers:
  assumes "inner_year (day_of ref)"
  shows "covers (anniversaryYearBounds ref (Some a)) (day_of ref)"
proof -
  let ?d = "day_of ref" and ?m = "utc_month (day_of a)" and ?t = "utc_date (day_of a)"
  let ?y = "utc_year (day_of ref)"
  define A where "A y = first_day (12 * y + ?m) + ?t - 1" for y
  have A: "date_utc y ?m ?t = A y" "date_utc y ?m (?t - 1) = A y - 1" if "100 \<le> y" for y
    using that by (simp_all add: date_utc_eq make_day_linear A_def)
  note y = inner_year_100[OF assms] and r = utc_month_range[of "day_of a"] and t = utc_date_range(1)[of "day_of a"]
  have years: "first_day (12 * (?y - 1)) \<le> A (?y - 1)" "A (?y - 1) \<le> A ?y" "A ?y \<le> A (?y + 1)"
    "A (?y + 1) - 1 < first_day (12 * (?y + 2))"
  proof -
    have step: "A y \<le> A (y + 1)" for y
      using first_day_mono[of "12 * y + ?m" "12 * (y + 1) + ?m"] by (simp add: A_def)
    from step[of "?y - 1"] step[of ?y] show "A (?y - 1) \<le> A ?y" "A ?y \<le> A (?y + 1)" by simp_all
    show "first_day (12 * (?y - 1)) \<le> A (?y - 1)"
      using first_day_mono[of "12 * (?y - 1)" "12 * (?y - 1) + ?m"] r t by (simp add: A_def)
    have "A (?y + 1) \<le> first_day (12 * (?y + 1) + ?m + 1)"
      using anchor_day_fits[of "day_of a" "?y + 1"] first_day_Suc[of "12 * (?y + 1) + ?m"] unfolding A_def by linarith
    also have "\<dots> \<le> first_day (12 * (?y + 2))" using r by (intro first_day_mono) simp
    finally show "A (?y + 1) - 1 < first_day (12 * (?y + 2))" by simp
  qed
  have lo: "A (?y - 1) \<le> ?d"
  proof -
    have "A (?y - 1) \<le> first_day (12 * (?y - 1) + ?m + 1)"
      using anchor_day_fits[of "day_of a" "?y - 1"] first_day_Suc[of "12 * (?y - 1) + ?m"] unfolding A_def by linarith
    also have "\<dots> \<le> first_day (12 * ?y)" using r by (intro first_day_mono) simp
    also have "\<dots> \<le> first_day (month_index ?d)"
      using utc_month_range[of ?d] by (intro first_day_mono) (simp add: month_index_def)
    also have "\<dots> \<le> ?d" by (rule month_index_bounds)
    finally show ?thesis .
  qed
  have hi: "?d \<le> A (?y + 1) - 1"
  proof -
    have "?d < first_day (month_index ?d + 1)" by (rule month_index_bounds)
    also have "\<dots> \<le> first_day (12 * (?y + 1) + ?m)"
      using r utc_month_range[of ?d] by (intro first_day_mono) (simp add: month_index_def)
    finally show ?thesis using t by (simp add: A_def)
  qed
  show ?thesis
  proof (cases "ref < ms_per_day * date_utc ?y ?m ?t")
    case True
    then have "?d \<le> A ?y - 1" using A(1)[OF y(1)] before_day[of ref "A ?y"] by simp
    then show ?thesis using True lo years A(1)[OF y(2)] A(2)[OF y(1)]
      by (intro coversI[of _ "A (?y - 1)" "A ?y - 1"]) (simp_all add: anniversaryYearBounds_def Let_def)
  next
    case False
    then have "A ?y \<le> ?d" using A(1)[OF y(1)] before_day[of ref "A ?y"] by simp
    then show ?thesis using False hi years A(1)[OF y(1)] A(2)[of "?y + 1"] y
      by (intro coversI[of _ "A ?y" "A (?y + 1) - 1"]) (simp_all add: anniversaryYearBounds_def Let_def)
  qed
qed

text \<open>Covered days of inner years compare as printed.\<close>

definition contains_day :: "window \<Rightarrow> string \<Rightarrow> bool" where
  "contains_day w day \<longleftrightarrow> (\<exists>s. w_start w = Some s \<and> str_le s day \<and> str_le day (w_end w))"

lemma first_day_year: "utc_year (first_day (12 * y)) = y"
  using utc_make_day(1)[of 0 1 y] days_in_month_bounds[of 0 y] make_day_linear[of y 0 1] by simp

lemma covers_contains:
  assumes "covers b d" and "inner_year d"
  shows "contains_day (window_of b ap) (toDateOnly d)"
proof -
  from assms(1) obtain s e where b: "b = (toDateOnly s, toDateOnly e)" and se: "s \<le> d" "d \<le> e"
    and near: "first_day (12 * (utc_year d - 1)) \<le> s" "e < first_day (12 * (utc_year d + 2))"
    by (auto simp: covers_def)
  have "utc_year d - 1 \<le> utc_year s" using utc_year_mono[OF near(1)] by (simp only: first_day_year)
  moreover have "utc_year e \<le> utc_year d + 1"
  proof (rule ccontr)
    assume "\<not> ?thesis"
    then have "first_day (12 * (utc_year d + 2)) \<le> first_day (month_index e)"
      using utc_month_range[of e] by (intro first_day_mono) (simp add: month_index_def)
    then show False using near(2) month_index_bounds(1)[of e] by simp
  qed
  moreover note utc_year_mono[OF se(1)] utc_year_mono[OF se(2)]
  ultimately have "printable s" "printable e" "printable d"
    using assms(2) by (simp_all add: printable_def inner_year_def)
  then show ?thesis
    using b se by (simp add: contains_day_def window_of_def str_le_toDateOnly)
qed

lemma statement_covers:
  assumes sd: "1 \<le> sd" and "inner_year (day_of ref)"
  shows "covers (statementCycleBoundsV2 ref sd) (day_of ref)"
proof -
  let ?d = "day_of ref" and ?k = "closing_month sd (day_of ref)"
  have k: "month_index ?d \<le> ?k" "?k \<le> month_index ?d + 1" by (simp_all add: closing_month_def)
  have m: "12 * utc_year ?d \<le> month_index ?d" "month_index ?d \<le> 12 * utc_year ?d + 11"
    using utc_month_range[of ?d] by (simp_all add: month_index_def)
  have c: "statement_date sd (?k - 1) < ?d" "?d \<le> statement_date sd ?k"
    using closing_month_iff[OF sd, of ?d ?k] by simp_all
  have "first_day (12 * (utc_year ?d - 1)) \<le> first_day (?k - 1)" using k m by (intro first_day_mono) simp
  moreover have "first_day (?k + 1) \<le> first_day (12 * (utc_year ?d + 2))" using k m by (intro first_day_mono) simp
  ultimately show ?thesis
    using c statement_date_in_month[OF sd, of "?k - 1"] statement_date_in_month[OF sd, of ?k]
    by (intro coversI[OF statementCycleBoundsV2_eq[OF assms]]) auto
qed

lemma str_le_not_less: "str_le a b \<longleftrightarrow> \<not> str_less b a"
  by (simp add: str_le_def)

lemma periodBounds_contains:
  assumes p: "periodBounds period ref None anchor DNull = Inr b" and d: "inner_year (day_of ref)" and t: "0 \<le> ref"
    and s: "period \<noteq> ''statement_cycle''" "anchor \<noteq> Some ''statement_cycle''"
  shows "contains_day (window_of b False) (toDateOnly (day_of ref))"
proof (cases "period = ''lifetime''")
  case True
  have pr: "printable (day_of ref)" "printable 0" "printable (make_day 9999 11 31)"
    using d by (simp add: printable_def inner_year_def) code_simp+
  have "0 \<le> day_of ref" using t by (simp add: day_of_def ms_per_day_def pos_imp_zdiv_nonneg_iff)
  then have "str_le (toDateOnly 0) (toDateOnly (day_of ref))" using pr by (simp add: str_le_toDateOnly)
  moreover have "day_of ref \<le> make_day 9999 11 31"
  proof -
    have "utc_year (make_day 9999 11 31) = 9999" by code_simp
    then show ?thesis using utc_year_mono[of "make_day 9999 11 31" "day_of ref"] d by (force simp: inner_year_def)
  qed
  then have "str_le (toDateOnly (day_of ref)) (toDateOnly (make_day 9999 11 31))"
    using pr by (simp add: str_le_toDateOnly)
  moreover have "toDateOnly 0 = ''1970-01-01''" "toDateOnly (make_day 9999 11 31) = ''9999-12-31''" by code_simp+
  moreover have "b = LIFETIME_BOUNDS" using p True by (simp add: periodBounds_def)
  ultimately show ?thesis by (simp add: contains_day_def window_of_def LIFETIME_BOUNDS_def)
next
  case False
  then have "covers b (day_of ref)"
    using p s calendar_covers[OF d] by (auto simp: periodBounds_def split: if_splits)
  then show ?thesis using d by (rule covers_contains)
qed

text \<open>
  A second-generation window always contains the India calendar day of the transaction it was
  computed for, for every period, anchor, statement day and welcome window, as the printed days the
  tables compare. (Instants from 1970 to 9998; a card whose anchor value is no date is excluded.)
\<close>

theorem windowBoundsV2_contains:
  assumes w: "windowBoundsV2 local period t anchor anchorDate approx sd wd = Inr (Some w)"
    and t: "0 \<le> t" and d: "inner_year (day_of (istShift t))"
    and a: "present anchorDate \<Longrightarrow> \<exists>s k. calendarDay local anchorDate = Some s \<and> parse_day s = Some k"
  shows "contains_day w (istDay t)"
proof (cases wd)
  case (Some days)
  then obtain s where s: "calendarDay local anchorDate = Some s"
    using w a by (auto simp: windowBoundsV2_def Let_def split: if_splits)
  then show ?thesis
    using w Some by (auto simp: windowBoundsV2_def Let_def contains_day_def istDay_def str_le_not_less split: if_splits)
next
  case None
  have ref: "0 \<le> istShift t" using t by (simp add: istShift_def IST_OFFSET_MS_def)
  note cov = covers_contains[OF _ d]
  let ?an = "case anchor of Some a \<Rightarrow> if a \<in> KNOWN_ANCHORS then Some a else None | None \<Rightarrow> None"
  consider (anniv) "period = ''annual''" "?an = Some ''card_anniversary''"
    | (stmt) "\<not> (period = ''annual'' \<and> ?an = Some ''card_anniversary'')"
        "period = ''statement_cycle'' \<or> (period = ''annual'' \<and> ?an = Some ''statement_cycle'')"
    | (rest) "\<not> (period = ''annual'' \<and> ?an = Some ''card_anniversary'')"
        "\<not> (period = ''statement_cycle'' \<or> (period = ''annual'' \<and> ?an = Some ''statement_cycle''))"
    by blast
  then show ?thesis
  proof cases
    case anniv
    show ?thesis
    proof (cases "present anchorDate")
      case True
      then obtain s k where "calendarDay local anchorDate = Some s" "parse_day s = Some k" using a by blast
      then have "w = window_of (anniversaryYearBounds (istShift t) (Some (ms_per_day * k))) approx"
        using w None anniv True by (simp add: windowBoundsV2_def Let_def)
      then show ?thesis using cov[OF anniversary_covers[OF d]] by (simp add: istDay_def)
    next
      case False
      then have "w = window_of (calendarYearBounds (istShift t)) True"
        using w None anniv by (simp add: windowBoundsV2_def Let_def)
      then show ?thesis using cov[OF calendar_covers(4)[OF d]] by (simp add: istDay_def)
    qed
  next
    case stmt
    let ?sd = "case sd of Some n \<Rightarrow> if 1 \<le> n then Some (min n 31) else None | None \<Rightarrow> None"
    have c: "(case ?sd of None \<Rightarrow> Inr (Some (window_of (calendarMonthBounds (istShift t)) True))
        | Some n \<Rightarrow> Inr (Some (window_of (statementCycleBoundsV2 (istShift t) n) False))) = (Inr (Some w) :: cycle_error + window option)"
      using w unfolding windowBoundsV2_def Let_def None option.case if_not_P[OF stmt(1)] if_P[OF stmt(2)] .
    have one: "1 \<le> n" if "?sd = Some n" for n using that by (auto split: option.splits if_splits)
    have "w = window_of (calendarMonthBounds (istShift t)) True
        \<or> (\<exists>n. 1 \<le> n \<and> w = window_of (statementCycleBoundsV2 (istShift t) n) False)"
    proof (cases ?sd)
      case None
      then show ?thesis using c by simp
    next
      case (Some n)
      then show ?thesis using c one[OF Some] by auto
    qed
    then show ?thesis
      using cov[OF calendar_covers(1)[OF d]] cov[OF statement_covers[OF _ d]] by (auto simp: istDay_def)
  next
    case rest
    then obtain b where b: "periodBounds period (istShift t) None ?an DNull = Inr b" and "w = window_of b False"
      using w None unfolding windowBoundsV2_def Let_def by (auto split: sum.splits)
    moreover have "contains_day (window_of b False) (toDateOnly (day_of (istShift t)))"
    proof (cases "period = ''annual''")
      case True
      then show ?thesis using rest by (intro periodBounds_contains[OF b d ref]) auto
    next
      case False
      have "periodBounds period (istShift t) None ?an DNull = periodBounds period (istShift t) None None DNull"
        by (simp only: periodBounds_def if_not_P[OF False])
      then have "periodBounds period (istShift t) None None DNull = Inr b" using b by simp
      then show ?thesis using rest by (intro periodBounds_contains[OF _ d ref]) auto
    qed
    ultimately show ?thesis by (simp add: istDay_def)
  qed
qed

lemma windowBoundsV2_contains_witness:
  "\<exists>w. windowBoundsV2 (\<lambda>_. 0) ''statement_cycle'' 1772236800000 None DNull False (Some 15) None = Inr (Some w)
     \<and> contains_day w (istDay 1772236800000)"
proof -
  have b: "statementCycleBoundsV2 (istShift 1772236800000) 15 = (''2026-02-16'', ''2026-03-15'')" by code_simp
  have w: "windowBoundsV2 (\<lambda>_. 0) ''statement_cycle'' 1772236800000 None DNull False (Some 15) None
      = Inr (Some \<lparr>w_start = Some ''2026-02-16'', w_end = ''2026-03-15'', w_approximate = False\<rparr>)"
    by (simp add: windowBoundsV2_def window_of_def b)
  have y: "inner_year (day_of (istShift 1772236800000))" by code_simp
  show ?thesis using windowBoundsV2_contains[OF w _ y] w by simp
qed

end
