(* ===== verification/RewardRows.thy ===== *)
theory RewardRows
  imports Cycles
begin

text \<open>
  The rows the reward engines read: a card, its reward rules and its cap rules, as PostgreSQL and
  the catalogue feed deliver them. Text, uuid and enum columns are \<open>string option\<close> (\<open>None\<close> for
  null or absent), integer columns \<open>int option\<close>, dates \<open>date_value\<close>. Columns the engines
  check or convert at run time (\<open>numeric\<close> columns, which may arrive as text, and lists) stay
  dynamically typed.
\<close>

record rule_row =
  rr_id :: "string option"
  rr_rule_role :: "string option"
  rr_category_id :: "string option"
  rr_excluded_categories :: jsval
  rr_merchant_pattern :: "string option"
  rr_merchant_slugs :: jsval
  rr_platform_slugs :: jsval
  rr_except_merchant_slugs :: jsval
  rr_except_platform_slugs :: jsval
  rr_mcc_include :: jsval
  rr_mcc_exclude :: jsval
  rr_rail :: "string option"
  rr_min_txn_inr :: jsval
  rr_max_txn_inr :: jsval
  rr_effective_from :: date_value
  rr_effective_to :: date_value
  rr_priority :: "int option"
  rr_unit :: "string option"
  rr_rate :: jsval
  rr_block_inr :: jsval
  rr_min_engine_version :: jsval
  rr_max_engine_version :: jsval
  rr_display_note :: "string option"

record cap_row =
  cr_id :: "string option"
  cr_reward_rule_id :: "string option"
  cr_category_id :: "string option"
  cr_scope :: "string option"
  cr_targets :: jsval
  cr_parent_cap_id :: "string option"
  cr_measure :: "string option"
  cr_cap_value :: jsval
  cr_cap_kind :: "string option"
  cr_cap_amount :: jsval
  cr_post_cap_behavior :: "string option"
  cr_post_cap_unit :: "string option"
  cr_post_cap_rate :: jsval

record card_row =
  cd_base_reward_unit :: "string option"
  cd_base_reward_rate :: jsval
  cd_point_value_inr :: jsval
  cd_accrual_rounding :: "string option"
  cd_cashback_rounding :: "string option"
  cd_excluded_categories :: jsval

text \<open>Rows with every column null, to be updated field by field.\<close>

definition blank_rule :: rule_row where
  "blank_rule = \<lparr>rr_id = None, rr_rule_role = None, rr_category_id = None, rr_excluded_categories = JNull,
     rr_merchant_pattern = None, rr_merchant_slugs = JNull, rr_platform_slugs = JNull,
     rr_except_merchant_slugs = JNull, rr_except_platform_slugs = JNull, rr_mcc_include = JNull,
     rr_mcc_exclude = JNull, rr_rail = None, rr_min_txn_inr = JNull, rr_max_txn_inr = JNull,
     rr_effective_from = DNull, rr_effective_to = DNull, rr_priority = None, rr_unit = None,
     rr_rate = JNull, rr_block_inr = JNull, rr_min_engine_version = JNull, rr_max_engine_version = JNull,
     rr_display_note = None\<rparr>"

definition blank_cap :: cap_row where
  "blank_cap = \<lparr>cr_id = None, cr_reward_rule_id = None, cr_category_id = None, cr_scope = None,
     cr_targets = JNull, cr_parent_cap_id = None, cr_measure = None, cr_cap_value = JNull,
     cr_cap_kind = None, cr_cap_amount = JNull, cr_post_cap_behavior = None, cr_post_cap_unit = None,
     cr_post_cap_rate = JNull\<rparr>"

definition blank_card :: card_row where
  "blank_card = \<lparr>cd_base_reward_unit = None, cd_base_reward_rate = JNull, cd_point_value_inr = JNull,
     cd_accrual_rounding = None, cd_cashback_rounding = None, cd_excluded_categories = JNull\<rparr>"

section \<open>Truthiness of text and dates\<close>

text \<open>\<open>x\<close> as a condition, \<open>x || y\<close>, and a text used where null prints as nothing.\<close>

definition has_text :: "string option \<Rightarrow> bool" where
  "has_text v \<longleftrightarrow> v \<noteq> None \<and> v \<noteq> Some []"

definition or_text :: "string option \<Rightarrow> string option \<Rightarrow> string option" where
  "or_text a b = (if has_text a then a else b)"

definition text_of :: "string option \<Rightarrow> string" where
  "text_of v = (case v of None \<Rightarrow> [] | Some s \<Rightarrow> s)"

lemma has_text_Some [simp]: "has_text (Some s) \<longleftrightarrow> s \<noteq> []" "\<not> has_text None"
  by (simp_all add: has_text_def)

text \<open>\<open>list.includes(x)\<close> for a text that may be null.\<close>

definition includes_text :: "jsval \<Rightarrow> string option \<Rightarrow> bool" where
  "includes_text v x = (case x of None \<Rightarrow> False | Some s \<Rightarrow> has_str (jarr v) s)"

text \<open>
  \<open>startOfDay(value)\<close>: midnight, in a server zone with constant offset \<open>tz\<close>, of the day a value
  names; \<open>None\<close> is an invalid date, and comparisons with it are false.
\<close>

definition startOfDay :: "int \<Rightarrow> date_value \<Rightarrow> int option" where
  "startOfDay tz v = map_option (\<lambda>t. ms_per_day * day_of (t + tz) - tz) (time_value v)"

text \<open>The effective-date window of a rule, the last day inclusive.\<close>

definition in_effect :: "int \<Rightarrow> rule_row \<Rightarrow> date_value \<Rightarrow> bool" where
  "in_effect tz rule occurred = (if \<not> present occurred then True
     else let when = time_value occurred in
       \<not> (present (rr_effective_from rule) \<and>
           (case (when, startOfDay tz (rr_effective_from rule)) of (Some w, Some s) \<Rightarrow> w < s | _ \<Rightarrow> False))
     \<and> \<not> (present (rr_effective_to rule) \<and>
           (case (when, startOfDay tz (rr_effective_to rule)) of
              (Some w, Some e) \<Rightarrow> e + ms_per_day \<le> w | _ \<Rightarrow> False)))"

text \<open>A rule valid from one day to another is in effect exactly on those local days.\<close>

lemma in_effect_days:
  assumes "rr_effective_from rule = DDate (Some (ms_per_day * a - tz))"
    and "rr_effective_to rule = DDate (Some (ms_per_day * b - tz))"
  shows "in_effect tz rule (DDate (Some t)) \<longleftrightarrow> a \<le> day_of (t + tz) \<and> day_of (t + tz) \<le> b"
proof -
  have d: "day_of (ms_per_day * k) = k" for k by (simp add: day_of_def ms_per_day_def)
  have "t < ms_per_day * a - tz \<longleftrightarrow> day_of (t + tz) < a" using before_day[of "t + tz" a] by linarith
  moreover have "ms_per_day * b - tz + ms_per_day \<le> t \<longleftrightarrow> \<not> day_of (t + tz) < b + 1"
  proof -
    have "ms_per_day * (b + 1) = ms_per_day * b + ms_per_day" by (simp add: distrib_left)
    then show ?thesis using before_day[of "t + tz" "b + 1"] by linarith
  qed
  ultimately show ?thesis using assms by (auto simp: in_effect_def startOfDay_def time_value_def d Let_def)
qed

end
