(* ===== verification/RewardV1.thy ===== *)
theory RewardV1
  imports RewardRows
begin

text \<open>
  \<open>api/src/reward_math.js\<close>: what a first-generation card earned on a transaction. Rule matching,
  the cap that governs a rule, splitting the amount into portions that earn at different rates,
  and the recorded value, points and cap consumption. Amounts are Numbers (rupees).
\<close>

text \<open>\<open>normalizeMerchant(value)\<close>: lower case, letters and digits only.\<close>

definition normalizeMerchant :: "string option \<Rightarrow> string" where
  "normalizeMerchant v = filter is_lower_alnum (js_lower (text_of v))"

record v1_ctx =
  vc_amount :: jsnum
  vc_categoryId :: "string option"
  vc_merchantName :: "string option"
  vc_rail :: "string option"
  vc_occurred :: date_value

definition merchant_matches :: "string option \<Rightarrow> string option \<Rightarrow> bool" where
  "merchant_matches pattern name \<longleftrightarrow>
     (has_text pattern \<and> js_trim (text_of pattern) \<noteq> [] \<longrightarrow>
        has_text name \<and> str_includes (normalizeMerchant name) (normalizeMerchant pattern))"

definition ruleApplies :: "int \<Rightarrow> rule_row \<Rightarrow> v1_ctx \<Rightarrow> bool" where
  "ruleApplies tz rule ctx =
     (if rr_category_id rule \<noteq> None \<and> rr_category_id rule \<noteq> vc_categoryId ctx then False
      else if has_text (vc_categoryId ctx) \<and> includes_text (rr_excluded_categories rule) (vc_categoryId ctx) then False
      else if \<not> merchant_matches (rr_merchant_pattern rule) (vc_merchantName ctx) then False
      else let rail = text_of (or_text (vc_rail ctx) (Some ''unknown'')) in
        if rr_rail rule \<noteq> None \<and> rail \<noteq> ''unknown'' \<and> rr_rail rule \<noteq> Some rail then False
        else if \<not> nullish (rr_min_txn_inr rule) \<and> vc_amount ctx < to_number (rr_min_txn_inr rule) then False
        else in_effect tz rule (vc_occurred ctx))"

definition prio :: "rule_row \<Rightarrow> int" where
  "prio r = (case rr_priority r of None \<Rightarrow> 100 | Some p \<Rightarrow> p)"

definition by_prio :: "rule_row \<Rightarrow> rule_row \<Rightarrow> bool" where
  "by_prio a b \<longleftrightarrow> prio a \<le> prio b"

definition pickRule :: "int \<Rightarrow> rule_row list \<Rightarrow> v1_ctx \<Rightarrow> rule_row option" where
  "pickRule tz rules ctx =
     (let applicable = filter (\<lambda>r. ruleApplies tz r ctx) rules in
      if applicable = [] then None else Some (hd (jsort by_prio applicable)))"

definition cap_governs :: "rule_row \<Rightarrow> v1_ctx \<Rightarrow> cap_row \<Rightarrow> bool" where
  "cap_governs rule ctx c \<longleftrightarrow>
     (cr_reward_rule_id c \<noteq> None \<and> cr_reward_rule_id c = rr_id rule) \<or>
     (cr_category_id c \<noteq> None \<and> cr_category_id c = vc_categoryId ctx)"

definition pickCapRule :: "cap_row list \<Rightarrow> rule_row \<Rightarrow> v1_ctx \<Rightarrow> cap_row option" where
  "pickCapRule capRules rule ctx = find (cap_governs rule ctx) capRules"

text \<open>\<open>Number(v) || 0\<close>.\<close>

definition number_or_0 :: "jsval \<Rightarrow> jsnum" where
  "number_or_0 v = jor (to_number v) (Fin 0)"

definition no_base :: "card_row \<Rightarrow> bool" where
  "no_base cd \<longleftrightarrow> \<not> has_text (cd_base_reward_unit cd) \<or> nullish (cd_base_reward_rate cd)"

definition baseRatePerRupee :: "card_row \<Rightarrow> jsnum" where
  "baseRatePerRupee cd = (if no_base cd then Fin 0
     else effectiveRatePerRupee (text_of (cd_base_reward_unit cd)) (to_number (cd_base_reward_rate cd))
            (number_or_0 (cd_point_value_inr cd)))"

definition basePointsPerRupee :: "card_row \<Rightarrow> jsnum" where
  "basePointsPerRupee cd = (if no_base cd then Fin 0
     else effectivePointsPerRupee (text_of (cd_base_reward_unit cd)) (to_number (cd_base_reward_rate cd)))"

text \<open>One portion of the amount; \<open>po_value\<close> pins its rupee value.\<close>

record portion =
  po_amount :: jsnum
  po_unit :: "string option"
  po_rate :: jsnum
  po_value :: "jsnum option"

definition resolvePostCap :: "cap_row \<Rightarrow> rule_row \<Rightarrow> card_row \<Rightarrow> string option \<times> jsnum" where
  "resolvePostCap capRule rule cd =
     (if nullish (cr_post_cap_rate capRule)
      then (cd_base_reward_unit cd,
            if nullish (cd_base_reward_rate cd) then Fin 0 else to_number (cd_base_reward_rate cd))
      else (or_text (cr_post_cap_unit capRule) (rr_unit rule), to_number (cr_post_cap_rate capRule)))"

text \<open>The part of the amount a rule's bonus rate can apply to, below the per-transaction ceiling.\<close>

definition bonus_eligible :: "rule_row \<Rightarrow> jsnum \<Rightarrow> jsnum" where
  "bonus_eligible rule amount =
     (if \<not> nullish (rr_max_txn_inr rule) \<and> to_number (rr_max_txn_inr rule) < amount
      then to_number (rr_max_txn_inr rule) else amount)"

definition cap_remaining :: "cap_row \<Rightarrow> jsval \<Rightarrow> jsnum" where
  "cap_remaining capRule capConsumedBefore =
     jmax (Fin 0) (to_number (cr_cap_value capRule) - number_or_0 capConsumedBefore)"

text \<open>The three measures of a cap: portions of the eligible amount and the consumption.\<close>

definition spend_cap_portions ::
  "rule_row \<Rightarrow> string option \<times> jsnum \<Rightarrow> jsnum \<Rightarrow> jsnum \<Rightarrow> portion list \<times> jsnum" where
  "spend_cap_portions rule post eligible remaining =
     (let preCap = jmin eligible remaining; postCap = eligible - preCap in
      ((if preCap > Fin 0 then [\<lparr>po_amount = preCap, po_unit = rr_unit rule, po_rate = to_number (rr_rate rule),
                                  po_value = None\<rparr>] else [])
       @ (if postCap > Fin 0 then [\<lparr>po_amount = postCap, po_unit = fst post, po_rate = snd post, po_value = None\<rparr>]
          else []), eligible))"

definition value_cap_portions ::
  "rule_row \<Rightarrow> string option \<times> jsnum \<Rightarrow> jsnum \<Rightarrow> jsnum \<Rightarrow> jsnum \<Rightarrow> portion list \<times> jsnum" where
  "value_cap_portions rule post bonusRate eligible remaining =
     (if remaining \<le> Fin 0 \<or> bonusRate \<le> Fin 0 then
        ((if eligible > Fin 0 then
            [if remaining \<le> Fin 0
             then \<lparr>po_amount = eligible, po_unit = fst post, po_rate = snd post, po_value = None\<rparr>
             else \<lparr>po_amount = eligible, po_unit = rr_unit rule, po_rate = to_number (rr_rate rule), po_value = None\<rparr>]
          else []), Fin 0)
      else
        let preCapSpend = jmin eligible (remaining / bonusRate); postCapSpend = eligible - preCapSpend in
        ((if preCapSpend > Fin 0 then
            [\<lparr>po_amount = preCapSpend, po_unit = rr_unit rule, po_rate = to_number (rr_rate rule),
              po_value = Some (if postCapSpend > Fin 0 then remaining else preCapSpend * bonusRate)\<rparr>] else [])
         @ (if postCapSpend > Fin 0 then
              [\<lparr>po_amount = postCapSpend, po_unit = fst post, po_rate = snd post, po_value = None\<rparr>] else []),
         jmin remaining (preCapSpend * bonusRate)))"

definition count_cap_portions ::
  "rule_row \<Rightarrow> string option \<times> jsnum \<Rightarrow> jsnum \<Rightarrow> jsnum \<Rightarrow> portion list \<times> jsnum" where
  "count_cap_portions rule post eligible remaining =
     ([if Fin 1 \<le> remaining
       then \<lparr>po_amount = eligible, po_unit = rr_unit rule, po_rate = to_number (rr_rate rule), po_value = None\<rparr>
       else \<lparr>po_amount = eligible, po_unit = fst post, po_rate = snd post, po_value = None\<rparr>], Fin 1)"

definition capped_portions ::
  "card_row \<Rightarrow> rule_row \<Rightarrow> cap_row option \<Rightarrow> jsval \<Rightarrow> jsnum \<Rightarrow> portion list \<times> jsnum" where
  "capped_portions cd rule capRule capConsumedBefore eligible = (case capRule of
      None \<Rightarrow> ([\<lparr>po_amount = eligible, po_unit = rr_unit rule, po_rate = to_number (rr_rate rule), po_value = None\<rparr>],
                Fin 0)
    | Some c \<Rightarrow>
        (let remaining = cap_remaining c capConsumedBefore; post = resolvePostCap c rule cd;
             bonusRate = effectiveRatePerRupee (text_of (rr_unit rule)) (to_number (rr_rate rule))
                           (number_or_0 (cd_point_value_inr cd)) in
         if cr_measure c = Some ''spend_amount'' then spend_cap_portions rule post eligible remaining
         else if cr_measure c = Some ''reward_value'' then value_cap_portions rule post bonusRate eligible remaining
         else count_cap_portions rule post eligible remaining))"

definition rewardPortions ::
  "card_row \<Rightarrow> rule_row \<Rightarrow> cap_row option \<Rightarrow> jsval \<Rightarrow> jsnum \<Rightarrow> portion list \<times> jsnum \<times> jsnum" where
  "rewardPortions cd rule capRule capConsumedBefore amount =
     (let eligible = bonus_eligible rule amount; overMax = amount - eligible;
          (portions, delta) = capped_portions cd rule capRule capConsumedBefore eligible in
      (portions @ (if overMax > Fin 0 then
          [\<lparr>po_amount = overMax, po_unit = cd_base_reward_unit cd,
            po_rate = number_or_0 (cd_base_reward_rate cd), po_value = None\<rparr>] else []),
       delta, eligible))"

record v1_reward =
  vr_valueInr :: jsnum
  vr_points :: jsnum
  vr_capConsumedDelta :: jsnum
  vr_ruleId :: "string option"
  vr_capRuleId :: "string option"
  vr_excluded :: bool

definition empty_reward :: v1_reward where
  "empty_reward = \<lparr>vr_valueInr = Fin 0, vr_points = Fin 0, vr_capConsumedDelta = Fin 0, vr_ruleId = None,
     vr_capRuleId = None, vr_excluded = False\<rparr>"

text \<open>The summing loop: a portion without a unit earns nothing.\<close>

definition add_portion :: "jsnum \<Rightarrow> jsnum \<times> jsnum \<Rightarrow> portion \<Rightarrow> jsnum \<times> jsnum" where
  "add_portion pointValue acc p =
     (if \<not> has_text (po_unit p) then acc
      else (fst acc + (case po_value p of Some v \<Rightarrow> v
               | None \<Rightarrow> po_amount p * effectiveRatePerRupee (text_of (po_unit p)) (po_rate p) pointValue),
            snd acc + po_amount p * effectivePointsPerRupee (text_of (po_unit p)) (po_rate p)))"

definition computeTransactionReward ::
  "int \<Rightarrow> card_row \<Rightarrow> rule_row list \<Rightarrow> cap_row list \<Rightarrow> jsval \<Rightarrow> v1_ctx \<Rightarrow> v1_reward" where
  "computeTransactionReward tz cd rewardRules capRules capConsumedBefore ctx =
     (let pointValue = number_or_0 (cd_point_value_inr cd); amount = vc_amount ctx in
      if \<not> is_finite amount \<or> amount \<le> Fin 0 then empty_reward
      else if has_text (vc_categoryId ctx) \<and> includes_text (cd_excluded_categories cd) (vc_categoryId ctx)
        then empty_reward\<lparr>vr_excluded := True\<rparr>
      else case pickRule tz rewardRules ctx of
        None \<Rightarrow> empty_reward\<lparr>vr_valueInr := jmin amount (jmax (Fin 0) (amount * baseRatePerRupee cd)),
                             vr_points := jmax (Fin 0) (amount * basePointsPerRupee cd)\<rparr>
      | Some rule \<Rightarrow>
          (let capRule = pickCapRule capRules rule ctx;
               (portions, delta, eligible) = rewardPortions cd rule capRule capConsumedBefore amount;
               (valueInr, points) = foldl (add_portion pointValue) (Fin 0, Fin 0) portions in
           \<lparr>vr_valueInr = jmin amount (jmax (Fin 0) valueInr), vr_points = jmax (Fin 0) points,
            vr_capConsumedDelta = delta, vr_ruleId = rr_id rule,
            vr_capRuleId = (case capRule of None \<Rightarrow> None | Some c \<Rightarrow> cr_id c), vr_excluded = False\<rparr>))"


section \<open>Amounts stay in range\<close>

lemma jmin_amount:
  assumes "Fin 0 < a" and "nn v"
  shows "nn (jmin a v) \<and> (jmin a v = NaN \<or> jmin a v \<le> a)"
proof -
  have "nn a" using assms(1) by (simp add: nn_def jless_imp_le)
  then show ?thesis using nn_jmin[OF _ assms(2), of a] jmin_le[of a v] by blast
qed

lemma cap_remaining_nn: "nn (cap_remaining c v)"
  by (simp add: cap_remaining_def)

text \<open>
  A recorded reward is never negative and never exceeds the purchase: whatever the rules, caps
  and card say, the value lies between zero and the amount and points are not negative (or the
  figure is NaN, when a column is not a number).
\<close>

theorem v1_reward_bounded:
  shows "let r = computeTransactionReward tz cd rules caps before ctx in
     nn (vr_valueInr r) \<and> nn (vr_points r)
     \<and> (vr_valueInr r = NaN \<or> vr_valueInr r \<le> vc_amount ctx \<or> vr_valueInr r = Fin 0)"
proof -
  have pos: "Fin 0 < a" if "\<not> (\<not> is_finite a \<or> a \<le> Fin 0)" for a
    using that by (cases a) auto
  have "nn (jmin a (jmax (Fin 0) v)) \<and> (jmin a (jmax (Fin 0) v) = NaN \<or> jmin a (jmax (Fin 0) v) \<le> a)"
    if "\<not> (\<not> is_finite a \<or> a \<le> Fin 0)" for a v
    by (rule jmin_amount[OF pos[OF that]]) simp
  then show ?thesis
    unfolding computeTransactionReward_def Let_def
    by (auto simp: empty_reward_def split: option.splits prod.splits)
qed

interpretation prio_order: comparator by_prio
  by unfold_locales (auto simp: by_prio_def)

text \<open>
  The rule that pays is the first one of lowest priority among those that apply: it applies,
  no applicable rule has a lower priority number, and no applicable rule of the same priority
  precedes it in the catalogue.
\<close>

theorem pickRule_first_lowest:
  assumes "pickRule tz rules ctx = Some r"
  shows "r \<in> set rules \<and> ruleApplies tz r ctx
     \<and> (\<forall>q \<in> set rules. ruleApplies tz q ctx \<longrightarrow> prio r \<le> prio q)
     \<and> (\<exists>us vs. filter (\<lambda>q. ruleApplies tz q ctx \<and> prio q = prio r) rules = r # vs)"
proof -
  let ?app = "filter (\<lambda>q. ruleApplies tz q ctx) rules"
  have ne: "?app \<noteq> []" and r: "r = hd (jsort by_prio ?app)"
    using assms by (auto simp: pickRule_def Let_def split: if_splits)
  obtain rest where s: "jsort by_prio ?app = r # rest" using ne r by (cases "jsort by_prio ?app") auto
  have "filter (\<lambda>q. by_prio q r \<and> by_prio r q) (jsort by_prio ?app) = filter (\<lambda>q. by_prio q r \<and> by_prio r q) ?app"
    by (rule prio_order.jsort_stable)
  then have "r # filter (\<lambda>q. by_prio q r \<and> by_prio r q) rest = filter (\<lambda>q. by_prio q r \<and> by_prio r q) ?app"
    unfolding s by (simp add: by_prio_def)
  then have "\<exists>vs. filter (\<lambda>q. by_prio q r \<and> by_prio r q) ?app = r # vs" by metis
  moreover have "filter (\<lambda>q. by_prio q r \<and> by_prio r q) ?app = filter (\<lambda>q. ruleApplies tz q ctx \<and> prio q = prio r) rules"
    by (auto simp: by_prio_def intro: filter_cong)
  ultimately have first: "\<exists>vs. filter (\<lambda>q. ruleApplies tz q ctx \<and> prio q = prio r) rules = r # vs" by metis
  have "r \<in> set ?app" using prio_order.hd_jsort(1)[OF ne] r by simp
  moreover have "\<forall>q \<in> set ?app. prio r \<le> prio q"
    using prio_order.hd_jsort(2)[OF ne] r by (auto simp: by_prio_def)
  ultimately show ?thesis using first by auto
qed

definition sample_rule :: rule_row where
  "sample_rule = blank_rule\<lparr>rr_id := Some ''r1'', rr_unit := Some ''cashback_percent'', rr_rate := JNum (Fin 4),
     rr_category_id := Some ''dining'', rr_priority := Some 10\<rparr>"

definition sample_ctx :: v1_ctx where
  "sample_ctx = \<lparr>vc_amount = Fin 50, vc_categoryId = Some ''dining'', vc_merchantName = None, vc_rail = None,
     vc_occurred = DNull\<rparr>"

lemma sample_applies: "ruleApplies 0 sample_rule sample_ctx"
  by code_simp

lemma pickRule_first_lowest_witness:
  "pickRule 0 [blank_rule\<lparr>rr_id := Some ''r0''\<rparr>, sample_rule] sample_ctx = Some sample_rule
   \<and> ruleApplies 0 sample_rule sample_ctx"
proof -
  have p: "pickRule 0 [blank_rule\<lparr>rr_id := Some ''r0''\<rparr>, sample_rule] sample_ctx = Some sample_rule"
    by code_simp
  then show ?thesis using pickRule_first_lowest[OF p] by blast
qed

text \<open>
  An excluded category earns nothing and consumes nothing, and a cap that names neither a rule
  nor a category is never chosen, so unrelated spend cannot burn it.
\<close>

theorem exclusion_and_unkeyed_caps:
  shows "(has_text (vc_categoryId ctx) \<and> includes_text (cd_excluded_categories cd) (vc_categoryId ctx) \<longrightarrow>
      (let r = computeTransactionReward tz cd rules caps before ctx in
         vr_valueInr r = Fin 0 \<and> vr_points r = Fin 0 \<and> vr_capConsumedDelta r = Fin 0
         \<and> vr_ruleId r = None \<and> vr_capRuleId r = None))
     \<and> (pickCapRule caps rule ctx = Some c \<longrightarrow>
          c \<in> set caps \<and> (cr_reward_rule_id c \<noteq> None \<or> cr_category_id c \<noteq> None))"
proof
  show "has_text (vc_categoryId ctx) \<and> includes_text (cd_excluded_categories cd) (vc_categoryId ctx) \<longrightarrow>
      (let r = computeTransactionReward tz cd rules caps before ctx in
         vr_valueInr r = Fin 0 \<and> vr_points r = Fin 0 \<and> vr_capConsumedDelta r = Fin 0
         \<and> vr_ruleId r = None \<and> vr_capRuleId r = None)"
    by (simp add: computeTransactionReward_def Let_def empty_reward_def)
  show "pickCapRule caps rule ctx = Some c \<longrightarrow>
      c \<in> set caps \<and> (cr_reward_rule_id c \<noteq> None \<or> cr_category_id c \<noteq> None)"
    by (auto simp: pickCapRule_def find_Some_iff cap_governs_def)
qed

lemma exclusion_and_unkeyed_caps_witness:
  "includes_text (JArr [JStr ''rent'']) (Some ''rent'') \<and>
   vr_valueInr (computeTransactionReward 0 (blank_card\<lparr>cd_excluded_categories := JArr [JStr ''rent'']\<rparr>) [] [] JNull
     (sample_ctx\<lparr>vc_categoryId := Some ''rent''\<rparr>)) = Fin 0"
proof -
  have i: "includes_text (JArr [JStr ''rent'']) (Some ''rent'')" by code_simp
  then show ?thesis
    using exclusion_and_unkeyed_caps[of "sample_ctx\<lparr>vc_categoryId := Some ''rent''\<rparr>"
        "blank_card\<lparr>cd_excluded_categories := JArr [JStr ''rent'']\<rparr>"]
    by (simp add: Let_def)
qed

text \<open>
  A reward-value cap is never over-consumed: what a transaction takes from it is at most the
  remaining headroom, and on any other measure it takes the bonus-eligible amount (a spend cap) or
  one (a count cap).
\<close>

theorem v1_cap_consumption:
  assumes "rewardPortions cd rule (Some c) before amount = (ps, delta, eligible)"
  shows "eligible = bonus_eligible rule amount \<and>
    (if cr_measure c = Some ''spend_amount'' then delta = eligible
     else if cr_measure c = Some ''reward_value'' then delta = NaN \<or> delta = Fin 0 \<or> delta \<le> cap_remaining c before
     else delta = Fin 1)"
proof -
  have v: "d = NaN \<or> d = Fin 0 \<or> d \<le> m" if "value_cap_portions rule post br e m = (qs, d)" for post br e m qs d
    using that jmin_le[of m] unfolding value_cap_portions_def Let_def by (auto split: if_splits)
  obtain ps' where cp: "capped_portions cd rule (Some c) before (bonus_eligible rule amount) = (ps', delta)"
    and e: "eligible = bonus_eligible rule amount"
    using assms by (auto simp: rewardPortions_def Let_def split: prod.splits)
  consider "cr_measure c = Some ''spend_amount''" | "cr_measure c = Some ''reward_value''"
    | "cr_measure c \<noteq> Some ''spend_amount''" "cr_measure c \<noteq> Some ''reward_value''" by blast
  then show ?thesis
  proof cases
    case 1
    then show ?thesis using cp e by (simp add: capped_portions_def spend_cap_portions_def Let_def)
  next
    case 2
    then show ?thesis using v cp e by (simp add: capped_portions_def Let_def)
  next
    case 3
    then show ?thesis using cp e by (simp add: capped_portions_def count_cap_portions_def Let_def)
  qed
qed

lemma v1_cap_consumption_witness:
  "\<exists>ps. rewardPortions blank_card sample_rule
     (Some (blank_cap\<lparr>cr_measure := Some ''spend_amount'', cr_cap_value := JNum (Fin 8)\<rparr>)) JNull (Fin 50)
       = (ps, Fin 50, Fin 50)"
proof -
  obtain ps d e where r: "rewardPortions blank_card sample_rule
     (Some (blank_cap\<lparr>cr_measure := Some ''spend_amount'', cr_cap_value := JNum (Fin 8)\<rparr>)) JNull (Fin 50) = (ps, d, e)"
    by (rule prod_cases3)
  have "bonus_eligible sample_rule (Fin 50) = Fin 50"
    by (simp add: bonus_eligible_def sample_rule_def blank_rule_def nullish_def)
  then show ?thesis using v1_cap_consumption[OF r] r by (simp add: blank_cap_def)
qed

end
