(* ===== verification/MerchantDirectory.thy ===== *)
theory MerchantDirectory
  imports JsVal
begin

text \<open>
  \<open>api/src/merchant_directory.js\<close>: from raw merchant text or a payment address to a stable
  merchant slug, and the parent chain of a slug.
\<close>

section \<open>normalize\<close>

text \<open>
  Lower case, every run of other characters one space, trimmed. \<open>squash b s\<close> has just emitted a
  space when \<open>b\<close> holds.
\<close>

fun squash :: "bool \<Rightarrow> string \<Rightarrow> string" where
  "squash b [] = []"
| "squash b (c # cs) =
     (if is_lower_alnum c then c # squash False cs else if b then squash True cs else CHR '' '' # squash True cs)"

definition normalize :: "string option \<Rightarrow> string" where
  "normalize v = js_trim (squash False (js_lower (case v of None \<Rightarrow> [] | Some s \<Rightarrow> s)))"

section \<open>The directory\<close>

text \<open>
  A row of the merchants array; \<open>mr_slug\<close> is \<open>None\<close> when it is not a string, \<open>mr_inactive\<close> is
  \<open>is_active === false\<close>.
\<close>

record merchant_row =
  mr_slug :: "string option"
  mr_inactive :: bool
  mr_aliases :: "string list"
  mr_vpa_prefixes :: "string list"
  mr_parent_slug :: "string option"

record index_entry =
  ie_slug :: string
  ie_match :: string

record directory =
  dir_merchants :: "(string \<times> merchant_row) list"
  dir_platforms :: "string list"
  dir_aliasIndex :: "index_entry list"
  dir_vpaIndex :: "index_entry list"

definition entries :: "string \<Rightarrow> string list \<Rightarrow> index_entry list" where
  "entries slug texts = concat (map (\<lambda>t. let match = normalize (Some t) in
     if match \<noteq> [] then [\<lparr>ie_slug = slug, ie_match = match\<rparr>] else []) texts)"

definition load_merchant :: "directory \<Rightarrow> merchant_row \<Rightarrow> directory" where
  "load_merchant d m = (case mr_slug m of
      None \<Rightarrow> d
    | Some slug \<Rightarrow> if slug = [] then d
        else let d1 = d\<lparr>dir_merchants := mset_put slug m (dir_merchants d)\<rparr> in
          if mr_inactive m then d1
          else d1\<lparr>dir_aliasIndex := dir_aliasIndex d1 @ entries slug (mr_aliases m),
                  dir_vpaIndex := dir_vpaIndex d1 @ entries slug (mr_vpa_prefixes m)\<rparr>)"

definition load_platform :: "directory \<Rightarrow> string option \<Rightarrow> directory" where
  "load_platform d p = (case p of None \<Rightarrow> d
    | Some slug \<Rightarrow> if slug = [] then d
        else d\<lparr>dir_platforms := dir_platforms d @ (if slug \<in> set (dir_platforms d) then [] else [slug])\<rparr>)"

definition empty_directory :: directory where
  "empty_directory = \<lparr>dir_merchants = [], dir_platforms = [], dir_aliasIndex = [], dir_vpaIndex = []\<rparr>"

definition loadDirectory :: "merchant_row list \<Rightarrow> string option list \<Rightarrow> directory" where
  "loadDirectory ms ps = foldl load_platform (foldl load_merchant empty_directory ms) ps"

section \<open>Resolution\<close>

definition better :: "index_entry \<Rightarrow> index_entry option \<Rightarrow> bool" where
  "better a b = (case b of None \<Rightarrow> True
    | Some b \<Rightarrow> if length (ie_match a) \<noteq> length (ie_match b) then length (ie_match b) < length (ie_match a)
               else str_less (ie_slug a) (ie_slug b))"

definition best_entry :: "(index_entry \<Rightarrow> bool) \<Rightarrow> index_entry list \<Rightarrow> index_entry option" where
  "best_entry hit es = foldl (\<lambda>best e. if hit e \<and> better e best then Some e else best) None es"

record resolution =
  rs_slug :: string
  rs_via :: string
  rs_match :: string

definition resolution_of :: "string \<Rightarrow> index_entry \<Rightarrow> resolution" where
  "resolution_of via e = \<lparr>rs_slug = ie_slug e, rs_via = via, rs_match = ie_match e\<rparr>"

definition vpa_user :: "string \<Rightarrow> string" where
  "vpa_user raw = normalize (Some (takeWhile (\<lambda>c. c \<noteq> CHR ''@'') raw))"

definition resolve_vpa :: "directory \<Rightarrow> string option \<Rightarrow> resolution option" where
  "resolve_vpa d vpa = (case vpa of None \<Rightarrow> None
    | Some raw \<Rightarrow> if js_trim raw = [] \<or> vpa_user raw = [] then None
        else map_option (resolution_of ''vpa'')
               (best_entry (\<lambda>e. starts_with (vpa_user raw) (ie_match e)) (dir_vpaIndex d)))"

definition on_boundaries :: "string \<Rightarrow> string \<Rightarrow> bool" where
  "on_boundaries text match \<longleftrightarrow> str_includes ('' '' @ text @ '' '') ('' '' @ match @ '' '')"

definition resolve_alias :: "directory \<Rightarrow> string option \<Rightarrow> resolution option" where
  "resolve_alias d name =
     (let text = normalize name in
      if text = [] then None
      else map_option (resolution_of ''alias'')
             (best_entry (\<lambda>e. on_boundaries text (ie_match e)) (dir_aliasIndex d)))"

definition resolveMerchant :: "directory option \<Rightarrow> string option \<Rightarrow> string option \<Rightarrow> resolution option" where
  "resolveMerchant dir name vpa = (case dir of None \<Rightarrow> None
    | Some d \<Rightarrow> (case resolve_vpa d vpa of Some r \<Rightarrow> Some r | None \<Rightarrow> resolve_alias d name))"

section \<open>Ancestors\<close>

definition MAX_ANCESTOR_DEPTH :: nat where
  "MAX_ANCESTOR_DEPTH = 5"

text \<open>The loop, with \<open>n\<close> rounds left: \<open>seen\<close> holds the slug and the parents already listed.\<close>

fun climb :: "directory \<Rightarrow> nat \<Rightarrow> string list \<Rightarrow> merchant_row option \<Rightarrow> string list" where
  "climb d 0 seen current = []"
| "climb d (Suc n) seen None = []"
| "climb d (Suc n) seen (Some m) = (case mr_parent_slug m of
      None \<Rightarrow> []
    | Some parent \<Rightarrow> if parent = [] \<or> parent \<in> set seen then []
        else parent # climb d n (parent # seen) (map_of (dir_merchants d) parent))"

definition ancestors :: "directory option \<Rightarrow> string option \<Rightarrow> string list" where
  "ancestors dir slug = (case (dir, slug) of
      (Some d, Some s) \<Rightarrow> climb d MAX_ANCESTOR_DEPTH [s] (map_of (dir_merchants d) s)
    | _ \<Rightarrow> [])"

section \<open>Normal form\<close>

definition norm_char :: "char \<Rightarrow> bool" where
  "norm_char c \<longleftrightarrow> is_lower_alnum c \<or> c = CHR '' ''"

text \<open>Words of letters and digits separated by single spaces.\<close>

fun single_spaced :: "string \<Rightarrow> bool" where
  "single_spaced [] = True"
| "single_spaced (c # cs) = (norm_char c \<and> (c = CHR '' '' \<longrightarrow> cs \<noteq> [] \<and> hd cs \<noteq> CHR '' '') \<and> single_spaced cs)"

definition normal_text :: "string \<Rightarrow> bool" where
  "normal_text s \<longleftrightarrow> single_spaced s \<and> (s \<noteq> [] \<longrightarrow> hd s \<noteq> CHR '' '')"


lemma squash_spaced: "single_spaced (squash True s @ [CHR ''a'']) \<and> (squash True s = [] \<or> hd (squash True s) \<noteq> CHR '' '')
   \<and> single_spaced (squash False s @ [CHR ''a''])"
proof (induction s)
  case Nil
  have "is_lower_alnum (CHR ''a'')" by code_simp
  then show ?case by (simp add: norm_char_def)
next
  case (Cons c s)
  have sp: "\<not> is_lower_alnum (CHR '' '')" by code_simp
  then have "is_lower_alnum c \<Longrightarrow> c \<noteq> CHR '' ''" by blast
  then show ?case using Cons by (cases "squash True s") (auto simp: norm_char_def)
qed

lemma lower_alnum_not_space: "is_lower_alnum c \<Longrightarrow> \<not> is_space c"
  by (auto simp: is_lower_alnum_def is_space_def is_digit_def)

lemma norm_space: "norm_char c \<Longrightarrow> is_space c \<longleftrightarrow> c = CHR '' ''"
proof -
  have "is_space (CHR '' '')" by code_simp
  then show "norm_char c \<Longrightarrow> is_space c \<longleftrightarrow> c = CHR '' ''"
    using lower_alnum_not_space by (auto simp: norm_char_def)
qed

lemma single_spaced_norm: "single_spaced (s @ [CHR ''a'']) \<Longrightarrow> \<forall>c \<in> set s. norm_char c"
  by (induction s) auto

lemma drop_front:
  assumes "single_spaced (s @ [CHR ''a''])"
  shows "single_spaced (dropWhile is_space s @ [CHR ''a'']) \<and>
     (dropWhile is_space s \<noteq> [] \<longrightarrow> hd (dropWhile is_space s) \<noteq> CHR '' '')"
  using assms
proof (induction s)
  case Nil
  then show ?case by simp
next
  case (Cons c s)
  have "norm_char c" using Cons.prems by simp
  then show ?case using Cons norm_space[of c] by auto
qed

lemma single_spaced_snoc: "single_spaced (s @ [CHR '' '', CHR ''a'']) \<Longrightarrow> single_spaced (s @ [CHR ''a''])"
proof (induction s)
  case Nil
  then show ?case by simp
next
  case (Cons c s)
  then show ?case by (cases s) auto
qed

text \<open>At most one space can stand at the end, and trimming removes it.\<close>

lemma strip_back:
  assumes "single_spaced (s @ [CHR ''a''])"
  shows "single_spaced (rev (dropWhile is_space (rev s)))"
proof (cases s rule: rev_cases)
  case Nil
  then show ?thesis by simp
next
  case (snoc t c)
  have keep: "single_spaced (t @ [d])" if "single_spaced (t @ [d, CHR ''a''])" "is_lower_alnum d" for d
  proof -
    have d: "d \<noteq> CHR '' ''"
    proof
      assume "d = CHR '' ''"
      moreover have "\<not> is_lower_alnum (CHR '' '')" by code_simp
      ultimately show False using that(2) by simp
    qed
    show ?thesis using that d
    proof (induction t)
      case Nil
      then show ?case by (simp add: norm_char_def)
    next
      case (Cons x t)
      then show ?case by (cases t) auto
    qed
  qed
  have n: "norm_char c" using single_spaced_norm[OF assms] by (simp add: snoc)
  show ?thesis
  proof (cases "is_space c")
    case False
    then have "is_lower_alnum c" using n norm_space[OF n] by (auto simp: norm_char_def)
    then show ?thesis using False keep[of c] assms by (simp add: snoc)
  next
    case True
    then have c: "c = CHR '' ''" using norm_space[OF n] by simp
    show ?thesis
    proof (cases t rule: rev_cases)
      case Nil
      then show ?thesis using True by (simp add: snoc)
    next
      case (snoc u d)
      note t = this
      have ss: "single_spaced (u @ [d, CHR '' '', CHR ''a''])" using assms by (simp add: \<open>s = t @ [c]\<close> c t)
      have dd: "d \<noteq> CHR '' ''" using ss by (induction u) auto
      have "norm_char d" using single_spaced_norm[OF assms] by (simp add: \<open>s = t @ [c]\<close> t)
      then have al: "is_lower_alnum d" using dd by (simp add: norm_char_def)
      then have "\<not> is_space d" by (rule lower_alnum_not_space)
      moreover have "single_spaced (u @ [d])"
      proof -
        have "single_spaced ((u @ [d]) @ [CHR ''a''])" using single_spaced_snoc[of "u @ [d]"] ss by simp
        then show ?thesis using al dd
        proof (induction u)
          case Nil
          then show ?case by (simp add: norm_char_def)
        next
          case (Cons x u)
          then show ?case by (cases u) auto
        qed
      qed
      ultimately show ?thesis using True by (simp add: \<open>s = t @ [c]\<close> t)
    qed
  qed
qed

lemma hd_strip: "s \<noteq> [] \<Longrightarrow> \<not> is_space (hd s) \<Longrightarrow> rev (dropWhile is_space (rev s)) \<noteq> [] \<and>
    hd (rev (dropWhile is_space (rev s))) = hd s"
proof -
  assume "s \<noteq> []" "\<not> is_space (hd s)"
  then obtain c t where s: "s = c # t" and c: "\<not> is_space c" by (cases s) auto
  have "rev (dropWhile is_space (rev t @ [c])) = c # rev (dropWhile is_space (rev t))"
  proof (cases "\<forall>x \<in> set t. is_space x")
    case True
    have "dropWhile is_space (rev t @ [c]) = dropWhile is_space [c]" by (rule dropWhile_append2) (use True in auto)
    then have "dropWhile is_space (rev t @ [c]) = [c]" "dropWhile is_space (rev t) = []" using c True by simp_all
    then show ?thesis by simp
  next
    case False
    then show ?thesis by (metis dropWhile_append1 rev.simps(2) rev_rev_ident set_rev)
  qed
  then show ?thesis by (simp add: s)
qed

lemma normal_normalize: "normal_text (normalize v)"
proof -
  let ?s = "squash False (js_lower (case v of None \<Rightarrow> [] | Some s \<Rightarrow> s))"
  let ?t = "dropWhile is_space ?s"
  have a: "single_spaced (?t @ [CHR ''a''])" "?t \<noteq> [] \<longrightarrow> hd ?t \<noteq> CHR '' ''"
    using drop_front[of ?s] squash_spaced by auto
  have b: "single_spaced (js_trim ?s)" unfolding js_trim_def by (rule strip_back[OF a(1)])
  have "js_trim ?s \<noteq> [] \<longrightarrow> hd (js_trim ?s) \<noteq> CHR '' ''"
  proof (cases "?t = []")
    case True
    have "js_trim ?s = []" unfolding js_trim_def True by simp
    then show ?thesis by simp
  next
    case False
    have "norm_char (hd ?t)" using single_spaced_norm[OF a(1)] False by simp
    then have "\<not> is_space (hd ?t)" using norm_space a(2) False by simp
    then show ?thesis using hd_strip[OF False] a(2) False by (simp add: js_trim_def)
  qed
  with b show ?thesis by (simp add: normal_text_def normalize_def)
qed

text \<open>A text in normal form is a fixed point.\<close>

lemma lower_norm: "norm_char c \<Longrightarrow> lower_char c = c"
  by (auto simp: norm_char_def lower_char_def is_lower_alnum_def is_digit_def)

lemma squash_normal: "single_spaced s \<Longrightarrow> squash False s = s \<and> (s = [] \<or> hd s \<noteq> CHR '' '' \<longrightarrow> squash True s = s)"
proof (induction s)
  case Nil
  then show ?case by simp
next
  case (Cons c s)
  have sp: "\<not> is_lower_alnum (CHR '' '')" by code_simp
  show ?case using Cons sp by (auto simp: norm_char_def)
qed

lemma last_normal: "single_spaced s \<Longrightarrow> s \<noteq> [] \<Longrightarrow> last s \<noteq> CHR '' ''"
  by (induction s) auto

lemma set_normal: "single_spaced s \<Longrightarrow> \<forall>c \<in> set s. norm_char c"
  by (induction s) auto

lemma normalize_fixed:
  assumes "normal_text s"
  shows "normalize (Some s) = s"
proof -
  have ss: "single_spaced s" and h: "s \<noteq> [] \<longrightarrow> hd s \<noteq> CHR '' ''" using assms by (auto simp: normal_text_def)
  have "js_lower s = s" unfolding js_lower_def using set_normal[OF ss] lower_norm by (simp add: map_idI)
  moreover have "js_trim s = s"
  proof (cases "s = []")
    case True
    then show ?thesis by (simp add: js_trim_def)
  next
    case False
    have "\<not> is_space (hd s)" using norm_space[of "hd s"] set_normal[OF ss] h False by simp
    then have front: "dropWhile is_space s = s" using False by (cases s) auto
    have "\<not> is_space (last s)" using norm_space[of "last s"] set_normal[OF ss] last_normal[OF ss False] False by simp
    then have "dropWhile is_space (rev s) = rev s" using False by (cases s rule: rev_cases) auto
    then show ?thesis by (simp add: js_trim_def front)
  qed
  ultimately show ?thesis using squash_normal[OF ss] by (simp add: normalize_def)
qed

text \<open>
  Normalisation of merchant text yields lower-case words separated by single spaces, and
  normalising again changes nothing, so catalogue aliases and bank text meet in one form.
\<close>

theorem normalize_canonical: "normal_text (normalize v) \<and> normalize (Some (normalize v)) = normalize v"
  using normal_normalize normalize_fixed by blast

section \<open>Best match\<close>

text \<open>\<open>better\<close> is a strict order: longer match first, then smaller slug.\<close>

definition entry_less :: "index_entry \<Rightarrow> index_entry \<Rightarrow> bool" where
  "entry_less a b \<longleftrightarrow> better a (Some b)"

lemma entry_less_trans: "entry_less a b \<Longrightarrow> entry_less b c \<Longrightarrow> entry_less a c"
  using str_less_trans by (auto simp: entry_less_def better_def split: if_splits)

lemma entry_less_irrefl: "\<not> entry_less a a"
  by (simp add: entry_less_def better_def)

lemma best_entry_spec:
  "case best_entry hit es of
     None \<Rightarrow> \<forall>e \<in> set es. \<not> hit e
   | Some b \<Rightarrow> b \<in> set es \<and> hit b \<and> (\<forall>e \<in> set es. hit e \<longrightarrow> \<not> entry_less e b)"
proof (induction es rule: rev_induct)
  case Nil
  then show ?case by (simp add: best_entry_def)
next
  case (snoc e es)
  have step: "best_entry hit (es @ [e]) = (if hit e \<and> better e (best_entry hit es) then Some e else best_entry hit es)"
    by (simp add: best_entry_def)
  show ?case
  proof (cases "best_entry hit es")
    case None
    then show ?thesis using snoc step entry_less_irrefl by (auto simp: better_def)
  next
    case (Some b)
    have b: "b \<in> set es" "hit b" "\<forall>x \<in> set es. hit x \<longrightarrow> \<not> entry_less x b" using snoc Some by auto
    show ?thesis
    proof (cases "hit e \<and> entry_less e b")
      case True
      then have "\<forall>x \<in> set es. hit x \<longrightarrow> \<not> entry_less x e" using b(3) entry_less_trans by blast
      then show ?thesis using True step Some entry_less_irrefl by (auto simp: entry_less_def)
    next
      case False
      then have "best_entry hit (es @ [e]) = Some b" using step Some by (auto simp: entry_less_def)
      then show ?thesis using b False by auto
    qed
  qed
qed

lemma entries_iff: "e \<in> set (entries slug texts) \<longleftrightarrow>
    (\<exists>t \<in> set texts. normalize (Some t) \<noteq> [] \<and> e = \<lparr>ie_slug = slug, ie_match = normalize (Some t)\<rparr>)"
  by (auto simp: entries_def Let_def)

lemma load_platform_index: "dir_aliasIndex (foldl load_platform d ps) = dir_aliasIndex d
    \<and> dir_vpaIndex (foldl load_platform d ps) = dir_vpaIndex d \<and> dir_merchants (foldl load_platform d ps) = dir_merchants d"
  by (induction ps arbitrary: d) (auto simp: load_platform_def split: option.splits)

definition from_active :: "(merchant_row \<Rightarrow> string list) \<Rightarrow> merchant_row list \<Rightarrow> index_entry \<Rightarrow> bool" where
  "from_active texts ms e \<longleftrightarrow> (\<exists>m \<in> set ms. mr_slug m = Some (ie_slug e) \<and> ie_slug e \<noteq> [] \<and> \<not> mr_inactive m
     \<and> (\<exists>t \<in> set (texts m). ie_match e = normalize (Some t) \<and> ie_match e \<noteq> []))"

lemma loaded_index:
  "e \<in> set (dir_aliasIndex (loadDirectory ms ps)) \<longleftrightarrow> from_active mr_aliases ms e"
  "e \<in> set (dir_vpaIndex (loadDirectory ms ps)) \<longleftrightarrow> from_active mr_vpa_prefixes ms e"
proof -
  have "e \<in> set (dir_aliasIndex (foldl load_merchant d ms)) \<longleftrightarrow> e \<in> set (dir_aliasIndex d) \<or> from_active mr_aliases ms e"
    "e \<in> set (dir_vpaIndex (foldl load_merchant d ms)) \<longleftrightarrow> e \<in> set (dir_vpaIndex d) \<or> from_active mr_vpa_prefixes ms e" for d
    by (induction ms arbitrary: d; auto simp: from_active_def load_merchant_def Let_def entries_iff split: option.splits)+
  then show "e \<in> set (dir_aliasIndex (loadDirectory ms ps)) \<longleftrightarrow> from_active mr_aliases ms e"
    "e \<in> set (dir_vpaIndex (loadDirectory ms ps)) \<longleftrightarrow> from_active mr_vpa_prefixes ms e"
    by (simp_all add: loadDirectory_def load_platform_index empty_directory_def)
qed

text \<open>
  A merchant is resolved from an active row only, by a match that really occurs, and it is the
  best one: an address prefix match wins over an alias match, a longer match over a shorter one and
  the smaller slug on a tie. Nothing is resolved only when nothing matches.
\<close>

theorem resolveMerchant_best:
  assumes "resolveMerchant (Some (loadDirectory ms ps)) name vpa = Some r"
  shows "\<exists>m \<in> set ms. mr_slug m = Some (rs_slug r) \<and> \<not> mr_inactive m
     \<and> (if rs_via r = ''vpa''
         then \<exists>raw. vpa = Some raw \<and> starts_with (vpa_user raw) (rs_match r)
              \<and> rs_match r \<in> (\<lambda>t. normalize (Some t)) ` set (mr_vpa_prefixes m)
              \<and> (\<forall>e. from_active mr_vpa_prefixes ms e \<longrightarrow> starts_with (vpa_user raw) (ie_match e) \<longrightarrow>
                   \<not> entry_less e \<lparr>ie_slug = rs_slug r, ie_match = rs_match r\<rparr>)
         else rs_via r = ''alias'' \<and> resolve_vpa (loadDirectory ms ps) vpa = None
              \<and> on_boundaries (normalize name) (rs_match r)
              \<and> rs_match r \<in> (\<lambda>t. normalize (Some t)) ` set (mr_aliases m)
              \<and> (\<forall>e. from_active mr_aliases ms e \<longrightarrow> on_boundaries (normalize name) (ie_match e) \<longrightarrow>
                   \<not> entry_less e \<lparr>ie_slug = rs_slug r, ie_match = rs_match r\<rparr>))"
proof -
  let ?d = "loadDirectory ms ps"
  have eta: "\<lparr>ie_slug = ie_slug b, ie_match = ie_match b\<rparr> = b" for b :: index_entry by simp
  show ?thesis
  proof (cases "resolve_vpa ?d vpa")
    case (Some q)
    then have q: "q = r" using assms by (simp add: resolveMerchant_def)
    obtain raw b where raw: "vpa = Some raw" and b: "best_entry (\<lambda>e. starts_with (vpa_user raw) (ie_match e)) (dir_vpaIndex ?d) = Some b"
      and r: "r = resolution_of ''vpa'' b"
      using Some q by (auto simp: resolve_vpa_def split: option.splits if_splits)
    have spec: "b \<in> set (dir_vpaIndex ?d)" "starts_with (vpa_user raw) (ie_match b)"
      "\<forall>e \<in> set (dir_vpaIndex ?d). starts_with (vpa_user raw) (ie_match e) \<longrightarrow> \<not> entry_less e b"
      using best_entry_spec[where hit = "\<lambda>e. starts_with (vpa_user raw) (ie_match e)" and es = "dir_vpaIndex ?d"] b by auto
    obtain m where m: "m \<in> set ms" "mr_slug m = Some (ie_slug b)" "\<not> mr_inactive m"
      "ie_match b \<in> (\<lambda>t. normalize (Some t)) ` set (mr_vpa_prefixes m)"
      using spec(1) unfolding loaded_index from_active_def by blast
    have "\<forall>e. from_active mr_vpa_prefixes ms e \<longrightarrow> starts_with (vpa_user raw) (ie_match e) \<longrightarrow> \<not> entry_less e b"
      using spec(3) loaded_index(2)[of _ ms ps] by blast
    then show ?thesis using m spec(2) raw by (intro bexI[OF _ m(1)]) (simp add: r resolution_of_def eta)
  next
    case None
    then obtain b where b: "best_entry (\<lambda>e. on_boundaries (normalize name) (ie_match e)) (dir_aliasIndex ?d) = Some b"
      and r: "r = resolution_of ''alias'' b"
      using assms by (auto simp: resolveMerchant_def resolve_alias_def Let_def split: option.splits if_splits)
    have spec: "b \<in> set (dir_aliasIndex ?d)" "on_boundaries (normalize name) (ie_match b)"
      "\<forall>e \<in> set (dir_aliasIndex ?d). on_boundaries (normalize name) (ie_match e) \<longrightarrow> \<not> entry_less e b"
      using best_entry_spec[where hit = "\<lambda>e. on_boundaries (normalize name) (ie_match e)" and es = "dir_aliasIndex ?d"] b by auto
    obtain m where m: "m \<in> set ms" "mr_slug m = Some (ie_slug b)" "\<not> mr_inactive m"
      "ie_match b \<in> (\<lambda>t. normalize (Some t)) ` set (mr_aliases m)"
      using spec(1) unfolding loaded_index from_active_def by blast
    have "\<forall>e. from_active mr_aliases ms e \<longrightarrow> on_boundaries (normalize name) (ie_match e) \<longrightarrow> \<not> entry_less e b"
      using spec(3) loaded_index(1)[of _ ms ps] by blast
    then show ?thesis using m spec(2) None by (intro bexI[OF _ m(1)]) (simp add: r resolution_of_def eta)
  qed
qed

definition sample_merchants :: "merchant_row list" where
  "sample_merchants = [\<lparr>mr_slug = Some ''sw'', mr_inactive = False, mr_aliases = [''Swiggy''], mr_vpa_prefixes = [],
      mr_parent_slug = None\<rparr>,
     \<lparr>mr_slug = Some ''im'', mr_inactive = False, mr_aliases = [''swiggy im''], mr_vpa_prefixes = [],
      mr_parent_slug = Some ''sw''\<rparr>]"

lemma resolveMerchant_best_witness:
  "resolveMerchant (Some (loadDirectory sample_merchants [])) (Some ''X*Swiggy-IM'') None
     = Some \<lparr>rs_slug = ''im'', rs_via = ''alias'', rs_match = ''swiggy im''\<rparr>
   \<and> (\<exists>m \<in> set sample_merchants. mr_slug m = Some ''im'' \<and> \<not> mr_inactive m)"
proof -
  have r: "resolveMerchant (Some (loadDirectory sample_merchants [])) (Some ''X*Swiggy-IM'') None
     = Some \<lparr>rs_slug = ''im'', rs_via = ''alias'', rs_match = ''swiggy im''\<rparr>" by code_simp
  then show ?thesis using resolveMerchant_best[OF r] by auto
qed

section \<open>Parent chains\<close>

lemma climb_props:
  "distinct (climb d n seen cur) \<and> set (climb d n seen cur) \<inter> set seen = {} \<and> length (climb d n seen cur) \<le> n"
  by (induction d n seen cur rule: climb.induct) (auto split: option.splits)

text \<open>Each listed slug is the parent of the one before it.\<close>

fun chain_from :: "directory \<Rightarrow> merchant_row option \<Rightarrow> string list \<Rightarrow> bool" where
  "chain_from d cur [] = True"
| "chain_from d cur (p # ps) = ((\<exists>m. cur = Some m \<and> mr_parent_slug m = Some p)
     \<and> chain_from d (map_of (dir_merchants d) p) ps)"

lemma climb_chain: "chain_from d cur (climb d n seen cur)"
  by (induction d n seen cur rule: climb.induct) (auto split: option.splits)

text \<open>
  C40: The ancestors of a merchant are at most five different slugs, never the merchant itself even
  when the parent links form a cycle, and each is the parent of the one before it.
\<close>

theorem ancestors_chain:
  "length (ancestors dir slug) \<le> 5 \<and> distinct (ancestors dir slug)
   \<and> (\<forall>s. slug = Some s \<longrightarrow> s \<notin> set (ancestors dir slug))
   \<and> (\<forall>d s. dir = Some d \<longrightarrow> slug = Some s \<longrightarrow> chain_from d (map_of (dir_merchants d) s) (ancestors dir slug))"
proof (cases "\<exists>d s. dir = Some d \<and> slug = Some s")
  case True
  then obtain d s where ds: "dir = Some d" "slug = Some s" by blast
  have e: "ancestors dir slug = climb d 5 [s] (map_of (dir_merchants d) s)"
    by (simp add: ancestors_def ds MAX_ANCESTOR_DEPTH_def)
  show ?thesis
    using climb_props[of d 5 "[s]" "map_of (dir_merchants d) s"] climb_chain[of d _ 5 "[s]"]
    unfolding e by (simp add: ds)
next
  case False
  then have e: "ancestors dir slug = []" by (auto simp: ancestors_def split: option.splits)
  show ?thesis unfolding e using False by auto
qed

lemma ancestors_chain_witness:
  "ancestors (Some (loadDirectory sample_merchants [])) (Some ''im'') = [''sw'']
   \<and> chain_from (loadDirectory sample_merchants [])
       (map_of (dir_merchants (loadDirectory sample_merchants [])) ''im'') [''sw'']"
proof -
  have a: "ancestors (Some (loadDirectory sample_merchants [])) (Some ''im'') = [''sw'']" by code_simp
  then show ?thesis using ancestors_chain[of "Some (loadDirectory sample_merchants [])" "Some ''im''"] by simp
qed

end
