(* ===== verification/JsError.thy ===== *)
theory JsError
  imports JsVal
begin

text \<open>
  The exceptions the Number and BigInt primitives throw, and the primitives that can throw them:
  \<open>BigInt(number)\<close> of a non-integer and a BigInt division by zero are both \<open>RangeError\<close>s.
\<close>

datatype js_error = RangeError

definition big :: "jsnum \<Rightarrow> js_error + int" where
  "big x = (if is_integer x then Inr (to_bigint x) else Inl RangeError)"

definition big_div :: "int \<Rightarrow> int \<Rightarrow> js_error + int" where
  "big_div n d = (if d = 0 then Inl RangeError
     else Inr (if (n < 0) = (d < 0) then \<bar>n\<bar> div \<bar>d\<bar> else - (\<bar>n\<bar> div \<bar>d\<bar>)))"

lemma big_div_pos: "0 \<le> n \<Longrightarrow> 0 < d \<Longrightarrow> big_div n d = Inr (n div d)"
  by (cases "n = 0") (auto simp: big_div_def)

text \<open>\<open>xs.map(f)\<close> where \<open>f\<close> may throw.\<close>

fun emap :: "('a \<Rightarrow> 'e + 'b) \<Rightarrow> 'a list \<Rightarrow> 'e + 'b list" where
  "emap f [] = Inr []"
| "emap f (x # xs) = ebind (f x) (\<lambda>y. ebind (emap f xs) (\<lambda>ys. Inr (y # ys)))"

lemma emap_Inr: "emap f xs = Inr ys \<longleftrightarrow> length ys = length xs \<and> (\<forall>i < length xs. f (xs ! i) = Inr (ys ! i))"
proof (induction xs arbitrary: ys)
  case Nil
  then show ?case by auto
next
  case (Cons x xs)
  show ?case
    by (cases ys) (auto simp: ebind_eq_Inr Cons.IH All_less_Suc2)
qed

lemma emap_map: "(\<And>x. x \<in> set xs \<Longrightarrow> f x = Inr (g x)) \<Longrightarrow> emap f xs = Inr (map g xs)"
  by (induction xs) auto

lemma set_emap: "emap f xs = Inr ys \<Longrightarrow> y \<in> set ys \<Longrightarrow> \<exists>x \<in> set xs. f x = Inr y"
proof (induction xs arbitrary: ys)
  case Nil
  then show ?case by simp
next
  case (Cons x xs)
  then show ?case by (auto simp: ebind_eq_Inr)
qed

end
