(* ===== verification/RewardV2.thy ===== *)
theory RewardV2
  imports RewardV1 MerchantDirectory JsError
begin

text \<open>
  \<open>api/src/reward_math_v2.js\<close>: what a second-generation card earns on one transaction and what it
  consumes of its caps. Rule roles, merchant, platform, MCC and rail restrictions, exact accrual in
  integer paise, native-unit caps with parents, and the delegation of first-generation cards. The
  code throws only where a BigInt primitive does; that is the \<open>Inl\<close> branch.
\<close>

section \<open>Units, roles and conversions\<close>

definition POINTS_UNITS :: "string list" where
  "POINTS_UNITS = [''points_per_100'', ''points_per_150'', ''points_per_200'', ''miles_per_100'', ''flat_points'']"

definition CASHBACK_UNITS :: "string list" where
  "CASHBACK_UNITS = [''cashback_percent'', ''discount_percent'']"

definition UNIT_BLOCK :: "string \<Rightarrow> jsnum option" where
  "UNIT_BLOCK unit = map_of [(''points_per_100'', Fin 100), (''points_per_150'', Fin 150),
     (''points_per_200'', Fin 200), (''miles_per_100'', Fin 100)] unit"

definition ROLES :: "string list" where
  "ROLES = [''base'', ''earn'', ''exclusion'', ''info'']"

definition CAP_KINDS :: "string list" where
  "CAP_KINDS = [''bonus_points'', ''total_points'', ''bonus_cashback'', ''total_cashback'', ''eligible_spend'', ''txn_count'']"

definition POST_CAP :: "string list" where
  "POST_CAP = [''base_rate'', ''zero'', ''custom_rate'']"

definition ROUNDING :: "string list" where
  "ROUNDING = [''floor'', ''round'', ''none'', ''points_half_up'', ''points_floor'']"

definition CASHBACK_ROUNDING :: "string list" where
  "CASHBACK_ROUNDING = [''paise'', ''rupee_floor'', ''rupee_half_up'']"

definition RAILS :: "string list" where
  "RAILS = [''upi_qr'', ''swipe'', ''online'', ''contactless'', ''atm'', ''emi'', ''unknown'']"

definition PAISE_EPS :: jsnum where
  "PAISE_EPS = lit (1 / 10 ^ 6)"

text \<open>\<open>SET.has(value)\<close> for a text that may be null.\<close>

definition member_text :: "string option \<Rightarrow> string list \<Rightarrow> bool" where
  "member_text v xs = (case v of None \<Rightarrow> False | Some s \<Rightarrow> s \<in> set xs)"

definition num :: "jsval \<Rightarrow> jsnum option" where
  "num v = (if nullish v \<or> v = JStr [] then None
     else if is_finite (to_number v) then Some (to_number v) else None)"

text \<open>\<open>num(v) || 0\<close> and \<open>num(v) ?? 0\<close> agree.\<close>

definition num_or_0 :: "jsval \<Rightarrow> jsnum" where
  "num_or_0 v = (case num v of None \<Rightarrow> Fin 0 | Some n \<Rightarrow> n)"

definition round2 :: "jsnum \<Rightarrow> jsnum" where
  "round2 v = (if is_finite v then jround (v * Fin 100 + PAISE_EPS) / Fin 100 else Fin 0)"

datatype currency = Points | Cashback

definition currencyOf :: "string option \<Rightarrow> currency option" where
  "currencyOf unit = (if member_text unit POINTS_UNITS then Some Points
     else if member_text unit CASHBACK_UNITS then Some Cashback else None)"

definition roleOf :: "rule_row \<Rightarrow> string" where
  "roleOf r = (case rr_rule_role r of None \<Rightarrow> ''earn'' | Some role \<Rightarrow> role)"

section \<open>Which engine\<close>

definition hasValue :: "jsval \<Rightarrow> bool" where
  "hasValue v = (case v of JArr xs \<Rightarrow> xs \<noteq> [] | _ \<Rightarrow> \<not> nullish v)"

definition ruleIsV2 :: "rule_row \<Rightarrow> bool" where
  "ruleIsV2 r \<longleftrightarrow> member_text (rr_rule_role r) [''base'', ''exclusion'', ''info'']
     \<or> (rr_rule_role r \<noteq> None \<and> \<not> member_text (rr_rule_role r) ROLES)
     \<or> hasValue (rr_merchant_slugs r) \<or> hasValue (rr_platform_slugs r)
     \<or> hasValue (rr_mcc_include r) \<or> hasValue (rr_mcc_exclude r)
     \<or> hasValue (rr_except_merchant_slugs r) \<or> hasValue (rr_except_platform_slugs r)
     \<or> (rr_rule_role r = Some ''exclusion'' \<and> \<not> nullish (rr_max_txn_inr r))
     \<or> \<not> nullish (rr_block_inr r) \<or> \<not> nullish (rr_max_engine_version r)
     \<or> num (rr_min_engine_version r) = Some (Fin 2)"

definition isV1Only :: "rule_row \<Rightarrow> bool" where
  "isV1Only r \<longleftrightarrow> \<not> nullish (rr_max_engine_version r) \<and> num (rr_max_engine_version r) = Some (Fin 1)"

definition isStringList :: "jsval \<Rightarrow> bool" where
  "isStringList v = (case v of JArr xs \<Rightarrow> list_all is_str xs | _ \<Rightarrow> False)"

definition list_fields :: "rule_row \<Rightarrow> (string \<times> jsval) list" where
  "list_fields r = [(''merchant_slugs'', rr_merchant_slugs r), (''platform_slugs'', rr_platform_slugs r),
     (''mcc_include'', rr_mcc_include r), (''mcc_exclude'', rr_mcc_exclude r),
     (''except_merchant_slugs'', rr_except_merchant_slugs r), (''except_platform_slugs'', rr_except_platform_slugs r)]"

definition ruleProblem :: "rule_row \<Rightarrow> string option" where
  "ruleProblem r =
     (if rr_rule_role r \<noteq> None \<and> \<not> member_text (rr_rule_role r) ROLES then Some ''unknown_rule_role''
      else if rr_unit r \<noteq> None \<and> currencyOf (rr_unit r) = None then Some ''unknown_unit''
      else if rr_rail r \<noteq> None \<and> \<not> member_text (rr_rail r) RAILS then Some ''unknown_rail''
      else case find (\<lambda>(k, v). \<not> nullish v \<and> \<not> isStringList v) (list_fields r) of
          Some (k, v) \<Rightarrow> Some (''unparseable_'' @ k)
        | None \<Rightarrow>
            if \<not> nullish (rr_block_inr r) \<and> num (rr_block_inr r) = None then Some ''unparseable_block_inr''
            else if \<not> nullish (rr_max_engine_version r) \<and> num (rr_max_engine_version r) = None
              then Some ''unparseable_max_engine_version''
            else None)"

definition isV2Card :: "card_row \<Rightarrow> rule_row list \<Rightarrow> cap_row list \<Rightarrow> bool" where
  "isV2Card cd rules caps \<longleftrightarrow> cd_accrual_rounding cd \<noteq> None \<or> cd_cashback_rounding cd \<noteq> None
     \<or> list_ex (\<lambda>c. cr_cap_kind c \<noteq> None) caps \<or> list_ex ruleIsV2 rules"

section \<open>Context\<close>

text \<open>The request, in either spelling; texts are what \<open>String(v)\<close> gives.\<close>

record raw_ctx =
  rc_amount :: jsval
  rc_amountInr :: jsval
  rc_occurred :: date_value
  rc_occurredAt :: date_value
  rc_category_id :: "string option"
  rc_categoryId :: "string option"
  rc_category_slug :: "string option"
  rc_categorySlug :: "string option"
  rc_mcc :: "string option"
  rc_merchant_name :: "string option"
  rc_merchantName :: "string option"
  rc_merchant_vpa :: "string option"
  rc_merchantVpa :: "string option"
  rc_merchant_slug :: "string option"
  rc_merchantSlug :: "string option"
  rc_platform :: "string option"
  rc_rail :: "string option"

record v2_ctx =
  c_amount :: jsnum
  c_occurred :: date_value
  c_category_id :: "string option"
  c_category_slug :: "string option"
  c_mcc :: "string option"
  c_merchant_name :: "string option"
  c_merchant_vpa :: "string option"
  c_merchant_slug :: "string option"
  c_platform :: "string option"
  c_rail :: string
  c_resolvedMerchantSlug :: "string option"
  c_merchantResolvedVia :: "string option"
  c_merchantChain :: "string list"

definition first_text :: "string option \<Rightarrow> string option \<Rightarrow> string option" where
  "first_text a b = (if a \<noteq> None then a else b)"

definition normalizeContext :: "raw_ctx \<Rightarrow> v2_ctx" where
  "normalizeContext c =
     \<lparr>c_amount = to_number (if \<not> nullish (rc_amount c) then rc_amount c
                            else if \<not> nullish (rc_amountInr c) then rc_amountInr c else JNull),
      c_occurred = (if rc_occurred c \<noteq> DNull then rc_occurred c else rc_occurredAt c),
      c_category_id = first_text (rc_category_id c) (rc_categoryId c),
      c_category_slug = first_text (rc_category_slug c) (rc_categorySlug c),
      c_mcc = (case rc_mcc c of None \<Rightarrow> None | Some m \<Rightarrow> if js_trim m = [] then None else Some (js_trim m)),
      c_merchant_name = first_text (rc_merchant_name c) (rc_merchantName c),
      c_merchant_vpa = first_text (rc_merchant_vpa c) (rc_merchantVpa c),
      c_merchant_slug = first_text (rc_merchant_slug c) (rc_merchantSlug c),
      c_platform = rc_platform c,
      c_rail = (if has_text (rc_rail c) then text_of (rc_rail c) else ''unknown''),
      c_resolvedMerchantSlug = None, c_merchantResolvedVia = None, c_merchantChain = []\<rparr>"

definition resolveContext :: "raw_ctx \<Rightarrow> directory option \<Rightarrow> v2_ctx" where
  "resolveContext raw dir =
     (let c = normalizeContext raw;
          (slug, via) = (case c_merchant_slug c of
              Some s \<Rightarrow> (Some s, Some ''given'')
            | None \<Rightarrow> (case resolveMerchant dir (c_merchant_name c) (c_merchant_vpa c) of
                Some hit \<Rightarrow> (Some (rs_slug hit), Some (rs_via hit)) | None \<Rightarrow> (None, None))) in
      c\<lparr>c_resolvedMerchantSlug := slug, c_merchantResolvedVia := via,
        c_merchantChain := (case slug of None \<Rightarrow> [] | Some s \<Rightarrow> s # ancestors dir (Some s))\<rparr>)"

section \<open>Applicability\<close>

definition merchant_ok :: "rule_row \<Rightarrow> v2_ctx \<Rightarrow> bool" where
  "merchant_ok r c = (if jarr (rr_merchant_slugs r) \<noteq> []
     then list_ex (has_str (jarr (rr_merchant_slugs r))) (c_merchantChain c)
     else merchant_matches (rr_merchant_pattern r) (c_merchant_name c))"

definition platform_ok :: "rule_row \<Rightarrow> v2_ctx \<Rightarrow> bool" where
  "platform_ok r c \<longleftrightarrow> (jarr (rr_platform_slugs r) \<noteq> [] \<longrightarrow> includes_text (rr_platform_slugs r) (c_platform c))"

definition not_excepted :: "rule_row \<Rightarrow> v2_ctx \<Rightarrow> bool" where
  "not_excepted r c \<longleftrightarrow> \<not> list_ex (has_str (jarr (rr_except_merchant_slugs r))) (c_merchantChain c)
     \<and> \<not> includes_text (rr_except_platform_slugs r) (c_platform c)"

definition mcc_ok :: "rule_row \<Rightarrow> v2_ctx \<Rightarrow> bool" where
  "mcc_ok r c \<longleftrightarrow>
     (jarr (rr_mcc_include r) \<noteq> [] \<longrightarrow>
        (if c_mcc c \<noteq> None then includes_text (rr_mcc_include r) (c_mcc c) else rr_category_id r \<noteq> None))
     \<and> \<not> includes_text (rr_mcc_exclude r) (c_mcc c)"

definition amount_ok :: "rule_row \<Rightarrow> v2_ctx \<Rightarrow> bool" where
  "amount_ok r c \<longleftrightarrow>
     \<not> (case num (rr_min_txn_inr r) of None \<Rightarrow> False | Some m \<Rightarrow> c_amount c < m)
     \<and> (roleOf r = ''exclusion'' \<longrightarrow>
          (case num (rr_max_txn_inr r) of None \<Rightarrow> True | Some b \<Rightarrow> c_amount c < b))"

definition ruleAppliesV2 :: "int \<Rightarrow> rule_row \<Rightarrow> v2_ctx \<Rightarrow> bool" where
  "ruleAppliesV2 tz r c \<longleftrightarrow> \<not> isV1Only r \<and> ruleProblem r = None \<and> roleOf r \<noteq> ''info''
     \<and> in_effect tz r (c_occurred c)
     \<and> (rr_category_id r = None \<or> rr_category_id r = c_category_id c)
     \<and> \<not> includes_text (rr_excluded_categories r) (c_category_id c)
     \<and> merchant_ok r c \<and> platform_ok r c \<and> not_excepted r c \<and> mcc_ok r c
     \<and> (rr_rail r = None \<or> (c_rail c \<noteq> ''unknown'' \<and> rr_rail r = Some (c_rail c)))
     \<and> amount_ok r c"

section \<open>Accrual\<close>

text \<open>
  \<open>exactDecimal(value)\<close>: the value as a fraction with at most eight decimals; the loop of the
  source runs over the number of decimals.
\<close>

fun exact_loop :: "jsnum \<Rightarrow> nat list \<Rightarrow> js_error + int \<times> int" where
  "exact_loop v [] = ebind (big (jround (v * Fin (10 ^ 8)))) (\<lambda>n. Inr (n, 100000000))"
| "exact_loop v (dp # dps) =
     (let scale = Fin (10 ^ dp); scaled = v * scale; whole = jround scaled in
      if jabs (scaled - whole) \<le> lit (1 / 10 ^ 9) * jmax (Fin 1) (jabs scaled)
      then ebind (big whole) (\<lambda>n. ebind (big scale) (\<lambda>d. Inr (n, d)))
      else exact_loop v dps)"

definition exactDecimal :: "jsnum \<Rightarrow> js_error + int \<times> int" where
  "exactDecimal v = exact_loop v [0, 1, 2, 3, 4, 5, 6, 7, 8]"

definition divHalfUp :: "int \<Rightarrow> int \<Rightarrow> js_error + int" where
  "divHalfUp n d = big_div (2 * n + d) (2 * d)"

definition paise_of :: "jsnum \<Rightarrow> js_error + int" where
  "paise_of rupees = big (jround (rupees * Fin 100))"

definition accrue_cashback :: "jsnum \<Rightarrow> jsnum \<Rightarrow> string \<Rightarrow> js_error + jsnum" where
  "accrue_cashback r spend cashbackRounding =
     ebind (exactDecimal r) (\<lambda>(rateNum, rateDen). ebind (paise_of spend) (\<lambda>p.
       let n = p * rateNum; toPaise = 100 * rateDen in
       if cashbackRounding = ''rupee_floor'' then ebind (big_div n (toPaise * 100)) (\<lambda>q. Inr (of_bigint q))
       else if cashbackRounding = ''rupee_half_up'' then ebind (divHalfUp n (toPaise * 100)) (\<lambda>q. Inr (of_bigint q))
       else ebind (divHalfUp n toPaise) (\<lambda>q. Inr (of_bigint q / Fin 100))))"

definition block_of :: "string \<Rightarrow> jsval \<Rightarrow> jsnum option" where
  "block_of unit blockOverride = (case num blockOverride of
      Some b \<Rightarrow> if Fin 0 < b then Some b else UNIT_BLOCK unit
    | None \<Rightarrow> UNIT_BLOCK unit)"

definition accrue_points :: "jsnum \<Rightarrow> jsnum \<Rightarrow> jsnum \<Rightarrow> string \<Rightarrow> js_error + jsnum" where
  "accrue_points r spend block mode =
     (if mode = ''none'' then Inr (spend / block * r)
      else ebind (paise_of spend) (\<lambda>spendPaise. ebind (paise_of block) (\<lambda>blockPaise.
        if mode = ''points_floor'' \<or> mode = ''points_half_up'' then
          ebind (exactDecimal r) (\<lambda>(rateNum, rateDen).
            let n = spendPaise * rateNum; d = blockPaise * rateDen in
            ebind (if mode = ''points_floor'' then big_div n d else divHalfUp n d) (\<lambda>q. Inr (of_bigint q)))
        else ebind (if mode = ''round'' then divHalfUp spendPaise blockPaise else big_div spendPaise blockPaise)
               (\<lambda>blocks. Inr (of_bigint blocks * r)))))"

definition accrue :: "string option \<Rightarrow> jsval \<Rightarrow> jsnum \<Rightarrow> jsval \<Rightarrow> string \<Rightarrow> string \<Rightarrow> js_error + jsnum" where
  "accrue unit rate spend blockOverride mode cashbackRounding = (case num rate of
      None \<Rightarrow> Inr (Fin 0)
    | Some r \<Rightarrow>
        if \<not> has_text unit \<or> r \<le> Fin 0 \<or> \<not> Fin 0 < spend then Inr (Fin 0)
        else if text_of unit \<in> set CASHBACK_UNITS then accrue_cashback r spend cashbackRounding
        else if unit = Some ''flat_points'' then Inr r
        else case block_of (text_of unit) blockOverride of None \<Rightarrow> Inr (Fin 0)
             | Some block \<Rightarrow> accrue_points r spend block mode)"

section \<open>Rule selection\<close>

record v2_modes =
  md_pointValue :: jsnum
  md_rounding :: string
  md_cashbackRounding :: string
  md_baseUnit :: "string option"
  md_baseRate :: "jsnum option"

definition cardModes :: "card_row \<Rightarrow> v2_modes" where
  "cardModes cd =
     \<lparr>md_pointValue = num_or_0 (cd_point_value_inr cd),
      md_rounding = (if member_text (cd_accrual_rounding cd) ROUNDING then text_of (cd_accrual_rounding cd) else ''floor''),
      md_cashbackRounding = (if cd_cashback_rounding cd = None then ''paise''
         else if member_text (cd_cashback_rounding cd) CASHBACK_ROUNDING then text_of (cd_cashback_rounding cd)
         else ''rupee_floor''),
      md_baseUnit = or_text (cd_base_reward_unit cd) None,
      md_baseRate = num (cd_base_reward_rate cd)\<rparr>"

definition of_num :: "jsnum option \<Rightarrow> jsval" where
  "of_num v = (case v of None \<Rightarrow> JNull | Some n \<Rightarrow> JNum n)"

definition accrueAt :: "v2_modes \<Rightarrow> string option \<Rightarrow> jsval \<Rightarrow> jsnum \<Rightarrow> jsval \<Rightarrow> js_error + jsnum" where
  "accrueAt m unit rate spend block = accrue unit rate spend block (md_rounding m) (md_cashbackRounding m)"

definition accrueBase :: "v2_modes \<Rightarrow> jsnum \<Rightarrow> js_error + jsnum" where
  "accrueBase m spend = accrueAt m (md_baseUnit m) (of_num (md_baseRate m)) spend JNull"

definition valueOf :: "jsnum \<Rightarrow> currency option \<Rightarrow> jsnum \<Rightarrow> jsnum" where
  "valueOf amount cur pointValue = (case cur of Some Points \<Rightarrow> amount * pointValue | Some Cashback \<Rightarrow> amount
     | None \<Rightarrow> Fin 0)"

text \<open>The part of the amount at or below the rule's per-transaction ceiling.\<close>

definition eligible_spend :: "rule_row \<Rightarrow> v2_ctx \<Rightarrow> jsnum" where
  "eligible_spend r c = (case num (rr_max_txn_inr r) of None \<Rightarrow> c_amount c
     | Some m \<Rightarrow> if m < c_amount c then jmax (Fin 0) m else c_amount c)"

definition preCapValue :: "rule_row \<Rightarrow> v2_ctx \<Rightarrow> v2_modes \<Rightarrow> js_error + jsnum" where
  "preCapValue r c m =
     (if \<not> has_text (rr_unit r) \<or> num (rr_rate r) = None then Inr (Fin 0)
      else ebind (accrueAt m (rr_unit r) (rr_rate r) (eligible_spend r c) (rr_block_inr r)) (\<lambda>own.
           ebind (accrueBase m (c_amount c - eligible_spend r c)) (\<lambda>over.
             Inr (valueOf own (currencyOf (rr_unit r)) (md_pointValue m)
                  + valueOf over (currencyOf (md_baseUnit m)) (md_pointValue m)))))"

text \<open>The sort key: priority, rule value in whole paise, id. Ranked rows compare by it.\<close>

record ranked =
  rk_rule :: rule_row
  rk_priority :: int
  rk_value :: jsnum

definition rank_rule :: "v2_ctx \<Rightarrow> v2_modes \<Rightarrow> rule_row \<Rightarrow> js_error + ranked" where
  "rank_rule c m r = ebind (preCapValue r c m) (\<lambda>v.
     Inr \<lparr>rk_rule = r, rk_priority = prio r, rk_value = jround (v * Fin 100 + PAISE_EPS)\<rparr>)"

text \<open>
  The comparator returns \<open>b.value - a.value\<close>, which is \<open>NaN\<close> when a value is; the sort reads
  that as equal.
\<close>

definition ranked_le :: "ranked \<Rightarrow> ranked \<Rightarrow> bool" where
  "ranked_le a b =
     (if rk_priority a \<noteq> rk_priority b then rk_priority a < rk_priority b
      else if \<not> jeq (rk_value a) (rk_value b)
        then (let d = rk_value b - rk_value a in \<not> Fin 0 < d)
      else str_le (text_of (rr_id (rk_rule a))) (text_of (rr_id (rk_rule b))))"

definition byPriority :: "rule_row list \<Rightarrow> v2_ctx \<Rightarrow> v2_modes \<Rightarrow> js_error + rule_row list" where
  "byPriority rules c m = ebind (emap (rank_rule c m) rules) (\<lambda>rs. Inr (map rk_rule (jsort ranked_le rs)))"

definition implicitBaseRule :: "card_row \<Rightarrow> rule_row" where
  "implicitBaseRule cd = blank_rule\<lparr>rr_rule_role := Some ''base'', rr_unit := or_text (cd_base_reward_unit cd) None,
     rr_rate := of_num (num (cd_base_reward_rate cd))\<rparr>"

record pick =
  pk_excluded :: bool
  pk_rule :: "rule_row option"
  pk_implicit :: bool
  pk_skipped :: "(string option \<times> string \<times> bool) list"

definition skippedRules :: "rule_row list \<Rightarrow> (string option \<times> string \<times> bool) list" where
  "skippedRules rules = List.map_filter (\<lambda>r. case ruleProblem r of None \<Rightarrow> None
       | Some problem \<Rightarrow> Some (rr_id r, problem, rr_rule_role r = Some ''exclusion''))
     (filter (\<lambda>r. \<not> isV1Only r) rules)"

definition exclusion_rules :: "int \<Rightarrow> rule_row list \<Rightarrow> v2_ctx \<Rightarrow> rule_row list" where
  "exclusion_rules tz rules c = filter (\<lambda>r. roleOf r = ''exclusion'') (filter (\<lambda>r. ruleAppliesV2 tz r c)
     (filter (\<lambda>r. \<not> isV1Only r) rules))"

definition earner_rules :: "int \<Rightarrow> rule_row list \<Rightarrow> v2_ctx \<Rightarrow> rule_row list" where
  "earner_rules tz rules c = filter (\<lambda>r. roleOf r = ''base'' \<or> roleOf r = ''earn'')
     (filter (\<lambda>r. ruleAppliesV2 tz r c) (filter (\<lambda>r. \<not> isV1Only r) rules))"

definition pickRuleV2 :: "int \<Rightarrow> rule_row list \<Rightarrow> v2_ctx \<Rightarrow> card_row \<Rightarrow> js_error + pick" where
  "pickRuleV2 tz rules c cd =
     (let m = cardModes cd;
          result = (\<lambda>excluded rule implicit. \<lparr>pk_excluded = excluded, pk_rule = rule, pk_implicit = implicit,
                      pk_skipped = skippedRules rules\<rparr>) in
      if exclusion_rules tz rules c \<noteq> [] then
        ebind (byPriority (exclusion_rules tz rules c) c m) (\<lambda>rs. Inr (result True (Some (hd rs)) False))
      else if includes_text (cd_excluded_categories cd) (c_category_id c) then Inr (result True None False)
      else if earner_rules tz rules c = [] then Inr (result False (Some (implicitBaseRule cd)) True)
      else ebind (byPriority (earner_rules tz rules c) c m) (\<lambda>rs. Inr (result False (Some (hd rs)) False)))"

section \<open>Caps in native units\<close>

definition postCapBehavior :: "cap_row \<Rightarrow> string option" where
  "postCapBehavior c = (case cr_post_cap_behavior c of
      Some b \<Rightarrow> if b \<in> set POST_CAP then Some b else None
    | None \<Rightarrow> (case num (cr_post_cap_rate c) of None \<Rightarrow> Some ''base_rate''
        | Some rate \<Rightarrow> if jeq rate (Fin 0) then Some ''zero'' else Some ''custom_rate''))"

record native_cap =
  nc_id :: string
  nc_kind :: string
  nc_amount :: jsnum
  nc_behavior :: string
  nc_postUnit :: "string option"
  nc_postRate :: "jsnum option"
  nc_legacy :: bool

text \<open>The kind and amount of a cap, \<open>Inl\<close> the reason why it is skipped.\<close>

definition legacy_measure :: "cap_row \<Rightarrow> rule_row option \<Rightarrow> card_row \<Rightarrow> string + string \<times> jsnum" where
  "legacy_measure c rule cd = (case num (cr_cap_value c) of
      None \<Rightarrow> Inl ''missing_cap_value''
    | Some v \<Rightarrow>
        if cr_measure c = Some ''spend_amount'' then Inr (''eligible_spend'', v)
        else if cr_measure c = Some ''txn_count'' then Inr (''txn_count'', v)
        else if cr_measure c = Some ''reward_value'' then
          (case currencyOf (case rule of None \<Rightarrow> None | Some r \<Rightarrow> rr_unit r) of
             Some Cashback \<Rightarrow> Inr (''total_cashback'', v)
           | Some Points \<Rightarrow>
               (let pointValue = num_or_0 (cd_point_value_inr cd) in
                if \<not> Fin 0 < pointValue then Inl ''no_point_value'' else Inr (''total_points'', v / pointValue))
           | None \<Rightarrow> Inl ''unknown_rule_currency'')
        else Inl ''unknown_measure'')"

definition cap_measure :: "cap_row \<Rightarrow> rule_row option \<Rightarrow> card_row \<Rightarrow> string + string \<times> jsnum" where
  "cap_measure c rule cd = (case cr_cap_kind c of
      None \<Rightarrow> legacy_measure c rule cd
    | Some kind \<Rightarrow> if kind \<notin> set CAP_KINDS then Inl ''unknown_cap_kind''
        else case num (cr_cap_amount c) of None \<Rightarrow> Inl ''missing_cap_amount'' | Some a \<Rightarrow> Inr (kind, a))"

definition normalizeCap :: "cap_row \<Rightarrow> rule_row option \<Rightarrow> card_row \<Rightarrow> string + native_cap" where
  "normalizeCap c rule cd = ebind (cap_measure c rule cd) (\<lambda>(kind, amount).
     case postCapBehavior c of None \<Rightarrow> Inl ''unknown_post_cap_behavior''
     | Some behavior \<Rightarrow> Inr \<lparr>nc_id = text_of (cr_id c), nc_kind = kind, nc_amount = amount, nc_behavior = behavior,
         nc_postUnit = or_text (cr_post_cap_unit c) None, nc_postRate = num (cr_post_cap_rate c),
         nc_legacy = (cr_cap_kind c = None)\<rparr>)"

definition identified :: "cap_row list \<Rightarrow> cap_row list" where
  "identified caps = filter (\<lambda>c. cr_id c \<noteq> None) caps"

definition cap_key :: "cap_row \<Rightarrow> string" where
  "cap_key c = text_of (cr_id c)"

definition cap_by_id :: "cap_row list \<Rightarrow> string \<Rightarrow> cap_row option" where
  "cap_by_id caps = map_of (rev (map (\<lambda>c. (cap_key c, c)) caps))"

definition scope_of :: "cap_row \<Rightarrow> string" where
  "scope_of c = (case cr_scope c of None \<Rightarrow> ''targets'' | Some s \<Rightarrow> s)"

definition known_scope :: "cap_row \<Rightarrow> bool" where
  "known_scope c \<longleftrightarrow> scope_of c = ''card'' \<or> scope_of c = ''targets''"

text \<open>Whether a cap of a known scope is chosen by itself.\<close>

definition cap_hits :: "string option \<Rightarrow> string option \<Rightarrow> cap_row \<Rightarrow> bool" where
  "cap_hits ruleId categoryId c =
     (if scope_of c = ''card'' then True
      else if jarr (cr_targets c) \<noteq> [] then includes_text (cr_targets c) ruleId
      else if cr_reward_rule_id c \<noteq> None then ruleId \<noteq> None \<and> cr_reward_rule_id c = ruleId
      else cr_category_id c \<noteq> None \<and> cr_category_id c = categoryId)"

text \<open>The two sets the loops grow, in insertion order: \<open>Set.add\<close> and a pushed skip entry.\<close>

definition add_new :: "'a \<Rightarrow> 'a list \<Rightarrow> 'a list" where
  "add_new x xs = (if x \<in> set xs then xs else xs @ [x])"

definition skip_entry :: "cap_row \<Rightarrow> string \<Rightarrow> string" where
  "skip_entry c reason = ''cap_skipped:'' @ cap_key c @ '':'' @ reason"

definition choose_cap :: "string option \<Rightarrow> string option \<Rightarrow> string list \<times> string list \<Rightarrow> cap_row \<Rightarrow> string list \<times> string list" where
  "choose_cap ruleId categoryId st c =
     (if \<not> known_scope c then (fst st, add_new (skip_entry c ''unknown_scope'') (snd st))
      else if cap_hits ruleId categoryId c then (add_new (cap_key c) (fst st), snd st)
      else st)"

text \<open>The parent links followed from one chosen cap, until one is missing or already chosen.\<close>

function climb_parents :: "cap_row list \<Rightarrow> string option \<Rightarrow> string list \<Rightarrow> string list" where
  "climb_parents caps parent chosen = (case parent of
      None \<Rightarrow> chosen
    | Some p \<Rightarrow> (case cap_by_id caps p of
        None \<Rightarrow> chosen
      | Some row \<Rightarrow> if p \<in> set chosen then chosen else climb_parents caps (cr_parent_cap_id row) (chosen @ [p])))"
  by pat_completeness auto

lemma cap_by_id_Some: "cap_by_id caps p = Some row \<Longrightarrow> row \<in> set caps \<and> cap_key row = p"
proof -
  assume "cap_by_id caps p = Some row"
  then have "(p, row) \<in> set (rev (map (\<lambda>c. (cap_key c, c)) caps))" unfolding cap_by_id_def by (rule map_of_SomeD)
  then show ?thesis by auto
qed

lemma cap_by_id_None: "cap_by_id caps p = None \<longleftrightarrow> p \<notin> cap_key ` set caps"
  by (simp add: cap_by_id_def map_of_eq_None_iff image_image)

termination climb_parents
proof (relation "measure (\<lambda>(caps, parent, chosen). card (cap_key ` set caps - set chosen))", goal_cases)
  case 1
  show ?case by simp
next
  case (2 caps parent chosen p row)
  then have p: "p \<in> cap_key ` set caps - set chosen" using cap_by_id_Some[of caps p row] by blast
  have "cap_key ` set caps - set (chosen @ [p]) = cap_key ` set caps - set chosen - {p}" by auto
  moreover have "card (cap_key ` set caps - set chosen - {p}) < card (cap_key ` set caps - set chosen)"
    by (rule card_Diff1_less[OF _ p]) simp
  ultimately show ?case by simp
qed

declare climb_parents.simps [simp del]

definition parent_of :: "cap_row list \<Rightarrow> string \<Rightarrow> string option" where
  "parent_of caps i = (case cap_by_id caps i of None \<Rightarrow> None | Some row \<Rightarrow> cr_parent_cap_id row)"

definition add_parents :: "cap_row list \<Rightarrow> string list \<Rightarrow> string list \<Rightarrow> string list" where
  "add_parents caps ids chosen = foldl (\<lambda>ch i. climb_parents caps (parent_of caps i) ch) chosen ids"

definition collect_cap ::
  "rule_row option \<Rightarrow> card_row \<Rightarrow> string list \<Rightarrow> native_cap list \<times> string list \<Rightarrow> cap_row \<Rightarrow> native_cap list \<times> string list" where
  "collect_cap rule cd chosen st c =
     (if cap_key c \<notin> set chosen \<or> \<not> known_scope c then st
      else case normalizeCap c rule cd of
          Inr n \<Rightarrow> (fst st @ [n], snd st)
        | Inl reason \<Rightarrow> (fst st, add_new (skip_entry c reason) (snd st)))"

definition chosen_caps :: "cap_row list \<Rightarrow> string option \<Rightarrow> string option \<Rightarrow> string list" where
  "chosen_caps caps ruleId categoryId =
     (let chosen = fst (foldl (choose_cap ruleId categoryId) ([], []) caps) in add_parents caps chosen chosen)"

text \<open>The caps a transaction counts against, and the reasons of the skipped ones.\<close>

definition applicableCaps ::
  "card_row \<Rightarrow> cap_row list \<Rightarrow> rule_row option \<Rightarrow> string option \<Rightarrow> bool \<Rightarrow> native_cap list \<times> string list" where
  "applicableCaps cd capRules rule categoryId excluded =
     (if excluded then ([], [])
      else let caps = identified capRules;
               ruleId = (case rule of None \<Rightarrow> None | Some r \<Rightarrow> rr_id r);
               skipped = snd (foldl (choose_cap ruleId categoryId) ([], []) caps) in
        foldl (collect_cap rule cd (chosen_caps caps ruleId categoryId)) ([], skipped) caps)"

section \<open>First-generation cards\<close>

text \<open>
  \<open>capConsumedBefore\<close>: nothing, one Number (first generation), or an object keyed by cap id.
  A null id reads and prints as the word \<open>null\<close>.
\<close>

datatype consumed_before = NoneBefore | OneBefore jsnum | ByCap "(string \<times> jsval) list"

definition key_text :: "string option \<Rightarrow> string" where
  "key_text v = (case v of None \<Rightarrow> ''null'' | Some s \<Rightarrow> s)"

definition read_consumed :: "(string \<times> jsval) list \<Rightarrow> string \<Rightarrow> jsnum" where
  "read_consumed m k = num_or_0 (mget m k JUndef)"

record v2_result =
  r2_points :: "jsnum option"
  r2_cashbackInr :: "jsnum option"
  r2_valueInr :: jsnum
  r2_ruleId :: "string option"
  r2_capDeltas :: "(string \<times> jsnum) list"
  r2_excluded :: bool
  r2_reasons :: "string list"
  r2_assumptions :: "string list"
  r2_engine :: string
  r2_v1 :: "v1_reward option"

definition v1_context :: "v2_ctx \<Rightarrow> v1_ctx" where
  "v1_context c = \<lparr>vc_amount = c_amount c, vc_categoryId = c_category_id c, vc_merchantName = c_merchant_name c,
     vc_rail = Some (c_rail c), vc_occurred = c_occurred c\<rparr>"

definition v1_before :: "consumed_before \<Rightarrow> cap_row option \<Rightarrow> jsnum" where
  "v1_before before capRule = (case before of
      OneBefore n \<Rightarrow> n
    | NoneBefore \<Rightarrow> Fin 0
    | ByCap m \<Rightarrow> (case capRule of None \<Rightarrow> Fin 0 | Some c \<Rightarrow> read_consumed m (key_text (cr_id c))))"

definition computeViaV1 ::
  "int \<Rightarrow> card_row \<Rightarrow> rule_row list \<Rightarrow> cap_row list \<Rightarrow> consumed_before \<Rightarrow> raw_ctx \<Rightarrow> v2_result" where
  "computeViaV1 tz cd rules caps before raw =
     (let ctx = v1_context (normalizeContext raw);
          rule = pickRule tz rules ctx;
          capRule = (case rule of None \<Rightarrow> None | Some r \<Rightarrow> pickCapRule caps r ctx);
          r = computeTransactionReward tz cd rules caps (JNum (v1_before before capRule)) ctx;
          cur = (case currencyOf (cd_base_reward_unit cd) of Some k \<Rightarrow> k
                 | None \<Rightarrow> (case currencyOf (case rule of None \<Rightarrow> None | Some q \<Rightarrow> rr_unit q) of
                     Some k \<Rightarrow> k | None \<Rightarrow> Points)) in
      \<lparr>r2_points = (if cur = Points then Some (vr_points r) else None),
       r2_cashbackInr = (if cur = Cashback then Some (vr_points r) else None),
       r2_valueInr = vr_valueInr r, r2_ruleId = vr_ruleId r,
       r2_capDeltas = (case vr_capRuleId r of None \<Rightarrow> []
          | Some i \<Rightarrow> if vr_capConsumedDelta r \<noteq> Fin 0 then [(i, vr_capConsumedDelta r)] else []),
       r2_excluded = vr_excluded r, r2_reasons = (if vr_excluded r then [''excluded_category''] else []),
       r2_assumptions = [], r2_engine = ''v1'', r2_v1 = Some r\<rparr>)"

section \<open>The transaction\<close>

text \<open>What the answer assumes about the context.\<close>

definition context_assumptions :: "v2_ctx \<Rightarrow> rule_row list \<Rightarrow> string list" where
  "context_assumptions c rules =
     (let earning = filter (\<lambda>r. \<not> isV1Only r \<and> (roleOf r = ''earn'' \<or> roleOf r = ''base'')) rules in
      (if c_merchantResolvedVia c = Some ''alias'' then [''merchant_resolved_by_alias'']
       else if c_merchantResolvedVia c = Some ''vpa'' then [''merchant_resolved_by_vpa'']
       else if c_resolvedMerchantSlug c = None \<and> (has_text (c_merchant_name c) \<or> has_text (c_merchant_vpa c))
         then [''merchant_unresolved''] else [])
      @ (if c_rail c = ''unknown'' \<and> list_ex (\<lambda>r. rr_rail r \<noteq> None) earning then [''rail_unknown''] else [])
      @ (if c_platform c = None \<and> list_ex (\<lambda>r. jarr (rr_platform_slugs r) \<noteq> []) earning
         then [''platform_unknown''] else []))"

definition nothing_earned ::
  "currency option \<Rightarrow> string option \<Rightarrow> bool \<Rightarrow> string list \<Rightarrow> string list \<Rightarrow> v2_result" where
  "nothing_earned cur ruleId excluded reasons assumptions =
     \<lparr>r2_points = (if cur = Some Points then Some (Fin 0) else None),
      r2_cashbackInr = (if cur = Some Cashback then Some (Fin 0) else None), r2_valueInr = Fin 0,
      r2_ruleId = ruleId, r2_capDeltas = [], r2_excluded = excluded, r2_reasons = reasons,
      r2_assumptions = assumptions, r2_engine = ''v2'', r2_v1 = None\<rparr>"

definition remaining :: "(string \<times> jsval) list \<Rightarrow> native_cap \<Rightarrow> jsnum" where
  "remaining consumed c = jmax (Fin 0) (nc_amount c - read_consumed consumed (nc_id c))"

definition caps_of_kind :: "string \<Rightarrow> native_cap list \<Rightarrow> native_cap list" where
  "caps_of_kind kind caps = filter (\<lambda>c. nc_kind c = kind) caps"

definition bonus_caps :: "currency option \<Rightarrow> native_cap list \<Rightarrow> native_cap list" where
  "bonus_caps cur caps = (case cur of Some Points \<Rightarrow> caps_of_kind ''bonus_points'' caps
     | Some Cashback \<Rightarrow> caps_of_kind ''bonus_cashback'' caps | None \<Rightarrow> [])"

definition total_caps :: "currency \<Rightarrow> native_cap list \<Rightarrow> native_cap list" where
  "total_caps cur caps = caps_of_kind (if cur = Points then ''total_points'' else ''total_cashback'') caps"

text \<open>Steps 1 and 2: the tightest eligible-spend cap binds; an exhausted count cap takes everything.\<close>

definition tighter ::
  "(string \<times> jsval) list \<Rightarrow> native_cap option \<times> jsnum \<Rightarrow> native_cap \<Rightarrow> native_cap option \<times> jsnum" where
  "tighter consumed st c = (if remaining consumed c < snd st then (Some c, remaining consumed c) else st)"

record spend_split =
  ss_ruleSpend :: jsnum
  ss_binding :: "native_cap option"
  ss_forcing :: "native_cap option"
  ss_reasons :: "string list"

definition splitSpend :: "(string \<times> jsval) list \<Rightarrow> native_cap list \<Rightarrow> jsnum \<Rightarrow> spend_split" where
  "splitSpend consumed caps eligible =
     (let (binding, rem) = foldl (tighter consumed) (None, PInf) (caps_of_kind ''eligible_spend'' caps);
          ruleSpend = (if binding = None then eligible else jmin eligible rem);
          forcing = find (\<lambda>c. remaining consumed c < Fin 1) (caps_of_kind ''txn_count'' caps) in
      \<lparr>ss_ruleSpend = (if forcing = None then ruleSpend else Fin 0),
       ss_binding = (if forcing = None then binding else forcing), ss_forcing = forcing,
       ss_reasons = (if ruleSpend < eligible then [''spend_cap_reached''] else [])
         @ (if forcing = None then [] else [''txn_count_cap_reached''])\<rparr>)"

text \<open>Step 3: base part and bonus of the rule's own accrual, and the pieces earned elsewhere.\<close>

definition ruleParts :: "v2_modes \<Rightarrow> rule_row \<Rightarrow> bool \<Rightarrow> jsnum \<Rightarrow> js_error + jsnum \<times> jsnum" where
  "ruleParts m rule isBase ruleSpend =
     ebind (accrueAt m (or_text (rr_unit rule) None) (rr_rate rule) ruleSpend (rr_block_inr rule)) (\<lambda>ruleAccrual.
       if isBase then Inr (ruleAccrual, Fin 0)
       else if currencyOf (rr_unit rule) \<noteq> None \<and> currencyOf (rr_unit rule) = currencyOf (md_baseUnit m) then
         ebind (accrueBase m ruleSpend) (\<lambda>baseAccrual.
           let basePart = jmin ruleAccrual baseAccrual in Inr (basePart, ruleAccrual - basePart))
       else Inr (Fin 0, ruleAccrual))"

definition overflowPieces ::
  "v2_modes \<Rightarrow> rule_row \<Rightarrow> native_cap option \<Rightarrow> jsnum \<Rightarrow> js_error + (currency option \<times> jsnum) list" where
  "overflowPieces m rule binding overflow =
     (let behavior = (case binding of None \<Rightarrow> ''base_rate'' | Some c \<Rightarrow> nc_behavior c) in
      if \<not> Fin 0 < overflow then Inr []
      else if behavior = ''base_rate'' then
        ebind (accrueBase m overflow) (\<lambda>a. Inr [(currencyOf (md_baseUnit m), a)])
      else if behavior = ''custom_rate'' then
        (case binding of None \<Rightarrow> Inr [] | Some c \<Rightarrow>
          (let ownUnit = (nc_postUnit c = None);
               unit = (if ownUnit then or_text (rr_unit rule) None else nc_postUnit c) in
           ebind (accrueAt m unit (of_num (nc_postRate c)) overflow (if ownUnit then rr_block_inr rule else JNull))
             (\<lambda>a. Inr [(currencyOf unit, a)])))
      else Inr [])"

definition overMaxPieces :: "v2_modes \<Rightarrow> jsnum \<Rightarrow> js_error + (currency option \<times> jsnum) list" where
  "overMaxPieces m overMax = (if Fin 0 < overMax
     then ebind (accrueBase m overMax) (\<lambda>a. Inr [(currencyOf (md_baseUnit m), a)]) else Inr [])"

text \<open>Steps 4 to 6: bonus caps, earnings per currency, total caps.\<close>

definition under_caps :: "(string \<times> jsval) list \<Rightarrow> native_cap list \<Rightarrow> jsnum \<Rightarrow> jsnum" where
  "under_caps consumed caps x = foldl (\<lambda>a c. jmin a (remaining consumed c)) x caps"

definition earnedIn :: "currency option \<Rightarrow> jsnum \<Rightarrow> (currency option \<times> jsnum) list \<Rightarrow> currency \<Rightarrow> jsnum" where
  "earnedIn ruleCur ownPart pieces cur =
     foldl (\<lambda>e p. if fst p = Some cur then e + snd p else e) (if ruleCur = Some cur then Fin 0 + ownPart else Fin 0) pieces"

record settled =
  st_allowed :: jsnum
  st_cut :: jsnum

definition settleTotals :: "(string \<times> jsval) list \<Rightarrow> native_cap list \<Rightarrow> jsnum \<Rightarrow> settled" where
  "settleTotals consumed caps earned =
     (if caps = [] then \<lparr>st_allowed = earned, st_cut = Fin 0\<rparr>
      else \<lparr>st_allowed = under_caps consumed caps earned, st_cut = earned - under_caps consumed caps earned\<rparr>)"

text \<open>Step 7: the object of non-zero consumptions.\<close>

definition record_delta :: "(string \<times> jsnum) list \<Rightarrow> string \<times> jsnum \<Rightarrow> (string \<times> jsnum) list" where
  "record_delta m p = (if round2 (snd p) \<noteq> Fin 0 then mset_put (fst p) (round2 (snd p)) m else m)"

definition deltas_of :: "native_cap list \<Rightarrow> jsnum \<Rightarrow> (string \<times> jsnum) list" where
  "deltas_of caps v = map (\<lambda>c. (nc_id c, v)) caps"

definition capDeltas ::
  "native_cap list \<Rightarrow> currency option \<Rightarrow> spend_split \<Rightarrow> jsnum \<Rightarrow> settled \<Rightarrow> settled \<Rightarrow> (string \<times> jsnum) list" where
  "capDeltas caps ruleCur sp allowedBonus pts cash =
     (let cutOfRule = (case ruleCur of None \<Rightarrow> Fin 0 | Some Points \<Rightarrow> st_cut pts | Some Cashback \<Rightarrow> st_cut cash) in
      foldl record_delta []
        (deltas_of (bonus_caps ruleCur caps) (jmax (Fin 0) (allowedBonus - cutOfRule))
         @ deltas_of (total_caps Points caps) (st_allowed pts) @ deltas_of (total_caps Cashback caps) (st_allowed cash)
         @ deltas_of (caps_of_kind ''eligible_spend'' caps) (ss_ruleSpend sp)
         @ deltas_of (caps_of_kind ''txn_count'' caps) (if ss_forcing sp = None then Fin 1 else Fin 0)))"

text \<open>
  The caps the transaction counts against, in the context of the picked rule, then the seven steps.
  \<open>computeSpend\<close> is the part of the source after the rule is known.
\<close>

definition skip_reasons :: "pick \<Rightarrow> string list" where
  "skip_reasons p = map (\<lambda>(i, reason, _). ''rule_skipped:'' @ key_text i @ '':'' @ reason) (pk_skipped p)"

definition computeSpend ::
  "v2_modes \<Rightarrow> card_row \<Rightarrow> cap_row list \<Rightarrow> (string \<times> jsval) list \<Rightarrow> v2_ctx \<Rightarrow> rule_row \<Rightarrow> bool \<Rightarrow>
   string list \<Rightarrow> string list \<Rightarrow> js_error + v2_result" where
  "computeSpend m cd capRules consumed c rule implicit ruleSkips assumptions =
     (let cardCur = currencyOf (md_baseUnit m); ruleCur = currencyOf (rr_unit rule);
          isBase = (implicit \<or> roleOf rule = ''base'');
          eligible = eligible_spend rule c; overMax = c_amount c - eligible;
          (caps, skipped) = applicableCaps cd capRules (Some rule) (c_category_id c) False;
          sp = splitSpend consumed caps eligible; overflow = eligible - ss_ruleSpend sp in
      ebind (ruleParts m rule isBase (ss_ruleSpend sp)) (\<lambda>(basePart, bonus).
      ebind (overflowPieces m rule (ss_binding sp) overflow) (\<lambda>over.
      ebind (overMaxPieces m overMax) (\<lambda>above.
        let pieces = over @ above;
            accrued = (if Fin 0 < ss_ruleSpend sp then [ruleCur] else []) @ map fst pieces;
            allowedBonus = under_caps consumed (bonus_caps ruleCur caps) bonus;
            earned = earnedIn ruleCur (basePart + allowedBonus) pieces;
            pts = settleTotals consumed (total_caps Points caps) (earned Points);
            cash = settleTotals consumed (total_caps Cashback caps) (earned Cashback);
            shows = (\<lambda>cur. cardCur = Some cur \<or> Some cur \<in> set accrued) in
        Inr \<lparr>r2_points = (if shows Points then Some (round2 (st_allowed pts)) else None),
             r2_cashbackInr = (if shows Cashback then Some (round2 (st_allowed cash)) else None),
             r2_valueInr = round2 (st_allowed pts * md_pointValue m + st_allowed cash),
             r2_ruleId = rr_id rule,
             r2_capDeltas = capDeltas caps ruleCur sp allowedBonus pts cash,
             r2_excluded = False,
             r2_reasons = (if has_text (rr_display_note rule) then [text_of (rr_display_note rule)] else [])
               @ ruleSkips @ (if Fin 0 < overMax then [''above_max_txn''] else []) @ skipped @ ss_reasons sp
               @ (if allowedBonus < bonus then [''bonus_cap_reached''] else [])
               @ (if Fin 0 < st_cut pts then [''total_cap_reached''] else [])
               @ (if Fin 0 < st_cut cash then [''total_cap_reached''] else []),
             r2_assumptions = assumptions @ (if implicit then [''implicit_base_rule''] else [])
               @ (if jarr (rr_mcc_include rule) \<noteq> [] \<and> c_mcc c = None then [''mcc_unknown_category_stand_in''] else [])
               @ (if list_ex nc_legacy caps then [''legacy_cap_converted''] else [])
               @ (if shows Points \<and> Fin 0 < st_allowed pts \<and> \<not> Fin 0 < md_pointValue m
                  then [''point_value_unknown''] else []),
             r2_engine = ''v2'', r2_v1 = None\<rparr>))))"

definition consumed_map :: "consumed_before \<Rightarrow> (string \<times> jsval) list" where
  "consumed_map before = (case before of ByCap m \<Rightarrow> m | _ \<Rightarrow> [])"

definition computeTransactionRewardV2 ::
  "int \<Rightarrow> card_row \<Rightarrow> rule_row list \<Rightarrow> cap_row list \<Rightarrow> consumed_before \<Rightarrow> raw_ctx \<Rightarrow> directory option \<Rightarrow>
   js_error + v2_result" where
  "computeTransactionRewardV2 tz cd rules caps before raw dir =
     (if \<not> isV2Card cd rules caps then Inr (computeViaV1 tz cd rules caps before raw)
      else let c = resolveContext raw dir; m = cardModes cd; cardCur = currencyOf (md_baseUnit m);
               assumptions = context_assumptions c rules in
        if \<not> (is_finite (c_amount c) \<and> Fin 0 < c_amount c)
        then Inr (nothing_earned cardCur None False [''non_positive_amount''] assumptions)
        else ebind (pickRuleV2 tz rules c cd) (\<lambda>p.
          let assumptions' = assumptions @ (if list_ex (\<lambda>(_, _, ex). ex) (pk_skipped p) then [''exclusion_unparsed''] else []) in
          if pk_excluded p then
            (let note = (case pk_rule p of None \<Rightarrow> None | Some r \<Rightarrow> rr_display_note r);
                 unit = (case pk_rule p of None \<Rightarrow> None | Some r \<Rightarrow> rr_unit r) in
             Inr (nothing_earned (if cardCur \<noteq> None then cardCur else currencyOf unit)
                   (case pk_rule p of None \<Rightarrow> None | Some r \<Rightarrow> rr_id r) True
                   ((if has_text note then text_of note
                     else if pk_rule p \<noteq> None then ''excluded_by_rule'' else ''excluded_category'') # skip_reasons p)
                   assumptions'))
          else case pk_rule p of
              None \<Rightarrow> Inr (nothing_earned cardCur None False [] assumptions')
            | Some rule \<Rightarrow> computeSpend m cd caps (consumed_map before) c rule (pk_implicit p) (skip_reasons p) assumptions'))"


end
