(* ===== verification/CardRecord.thy ===== *)
theory CardRecord
  imports RewardV2
begin

text \<open>
  The pure first half of \<open>api/src/card_state_v2.js\<close>: the card a recording works on, the
  window each cap and milestone counts in, the pricing of one stored transaction, and the record a
  transaction keeps of every row it moved.
\<close>

section \<open>Errors and small helpers\<close>

text \<open>
  What a recording can throw: a BigInt primitive, an unknown period, a property read of null, a
  \<open>Date\<close> that is invalid, a null in a not-null column, a number that does not fit its column.
\<close>

datatype state_error = Engine js_error | Period cycle_error | TypeError | InvalidTime | NullColumn | NumericOverflow

definition lift_engine :: "js_error + 'a \<Rightarrow> state_error + 'a" where
  "lift_engine m = (case m of Inl e \<Rightarrow> Inl (Engine e) | Inr v \<Rightarrow> Inr v)"

text \<open>\<open>round2\<close> of this file is symmetric about zero.\<close>

definition round2s :: "jsnum \<Rightarrow> jsnum" where
  "round2s v = (if is_finite v
     then jround (v * Fin 100 + (if Fin 0 \<le> v then PAISE_EPS else - PAISE_EPS)) / Fin 100 else Fin 0)"

definition minDay :: "string \<Rightarrow> string \<Rightarrow> string" where
  "minDay a b = (if str_le a b then a else b)"

definition maxDay :: "string \<Rightarrow> string \<Rightarrow> string" where
  "maxDay a b = (if str_le b a then a else b)"

text \<open>The milliseconds of a date-ish value, and of midnight UTC of a printed day.\<close>

definition instant :: "date_value \<Rightarrow> state_error + int" where
  "instant v = (case time_value v of None \<Rightarrow> Inl InvalidTime | Some t \<Rightarrow> Inr t)"

definition day_instant :: "string \<Rightarrow> state_error + int" where
  "day_instant s = instant (DText s None)"

definition dayOf :: "date_value \<Rightarrow> state_error + string" where
  "dayOf v = ebind (instant v) (\<lambda>t. Inr (istDay t))"

definition day_value :: "string option \<Rightarrow> date_value" where
  "day_value d = (case d of None \<Rightarrow> DNull | Some s \<Rightarrow> DText s None)"

section \<open>The v2 card\<close>

text \<open>A cap row with the columns only recording reads, and a milestone row.\<close>

record state_cap = cap_row +
  sc_period :: string
  sc_anchor :: "string option"

record milestone_row =
  ms_id :: string
  ms_period :: string
  ms_anchor :: "string option"
  ms_window_days :: "int option"
  ms_excluded_category_ids :: jsval

record user_card_row =
  uc_id :: string
  uc_profile_id :: string
  uc_card_product_id :: string
  uc_statement_day :: "int option"
  uc_opened_on :: date_value
  uc_anniversary_on :: date_value
  uc_created_at :: date_value
  uc_data_version :: string
  uc_card :: card_row

record v2_card =
  v_userCardId :: string
  v_profileId :: string
  v_cardProductId :: string
  v_statementDay :: "int option"
  v_anchor :: anchor_date
  v_issueAnchor :: anchor_date
  v_openedOn :: "string option"
  v_card :: card_row
  v_rules :: "rule_row list"
  v_caps :: "state_cap list"
  v_milestones :: "milestone_row list"

definition list_column :: "jsval \<Rightarrow> jsval" where
  "list_column v = JArr (jarr v)"

text \<open>\<open>tz\<close> is the constant UTC offset of the server.\<close>

definition buildV2Card :: "int \<Rightarrow> user_card_row \<Rightarrow> rule_row list \<Rightarrow> state_cap list \<Rightarrow> milestone_row list \<Rightarrow> v2_card" where
  "buildV2Card tz u rules caps milestones =
     \<lparr>v_userCardId = uc_id u, v_profileId = uc_profile_id u, v_cardProductId = uc_card_product_id u,
      v_statementDay = uc_statement_day u,
      v_anchor = cardAnchorDate (\<lambda>_. tz) (uc_anniversary_on u) (uc_opened_on u) (uc_created_at u),
      v_issueAnchor = cardIssueAnchorDate (\<lambda>_. tz) (uc_anniversary_on u) (uc_opened_on u) (uc_created_at u),
      v_openedOn = calendarDay (\<lambda>_. tz) (uc_opened_on u),
      v_card = (uc_card u)\<lparr>cd_excluded_categories := list_column (cd_excluded_categories (uc_card u))\<rparr>,
      v_rules = rules, v_caps = map (\<lambda>c. c\<lparr>cr_targets := list_column (cr_targets c)\<rparr>) caps,
      v_milestones = milestones\<rparr>"

definition capById :: "v2_card \<Rightarrow> string \<Rightarrow> state_cap option" where
  "capById v2 = map_of (rev (map (\<lambda>c. (text_of (cr_id c), c)) (v_caps v2)))"

definition engine_caps :: "v2_card \<Rightarrow> cap_row list" where
  "engine_caps v2 = map cap_row.truncate (v_caps v2)"

definition lift_window :: "cycle_error + window option \<Rightarrow> state_error + window option" where
  "lift_window m = (case m of Inl e \<Rightarrow> Inl (Period e) | Inr w \<Rightarrow> Inr w)"

definition capWindow :: "int \<Rightarrow> v2_card \<Rightarrow> state_cap \<Rightarrow> int \<Rightarrow> state_error + window option" where
  "capWindow tz v2 c t = lift_window (windowBoundsV2 (\<lambda>_. tz) (sc_period c) t (sc_anchor c)
     (day_value (ad_date (v_anchor v2))) (ad_approximate (v_anchor v2)) (v_statementDay v2) None)"

definition milestoneWindow :: "int \<Rightarrow> v2_card \<Rightarrow> milestone_row \<Rightarrow> int \<Rightarrow> state_error + window option" where
  "milestoneWindow tz v2 m t =
     (let anchor = (if ms_window_days m \<noteq> None then v_issueAnchor v2 else v_anchor v2) in
      lift_window (windowBoundsV2 (\<lambda>_. tz) (ms_period m) t (ms_anchor m)
        (day_value (ad_date anchor)) (ad_approximate anchor) (v_statementDay v2) (ms_window_days m)))"

text \<open>
  A window that a row is keyed by: reading it off null is a \<open>TypeError\<close>, and a null start is refused
  by the not-null key column.
\<close>

record span =
  sp_start :: string
  sp_end :: string
  sp_approximate :: bool

definition span_of :: "window \<Rightarrow> state_error + span" where
  "span_of w = (case w_start w of None \<Rightarrow> Inl NullColumn
     | Some s \<Rightarrow> Inr \<lparr>sp_start = s, sp_end = w_end w, sp_approximate = w_approximate w\<rparr>)"

definition capSpan :: "int \<Rightarrow> v2_card \<Rightarrow> state_cap \<Rightarrow> int \<Rightarrow> state_error + span" where
  "capSpan tz v2 c t = ebind (capWindow tz v2 c t) (\<lambda>w. case w of None \<Rightarrow> Inl TypeError | Some w \<Rightarrow> span_of w)"

definition capNativeAmount :: "state_cap \<Rightarrow> string \<Rightarrow> card_row \<Rightarrow> jsnum option" where
  "capNativeAmount c kind cd =
     (if cr_cap_kind c \<noteq> None then num (cr_cap_amount c)
      else case num (cr_cap_value c) of None \<Rightarrow> None
      | Some v \<Rightarrow>
          if cr_measure c = Some ''reward_value'' \<and> kind \<in> {''total_points'', ''bonus_points''} then
            (let pointValue = num_or_0 (cd_point_value_inr cd) in if Fin 0 < pointValue then Some (v / pointValue) else None)
          else Some v)"

definition nativeAmount :: "v2_result \<Rightarrow> jsnum" where
  "nativeAmount r = (case r2_points r of Some p \<Rightarrow> p
     | None \<Rightarrow> (case r2_cashbackInr r of Some c \<Rightarrow> c | None \<Rightarrow> Fin 0))"

definition earnedSplit :: "v2_result \<Rightarrow> jsnum option \<times> jsnum option" where
  "earnedSplit r = (map_option round2s (r2_points r), map_option round2s (r2_cashbackInr r))"

section \<open>One transaction\<close>

text \<open>An entry of a record; \<open>en_amount\<close> and \<open>en_approximate\<close> only while it is being applied.\<close>

record entry =
  en_id :: string
  en_start :: string
  en_end :: string
  en_delta :: jsnum
  en_kind :: "string option"
  en_amount :: "jsnum option"
  en_approximate :: bool

record state_record =
  sr_user_card_id :: string
  sr_caps :: "entry list"
  sr_milestones :: "entry list"
  sr_fee_waivers :: "entry list"

record txn_row =
  tx_id :: string
  tx_amount_inr :: jsval
  tx_occurred_at :: date_value
  tx_category_id :: "string option"
  tx_merchant_name :: "string option"
  tx_merchant_vpa :: "string option"
  tx_mcc :: "string option"
  tx_rail :: "string option"
  tx_status :: string
  tx_instrument :: string
  tx_entry_kind :: string
  tx_is_backfill :: "bool option"
  tx_expected_points :: jsval
  tx_expected_value_inr :: jsval
  tx_expected_cashback_inr :: jsval
  tx_card_state_v2 :: "state_record option"

definition transactionContext :: "txn_row \<Rightarrow> raw_ctx" where
  "transactionContext t =
     \<lparr>rc_amount = JNum (to_number (tx_amount_inr t)), rc_amountInr = JUndef, rc_occurred = tx_occurred_at t,
      rc_occurredAt = DNull, rc_category_id = or_text (tx_category_id t) None, rc_categoryId = None,
      rc_category_slug = None, rc_categorySlug = None, rc_mcc = or_text (tx_mcc t) None,
      rc_merchant_name = or_text (tx_merchant_name t) None, rc_merchantName = None,
      rc_merchant_vpa = or_text (tx_merchant_vpa t) None, rc_merchantVpa = None, rc_merchant_slug = None,
      rc_merchantSlug = None, rc_platform = None, rc_rail = or_text (tx_rail t) (Some ''unknown'')\<rparr>"

record cap_plan =
  cp_ctx :: v2_ctx
  cp_caps :: "(native_cap \<times> span) list"
  cp_excluded :: bool

definition planned_cap :: "int \<Rightarrow> v2_card \<Rightarrow> v2_ctx \<Rightarrow> native_cap \<Rightarrow> state_error + native_cap \<times> span" where
  "planned_cap tz v2 c k = (case capById v2 (nc_id k) of None \<Rightarrow> Inl TypeError
     | Some row \<Rightarrow> ebind (instant (c_occurred c)) (\<lambda>t. ebind (capSpan tz v2 row t) (\<lambda>s. Inr (k, s))))"

definition capPlan :: "int \<Rightarrow> v2_card \<Rightarrow> directory option \<Rightarrow> raw_ctx \<Rightarrow> state_error + cap_plan" where
  "capPlan tz v2 dir raw =
     (let c = resolveContext raw dir in
      ebind (lift_engine (pickRuleV2 tz (v_rules v2) c (v_card v2))) (\<lambda>p.
        if pk_excluded p \<or> \<not> Fin 0 < c_amount c
        then Inr \<lparr>cp_ctx = c, cp_caps = [], cp_excluded = pk_excluded p\<rparr>
        else ebind (emap (planned_cap tz v2 c)
               (fst (applicableCaps (v_card v2) (engine_caps v2) (pk_rule p) (c_category_id c) False))) (\<lambda>caps.
             Inr \<lparr>cp_ctx = c, cp_caps = caps, cp_excluded = False\<rparr>)))"

record outcome =
  oc_result :: v2_result
  oc_capEntries :: "entry list"
  oc_native :: jsnum
  oc_points :: "jsnum option"
  oc_cashback :: "jsnum option"
  oc_value :: jsnum
  oc_excluded :: bool

definition consumed_of_plan :: "(string \<Rightarrow> string \<Rightarrow> jsnum) \<Rightarrow> (native_cap \<times> span) list \<Rightarrow> (string \<times> jsval) list" where
  "consumed_of_plan consumedOf ps = foldl (\<lambda>m (k, s). mset_put (nc_id k) (JNum (jor (consumedOf (nc_id k) (sp_start s)) (Fin 0))) m) [] ps"

definition cap_entry :: "v2_result \<Rightarrow> native_cap \<times> span \<Rightarrow> entry option" where
  "cap_entry r = (\<lambda>(k, s). case map_of (r2_capDeltas r) (nc_id k) of
      None \<Rightarrow> None
    | Some d \<Rightarrow> if \<not> is_finite d \<or> d = Fin 0 then None
        else Some \<lparr>en_id = nc_id k, en_start = sp_start s, en_end = sp_end s, en_delta = d, en_kind = Some (nc_kind k),
                   en_amount = Some (nc_amount k), en_approximate = sp_approximate s\<rparr>)"

text \<open>
  The engine runs on the resolved context of the plan; a resolved context is its own resolution, so
  the model runs it on the same request.
\<close>

definition computeTransactionV2 ::
  "int \<Rightarrow> v2_card \<Rightarrow> directory option \<Rightarrow> raw_ctx \<Rightarrow> (string \<Rightarrow> string \<Rightarrow> jsnum) \<Rightarrow> cap_plan \<Rightarrow> state_error + outcome" where
  "computeTransactionV2 tz v2 dir raw consumedOf p =
     ebind (lift_engine (computeTransactionRewardV2 tz (v_card v2) (v_rules v2) (engine_caps v2)
              (ByCap (consumed_of_plan consumedOf (cp_caps p))) raw dir)) (\<lambda>r.
       Inr \<lparr>oc_result = r, oc_capEntries = List.map_filter (cap_entry r) (cp_caps p),
            oc_native = round2s (nativeAmount r), oc_points = fst (earnedSplit r), oc_cashback = snd (earnedSplit r),
            oc_value = round2s (r2_valueInr r), oc_excluded = (r2_excluded r \<or> cp_excluded p)\<rparr>)"

definition category_in :: "string option \<Rightarrow> jsval \<Rightarrow> bool" where
  "category_in c v \<longleftrightarrow> includes_text v c"

definition milestone_entry :: "int \<Rightarrow> v2_card \<Rightarrow> string option \<Rightarrow> date_value \<Rightarrow> jsnum \<Rightarrow> milestone_row \<Rightarrow> state_error + entry option" where
  "milestone_entry tz v2 category occurred amount m =
     (if category_in category (ms_excluded_category_ids m) then Inr None
      else ebind (instant occurred) (\<lambda>t. ebind (milestoneWindow tz v2 m t) (\<lambda>w. case w of
          None \<Rightarrow> Inr None
        | Some w \<Rightarrow> ebind (span_of w) (\<lambda>s. Inr (Some
            \<lparr>en_id = ms_id m, en_start = sp_start s, en_end = sp_end s, en_delta = round2s amount, en_kind = None,
             en_amount = None, en_approximate = sp_approximate s\<rparr>)))))"

definition milestoneEntries :: "int \<Rightarrow> v2_card \<Rightarrow> raw_ctx \<Rightarrow> bool \<Rightarrow> state_error + entry list" where
  "milestoneEntries tz v2 ctx excluded =
     (let category = or_text (rc_category_id ctx) None; amount = to_number (rc_amount ctx) in
      if excluded \<or> \<not> Fin 0 < amount then Inr []
      else if category_in category (cd_excluded_categories (v_card v2)) then Inr []
      else ebind (emap (milestone_entry tz v2 category (rc_occurred ctx) amount) (v_milestones v2))
             (\<lambda>es. Inr (List.map_filter id es)))"

section \<open>Records\<close>

definition recordEntry :: "entry \<Rightarrow> entry" where
  "recordEntry e = e\<lparr>en_delta := round2s (en_delta e), en_amount := None, en_approximate := False\<rparr>"

definition entry_le :: "entry \<Rightarrow> entry \<Rightarrow> bool" where
  "entry_le a b \<longleftrightarrow> str_less (en_id a) (en_id b) \<or> (en_id a = en_id b \<and> str_le (en_start a) (en_start b))"

definition sortEntries :: "entry list \<Rightarrow> entry list" where
  "sortEntries es = jsort entry_le es"

text \<open>A record from its three sections, \<open>None\<close> when nothing moved.\<close>

definition toRecord :: "string \<Rightarrow> entry list \<Rightarrow> entry list \<Rightarrow> entry list \<Rightarrow> state_record option" where
  "toRecord userCardId caps milestones fees =
     (let section = (\<lambda>es. sortEntries (map recordEntry es)) in
      if section caps = [] \<and> section milestones = [] \<and> section fees = [] then None
      else Some \<lparr>sr_user_card_id = userCardId, sr_caps = section caps, sr_milestones = section milestones,
                 sr_fee_waivers = section fees\<rparr>)"

text \<open>
  \<open>canonical(record)\<close> is only compared for equality; the model compares the object it prints
  (\<open>JSON.stringify\<close> is injective on finite deltas and drops nothing else that is kept here).
\<close>

definition canonical :: "state_record option \<Rightarrow> state_record option" where
  "canonical r = (case r of None \<Rightarrow> None
     | Some r \<Rightarrow> Some \<lparr>sr_user_card_id = sr_user_card_id r, sr_caps = sortEntries (map recordEntry (sr_caps r)),
         sr_milestones = sortEntries (map recordEntry (sr_milestones r)),
         sr_fee_waivers = sortEntries (map recordEntry (sr_fee_waivers r))\<rparr>)"

end
