(* ===== verification/CardReplay.thy ===== *)
theory CardReplay
  imports CardRecord
begin

text \<open>
  The rebuild of \<open>api/src/card_state_v2.js\<close>: the days it covers, the periods it enumerates, and
  the pure replay that plans the rows, the records and the expected values to write. Periods are
  keyed by a cap (or milestone) id and the printed first day.
\<close>

section \<open>The days of a rebuild\<close>

record cap_range =
  cg_start :: string
  cg_end :: string
  cg_seedFrom :: string
  cg_seedTo :: string

record milestone_span =
  mw_id :: string
  mw_span :: span

record replay_range =
  rg_asOf :: string
  rg_caps :: "cap_range option"
  rg_milestones :: "milestone_span list"
  rg_loadFrom :: "string option"
  rg_loadTo :: "string option"

record rebuild_opts =
  ro_since :: date_value
  ro_caps :: bool
  ro_milestones :: bool
  ro_expected :: bool

definition monthStart :: "string \<Rightarrow> string" where
  "monthStart day = take 8 day @ ''01''"

definition capSpanOn :: "int \<Rightarrow> v2_card \<Rightarrow> string \<Rightarrow> state_cap \<Rightarrow> state_error + span" where
  "capSpanOn tz v2 day c = ebind (day_instant day) (\<lambda>t. capSpan tz v2 c t)"

definition at_floor :: "string option \<Rightarrow> string \<Rightarrow> string" where
  "at_floor floorDay d = (case floorDay of None \<Rightarrow> d | Some f \<Rightarrow> maxDay d f)"

definition widen_cap :: "int \<Rightarrow> v2_card \<Rightarrow> string \<Rightarrow> string \<times> string \<Rightarrow> state_cap \<Rightarrow> state_error + string \<times> string" where
  "widen_cap tz v2 day se c = ebind (capSpanOn tz v2 day c) (\<lambda>w.
     Inr (minDay (fst se) (sp_start w), if sc_period c \<noteq> ''lifetime'' then maxDay (snd se) (sp_end w) else snd se))"

definition seed_cap :: "int \<Rightarrow> v2_card \<Rightarrow> string \<Rightarrow> string \<Rightarrow> string \<times> string \<Rightarrow> state_cap \<Rightarrow> state_error + string \<times> string" where
  "seed_cap tz v2 start ende se c = ebind (capSpanOn tz v2 start c) (\<lambda>w1. ebind (capSpanOn tz v2 ende c) (\<lambda>w2.
     Inr (minDay (fst se) (sp_start w1), maxDay (snd se) (sp_end w2))))"

definition since_day :: "int \<Rightarrow> date_value \<Rightarrow> string \<Rightarrow> state_error + string" where
  "since_day tz since start = (if \<not> present since then Inr start
     else case calendarDay (\<lambda>_. tz) since of None \<Rightarrow> Inl InvalidTime | Some d \<Rightarrow> Inr (minDay start d))"

definition capRange :: "int \<Rightarrow> v2_card \<Rightarrow> string \<Rightarrow> string option \<Rightarrow> rebuild_opts \<Rightarrow> state_error + cap_range" where
  "capRange tz v2 day floorDay opts =
     ebind (efold (widen_cap tz v2 day) (day, day) (v_caps v2)) (\<lambda>(start0, ende).
     ebind (since_day tz (ro_since opts) (if ro_expected opts then minDay start0 (monthStart day) else start0)) (\<lambda>start1.
       let start = at_floor floorDay start1 in
       ebind (efold (seed_cap tz v2 start ende) (start, ende) (v_caps v2)) (\<lambda>(seedFrom, seedTo).
         Inr \<lparr>cg_start = start, cg_end = ende, cg_seedFrom = at_floor floorDay seedFrom, cg_seedTo = seedTo\<rparr>)))"

definition milestone_range :: "int \<Rightarrow> v2_card \<Rightarrow> string \<Rightarrow> milestone_row \<Rightarrow> state_error + milestone_span option" where
  "milestone_range tz v2 day m = ebind (day_instant day) (\<lambda>t. ebind (milestoneWindow tz v2 m t) (\<lambda>w. case w of
       None \<Rightarrow> Inr None
     | Some w \<Rightarrow> ebind (span_of w) (\<lambda>s. Inr (Some \<lparr>mw_id = ms_id m, mw_span = s\<rparr>))))"

definition load_span :: "string option \<Rightarrow> string option \<times> string option \<Rightarrow> milestone_span \<Rightarrow> string option \<times> string option" where
  "load_span floorDay ft m =
     (Some (case fst ft of None \<Rightarrow> at_floor floorDay (sp_start (mw_span m))
            | Some f \<Rightarrow> minDay f (at_floor floorDay (sp_start (mw_span m)))),
      Some (case snd ft of None \<Rightarrow> sp_end (mw_span m) | Some t \<Rightarrow> maxDay t (sp_end (mw_span m))))"

definition rebuildRange ::
  "int \<Rightarrow> v2_card \<Rightarrow> date_value \<Rightarrow> string option \<Rightarrow> rebuild_opts \<Rightarrow> state_error + replay_range" where
  "rebuildRange tz v2 asOf floor0 opts =
     ebind (dayOf asOf) (\<lambda>day.
       let floorDay = (if has_text floor0 then map_option (\<lambda>f. minDay f day) (calendarDay (\<lambda>_. tz) (day_value floor0)) else None) in
       ebind (if ro_caps opts \<or> ro_expected opts
              then ebind (capRange tz v2 day floorDay opts) (\<lambda>g. Inr (Some g)) else Inr None) (\<lambda>capR.
       ebind (if ro_milestones opts then ebind (emap (milestone_range tz v2 day) (v_milestones v2)) (\<lambda>ms. Inr (List.map_filter id ms))
              else Inr []) (\<lambda>ms.
         let (from, to) = foldl (load_span floorDay) (map_option cg_seedFrom capR, map_option cg_seedTo capR) ms in
         Inr \<lparr>rg_asOf = day, rg_caps = capR, rg_milestones = ms, rg_loadFrom = from, rg_loadTo = to\<rparr>)))"

definition MAX_PERIODS_PER_CAP :: nat where
  "MAX_PERIODS_PER_CAP = 5000"

text \<open>The loop of \<open>capPeriodsBetween\<close>; the count is its own bound.\<close>

fun cap_periods :: "int \<Rightarrow> v2_card \<Rightarrow> state_cap \<Rightarrow> string \<Rightarrow> nat \<Rightarrow> span \<Rightarrow> state_error + span list" where
  "cap_periods tz v2 c ende 0 w = Inr []"
| "cap_periods tz v2 c ende (Suc n) w =
     (if str_le ende (sp_end w) then Inr [w]
      else ebind (capSpanOn tz v2 (addDays (sp_end w) 1) c) (\<lambda>w'.
           ebind (cap_periods tz v2 c ende n w') (\<lambda>ws. Inr (w # ws))))"

definition capPeriodsBetween :: "int \<Rightarrow> v2_card \<Rightarrow> state_cap \<Rightarrow> string \<Rightarrow> string \<Rightarrow> state_error + span list" where
  "capPeriodsBetween tz v2 c start ende =
     ebind (capSpanOn tz v2 start c) (\<lambda>w. cap_periods tz v2 c ende MAX_PERIODS_PER_CAP w)"

definition cap_rebuild_periods :: "int \<Rightarrow> v2_card \<Rightarrow> replay_range \<Rightarrow> cap_range \<Rightarrow> state_cap \<Rightarrow> state_error + state_cap \<times> span list" where
  "cap_rebuild_periods tz v2 rg g c = ebind (capSpanOn tz v2 (rg_asOf rg) c) (\<lambda>own.
     ebind (capPeriodsBetween tz v2 c (cg_start g) (minDay (cg_end g) (sp_end own))) (\<lambda>ws. Inr (c, ws)))"

definition rebuildPeriods :: "int \<Rightarrow> v2_card \<Rightarrow> replay_range \<Rightarrow> state_error + (state_cap \<times> span list) list" where
  "rebuildPeriods tz v2 rg = (case rg_caps rg of None \<Rightarrow> Inr []
     | Some g \<Rightarrow> emap (cap_rebuild_periods tz v2 rg g) (v_caps v2))"

definition sameNumber :: "jsval \<Rightarrow> jsval \<Rightarrow> bool" where
  "sameNumber a b = (case (num a, num b) of
      (Some x, Some y) \<Rightarrow> jabs (x - y) < lit (5 / 1000)
    | (x, y) \<Rightarrow> x = None \<and> y = None)"

section \<open>The replay: caps\<close>

type_synonym row_key = "string \<times> string"

record cap_slot =
  cs_cap_rule_id :: string
  cs_period_start :: string
  cs_period_end :: string
  cs_consumed :: jsnum
  cs_cap_kind :: "string option"
  cs_cap_amount :: "jsnum option"
  cs_approximate :: bool
  cs_snapshot :: jsnum

type_synonym cap_slots = "(row_key \<times> cap_slot) list"

definition entry_key :: "entry \<Rightarrow> row_key" where
  "entry_key e = (en_id e, en_start e)"

definition isEligible :: "string list \<Rightarrow> txn_row \<Rightarrow> bool" where
  "isEligible excluded t \<longleftrightarrow> tx_status t = ''active'' \<and> tx_instrument t = ''credit_card'' \<and> tx_entry_kind t = ''spend''
     \<and> tx_is_backfill t \<noteq> Some True \<and> tx_id t \<notin> set excluded"

definition txn_le :: "txn_row \<Rightarrow> txn_row \<Rightarrow> bool" where
  "txn_le a b = (case (time_value (tx_occurred_at a), time_value (tx_occurred_at b)) of
      (Some s, Some t) \<Rightarrow> if s \<noteq> t then s < t else str_le (tx_id a) (tx_id b)
    | _ \<Rightarrow> str_le (tx_id a) (tx_id b))"

definition blank_slot :: "state_cap \<Rightarrow> span \<Rightarrow> cap_slot" where
  "blank_slot c w = \<lparr>cs_cap_rule_id = cap_key (cap_row.truncate c), cs_period_start = sp_start w, cs_period_end = sp_end w,
     cs_consumed = Fin 0, cs_cap_kind = None, cs_cap_amount = None, cs_approximate = sp_approximate w,
     cs_snapshot = num_or_0 (cr_cap_value c)\<rparr>"

definition slots_of :: "(state_cap \<times> span list) list \<Rightarrow> cap_slots" where
  "slots_of ps = foldl (\<lambda>m (c, w). mset_put (cap_key (cap_row.truncate c), sp_start w) (blank_slot c w) m) []
     (concat (map (\<lambda>(c, ws). map (Pair c) ws) ps))"

definition add_to_slot :: "v2_card \<Rightarrow> entry \<Rightarrow> cap_slot \<Rightarrow> cap_slot" where
  "add_to_slot v2 e s =
     (let s' = s\<lparr>cs_consumed := cs_consumed s + en_delta e\<rparr> in
      if cs_cap_kind s = None \<and> has_text (en_kind e)
      then s'\<lparr>cs_cap_kind := en_kind e,
              cs_cap_amount := (case en_amount e of Some a \<Rightarrow> Some a
                | None \<Rightarrow> (case capById v2 (en_id e) of None \<Rightarrow> None
                   | Some c \<Rightarrow> capNativeAmount c (text_of (en_kind e)) (v_card v2)))\<rparr>
      else s')"

definition addToCapRow :: "v2_card \<Rightarrow> cap_slots \<Rightarrow> entry \<Rightarrow> cap_slots" where
  "addToCapRow v2 rows e = (case map_of rows (entry_key e) of None \<Rightarrow> rows
     | Some s \<Rightarrow> mset_put (entry_key e) (add_to_slot v2 e s) rows)"

text \<open>An entry of a replayed spend: added to its row, or given a new one.\<close>

definition slot_of_entry :: "v2_card \<Rightarrow> entry \<Rightarrow> cap_slot" where
  "slot_of_entry v2 e = \<lparr>cs_cap_rule_id = en_id e, cs_period_start = en_start e, cs_period_end = en_end e,
     cs_consumed = en_delta e, cs_cap_kind = en_kind e, cs_cap_amount = en_amount e, cs_approximate = en_approximate e,
     cs_snapshot = (case capById v2 (en_id e) of None \<Rightarrow> Fin 0 | Some c \<Rightarrow> num_or_0 (cr_cap_value c))\<rparr>"

definition putCapRow :: "v2_card \<Rightarrow> cap_slots \<Rightarrow> entry \<Rightarrow> cap_slots" where
  "putCapRow v2 rows e = (if map_of rows (entry_key e) \<noteq> None then addToCapRow v2 rows e
     else mset_put (entry_key e) (slot_of_entry v2 e) rows)"

record expected_update =
  eu_id :: string
  eu_occurred_at :: date_value
  eu_native :: jsnum
  eu_value :: jsnum
  eu_points :: "jsnum option"
  eu_cashback :: "jsnum option"
  eu_before :: "jsnum option \<times> jsnum option \<times> jsnum option"

record cap_replay =
  cy_rows :: cap_slots
  cy_entries :: "(string \<times> entry list) list"
  cy_expected :: "expected_update list"

definition record_caps :: "txn_row \<Rightarrow> entry list" where
  "record_caps t = (case tx_card_state_v2 t of None \<Rightarrow> [] | Some r \<Rightarrow> sr_caps r)"

definition consumed_in :: "cap_slots \<Rightarrow> string \<Rightarrow> string \<Rightarrow> jsnum" where
  "consumed_in rows i start = (case map_of rows (i, start) of None \<Rightarrow> Fin 0 | Some s \<Rightarrow> cs_consumed s)"

definition expected_change :: "bool \<Rightarrow> txn_row \<Rightarrow> outcome \<Rightarrow> expected_update list" where
  "expected_change expected t out =
     (if expected \<and> \<not> (sameNumber (tx_expected_points t) (JNum (oc_native out))
          \<and> sameNumber (tx_expected_value_inr t) (JNum (oc_value out))
          \<and> sameNumber (tx_expected_cashback_inr t) (of_num (oc_cashback out)))
      then [\<lparr>eu_id = tx_id t, eu_occurred_at = tx_occurred_at t, eu_native = oc_native out, eu_value = oc_value out,
             eu_points = oc_points out, eu_cashback = oc_cashback out,
             eu_before = (num (tx_expected_points t), num (tx_expected_value_inr t), num (tx_expected_cashback_inr t))\<rparr>]
      else [])"

definition replay_cap_txn ::
  "int \<Rightarrow> v2_card \<Rightarrow> directory option \<Rightarrow> cap_range \<Rightarrow> bool \<Rightarrow> string list \<Rightarrow> cap_replay \<Rightarrow> txn_row \<Rightarrow> state_error + cap_replay" where
  "replay_cap_txn tz v2 dir g expected excluded st t =
     (if \<not> isEligible excluded t then Inr st
      else ebind (dayOf (tx_occurred_at t)) (\<lambda>day.
        if str_less day (cg_start g) \<or> str_less (cg_end g) day
        then Inr (st\<lparr>cy_rows := foldl (addToCapRow v2) (cy_rows st) (record_caps t)\<rparr>)
        else ebind (capPlan tz v2 dir (transactionContext t)) (\<lambda>p.
             ebind (computeTransactionV2 tz v2 dir (transactionContext t) (consumed_in (cy_rows st)) p) (\<lambda>out.
               Inr \<lparr>cy_rows = foldl (putCapRow v2) (cy_rows st) (oc_capEntries out),
                    cy_entries = mset_put (tx_id t) (oc_capEntries out) (cy_entries st),
                    cy_expected = cy_expected st @ expected_change expected t out\<rparr>))))"

definition replayCaps ::
  "int \<Rightarrow> v2_card \<Rightarrow> directory option \<Rightarrow> replay_range \<Rightarrow> bool \<Rightarrow> string list \<Rightarrow> txn_row list \<Rightarrow> state_error + cap_replay" where
  "replayCaps tz v2 dir rg expected excluded ordered = (case rg_caps rg of
      None \<Rightarrow> Inr \<lparr>cy_rows = [], cy_entries = [], cy_expected = []\<rparr>
    | Some g \<Rightarrow> ebind (rebuildPeriods tz v2 rg) (\<lambda>ps.
        efold (replay_cap_txn tz v2 dir g expected excluded)
          \<lparr>cy_rows = slots_of ps, cy_entries = [], cy_expected = []\<rparr> ordered))"

section \<open>The replay: milestones\<close>

record milestone_slot =
  mo_rule_id :: string
  mo_period_start :: string
  mo_period_end :: string
  mo_qualified :: jsnum
  mo_approximate :: bool

type_synonym milestone_slots = "(row_key \<times> milestone_slot) list"

definition milestone_slots_of :: "milestone_span list \<Rightarrow> milestone_slots" where
  "milestone_slots_of ms = foldl (\<lambda>m w. mset_put (mw_id w, sp_start (mw_span w))
     \<lparr>mo_rule_id = mw_id w, mo_period_start = sp_start (mw_span w), mo_period_end = sp_end (mw_span w),
      mo_qualified = Fin 0, mo_approximate = sp_approximate (mw_span w)\<rparr> m) [] ms"

definition add_qualified :: "milestone_slots \<Rightarrow> entry \<Rightarrow> milestone_slots" where
  "add_qualified rows e = (case map_of rows (entry_key e) of None \<Rightarrow> rows
     | Some s \<Rightarrow> mset_put (entry_key e) (s\<lparr>mo_qualified := mo_qualified s + en_delta e\<rparr>) rows)"

record milestone_replay =
  my_rows :: milestone_slots
  my_entries :: "(string \<times> entry list) list"

definition replay_milestone_txn ::
  "int \<Rightarrow> v2_card \<Rightarrow> directory option \<Rightarrow> string list \<Rightarrow> milestone_replay \<Rightarrow> txn_row \<Rightarrow> state_error + milestone_replay" where
  "replay_milestone_txn tz v2 dir excluded st t =
     (if \<not> isEligible excluded t then Inr st
      else ebind (capPlan tz v2 dir (transactionContext t)) (\<lambda>p.
           ebind (milestoneEntries tz v2 (transactionContext t) (cp_excluded p)) (\<lambda>all.
             let es = filter (\<lambda>e. map_of (my_rows st) (entry_key e) \<noteq> None) all in
             Inr \<lparr>my_rows = foldl add_qualified (my_rows st) es, my_entries = mset_put (tx_id t) es (my_entries st)\<rparr>)))"

definition replayMilestones ::
  "int \<Rightarrow> v2_card \<Rightarrow> directory option \<Rightarrow> replay_range \<Rightarrow> string list \<Rightarrow> txn_row list \<Rightarrow> state_error + milestone_replay" where
  "replayMilestones tz v2 dir rg excluded ordered =
     (let start = \<lparr>my_rows = milestone_slots_of (rg_milestones rg), my_entries = []\<rparr> in
      if my_rows start = [] then Inr start else efold (replay_milestone_txn tz v2 dir excluded) start ordered)"

section \<open>The replay: records\<close>

text \<open>An entry the rebuild replaces: its row is rebuilt, or its period overlaps what is rebuilt.\<close>

definition supersededCapEntry :: "v2_card \<Rightarrow> cap_range \<Rightarrow> cap_slots \<Rightarrow> entry \<Rightarrow> bool" where
  "supersededCapEntry v2 g rows e \<longleftrightarrow> map_of rows (entry_key e) \<noteq> None
     \<or> (capById v2 (en_id e) \<noteq> None \<and> str_le (en_start e) (cg_end g)
         \<and> str_le (cg_start g) (if en_end e = [] then en_start e else en_end e))"

definition milestoneWindowById :: "milestone_span list \<Rightarrow> string \<Rightarrow> span option" where
  "milestoneWindowById ms = map_of (rev (map (\<lambda>m. (mw_id m, mw_span m)) ms))"

definition supersededMilestoneEntry :: "milestone_span list \<Rightarrow> milestone_slots \<Rightarrow> entry \<Rightarrow> bool" where
  "supersededMilestoneEntry ms rows e \<longleftrightarrow> map_of rows (entry_key e) \<noteq> None
     \<or> (case milestoneWindowById ms (en_id e) of None \<Rightarrow> False
        | Some w \<Rightarrow> str_le (en_start e) (sp_end w) \<and> str_le (sp_start w) (if en_end e = [] then en_start e else en_end e))"

text \<open>
  A section of a record: unless the transaction was replayed or no longer counts it stays as it
  was; otherwise its superseded entries go, and the new ones of a replayed spend come.
\<close>

definition replaced_section :: "bool \<Rightarrow> bool \<Rightarrow> (entry \<Rightarrow> bool) \<Rightarrow> entry list option \<Rightarrow> entry list \<Rightarrow> entry list" where
  "replaced_section active eligible superseded fresh old =
     (if active \<and> (fresh \<noteq> None \<or> \<not> eligible)
      then filter (\<lambda>e. \<not> superseded e) old @ (if eligible then (case fresh of None \<Rightarrow> [] | Some es \<Rightarrow> es) else [])
      else old)"

definition next_record ::
  "v2_card \<Rightarrow> replay_range \<Rightarrow> string list \<Rightarrow> cap_replay \<Rightarrow> milestone_replay \<Rightarrow> txn_row \<Rightarrow> state_record option" where
  "next_record v2 rg excluded cy my t =
     (let old = tx_card_state_v2 t; el = isEligible excluded t;
          sec = (\<lambda>f. case old of None \<Rightarrow> [] | Some r \<Rightarrow> f r) in
      toRecord (v_userCardId v2)
        (case rg_caps rg of None \<Rightarrow> sec sr_caps
         | Some g \<Rightarrow> replaced_section True el (supersededCapEntry v2 g (cy_rows cy)) (map_of (cy_entries cy) (tx_id t)) (sec sr_caps))
        (replaced_section (my_rows my \<noteq> []) el (supersededMilestoneEntry (rg_milestones rg) (my_rows my))
           (map_of (my_entries my) (tx_id t)) (sec sr_milestones))
        (sec sr_fee_waivers))"

definition record_updates ::
  "v2_card \<Rightarrow> replay_range \<Rightarrow> string list \<Rightarrow> cap_replay \<Rightarrow> milestone_replay \<Rightarrow> txn_row list \<Rightarrow> (string \<times> state_record option) list" where
  "record_updates v2 rg excluded cy my ordered = List.map_filter (\<lambda>t.
     if tx_id t \<in> set excluded then None
     else let r = next_record v2 rg excluded cy my t in
       if canonical r \<noteq> canonical (tx_card_state_v2 t) then Some (tx_id t, r) else None) ordered"

section \<open>The replay: rows and diff\<close>

record cap_state_row =
  xr_cap_rule_id :: string
  xr_period_start :: string
  xr_period_end :: string
  xr_consumed :: jsval
  xr_cap_kind :: "string option"
  xr_cap_amount :: jsval
  xr_approximate :: bool

record milestone_state_row =
  xm_rule_id :: string
  xm_period_start :: string
  xm_period_end :: string
  xm_qualified :: jsval
  xm_approximate :: bool

record row_diff =
  rd_key :: row_key
  rd_before :: "(jsnum option \<times> string option) option"
  rd_after :: "(jsnum \<times> string option) option"

definition plannedCaps :: "cap_slots \<Rightarrow> cap_slots" where
  "plannedCaps rows = filter (\<lambda>(k, s). Fin 0 < cs_consumed s)
     (map (\<lambda>(k, s). (k, s\<lparr>cs_consumed := round2s (cs_consumed s), cs_cap_amount := map_option round2s (cs_cap_amount s)\<rparr>)) rows)"

definition plannedMilestones :: "milestone_slots \<Rightarrow> milestone_slots" where
  "plannedMilestones rows = filter (\<lambda>(k, s). Fin 0 < mo_qualified s)
     (map (\<lambda>(k, s). (k, s\<lparr>mo_qualified := round2s (mo_qualified s)\<rparr>)) rows)"

definition xr_key :: "cap_state_row \<Rightarrow> row_key" where
  "xr_key r = (xr_cap_rule_id r, xr_period_start r)"

definition cap_before :: "cap_state_row \<Rightarrow> jsnum option \<times> string option" where
  "cap_before r = (num (xr_consumed r), xr_cap_kind r)"

text \<open>Existing rows in the window that the rebuild does not produce.\<close>

definition moved_caps :: "v2_card \<Rightarrow> replay_range \<Rightarrow> cap_slots \<Rightarrow> cap_state_row list \<Rightarrow> cap_state_row list" where
  "moved_caps v2 rg rows existing = (case rg_caps rg of None \<Rightarrow> []
     | Some g \<Rightarrow> filter (\<lambda>r. map_of rows (xr_key r) = None \<and> capById v2 (xr_cap_rule_id r) \<noteq> None
         \<and> str_le (xr_period_start r) (cg_end g) \<and> str_le (cg_start g) (xr_period_end r)) existing)"

definition same_cap :: "cap_state_row \<Rightarrow> cap_slot \<Rightarrow> bool" where
  "same_cap b a \<longleftrightarrow> sameNumber (xr_consumed b) (JNum (cs_consumed a)) \<and> xr_cap_kind b = cs_cap_kind a
     \<and> sameNumber (xr_cap_amount b) (of_num (cs_cap_amount a)) \<and> xr_approximate b = cs_approximate a
     \<and> xr_period_end b = cs_period_end a"

definition last_of :: "('k \<times> 'v) list \<Rightarrow> 'k \<Rightarrow> 'v option" where
  "last_of m = map_of (rev m)"

definition cap_diff :: "cap_slots \<Rightarrow> cap_state_row list \<Rightarrow> row_key \<Rightarrow> row_diff option" where
  "cap_diff planned existing k =
     (let before = last_of (map (\<lambda>r. (xr_key r, r)) existing) k; after = map_of planned k in
      if before = None \<and> after = None then None
      else if (case (before, after) of (Some b, Some a) \<Rightarrow> same_cap b a | _ \<Rightarrow> False) then None
      else Some \<lparr>rd_key = k, rd_before = map_option cap_before before,
                 rd_after = map_option (\<lambda>a. (cs_consumed a, cs_cap_kind a)) after\<rparr>)"

definition caps_gone :: "cap_slots \<Rightarrow> cap_slots \<Rightarrow> cap_state_row list \<Rightarrow> row_key list" where
  "caps_gone rows planned existing = filter (\<lambda>k. k \<in> set (map xr_key existing) \<and> map_of planned k = None) (map fst rows)"

definition xm_key :: "milestone_state_row \<Rightarrow> row_key" where
  "xm_key r = (xm_rule_id r, xm_period_start r)"

definition milestones_in_scope :: "milestone_span list \<Rightarrow> milestone_state_row list \<Rightarrow> milestone_state_row list" where
  "milestones_in_scope ms existing = filter (\<lambda>r. case milestoneWindowById ms (xm_rule_id r) of None \<Rightarrow> False
     | Some w \<Rightarrow> \<not> (str_less (sp_end w) (xm_period_start r) \<or> str_less (xm_period_end r) (sp_start w))) existing"

definition same_milestone :: "milestone_state_row \<Rightarrow> milestone_slot \<Rightarrow> bool" where
  "same_milestone b a \<longleftrightarrow> sameNumber (xm_qualified b) (JNum (mo_qualified a)) \<and> xm_approximate b = mo_approximate a
     \<and> xm_period_end b = mo_period_end a"

definition milestone_diff :: "milestone_slots \<Rightarrow> milestone_state_row list \<Rightarrow> row_key \<Rightarrow> row_diff option" where
  "milestone_diff planned scoped k =
     (let before = last_of (map (\<lambda>r. (xm_key r, r)) scoped) k; after = map_of planned k in
      if before = None \<and> after = None then None
      else if (case (before, after) of (Some b, Some a) \<Rightarrow> same_milestone b a | _ \<Rightarrow> False) then None
      else Some \<lparr>rd_key = k, rd_before = map_option (\<lambda>b. (num (xm_qualified b), None)) before,
                 rd_after = map_option (\<lambda>a. (mo_qualified a, None)) after\<rparr>)"

record replay_plan =
  rp_capRows :: cap_slots
  rp_capsToDelete :: "row_key list"
  rp_milestoneRows :: milestone_slots
  rp_milestonesToDelete :: "row_key list"
  rp_recordUpdates :: "(string \<times> state_record option) list"
  rp_expectedUpdates :: "expected_update list"
  rp_capDiff :: "row_diff list"
  rp_milestoneDiff :: "row_diff list"

definition planRows ::
  "v2_card \<Rightarrow> replay_range \<Rightarrow> string list \<Rightarrow> cap_replay \<Rightarrow> milestone_replay \<Rightarrow> txn_row list \<Rightarrow>
   cap_state_row list \<Rightarrow> milestone_state_row list \<Rightarrow> replay_plan" where
  "planRows v2 rg excluded cy my ordered existingCaps existingMilestones =
     (let caps = plannedCaps (cy_rows cy); milestones = plannedMilestones (my_rows my);
          moved = moved_caps v2 rg (cy_rows cy) existingCaps;
          scoped = milestones_in_scope (rg_milestones rg) existingMilestones;
          stray = filter (\<lambda>r. map_of (my_rows my) (xm_key r) = None) scoped in
      \<lparr>rp_capRows = caps, rp_capsToDelete = map xr_key moved @ caps_gone (cy_rows cy) caps existingCaps,
       rp_milestoneRows = milestones,
       rp_milestonesToDelete = map xm_key stray
         @ filter (\<lambda>k. k \<in> set (map xm_key scoped) \<and> map_of milestones k = None) (map fst (my_rows my)),
       rp_recordUpdates = record_updates v2 rg excluded cy my ordered, rp_expectedUpdates = cy_expected cy,
       rp_capDiff = map (\<lambda>r. \<lparr>rd_key = xr_key r, rd_before = Some (cap_before r), rd_after = None\<rparr>) moved
         @ List.map_filter (\<lambda>(k, _). cap_diff caps existingCaps k) (cy_rows cy),
       rp_milestoneDiff = map (\<lambda>r. \<lparr>rd_key = xm_key r, rd_before = Some (num (xm_qualified r), None), rd_after = None\<rparr>) stray
         @ List.map_filter (\<lambda>(k, _). milestone_diff milestones scoped k) (my_rows my)\<rparr>)"

definition planReplay ::
  "int \<Rightarrow> v2_card \<Rightarrow> directory option \<Rightarrow> replay_range \<Rightarrow> txn_row list \<Rightarrow> bool \<Rightarrow> string list \<Rightarrow>
   cap_state_row list \<Rightarrow> milestone_state_row list \<Rightarrow> state_error + replay_plan" where
  "planReplay tz v2 dir rg transactions expected excluded existingCaps existingMilestones =
     (let ordered = jsort txn_le transactions in
      ebind (replayCaps tz v2 dir rg expected excluded ordered) (\<lambda>cy.
      ebind (replayMilestones tz v2 dir rg excluded ordered) (\<lambda>my.
        Inr (planRows v2 rg excluded cy my ordered existingCaps existingMilestones))))"

section \<open>Fee waivers\<close>

record fee_rule =
  fr_id :: string
  fr_threshold :: jsval
  fr_period :: string
  fr_excluded_categories :: jsval

record fee_window =
  fw_rule :: fee_rule
  fw_start :: string
  fw_end :: string

definition lift_period :: "cycle_error + 'a \<Rightarrow> state_error + 'a" where
  "lift_period m = (case m of Inl e \<Rightarrow> Inl (Period e) | Inr v \<Rightarrow> Inr v)"

definition feeBounds :: "fee_rule \<Rightarrow> int \<Rightarrow> int option \<Rightarrow> state_error + bounds" where
  "feeBounds rule t statementDay = lift_period (periodBounds (fr_period rule) t statementDay None DNull)"

definition feeWaiverWindows :: "fee_rule list \<Rightarrow> date_value \<Rightarrow> int option \<Rightarrow> state_error + fee_window list" where
  "feeWaiverWindows rules asOf statementDay = ebind (instant asOf) (\<lambda>ref.
     emap (\<lambda>rule. ebind (feeBounds rule ref statementDay) (\<lambda>b.
       Inr \<lparr>fw_rule = rule, fw_start = fst b, fw_end = snd b\<rparr>)) rules)"

definition fee_key :: "fee_window \<Rightarrow> row_key" where
  "fee_key w = (fr_id (fw_rule w), fw_start w)"

definition fee_entry :: "int option \<Rightarrow> txn_row \<Rightarrow> fee_window \<Rightarrow> state_error + entry option" where
  "fee_entry statementDay t w = ebind (instant (tx_occurred_at t)) (\<lambda>at0.
     ebind (feeBounds (fw_rule w) at0 statementDay) (\<lambda>own.
       if fst own \<noteq> fw_start w then Inr None
       else if has_text (tx_category_id t) \<and> category_in (tx_category_id t) (fr_excluded_categories (fw_rule w)) then Inr None
       else Inr (Some \<lparr>en_id = fr_id (fw_rule w), en_start = fw_start w, en_end = fw_end w,
                       en_delta = round2s (to_number (tx_amount_inr t)), en_kind = None, en_amount = None,
                       en_approximate = False\<rparr>)))"

record fee_replay =
  fy_totals :: "(row_key \<times> jsnum) list"
  fy_records :: "(string \<times> state_record option) list"

definition add_total :: "(row_key \<times> jsnum) list \<Rightarrow> entry \<Rightarrow> (row_key \<times> jsnum) list" where
  "add_total m e = mset_put (entry_key e) (mget m (entry_key e) NaN + en_delta e) m"

definition fee_record :: "string \<Rightarrow> (row_key \<times> jsnum) list \<Rightarrow> entry list \<Rightarrow> txn_row \<Rightarrow> (string \<times> state_record option) list" where
  "fee_record userCardId totals es t =
     (let old = tx_card_state_v2 t; sec = (\<lambda>f. case old of None \<Rightarrow> [] | Some r \<Rightarrow> f r);
          r = toRecord userCardId (sec sr_caps) (sec sr_milestones)
                (filter (\<lambda>e. map_of totals (entry_key e) = None) (sec sr_fee_waivers) @ es) in
      if canonical r \<noteq> canonical old then [(tx_id t, r)] else [])"

definition replay_fee_txn ::
  "fee_window list \<Rightarrow> int option \<Rightarrow> (txn_row \<Rightarrow> state_error + bool) option \<Rightarrow> string option \<Rightarrow> fee_replay \<Rightarrow> txn_row \<Rightarrow> state_error + fee_replay" where
  "replay_fee_txn windows statementDay excludedOf userCardId st t =
     ebind (if \<not> isEligible [] t then Inr True else (case excludedOf of None \<Rightarrow> Inr False | Some f \<Rightarrow> f t)) (\<lambda>skip.
     ebind (if skip then Inr [] else ebind (emap (fee_entry statementDay t) windows) (\<lambda>es. Inr (List.map_filter id es))) (\<lambda>es.
       Inr \<lparr>fy_totals = foldl add_total (fy_totals st) es,
            fy_records = fy_records st @ (case userCardId of None \<Rightarrow> []
              | Some u \<Rightarrow> fee_record u (fy_totals st) es t)\<rparr>))"

record fee_row =
  fe_rule_id :: string
  fe_period_start :: string
  fe_period_end :: string
  fe_qualified :: jsnum
  fe_threshold :: jsnum
  fe_waived :: bool

record fee_state_row =
  xf_rule_id :: string
  xf_period_start :: string
  xf_period_end :: string
  xf_qualified :: jsval
  xf_waived :: bool

record fee_plan =
  fp_rows :: "fee_row list"
  fp_toWrite :: "fee_row list"
  fp_recordUpdates :: "(string \<times> state_record option) list"

definition fee_row_of :: "(row_key \<times> jsnum) list \<Rightarrow> fee_window \<Rightarrow> fee_row" where
  "fee_row_of totals w =
     (let qualified = round2s (mget totals (fee_key w) NaN); threshold = num_or_0 (fr_threshold (fw_rule w)) in
      \<lparr>fe_rule_id = fr_id (fw_rule w), fe_period_start = fw_start w, fe_period_end = fw_end w,
       fe_qualified = qualified, fe_threshold = threshold, fe_waived = (threshold \<le> qualified)\<rparr>)"

definition fee_changed :: "fee_state_row list \<Rightarrow> fee_row \<Rightarrow> bool" where
  "fee_changed existing r =
     (case last_of (map (\<lambda>x. ((xf_rule_id x, xf_period_start x), x)) existing) (fe_rule_id r, fe_period_start r) of
        None \<Rightarrow> fe_qualified r \<noteq> Fin 0
      | Some b \<Rightarrow> \<not> (sameNumber (xf_qualified b) (JNum (fe_qualified r)) \<and> xf_waived b = fe_waived r
                    \<and> xf_period_end b = fe_period_end r))"

definition planFeeWaivers ::
  "fee_window list \<Rightarrow> txn_row list \<Rightarrow> int option \<Rightarrow> (txn_row \<Rightarrow> state_error + bool) option \<Rightarrow> fee_state_row list \<Rightarrow>
   string option \<Rightarrow> state_error + fee_plan" where
  "planFeeWaivers windows transactions statementDay excludedOf existing userCardId =
     ebind (efold (replay_fee_txn windows statementDay excludedOf userCardId)
              \<lparr>fy_totals = foldl (\<lambda>m w. mset_put (fee_key w) (Fin 0) m) [] windows, fy_records = []\<rparr>
              (jsort txn_le transactions)) (\<lambda>st.
       let rows = map (fee_row_of (fy_totals st)) windows in
       Inr \<lparr>fp_rows = rows, fp_toWrite = filter (fee_changed existing) rows, fp_recordUpdates = fy_records st\<rparr>)"

end
