(* ===== verification/CardState.thy ===== *)
theory CardState
  imports CardReplay
begin

text \<open>
  The recording half of \<open>api/src/card_state_v2.js\<close>: the tables it reads and writes and every
  operation on them. Money columns \<open>numeric(12,2)\<close> are integers of hundredths with their range
  check; a Number parameter is stored as its nearest hundredth. Rows of a table with a unique key
  are an association list on that key. The merchant directory is an argument (what
  \<open>loadDirectoryCached\<close> returned); the server's UTC offset is \<open>tz\<close>.
\<close>

section \<open>Tables\<close>

type_synonym state_key = "string \<times> string \<times> string"

record cap_state =
  ct_profile :: string
  ct_period_end :: string
  ct_consumed :: int
  ct_snapshot :: int
  ct_kind :: "string option"
  ct_amount :: "int option"
  ct_approximate :: bool

record milestone_state =
  mt_profile :: string
  mt_period_end :: string
  mt_qualified :: int
  mt_approximate :: bool

record fee_state =
  ft_profile :: string
  ft_period_end :: string
  ft_qualified :: int
  ft_waived :: bool

record ledger_row =
  lg_profile :: string
  lg_user_card :: string
  lg_txn :: string
  lg_delta :: jsnum
  lg_reason :: string
  lg_estimated :: bool
  lg_occurred :: date_value

record stored_txn = txn_row +
  tx_user_card_id :: "string option"
  tx_profile_id :: string

record db =
  db_user_cards :: "user_card_row list"
  db_rules :: "string \<Rightarrow> rule_row list"
  db_caps :: "string \<Rightarrow> state_cap list"
  db_milestones :: "string \<Rightarrow> milestone_row list"
  db_fee_rules :: "(string \<times> fee_rule) list"
  db_txns :: "stored_txn list"
  db_cap_states :: "(state_key \<times> cap_state) list"
  db_milestone_states :: "(state_key \<times> milestone_state) list"
  db_fee_states :: "(state_key \<times> fee_state) list"
  db_ledger :: "ledger_row list"

record updates =
  up_caps :: "(state_key \<times> cap_state) list"
  up_milestones :: "(state_key \<times> milestone_state) list"
  up_fees :: "(state_key \<times> fee_state) list"
  up_ledger :: "ledger_row option"

definition no_updates :: updates where
  "no_updates = \<lparr>up_caps = [], up_milestones = [], up_fees = [], up_ledger = None\<rparr>"

text \<open>A Number sent to a money column, the range check of the column, and the Number read back.\<close>

definition nearest_hundredth :: "rat \<Rightarrow> int" where
  "nearest_hundredth x = (if x < 0 then - \<lfloor>- x * 100 + 1 / 2\<rfloor> else \<lfloor>x * 100 + 1 / 2\<rfloor>)"

definition hundredths :: "jsnum \<Rightarrow> state_error + int" where
  "hundredths v = (case v of Fin x \<Rightarrow> Inr (nearest_hundredth x) | _ \<Rightarrow> Inl NumericOverflow)"

definition fits :: "nat \<Rightarrow> int \<Rightarrow> state_error + int" where
  "fits digits k = (if \<bar>k\<bar> < 10 ^ digits then Inr k else Inl NumericOverflow)"

definition money :: "jsnum \<Rightarrow> state_error + int" where
  "money v = ebind (hundredths v) (fits 12)"

definition of_money :: "int \<Rightarrow> jsnum" where
  "of_money k = rnd (of_int k / 100)"

section \<open>Row writes shared by apply and reverse\<close>

text \<open>\<open>INSERT ... ON CONFLICT DO UPDATE\<close> of the three tables; the sum is clamped at zero.\<close>

definition upsertCap ::
  "string \<Rightarrow> string \<Rightarrow> int \<Rightarrow> db \<Rightarrow> entry \<Rightarrow> state_error + db \<times> (state_key \<times> cap_state)" where
  "upsertCap profile userCardId snapshot d e =
     (let k = (userCardId, en_id e, en_start e) in
      ebind (hundredths (en_delta e)) (\<lambda>delta.
      ebind (case en_amount e of None \<Rightarrow> Inr None | Some a \<Rightarrow> ebind (ebind (hundredths a) (fits 14)) (\<lambda>x. Inr (Some x))) (\<lambda>amount.
      ebind (fits 12 (max 0 ((case map_of (db_cap_states d) k of None \<Rightarrow> 0 | Some r \<Rightarrow> ct_consumed r) + delta))) (\<lambda>consumed.
        let row = (case map_of (db_cap_states d) k of
              None \<Rightarrow> \<lparr>ct_profile = profile, ct_period_end = en_end e, ct_consumed = consumed, ct_snapshot = snapshot,
                       ct_kind = en_kind e, ct_amount = amount, ct_approximate = en_approximate e\<rparr>
            | Some r \<Rightarrow> r\<lparr>ct_consumed := consumed, ct_period_end := en_end e, ct_kind := en_kind e, ct_amount := amount,
                          ct_approximate := en_approximate e\<rparr>) in
        Inr (d\<lparr>db_cap_states := mset_put k row (db_cap_states d)\<rparr>, (k, row))))))"

definition upsertMilestone ::
  "string \<Rightarrow> string \<Rightarrow> db \<Rightarrow> entry \<Rightarrow> state_error + db \<times> (state_key \<times> milestone_state)" where
  "upsertMilestone profile userCardId d e =
     (let k = (userCardId, en_id e, en_start e) in
      ebind (hundredths (en_delta e)) (\<lambda>delta.
      ebind (fits 12 (max 0 ((case map_of (db_milestone_states d) k of None \<Rightarrow> 0 | Some r \<Rightarrow> mt_qualified r) + delta))) (\<lambda>q.
        let row = (case map_of (db_milestone_states d) k of
              None \<Rightarrow> \<lparr>mt_profile = profile, mt_period_end = en_end e, mt_qualified = q, mt_approximate = en_approximate e\<rparr>
            | Some r \<Rightarrow> r\<lparr>mt_qualified := q, mt_period_end := en_end e, mt_approximate := en_approximate e\<rparr>) in
        Inr (d\<lparr>db_milestone_states := mset_put k row (db_milestone_states d)\<rparr>, (k, row)))))"

definition settleFeeWaiver :: "fee_state \<Rightarrow> jsval \<Rightarrow> fee_state" where
  "settleFeeWaiver s threshold =
     (if \<not> ft_waived s \<and> to_number threshold \<le> of_money (ft_qualified s) then s\<lparr>ft_waived := True\<rparr>
      else if ft_waived s \<and> of_money (ft_qualified s) < to_number threshold then s\<lparr>ft_waived := False\<rparr>
      else s)"

definition upsertFee ::
  "string \<Rightarrow> string \<Rightarrow> jsval \<Rightarrow> db \<Rightarrow> entry \<Rightarrow> state_error + db \<times> (state_key \<times> fee_state)" where
  "upsertFee profile userCardId threshold d e =
     (let k = (userCardId, en_id e, en_start e) in
      ebind (hundredths (en_delta e)) (\<lambda>delta.
      ebind (fits 12 (max 0 ((case map_of (db_fee_states d) k of None \<Rightarrow> 0 | Some r \<Rightarrow> ft_qualified r) + delta))) (\<lambda>q.
        let row = settleFeeWaiver (case map_of (db_fee_states d) k of
              None \<Rightarrow> \<lparr>ft_profile = profile, ft_period_end = en_end e, ft_qualified = q, ft_waived = False\<rparr>
            | Some r \<Rightarrow> r\<lparr>ft_qualified := q\<rparr>) threshold in
        Inr (d\<lparr>db_fee_states := mset_put k row (db_fee_states d)\<rparr>, (k, row)))))"

text \<open>Running an upsert for a list of entries, collecting the rows.\<close>

fun upsertAll :: "(db \<Rightarrow> 'e \<Rightarrow> state_error + db \<times> 'r) \<Rightarrow> db \<Rightarrow> 'e list \<Rightarrow> state_error + db \<times> 'r list" where
  "upsertAll f d [] = Inr (d, [])"
| "upsertAll f d (e # es) = ebind (f d e) (\<lambda>(d', r). ebind (upsertAll f d' es) (\<lambda>(d'', rs). Inr (d'', r # rs)))"

text \<open>\<open>UPDATE ... SET consumed = GREATEST(0, consumed - delta)\<close> of the owner's row, if it is there.\<close>

definition reverseCap :: "string \<Rightarrow> string \<Rightarrow> db \<Rightarrow> entry \<Rightarrow> state_error + db \<times> (state_key \<times> cap_state) option" where
  "reverseCap profile userCardId d e =
     (let k = (userCardId, en_id e, en_start e) in
      case map_of (db_cap_states d) k of
        None \<Rightarrow> Inr (d, None)
      | Some r \<Rightarrow> if ct_profile r \<noteq> profile then Inr (d, None)
          else ebind (hundredths (en_delta e)) (\<lambda>delta. ebind (fits 12 (max 0 (ct_consumed r - delta))) (\<lambda>c.
               let row = r\<lparr>ct_consumed := c\<rparr> in
               Inr (d\<lparr>db_cap_states := mset_put k row (db_cap_states d)\<rparr>, Some (k, row)))))"

definition reverseMilestone :: "string \<Rightarrow> string \<Rightarrow> db \<Rightarrow> entry \<Rightarrow> state_error + db \<times> (state_key \<times> milestone_state) option" where
  "reverseMilestone profile userCardId d e =
     (let k = (userCardId, en_id e, en_start e) in
      case map_of (db_milestone_states d) k of
        None \<Rightarrow> Inr (d, None)
      | Some r \<Rightarrow> if mt_profile r \<noteq> profile then Inr (d, None)
          else ebind (hundredths (en_delta e)) (\<lambda>delta. ebind (fits 12 (max 0 (mt_qualified r - delta))) (\<lambda>q.
               let row = r\<lparr>mt_qualified := q\<rparr> in
               Inr (d\<lparr>db_milestone_states := mset_put k row (db_milestone_states d)\<rparr>, Some (k, row)))))"

definition fee_threshold :: "db \<Rightarrow> string \<Rightarrow> jsval" where
  "fee_threshold d ruleId = (case find (\<lambda>(_, r). fr_id r = ruleId) (db_fee_rules d) of
     None \<Rightarrow> JNull | Some (_, r) \<Rightarrow> fr_threshold r)"

definition reverseFee :: "string \<Rightarrow> string \<Rightarrow> db \<Rightarrow> entry \<Rightarrow> state_error + db \<times> (state_key \<times> fee_state) option" where
  "reverseFee profile userCardId d e =
     (let k = (userCardId, en_id e, en_start e) in
      case map_of (db_fee_states d) k of
        None \<Rightarrow> Inr (d, None)
      | Some r \<Rightarrow> if ft_profile r \<noteq> profile then Inr (d, None)
          else ebind (hundredths (en_delta e)) (\<lambda>delta. ebind (fits 12 (max 0 (ft_qualified r - delta))) (\<lambda>q.
               let row = settleFeeWaiver (r\<lparr>ft_qualified := q\<rparr>) (fee_threshold d (en_id e)) in
               Inr (d\<lparr>db_fee_states := mset_put k row (db_fee_states d)\<rparr>, Some (k, row)))))"

text \<open>A record read back: no record moves nothing.\<close>

definition reverseRecord :: "string \<Rightarrow> state_record option \<Rightarrow> db \<Rightarrow> state_error + db \<times> updates" where
  "reverseRecord profile rec d = (case rec of None \<Rightarrow> Inr (d, no_updates)
     | Some r \<Rightarrow>
        ebind (upsertAll (reverseCap profile (sr_user_card_id r)) d (sr_caps r)) (\<lambda>(d1, caps).
        ebind (upsertAll (reverseMilestone profile (sr_user_card_id r)) d1 (sr_milestones r)) (\<lambda>(d2, miles).
        ebind (upsertAll (reverseFee profile (sr_user_card_id r)) d2 (sr_fee_waivers r)) (\<lambda>(d3, fees).
          Inr (d3, \<lparr>up_caps = List.map_filter id caps, up_milestones = List.map_filter id miles,
                    up_fees = List.map_filter id fees, up_ledger = None\<rparr>)))))"

section \<open>The transaction row and its ledger rows\<close>

definition LEDGER_REASON :: string where
  "LEDGER_REASON = ''points earned on transaction''"

definition owned_txn :: "string \<Rightarrow> string \<Rightarrow> stored_txn \<Rightarrow> bool" where
  "owned_txn txnId profile t \<longleftrightarrow> tx_id t = txnId \<and> tx_profile_id t = profile"

definition stored_record :: "db \<Rightarrow> string \<Rightarrow> string \<Rightarrow> state_record option" where
  "stored_record d txnId profile = (case find (owned_txn txnId profile) (db_txns d) of None \<Rightarrow> None
     | Some t \<Rightarrow> tx_card_state_v2 t)"

definition update_txn :: "string \<Rightarrow> string \<Rightarrow> (stored_txn \<Rightarrow> stored_txn) \<Rightarrow> db \<Rightarrow> db" where
  "update_txn txnId profile f d = d\<lparr>db_txns := map (\<lambda>t. if owned_txn txnId profile t then f t else t) (db_txns d)\<rparr>"

definition delete_ledger :: "string \<Rightarrow> string \<Rightarrow> db \<Rightarrow> db" where
  "delete_ledger txnId profile d = d\<lparr>db_ledger := filter (\<lambda>l. \<not> (lg_txn l = txnId \<and> lg_profile l = profile)) (db_ledger d)\<rparr>"

definition ledgerRows :: "string \<Rightarrow> string \<Rightarrow> string \<Rightarrow> date_value \<Rightarrow> jsnum \<Rightarrow> ledger_row list" where
  "ledgerRows profile userCardId txnId occurred native =
     (if Fin 0 < native then [\<lparr>lg_profile = profile, lg_user_card = userCardId, lg_txn = txnId, lg_delta = native,
                              lg_reason = LEDGER_REASON, lg_estimated = True, lg_occurred = occurred\<rparr>] else [])"

definition zero_expected :: "stored_txn \<Rightarrow> stored_txn" where
  "zero_expected t = t\<lparr>tx_expected_value_inr := JNum (Fin 0), tx_expected_points := JNum (Fin 0),
     tx_expected_cashback_inr := (if nullish (tx_expected_cashback_inr t) then JNull else JNum (Fin 0)),
     tx_card_state_v2 := None\<rparr>"

section \<open>Loading a card\<close>

text \<open>What a server process keeps between requests.\<close>

record process =
  pr_directory :: "(directory \<times> int) option"
  pr_v1Shapes :: "(string \<times> string \<times> string \<times> string) list"

definition DIRECTORY_TTL_MS :: int where
  "DIRECTORY_TTL_MS = 5 * 60 * 1000"

definition V1_SHAPE_CACHE_MAX :: nat where
  "V1_SHAPE_CACHE_MAX = 5000"

definition loadDirectoryCached :: "int \<Rightarrow> merchant_row list \<Rightarrow> string option list \<Rightarrow> process \<Rightarrow> directory \<times> process" where
  "loadDirectoryCached now merchants platforms pr = (case pr_directory pr of
      Some (dir, t0) \<Rightarrow> if now - t0 < DIRECTORY_TTL_MS then (dir, pr)
        else (loadDirectory merchants platforms, pr\<lparr>pr_directory := Some (loadDirectory merchants platforms, now)\<rparr>)
    | None \<Rightarrow> (loadDirectory merchants platforms, pr\<lparr>pr_directory := Some (loadDirectory merchants platforms, now)\<rparr>))"

definition clearDirectoryCache :: "process \<Rightarrow> process" where
  "clearDirectoryCache pr = pr\<lparr>pr_directory := None, pr_v1Shapes := []\<rparr>"

definition shapeKey :: "user_card_row \<Rightarrow> string \<times> string \<times> string \<times> string" where
  "shapeKey u = (uc_card_product_id u, uc_data_version u, text_of (cd_accrual_rounding (uc_card u)),
     text_of (cd_cashback_rounding (uc_card u)))"

definition find_card :: "db \<Rightarrow> string \<Rightarrow> string option \<Rightarrow> user_card_row option" where
  "find_card d userCardId profileId =
     find (\<lambda>u. uc_id u = userCardId \<and> (profileId = None \<or> profileId = Some (uc_profile_id u))) (db_user_cards d)"

definition card_is_v2 :: "db \<Rightarrow> user_card_row \<Rightarrow> bool" where
  "card_is_v2 d u = isV2Card (uc_card u) (db_rules d (uc_card_product_id u))
     (map cap_row.truncate (db_caps d (uc_card_product_id u)))"

definition loadV2Card :: "int \<Rightarrow> db \<Rightarrow> process \<Rightarrow> string option \<Rightarrow> string option \<Rightarrow> v2_card option \<times> process" where
  "loadV2Card tz d pr userCardId profileId =
     (if \<not> has_text userCardId then (None, pr)
      else case find_card d (text_of userCardId) profileId of
          None \<Rightarrow> (None, pr)
        | Some u \<Rightarrow>
            if shapeKey u \<in> set (pr_v1Shapes pr) then (None, pr)
            else if \<not> card_is_v2 d u then
              (None, pr\<lparr>pr_v1Shapes := add_new (shapeKey u) (if V1_SHAPE_CACHE_MAX \<le> length (pr_v1Shapes pr) then [] else pr_v1Shapes pr)\<rparr>)
            else let product = uc_card_product_id u in
              (Some (buildV2Card tz u (db_rules d product) (db_caps d product) (db_milestones d product)), pr))"

section \<open>Reading and writing a rebuild\<close>

definition txn_day :: "txn_row \<Rightarrow> string" where
  "txn_day t = (case time_value (tx_occurred_at t) of None \<Rightarrow> invalid_day | Some t \<Rightarrow> istDay t)"

definition card_txns :: "db \<Rightarrow> v2_card \<Rightarrow> stored_txn list" where
  "card_txns d v2 = filter (\<lambda>t. tx_user_card_id t = Some (v_userCardId v2) \<and> tx_profile_id t = v_profileId v2) (db_txns d)"

definition first_day_of :: "txn_row list \<Rightarrow> string option" where
  "first_day_of ts = (case List.map_filter (\<lambda>t. time_value (tx_occurred_at t)) ts of
     [] \<Rightarrow> None | x # xs \<Rightarrow> Some (istDay (foldl min x xs)))"

definition cardFloorDay :: "db \<Rightarrow> v2_card \<Rightarrow> string option" where
  "cardFloorDay d v2 = (case (or_text (v_openedOn v2) None, first_day_of (map txn_row.truncate (card_txns d v2))) of
      (Some o1, Some f) \<Rightarrow> Some (minDay o1 f) | (Some o1, None) \<Rightarrow> Some o1 | (None, f) \<Rightarrow> f)"

definition rebuild_txns :: "db \<Rightarrow> v2_card \<Rightarrow> string \<Rightarrow> string \<Rightarrow> txn_row list" where
  "rebuild_txns d v2 loadFrom loadTo = map txn_row.truncate (filter (\<lambda>t.
     str_le loadFrom (txn_day (txn_row.truncate t)) \<and> str_le (txn_day (txn_row.truncate t)) loadTo
     \<and> (tx_card_state_v2 t \<noteq> None \<or> isEligible [] (txn_row.truncate t))) (card_txns d v2))"

definition existing_caps :: "db \<Rightarrow> v2_card \<Rightarrow> cap_range \<Rightarrow> cap_state_row list" where
  "existing_caps d v2 g = List.map_filter (\<lambda>((uc, i, s), r).
     if uc = v_userCardId v2 \<and> ct_profile r = v_profileId v2 \<and> str_le s (cg_end g) \<and> str_le (cg_start g) (ct_period_end r)
     then Some \<lparr>xr_cap_rule_id = i, xr_period_start = s, xr_period_end = ct_period_end r,
                xr_consumed = JNum (of_money (ct_consumed r)), xr_cap_kind = ct_kind r,
                xr_cap_amount = of_num (map_option of_money (ct_amount r)), xr_approximate = ct_approximate r\<rparr>
     else None) (db_cap_states d)"

definition existing_milestones :: "db \<Rightarrow> v2_card \<Rightarrow> string list \<Rightarrow> milestone_state_row list" where
  "existing_milestones d v2 ids = List.map_filter (\<lambda>((uc, i, s), r).
     if uc = v_userCardId v2 \<and> mt_profile r = v_profileId v2 \<and> i \<in> set ids
     then Some \<lparr>xm_rule_id = i, xm_period_start = s, xm_period_end = mt_period_end r,
                xm_qualified = JNum (of_money (mt_qualified r)), xm_approximate = mt_approximate r\<rparr>
     else None) (db_milestone_states d)"

definition planCardRebuild ::
  "int \<Rightarrow> db \<Rightarrow> directory option \<Rightarrow> v2_card \<Rightarrow> date_value \<Rightarrow> rebuild_opts \<Rightarrow> string list \<Rightarrow> state_error + replay_plan" where
  "planCardRebuild tz d dir v2 asOf opts excluded =
     ebind (case cardFloorDay d v2 of Some f \<Rightarrow> Inr f | None \<Rightarrow> dayOf asOf) (\<lambda>floor0.
     ebind (rebuildRange tz v2 asOf (Some floor0) opts) (\<lambda>rg.
       case (rg_loadFrom rg, rg_loadTo rg) of
         (Some f, Some t) \<Rightarrow>
           planReplay tz v2 dir rg (rebuild_txns d v2 f t) (ro_expected opts) excluded
             (case rg_caps rg of None \<Rightarrow> [] | Some g \<Rightarrow> existing_caps d v2 g)
             (if rg_milestones rg \<noteq> [] then existing_milestones d v2 (map mw_id (rg_milestones rg)) else [])
       | _ \<Rightarrow> planReplay tz v2 None rg [] False [] [] []))"

definition row_changed :: "row_diff list \<Rightarrow> row_key \<Rightarrow> bool" where
  "row_changed ds k \<longleftrightarrow> k \<in> set (map rd_key ds)"

definition writeCap :: "string \<Rightarrow> string \<Rightarrow> db \<Rightarrow> cap_slot \<Rightarrow> state_error + db" where
  "writeCap profile userCardId d s =
     (let k = (userCardId, cs_cap_rule_id s, cs_period_start s) in
      ebind (money (cs_consumed s)) (\<lambda>consumed. ebind (money (cs_snapshot s)) (\<lambda>snap.
      ebind (case cs_cap_amount s of None \<Rightarrow> Inr None | Some a \<Rightarrow> ebind (ebind (hundredths a) (fits 14)) (\<lambda>x. Inr (Some x))) (\<lambda>amount.
        let owner = (case map_of (db_cap_states d) k of None \<Rightarrow> profile | Some r \<Rightarrow> ct_profile r) in
        Inr (d\<lparr>db_cap_states := mset_put k \<lparr>ct_profile = owner, ct_period_end = cs_period_end s, ct_consumed = consumed,
               ct_snapshot = snap, ct_kind = cs_cap_kind s, ct_amount = amount, ct_approximate = cs_approximate s\<rparr>
               (db_cap_states d)\<rparr>)))))"

definition deleteCap :: "string \<Rightarrow> string \<Rightarrow> db \<Rightarrow> row_key \<Rightarrow> db" where
  "deleteCap profile userCardId d k = d\<lparr>db_cap_states := filter (\<lambda>(k', r).
     \<not> (k' = (userCardId, fst k, snd k) \<and> ct_profile r = profile)) (db_cap_states d)\<rparr>"

definition writeMilestone :: "string \<Rightarrow> string \<Rightarrow> db \<Rightarrow> milestone_slot \<Rightarrow> state_error + db" where
  "writeMilestone profile userCardId d s =
     (let k = (userCardId, mo_rule_id s, mo_period_start s) in
      ebind (money (mo_qualified s)) (\<lambda>q.
        let owner = (case map_of (db_milestone_states d) k of None \<Rightarrow> profile | Some r \<Rightarrow> mt_profile r) in
        Inr (d\<lparr>db_milestone_states := mset_put k \<lparr>mt_profile = owner, mt_period_end = mo_period_end s, mt_qualified = q,
               mt_approximate = mo_approximate s\<rparr> (db_milestone_states d)\<rparr>)))"

definition deleteMilestone :: "string \<Rightarrow> string \<Rightarrow> db \<Rightarrow> row_key \<Rightarrow> db" where
  "deleteMilestone profile userCardId d k = d\<lparr>db_milestone_states := filter (\<lambda>(k', r).
     \<not> (k' = (userCardId, fst k, snd k) \<and> mt_profile r = profile)) (db_milestone_states d)\<rparr>"

definition writeRecord :: "string \<Rightarrow> db \<Rightarrow> string \<times> state_record option \<Rightarrow> db" where
  "writeRecord profile d u = update_txn (fst u) profile (\<lambda>t. t\<lparr>tx_card_state_v2 := snd u\<rparr>) d"

definition writeExpected :: "string \<Rightarrow> string \<Rightarrow> db \<Rightarrow> expected_update \<Rightarrow> db" where
  "writeExpected profile userCardId d u =
     (let d1 = update_txn (eu_id u) profile (\<lambda>t. t\<lparr>tx_expected_points := JNum (eu_native u),
            tx_expected_value_inr := JNum (eu_value u), tx_expected_cashback_inr := of_num (eu_cashback u)\<rparr>) d;
          kept = filter (\<lambda>l. \<not> (lg_txn l = eu_id u \<and> lg_profile l = profile \<and> lg_reason l = LEDGER_REASON \<and> lg_estimated l))
                   (db_ledger d1) in
      d1\<lparr>db_ledger := kept @ ledgerRows profile userCardId (eu_id u) (eu_occurred_at u) (eu_native u)\<rparr>)"

definition applyCardRebuild :: "string \<Rightarrow> v2_card \<Rightarrow> replay_plan \<Rightarrow> db \<Rightarrow> state_error + db" where
  "applyCardRebuild profile v2 plan d =
     ebind (efold (writeCap profile (v_userCardId v2)) d
              (map snd (filter (\<lambda>(k, _). row_changed (rp_capDiff plan) k) (rp_capRows plan)))) (\<lambda>d1.
     let d2 = foldl (deleteCap profile (v_userCardId v2)) d1 (rp_capsToDelete plan) in
     ebind (efold (writeMilestone profile (v_userCardId v2)) d2
              (map snd (filter (\<lambda>(k, _). row_changed (rp_milestoneDiff plan) k) (rp_milestoneRows plan)))) (\<lambda>d3.
     let d4 = foldl (deleteMilestone profile (v_userCardId v2)) d3 (rp_milestonesToDelete plan);
         d5 = foldl (writeRecord profile) d4 (rp_recordUpdates plan) in
     Inr (foldl (writeExpected profile (v_userCardId v2)) d5 (rp_expectedUpdates plan))))"

definition rebuildCardState ::
  "int \<Rightarrow> string \<Rightarrow> directory option \<Rightarrow> v2_card \<Rightarrow> date_value \<Rightarrow> rebuild_opts \<Rightarrow> string list \<Rightarrow> db \<Rightarrow> state_error + db \<times> replay_plan" where
  "rebuildCardState tz profile dir v2 asOf opts excluded d =
     ebind (planCardRebuild tz d dir v2 asOf opts excluded) (\<lambda>plan.
     ebind (applyCardRebuild profile v2 plan d) (\<lambda>d'. Inr (d', plan)))"

section \<open>Live recording\<close>

record apply_args =
  aa_txnId :: string
  aa_userCardId :: "string option"
  aa_amount :: jsval
  aa_occurred :: date_value
  aa_categoryId :: "string option"
  aa_merchantName :: "string option"
  aa_rail :: "string option"
  aa_sign :: int

definition readCapRows :: "db \<Rightarrow> v2_card \<Rightarrow> cap_plan \<Rightarrow> (row_key \<times> jsnum) list \<times> bool" where
  "readCapRows d v2 p = foldl (\<lambda>(m, stale) (k, s).
     case map_of (db_cap_states d) (v_userCardId v2, nc_id k, sp_start s) of
       None \<Rightarrow> (m, stale)
     | Some r \<Rightarrow> if ct_profile r \<noteq> v_profileId v2 then (m, stale)
         else (mset_put (nc_id k, sp_start s) (of_money (ct_consumed r)) m, stale \<or> ct_kind r = None)) ([], False) (cp_caps p)"

definition arg_context :: "apply_args \<Rightarrow> txn_row option \<Rightarrow> raw_ctx" where
  "arg_context args txn = transactionContext
     \<lparr>tx_id = aa_txnId args, tx_amount_inr = aa_amount args, tx_occurred_at = aa_occurred args,
      tx_category_id = aa_categoryId args, tx_merchant_name = aa_merchantName args,
      tx_merchant_vpa = (case txn of None \<Rightarrow> None | Some t \<Rightarrow> tx_merchant_vpa t),
      tx_mcc = (case txn of None \<Rightarrow> None | Some t \<Rightarrow> tx_mcc t), tx_rail = aa_rail args, tx_status = [], tx_instrument = [],
      tx_entry_kind = [], tx_is_backfill = None, tx_expected_points = JUndef, tx_expected_value_inr = JUndef,
      tx_expected_cashback_inr = JUndef, tx_card_state_v2 = None\<rparr>"

text \<open>Undo whatever the transaction still carries, so that applying twice counts once.\<close>

definition clear_applied :: "string \<Rightarrow> string \<Rightarrow> db \<Rightarrow> state_error + db" where
  "clear_applied profile txnId d = (case stored_record d txnId profile of None \<Rightarrow> Inr d
     | Some r \<Rightarrow> ebind (reverseRecord profile (Some r) d) (\<lambda>(d', _). Inr (delete_ledger txnId profile d')))"

text \<open>The planned caps' rows, after a rebuild when one of them was written by the first engine.\<close>

definition caps_only :: rebuild_opts where
  "caps_only = \<lparr>ro_since = DNull, ro_caps = True, ro_milestones = False, ro_expected = False\<rparr>"

definition current_rows ::
  "int \<Rightarrow> string \<Rightarrow> directory option \<Rightarrow> v2_card \<Rightarrow> cap_plan \<Rightarrow> apply_args \<Rightarrow> db \<Rightarrow> state_error + db \<times> (row_key \<times> jsnum) list" where
  "current_rows tz profile dir v2 p args d =
     (let (rows, stale) = readCapRows d v2 p in
      if \<not> stale then Inr (d, rows)
      else ebind (rebuildCardState tz profile dir v2 (aa_occurred args) caps_only [aa_txnId args] d) (\<lambda>(d', _).
             Inr (d', fst (readCapRows d' v2 p))))"

definition cap_snapshot :: "v2_card \<Rightarrow> entry \<Rightarrow> state_error + int" where
  "cap_snapshot v2 e = money (case capById v2 (en_id e) of None \<Rightarrow> Fin 0 | Some c \<Rightarrow> num_or_0 (cr_cap_value c))"

definition applyCapEntry :: "string \<Rightarrow> v2_card \<Rightarrow> db \<Rightarrow> entry \<Rightarrow> state_error + db \<times> (state_key \<times> cap_state)" where
  "applyCapEntry profile v2 d e = ebind (cap_snapshot v2 e) (\<lambda>snap. upsertCap profile (v_userCardId v2) snap d e)"

definition fee_apply_entry :: "v2_card \<Rightarrow> apply_args \<Rightarrow> fee_rule \<Rightarrow> state_error + (jsval \<times> entry) option" where
  "fee_apply_entry v2 args rule =
     (if has_text (aa_categoryId args) \<and> category_in (aa_categoryId args) (fr_excluded_categories rule) then Inr None
      else ebind (instant (aa_occurred args)) (\<lambda>t. ebind (feeBounds rule t (v_statementDay v2)) (\<lambda>b.
        Inr (Some (fr_threshold rule, \<lparr>en_id = fr_id rule, en_start = fst b, en_end = snd b,
          en_delta = round2s (to_number (aa_amount args)), en_kind = None, en_amount = None, en_approximate = False\<rparr>)))))"

definition card_fee_rules :: "db \<Rightarrow> string \<Rightarrow> fee_rule list" where
  "card_fee_rules d product = map snd (filter (\<lambda>(p, _). p = product) (db_fee_rules d))"

definition fee_entries :: "v2_card \<Rightarrow> apply_args \<Rightarrow> bool \<Rightarrow> db \<Rightarrow> state_error + (jsval \<times> entry) list" where
  "fee_entries v2 args excluded d = (if excluded then Inr []
     else ebind (emap (fee_apply_entry v2 args) (card_fee_rules d (v_cardProductId v2))) (\<lambda>es. Inr (List.map_filter id es)))"

definition finishTransaction ::
  "string \<Rightarrow> string \<Rightarrow> outcome \<Rightarrow> state_record option \<Rightarrow> db \<Rightarrow> state_error + db" where
  "finishTransaction profile txnId out rec d =
     ebind (money (oc_value out)) (\<lambda>_. ebind (ebind (hundredths (oc_native out)) (fits 10)) (\<lambda>_.
     ebind (case oc_cashback out of None \<Rightarrow> Inr 0 | Some c \<Rightarrow> money c) (\<lambda>_.
       Inr (update_txn txnId profile (\<lambda>t. t\<lparr>tx_expected_value_inr := JNum (oc_value out),
              tx_expected_points := JNum (oc_native out), tx_expected_cashback_inr := of_num (oc_cashback out),
              tx_card_state_v2 := rec\<rparr>) d))))"

definition applyTransactionV2 ::
  "int \<Rightarrow> string \<Rightarrow> directory option \<Rightarrow> v2_card \<Rightarrow> apply_args \<Rightarrow> db \<Rightarrow> state_error + db \<times> updates" where
  "applyTransactionV2 tz profile dir v2 args d =
     (let txn = find (owned_txn (aa_txnId args) profile) (db_txns d);
          ctx = arg_context args (map_option txn_row.truncate txn) in
      ebind (clear_applied profile (aa_txnId args) d) (\<lambda>d0.
      ebind (capPlan tz v2 dir ctx) (\<lambda>p.
      ebind (current_rows tz profile dir v2 p args d0) (\<lambda>(d1, rows).
      ebind (computeTransactionV2 tz v2 dir ctx (\<lambda>i s. mget rows (i, s) (Fin 0)) p) (\<lambda>out.
      ebind (upsertAll (applyCapEntry profile v2) d1 (oc_capEntries out)) (\<lambda>(d2, caps).
      ebind (milestoneEntries tz v2 ctx (oc_excluded out)) (\<lambda>miles.
      ebind (upsertAll (upsertMilestone profile (v_userCardId v2)) d2 miles) (\<lambda>(d3, mstates).
      ebind (fee_entries v2 args (oc_excluded out) d3) (\<lambda>fees.
      ebind (upsertAll (\<lambda>d (th, e). upsertFee profile (v_userCardId v2) th d e) d3 fees) (\<lambda>(d4, fstates).
      ebind (finishTransaction profile (aa_txnId args) out
               (toRecord (v_userCardId v2) (oc_capEntries out) miles (map snd fees)) d4) (\<lambda>d5.
        let ls = ledgerRows profile (v_userCardId v2) (aa_txnId args) (aa_occurred args) (oc_native out) in
        Inr (d5\<lparr>db_ledger := db_ledger d5 @ ls\<rparr>,
             \<lparr>up_caps = caps, up_milestones = mstates, up_fees = fstates,
              up_ledger = (if ls = [] then None else Some (hd ls))\<rparr>))))))))))))"

definition reverseTransactionV2 :: "string \<Rightarrow> string \<Rightarrow> db \<Rightarrow> state_error + db \<times> updates" where
  "reverseTransactionV2 profile txnId d =
     ebind (reverseRecord profile (stored_record d txnId profile) d) (\<lambda>(d1, ups).
       Inr (delete_ledger txnId profile (update_txn txnId profile zero_expected d1), ups))"

text \<open>
  The hook: everything runs under a savepoint, so on an error the tables are the ones before the
  call, except for what the error path itself writes. \<open>None\<close> sends the caller to the first engine.
\<close>

definition deferTransaction :: "string \<Rightarrow> apply_args \<Rightarrow> db \<Rightarrow> db" where
  "deferTransaction profile args d =
     (if aa_txnId args = [] then d
      else if aa_sign args < 0
        then delete_ledger (aa_txnId args) profile (update_txn (aa_txnId args) profile zero_expected d)
      else update_txn (aa_txnId args) profile (\<lambda>t. t\<lparr>tx_card_state_v2 := None\<rparr>) d)"

definition applyIfV2 ::
  "int \<Rightarrow> string \<Rightarrow> directory option \<Rightarrow> string option \<Rightarrow> apply_args \<Rightarrow> process \<Rightarrow> db \<Rightarrow> (db \<times> updates option) \<times> process" where
  "applyIfV2 tz profile dir cardId args pr d =
     (let (card, pr') = loadV2Card tz d pr (or_text (aa_userCardId args) cardId) (Some profile) in
      (case card of
         None \<Rightarrow> (d, None)
       | Some v2 \<Rightarrow>
           (case (if aa_sign args < 0 then reverseTransactionV2 profile (aa_txnId args) d
                  else applyTransactionV2 tz profile dir v2 args d) of
              Inr (d', ups) \<Rightarrow> (d', Some ups)
            | Inl e \<Rightarrow> (deferTransaction profile args d, Some no_updates)), pr'))"

definition reconcileIfV2 ::
  "int \<Rightarrow> string \<Rightarrow> directory option \<Rightarrow> string option \<Rightarrow> date_value \<Rightarrow> process \<Rightarrow> db \<Rightarrow> (state_error + (db \<times> nat) option) \<times> process" where
  "reconcileIfV2 tz profile dir cardId now pr d =
     (let (card, pr') = loadV2Card tz d pr cardId (Some profile) in
      (case card of None \<Rightarrow> Inr None
       | Some v2 \<Rightarrow> ebind (rebuildCardState tz profile dir v2 now caps_only [] d) (\<lambda>(d', plan).
           Inr (Some (d', length (rp_capRows plan)))), pr'))"

section \<open>Fee-waiver rebuild\<close>

definition FEE_WINDOW_MARGIN_DAYS :: int where
  "FEE_WINDOW_MARGIN_DAYS = 5"

definition fee_txns :: "db \<Rightarrow> string \<Rightarrow> string \<Rightarrow> string \<Rightarrow> string \<Rightarrow> txn_row list" where
  "fee_txns d userCardId profile from0 to0 = map txn_row.truncate (filter (\<lambda>t.
     tx_user_card_id t = Some userCardId \<and> tx_profile_id t = profile
     \<and> (case time_value (tx_occurred_at t) of None \<Rightarrow> False
        | Some ms \<Rightarrow> str_le (addDays from0 (- FEE_WINDOW_MARGIN_DAYS)) (toDateOnly (day_of ms))
            \<and> str_less (toDateOnly (day_of ms)) (addDays to0 (FEE_WINDOW_MARGIN_DAYS + 1)))
     \<and> (tx_card_state_v2 t \<noteq> None \<or> isEligible [] (txn_row.truncate t))) (db_txns d))"

definition existing_fees :: "db \<Rightarrow> string \<Rightarrow> string \<Rightarrow> string list \<Rightarrow> fee_state_row list" where
  "existing_fees d userCardId profile ids = List.map_filter (\<lambda>((uc, i, s), r).
     if uc = userCardId \<and> ft_profile r = profile \<and> i \<in> set ids
     then Some \<lparr>xf_rule_id = i, xf_period_start = s, xf_period_end = ft_period_end r,
                xf_qualified = JNum (of_money (ft_qualified r)), xf_waived = ft_waived r\<rparr>
     else None) (db_fee_states d)"

record fee_card =
  fc_userCardId :: string
  fc_profileId :: string
  fc_cardProductId :: string
  fc_statementDay :: "int option"

definition planFeeWaiverRebuild ::
  "int \<Rightarrow> db \<Rightarrow> directory option \<Rightarrow> fee_card \<Rightarrow> date_value \<Rightarrow> v2_card option \<Rightarrow> state_error + fee_plan option" where
  "planFeeWaiverRebuild tz d dir c asOf v2 =
     (let rules = card_fee_rules d (fc_cardProductId c) in
      if rules = [] then Inr None
      else ebind (feeWaiverWindows rules asOf (fc_statementDay c)) (\<lambda>ws.
        let from0 = foldl (\<lambda>d w. minDay d (fw_start w)) (fw_start (hd ws)) ws;
            to0 = foldl (\<lambda>d w. maxDay d (fw_end w)) (fw_end (hd ws)) ws;
            excludedOf = map_option (\<lambda>v t. ebind (capPlan tz v dir (transactionContext t)) (\<lambda>p. Inr (cp_excluded p))) v2 in
        ebind (planFeeWaivers ws (fee_txns d (fc_userCardId c) (fc_profileId c) from0 to0) (fc_statementDay c) excludedOf
                 (existing_fees d (fc_userCardId c) (fc_profileId c) (map fr_id rules)) (map_option v_userCardId v2))
          (\<lambda>p. Inr (Some p))))"

definition writeFee :: "string \<Rightarrow> fee_card \<Rightarrow> db \<Rightarrow> fee_row \<Rightarrow> state_error + db" where
  "writeFee profile c d r =
     (let k = (fc_userCardId c, fe_rule_id r, fe_period_start r) in
      ebind (money (fe_qualified r)) (\<lambda>q.
        let row = (case map_of (db_fee_states d) k of
              None \<Rightarrow> \<lparr>ft_profile = profile, ft_period_end = fe_period_end r, ft_qualified = q, ft_waived = False\<rparr>
            | Some x \<Rightarrow> x\<lparr>ft_qualified := q, ft_period_end := fe_period_end r\<rparr>) in
        Inr (d\<lparr>db_fee_states := mset_put k (settleFeeWaiver row (JNum (fe_threshold r))) (db_fee_states d)\<rparr>)))"

definition applyFeeWaiverRebuild :: "string \<Rightarrow> fee_card \<Rightarrow> fee_plan \<Rightarrow> db \<Rightarrow> state_error + db" where
  "applyFeeWaiverRebuild profile c plan d =
     ebind (efold (writeFee profile c) d (fp_toWrite plan)) (\<lambda>d'.
       Inr (foldl (writeRecord profile) d' (fp_recordUpdates plan)))"

section \<open>Reads for the wallet\<close>

definition POINTS_KINDS :: "string list" where
  "POINTS_KINDS = [''bonus_points'', ''total_points'']"

record wallet_cap =
  wc_cap_rule_id :: string
  wc_consumed :: int
  wc_consumed_native :: "int option"
  wc_snapshot :: int
  wc_cap_kind :: "string option"
  wc_cap_amount :: "int option"
  wc_period_start :: string
  wc_period_end :: string
  wc_approximate :: bool

text \<open>
  \<open>round(consumed * point_value, 2)\<close>, half away from zero, on the two decimal columns
  (\<open>point_value_inr\<close> has four decimals, so it is an integer of ten-thousandths).
\<close>

definition points_in_rupees :: "int \<Rightarrow> int \<Rightarrow> int" where
  "points_in_rupees consumed pointValue = \<lfloor>of_int (consumed * pointValue) / 10000 + (1 / 2 :: rat)\<rfloor>"

definition wallet_cap_of :: "int \<Rightarrow> state_key \<times> cap_state \<Rightarrow> wallet_cap" where
  "wallet_cap_of pointValue = (\<lambda>((uc, i, s), r).
     \<lparr>wc_cap_rule_id = i,
      wc_consumed = (if member_text (ct_kind r) POINTS_KINDS then points_in_rupees (ct_consumed r) pointValue else ct_consumed r),
      wc_consumed_native = (if ct_kind r = None then None else Some (ct_consumed r)), wc_snapshot = ct_snapshot r,
      wc_cap_kind = ct_kind r, wc_cap_amount = ct_amount r,
      wc_period_start = s, wc_period_end = ct_period_end r, wc_approximate = ct_approximate r\<rparr>)"

definition currentCapStates :: "db \<Rightarrow> string \<Rightarrow> string \<Rightarrow> int \<Rightarrow> string \<Rightarrow> string \<Rightarrow> wallet_cap list" where
  "currentCapStates d userCardId uid pointValue istToday dbToday =
     map (wallet_cap_of pointValue) (filter (\<lambda>((uc, i, s), r).
       let today = (if ct_kind r = None then dbToday else istToday) in
       uc = userCardId \<and> ct_profile r = uid \<and> str_le s today \<and> str_le today (ct_period_end r)) (db_cap_states d))"

definition currentMilestoneStates :: "db \<Rightarrow> string \<Rightarrow> string \<Rightarrow> bool \<Rightarrow> string \<Rightarrow> string \<Rightarrow> (state_key \<times> milestone_state) list" where
  "currentMilestoneStates d userCardId uid isV2 istToday dbToday =
     (let today = (if isV2 then istToday else dbToday) in
      filter (\<lambda>((uc, i, s), r). uc = userCardId \<and> mt_profile r = uid \<and> str_le s today \<and> str_le today (mt_period_end r))
        (db_milestone_states d))"

end
