(* ===== verification/JsRange.thy ===== *)
theory JsRange
  imports JsError
begin

text \<open>
  Ranges of binary64 results: when an operation stays finite, when it is monotone, and which Numbers
  are whole.
\<close>

lemma fl_pow2: "0 \<le> k \<Longrightarrow> fl (2 powi k) = 2 powi k"
  by (rule fl_representable[of _ 1]) auto

lemma rnd_finite: "\<bar>y\<bar> \<le> 2 ^ 1000 \<Longrightarrow> rnd y = Fin (fl y)"
proof -
  assume y: "\<bar>y\<bar> \<le> 2 ^ 1000"
  have p: "fl (2 ^ 1000) = (2 ^ 1000 :: rat)" using fl_pow2[of 1000] by (simp add: power_int_def)
  have "fl y \<le> 2 ^ 1000" using y p by (intro binary64.rd_upper) auto
  moreover have "- (2 ^ 1000) \<le> fl y"
  proof (rule binary64.rd_lower)
    show "- (2 ^ 1000) \<le> y" by (rule iffD1[OF minus_le_iff abs_le_D2[OF y]])
    show "fl (- (2 ^ 1000)) = - (2 ^ 1000)" by (simp only: fl_neg p)
  qed
  ultimately have "\<bar>fl y\<bar> \<le> 2 ^ 1000" by (rule abs_leI[OF _ iffD1[OF minus_le_iff]])
  also have "\<dots> < (2 ^ 1024 :: rat)" by simp
  finally show ?thesis by (rule rnd_Fin)
qed

lemma rnd_mono: "x \<le> y \<Longrightarrow> rnd x \<le> rnd y"
  using fl_mono[of x y] by (auto simp: rnd_def Let_def)

lemma of_bigint_mono: "i \<le> j \<Longrightarrow> of_bigint i \<le> of_bigint j"
  unfolding of_bigint_def by (intro rnd_mono) simp

lemma jround_mono: "a \<le> b \<Longrightarrow> jround a \<le> jround b"
  by (cases a; cases b) (auto simp: floor_mono)

lemma times_mono: "a \<le> b \<Longrightarrow> Fin 0 < c \<Longrightarrow> is_finite c \<Longrightarrow> a * c \<le> b * c"
  by (cases a; cases b; cases c) (auto simp: signed_inf_def less_eq_jsnum_def[symmetric] intro!: rnd_mono mult_right_mono)

lemma divide_mono: "a \<le> b \<Longrightarrow> Fin 0 < c \<Longrightarrow> is_finite c \<Longrightarrow> a / c \<le> b / c"
  by (cases a; cases b; cases c) (auto simp: intro!: rnd_mono divide_right_mono)

lemma whole_if_large:
  assumes "wf_num (Fin x)" and "2 ^ 53 < \<bar>x\<bar>"
  shows "of_int \<lfloor>x\<rfloor> = x"
proof -
  have f: "fl x = x" using assms(1) by (simp add: is_double_def)
  obtain k p where x: "x = of_int k * 2 powi p" and k: "\<bar>k\<bar> \<le> 2 ^ 53"
    using fl_form[of x] f by metis
  have "0 \<le> p"
  proof (rule ccontr)
    assume "\<not> 0 \<le> p"
    then have "(2 powi p :: rat) \<le> 1" using powi2_le[of p 0] by simp
    then have "\<bar>x\<bar> \<le> \<bar>of_int k\<bar> * 1" unfolding x abs_mult by (intro mult_left_mono) auto
    also have "\<dots> = of_int \<bar>k\<bar>" by simp
    also have "\<dots> \<le> of_int (2 ^ 53)" using k by (simp only: of_int_le_iff)
    finally show False using assms(2) by simp
  qed
  then have "x = of_int (k * 2 ^ nat p)" unfolding x by (simp add: powi2_nat)
  then show ?thesis by (metis floor_of_int)
qed


lemma floor_rat_numeral [simp, js_simps]: "\<lfloor>numeral a / numeral b :: rat\<rfloor> = numeral a div numeral b"
  using floor_divide_of_int_eq[of "numeral a" "numeral b", where 'a = rat] by simp

lemma floor_rat_half [simp, js_simps]: "\<lfloor>1 / numeral b :: rat\<rfloor> = 1 div numeral b"
  using floor_divide_of_int_eq[of 1 "numeral b", where 'a = rat] by simp


lemma NaN_arith [simp]:
  "a + NaN = NaN" "NaN + a = NaN" "a * NaN = NaN" "NaN * a = NaN" "a - NaN = NaN" "NaN - a = NaN"
  by (cases a; simp add: minus_jsnum_def)+

end
