(* ===== verification/RewardV2Props.thy ===== *)
theory RewardV2Props
  imports RewardV2 JsRange
begin

text \<open>
  What the second-generation engine of \<open>RewardV2\<close> guarantees: exact half-up arithmetic,
  accruals that are non-negative and grow with the spend, no exception on the amounts the
  database can hold, a rule choice with exclusions first, cap selection closed under parent links,
  and consumption that never overruns a cap.
\<close>

section \<open>Exact arithmetic\<close>

lemma big_of_int [simp]: "big (Fin (of_int k)) = Inr k"
  by (simp add: big_def)

lemma big_jround: "is_finite x \<Longrightarrow> \<exists>k. jround x = Fin (of_int k) \<and> big (jround x) = Inr k"
  by (cases x) auto

lemma big_Inr_jround: "big (jround x) = Inr k \<Longrightarrow> jround x = Fin (of_int k)"
  by (cases x) (auto simp: big_def)

text \<open>Half-up division of integers is the rounding of the exact quotient.\<close>

definition half_up :: "int \<Rightarrow> int \<Rightarrow> int" where
  "half_up n d = (2 * n + d) div (2 * d)"

lemma half_up_exact: "0 < d \<Longrightarrow> half_up n d = \<lfloor>of_int n / of_int d + (1 / 2 :: rat)\<rfloor>"
proof -
  assume "0 < d"
  then have "of_int n / of_int d + (1 / 2 :: rat) = of_int (2 * n + d) / of_int (2 * d)"
    by (simp add: field_simps)
  then show ?thesis by (simp only: floor_divide_of_int_eq half_up_def)
qed

lemma half_up_mono: "n \<le> n' \<Longrightarrow> 0 < d \<Longrightarrow> half_up n d \<le> half_up n' d"
  unfolding half_up_def by (intro zdiv_mono1) auto

lemma half_up_nonneg: "0 \<le> n \<Longrightarrow> 0 < d \<Longrightarrow> 0 \<le> half_up n d"
  unfolding half_up_def by (intro div_int_pos_iff[THEN iffD2]) auto

lemma divHalfUp_pos: "0 \<le> n \<Longrightarrow> 0 < d \<Longrightarrow> divHalfUp n d = Inr (half_up n d)"
  by (simp add: divHalfUp_def half_up_def big_div_pos)

lemma exact_loop_pos:
  assumes "exact_loop v ds = Inr (n, d)" and "nn v"
  shows "0 \<le> n \<and> 0 < d"
  using assms(1)
proof (induction ds)
  case Nil
  then obtain k where k: "big (jround (v * Fin (10 ^ 8))) = Inr k" "n = k" "d = 100000000"
    by (auto simp: ebind_eq_Inr)
  have "nn (jround (v * Fin (10 ^ 8)))" by (intro nn_jround nn_times assms(2)) simp
  then show ?case using big_Inr_jround[OF k(1)] k by simp
next
  case (Cons dp ds)
  define s where "s = Fin (10 ^ dp)"
  have nn: "nn (jround (v * s))" unfolding s_def by (intro nn_jround nn_times assms(2)) simp
  show ?case
  proof (cases "jabs (v * s - jround (v * s)) \<le> lit (1 / 10 ^ 9) * jmax (Fin 1) (jabs (v * s))")
    case True
    then obtain k where k: "big (jround (v * s)) = Inr k" "n = k" and d: "big s = Inr d"
      using Cons.prems by (auto simp: ebind_eq_Inr Let_def s_def)
    have "0 \<le> n" using big_Inr_jround[OF k(1)] nn k by simp
    moreover have "d = 10 ^ dp" using d big_of_int[of "10 ^ dp"] by (simp add: s_def)
    ultimately show ?thesis by simp
  next
    case False
    then show ?thesis using Cons by (simp add: Let_def s_def)
  qed
qed

lemma exactDecimal_pos: "exactDecimal v = Inr (n, d) \<Longrightarrow> nn v \<Longrightarrow> 0 \<le> n \<and> 0 < d"
  unfolding exactDecimal_def by (rule exact_loop_pos)

text \<open>A finite rate is always found: a large Number is whole, a small one stays finite when scaled.\<close>

lemma jabs_le_finite: "jabs (s - jround s) \<le> x \<Longrightarrow> is_finite s"
  by (cases s) (auto simp: minus_jsnum_def)

lemma exact_loop_total: "is_finite (v * Fin (10 ^ 8)) \<Longrightarrow> \<exists>p. exact_loop v ds = Inr p"
proof (induction ds)
  case Nil
  then show ?case using big_jround[of "v * Fin (10 ^ 8)"] by auto
next
  case (Cons dp ds)
  have s: "big (Fin (10 ^ dp)) = Inr (10 ^ dp)" using big_of_int[of "10 ^ dp"] by simp
  show ?case
  proof (cases "jabs (v * Fin (10 ^ dp) - jround (v * Fin (10 ^ dp)))
      \<le> lit (1 / 10 ^ 9) * jmax (Fin 1) (jabs (v * Fin (10 ^ dp)))")
    case True
    then show ?thesis using big_jround[OF jabs_le_finite[OF True]] s by (auto simp: Let_def)
  next
    case False
    then show ?thesis using Cons by (auto simp: Let_def)
  qed
qed

lemma exactDecimal_total:
  assumes "is_finite v" and "wf_num v"
  shows "\<exists>p. exactDecimal v = Inr p"
proof -
  obtain x where v: "v = Fin x" using assms(1) by (cases v) auto
  show ?thesis
  proof (cases "\<bar>x\<bar> \<le> 2 ^ 53")
    case True
    have "\<bar>x * 10 ^ 8\<bar> = \<bar>x\<bar> * 10 ^ 8" by (simp add: abs_mult)
    also have "\<dots> \<le> 2 ^ 53 * 10 ^ 8" using True by (intro mult_right_mono) auto
    also have "\<dots> \<le> (2 ^ 1000 :: rat)" by simp
    finally have "is_finite (v * Fin (10 ^ 8))" by (simp add: v rnd_finite)
    then show ?thesis unfolding exactDecimal_def by (rule exact_loop_total)
  next
    case False
    have "of_int \<lfloor>x\<rfloor> = x" using assms(2) False by (intro whole_if_large) (auto simp: v)
    then obtain k where x: "x = of_int k" by metis
    have e: "rnd x = Fin x" using assms(2) by (intro rnd_exact) (auto simp: v is_double_def)
    have k: "\<lfloor>of_int k + (1 / 2 :: rat)\<rfloor> = k" by (rule floor_unique) auto
    have r: "jround (Fin x) = Fin x" by (simp only: jround.simps x k)
    have "nn (lit (1 / 10 ^ 9) * jmax (Fin 1) (jabs (Fin x)))"
      unfolding lit_def by (intro nn_times nn_rnd) (simp_all add: max_def)
    moreover have "lit (1 / 10 ^ 9) * jmax (Fin 1) (jabs (Fin x)) \<noteq> NaN"
      using rnd_finite[of "1 / 10 ^ 9"] by (simp add: lit_def)
    ultimately have c: "Fin 0 \<le> lit (1 / 10 ^ 9) * jmax (Fin 1) (jabs (Fin x))" by (simp add: nn_def)
    have "exact_loop v (0 # ds) = Inr (k, 1)" for ds
      using c big_of_int[of 1] big_of_int[of k]
      by (simp add: Let_def v e r minus_Fin flip: x del: jround.simps jmax_Fin)
    then show ?thesis by (simp add: exactDecimal_def)
  qed
qed


section \<open>What a piece of spend earns\<close>

text \<open>The three formulas of \<open>accrue\<close> once its conversions have succeeded.\<close>

definition cashback_value :: "string \<Rightarrow> int \<Rightarrow> int \<Rightarrow> int \<Rightarrow> jsnum" where
  "cashback_value mode p rn rd =
     (if mode = ''rupee_floor'' then of_bigint (p * rn div (100 * rd * 100))
      else if mode = ''rupee_half_up'' then of_bigint (half_up (p * rn) (100 * rd * 100))
      else of_bigint (half_up (p * rn) (100 * rd)) / Fin 100)"

lemma accrue_cashback_value:
  assumes "exactDecimal r = Inr (rn, rd)" and "paise_of spend = Inr p" and "0 \<le> p" and "nn r"
  shows "accrue_cashback r spend mode = Inr (cashback_value mode p rn rd)"
  using exactDecimal_pos[OF assms(1,4)] assms
  by (simp add: accrue_cashback_def cashback_value_def Let_def big_div_pos divHalfUp_pos)

definition points_value :: "string \<Rightarrow> jsnum \<Rightarrow> int \<Rightarrow> int \<Rightarrow> int \<Rightarrow> int \<Rightarrow> jsnum" where
  "points_value mode r p b rn rd =
     (if mode = ''points_floor'' then of_bigint (p * rn div (b * rd))
      else if mode = ''points_half_up'' then of_bigint (half_up (p * rn) (b * rd))
      else if mode = ''round'' then of_bigint (half_up p b) * r
      else of_bigint (p div b) * r)"

lemma accrue_points_value:
  assumes "exactDecimal r = Inr (rn, rd)" and "paise_of spend = Inr p" and "0 \<le> p" and "nn r"
    and "paise_of block = Inr b" and "0 < b" and "mode \<noteq> ''none''"
  shows "accrue_points r spend block mode = Inr (points_value mode r p b rn rd)"
  using exactDecimal_pos[OF assms(1,4)] assms
  by (simp add: accrue_points_def points_value_def Let_def big_div_pos divHalfUp_pos)

lemma cashback_value_mono:
  assumes "p \<le> p'" and "0 \<le> rn" and "0 < rd"
  shows "cashback_value mode p rn rd \<le> cashback_value mode p' rn rd"
proof -
  have n: "p * rn \<le> p' * rn" using assms by (intro mult_right_mono)
  show ?thesis unfolding cashback_value_def
    using half_up_mono[OF n, of "100 * rd"] half_up_mono[OF n, of "100 * rd * 100"] zdiv_mono1[OF n, of "100 * rd * 100"] assms(3)
    by (auto intro!: of_bigint_mono divide_mono)
qed

lemma points_value_mono:
  assumes "p \<le> p'" and "0 \<le> rn" and "0 < rd" and "0 < b" and "Fin 0 < r" and "is_finite r"
  shows "points_value mode r p b rn rd \<le> points_value mode r p' b rn rd"
proof -
  have n: "p * rn \<le> p' * rn" using assms by (intro mult_right_mono)
  have d: "0 < b * rd" using assms by simp
  show ?thesis unfolding points_value_def
    using half_up_mono[OF n d] zdiv_mono1[OF n d] half_up_mono[OF assms(1,4)] zdiv_mono1[OF assms(1,4)] assms(5,6)
    by (auto intro!: of_bigint_mono times_mono)
qed

lemma paise_of_mono: "paise_of a = Inr p \<Longrightarrow> paise_of b = Inr q \<Longrightarrow> a \<le> b \<Longrightarrow> p \<le> q"
proof -
  assume a: "paise_of a = Inr p" and b: "paise_of b = Inr q" and ab: "a \<le> b"
  have "jround (a * Fin 100) \<le> jround (b * Fin 100)" using ab by (intro jround_mono times_mono) auto
  then show ?thesis using a b by (simp add: paise_of_def big_Inr_jround)
qed

lemma paise_of_nonneg: "paise_of a = Inr p \<Longrightarrow> Fin 0 \<le> a \<Longrightarrow> 0 \<le> p"
  using paise_of_mono[of "Fin 0" 0 a p] big_of_int[of 0] by (simp add: paise_of_def floor_eq_iff)

lemma num_finite: "num v = Some n \<Longrightarrow> is_finite n"
  by (auto simp: num_def split: if_splits)

lemma num_wf: "wf_val v \<Longrightarrow> num v = Some n \<Longrightarrow> wf_num n"
  by (auto simp: num_def simp del: wf_num.simps split: if_splits)

lemma block_of_pos: "block_of unit v = Some b \<Longrightarrow> Fin 0 < b \<and> is_finite b"
  by (auto simp: block_of_def UNIT_BLOCK_def num_finite split: option.splits if_splits)


lemma accrue_cases [consumes 1, case_names nothing cashback flat no_block points]:
  assumes "accrue unit rate spend bo mode cb = res"
  obtains "res = Inr (Fin 0)"
  | r where "num rate = Some r" "Fin 0 < r" "Fin 0 < spend" "text_of unit \<in> set CASHBACK_UNITS"
      "res = accrue_cashback r spend cb"
  | r where "num rate = Some r" "Fin 0 < r" "Fin 0 < spend" "unit = Some ''flat_points''" "res = Inr r"
  | r b where "num rate = Some r" "Fin 0 < r" "Fin 0 < spend" "block_of (text_of unit) bo = Some b"
      "text_of unit \<notin> set CASHBACK_UNITS" "unit \<noteq> Some ''flat_points''" "res = accrue_points r spend b mode"
proof (cases "num rate")
  case None
  then show ?thesis using assms that(1) by (simp add: accrue_def)
next
  case (Some r)
  have f: "\<not> r \<le> Fin 0 \<longleftrightarrow> Fin 0 < r" using num_finite[OF Some] by (cases r) auto
  show ?thesis using assms Some f that unfolding accrue_def
    by (auto split: if_splits option.splits)
qed


lemma accrue_cashback_mono:
  assumes "accrue_cashback r s cb = Inr v" and "accrue_cashback r s' cb = Inr v'"
    and "Fin 0 \<le> s" and "s \<le> s'" and "nn r"
  shows "v \<le> v'"
proof -
  obtain rn rd p p' where e: "exactDecimal r = Inr (rn, rd)" "paise_of s = Inr p" "paise_of s' = Inr p'"
    using assms(1,2) by (auto simp: accrue_cashback_def ebind_eq_Inr)
  have s': "Fin 0 \<le> s'" using assms(3,4) jle_trans by blast
  have "cashback_value cb p rn rd \<le> cashback_value cb p' rn rd"
    using exactDecimal_pos[OF e(1) assms(5)] paise_of_mono[OF e(2,3) assms(4)] by (intro cashback_value_mono) auto
  then show ?thesis
    using assms(1,2) accrue_cashback_value[OF e(1,2) paise_of_nonneg[OF e(2) assms(3)] assms(5)]
      accrue_cashback_value[OF e(1,3) paise_of_nonneg[OF e(3) s'] assms(5)] by simp
qed

lemma accrue_points_block:
  assumes "accrue_points r s b mode = Inr v" and "mode \<noteq> ''none''" and "exactDecimal r = Inr d" and "Fin 0 < b"
  shows "\<exists>p q. paise_of s = Inr p \<and> paise_of b = Inr q \<and> 0 < q"
proof -
  obtain p q where e: "paise_of s = Inr p" "paise_of b = Inr q"
    using assms(1,2) by (auto simp: accrue_points_def ebind_eq_Inr)
  have "0 \<le> q" using paise_of_nonneg[OF e(2)] assms(4) by (simp add: jless_imp_le)
  moreover have "q \<noteq> 0"
    using assms(1,2,3) e by (auto simp: accrue_points_def big_div_def divHalfUp_def Let_def split: if_splits prod.splits)
  ultimately show ?thesis using e by simp
qed

lemma accrue_points_mono:
  assumes "accrue_points r s b mode = Inr v" and "accrue_points r s' b mode = Inr v'"
    and "Fin 0 \<le> s" and "s \<le> s'" and "Fin 0 < r" and "is_finite r" and "wf_num r" and "Fin 0 < b \<and> is_finite b"
  shows "v \<le> v'"
proof (cases "mode = ''none''")
  case True
  then show ?thesis using assms by (auto simp: accrue_points_def intro!: times_mono divide_mono)
next
  case False
  obtain rn rd where d: "exactDecimal r = Inr (rn, rd)" using exactDecimal_total[OF assms(6,7)] by auto
  have b: "Fin 0 < b" using assms(8) by simp
  obtain p q where e: "paise_of s = Inr p" "paise_of b = Inr q" and q: "0 < q"
    using accrue_points_block[OF assms(1) False d b] by auto
  obtain p' where e': "paise_of s' = Inr p'" using accrue_points_block[OF assms(2) False d b] by auto
  have nn: "nn r" using assms(5) by (auto simp: nn_def jless_imp_le)
  have s': "Fin 0 \<le> s'" using assms(3,4) jle_trans by blast
  have "points_value mode r p q rn rd \<le> points_value mode r p' q rn rd"
    using exactDecimal_pos[OF d nn] paise_of_mono[OF e(1) e' assms(4)] q assms(5,6) by (intro points_value_mono) auto
  then show ?thesis
    using assms(1,2) accrue_points_value[OF d e(1) paise_of_nonneg[OF e(1) assms(3)] nn e(2) q False]
      accrue_points_value[OF d e' paise_of_nonneg[OF e' s'] nn e(2) q False] by simp
qed

text \<open>A piece of no spend earns nothing, so non-negativity is the case of growth from zero.\<close>

lemma paise_of_0 [simp]: "paise_of (Fin 0) = Inr 0"
  by (simp add: paise_of_def big_def)

lemma half_up_0 [simp]: "0 < d \<Longrightarrow> half_up 0 d = 0"
  by (simp add: half_up_def div_pos_pos_trivial)

lemma accrue_cashback_zero: "exactDecimal r = Inr (rn, rd) \<Longrightarrow> nn r \<Longrightarrow> accrue_cashback r (Fin 0) cb = Inr (Fin 0)"
  using accrue_cashback_value[of r rn rd "Fin 0" 0 cb] exactDecimal_pos[of r rn rd]
  by (auto simp: cashback_value_def of_bigint_def)

lemma accrue_points_zero:
  assumes "accrue_points r s b mode = Inr v" and "Fin 0 < r" and "is_finite r" and "wf_num r" and "Fin 0 < b \<and> is_finite b"
  shows "accrue_points r (Fin 0) b mode = Inr (Fin 0)"
proof -
  obtain rn rd where d: "exactDecimal r = Inr (rn, rd)" using exactDecimal_total[OF assms(3,4)] by auto
  show ?thesis
  proof (cases "mode = ''none''")
    case True
    then show ?thesis using assms(2,3,5) by (cases r; cases b) (auto simp: accrue_points_def)
  next
    case False
    obtain q where e: "paise_of b = Inr q" and q: "0 < q"
      using accrue_points_block[OF assms(1) False d] assms(5) by auto
    have nn: "nn r" using assms(2) by (auto simp: nn_def jless_imp_le)
    have "points_value mode r 0 q rn rd = Fin 0"
      using assms(2,3) q exactDecimal_pos[OF d nn] by (cases r) (auto simp: points_value_def of_bigint_def)
    then show ?thesis using accrue_points_value[OF d paise_of_0 _ nn e q False] by simp
  qed
qed

lemma accrue_positive:
  assumes "num rate = Some r" and "has_text unit" and "Fin 0 < r" and "Fin 0 < spend"
  shows "accrue unit rate spend bo mode cb =
    (if text_of unit \<in> set CASHBACK_UNITS then accrue_cashback r spend cb
     else if unit = Some ''flat_points'' then Inr r
     else case block_of (text_of unit) bo of None \<Rightarrow> Inr (Fin 0) | Some b \<Rightarrow> accrue_points r spend b mode)"
proof -
  have "\<not> r \<le> Fin 0" using assms(3) by (cases r) auto
  then show ?thesis using assms by (simp add: accrue_def)
qed

lemma accrue_inactive:
  assumes "num rate = None \<or> (\<exists>r. num rate = Some r \<and> \<not> Fin 0 < r) \<or> \<not> has_text unit \<or> \<not> Fin 0 < spend"
  shows "accrue unit rate spend bo mode cb = Inr (Fin 0)"
proof (cases "num rate")
  case None
  then show ?thesis by (simp add: accrue_def)
next
  case (Some r)
  have "\<not> Fin 0 < r \<longleftrightarrow> r \<le> Fin 0" using num_finite[OF Some] by (cases r) auto
  then show ?thesis using assms Some by (auto simp: accrue_def)
qed

text \<open>From a smaller (possibly zero) spend to a larger one, both positive or the first one zero.\<close>

lemma accrue_active_mono:
  assumes "num rate = Some r" and "wf_val rate" and "has_text unit" and "Fin 0 < r" and "Fin 0 < s" and "s \<le> s'"
    and "accrue unit rate s bo mode cb = Inr v" and "accrue unit rate s' bo mode cb = Inr v'"
  shows "Fin 0 \<le> v \<and> v \<le> v'"
proof -
  have r: "is_finite r" "wf_num r" "nn r" "r \<noteq> NaN"
    using num_finite[OF assms(1)] num_wf[OF assms(2,1)] assms(4) by (auto simp: nn_def jless_imp_le)
  have s: "Fin 0 < s'" "Fin 0 \<le> s" using assms(5,6) by (cases s; cases s'; auto)+
  note eqs = accrue_positive[OF assms(1,3,4,5)] accrue_positive[OF assms(1,3,4) s(1)]
  show ?thesis
  proof (cases "text_of unit \<in> set CASHBACK_UNITS")
    case True
    then have a: "accrue_cashback r s cb = Inr v" "accrue_cashback r s' cb = Inr v'" using assms(7,8) eqs by simp_all
    obtain rn rd where "exactDecimal r = Inr (rn, rd)" using exactDecimal_total[OF r(1,2)] by auto
    then have z: "accrue_cashback r (Fin 0) cb = Inr (Fin 0)" using accrue_cashback_zero r(3) by blast
    show ?thesis using accrue_cashback_mono[OF a s(2) assms(6) r(3)] accrue_cashback_mono[OF z a(1) _ s(2) r(3)] by simp
  next
    case nc: False
    show ?thesis
    proof (cases "unit = Some ''flat_points'' \<or> block_of (text_of unit) bo = None")
      case True
      then have "v = r \<and> v' = r \<or> v = Fin 0 \<and> v' = Fin 0"
        using assms(7,8) eqs[of bo mode cb] nc by (auto split: if_splits)
      then show ?thesis using r(4) assms(4) by (auto simp: jless_imp_le)
    next
      case False
      then obtain b where b: "block_of (text_of unit) bo = Some b" by auto
      have a: "accrue_points r s b mode = Inr v" "accrue_points r s' b mode = Inr v'"
        using assms(7,8) eqs nc False b by auto
      note bp = block_of_pos[OF b]
      have z: "accrue_points r (Fin 0) b mode = Inr (Fin 0)" by (rule accrue_points_zero[OF a(1) assms(4) r(1,2) bp])
      show ?thesis using accrue_points_mono[OF a s(2) assms(6) assms(4) r(1,2) bp]
          accrue_points_mono[OF z a(1) _ s(2) assms(4) r(1,2) bp] by simp
    qed
  qed
qed

text \<open>
  An accrual is never negative and never falls when more is spent: for the same unit, rate, block
  and rounding modes, a larger spend earns at least as much.
\<close>

theorem accrue_monotone:
  assumes "wf_val rate" and "s \<le> s'"
    and "accrue unit rate s bo mode cb = Inr v" and "accrue unit rate s' bo mode cb = Inr v'"
  shows "Fin 0 \<le> v \<and> v \<le> v'"
proof (cases "\<exists>r. num rate = Some r \<and> Fin 0 < r \<and> has_text unit \<and> Fin 0 < s'")
  case False
  then have "\<not> (\<exists>r. num rate = Some r \<and> Fin 0 < r \<and> has_text unit \<and> Fin 0 < s)"
    using assms(2) by (cases s; cases s') auto
  with False have "v = Fin 0" "v' = Fin 0"
    using assms(3,4) accrue_inactive[of rate unit s bo mode cb] accrue_inactive[of rate unit s' bo mode cb]
    by (cases "num rate"; auto)+
  then show ?thesis by simp
next
  case True
  then obtain r where r: "num rate = Some r" "Fin 0 < r" "has_text unit" "Fin 0 < s'" by auto
  show ?thesis
  proof (cases "Fin 0 < s")
    case True
    then show ?thesis using accrue_active_mono[OF r(1) assms(1) r(3,2) _ assms(2,3,4)] by simp
  next
    case False
    then have "v = Fin 0" using accrue_inactive[of rate unit s bo mode cb] assms(3) by auto
    moreover have "Fin 0 \<le> v'"
    proof -
      have "s' \<le> s'" using assms(2) by (cases s; cases s') auto
      then show ?thesis using accrue_active_mono[OF r(1) assms(1) r(3,2,4) _ assms(4,4)] by simp
    qed
    ultimately show ?thesis by simp
  qed
qed

lemmas accrue_sample = accrue_def num_def nullish_def CASHBACK_UNITS_def block_of_def UNIT_BLOCK_def accrue_points_def
  paise_of_def big_def big_div_def of_bigint_def text_of_def

lemma accrue_monotone_witness:
  "\<exists>v v'. accrue (Some ''points_per_150'') (JNum (Fin 2)) (Fin 199) (JNum (Fin 150)) ''floor'' ''paise'' = Inr v
     \<and> accrue (Some ''points_per_150'') (JNum (Fin 2)) (Fin 310) (JNum (Fin 150)) ''floor'' ''paise'' = Inr v'
     \<and> v = Fin 2 \<and> v' = Fin 4 \<and> Fin 0 \<le> v \<and> v \<le> v'"
proof -
  have a: "accrue (Some ''points_per_150'') (JNum (Fin 2)) (Fin 199) (JNum (Fin 150)) ''floor'' ''paise'' = Inr (Fin 2)"
    by (simp add: accrue_sample)
  have b: "accrue (Some ''points_per_150'') (JNum (Fin 2)) (Fin 310) (JNum (Fin 150)) ''floor'' ''paise'' = Inr (Fin 4)"
    by (simp add: accrue_sample)
  have w: "wf_val (JNum (Fin 2))" using wf_Fin_small[of 2] by simp
  show ?thesis using accrue_monotone[OF w _ a b] a b by simp
qed

section \<open>No exception\<close>

lemma accrue_points_total:
  assumes "is_finite r" and "wf_num r" and "nn r" and "is_finite (spend * Fin 100)" and "Fin 0 \<le> spend"
    and "Fin 1 \<le> b" and "is_finite (b * Fin 100)"
  shows "\<exists>v. accrue_points r spend b mode = Inr v"
proof (cases "mode = ''none''")
  case True
  then show ?thesis by (simp add: accrue_points_def)
next
  case False
  obtain rn rd where d: "exactDecimal r = Inr (rn, rd)" using exactDecimal_total[OF assms(1,2)] by auto
  obtain p where p: "paise_of spend = Inr p" using big_jround[OF assms(4)] by (auto simp: paise_of_def)
  obtain q where q: "paise_of b = Inr q" using big_jround[OF assms(7)] by (auto simp: paise_of_def)
  have "paise_of (Fin 1) = Inr 100" by (simp add: paise_of_def big_def)
  then have "100 \<le> q" using paise_of_mono[OF _ q assms(6)] by simp
  then show ?thesis using accrue_points_value[OF d p paise_of_nonneg[OF p assms(5)] assms(3) q _ False] by simp
qed

text \<open>
  No amount the database can hold makes an accrual throw: with a numeric rate, a spend whose paise
  are finite and a block of at least one rupee (the column is an integer), the BigInt conversions
  and divisions all succeed.
\<close>

theorem accrue_never_throws:
  assumes "wf_val rate" and "is_finite (spend * Fin 100)"
    and "\<And>b. num bo = Some b \<Longrightarrow> Fin 0 < b \<Longrightarrow> Fin 1 \<le> b \<and> is_finite (b * Fin 100)"
  shows "\<exists>v. accrue unit rate spend bo mode cb = Inr v"
proof (cases "\<exists>r. num rate = Some r \<and> Fin 0 < r \<and> has_text unit \<and> Fin 0 < spend")
  case False
  then show ?thesis using accrue_inactive[of rate unit spend bo mode cb] by (cases "num rate") auto
next
  case True
  then obtain r where r: "num rate = Some r" "Fin 0 < r" "has_text unit" "Fin 0 < spend" by auto
  have f: "is_finite r" "wf_num r" "nn r" "Fin 0 \<le> spend"
    using num_finite[OF r(1)] num_wf[OF assms(1) r(1)] r(2,4) by (auto simp: nn_def jless_imp_le)
  obtain rn rd where d: "exactDecimal r = Inr (rn, rd)" using exactDecimal_total[OF f(1,2)] by auto
  obtain p where p: "paise_of spend = Inr p" using big_jround[OF assms(2)] by (auto simp: paise_of_def)
  have blk: "Fin 1 \<le> b \<and> is_finite (b * Fin 100)" if "block_of (text_of unit) bo = Some b" for b
    using that assms(3) by (auto simp: block_of_def UNIT_BLOCK_def split: option.splits if_splits)
  show ?thesis
  proof (cases "text_of unit \<in> set CASHBACK_UNITS \<or> unit = Some ''flat_points'' \<or> block_of (text_of unit) bo = None")
    case True
    then show ?thesis
      using accrue_positive[OF r(1,3,2,4)] accrue_cashback_value[OF d p paise_of_nonneg[OF p f(4)] f(3)] by auto
  next
    case False
    then obtain b where b: "block_of (text_of unit) bo = Some b" by auto
    show ?thesis
      using accrue_positive[OF r(1,3,2,4)] accrue_points_total[OF f(1,2,3) assms(2) f(4)] blk[OF b] False b by simp
  qed
qed

lemma accrue_never_throws_witness:
  "\<exists>v. accrue (Some ''points_per_100'') (JNum (Fin 2)) (Fin 750) (JNum (Fin 200)) ''points_half_up'' ''paise'' = Inr v"
proof (rule accrue_never_throws)
  show "wf_val (JNum (Fin 2))" using wf_Fin_small[of 2] by simp
qed (auto simp: num_def nullish_def)

section \<open>The rule that pays\<close>

lemma byPriority_hd:
  assumes "byPriority rules c m = Inr rs" and "rules \<noteq> []"
  shows "hd rs \<in> set rules \<and> rs \<noteq> []"
proof -
  obtain xs where x: "emap (rank_rule c m) rules = Inr xs" "rs = map rk_rule (jsort ranked_le xs)"
    using assms(1) by (auto simp: byPriority_def ebind_eq_Inr)
  have l: "length xs = length rules" using x(1) by (simp add: emap_Inr)
  then have ne: "rs \<noteq> []" using assms(2) x(2) by (metis length_0_conv length_jsort length_map)
  then have "hd rs \<in> set rs" by simp
  then obtain y where y: "y \<in> set xs" "hd rs = rk_rule y" using x(2) by auto
  obtain r where "r \<in> set rules" "rank_rule c m r = Inr y" using set_emap[OF x(1) y(1)] by auto
  then show ?thesis using y(2) ne by (auto simp: rank_rule_def ebind_eq_Inr)
qed

text \<open>
  The order of the sort on ranked rules: priority, then value descending, then id. On rows whose
  values are Numbers it is the source's comparator; values are whole paise, so their difference has
  the sign of the comparison.
\<close>

definition rank_value :: "ranked \<Rightarrow> jsnum" where
  "rank_value a = (if rk_value a = NaN then NInf else rk_value a)"

definition better_rank :: "ranked \<Rightarrow> ranked \<Rightarrow> bool" where
  "better_rank a b \<longleftrightarrow> rk_priority a < rk_priority b \<or> (rk_priority a = rk_priority b
     \<and> (rank_value b < rank_value a \<or> (rank_value a = rank_value b
          \<and> str_le (text_of (rr_id (rk_rule a))) (text_of (rr_id (rk_rule b))))))"

lemma jless_trans: "a < b \<Longrightarrow> b < c \<Longrightarrow> a < (c :: jsnum)"
  by (cases a; cases b; cases c) auto

lemma jless_irrefl [simp]: "\<not> a < (a :: jsnum)"
  by (cases a) auto

lemma jless_asym: "a < b \<Longrightarrow> \<not> b < (a :: jsnum)"
  by (cases a; cases b) auto

lemma jless_linear: "a \<noteq> NaN \<Longrightarrow> b \<noteq> NaN \<Longrightarrow> a < b \<or> a = b \<or> b < (a :: jsnum)"
  by (cases a; cases b) auto

lemma rank_value_num [simp]: "rank_value a \<noteq> NaN"
  by (simp add: rank_value_def)

interpretation rank_order: comparator better_rank
proof
  show "better_rank a b \<or> better_rank b a" for a b
    using jless_linear[of "rank_value a" "rank_value b"]
      str_le_total[of "text_of (rr_id (rk_rule a))" "text_of (rr_id (rk_rule b))"]
    by (auto simp: better_rank_def)
  show "better_rank a b \<Longrightarrow> better_rank b c \<Longrightarrow> better_rank a c" for a b c
    using jless_trans[of "rank_value c" "rank_value b" "rank_value a"]
      str_le_trans[of "text_of (rr_id (rk_rule a))" "text_of (rr_id (rk_rule b))" "text_of (rr_id (rk_rule c))"]
    by (auto simp: better_rank_def)
qed

lemma whole_diff_sign:
  assumes "jround x \<noteq> NaN" and "jround y \<noteq> NaN" and "jround x \<noteq> jround y"
  shows "Fin 0 < jround y - jround x \<longleftrightarrow> jround x < jround y"
proof -
  have pos: "Fin 0 < rnd (of_int j - of_int i)" if "i < j" for i j :: int
  proof -
    have "(1 :: rat) \<le> of_int (j - i)" using that by simp
    then have "Fin 1 \<le> rnd (of_int (j - i))" using rnd_mono[of 1] by simp
    then show ?thesis by (cases "rnd (of_int j - of_int i)") auto
  qed
  have neg: "\<not> Fin 0 < rnd (of_int j - of_int i)" if "j < i" for i j :: int
  proof -
    have "of_int (j - i) \<le> (0 :: rat)" using that by simp
    then have "rnd (of_int (j - i)) \<le> Fin 0" using rnd_mono[of _ 0] by simp
    then show ?thesis by (cases "rnd (of_int j - of_int i)") auto
  qed
  have "i \<noteq> j \<Longrightarrow> Fin 0 < rnd (of_int j - of_int i) \<longleftrightarrow> i < j" for i j :: int
    using pos[of i j] neg[of j i] by linarith
  then show ?thesis using assms by (cases x; cases y) (auto simp: minus_Fin minus_jsnum_def)
qed

lemma ranked_le_better:
  assumes "rank_rule c m r = Inr a" and "rank_rule c m q = Inr b" and "rk_value a \<noteq> NaN" and "rk_value b \<noteq> NaN"
  shows "ranked_le a b = better_rank a b"
proof -
  obtain x y where xy: "rk_value a = jround x" "rk_value b = jround y"
    using assms(1,2) by (auto simp: rank_rule_def ebind_eq_Inr)
  have d: "jround x \<noteq> jround y \<Longrightarrow> (\<not> Fin 0 < jround y - jround x) = (jround y < jround x)"
    using whole_diff_sign[of x y] assms(3,4) xy jless_linear[of "jround x" "jround y"]
    by (auto dest: jless_asym)
  show ?thesis using d assms(3,4) xy
    by (cases "jround x = jround y") (auto simp: ranked_le_def better_rank_def rank_value_def jeq_def)
qed

lemma byPriority_best:
  assumes "byPriority rules c m = Inr rs" and "q \<in> set rules"
    and num: "\<And>r a. r \<in> set rules \<Longrightarrow> rank_rule c m r = Inr a \<Longrightarrow> rk_value a \<noteq> NaN"
  shows "\<exists>a b. rank_rule c m (hd rs) = Inr a \<and> rank_rule c m q = Inr b \<and> better_rank a b"
proof -
  obtain xs where x: "emap (rank_rule c m) rules = Inr xs" "rs = map rk_rule (jsort ranked_le xs)"
    using assms(1) by (auto simp: byPriority_def ebind_eq_Inr)
  have src: "\<exists>r \<in> set rules. rank_rule c m r = Inr a \<and> rk_rule a = r" if "a \<in> set xs" for a
    using set_emap[OF x(1) that] by (auto simp: rank_rule_def ebind_eq_Inr)
  have sort: "jsort ranked_le xs = jsort better_rank xs"
  proof (rule jsort_cong)
    fix a b assume "a \<in> set xs" "b \<in> set xs"
    then show "ranked_le a b = better_rank a b" using src num ranked_le_better by metis
  qed
  obtain i where i: "i < length rules" "rules ! i = q" using assms(2) by (auto simp: in_set_conv_nth)
  have l: "length xs = length rules" and nth: "\<forall>i < length rules. rank_rule c m (rules ! i) = Inr (xs ! i)"
    using x(1) by (simp_all add: emap_Inr)
  have b: "xs ! i \<in> set xs" "rank_rule c m q = Inr (xs ! i)" using i l nth by auto
  then have ne: "xs \<noteq> []" by auto
  have h: "hd (jsort better_rank xs) \<in> set xs" "better_rank (hd (jsort better_rank xs)) (xs ! i)"
    using rank_order.hd_jsort(1)[OF ne] rank_order.hd_jsort(2)[OF ne b(1)] by auto
  have "hd rs = rk_rule (hd (jsort better_rank xs))" using x(2) sort ne by (simp add: hd_map)
  then show ?thesis using src[OF h(1)] h(2) b(2) by auto
qed

lemma exclusion_rules_set: "r \<in> set (exclusion_rules tz rules c) \<longleftrightarrow>
    r \<in> set rules \<and> ruleAppliesV2 tz r c \<and> roleOf r = ''exclusion''"
  by (auto simp: exclusion_rules_def ruleAppliesV2_def)

lemma earner_rules_set: "r \<in> set (earner_rules tz rules c) \<longleftrightarrow>
    r \<in> set rules \<and> ruleAppliesV2 tz r c \<and> roleOf r \<in> {''base'', ''earn''}"
  by (auto simp: earner_rules_def ruleAppliesV2_def)

text \<open>The rule that goes first among \<open>rs\<close>.\<close>

definition preferred :: "v2_ctx \<Rightarrow> v2_modes \<Rightarrow> rule_row set \<Rightarrow> rule_row \<Rightarrow> bool" where
  "preferred c m rs r \<longleftrightarrow> r \<in> rs
     \<and> (\<forall>q \<in> rs. \<exists>a b. rank_rule c m r = Inr a \<and> rank_rule c m q = Inr b \<and> better_rank a b)"

text \<open>
  C33: The rule choice of the second engine, whenever it returns and the rupee values of the rules that apply are
  numbers (not NaN). If an exclusion applies, one is chosen and the payment is excluded; otherwise, if the card excludes
  the category, it is excluded without a rule; otherwise, if any rule applies, a base or earn rule that applies is
  chosen and pays; and if none does, the card's own base rate. The rule chosen from the catalogue is never
  informational, malformed or first-generation-only, and no competing rule has a lower priority number, or
  the same one with a higher rupee value, or the same value with an earlier id.
\<close>

theorem pickRuleV2_choice:
  assumes "pickRuleV2 tz rules c cd = Inr p"
    and num: "\<And>r a. r \<in> set rules \<Longrightarrow> ruleAppliesV2 tz r c \<Longrightarrow> rank_rule c (cardModes cd) r = Inr a \<Longrightarrow> rk_value a \<noteq> NaN"
  shows "let applying = {r \<in> set rules. ruleAppliesV2 tz r c}; exclusions = {r \<in> applying. roleOf r = ''exclusion''} in
    (\<forall>r \<in> applying. roleOf r \<in> {''base'', ''earn'', ''exclusion''} \<and> \<not> isV1Only r \<and> ruleProblem r = None)
    \<and> (if exclusions \<noteq> {} then
         pk_excluded p \<and> \<not> pk_implicit p \<and> (\<exists>r. pk_rule p = Some r \<and> preferred c (cardModes cd) exclusions r)
       else if includes_text (cd_excluded_categories cd) (c_category_id c) then
         pk_excluded p \<and> \<not> pk_implicit p \<and> pk_rule p = None
       else if applying \<noteq> {} then
         \<not> pk_excluded p \<and> \<not> pk_implicit p \<and> (\<exists>r. pk_rule p = Some r \<and> preferred c (cardModes cd) applying r)
       else \<not> pk_excluded p \<and> pk_implicit p \<and> pk_rule p = Some (implicitBaseRule cd))"
proof -
  let ?ex = "exclusion_rules tz rules c" and ?ea = "earner_rules tz rules c"
  let ?A = "{r \<in> set rules. ruleAppliesV2 tz r c}"
  let ?E = "{r \<in> ?A. roleOf r = ''exclusion''}"
  have role: "roleOf r \<in> {''base'', ''earn'', ''exclusion''}" if "ruleAppliesV2 tz r c" for r
    using that by (cases "rr_rule_role r")
      (auto simp: ruleAppliesV2_def ruleProblem_def roleOf_def member_text_def ROLES_def split: if_splits)
  have usable: "\<not> isV1Only r \<and> ruleProblem r = None" if "ruleAppliesV2 tz r c" for r
    using that by (simp add: ruleAppliesV2_def)
  have best: "preferred c (cardModes cd) (set qs) (hd rs)"
    if "byPriority qs c (cardModes cd) = Inr rs" "qs \<noteq> []" "set qs \<subseteq> ?A" for qs rs
    unfolding preferred_def using byPriority_hd[OF that(1,2)] byPriority_best[OF that(1)] that(3) num by blast
  have exs: "set ?ex = ?E" by (auto simp: exclusion_rules_set)
  have eas: "set ?ea = ?A" if "?E = {}"
  proof -
    have "roleOf r \<in> {''base'', ''earn''}" if "r \<in> ?A" for r using role[of r] that \<open>?E = {}\<close> by blast
    then show ?thesis by (auto simp: earner_rules_set)
  qed
  have chosen: "if ?E \<noteq> {} then
         pk_excluded p \<and> \<not> pk_implicit p \<and> (\<exists>r. pk_rule p = Some r \<and> preferred c (cardModes cd) ?E r)
       else if includes_text (cd_excluded_categories cd) (c_category_id c) then
         pk_excluded p \<and> \<not> pk_implicit p \<and> pk_rule p = None
       else if ?A \<noteq> {} then
         \<not> pk_excluded p \<and> \<not> pk_implicit p \<and> (\<exists>r. pk_rule p = Some r \<and> preferred c (cardModes cd) ?A r)
       else \<not> pk_excluded p \<and> pk_implicit p \<and> pk_rule p = Some (implicitBaseRule cd)"
  proof (cases "?E = {}")
    case False
    then have ne: "?ex \<noteq> []" using exs by auto
    then obtain rs where rs: "byPriority ?ex c (cardModes cd) = Inr rs" "pk_excluded p" "\<not> pk_implicit p" "pk_rule p = Some (hd rs)"
      using assms(1) by (auto simp: pickRuleV2_def Let_def ebind_eq_Inr)
    have "preferred c (cardModes cd) ?E (hd rs)" using best[OF rs(1) ne] unfolding exs by blast
    then show ?thesis using False rs by simp
  next
    case none: True
    then have ne: "?ex = []" unfolding exs[symmetric] by simp
    show ?thesis
    proof (cases "includes_text (cd_excluded_categories cd) (c_category_id c)")
      case True
      then show ?thesis using assms(1) none ne by (auto simp: pickRuleV2_def Let_def)
    next
      case cat: False
      show ?thesis
      proof (cases "?A = {}")
        case True
        then have "?ea = []" unfolding eas[OF none, symmetric] by simp
        then show ?thesis using assms(1) none ne cat True by (auto simp: pickRuleV2_def Let_def)
      next
        case False
        then have ea: "?ea \<noteq> []" using eas[OF none] by auto
        then obtain rs where rs: "byPriority ?ea c (cardModes cd) = Inr rs" "\<not> pk_excluded p" "\<not> pk_implicit p" "pk_rule p = Some (hd rs)"
          using assms(1) ne cat by (auto simp: pickRuleV2_def Let_def ebind_eq_Inr)
        have "preferred c (cardModes cd) ?A (hd rs)" using best[OF rs(1) ea] unfolding eas[OF none] by blast
        then show ?thesis using False none cat rs by simp
      qed
    qed
  qed
  then show ?thesis unfolding Let_def using role usable by blast
qed

definition sample_raw :: raw_ctx where
  "sample_raw = \<lparr>rc_amount = JNum (Fin 250), rc_amountInr = JUndef, rc_occurred = DNull,
     rc_occurredAt = DNull, rc_category_id = Some ''fuel'', rc_categoryId = None, rc_category_slug = None,
     rc_categorySlug = None, rc_mcc = Some ''5541'', rc_merchant_name = None, rc_merchantName = None,
     rc_merchant_vpa = None, rc_merchantVpa = None, rc_merchant_slug = None, rc_merchantSlug = None,
     rc_platform = None, rc_rail = Some ''swipe''\<rparr>"

definition sample_v2_ctx :: v2_ctx where
  "sample_v2_ctx = resolveContext sample_raw None"

definition sample_exclusion :: rule_row where
  "sample_exclusion = blank_rule\<lparr>rr_id := Some ''x'', rr_rule_role := Some ''exclusion'',
     rr_mcc_include := JArr [JStr ''5541'']\<rparr>"

definition sample_earn :: rule_row where
  "sample_earn = blank_rule\<lparr>rr_id := Some ''e'', rr_rule_role := Some ''earn'', rr_priority := Some 1\<rparr>"

lemma rank_no_unit:
  assumes "rr_unit r = None" shows "\<exists>a. rank_rule c m r = Inr a \<and> rk_value a \<noteq> NaN"
proof -
  have "lit (1 / 10 ^ 6) = Fin (fl (1 / 10 ^ 6))" unfolding lit_def by (rule rnd_finite) simp
  then have "Fin 0 * Fin 100 + PAISE_EPS \<noteq> NaN" by (simp add: PAISE_EPS_def)
  then have "jround (Fin 0 * Fin 100 + PAISE_EPS) \<noteq> NaN" by (cases "Fin 0 * Fin 100 + PAISE_EPS") auto
  then show ?thesis using assms by (simp add: rank_rule_def preCapValue_def)
qed

lemma sample_pick: "\<exists>p. pickRuleV2 0 [sample_earn, sample_exclusion] sample_v2_ctx blank_card = Inr p \<and> pk_excluded p"
proof -
  have ex: "exclusion_rules 0 [sample_earn, sample_exclusion] sample_v2_ctx = [sample_exclusion]"
    by code_simp
  have u: "rr_unit sample_exclusion = None" by (simp add: sample_exclusion_def blank_rule_def)
  obtain a where "rank_rule sample_v2_ctx (cardModes blank_card) sample_exclusion = Inr a" using rank_no_unit[OF u] by blast
  then show ?thesis by (simp add: pickRuleV2_def ex byPriority_def Let_def)
qed

lemma sample_earn_pick: "\<exists>p. pickRuleV2 0 [sample_earn] sample_v2_ctx blank_card = Inr p"
proof -
  have ex: "exclusion_rules 0 [sample_earn] sample_v2_ctx = []" "earner_rules 0 [sample_earn] sample_v2_ctx = [sample_earn]"
    "\<not> includes_text (cd_excluded_categories blank_card) (c_category_id sample_v2_ctx)"
    by code_simp+
  have u: "rr_unit sample_earn = None" by (simp add: sample_earn_def blank_rule_def)
  obtain a where "rank_rule sample_v2_ctx (cardModes blank_card) sample_earn = Inr a" using rank_no_unit[OF u] by blast
  then show ?thesis by (simp add: pickRuleV2_def ex byPriority_def Let_def)
qed

lemma pickRuleV2_choice_witness:
  "\<exists>p q. pickRuleV2 0 [sample_earn, sample_exclusion] sample_v2_ctx blank_card = Inr p
     \<and> pk_rule p = Some sample_exclusion \<and> pk_excluded p
     \<and> pickRuleV2 0 [sample_earn] sample_v2_ctx blank_card = Inr q
     \<and> pk_rule q = Some sample_earn \<and> \<not> pk_excluded q \<and> \<not> pk_implicit q"
proof -
  let ?m = "cardModes blank_card"
  have u: "rr_unit sample_exclusion = None" "rr_unit sample_earn = None"
    by (simp_all add: sample_exclusion_def sample_earn_def blank_rule_def)
  have applies: "ruleAppliesV2 0 sample_earn sample_v2_ctx" "ruleAppliesV2 0 sample_exclusion sample_v2_ctx"
    "roleOf sample_earn = ''earn''" "roleOf sample_exclusion = ''exclusion''"
    "\<not> includes_text (cd_excluded_categories blank_card) (c_category_id sample_v2_ctx)"
    by code_simp+
  have num: "\<And>r a. r \<in> {sample_earn, sample_exclusion} \<Longrightarrow> rank_rule sample_v2_ctx ?m r = Inr a \<Longrightarrow> rk_value a \<noteq> NaN"
    using rank_no_unit[OF u(1), of sample_v2_ctx ?m] rank_no_unit[OF u(2), of sample_v2_ctx ?m] by fastforce
  obtain p where p: "pickRuleV2 0 [sample_earn, sample_exclusion] sample_v2_ctx blank_card = Inr p" using sample_pick by blast
  obtain q where q: "pickRuleV2 0 [sample_earn] sample_v2_ctx blank_card = Inr q" using sample_earn_pick by blast
  have sets: "{r \<in> set [sample_earn, sample_exclusion]. ruleAppliesV2 0 r sample_v2_ctx} = {sample_earn, sample_exclusion}"
    "{r \<in> {sample_earn, sample_exclusion}. roleOf r = ''exclusion''} = {sample_exclusion}"
    "{r \<in> set [sample_earn]. ruleAppliesV2 0 r sample_v2_ctx} = {sample_earn}" "{r \<in> {sample_earn}. roleOf r = ''exclusion''} = {}"
    using applies by auto
  have "pk_rule p = Some sample_exclusion \<and> pk_excluded p"
    using pickRuleV2_choice[OF p] num unfolding sets Let_def by (auto simp: preferred_def)
  moreover have "pk_rule q = Some sample_earn \<and> \<not> pk_excluded q \<and> \<not> pk_implicit q"
    using pickRuleV2_choice[OF q] num applies(5) unfolding sets Let_def by (auto simp: preferred_def)
  ultimately show ?thesis using p q by blast
qed

section \<open>The caps that apply\<close>

text \<open>
  Reference: the caps reachable from the directly hit ones through parent links that exist in the
  catalogue.
\<close>

definition direct_ids :: "cap_row list \<Rightarrow> string option \<Rightarrow> string option \<Rightarrow> string set" where
  "direct_ids caps ruleId cat = cap_key ` {c \<in> set caps. known_scope c \<and> cap_hits ruleId cat c}"

definition parent_link :: "cap_row list \<Rightarrow> (string \<times> string) set" where
  "parent_link caps = {(i, p). parent_of caps i = Some p \<and> p \<in> cap_key ` set caps}"

lemma set_add_new [simp]: "set (add_new x xs) = insert x (set xs)"
  by (auto simp: add_new_def)

lemma choose_caps_set: "set (fst (foldl (choose_cap ruleId cat) st caps)) = set (fst st) \<union> direct_ids caps ruleId cat"
  by (induction caps arbitrary: st) (auto simp: choose_cap_def direct_ids_def)

text \<open>One climb: it adds only ancestors of its start, and closes the set under links from what it adds.\<close>

definition closed_except :: "cap_row list \<Rightarrow> string set \<Rightarrow> string set \<Rightarrow> bool" where
  "closed_except caps X S \<longleftrightarrow> (\<forall>i p. i \<in> S - X \<longrightarrow> (i, p) \<in> parent_link caps \<longrightarrow> p \<in> S)"

lemma climb_parents_closes:
  assumes "closed_except caps X (set chosen)" and "X \<subseteq> set chosen" and "i \<in> set chosen" and "parent = parent_of caps i"
  shows "closed_except caps (X - {i}) (set (climb_parents caps parent chosen))
    \<and> set chosen \<subseteq> set (climb_parents caps parent chosen)
    \<and> set (climb_parents caps parent chosen) \<subseteq> set chosen \<union> {p. (i, p) \<in> (parent_link caps)\<^sup>+}"
  using assms
proof (induction caps parent chosen arbitrary: X i rule: climb_parents.induct)
  case (1 caps parent chosen)
  have halt: "closed_except caps (X - {i}) (set chosen)"
    if "\<forall>p. (i, p) \<in> parent_link caps \<longrightarrow> p \<in> set chosen"
    using 1(2) that unfolding closed_except_def by auto
  show ?case
  proof (cases "\<exists>p row. parent = Some p \<and> cap_by_id caps p = Some row \<and> p \<notin> set chosen")
    case False
    then have "climb_parents caps parent chosen = chosen"
      by (subst climb_parents.simps) (auto split: option.splits)
    moreover have "\<forall>p. (i, p) \<in> parent_link caps \<longrightarrow> p \<in> set chosen"
      using False 1(5) cap_by_id_None[of caps] by (auto simp: parent_link_def)
    ultimately show ?thesis using halt by simp
  next
    case True
    then obtain p row where p: "parent = Some p" "cap_by_id caps p = Some row" "p \<notin> set chosen" by auto
    have link: "(i, p) \<in> parent_link caps"
      using p 1(5) cap_by_id_None[of caps p] by (auto simp: parent_link_def)
    have step: "climb_parents caps parent chosen = climb_parents caps (cr_parent_cap_id row) (chosen @ [p])"
      using p by (subst climb_parents.simps) simp
    have "closed_except caps (insert p (X - {i})) (set (chosen @ [p]))"
      using 1(2,5) p unfolding closed_except_def by (auto simp: parent_link_def)
    then have ih: "closed_except caps (insert p (X - {i}) - {p}) (set (climb_parents caps (cr_parent_cap_id row) (chosen @ [p])))
      \<and> set (chosen @ [p]) \<subseteq> set (climb_parents caps (cr_parent_cap_id row) (chosen @ [p]))
      \<and> set (climb_parents caps (cr_parent_cap_id row) (chosen @ [p])) \<subseteq> set (chosen @ [p]) \<union> {q. (p, q) \<in> (parent_link caps)\<^sup>+}"
      using 1(3) p by (intro 1(1)[OF p(1,2,3)]) (auto simp: parent_of_def)
    have "insert p (X - {i}) - {p} = X - {i}" using p(3) 1(3) by auto
    moreover have "{q. (p, q) \<in> (parent_link caps)\<^sup>+} \<subseteq> {q. (i, q) \<in> (parent_link caps)\<^sup>+}"
      using link by (auto intro: trancl_into_trancl2)
    ultimately show ?thesis using ih link unfolding step by auto
  qed
qed

lemma add_parents_closes:
  assumes "closed_except caps X (set chosen)" and "X \<subseteq> set chosen" and "set ids \<subseteq> set chosen"
  shows "closed_except caps (X - set ids) (set (add_parents caps ids chosen))
    \<and> set chosen \<subseteq> set (add_parents caps ids chosen)
    \<and> set (add_parents caps ids chosen) \<subseteq> set chosen \<union> (parent_link caps)\<^sup>+ `` set ids"
  using assms
proof (induction ids arbitrary: X chosen)
  case Nil
  then show ?case by (simp add: add_parents_def)
next
  case (Cons i ids)
  let ?ch = "climb_parents caps (parent_of caps i) chosen"
  have c: "closed_except caps (X - {i}) (set ?ch)" "set chosen \<subseteq> set ?ch"
    "set ?ch \<subseteq> set chosen \<union> {p. (i, p) \<in> (parent_link caps)\<^sup>+}"
    using climb_parents_closes[OF Cons.prems(1,2) _ refl, of i] Cons.prems(3) by auto
  have "closed_except caps (X - {i} - set ids) (set (add_parents caps ids ?ch))
    \<and> set ?ch \<subseteq> set (add_parents caps ids ?ch)
    \<and> set (add_parents caps ids ?ch) \<subseteq> set ?ch \<union> (parent_link caps)\<^sup>+ `` set ids"
    using c Cons.prems by (intro Cons.IH) auto
  moreover have "X - {i} - set ids = X - set (i # ids)"
    "(parent_link caps)\<^sup>+ `` set (i # ids) = {p. (i, p) \<in> (parent_link caps)\<^sup>+} \<union> (parent_link caps)\<^sup>+ `` set ids"
    "add_parents caps (i # ids) chosen = add_parents caps ids ?ch"
    by (auto simp: add_parents_def)
  ultimately show ?case using c by (simp only:) blast
qed

text \<open>
  The caps chosen for a transaction are exactly those reachable from a directly hit cap (one that
  targets the rule or the category, or a card-wide one) through parent links present in the
  catalogue; cycles and dangling parents do no harm.
\<close>

theorem chosen_caps_reachable:
  "set (chosen_caps caps ruleId cat) = (parent_link caps)\<^sup>* `` direct_ids caps ruleId cat"
proof -
  let ?d = "fst (foldl (choose_cap ruleId cat) ([], []) caps)"
  have d: "set ?d = direct_ids caps ruleId cat" by (simp add: choose_caps_set)
  have "closed_except caps (set ?d) (set ?d)" by (simp add: closed_except_def)
  from add_parents_closes[OF this, of ?d]
  have a: "closed_except caps {} (set (chosen_caps caps ruleId cat))" "set ?d \<subseteq> set (chosen_caps caps ruleId cat)"
    "set (chosen_caps caps ruleId cat) \<subseteq> set ?d \<union> (parent_link caps)\<^sup>+ `` set ?d"
    by (auto simp: chosen_caps_def Let_def)
  have "p \<in> set (chosen_caps caps ruleId cat)" if "(i, p) \<in> (parent_link caps)\<^sup>*" "i \<in> set ?d" for i p
    using that
  proof (induction rule: rtrancl_induct)
    case base
    then show ?case using a(2) by auto
  next
    case (step y z)
    then show ?case using a(1) by (auto simp: closed_except_def)
  qed
  then have "(parent_link caps)\<^sup>* `` set ?d \<subseteq> set (chosen_caps caps ruleId cat)" by auto
  moreover have "set ?d \<union> (parent_link caps)\<^sup>+ `` set ?d \<subseteq> (parent_link caps)\<^sup>* `` set ?d"
    by (auto dest: trancl_into_rtrancl)
  ultimately show ?thesis using a(3) unfolding d by blast
qed


section \<open>Consumption never overruns a cap\<close>

lemma wf_binop: "wf_num (Fin x * Fin y)" "wf_num (Fin x / Fin y)" "wf_num (Fin x - Fin y)"
  by (auto simp: minus_Fin simp del: wf_num.simps)

lemma wf_times_any: "wf_num (a * b)" and wf_divide_any: "wf_num (a / b)"
  by (cases a; cases b; auto simp del: wf_num.simps(1))+

lemma wf_minus_any: "wf_num (a - b)" if "is_finite a \<or> wf_num a" "is_finite b \<or> wf_num b"
  using that by (cases a; cases b) (auto simp: minus_Fin minus_jsnum_def simp del: wf_num.simps(1))

lemma wf_of_bigint [simp]: "wf_num (of_bigint k)"
  by (simp add: of_bigint_def)

lemma ebind_wf: "ebind m (\<lambda>q. Inr (g q)) = Inr v \<Longrightarrow> (\<And>q. wf_num (g q)) \<Longrightarrow> wf_num v"
  by (cases m) auto

lemma accrue_cashback_wf: "accrue_cashback r spend cb = Inr v \<Longrightarrow> wf_num v"
  unfolding accrue_cashback_def Let_def
  by (cases "exactDecimal r"; cases "paise_of spend")
     (auto simp del: wf_num.simps(1) dest!: ebind_wf simp: wf_divide_any split: if_splits)

lemma accrue_points_wf: "accrue_points r spend b mode = Inr v \<Longrightarrow> wf_num v"
  unfolding accrue_points_def Let_def
  by (cases "paise_of spend"; cases "paise_of b"; cases "exactDecimal r")
     (auto simp del: wf_num.simps(1) dest!: ebind_wf simp: wf_times_any split: if_splits)

lemma accrue_wf:
  assumes "accrue unit rate spend bo mode cb = Inr v" and "wf_val rate"
  shows "wf_num v"
proof -
  show ?thesis
  proof (cases "\<exists>r. num rate = Some r \<and> Fin 0 < r \<and> has_text unit \<and> Fin 0 < spend")
    case False
    then have "v = Fin 0"
      using accrue_inactive[of rate unit spend bo mode cb] assms(1) by (cases "num rate") auto
    then show ?thesis by (simp only: wf_Fin_0)
  next
    case True
    then obtain r where r: "num rate = Some r" "Fin 0 < r" "has_text unit" "Fin 0 < spend" by auto
    show ?thesis using assms(1) accrue_cashback_wf accrue_points_wf num_wf[OF assms(2) r(1)] unfolding accrue_positive[OF r(1,3,2,4)]
      by (auto simp del: wf_num.simps(1) split: if_splits option.splits)
  qed
qed

lemma remaining_nonneg: "remaining consumed c = NaN \<or> Fin 0 \<le> remaining consumed c"
  by (auto simp: remaining_def jmax_def)

lemma read_consumed_finite: "is_finite (read_consumed m k)"
  using num_finite by (auto simp: read_consumed_def num_or_0_def split: option.splits)

lemma wf_remaining [simp]: "wf_num (remaining consumed c)" if "nc_amount c \<noteq> NaN"
proof -
  have "is_finite (nc_amount c) \<or> wf_num (nc_amount c)" using that by (cases "nc_amount c") auto
  then have "wf_num (nc_amount c - read_consumed consumed (nc_id c))" using read_consumed_finite by (intro wf_minus_any) auto
  then show ?thesis unfolding remaining_def by (intro wf_jmax wf_Fin_0)
qed

lemma remaining_num: "nc_amount c \<noteq> NaN \<Longrightarrow> remaining consumed c \<noteq> NaN"
  using read_consumed_finite[of consumed "nc_id c"]
  by (cases "nc_amount c"; cases "read_consumed consumed (nc_id c)") (auto simp: remaining_def jmax_def minus_jsnum_def)

lemma normalizeCap_num: "normalizeCap c rule cd = Inr n \<Longrightarrow> nc_amount n \<noteq> NaN"
proof -
  assume "normalizeCap c rule cd = Inr n"
  then obtain kind where m: "cap_measure c rule cd = Inr (kind, nc_amount n)"
    by (auto simp: normalizeCap_def ebind_eq_Inr split: option.splits)
  have d: "v / p \<noteq> NaN" if "is_finite v" "Fin 0 < p" "is_finite p" for v p
    using that by (cases v; cases p) auto
  have f: "is_finite (num_or_0 x)" for x using num_finite by (auto simp: num_or_0_def split: option.splits)
  have "num v = Some x \<Longrightarrow> x \<noteq> NaN" for v x using num_finite[of v x] by auto
  then show ?thesis using m d[OF num_finite _ f] 
    by (auto simp: cap_measure_def legacy_measure_def Let_def split: option.splits if_splits currency.splits)
qed

lemma collect_caps_num:
  "c \<in> set (fst (foldl (collect_cap rule cd chosen) st caps)) \<Longrightarrow> c \<in> set (fst st) \<or> nc_amount c \<noteq> NaN"
proof (induction caps arbitrary: st)
  case Nil
  then show ?case by simp
next
  case (Cons x caps)
  have "c \<in> set (fst (collect_cap rule cd chosen st x)) \<Longrightarrow> c \<in> set (fst st) \<or> nc_amount c \<noteq> NaN"
    using normalizeCap_num[of x rule cd] by (auto simp: collect_cap_def split: if_splits sum.splits)
  then show ?case using Cons.IH[of "collect_cap rule cd chosen st x"] Cons.prems by auto
qed

lemma applicableCaps_num: "c \<in> set (fst (applicableCaps cd caps rule cat ex)) \<Longrightarrow> nc_amount c \<noteq> NaN"
  by (auto simp: applicableCaps_def Let_def dest!: collect_caps_num split: if_splits)

lemma under_caps_le:
  "under_caps consumed caps x \<noteq> NaN \<Longrightarrow> under_caps consumed caps x \<le> x
     \<and> (\<forall>c \<in> set caps. under_caps consumed caps x \<le> remaining consumed c)"
proof (induction caps arbitrary: x)
  case Nil
  then show ?case by (simp add: under_caps_def)
next
  case (Cons c caps)
  have e: "under_caps consumed (c # caps) x = under_caps consumed caps (jmin x (remaining consumed c))"
    by (simp add: under_caps_def)
  have ih: "under_caps consumed (c # caps) x \<le> jmin x (remaining consumed c)"
    "\<forall>d \<in> set caps. under_caps consumed (c # caps) x \<le> remaining consumed d"
    using Cons.IH[of "jmin x (remaining consumed c)"] Cons.prems unfolding e by auto
  then have "jmin x (remaining consumed c) \<noteq> NaN" by auto
  then show ?case using ih jmin_le jle_trans by (metis set_ConsD)
qed

lemma wf_under_caps: "wf_num x \<Longrightarrow> \<forall>c \<in> set caps. nc_amount c \<noteq> NaN \<Longrightarrow> wf_num (under_caps consumed caps x)"
  by (induction caps arbitrary: x) (simp_all add: under_caps_def)

lemma tighter_le:
  assumes "\<forall>c \<in> set caps. nc_amount c \<noteq> NaN" and "b \<noteq> NaN"
  shows "snd (foldl (tighter consumed) (bo, b) caps) \<noteq> NaN \<and> snd (foldl (tighter consumed) (bo, b) caps) \<le> b
     \<and> (\<forall>c \<in> set caps. snd (foldl (tighter consumed) (bo, b) caps) \<le> remaining consumed c)"
  using assms
proof (induction caps arbitrary: bo b)
  case Nil
  then show ?case by simp
next
  case (Cons c caps)
  let ?r = "remaining consumed c"
  have r: "?r \<noteq> NaN" using remaining_num Cons.prems(1) by auto
  obtain bo' b' where t: "tighter consumed (bo, b) c = (bo', b')" by (cases "tighter consumed (bo, b) c")
  have b': "b' \<noteq> NaN" "b' \<le> b" "b' \<le> ?r"
    using t r Cons.prems(2) jnot_less[OF r Cons.prems(2)] by (auto simp: tighter_def jless_imp_le split: if_splits)
  show ?case using Cons.IH[of b' bo'] Cons.prems(1) b' t jle_trans by (simp add: t) blast
qed

lemma foldl_tighter_None: "fst (foldl (tighter consumed) (bo, b) caps) = None \<Longrightarrow>
    snd (foldl (tighter consumed) (bo, b) caps) = b"
proof (induction caps arbitrary: bo b)
  case Nil
  then show ?case by simp
next
  case (Cons c caps)
  have "fst (foldl (tighter consumed) (Some d, x) cs) \<noteq> None" for d x cs
    by (induction cs arbitrary: d x) (simp_all add: tighter_def)
  from this[of c "remaining consumed c" caps] have "\<not> remaining consumed c < b"
    using Cons.prems by (simp add: tighter_def[of _ _ c] split: if_splits)
  then have "tighter consumed (bo, b) c = (bo, b)" by (simp add: tighter_def)
  then show ?case using Cons.IH[of bo b] Cons.prems by simp
qed

text \<open>The rule's spend fits under every eligible-spend cap; a count cap that is charged has room.\<close>

lemma splitSpend_fits:
  assumes "\<forall>c \<in> set caps. nc_amount c \<noteq> NaN"
  shows "(c \<in> set (caps_of_kind ''eligible_spend'' caps) \<longrightarrow> ss_ruleSpend (splitSpend consumed caps e) \<noteq> NaN
           \<longrightarrow> ss_ruleSpend (splitSpend consumed caps e) \<le> remaining consumed c)
     \<and> (c \<in> set (caps_of_kind ''txn_count'' caps) \<longrightarrow> ss_forcing (splitSpend consumed caps e) = None
           \<longrightarrow> Fin 1 \<le> remaining consumed c)"
proof -
  let ?sp = "caps_of_kind ''eligible_spend'' caps"
  have k: "\<forall>c \<in> set (caps_of_kind kind caps). nc_amount c \<noteq> NaN" for kind
    using assms by (simp add: caps_of_kind_def)
  obtain b rem where f: "foldl (tighter consumed) (None, PInf) ?sp = (b, rem)" by fastforce
  have t: "rem \<noteq> NaN" "\<forall>c \<in> set ?sp. rem \<le> remaining consumed c"
    using tighter_le[OF k[of "''eligible_spend''"], of PInf consumed None] f by auto
  have n: "b = None \<Longrightarrow> rem = PInf" using foldl_tighter_None[of consumed None PInf ?sp] f by simp
  have le: "(if b = None then e else jmin e rem) \<le> remaining consumed c"
    if "c \<in> set ?sp" "(if b = None then e else jmin e rem) \<noteq> NaN"
  proof (cases b)
    case None
    then have "remaining consumed c = PInf" using n t(2) that(1) by auto
    then show ?thesis using that(2) by simp
  next
    case (Some x)
    then show ?thesis using that t jmin_le[of e rem] jle_trans by auto
  qed
  have nonneg: "Fin 0 \<le> remaining consumed c" if "c \<in> set ?sp"
    using remaining_nonneg[of consumed c] remaining_num[of c consumed] k that by auto
  have one: "Fin 1 \<le> remaining consumed c" if "c \<in> set (caps_of_kind ''txn_count'' caps)"
      "find (\<lambda>c. remaining consumed c < Fin 1) (caps_of_kind ''txn_count'' caps) = None"
    using that jnot_less[of "remaining consumed c" "Fin 1"] remaining_num[of c consumed] k[of "''txn_count''"]
    by (auto simp: find_None_iff)
  show ?thesis using le nonneg one by (simp add: splitSpend_def f Let_def)
qed

lemma record_deltas:
  "(i, d) \<in> set (foldl record_delta m ps) \<Longrightarrow> (i, d) \<in> set m \<or> (\<exists>v. (i, v) \<in> set ps \<and> d = round2 v \<and> d \<noteq> Fin 0)"
proof (induction ps arbitrary: m)
  case Nil
  then show ?case by simp
next
  case (Cons p ps)
  have put: "(i, d) \<in> set (mset_put k v m) \<Longrightarrow> (i, d) = (k, v) \<or> (i, d) \<in> set m" for k v and m :: "(string \<times> jsnum) list"
    by (induction m) (auto split: if_splits)
  from Cons.IH[of "record_delta m p"] Cons.prems show ?case
    using put[of "fst p" "round2 (snd p)" m] by (cases p) (auto simp: record_delta_def split: if_splits)
qed


text \<open>What each group of caps is charged, as the last write for its id.\<close>

lemma capDeltas_charge:
  assumes "(i, d) \<in> set (capDeltas caps ruleCur sp allowed pts cash)"
  obtains c v where "nc_id c = i" "d = round2 v" "d \<noteq> Fin 0" "c \<in> set caps"
    "c \<in> set (bonus_caps ruleCur caps) \<and> v = jmax (Fin 0) (allowed
        - (case ruleCur of None \<Rightarrow> Fin 0 | Some Points \<Rightarrow> st_cut pts | Some Cashback \<Rightarrow> st_cut cash))
     \<or> c \<in> set (total_caps Points caps) \<and> v = st_allowed pts
     \<or> c \<in> set (total_caps Cashback caps) \<and> v = st_allowed cash
     \<or> c \<in> set (caps_of_kind ''eligible_spend'' caps) \<and> v = ss_ruleSpend sp
     \<or> c \<in> set (caps_of_kind ''txn_count'' caps) \<and> v = (if ss_forcing sp = None then Fin 1 else Fin 0)"
proof -
  have sub: "set (bonus_caps ruleCur caps) \<subseteq> set caps" "set (total_caps k caps) \<subseteq> set caps"
    "set (caps_of_kind kd caps) \<subseteq> set caps" for k kd
    by (cases ruleCur; cases "the ruleCur"; auto simp: bonus_caps_def total_caps_def caps_of_kind_def)+
  note rd = record_deltas[OF assms[unfolded capDeltas_def Let_def]]
  then have d: "d \<noteq> Fin 0" by (simp del: foldl_append set_append) blast
  from rd obtain v where v: "d = round2 v" "(i, v) \<in> set (deltas_of (bonus_caps ruleCur caps) (jmax (Fin 0) (allowed
        - (case ruleCur of None \<Rightarrow> Fin 0 | Some Points \<Rightarrow> st_cut pts | Some Cashback \<Rightarrow> st_cut cash)))
         @ deltas_of (total_caps Points caps) (st_allowed pts) @ deltas_of (total_caps Cashback caps) (st_allowed cash)
         @ deltas_of (caps_of_kind ''eligible_spend'' caps) (ss_ruleSpend sp)
         @ deltas_of (caps_of_kind ''txn_count'' caps) (if ss_forcing sp = None then Fin 1 else Fin 0))"
    by (simp del: foldl_append set_append) blast
  have e: "(i, v) \<in> set (deltas_of cs x) \<longleftrightarrow> v = x \<and> (\<exists>c \<in> set cs. nc_id c = i)" for cs x
    by (auto simp: deltas_of_def)
  from v(2) consider (b) "v = jmax (Fin 0) (allowed
        - (case ruleCur of None \<Rightarrow> Fin 0 | Some Points \<Rightarrow> st_cut pts | Some Cashback \<Rightarrow> st_cut cash))"
      "\<exists>c \<in> set (bonus_caps ruleCur caps). nc_id c = i"
    | (p) "v = st_allowed pts" "\<exists>c \<in> set (total_caps Points caps). nc_id c = i"
    | (k) "v = st_allowed cash" "\<exists>c \<in> set (total_caps Cashback caps). nc_id c = i"
    | (s) "v = ss_ruleSpend sp" "\<exists>c \<in> set (caps_of_kind ''eligible_spend'' caps). nc_id c = i"
    | (t) "v = (if ss_forcing sp = None then Fin 1 else Fin 0)" "\<exists>c \<in> set (caps_of_kind ''txn_count'' caps). nc_id c = i"
    unfolding set_append Un_iff e by blast
  then show ?thesis
    by cases (use sub v(1) d that in blast)+
qed

lemma settleTotals_fit:
  assumes "k \<in> set cs" and "st_allowed (settleTotals consumed cs e) \<noteq> NaN"
  shows "st_allowed (settleTotals consumed cs e) \<le> remaining consumed k"
  using under_caps_le[of consumed cs e] assms by (auto simp: settleTotals_def split: if_splits)

lemma settleTotals_cut: "nn (st_cut (settleTotals consumed cs e))"
proof (cases "cs = [] \<or> under_caps consumed cs e = NaN")
  case True
  then show ?thesis by (cases e) (auto simp: settleTotals_def minus_jsnum_def)
next
  case False
  then have "nn (e - under_caps consumed cs e)" using under_caps_le[of consumed cs e] by (intro nn_minus) simp
  then show ?thesis using False by (simp add: settleTotals_def)
qed

lemma bonus_fit:
  assumes "k \<in> set cs" and "\<forall>c \<in> set cs. nc_amount c \<noteq> NaN" and "wf_num bonus" and "nn off"
    and "jmax (Fin 0) (under_caps consumed cs bonus - off) \<noteq> NaN"
  shows "jmax (Fin 0) (under_caps consumed cs bonus - off) \<le> remaining consumed k"
proof -
  let ?u = "under_caps consumed cs bonus"
  have n: "?u - off \<noteq> NaN" using assms(5) by auto
  then have u: "?u \<noteq> NaN" by (auto simp: minus_jsnum_def)
  have "?u - off \<le> ?u" by (rule minus_le[OF wf_under_caps[OF assms(3,2)] assms(4) n])
  moreover have "?u \<le> remaining consumed k" using under_caps_le[OF u] assms(1) by blast
  ultimately have "?u - off \<le> remaining consumed k" by (rule jle_trans)
  moreover have "Fin 0 \<le> remaining consumed k"
    using remaining_nonneg[of consumed k] remaining_num[of k consumed] assms(1,2) by blast
  ultimately show ?thesis using jmax_cases[of "Fin 0" "?u - off"] assms(5) by auto
qed

lemma capDeltas_fit:
  assumes "(i, d) \<in> set (capDeltas caps cur (splitSpend consumed caps e) (under_caps consumed (bonus_caps cur caps) bonus)
      (settleTotals consumed (total_caps Points caps) e1) (settleTotals consumed (total_caps Cashback caps) e2))"
    and num: "\<forall>k \<in> set caps. nc_amount k \<noteq> NaN" and "wf_num bonus"
  shows "\<exists>k \<in> set caps. nc_id k = i \<and> (\<exists>x. d = round2 x \<and> x \<le> remaining consumed k)"
  using assms(1)
proof (cases rule: capDeltas_charge)
  case (1 k v)
  have v: "v \<noteq> NaN" using 1(2,3) by (auto simp: round2_def)
  let ?cut = "case cur of None \<Rightarrow> Fin 0 | Some Points \<Rightarrow> st_cut (settleTotals consumed (total_caps Points caps) e1)
      | Some Cashback \<Rightarrow> st_cut (settleTotals consumed (total_caps Cashback caps) e2)"
  have off: "nn ?cut" using settleTotals_cut by (cases cur; cases "the cur") auto
  have sub: "\<forall>c \<in> set (bonus_caps cur caps). nc_amount c \<noteq> NaN"
    using num by (cases cur; cases "the cur") (auto simp: bonus_caps_def caps_of_kind_def)
  have zero: "Fin 0 \<le> remaining consumed k" using remaining_nonneg[of consumed k] remaining_num[of k consumed] num 1(4) by blast
  have "v \<le> remaining consumed k"
    using 1(5) bonus_fit[OF _ sub assms(3) off, of k consumed] settleTotals_fit[of k _ consumed]
      splitSpend_fits[OF num, of k consumed e] zero v
    by (elim disjE conjE) (simp_all split: if_splits)
  then show ?thesis using 1(1,2,4) by blast
qed

lemma ruleParts_bonus:
  assumes "ruleParts m rule isBase s = Inr (basePart, bonus)" and "wf_val (rr_rate rule)"
    and "wf_val (of_num (md_baseRate m))"
  shows "wf_num bonus"
proof -
  obtain a where a: "accrueAt m (or_text (rr_unit rule) None) (rr_rate rule) s (rr_block_inr rule) = Inr a"
    using assms(1) by (auto simp: ruleParts_def ebind_eq_Inr)
  have wa: "wf_num a" using accrue_wf assms(2) a unfolding accrueAt_def by blast
  have wb: "accrueBase m s = Inr b \<Longrightarrow> wf_num b" for b
    using accrue_wf assms(3) unfolding accrueBase_def accrueAt_def by blast
  have "bonus = Fin 0 \<or> bonus = a \<or> (\<exists>b. accrueBase m s = Inr b \<and> bonus = a - jmin a b)"
    using assms(1) a by (auto simp: ruleParts_def ebind_eq_Inr Let_def split: if_splits)
  then show ?thesis using wa wb by (auto simp del: wf_num.simps(1) intro!: wf_minus wf_jmin)
qed

text \<open>
  C6: No cap is overrun: every consumption the engine reports is the two-decimal rounding of an
  amount no larger than what was left of that cap before the transaction.
\<close>

theorem v2_caps_never_overrun:
  assumes "computeSpend m cd capRules consumed c rule implicit skips assumed = Inr r"
    and "wf_val (rr_rate rule)" and "wf_val (of_num (md_baseRate m))"
    and "(i, d) \<in> set (r2_capDeltas r)"
  shows "\<exists>k \<in> set (fst (applicableCaps cd capRules (Some rule) (c_category_id c) False)).
     nc_id k = i \<and> (\<exists>x. d = round2 x \<and> x \<le> remaining consumed k)"
proof -
  obtain caps skipped where ap: "applicableCaps cd capRules (Some rule) (c_category_id c) False = (caps, skipped)"
    by fastforce
  let ?sp = "splitSpend consumed caps (eligible_spend rule c)" and ?cur = "currencyOf (rr_unit rule)"
  have num: "\<forall>k \<in> set caps. nc_amount k \<noteq> NaN"
    using applicableCaps_num[of _ cd capRules "Some rule" "c_category_id c" False] ap by simp
  obtain basePart bonus pieces where parts: "ruleParts m rule (implicit \<or> roleOf rule = ''base'') (ss_ruleSpend ?sp) = Inr (basePart, bonus)"
    and deltas: "r2_capDeltas r = capDeltas caps ?cur ?sp (under_caps consumed (bonus_caps ?cur caps) bonus)
       (settleTotals consumed (total_caps Points caps) (earnedIn ?cur (basePart + under_caps consumed (bonus_caps ?cur caps) bonus) pieces Points))
       (settleTotals consumed (total_caps Cashback caps) (earnedIn ?cur (basePart + under_caps consumed (bonus_caps ?cur caps) bonus) pieces Cashback))"
    using assms(1) unfolding computeSpend_def Let_def ap by (auto simp: ebind_eq_Inr)
  show ?thesis
    using capDeltas_fit[OF assms(4)[unfolded deltas] num ruleParts_bonus[OF parts assms(2,3)]] ap by simp
qed


text \<open>Rounding to two decimals is exact on whole numbers.\<close>

lemma PAISE_EPS_small: obtains e where "PAISE_EPS = Fin e" "0 \<le> e" "e \<le> 1 / 4"
proof -
  have "lit (1 / 10 ^ 6) = Fin (fl (1 / 10 ^ 6))" unfolding lit_def by (rule rnd_finite) simp
  moreover have "0 \<le> fl (1 / 10 ^ 6)" by (rule fl_nonneg) simp
  moreover have "fl (1 / 10 ^ 6) \<le> 1 / 4"
    by (rule binary64.rd_upper) (simp_all add: fl_representable[of _ 1 "- 2"] power_int_def power2_eq_square)
  ultimately show ?thesis using that by (simp add: PAISE_EPS_def)
qed

lemma round2_whole:
  assumes "0 \<le> k" and "k \<le> 2 ^ 40"
  shows "round2 (Fin (of_int k)) = Fin (of_int k)"
proof -
  obtain e where e: "PAISE_EPS = Fin e" "0 \<le> e" "e \<le> 1 / 4" by (rule PAISE_EPS_small)
  have m: "Fin (of_int k) * Fin 100 = Fin (of_int (100 * k))"
    using rnd_of_int[of "100 * k"] assms by (simp add: mult.commute)
  have up: "fl (of_int (100 * k) + 1 / 4) = of_int (100 * k) + 1 / 4"
    by (rule fl_representable[of _ "400 * k + 1" "- 2"]) (use assms in \<open>auto simp: power_int_def power2_eq_square\<close>)
  have lo: "fl (of_int (100 * k)) = of_int (100 * k)" using assms by (intro fl_of_int) auto
  have b: "of_int (100 * k) \<le> fl (of_int (100 * k) + e)" "fl (of_int (100 * k) + e) \<le> of_int (100 * k) + 1 / 4"
    by (rule binary64.rd_lower[OF _ lo], use e in simp) (rule binary64.rd_upper[OF _ up], use e in simp)
  have "(of_int (100 * k) :: rat) \<le> of_int (100 * 2 ^ 40)" using assms(2) by (simp only: of_int_le_iff)
  then have "\<bar>of_int (100 * k) + e\<bar> \<le> 2 ^ 1000" using e assms(1) by simp
  then have s: "rnd (of_int (100 * k) + e) = Fin (fl (of_int (100 * k) + e))" by (rule rnd_finite)
  have f: "\<lfloor>fl (of_int (100 * k) + e) + 1 / 2\<rfloor> = 100 * k" by (rule floor_unique) (use b in auto)
  have d: "Fin (of_int (100 * k)) / Fin 100 = Fin (of_int k)" using rnd_of_int[of k] assms by simp
  show ?thesis unfolding round2_def m e(1) using s f d by simp
qed

definition sample_count_cap :: cap_row where
  "sample_count_cap = blank_cap\<lparr>cr_id := Some ''k'', cr_scope := Some ''card'', cr_cap_kind := Some ''txn_count'',
     cr_cap_amount := JNum (Fin 3)\<rparr>"

lemma sample_count_applies: "applicableCaps blank_card [sample_count_cap] (Some sample_earn) (c_category_id sample_v2_ctx) False
   = ([\<lparr>nc_id = ''k'', nc_kind = ''txn_count'', nc_amount = Fin 3, nc_behavior = ''base_rate'', nc_postUnit = None,
        nc_postRate = None, nc_legacy = False\<rparr>], [])"
  by code_simp

lemma v2_caps_never_overrun_witness:
  "\<exists>r k x. computeSpend (cardModes blank_card) blank_card [sample_count_cap] [(''k'', JNum (Fin 1))] sample_v2_ctx
      sample_earn False [] [] = Inr r \<and> (''k'', Fin 1) \<in> set (r2_capDeltas r)
    \<and> Fin 1 = round2 x \<and> x \<le> remaining [(''k'', JNum (Fin 1))] k"
proof -
  let ?m = "cardModes blank_card"
  have u: "rr_unit sample_earn = None" "rr_rate sample_earn = JNull" "rr_max_txn_inr sample_earn = JNull"
    by (simp_all add: sample_earn_def blank_rule_def)
  have z: "accrue None v s b md cb = Inr (Fin 0)" for v s b md cb
    by (rule accrue_inactive) simp
  have b: "md_baseUnit ?m = None" "md_baseRate ?m = None"
    by (simp_all add: cardModes_def blank_card_def or_text_def num_def nullish_def)
  have rp: "ruleParts ?m sample_earn isb s = Inr (Fin 0, Fin 0)" for isb s
    by (simp add: ruleParts_def accrueAt_def u or_text_def z currencyOf_def member_text_def)
  have a: "c_amount sample_v2_ctx = Fin 250" by code_simp
  have r1: "round2 (Fin 1) = Fin 1" using round2_whole[of 1] by simp
  have "\<exists>r. computeSpend ?m blank_card [sample_count_cap] [(''k'', JNum (Fin 1))] sample_v2_ctx
      sample_earn False [] [] = Inr r \<and> (''k'', Fin 1) \<in> set (r2_capDeltas r)"
    unfolding computeSpend_def Let_def sample_count_applies
    by (simp add: rp eligible_spend_def u num_def nullish_def a splitSpend_def caps_of_kind_def remaining_def
        read_consumed_def num_or_0_def mget_def minus_Fin overflowPieces_def overMaxPieces_def capDeltas_def
        bonus_caps_def total_caps_def deltas_of_def record_delta_def r1 Let_def currencyOf_def member_text_def)
  then obtain r where r: "computeSpend ?m blank_card [sample_count_cap] [(''k'', JNum (Fin 1))] sample_v2_ctx
      sample_earn False [] [] = Inr r" "(''k'', Fin 1) \<in> set (r2_capDeltas r)" by blast
  have w: "wf_val (rr_rate sample_earn)" "wf_val (of_num (md_baseRate ?m))" by (simp_all add: u b of_num_def)
  show ?thesis using v2_caps_never_overrun[OF r(1) w r(2)] r by metis
qed

section \<open>Nothing negative, nothing on an excluded spend\<close>

lemma accrue_nonneg:
  assumes "accrue unit rate s bo mode cb = Inr v" and "wf_val rate"
  shows "Fin 0 \<le> v"
proof (cases "\<exists>r. num rate = Some r \<and> Fin 0 < r \<and> has_text unit \<and> Fin 0 < s")
  case False
  then have "v = Fin 0" using accrue_inactive[of rate unit s bo mode cb] assms(1) by (cases "num rate") auto
  then show ?thesis by simp
next
  case True
  then obtain r where r: "num rate = Some r" "Fin 0 < r" "has_text unit" "Fin 0 < s" by auto
  then have "s \<le> s" by (cases s) auto
  then show ?thesis using accrue_active_mono[OF r(1) assms(2) r(3,2,4) _ assms(1,1)] by simp
qed

lemma le_nn: "Fin 0 \<le> v \<Longrightarrow> nn v"
  by (simp add: nn_def)

lemma nn_round2: "nn v \<Longrightarrow> nn (round2 v)"
proof -
  assume v: "nn v"
  have "nn PAISE_EPS" unfolding PAISE_EPS_def lit_def by (rule nn_rnd) simp
  then have "nn (jround (v * Fin 100 + PAISE_EPS) / Fin 100)" using v by (intro nn_divide nn_jround nn_plus nn_times) auto
  then show ?thesis by (simp add: round2_def)
qed

lemma nn_under_caps: "nn x \<Longrightarrow> nn (under_caps consumed caps x)"
  by (induction caps arbitrary: x) (auto simp: under_caps_def remaining_def)

lemma nn_settle: "nn x \<Longrightarrow> nn (st_allowed (settleTotals consumed caps x))"
  by (auto simp: settleTotals_def nn_under_caps)

lemma nn_earnedIn: "nn own \<Longrightarrow> \<forall>p \<in> set pieces. nn (snd p) \<Longrightarrow> nn (earnedIn ruleCur own pieces cur)"
proof -
  have "nn e \<Longrightarrow> \<forall>p \<in> set pieces. nn (snd p) \<Longrightarrow> nn (foldl (\<lambda>e p. if fst p = Some cur then e + snd p else e) e pieces)" for e
    by (induction pieces arbitrary: e) auto
  then show "nn own \<Longrightarrow> \<forall>p \<in> set pieces. nn (snd p) \<Longrightarrow> nn (earnedIn ruleCur own pieces cur)"
    using nn_plus[of "Fin 0" own] by (auto simp: earnedIn_def)
qed

definition wf_rates :: "v2_modes \<Rightarrow> rule_row \<Rightarrow> cap_row list \<Rightarrow> bool" where
  "wf_rates m rule caps \<longleftrightarrow> wf_val (rr_rate rule) \<and> wf_val (of_num (md_baseRate m))
     \<and> (\<forall>c \<in> set caps. wf_val (cr_post_cap_rate c))"

lemma ruleParts_nonneg:
  assumes "ruleParts m rule isb s = Inr (basePart, bonus)" and "wf_rates m rule caps"
  shows "nn basePart \<and> nn bonus"
proof -
  obtain a where a: "accrueAt m (or_text (rr_unit rule) None) (rr_rate rule) s (rr_block_inr rule) = Inr a"
    using assms(1) by (auto simp: ruleParts_def ebind_eq_Inr)
  have na: "nn a" using accrue_nonneg assms(2) a unfolding accrueAt_def wf_rates_def by (blast intro: le_nn)
  have nb: "accrueBase m s = Inr b \<Longrightarrow> nn b" for b
    using accrue_nonneg assms(2) unfolding accrueBase_def accrueAt_def wf_rates_def by (blast intro: le_nn)
  have d: "nn (a - jmin a b)" for b
    using jmin_le[of a b] nn_minus[of "jmin a b" a] by (cases "jmin a b = NaN") simp_all
  have "basePart = a \<and> bonus = Fin 0 \<or> basePart = Fin 0 \<and> bonus = a
      \<or> (\<exists>b. accrueBase m s = Inr b \<and> basePart = jmin a b \<and> bonus = a - jmin a b)"
    using assms(1) a by (auto simp: ruleParts_def ebind_eq_Inr Let_def split: if_splits)
  then show ?thesis using na nb d by (auto intro: nn_jmin)
qed

lemma collected_caps_source:
  "c \<in> set (fst (foldl (collect_cap rule cd chosen) st caps)) \<Longrightarrow>
     c \<in> set (fst st) \<or> (\<exists>row \<in> set caps. normalizeCap row rule cd = Inr c)"
proof (induction caps arbitrary: st)
  case Nil
  then show ?case by simp
next
  case (Cons x caps)
  have "c \<in> set (fst (collect_cap rule cd chosen st x)) \<Longrightarrow> c \<in> set (fst st) \<or> normalizeCap x rule cd = Inr c"
    by (auto simp: collect_cap_def split: if_splits sum.splits)
  then show ?case using Cons.IH[of "collect_cap rule cd chosen st x"] Cons.prems by auto
qed

lemma applicableCaps_source: "c \<in> set (fst (applicableCaps cd caps rule cat ex)) \<Longrightarrow>
    \<exists>row \<in> set caps. normalizeCap row rule cd = Inr c"
  by (auto simp: applicableCaps_def Let_def identified_def dest!: collected_caps_source split: if_splits)

lemma splitSpend_binding: "ss_binding (splitSpend consumed caps e) = Some b \<Longrightarrow> b \<in> set caps"
proof -
  have t: "fst (foldl (tighter consumed) (bo, x) cs) = Some b \<Longrightarrow> bo = Some b \<or> b \<in> set cs" for bo x cs
  proof (induction cs arbitrary: bo x)
    case Nil
    then show ?case by simp
  next
    case (Cons c cs)
    then show ?case by (cases "remaining consumed c < x") (force simp: tighter_def)+
  qed
  assume "ss_binding (splitSpend consumed caps e) = Some b"
  then have "fst (foldl (tighter consumed) (None, PInf) (caps_of_kind ''eligible_spend'' caps)) = Some b
      \<or> find (\<lambda>c. remaining consumed c < Fin 1) (caps_of_kind ''txn_count'' caps) = Some b"
    by (auto simp: splitSpend_def Let_def split: prod.splits if_splits)
  then show ?thesis using t[of None PInf "caps_of_kind ''eligible_spend'' caps"]
    by (auto simp: caps_of_kind_def find_Some_iff dest: nth_mem)
qed

lemma pieces_nonneg:
  assumes "overflowPieces m rule binding overflow = Inr ps \<or> overMaxPieces m overMax = Inr ps"
    and "wf_rates m rule caps" and "\<forall>b. binding = Some b \<longrightarrow> wf_val (of_num (nc_postRate b))"
  shows "\<forall>p \<in> set ps. nn (snd p)"
proof -
  have base: "accrueBase m s = Inr b \<Longrightarrow> nn b" for s b
    using accrue_nonneg assms(2) unfolding accrueBase_def accrueAt_def wf_rates_def by (blast intro: le_nn)
  have own: "accrueAt m u (of_num (nc_postRate k)) s bl = Inr b \<Longrightarrow> binding = Some k \<Longrightarrow> nn b" for u k s bl b
    using accrue_nonneg assms(3) unfolding accrueAt_def by (blast intro: le_nn)
  from assms(1) show ?thesis
  proof
    assume "overflowPieces m rule binding overflow = Inr ps"
    then show ?thesis using base own
      by (cases binding) (auto simp: overflowPieces_def Let_def ebind_eq_Inr split: if_splits)
  next
    assume "overMaxPieces m overMax = Inr ps"
    then show ?thesis using base by (auto simp: overMaxPieces_def ebind_eq_Inr split: if_splits)
  qed
qed


text \<open>What a computed spend is made of, and that every part of it is nonnegative.\<close>

lemma computeSpend_parts:
  assumes "computeSpend m cd capRules consumed c rule implicit skips assumed = Inr r"
    and "applicableCaps cd capRules (Some rule) (c_category_id c) False = (caps, skipped)"
  obtains basePart bonus over abv where
    "ruleParts m rule (implicit \<or> roleOf rule = ''base'') (ss_ruleSpend (splitSpend consumed caps (eligible_spend rule c))) = Inr (basePart, bonus)"
    "overflowPieces m rule (ss_binding (splitSpend consumed caps (eligible_spend rule c)))
       (eligible_spend rule c - ss_ruleSpend (splitSpend consumed caps (eligible_spend rule c))) = Inr over"
    "overMaxPieces m (c_amount c - eligible_spend rule c) = Inr abv"
  using assms unfolding computeSpend_def Let_def by (auto simp: ebind_eq_Inr)

lemma spend_earnings_nonneg:
  assumes ap: "applicableCaps cd capRules (Some rule) (c_category_id c) False = (caps, skipped)"
    and parts: "ruleParts m rule (implicit \<or> roleOf rule = ''base'') (ss_ruleSpend (splitSpend consumed caps e)) = Inr (basePart, bonus)"
    and over: "overflowPieces m rule (ss_binding (splitSpend consumed caps e)) e1 = Inr over"
    and abv: "overMaxPieces m e2 = Inr abv" and wf: "wf_rates m rule capRules"
  shows "nn (earnedIn cur (basePart + under_caps consumed cs bonus) (over @ abv) k)"
proof -
  have bnd: "\<forall>b. ss_binding (splitSpend consumed caps e) = Some b \<longrightarrow> wf_val (of_num (nc_postRate b))"
  proof (intro allI impI)
    fix b assume "ss_binding (splitSpend consumed caps e) = Some b"
    then have "b \<in> set caps" by (rule splitSpend_binding)
    then obtain row where row: "row \<in> set capRules" "normalizeCap row (Some rule) cd = Inr b"
      using applicableCaps_source[of b cd capRules "Some rule" "c_category_id c" False] ap by auto
    then have "nc_postRate b = num (cr_post_cap_rate row)" by (auto simp: normalizeCap_def ebind_eq_Inr split: option.splits)
    then show "wf_val (of_num (nc_postRate b))"
      using row(1) wf num_wf by (auto simp: wf_rates_def of_num_def simp del: wf_num.simps split: option.splits)
  qed
  show ?thesis
    using ruleParts_nonneg[OF parts wf] pieces_nonneg[OF disjI1[OF over] wf bnd] pieces_nonneg[OF disjI2[OF abv] wf bnd]
    by (intro nn_earnedIn nn_plus nn_under_caps) auto
qed

lemma computeSpend_nonneg:
  assumes "computeSpend m cd capRules consumed c rule implicit skips assumed = Inr r"
    and "wf_rates m rule capRules" and "nn (md_pointValue m)"
  shows "nn (r2_valueInr r) \<and> (\<forall>v. r2_points r = Some v \<longrightarrow> nn v) \<and> (\<forall>v. r2_cashbackInr r = Some v \<longrightarrow> nn v)
    \<and> \<not> r2_excluded r"
proof -
  obtain caps skipped where ap: "applicableCaps cd capRules (Some rule) (c_category_id c) False = (caps, skipped)"
    by fastforce
  obtain basePart bonus over abv where parts:
      "ruleParts m rule (implicit \<or> roleOf rule = ''base'') (ss_ruleSpend (splitSpend consumed caps (eligible_spend rule c))) = Inr (basePart, bonus)"
    and over: "overflowPieces m rule (ss_binding (splitSpend consumed caps (eligible_spend rule c)))
       (eligible_spend rule c - ss_ruleSpend (splitSpend consumed caps (eligible_spend rule c))) = Inr over"
    and abv: "overMaxPieces m (c_amount c - eligible_spend rule c) = Inr abv"
    by (rule computeSpend_parts[OF assms(1) ap])
  let ?cur = "currencyOf (rr_unit rule)"
  let ?own = "basePart + under_caps consumed (bonus_caps ?cur caps) bonus"
  have st: "nn (st_allowed (settleTotals consumed cs (earnedIn ?cur ?own (over @ abv) k)))" for cs k
    by (rule nn_settle[OF spend_earnings_nonneg[OF ap parts over abv assms(2)]])
  let ?st = "\<lambda>k. st_allowed (settleTotals consumed (total_caps k caps) (earnedIn ?cur ?own (over @ abv) k))"
  note e = assms(1)[unfolded computeSpend_def Let_def ap prod.case parts over abv ebind_Inr sum.inject]
  have v: "r2_valueInr r = round2 (?st Points * md_pointValue m + ?st Cashback)" "\<not> r2_excluded r"
    using assms(1) unfolding computeSpend_def Let_def ap by (auto simp: parts over abv)
  have p: "\<exists>shown. r2_points r = (if shown then Some (round2 (?st Points)) else None)"
    by (rule exI, rule arg_cong[OF e, of r2_points, unfolded v2_result.simps, symmetric])
  have k: "\<exists>shown. r2_cashbackInr r = (if shown then Some (round2 (?st Cashback)) else None)"
    by (rule exI, rule arg_cong[OF e, of r2_cashbackInr, unfolded v2_result.simps, symmetric])
  have "nn (r2_valueInr r)" unfolding v(1) by (intro nn_round2 nn_plus nn_times st assms(3))
  moreover have "nn (round2 (?st j))" for j by (intro nn_round2 st)
  ultimately show ?thesis using v(2) p k by (auto split: if_split_asm)
qed

text \<open>Every reported consumption is a nonnegative rounded amount.\<close>

lemma nn_eligible: "nn (c_amount c) \<Longrightarrow> nn (eligible_spend rule c)"
  by (auto simp: eligible_spend_def split: option.splits)

lemma nn_splitSpend:
  assumes "nn e"
  shows "nn (ss_ruleSpend (splitSpend consumed caps e))"
proof -
  have t: "nn (snd st) \<Longrightarrow> nn (snd (foldl (tighter consumed) st cs))" for st cs
    by (induction cs arbitrary: st) (auto simp: tighter_def remaining_def)
  show ?thesis
    using t[of "(None, PInf)" "caps_of_kind ''eligible_spend'' caps"] assms
    by (auto simp: splitSpend_def Let_def split: prod.splits)
qed

lemma computeSpend_deltas:
  assumes "computeSpend m cd capRules consumed c rule implicit skips assumed = Inr r"
    and "wf_rates m rule capRules" and "nn (c_amount c)" and "(i, d) \<in> set (r2_capDeltas r)"
  shows "\<exists>x. d = round2 x \<and> nn x"
proof -
  obtain caps skipped where ap: "applicableCaps cd capRules (Some rule) (c_category_id c) False = (caps, skipped)"
    by fastforce
  let ?sp = "splitSpend consumed caps (eligible_spend rule c)" and ?cur = "currencyOf (rr_unit rule)"
  obtain basePart bonus over abv where parts: "ruleParts m rule (implicit \<or> roleOf rule = ''base'') (ss_ruleSpend ?sp) = Inr (basePart, bonus)"
    and over: "overflowPieces m rule (ss_binding ?sp) (eligible_spend rule c - ss_ruleSpend ?sp) = Inr over"
    and abv: "overMaxPieces m (c_amount c - eligible_spend rule c) = Inr abv"
    by (rule computeSpend_parts[OF assms(1) ap])
  have st: "nn (st_allowed (settleTotals consumed cs (earnedIn ?cur
      (basePart + under_caps consumed (bonus_caps ?cur caps) bonus) (over @ abv) k)))" for cs k
    by (rule nn_settle[OF spend_earnings_nonneg[OF ap parts over abv assms(2)]])
  note e = assms(1)[unfolded computeSpend_def Let_def ap prod.case parts over abv ebind_Inr sum.inject]
  note in_deltas = assms(4)[folded e, unfolded v2_result.simps]
  have sp: "nn (ss_ruleSpend ?sp)" by (rule nn_splitSpend[OF nn_eligible[OF assms(3)]])
  show ?thesis
    using in_deltas by (rule capDeltas_charge) (use st sp in \<open>auto split: if_splits\<close>)
qed

lemma nothing_earned_simps [simp]:
  "r2_valueInr (nothing_earned cur i ex rs as) = Fin 0" "r2_capDeltas (nothing_earned cur i ex rs as) = []"
  "r2_points (nothing_earned cur i ex rs as) = (if cur = Some Points then Some (Fin 0) else None)"
  "r2_cashbackInr (nothing_earned cur i ex rs as) = (if cur = Some Cashback then Some (Fin 0) else None)"
  by (simp_all add: nothing_earned_def)

lemma pick_rule_source:
  assumes "pickRuleV2 tz rules c cd = Inr p"
  shows "pk_rule p = Some q \<Longrightarrow> q \<in> insert (implicitBaseRule cd) (set rules)"
  using assms byPriority_hd[of "exclusion_rules tz rules c" c "cardModes cd"] byPriority_hd[of "earner_rules tz rules c" c "cardModes cd"]
  by (auto simp: pickRuleV2_def Let_def ebind_eq_Inr exclusion_rules_set earner_rules_set split: if_splits)

text \<open>Every consumption of a second-generation answer is a nonnegative rounded amount.\<close>

lemma v2_deltas:
  assumes "computeTransactionRewardV2 tz cd rules caps before raw dir = Inr r" and "isV2Card cd rules caps"
    and "\<forall>q \<in> insert (implicitBaseRule cd) (set rules). wf_rates (cardModes cd) q caps" and "(i, d) \<in> set (r2_capDeltas r)"
  shows "\<exists>x. d = round2 x \<and> nn x"
proof -
  let ?c = "resolveContext raw dir"
  have a: "is_finite (c_amount ?c) \<and> Fin 0 < c_amount ?c"
    using assms(1,2,4) unfolding computeTransactionRewardV2_def Let_def by (auto split: if_split_asm)
  obtain p where p: "pickRuleV2 tz rules ?c cd = Inr p"
    using assms(1,2) a unfolding computeTransactionRewardV2_def Let_def by (auto simp: ebind_eq_Inr)
  obtain q where q: "pk_rule p = Some q"
    using assms(1,2,4) a p unfolding computeTransactionRewardV2_def Let_def by (auto split: option.splits if_splits)
  have "\<not> pk_excluded p"
    using assms(1,2,4) a p unfolding computeTransactionRewardV2_def Let_def by (auto split: if_splits)
  then obtain skips as where s: "computeSpend (cardModes cd) cd caps (consumed_map before) ?c q (pk_implicit p) skips as = Inr r"
    using assms(1,2) a p q unfolding computeTransactionRewardV2_def Let_def by auto
  have "wf_rates (cardModes cd) q caps" using pick_rule_source[OF p q] assms(3) by blast
  moreover have "nn (c_amount ?c)" using a by (auto intro: le_nn jless_imp_le)
  ultimately show ?thesis using computeSpend_deltas[OF s] assms(4) by blast
qed

text \<open>
  A second-generation answer is never negative, and an excluded, non-positive or non-numeric purchase earns
  nothing and consumes nothing. (Rates are Numbers and the point value is not negative.)
\<close>

theorem v2_reward_nonneg:
  assumes "computeTransactionRewardV2 tz cd rules caps before raw dir = Inr r" and "isV2Card cd rules caps"
    and "\<forall>q \<in> insert (implicitBaseRule cd) (set rules). wf_rates (cardModes cd) q caps" and "nn (num_or_0 (cd_point_value_inr cd))"
  shows "nn (r2_valueInr r) \<and> (\<forall>v. r2_points r = Some v \<longrightarrow> nn v) \<and> (\<forall>v. r2_cashbackInr r = Some v \<longrightarrow> nn v)
    \<and> (r2_excluded r \<or> \<not> (is_finite (c_amount (resolveContext raw dir)) \<and> Fin 0 < c_amount (resolveContext raw dir)) \<longrightarrow>
         r2_capDeltas r = [] \<and> r2_valueInr r = Fin 0 \<and> r2_points r \<in> {None, Some (Fin 0)}
         \<and> r2_cashbackInr r \<in> {None, Some (Fin 0)})"
proof (cases "is_finite (c_amount (resolveContext raw dir)) \<and> Fin 0 < c_amount (resolveContext raw dir)")
  case False
  then show ?thesis
    using assms(1,2) unfolding computeTransactionRewardV2_def Let_def by (auto split: if_split_asm)
next
  case True
  obtain p where p: "pickRuleV2 tz rules (resolveContext raw dir) cd = Inr p"
    using assms(1,2) True unfolding computeTransactionRewardV2_def Let_def by (auto simp: ebind_eq_Inr)
  note src = pick_rule_source[OF p]
  show ?thesis
  proof (cases "pk_excluded p \<or> pk_rule p = None")
    case pk: True
    then show ?thesis
      using assms(1,2) True p unfolding computeTransactionRewardV2_def Let_def
      by (auto split: option.splits if_splits)
  next
    case False
    then obtain q where q: "pk_rule p = Some q" by auto
    then obtain skips as where "computeSpend (cardModes cd) cd caps (consumed_map before) (resolveContext raw dir) q (pk_implicit p) skips as = Inr r"
      using assms(1,2) True p False unfolding computeTransactionRewardV2_def Let_def by auto
    moreover have "wf_rates (cardModes cd) q caps" using src[OF q] assms(3) by blast
    moreover have "nn (md_pointValue (cardModes cd))" using assms(4) by (simp add: cardModes_def)
    ultimately show ?thesis using computeSpend_nonneg True by blast
  qed
qed


lemma v2_reward_nonneg_witness:
  "\<exists>r. computeTransactionRewardV2 0 blank_card [sample_earn, sample_exclusion] [] NoneBefore sample_raw None = Inr r
     \<and> r2_excluded r \<and> r2_capDeltas r = [] \<and> r2_valueInr r = Fin 0"
proof -
  let ?rules = "[sample_earn, sample_exclusion]"
  have v2: "isV2Card blank_card ?rules []" by code_simp
  have a: "c_amount (resolveContext sample_raw None) = Fin 250" by code_simp
  obtain p where p: "pickRuleV2 0 ?rules (resolveContext sample_raw None) blank_card = Inr p" "pk_excluded p"
    using sample_pick unfolding sample_v2_ctx_def by blast
  then obtain r where r: "computeTransactionRewardV2 0 blank_card ?rules [] NoneBefore sample_raw None = Inr r" "r2_excluded r"
    by (auto simp: computeTransactionRewardV2_def Let_def v2 a nothing_earned_def)
  have w: "\<forall>q \<in> insert (implicitBaseRule blank_card) (set ?rules). wf_rates (cardModes blank_card) q []"
    by (simp add: wf_rates_def implicitBaseRule_def sample_earn_def sample_exclusion_def blank_rule_def blank_card_def
        cardModes_def of_num_def num_def nullish_def)
  have n: "nn (num_or_0 (cd_point_value_inr blank_card))" by (simp add: blank_card_def num_or_0_def num_def nullish_def)
  note v2_reward_nonneg[OF r(1) v2 w n, THEN conjunct2, THEN conjunct2, THEN conjunct2, THEN mp, OF disjI1[OF r(2)]]
  then show ?thesis using r by blast
qed

end
