(* ===== verification/Money.thy ===== *)
theory Money
  imports CardState RewardV2Props
begin

text \<open>
  Money columns against Numbers: an amount that is a whole number of hundredths survives rounding,
  storing and adding up, so that what a row holds and what a record says are the same integer.
\<close>

lemma fl_abs_error: "\<bar>fl x - x\<bar> \<le> \<bar>x\<bar> / 2 ^ 53 + 1 / 2 ^ 60"
proof (cases "2 powi (- 1022) \<le> \<bar>x\<bar>")
  case True
  have "(0 :: rat) \<le> 1 / 2 ^ 60" by simp
  then show ?thesis using fl_error[OF True] by linarith
next
  case False
  have p: "(2 powi (- 61) :: rat) = 1 / 2 ^ 61" by (simp only: power_int_minus power_int_numeral inverse_eq_divide)
  have t: "\<bar>x\<bar> \<le> 1 / 2 ^ 61"
    using False powi2_le[of "- 1022" "- 61"] unfolding p by linarith
  have r: "fl (1 / 2 ^ 61) = 1 / 2 ^ 61" unfolding p[symmetric] by (rule fl_representable[of _ 1 "- 61"]) simp_all
  have "fl x \<le> 1 / 2 ^ 61" by (rule binary64.rd_upper[OF _ r]) (use t in linarith)
  moreover have "- (1 / 2 ^ 61) \<le> fl x"
    by (rule binary64.rd_lower) (use t in linarith, simp only: fl_neg r)
  moreover have "(1 / 2 ^ 61 + 1 / 2 ^ 61 :: rat) = 1 / 2 ^ 60" by simp
  moreover have "0 \<le> \<bar>x\<bar> / 2 ^ 53" by simp
  ultimately show ?thesis using t by linarith
qed

lemma power_consts: "(2 :: rat) ^ 53 = 9007199254740992" "(2 :: rat) ^ 60 = 1152921504606846976"
  by simp_all

lemma fl_error_money: "\<bar>x\<bar> \<le> 2000000000000 \<Longrightarrow> \<bar>fl x - x\<bar> \<le> 1 / 1000"
  using fl_abs_error[of x, unfolded power_consts] by linarith

lemma PAISE_EPS_Fin: obtains e where "PAISE_EPS = Fin e" "\<bar>e\<bar> \<le> 1 / 100"
proof -
  have "lit (1 / 10 ^ 6) = Fin (fl (1 / 10 ^ 6))" unfolding lit_def by (rule rnd_finite) simp
  moreover have "\<bar>fl (1 / 1000000)\<bar> \<le> 1 / 100" using fl_error_money[of "1 / 1000000"] by linarith
  ultimately show ?thesis using that by (simp add: PAISE_EPS_def)
qed

lemma finite_range: "\<bar>y\<bar> \<le> 2000000000000 \<Longrightarrow> rnd y = Fin (fl y)"
  by (rule rnd_finite) (erule order_trans, simp)

lemma money_bound: "\<bar>k\<bar> \<le> 10 ^ 12 \<Longrightarrow> \<bar>of_int k :: rat\<bar> \<le> 1000000000000"
  using of_int_le_iff[of "\<bar>k\<bar>" "10 ^ 12", where 'a = rat] by simp

lemma round_near:
  assumes "\<bar>x - of_int k / 100\<bar> \<le> 1 / 1000" and "\<bar>k\<bar> \<le> 10 ^ 12" and "\<bar>e\<bar> \<le> 1 / 100"
  shows "jround (Fin x * Fin 100 + Fin e) = Fin (of_int k)"
proof -
  note k = money_bound[OF assms(2)]
  have x: "\<bar>x * 100 - of_int k\<bar> \<le> 1 / 10" using assms(1) by linarith
  have x2: "\<bar>x * 100\<bar> \<le> 2000000000000" using x k by linarith
  note f1 = fl_error_money[OF x2]
  have y2: "\<bar>fl (x * 100) + e\<bar> \<le> 2000000000000" using x k f1 assms(3) by linarith
  note f2 = fl_error_money[OF y2]
  have "\<lfloor>fl (fl (x * 100) + e) + 1 / 2\<rfloor> = k"
    by (rule floor_unique) (use x f1 f2 assms(3) in linarith)+
  then show ?thesis by (simp add: finite_range[OF x2] finite_range[OF y2])
qed

text \<open>The Number of an amount of \<open>k\<close> hundredths, and both files' rounding on it.\<close>

lemma round2s_near:
  assumes "\<bar>x - of_int k / 100\<bar> \<le> 1 / 1000" and "\<bar>k\<bar> \<le> 10 ^ 12"
  shows "round2s (Fin x) = of_money k"
proof -
  obtain e where e: "PAISE_EPS = Fin e" "\<bar>e\<bar> \<le> 1 / 100" by (rule PAISE_EPS_Fin)
  then have "\<bar>- e\<bar> \<le> 1 / 100" by simp
  then show ?thesis
    using round_near[OF assms e(2)] round_near[OF assms] by (simp add: round2s_def of_money_def e(1) del: times_jsnum.simps)
qed

lemma of_money_Fin:
  assumes "\<bar>k\<bar> \<le> 10 ^ 12"
  obtains x where "of_money k = Fin x" "\<bar>x - of_int k / 100\<bar> \<le> 1 / 1000"
proof -
  have k: "\<bar>of_int k / 100 :: rat\<bar> \<le> 2000000000000" using money_bound[OF assms] by linarith
  show ?thesis using that fl_error_money[OF k] finite_range[OF k] by (simp add: of_money_def)
qed

lemma round2s_of_money [simp]: "\<bar>k\<bar> \<le> 10 ^ 12 \<Longrightarrow> round2s (of_money k) = of_money k"
  by (metis of_money_Fin round2s_near)

lemma nearest_near:
  assumes "\<bar>x - of_int k / 100\<bar> \<le> 1 / 1000"
  shows "nearest_hundredth x = k"
proof -
  have "\<lfloor>- x * 100 + 1 / 2\<rfloor> = - k" by (rule floor_unique) (use assms in \<open>simp only: of_int_minus, linarith\<close>)+
  moreover have "\<lfloor>x * 100 + 1 / 2\<rfloor> = k" by (rule floor_unique) (use assms in linarith)+
  ultimately show ?thesis by (simp add: nearest_hundredth_def)
qed

lemma hundredths_of_money [simp]: "\<bar>k\<bar> \<le> 10 ^ 12 \<Longrightarrow> hundredths (of_money k) = Inr k"
  by (rule of_money_Fin[of k]) (simp_all add: hundredths_def nearest_near)

end
