(* ===== verification/CardBooks.thy ===== *)
theory CardBooks
  imports Money
begin

text \<open>
  The books of the recording: what the counter rows of a card hold, what the transactions' records
  say they hold, and the operations that keep the two equal.
\<close>

section \<open>Counters\<close>

text \<open>
  The contract of the three counter tables: an operation on one entry moves the counter at that
  entry's key by a signed amount, clamps it at zero, and changes nothing else.
\<close>

definition shifted :: "('a \<Rightarrow> 'k) \<Rightarrow> ('a \<Rightarrow> int) \<Rightarrow> 'a list \<Rightarrow> 'k \<Rightarrow> int" where
  "shifted key amt as k = (\<Sum>a\<leftarrow>as. if key a = k then amt a else 0)"

lemma shifted_simps [simp]: "shifted key amt [] k = 0"
  "shifted key amt (a # as) k = (if key a = k then amt a else 0) + shifted key amt as k"
  by (simp_all add: shifted_def)

lemma shifted_nonneg: "\<forall>a \<in> set as. 0 \<le> amt a \<Longrightarrow> 0 \<le> shifted key amt as k"
  and shifted_nonpos: "\<forall>a \<in> set as. amt a \<le> 0 \<Longrightarrow> shifted key amt as k \<le> 0"
  by (induction as) auto

lemma shifted_minus: "shifted key (\<lambda>a. - amt a) as k = - shifted key amt as k"
  by (induction as) auto

lemma shifted_map: "shifted key amt (map f as) k = shifted (\<lambda>a. key (f a)) (\<lambda>a. amt (f a)) as k"
  by (simp add: shifted_def comp_def)

lemma shifted_perm: "mset as = mset bs \<Longrightarrow> shifted key amt as k = shifted key amt bs k"
  by (simp add: shifted_def flip: sum_mset_sum_list)

locale clamped_rows =
  fixes val :: "db \<Rightarrow> state_key \<Rightarrow> int"
    and alien :: "db \<Rightarrow> state_key \<Rightarrow> bool"
    and rest :: "db \<Rightarrow> 'f"
    and good :: "(state_key \<Rightarrow> bool) \<Rightarrow> 'a \<Rightarrow> bool"
    and key :: "'a \<Rightarrow> state_key"
    and amt :: "'a \<Rightarrow> int"
    and move :: "db \<Rightarrow> 'a \<Rightarrow> state_error + db \<times> 'r"
  assumes move_val: "move d a = Inr (d', r) \<Longrightarrow> good (alien d) a \<Longrightarrow>
      val d' = (val d)(key a := max 0 (val d (key a) + amt a))"
    and move_frame: "move d a = Inr (d', r) \<Longrightarrow> good (alien d) a \<Longrightarrow> rest d' = rest d \<and> alien d' = alien d"
begin

lemma all_frame:
  "upsertAll move d as = Inr (d', rs) \<Longrightarrow> \<forall>a \<in> set as. good (alien d) a \<Longrightarrow> rest d' = rest d \<and> alien d' = alien d"
proof (induction as arbitrary: d rs)
  case Nil
  then show ?case by simp
next
  case (Cons a as)
  obtain d1 r rs' where m: "move d a = Inr (d1, r)" and u: "upsertAll move d1 as = Inr (d', rs')"
    using Cons.prems(1) by (auto simp: ebind_eq_Inr)
  have g: "good (alien d) a" using Cons.prems(2) by simp
  have "rest d' = rest d1 \<and> alien d' = alien d1"
    by (rule Cons.IH[OF u]) (use Cons.prems(2) move_frame[OF m g] in simp)
  then show ?case using move_frame[OF m g] by simp
qed

text \<open>Amounts of one sign that do not take the counter below zero are counted exactly.\<close>

lemma all_val:
  assumes "upsertAll move d as = Inr (d', rs)" and "\<forall>a \<in> set as. good (alien d) a"
    and "(\<forall>a \<in> set as. 0 \<le> amt a) \<or> (\<forall>a \<in> set as. amt a \<le> 0)" and "0 \<le> val d k" and "0 \<le> val d k + shifted key amt as k"
  shows "val d' k = val d k + shifted key amt as k"
  using assms
proof (induction as arbitrary: d rs)
  case Nil
  then show ?case by simp
next
  case (Cons a as)
  obtain d1 r rs' where m: "move d a = Inr (d1, r)" and u: "upsertAll move d1 as = Inr (d', rs')"
    using Cons.prems(1) by (auto simp: ebind_eq_Inr)
  have g: "good (alien d) a" using Cons.prems(2) by simp
  have s: "0 \<le> amt a \<or> shifted key amt as k \<le> 0" using Cons.prems(3) shifted_nonpos[of as amt key k] by auto
  have v: "val d1 k = val d k + (if key a = k then amt a else 0)"
    using move_val[OF m g] Cons.prems(4,5) s by (auto simp: max_def)
  have "val d' k = val d1 k + shifted key amt as k"
    by (rule Cons.IH[OF u])
      (use Cons.prems(2,3,4,5) move_frame[OF m g] v s in \<open>auto split: if_splits\<close>)
  then show ?case using v by simp
qed

end

section \<open>The three tables\<close>

definition cents :: "entry \<Rightarrow> int" where
  "cents e = (case hundredths (en_delta e) of Inl _ \<Rightarrow> 0 | Inr c \<Rightarrow> c)"

text \<open>A counter is the amount of the owner's row, zero without one; a row of another owner is alien.\<close>

definition cap_units :: "string \<Rightarrow> db \<Rightarrow> state_key \<Rightarrow> int" where
  "cap_units P d k = (case map_of (db_cap_states d) k of None \<Rightarrow> 0 | Some r \<Rightarrow> if ct_profile r = P then ct_consumed r else 0)"

definition cap_alien :: "string \<Rightarrow> db \<Rightarrow> state_key \<Rightarrow> bool" where
  "cap_alien P d k \<longleftrightarrow> (\<exists>r. map_of (db_cap_states d) k = Some r \<and> ct_profile r \<noteq> P)"

definition milestone_units :: "string \<Rightarrow> db \<Rightarrow> state_key \<Rightarrow> int" where
  "milestone_units P d k = (case map_of (db_milestone_states d) k of None \<Rightarrow> 0
     | Some r \<Rightarrow> if mt_profile r = P then mt_qualified r else 0)"

definition milestone_alien :: "string \<Rightarrow> db \<Rightarrow> state_key \<Rightarrow> bool" where
  "milestone_alien P d k \<longleftrightarrow> (\<exists>r. map_of (db_milestone_states d) k = Some r \<and> mt_profile r \<noteq> P)"

definition fee_units :: "string \<Rightarrow> db \<Rightarrow> state_key \<Rightarrow> int" where
  "fee_units P d k = (case map_of (db_fee_states d) k of None \<Rightarrow> 0 | Some r \<Rightarrow> if ft_profile r = P then ft_qualified r else 0)"

definition fee_alien :: "string \<Rightarrow> db \<Rightarrow> state_key \<Rightarrow> bool" where
  "fee_alien P d k \<longleftrightarrow> (\<exists>r. map_of (db_fee_states d) k = Some r \<and> ft_profile r \<noteq> P)"

definition but_caps :: "db \<Rightarrow> db" where "but_caps d = d\<lparr>db_cap_states := []\<rparr>"
definition but_milestones :: "db \<Rightarrow> db" where "but_milestones d = d\<lparr>db_milestone_states := []\<rparr>"
definition but_fees :: "db \<Rightarrow> db" where "but_fees d = d\<lparr>db_fee_states := []\<rparr>"

definition on_card :: "string \<Rightarrow> entry \<Rightarrow> state_key" where
  "on_card U e = (U, en_id e, en_start e)"

lemmas table_defs = cap_units_def cap_alien_def milestone_units_def milestone_alien_def fee_units_def fee_alien_def
  but_caps_def but_milestones_def but_fees_def

lemma fits_Inr [simp]: "fits n k = Inr x \<longleftrightarrow> \<bar>k\<bar> < 10 ^ n \<and> x = k"
  by (auto simp: fits_def)

lemma hundredths_cents: "hundredths (en_delta e) = Inr c \<Longrightarrow> cents e = c"
  by (simp add: cents_def)

lemma settleFeeWaiver_frame [simp]:
  "ft_qualified (settleFeeWaiver s th) = ft_qualified s" "ft_profile (settleFeeWaiver s th) = ft_profile s"
  by (simp_all add: settleFeeWaiver_def)

text \<open>What one write leaves: the row at the entry's key, with the counter moved.\<close>

lemma on_card_fold: "(U, en_id e, en_start e) = on_card U e"
  by (simp add: on_card_def)

lemma applyCapEntry_row:
  assumes "applyCapEntry P v2 d e = Inr (d', r)"
  shows "\<exists>row. d' = d\<lparr>db_cap_states := mset_put (on_card (v_userCardId v2) e) row (db_cap_states d)\<rparr>
    \<and> ct_consumed row = max 0 ((case map_of (db_cap_states d) (on_card (v_userCardId v2) e) of None \<Rightarrow> 0 | Some r \<Rightarrow> ct_consumed r) + cents e)
    \<and> ct_profile row = (case map_of (db_cap_states d) (on_card (v_userCardId v2) e) of None \<Rightarrow> P | Some r \<Rightarrow> ct_profile r)
    \<and> ct_kind row = en_kind e \<and> hundredths (en_delta e) = Inr (cents e) \<and> ct_consumed row < 10 ^ 12"
proof -
  obtain c where c: "hundredths (en_delta e) = Inr c"
    using assms unfolding applyCapEntry_def upsertCap_def Let_def by (auto simp only: ebind_eq_Inr)
  show ?thesis
    using assms unfolding applyCapEntry_def upsertCap_def Let_def on_card_fold c hundredths_cents[OF c] ebind_Inr ebind_eq_Inr fits_Inr
    by (cases "map_of (db_cap_states d) (on_card (v_userCardId v2) e)"; simp only: option.case; auto)
qed

lemma upsertMilestone_row:
  assumes "upsertMilestone P U d e = Inr (d', r)"
  shows "\<exists>row. d' = d\<lparr>db_milestone_states := mset_put (on_card U e) row (db_milestone_states d)\<rparr>
    \<and> mt_qualified row = max 0 ((case map_of (db_milestone_states d) (on_card U e) of None \<Rightarrow> 0 | Some r \<Rightarrow> mt_qualified r) + cents e)
    \<and> mt_profile row = (case map_of (db_milestone_states d) (on_card U e) of None \<Rightarrow> P | Some r \<Rightarrow> mt_profile r)
    \<and> hundredths (en_delta e) = Inr (cents e) \<and> mt_qualified row < 10 ^ 12"
proof -
  obtain c where c: "hundredths (en_delta e) = Inr c"
    using assms unfolding upsertMilestone_def Let_def by (auto simp only: ebind_eq_Inr)
  show ?thesis
    using assms unfolding upsertMilestone_def Let_def on_card_fold c hundredths_cents[OF c] ebind_Inr ebind_eq_Inr fits_Inr
    by (cases "map_of (db_milestone_states d) (on_card U e)"; simp only: option.case; auto)
qed

lemma upsertFee_row:
  assumes "upsertFee P U th d e = Inr (d', r)"
  shows "\<exists>row. d' = d\<lparr>db_fee_states := mset_put (on_card U e) row (db_fee_states d)\<rparr>
    \<and> ft_qualified row = max 0 ((case map_of (db_fee_states d) (on_card U e) of None \<Rightarrow> 0 | Some r \<Rightarrow> ft_qualified r) + cents e)
    \<and> ft_profile row = (case map_of (db_fee_states d) (on_card U e) of None \<Rightarrow> P | Some r \<Rightarrow> ft_profile r)
    \<and> hundredths (en_delta e) = Inr (cents e) \<and> ft_qualified row < 10 ^ 12"
proof -
  obtain c where c: "hundredths (en_delta e) = Inr c"
    using assms unfolding upsertFee_def Let_def by (auto simp only: ebind_eq_Inr)
  show ?thesis
    using assms unfolding upsertFee_def Let_def on_card_fold c hundredths_cents[OF c] ebind_Inr ebind_eq_Inr fits_Inr
    by (cases "map_of (db_fee_states d) (on_card U e)"; simp only: option.case; auto)
qed

text \<open>A reversal finds no row of the owner, or lowers the counter of that row.\<close>

lemma reverseCap_row:
  assumes "reverseCap P U d e = Inr (d', r)"
  obtains "d' = d" "cap_units P d (on_card U e) = 0"
  | row old where "map_of (db_cap_states d) (on_card U e) = Some old" "ct_profile old = P"
    "d' = d\<lparr>db_cap_states := mset_put (on_card U e) row (db_cap_states d)\<rparr>"
    "row = old\<lparr>ct_consumed := max 0 (ct_consumed old - cents e)\<rparr>"
proof (cases "map_of (db_cap_states d) (on_card U e)")
  case None
  then show ?thesis using assms that(1) by (simp add: reverseCap_def on_card_fold cap_units_def)
next
  case (Some old)
  show ?thesis
  proof (cases "ct_profile old = P")
    case False
    then show ?thesis using assms Some that(1) by (simp add: reverseCap_def on_card_fold cap_units_def)
  next
    case True
    obtain c where c: "hundredths (en_delta e) = Inr c"
      using assms Some True by (auto simp: reverseCap_def Let_def on_card_fold ebind_eq_Inr)
    show ?thesis
      by (rule that(2)[OF Some True]) (use assms Some True c hundredths_cents[OF c] in \<open>auto simp: reverseCap_def Let_def on_card_fold ebind_eq_Inr\<close>)
  qed
qed

lemma reverseMilestone_row:
  assumes "reverseMilestone P U d e = Inr (d', r)"
  obtains "d' = d" "milestone_units P d (on_card U e) = 0"
  | row old where "map_of (db_milestone_states d) (on_card U e) = Some old" "mt_profile old = P"
    "d' = d\<lparr>db_milestone_states := mset_put (on_card U e) row (db_milestone_states d)\<rparr>"
    "row = old\<lparr>mt_qualified := max 0 (mt_qualified old - cents e)\<rparr>"
proof (cases "map_of (db_milestone_states d) (on_card U e)")
  case None
  then show ?thesis using assms that(1) by (simp add: reverseMilestone_def on_card_fold milestone_units_def)
next
  case (Some old)
  show ?thesis
  proof (cases "mt_profile old = P")
    case False
    then show ?thesis using assms Some that(1) by (simp add: reverseMilestone_def on_card_fold milestone_units_def)
  next
    case True
    obtain c where c: "hundredths (en_delta e) = Inr c"
      using assms Some True by (auto simp: reverseMilestone_def Let_def on_card_fold ebind_eq_Inr)
    show ?thesis
      by (rule that(2)[OF Some True]) (use assms Some True c hundredths_cents[OF c] in \<open>auto simp: reverseMilestone_def Let_def on_card_fold ebind_eq_Inr\<close>)
  qed
qed

lemma reverseFee_row:
  assumes "reverseFee P U d e = Inr (d', r)"
  obtains "d' = d" "fee_units P d (on_card U e) = 0"
  | row old where "map_of (db_fee_states d) (on_card U e) = Some old" "ft_profile old = P"
    "d' = d\<lparr>db_fee_states := mset_put (on_card U e) row (db_fee_states d)\<rparr>"
    "ft_qualified row = max 0 (ft_qualified old - cents e)" "ft_profile row = P"
proof (cases "map_of (db_fee_states d) (on_card U e)")
  case None
  then show ?thesis using assms that(1) by (simp add: reverseFee_def on_card_fold fee_units_def)
next
  case (Some old)
  show ?thesis
  proof (cases "ft_profile old = P")
    case False
    then show ?thesis using assms Some that(1) by (simp add: reverseFee_def on_card_fold fee_units_def)
  next
    case True
    obtain c where c: "hundredths (en_delta e) = Inr c"
      using assms Some True by (auto simp: reverseFee_def Let_def on_card_fold ebind_eq_Inr)
    show ?thesis
      by (rule that(2)[OF Some True, of "settleFeeWaiver (old\<lparr>ft_qualified := max 0 (ft_qualified old - cents e)\<rparr>) (fee_threshold d (en_id e))"]) (use assms Some True c hundredths_cents[OF c] in \<open>auto simp: reverseFee_def Let_def on_card_fold ebind_eq_Inr\<close>)
  qed
qed

text \<open>Each write meets the contract.\<close>

interpretation cap_post: clamped_rows "cap_units P" "cap_alien P" but_caps "\<lambda>al e. \<not> al (on_card (v_userCardId v2) e)"
  "on_card (v_userCardId v2)" cents "applyCapEntry P v2" for P v2
  by standard (drule applyCapEntry_row, elim exE conjE; fastforce simp: table_defs fun_eq_iff split: option.splits if_splits)+

interpretation milestone_post: clamped_rows "milestone_units P" "milestone_alien P" but_milestones "\<lambda>al e. \<not> al (on_card U e)"
  "on_card U" cents "upsertMilestone P U" for P U
  by standard (drule upsertMilestone_row, elim exE conjE; fastforce simp: table_defs fun_eq_iff split: option.splits if_splits)+

interpretation fee_post: clamped_rows "fee_units P" "fee_alien P" but_fees "\<lambda>al a. \<not> al (on_card U (snd a))"
  "\<lambda>a. on_card U (snd a)" "\<lambda>a. cents (snd a)" "\<lambda>d (th, e). upsertFee P U th d e" for P U
  by standard (clarify, drule upsertFee_row, elim exE conjE; fastforce simp: table_defs fun_eq_iff split: option.splits if_splits)+

interpretation cap_undo: clamped_rows "cap_units P" "cap_alien P" but_caps "\<lambda>al e. 0 \<le> cents e"
  "on_card U" "\<lambda>e. - cents e" "reverseCap P U" for P U
  by standard (erule reverseCap_row; fastforce simp: table_defs fun_eq_iff split: option.splits if_splits)+

interpretation milestone_undo: clamped_rows "milestone_units P" "milestone_alien P" but_milestones "\<lambda>al e. 0 \<le> cents e"
  "on_card U" "\<lambda>e. - cents e" "reverseMilestone P U" for P U
  by standard (erule reverseMilestone_row; fastforce simp: table_defs fun_eq_iff split: option.splits if_splits)+

interpretation fee_undo: clamped_rows "fee_units P" "fee_alien P" but_fees "\<lambda>al e. 0 \<le> cents e"
  "on_card U" "\<lambda>e. - cents e" "reverseFee P U" for P U
  by standard (erule reverseFee_row; fastforce simp: table_defs fun_eq_iff split: option.splits if_splits)+


section \<open>Records\<close>

text \<open>What a record says its card's counter at a key holds on behalf of its transaction.\<close>

definition claimed :: "(state_record \<Rightarrow> entry list) \<Rightarrow> state_record option \<Rightarrow> state_key \<Rightarrow> int" where
  "claimed sec rec k = (case rec of None \<Rightarrow> 0 | Some r \<Rightarrow> shifted (on_card (sr_user_card_id r)) cents (sec r) k)"

definition record_entries :: "state_record option \<Rightarrow> entry list" where
  "record_entries rec = (case rec of None \<Rightarrow> [] | Some r \<Rightarrow> sr_caps r @ sr_milestones r @ sr_fee_waivers r)"

definition sane :: "state_record option \<Rightarrow> bool" where
  "sane rec \<longleftrightarrow> (\<forall>e \<in> set (record_entries rec). 0 \<le> cents e)"

lemma claimed_None [simp]: "claimed sec None k = 0"
  by (simp add: claimed_def)

lemma sane_claimed:
  "sane rec \<Longrightarrow> 0 \<le> claimed sr_caps rec k \<and> 0 \<le> claimed sr_milestones rec k \<and> 0 \<le> claimed sr_fee_waivers rec k"
  by (auto simp: sane_def record_entries_def claimed_def intro!: shifted_nonneg split: option.splits)

text \<open>Everything of the tables but the three counter tables.\<close>

definition but_counters :: "db \<Rightarrow> db" where
  "but_counters d = d\<lparr>db_cap_states := [], db_milestone_states := [], db_fee_states := []\<rparr>"

definition counters :: "string \<Rightarrow> db \<Rightarrow> (state_key \<Rightarrow> int) \<times> (state_key \<Rightarrow> int) \<times> (state_key \<Rightarrow> int)" where
  "counters P d = (cap_units P d, milestone_units P d, fee_units P d)"

definition aliens :: "string \<Rightarrow> db \<Rightarrow> (state_key \<Rightarrow> bool) \<times> (state_key \<Rightarrow> bool) \<times> (state_key \<Rightarrow> bool)" where
  "aliens P d = (cap_alien P d, milestone_alien P d, fee_alien P d)"

lemma but_caps_eq: "but_caps d' = but_caps d \<Longrightarrow> but_counters d' = but_counters d \<and> milestone_units P d' = milestone_units P d
    \<and> fee_units P d' = fee_units P d \<and> milestone_alien P d' = milestone_alien P d \<and> fee_alien P d' = fee_alien P d"
  and but_milestones_eq: "but_milestones d' = but_milestones d \<Longrightarrow> but_counters d' = but_counters d \<and> cap_units P d' = cap_units P d
    \<and> fee_units P d' = fee_units P d \<and> cap_alien P d' = cap_alien P d \<and> fee_alien P d' = fee_alien P d
    \<and> db_cap_states d' = db_cap_states d"
  and but_fees_eq: "but_fees d' = but_fees d \<Longrightarrow> but_counters d' = but_counters d \<and> milestone_units P d' = milestone_units P d
    \<and> cap_units P d' = cap_units P d \<and> milestone_alien P d' = milestone_alien P d \<and> cap_alien P d' = cap_alien P d
    \<and> db_cap_states d' = db_cap_states d"
  by (cases d; cases d'; simp add: table_defs but_counters_def fun_eq_iff)+

text \<open>Reversing a record takes exactly what it claims off the counters.\<close>

lemma reverseRecord_counters:
  assumes "reverseRecord P rec d = Inr (d', ups)" and "sane rec"
  shows "but_counters d' = but_counters d \<and> aliens P d' = aliens P d
    \<and> (claimed sr_caps rec k \<le> cap_units P d k \<longrightarrow> cap_units P d' k = cap_units P d k - claimed sr_caps rec k)
    \<and> (claimed sr_milestones rec k \<le> milestone_units P d k \<longrightarrow>
        milestone_units P d' k = milestone_units P d k - claimed sr_milestones rec k)
    \<and> (claimed sr_fee_waivers rec k \<le> fee_units P d k \<longrightarrow> fee_units P d' k = fee_units P d k - claimed sr_fee_waivers rec k)"
proof (cases rec)
  case None
  then show ?thesis using assms(1) by (simp add: reverseRecord_def)
next
  case (Some r)
  let ?U = "sr_user_card_id r"
  obtain d1 d2 c m f where c: "upsertAll (reverseCap P ?U) d (sr_caps r) = Inr (d1, c)"
    and m: "upsertAll (reverseMilestone P ?U) d1 (sr_milestones r) = Inr (d2, m)"
    and f: "upsertAll (reverseFee P ?U) d2 (sr_fee_waivers r) = Inr (d', f)"
    using assms(1) Some by (auto simp: reverseRecord_def ebind_eq_Inr)
  have s: "\<forall>e \<in> set (sr_caps r). 0 \<le> cents e" "\<forall>e \<in> set (sr_milestones r). 0 \<le> cents e"
    "\<forall>e \<in> set (sr_fee_waivers r). 0 \<le> cents e"
    using assms(2) Some by (auto simp: sane_def record_entries_def)
  note nn = sane_claimed[OF assms(2), of k]
  note fr = cap_undo.all_frame[OF c s(1), THEN conjunct1, THEN but_caps_eq[of _ _ P]]
    milestone_undo.all_frame[OF m s(2), THEN conjunct1, THEN but_milestones_eq[of _ _ P]]
    fee_undo.all_frame[OF f s(3), THEN conjunct1, THEN but_fees_eq[of _ _ P]]
  note al = cap_undo.all_frame[OF c s(1), THEN conjunct2]
    milestone_undo.all_frame[OF m s(2), THEN conjunct2] fee_undo.all_frame[OF f s(3), THEN conjunct2]
  have n: "(\<forall>e \<in> set es. 0 \<le> - cents e) \<or> (\<forall>e \<in> set es. - cents e \<le> 0)" if "\<forall>e \<in> set es. 0 \<le> cents e" for es
    using that by simp
  have "claimed sr_caps rec k \<le> cap_units P d k \<Longrightarrow> cap_units P d1 k = cap_units P d k - claimed sr_caps rec k"
    using cap_undo.all_val[OF c s(1) n[OF s(1)], of k] nn by (simp add: claimed_def Some shifted_minus)
  moreover have "claimed sr_milestones rec k \<le> milestone_units P d1 k \<Longrightarrow>
      milestone_units P d2 k = milestone_units P d1 k - claimed sr_milestones rec k"
    using milestone_undo.all_val[OF m s(2) n[OF s(2)], of k] nn by (simp add: claimed_def Some shifted_minus)
  moreover have "claimed sr_fee_waivers rec k \<le> fee_units P d2 k \<Longrightarrow>
      fee_units P d' k = fee_units P d2 k - claimed sr_fee_waivers rec k"
    using fee_undo.all_val[OF f s(3) n[OF s(3)], of k] nn by (simp add: claimed_def Some shifted_minus)
  ultimately show ?thesis using fr al by (simp add: aliens_def)
qed


section \<open>What is posted is what is recorded\<close>

lemma jround_money: "jround z / Fin 100 = Fin y \<Longrightarrow> \<exists>K. Fin y = of_money K"
  by (cases z; simp add: of_money_def) metis

lemma zero_money: "\<exists>K. Fin 0 = of_money K"
  by (rule exI[of _ 0]) (simp add: of_money_def)

lemma rounded_money: "round2 x = Fin y \<or> round2s x = Fin y \<Longrightarrow> \<exists>K. Fin y = of_money K"
  using jround_money[of "x * Fin 100 + PAISE_EPS" y]
    jround_money[of "x * Fin 100 + (if Fin 0 \<le> x then PAISE_EPS else - PAISE_EPS)" y] zero_money
  unfolding round2_def round2s_def by (cases "is_finite x") (simp_all only: if_True if_False jsnum.inject, auto)

text \<open>A rounded amount that fits its column is stored exactly, and rounding it again changes nothing.\<close>

lemma posted_amount:
  assumes "hundredths v = Inr c" and "c < 10 ^ 12" and "v = round2 x \<or> v = round2s x" and "nn v"
  shows "0 \<le> c \<and> v = of_money c"
proof -
  obtain y where y: "v = Fin y" using assms(1) by (cases v) (auto simp: hundredths_def)
  have y0: "0 \<le> y" using assms(4) y by simp
  have c: "c = nearest_hundredth y" using assms(1) y by (simp add: hundredths_def)
  obtain K where K: "Fin y = of_money K" using rounded_money[of x y] assms(3) y by auto
  have top: "rnd (of_int (10 ^ 12) / 100) = Fin (10 ^ 10)"
    using rnd_of_int[of "10 ^ 10"] by simp
  have "K \<le> 10 ^ 12"
  proof (rule ccontr)
    assume "\<not> K \<le> 10 ^ 12"
    then have "rnd (of_int (10 ^ 12) / 100) \<le> rnd (of_int K / 100)" by (intro rnd_mono divide_right_mono) auto
    then have "Fin (10 ^ 10) \<le> Fin y" unfolding K of_money_def top .
    then have "10 ^ 10 \<le> y" by simp
    then have "10 ^ 12 \<le> \<lfloor>y * 100 + 1 / 2\<rfloor>" by (simp add: le_floor_iff)
    then show False using c y0 assms(2) by (simp add: nearest_hundredth_def)
  qed
  moreover have "0 \<le> K"
  proof (rule ccontr)
    assume "\<not> 0 \<le> K"
    then have "rnd (of_int K / 100) \<le> rnd (- 1 / 100)" by (intro rnd_mono divide_right_mono) auto
    moreover obtain z where "of_money (- 1) = Fin z" "\<bar>z - of_int (- 1) / 100\<bar> \<le> 1 / 1000" by (rule of_money_Fin[of "- 1"]) auto
    ultimately have "Fin y \<le> Fin z" and z: "\<bar>z - of_int (- 1) / 100\<bar> \<le> 1 / 1000" using K by (simp_all add: of_money_def)
    then have "y \<le> z" by simp
    moreover have "z < 0" using z unfolding of_int_minus of_int_1 by linarith
    ultimately show False using y0 by simp
  qed
  ultimately have "c = K" using hundredths_of_money[of K] K[folded y] assms(1) by simp
  then show ?thesis using K y \<open>0 \<le> K\<close> by simp
qed

lemma recorded_cents:
  assumes "hundredths (en_delta e) = Inr (cents e)" and "cents e < 10 ^ 12"
    and "\<exists>x. en_delta e = round2 x \<or> en_delta e = round2s x" and "nn (en_delta e)"
  shows "0 \<le> cents e \<and> cents (recordEntry e) = cents e"
proof -
  obtain x where "en_delta e = round2 x \<or> en_delta e = round2s x" using assms(3) by blast
  note c = posted_amount[OF assms(1,2) this assms(4)]
  then have "round2s (en_delta e) = en_delta e" using assms(2) round2s_of_money[of "cents e"] by (metis abs_of_nonneg less_le)
  then have "recordEntry e = e\<lparr>en_amount := None, en_approximate := False\<rparr>" by (simp add: recordEntry_def)
  then show ?thesis using c by (simp add: cents_def)
qed

lemma recordEntry_on_card [simp]: "on_card U (recordEntry e) = on_card U e" "entry_key (recordEntry e) = entry_key e"
  by (simp_all add: recordEntry_def on_card_def entry_key_def)

text \<open>So a section written from posted entries claims what was posted.\<close>

lemma section_claims:
  assumes "\<forall>e \<in> set es. cents (recordEntry e) = cents e"
  shows "shifted (on_card U) cents (sortEntries (map recordEntry es)) k = shifted (on_card U) cents es k"
proof -
  have "shifted (on_card U) cents (map recordEntry es) k = shifted (on_card U) cents es k"
    using assms by (induction es) (auto simp: shifted_map comp_def)
  then show ?thesis using shifted_perm[of "jsort entry_le (map recordEntry es)" "map recordEntry es" "on_card U" cents k]
    by (simp add: sortEntries_def)
qed

lemma toRecord_claims:
  assumes "\<forall>e \<in> set (caps @ miles @ fees). cents (recordEntry e) = cents e"
  shows "claimed sr_caps (toRecord U caps miles fees) k = shifted (on_card U) cents caps k"
    "claimed sr_milestones (toRecord U caps miles fees) k = shifted (on_card U) cents miles k"
    "claimed sr_fee_waivers (toRecord U caps miles fees) k = shifted (on_card U) cents fees k"
  using assms section_claims[of caps U k] section_claims[of miles U k] section_claims[of fees U k]
  by (auto simp: toRecord_def Let_def claimed_def sortEntries_def)

lemma toRecord_sane:
  "\<forall>e \<in> set (caps @ miles @ fees). 0 \<le> cents (recordEntry e) \<Longrightarrow> sane (toRecord U caps miles fees)"
  by (auto simp: toRecord_def Let_def sane_def record_entries_def sortEntries_def)

text \<open>Running a list of writes: what each write keeps, all keep, and every write happened.\<close>

lemma upsertAll_each:
  assumes "upsertAll f d as = Inr (d', rs)" and "Q d"
    and "\<And>d a d' r. a \<in> set as \<Longrightarrow> Q d \<Longrightarrow> f d a = Inr (d', r) \<Longrightarrow> Q d'"
  shows "Q d' \<and> (\<forall>a \<in> set as. \<exists>b b' r. Q b \<and> f b a = Inr (b', r))"
  using assms
proof (induction as arbitrary: d rs)
  case Nil
  then show ?case by simp
next
  case (Cons a as)
  obtain d1 r rs' where m: "f d a = Inr (d1, r)" and u: "upsertAll f d1 as = Inr (d', rs')"
    using Cons.prems(1) by (auto simp: ebind_eq_Inr)
  have "Q d1" using Cons.prems(3)[OF _ Cons.prems(2) m] by simp
  then have "Q d' \<and> (\<forall>a \<in> set as. \<exists>b b' r. Q b \<and> f b a = Inr (b', r))"
    using Cons.IH[OF u] Cons.prems(3) by (meson list.set_intros(2))
  then show ?case using m Cons.prems(2) by auto
qed

end
