(* ===== verification/CardInvariant.thy ===== *)
theory CardInvariant
  imports CardBooks
begin

text \<open>
  The invariant \<open>card_state_v2.js\<close> documents: the value of a cap, milestone or fee-waiver row of a
  second-generation card is the sum of the matching entries in the records of its transactions.
  Recording and reversing keep it, a reversal undoes a recording, and recording twice counts once.
\<close>

section \<open>The invariant\<close>

definition recorded :: "string \<Rightarrow> (state_record \<Rightarrow> entry list) \<Rightarrow> db \<Rightarrow> state_key \<Rightarrow> int" where
  "recorded P sec d k = (\<Sum>t\<leftarrow>db_txns d. if tx_profile_id t = P then claimed sec (tx_card_state_v2 t) k else 0)"

text \<open>A card of the profile: its rows are the profile's, and its cap rows say their unit.\<close>

definition own_rows :: "string \<Rightarrow> db \<Rightarrow> string \<Rightarrow> bool" where
  "own_rows P d U \<longleftrightarrow> (\<forall>i s. \<not> cap_alien P d (U, i, s) \<and> \<not> milestone_alien P d (U, i, s) \<and> \<not> fee_alien P d (U, i, s)
     \<and> (\<forall>r. map_of (db_cap_states d) (U, i, s) = Some r \<longrightarrow> ct_kind r \<noteq> None))"

definition balanced :: "string \<Rightarrow> db \<Rightarrow> string \<Rightarrow> bool" where
  "balanced P d U \<longleftrightarrow> (\<forall>i s. cap_units P d (U, i, s) = recorded P sr_caps d (U, i, s)
     \<and> milestone_units P d (U, i, s) = recorded P sr_milestones d (U, i, s)
     \<and> fee_units P d (U, i, s) = recorded P sr_fee_waivers d (U, i, s))"

definition well_kept :: "string \<Rightarrow> db \<Rightarrow> bool" where
  "well_kept P d \<longleftrightarrow> distinct (map tx_id (db_txns d))
     \<and> (\<forall>t \<in> set (db_txns d). tx_profile_id t = P \<longrightarrow> sane (tx_card_state_v2 t))"

text \<open>The books of a profile for a set of its cards.\<close>

definition books :: "string \<Rightarrow> string set \<Rightarrow> db \<Rightarrow> bool" where
  "books P cards d \<longleftrightarrow> well_kept P d \<and> (\<forall>U \<in> cards. own_rows P d U \<and> balanced P d U)"

lemma find_distinct:
  assumes "distinct (map tx_id ts)" and "t \<in> set ts" and "owned_txn i P t"
  shows "find (owned_txn i P) ts = Some t"
  using assms by (induction ts) (auto simp: owned_txn_def)

lemma update_txn_none: "find (owned_txn i P) (db_txns d) = None \<Longrightarrow> update_txn i P f d = d"
  by (simp add: update_txn_def find_None_iff map_idI)

lemma recorded_update:
  assumes "distinct (map tx_id ts)" and "find (owned_txn i P) ts = Some t"
    and "\<And>t. tx_profile_id (f t) = tx_profile_id t"
  shows "(\<Sum>t\<leftarrow>map (\<lambda>t. if owned_txn i P t then f t else t) ts. if tx_profile_id t = P then claimed sec (tx_card_state_v2 t) k else 0)
    = (\<Sum>t\<leftarrow>ts. if tx_profile_id t = P then claimed sec (tx_card_state_v2 t) k else 0)
      - claimed sec (tx_card_state_v2 t) k + claimed sec (tx_card_state_v2 (f t)) k"
  using assms(1,2)
proof (induction ts)
  case Nil
  then show ?case by simp
next
  case (Cons x ts)
  show ?case
  proof (cases "owned_txn i P x")
    case True
    then have "map (\<lambda>t. if owned_txn i P t then f t else t) ts = ts"
      using Cons.prems(1) by (intro map_idI) (auto simp: owned_txn_def image_iff)
    then show ?thesis using True Cons.prems(2) assms(3) by (auto simp: owned_txn_def)
  next
    case False
    then show ?thesis using Cons.IH Cons.prems by simp
  qed
qed

lemma recorded_update_txn:
  assumes "well_kept P d" and "find (owned_txn i P) (db_txns d) = Some t" and "\<And>t. tx_profile_id (f t) = tx_profile_id t"
  shows "recorded P sec (update_txn i P f d) k
    = recorded P sec d k - claimed sec (tx_card_state_v2 t) k + claimed sec (tx_card_state_v2 (f t)) k"
  using recorded_update[of "db_txns d" i P t f sec k] assms by (simp add: recorded_def update_txn_def well_kept_def)

text \<open>One record claims no more than all of them.\<close>

lemma sum_list_ge_member: "x \<in> set xs \<Longrightarrow> \<forall>y \<in> set xs. 0 \<le> f y \<Longrightarrow> f x \<le> (\<Sum>y\<leftarrow>xs. f y :: int)"
  by (induction xs) (auto intro: order_trans add_increasing intro!: sum_list_nonneg)

lemma claimed_nonneg: "sane rec \<Longrightarrow> sec \<in> {sr_caps, sr_milestones, sr_fee_waivers} \<Longrightarrow> 0 \<le> claimed sec rec k"
  using sane_claimed[of rec k] by auto

lemma recorded_ge:
  assumes "well_kept P d" and "t \<in> set (db_txns d)" and "tx_profile_id t = P"
    and "sec \<in> {sr_caps, sr_milestones, sr_fee_waivers}"
  shows "claimed sec (tx_card_state_v2 t) k \<le> recorded P sec d k"
proof -
  let ?f = "\<lambda>t. if tx_profile_id t = P then claimed sec (tx_card_state_v2 t) k else 0"
  have "\<forall>t \<in> set (db_txns d). 0 \<le> ?f t" using assms(1,4) claimed_nonneg by (simp add: well_kept_def)
  then show ?thesis using sum_list_ge_member[OF assms(2), of ?f] assms(3) by (simp add: recorded_def)
qed

lemma find_member: "find Q xs = Some x \<Longrightarrow> x \<in> set xs \<and> Q x"
  by (auto simp: find_Some_iff)

lemma sane_None [simp]: "sane None"
  by (simp add: sane_def record_entries_def)

lemma stored_record_sane: "well_kept P d \<Longrightarrow> sane (stored_record d i P)"
  using find_member[of "owned_txn i P" "db_txns d"]
  by (cases "find (owned_txn i P) (db_txns d)") (auto simp: stored_record_def well_kept_def owned_txn_def)

lemma stored_record_le:
  assumes "well_kept P d" and "sec \<in> {sr_caps, sr_milestones, sr_fee_waivers}"
  shows "claimed sec (stored_record d i P) k \<le> recorded P sec d k"
proof (cases "find (owned_txn i P) (db_txns d)")
  case None
  have "\<forall>t \<in> set (db_txns d). tx_profile_id t = P \<longrightarrow> 0 \<le> claimed sec (tx_card_state_v2 t) k"
    using assms claimed_nonneg unfolding well_kept_def by blast
  then have "0 \<le> recorded P sec d k" unfolding recorded_def by (intro sum_list_nonneg) auto
  then show ?thesis by (simp add: stored_record_def None)
next
  case (Some t)
  then have "t \<in> set (db_txns d)" "tx_profile_id t = P" by (auto dest!: find_member simp: owned_txn_def)
  then show ?thesis using recorded_ge[OF assms(1) _ _ assms(2)] by (simp add: stored_record_def Some)
qed

text \<open>Cap rows keep their unit through reversals.\<close>

definition native_rows :: "string \<Rightarrow> db \<Rightarrow> bool" where
  "native_rows U d \<longleftrightarrow> (\<forall>i s r. map_of (db_cap_states d) (U, i, s) = Some r \<longrightarrow> ct_kind r \<noteq> None)"

lemma own_rows_alt: "own_rows P d U \<longleftrightarrow> native_rows U d \<and> (\<forall>i s. \<not> cap_alien P d (U, i, s)
    \<and> \<not> milestone_alien P d (U, i, s) \<and> \<not> fee_alien P d (U, i, s))"
  by (auto simp: own_rows_def native_rows_def)

lemma reverseCap_native: "reverseCap P U' d e = Inr (d', r) \<Longrightarrow> native_rows U d \<Longrightarrow> native_rows U d'"
  by (erule reverseCap_row) (auto simp: native_rows_def on_card_def)

lemma but_counters_fields:
  "but_counters d' = but_counters d \<Longrightarrow> db_txns d' = db_txns d \<and> db_ledger d' = db_ledger d \<and> db_user_cards d' = db_user_cards d
    \<and> db_rules d' = db_rules d \<and> db_caps d' = db_caps d \<and> db_milestones d' = db_milestones d \<and> db_fee_rules d' = db_fee_rules d"
  by (cases d; cases d'; simp add: but_counters_def)

lemma reverseRecord_native:
  assumes "reverseRecord P rec d = Inr (d', ups)" and "sane rec" and "native_rows U d"
  shows "native_rows U d'"
proof (cases rec)
  case None
  then show ?thesis using assms by (simp add: reverseRecord_def)
next
  case (Some r)
  let ?V = "sr_user_card_id r"
  obtain d1 d2 c m f where c: "upsertAll (reverseCap P ?V) d (sr_caps r) = Inr (d1, c)"
    and m: "upsertAll (reverseMilestone P ?V) d1 (sr_milestones r) = Inr (d2, m)"
    and f: "upsertAll (reverseFee P ?V) d2 (sr_fee_waivers r) = Inr (d', f)"
    using assms(1) Some by (auto simp: reverseRecord_def ebind_eq_Inr)
  have s: "\<forall>e \<in> set (sr_milestones r). 0 \<le> cents e" "\<forall>e \<in> set (sr_fee_waivers r). 0 \<le> cents e"
    using assms(2) Some by (auto simp: sane_def record_entries_def)
  have "native_rows U d1" using upsertAll_each[OF c, of "native_rows U"] assms(3) reverseCap_native by blast
  moreover have "db_cap_states d' = db_cap_states d1"
    using but_fees_eq[OF fee_undo.all_frame[OF f s(2), THEN conjunct1]] but_milestones_eq[OF milestone_undo.all_frame[OF m s(1), THEN conjunct1]] by simp
  ultimately show ?thesis by (simp add: native_rows_def)
qed


section \<open>Reversing\<close>

text \<open>The counters and their cards depend on the counter tables alone; a ledger row or a transaction's other fields do not.\<close>

lemma units_update [simp]:
  "cap_units P (update_txn i Q f d) = cap_units P d" "milestone_units P (update_txn i Q f d) = milestone_units P d"
  "fee_units P (update_txn i Q f d) = fee_units P d" "own_rows P (update_txn i Q f d) U = own_rows P d U"
  "cap_units P (delete_ledger i Q d) = cap_units P d" "milestone_units P (delete_ledger i Q d) = milestone_units P d"
  "fee_units P (delete_ledger i Q d) = fee_units P d" "own_rows P (delete_ledger i Q d) U = own_rows P d U"
  "recorded P sec (delete_ledger i Q d) = recorded P sec d" "well_kept P (delete_ledger i Q d) = well_kept P d"
  "db_txns (delete_ledger i Q d) = db_txns d"
  by (simp_all add: update_txn_def delete_ledger_def table_defs own_rows_def recorded_def well_kept_def fun_eq_iff)

lemma well_kept_update:
  assumes "well_kept P d" and "\<And>t. tx_profile_id (f t) = tx_profile_id t \<and> tx_id (f t) = tx_id t"
    and "\<And>t. sane (tx_card_state_v2 (f t))"
  shows "well_kept P (update_txn i P f d)"
proof -
  have "map tx_id (map (\<lambda>t. if owned_txn i P t then f t else t) (db_txns d)) = map tx_id (db_txns d)"
    using assms(2) by simp
  then show ?thesis using assms by (auto simp: well_kept_def update_txn_def simp del: map_map)
qed

lemma recorded_cong: "db_txns d' = db_txns d \<Longrightarrow> recorded P sec d' = recorded P sec d"
  "db_txns d' = db_txns d \<Longrightarrow> well_kept P d' = well_kept P d"
  by (simp_all add: recorded_def well_kept_def fun_eq_iff)

text \<open>What reversing a stored record leaves on balanced books, before the record itself is dropped.\<close>

lemma reverse_stored:
  assumes "books P cards d" and "reverseRecord P (stored_record d i P) d = Inr (d', ups)" and "U \<in> cards"
  shows "db_txns d' = db_txns d \<and> db_ledger d' = db_ledger d \<and> but_counters d' = but_counters d \<and> well_kept P d' \<and> own_rows P d' U"
    and "cap_units P d' (U, x, s) = recorded P sr_caps d (U, x, s) - claimed sr_caps (stored_record d i P) (U, x, s)"
    and "milestone_units P d' (U, x, s) = recorded P sr_milestones d (U, x, s) - claimed sr_milestones (stored_record d i P) (U, x, s)"
    and "fee_units P d' (U, x, s) = recorded P sr_fee_waivers d (U, x, s) - claimed sr_fee_waivers (stored_record d i P) (U, x, s)"
proof -
  have wk: "well_kept P d" and own: "own_rows P d U" and bal: "balanced P d U" using assms(1,3) by (auto simp: books_def)
  note sn = stored_record_sane[OF wk, of i]
  note rc = reverseRecord_counters[OF assms(2) sn, of "(U, x, s)"]
  note fl = but_counters_fields[OF rc[THEN conjunct1]]
  have "native_rows U d'" using reverseRecord_native[OF assms(2) sn] own by (simp add: own_rows_alt)
  then have "own_rows P d' U" using rc own by (simp add: own_rows_alt aliens_def)
  then show "db_txns d' = db_txns d \<and> db_ledger d' = db_ledger d \<and> but_counters d' = but_counters d \<and> well_kept P d' \<and> own_rows P d' U"
    using fl rc wk recorded_cong(2)[of d' d P] by simp
  have le: "claimed sec (stored_record d i P) (U, x, s) \<le> recorded P sec d (U, x, s)"
    if "sec \<in> {sr_caps, sr_milestones, sr_fee_waivers}" for sec
    by (rule stored_record_le[OF wk that])
  show "cap_units P d' (U, x, s) = recorded P sr_caps d (U, x, s) - claimed sr_caps (stored_record d i P) (U, x, s)"
    "milestone_units P d' (U, x, s) = recorded P sr_milestones d (U, x, s) - claimed sr_milestones (stored_record d i P) (U, x, s)"
    "fee_units P d' (U, x, s) = recorded P sr_fee_waivers d (U, x, s) - claimed sr_fee_waivers (stored_record d i P) (U, x, s)"
    using rc bal le[of sr_caps] le[of sr_milestones] le[of sr_fee_waivers] by (auto simp: balanced_def)
qed

lemma reverse_core:
  assumes "books P cards d" and "reverseTransactionV2 P i d = Inr (d', ups)"
  shows "books P cards d' \<and> (\<forall>sec k. recorded P sec d' k = recorded P sec d k - claimed sec (stored_record d i P) k)"
proof -
  obtain d1 where r: "reverseRecord P (stored_record d i P) d = Inr (d1, ups)"
    and d': "d' = delete_ledger i P (update_txn i P zero_expected d1)"
    using assms(2) by (auto simp: reverseTransactionV2_def ebind_eq_Inr)
  have wk: "well_kept P d" using assms(1) by (simp add: books_def)
  have fl: "db_txns d1 = db_txns d"
    using reverseRecord_counters[OF r stored_record_sane[OF wk]] but_counters_fields by blast
  then have wk1: "well_kept P d1" using wk recorded_cong(2) by blast
  have z: "tx_profile_id (zero_expected t) = tx_profile_id t \<and> tx_id (zero_expected t) = tx_id t"
    "tx_card_state_v2 (zero_expected t) = None" for t
    by (simp_all add: zero_expected_def)
  have rec: "recorded P sec d' k = recorded P sec d k - claimed sec (stored_record d i P) k" for sec k
  proof (cases "find (owned_txn i P) (db_txns d)")
    case None
    then have "update_txn i P zero_expected d1 = d1" using fl by (intro update_txn_none) simp
    then show ?thesis using None recorded_cong(1)[OF fl] by (simp add: d' stored_record_def)
  next
    case (Some t)
    then show ?thesis
      using recorded_update_txn[OF wk1, of i t zero_expected sec k] fl z recorded_cong(1)[OF fl, of P sec]
      by (simp add: d' stored_record_def)
  qed
  show ?thesis
    unfolding books_def
  proof (intro conjI ballI allI rec)
    show "well_kept P d'" using well_kept_update[OF wk1, of zero_expected i] z by (simp add: d')
    fix U assume U: "U \<in> cards"
    note rs = reverse_stored[OF assms(1) r U]
    show "own_rows P d' U" using rs(1) by (simp add: d')
    show "balanced P d' U" using rs(2,3,4) rec by (simp add: balanced_def d')
  qed
qed


section \<open>Recording\<close>

text \<open>
  A table written by upserts of one card: the delta is a number of hundredths and the counter stays
  in its column, so rounded nonnegative deltas are counted and recorded as the same integers.
\<close>

locale posted_rows =
  clamped_rows val alien rest "\<lambda>al a. \<not> al (on_card U (ent a))" "\<lambda>a. on_card U (ent a)" "\<lambda>a. cents (ent a)" move
  for val :: "db \<Rightarrow> state_key \<Rightarrow> int" and alien :: "db \<Rightarrow> state_key \<Rightarrow> bool" and rest :: "db \<Rightarrow> 'f"
    and U :: string and ent :: "'a \<Rightarrow> entry" and move :: "db \<Rightarrow> 'a \<Rightarrow> state_error + db \<times> 'r" +
  assumes move_fits: "move d a = Inr (d', r) \<Longrightarrow> \<not> alien d (on_card U (ent a)) \<Longrightarrow>
      hundredths (en_delta (ent a)) = Inr (cents (ent a)) \<and> val d' (on_card U (ent a)) < 10 ^ 12"
begin

lemma all_posted:
  assumes u: "upsertAll move d as = Inr (d', rs)" and own: "\<forall>i s. \<not> alien d (U, i, s) \<and> 0 \<le> val d (U, i, s)"
    and amounts: "\<forall>a \<in> set as. (\<exists>x. en_delta (ent a) = round2 x \<or> en_delta (ent a) = round2s x) \<and> nn (en_delta (ent a))"
  shows "(\<forall>a \<in> set as. 0 \<le> cents (ent a) \<and> cents (recordEntry (ent a)) = cents (ent a)) \<and> rest d' = rest d \<and> alien d' = alien d
    \<and> (\<forall>k. 0 \<le> val d k \<longrightarrow> val d' k = val d k + shifted (on_card U) cents (map ent as) k)"
proof -
  define Q where "Q d \<longleftrightarrow> (\<forall>i s. \<not> alien d (U, i, s) \<and> 0 \<le> val d (U, i, s))" for d
  have key: "\<not> alien d (on_card U e) \<and> 0 \<le> val d (on_card U e)" if "Q d" for d e
    using that by (simp add: Q_def on_card_def)
  have keep: "Q d2" if q: "Q d1" and m: "move d1 a = Inr (d2, r)" for d1 d2 a r
  proof -
    note k = key[OF q, of "ent a", THEN conjunct1]
    have "alien d2 = alien d1" using move_frame[OF m k] by simp
    then show ?thesis using q unfolding Q_def move_val[OF m k] by simp
  qed
  have ev: "\<forall>a \<in> set as. \<exists>b b' r. Q b \<and> move b a = Inr (b', r)"
    using upsertAll_each[OF u, of Q, OF own[folded Q_def] keep] by (rule conjunct2)
  have ok: "0 \<le> cents (ent a) \<and> cents (recordEntry (ent a)) = cents (ent a)" if a: "a \<in> set as" for a
  proof -
    obtain b b' r where b: "Q b" "move b a = Inr (b', r)" using ev a by blast
    note k = key[OF b(1), of "ent a"]
    note f = move_fits[OF b(2) k[THEN conjunct1]]
    have "val b' (on_card U (ent a)) = max 0 (val b (on_card U (ent a)) + cents (ent a))"
      using move_val[OF b(2) k[THEN conjunct1]] by simp
    then have "cents (ent a) < 10 ^ 12" using f k by (simp add: max_def split: if_splits)
    then show ?thesis using recorded_cents[OF f[THEN conjunct1]] amounts a by blast
  qed
  have g: "\<forall>a \<in> set as. \<not> alien d (on_card U (ent a))" using own by (simp add: on_card_def)
  have "val d' k = val d k + shifted (on_card U) cents (map ent as) k" if "0 \<le> val d k" for k
    using all_val[OF u g _ that] ok shifted_nonneg[of as "\<lambda>a. cents (ent a)" "\<lambda>a. on_card U (ent a)" k] that
    by (simp add: shifted_map)
  then show ?thesis using ok all_frame[OF u g] by blast
qed

end

interpretation cap_posted: posted_rows "cap_units P" "cap_alien P" but_caps "v_userCardId v2" "\<lambda>e. e" "applyCapEntry P v2" for P v2
  by (rule posted_rows.intro, rule cap_post.clamped_rows_axioms, rule posted_rows_axioms.intro,
      drule applyCapEntry_row, elim exE conjE, auto simp: cap_units_def cap_alien_def split: option.splits)

interpretation milestone_posted: posted_rows "milestone_units P" "milestone_alien P" but_milestones U "\<lambda>e. e" "upsertMilestone P U" for P U
  by (rule posted_rows.intro, rule milestone_post.clamped_rows_axioms, rule posted_rows_axioms.intro,
      drule upsertMilestone_row, elim exE conjE, auto simp: milestone_units_def milestone_alien_def split: option.splits)

interpretation fee_posted: posted_rows "fee_units P" "fee_alien P" but_fees U snd "\<lambda>d (th, e). upsertFee P U th d e" for P U
  by (rule posted_rows.intro, rule fee_post.clamped_rows_axioms, rule posted_rows_axioms.intro, clarify,
      drule upsertFee_row, elim exE conjE, auto simp: fee_units_def fee_alien_def split: option.splits)


text \<open>What the entries of a recording look like.\<close>

definition sound_card :: "v2_card \<Rightarrow> bool" where
  "sound_card v2 \<longleftrightarrow> isV2Card (v_card v2) (v_rules v2) (engine_caps v2)
     \<and> (\<forall>q \<in> insert (implicitBaseRule (v_card v2)) (set (v_rules v2)). wf_rates (cardModes (v_card v2)) q (engine_caps v2))"

definition rounded_entry :: "entry \<Rightarrow> bool" where
  "rounded_entry e \<longleftrightarrow> (\<exists>x. en_delta e = round2 x \<or> en_delta e = round2s x) \<and> nn (en_delta e)"

lemma nn_round2s: "nn v \<Longrightarrow> nn (round2s v)"
proof -
  assume v: "nn v"
  have "nn PAISE_EPS" unfolding PAISE_EPS_def lit_def by (rule nn_rnd) simp
  then have "nn (jround (v * Fin 100 + PAISE_EPS) / Fin 100)" using v by (intro nn_divide nn_jround nn_plus nn_times) auto
  moreover have "is_finite v \<Longrightarrow> Fin 0 \<le> v" using v by (cases v) auto
  ultimately show ?thesis by (simp add: round2s_def)
qed

lemma map_of_member: "map_of m k = Some v \<Longrightarrow> (k, v) \<in> set m"
  by (rule map_of_SomeD)

lemma outcome_entries:
  assumes "computeTransactionV2 tz v2 dir raw consumedOf p = Inr out" and "sound_card v2" and "e \<in> set (oc_capEntries out)"
  shows "rounded_entry e \<and> en_kind e \<noteq> None"
proof -
  obtain r where r: "computeTransactionRewardV2 tz (v_card v2) (v_rules v2) (engine_caps v2)
        (ByCap (consumed_of_plan consumedOf (cp_caps p))) raw dir = Inr r"
    and es: "oc_capEntries out = List.map_filter (cap_entry r) (cp_caps p)"
    using assms(1) by (auto simp: computeTransactionV2_def lift_engine_def ebind_eq_Inr split: sum.splits)
  obtain k :: native_cap and d where d: "map_of (r2_capDeltas r) (nc_id k) = Some d" and e: "en_delta e = d" "en_kind e = Some (nc_kind k)"
  proof -
    obtain ks where "cap_entry r ks = Some e" using assms(3) es by (force simp: List.map_filter_def)
    then show ?thesis using that[of "fst ks"] by (cases ks) (auto simp: cap_entry_def split: option.splits if_splits)
  qed
  obtain x where "d = round2 x" "nn x"
    using v2_deltas[OF r _ _ map_of_member[OF d]] assms(2) by (auto simp: sound_card_def)
  then show ?thesis using e nn_round2 by (auto simp: rounded_entry_def)
qed

lemma emap_member: "emap f xs = Inr ys \<Longrightarrow> y \<in> set ys \<Longrightarrow> \<exists>x \<in> set xs. f x = Inr y"
  by (induction xs arbitrary: ys) (auto simp: ebind_eq_Inr)

lemma milestone_rounded:
  assumes "milestoneEntries tz v2 ctx excluded = Inr es" and "e \<in> set es"
  shows "rounded_entry e"
proof -
  let ?a = "to_number (rc_amount ctx)"
  obtain xs where a: "Fin 0 < ?a" and xs: "emap (milestone_entry tz v2 (or_text (rc_category_id ctx) None) (rc_occurred ctx) ?a) (v_milestones v2) = Inr xs"
    and es: "es = List.map_filter id xs"
    using assms by (auto simp: milestoneEntries_def Let_def ebind_eq_Inr split: if_splits)
  then obtain m where "milestone_entry tz v2 (or_text (rc_category_id ctx) None) (rc_occurred ctx) ?a m = Inr (Some e)"
    using emap_member[OF xs] assms(2) by (force simp: List.map_filter_def)
  then have "en_delta e = round2s ?a" by (auto simp: milestone_entry_def ebind_eq_Inr split: if_splits option.splits)
  then show ?thesis using nn_round2s[of ?a] le_nn[OF jless_imp_le[OF a]] by (auto simp: rounded_entry_def)
qed

lemma fee_rounded:
  assumes "fee_entries v2 args excluded d = Inr es" and "(th, e) \<in> set es" and "nn (to_number (aa_amount args))"
  shows "rounded_entry e"
proof -
  obtain xs where xs: "emap (fee_apply_entry v2 args) (card_fee_rules d (v_cardProductId v2)) = Inr xs" and es: "es = List.map_filter id xs"
    using assms(1,2) by (auto simp: fee_entries_def ebind_eq_Inr split: if_splits)
  then obtain rule where "fee_apply_entry v2 args rule = Inr (Some (th, e))"
    using emap_member[OF xs] assms(2) by (force simp: List.map_filter_def)
  then have "en_delta e = round2s (to_number (aa_amount args))" by (auto simp: fee_apply_entry_def ebind_eq_Inr split: if_splits)
  then show ?thesis using nn_round2s[OF assms(3)] by (auto simp: rounded_entry_def)
qed

text \<open>Without rows of the first generation nothing is rebuilt before pricing.\<close>

lemma readCapRows_native: "native_rows (v_userCardId v2) d \<Longrightarrow> \<not> snd (readCapRows d v2 p)"
proof -
  assume n: "native_rows (v_userCardId v2) d"
  define f where "f = (\<lambda>(m :: (row_key \<times> jsnum) list, stale) (k :: native_cap, s :: span).
     case map_of (db_cap_states d) (v_userCardId v2, nc_id k, sp_start s) of
       None \<Rightarrow> (m, stale)
     | Some r \<Rightarrow> if ct_profile r \<noteq> v_profileId v2 then (m, stale)
         else (mset_put (nc_id k, sp_start s) (of_money (ct_consumed r)) m, stale \<or> ct_kind r = None))"
  have "\<not> snd st \<Longrightarrow> \<not> snd (f st x)" for st x
    using n by (auto simp: f_def native_rows_def split: option.splits prod.splits)
  then have "\<not> snd st \<Longrightarrow> \<not> snd (foldl f st xs)" for st xs
    by (induction xs arbitrary: st) auto
  from this[of "([], False)" "cp_caps p"] show ?thesis by (simp add: readCapRows_def f_def)
qed

lemma current_rows_native:
  "native_rows (v_userCardId v2) d \<Longrightarrow> current_rows tz P dir v2 p args d = Inr (d, fst (readCapRows d v2 p))"
  using readCapRows_native[of v2 d p] by (cases "readCapRows d v2 p") (simp add: current_rows_def)


text \<open>The phases of a recording on a card whose rows are all of the second generation.\<close>

lemma clear_applied_reverse:
  "clear_applied P i d = Inr d0 \<Longrightarrow> \<exists>d1 ups. reverseRecord P (stored_record d i P) d = Inr (d1, ups)
     \<and> (d0 = d1 \<or> d0 = delete_ledger i P d1)"
  by (cases "stored_record d i P") (auto simp: clear_applied_def reverseRecord_def ebind_eq_Inr split: option.splits)

lemma apply_phases:
  assumes "applyTransactionV2 tz P dir v2 args d = Inr (d', ups)"
    and "\<And>d0. clear_applied P (aa_txnId args) d = Inr d0 \<Longrightarrow> native_rows (v_userCardId v2) d0"
  obtains d0 d2 d3 d4 d5 ctx p out cs miles ms fees fs ls where
    "clear_applied P (aa_txnId args) d = Inr d0"
    "ctx = arg_context args (map_option txn_row.truncate (find (owned_txn (aa_txnId args) P) (db_txns d)))"
    "capPlan tz v2 dir ctx = Inr p"
    "computeTransactionV2 tz v2 dir ctx (\<lambda>i s. mget (fst (readCapRows d0 v2 p)) (i, s) (Fin 0)) p = Inr out"
    "upsertAll (applyCapEntry P v2) d0 (oc_capEntries out) = Inr (d2, cs)"
    "milestoneEntries tz v2 ctx (oc_excluded out) = Inr miles"
    "upsertAll (upsertMilestone P (v_userCardId v2)) d2 miles = Inr (d3, ms)"
    "fee_entries v2 args (oc_excluded out) d3 = Inr fees"
    "upsertAll (\<lambda>d (th, e). upsertFee P (v_userCardId v2) th d e) d3 fees = Inr (d4, fs)"
    "finishTransaction P (aa_txnId args) out (toRecord (v_userCardId v2) (oc_capEntries out) miles (map snd fees)) d4 = Inr d5"
    "d' = d5\<lparr>db_ledger := db_ledger d5 @ ls\<rparr>"
    "ls = ledgerRows P (v_userCardId v2) (aa_txnId args) (aa_occurred args) (oc_native out)"
  using assms(1) current_rows_native[OF assms(2)]
  unfolding applyTransactionV2_def Let_def ebind_eq_Inr
  by (auto simp: ebind_eq_Inr)


lemma applyCapEntry_native:
  "applyCapEntry P v2 d e = Inr (d', r) \<Longrightarrow> en_kind e \<noteq> None \<Longrightarrow> native_rows U d \<Longrightarrow> native_rows U d'"
  by (drule applyCapEntry_row) (auto simp: native_rows_def split: if_splits)

text \<open>The three lists of upserts add exactly what will be recorded.\<close>

lemma posts_counters:
  assumes c: "upsertAll (applyCapEntry P v2) d0 ces = Inr (d2, cs)"
    and m: "upsertAll (upsertMilestone P (v_userCardId v2)) d2 miles = Inr (d3, ms)"
    and f: "upsertAll (\<lambda>d (th, e). upsertFee P (v_userCardId v2) th d e) d3 fees = Inr (d4, fs)"
    and own: "own_rows P d0 (v_userCardId v2)"
    and pos: "\<forall>x s. 0 \<le> cap_units P d0 (v_userCardId v2, x, s) \<and> 0 \<le> milestone_units P d0 (v_userCardId v2, x, s)
      \<and> 0 \<le> fee_units P d0 (v_userCardId v2, x, s)"
    and amounts: "\<forall>e \<in> set (ces @ miles @ map snd fees). rounded_entry e" and kinds: "\<forall>e \<in> set ces. en_kind e \<noteq> None"
  shows "but_counters d4 = but_counters d0 \<and> aliens P d4 = aliens P d0 \<and> (\<forall>U. native_rows U d0 \<longrightarrow> native_rows U d4)"
    and "0 \<le> cap_units P d0 k \<Longrightarrow> cap_units P d4 k = cap_units P d0 k + shifted (on_card (v_userCardId v2)) cents ces k"
    and "0 \<le> milestone_units P d0 k \<Longrightarrow>
      milestone_units P d4 k = milestone_units P d0 k + shifted (on_card (v_userCardId v2)) cents miles k"
    and "0 \<le> fee_units P d0 k \<Longrightarrow>
      fee_units P d4 k = fee_units P d0 k + shifted (on_card (v_userCardId v2)) cents (map snd fees) k"
    and "\<forall>e \<in> set (ces @ miles @ map snd fees). 0 \<le> cents e \<and> cents (recordEntry e) = cents e"
proof -
  let ?U = "v_userCardId v2"
  have "\<forall>x s. \<not> cap_alien P d0 (?U, x, s) \<and> 0 \<le> cap_units P d0 (?U, x, s)" using own pos by (simp add: own_rows_def)
  note C = cap_posted.all_posted[OF c this]
  have C': "(\<forall>e \<in> set ces. 0 \<le> cents e \<and> cents (recordEntry e) = cents e) \<and> but_caps d2 = but_caps d0 \<and> cap_alien P d2 = cap_alien P d0
      \<and> (\<forall>k. 0 \<le> cap_units P d0 k \<longrightarrow> cap_units P d2 k = cap_units P d0 k + shifted (on_card ?U) cents ces k)"
    using C amounts by (simp add: rounded_entry_def)
  note bc = but_caps_eq[OF C'[THEN conjunct2, THEN conjunct1], of P]
  have "\<forall>x s. \<not> milestone_alien P d2 (?U, x, s) \<and> 0 \<le> milestone_units P d2 (?U, x, s)" using own pos bc by (simp add: own_rows_def)
  note M = milestone_posted.all_posted[OF m this]
  have M': "(\<forall>e \<in> set miles. 0 \<le> cents e \<and> cents (recordEntry e) = cents e) \<and> but_milestones d3 = but_milestones d2
      \<and> milestone_alien P d3 = milestone_alien P d2
      \<and> (\<forall>k. 0 \<le> milestone_units P d2 k \<longrightarrow> milestone_units P d3 k = milestone_units P d2 k + shifted (on_card ?U) cents miles k)"
    using M amounts by (simp add: rounded_entry_def)
  note bm = but_milestones_eq[OF M'[THEN conjunct2, THEN conjunct1], of P]
  have "\<forall>x s. \<not> fee_alien P d3 (?U, x, s) \<and> 0 \<le> fee_units P d3 (?U, x, s)" using own pos bc bm by (simp add: own_rows_def)
  note F = fee_posted.all_posted[OF f this]
  have F': "(\<forall>a \<in> set fees. 0 \<le> cents (snd a) \<and> cents (recordEntry (snd a)) = cents (snd a)) \<and> but_fees d4 = but_fees d3
      \<and> fee_alien P d4 = fee_alien P d3
      \<and> (\<forall>k. 0 \<le> fee_units P d3 k \<longrightarrow> fee_units P d4 k = fee_units P d3 k + shifted (on_card ?U) cents (map snd fees) k)"
    using F amounts by (simp add: rounded_entry_def)
  note bf = but_fees_eq[OF F'[THEN conjunct2, THEN conjunct1], of P]
  have n: "native_rows U d4" if "native_rows U d0" for U
  proof -
    have "native_rows U d2" using upsertAll_each[OF c, of "native_rows U"] that kinds applyCapEntry_native by blast
    then show ?thesis using bm bf by (simp add: native_rows_def)
  qed
  then show "but_counters d4 = but_counters d0 \<and> aliens P d4 = aliens P d0 \<and> (\<forall>U. native_rows U d0 \<longrightarrow> native_rows U d4)"
    using C' M' F' bc bm bf by (simp add: aliens_def)
  show "0 \<le> cap_units P d0 k \<Longrightarrow> cap_units P d4 k = cap_units P d0 k + shifted (on_card ?U) cents ces k"
    using C'[THEN conjunct2, THEN conjunct2, THEN conjunct2, THEN spec, of k] bm bf by simp
  show "0 \<le> milestone_units P d0 k \<Longrightarrow> milestone_units P d4 k = milestone_units P d0 k + shifted (on_card ?U) cents miles k"
    using M'[THEN conjunct2, THEN conjunct2, THEN conjunct2, THEN spec, of k] bc bf by simp
  show "0 \<le> fee_units P d0 k \<Longrightarrow> fee_units P d4 k = fee_units P d0 k + shifted (on_card ?U) cents (map snd fees) k"
    using F'[THEN conjunct2, THEN conjunct2, THEN conjunct2, THEN spec, of k] bc bm by simp
  show "\<forall>e \<in> set (ces @ miles @ map snd fees). 0 \<le> cents e \<and> cents (recordEntry e) = cents e"
    using C' M' F' by auto
qed


lemma finishTransaction_update:
  "finishTransaction P i out rec d = Inr d' \<Longrightarrow> \<exists>f. d' = update_txn i P f d \<and> (\<forall>t. tx_profile_id (f t) = tx_profile_id t
     \<and> tx_id (f t) = tx_id t \<and> tx_card_state_v2 (f t) = rec \<and> tx_merchant_vpa (f t) = tx_merchant_vpa t \<and> tx_mcc (f t) = tx_mcc t)"
  by (fastforce simp: finishTransaction_def ebind_eq_Inr)

lemma find_updated:
  assumes "well_kept P d" and "find (owned_txn i P) (db_txns d) = Some t"
    and "\<And>t. tx_profile_id (f t) = tx_profile_id t" and "\<And>t. tx_id (f t) = tx_id t"
  shows "find (owned_txn i P) (db_txns (update_txn i P f d)) = Some (f t)"
proof (rule find_distinct)
  show "distinct (map tx_id (db_txns (update_txn i P f d)))"
    using assms by (simp add: update_txn_def well_kept_def comp_def if_distrib[of tx_id] cong: if_cong)
  have "t \<in> set (db_txns d)" "owned_txn i P t" using find_member[OF assms(2)] by simp_all
  then show "f t \<in> set (db_txns (update_txn i P f d))" "owned_txn i P (f t)"
    using assms(3,4) by (auto simp: update_txn_def owned_txn_def)
qed

lemma books_card: "books P cards d \<Longrightarrow> U \<in> cards \<Longrightarrow> own_rows P d U \<and> balanced P d U"
  by (simp add: books_def)

lemma apply_core:
  assumes bk: "books P cards d" and U: "v_userCardId v2 \<in> cards" and sound: "sound_card v2"
    and amount: "nn (to_number (aa_amount args))" and txn: "find (owned_txn (aa_txnId args) P) (db_txns d) = Some t"
    and ap: "applyTransactionV2 tz P dir v2 args d = Inr (d', ups)"
  shows "books P cards d' \<and> sane (stored_record d' (aa_txnId args) P)
    \<and> (\<forall>sec k. recorded P sec d' k = recorded P sec d k - claimed sec (tx_card_state_v2 t) k
         + claimed sec (stored_record d' (aa_txnId args) P) k)"
proof -
  let ?U = "v_userCardId v2" and ?i = "aa_txnId args"
  have wk: "well_kept P d" using bk by (simp add: books_def)
  have rec: "stored_record d ?i P = tx_card_state_v2 t" by (simp add: stored_record_def txn)
  have native0: "native_rows ?U d0" if cl: "clear_applied P ?i d = Inr d0" for d0
  proof -
    obtain d1 ups where r: "reverseRecord P (stored_record d ?i P) d = Inr (d1, ups)" and d0: "d0 = d1 \<or> d0 = delete_ledger ?i P d1"
      using clear_applied_reverse[OF cl] by auto
    show ?thesis using reverse_stored(1)[OF bk r U] d0 by (auto simp: own_rows_alt native_rows_def delete_ledger_def)
  qed
  obtain d0 d2 d3 d4 d5 ctx p out cs miles ms fees fs ls where
    cl: "clear_applied P ?i d = Inr d0" and
    out: "computeTransactionV2 tz v2 dir ctx (\<lambda>i s. mget (fst (readCapRows d0 v2 p)) (i, s) (Fin 0)) p = Inr out" and
    c: "upsertAll (applyCapEntry P v2) d0 (oc_capEntries out) = Inr (d2, cs)" and
    mi: "milestoneEntries tz v2 ctx (oc_excluded out) = Inr miles" and
    m: "upsertAll (upsertMilestone P ?U) d2 miles = Inr (d3, ms)" and
    fe: "fee_entries v2 args (oc_excluded out) d3 = Inr fees" and
    f: "upsertAll (\<lambda>d (th, e). upsertFee P ?U th d e) d3 fees = Inr (d4, fs)" and
    fin: "finishTransaction P ?i out (toRecord ?U (oc_capEntries out) miles (map snd fees)) d4 = Inr d5" and
    d': "d' = d5\<lparr>db_ledger := db_ledger d5 @ ls\<rparr>"
    by (rule apply_phases[OF ap native0])
  let ?new = "toRecord ?U (oc_capEntries out) miles (map snd fees)"
  obtain d1 ups1 where r: "reverseRecord P (stored_record d ?i P) d = Inr (d1, ups1)" and d01: "d0 = d1 \<or> d0 = delete_ledger ?i P d1"
    using clear_applied_reverse[OF cl] by auto
  have tx0: "db_txns d0 = db_txns d" using reverse_stored(1)[OF bk r U] d01 by (auto simp: delete_ledger_def)
  have own0: "own_rows P d0 V" if "V \<in> cards" for V using reverse_stored(1)[OF bk r that] d01 by auto
  have u0: "cap_units P d0 (V, x, s) = recorded P sr_caps d (V, x, s) - claimed sr_caps (tx_card_state_v2 t) (V, x, s)"
    "milestone_units P d0 (V, x, s) = recorded P sr_milestones d (V, x, s) - claimed sr_milestones (tx_card_state_v2 t) (V, x, s)"
    "fee_units P d0 (V, x, s) = recorded P sr_fee_waivers d (V, x, s) - claimed sr_fee_waivers (tx_card_state_v2 t) (V, x, s)"
    if "V \<in> cards" for V x s
    using reverse_stored(2,3,4)[OF bk r that, of x s] d01 rec by auto
  have le: "claimed sec (tx_card_state_v2 t) k \<le> recorded P sec d k" if "sec \<in> {sr_caps, sr_milestones, sr_fee_waivers}" for sec k
    using stored_record_le[OF wk that, of ?i k] rec by simp
  have pos: "0 \<le> cap_units P d0 (V, x, s) \<and> 0 \<le> milestone_units P d0 (V, x, s) \<and> 0 \<le> fee_units P d0 (V, x, s)"
    if "V \<in> cards" for V x s
    using u0[OF that] le[of sr_caps] le[of sr_milestones] le[of sr_fee_waivers] by simp
  have amounts: "\<forall>e \<in> set (oc_capEntries out @ miles @ map snd fees). rounded_entry e"
    using outcome_entries[OF out sound] milestone_rounded[OF mi] fee_rounded[OF fe _ amount] by auto
  have kinds: "\<forall>e \<in> set (oc_capEntries out). en_kind e \<noteq> None" using outcome_entries[OF out sound] by blast
  have allpos: "\<forall>x s. 0 \<le> cap_units P d0 (?U, x, s) \<and> 0 \<le> milestone_units P d0 (?U, x, s) \<and> 0 \<le> fee_units P d0 (?U, x, s)"
    using pos[OF U] by blast
  note pc = posts_counters[OF c m f own0[OF U] allpos amounts kinds]
  have tx4: "db_txns d4 = db_txns d" using but_counters_fields[OF pc(1)[THEN conjunct1]] tx0 by simp
  have wk4: "well_kept P d4" using wk recorded_cong(2)[OF tx4] by simp
  obtain g where d5: "d5 = update_txn ?i P g d4" and g: "\<And>t. tx_profile_id (g t) = tx_profile_id t" "\<And>t. tx_id (g t) = tx_id t"
    "\<And>t. tx_card_state_v2 (g t) = ?new"
    using finishTransaction_update[OF fin] by blast
  have find5: "find (owned_txn ?i P) (db_txns d5) = Some (g t)"
    unfolding d5 by (rule find_updated[OF wk4]) (use txn tx4 g in simp_all)
  have stored: "stored_record d' ?i P = ?new" using find5 g by (simp add: d' stored_record_def)
  have sane: "sane ?new" by (rule toRecord_sane) (use pc(5) in auto)
  have recd: "recorded P sec d' k = recorded P sec d k - claimed sec (tx_card_state_v2 t) k + claimed sec ?new k" for sec k
  proof -
    have "recorded P sec d' k = recorded P sec d5 k" by (simp add: d' recorded_def)
    also have "\<dots> = recorded P sec d4 k - claimed sec (tx_card_state_v2 t) k + claimed sec ?new k"
      unfolding d5 using recorded_update_txn[OF wk4, of ?i t g sec k] txn tx4 g by simp
    finally show ?thesis using recorded_cong(1)[OF tx4] by simp
  qed
  have cl: "claimed sr_caps ?new k = shifted (on_card ?U) cents (oc_capEntries out) k"
    "claimed sr_milestones ?new k = shifted (on_card ?U) cents miles k"
    "claimed sr_fee_waivers ?new k = shifted (on_card ?U) cents (map snd fees) k" for k
    by (rule toRecord_claims; use pc(5) in blast)+
  have "books P cards d'"
    unfolding books_def
  proof (intro conjI ballI)
    have "well_kept P d5" unfolding d5 by (rule well_kept_update[OF wk4]) (use g sane in simp_all)
    then show "well_kept P d'" by (simp add: d' well_kept_def)
    fix V assume V: "V \<in> cards"
    have "own_rows P d4 V" using own0[OF V] pc(1) by (simp add: own_rows_alt aliens_def)
    then show "own_rows P d' V" by (simp add: d' d5 own_rows_def update_txn_def table_defs)
    show "balanced P d' V"
      unfolding balanced_def
      using pc(2,3,4)[of "(V, _, _)"] pos[OF V] u0[OF V] recd cl
      by (simp add: d' d5 update_txn_def table_defs)
  qed
  then show ?thesis using sane stored recd by simp
qed


section \<open>What each planned cap is read as\<close>

lemma readCapRows_value:
  "mget (fst (readCapRows d v2 p)) (i, s) (Fin 0)
     = (if (\<exists>x \<in> set (cp_caps p). nc_id (fst x) = i \<and> sp_start (snd x) = s)
        then of_money (cap_units (v_profileId v2) d (v_userCardId v2, i, s)) else Fin 0)"
proof -
  define f where "f = (\<lambda>(m :: (row_key \<times> jsnum) list, stale) (k :: native_cap, s :: span).
     case map_of (db_cap_states d) (v_userCardId v2, nc_id k, sp_start s) of
       None \<Rightarrow> (m, stale)
     | Some r \<Rightarrow> if ct_profile r \<noteq> v_profileId v2 then (m, stale)
         else (mset_put (nc_id k, sp_start s) (of_money (ct_consumed r)) m, stale \<or> ct_kind r = None))"
  let ?row = "map_of (db_cap_states d) (v_userCardId v2, i, s)"
  define v where "v = (case ?row of Some r \<Rightarrow> if ct_profile r = v_profileId v2 then Some (of_money (ct_consumed r)) else None | None \<Rightarrow> None)"
  have step: "mget (fst (f st x)) (i, s) (Fin 0) = (if nc_id (fst x) = i \<and> sp_start (snd x) = s \<and> v \<noteq> None then the v
      else mget (fst st) (i, s) (Fin 0))" for st x
    by (cases st; cases x) (auto simp: f_def v_def split: option.splits)
  have "mget (fst (foldl f st xs)) (i, s) (Fin 0) = (if (\<exists>x \<in> set xs. nc_id (fst x) = i \<and> sp_start (snd x) = s) \<and> v \<noteq> None
      then the v else mget (fst st) (i, s) (Fin 0))" for st xs
    by (induction xs arbitrary: st) (auto simp: step)
  from this[of "([], False)" "cp_caps p"] show ?thesis
    unfolding readCapRows_def f_def[symmetric] v_def
    by (auto simp: mget_def cap_units_def of_money_def split: option.splits)
qed

text \<open>The record a recording leaves is priced on the counters without the transaction's own entries.\<close>

lemma clear_native:
  assumes "books P cards d" and "v_userCardId v2 \<in> cards" and "clear_applied P i d = Inr d0"
  shows "native_rows (v_userCardId v2) d0"
    and "db_txns d0 = db_txns d" and "db_fee_rules d0 = db_fee_rules d"
    and "cap_units P d0 (v_userCardId v2, x, s) = recorded P sr_caps d (v_userCardId v2, x, s)
       - claimed sr_caps (stored_record d i P) (v_userCardId v2, x, s)"
proof -
  obtain d1 ups where r: "reverseRecord P (stored_record d i P) d = Inr (d1, ups)" and d0: "d0 = d1 \<or> d0 = delete_ledger i P d1"
    using clear_applied_reverse[OF assms(3)] by auto
  note rs = reverse_stored[OF assms(1) r assms(2)]
  note fl = but_counters_fields[OF rs(1)[THEN conjunct2, THEN conjunct2, THEN conjunct1]]
  show "native_rows (v_userCardId v2) d0" using rs(1) d0 by (auto simp: own_rows_alt native_rows_def delete_ledger_def)
  show "db_txns d0 = db_txns d" "db_fee_rules d0 = db_fee_rules d" using fl d0 by (auto simp: delete_ledger_def)
  show "cap_units P d0 (v_userCardId v2, x, s) = recorded P sr_caps d (v_userCardId v2, x, s)
       - claimed sr_caps (stored_record d i P) (v_userCardId v2, x, s)"
    using rs(2) d0 by auto
qed

lemma fee_entries_cong: "db_fee_rules d' = db_fee_rules d \<Longrightarrow> fee_entries v2 args ex d' = fee_entries v2 args ex d"
  by (simp add: fee_entries_def card_fee_rules_def)

lemma caps_frame: "upsertAll (applyCapEntry P v2) d as = Inr (d', rs) \<Longrightarrow> but_counters d' = but_counters d"
  by (drule upsertAll_each[of _ _ _ _ _ "\<lambda>x. but_counters x = but_counters d"]) (auto simp: but_counters_def dest!: applyCapEntry_row)

lemma milestones_frame: "upsertAll (upsertMilestone P U) d as = Inr (d', rs) \<Longrightarrow> but_counters d' = but_counters d"
  by (drule upsertAll_each[of _ _ _ _ _ "\<lambda>x. but_counters x = but_counters d"]) (auto simp: but_counters_def dest!: upsertMilestone_row)

lemma fees_frame: "upsertAll (\<lambda>d (th, e). upsertFee P U th d e) d as = Inr (d', rs) \<Longrightarrow> but_counters d' = but_counters d"
  by (drule upsertAll_each[of _ _ _ _ _ "\<lambda>x. but_counters x = but_counters d"]) (auto simp: but_counters_def dest!: upsertFee_row)

lemma apply_record:
  assumes bk: "books P cards d" and U: "v_userCardId v2 \<in> cards" "v_profileId v2 = P" and sound: "sound_card v2"
    and amount: "nn (to_number (aa_amount args))" and txn: "find (owned_txn (aa_txnId args) P) (db_txns d) = Some t"
    and ap: "applyTransactionV2 tz P dir v2 args d = Inr (d', ups)"
  shows "\<exists>ctx p out miles fees t'. ctx = arg_context args (Some (txn_row.truncate t)) \<and> capPlan tz v2 dir ctx = Inr p
    \<and> computeTransactionV2 tz v2 dir ctx (\<lambda>i s. if \<exists>x \<in> set (cp_caps p). nc_id (fst x) = i \<and> sp_start (snd x) = s
         then of_money (recorded P sr_caps d (v_userCardId v2, i, s) - claimed sr_caps (tx_card_state_v2 t) (v_userCardId v2, i, s)) else Fin 0) p = Inr out
    \<and> milestoneEntries tz v2 ctx (oc_excluded out) = Inr miles \<and> fee_entries v2 args (oc_excluded out) d = Inr fees
    \<and> find (owned_txn (aa_txnId args) P) (db_txns d') = Some t' \<and> tx_merchant_vpa t' = tx_merchant_vpa t \<and> tx_mcc t' = tx_mcc t
    \<and> tx_card_state_v2 t' = toRecord (v_userCardId v2) (oc_capEntries out) miles (map snd fees)
    \<and> db_fee_rules d' = db_fee_rules d"
proof -
  let ?U = "v_userCardId v2" and ?i = "aa_txnId args"
  have rec: "stored_record d ?i P = tx_card_state_v2 t" by (simp add: stored_record_def txn)
  obtain d0 d2 d3 d4 d5 ctx p out cs miles ms fees fs ls where
    cl: "clear_applied P ?i d = Inr d0" and
    ctx: "ctx = arg_context args (map_option txn_row.truncate (find (owned_txn ?i P) (db_txns d)))" and
    pl: "capPlan tz v2 dir ctx = Inr p" and
    out: "computeTransactionV2 tz v2 dir ctx (\<lambda>i s. mget (fst (readCapRows d0 v2 p)) (i, s) (Fin 0)) p = Inr out" and
    c: "upsertAll (applyCapEntry P v2) d0 (oc_capEntries out) = Inr (d2, cs)" and
    mi: "milestoneEntries tz v2 ctx (oc_excluded out) = Inr miles" and
    m: "upsertAll (upsertMilestone P ?U) d2 miles = Inr (d3, ms)" and
    fe: "fee_entries v2 args (oc_excluded out) d3 = Inr fees" and
    f: "upsertAll (\<lambda>d (th, e). upsertFee P ?U th d e) d3 fees = Inr (d4, fs)" and
    fin: "finishTransaction P ?i out (toRecord ?U (oc_capEntries out) miles (map snd fees)) d4 = Inr d5" and
    d': "d' = d5\<lparr>db_ledger := db_ledger d5 @ ls\<rparr>"
    by (rule apply_phases[OF ap clear_native(1)[OF bk U(1)]])
  note cn = clear_native[OF bk U(1) cl]
  have price: "(\<lambda>i s. mget (fst (readCapRows d0 v2 p)) (i, s) (Fin 0)) = (\<lambda>i s. if \<exists>x \<in> set (cp_caps p). nc_id (fst x) = i \<and> sp_start (snd x) = s
         then of_money (recorded P sr_caps d (?U, i, s) - claimed sr_caps (tx_card_state_v2 t) (?U, i, s)) else Fin 0)"
    using cn(4) rec by (intro ext) (auto simp: readCapRows_value U(2))
  have d3: "but_counters d3 = but_counters d0" using caps_frame[OF c] milestones_frame[OF m] by simp
  have d4: "but_counters d4 = but_counters d0" using d3 fees_frame[OF f] by simp
  have wk4: "well_kept P d4" and tx4: "db_txns d4 = db_txns d" and fr: "db_fee_rules d3 = db_fee_rules d" "db_fee_rules d4 = db_fee_rules d"
    using but_counters_fields[OF d3] but_counters_fields[OF d4] cn(2,3) recorded_cong(2)[of d4 d P] bk by (simp_all add: books_def)
  obtain g where d5: "d5 = update_txn ?i P g d4" and g: "\<And>t. tx_profile_id (g t) = tx_profile_id t" "\<And>t. tx_id (g t) = tx_id t"
    "\<And>t. tx_card_state_v2 (g t) = toRecord ?U (oc_capEntries out) miles (map snd fees)"
    "\<And>t. tx_merchant_vpa (g t) = tx_merchant_vpa t" "\<And>t. tx_mcc (g t) = tx_mcc t"
    using finishTransaction_update[OF fin] by blast
  have "find (owned_txn ?i P) (db_txns d') = Some (g t)"
    using find_updated[OF wk4, of ?i t g] txn tx4 g by (simp add: d' d5)
  moreover have "db_fee_rules d' = db_fee_rules d" using fr by (simp add: d' d5 update_txn_def)
  ultimately show ?thesis
    using ctx pl out[unfolded price] mi fe[unfolded fee_entries_cong[OF fr(1)]] g txn
    by (intro exI[of _ ctx] exI[of _ p] exI[of _ out] exI[of _ miles] exI[of _ fees] exI[of _ "g t"] conjI) simp_all
qed


section \<open>Properties\<close>

text \<open>What a recorded change does to a card's counters.\<close>

definition moved_by :: "string \<Rightarrow> string \<Rightarrow> state_record option \<Rightarrow> state_record option \<Rightarrow> db \<Rightarrow> db \<Rightarrow> bool" where
  "moved_by P U old new d d' \<longleftrightarrow> (\<forall>i s.
     cap_units P d' (U, i, s) = cap_units P d (U, i, s) - claimed sr_caps old (U, i, s) + claimed sr_caps new (U, i, s)
   \<and> milestone_units P d' (U, i, s) = milestone_units P d (U, i, s)
       - claimed sr_milestones old (U, i, s) + claimed sr_milestones new (U, i, s)
   \<and> fee_units P d' (U, i, s) = fee_units P d (U, i, s)
       - claimed sr_fee_waivers old (U, i, s) + claimed sr_fee_waivers new (U, i, s))"

lemma books_moved:
  assumes "books P cards d" and "books P cards d'" and "U \<in> cards"
    and "\<And>sec k. recorded P sec d' k = recorded P sec d k - claimed sec old k + claimed sec new k"
  shows "moved_by P U old new d d'"
  using books_card[OF assms(1,3)] books_card[OF assms(2,3)] assms(4) by (simp add: moved_by_def balanced_def)

text \<open>
  C4: Recording keeps the books: on every second-generation card of the profile, each cap, milestone
  and fee-waiver row still equals the sum of the matching entries in the transactions' records, and
  it moved by exactly what the transaction's new record says minus what its old record said.
\<close>

theorem recording_keeps_books:
  assumes "books P cards d" and "v_userCardId v2 \<in> cards" and "sound_card v2" and "nn (to_number (aa_amount args))"
    and "find (owned_txn (aa_txnId args) P) (db_txns d) \<noteq> None"
    and "applyTransactionV2 tz P dir v2 args d = Inr (d', ups)"
  shows "books P cards d' \<and> (\<forall>U \<in> cards.
     moved_by P U (stored_record d (aa_txnId args) P) (stored_record d' (aa_txnId args) P) d d')"
proof -
  obtain t where t: "find (owned_txn (aa_txnId args) P) (db_txns d) = Some t" using assms(5) by auto
  then have rec: "stored_record d (aa_txnId args) P = tx_card_state_v2 t" by (simp add: stored_record_def)
  note core = apply_core[OF assms(1-4) t assms(6)]
  show ?thesis
    using core books_moved[OF assms(1) core[THEN conjunct1]] rec by auto
qed

text \<open>
  Reversing a transaction keeps the books, takes exactly what its record says off the rows, and
  leaves no record, no ledger row and no expected value of it behind.
\<close>

theorem reversal_keeps_books:
  assumes "books P cards d" and "reverseTransactionV2 P i d = Inr (d', ups)"
  shows "books P cards d' \<and> (\<forall>U \<in> cards. moved_by P U (stored_record d i P) None d d') \<and> stored_record d' i P = None
    \<and> (\<forall>l \<in> set (db_ledger d'). \<not> (lg_txn l = i \<and> lg_profile l = P))
    \<and> (\<forall>t \<in> set (db_txns d'). owned_txn i P t \<longrightarrow> tx_expected_value_inr t = JNum (Fin 0) \<and> tx_expected_points t = JNum (Fin 0))"
proof -
  note core = reverse_core[OF assms]
  obtain d1 where d': "d' = delete_ledger i P (update_txn i P zero_expected d1)"
    using assms(2) by (auto simp: reverseTransactionV2_def ebind_eq_Inr)
  have u: "\<exists>u. t = zero_expected u" if "t \<in> set (db_txns d')" "owned_txn i P t" for t
    using that unfolding d' units_update by (auto simp: update_txn_def)
  have z: "\<forall>t \<in> set (db_txns d'). owned_txn i P t \<longrightarrow> tx_expected_value_inr t = JNum (Fin 0)
      \<and> tx_expected_points t = JNum (Fin 0) \<and> tx_card_state_v2 t = None"
    using u by (fastforce simp: zero_expected_def)
  have "stored_record d' i P = None"
    using z find_member[of "owned_txn i P" "db_txns d'"] by (auto simp: stored_record_def split: option.splits)
  moreover have "\<forall>l \<in> set (db_ledger d'). \<not> (lg_txn l = i \<and> lg_profile l = P)" by (auto simp: d' delete_ledger_def)
  moreover have "\<forall>U \<in> cards. moved_by P U (stored_record d i P) None d d'"
    using books_moved[OF assms(1) core[THEN conjunct1], of _ "stored_record d i P" None]
      core[THEN conjunct2, THEN spec, THEN spec] by simp
  ultimately show ?thesis using z core[THEN conjunct1] by simp
qed

text \<open>
  C14: Reversing undoes recording: after a transaction without a record is recorded and then reversed,
  every cap, milestone and fee-waiver counter of the profile's cards is what it was.
\<close>

theorem reverse_undoes_recording:
  assumes "books P cards d" and "v_userCardId v2 \<in> cards" and "sound_card v2" and "nn (to_number (aa_amount args))"
    and "find (owned_txn (aa_txnId args) P) (db_txns d) \<noteq> None" and "stored_record d (aa_txnId args) P = None"
    and "applyTransactionV2 tz P dir v2 args d = Inr (d1, ups)" and "reverseTransactionV2 P (aa_txnId args) d1 = Inr (d2, ups')"
    and "U \<in> cards"
  shows "cap_units P d2 (U, i, s) = cap_units P d (U, i, s) \<and> milestone_units P d2 (U, i, s) = milestone_units P d (U, i, s)
    \<and> fee_units P d2 (U, i, s) = fee_units P d (U, i, s)"
proof -
  obtain t where t: "find (owned_txn (aa_txnId args) P) (db_txns d) = Some t" using assms(5) by auto
  then have none: "tx_card_state_v2 t = None" using assms(6) by (simp add: stored_record_def)
  note a = apply_core[OF assms(1-4) t assms(7)]
  note r = reverse_core[OF a[THEN conjunct1] assms(8)]
  have "recorded P sec d2 k = recorded P sec d k" for sec k
    using a[THEN conjunct2, THEN conjunct2, THEN spec, THEN spec, of sec k] r[THEN conjunct2, THEN spec, THEN spec, of sec k] none by simp
  then show ?thesis
    using books_card[OF assms(1,9)] books_card[OF r[THEN conjunct1] assms(9)] by (simp add: balanced_def)
qed

text \<open>
  C1: Recording the same transaction again counts once: the second recording of the same arguments
  leaves every counter of the profile's cards, and the transaction's record, as the first left them.
\<close>

theorem recording_twice_counts_once:
  assumes "books P cards d" and "v_userCardId v2 \<in> cards" and "v_profileId v2 = P" and "sound_card v2"
    and "nn (to_number (aa_amount args))" and "find (owned_txn (aa_txnId args) P) (db_txns d) \<noteq> None"
    and "applyTransactionV2 tz P dir v2 args d = Inr (d1, ups)" and "applyTransactionV2 tz P dir v2 args d1 = Inr (d2, ups')"
  shows "stored_record d2 (aa_txnId args) P = stored_record d1 (aa_txnId args) P
    \<and> (\<forall>U \<in> cards. moved_by P U None None d1 d2)"
proof -
  let ?i = "aa_txnId args"
  obtain t where t: "find (owned_txn ?i P) (db_txns d) = Some t" using assms(6) by auto
  note a1 = apply_core[OF assms(1,2,4,5) t assms(7)]
  obtain ctx p out miles fees t1 where c1: "ctx = arg_context args (Some (txn_row.truncate t))" "capPlan tz v2 dir ctx = Inr p"
    "computeTransactionV2 tz v2 dir ctx (\<lambda>i s. if \<exists>x \<in> set (cp_caps p). nc_id (fst x) = i \<and> sp_start (snd x) = s
         then of_money (recorded P sr_caps d (v_userCardId v2, i, s) - claimed sr_caps (tx_card_state_v2 t) (v_userCardId v2, i, s)) else Fin 0) p = Inr out"
    "milestoneEntries tz v2 ctx (oc_excluded out) = Inr miles" "fee_entries v2 args (oc_excluded out) d = Inr fees"
    and t1: "find (owned_txn ?i P) (db_txns d1) = Some t1" "tx_merchant_vpa t1 = tx_merchant_vpa t" "tx_mcc t1 = tx_mcc t"
    "tx_card_state_v2 t1 = toRecord (v_userCardId v2) (oc_capEntries out) miles (map snd fees)" "db_fee_rules d1 = db_fee_rules d"
    using apply_record[OF assms(1-5) t assms(7)] by blast
  note bk1 = a1[THEN conjunct1]
  note a2 = apply_core[OF bk1 assms(2,4,5) t1(1) assms(8)]
  have same: "recorded P sec d1 k - claimed sec (tx_card_state_v2 t1) k = recorded P sec d k - claimed sec (tx_card_state_v2 t) k" for sec k
    using a1[THEN conjunct2, THEN conjunct2, THEN spec, THEN spec, of sec k] t1(1) by (simp add: stored_record_def)
  have ctx: "arg_context args (Some (txn_row.truncate t1)) = ctx"
    using t1(2,3) by (simp add: c1(1) arg_context_def transactionContext_def txn_row.truncate_def)
  obtain p' out' miles' fees' t2 where c2: "capPlan tz v2 dir ctx = Inr p'"
    "computeTransactionV2 tz v2 dir ctx (\<lambda>i s. if \<exists>x \<in> set (cp_caps p'). nc_id (fst x) = i \<and> sp_start (snd x) = s
         then of_money (recorded P sr_caps d (v_userCardId v2, i, s) - claimed sr_caps (tx_card_state_v2 t) (v_userCardId v2, i, s)) else Fin 0) p' = Inr out'"
    "milestoneEntries tz v2 ctx (oc_excluded out') = Inr miles'" "fee_entries v2 args (oc_excluded out') d1 = Inr fees'"
    and t2: "find (owned_txn ?i P) (db_txns d2) = Some t2"
    "tx_card_state_v2 t2 = toRecord (v_userCardId v2) (oc_capEntries out') miles' (map snd fees')"
    using apply_record[OF bk1 assms(2-5) t1(1) assms(8)] unfolding ctx same by blast
  have "p' = p" using c1(2) c2(1) by simp
  then have "out' = out" using c1(3) c2(2) by simp
  then have "miles' = miles" "fees' = fees" using c1(4,5) c2(3,4) fee_entries_cong[OF t1(5)] by simp_all
  then have rec: "tx_card_state_v2 t2 = tx_card_state_v2 t1" using t1(4) t2(2) \<open>out' = out\<close> by simp
  have "recorded P sec d2 k = recorded P sec d1 k - claimed sec None k + claimed sec None k" for sec k
    using a2[THEN conjunct2, THEN conjunct2, THEN spec, THEN spec, of sec k] rec t2(1) by (simp add: stored_record_def)
  then show ?thesis
    using books_moved[OF bk1 a2[THEN conjunct1]] rec t1(1) t2(1) by (simp add: stored_record_def)
qed

end
