(* ===== verification/CardSamples.thy ===== *)
theory CardSamples
  imports CardInvariant
begin

text \<open>A worked card: one transaction-count cap of three a month, one fee-waiver rule, one spend of 250.\<close>

definition sample_state_cap :: state_cap where
  "sample_state_cap = cap_row.extend sample_count_cap (state_cap.fields ''calendar_month'' None)"

definition sample_anchor :: anchor_date where
  "sample_anchor = \<lparr>ad_date = Some ''2025-01-01'', ad_approximate = False, ad_source = None\<rparr>"

definition sample_v2 :: v2_card where
  "sample_v2 = \<lparr>v_userCardId = ''uc'', v_profileId = ''me'', v_cardProductId = ''p'', v_statementDay = None,
     v_anchor = sample_anchor, v_issueAnchor = sample_anchor, v_openedOn = Some ''2025-01-01'', v_card = blank_card,
     v_rules = [sample_earn], v_caps = [sample_state_cap], v_milestones = []\<rparr>"

definition sample_txn :: stored_txn where
  "sample_txn = \<lparr>tx_id = ''t'', tx_amount_inr = JNum (Fin 250), tx_occurred_at = DText ''2026-11-06'' None, tx_category_id = None,
     tx_merchant_name = None, tx_merchant_vpa = None, tx_mcc = None, tx_rail = None, tx_status = ''active'',
     tx_instrument = ''credit_card'', tx_entry_kind = ''spend'', tx_is_backfill = None, tx_expected_points = JNull,
     tx_expected_value_inr = JNull, tx_expected_cashback_inr = JNull, tx_card_state_v2 = None,
     tx_user_card_id = Some ''uc'', tx_profile_id = ''me''\<rparr>"

definition sample_args :: apply_args where
  "sample_args = \<lparr>aa_txnId = ''t'', aa_userCardId = Some ''uc'', aa_amount = JNum (Fin 250),
     aa_occurred = DText ''2026-11-06'' None, aa_categoryId = None, aa_merchantName = None, aa_rail = None, aa_sign = 1\<rparr>"

definition sample_fee_rule :: fee_rule where
  "sample_fee_rule = \<lparr>fr_id = ''f'', fr_threshold = JNum (Fin 1000), fr_period = ''calendar_month'', fr_excluded_categories = JNull\<rparr>"

definition sample_db :: db where
  "sample_db = \<lparr>db_user_cards = [], db_rules = (\<lambda>_. []), db_caps = (\<lambda>_. []), db_milestones = (\<lambda>_. []),
     db_fee_rules = [(''p'', sample_fee_rule)], db_txns = [sample_txn], db_cap_states = [], db_milestone_states = [],
     db_fee_states = [], db_ledger = []\<rparr>"

definition card_ctx :: raw_ctx where
  "card_ctx = arg_context sample_args (Some (txn_row.truncate sample_txn))"

definition sample_native :: native_cap where
  "sample_native = \<lparr>nc_id = ''k'', nc_kind = ''txn_count'', nc_amount = Fin 3, nc_behavior = ''base_rate'', nc_postUnit = None,
     nc_postRate = None, nc_legacy = False\<rparr>"

definition sample_span :: span where
  "sample_span = \<lparr>sp_start = ''2026-11-01'', sp_end = ''2026-11-30'', sp_approximate = False\<rparr>"

lemma sample_facts:
  "isV2Card (v_card sample_v2) (v_rules sample_v2) (engine_caps sample_v2)"
  "exclusion_rules 0 (v_rules sample_v2) (resolveContext card_ctx None) = []"
  "earner_rules 0 (v_rules sample_v2) (resolveContext card_ctx None) = [sample_earn]"
  "applicableCaps (v_card sample_v2) (engine_caps sample_v2) (Some sample_earn) (c_category_id (resolveContext card_ctx None)) False
     = ([sample_native], [])"
  "c_amount (resolveContext card_ctx None) = Fin 250"
  "calendarMonthBounds (istShift 1793923200000) = (''2026-11-01'', ''2026-11-30'')"
  "instant (c_occurred (resolveContext card_ctx None)) = Inr 1793923200000"
  "feeBounds sample_fee_rule 1793923200000 None = Inr (''2026-11-01'', ''2026-11-30'')"
  "instant (DText ''2026-11-06'' None) = Inr 1793923200000"
  by code_simp+

lemma sample_cap_row: "capById sample_v2 ''k'' = Some sample_state_cap"
  by (simp add: capById_def sample_v2_def sample_state_cap_def sample_count_cap_def cap_row.extend_def text_of_def)

lemma sample_pick_earn: "\<exists>p. pickRuleV2 0 (v_rules sample_v2) (resolveContext card_ctx None) (v_card sample_v2) = Inr p
    \<and> \<not> pk_excluded p \<and> pk_rule p = Some sample_earn \<and> pk_implicit p = False"
proof -
  have u: "rr_unit sample_earn = None" by (simp add: sample_earn_def blank_rule_def)
  obtain a where "rank_rule (resolveContext card_ctx None) (cardModes (v_card sample_v2)) sample_earn = Inr a" using rank_no_unit[OF u] by blast
  moreover have "\<not> includes_text (cd_excluded_categories (v_card sample_v2)) (c_category_id (resolveContext card_ctx None))" by code_simp
  moreover have "rk_rule a = sample_earn" using calculation(1) by (auto simp: rank_rule_def ebind_eq_Inr Let_def)
  ultimately show ?thesis using sample_facts(2,3) by (simp add: pickRuleV2_def byPriority_def Let_def jsort_Cons)
qed

lemma sample_capSpan: "capSpan 0 sample_v2 sample_state_cap 1793923200000 = Inr sample_span"
  by (simp add: capSpan_def capWindow_def lift_window_def windowBoundsV2_def periodBounds_def Let_def sample_state_cap_def
      state_cap.fields_def cap_row.extend_def sample_facts window_of_def span_of_def sample_span_def)

lemma sample_capPlan: "capPlan 0 sample_v2 None card_ctx
    = Inr \<lparr>cp_ctx = resolveContext card_ctx None, cp_caps = [(sample_native, sample_span)], cp_excluded = False\<rparr>"
proof -
  obtain p where p: "pickRuleV2 0 (v_rules sample_v2) (resolveContext card_ctx None) (v_card sample_v2) = Inr p"
    "\<not> pk_excluded p" "pk_rule p = Some sample_earn" using sample_pick_earn by blast
  have k: "nc_id sample_native = ''k''" by (simp add: sample_native_def)
  show ?thesis
    by (simp add: capPlan_def Let_def p lift_engine_def sample_facts planned_cap_def k sample_cap_row sample_capSpan)
qed


text \<open>The engine on the sample: nothing earned, the count cap consumed by one.\<close>

lemma round2_0: "round2 (Fin 0) = Fin 0" and round2_1: "round2 (Fin 1) = Fin 1"
  using round2_whole[of 0] round2_whole[of 1] by simp_all

lemma round2s_0: "round2s (Fin 0) = Fin 0" and round2s_250: "round2s (Fin 250) = Fin 250"
  using round2s_near[of 0 0] round2s_near[of 250 25000] by (simp_all add: of_money_def)

lemma sample_engine: "\<exists>r. computeTransactionRewardV2 0 (v_card sample_v2) (v_rules sample_v2) (engine_caps sample_v2)
      (ByCap [(''k'', JNum (Fin 0))]) card_ctx None = Inr r \<and> r2_capDeltas r = [(''k'', Fin 1)] \<and> \<not> r2_excluded r
    \<and> r2_points r = None \<and> r2_cashbackInr r = None \<and> r2_valueInr r = Fin 0"
proof -
  obtain p where p: "pickRuleV2 0 (v_rules sample_v2) (resolveContext card_ctx None) (v_card sample_v2) = Inr p"
    "\<not> pk_excluded p" "pk_rule p = Some sample_earn" "pk_implicit p = False" using sample_pick_earn by blast
  let ?m = "cardModes (v_card sample_v2)"
  have u: "rr_unit sample_earn = None" "rr_rate sample_earn = JNull" "rr_max_txn_inr sample_earn = JNull"
    by (simp_all add: sample_earn_def blank_rule_def)
  have z: "accrue None v s b md cb = Inr (Fin 0)" for v s b md cb
    by (rule accrue_inactive) simp
  have b: "md_baseUnit ?m = None" "md_baseRate ?m = None" "md_pointValue ?m = Fin 0"
    by (simp_all add: sample_v2_def cardModes_def blank_card_def or_text_def num_def num_or_0_def nullish_def)
  have rp: "ruleParts ?m sample_earn isb s = Inr (Fin 0, Fin 0)" for isb s
    by (simp add: ruleParts_def accrueAt_def u or_text_def z currencyOf_def member_text_def)
  have k: "nc_id sample_native = ''k''" "nc_kind sample_native = ''txn_count''" "nc_amount sample_native = Fin 3"
    by (simp_all add: sample_native_def)
  show ?thesis
    unfolding computeTransactionRewardV2_def Let_def
    by (simp add: sample_facts p computeSpend_def Let_def consumed_map_def b
        rp eligible_spend_def u num_def nullish_def splitSpend_def caps_of_kind_def remaining_def
        read_consumed_def num_or_0_def mget_def minus_Fin overflowPieces_def overMaxPieces_def capDeltas_def
        bonus_caps_def total_caps_def deltas_of_def record_delta_def round2_0 round2_1 currencyOf_def member_text_def
        k under_caps_def earnedIn_def settleTotals_def)
qed


definition sample_entry :: entry where
  "sample_entry = \<lparr>en_id = ''k'', en_start = ''2026-11-01'', en_end = ''2026-11-30'', en_delta = Fin 1, en_kind = Some ''txn_count'',
     en_amount = Some (Fin 3), en_approximate = False\<rparr>"

definition sample_fee_entry :: entry where
  "sample_fee_entry = \<lparr>en_id = ''f'', en_start = ''2026-11-01'', en_end = ''2026-11-30'', en_delta = Fin 250, en_kind = None,
     en_amount = None, en_approximate = False\<rparr>"

definition sample_record :: state_record where
  "sample_record = \<lparr>sr_user_card_id = ''uc'', sr_caps = [sample_entry\<lparr>en_amount := None\<rparr>], sr_milestones = [],
     sr_fee_waivers = [sample_fee_entry]\<rparr>"

text \<open>The tables with a cap row of \<open>c\<close> hundredths, a fee-waiver row of \<open>f\<close>, and a record.\<close>

definition sample_rows :: "int \<Rightarrow> int \<Rightarrow> state_record option \<Rightarrow> db" where
  "sample_rows c f rec = sample_db\<lparr>
     db_txns := [sample_txn\<lparr>tx_expected_value_inr := JNum (Fin 0), tx_expected_points := JNum (Fin 0),
       tx_expected_cashback_inr := JNull, tx_card_state_v2 := rec\<rparr>],
     db_cap_states := [((''uc'', ''k'', ''2026-11-01''), \<lparr>ct_profile = ''me'', ct_period_end = ''2026-11-30'', ct_consumed = c,
       ct_snapshot = 0, ct_kind = Some ''txn_count'', ct_amount = Some 300, ct_approximate = False\<rparr>)],
     db_fee_states := [((''uc'', ''f'', ''2026-11-01''), \<lparr>ft_profile = ''me'', ft_period_end = ''2026-11-30'', ft_qualified = f,
       ft_waived = False\<rparr>)]\<rparr>"

lemma sample_outcome:
  assumes "g ''k'' ''2026-11-01'' = Fin 0"
  shows "\<exists>out. computeTransactionV2 0 sample_v2 None card_ctx g
        \<lparr>cp_ctx = resolveContext card_ctx None, cp_caps = [(sample_native, sample_span)], cp_excluded = False\<rparr> = Inr out
    \<and> oc_capEntries out = [sample_entry] \<and> oc_native out = Fin 0 \<and> oc_points out = None \<and> oc_cashback out = None
    \<and> oc_value out = Fin 0 \<and> \<not> oc_excluded out"
proof -
  obtain r where r: "computeTransactionRewardV2 0 (v_card sample_v2) (v_rules sample_v2) (engine_caps sample_v2)
      (ByCap [(''k'', JNum (Fin 0))]) card_ctx None = Inr r" "r2_capDeltas r = [(''k'', Fin 1)]" "\<not> r2_excluded r"
    "r2_points r = None" "r2_cashbackInr r = None" "r2_valueInr r = Fin 0" using sample_engine by blast
  have c: "consumed_of_plan g [(sample_native, sample_span)] = [(''k'', JNum (Fin 0))]"
    using assms by (simp add: consumed_of_plan_def sample_native_def sample_span_def jor_def)
  have e: "cap_entry r (sample_native, sample_span) = Some sample_entry"
    using r(2) by (simp add: cap_entry_def sample_native_def sample_span_def sample_entry_def)
  show ?thesis
    by (simp add: computeTransactionV2_def lift_engine_def c r e List.map_filter_def nativeAmount_def earnedSplit_def round2s_0)
qed

lemma sample_money: "hundredths (Fin 0) = Inr 0" "hundredths (Fin 1) = Inr 100" "hundredths (Fin 3) = Inr 300"
  "hundredths (Fin 250) = Inr 25000" "of_money 0 = Fin 0" "of_money 25000 = Fin 250"
  by (simp_all add: hundredths_def nearest_hundredth_def of_money_def)

lemma sample_v2_fields: "v_userCardId sample_v2 = ''uc''" "v_profileId sample_v2 = ''me''" "v_cardProductId sample_v2 = ''p''"
  "v_statementDay sample_v2 = None" "v_milestones sample_v2 = []" "cap_snapshot sample_v2 sample_entry = Inr 0"
proof -
  show "v_userCardId sample_v2 = ''uc''" "v_profileId sample_v2 = ''me''" "v_cardProductId sample_v2 = ''p''"
    "v_statementDay sample_v2 = None" "v_milestones sample_v2 = []" by (simp_all add: sample_v2_def)
  have "cr_cap_value sample_state_cap = JNull"
    by (simp add: sample_state_cap_def sample_count_cap_def blank_cap_def cap_row.extend_def)
  then show "cap_snapshot sample_v2 sample_entry = Inr 0"
    by (simp add: cap_snapshot_def sample_entry_def sample_cap_row num_or_0_def num_def nullish_def money_def sample_money)
qed

text \<open>Recording starts from no rows, or from rows a reversal brought back to zero.\<close>

definition sample_start :: "db \<Rightarrow> bool" where
  "sample_start d \<longleftrightarrow> d = sample_db \<or> d = sample_rows 0 0 (Some sample_record)"

lemma sample_upserts:
  assumes "sample_start d"
  shows "\<exists>r. applyCapEntry ''me'' sample_v2 d sample_entry = Inr (d\<lparr>db_cap_states := db_cap_states (sample_rows 100 0 None)\<rparr>, r)"
    and "\<exists>r. upsertFee ''me'' ''uc'' (JNum (Fin 1000)) (d\<lparr>db_cap_states := rows\<rparr>) sample_fee_entry
      = Inr (d\<lparr>db_cap_states := rows, db_fee_states := db_fee_states (sample_rows 0 25000 None)\<rparr>, r)"
proof -
  show "\<exists>r. applyCapEntry ''me'' sample_v2 d sample_entry = Inr (d\<lparr>db_cap_states := db_cap_states (sample_rows 100 0 None)\<rparr>, r)"
    using assms unfolding sample_start_def applyCapEntry_def sample_v2_fields ebind_Inr
    by (elim disjE) (simp_all add: upsertCap_def Let_def sample_entry_def sample_money sample_rows_def sample_db_def fits_def)
  show "\<exists>r. upsertFee ''me'' ''uc'' (JNum (Fin 1000)) (d\<lparr>db_cap_states := rows\<rparr>) sample_fee_entry
      = Inr (d\<lparr>db_cap_states := rows, db_fee_states := db_fee_states (sample_rows 0 25000 None)\<rparr>, r)"
    using assms unfolding sample_start_def
    by (elim disjE) (simp_all add: upsertFee_def Let_def sample_fee_entry_def sample_money sample_rows_def sample_db_def fits_def settleFeeWaiver_def)
qed

lemma sample_fee: "fee_entries sample_v2 sample_args False d = Inr [(JNum (Fin 1000), sample_fee_entry)]"
  if "db_fee_rules d = [(''p'', sample_fee_rule)]"
proof -
  have "fr_id sample_fee_rule = ''f''" "fr_threshold sample_fee_rule = JNum (Fin 1000)" "aa_categoryId sample_args = None"
    "aa_occurred sample_args = DText ''2026-11-06'' None" "aa_amount sample_args = JNum (Fin 250)"
    by (simp_all add: sample_fee_rule_def sample_args_def)
  then show ?thesis
    using that by (simp add: fee_entries_def card_fee_rules_def sample_v2_fields fee_apply_entry_def sample_facts
        List.map_filter_def sample_fee_entry_def round2s_250)
qed

lemma sample_toRecord: "toRecord ''uc'' [sample_entry] [] [sample_fee_entry] = Some sample_record"
  by (simp add: toRecord_def Let_def sortEntries_def jsort_Cons recordEntry_def sample_entry_def sample_fee_entry_def
      sample_record_def round2s_250 round2s_near[of 1 100, unfolded of_money_def])

lemma sample_context: "db_txns d = [t] \<Longrightarrow> owned_txn ''t'' ''me'' t \<Longrightarrow> tx_merchant_vpa t = None \<Longrightarrow> tx_mcc t = None \<Longrightarrow>
    arg_context sample_args (map_option txn_row.truncate (find (owned_txn ''t'' ''me'') (db_txns d))) = card_ctx"
  by (simp add: card_ctx_def arg_context_def transactionContext_def txn_row.truncate_def sample_txn_def)


lemma sample_start_fields: "sample_start d \<Longrightarrow> native_rows ''uc'' d \<and> cap_units ''me'' d (''uc'', ''k'', ''2026-11-01'') = 0
    \<and> db_fee_rules d = [(''p'', sample_fee_rule)] \<and> db_ledger d = []
    \<and> (\<exists>rec. db_txns d = [sample_txn] \<or> db_txns d = db_txns (sample_rows 0 0 rec))
    \<and> d\<lparr>db_cap_states := [], db_fee_states := [], db_txns := []\<rparr> = sample_db\<lparr>db_txns := []\<rparr>"
  by (auto simp: sample_start_def sample_db_def sample_rows_def native_rows_def cap_units_def split: if_splits)

lemma sample_apply_start:
  assumes "clear_applied ''me'' ''t'' d = Inr d0" and "sample_start d0" and "db_txns d = db_txns d0"
  shows "\<exists>ups. applyTransactionV2 0 ''me'' None sample_v2 sample_args d = Inr (sample_rows 100 25000 (Some sample_record), ups)"
proof -
  let ?p = "\<lparr>cp_ctx = resolveContext card_ctx None, cp_caps = [(sample_native, sample_span)], cp_excluded = False\<rparr>"
  note sf = sample_start_fields[OF assms(2)]
  have id: "aa_txnId sample_args = ''t''" "aa_occurred sample_args = DText ''2026-11-06'' None" by (simp_all add: sample_args_def)
  obtain t where t: "db_txns d0 = [t]" "owned_txn ''t'' ''me'' t" "tx_merchant_vpa t = None" "tx_mcc t = None"
    "t\<lparr>tx_expected_value_inr := JNum (Fin 0), tx_expected_points := JNum (Fin 0), tx_expected_cashback_inr := JNull,
       tx_card_state_v2 := Some sample_record\<rparr> = hd (db_txns (sample_rows 0 0 (Some sample_record)))"
    using sf by (auto simp: sample_rows_def sample_txn_def owned_txn_def)
  have ctx: "arg_context sample_args (map_option txn_row.truncate (find (owned_txn ''t'' ''me'') (db_txns d))) = card_ctx"
    by (rule sample_context[of d t]) (simp_all add: assms(3) t)
  have cur: "current_rows 0 ''me'' None sample_v2 ?p sample_args d0 = Inr (d0, fst (readCapRows d0 sample_v2 ?p))"
    by (rule current_rows_native) (use sf in \<open>simp add: sample_v2_fields\<close>)
  have g: "mget (fst (readCapRows d0 sample_v2 ?p)) (''k'', ''2026-11-01'') (Fin 0) = Fin 0"
    using sf by (simp add: readCapRows_value sample_v2_fields sample_money)
  obtain out where out: "computeTransactionV2 0 sample_v2 None card_ctx (\<lambda>i s. mget (fst (readCapRows d0 sample_v2 ?p)) (i, s) (Fin 0)) ?p = Inr out"
    "oc_capEntries out = [sample_entry]" "oc_native out = Fin 0" "oc_points out = None" "oc_cashback out = None"
    "oc_value out = Fin 0" "\<not> oc_excluded out"
    using sample_outcome[of "\<lambda>i s. mget (fst (readCapRows d0 sample_v2 ?p)) (i, s) (Fin 0)", OF g] by blast
  have mi: "milestoneEntries 0 sample_v2 card_ctx False = Inr []"
    by (simp add: milestoneEntries_def Let_def sample_v2_fields List.map_filter_def)
  obtain r where up: "applyCapEntry ''me'' sample_v2 d0 sample_entry = Inr (d0\<lparr>db_cap_states := db_cap_states (sample_rows 100 0 None)\<rparr>, r)"
    using sample_upserts(1)[OF assms(2)] by blast
  obtain q where fee: "upsertFee ''me'' ''uc'' (JNum (Fin 1000)) (d0\<lparr>db_cap_states := db_cap_states (sample_rows 100 0 None)\<rparr>) sample_fee_entry
      = Inr (d0\<lparr>db_cap_states := db_cap_states (sample_rows 100 0 None), db_fee_states := db_fee_states (sample_rows 0 25000 None)\<rparr>, q)"
    using sample_upserts(2)[OF assms(2)] by blast
  have fe: "fee_entries sample_v2 sample_args False (d0\<lparr>db_cap_states := rows\<rparr>) = Inr [(JNum (Fin 1000), sample_fee_entry)]" for rows
    by (rule sample_fee) (use sf in simp)
  have fin: "finishTransaction ''me'' ''t'' out (Some sample_record) d1 = Inr (update_txn ''t'' ''me'' (\<lambda>t. t\<lparr>tx_expected_value_inr := JNum (Fin 0),
      tx_expected_points := JNum (Fin 0), tx_expected_cashback_inr := JNull, tx_card_state_v2 := Some sample_record\<rparr>) d1)" for d1
    by (simp add: finishTransaction_def out sample_money money_def fits_def of_num_def)
  have res: "update_txn ''t'' ''me'' (\<lambda>t. t\<lparr>tx_expected_value_inr := JNum (Fin 0), tx_expected_points := JNum (Fin 0),
        tx_expected_cashback_inr := JNull, tx_card_state_v2 := Some sample_record\<rparr>)
      (d0\<lparr>db_cap_states := db_cap_states (sample_rows 100 0 None), db_fee_states := db_fee_states (sample_rows 0 25000 None)\<rparr>)
    = sample_rows 100 25000 (Some sample_record)"
    using assms(2) by (auto simp: sample_start_def update_txn_def sample_rows_def sample_db_def sample_txn_def owned_txn_def)
  show ?thesis
    unfolding applyTransactionV2_def Let_def id ctx assms(1) ebind_Inr sample_capPlan cur prod.case out(1)
    by (simp add: out up mi fe fee fin sample_toRecord sample_v2_fields res ledgerRows_def)
qed


lemma sample_reverse: "\<exists>ups. reverseRecord ''me'' (Some sample_record) (sample_rows 100 25000 (Some sample_record))
    = Inr (sample_rows 0 0 (Some sample_record), ups)"
  by (simp add: reverseRecord_def sample_record_def reverseCap_def reverseFee_def Let_def sample_rows_def sample_db_def
      sample_entry_def sample_fee_entry_def sample_money fits_def settleFeeWaiver_def fee_threshold_def sample_fee_rule_def)

lemma sample_stored: "stored_record (sample_rows c f rec) ''t'' ''me'' = rec" "stored_record sample_db ''t'' ''me'' = None"
  by (simp_all add: stored_record_def sample_rows_def sample_db_def sample_txn_def owned_txn_def)

lemma sample_apply: "\<exists>ups. applyTransactionV2 0 ''me'' None sample_v2 sample_args sample_db = Inr (sample_rows 100 25000 (Some sample_record), ups)"
  by (rule sample_apply_start[of _ sample_db]) (simp_all add: clear_applied_def sample_stored sample_start_def)

lemma sample_apply_again: "\<exists>ups. applyTransactionV2 0 ''me'' None sample_v2 sample_args (sample_rows 100 25000 (Some sample_record))
    = Inr (sample_rows 100 25000 (Some sample_record), ups)"
proof -
  have "delete_ledger ''t'' ''me'' (sample_rows 0 0 (Some sample_record)) = sample_rows 0 0 (Some sample_record)"
    by (simp add: delete_ledger_def sample_rows_def sample_db_def)
  then have "clear_applied ''me'' ''t'' (sample_rows 100 25000 (Some sample_record)) = Inr (sample_rows 0 0 (Some sample_record))"
    using sample_reverse by (auto simp: clear_applied_def sample_stored)
  then show ?thesis by (rule sample_apply_start) (simp_all add: sample_start_def sample_rows_def)
qed

lemma sample_undo: "\<exists>ups. reverseTransactionV2 ''me'' ''t'' (sample_rows 100 25000 (Some sample_record)) = Inr (sample_rows 0 0 None, ups)"
proof -
  have "delete_ledger ''t'' ''me'' (update_txn ''t'' ''me'' zero_expected (sample_rows 0 0 (Some sample_record))) = sample_rows 0 0 None"
    by (simp add: update_txn_def delete_ledger_def zero_expected_def sample_rows_def sample_db_def sample_txn_def owned_txn_def nullish_def)
  then show ?thesis using sample_reverse by (auto simp: reverseTransactionV2_def sample_stored)
qed

lemma sample_books: "books ''me'' {''uc''} sample_db"
  by (simp add: books_def well_kept_def own_rows_def balanced_def table_defs recorded_def sample_db_def sample_txn_def)

lemma sample_sound: "sound_card sample_v2"
proof -
  have "v_card sample_v2 = blank_card" "v_rules sample_v2 = [sample_earn]" by (simp_all add: sample_v2_def)
  moreover have "cr_post_cap_rate c = JNull" if "c \<in> set (engine_caps sample_v2)" for c
    using that by (simp add: engine_caps_def sample_v2_def sample_state_cap_def sample_count_cap_def blank_cap_def
        cap_row.extend_def cap_row.truncate_def)
  ultimately show ?thesis
    using sample_facts(1) by (auto simp: sound_card_def wf_rates_def implicitBaseRule_def sample_earn_def blank_rule_def blank_card_def
        cardModes_def of_num_def num_def nullish_def)
qed

lemma sample_find: "find (owned_txn (aa_txnId sample_args) ''me'') (db_txns sample_db) \<noteq> None"
    "aa_txnId sample_args = ''t''" "nn (to_number (aa_amount sample_args))"
  by (simp_all add: sample_args_def sample_db_def sample_txn_def owned_txn_def)

section \<open>Witnesses\<close>

lemma recording_keeps_books_witness:
  "\<exists>ups. applyTransactionV2 0 ''me'' None sample_v2 sample_args sample_db = Inr (sample_rows 100 25000 (Some sample_record), ups)
     \<and> books ''me'' {''uc''} (sample_rows 100 25000 (Some sample_record))
     \<and> cap_units ''me'' (sample_rows 100 25000 (Some sample_record)) (''uc'', ''k'', ''2026-11-01'') = 100"
proof -
  obtain ups where a: "applyTransactionV2 0 ''me'' None sample_v2 sample_args sample_db = Inr (sample_rows 100 25000 (Some sample_record), ups)"
    using sample_apply by blast
  have "books ''me'' {''uc''} (sample_rows 100 25000 (Some sample_record))"
    using recording_keeps_books[OF sample_books _ sample_sound sample_find(3,1) a] by (simp add: sample_v2_fields)
  then show ?thesis using a by (simp add: cap_units_def sample_rows_def)
qed

lemma reversal_keeps_books_witness:
  "\<exists>ups. reverseTransactionV2 ''me'' ''t'' (sample_rows 100 25000 (Some sample_record)) = Inr (sample_rows 0 0 None, ups)
     \<and> books ''me'' {''uc''} (sample_rows 0 0 None) \<and> stored_record (sample_rows 0 0 None) ''t'' ''me'' = None"
proof -
  obtain ups where a: "applyTransactionV2 0 ''me'' None sample_v2 sample_args sample_db = Inr (sample_rows 100 25000 (Some sample_record), ups)"
    using sample_apply by blast
  obtain t where "find (owned_txn (aa_txnId sample_args) ''me'') (db_txns sample_db) = Some t" using sample_find(1) by auto
  then have b: "books ''me'' {''uc''} (sample_rows 100 25000 (Some sample_record))"
    using apply_core[OF sample_books _ sample_sound sample_find(3) _ a] by (simp add: sample_v2_fields)
  obtain ups' where r: "reverseTransactionV2 ''me'' ''t'' (sample_rows 100 25000 (Some sample_record)) = Inr (sample_rows 0 0 None, ups')"
    using sample_undo by blast
  show ?thesis using reversal_keeps_books[OF b r] r by blast
qed

lemma reverse_undoes_recording_witness:
  "\<exists>ups ups'. applyTransactionV2 0 ''me'' None sample_v2 sample_args sample_db = Inr (sample_rows 100 25000 (Some sample_record), ups)
     \<and> reverseTransactionV2 ''me'' ''t'' (sample_rows 100 25000 (Some sample_record)) = Inr (sample_rows 0 0 None, ups')
     \<and> cap_units ''me'' (sample_rows 0 0 None) (''uc'', ''k'', ''2026-11-01'') = cap_units ''me'' sample_db (''uc'', ''k'', ''2026-11-01'')"
proof -
  obtain ups ups' where a: "applyTransactionV2 0 ''me'' None sample_v2 sample_args sample_db = Inr (sample_rows 100 25000 (Some sample_record), ups)"
    and r: "reverseTransactionV2 ''me'' ''t'' (sample_rows 100 25000 (Some sample_record)) = Inr (sample_rows 0 0 None, ups')"
    using sample_apply sample_undo by blast
  have u: "v_userCardId sample_v2 \<in> {''uc''}" by (simp add: sample_v2_fields)
  show ?thesis
    using reverse_undoes_recording[OF sample_books u sample_sound sample_find(3,1) sample_stored(2)[folded sample_find(2)] a
        r[folded sample_find(2)]] a r by blast
qed

lemma recording_twice_counts_once_witness:
  "\<exists>ups ups'. applyTransactionV2 0 ''me'' None sample_v2 sample_args sample_db = Inr (sample_rows 100 25000 (Some sample_record), ups)
     \<and> applyTransactionV2 0 ''me'' None sample_v2 sample_args (sample_rows 100 25000 (Some sample_record))
         = Inr (sample_rows 100 25000 (Some sample_record), ups')
     \<and> moved_by ''me'' ''uc'' None None (sample_rows 100 25000 (Some sample_record)) (sample_rows 100 25000 (Some sample_record))"
proof -
  obtain ups ups' where a: "applyTransactionV2 0 ''me'' None sample_v2 sample_args sample_db = Inr (sample_rows 100 25000 (Some sample_record), ups)"
    and b: "applyTransactionV2 0 ''me'' None sample_v2 sample_args (sample_rows 100 25000 (Some sample_record))
         = Inr (sample_rows 100 25000 (Some sample_record), ups')"
    using sample_apply sample_apply_again by blast
  have u: "v_userCardId sample_v2 \<in> {''uc''}" by (simp add: sample_v2_fields)
  show ?thesis
    using recording_twice_counts_once[OF sample_books u sample_v2_fields(2) sample_sound sample_find(3,1) a b] a b by blast
qed

end
