(* ===== verification/CardCache.thy ===== *)
theory CardCache
  imports CardInvariant
begin

text \<open>
  What a server process remembers between requests (the products it found to be of the first
  generation), and the hook every recording goes through: the memory never hides a second-generation
  card, and an error never leaves the books half-written.
\<close>

section \<open>The memory of first-generation products\<close>

text \<open>
  Every change of a product's rules or caps gives it a new \<open>data_version\<close>, so a product and a version
  stand for one content; the two roundings are null or one of the named modes.
\<close>

type_synonym content = "string \<Rightarrow> string \<Rightarrow> rule_row list \<times> state_cap list"

definition versioned :: "content \<Rightarrow> db \<Rightarrow> bool" where
  "versioned content d \<longleftrightarrow> (\<forall>u \<in> set (db_user_cards d).
     content (uc_card_product_id u) (uc_data_version u) = (db_rules d (uc_card_product_id u), db_caps d (uc_card_product_id u))
   \<and> cd_accrual_rounding (uc_card u) \<noteq> Some [] \<and> cd_cashback_rounding (uc_card u) \<noteq> Some [])"

definition fresh_process :: process where
  "fresh_process = \<lparr>pr_directory = None, pr_v1Shapes = []\<rparr>"

text \<open>The states a process can be in: it starts empty, loads cards and directories, and is cleared.\<close>

inductive process_state :: "content \<Rightarrow> process \<Rightarrow> bool" for content where
  start: "process_state content fresh_process"
| card: "process_state content pr \<Longrightarrow> versioned content d \<Longrightarrow> process_state content (snd (loadV2Card tz d pr cardId profileId))"
| directory: "process_state content pr \<Longrightarrow> process_state content (snd (loadDirectoryCached now merchants platforms pr))"
| clear: "process_state content pr \<Longrightarrow> process_state content (clearDirectoryCache pr)"

text \<open>A remembered key stands for a content that is not second-generation.\<close>

definition v1_content :: "content \<Rightarrow> string \<times> string \<times> string \<times> string \<Rightarrow> bool" where
  "v1_content content = (\<lambda>(product, version, accrual, cashback). accrual = [] \<and> cashback = []
     \<and> (case content product version of (rules, caps) \<Rightarrow>
          \<not> list_ex (\<lambda>c. cr_cap_kind c \<noteq> None) caps \<and> \<not> list_ex ruleIsV2 rules))"

definition remembers_v1 :: "content \<Rightarrow> process \<Rightarrow> bool" where
  "remembers_v1 content pr \<longleftrightarrow> (\<forall>k \<in> set (pr_v1Shapes pr). v1_content content k) \<and> length (pr_v1Shapes pr) \<le> V1_SHAPE_CACHE_MAX"

lemma v1_content_shape:
  assumes "versioned content d" and "u \<in> set (db_user_cards d)"
  shows "v1_content content (shapeKey u) \<longleftrightarrow> \<not> card_is_v2 d u"
proof -
  have c: "content (uc_card_product_id u) (uc_data_version u) = (db_rules d (uc_card_product_id u), db_caps d (uc_card_product_id u))"
    and r: "cd_accrual_rounding (uc_card u) \<noteq> Some []" "cd_cashback_rounding (uc_card u) \<noteq> Some []"
    using assms by (simp_all add: versioned_def)
  have t: "text_of v = [] \<longleftrightarrow> v = None" if "v \<noteq> Some []" for v using that by (cases v) (auto simp: text_of_def)
  have k: "list_ex (\<lambda>c. \<exists>y. cr_cap_kind c = Some y) (map cap_row.truncate cs) = list_ex (\<lambda>c. \<exists>y. cr_cap_kind c = Some y) cs" for cs :: "state_cap list"
    by (induction cs) (simp_all add: cap_row.truncate_def)
  show ?thesis
    by (simp add: v1_content_def shapeKey_def card_is_v2_def isV2Card_def c t[OF r(1)] t[OF r(2)] k)
qed

lemma find_card_member: "find_card d i p = Some u \<Longrightarrow> u \<in> set (db_user_cards d)"
  unfolding find_card_def by (auto dest!: find_member)

lemma length_add_new: "length (add_new x xs) \<le> Suc (length xs)"
  by (simp add: add_new_def)

lemma loadV2Card_remembers:
  assumes "remembers_v1 content pr" and "versioned content d"
  shows "remembers_v1 content (snd (loadV2Card tz d pr i p))"
proof -
  have "v1_content content (shapeKey u)" if "find_card d (text_of i) p = Some u" "\<not> card_is_v2 d u" for u
    using v1_content_shape[OF assms(2) find_card_member[OF that(1)]] that(2) by simp
  moreover have len: "length (add_new (shapeKey u) (if V1_SHAPE_CACHE_MAX \<le> length ks then [] else ks)) \<le> V1_SHAPE_CACHE_MAX" for u ks
    using length_add_new[of "shapeKey u" "if V1_SHAPE_CACHE_MAX \<le> length ks then [] else ks"] by (auto simp: V1_SHAPE_CACHE_MAX_def)
  moreover have "length (add_new (shapeKey u) []) \<le> V1_SHAPE_CACHE_MAX" for u using len[of u "[]"] by (simp add: V1_SHAPE_CACHE_MAX_def)
  moreover have "\<not> V1_SHAPE_CACHE_MAX \<le> length (pr_v1Shapes pr) \<Longrightarrow> length (add_new (shapeKey u) (pr_v1Shapes pr)) \<le> V1_SHAPE_CACHE_MAX" for u
    using len[of u "pr_v1Shapes pr"] by simp
  ultimately show ?thesis
    using assms(1) by (auto simp: loadV2Card_def remembers_v1_def Let_def split: option.splits)
qed

lemma process_remembers: "process_state content pr \<Longrightarrow> remembers_v1 content pr"
proof (induction rule: process_state.induct)
  case start
  then show ?case by (simp add: remembers_v1_def fresh_process_def)
next
  case (card pr d tz i p)
  then show ?case by (intro loadV2Card_remembers)
next
  case (directory pr now merchants platforms)
  then show ?case by (auto simp: remembers_v1_def loadDirectoryCached_def split: option.splits)
next
  case (clear pr)
  then show ?case by (simp add: remembers_v1_def clearDirectoryCache_def)
qed

text \<open>
  C29: The memory of first-generation products never changes an answer: in every state a process can
  reach, loading a card returns what a process without memory returns (so a card that became
  second-generation is seen at once), and the memory stays within its bound.
\<close>

theorem shape_cache_sound:
  assumes "process_state content pr" and "versioned content d"
  shows "fst (loadV2Card tz d pr i p) = fst (loadV2Card tz d fresh_process i p) \<and> length (pr_v1Shapes pr) \<le> V1_SHAPE_CACHE_MAX"
proof -
  note r = process_remembers[OF assms(1)]
  have "\<not> card_is_v2 d u" if "find_card d (text_of i) p = Some u" "shapeKey u \<in> set (pr_v1Shapes pr)" for u
    using r that v1_content_shape[OF assms(2) find_card_member[OF that(1)]] by (auto simp: remembers_v1_def)
  then show ?thesis
    using r by (auto simp: loadV2Card_def fresh_process_def remembers_v1_def Let_def split: option.splits)
qed


section \<open>The hook\<close>

definition others :: "string \<Rightarrow> string \<Rightarrow> db \<Rightarrow> stored_txn list" where
  "others i P d = filter (\<lambda>t. \<not> owned_txn i P t) (db_txns d)"

lemma others_update: "(\<And>t. tx_profile_id (f t) = tx_profile_id t \<and> tx_id (f t) = tx_id t) \<Longrightarrow> others i P (update_txn i P f d) = others i P d"
proof -
  assume f: "\<And>t. tx_profile_id (f t) = tx_profile_id t \<and> tx_id (f t) = tx_id t"
  have "filter (\<lambda>t. \<not> owned_txn i P t) (map (\<lambda>t. if owned_txn i P t then f t else t) ts) = filter (\<lambda>t. \<not> owned_txn i P t) ts" for ts
    using f by (induction ts) (auto simp: owned_txn_def)
  then show ?thesis by (simp add: others_def update_txn_def)
qed

lemma others_cong: "db_txns d' = db_txns d \<Longrightarrow> others i P d' = others i P d"
  by (simp add: others_def)

lemma zero_expected_keys: "tx_profile_id (zero_expected t) = tx_profile_id t \<and> tx_id (zero_expected t) = tx_id t"
  by (simp add: zero_expected_def)

lemma apply_others:
  assumes "books P cards d" and "v_userCardId v2 \<in> cards" and "applyTransactionV2 tz P dir v2 args d = Inr (d', ups)"
  shows "others (aa_txnId args) P d' = others (aa_txnId args) P d"
proof -
  obtain d0 d2 d3 d4 d5 ctx p out cs miles ms fees fs ls where
    cl: "clear_applied P (aa_txnId args) d = Inr d0" and
    c: "upsertAll (applyCapEntry P v2) d0 (oc_capEntries out) = Inr (d2, cs)" and
    m: "upsertAll (upsertMilestone P (v_userCardId v2)) d2 miles = Inr (d3, ms)" and
    f: "upsertAll (\<lambda>d (th, e). upsertFee P (v_userCardId v2) th d e) d3 fees = Inr (d4, fs)" and
    fin: "finishTransaction P (aa_txnId args) out (toRecord (v_userCardId v2) (oc_capEntries out) miles (map snd fees)) d4 = Inr d5" and
    d': "d' = d5\<lparr>db_ledger := db_ledger d5 @ ls\<rparr>"
    by (rule apply_phases[OF assms(3) clear_native(1)[OF assms(1,2)]])
  obtain g where d5: "d5 = update_txn (aa_txnId args) P g d4" and g: "\<And>t. tx_profile_id (g t) = tx_profile_id t \<and> tx_id (g t) = tx_id t"
    using finishTransaction_update[OF fin] by blast
  have "db_txns d4 = db_txns d"
    using but_counters_fields[OF caps_frame[OF c]] but_counters_fields[OF milestones_frame[OF m]] but_counters_fields[OF fees_frame[OF f]]
      clear_native(2)[OF assms(1,2) cl] by simp
  then have "others (aa_txnId args) P d5 = others (aa_txnId args) P d"
    using others_update[of g "aa_txnId args" P d4, OF g] others_cong[of d4 d] by (simp add: d5)
  then show ?thesis by (simp add: d' others_def)
qed

lemma reverse_others:
  assumes "books P cards d" and "reverseTransactionV2 P i d = Inr (d', ups)"
  shows "others i P d' = others i P d"
proof -
  obtain d1 where r: "reverseRecord P (stored_record d i P) d = Inr (d1, ups)"
    and d': "d' = delete_ledger i P (update_txn i P zero_expected d1)"
    using assms(2) by (auto simp: reverseTransactionV2_def ebind_eq_Inr)
  have "well_kept P d" using assms(1) by (simp add: books_def)
  then have "db_txns d1 = db_txns d" using reverseRecord_counters[OF r stored_record_sane] but_counters_fields by blast
  then show ?thesis
    using others_update[of zero_expected i P d1, OF zero_expected_keys] others_cong[of d1 d] by (simp add: d' others_def)
qed

text \<open>Setting a transaction that carries no record to "no record" changes no book.\<close>

lemma books_no_record:
  assumes bk: "books P cards d" and none: "stored_record d i P = None"
    and f: "\<And>t. tx_profile_id (f t) = tx_profile_id t \<and> tx_id (f t) = tx_id t \<and> tx_card_state_v2 (f t) = None"
  shows "books P cards (update_txn i P f d)"
proof (cases "find (owned_txn i P) (db_txns d)")
  case None
  then show ?thesis using bk by (simp add: update_txn_none)
next
  case (Some t)
  have wk: "well_kept P d" using bk by (simp add: books_def)
  have "recorded P sec (update_txn i P f d) k = recorded P sec d k" for sec k
    using recorded_update_txn[OF wk Some, of f sec k] f none Some by (simp add: stored_record_def)
  then show ?thesis
    using bk well_kept_update[OF wk, of f i] f by (simp add: books_def balanced_def)
qed

lemma defer_books:
  assumes "books P cards d" and "stored_record d (aa_txnId args) P = None"
  shows "books P cards (deferTransaction P args d) \<and> others (aa_txnId args) P (deferTransaction P args d) = others (aa_txnId args) P d"
proof -
  have z: "books P cards (update_txn (aa_txnId args) P zero_expected d)"
    by (rule books_no_record[OF assms]) (simp add: zero_expected_def)
  have n: "books P cards (update_txn (aa_txnId args) P (\<lambda>t. t\<lparr>tx_card_state_v2 := None\<rparr>) d)"
    by (rule books_no_record[OF assms]) simp
  have l: "books P cards (delete_ledger i P d') = books P cards d'" for i d'
    by (simp add: books_def balanced_def)
  show ?thesis
    using z n assms(1) others_update[of zero_expected "aa_txnId args" P d, OF zero_expected_keys]
      others_update[of "\<lambda>t. t\<lparr>tx_card_state_v2 := None\<rparr>" "aa_txnId args" P d]
    by (auto simp: deferTransaction_def l others_def)
qed

text \<open>
  C28: Whatever happens inside the hook, the books are kept: for a transaction that carries no record,
  recording or reversing through the hook leaves every row equal to the sum of the recorded entries,
  also when the work fails and is rolled back; no other transaction is touched, and a card of the
  first generation is left entirely alone.
\<close>

theorem hook_keeps_books:
  assumes "books P cards d" and "stored_record d (aa_txnId args) P = None"
    and "find (owned_txn (aa_txnId args) P) (db_txns d) \<noteq> None" and "nn (to_number (aa_amount args))"
    and "\<And>v2. fst (loadV2Card tz d pr (or_text (aa_userCardId args) cardId) (Some P)) = Some v2 \<Longrightarrow> v_userCardId v2 \<in> cards \<and> sound_card v2"
    and "applyIfV2 tz P dir cardId args pr d = ((d', ups), pr')"
  shows "books P cards d' \<and> others (aa_txnId args) P d' = others (aa_txnId args) P d \<and> (ups = None \<longrightarrow> d' = d)"
proof -
  obtain card pr0 where l: "loadV2Card tz d pr (or_text (aa_userCardId args) cardId) (Some P) = (card, pr0)" by fastforce
  show ?thesis
  proof (cases card)
    case None
    then show ?thesis using assms(1,6) by (simp add: applyIfV2_def l)
  next
    case (Some v2)
    then have v2: "v_userCardId v2 \<in> cards" "sound_card v2" using assms(5) l by auto
    define work where "work = (if aa_sign args < 0 then reverseTransactionV2 P (aa_txnId args) d else applyTransactionV2 tz P dir v2 args d)"
    show ?thesis
    proof (cases work)
      case (Inl e)
      then have "d' = deferTransaction P args d" "ups = Some no_updates"
        using assms(6) Some by (auto simp: applyIfV2_def l work_def)
      then show ?thesis using defer_books[OF assms(1,2)] by simp
    next
      case (Inr r)
      then have r: "work = Inr (d', the ups)" "ups \<noteq> None"
        using assms(6) Some by (auto simp: applyIfV2_def l work_def split: prod.splits)
      obtain t where t: "find (owned_txn (aa_txnId args) P) (db_txns d) = Some t" using assms(3) by auto
      show ?thesis
      proof (cases "aa_sign args < 0")
        case True
        then have "reverseTransactionV2 P (aa_txnId args) d = Inr (d', the ups)" using r by (simp add: work_def)
        then show ?thesis using reverse_core[OF assms(1)] reverse_others[OF assms(1)] r(2) by blast
      next
        case False
        then have a: "applyTransactionV2 tz P dir v2 args d = Inr (d', the ups)" using r by (simp add: work_def)
        show ?thesis using apply_core[OF assms(1) v2 assms(4) t a] apply_others[OF assms(1) v2(1) a] r(2) by blast
      qed
    qed
  qed
qed

end
