(* ===== verification/CardRebuild.thy ===== *)
theory CardRebuild
  imports CardInvariant
begin

text \<open>
  The rebuild replays a card's transactions and adds their entries up as Numbers. Within the range of
  the money columns the sum is exact: a rebuilt row is the sum of the hundredths its transactions'
  entries carry, which is the invariant recording and reversing keep.
\<close>

section \<open>Adding up money\<close>

lemma fl_error_sum: "\<bar>x\<bar> \<le> 300000000 \<Longrightarrow> \<bar>fl x - x\<bar> \<le> 1 / 20000000"
  using fl_abs_error[of x, unfolded power_consts] by linarith

lemma of_money_near:
  assumes "\<bar>k\<bar> \<le> 10 ^ 10"
  obtains y where "of_money k = Fin y" "\<bar>y - of_int k / 100\<bar> \<le> 1 / 20000000"
proof -
  have "\<bar>of_int k :: rat\<bar> \<le> 10000000000" using assms of_int_le_iff[of "\<bar>k\<bar>" "10 ^ 10", where 'a = rat] by simp
  then have b: "\<bar>of_int k / 100 :: rat\<bar> \<le> 100000000" by linarith
  then have b': "\<bar>of_int k / 100 :: rat\<bar> \<le> 300000000" "\<bar>of_int k / 100 :: rat\<bar> \<le> 2000000000000" by linarith+
  show ?thesis using that fl_error_sum[OF b'(1)] finite_range[OF b'(2)] by (simp add: of_money_def)
qed

text \<open>Up to ten thousand amounts with a total of up to a hundred million.\<close>

lemma add_money:
  assumes "\<bar>x - of_int T / 100\<bar> \<le> of_nat n / 10000000" and "n \<le> 10000" and "0 \<le> T" "T \<le> 10 ^ 10" "0 \<le> c" "c \<le> 10 ^ 10"
  shows "\<exists>z. Fin x + of_money c = Fin z \<and> \<bar>z - of_int (T + c) / 100\<bar> \<le> of_nat (Suc n) / 10000000"
proof -
  obtain y where y: "of_money c = Fin y" "\<bar>y - of_int c / 100\<bar> \<le> 1 / 20000000"
    by (rule of_money_near[of c]) (use assms in auto)
  have T: "0 \<le> (of_int T :: rat)" "(of_int T :: rat) \<le> 10000000000" "0 \<le> (of_int c :: rat)" "(of_int c :: rat) \<le> 10000000000"
    using assms of_int_le_iff[of _ "10 ^ 10", where 'a = rat] by (simp_all flip: of_int_power)
  have n: "(of_nat n :: rat) \<le> 10000" using assms(2) by (metis of_nat_le_iff of_nat_numeral)
  have b: "\<bar>x + y\<bar> \<le> 300000000" using assms(1) n T y(2) by linarith
  then have b': "\<bar>x + y\<bar> \<le> 2000000000000" by linarith
  have "\<bar>fl (x + y) - (x + y)\<bar> \<le> 1 / 20000000" by (rule fl_error_sum[OF b])
  then have "\<bar>fl (x + y) - of_int (T + c) / 100\<bar> \<le> of_nat (Suc n) / 10000000"
    using assms(1) y(2) unfolding of_int_add of_nat_Suc add_divide_distrib abs_le_iff by linarith
  then show ?thesis by (simp add: y(1) finite_range[OF b'])
qed

lemma sum_money_near:
  assumes "\<forall>c \<in> set cs. 0 \<le> c" and "sum_list cs \<le> 10 ^ 10" and "length cs \<le> 10000"
  shows "\<exists>x. foldl (+) (Fin 0) (map of_money cs) = Fin x \<and> \<bar>x - of_int (sum_list cs) / 100\<bar> \<le> of_nat (length cs) / 10000000"
  using assms
proof (induction cs rule: rev_induct)
  case Nil
  then show ?case by simp
next
  case (snoc c cs)
  have nn: "0 \<le> c" "0 \<le> sum_list cs" using snoc.prems(1) by (auto intro: sum_list_nonneg)
  then obtain x where x: "foldl (+) (Fin 0) (map of_money cs) = Fin x"
    "\<bar>x - of_int (sum_list cs) / 100\<bar> \<le> of_nat (length cs) / 10000000"
    using snoc by auto
  show ?case
    using add_money[OF x(2), of c] snoc.prems nn by (simp add: x(1))
qed

lemma sum_money_exact:
  assumes "\<forall>c \<in> set cs. 0 \<le> c" and "sum_list cs \<le> 10 ^ 10" and "length cs \<le> 10000"
  shows "round2s (foldl (+) (Fin 0) (map of_money cs)) = of_money (sum_list cs)"
proof -
  obtain x where x: "foldl (+) (Fin 0) (map of_money cs) = Fin x"
    "\<bar>x - of_int (sum_list cs) / 100\<bar> \<le> of_nat (length cs) / 10000000"
    using sum_money_near[OF assms] by blast
  have "(of_nat (length cs) :: rat) \<le> 10000" using assms(3) by (metis of_nat_le_iff of_nat_numeral)
  then have "\<bar>x - of_int (sum_list cs) / 100\<bar> \<le> 1 / 1000" using x(2) by linarith
  moreover have "\<bar>sum_list cs\<bar> \<le> 10 ^ 12" using assms(1,2) sum_list_nonneg[of cs] by auto
  ultimately show ?thesis using round2s_near x(1) by simp
qed

section \<open>The rows of a replay\<close>

definition slot :: "cap_slots \<Rightarrow> row_key \<Rightarrow> jsnum option" where
  "slot rows k = map_option cs_consumed (map_of rows k)"

lemma slot_addToCapRow:
  "slot (addToCapRow v2 rows e) k = (if k = entry_key e then map_option (\<lambda>c. c + en_delta e) (slot rows k) else slot rows k)"
  by (auto simp: slot_def addToCapRow_def add_to_slot_def Let_def split: option.splits)

lemma slot_putCapRow:
  "slot rows k = Some c \<Longrightarrow> slot (putCapRow v2 rows e) k = Some (if k = entry_key e then c + en_delta e else c)"
  using slot_addToCapRow[of v2 rows e k] by (auto simp: putCapRow_def) (auto simp: slot_def)

definition deltas_at :: "row_key \<Rightarrow> entry list \<Rightarrow> jsnum list" where
  "deltas_at k es = map en_delta (filter (\<lambda>e. entry_key e = k) es)"

lemma slot_adds: "slot rows k = Some c \<Longrightarrow> slot (foldl (addToCapRow v2) rows es) k = Some (foldl (+) c (deltas_at k es))"
  by (induction es arbitrary: rows c) (auto simp: deltas_at_def slot_addToCapRow)

lemma slot_puts: "slot rows k = Some c \<Longrightarrow> slot (foldl (putCapRow v2) rows es) k = Some (foldl (+) c (deltas_at k es))"
  by (induction es arbitrary: rows c) (auto simp: deltas_at_def slot_putCapRow)

text \<open>The entries a transaction contributes: its new ones when it is replayed, its recorded ones as a seed.\<close>

definition contribution :: "string list \<Rightarrow> (string \<times> entry list) list \<Rightarrow> txn_row \<Rightarrow> entry list" where
  "contribution excluded fresh t =
     (if \<not> isEligible excluded t then [] else case map_of fresh (tx_id t) of Some es \<Rightarrow> es | None \<Rightarrow> record_caps t)"


text \<open>What the replay of one transaction does: nothing, its recorded entries as a seed, or new entries.\<close>

lemma replay_cap_txn_cases:
  assumes "replay_cap_txn tz v2 dir g expected excluded st t = Inr st'"
  obtains (skipped) "\<not> isEligible excluded t" "st' = st"
  | (seed) "isEligible excluded t" "st' = st\<lparr>cy_rows := foldl (addToCapRow v2) (cy_rows st) (record_caps t)\<rparr>"
  | (replayed) p out where "isEligible excluded t"
      "computeTransactionV2 tz v2 dir (transactionContext t) (consumed_in (cy_rows st)) p = Inr out"
      "cy_rows st' = foldl (putCapRow v2) (cy_rows st) (oc_capEntries out)"
      "cy_entries st' = mset_put (tx_id t) (oc_capEntries out) (cy_entries st)"
proof (cases "isEligible excluded t")
  case False
  then show ?thesis using assms skipped by (simp add: replay_cap_txn_def)
next
  case el: True
  then obtain day where day: "dayOf (tx_occurred_at t) = Inr day" using assms by (auto simp: replay_cap_txn_def ebind_eq_Inr)
  show ?thesis
  proof (cases "str_less day (cg_start g) \<or> str_less (cg_end g) day")
    case True
    then show ?thesis using assms el seed by (simp add: replay_cap_txn_def day)
  next
    case False
    then obtain p out where c: "computeTransactionV2 tz v2 dir (transactionContext t) (consumed_in (cy_rows st)) p = Inr out"
      "st' = \<lparr>cy_rows = foldl (putCapRow v2) (cy_rows st) (oc_capEntries out),
                    cy_entries = mset_put (tx_id t) (oc_capEntries out) (cy_entries st),
                    cy_expected = cy_expected st @ expected_change expected t out\<rparr>"
      using assms el by (auto simp: replay_cap_txn_def day ebind_eq_Inr)
    then show ?thesis using replayed[OF el c(1)] by simp
  qed
qed

lemma replay_slot:
  assumes "efold (replay_cap_txn tz v2 dir g expected excluded) st ts = Inr st'" and "slot (cy_rows st) k = Some c"
    and "distinct (map tx_id ts)" and "\<forall>t \<in> set ts. map_of (cy_entries st) (tx_id t) = None"
  shows "slot (cy_rows st') k = Some (foldl (+) c (deltas_at k (concat (map (contribution excluded (cy_entries st')) ts))))
    \<and> (\<forall>i. i \<notin> tx_id ` set ts \<longrightarrow> map_of (cy_entries st') i = map_of (cy_entries st) i)"
  using assms
proof (induction ts arbitrary: st c)
  case Nil
  then show ?case by (simp add: deltas_at_def)
next
  case (Cons t ts)
  obtain s1 where s1: "replay_cap_txn tz v2 dir g expected excluded st t = Inr s1"
    and f: "efold (replay_cap_txn tz v2 dir g expected excluded) s1 ts = Inr st'"
    using Cons.prems(1) by (auto simp: ebind_eq_Inr)
  obtain es c1 where step: "slot (cy_rows s1) k = Some (foldl (+) c (deltas_at k es))"
    "\<forall>i. i \<noteq> tx_id t \<longrightarrow> map_of (cy_entries s1) i = map_of (cy_entries st) i"
    "isEligible excluded t \<Longrightarrow> (case map_of (cy_entries s1) (tx_id t) of Some es \<Rightarrow> es | None \<Rightarrow> record_caps t) = es"
    "\<not> isEligible excluded t \<Longrightarrow> es = []"
    using s1
  proof (cases rule: replay_cap_txn_cases)
    case skipped
    then show ?thesis using Cons.prems(2) that[of "[]"] by (simp add: deltas_at_def)
  next
    case seed
    then show ?thesis using that[of "record_caps t"] slot_adds[OF Cons.prems(2)] Cons.prems(4) by simp
  next
    case (replayed p out)
    then show ?thesis using that[of "oc_capEntries out"] slot_puts[OF Cons.prems(2)] by simp
  qed
  have "\<forall>t' \<in> set ts. map_of (cy_entries s1) (tx_id t') = None" using step(2) Cons.prems(3,4) by (auto simp: image_iff)
  note IH = Cons.IH[OF f step(1) _ this]
  have IH': "slot (cy_rows st') k = Some (foldl (+) (foldl (+) c (deltas_at k es))
        (deltas_at k (concat (map (contribution excluded (cy_entries st')) ts))))"
    "\<forall>i. i \<notin> tx_id ` set ts \<longrightarrow> map_of (cy_entries st') i = map_of (cy_entries s1) i"
    using IH Cons.prems(3) by simp_all
  have "map_of (cy_entries st') (tx_id t) = map_of (cy_entries s1) (tx_id t)" using IH'(2) Cons.prems(3) by simp
  then have "contribution excluded (cy_entries st') t = es" using step(3,4) by (simp add: contribution_def)
  then show ?case using IH' step(2) by (auto simp: deltas_at_def)
qed


text \<open>The entries of replayed spends are rounded, finite and nonnegative; the keys of the rows stay distinct.\<close>

lemma outcome_finite: "computeTransactionV2 tz v2 dir raw f p = Inr out \<Longrightarrow> e \<in> set (oc_capEntries out) \<Longrightarrow> is_finite (en_delta e)"
  by (force simp: computeTransactionV2_def ebind_eq_Inr List.map_filter_def cap_entry_def split: option.splits if_splits)

definition fresh_ok :: "cap_replay \<Rightarrow> bool" where
  "fresh_ok st \<longleftrightarrow> (\<forall>i es. map_of (cy_entries st) i = Some es \<longrightarrow> (\<forall>e \<in> set es. rounded_entry e \<and> is_finite (en_delta e)))
     \<and> distinct (map fst (cy_rows st))"

lemma keys_addToCapRow: "distinct (map fst rows) \<Longrightarrow> distinct (map fst (addToCapRow v2 rows e))"
  by (auto simp: addToCapRow_def split: option.splits)

lemma keys_putCapRow: "distinct (map fst rows) \<Longrightarrow> distinct (map fst (putCapRow v2 rows e))"
  using keys_addToCapRow by (auto simp: putCapRow_def)

lemma fresh_step:
  assumes "replay_cap_txn tz v2 dir g expected excluded st t = Inr st'" and "sound_card v2" and "fresh_ok st"
  shows "fresh_ok st'"
proof -
  have adds: "distinct (map fst rows) \<Longrightarrow> distinct (map fst (foldl (addToCapRow v2) rows es))"
    "distinct (map fst rows) \<Longrightarrow> distinct (map fst (foldl (putCapRow v2) rows es))" for rows es
    using keys_addToCapRow keys_putCapRow by (induction es arbitrary: rows) auto
  show ?thesis
    using assms(1)
  proof (cases rule: replay_cap_txn_cases)
    case (replayed p out)
    then have "\<forall>e \<in> set (oc_capEntries out). rounded_entry e \<and> is_finite (en_delta e)"
      using outcome_entries[OF replayed(2) assms(2)] outcome_finite[OF replayed(2)] by blast
    then show ?thesis using assms(3) adds(2) replayed(3,4) by (auto simp: fresh_ok_def)
  qed (use assms(3) adds(1) in \<open>auto simp: fresh_ok_def\<close>)
qed

lemma fresh_fold:
  "efold (replay_cap_txn tz v2 dir g expected excluded) st ts = Inr st' \<Longrightarrow> sound_card v2 \<Longrightarrow> fresh_ok st \<Longrightarrow> fresh_ok st'"
  by (induction ts arbitrary: st) (auto simp: ebind_eq_Inr dest: fresh_step)

lemma foldl_keeps: "(\<And>m x. Q m \<Longrightarrow> Q (f m x)) \<Longrightarrow> Q m \<Longrightarrow> Q (foldl f m xs)"
  by (induction xs arbitrary: m) auto

definition empty_rows :: "cap_slots \<Rightarrow> bool" where
  "empty_rows m \<longleftrightarrow> distinct (map fst m) \<and> (\<forall>k s. map_of m k = Some s \<longrightarrow> cs_consumed s = Fin 0)"

lemma slots_of_start: "empty_rows (slots_of ps)"
  unfolding slots_of_def
proof (rule foldl_keeps)
  show "empty_rows m \<Longrightarrow> empty_rows (case x of (c, w) \<Rightarrow> mset_put (cap_key (cap_row.truncate c), sp_start w) (blank_slot c w) m)" for m and x :: "state_cap \<times> span"
    by (cases x) (auto simp: empty_rows_def blank_slot_def split: if_splits)
qed (simp add: empty_rows_def)

lemma map_of_filter_map:
  "distinct (map fst xs) \<Longrightarrow> map_of (filter (\<lambda>(k, s). Q s) (map (\<lambda>(k, s). (k, f s)) xs)) k
     = (case map_of xs k of None \<Rightarrow> None | Some s \<Rightarrow> if Q (f s) then Some (f s) else None)"
  by (induction xs) (auto simp: map_of_eq_None_iff image_iff split: option.splits)


section \<open>Rebuilt rows are exact\<close>

lemma nn_cents: "nn (en_delta e) \<Longrightarrow> 0 \<le> cents e"
  by (cases "en_delta e") (auto simp: cents_def hundredths_def nearest_hundredth_def le_floor_iff)

text \<open>A Number that is the amount its hundredths say.\<close>

definition exact_entry :: "entry \<Rightarrow> bool" where
  "exact_entry e \<longleftrightarrow> 0 \<le> cents e \<and> en_delta e = of_money (cents e)"

lemma rounded_exact:
  assumes "rounded_entry e" and "is_finite (en_delta e)" and "cents e < 10 ^ 12"
  shows "exact_entry e"
proof -
  have h: "hundredths (en_delta e) = Inr (cents e)" using assms(2) by (cases "en_delta e") (auto simp: hundredths_def cents_def)
  obtain x where "en_delta e = round2 x \<or> en_delta e = round2s x" and nn: "nn (en_delta e)" using assms(1) by (auto simp: rounded_entry_def)
  then show ?thesis using posted_amount[OF h assms(3)] by (simp add: exact_entry_def)
qed

definition entries_at :: "row_key \<Rightarrow> entry list \<Rightarrow> entry list" where
  "entries_at k es = filter (\<lambda>e. entry_key e = k) es"

text \<open>
  C31: A rebuilt cap row is exact: for every period the rebuild enumerates, the planned amount (no row
  when it is zero) is the sum, in hundredths, of the entries its spends carry, the new entries of the
  replayed spends and the recorded entries of the spends outside the window. (Up to ten thousand
  entries and a total of a hundred million; recorded seeds are whole hundredths.)
\<close>

theorem rebuilt_cap_exact:
  assumes "replayCaps tz v2 dir rg expected excluded ordered = Inr cy" and "rg_caps rg = Some g" and "rebuildPeriods tz v2 rg = Inr ps"
    and "map_of (slots_of ps) k \<noteq> None" and "sound_card v2" and "distinct (map tx_id ordered)"
    and "\<forall>t \<in> set ordered. \<forall>e \<in> set (record_caps t). exact_entry e"
    and "es = entries_at k (concat (map (contribution excluded (cy_entries cy)) ordered))"
    and "(\<Sum>e\<leftarrow>es. cents e) \<le> 10 ^ 10" and "length es \<le> 10000"
  shows "(case map_of (plannedCaps (cy_rows cy)) k of None \<Rightarrow> Fin 0 | Some s \<Rightarrow> cs_consumed s) = of_money (\<Sum>e\<leftarrow>es. cents e)"
proof -
  let ?st = "\<lparr>cy_rows = slots_of ps, cy_entries = [], cy_expected = []\<rparr>"
  have f: "efold (replay_cap_txn tz v2 dir g expected excluded) ?st ordered = Inr cy"
    using assms(1) by (simp add: replayCaps_def assms(2,3))
  obtain s0 where s0: "map_of (slots_of ps) k = Some s0" using assms(4) by auto
  have "cs_consumed s0 = Fin 0" using slots_of_start[of ps] s0 unfolding empty_rows_def by blast
  then have z: "slot (slots_of ps) k = Some (Fin 0)" by (simp add: slot_def s0)
  have s: "slot (cy_rows cy) k = Some (foldl (+) (Fin 0) (map en_delta es))"
    using replay_slot[OF f _ assms(6), of k "Fin 0"] z by (simp add: deltas_at_def assms(8) entries_at_def)
  have ok: "fresh_ok cy" by (rule fresh_fold[OF f assms(5)]) (use slots_of_start[of ps] in \<open>simp add: fresh_ok_def empty_rows_def\<close>)
  have src: "exact_entry e \<or> rounded_entry e \<and> is_finite (en_delta e)" if "e \<in> set es" for e
    using that ok assms(7) by (auto simp: assms(8) entries_at_def contribution_def fresh_ok_def split: if_splits option.splits)
  then have nn: "\<forall>e \<in> set es. 0 \<le> cents e" using nn_cents by (auto simp: exact_entry_def rounded_entry_def)
  have ex: "exact_entry e" if e: "e \<in> set es" for e
  proof -
    have "cents e \<le> (\<Sum>e\<leftarrow>es. cents e)" by (rule sum_list_ge_member[OF e nn])
    then show ?thesis using src[OF e] rounded_exact assms(9) by auto
  qed
  have d: "map en_delta es = map of_money (map cents es)" using ex by (simp add: exact_entry_def)
  have total: "round2s (foldl (+) (Fin 0) (map en_delta es)) = of_money (\<Sum>e\<leftarrow>es. cents e)"
    unfolding d using sum_money_exact[of "map cents es"] nn assms(9,10) by simp
  obtain row where row: "map_of (cy_rows cy) k = Some row" "cs_consumed row = foldl (+) (Fin 0) (map en_delta es)"
    using s by (auto simp: slot_def)
  have keys: "distinct (map fst (cy_rows cy))" using ok by (simp add: fresh_ok_def)
  have pl: "map_of (plannedCaps (cy_rows cy)) k = (if Fin 0 < of_money (\<Sum>e\<leftarrow>es. cents e)
      then Some (row\<lparr>cs_consumed := of_money (\<Sum>e\<leftarrow>es. cents e), cs_cap_amount := map_option round2s (cs_cap_amount row)\<rparr>) else None)"
    unfolding plannedCaps_def using map_of_filter_map[OF keys, of "\<lambda>s. Fin 0 < cs_consumed s"
        "\<lambda>s. s\<lparr>cs_consumed := round2s (cs_consumed s), cs_cap_amount := map_option round2s (cs_cap_amount s)\<rparr>" k] row total by simp
  have "0 \<le> (\<Sum>e\<leftarrow>es. cents e)" using nn by (intro sum_list_nonneg) auto
  then have "Fin 0 \<le> of_money (\<Sum>e\<leftarrow>es. cents e)" unfolding of_money_def by (intro rnd_nonneg) simp
  then show ?thesis using pl by (auto simp: less_eq_jsnum_def)
qed

end
