(* ===== verification/CardSamples2.thy ===== *)
theory CardSamples2
  imports CardSamples CardCache CardRebuild
begin

text \<open>
  Concrete runs for the cache of card shapes, the hook around recording and the rebuild of counters.
\<close>

definition sample_user :: user_card_row where
  "sample_user = \<lparr>uc_id = ''uc'', uc_profile_id = ''me'', uc_card_product_id = ''p'', uc_statement_day = None, uc_opened_on = DNull,
     uc_anniversary_on = DNull, uc_created_at = DText ''2025-01-01'' None, uc_data_version = ''7'', uc_card = blank_card\<rparr>"

text \<open>A spend whose date is not a date: pricing fails once the card is known to be second-generation.\<close>

definition sample_bad_args :: apply_args where
  "sample_bad_args = sample_args\<lparr>aa_occurred := DText ''x'' None\<rparr>"

definition sample_hook_db :: db where
  "sample_hook_db = sample_db\<lparr>db_user_cards := [sample_user], db_caps := (\<lambda>_. [sample_state_cap])\<rparr>"

abbreviation sample_built :: v2_card where
  "sample_built \<equiv> buildV2Card 0 sample_user [] [sample_state_cap] []"

definition sample_bad_ctx :: raw_ctx where
  "sample_bad_ctx = arg_context sample_bad_args (Some (txn_row.truncate sample_txn))"

lemma sample_hook_card: "loadV2Card 0 sample_hook_db fresh_process (Some ''uc'') (Some ''me'') = (Some sample_built, fresh_process)"
proof -
  have "isV2Card blank_card [] (map cap_row.truncate [sample_state_cap])" by code_simp
  moreover have "find_card sample_hook_db ''uc'' (Some ''me'') = Some sample_user"
    by (simp add: find_card_def sample_hook_db_def sample_user_def)
  moreover have "uc_card sample_user = blank_card" by (simp add: sample_user_def)
  ultimately show ?thesis
    by (simp add: loadV2Card_def has_text_def text_of_def fresh_process_def card_is_v2_def sample_hook_db_def sample_db_def Let_def)
qed

lemma sample_built_facts:
  "exclusion_rules 0 (v_rules sample_built) (resolveContext sample_bad_ctx None) = []"
  "earner_rules 0 (v_rules sample_built) (resolveContext sample_bad_ctx None) = []"
  "fst (applicableCaps (v_card sample_built) (engine_caps sample_built) (Some (implicitBaseRule (v_card sample_built))) (c_category_id (resolveContext sample_bad_ctx None)) False) = [sample_native]"
  "c_amount (resolveContext sample_bad_ctx None) = Fin 250" 
  "instant (c_occurred (resolveContext sample_bad_ctx None)) = Inl InvalidTime"
  "capById sample_built ''k'' \<noteq> None"
  by code_simp+


lemma sample_bad_plan: "capPlan 0 sample_built None sample_bad_ctx = Inl InvalidTime"
proof -
  have k: "nc_id sample_native = ''k''" by (simp add: sample_native_def)
  have "\<not> includes_text (cd_excluded_categories (v_card sample_built)) (c_category_id (resolveContext sample_bad_ctx None))" by code_simp
  then obtain p where p: "pickRuleV2 0 (v_rules sample_built) (resolveContext sample_bad_ctx None) (v_card sample_built) = Inr p"
    "\<not> pk_excluded p" "pk_rule p = Some (implicitBaseRule (v_card sample_built))"
    using sample_built_facts(1,2) by (simp add: pickRuleV2_def Let_def)
  then show ?thesis
    using sample_built_facts by (auto simp: capPlan_def Let_def lift_engine_def planned_cap_def k)
qed

lemma sample_hook: "fst (applyIfV2 0 ''me'' None None sample_bad_args fresh_process sample_hook_db)
    = (deferTransaction ''me'' sample_bad_args sample_hook_db, Some no_updates)"
proof -
  have i: "aa_txnId sample_bad_args = ''t''" "aa_sign sample_bad_args = 1" "or_text (aa_userCardId sample_bad_args) None = Some ''uc''"
    by (simp_all add: sample_bad_args_def sample_args_def or_text_def has_text_def)
  have "stored_record sample_hook_db ''t'' ''me'' = None" using sample_stored(2) by (simp add: stored_record_def sample_hook_db_def)
  then have c: "clear_applied ''me'' ''t'' sample_hook_db = Inr sample_hook_db" by (simp add: clear_applied_def)
  have x: "arg_context sample_bad_args (map_option txn_row.truncate (find (owned_txn ''t'' ''me'') (db_txns sample_hook_db))) = sample_bad_ctx"
    by (simp add: sample_bad_ctx_def sample_hook_db_def sample_db_def sample_txn_def owned_txn_def)
  have "applyTransactionV2 0 ''me'' None sample_built sample_bad_args sample_hook_db = Inl InvalidTime"
    by (simp add: applyTransactionV2_def Let_def i c x sample_bad_plan)
  then show ?thesis by (simp add: applyIfV2_def i sample_hook_card)
qed

lemma hook_keeps_books_witness:
  "\<exists>d' ups pr'. applyIfV2 0 ''me'' None None sample_bad_args fresh_process sample_hook_db = ((d', ups), pr')
     \<and> ups \<noteq> None \<and> books ''me'' {''uc''} d'"
proof -
  obtain d' ups pr' where h: "applyIfV2 0 ''me'' None None sample_bad_args fresh_process sample_hook_db = ((d', ups), pr')"
    by (metis prod.exhaust)
  have i: "aa_txnId sample_bad_args = ''t''" "nn (to_number (aa_amount sample_bad_args))" "or_text (aa_userCardId sample_bad_args) None = Some ''uc''"
    by (simp_all add: sample_bad_args_def sample_args_def or_text_def has_text_def)
  have b: "books ''me'' {''uc''} sample_hook_db"
    using sample_books by (simp add: books_def well_kept_def own_rows_def balanced_def table_defs recorded_def sample_hook_db_def sample_db_def)
  have n: "stored_record sample_hook_db (aa_txnId sample_bad_args) ''me'' = None"
    using sample_stored(2) i by (simp add: stored_record_def sample_hook_db_def)
  have f: "find (owned_txn (aa_txnId sample_bad_args) ''me'') (db_txns sample_hook_db) \<noteq> None"
    using sample_find(1) i by (simp add: sample_hook_db_def sample_args_def)
  have s: "sound_card sample_built"
  proof -
    have "v_card sample_built = blank_card\<lparr>cd_excluded_categories := JArr []\<rparr>" "v_rules sample_built = []" by code_simp+
    moreover have "map cr_post_cap_rate (engine_caps sample_built) = [JNull]" by code_simp
    moreover have "isV2Card (v_card sample_built) (v_rules sample_built) (engine_caps sample_built)" by code_simp
    ultimately show ?thesis
      by (auto simp: sound_card_def wf_rates_def implicitBaseRule_def blank_card_def cardModes_def of_num_def num_def nullish_def map_eq_Cons_conv)
  qed
  have "v_userCardId v2 \<in> {''uc''} \<and> sound_card v2"
    if "fst (loadV2Card 0 sample_hook_db fresh_process (or_text (aa_userCardId sample_bad_args) None) (Some ''me'')) = Some v2" for v2
    using that s unfolding i(3) sample_hook_card by (auto simp: buildV2Card_def Let_def sample_user_def)
  from hook_keeps_books[OF b n f i(2) this h] show ?thesis using h sample_hook by auto
qed

definition sample_content :: content where
  "sample_content = (\<lambda>_ _. ([], []))"

definition sample_v1_db :: db where
  "sample_v1_db = sample_db\<lparr>db_user_cards := [sample_user]\<rparr>"

lemma shape_cache_sound_witness:
  "\<exists>pr. process_state sample_content pr \<and> pr_v1Shapes pr \<noteq> []
     \<and> fst (loadV2Card 0 sample_v1_db pr (Some ''uc'') None) = fst (loadV2Card 0 sample_v1_db fresh_process (Some ''uc'') None)"
proof -
  have v: "versioned sample_content sample_v1_db"
    by (simp add: versioned_def sample_content_def sample_v1_db_def sample_user_def sample_db_def blank_card_def)
  let ?pr = "snd (loadV2Card 0 sample_v1_db fresh_process (Some ''uc'') None)"
  have p: "process_state sample_content ?pr" by (rule process_state.card[OF process_state.start v])
  have "pr_v1Shapes ?pr \<noteq> []" by code_simp
  then show ?thesis using shape_cache_sound[OF p v, of 0 "Some ''uc''" None] p by blast
qed


text \<open>A rebuild of the sample card from 10 November: the spend of the 6th counts through its record.\<close>

definition sample_range :: replay_range where
  "sample_range = \<lparr>rg_asOf = ''2026-11-10'', rg_caps = Some \<lparr>cg_start = ''2026-11-10'', cg_end = ''2026-11-30'', cg_seedFrom = ''2026-11-01'',
     cg_seedTo = ''2026-11-30''\<rparr>, rg_milestones = [], rg_loadFrom = Some ''2026-11-01'', rg_loadTo = Some ''2026-11-30''\<rparr>"

definition sample_seed :: txn_row where
  "sample_seed = txn_row.truncate (sample_txn\<lparr>tx_card_state_v2 := Some sample_record\<rparr>)"

lemma sample_periods: "rebuildPeriods 0 sample_v2 sample_range = Inr [(sample_state_cap, [sample_span])]"
proof -
  have d: "day_instant ''2026-11-10'' = Inr 1794268800000" by code_simp
  have m: "calendarMonthBounds (istShift 1794268800000) = (''2026-11-01'', ''2026-11-30'')" by code_simp
  have c: "capSpanOn 0 sample_v2 ''2026-11-10'' sample_state_cap = Inr sample_span"
    by (simp add: capSpanOn_def d capSpan_def capWindow_def lift_window_def windowBoundsV2_def periodBounds_def Let_def
        sample_state_cap_def state_cap.fields_def cap_row.extend_def m window_of_def span_of_def sample_span_def)
  have e: "minDay ''2026-11-30'' (sp_end sample_span) = ''2026-11-30''" "str_le ''2026-11-30'' (sp_end sample_span)" by code_simp+
  have p: "cap_periods 0 sample_v2 sample_state_cap ''2026-11-30'' MAX_PERIODS_PER_CAP sample_span = Inr [sample_span]"
  proof -
    have "MAX_PERIODS_PER_CAP = Suc 4999" by (simp add: MAX_PERIODS_PER_CAP_def)
    show ?thesis unfolding \<open>MAX_PERIODS_PER_CAP = Suc 4999\<close> cap_periods.simps(2) using e(2) by simp
  qed
  have v: "v_caps sample_v2 = [sample_state_cap]" by (simp add: sample_v2_def)
  have g: "rg_asOf sample_range = ''2026-11-10''" "rg_caps sample_range = Some \<lparr>cg_start = ''2026-11-10'', cg_end = ''2026-11-30'',
      cg_seedFrom = ''2026-11-01'', cg_seedTo = ''2026-11-30''\<rparr>" by (simp_all add: sample_range_def)
  show ?thesis
    unfolding rebuildPeriods_def g option.case v emap.simps cap_rebuild_periods_def capPeriodsBetween_def cap_range.simps
      c ebind_Inr e(1) p ..
qed

lemma sample_replay: "\<exists>cy. replayCaps 0 sample_v2 None sample_range False [] [sample_seed] = Inr cy \<and> cy_entries cy = []"
proof -
  have el: "isEligible [] sample_seed"
    by (simp add: isEligible_def sample_seed_def txn_row.truncate_def sample_txn_def)
  have "tx_occurred_at sample_seed = DText ''2026-11-06'' None"
    by (simp add: sample_seed_def txn_row.truncate_def sample_txn_def)
  moreover have "istDay 1793923200000 = ''2026-11-06''" by code_simp
  then have "dayOf (DText ''2026-11-06'' None) = Inr ''2026-11-06''" by (simp add: dayOf_def sample_facts)
  moreover have "str_less ''2026-11-06'' ''2026-11-10''" by code_simp
  ultimately show ?thesis
    using el sample_periods by (simp add: replayCaps_def sample_range_def replay_cap_txn_def)
qed

lemma rebuilt_cap_exact_witness:
  "\<exists>cy. replayCaps 0 sample_v2 None sample_range False [] [sample_seed] = Inr cy
     \<and> (case map_of (plannedCaps (cy_rows cy)) (''k'', ''2026-11-01'') of None \<Rightarrow> Fin 0 | Some s \<Rightarrow> cs_consumed s) = of_money 100"
proof -
  obtain cy where cy: "replayCaps 0 sample_v2 None sample_range False [] [sample_seed] = Inr cy" "cy_entries cy = []"
    using sample_replay by blast
  let ?e = "sample_entry\<lparr>en_amount := None\<rparr>"
  have r: "record_caps sample_seed = [?e]"
    by (simp add: record_caps_def sample_seed_def txn_row.truncate_def sample_record_def)
  have x: "exact_entry ?e" "cents ?e = 100" "entry_key ?e = (''k'', ''2026-11-01'')"
    by (simp_all add: exact_entry_def cents_def sample_entry_def sample_money of_money_def entry_key_def)
  have "isEligible [] sample_seed" by (simp add: isEligible_def sample_seed_def txn_row.truncate_def sample_txn_def)
  then have es: "entries_at (''k'', ''2026-11-01'') (concat (map (contribution [] (cy_entries cy)) [sample_seed])) = [?e]"
    using cy(2) r x(3) by (simp add: entries_at_def contribution_def)
  have "cap_key (cap_row.truncate sample_state_cap) = ''k''" "sp_start sample_span = ''2026-11-01''" by code_simp+
  then have k: "map_of (slots_of [(sample_state_cap, [sample_span])]) (''k'', ''2026-11-01'') \<noteq> None"
    by (simp add: slots_of_def)
  have g: "rg_caps sample_range = Some \<lparr>cg_start = ''2026-11-10'', cg_end = ''2026-11-30'', cg_seedFrom = ''2026-11-01'', cg_seedTo = ''2026-11-30''\<rparr>"
    by (simp add: sample_range_def)
  from rebuilt_cap_exact[OF cy(1) g sample_periods k sample_sound _ _ es[symmetric]] show ?thesis
    using cy(1) r x by auto
qed

end
