(* ===== verification/Referral.thy ===== *)
theory Referral
  imports JsDate JsError
begin

text \<open>
  \<open>api/src/referral_rules.js\<close>: invitation codes, the weighted prize draw and the streaks of
  consecutive activity days. A thrown error is an \<open>Inl\<close>: a \<open>TypeError\<close>, a
  \<open>RangeError\<close> or a plain \<open>Error\<close> with its message; the message of a rejected date prints
  the rejected value. The random source of the draw is an argument.
\<close>

datatype referral_error = TypeErr string | RangeErr string | PlainErr string | InvalidDate jsval

section \<open>Invitation codes\<close>

text \<open>\<open>toUpperCase\<close> on 8-bit text; the sharp s becomes two letters.\<close>

definition upper_chars :: "char \<Rightarrow> string" where
  "upper_chars c = (if 97 \<le> code c \<and> code c \<le> 122 then [char_of (code c - 32)]
     else if code c = 223 then ''SS''
     else if 224 \<le> code c \<and> code c \<le> 254 \<and> code c \<noteq> 247 then [char_of (code c - 32)]
     else [c])"

definition js_upper :: "string \<Rightarrow> string" where
  "js_upper s = concat (map upper_chars s)"

definition is_upper_alnum :: "char \<Rightarrow> bool" where
  "is_upper_alnum c \<longleftrightarrow> is_digit c \<or> (65 \<le> code c \<and> code c \<le> 90)"

text \<open>\<open>INVITE_RE\<close>: groups of letters and digits separated by single hyphens.\<close>

fun invite_groups :: "bool \<Rightarrow> string \<Rightarrow> bool" where
  "invite_groups in_group [] = in_group"
| "invite_groups in_group (c # s) =
     (if is_upper_alnum c then invite_groups True s
      else c = CHR ''-'' \<and> in_group \<and> invite_groups False s)"

definition normalizeInvitationCode :: "jsval \<Rightarrow> string option" where
  "normalizeInvitationCode v = (case v of
     JStr s \<Rightarrow> (let t = js_upper (js_trim s) in
        if length t < 6 \<or> 32 < length t \<or> \<not> invite_groups False t then None else Some t)
   | _ \<Rightarrow> None)"

section \<open>The prize draw\<close>

definition MAX_PAISE :: int where
  "MAX_PAISE = 9223372036854775807"

text \<open>\<open>^(0|[1-9][0-9]{0,18})$\<close>.\<close>

definition is_paise_text :: "string \<Rightarrow> bool" where
  "is_paise_text s \<longleftrightarrow> s \<noteq> [] \<and> list_all is_digit s \<and> length s \<le> 19 \<and> (hd s = CHR ''0'' \<longrightarrow> s = ''0'')"

definition parsePaise :: "jsval \<Rightarrow> bool \<Rightarrow> referral_error + int" where
  "parsePaise v allowZero = (case v of
     JStr s \<Rightarrow>
       if \<not> is_paise_text s then Inl (TypeErr ''amountPaise must be an integer minor-unit string'')
       else let paise = int_of_digits s in
         if MAX_PAISE < paise \<or> (\<not> allowZero \<and> paise \<le> 0)
         then Inl (RangeErr ''amountPaise is outside the supported range'') else Inr paise
   | _ \<Rightarrow> Inl (TypeErr ''amountPaise must be an integer minor-unit string''))"

record prize =
  prize_id :: string
  prize_weight :: jsnum
  prize_paise :: string

definition bucket_id :: "string list \<Rightarrow> jsval \<Rightarrow> referral_error + string" where
  "bucket_id seen v = (case v of
     JStr s \<Rightarrow>
       if js_trim s \<noteq> s \<or> length s < 1 \<or> 80 < length s \<or> s \<in> set seen
       then Inl (TypeErr ''prize bucket IDs must be unique non-empty strings'') else Inr s
   | _ \<Rightarrow> Inl (TypeErr ''prize bucket IDs must be unique non-empty strings''))"

definition bucket_weight :: "jsval \<Rightarrow> referral_error + jsnum" where
  "bucket_weight v = (case v of
     JNum w \<Rightarrow>
       if \<not> is_safe_integer w \<or> w \<le> Fin 0
       then Inl (TypeErr ''prize weights must be positive safe integers'') else Inr w
   | _ \<Rightarrow> Inl (TypeErr ''prize weights must be positive safe integers''))"

text \<open>The state of the \<open>map\<close> over the buckets: the ids seen, the running total, the rows built.\<close>

definition validate_bucket ::
    "string list \<times> jsnum \<times> prize list \<Rightarrow> jsval \<Rightarrow> referral_error + (string list \<times> jsnum \<times> prize list)" where
  "validate_bucket st bucket = (case st of (seen, total_weight, rows) \<Rightarrow>
     (case bucket of JObj _ \<Rightarrow>
        ebind (bucket_id seen (jprop bucket ''id'')) (\<lambda>i.
        ebind (bucket_weight (jprop bucket ''weight'')) (\<lambda>w.
        ebind (parsePaise (jprop bucket ''amountPaise'') True) (\<lambda>paise.
        ebind (echeck (paise \<le> 50000) (RangeErr ''prize amounts cannot exceed INR 500'')) (\<lambda>_.
        let t = total_weight + w in
        ebind (echeck (is_safe_integer t \<and> t \<le> Fin 2147483647)
                 (RangeErr ''total prize weight is too large'')) (\<lambda>_.
        Inr (i # seen, t, rows @ [\<lparr>prize_id = i, prize_weight = w, prize_paise = dec_int paise\<rparr>]))))))
      | _ \<Rightarrow> Inl (TypeErr ''each prize bucket must be an object'')))"

definition validateDistribution :: "jsval \<Rightarrow> jsval \<Rightarrow> referral_error + (jsnum \<times> prize list)" where
  "validateDistribution distribution role = (case role of
     JStr r \<Rightarrow>
       if r \<noteq> ''inviter'' \<and> r \<noteq> ''referee'' then Inl (TypeErr ''role must be inviter or referee'')
       else (case jprop distribution r of
          JArr (b # bs) \<Rightarrow>
            ebind (efold validate_bucket ([], Fin 0, []) (b # bs)) (\<lambda>(_, total_weight, rows).
              Inr (total_weight, rows))
        | _ \<Rightarrow> Inl (TypeErr (r @ '' distribution must contain at least one bucket'')))
   | _ \<Rightarrow> Inl (TypeErr ''role must be inviter or referee''))"

fun pick_bucket :: "jsnum \<Rightarrow> jsnum \<Rightarrow> prize list \<Rightarrow> referral_error + prize" where
  "pick_bucket draw upper [] = Inl (PlainErr ''validated distribution did not cover the random draw'')"
| "pick_bucket draw upper (b # bs) =
     (let upper' = upper + prize_weight b in
      if draw < upper' then Inr b else pick_bucket draw upper' bs)"

text \<open>\<open>randomInt\<close> is the random source: called with the exclusive upper bound.\<close>

definition chooseWeightedPrize :: "(jsnum \<Rightarrow> jsval) \<Rightarrow> jsval \<Rightarrow> jsval \<Rightarrow> referral_error + prize" where
  "chooseWeightedPrize randomInt distribution role =
     ebind (validateDistribution distribution role) (\<lambda>(total_weight, buckets).
       (case randomInt total_weight of
          JNum draw \<Rightarrow>
            if \<not> is_integer draw \<or> draw < Fin 0 \<or> total_weight \<le> draw
            then Inl (RangeErr ''random source must return an integer inside [0, totalWeight)'')
            else pick_bucket draw (Fin 0) buckets
        | _ \<Rightarrow> Inl (RangeErr ''random source must return an integer inside [0, totalWeight)'')))"

section \<open>Streaks\<close>

text \<open>\<open>toISOString().slice(0, 10)\<close> for the years 0 to 9999.\<close>

definition iso_year :: "int \<Rightarrow> string" where
  "iso_year y = (let s = dec_int y in replicate (4 - length s) (CHR ''0'') @ s)"

definition iso_day :: "int \<Rightarrow> string" where
  "iso_day d = iso_year (utc_year d) @ ''-'' @ pad (utc_month d + 1) @ ''-'' @ pad (utc_date d)"

text \<open>The \<open>Date\<close> it returns is midnight of a day, so it is the day number.\<close>

definition assertDateOnly :: "jsval \<Rightarrow> referral_error + int" where
  "assertDateOnly v = (case v of
     JStr s \<Rightarrow> (case parse_day s of
        None \<Rightarrow> Inl (InvalidDate v)
      | Some d \<Rightarrow> if iso_day d \<noteq> s then Inl (InvalidDate v) else Inr d)
   | _ \<Rightarrow> Inl (InvalidDate v))"

definition next_run :: "int option \<Rightarrow> int \<Rightarrow> nat \<Rightarrow> nat" where
  "next_run previous day run = (case previous of
     None \<Rightarrow> 1
   | Some p \<Rightarrow> if ms_per_day * day - ms_per_day * p = 86400000 then run + 1 else 1)"

text \<open>One day of the loop over (best streak, run, previous day).\<close>

definition streak_step :: "nat \<times> nat \<times> int option \<Rightarrow> jsval \<Rightarrow> referral_error + (nat \<times> nat \<times> int option)" where
  "streak_step st v = (case st of (best, run, previous) \<Rightarrow>
     ebind (assertDateOnly v) (\<lambda>day. let r = next_run previous day run in Inr (max best r, r, Some day)))"

record streaks =
  currentStreak :: nat
  bestStreak :: nat
  latestActivityDate :: "jsval option"

definition js_str_le :: "jsval \<Rightarrow> jsval \<Rightarrow> bool" where
  "js_str_le a b = (case (a, b) of (JStr s, JStr t) \<Rightarrow> str_le s t | _ \<Rightarrow> True)"

definition evaluateConsecutiveDates :: "jsval list \<Rightarrow> jsval \<Rightarrow> referral_error + streaks" where
  "evaluateConsecutiveDates dateValues localToday =
     ebind (assertDateOnly localToday) (\<lambda>_.
     ebind (emap (\<lambda>v. ebind (assertDateOnly v) (\<lambda>_. Inr v)) (dedup dateValues)) (\<lambda>checked.
     let dates = jsort js_str_le checked in
     ebind (efold streak_step (0, 0, None) dates) (\<lambda>(best, run, _).
     if dates = [] then Inr \<lparr>currentStreak = 0, bestStreak = best, latestActivityDate = None\<rparr>
     else
       ebind (assertDateOnly (last dates)) (\<lambda>latest.
       ebind (assertDateOnly localToday) (\<lambda>today.
       let behind = (ms_per_day * today - ms_per_day * latest) div 86400000 in
       Inr \<lparr>currentStreak = (if behind = 0 \<or> behind = 1 then run else 0),
            bestStreak = best, latestActivityDate = Some (last dates)\<rparr>)))))"

fun qualified_loop :: "nat \<Rightarrow> int option \<Rightarrow> jsnum \<Rightarrow> int list \<Rightarrow> bool" where
  "qualified_loop run previous required [] = False"
| "qualified_loop run previous required (day # ds) =
     (let r = next_run previous day run in
      if required \<le> Fin (of_nat r) then True else qualified_loop r (Some day) required ds)"

definition hasQualifiedRun :: "jsval list \<Rightarrow> jsval \<Rightarrow> referral_error + bool" where
  "hasQualifiedRun dateValues requiredDays =
     (let required = (case requiredDays of JUndef \<Rightarrow> Fin 3 | JNum n \<Rightarrow> n | _ \<Rightarrow> NaN) in
      if \<not> is_safe_integer required \<or> required < Fin 1 \<or> Fin 30 < required
      then Inl (RangeErr ''requiredDays must be between 1 and 30'')
      else ebind (emap assertDateOnly (dedup dateValues)) (\<lambda>days.
        Inr (qualified_loop 0 None required (jsort (\<le>) days))))"

end
