(* ===== verification/ReferralProps.thy ===== *)
theory ReferralProps
  imports Referral JsRange
begin

text \<open>
  What the referral rules promise: the draw gives every prize exactly its weight among the
  possible draws, and the two streak functions measure runs of consecutive days.
\<close>

section \<open>The printed day of any four-digit year\<close>

definition iso_printable :: "int \<Rightarrow> bool" where
  "iso_printable d \<longleftrightarrow> 0 \<le> utc_year d \<and> utc_year d \<le> 9999"

lemma parse_nat_zeros [simp]: "parse_nat (replicate k (CHR ''0'') @ s) = parse_nat s"
  by (induction k) (simp_all add: parse_nat_Cons digit_val_def)

lemma length_dec_digits_below: "n < 10 ^ k \<Longrightarrow> 0 < k \<Longrightarrow> length (dec_digits n) \<le> k"
proof (induction k arbitrary: n)
  case (Suc k)
  show ?case
  proof (cases "n < 10")
    case True
    then show ?thesis by (simp add: dec_digits_small)
  next
    case False
    then have "0 < k" using Suc.prems by (cases k) auto
    moreover have "n div 10 < 10 ^ k" using Suc.prems by (simp add: less_mult_imp_div_less mult.commute)
    ultimately show ?thesis using Suc.IH[of "n div 10"] False by (subst dec_digits.simps) simp
  qed
qed simp

lemma iso_year_props:
  assumes "0 \<le> y" "y \<le> 9999"
  shows "length (iso_year y) = 4" "list_all is_digit (iso_year y)" "parse_nat (iso_year y) = nat y"
proof -
  have "length (dec_digits (nat y)) \<le> 4" using assms by (intro length_dec_digits_below) auto
  then show "length (iso_year y) = 4" using assms by (simp add: iso_year_def dec_int_nonneg Let_def)
  show "list_all is_digit (iso_year y)" "parse_nat (iso_year y) = nat y"
    using assms dec_digits_all[of "nat y"]
    by (auto simp: iso_year_def dec_int_nonneg Let_def list_all_iff is_digit_def)
qed

lemma str_less_iso_day:
  assumes "iso_printable a" and "iso_printable b"
  shows "str_less (iso_day a) (iso_day b) \<longleftrightarrow> a < b"
proof -
  have fixed: "str_less s t \<longleftrightarrow> parse_nat s < parse_nat t" "s = t \<longleftrightarrow> parse_nat s = parse_nat t"
    if "length s = length t" "list_all is_digit s" "list_all is_digit t" for s t
  proof -
    show l: "str_less s t \<longleftrightarrow> parse_nat s < parse_nat t" by (rule str_less_digits[OF that])
    have "str_less t s \<longleftrightarrow> parse_nat t < parse_nat s" using that by (intro str_less_digits) simp_all
    with l show "s = t \<longleftrightarrow> parse_nat s = parse_nat t" using str_less_linear[of s t] by auto
  qed
  note y = iso_year_props[of "utc_year a"] iso_year_props[of "utc_year b"]
  note p = pad_props[OF utc_small(1,2)[of a]] pad_props[OF utc_small(1,2)[of b]]
    pad_props[OF utc_small(3,4)[of a]] pad_props[OF utc_small(3,4)[of b]]
  have "str_less (iso_day a) (iso_day b) \<longleftrightarrow> ymd_less a b"
    unfolding iso_day_def ymd_less_def
    using y p assms utc_month_range[of a] utc_month_range[of b] utc_date_range(1)[of a] utc_date_range(1)[of b]
    by (auto simp: str_less_append fixed iso_printable_def nat_less_eq_zless eq_nat_nat_iff)
  then show ?thesis by (simp add: ymd_less_iff)
qed

lemma parse_iso_day: "iso_printable d \<Longrightarrow> parse_day (iso_day d) = Some d"
proof -
  assume d: "iso_printable d"
  note y = iso_year_props[of "utc_year d"]
  note p = pad_props[OF utc_small(1,2)[of d]] pad_props[OF utc_small(3,4)[of d]]
  obtain y3 y2 y1 y0 where ys: "iso_year (utc_year d) = [y3, y2, y1, y0]"
    using y(1) d by (auto simp: iso_printable_def length_Suc_conv numeral_eq_Suc)
  obtain m1 m0 where ms: "pad (utc_month d + 1) = [m1, m0]"
    using p(1) by (auto simp: length_Suc_conv numeral_eq_Suc)
  obtain t1 t0 where ts: "pad (utc_date d) = [t1, t0]"
    using p(4) by (auto simp: length_Suc_conv numeral_eq_Suc)
  have s: "iso_day d = [y3, y2, y1, y0, CHR ''-'', m1, m0, CHR ''-'', t1, t0]"
    by (simp add: iso_day_def ys ms ts)
  have v: "parse_nat [y3, y2, y1, y0] = nat (utc_year d)" "list_all is_digit [y3, y2, y1, y0]"
    "parse_nat [m1, m0] = nat (utc_month d + 1)" "list_all is_digit [m1, m0]"
    "parse_nat [t1, t0] = nat (utc_date d)" "list_all is_digit [t1, t0]"
    using y p d unfolding ys ms ts by (simp_all add: iso_printable_def)
  have "utc_date d \<le> 31"
    using utc_date_range(2)[of d] days_in_month_bounds[OF utc_month_range[of d], of "utc_year d"] by linarith
  then show ?thesis
    using v utc_month_range[of d] utc_date_range[of d] d make_day_utc[of d]
    unfolding s parse_day_def by (simp add: iso_printable_def Let_def)
qed

lemma assert_iso_day [simp]: "iso_printable d \<Longrightarrow> assertDateOnly (JStr (iso_day d)) = Inr d"
  by (simp add: assertDateOnly_def parse_iso_day)

lemma iso_day_inj: "iso_printable a \<Longrightarrow> iso_printable b \<Longrightarrow> iso_day a = iso_day b \<longleftrightarrow> a = b"
  by (metis parse_iso_day option.inject)

section \<open>Streaks\<close>

text \<open>\<open>k\<close> consecutive days ending on day \<open>d\<close>.\<close>

definition run_to :: "int set \<Rightarrow> int \<Rightarrow> nat \<Rightarrow> bool" where
  "run_to S d k \<longleftrightarrow> {d - int k + 1..d} \<subseteq> S"

lemma run_to_0 [simp]: "run_to S d 0"
  by (simp add: run_to_def)

lemma run_to_Suc: "run_to S d (Suc k) \<longleftrightarrow> d \<in> S \<and> run_to S (d - 1) k"
proof -
  have "{d - int (Suc k) + 1..d} = insert d {d - 1 - int k + 1..d - 1}" by auto
  then show ?thesis by (simp only: run_to_def insert_subset)
qed

lemma run_to_insert: "d < x \<Longrightarrow> run_to (insert x S) d k = run_to S d k"
  by (auto simp: run_to_def subset_iff)

text \<open>The loop of both functions on the sorted days: the run and the best run so far.\<close>

fun run_loop :: "nat \<times> nat \<times> int option \<Rightarrow> int list \<Rightarrow> nat \<times> nat \<times> int option" where
  "run_loop st [] = st"
| "run_loop (best, run, previous) (d # ds) =
     (let r = next_run previous d run in run_loop (max best r, r, Some d) ds)"

lemma streak_steps:
  "list_all iso_printable ds \<Longrightarrow> efold streak_step st (map (JStr \<circ> iso_day) ds) = Inr (run_loop st ds)"
  by (induction ds arbitrary: st) (auto simp: streak_step_def Let_def split: prod.splits)

text \<open>What the state records of the days \<open>S\<close> seen so far.\<close>

definition runs_of :: "int set \<Rightarrow> nat \<times> nat \<times> int option \<Rightarrow> bool" where
  "runs_of S st = (case st of (best, run, previous) \<Rightarrow>
     (case previous of
        None \<Rightarrow> S = {} \<and> run = 0
      | Some p \<Rightarrow> p \<in> S \<and> (\<forall>d \<in> S. d \<le> p) \<and> (\<forall>k. run_to S p k \<longleftrightarrow> k \<le> run)) \<and>
     (\<forall>k. k \<le> best \<longleftrightarrow> k = 0 \<or> (\<exists>d \<in> S. run_to S d k)))"

lemma next_run_runs:
  assumes "runs_of S (best, run, previous)" and "\<forall>d \<in> S. d < x"
  shows "run_to (insert x S) x k \<longleftrightarrow> k \<le> next_run previous x run"
proof (cases k)
  case (Suc j)
  have eq: "run_to (insert x S) x k \<longleftrightarrow> run_to S (x - 1) j"
    by (simp add: Suc run_to_Suc run_to_insert)
  show ?thesis
  proof (cases previous)
    case None
    then have "S = {}" using assms(1) by (simp add: runs_of_def)
    then show ?thesis unfolding eq using None Suc
      by (cases j) (simp_all add: run_to_Suc next_run_def)
  next
    case (Some p)
    then have p: "p \<in> S" "\<forall>d \<in> S. d \<le> p" "\<forall>k. run_to S p k \<longleftrightarrow> k \<le> run"
      using assms(1) by (auto simp: runs_of_def)
    show ?thesis
    proof (cases "x = p + 1")
      case True
      then show ?thesis unfolding eq using p Some Suc by (simp add: next_run_def ms_per_day_def)
    next
      case False
      have "p < x" using p(1) assms(2) by blast
      with False p(2) have "x - 1 \<notin> S" by auto
      then show ?thesis unfolding eq using Some Suc False
        by (cases j) (simp_all add: run_to_Suc next_run_def ms_per_day_def)
    qed
  qed
qed simp

lemma run_loop_runs:
  assumes "runs_of S st" and "sorted_wrt (<) ds" and "\<forall>d \<in> S. \<forall>e \<in> set ds. d < e"
  shows "runs_of (S \<union> set ds) (run_loop st ds)"
  using assms
proof (induction ds arbitrary: S st)
  case (Cons x ds)
  obtain best run previous where st: "st = (best, run, previous)" by (cases st) auto
  note r = next_run_runs[OF Cons.prems(1)[unfolded st], of x]
  have lt: "\<forall>d \<in> S. d < x" using Cons.prems(3) by simp
  have other: "run_to (insert x S) d k = run_to S d k" if "d \<in> S" for d k
    using lt that by (simp add: run_to_insert)
  have best: "k \<le> best \<longleftrightarrow> k = 0 \<or> (\<exists>d \<in> S. run_to S d k)" for k
    using Cons.prems(1) by (simp add: st runs_of_def)
  have "runs_of (insert x S) (max best (next_run previous x run), next_run previous x run, Some x)"
    using lt best other r[OF lt] by (auto simp: runs_of_def le_max_iff_disj order_less_imp_le)
  from Cons.IH[OF this] Cons.prems show ?case by (auto simp: st Let_def)
qed simp

lemma runs_of_start: "runs_of {} (0, 0, None)"
  by (simp add: runs_of_def)

text \<open>\<open>hasQualifiedRun\<close> stops at the first run that is long enough; the maximum says the same.\<close>

lemma best_grows: "b \<le> fst (run_loop (b, run, previous) ds)"
  by (induction ds arbitrary: b run previous) (simp_all add: Let_def, meson max.bounded_iff)

lemma qualified_loop_best:
  "b < n \<Longrightarrow> qualified_loop run previous (Fin (of_nat n)) ds \<longleftrightarrow> n \<le> fst (run_loop (b, run, previous) ds)"
proof (induction ds arbitrary: b run previous)
  case (Cons d ds)
  let ?r = "next_run previous d run"
  show ?case
  proof (cases "n \<le> ?r")
    case True
    then have "n \<le> fst (run_loop (max b ?r, ?r, Some d) ds)"
      by (meson best_grows le_trans max.cobounded2)
    then show ?thesis using True by (simp add: Let_def)
  next
    case False
    then show ?thesis using Cons.IH[of "max b ?r" ?r "Some d"] Cons.prems by (simp add: Let_def)
  qed
qed simp

subsection \<open>Sorting the dates\<close>

lemma jinsert_map: "jinsert le (f x) (map f xs) = map f (jinsert (\<lambda>a b. le (f a) (f b)) x xs)"
  by (induction xs) auto

lemma jsort_map: "jsort le (map f xs) = map f (jsort (\<lambda>a b. le (f a) (f b)) xs)"
  by (induction xs) (simp_all add: jsort_Cons jinsert_map)

interpretation by_day: comparator "(\<le>) :: int \<Rightarrow> int \<Rightarrow> bool"
  by unfold_locales auto

lemma sorted_days:
  assumes "distinct ds"
  shows "sorted_wrt (<) (jsort (\<le>) (ds :: int list))"
proof -
  have "sorted_wrt (<) xs" if "sorted_wrt (\<le>) xs" "distinct xs" for xs :: "int list"
    using that by (induction xs) (auto simp: order.strict_iff_order)
  then show ?thesis using assms by_day.sorted_jsort by simp
qed

lemma dedup_map_inj: "inj_on f (set xs) \<Longrightarrow> dedup (map f xs) = map f (dedup xs)"
proof (induction xs rule: dedup.induct)
  case (2 x xs)
  have "filter (\<lambda>y. y \<noteq> f x) (map f (dedup xs)) = map f (filter (\<lambda>y. y \<noteq> x) (dedup xs))"
    using 2(2) by (auto simp: filter_map o_def inj_on_def intro!: filter_cong arg_cong[of _ _ "map f"])
  then show ?case using 2 by (simp add: inj_on_def)
qed simp

lemma sorted_dates:
  assumes "list_all iso_printable ds"
  shows "jsort js_str_le (map (JStr \<circ> iso_day) ds) = map (JStr \<circ> iso_day) (jsort (\<le>) ds)"
proof -
  have "jsort (\<lambda>a b. js_str_le ((JStr \<circ> iso_day) a) ((JStr \<circ> iso_day) b)) ds = jsort (\<le>) ds"
    using assms by (intro jsort_cong) (auto simp: list_all_iff js_str_le_def str_le_def str_less_iso_day not_less)
  then show ?thesis by (simp only: jsort_map)
qed

subsection \<open>The property\<close>

lemma emap_checked: "list_all iso_printable ds \<Longrightarrow>
    emap (\<lambda>v. ebind (assertDateOnly v) (\<lambda>_. Inr v)) (map (JStr \<circ> iso_day) ds) = Inr (map (JStr \<circ> iso_day) ds)"
  by (induction ds) auto

lemma emap_days: "list_all iso_printable ds \<Longrightarrow> emap assertDateOnly (map (JStr \<circ> iso_day) ds) = Inr ds"
  by (induction ds) auto

lemma last_sorted: "sorted_wrt (<) ds \<Longrightarrow> ds \<noteq> [] \<Longrightarrow> d \<in> set ds \<Longrightarrow> d \<le> last (ds :: int list)"
  by (induction ds) (auto simp: order_less_imp_le)

lemma run_loop_last: "ds \<noteq> [] \<Longrightarrow> snd (snd (run_loop st ds)) = Some (last ds)"
  by (induction ds arbitrary: st) (auto simp: Let_def split: prod.splits)

text \<open>Both functions on valid dates, down to the loop over the sorted days.\<close>

lemma streak_functions:
  fixes ds :: "int list" and today :: int
  defines "sd \<equiv> jsort (\<le>) (dedup ds)"
  assumes "list_all iso_printable ds" and "iso_printable today"
    and loop: "run_loop (0, 0, None) sd = (best, run, previous)"
  shows "evaluateConsecutiveDates (map (JStr \<circ> iso_day) ds) (JStr (iso_day today)) =
      Inr \<lparr>currentStreak = (if sd \<noteq> [] \<and> (today = last sd \<or> today = last sd + 1) then run else 0),
           bestStreak = best, latestActivityDate = (if sd = [] then None else Some (JStr (iso_day (last sd))))\<rparr>"
    and "hasQualifiedRun (map (JStr \<circ> iso_day) ds) (JNum n) =
      (if \<not> is_safe_integer n \<or> n < Fin 1 \<or> Fin 30 < n
       then Inl (RangeErr ''requiredDays must be between 1 and 30'')
       else Inr (qualified_loop 0 None n sd))"
proof -
  have ok: "list_all iso_printable (dedup ds)" "list_all iso_printable sd"
    using assms(2) by (simp_all add: sd_def list_all_iff)
  have inj: "inj_on (JStr \<circ> iso_day) (set ds)"
    using assms(2) by (auto simp: inj_on_def list_all_iff iso_day_inj)
  have dd: "dedup (map (JStr \<circ> iso_day) ds) = map (JStr \<circ> iso_day) (dedup ds)"
    by (rule dedup_map_inj[OF inj])
  have sorted: "jsort js_str_le (map (JStr \<circ> iso_day) (dedup ds)) = map (JStr \<circ> iso_day) sd"
    unfolding sd_def by (rule sorted_dates[OF ok(1)])
  have lastd: "sd \<noteq> [] \<Longrightarrow> iso_printable (last sd)" using ok(2) by (simp add: list_all_iff)
  have day: "(86400000 * today - 86400000 * l) div 86400000 = today - l" for l
    by (subst right_diff_distrib[symmetric]) (rule nonzero_mult_div_cancel_left, simp)
  note js = dd emap_checked[OF ok(1)] sorted streak_steps[OF ok(2), of "(0, 0, None)", unfolded loop]
  show "evaluateConsecutiveDates (map (JStr \<circ> iso_day) ds) (JStr (iso_day today)) =
      Inr \<lparr>currentStreak = (if sd \<noteq> [] \<and> (today = last sd \<or> today = last sd + 1) then run else 0),
           bestStreak = best, latestActivityDate = (if sd = [] then None else Some (JStr (iso_day (last sd))))\<rparr>"
  proof (cases "sd = []")
    case True
    then have "best = 0" using loop by simp
    then show ?thesis using assms(3)
      by (simp only: evaluateConsecutiveDates_def js(1-3) assert_iso_day ebind_Inr Let_def prod.case True
          list.map efold.simps if_True if_False simp_thms)
  next
    case False
    then have l: "last (map (JStr \<circ> iso_day) sd) = JStr (iso_day (last sd))" "map (JStr \<circ> iso_day) sd \<noteq> []"
      by (simp_all add: last_map)
    have b: "today - last sd = 0 \<longleftrightarrow> today = last sd" "today - last sd = 1 \<longleftrightarrow> today = last sd + 1" by auto
    show ?thesis using assms(3) lastd[OF False]
      by (simp only: evaluateConsecutiveDates_def js assert_iso_day ebind_Inr Let_def prod.case l False day ms_per_day_def b
          if_True if_False simp_thms not_False_eq_True)
  qed
  show "hasQualifiedRun (map (JStr \<circ> iso_day) ds) (JNum n) =
      (if \<not> is_safe_integer n \<or> n < Fin 1 \<or> Fin 30 < n
       then Inl (RangeErr ''requiredDays must be between 1 and 30'')
       else Inr (qualified_loop 0 None n sd))"
    by (simp add: hasQualifiedRun_def Let_def dd emap_days[OF ok(1)] sd_def)
qed

text \<open>On any list of dates of the years 0 to 9999, in any order and with repetitions,
  evaluateConsecutiveDates returns; its best streak is the length of the longest run of consecutive
  days in the list, and its current streak is the length of the run that ends on the last day, if
  that is today or yesterday (otherwise 0). hasQualifiedRun, which stops at the first long run,
  agrees with the best streak for every number of required days it accepts.\<close>

theorem streaks_are_runs:
  assumes "list_all iso_printable ds" and "iso_printable today"
  shows "\<exists>s. evaluateConsecutiveDates (map (JStr \<circ> iso_day) ds) (JStr (iso_day today)) = Inr s
    \<and> (\<forall>k. 1 \<le> k \<longrightarrow> (k \<le> bestStreak s \<longleftrightarrow> (\<exists>d. run_to (set ds) d k)))
    \<and> (\<forall>k. 1 \<le> k \<longrightarrow> (k \<le> currentStreak s \<longleftrightarrow>
         (\<exists>d \<in> set ds. (\<forall>e \<in> set ds. e \<le> d) \<and> (today = d \<or> today = d + 1) \<and> run_to (set ds) d k)))
    \<and> (\<forall>n. 1 \<le> n \<longrightarrow> n \<le> 30 \<longrightarrow>
         hasQualifiedRun (map (JStr \<circ> iso_day) ds) (JNum (Fin (of_nat n))) = Inr (n \<le> bestStreak s))"
proof -
  define sd where "sd = jsort (\<le>) (dedup ds)"
  have sd: "sorted_wrt (<) sd" "set sd = set ds" by (simp_all add: sd_def sorted_days)
  obtain best run previous where loop: "run_loop (0, 0, None) sd = (best, run, previous)"
    by (cases "run_loop (0, 0, None) sd") auto
  have st: "runs_of (set ds) (best, run, previous)"
    using run_loop_runs[OF runs_of_start sd(1)] by (simp add: loop sd(2))
  note f = streak_functions[OF assms loop[unfolded sd_def], folded sd_def]
  have best: "k \<le> best \<longleftrightarrow> (\<exists>d. run_to (set ds) d k)" if "1 \<le> k" for k
    using st that by (cases k) (auto simp: runs_of_def run_to_Suc)
  have prev: "sd \<noteq> [] \<Longrightarrow> previous = Some (last sd)"
    using run_loop_last[of sd "(0, 0, None)"] by (simp add: loop)
  have current: "k \<le> (if sd \<noteq> [] \<and> (today = last sd \<or> today = last sd + 1) then run else 0) \<longleftrightarrow>
      (\<exists>d \<in> set ds. (\<forall>e \<in> set ds. e \<le> d) \<and> (today = d \<or> today = d + 1) \<and> run_to (set ds) d k)"
    if k: "1 \<le> k" for k
  proof (cases "sd = []")
    case True
    then show ?thesis using sd(2) k by simp
  next
    case False
    have last: "last sd \<in> set ds" "\<forall>e \<in> set ds. e \<le> last sd"
      using False sd last_sorted by (metis last_in_set, metis)
    have "(\<exists>d \<in> set ds. (\<forall>e \<in> set ds. e \<le> d) \<and> P d) \<longleftrightarrow> P (last sd)" for P
      using last by (metis order_antisym)
    moreover have "run_to (set ds) (last sd) k \<longleftrightarrow> k \<le> run"
      using st prev[OF False] by (simp add: runs_of_def)
    ultimately show ?thesis using False k by simp
  qed
  have agree: "hasQualifiedRun (map (JStr \<circ> iso_day) ds) (JNum (Fin (of_nat n))) = Inr (n \<le> best)"
    if "1 \<le> n" "n \<le> 30" for n
    using that qualified_loop_best[of 0 n 0 None sd] by (simp add: f(2) loop)
  show ?thesis
    by (rule exI, rule conjI[OF f(1)], unfold streaks.simps) (intro conjI allI impI best current agree)
qed

text \<open>Three days, a gap, and yesterday: the best run is three, the current one is one.\<close>

lemma streaks_are_runs_witness:
  "\<exists>s. evaluateConsecutiveDates (map (JStr \<circ> iso_day) [20002, 20000, 20004, 20001, 20000]) (JStr (iso_day 20005)) = Inr s
     \<and> bestStreak s = 3 \<and> currentStreak s = 1"
proof -
  have p: "list_all iso_printable [20002, 20000, 20004, 20001, 20000]" "iso_printable 20005"
    by code_simp+
  have best: "run_to (set [20002, 20000, 20004, 20001, 20000]) d k \<Longrightarrow> 1 \<le> k \<Longrightarrow> k \<le> 3" for d k
  proof (rule ccontr)
    assume r: "run_to (set [20002, 20000, 20004, 20001, 20000]) d k" and "1 \<le> k" "\<not> k \<le> 3"
    then obtain j where "k = Suc (Suc (Suc (Suc j)))" by (metis Suc_le_D not_less_eq_eq numeral_3_eq_3)
    with r show False by (auto simp: run_to_Suc)
  qed
  have three: "run_to (set [20002, 20000, 20004, 20001, 20000]) 20002 3"
    by (simp add: run_to_Suc numeral_3_eq_3)
  have one: "run_to (set [20002, 20000, 20004, 20001, 20000]) 20004 k \<longleftrightarrow> k \<le> 1" for k
    by (cases k; cases "k - 1") (auto simp: run_to_Suc)
  obtain s where s: "evaluateConsecutiveDates (map (JStr \<circ> iso_day) [20002, 20000, 20004, 20001, 20000]) (JStr (iso_day 20005)) = Inr s"
    "\<And>k. 1 \<le> k \<Longrightarrow> k \<le> bestStreak s \<longleftrightarrow> (\<exists>d. run_to (set [20002, 20000, 20004, 20001, 20000]) d k)"
    "\<And>k. 1 \<le> k \<Longrightarrow> k \<le> currentStreak s \<longleftrightarrow> (\<exists>d \<in> set [20002, 20000, 20004, 20001, 20000].
       (\<forall>e \<in> set [20002, 20000, 20004, 20001, 20000]. e \<le> d) \<and> (20005 = d \<or> 20005 = d + 1)
       \<and> run_to (set [20002, 20000, 20004, 20001, 20000]) d k)"
    using streaks_are_runs[OF p] by blast
  have "bestStreak s = 3" using s(2)[of 3] s(2)[of 4] three best[of _ 4] by fastforce
  moreover have "currentStreak s = 1" using s(3)[of 1] s(3)[of 2] one by simp
  ultimately show ?thesis using s(1) by blast
qed

section \<open>The prize draw\<close>

text \<open>The weight of a bucket as a natural number, and what validation leaves of a row.\<close>

definition wt :: "prize \<Rightarrow> nat" where
  "wt b = (case prize_weight b of Fin x \<Rightarrow> nat \<lfloor>x\<rfloor> | _ \<Rightarrow> 0)"

definition good_bucket :: "prize \<Rightarrow> bool" where
  "good_bucket b \<longleftrightarrow> prize_weight b = Fin (of_nat (wt b)) \<and> 0 < wt b
     \<and> (\<exists>p. prize_paise b = dec_int p \<and> 0 \<le> p \<and> p \<le> 50000)"

abbreviation weights :: "prize list \<Rightarrow> nat" where
  "weights rows \<equiv> sum_list (map wt rows)"

definition valid_rows :: "string list \<times> jsnum \<times> prize list \<Rightarrow> bool" where
  "valid_rows st = (case st of (seen, t, rows) \<Rightarrow>
     set seen = prize_id ` set rows \<and> distinct (map prize_id rows) \<and> (\<forall>b \<in> set rows. good_bucket b)
     \<and> t = Fin (of_nat (weights rows)) \<and> weights rows \<le> 2147483647)"

lemma safe_weight:
  assumes "is_safe_integer w" and "\<not> w \<le> Fin 0"
  obtains n where "w = Fin (of_nat n)" "0 < n" "n \<le> 9007199254740991"
proof (cases w)
  case (Fin x)
  obtain k where k: "x = of_int k" using assms(1) Fin by (metis is_safe_integer.simps(1))
  have "0 < k" "k \<le> 9007199254740991"
    using assms Fin by (simp_all add: k)
  then show ?thesis using that[of "nat k"] Fin by (simp add: k)
qed (use assms in simp_all)

lemma add_weights: "m + n \<le> 2 ^ 53 \<Longrightarrow> Fin (of_nat m) + Fin (of_nat n) = Fin (of_nat (m + n))"
  using rnd_of_int[of "int (m + n)"] by (simp add: of_nat_add)

lemma int_of_digits_nonneg: "list_all is_digit s \<Longrightarrow> 0 \<le> int_of_digits s"
  by (simp add: int_of_digits_eq)

lemma parsePaise_nonneg: "parsePaise v z = Inr p \<Longrightarrow> 0 \<le> p"
  by (auto simp: parsePaise_def is_paise_text_def Let_def int_of_digits_nonneg split: jsval.splits if_splits)

lemma bucket_id_new: "bucket_id seen v = Inr i \<Longrightarrow> i \<notin> set seen"
  by (auto simp: bucket_id_def split: jsval.splits if_splits)

lemma bucket_weight_ok:
  assumes "bucket_weight v = Inr w"
  obtains n where "w = Fin (of_nat n)" "0 < n" "n \<le> 9007199254740991"
  using assms safe_weight by (auto simp: bucket_weight_def split: jsval.splits if_splits)

lemma validate_bucket_ok:
  assumes "valid_rows st" and "validate_bucket st bucket = Inr st'"
  shows "valid_rows st'"
proof -
  obtain seen t rows where st: "st = (seen, t, rows)" by (cases st) auto
  obtain m where m: "bucket = JObj m" using assms(2) by (cases bucket) (simp_all add: validate_bucket_def st)
  obtain i w p where iwp: "bucket_id seen (jprop bucket ''id'') = Inr i"
      "bucket_weight (jprop bucket ''weight'') = Inr w" "parsePaise (jprop bucket ''amountPaise'') True = Inr p"
      "p \<le> 50000" "t + w \<le> Fin 2147483647"
    and st': "st' = (i # seen, t + w, rows @ [\<lparr>prize_id = i, prize_weight = w, prize_paise = dec_int p\<rparr>])"
    using assms(2) by (auto simp: validate_bucket_def st m ebind_eq_Inr Let_def)
  obtain n where n: "w = Fin (of_nat n)" "0 < n" "n \<le> 9007199254740991" using iwp(2) by (rule bucket_weight_ok)
  have v: "set seen = prize_id ` set rows" "distinct (map prize_id rows)" "\<forall>b \<in> set rows. good_bucket b"
    "t = Fin (of_nat (weights rows))" "weights rows \<le> 2147483647"
    using assms(1) by (simp_all add: st valid_rows_def)
  have wn: "wt \<lparr>prize_id = i, prize_weight = Fin (of_nat n), prize_paise = dec_int p\<rparr> = n" by (simp add: wt_def)
  have "n \<le> 2147483647"
  proof (rule ccontr)
    assume big: "\<not> n \<le> 2147483647"
    have "Fin (of_nat n) = rnd (of_nat n)" using n(3) rnd_of_int[of "int n"] by simp
    also have "\<dots> \<le> rnd (of_nat (weights rows) + of_nat n)" by (rule rnd_mono) simp
    also have "\<dots> = t + w" by (simp add: v(4) n(1))
    finally have "Fin (of_nat n) \<le> Fin 2147483647" using iwp(5) jle_trans by blast
    with big show False using of_nat_le_iff[of n 2147483647, where 'a = rat] by simp
  qed
  then have "t + w = Fin (of_nat (weights rows + n))" unfolding v(4) n(1) using v(5) by (intro add_weights) simp
  moreover from this have "weights rows + n \<le> 2147483647"
    using iwp(5) of_nat_le_iff[of "weights rows + n" 2147483647, where 'a = rat] by simp
  ultimately show ?thesis
    using v bucket_id_new[OF iwp(1)] parsePaise_nonneg[OF iwp(3)] iwp(4) n
    unfolding st' valid_rows_def by (auto simp: wn good_bucket_def)
qed

lemma validateDistribution_ok:
  assumes "validateDistribution distribution role = Inr (t, rows)"
  shows "\<exists>seen. valid_rows (seen, t, rows)"
proof -
  obtain seen bs where "efold validate_bucket ([], Fin 0, []) bs = Inr (seen, t, rows)"
    using assms by (auto simp: validateDistribution_def ebind_eq_Inr simp del: efold.simps
        split: jsval.splits list.splits if_splits)
  moreover have "valid_rows ([], Fin 0, [])" by (simp add: valid_rows_def)
  ultimately have "valid_rows (seen, t, rows)"
    by (rule efold_invariant) (rule validate_bucket_ok)
  then show ?thesis by blast
qed

lemma validate_bucket_grows: "validate_bucket st b = Inr st' \<Longrightarrow> snd (snd st') \<noteq> []"
  by (cases st; cases b) (auto simp: validate_bucket_def ebind_eq_Inr Let_def)

lemma validate_keeps_rows: "efold validate_bucket st bs = Inr st' \<Longrightarrow> snd (snd st) \<noteq> [] \<Longrightarrow> snd (snd st') \<noteq> []"
  by (erule efold_invariant) (auto dest: validate_bucket_grows)

lemma validated_rows_nonempty:
  "validateDistribution distribution role = Inr (t, rows) \<Longrightarrow> rows \<noteq> []"
  by (force simp: validateDistribution_def ebind_eq_Inr split: jsval.splits list.splits if_splits
      dest: validate_bucket_grows validate_keeps_rows)

text \<open>The loop over the buckets: bucket \<open>b\<close> owns as many draws as its weight.\<close>

lemma pick_member: "pick_bucket d u bs = Inr b \<Longrightarrow> b \<in> set bs"
  by (induction bs arbitrary: u) (auto simp: Let_def split: if_splits)

lemma pick_step:
  assumes "good_bucket b" and "u + wt b \<le> 2147483647"
  shows "pick_bucket (Fin (of_nat d)) (Fin (of_nat u)) (b # bs) =
    (if d < u + wt b then Inr b else pick_bucket (Fin (of_nat d)) (Fin (of_nat (u + wt b))) bs)"
proof -
  have "Fin (of_nat u) + prize_weight b = Fin (of_nat (u + wt b))"
    using assms add_weights[of u "wt b"] by (simp add: good_bucket_def)
  moreover have "Fin (of_nat d) < Fin (of_nat (u + wt b)) \<longleftrightarrow> d < u + wt b"
    by (simp only: less_jsnum.simps of_nat_less_iff)
  ultimately show ?thesis by (simp add: Let_def del: of_nat_add)
qed

lemma pick_covers:
  "\<lbrakk>\<forall>b \<in> set bs. good_bucket b; u + weights bs \<le> 2147483647; d < u + weights bs\<rbrakk>
     \<Longrightarrow> \<exists>b. pick_bucket (Fin (of_nat d)) (Fin (of_nat u)) bs = Inr b \<or> d < u"
proof (induction bs arbitrary: u)
  case (Cons b bs)
  show ?case using Cons.IH[of "u + wt b"] Cons.prems pick_step[of b u d bs] by auto
qed auto

lemma pick_counts:
  "\<lbrakk>\<forall>b \<in> set bs. good_bucket b; u + weights bs \<le> 2147483647; distinct bs; b \<in> set bs\<rbrakk>
     \<Longrightarrow> card {d. u \<le> d \<and> d < u + weights bs \<and> pick_bucket (Fin (of_nat d)) (Fin (of_nat u)) bs = Inr b} = wt b"
proof (induction bs arbitrary: u)
  case (Cons c bs)
  have step: "pick_bucket (Fin (of_nat d)) (Fin (of_nat u)) (c # bs) =
      (if d < u + wt c then Inr c else pick_bucket (Fin (of_nat d)) (Fin (of_nat (u + wt c))) bs)" for d
    using Cons.prems by (intro pick_step) simp_all
  show ?case
  proof (cases "b = c")
    case True
    then have "{d. u \<le> d \<and> d < u + weights (c # bs) \<and> pick_bucket (Fin (of_nat d)) (Fin (of_nat u)) (c # bs) = Inr b}
        = {u..<u + wt c}"
      using Cons.prems(3) pick_member by (auto simp: step simp del: pick_bucket.simps of_nat_add split: if_splits)
    then show ?thesis using True by simp
  next
    case False
    then have "{d. u \<le> d \<and> d < u + weights (c # bs) \<and> pick_bucket (Fin (of_nat d)) (Fin (of_nat u)) (c # bs) = Inr b}
        = {d. u + wt c \<le> d \<and> d < u + wt c + weights bs \<and> pick_bucket (Fin (of_nat d)) (Fin (of_nat (u + wt c))) bs = Inr b}"
      by (auto simp: step split: if_splits simp del: pick_bucket.simps of_nat_add)
    then show ?thesis using Cons.IH[of "u + wt c"] Cons.prems False by simp
  qed
qed simp

text \<open>C34: For a distribution that validation accepts, the draw is fair: with total weight T
  (positive, at most 2147483647, the sum of the weights of buckets with distinct ids and prizes of
  at most 500 rupees) every draw in [0, T) yields a bucket of the distribution, a bucket is the
  result of exactly as many of those draws as its weight says, and a draw outside [0, T) or not a
  whole number is rejected.\<close>

theorem prize_draw_proportional:
  assumes "validateDistribution distribution role = Inr (t, buckets)"
  shows "\<exists>T. t = Fin (of_nat T) \<and> 0 < T \<and> T \<le> 2147483647
    \<and> distinct (map prize_id buckets) \<and> (\<forall>b \<in> set buckets. \<exists>p. prize_paise b = dec_int p \<and> 0 \<le> p \<and> p \<le> 50000)
    \<and> (\<forall>d < T. \<exists>b \<in> set buckets. chooseWeightedPrize (\<lambda>_. JNum (Fin (of_nat d))) distribution role = Inr b)
    \<and> (\<forall>b \<in> set buckets. prize_weight b = Fin (of_nat (card {d. d < T \<and>
         chooseWeightedPrize (\<lambda>_. JNum (Fin (of_nat d))) distribution role = Inr b})))
    \<and> (\<forall>draw. is_integer draw \<and> Fin 0 \<le> draw \<and> draw < t \<or>
         (\<exists>msg. chooseWeightedPrize (\<lambda>_. JNum draw) distribution role = Inl (RangeErr msg)))"
proof -
  define T where "T = weights buckets"
  have v: "distinct (map prize_id buckets)" "\<forall>b \<in> set buckets. good_bucket b" "t = Fin (of_nat T)" "T \<le> 2147483647"
    using validateDistribution_ok[OF assms] by (auto simp: valid_rows_def T_def)
  have ds: "distinct buckets" using v(1) by (simp add: distinct_map)
  have "0 < T" unfolding T_def
    using v(2) validated_rows_nonempty[OF assms] by (cases buckets) (auto simp: good_bucket_def)
  have draw: "chooseWeightedPrize (\<lambda>_. JNum (Fin (of_nat d))) distribution role =
      pick_bucket (Fin (of_nat d)) (Fin (of_nat 0)) buckets" if "d < T" for d
  proof -
    have "(of_nat d :: rat) < of_nat T" "of_int \<lfloor>of_nat d :: rat\<rfloor> = (of_nat d :: rat)" using that by simp_all
    then show ?thesis by (simp add: chooseWeightedPrize_def assms v(3))
  qed
  have covered: "\<exists>b \<in> set buckets. chooseWeightedPrize (\<lambda>_. JNum (Fin (of_nat d))) distribution role = Inr b"
    if "d < T" for d
    using pick_covers[of buckets 0 d] pick_member v(2,4) that unfolding draw[OF that] T_def by fastforce
  have counted: "prize_weight b = Fin (of_nat (card {d. d < T \<and>
      chooseWeightedPrize (\<lambda>_. JNum (Fin (of_nat d))) distribution role = Inr b}))" if b: "b \<in> set buckets" for b
  proof -
    have "{d. d < T \<and> chooseWeightedPrize (\<lambda>_. JNum (Fin (of_nat d))) distribution role = Inr b} =
        {d. 0 \<le> d \<and> d < 0 + weights buckets \<and> pick_bucket (Fin (of_nat d)) (Fin (of_nat 0)) buckets = Inr b}"
      using draw by (auto simp: T_def)
    then show ?thesis using pick_counts[of buckets 0 b] v(2,4) ds b by (simp add: T_def good_bucket_def)
  qed
  have rejected: "is_integer d \<and> Fin 0 \<le> d \<and> d < t \<or>
      (\<exists>msg. chooseWeightedPrize (\<lambda>_. JNum d) distribution role = Inl (RangeErr msg))" for d
    by (cases d) (auto simp: chooseWeightedPrize_def assms v(3) not_less not_le)
  show ?thesis
    using v \<open>0 < T\<close> covered counted rejected by (intro exI[of _ T]) (auto simp: good_bucket_def)
qed

text \<open>Two prizes of weights one and three.\<close>

definition sample_distribution :: jsval where
  "sample_distribution = JObj [(''inviter'', JArr
     [JObj [(''id'', JStr ''a''), (''weight'', JNum (Fin 1)), (''amountPaise'', JStr ''5000'')],
      JObj [(''id'', JStr ''b''), (''weight'', JNum (Fin 3)), (''amountPaise'', JStr ''0'')]])]"

lemma prize_draw_proportional_witness:
  "card {d. d < 4 \<and> chooseWeightedPrize (\<lambda>_. JNum (Fin (of_nat d))) sample_distribution (JStr ''inviter'')
      = Inr \<lparr>prize_id = ''b'', prize_weight = Fin 3, prize_paise = ''0''\<rparr>} = (3 :: nat)"
proof -
  have v: "validateDistribution sample_distribution (JStr ''inviter'') =
      Inr (Fin 4, [\<lparr>prize_id = ''a'', prize_weight = Fin 1, prize_paise = ''5000''\<rparr>,
        \<lparr>prize_id = ''b'', prize_weight = Fin 3, prize_paise = ''0''\<rparr>])"
  proof -
    have p: "parsePaise (JStr ''5000'') True = Inr 5000" "parsePaise (JStr ''0'') True = Inr 0"
      "js_trim ''a'' = ''a''" "js_trim ''b'' = ''b''" "dec_int 5000 = ''5000''" "dec_int 0 = ''0''"
      by code_simp+
    show ?thesis
      by (simp add: sample_distribution_def validateDistribution_def validate_bucket_def bucket_id_def
          bucket_weight_def Let_def p)
  qed
  obtain T where T: "Fin 4 = Fin (of_nat T)" "Fin 3 = Fin (of_nat (card {d. d < T \<and>
      chooseWeightedPrize (\<lambda>_. JNum (Fin (of_nat d))) sample_distribution (JStr ''inviter'')
        = Inr \<lparr>prize_id = ''b'', prize_weight = Fin 3, prize_paise = ''0''\<rparr>}))"
    using prize_draw_proportional[OF v] by (auto simp del: of_nat_eq_iff)
  have "(of_nat T :: rat) = of_nat 4" using T(1) by simp
  then have "T = 4" by (simp only: of_nat_eq_iff)
  moreover have "card {d. d < T \<and> chooseWeightedPrize (\<lambda>_. JNum (Fin (of_nat d))) sample_distribution (JStr ''inviter'')
        = Inr \<lparr>prize_id = ''b'', prize_weight = Fin 3, prize_paise = ''0''\<rparr>} = 3"
    (is "?c = 3")
  proof -
    have "(of_nat ?c :: rat) = of_nat 3" using T(2) \<open>T = 4\<close> by simp
    then show ?thesis by (simp only: of_nat_eq_iff)
  qed
  ultimately show ?thesis by simp
qed

end
