(* ===== verification/JsonText.thy ===== *)
theory JsonText
  imports JsVal
begin

text \<open>
  \<open>JSON.stringify\<close> on 8-bit text and on the scalars the code prints, with the laws that make
  printed text readable again: no quoted string is the beginning of another one, and a list of parts
  that can be told apart is told apart by its printed form.
\<close>

text \<open>\<open>JSON.stringify\<close> on whole Numbers, text, booleans and null.\<close>

definition hex_digit :: "nat \<Rightarrow> char" where
  "hex_digit n = char_of (if n < 10 then 48 + n else 87 + n)"

definition json_char :: "char \<Rightarrow> string" where
  "json_char c =
     (if code c = 34 then [char_of (92 :: nat), c] else if code c = 92 then [c, c]
      else if code c = 8 then [char_of (92 :: nat), CHR ''b''] else if code c = 9 then [char_of (92 :: nat), CHR ''t'']
      else if code c = 10 then [char_of (92 :: nat), CHR ''n''] else if code c = 12 then [char_of (92 :: nat), CHR ''f'']
      else if code c = 13 then [char_of (92 :: nat), CHR ''r'']
      else if code c < 32 then char_of (92 :: nat) # ''u00'' @ [hex_digit (code c div 16), hex_digit (code c mod 16)]
      else [c])"

definition json_quote :: "string \<Rightarrow> string" where
  "json_quote s = char_of (34 :: nat) # concat (map json_char s) @ [char_of (34 :: nat)]"

fun json_scalar :: "jsval \<Rightarrow> string" where
  "json_scalar (JNum (Fin x)) = dec_int \<lfloor>x\<rfloor>"
| "json_scalar (JStr s) = json_quote s"
| "json_scalar (JBool b) = (if b then ''true'' else ''false'')"
| "json_scalar _ = ''null''"

fun json_join :: "string list \<Rightarrow> string" where
  "json_join [] = []"
| "json_join [s] = s"
| "json_join (s # ss) = s @ '','' @ json_join ss"

definition json_array :: "string list \<Rightarrow> string" where
  "json_array parts = ''['' @ json_join parts @ '']''"

section \<open>Reading printed text back\<close>

lemma hex_digit_inj:
  assumes "hex_digit m = hex_digit n" "m < 16" "n < 16"
  shows "m = n"
proof -
  have digit: "code (hex_digit k) = (if k < 10 then 48 + k else 87 + k)" if "k < 16" for k
    using that by (simp add: hex_digit_def)
  have "code (hex_digit m) = code (hex_digit n)" using assms(1) by simp
  then show ?thesis unfolding digit[OF assms(2)] digit[OF assms(3)] by (auto split: if_splits)
qed

text \<open>What follows the backslash of an escaped character.\<close>

definition escaped :: "char \<Rightarrow> bool" where
  "escaped c \<longleftrightarrow> code c = 34 \<or> code c = 92 \<or> code c < 32"

definition escape :: "char \<Rightarrow> string" where
  "escape c =
     (if code c = 34 \<or> code c = 92 then [c] else if code c = 8 then ''b'' else if code c = 9 then ''t''
      else if code c = 10 then ''n'' else if code c = 12 then ''f'' else if code c = 13 then ''r''
      else ''u00'' @ [hex_digit (code c div 16), hex_digit (code c mod 16)])"

lemma json_char_alt: "json_char c = (if escaped c then char_of (92 :: nat) # escape c else [c])"
proof -
  have slash: "char_of (92 :: nat) = c" if "code c = 92" using that by (metis char_of_char)
  show ?thesis
    by (cases "code c = 92") (simp_all add: json_char_def escaped_def escape_def slash)
qed

definition escape_lead :: "nat \<Rightarrow> nat" where
  "escape_lead n = (if n = 34 \<or> n = 92 then n else if n = 8 then 98 else if n = 9 then 116
      else if n = 10 then 110 else if n = 12 then 102 else if n = 13 then 114 else 117)"

definition long_escape :: "nat \<Rightarrow> bool" where
  "long_escape n \<longleftrightarrow> n \<notin> {34, 92, 8, 9, 10, 12, 13}"

lemma hd_escape: "code (hd (escape c @ x)) = escape_lead (code c)"
  by (simp add: escape_def escape_lead_def)

lemma escape_lead_inj:
  "escape_lead m = escape_lead n \<Longrightarrow> m = n \<or> (long_escape m \<and> long_escape n)"
  by (simp add: escape_lead_def long_escape_def split: if_splits)

lemma escape_prefix:
  assumes "escape c @ x = escape d @ y"
  shows "c = d \<and> x = y"
proof -
  have "escape_lead (code c) = escape_lead (code d)"
    using hd_escape[of c x] hd_escape[of d y] assms by simp
  then consider "code c = code d" | "long_escape (code c)" "long_escape (code d)"
    using escape_lead_inj by blast
  then show ?thesis
  proof cases
    case 1
    then show ?thesis using assms by simp
  next
    case 2
    have long: "escape e = ''u00'' @ [hex_digit (code e div 16), hex_digit (code e mod 16)]"
      if "long_escape (code e)" for e
      using that by (simp add: escape_def long_escape_def)
    have eq: "hex_digit (code c div 16) = hex_digit (code d div 16)"
      "hex_digit (code c mod 16) = hex_digit (code d mod 16)" "x = y"
      using assms unfolding long[OF 2(1)] long[OF 2(2)] by simp_all
    have small: "code e div 16 < 16" for e :: char
      using nat_of_char_less_256[of e] by (simp add: less_mult_imp_div_less)
    have "code c div 16 = code d div 16" "code c mod 16 = code d mod 16"
      using eq(1) eq(2) small by (auto intro: hex_digit_inj)
    then have "code c = code d" by (metis div_mult_mod_eq)
    then show ?thesis using eq(3) by simp
  qed
qed

lemma json_char_prefix:
  assumes "json_char c @ x = json_char d @ y"
  shows "c = d \<and> x = y"
proof -
  have slash: "e \<noteq> char_of (92 :: nat)" if "\<not> escaped e" for e
    using that by (auto simp: escaped_def)
  consider "escaped c" "escaped d" | "escaped c" "\<not> escaped d" | "\<not> escaped c" "escaped d"
    | "\<not> escaped c" "\<not> escaped d" by blast
  then show ?thesis
  proof cases
    case 1
    then show ?thesis using assms escape_prefix[of c x d y] by (simp add: json_char_alt)
  next
    case 2
    then show ?thesis using assms slash[of d] by (simp add: json_char_alt)
  next
    case 3
    then show ?thesis using assms slash[of c] by (simp add: json_char_alt)
  next
    case 4
    then show ?thesis using assms by (simp add: json_char_alt)
  qed
qed

lemma quote_char: "char_of (34 :: nat) = CHR 0x22" "char_of (92 :: nat) = CHR 0x5C"
  by code_simp+

lemma json_char_quote: "json_char c @ x \<noteq> CHR 0x22 # y"
  by (cases "escaped c") (auto simp: json_char_alt escaped_def quote_char)

lemma json_quote_prefix:
  assumes "json_quote s @ x = json_quote t @ y"
  shows "s = t \<and> x = y"
proof -
  have body: "concat (map json_char s) @ CHR 0x22 # x = concat (map json_char t) @ CHR 0x22 # y \<Longrightarrow> s = t \<and> x = y"
  proof (induction s arbitrary: t)
    case Nil
    then show ?case using json_char_quote[symmetric] by (cases t) auto
  next
    case (Cons c s)
    show ?case
    proof (cases t)
      case Nil
      then show ?thesis using Cons.prems json_char_quote by auto
    next
      case (Cons d t')
      then have "c = d" "concat (map json_char s) @ CHR 0x22 # x = concat (map json_char t') @ CHR 0x22 # y"
        using Cons.prems json_char_prefix[of c _ d] by auto
      then show ?thesis using Cons.IH[of t'] Cons by simp
    qed
  qed
  then show ?thesis using assms by (simp add: json_quote_def quote_char)
qed

lemma json_join_Cons: "json_join (s # ss) = s @ concat (map ((#) CHR '','') ss)"
  by (induction ss arbitrary: s) simp_all

section \<open>Evaluation\<close>

text \<open>The printed form, computed on the bits of a character.\<close>

lemma code_control: "code c < 32 \<longleftrightarrow> \<not> digit5 c \<and> \<not> digit6 c \<and> \<not> digit7 c"
  by (cases c) (auto simp: of_bool_def)

lemma code_ascii: "code c < 128 \<longleftrightarrow> \<not> digit7 c"
  by (cases c) (auto simp: of_bool_def)

lemma code_char: "code c = code d \<Longrightarrow> c = d"
  by simp

lemma json_char_code [code]:
  "json_char c =
     (if c = CHR 0x22 then [CHR 0x5C, c] else if c = CHR 0x5C then [c, c]
      else if c = CHR 0x08 then [CHR 0x5C, CHR ''b''] else if c = CHR 0x09 then [CHR 0x5C, CHR ''t'']
      else if c = CHR 0x0A then [CHR 0x5C, CHR ''n''] else if c = CHR 0x0C then [CHR 0x5C, CHR ''f'']
      else if c = CHR 0x0D then [CHR 0x5C, CHR ''r'']
      else if \<not> digit5 c \<and> \<not> digit6 c \<and> \<not> digit7 c
      then CHR 0x5C # ''u00'' @ [hex_digit (code c div 16), hex_digit (code c mod 16)]
      else [c])"
proof -
  have "code c = 34 \<longleftrightarrow> c = CHR 0x22" "code c = 92 \<longleftrightarrow> c = CHR 0x5C" "code c = 8 \<longleftrightarrow> c = CHR 0x08"
    "code c = 9 \<longleftrightarrow> c = CHR 0x09" "code c = 10 \<longleftrightarrow> c = CHR 0x0A" "code c = 12 \<longleftrightarrow> c = CHR 0x0C"
    "code c = 13 \<longleftrightarrow> c = CHR 0x0D"
    using code_inj[of c "CHR 0x22"] code_inj[of c "CHR 0x5C"] code_inj[of c "CHR 0x08"] code_inj[of c "CHR 0x09"]
      code_inj[of c "CHR 0x0A"] code_inj[of c "CHR 0x0C"] code_inj[of c "CHR 0x0D"]
    by (simp_all del: code_inj)
  then show ?thesis unfolding json_char_def code_control quote_char by simp
qed

end
