(* ===== verification/Splits.thy ===== *)
theory Splits
  imports Money JsonText
begin

text \<open>
  \<open>api/src/transaction_splits.js\<close>: the split of a transaction is replaced as a whole. The
  state is the part of the database the two routes touch: \<open>transactions\<close>,
  \<open>user_cards\<close>, \<open>spend_categories\<close> and \<open>transaction_splits\<close>. Money columns are
  \<open>numeric(12,2)\<close>, held as a number of hundredths, and reach the code as decimal text; uuid
  columns are lower-case text. SHA-256 is an argument of the definitions. The handler runs inside
  one database transaction: an error leaves the state unchanged.
\<close>

section \<open>Validation\<close>

definition is_hex :: "char \<Rightarrow> bool" where
  "is_hex c \<longleftrightarrow> is_digit c \<or> (97 \<le> code c \<and> code c \<le> 102) \<or> (65 \<le> code c \<and> code c \<le> 70)"

definition is_uuid :: "string \<Rightarrow> bool" where
  "is_uuid s \<longleftrightarrow> length s = 36 \<and>
     list_all (\<lambda>i. if i \<in> {8, 13, 18, 23} then s ! i = CHR ''-'' else is_hex (s ! i)) [0..<36]"

definition bad_amount :: "jsval \<Rightarrow> bool" where
  "bad_amount v = (case v of
     JNum amount \<Rightarrow>
       let paise = amount * Fin 100 in
       \<not> is_finite amount \<or> amount \<le> Fin 0 \<or> \<not> is_safe_integer (jround paise) \<or> jround paise < Fin 1
       \<or> lit (1 / 10 ^ 6) < jabs (paise - jround paise)
   | _ \<Rightarrow> True)"

definition bad_note :: "jsval \<Rightarrow> bool" where
  "bad_note v = (\<not> nullish v \<and> (case v of JStr s \<Rightarrow> 2000 < length s | _ \<Rightarrow> True))"

definition bad_uuid :: "jsval \<Rightarrow> bool" where
  "bad_uuid v = (\<not> nullish v \<and> (case v of JStr s \<Rightarrow> \<not> is_uuid s | _ \<Rightarrow> True))"

definition validate_split :: "jsval \<Rightarrow> string + unit" where
  "validate_split split = (case split of
     JObj _ \<Rightarrow>
       if bad_amount (jprop split ''amountInr'')
       then Inl ''each split needs a positive amountInr with at most two decimal places''
       else if bad_note (jprop split ''note'')
       then Inl ''split note must be a string of at most 2000 characters or null''
       else if bad_uuid (jprop split ''userCardId'') then Inl ''userCardId must be a UUID or null''
       else if bad_uuid (jprop split ''categoryId'') then Inl ''categoryId must be a UUID or null''
       else Inr ()
   | _ \<Rightarrow> Inl ''invalid split'')"

text \<open>The result is the list of splits, or the message \<open>validateSplits\<close> returns.\<close>

definition validateSplits :: "jsval \<Rightarrow> string + jsval list" where
  "validateSplits splits = (case splits of
     JArr xs \<Rightarrow>
       if 20 < length xs then Inl ''at most 20 splits per transaction''
       else ebind (efold (\<lambda>_. validate_split) () xs) (\<lambda>_. Inr xs)
   | _ \<Rightarrow> Inl ''splits must be an array'')"

definition splitTotalPaise :: "jsval list \<Rightarrow> jsnum" where
  "splitTotalPaise splits =
     foldl (\<lambda>sum split. sum + jround (to_number (jprop split ''amountInr'') * Fin 100)) (Fin 0) splits"

section \<open>The fingerprint\<close>

text \<open>\<open>a ?? b\<close> and \<open>a || null\<close>.\<close>

definition coalesce :: "jsval \<Rightarrow> jsval \<Rightarrow> jsval" where
  "coalesce a b = (if nullish a then b else a)"

definition or_null :: "jsval \<Rightarrow> jsval" where
  "or_null a = (if truthy a then a else JNull)"

definition split_key :: "jsval \<Rightarrow> string" where
  "split_key s = json_array (map json_scalar
     [JNum (jround (to_number (coalesce (jprop s ''amountInr'') (jprop s ''amount_inr'')) * Fin 100)),
      coalesce (coalesce (jprop s ''userCardId'') (jprop s ''user_card_id'')) JNull,
      coalesce (coalesce (jprop s ''categoryId'') (jprop s ''category_id'')) JNull,
      or_null (jprop s ''note'')])"

definition splitFingerprint :: "(string \<Rightarrow> string) \<Rightarrow> jsval list \<Rightarrow> string" where
  "splitFingerprint sha256 splits =
     sha256 (json_array (map json_quote (jsort str_le (map split_key splits))))"

datatype decision = Unchanged | Conflict | Write

definition splitWriteDecision :: "(string \<Rightarrow> string) \<Rightarrow> jsval list \<Rightarrow> jsval list \<Rightarrow> jsval \<Rightarrow> decision" where
  "splitWriteDecision sha256 current desired expected =
     (if splitFingerprint sha256 current = splitFingerprint sha256 desired then Unchanged
      else if \<not> nullish expected \<and> expected \<noteq> JStr (splitFingerprint sha256 current) then Conflict
      else Write)"

section \<open>The routes\<close>

record parent_row =
  tx_id :: string
  tx_profile :: string
  tx_active :: bool
  tx_amount :: int

record split_row =
  sr_id :: nat
  sr_txn :: string
  sr_card :: "string option"
  sr_category :: "string option"
  sr_amount :: int
  sr_note :: "string option"

record split_db =
  db_txns :: "parent_row list"
  db_cards :: "(string \<times> string) list"
  db_categories :: "(string \<times> string) list"
  db_splits :: "split_row list"
  db_next :: nat

datatype split_response =
    SplitError nat string
  | SplitRows "jsval list" string

definition money_text :: "int \<Rightarrow> string" where
  "money_text k = dec_int (k div 100) @ ''.'' @ [char_of (48 + nat (k mod 100 div 10)), char_of (48 + nat (k mod 10))]"

definition text_or_null :: "string option \<Rightarrow> jsval" where
  "text_or_null t = (case t of None \<Rightarrow> JNull | Some s \<Rightarrow> JStr s)"

definition row_json :: "split_db \<Rightarrow> split_row \<Rightarrow> jsval" where
  "row_json db r = JObj
     [(''id'', JNum (Fin (of_nat (sr_id r)))), (''user_card_id'', text_or_null (sr_card r)),
      (''category_id'', text_or_null (sr_category r)), (''amount_inr'', JStr (money_text (sr_amount r))),
      (''note'', text_or_null (sr_note r)),
      (''category_name'', text_or_null (Option.bind (sr_category r) (map_of (db_categories db))))]"

definition read_splits :: "split_db \<Rightarrow> string \<Rightarrow> jsval list" where
  "read_splits db txn = map (row_json db)
     (jsort (\<lambda>a b. sr_amount b \<le> sr_amount a) (filter (\<lambda>r. sr_txn r = txn) (db_splits db)))"

text \<open>A uuid parameter matches a column whatever the case of its letters.\<close>

definition find_txn :: "split_db \<Rightarrow> string \<Rightarrow> string \<Rightarrow> parent_row option" where
  "find_txn db user txn =
     find (\<lambda>t. tx_id t = js_lower txn \<and> tx_profile t = user \<and> tx_active t) (db_txns db)"

definition get_splits :: "(string \<Rightarrow> string) \<Rightarrow> split_db \<Rightarrow> string \<Rightarrow> jsval \<Rightarrow> split_response" where
  "get_splits sha256 db user v = (case v of
     JStr txn \<Rightarrow>
       if \<not> is_uuid txn then SplitError 400 ''invalid transaction id''
       else (case find_txn db user txn of
          None \<Rightarrow> SplitError 404 ''transaction not found''
        | Some _ \<Rightarrow> let rows = read_splits db (js_lower txn) in SplitRows rows (splitFingerprint sha256 rows))
   | _ \<Rightarrow> SplitError 400 ''invalid transaction id'')"

definition is_sha256 :: "jsval \<Rightarrow> bool" where
  "is_sha256 v = (case v of JStr s \<Rightarrow> length s = 64 \<and> list_all is_hex_lower s | _ \<Rightarrow> False)"

text \<open>The references of one split: a card of the user, a category of the catalogue.\<close>

definition check_references :: "split_db \<Rightarrow> string \<Rightarrow> jsval \<Rightarrow> (nat \<times> string) + unit" where
  "check_references db user split =
     ebind (case jprop split ''userCardId'' of
        JStr c \<Rightarrow> echeck (c = [] \<or> (js_lower c, user) \<in> set (db_cards db)) (400, ''split card not found'')
      | _ \<Rightarrow> Inr ()) (\<lambda>_.
     (case jprop split ''categoryId'' of
        JStr c \<Rightarrow> echeck (c = [] \<or> js_lower c \<in> fst ` set (db_categories db)) (400, ''split category not found'')
      | _ \<Rightarrow> Inr ()))"

definition uuid_param :: "jsval \<Rightarrow> string option" where
  "uuid_param v = (case v of JStr s \<Rightarrow> if s = [] then None else Some (js_lower s) | _ \<Rightarrow> None)"

definition note_param :: "jsval \<Rightarrow> string option" where
  "note_param v = (case v of JStr s \<Rightarrow> if s = [] then None else Some s | _ \<Rightarrow> None)"

text \<open>An insert fails on a column constraint: the precision and the sign of the amount, a NUL in the text.\<close>

definition insert_split :: "string \<Rightarrow> split_db \<Rightarrow> jsval \<Rightarrow> (nat \<times> string) + split_db" where
  "insert_split txn db split =
     (case money (to_number (jprop split ''amountInr'')) of
        Inl _ \<Rightarrow> Inl (500, ''internal_error'')
      | Inr k \<Rightarrow>
          if k \<le> 0 \<or> CHR 0x00 \<in> set (case note_param (jprop split ''note'') of None \<Rightarrow> [] | Some t \<Rightarrow> t)
          then Inl (500, ''internal_error'')
          else Inr (db\<lparr>db_splits := db_splits db @
                 [\<lparr>sr_id = db_next db, sr_txn = txn, sr_card = uuid_param (jprop split ''userCardId''),
                   sr_category = uuid_param (jprop split ''categoryId''), sr_amount = k,
                   sr_note = note_param (jprop split ''note'')\<rparr>],
               db_next := db_next db + 1\<rparr>))"

definition replace_splits :: "split_db \<Rightarrow> string \<Rightarrow> jsval list \<Rightarrow> (nat \<times> string) + split_db" where
  "replace_splits db txn splits =
     efold (insert_split txn) (db\<lparr>db_splits := filter (\<lambda>r. sr_txn r \<noteq> txn) (db_splits db)\<rparr>) splits"

text \<open>The body of the database transaction of \<open>PUT\<close>.\<close>

definition write_splits ::
    "(string \<Rightarrow> string) \<Rightarrow> split_db \<Rightarrow> string \<Rightarrow> string \<Rightarrow> jsval list \<Rightarrow> jsval \<Rightarrow> (nat \<times> string) + (split_db \<times> jsval list)" where
  "write_splits sha256 db user txn splits expected =
     (case find_txn db user txn of
        None \<Rightarrow> Inl (404, ''transaction not found'')
      | Some parent \<Rightarrow>
          let current = read_splits db (js_lower txn) in
          (case splitWriteDecision sha256 current splits expected of
             Unchanged \<Rightarrow> Inr (db, current)
           | Conflict \<Rightarrow> Inl (409, ''split_conflict'')
           | Write \<Rightarrow>
               if jround (string_to_number (money_text (tx_amount parent)) * Fin 100) < splitTotalPaise splits
               then Inl (400, ''splits total more than the transaction amount'')
               else ebind (efold (\<lambda>_. check_references db user) () splits) (\<lambda>_.
                    ebind (replace_splits db (js_lower txn) splits) (\<lambda>db'.
                    Inr (db', read_splits db' (js_lower txn))))))"

definition put_splits ::
    "(string \<Rightarrow> string) \<Rightarrow> split_db \<Rightarrow> string \<Rightarrow> jsval \<Rightarrow> jsval \<Rightarrow> split_db \<times> split_response" where
  "put_splits sha256 db user v body = (case v of
     JStr txn \<Rightarrow>
       if \<not> is_uuid txn then (db, SplitError 400 ''invalid transaction id'')
       else (case validateSplits (jprop body ''splits'') of
          Inl message \<Rightarrow> (db, SplitError 400 message)
        | Inr splits \<Rightarrow>
            let expected = jprop body ''expectedFingerprint'' in
            if \<not> nullish expected \<and> \<not> is_sha256 expected
            then (db, SplitError 400 ''invalid expectedFingerprint'')
            else (case write_splits sha256 db user txn splits expected of
               Inl (status, message) \<Rightarrow> (db, SplitError status message)
             | Inr (db', rows) \<Rightarrow> (db', SplitRows rows (splitFingerprint sha256 rows))))
   | _ \<Rightarrow> (db, SplitError 400 ''invalid transaction id''))"

end
