(* ===== verification/SplitsProps.thy ===== *)
theory SplitsProps
  imports Splits
begin

text \<open>
  What the split routes promise: the rows of a transaction never add up to more than its amount,
  an error changes nothing, and the retry of a request that went through changes nothing.
\<close>

section \<open>Amounts as text and as Numbers\<close>

lemma dec_digits_chars: "c \<in> set (dec_digits n) \<Longrightarrow> is_digit c"
  using dec_digits_all by blast

lemma digit_not_space: "is_digit c \<Longrightarrow> \<not> is_space c"
  by (auto simp: is_digit_def is_space_def)

lemma trim_digits:
  assumes "s = d # t @ [e]" and "is_digit d" and "is_digit e"
  shows "js_trim s = s"
  using assms digit_not_space by (simp add: js_trim_def)

lemma takeWhile_digits:
  assumes "list_all is_digit ds" and "\<not> is_digit c"
  shows "split_digits (ds @ c # r) = (ds, c # r)" and "split_digits ds = (ds, [])"
  using assms by (auto simp: split_digits_def list_all_iff takeWhile_append2 dropWhile_append2
      takeWhile_eq_all_conv dropWhile_eq_Nil_conv)

lemma money_number:
  assumes "0 \<le> k"
  shows "string_to_number (money_text k) = of_money k"
proof -
  define ip a b where "ip = dec_digits (nat (k div 100))"
    and "a = (char_of (48 + nat (k mod 100 div 10)) :: char)" and "b = (char_of (48 + nat (k mod 10)) :: char)"
  have bounds: "nat (k mod 100 div 10) < 10" "nat (k mod 10) < 10" by auto
  have ab: "is_digit a" "is_digit b" "digit_val a = nat (k mod 100 div 10)" "digit_val b = nat (k mod 10)"
    unfolding a_def b_def using bounds by simp_all
  have ips: "list_all is_digit ip" "ip \<noteq> []" by (simp_all add: ip_def list_all_iff dec_digits_chars)
  then obtain d t where dt: "ip = d # t" "is_digit d" by (cases ip) auto
  have chars: "money_text k = ip @ CHR ''.'' # [a, b]"
    using assms by (simp add: money_text_def ip_def a_def b_def dec_int_nonneg)
  have trim: "js_trim (money_text k) = money_text k"
    by (rule trim_digits[of _ d "t @ [CHR ''.'', a]" b]) (simp_all add: chars dt ab)
  have dot: "\<not> is_digit (CHR ''.'')" by (simp add: is_digit_def)
  have dg: "split_digits [a, b] = ([a, b], [])" using takeWhile_digits(2)[of "[a, b]" "CHR ''.''"] ab dot by simp
  have "parse_nat (ip @ [a, b]) = 100 * parse_nat ip + 10 * digit_val a + digit_val b"
    using parse_nat_snoc[of "ip @ [a]" b] parse_nat_snoc[of ip a] by simp
  also have "\<dots> = nat k"
  proof -
    have "10 * (k mod 100 div 10) + k mod 10 = k mod 100"
      using mult_div_mod_eq[of 10 "k mod 100"] mod_mod_cancel[of 10 100 k] by simp
    moreover have "100 * (k div 100) + k mod 100 = k" by (rule mult_div_mod_eq)
    ultimately have e: "100 * (k div 100) + 10 * (k mod 100 div 10) + k mod 10 = k" by linarith
    have n: "0 \<le> k div 100" "0 \<le> k mod 100 div 10" "0 \<le> k mod 10" using assms by simp_all
    have "int (100 * nat (k div 100) + 10 * nat (k mod 100 div 10) + nat (k mod 10)) = k"
      by (simp only: of_nat_add of_nat_mult of_nat_numeral int_nat_eq n if_True e)
    then show ?thesis by (simp only: ip_def ab(3,4) parse_dec_digits) linarith
  qed
  finally have num: "parse_nat (ip @ [a, b]) = nat k" .
  have split: "split_digits (money_text k) = (ip, CHR ''.'' # [a, b])"
    unfolding chars by (rule takeWhile_digits(1)[OF ips(1) dot])
  have hundredth: "(10 :: rat) powi (- 2) = 1 / 100" by (simp only: power_int_minus power_int_numeral) simp
  have decimal: "parse_decimal (money_text k) = Some (of_int k / 100)"
    unfolding parse_decimal_def split Let_def prod.case list.case if_P[OF refl] dg
    using ips(2) assms by (simp add: num hundredth)
  have d: "d \<noteq> CHR ''-''" "d \<noteq> CHR ''+''" using dt(2) by (auto simp: is_digit_def)
  have x: "take 2 (money_text k) \<notin> {''0x'', ''0X''}" "take 2 (money_text k) \<notin> {''0o'', ''0O''}"
      "take 2 (money_text k) \<notin> {''0b'', ''0B''}" "money_text k \<noteq> ''Infinity''"
    using ips(1) by (cases t; auto simp: chars dt(1) is_digit_def)+
  show ?thesis
    using x d by (simp add: string_to_number_def trim Let_def parse_unsigned_def decimal of_money_def) (simp add: chars dt(1))
qed

lemma jround_near:
  assumes "\<bar>x - of_int k / 100\<bar> \<le> 1 / 1000" and "\<bar>k\<bar> \<le> 10 ^ 12"
  shows "jround (Fin x * Fin 100) = Fin (of_int k)"
proof -
  note k = money_bound[OF assms(2)]
  have x2: "\<bar>x * 100\<bar> \<le> 2000000000000" using assms(1) k by linarith
  have "\<lfloor>fl (x * 100) + 1 / 2\<rfloor> = k"
    by (rule floor_unique) (use assms(1) fl_error_money[OF x2] in linarith)+
  then show ?thesis by (simp add: finite_range[OF x2])
qed

lemma jround_money_text: "0 \<le> k \<Longrightarrow> k \<le> 10 ^ 12 \<Longrightarrow> jround (string_to_number (money_text k) * Fin 100) = Fin (of_int k)"
  using of_money_Fin[of k] jround_near by (metis abs_of_nonneg money_number)

section \<open>Validated splits\<close>

definition paise :: "jsval \<Rightarrow> int" where
  "paise s = (case jround (to_number (jprop s ''amountInr'') * Fin 100) of Fin x \<Rightarrow> \<lfloor>x\<rfloor> | _ \<Rightarrow> 0)"

lemma good_amount:
  assumes "\<not> bad_amount (jprop s ''amountInr'')"
  shows "jround (to_number (jprop s ''amountInr'') * Fin 100) = Fin (of_int (paise s))"
    and "1 \<le> paise s" and "paise s \<le> 9007199254740991"
    and "paise s \<le> 10 ^ 12 \<Longrightarrow> hundredths (to_number (jprop s ''amountInr'')) = Inr (paise s)"
proof -
  obtain a where a: "jprop s ''amountInr'' = JNum (Fin a)"
    using assms by (cases "jprop s ''amountInr''"; simp add: bad_amount_def Let_def)
      (metis is_finite.elims(2))
  have c: "is_safe_integer (jround (Fin a * Fin 100))" "\<not> jround (Fin a * Fin 100) < Fin 1" "\<not> a \<le> 0"
    "\<not> lit (1 / 10 ^ 6) < jabs (Fin a * Fin 100 - jround (Fin a * Fin 100))"
    using assms by (auto simp: bad_amount_def a Let_def simp del: times_jsnum.simps)
  obtain y where y: "Fin a * Fin 100 = Fin y"
    using c(1) by (cases "Fin a * Fin 100") (auto simp del: times_jsnum.simps)
  define r where "r = \<lfloor>y + 1 / 2\<rfloor>"
  have r: "paise s = r" by (simp add: paise_def a y r_def del: times_jsnum.simps)
  show j: "jround (to_number (jprop s ''amountInr'') * Fin 100) = Fin (of_int (paise s))"
    by (simp add: a y r r_def del: times_jsnum.simps)
  show "1 \<le> paise s" "paise s \<le> 9007199254740991"
    using c(1,2) by (simp_all add: y r r_def del: times_jsnum.simps)
  show "hundredths (to_number (jprop s ''amountInr'')) = Inr (paise s)" if small: "paise s \<le> 10 ^ 12"
  proof -
    have yr: "\<bar>y - of_int r\<bar> \<le> 1 / 2" unfolding r_def by linarith
    have "of_int r \<le> (of_int (10 ^ 12) :: rat)" using small r by (simp only: of_int_le_iff)
    then have ry: "of_int r \<le> (1000000000000 :: rat)" by simp
    have ypos: "a * 100 \<le> 1500000000000"
    proof (rule ccontr)
      assume "\<not> ?thesis"
      then have "rnd 1500000000000 \<le> rnd (a * 100)" by (intro rnd_mono) simp
      then show False using y yr ry by simp
    qed
    then have "\<bar>a * 100\<bar> \<le> 2000000000000" using c(3) by linarith
    then have fy: "y = fl (a * 100)" "\<bar>y - a * 100\<bar> \<le> 1 / 1000"
      using y finite_range[of "a * 100"] fl_error_money[of "a * 100"] by simp_all
    obtain e where e: "lit (1 / 1000000) = Fin e" "\<bar>e\<bar> \<le> 1 / 100"
      using PAISE_EPS_Fin by (auto simp: PAISE_EPS_def)
    have small_diff: "\<bar>y - of_int r\<bar> \<le> 2000000000000" using yr by linarith
    have "jround (Fin y) = Fin (of_int r)" by (simp add: r_def)
    then have "\<bar>fl (y - of_int r)\<bar> \<le> e"
      using c(4) by (simp add: y e(1) minus_Fin finite_range[OF small_diff] del: times_jsnum.simps jround.simps)
    then have "\<bar>y - of_int r\<bar> \<le> 1 / 50" using e(2) fl_error_money[OF small_diff] by linarith
    then have "\<bar>a - of_int r / 100\<bar> \<le> 1 / 1000" using fy(2) by linarith
    then show ?thesis by (simp add: a hundredths_def nearest_near r)
  qed
qed

lemma validated:
  assumes "validateSplits v = Inr splits" and "s \<in> set splits"
  shows "validate_split s = Inr ()"
proof -
  have "efold (\<lambda>_. validate_split) () xs = Inr u \<Longrightarrow> \<forall>s \<in> set xs. validate_split s = Inr ()" for xs u
    by (induction xs) (auto simp: ebind_eq_Inr)
  then show ?thesis using assms by (auto simp: validateSplits_def ebind_eq_Inr split: jsval.splits if_splits)
qed

lemma valid_amount: "validate_split s = Inr () \<Longrightarrow> \<not> bad_amount (jprop s ''amountInr'')"
  by (auto simp: validate_split_def split: jsval.splits if_splits)

text \<open>A Number sum that stays below the amount is the exact sum.\<close>

lemma add_whole: "\<bar>j + k\<bar> \<le> 2 ^ 53 \<Longrightarrow> Fin (of_int j) + Fin (of_int k) = Fin (of_int (j + k))"
  using rnd_of_int[of "j + k"] by simp

lemma total_snoc:
  "validate_split s = Inr () \<Longrightarrow> splitTotalPaise (splits @ [s]) = splitTotalPaise splits + Fin (of_int (paise s))"
  by (simp add: splitTotalPaise_def good_amount(1)[OF valid_amount])

lemma total_finite:
  "\<forall>s \<in> set splits. validate_split s = Inr () \<Longrightarrow> splitTotalPaise splits \<noteq> PInf \<Longrightarrow>
     \<exists>x. splitTotalPaise splits = Fin x \<and> rnd x = Fin x \<and> 0 \<le> x"
proof (induction splits rule: rev_induct)
  case Nil
  show ?case by (simp add: splitTotalPaise_def)
next
  case (snoc s splits)
  have vs: "validate_split s = Inr ()" using snoc.prems by simp
  note whole = total_snoc[OF vs, of splits]
  have "splitTotalPaise splits \<noteq> PInf" using snoc.prems(2) by (auto simp: whole)
  then obtain x where x: "splitTotalPaise splits = Fin x" "0 \<le> x" using snoc by auto
  define y where "y = x + of_int (paise s)"
  have "0 \<le> fl y" using x(2) good_amount(2)[OF valid_amount[OF vs]] by (intro fl_nonneg) (simp add: y_def)
  then have "rnd y = PInf \<or> rnd y = Fin (fl y) \<and> rnd (fl y) = Fin (fl y)"
    by (auto simp: rnd_def Let_def fl_idem)
  then show ?case using snoc.prems(2) x \<open>0 \<le> fl y\<close> by (auto simp: whole y_def)
qed

lemma total_exact:
  "\<lbrakk>\<forall>s \<in> set splits. validate_split s = Inr (); splitTotalPaise splits \<le> Fin (of_int n); n \<le> 10 ^ 12\<rbrakk>
   \<Longrightarrow> splitTotalPaise splits = Fin (of_int (sum_list (map paise splits))) \<and> sum_list (map paise splits) \<le> n
     \<and> 0 \<le> sum_list (map paise splits) \<and> (\<forall>s \<in> set splits. paise s \<le> 10 ^ 12)"
proof (induction splits rule: rev_induct)
  case Nil
  then show ?case by (simp add: splitTotalPaise_def)
next
  case (snoc s splits)
  have vs: "validate_split s = Inr ()" using snoc.prems by simp
  note whole = total_snoc[OF vs, of splits]
  note pos = good_amount(2,3)[OF valid_amount[OF vs]]
  have "splitTotalPaise splits \<noteq> PInf" using snoc.prems(2) by (auto simp: whole)
  then obtain x where x: "splitTotalPaise splits = Fin x" "rnd x = Fin x" "0 \<le> x"
    using total_finite[of splits] snoc.prems(1) by auto
  have r: "rnd (x + of_int (paise s)) \<le> Fin (of_int n)" using snoc.prems(2) by (simp add: whole x(1))
  have "rnd x \<le> rnd (x + of_int (paise s))" using pos by (intro rnd_mono) simp
  then have below: "splitTotalPaise splits \<le> Fin (of_int n)" unfolding x(1,2) using r jle_trans by blast
  note ih = snoc.IH[OF _ below snoc.prems(3)]
  have "rnd (of_int (paise s)) \<le> rnd (x + of_int (paise s))" using x(3) by (intro rnd_mono) simp
  then have "rnd (of_int (paise s)) \<le> Fin (of_int n)" using r jle_trans by blast
  then have "Fin (of_int (paise s)) \<le> Fin (of_int n)" using rnd_of_int[of "paise s"] pos by simp
  then have ps: "paise s \<le> n" by simp
  have exact: "splitTotalPaise splits = Fin (of_int (sum_list (map paise splits)))"
    and bounds: "0 \<le> sum_list (map paise splits)" "sum_list (map paise splits) \<le> n" "\<forall>s \<in> set splits. paise s \<le> 10 ^ 12"
    using ih snoc.prems(1) by auto
  have sum: "splitTotalPaise (splits @ [s]) = Fin (of_int (sum_list (map paise splits) + paise s))"
    unfolding whole exact by (rule add_whole) (use ps bounds(1,2) pos snoc.prems(3) in simp)
  have "Fin (of_int (sum_list (map paise splits) + paise s)) \<le> Fin (of_int n)" using snoc.prems(2) unfolding sum .
  then have "sum_list (map paise splits) + paise s \<le> n" by (simp only: le_Fin of_int_le_iff)
  then show ?case using sum ps bounds pos snoc.prems(3) by simp
qed

section \<open>What is stored\<close>

definition stored :: "split_db \<Rightarrow> string \<Rightarrow> int" where
  "stored db txn = sum_list (map sr_amount (filter (\<lambda>r. sr_txn r = txn) (db_splits db)))"

text \<open>The state the schema and the routes keep: transaction ids are keys, amounts are
  \<open>numeric(12,2)\<close> and positive, and no transaction is split beyond its amount.\<close>

definition splits_within :: "split_db \<Rightarrow> bool" where
  "splits_within db \<longleftrightarrow> distinct (map tx_id (db_txns db))
     \<and> (\<forall>t \<in> set (db_txns db). 0 < tx_amount t \<and> tx_amount t < 10 ^ 12 \<and> stored db (tx_id t) \<le> tx_amount t)
     \<and> (\<forall>r \<in> set (db_splits db). 0 < sr_amount r \<and> sr_amount r < 10 ^ 12)"

definition row_of :: "string \<Rightarrow> jsval \<Rightarrow> split_row \<Rightarrow> bool" where
  "row_of txn s r \<longleftrightarrow> sr_txn r = txn \<and> sr_card r = uuid_param (jprop s ''userCardId'')
     \<and> sr_category r = uuid_param (jprop s ''categoryId'') \<and> sr_note r = note_param (jprop s ''note'')
     \<and> money (to_number (jprop s ''amountInr'')) = Inr (sr_amount r) \<and> 0 < sr_amount r"

lemma insert_split_row:
  assumes "insert_split txn db s = Inr db'"
  shows "\<exists>r. row_of txn s r \<and> db_splits db' = db_splits db @ [r] \<and> db_txns db' = db_txns db
    \<and> db_categories db' = db_categories db \<and> db_cards db' = db_cards db"
  using assms by (auto simp: insert_split_def row_of_def split: sum.splits if_splits)

lemma insert_splits_rows:
  "efold (insert_split txn) db splits = Inr db' \<Longrightarrow>
     \<exists>rows. list_all2 (row_of txn) splits rows \<and> db_splits db' = db_splits db @ rows \<and> db_txns db' = db_txns db
       \<and> db_categories db' = db_categories db \<and> db_cards db' = db_cards db"
proof (induction splits arbitrary: db)
  case Nil
  then show ?case by simp
next
  case (Cons s splits)
  then obtain d where d: "insert_split txn db s = Inr d" "efold (insert_split txn) d splits = Inr db'"
    by (auto simp: ebind_eq_Inr)
  obtain r where r: "row_of txn s r" "db_splits d = db_splits db @ [r]" "db_txns d = db_txns db"
    "db_categories d = db_categories db" "db_cards d = db_cards db"
    using insert_split_row[OF d(1)] by blast
  obtain rows where "list_all2 (row_of txn) splits rows" "db_splits db' = db_splits d @ rows" "db_txns db' = db_txns d"
    "db_categories db' = db_categories d" "db_cards db' = db_cards d"
    using Cons.IH[OF d(2)] by blast
  then show ?case using r by (intro exI[of _ "r # rows"]) simp
qed

lemma replace_splits_rows:
  assumes "replace_splits db txn splits = Inr db'"
  obtains rows where "list_all2 (row_of txn) splits rows"
    "db_splits db' = filter (\<lambda>r. sr_txn r \<noteq> txn) (db_splits db) @ rows" "db_txns db' = db_txns db"
    "db_categories db' = db_categories db" "db_cards db' = db_cards db"
  using insert_splits_rows[OF assms[unfolded replace_splits_def]] by auto

lemma row_amount:
  assumes "row_of txn s r" and "validate_split s = Inr ()" and "paise s \<le> 10 ^ 12"
  shows "sr_amount r = paise s" and "0 < sr_amount r" and "sr_amount r < 10 ^ 12"
proof -
  have "money (to_number (jprop s ''amountInr'')) = Inr (sr_amount r)" "0 < sr_amount r"
    using assms(1) by (simp_all add: row_of_def)
  then show "sr_amount r = paise s" "0 < sr_amount r" "sr_amount r < 10 ^ 12"
    using good_amount(4)[OF valid_amount[OF assms(2)] assms(3)]
    by (auto simp: money_def fits_def split: if_splits)
qed

lemma rows_amounts:
  "list_all2 (row_of txn) splits rows \<Longrightarrow> \<forall>s \<in> set splits. validate_split s = Inr () \<and> paise s \<le> 10 ^ 12 \<Longrightarrow>
     map sr_amount rows = map paise splits \<and> (\<forall>r \<in> set rows. sr_txn r = txn \<and> 0 < sr_amount r \<and> sr_amount r < 10 ^ 12)"
proof (induction rule: list_all2_induct)
  case (Cons s ss r rs)
  have s: "validate_split s = Inr ()" "paise s \<le> 10 ^ 12" using Cons.prems by auto
  note amount = row_amount[OF Cons.hyps(1) s]
  have "sr_txn r = txn" using Cons.hyps(1) by (simp add: row_of_def)
  then show ?case using Cons.IH Cons.prems amount(1) amount(2,3) by (simp del: power_numeral)
qed simp

lemma read_splits_cong: "db_splits d = db_splits db \<Longrightarrow> db_categories d = db_categories db \<Longrightarrow> read_splits d x = read_splits db x"
  by (simp add: read_splits_def row_json_def)

text \<open>The ways a \<open>PUT\<close> can end.\<close>

lemma put_cases:
  assumes "put_splits sha256 db user v body = (db', resp)"
  obtains (error) c m where "resp = SplitError c m" "db' = db"
  | (rows) txn splits parent where "v = JStr txn" "is_uuid txn" "validateSplits (jprop body ''splits'') = Inr splits"
      "find_txn db user txn = Some parent" "resp = SplitRows (read_splits db' (js_lower txn)) (splitFingerprint sha256 (read_splits db' (js_lower txn)))"
      "db' = db \<and> splitFingerprint sha256 (read_splits db (js_lower txn)) = splitFingerprint sha256 splits \<or>
       \<not> jround (string_to_number (money_text (tx_amount parent)) * Fin 100) < splitTotalPaise splits
         \<and> replace_splits db (js_lower txn) splits = Inr db'"
proof (cases resp)
  case (SplitError c m)
  then show ?thesis using assms error
    by (auto simp: put_splits_def Let_def split: jsval.splits if_splits sum.splits prod.splits)
next
  case (SplitRows rs fp)
  obtain txn splits where v: "v = JStr txn" "is_uuid txn" "validateSplits (jprop body ''splits'') = Inr splits"
    and w: "write_splits sha256 db user txn splits (jprop body ''expectedFingerprint'') = Inr (db', rs)"
      "fp = splitFingerprint sha256 rs"
    using assms by (auto simp: put_splits_def SplitRows Let_def split: jsval.splits if_splits sum.splits prod.splits)
  obtain parent where parent: "find_txn db user txn = Some parent"
    using w(1) by (cases "find_txn db user txn") (simp_all add: write_splits_def)
  define P where "P = jround (string_to_number (money_text (tx_amount parent)) * Fin 100)"
  have "rs = read_splits db' (js_lower txn) \<and>
      (db' = db \<and> splitFingerprint sha256 (read_splits db (js_lower txn)) = splitFingerprint sha256 splits \<or>
       \<not> P < splitTotalPaise splits \<and> replace_splits db (js_lower txn) splits = Inr db')"
    using w(1) unfolding write_splits_def parent option.case P_def[symmetric] splitWriteDecision_def
    by (simp add: Let_def ebind_eq_Inr split: if_splits) blast
  then show ?thesis using rows v parent SplitRows w(2) by (auto simp: P_def[symmetric])
qed

text \<open>What a successful replacement leaves in the table.\<close>

lemma find_txn_Some:
  "find_txn db user txn = Some t \<Longrightarrow> t \<in> set (db_txns db) \<and> tx_id t = js_lower txn"
  by (auto simp: find_txn_def find_Some_iff)

lemma replaced:
  assumes within: "splits_within db" and valid: "validateSplits v = Inr splits"
    and parent: "find_txn db user txn = Some parent"
    and total: "\<not> jround (string_to_number (money_text (tx_amount parent)) * Fin 100) < splitTotalPaise splits"
    and replace: "replace_splits db (js_lower txn) splits = Inr db'"
  obtains rows where "list_all2 (row_of (js_lower txn)) splits rows" "map sr_amount rows = map paise splits"
    "\<forall>s \<in> set splits. validate_split s = Inr () \<and> paise s \<le> 10 ^ 12"
    "\<forall>r \<in> set rows. sr_txn r = js_lower txn \<and> 0 < sr_amount r \<and> sr_amount r < 10 ^ 12"
    "sum_list (map sr_amount rows) \<le> tx_amount parent"
    "db_splits db' = filter (\<lambda>r. sr_txn r \<noteq> js_lower txn) (db_splits db) @ rows" "db_txns db' = db_txns db"
    "db_categories db' = db_categories db"
proof -
  have vs: "\<forall>s \<in> set splits. validate_split s = Inr ()" using validated[OF valid] by blast
  have amount: "0 \<le> tx_amount parent" "tx_amount parent \<le> 10 ^ 12"
    using within find_txn_Some[OF parent] by (force simp: splits_within_def)+
  have "splitTotalPaise splits \<noteq> NaN" using total_finite[OF vs] by auto
  then have "splitTotalPaise splits \<le> Fin (of_int (tx_amount parent))"
    using total by (simp add: jround_money_text[OF amount] jnot_less)
  note exact = total_exact[OF vs this amount(2)]
  obtain rows where rows: "list_all2 (row_of (js_lower txn)) splits rows"
    "db_splits db' = filter (\<lambda>r. sr_txn r \<noteq> js_lower txn) (db_splits db) @ rows" "db_txns db' = db_txns db"
    "db_categories db' = db_categories db"
    using replace_splits_rows[OF replace] by blast
  have ok: "\<forall>s \<in> set splits. validate_split s = Inr () \<and> paise s \<le> 10 ^ 12" using vs exact by blast
  note r = rows_amounts[OF rows(1) ok]
  have "sum_list (map sr_amount rows) \<le> tx_amount parent" using r exact by simp
  then show ?thesis using that[OF rows(1) conjunct1[OF r] ok conjunct2[OF r]] rows by blast
qed

text \<open>C17: A PUT never splits a transaction beyond its amount: whatever the request body, it keeps
  the state in which the rows of every transaction are positive and add up, in paise, to at most the
  transaction's amount. A response with an error status leaves the state as it was, and a success
  returns exactly the rows that are stored afterwards, with their fingerprint.\<close>

theorem put_keeps_split_totals:
  assumes "splits_within db" and "put_splits sha256 db user v body = (db', resp)"
  shows "splits_within db' \<and> (case resp of
       SplitError _ _ \<Rightarrow> db' = db
     | SplitRows rows fp \<Rightarrow> fp = splitFingerprint sha256 rows \<and>
         (\<exists>txn. v = JStr txn \<and> rows = read_splits db' (js_lower txn)))"
  using assms(2)
proof (cases rule: put_cases)
  case (error c m)
  then show ?thesis using assms(1) by simp
next
  case (rows txn splits parent)
  have "splits_within db'"
  proof (cases "db' = db")
    case False
    then have written: "\<not> jround (string_to_number (money_text (tx_amount parent)) * Fin 100) < splitTotalPaise splits"
      "replace_splits db (js_lower txn) splits = Inr db'"
      using rows(6) by auto
    obtain new where new: "\<forall>r \<in> set new. sr_txn r = js_lower txn \<and> 0 < sr_amount r \<and> sr_amount r < 10 ^ 12"
      "sum_list (map sr_amount new) \<le> tx_amount parent"
      "db_splits db' = filter (\<lambda>r. sr_txn r \<noteq> js_lower txn) (db_splits db) @ new" "db_txns db' = db_txns db"
      using replaced[OF assms(1) rows(3,4) written] by metis
    have mine: "stored db' (js_lower txn) = sum_list (map sr_amount new)"
      using new(1) by (simp add: stored_def new(3) filter_empty_conv filter_id_conv)
    have other: "stored db' x = stored db x" if "x \<noteq> js_lower txn" for x
    proof -
      have "filter (\<lambda>r. sr_txn r = x) new = []" using new(1) that by (auto simp: filter_empty_conv)
      moreover have "filter (\<lambda>r. sr_txn r = x \<and> sr_txn r \<noteq> js_lower txn) (db_splits db) =
          filter (\<lambda>r. sr_txn r = x) (db_splits db)"
        using that by (intro filter_cong) auto
      ultimately show ?thesis by (simp add: stored_def new(3) conj_commute)
    qed
    have "stored db' (tx_id t) \<le> tx_amount t" if t: "t \<in> set (db_txns db)" for t
    proof (cases "tx_id t = js_lower txn")
      case True
      then have "t = parent"
        using assms(1) t find_txn_Some[OF rows(4)] by (auto simp: splits_within_def distinct_map inj_on_def)
      then show ?thesis using True mine new(2) by simp
    next
      case False
      then show ?thesis using other assms(1) t by (simp add: splits_within_def)
    qed
    then show ?thesis using assms(1) new by (auto simp: splits_within_def)
  qed (use assms(1) in simp)
  then show ?thesis using rows by auto
qed

section \<open>A retry changes nothing\<close>

text \<open>The requests the client sends: uuids in lower case, no property with a column's name.\<close>

definition lower_text :: "jsval \<Rightarrow> bool" where
  "lower_text v = (case v of JStr s \<Rightarrow> js_lower s = s \<and> s \<noteq> [] | _ \<Rightarrow> nullish v)"

definition plain_split :: "jsval \<Rightarrow> bool" where
  "plain_split s \<longleftrightarrow> lower_text (jprop s ''userCardId'') \<and> lower_text (jprop s ''categoryId'')
     \<and> nullish (jprop s ''user_card_id'') \<and> nullish (jprop s ''category_id'')"

lemma coalesce_uuid:
  "lower_text v \<Longrightarrow> nullish w \<Longrightarrow>
     coalesce (coalesce v w) JNull = coalesce (coalesce JUndef (text_or_null (uuid_param v))) JNull"
  by (cases v) (auto simp: lower_text_def coalesce_def nullish_def text_or_null_def uuid_param_def split: option.splits)

lemma note_null: "\<not> bad_note v \<Longrightarrow> or_null v = or_null (text_or_null (note_param v))"
  by (cases v) (auto simp: bad_note_def nullish_def or_null_def text_or_null_def note_param_def split: option.splits)

text \<open>A stored row has the key of the split it came from.\<close>

lemma row_key:
  assumes "row_of txn s r" and "validate_split s = Inr ()" and "paise s \<le> 10 ^ 12" and "plain_split s"
  shows "split_key (row_json db r) = split_key s"
proof -
  have amount: "sr_amount r = paise s" "0 \<le> sr_amount r" "sr_amount r \<le> 10 ^ 12"
    using row_amount[OF assms(1-3)] by simp_all
  obtain a where a: "jprop s ''amountInr'' = JNum a"
    using valid_amount[OF assms(2)] by (cases "jprop s ''amountInr''") (simp_all add: bad_amount_def)
  have "jround (to_number (coalesce (jprop s ''amountInr'') (jprop s ''amount_inr'')) * Fin 100) = Fin (of_int (paise s))"
    using good_amount(1)[OF valid_amount[OF assms(2)]] by (simp add: a coalesce_def nullish_def)
  moreover have "or_null (jprop s ''note'') = or_null (text_or_null (note_param (jprop s ''note'')))"
    using assms(2) by (intro note_null) (auto simp: validate_split_def split: jsval.splits if_splits)
  moreover have "coalesce (coalesce (jprop s ''userCardId'') (jprop s ''user_card_id'')) JNull =
      coalesce (coalesce JUndef (text_or_null (sr_card r))) JNull"
    "coalesce (coalesce (jprop s ''categoryId'') (jprop s ''category_id'')) JNull =
      coalesce (coalesce JUndef (text_or_null (sr_category r))) JNull"
    using assms(1,4) by (auto simp: row_of_def plain_split_def intro: coalesce_uuid)
  moreover have "coalesce JUndef v = v" for v by (simp add: coalesce_def nullish_def)
  ultimately show ?thesis
    using jround_money_text[OF amount(2,3)] assms(1)
    by (simp add: split_key_def row_json_def row_of_def amount(1))
qed

lemma rows_keys:
  "list_all2 (row_of txn) splits rows \<Longrightarrow>
     \<forall>s \<in> set splits. validate_split s = Inr () \<and> paise s \<le> 10 ^ 12 \<and> plain_split s \<Longrightarrow>
     map (split_key \<circ> row_json db) rows = map split_key splits"
  by (induction rule: list_all2_induct) (auto intro: row_key)

lemma written_fingerprint:
  assumes "list_all2 (row_of txn) splits rows" and "\<forall>r \<in> set rows. sr_txn r = txn"
    and "\<forall>s \<in> set splits. validate_split s = Inr () \<and> paise s \<le> 10 ^ 12 \<and> plain_split s"
    and "db_splits db' = filter (\<lambda>r. sr_txn r \<noteq> txn) old @ rows"
  shows "splitFingerprint sha256 (read_splits db' txn) = splitFingerprint sha256 splits"
proof -
  have "filter (\<lambda>r. sr_txn r = txn) (db_splits db') = rows"
    using assms(2) by (simp add: assms(4) filter_empty_conv filter_id_conv)
  then have "mset (map split_key (read_splits db' txn)) = mset (map (split_key \<circ> row_json db') rows)"
    by (simp add: read_splits_def)
  also have "\<dots> = mset (map split_key splits)" by (simp add: rows_keys[OF assms(1,3)])
  finally have "jsort str_le (map split_key (read_splits db' txn)) = jsort str_le (map split_key splits)"
    by (intro by_string.jsort_unique) (auto intro: str_le_antisym)
  then show ?thesis by (simp add: splitFingerprint_def)
qed

text \<open>A retry after a lost response is a no-op: when a PUT of splits with lower-case uuids
  has succeeded, sending the same splits again - with the same, another or no expected fingerprint -
  succeeds, changes nothing and returns the same rows and fingerprint.\<close>

theorem put_retry_no_op:
  assumes "splits_within db" and "put_splits sha256 db user v body = (db', SplitRows rows fp)"
    and "\<forall>s \<in> set (jarr (jprop body ''splits'')). plain_split s"
    and "jprop again ''splits'' = jprop body ''splits''"
    and "nullish (jprop again ''expectedFingerprint'') \<or> is_sha256 (jprop again ''expectedFingerprint'')"
  shows "put_splits sha256 db' user v again = (db', SplitRows rows fp)"
  using assms(2)
proof (cases rule: put_cases)
  case (rows txn splits parent)
  have "jarr (jprop body ''splits'') = splits"
    using rows(3) by (auto simp: validateSplits_def ebind_eq_Inr split: jsval.splits if_splits)
  then have plain: "\<forall>s \<in> set splits. plain_split s" using assms(3) by simp
  have "find_txn db' user txn = Some parent \<and>
      splitFingerprint sha256 (read_splits db' (js_lower txn)) = splitFingerprint sha256 splits"
  proof (cases "db' = db \<and> splitFingerprint sha256 (read_splits db (js_lower txn)) = splitFingerprint sha256 splits")
    case True
    then show ?thesis using rows(4) by simp
  next
    case False
    then have written: "\<not> jround (string_to_number (money_text (tx_amount parent)) * Fin 100) < splitTotalPaise splits"
      "replace_splits db (js_lower txn) splits = Inr db'"
      using rows(6) by auto
    show ?thesis
    proof (rule replaced[OF assms(1) rows(3,4) written])
      fix new
      assume new: "list_all2 (row_of (js_lower txn)) splits new"
        "\<forall>s \<in> set splits. validate_split s = Inr () \<and> paise s \<le> 10 ^ 12"
        "\<forall>r \<in> set new. sr_txn r = js_lower txn \<and> 0 < sr_amount r \<and> sr_amount r < 10 ^ 12"
        "db_splits db' = filter (\<lambda>r. sr_txn r \<noteq> js_lower txn) (db_splits db) @ new" "db_txns db' = db_txns db"
      have "splitFingerprint sha256 (read_splits db' (js_lower txn)) = splitFingerprint sha256 splits"
        by (rule written_fingerprint[OF new(1) _ _ new(4)]) (use new(2,3) plain in auto)
      then show ?thesis using rows(4) new(5) by (simp add: find_txn_def)
    qed
  qed
  then have "write_splits sha256 db' user txn splits (jprop again ''expectedFingerprint'') = Inr (db', read_splits db' (js_lower txn))"
    by (simp add: write_splits_def splitWriteDecision_def Let_def)
  then show ?thesis using rows(1,2,3,5) assms(4,5) by (auto simp: put_splits_def Let_def)
qed simp

section \<open>A concrete request\<close>

text \<open>A payment of 102 rupees, split in three equal parts.\<close>

definition sample_split :: jsval where
  "sample_split = JObj [(''amountInr'', JNum (Fin 34))]"

definition sample_splits_body :: jsval where
  "sample_splits_body = JObj [(''splits'', JArr [sample_split, sample_split, sample_split])]"

definition sample_txn :: string where
  "sample_txn = ''00000000-0000-0000-0000-000000000001''"

definition sample_split_db :: split_db where
  "sample_split_db = \<lparr>db_txns = [\<lparr>tx_id = sample_txn, tx_profile = ''u'', tx_active = True, tx_amount = 10200\<rparr>],
     db_cards = [], db_categories = [], db_splits = [], db_next = 0\<rparr>"

definition sample_row :: "nat \<Rightarrow> split_row" where
  "sample_row n = \<lparr>sr_id = n, sr_txn = sample_txn, sr_card = None, sr_category = None, sr_amount = 3400, sr_note = None\<rparr>"

definition sample_split_after :: split_db where
  "sample_split_after = sample_split_db\<lparr>db_splits := [sample_row 0, sample_row 1, sample_row 2], db_next := 3\<rparr>"

lemma sample_within: "splits_within sample_split_db"
  by (simp add: splits_within_def sample_split_db_def stored_def)

lemma sample_txn_text: "is_uuid sample_txn" "js_lower sample_txn = sample_txn"
  by code_simp+

lemma sample_split_ok: "validate_split sample_split = Inr ()"
proof -
  have "\<not> lit (1 / 10 ^ 6) < Fin 0"
    using rnd_nonneg[of "1 / 10 ^ 6"] by (cases "rnd (1 / 10 ^ 6)") (auto simp: lit_def)
  then show ?thesis
    by (simp add: validate_split_def sample_split_def bad_amount_def bad_note_def bad_uuid_def nullish_def Let_def
        minus_Fin)
qed

lemma sample_insert:
  "insert_split sample_txn db sample_split =
     Inr (db\<lparr>db_splits := db_splits db @ [sample_row (db_next db)], db_next := db_next db + 1\<rparr>)"
proof -
  have "money (Fin 34) = Inr 3400" by code_simp
  then show ?thesis
    by (simp add: insert_split_def sample_split_def uuid_param_def note_param_def sample_row_def)
qed

lemma sample_fingerprints:
  "splitFingerprint id [] \<noteq> splitFingerprint id [sample_split, sample_split, sample_split]"
  by (simp add: splitFingerprint_def jsort_Cons json_array_def json_quote_def)

lemma sample_put:
  "put_splits id sample_split_db ''u'' (JStr sample_txn) sample_splits_body =
     (sample_split_after, SplitRows (read_splits sample_split_after sample_txn)
        (splitFingerprint id (read_splits sample_split_after sample_txn)))"
proof -
  have total: "splitTotalPaise [sample_split, sample_split, sample_split] = Fin 10200"
    by (simp add: splitTotalPaise_def sample_split_def)
  have parent: "jround (string_to_number (money_text 10200) * Fin 100) = Fin 10200"
    using jround_money_text[of 10200] by simp
  have none: "read_splits sample_split_db sample_txn = []" by (simp add: read_splits_def sample_split_db_def)
  have valid: "validateSplits (jprop sample_splits_body ''splits'') = Inr [sample_split, sample_split, sample_split]"
    by (simp add: validateSplits_def sample_splits_body_def sample_split_ok)
  have refs: "check_references sample_split_db ''u'' sample_split = Inr ()"
    by (simp add: check_references_def sample_split_def)
  have replaced: "replace_splits sample_split_db sample_txn [sample_split, sample_split, sample_split] = Inr sample_split_after"
    by (simp add: replace_splits_def sample_insert sample_split_after_def sample_split_db_def numeral_2_eq_2 numeral_3_eq_3)
  have found: "find_txn sample_split_db ''u'' sample_txn = Some (hd (db_txns sample_split_db))"
    by (simp add: find_txn_def sample_split_db_def sample_txn_text)
  have amount: "tx_amount (hd (db_txns sample_split_db)) = 10200" by (simp add: sample_split_db_def)
  have expected: "jprop sample_splits_body ''expectedFingerprint'' = JUndef" by (simp add: sample_splits_body_def)
  have decision: "splitWriteDecision id [] [sample_split, sample_split, sample_split] JUndef = Write"
    using sample_fingerprints by (simp add: splitWriteDecision_def nullish_def)
  have "write_splits id sample_split_db ''u'' sample_txn [sample_split, sample_split, sample_split] JUndef =
      Inr (sample_split_after, read_splits sample_split_after sample_txn)"
    by (simp add: write_splits_def found sample_txn_text none decision amount parent total refs replaced)
  then show ?thesis
    by (simp add: put_splits_def sample_txn_text valid expected nullish_def)
qed

lemma put_keeps_split_totals_witness: "splits_within sample_split_after \<and> stored sample_split_after sample_txn = 10200"
  using put_keeps_split_totals[OF sample_within sample_put]
  by (simp add: stored_def sample_split_after_def sample_row_def)

lemma put_retry_no_op_witness:
  "put_splits id sample_split_after ''u'' (JStr sample_txn) sample_splits_body =
     (sample_split_after, SplitRows (read_splits sample_split_after sample_txn)
        (splitFingerprint id (read_splits sample_split_after sample_txn)))"
  by (rule put_retry_no_op[OF sample_within sample_put])
    (simp_all add: sample_splits_body_def sample_split_def plain_split_def lower_text_def nullish_def)

end
