(* ===== verification/SyncTransaction.thy ===== *)
theory SyncTransaction
  imports Splits
begin

text \<open>
  \<open>api/src/sync_transaction_state.js\<close>: applying one synced change to a transaction and moving
  the card state with it. The state is the rows of \<open>transactions\<close> as the code reads them
  (timestamps in milliseconds, money in hundredths, uuids as text), the split amounts, the private
  categories and, in \<open>d_cards\<close>, whatever the callbacks read and write. The stored procedure that
  applies the change and the four callbacks are arguments. Every throw is an \<open>Inl\<close>, which rolls
  the transaction back.
\<close>

datatype sync_error = Tagged string | Outside string

record sync_row =
  r_id :: string
  r_profile :: string
  r_card :: "string option"
  r_amount :: int
  r_occurred :: "jsnum option"
  r_category :: "string option"
  r_user_category :: "string option"
  r_merchant :: "string option"
  r_rail :: "string option"
  r_status :: string
  r_instrument :: string
  r_kind :: string
  r_applied :: bool
  r_backfill :: bool

record user_category =
  uc_id :: string
  uc_profile :: string
  uc_parent :: "string option"
  uc_user_parent :: "string option"

record 'c sync_db =
  d_rows :: "sync_row list"
  d_splits :: "(string \<times> int) list"
  d_categories :: "user_category list"
  d_cards :: 'c

section \<open>Comparing the reward inputs\<close>

definition sameUuid :: "string option \<Rightarrow> string option \<Rightarrow> bool" where
  "sameUuid left right = (case (left, right) of
     (Some l, Some r) \<Rightarrow> js_lower l = js_lower r
   | (None, None) \<Rightarrow> True
   | _ \<Rightarrow> False)"

text \<open>\<open>^(-?)([0-9]+)(?:[.]([0-9]{1,2}))?$\<close>, in cents.\<close>

definition unsigned_cents :: "string \<Rightarrow> sync_error + int" where
  "unsigned_cents s =
     (let (whole, rest) = split_digits s in
      if whole = [] then Inl (Tagged ''SYNC_TRANSACTION_AMOUNT_INVALID'')
      else (case rest of
         [] \<Rightarrow> Inr (int_of_digits whole * 100)
       | c # fraction \<Rightarrow>
           if c = CHR ''.'' \<and> fraction \<noteq> [] \<and> length fraction \<le> 2 \<and> list_all is_digit fraction
           then Inr (int_of_digits whole * 100 + int_of_digits (fraction @ replicate (2 - length fraction) (CHR ''0'')))
           else Inl (Tagged ''SYNC_TRANSACTION_AMOUNT_INVALID'')))"

definition amountCents :: "string \<Rightarrow> sync_error + int" where
  "amountCents s = (case s of
     [] \<Rightarrow> Inl (Tagged ''SYNC_TRANSACTION_AMOUNT_INVALID'')
   | c # t \<Rightarrow> if c = CHR ''-'' then ebind (unsigned_cents t) (\<lambda>n. Inr (- n)) else unsigned_cents s)"

definition timestampMillis :: "jsnum option \<Rightarrow> sync_error + jsnum option" where
  "timestampMillis v = (case v of
     None \<Rightarrow> Inr None
   | Some t \<Rightarrow> if is_finite t then Inr (Some t) else Inl (Tagged ''SYNC_TRANSACTION_DATE_INVALID''))"

datatype reward_field =
  AmountInr | OccurredAt | UserCardId | CategoryId | UserCategoryId | MerchantName | Rail | Instrument | EntryKind

definition REWARD_INPUT_FIELDS :: "reward_field list" where
  "REWARD_INPUT_FIELDS =
     [AmountInr, OccurredAt, UserCardId, CategoryId, UserCategoryId, MerchantName, Rail, Instrument, EntryKind]"

fun sameField :: "reward_field \<Rightarrow> sync_row \<Rightarrow> sync_row \<Rightarrow> sync_error + bool" where
  "sameField AmountInr a b =
     ebind (amountCents (money_text (r_amount a))) (\<lambda>x.
     ebind (amountCents (money_text (r_amount b))) (\<lambda>y. Inr (x = y)))"
| "sameField OccurredAt a b =
     ebind (timestampMillis (r_occurred a)) (\<lambda>x.
     ebind (timestampMillis (r_occurred b)) (\<lambda>y. Inr (x = y)))"
| "sameField UserCardId a b = Inr (sameUuid (r_card a) (r_card b))"
| "sameField CategoryId a b = Inr (sameUuid (r_category a) (r_category b))"
| "sameField UserCategoryId a b = Inr (sameUuid (r_user_category a) (r_user_category b))"
| "sameField MerchantName a b = Inr (r_merchant a = r_merchant b)"
| "sameField Rail a b = Inr (r_rail a = r_rail b)"
| "sameField Instrument a b = Inr (r_instrument a = r_instrument b)"
| "sameField EntryKind a b = Inr (r_kind a = r_kind b)"

definition changedRewardInputs :: "sync_row \<Rightarrow> sync_row \<Rightarrow> sync_error + reward_field list" where
  "changedRewardInputs before after =
     efold (\<lambda>changed field. ebind (sameField field before after) (\<lambda>same.
       Inr (if same then changed else changed @ [field]))) [] REWARD_INPUT_FIELDS"

definition has_card :: "sync_row \<Rightarrow> bool" where
  "has_card row = (case r_card row of None \<Rightarrow> False | Some c \<Rightarrow> c \<noteq> [])"

definition movesCardState :: "sync_row \<Rightarrow> bool" where
  "movesCardState row \<longleftrightarrow> r_instrument row = ''credit_card'' \<and> r_kind row = ''spend'' \<and> has_card row"

definition normalizeClientSeq :: "jsval \<Rightarrow> jsnum" where
  "normalizeClientSeq v = (case v of JNum n \<Rightarrow> if is_safe_integer n \<and> Fin 0 \<le> n then n else Fin 0 | _ \<Rightarrow> Fin 0)"

definition isCardInstrument :: "string \<Rightarrow> bool" where
  "isCardInstrument i \<longleftrightarrow> i = ''credit_card'' \<or> i = ''debit_card''"

section \<open>The category a private category stands for\<close>

definition find_category :: "user_category list \<Rightarrow> string \<Rightarrow> string \<Rightarrow> user_category option" where
  "find_category cats user i = find (\<lambda>c. uc_id c = js_lower i \<and> uc_profile c = user) cats"

text \<open>The recursive query: a level is added while the depth is below 32 and the parent is new.\<close>

fun category_chain :: "nat \<Rightarrow> user_category list \<Rightarrow> string \<Rightarrow> string list \<Rightarrow> user_category \<Rightarrow> user_category list" where
  "category_chain 0 cats user path child = [child]"
| "category_chain (Suc levels) cats user path child = child #
     (case uc_user_parent child of
        None \<Rightarrow> []
      | Some p \<Rightarrow>
          (case find_category cats user p of
             None \<Rightarrow> []
           | Some parent \<Rightarrow>
               if uc_id parent \<in> set path then []
               else category_chain levels cats user (path @ [uc_id parent]) parent))"

definition or_uuid :: "string option \<Rightarrow> string option \<Rightarrow> string option" where
  "or_uuid a b = (case a of Some s \<Rightarrow> if s \<noteq> [] then a else b | None \<Rightarrow> b)"

definition nearest_public :: "user_category list \<Rightarrow> string option" where
  "nearest_public chain = (case filter (\<lambda>c. uc_parent c \<noteq> None) chain of [] \<Rightarrow> None | c # _ \<Rightarrow> uc_parent c)"

definition effectiveRewardCategory :: "user_category list \<Rightarrow> string \<Rightarrow> sync_row \<Rightarrow> sync_error + string option" where
  "effectiveRewardCategory cats user row =
     (if or_uuid (r_user_category row) None = None then Inr (r_category row)
      else
        let chain = (case find_category cats user (the (r_user_category row)) of
              None \<Rightarrow> [] | Some c \<Rightarrow> category_chain 32 cats user [uc_id c] c) in
        if chain = [] \<or> uc_user_parent (last chain) \<noteq> None
        then Inl (Tagged ''SYNC_TRANSACTION_USER_CATEGORY_UNAVAILABLE'')
        else Inr (or_uuid (r_category row) (or_uuid (nearest_public chain) None)))"

section \<open>Applying a change\<close>

text \<open>What \<open>applyTransactionState\<close> is called with; its \<open>sign\<close> is 1 here.\<close>

record state_input =
  si_txn :: string
  si_card :: "string option"
  si_amount :: jsnum
  si_occurred :: "jsnum option"
  si_category :: "string option"
  si_merchant :: "string option"
  si_rail :: "string option"

record ('c, 'k) sync_callbacks =
  loadUserCardForState :: "'c \<Rightarrow> string \<Rightarrow> string \<Rightarrow> sync_error + 'k option"
  reverseTransactionState :: "'c \<Rightarrow> string \<Rightarrow> 'k \<Rightarrow> sync_row \<Rightarrow> sync_error + 'c"
  applyTransactionState :: "'c \<Rightarrow> string \<Rightarrow> 'k \<Rightarrow> state_input \<Rightarrow> sync_error + 'c"
  userCardMatchesInstrument :: "'c \<Rightarrow> string \<Rightarrow> string \<Rightarrow> string \<Rightarrow> sync_error + bool"

record rpc_result =
  out_applied :: bool
  out_conflicts :: jsval
  out_reason :: jsval

record sync_change =
  ch_user :: string
  ch_device :: string
  ch_entity :: string
  ch_op :: string
  ch_payload :: jsval
  ch_clocks :: jsval
  ch_seq :: jsval

type_synonym 'c sync_rpc = "'c sync_db \<Rightarrow> string \<Rightarrow> string \<Rightarrow> string \<Rightarrow> string \<Rightarrow> jsval \<Rightarrow> jsval \<Rightarrow> jsnum \<Rightarrow>
  sync_error + ('c sync_db \<times> rpc_result option)"

definition own_property :: "jsval \<Rightarrow> string \<Rightarrow> bool" where
  "own_property v k = (case v of JObj m \<Rightarrow> k \<in> fst ` set m | _ \<Rightarrow> False)"

definition or_empty :: "jsval \<Rightarrow> jsval" where
  "or_empty v = (if truthy v then v else JObj [])"

definition own_row :: "string \<Rightarrow> string \<Rightarrow> sync_row \<Rightarrow> bool" where
  "own_row user entity r \<longleftrightarrow> r_id r = js_lower entity \<and> r_profile r = user"

definition find_row :: "'c sync_db \<Rightarrow> string \<Rightarrow> string \<Rightarrow> sync_row option" where
  "find_row db user entity = find (own_row user entity) (d_rows db)"

text \<open>\<open>COALESCE(SUM(amount_inr), 0)\<close> as text.\<close>

definition split_total_text :: "'c sync_db \<Rightarrow> string \<Rightarrow> string" where
  "split_total_text db entity =
     (let xs = map snd (filter (\<lambda>s. fst s = js_lower entity) (d_splits db)) in
      if xs = [] then ''0'' else money_text (sum_list xs))"

definition check_split_total :: "'c sync_db \<Rightarrow> string \<Rightarrow> sync_row \<Rightarrow> reward_field list \<Rightarrow> sync_error + unit" where
  "check_split_total db entity after changed =
     (if AmountInr \<in> set changed then
        ebind (amountCents (split_total_text db entity)) (\<lambda>t.
        ebind (amountCents (money_text (r_amount after))) (\<lambda>a.
        echeck (t \<le> a) (Tagged ''SYNC_SPLIT_TOTAL_CONFLICT'')))
      else Inr ())"

definition load_old_card :: "('c, 'k) sync_callbacks \<Rightarrow> 'c \<Rightarrow> string \<Rightarrow> sync_row \<Rightarrow> sync_error + 'k option" where
  "load_old_card cb cards user before =
     (if movesCardState before \<and> r_applied before then
        ebind (loadUserCardForState cb cards user (the (r_card before))) (\<lambda>card.
          case card of None \<Rightarrow> Inl (Tagged ''SYNC_TRANSACTION_OLD_CARD_UNAVAILABLE'') | Some k \<Rightarrow> Inr (Some k))
      else Inr None)"

definition load_new_card :: "('c, 'k) sync_callbacks \<Rightarrow> 'c \<Rightarrow> string \<Rightarrow> sync_row \<Rightarrow> sync_error + 'k option" where
  "load_new_card cb cards user after =
     (if has_card after then
        ebind (loadUserCardForState cb cards user (the (r_card after))) (\<lambda>card.
          case card of
            None \<Rightarrow> Inl (Tagged ''SYNC_TRANSACTION_CARD_UNAVAILABLE'')
          | Some k \<Rightarrow>
              if isCardInstrument (r_instrument after) then
                ebind (userCardMatchesInstrument cb cards user (the (r_card after)) (r_instrument after)) (\<lambda>ok.
                  if ok then Inr (Some k) else Inl (Tagged ''SYNC_TRANSACTION_CARD_INCOMPATIBLE''))
              else Inr (Some k))
      else Inr None)"

definition input_of :: "sync_row \<Rightarrow> string option \<Rightarrow> state_input" where
  "input_of row category = \<lparr>si_txn = r_id row, si_card = r_card row,
     si_amount = string_to_number (money_text (r_amount row)), si_occurred = r_occurred row,
     si_category = category, si_merchant = r_merchant row, si_rail = r_rail row\<rparr>"

text \<open>The card state: undo the old row on its card, then record the new one on its own.\<close>

definition move_cards ::
    "('c, 'k) sync_callbacks \<Rightarrow> 'c \<Rightarrow> string \<Rightarrow> 'k option \<Rightarrow> 'k option \<Rightarrow> sync_row \<Rightarrow> sync_row \<Rightarrow> sync_error + 'c" where
  "move_cards cb cards user oldCard newCard beforeForState afterForState =
     ebind (case oldCard of None \<Rightarrow> Inr cards | Some k \<Rightarrow> reverseTransactionState cb cards user k beforeForState) (\<lambda>undone.
     if \<not> r_backfill afterForState \<and> movesCardState afterForState then
       (case newCard of
          None \<Rightarrow> Inl (Tagged ''SYNC_TRANSACTION_CARD_REQUIRED'')
        | Some k \<Rightarrow> applyTransactionState cb undone user k (input_of afterForState (r_category afterForState)))
     else Inr undone)"

definition mark_applied :: "string \<Rightarrow> string \<Rightarrow> sync_row list \<Rightarrow> sync_row list" where
  "mark_applied user entity rows = map (\<lambda>r. if own_row user entity r then r\<lparr>r_applied := True\<rparr> else r) rows"

text \<open>From the row as the procedure left it to the moved card state.\<close>

definition move_state ::
    "('c, 'k) sync_callbacks \<Rightarrow> 'c sync_db \<Rightarrow> string \<Rightarrow> string \<Rightarrow> sync_row \<Rightarrow> sync_row \<Rightarrow> reward_field list \<Rightarrow>
      sync_error + 'c sync_db" where
  "move_state cb db user entity before after changed =
     ebind (echeck (r_status before = ''active'' \<and> r_status after = ''active'') (Tagged ''SYNC_TRANSACTION_NOT_ACTIVE'')) (\<lambda>_.
     ebind (check_split_total db entity after changed) (\<lambda>_.
     ebind (effectiveRewardCategory (d_categories db) user before) (\<lambda>beforeCategory.
     ebind (effectiveRewardCategory (d_categories db) user after) (\<lambda>afterCategory.
     ebind (echeck (\<not> (r_instrument after = ''credit_card'' \<and> \<not> has_card after)) (Tagged ''SYNC_TRANSACTION_CARD_REQUIRED'')) (\<lambda>_.
     ebind (echeck (\<not> (\<not> isCardInstrument (r_instrument after) \<and> has_card after)) (Tagged ''SYNC_TRANSACTION_CARD_FOR_NONCARD'')) (\<lambda>_.
     ebind (load_old_card cb (d_cards db) user before) (\<lambda>oldCard.
     ebind (load_new_card cb (d_cards db) user after) (\<lambda>newCard.
     ebind (move_cards cb (d_cards db) user oldCard newCard
              (before\<lparr>r_category := beforeCategory\<rparr>) (after\<lparr>r_category := afterCategory\<rparr>)) (\<lambda>cards.
     Inr (if r_backfill after then db\<lparr>d_cards := cards\<rparr>
          else db\<lparr>d_cards := cards, d_rows := mark_applied user entity (d_rows db)\<rparr>))))))))))"

definition applySyncChange ::
    "'c sync_rpc \<Rightarrow> ('c, 'k) sync_callbacks \<Rightarrow> 'c sync_db \<Rightarrow> sync_change \<Rightarrow> sync_error + ('c sync_db \<times> rpc_result option)" where
  "applySyncChange rpc cb db ch =
     (if ch_op ch = ''delete'' then Inl (Tagged ''SYNC_TRANSACTION_DELETE_UNSUPPORTED'')
      else if own_property (ch_payload ch) ''status'' then Inl (Tagged ''SYNC_TRANSACTION_STATUS_FORBIDDEN'')
      else
        let before = find_row db (ch_user ch) (ch_entity ch) in
        ebind (rpc db (ch_user ch) (ch_device ch) (ch_entity ch) (ch_op ch) (or_empty (ch_payload ch))
                 (or_empty (ch_clocks ch)) (normalizeClientSeq (ch_seq ch))) (\<lambda>(db1, result).
        case (result, before) of
          (Some r, Some old) \<Rightarrow>
            if \<not> out_applied r then Inr (db1, result)
            else (case find_row db1 (ch_user ch) (ch_entity ch) of
               None \<Rightarrow> Inl (Tagged ''SYNC_TRANSACTION_ROW_MISSING'')
             | Some after \<Rightarrow>
                 ebind (changedRewardInputs old after) (\<lambda>changed.
                 if changed = [] then Inr (db1, result)
                 else ebind (move_state cb db1 (ch_user ch) (ch_entity ch) old after changed) (\<lambda>db2. Inr (db2, result))))
        | _ \<Rightarrow> Inr (db1, result)))"

end
