(* ===== verification/SyncProps.thy ===== *)
theory SyncProps
  imports SyncTransaction SplitsProps
begin

text \<open>
  What a synced change promises: the category the rewards are computed with is the nearest public
  parent of the private category, and the card state keeps accounting for exactly the rows that
  are marked as applied.
\<close>

section \<open>The category chain\<close>

text \<open>The chain of private categories from \<open>c\<close> to one without a private parent.\<close>

inductive leads_to :: "user_category list \<Rightarrow> string \<Rightarrow> user_category \<Rightarrow> user_category list \<Rightarrow> bool"
  for cats user where
  root: "uc_user_parent c = None \<Longrightarrow> leads_to cats user c [c]"
| up: "uc_user_parent c = Some p \<Longrightarrow> find_category cats user p = Some q \<Longrightarrow> leads_to cats user q chain
    \<Longrightarrow> leads_to cats user c (c # chain)"

lemma leads_to_det: "leads_to cats user c ch \<Longrightarrow> leads_to cats user c ch' \<Longrightarrow> ch = ch'"
proof (induction arbitrary: ch' rule: leads_to.induct)
  case (root c)
  from root.prems show ?case by (cases rule: leads_to.cases) (use root.hyps in simp_all)
next
  case (up c p q chain)
  from up.prems show ?case
  proof (cases rule: leads_to.cases)
    case root
    then show ?thesis using up.hyps(1) by simp
  next
    case (up p' q' chain')
    then have "q' = q" using \<open>uc_user_parent c = Some p\<close> \<open>find_category cats user p = Some q\<close> by simp
    then show ?thesis using up.IH up(1,4) by simp
  qed
qed

lemma leads_to_hd: "leads_to cats user c ch \<Longrightarrow> ch \<noteq> [] \<and> hd ch = c \<and> uc_user_parent (last ch) = None"
  by (induction rule: leads_to.induct) auto

lemma leads_to_member: "leads_to cats user c ch \<Longrightarrow> d \<in> set ch \<Longrightarrow> \<exists>suf. leads_to cats user d suf \<and> length suf \<le> length ch"
proof (induction rule: leads_to.induct)
  case (root c)
  then show ?case using leads_to.root[of c cats user] by auto
next
  case (up c p q chain)
  show ?case
  proof (cases "d = c")
    case True
    then show ?thesis using leads_to.up[OF up.hyps] by (intro exI[of _ "c # chain"]) simp
  next
    case False
    then show ?thesis using up.IH up.prems by fastforce
  qed
qed

lemma find_category_same:
  "find_category cats user p = Some d \<Longrightarrow> find_category cats user q = Some e \<Longrightarrow> uc_id d = uc_id e \<Longrightarrow> d = e"
proof -
  assume d: "find_category cats user p = Some d" and e: "find_category cats user q = Some e" and i: "uc_id d = uc_id e"
  have "uc_id d = js_lower p" "uc_id e = js_lower q" using d e by (auto simp: find_category_def find_Some_iff)
  then show "d = e" using d e i by (simp add: find_category_def)
qed

lemma leads_to_found: "leads_to cats user c ch \<Longrightarrow> d \<in> set (tl ch) \<Longrightarrow> \<exists>p. find_category cats user p = Some d"
proof (induction rule: leads_to.induct)
  case (up c p q chain)
  have "chain = q # tl chain" using leads_to_hd[OF up.hyps(3)] by (cases chain) auto
  then have "d = q \<or> d \<in> set (tl chain)" using up.prems by (metis list.sel(3) set_ConsD)
  then show ?case using up by auto
qed simp

text \<open>A chain that reaches a root never repeats an id.\<close>

lemma leads_to_distinct:
  "leads_to cats user c ch \<Longrightarrow> \<exists>p. find_category cats user p = Some c \<Longrightarrow> distinct (map uc_id ch)"
proof (induction rule: leads_to.induct)
  case (up c p q chain)
  have ch: "leads_to cats user c (c # chain)" by (rule leads_to.up[OF up.hyps])
  have "uc_id c \<notin> uc_id ` set chain"
  proof
    assume "uc_id c \<in> uc_id ` set chain"
    then obtain d where d: "d \<in> set chain" "uc_id d = uc_id c" by force
    then obtain i where "find_category cats user i = Some d" using leads_to_found[OF ch] by auto
    then have "d = c" using up.prems d(2) find_category_same by blast
    then obtain suf where "leads_to cats user c suf" "length suf \<le> length chain"
      using leads_to_member[OF up.hyps(3) d(1)] by blast
    then show False using leads_to_det[OF ch] by fastforce
  qed
  then show ?case using up by auto
qed simp

lemma category_chain_ne [simp]: "category_chain n cats user path c \<noteq> []"
  by (cases n) simp_all

text \<open>The query finds the chain when it is short enough, and finds nothing else.\<close>

lemma category_chain_complete:
  "leads_to cats user c ch \<Longrightarrow> length ch \<le> n + 1 \<Longrightarrow> distinct (path @ map uc_id (tl ch)) \<Longrightarrow>
     category_chain n cats user path c = ch"
proof (induction arbitrary: n path rule: leads_to.induct)
  case (root c)
  then show ?case by (cases n) simp_all
next
  case (up c p q chain)
  have q: "chain = q # tl chain" using leads_to_hd[OF up.hyps(3)] by (cases chain) auto
  obtain m where m: "n = Suc m" using up.prems(1) q by (cases n) (auto simp: Suc_le_eq)
  have "map uc_id chain = uc_id q # map uc_id (tl chain)" by (subst q) simp
  then have "uc_id q \<notin> set path" "distinct ((path @ [uc_id q]) @ map uc_id (tl chain))"
    using up.prems(2) by auto
  then show ?case using up.IH[of m "path @ [uc_id q]"] up.prems(1) up.hyps m by simp
qed

lemma category_chain_sound:
  "uc_user_parent (last (category_chain n cats user path c)) = None \<Longrightarrow>
     leads_to cats user c (category_chain n cats user path c) \<and> length (category_chain n cats user path c) \<le> n + 1"
proof (induction n arbitrary: path c)
  case 0
  then show ?case by (auto intro: leads_to.root)
next
  case (Suc n)
  then show ?case
    by (auto intro: leads_to.intros split: option.splits if_splits)
qed

lemma nearest_public_find: "nearest_public chain = Option.bind (find (\<lambda>d. uc_parent d \<noteq> None) chain) uc_parent"
  by (induction chain) (auto simp: nearest_public_def)

text \<open>For a row with a private category the reward category is the row's own public
  category or, if it has none, the nearest public parent on the chain of the user's private categories,
  provided the chain ends in a category without a private parent within 33 levels; if the chain is
  broken, cyclic, longer, or leaves the user's own categories, the change is rejected.\<close>

theorem effective_category_chain:
  assumes "r_user_category row = Some c" and "c \<noteq> []"
  shows "(\<forall>first chain. find_category cats user c = Some first \<and> leads_to cats user first chain \<and> length chain \<le> 33
      \<longrightarrow> effectiveRewardCategory cats user row = Inr (or_uuid (r_category row) (or_uuid (Option.bind (find (\<lambda>d. uc_parent d \<noteq> None) chain) uc_parent) None)))
    \<and> ((\<nexists>first chain. find_category cats user c = Some first \<and> leads_to cats user first chain \<and> length chain \<le> 33)
      \<longrightarrow> effectiveRewardCategory cats user row = Inl (Tagged ''SYNC_TRANSACTION_USER_CATEGORY_UNAVAILABLE''))"
proof (intro conjI allI impI)
  fix first chain
  assume a: "find_category cats user c = Some first \<and> leads_to cats user first chain \<and> length chain \<le> 33"
  then have l: "leads_to cats user first chain" by simp
  have "distinct (map uc_id chain)" using a by (intro leads_to_distinct[OF l]) auto
  then have "distinct ([uc_id first] @ map uc_id (tl chain))" using leads_to_hd[OF l] by (cases chain) auto
  then have "category_chain 32 cats user [uc_id first] first = chain" using a by (intro category_chain_complete[OF l]) auto
  then show "effectiveRewardCategory cats user row = Inr (or_uuid (r_category row) (or_uuid (Option.bind (find (\<lambda>d. uc_parent d \<noteq> None) chain) uc_parent) None))"
    using a assms leads_to_hd[OF l] by (simp add: effectiveRewardCategory_def or_uuid_def nearest_public_find)
next
  assume none: "\<nexists>first chain. find_category cats user c = Some first \<and> leads_to cats user first chain \<and> length chain \<le> 33"
  have "uc_user_parent (last (category_chain 32 cats user [uc_id first] first)) \<noteq> None"
    if "find_category cats user c = Some first" for first
    using category_chain_sound[of 32 cats user "[uc_id first]" first] none that by auto
  then show "effectiveRewardCategory cats user row = Inl (Tagged ''SYNC_TRANSACTION_USER_CATEGORY_UNAVAILABLE'')"
    using assms by (auto simp: effectiveRewardCategory_def or_uuid_def Let_def split: option.splits)
qed

section \<open>No reward input changed\<close>

definition canonical :: "string option \<Rightarrow> bool" where
  "canonical v \<longleftrightarrow> (case v of None \<Rightarrow> True | Some s \<Rightarrow> js_lower s = s)"

text \<open>What the columns guarantee: canonical uuids, amounts that are not negative.\<close>

definition canonical_row :: "sync_row \<Rightarrow> bool" where
  "canonical_row r \<longleftrightarrow> canonical (r_card r) \<and> canonical (r_category r) \<and> canonical (r_user_category r) \<and> 0 \<le> r_amount r"

lemma sameUuid_canonical: "canonical a \<Longrightarrow> canonical b \<Longrightarrow> sameUuid a b \<Longrightarrow> a = b"
  by (auto simp: canonical_def sameUuid_def split: option.splits)

lemma money_text_digits:
  assumes "0 \<le> k"
  obtains ip a b where "money_text k = ip @ CHR ''.'' # [a, b]" "list_all is_digit ip" "ip \<noteq> []" "is_digit a" "is_digit b"
    "int (parse_nat ip) = k div 100" "int (digit_val a) = k mod 100 div 10" "int (digit_val b) = k mod 10"
proof (rule that)
  have "nat (k mod 100 div 10) < 10" "nat (k mod 10) < 10" by auto
  then show "is_digit (char_of (48 + nat (k mod 100 div 10)))" "is_digit (char_of (48 + nat (k mod 10)))"
    "int (digit_val (char_of (48 + nat (k mod 100 div 10)))) = k mod 100 div 10"
    "int (digit_val (char_of (48 + nat (k mod 10)))) = k mod 10"
    by simp_all
  show "money_text k = dec_digits (nat (k div 100)) @ CHR ''.'' # [char_of (48 + nat (k mod 100 div 10)), char_of (48 + nat (k mod 10))]"
    using assms by (simp add: money_text_def dec_int_nonneg)
  show "list_all is_digit (dec_digits (nat (k div 100)))" by (simp add: list_all_iff dec_digits_chars)
  show "int (parse_nat (dec_digits (nat (k div 100)))) = k div 100" using assms by simp
qed simp

lemma cents_split: "100 * (k div 100) + 10 * (k mod 100 div 10) + k mod 10 = (k :: int)"
proof -
  have "10 * (k mod 100 div 10) + k mod 10 = k mod 100"
    using mult_div_mod_eq[of 10 "k mod 100"] mod_mod_cancel[of 10 100 k] by simp
  moreover have "100 * (k div 100) + k mod 100 = k" by (rule mult_div_mod_eq)
  ultimately show ?thesis by linarith
qed

lemma amountCents_text: "0 \<le> k \<Longrightarrow> amountCents (money_text k) = Inr k"
proof (erule money_text_digits)
  fix ip a b
  assume t: "money_text k = ip @ CHR ''.'' # [a, b]" "list_all is_digit ip" "ip \<noteq> []" "is_digit a" "is_digit b"
    "int (parse_nat ip) = k div 100" "int (digit_val a) = k mod 100 div 10" "int (digit_val b) = k mod 10"
  obtain d r where d: "ip = d # r" "is_digit d" using t(2,3) by (cases ip) auto
  have "d \<noteq> CHR ''-''" using d(2) by (auto simp: is_digit_def)
  moreover have "split_digits (money_text k) = (ip, CHR ''.'' # [a, b])"
    unfolding t(1) by (rule takeWhile_digits(1)[OF t(2)]) (simp add: is_digit_def)
  moreover have "int_of_digits [a, b] = 10 * (k mod 100 div 10) + k mod 10"
    using t(4,5,7,8) by (simp add: int_of_digits_eq parse_nat_Cons)
  moreover have "int_of_digits ip = k div 100" using t(2,6) by (simp add: int_of_digits_eq)
  moreover have "money_text k = d # r @ CHR ''.'' # [a, b]" by (simp add: t(1) d(1))
  ultimately show ?thesis
    using t(3-5) cents_split[of k] by (simp add: amountCents_def unsigned_cents_def)
qed

lemma changed_none: "changedRewardInputs before after = Inr [] \<Longrightarrow> sameField f before after = Inr True"
proof -
  assume none: "changedRewardInputs before after = Inr []"
  have "ch = [] \<and> (\<forall>f \<in> set fs. sameField f before after = Inr True)"
    if "efold (\<lambda>changed field. ebind (sameField field before after) (\<lambda>same.
          Inr (if same then changed else changed @ [field]))) ch fs = Inr []" for ch fs
    using that by (induction fs arbitrary: ch) (auto simp: ebind_eq_Inr split: if_splits)
  moreover have "f \<in> set REWARD_INPUT_FIELDS" by (cases f) (simp_all add: REWARD_INPUT_FIELDS_def)
  ultimately show ?thesis using none by (auto simp: changedRewardInputs_def)
qed

text \<open>Then the row asks for the same card state as before.\<close>

lemma unchanged_inputs:
  assumes "changedRewardInputs before after = Inr []" and "canonical_row before" and "canonical_row after"
    and "r_id after = r_id before"
  shows "movesCardState after = movesCardState before"
    and "effectiveRewardCategory cats user after = effectiveRewardCategory cats user before"
    and "input_of after c = input_of before c"
proof -
  note same = changed_none[OF assms(1)]
  note c = assms(2,3)[unfolded canonical_row_def]
  have "r_amount before = r_amount after" using same[of AmountInr] c by (simp add: amountCents_text)
  moreover have "r_occurred before = r_occurred after"
    using same[of OccurredAt] by (auto simp: ebind_eq_Inr timestampMillis_def split: option.splits if_splits)
  moreover have "r_card before = r_card after" "r_category before = r_category after"
      "r_user_category before = r_user_category after"
    using same[of UserCardId] same[of CategoryId] same[of UserCategoryId] c by (auto intro: sameUuid_canonical)
  moreover have "r_merchant before = r_merchant after" "r_rail before = r_rail after"
      "r_instrument before = r_instrument after" "r_kind before = r_kind after"
    using same[of MerchantName] same[of Rail] same[of Instrument] same[of EntryKind] by simp_all
  ultimately show "movesCardState after = movesCardState before"
    "effectiveRewardCategory cats user after = effectiveRewardCategory cats user before"
    "input_of after c = input_of before c"
    using assms(4) by (simp_all add: movesCardState_def has_card_def effectiveRewardCategory_def input_of_def Let_def)
qed

section \<open>The card state accounts for the applied rows\<close>

text \<open>\<open>held cards txn\<close> is what the card state holds of a transaction.\<close>

definition row_accounted ::
    "('c \<Rightarrow> string \<Rightarrow> state_input option) \<Rightarrow> user_category list \<Rightarrow> 'c \<Rightarrow> string \<Rightarrow> sync_row \<Rightarrow> bool" where
  "row_accounted held cats cards user r \<longleftrightarrow> canonical_row r \<and> (r_backfill r \<longrightarrow> \<not> r_applied r) \<and>
     (if r_applied r \<and> movesCardState r
      then \<exists>c. effectiveRewardCategory cats user r = Inr c \<and> held cards (r_id r) = Some (input_of r c)
      else held cards (r_id r) = None)"

definition accounted :: "('c \<Rightarrow> string \<Rightarrow> state_input option) \<Rightarrow> string \<Rightarrow> 'c sync_db \<Rightarrow> bool" where
  "accounted held user db \<longleftrightarrow> distinct (map r_id (d_rows db)) \<and>
     (\<forall>r \<in> set (d_rows db). r_profile r = user \<longrightarrow> row_accounted held (d_categories db) (d_cards db) user r)"

text \<open>The contract of the callbacks: reversing forgets a transaction, applying records it anew.\<close>

definition callbacks_record :: "('c \<Rightarrow> string \<Rightarrow> state_input option) \<Rightarrow> ('c, 'k) sync_callbacks \<Rightarrow> bool" where
  "callbacks_record held cb \<longleftrightarrow>
     (\<forall>c u k row c'. reverseTransactionState cb c u k row = Inr c' \<longrightarrow> held c' = (held c)(r_id row := None)) \<and>
     (\<forall>c u k inp c'. applyTransactionState cb c u k inp = Inr c' \<longrightarrow> held c' = (held c)(si_txn inp \<mapsto> inp))"

text \<open>The contract of the stored procedure: it edits the one row it is asked to, in columns the
  client owns, and edits nothing when it reports that it did not apply the change.\<close>

definition edits_row :: "(sync_row \<Rightarrow> sync_row) \<Rightarrow> bool" where
  "edits_row f \<longleftrightarrow> (\<forall>r. r_id (f r) = r_id r \<and> r_profile (f r) = r_profile r \<and> r_applied (f r) = r_applied r
     \<and> r_backfill (f r) = r_backfill r \<and> (canonical_row r \<longrightarrow> canonical_row (f r)))"

definition rpc_edits :: "'c sync_rpc \<Rightarrow> bool" where
  "rpc_edits rpc \<longleftrightarrow> (\<forall>db u dev e op p cl n db1 res. rpc db u dev e op p cl n = Inr (db1, res) \<longrightarrow>
     d_categories db1 = d_categories db \<and> d_cards db1 = d_cards db \<and>
     (\<exists>f. edits_row f \<and> d_rows db1 = map (\<lambda>r. if own_row u e r then f r else r) (d_rows db)) \<and>
     ((\<forall>r. res = Some r \<longrightarrow> \<not> out_applied r) \<longrightarrow> d_rows db1 = d_rows db))"

lemma find_row_Some:
  "find_row db user e = Some r \<Longrightarrow> r \<in> set (d_rows db) \<and> own_row user e r"
  by (auto simp: find_row_def find_Some_iff)

lemma find_row_None: "find_row db user e = None \<Longrightarrow> r \<in> set (d_rows db) \<Longrightarrow> \<not> own_row user e r"
  by (auto simp: find_row_def find_None_iff)

lemma own_row_unique:
  "distinct (map r_id (d_rows db)) \<Longrightarrow> find_row db user e = Some r \<Longrightarrow> s \<in> set (d_rows db) \<Longrightarrow> own_row user e s \<Longrightarrow> s = r"
  using find_row_Some[of db user e r] by (auto simp: own_row_def distinct_map inj_on_def)

lemma find_row_edited:
  assumes "edits_row f"
  shows "find_row (db\<lparr>d_rows := map (\<lambda>r. if own_row u e r then f r else r) rows\<rparr>) u e = map_option f (find (own_row u e) rows)"
proof -
  have "own_row u e (f r) = own_row u e r" for r using assms by (simp add: edits_row_def own_row_def)
  then show ?thesis by (induction rows) (simp_all add: find_row_def)
qed

lemma find_row_rows: "d_rows a = d_rows b \<Longrightarrow> find_row a u e = find_row b u e"
  by (simp add: find_row_def)

text \<open>Rows other than the edited one stay accounted when the card state changes only at its id.\<close>

lemma accounted_edit:
  assumes acc: "accounted held user db" and old: "find_row db user e = Some old"
    and rows: "d_rows db' = map (\<lambda>r. if own_row user e r then g r else r) (d_rows db)"
    and keeps: "r_id (g old) = r_id old" "d_categories db' = d_categories db"
    and others: "\<And>x. x \<noteq> r_id old \<Longrightarrow> held (d_cards db') x = held (d_cards db) x"
    and edited: "row_accounted held (d_categories db) (d_cards db') user (g old)"
  shows "accounted held user db'"
proof -
  have d: "distinct (map r_id (d_rows db))" using acc by (simp add: accounted_def)
  note unique = own_row_unique[OF d old]
  have ids: "map r_id (d_rows db') = map r_id (d_rows db)" using unique keeps(1) by (auto simp: rows)
  have "row_accounted held (d_categories db) (d_cards db') user s" if s: "s \<in> set (d_rows db')" "r_profile s = user" for s
  proof -
    obtain r where r: "r \<in> set (d_rows db)" "s = (if own_row user e r then g r else r)" using s(1) by (auto simp: rows)
    show ?thesis
    proof (cases "own_row user e r")
      case True
      then show ?thesis using unique[OF r(1)] r(2) edited by simp
    next
      case False
      then have "r_id r \<noteq> r_id old"
        using d r(1) find_row_Some[OF old] by (auto simp: distinct_map inj_on_def)
      moreover have "row_accounted held (d_categories db) (d_cards db) user r"
        using acc r s(2) False by (auto simp: accounted_def)
      ultimately show ?thesis using False r(2) others by (simp add: row_accounted_def)
    qed
  qed
  then show ?thesis using d ids keeps(2) by (simp add: accounted_def)
qed

text \<open>The movement of the card state, whatever branch it takes.\<close>

lemma load_old_card_loads:
  "load_old_card cb cards user before = Inr k \<Longrightarrow> (k \<noteq> None) = (movesCardState before \<and> r_applied before)"
  by (auto simp: load_old_card_def ebind_eq_Inr split: if_splits option.splits)

lemma move_cards_held:
  assumes "callbacks_record held cb" and "load_old_card cb cards user before = Inr oldCard"
    and "row_accounted held cats cards user before" and "r_id after = r_id before"
    and "move_cards cb cards user oldCard newCard (before\<lparr>r_category := bc\<rparr>) (after\<lparr>r_category := ac\<rparr>) = Inr cards'"
  shows "held cards' = (held cards)(r_id before :=
    if \<not> r_backfill after \<and> movesCardState after then Some (input_of after ac) else None)"
proof -
  obtain undone where undone: "(case oldCard of None \<Rightarrow> Inr cards
        | Some k \<Rightarrow> reverseTransactionState cb cards user k (before\<lparr>r_category := bc\<rparr>)) = Inr undone"
    and rest: "(if \<not> r_backfill after \<and> movesCardState (after\<lparr>r_category := ac\<rparr>) then
       (case newCard of None \<Rightarrow> Inl (Tagged ''SYNC_TRANSACTION_CARD_REQUIRED'')
        | Some k \<Rightarrow> applyTransactionState cb undone user k (input_of (after\<lparr>r_category := ac\<rparr>) (r_category (after\<lparr>r_category := ac\<rparr>)))) else Inr undone) = Inr cards'"
    using assms(5) by (auto simp: move_cards_def ebind_eq_Inr)
  have same: "movesCardState (after\<lparr>r_category := ac\<rparr>) = movesCardState after"
      "input_of (after\<lparr>r_category := ac\<rparr>) ac = input_of after ac"
    by (simp_all add: movesCardState_def has_card_def input_of_def)
  have u: "held undone = (held cards)(r_id before := None)"
  proof (cases oldCard)
    case None
    then have "\<not> (r_applied before \<and> movesCardState before)" using load_old_card_loads[OF assms(2)] by auto
    then have "held cards (r_id before) = None" using assms(3) by (auto simp: row_accounted_def)
    then show ?thesis using undone None by (auto simp: fun_eq_iff)
  next
    case (Some k)
    then show ?thesis using undone assms(1) by (auto simp: callbacks_record_def)
  qed
  show ?thesis
  proof (cases "\<not> r_backfill after \<and> movesCardState after")
    case True
    then have "\<exists>k. applyTransactionState cb undone user k (input_of after ac) = Inr cards'"
      using rest by (auto simp: same split: option.splits)
    then have "held cards' = (held undone)(si_txn (input_of after ac) \<mapsto> input_of after ac)"
      using assms(1) by (auto simp: callbacks_record_def)
    moreover have "si_txn (input_of after ac) = r_id before" by (simp add: input_of_def assms(4))
    ultimately show ?thesis using True u by simp
  next
    case False
    then show ?thesis using rest u by (auto simp: same)
  qed
qed

text \<open>The edited row as the procedure leaves it, then as \<open>move_state\<close> leaves it.\<close>

definition settled :: "sync_row \<Rightarrow> sync_row" where
  "settled r = (if r_backfill r then r else r\<lparr>r_applied := True\<rparr>)"

lemma settled_fields [simp]:
  "r_id (settled r) = r_id r" "r_card (settled r) = r_card r" "r_amount (settled r) = r_amount r"
  "r_occurred (settled r) = r_occurred r" "r_category (settled r) = r_category r"
  "r_user_category (settled r) = r_user_category r" "r_merchant (settled r) = r_merchant r"
  "r_rail (settled r) = r_rail r" "r_instrument (settled r) = r_instrument r" "r_kind (settled r) = r_kind r"
  "r_backfill (settled r) = r_backfill r" "r_applied (settled r) = (r_applied r \<or> \<not> r_backfill r)"
  by (simp_all add: settled_def)

lemma move_state_rows:
  assumes "move_state cb db user e before after changed = Inr db'"
  obtains oldCard newCard bc ac where "load_old_card cb (d_cards db) user before = Inr oldCard"
    "effectiveRewardCategory (d_categories db) user after = Inr ac"
    "move_cards cb (d_cards db) user oldCard newCard (before\<lparr>r_category := bc\<rparr>) (after\<lparr>r_category := ac\<rparr>) = Inr (d_cards db')"
    "d_categories db' = d_categories db"
    "d_rows db' = (if r_backfill after then d_rows db else mark_applied user e (d_rows db))"
proof -
  obtain bc ac oldCard newCard cards where
    "load_old_card cb (d_cards db) user before = Inr oldCard" "effectiveRewardCategory (d_categories db) user after = Inr ac"
    "move_cards cb (d_cards db) user oldCard newCard (before\<lparr>r_category := bc\<rparr>) (after\<lparr>r_category := ac\<rparr>) = Inr cards"
    "db' = (if r_backfill after then db\<lparr>d_cards := cards\<rparr>
            else db\<lparr>d_cards := cards, d_rows := mark_applied user e (d_rows db)\<rparr>)"
    using assms by (force simp: move_state_def ebind_eq_Inr)
  then show ?thesis by (intro that) simp_all
qed

lemma settled_accounted:
  assumes "canonical_row r" and "r_backfill r \<longrightarrow> \<not> r_applied r" and "effectiveRewardCategory cats user r = Inr c"
    and "held cards (r_id r) = (if \<not> r_backfill r \<and> movesCardState r then Some (input_of r c) else None)"
  shows "row_accounted held cats cards user (settled r)"
proof -
  have "movesCardState (settled r) = movesCardState r" "input_of (settled r) c = input_of r c"
    "effectiveRewardCategory cats user (settled r) = effectiveRewardCategory cats user r"
    "canonical_row (settled r) = canonical_row r" "r_id (settled r) = r_id r"
    by (simp_all add: movesCardState_def has_card_def input_of_def effectiveRewardCategory_def canonical_row_def Let_def)
  then show ?thesis using assms by (auto simp: row_accounted_def)
qed

text \<open>The ways an accepted change can end: the rows are as they were, or one row was edited.\<close>

lemma change_cases:
  assumes rpc: "rpc_edits rpc" and change: "applySyncChange rpc cb db ch = Inr (db', result)"
  obtains (idle) "d_rows db' = d_rows db" "d_categories db' = d_categories db" "d_cards db' = d_cards db"
  | (edit) f old changed db1 where "edits_row f" "find_row db (ch_user ch) (ch_entity ch) = Some old"
      "d_rows db1 = map (\<lambda>r. if own_row (ch_user ch) (ch_entity ch) r then f r else r) (d_rows db)"
      "d_categories db1 = d_categories db" "d_cards db1 = d_cards db" "changedRewardInputs old (f old) = Inr changed"
      "changed = [] \<and> db' = db1 \<or> move_state cb db1 (ch_user ch) (ch_entity ch) old (f old) changed = Inr db'"
proof -
  let ?u = "ch_user ch" and ?e = "ch_entity ch"
  obtain db1 res where run: "rpc db ?u (ch_device ch) ?e (ch_op ch) (or_empty (ch_payload ch)) (or_empty (ch_clocks ch))
      (normalizeClientSeq (ch_seq ch)) = Inr (db1, res)"
    and rest: "(case (res, find_row db ?u ?e) of
        (Some r, Some old) \<Rightarrow>
          if \<not> out_applied r then Inr (db1, res)
          else (case find_row db1 ?u ?e of
             None \<Rightarrow> Inl (Tagged ''SYNC_TRANSACTION_ROW_MISSING'')
           | Some after \<Rightarrow>
               ebind (changedRewardInputs old after) (\<lambda>changed.
               if changed = [] then Inr (db1, res)
               else ebind (move_state cb db1 ?u ?e old after changed) (\<lambda>db2. Inr (db2, res))))
      | _ \<Rightarrow> Inr (db1, res)) = Inr (db', result)"
    using change by (auto simp: applySyncChange_def Let_def ebind_eq_Inr split: if_splits)
  obtain f where f: "edits_row f" "d_rows db1 = map (\<lambda>r. if own_row ?u ?e r then f r else r) (d_rows db)"
    and frame: "d_categories db1 = d_categories db" "d_cards db1 = d_cards db"
      "(\<forall>r. res = Some r \<longrightarrow> \<not> out_applied r) \<longrightarrow> d_rows db1 = d_rows db"
    using rpc[unfolded rpc_edits_def, rule_format, OF run] by blast
  show ?thesis
  proof (cases "find_row db ?u ?e")
    case None
    then have "d_rows db1 = d_rows db" using f(2) find_row_None[OF None] by (auto intro: map_idI)
    then show ?thesis using rest None idle frame by (auto split: option.splits)
  next
    case (Some old)
    have after: "find_row db1 ?u ?e = Some (f old)"
      using find_row_edited[OF f(1), where db = db and u = ?u and e = ?e and rows = "d_rows db"] Some f(2)
      by (simp add: find_row_def)
    show ?thesis
    proof (cases "\<exists>r. res = Some r \<and> out_applied r")
      case False
      then show ?thesis using rest frame idle Some by (auto split: option.splits if_splits)
    next
      case True
      then show ?thesis
        using rest after edit[OF f(1) Some f(2) frame(1,2)] Some by (auto simp: ebind_eq_Inr split: if_splits)
    qed
  qed
qed

text \<open>The two ways the edited row ends, and its card state with it.\<close>

lemma edited_books:
  assumes acc: "accounted held u db" and cb: "callbacks_record held cb"
    and f: "edits_row f" and old: "find_row db u e = Some old"
    and rows: "d_rows db1 = map (\<lambda>r. if own_row u e r then f r else r) (d_rows db)"
    and frame: "d_categories db1 = d_categories db" "d_cards db1 = d_cards db"
    and moved: "move_state cb db1 u e old (f old) changed = Inr db'"
  shows "accounted held u db'"
proof -
  have acc_old: "row_accounted held (d_categories db) (d_cards db) u old"
    using acc find_row_Some[OF old] by (auto simp: accounted_def own_row_def)
  have kept: "r_id (f old) = r_id old" "r_applied (f old) = r_applied old" "r_backfill (f old) = r_backfill old"
    "canonical_row (f old)"
    using f acc_old by (simp_all add: edits_row_def row_accounted_def)
  obtain oldCard newCard bc ac where m: "load_old_card cb (d_cards db1) u old = Inr oldCard"
    "effectiveRewardCategory (d_categories db1) u (f old) = Inr ac"
    "move_cards cb (d_cards db1) u oldCard newCard (old\<lparr>r_category := bc\<rparr>) ((f old)\<lparr>r_category := ac\<rparr>) = Inr (d_cards db')"
    "d_categories db' = d_categories db1"
    "d_rows db' = (if r_backfill (f old) then d_rows db1 else mark_applied u e (d_rows db1))"
    using moved by (rule move_state_rows)
  note held = move_cards_held[OF cb m(1) _ kept(1) m(3), of "d_categories db", unfolded frame(2), OF acc_old]
  have own: "own_row u e (f r) = own_row u e r" for r using f by (simp add: edits_row_def own_row_def)
  have unique: "r = old" if "r \<in> set (d_rows db)" "own_row u e r" for r
    using own_row_unique[OF _ old that] acc by (simp add: accounted_def)
  have settle: "d_rows db' = map (\<lambda>r. if own_row u e r then settled (f r) else r) (d_rows db)"
    using unique by (auto simp: m(5) rows mark_applied_def own settled_def)
  have "row_accounted held (d_categories db) (d_cards db') u (settled (f old))"
    using kept acc_old m(2) frame(1) held by (intro settled_accounted) (auto simp: row_accounted_def)
  then show ?thesis
    using held m(4) frame(1) kept(1) by (intro accounted_edit[OF acc old settle]) simp_all
qed

text \<open>C11: A synced change keeps the books. If the card state holds exactly the rows of the user
  that are marked applied and move a card, with the inputs and the effective category they have in the
  table, then it still does after any change that applySyncChange accepts: whether the procedure
  refuses the change, edits nothing the rewards depend on, moves the purchase to another card, amount,
  date or category, turns it into something that earns nothing, or touches a backfilled row.\<close>

theorem sync_keeps_books:
  assumes acc: "accounted held (ch_user ch) db" and cb: "callbacks_record held cb" and rpc: "rpc_edits rpc"
    and change: "applySyncChange rpc cb db ch = Inr (db', result)"
  shows "accounted held (ch_user ch) db'"
  using rpc change
proof (cases rule: change_cases)
  case idle
  then show ?thesis using acc by (simp add: accounted_def)
next
  case (edit f old changed db1)
  from edit(7) show ?thesis
  proof
    assume none: "changed = [] \<and> db' = db1"
    have acc_old: "row_accounted held (d_categories db) (d_cards db) (ch_user ch) old"
      using acc find_row_Some[OF edit(2)] by (auto simp: accounted_def own_row_def)
    have kept: "r_id (f old) = r_id old" "r_applied (f old) = r_applied old" "r_backfill (f old) = r_backfill old"
      "canonical_row old" "canonical_row (f old)"
      using edit(1) acc_old by (simp_all add: edits_row_def row_accounted_def)
    note same = unchanged_inputs[OF edit(6)[unfolded conjunct1[OF none]] kept(4,5,1)]
    have "row_accounted held (d_categories db) (d_cards db') (ch_user ch) (f old)"
      using acc_old kept same none edit(5) by (simp add: row_accounted_def)
    then show ?thesis
      using none edit(4,5) kept(1) by (intro accounted_edit[OF acc edit(2), where g = f]) (simp_all add: edit(3))
  qed (rule edited_books[OF acc cb edit(1-5)])
qed

section \<open>Concrete changes\<close>

definition sample_sync_row :: sync_row where
  "sample_sync_row = \<lparr>r_id = ''t1'', r_profile = ''u'', r_card = Some ''c1'', r_amount = 40000, r_occurred = Some (Fin 0),
     r_category = None, r_user_category = Some ''a'', r_merchant = None, r_rail = None, r_status = ''active'',
     r_instrument = ''credit_card'', r_kind = ''spend'', r_applied = True, r_backfill = False\<rparr>"

text \<open>Category \<open>a\<close> lies under \<open>b\<close>, which stands for the public category \<open>p\<close>.\<close>

definition sample_categories :: "user_category list" where
  "sample_categories =
     [\<lparr>uc_id = ''a'', uc_profile = ''u'', uc_parent = None, uc_user_parent = Some ''b''\<rparr>,
      \<lparr>uc_id = ''b'', uc_profile = ''u'', uc_parent = Some ''p'', uc_user_parent = None\<rparr>]"

lemma sample_found:
  "find_category sample_categories ''u'' ''a'' = Some (hd sample_categories)"
  "find_category sample_categories ''u'' ''b'' = Some (last sample_categories)"
  by code_simp+

lemma effective_category_chain_witness:
  "effectiveRewardCategory sample_categories ''u'' sample_sync_row = Inr (Some ''p'')"
proof -
  have row: "r_user_category sample_sync_row = Some ''a''" "r_category sample_sync_row = None"
    by (simp_all add: sample_sync_row_def)
  have chain: "leads_to sample_categories ''u'' (hd sample_categories) sample_categories"
    using leads_to.up[of "hd sample_categories" "''b''", OF _ sample_found(2) leads_to.root]
    by (simp add: sample_categories_def)
  show ?thesis
    using effective_category_chain[OF row(1), where user = "''u''" and cats = sample_categories] sample_found(1) chain
    by (force simp: row or_uuid_def nearest_public_def sample_categories_def)
qed

text \<open>Callbacks that keep a map from transactions to what was recorded, and a procedure that
  corrects the amount to 500 rupees.\<close>

definition sample_callbacks :: "(string \<Rightarrow> state_input option, unit) sync_callbacks" where
  "sample_callbacks = \<lparr>loadUserCardForState = (\<lambda>c u i. Inr (Some ())),
     reverseTransactionState = (\<lambda>c u k row. Inr (c(r_id row := None))),
     applyTransactionState = (\<lambda>c u k inp. Inr (c(si_txn inp \<mapsto> inp))),
     userCardMatchesInstrument = (\<lambda>c u i instrument. Inr True)\<rparr>"

definition sample_rpc :: "(string \<Rightarrow> state_input option) sync_rpc" where
  "sample_rpc db u device e op payload clocks n =
     Inr (db\<lparr>d_rows := map (\<lambda>r. if own_row u e r then r\<lparr>r_amount := 50000\<rparr> else r) (d_rows db)\<rparr>,
          Some \<lparr>out_applied = True, out_conflicts = JNull, out_reason = JNull\<rparr>)"

definition sample_sync_db :: "(string \<Rightarrow> state_input option) sync_db" where
  "sample_sync_db = \<lparr>d_rows = [sample_sync_row], d_splits = [], d_categories = sample_categories,
     d_cards = [''t1'' \<mapsto> input_of sample_sync_row (Some ''p'')]\<rparr>"

definition sample_change :: sync_change where
  "sample_change = \<lparr>ch_user = ''u'', ch_device = ''d'', ch_entity = ''t1'', ch_op = ''update'',
     ch_payload = JObj [(''amount_inr'', JStr ''500'')], ch_clocks = JUndef, ch_seq = JNum (Fin 1)\<rparr>"

definition sample_corrected :: sync_row where
  "sample_corrected = sample_sync_row\<lparr>r_amount := 50000\<rparr>"

lemma sample_corrected_category:
  "effectiveRewardCategory sample_categories ''u'' sample_corrected = effectiveRewardCategory sample_categories ''u'' sample_sync_row"
  by (simp add: effectiveRewardCategory_def sample_corrected_def Let_def)

lemma sample_category: "effectiveRewardCategory sample_categories ''u'' sample_sync_row = Inr (Some ''p'')"
  by code_simp

lemma sample_changed: "changedRewardInputs sample_sync_row sample_corrected = Inr [AmountInr]"
proof -
  have "amountCents (money_text 40000) = Inr 40000" "amountCents (money_text 50000) = Inr 50000"
    by (simp_all add: amountCents_text)
  then show ?thesis
    by (simp add: changedRewardInputs_def REWARD_INPUT_FIELDS_def sample_corrected_def sample_sync_row_def
        timestampMillis_def sameUuid_def)
qed

lemma sample_move:
  "\<exists>db'. move_state sample_callbacks (sample_sync_db\<lparr>d_rows := [sample_corrected]\<rparr>) ''u'' ''t1''
      sample_sync_row sample_corrected [AmountInr] = Inr db'
    \<and> d_cards db' ''t1'' = Some (input_of sample_corrected (Some ''p''))"
proof -
  have "amountCents ''0'' = Inr 0" "amountCents (money_text 50000) = Inr 50000" by (code_simp, simp add: amountCents_text)
  then have split: "check_split_total (sample_sync_db\<lparr>d_rows := [sample_corrected]\<rparr>) ''t1'' sample_corrected [AmountInr] = Inr ()"
    by (simp add: check_split_total_def split_total_text_def sample_sync_db_def sample_corrected_def)
  have cats: "d_categories (sample_sync_db\<lparr>d_rows := [sample_corrected]\<rparr>) = sample_categories"
    by (simp add: sample_sync_db_def)
  show ?thesis
    unfolding move_state_def cats split sample_corrected_category sample_category
    by (simp add: load_old_card_def load_new_card_def move_cards_def movesCardState_def has_card_def isCardInstrument_def
        sample_callbacks_def sample_corrected_def sample_sync_row_def input_of_def)
qed

lemma sync_keeps_books_witness:
  "\<exists>db' result. applySyncChange sample_rpc sample_callbacks sample_sync_db sample_change = Inr (db', result)
     \<and> d_cards db' ''t1'' = Some (input_of sample_corrected (Some ''p'')) \<and> accounted id ''u'' db'"
proof -
  have found: "find_row sample_sync_db ''u'' ''t1'' = Some sample_sync_row"
      "find_row (sample_sync_db\<lparr>d_rows := [sample_corrected]\<rparr>) ''u'' ''t1'' = Some sample_corrected"
      "own_row ''u'' ''t1'' sample_sync_row"
    by (simp_all add: find_row_def own_row_def sample_sync_db_def sample_sync_row_def sample_corrected_def js_lower_def lower_char_def)
  obtain db' where move: "move_state sample_callbacks (sample_sync_db\<lparr>d_rows := [sample_corrected]\<rparr>) ''u'' ''t1''
      sample_sync_row sample_corrected [AmountInr] = Inr db'"
    and cards: "d_cards db' ''t1'' = Some (input_of sample_corrected (Some ''p''))"
    using sample_move by blast
  have edited: "map (\<lambda>r. if own_row ''u'' ''t1'' r then r\<lparr>r_amount := 50000\<rparr> else r) (d_rows sample_sync_db) = [sample_corrected]"
    using found(3) by (simp add: sample_sync_db_def sample_corrected_def)
  have run: "applySyncChange sample_rpc sample_callbacks sample_sync_db sample_change =
      Inr (db', Some \<lparr>out_applied = True, out_conflicts = JNull, out_reason = JNull\<rparr>)"
    by (simp add: applySyncChange_def sample_change_def own_property_def sample_rpc_def edited found sample_changed move)
  have books: "accounted id (ch_user sample_change) sample_sync_db"
    using sample_category
    by (auto simp: accounted_def row_accounted_def sample_change_def sample_sync_db_def canonical_row_def canonical_def
        movesCardState_def has_card_def sample_sync_row_def js_lower_def lower_char_def)
  have "callbacks_record id sample_callbacks" by (simp add: callbacks_record_def sample_callbacks_def)
  moreover have "rpc_edits sample_rpc"
    by (auto simp: rpc_edits_def sample_rpc_def edits_row_def canonical_row_def intro!: exI[of _ "\<lambda>r. r\<lparr>r_amount := 50000\<rparr>"])
  ultimately have "accounted id (ch_user sample_change) db'" using sync_keeps_books[OF books _ _ run] by blast
  then show ?thesis using run cards by (auto simp: sample_change_def)
qed

end
