(* ===== verification/Dedup.thy ===== *)
theory Dedup
  imports JsRange
begin

text \<open>
  \<open>api/src/transaction_dedup.js\<close>: scoring whether two rows describe one payment. A row is what
  the code reads of it: each field is the first of the camel-case and the column name that is there,
  a timestamp is the time value of its \<open>Date\<close> (\<open>None\<close> when it is absent or empty, \<open>NaN\<close>
  when it does not parse), the amount is the result of \<open>Number(...)\<close>. Text is 8-bit.
\<close>

record dup_row =
  du_kind :: "string option"
  du_source :: "string option"
  du_reference :: "string option"
  du_merchant :: "string option"
  du_instrument :: "string option"
  du_card :: "string option"
  du_account :: "string option"
  du_amount :: jsnum
  du_occurred :: "jsnum option"
  du_observed :: "jsnum option"
  du_precise :: bool

definition AMOUNT_TOLERANCE_INR :: jsnum where
  "AMOUNT_TOLERANCE_INR = lit (5 / 1000)"

definition MAX_TIME_DISTANCE_MS :: jsnum where
  "MAX_TIME_DISTANCE_MS = Fin 600000"

definition MAX_SMS_NOTIFICATION_DISTANCE_MS :: jsnum where
  "MAX_SMS_NOTIFICATION_DISTANCE_MS = Fin 900000"

definition REVIEW_THRESHOLD :: jsnum where
  "REVIEW_THRESHOLD = lit (72 / 100)"

text \<open>\<open>a || b\<close> on text, and its truth value.\<close>

definition present :: "string option \<Rightarrow> bool" where
  "present v \<longleftrightarrow> v \<noteq> None \<and> v \<noteq> Some []"

definition or_else :: "string option \<Rightarrow> string \<Rightarrow> string" where
  "or_else v d = (case v of None \<Rightarrow> d | Some s \<Rightarrow> if s = [] then d else s)"

definition both_differ :: "string option \<Rightarrow> string option \<Rightarrow> bool" where
  "both_differ a b \<longleftrightarrow> present a \<and> present b \<and> a \<noteq> b"

definition sourceFamily :: "string option \<Rightarrow> string" where
  "sourceFamily source =
     (if source = Some ''sms'' \<or> source = Some ''sms_bulk'' then ''sms'' else or_else source ''manual'')"

section \<open>Merchants\<close>

text \<open>\<open>[\p{L}\p{N}]\<close> on 8-bit text.\<close>

definition letter_or_number :: "char \<Rightarrow> bool" where
  "letter_or_number c \<longleftrightarrow> is_digit c \<or> is_alpha c \<or> code c \<in> {170, 178, 179, 181, 185, 186, 188, 189, 190}
     \<or> (192 \<le> code c \<and> code c \<noteq> 215 \<and> code c \<noteq> 247)"

definition normalizeMerchantText :: "string option \<Rightarrow> string" where
  "normalizeMerchantText v = filter letter_or_number (js_lower (or_else v []))"

datatype merchant_match = ExactMerchant | ContainedMerchant | MissingMerchant

fun match_name :: "merchant_match \<Rightarrow> string" where
  "match_name ExactMerchant = ''exact''"
| "match_name ContainedMerchant = ''contained''"
| "match_name MissingMerchant = ''missing''"

fun match_score :: "merchant_match \<Rightarrow> jsnum" where
  "match_score ExactMerchant = lit (35 / 100)"
| "match_score ContainedMerchant = lit (30 / 100)"
| "match_score MissingMerchant = lit (6 / 100)"

definition unnamed :: "string \<Rightarrow> bool" where
  "unnamed m \<longleftrightarrow> m \<in> {[], ''unknown'', ''unknownmerchant'', ''other'', ''na''}"

definition compareMerchants :: "string option \<Rightarrow> string option \<Rightarrow> merchant_match option" where
  "compareMerchants left right =
     (let a = normalizeMerchantText left; b = normalizeMerchantText right in
      if unnamed a \<or> unnamed b then Some MissingMerchant
      else if a = b then Some ExactMerchant
      else if 5 \<le> min (length a) (length b) \<and> (str_includes a b \<or> str_includes b a) then Some ContainedMerchant
      else None)"

section \<open>Times\<close>

definition asMillis :: "jsnum option \<Rightarrow> jsnum option" where
  "asMillis v = (case v of None \<Rightarrow> None | Some t \<Rightarrow> if is_finite t then Some t else None)"

definition comparisonTime :: "dup_row \<Rightarrow> string \<Rightarrow> jsnum option" where
  "comparisonTime row source =
     (let occurred = asMillis (du_occurred row); observed = asMillis (du_observed row) in
      if source = ''sms'' \<and> du_precise row \<and> occurred \<noteq> None then occurred
      else if source = ''sms'' \<and> observed \<noteq> None then observed else occurred)"

section \<open>Bank references\<close>

text \<open>
  The reference in a merchant text is found by a backtracking expression. A pattern returns the
  remaining inputs of its matches, in the order the engine tries them.
\<close>

type_synonym pattern = "string \<Rightarrow> string list"

definition upper :: "string \<Rightarrow> string" where
  "upper s = map upper_ascii_char s"

definition p_word :: "string \<Rightarrow> pattern" where
  "p_word w s = (if length w \<le> length s \<and> upper (take (length w) s) = w then [drop (length w) s] else [])"

definition p_then :: "pattern \<Rightarrow> pattern \<Rightarrow> pattern" where
  "p_then p q s = concat (map q (p s))"

definition p_or :: "pattern \<Rightarrow> pattern \<Rightarrow> pattern" where
  "p_or p q s = p s @ q s"

definition p_opt :: "pattern \<Rightarrow> pattern" where
  "p_opt p s = p s @ [s]"

fun p_spaces :: pattern where
  "p_spaces [] = [[]]"
| "p_spaces (c # s) = (if is_space c then p_spaces s @ [c # s] else [c # s])"

definition p_punct :: pattern where
  "p_punct s = (case s of [] \<Rightarrow> [] | c # t \<Rightarrow> if c \<in> {CHR '':'', CHR ''#'', CHR ''.'', CHR ''-''} then [t] else [])"

definition p_upi_ref :: pattern where
  "p_upi_ref = p_then (p_word ''UPI'') (p_then p_spaces (p_then (p_word ''REF'') (p_opt (p_word ''ERENCE''))))"

definition p_txn_id :: pattern where
  "p_txn_id = p_then (p_or (p_word ''TXN'') (p_word ''TRANSACTION''))
     (p_then p_spaces (p_or (p_word ''ID'') (p_word ''REF'')))"

definition p_ref :: pattern where
  "p_ref = p_then (p_word ''REF'') (p_then (p_opt (p_word ''ERENCE''))
     (p_opt (p_then p_spaces (p_or (p_word ''NO'') (p_or (p_word ''NUMBER'') (p_word ''ID''))))))"

definition p_label :: pattern where
  "p_label = p_or (p_word ''UTR'') (p_or (p_word ''RRN'') (p_or p_upi_ref (p_or p_txn_id p_ref)))"

definition is_ref_char :: "char \<Rightarrow> bool" where
  "is_ref_char c \<longleftrightarrow> is_digit c \<or> is_alpha c \<or> c = CHR ''-''"

definition is_word_char :: "char \<Rightarrow> bool" where
  "is_word_char c \<longleftrightarrow> is_digit c \<or> is_alpha c \<or> c = CHR ''_''"

text \<open>\<open>([A-Z0-9][A-Z0-9-]{5,39})\b\<close>: the longest capture that ends on a word boundary.\<close>

definition boundary_after :: "string \<Rightarrow> nat \<Rightarrow> bool" where
  "boundary_after s n \<longleftrightarrow> is_word_char (s ! (n - 1)) \<noteq> (n < length s \<and> is_word_char (s ! n))"

definition capture :: "string \<Rightarrow> string option" where
  "capture s =
     (if s = [] \<or> hd s = CHR ''-'' \<or> \<not> is_ref_char (hd s) then None
      else let run = min 40 (length (takeWhile is_ref_char s)) in
        map_option (\<lambda>n. take n s) (find (boundary_after s) (rev [6..<Suc run])))"

fun first_some :: "('a \<Rightarrow> 'b option) \<Rightarrow> 'a list \<Rightarrow> 'b option" where
  "first_some f [] = None"
| "first_some f (x # xs) = (case f x of None \<Rightarrow> first_some f xs | Some y \<Rightarrow> Some y)"

definition match_here :: "string \<Rightarrow> string option" where
  "match_here s = first_some capture (p_then p_label (p_then p_spaces (p_then (p_opt p_punct) p_spaces)) s)"

definition search_reference :: "string \<Rightarrow> string option" where
  "search_reference s = first_some (\<lambda>i. match_here (drop i s)) [0..<Suc (length s)]"

definition plain_reference :: "string \<Rightarrow> string" where
  "plain_reference s = filter (\<lambda>c. c \<noteq> CHR ''-'') (upper s)"

definition referenceOf :: "dup_row \<Rightarrow> string option" where
  "referenceOf row =
     (case du_reference row of
        Some r \<Rightarrow>
          if 6 \<le> length r \<and> length r \<le> 40 \<and> list_all is_ref_char r then Some (plain_reference r)
          else map_option plain_reference (search_reference (or_else (du_merchant row) []))
      | None \<Rightarrow> map_option plain_reference (search_reference (or_else (du_merchant row) [])))"

section \<open>Scoring\<close>

record dup_match =
  dm_score :: jsnum
  dm_automatic :: bool
  dm_amount :: jsnum
  dm_minutes :: jsnum
  dm_merchant :: string
  dm_families :: "string \<times> string"
  dm_reason :: string

text \<open>\<open>Number(x.toFixed(d))\<close> for \<open>x\<close> at least zero: the nearest decimal, the larger of two.\<close>

definition to_fixed :: "nat \<Rightarrow> jsnum \<Rightarrow> jsnum" where
  "to_fixed d v = (case v of Fin x \<Rightarrow> rnd (of_int \<lfloor>x * 10 ^ d + 1 / 2\<rfloor> / 10 ^ d) | _ \<Rightarrow> v)"

definition minutes :: "jsnum \<Rightarrow> jsnum" where
  "minutes ms = jround (ms / Fin 60000)"

definition number_text :: "jsnum \<Rightarrow> string" where
  "number_text v = (case v of Fin x \<Rightarrow> dec_int \<lfloor>x\<rfloor> | PInf \<Rightarrow> ''Infinity'' | NInf \<Rightarrow> ''-Infinity'' | NaN \<Rightarrow> ''NaN'')"

definition kind_of :: "dup_row \<Rightarrow> string" where
  "kind_of row = or_else (du_kind row) ''spend''"

definition instrument_of :: "dup_row \<Rightarrow> string" where
  "instrument_of row = or_else (du_instrument row) ''credit_card''"

definition same_reference :: "dup_row \<Rightarrow> dup_row \<Rightarrow> bool" where
  "same_reference incoming candidate \<longleftrightarrow>
     present (referenceOf incoming) \<and> referenceOf incoming = referenceOf candidate"

definition same_sms_family :: "dup_row \<Rightarrow> dup_row \<Rightarrow> bool" where
  "same_sms_family incoming candidate \<longleftrightarrow>
     sourceFamily (du_source incoming) = ''sms'' \<and> sourceFamily (du_source candidate) = ''sms''"

definition amount_difference :: "dup_row \<Rightarrow> dup_row \<Rightarrow> jsnum" where
  "amount_difference incoming candidate = jabs (du_amount incoming - du_amount candidate)"

text \<open>The early returns: evidence that contradicts one payment.\<close>

definition contradicts :: "dup_row \<Rightarrow> dup_row \<Rightarrow> bool" where
  "contradicts incoming candidate \<longleftrightarrow>
     kind_of incoming \<noteq> kind_of candidate
   \<or> both_differ (referenceOf incoming) (referenceOf candidate)
   \<or> (kind_of incoming \<noteq> ''spend'' \<and> \<not> same_reference incoming candidate)
   \<or> (sourceFamily (du_source incoming) = sourceFamily (du_source candidate)
       \<and> sourceFamily (du_source incoming) \<noteq> ''imported''
       \<and> \<not> same_reference incoming candidate \<and> \<not> same_sms_family incoming candidate)
   \<or> (instrument_of incoming \<noteq> instrument_of candidate
       \<and> instrument_of incoming \<noteq> ''other'' \<and> instrument_of candidate \<noteq> ''other'')
   \<or> both_differ (du_card incoming) (du_card candidate)
   \<or> both_differ (du_account incoming) (du_account candidate)
   \<or> \<not> is_finite (amount_difference incoming candidate)
   \<or> AMOUNT_TOLERANCE_INR < amount_difference incoming candidate"

text \<open>Two alerts of one card: only the delivery times count.\<close>

definition sms_duplicate :: "dup_row \<Rightarrow> dup_row \<Rightarrow> dup_match option" where
  "sms_duplicate incoming candidate =
     (case (asMillis (du_observed incoming), asMillis (du_observed candidate)) of
        (Some i, Some c) \<Rightarrow>
          let distance = jabs (i - c) in
          if MAX_SMS_NOTIFICATION_DISTANCE_MS < distance
             \<or> lit (5 / 1000) \<le> amount_difference incoming candidate
             \<or> compareMerchants (du_merchant incoming) (du_merchant candidate) \<noteq> Some ExactMerchant
             \<or> \<not> present (du_card incoming) \<or> \<not> present (du_card candidate) \<or> du_card incoming \<noteq> du_card candidate
          then None
          else Some \<lparr>dm_score = lit (998 / 1000), dm_automatic = True, dm_amount = Fin 0, dm_minutes = minutes distance,
             dm_merchant = ''exact'',
             dm_families = (sourceFamily (du_source candidate), sourceFamily (du_source incoming)),
             dm_reason = ''same SMS card, amount and merchant within 15 minutes of notification delivery''\<rparr>
      | _ \<Rightarrow> None)"

definition card_score :: "dup_row \<Rightarrow> dup_row \<Rightarrow> jsnum" where
  "card_score incoming candidate =
     (if present (du_card incoming) \<and> present (du_card candidate) then lit (20 / 100)
      else if present (du_card incoming) \<or> present (du_card candidate) then lit (5 / 100) else Fin 0)"

definition time_score :: "jsnum \<Rightarrow> jsnum" where
  "time_score ms = (if ms \<le> Fin 600000 then lit (25 / 100) else if ms \<le> Fin 7200000 then lit (20 / 100)
     else if ms \<le> Fin 86400000 then lit (12 / 100) else lit (8 / 100))"

definition fuzzy_score :: "dup_row \<Rightarrow> dup_row \<Rightarrow> merchant_match \<Rightarrow> jsnum \<Rightarrow> jsnum" where
  "fuzzy_score incoming candidate m ms =
     (let s1 = (if amount_difference incoming candidate < lit (5 / 1000) then lit (24 / 100) else lit (20 / 100));
          s2 = s1 + match_score m + card_score incoming candidate + time_score ms;
          s3 = (if sourceFamily (du_source incoming) \<noteq> sourceFamily (du_source candidate) then s2 + lit (5 / 100) else s2)
      in jmin (lit (999 / 1000)) (to_fixed 3 s3))"

definition fuzzy_duplicate :: "dup_row \<Rightarrow> dup_row \<Rightarrow> merchant_match \<Rightarrow> jsnum \<Rightarrow> dup_match option" where
  "fuzzy_duplicate incoming candidate m ms =
     (let score = fuzzy_score incoming candidate m ms;
          ci = sourceFamily (du_source candidate); ii = sourceFamily (du_source incoming) in
      if score < REVIEW_THRESHOLD then None
      else Some \<lparr>dm_score = score, dm_automatic = False,
         dm_amount = to_fixed 2 (amount_difference incoming candidate), dm_minutes = minutes ms,
         dm_merchant = match_name m, dm_families = (ci, ii),
         dm_reason = ''exact amount; merchant '' @ match_name m @ ''; '' @
           (if present (du_card incoming) \<and> present (du_card candidate) then ''same card''
            else ''card unavailable on one channel'') @
           ''; within '' @ number_text (minutes ms) @ '' minutes; '' @ ci @ ''+'' @ ii\<rparr>)"

definition evaluateDuplicate :: "dup_row \<Rightarrow> dup_row \<Rightarrow> dup_match option" where
  "evaluateDuplicate incoming candidate =
     (if contradicts incoming candidate then None
      else if same_sms_family incoming candidate \<and> \<not> same_reference incoming candidate
      then sms_duplicate incoming candidate
      else (case (comparisonTime incoming (sourceFamily (du_source incoming)),
                  comparisonTime candidate (sourceFamily (du_source candidate))) of
        (Some i, Some c) \<Rightarrow>
          let ms = jabs (i - c); m = compareMerchants (du_merchant incoming) (du_merchant candidate) in
          if MAX_TIME_DISTANCE_MS < ms \<and> \<not> same_reference incoming candidate then None
          else if same_reference incoming candidate then
            (if lit (5 / 1000) \<le> amount_difference incoming candidate then None
             else Some \<lparr>dm_score = lit (999 / 1000), dm_automatic = True, dm_amount = Fin 0, dm_minutes = minutes ms,
               dm_merchant = (case m of None \<Rightarrow> ''different'' | Some k \<Rightarrow> match_name k),
               dm_families = (sourceFamily (du_source candidate), sourceFamily (du_source incoming)),
               dm_reason = ''same bank reference and exact amount; no conflicting account''\<rparr>)
          else (case m of None \<Rightarrow> None | Some k \<Rightarrow> fuzzy_duplicate incoming candidate k ms)
      | _ \<Rightarrow> None))"

text \<open>The comparator of the ranking: higher score first, then the smaller distance.\<close>

definition ranks_before :: "dup_row \<times> dup_match \<Rightarrow> dup_row \<times> dup_match \<Rightarrow> bool" where
  "ranks_before l r =
     (let d = dm_score (snd r) - dm_score (snd l) in
      if d \<noteq> Fin 0 \<and> d \<noteq> NaN then d \<le> Fin 0
      else \<not> Fin 0 < dm_minutes (snd l) - dm_minutes (snd r))"

definition rank_candidates :: "dup_row \<Rightarrow> dup_row list \<Rightarrow> (dup_row \<times> dup_match) list" where
  "rank_candidates incoming candidates = jsort ranks_before
     (List.map_filter (\<lambda>c. map_option (\<lambda>m. (c, m)) (evaluateDuplicate incoming c)) candidates)"

definition bestDuplicate :: "dup_row \<Rightarrow> dup_row list \<Rightarrow> (dup_row \<times> dup_match) option" where
  "bestDuplicate incoming candidates =
     (let ranked = rank_candidates incoming candidates in
      case ranked of [] \<Rightarrow> None
      | (c, m) # _ \<Rightarrow>
          if dm_automatic m \<and> 1 < length (filter (dm_automatic \<circ> snd) ranked)
          then Some (c, m\<lparr>dm_automatic := False, dm_reason := dm_reason m @ ''; multiple possible transactions''\<rparr>)
          else Some (c, m))"

end
