(* ===== verification/DedupProps.thy ===== *)
theory DedupProps
  imports Dedup
begin

text \<open>
  What duplicate detection promises, and a merchant text on which it fails.
\<close>

section \<open>What a match means\<close>

lemma evaluate_consistent:
  "evaluateDuplicate incoming c = Some m \<Longrightarrow> \<not> contradicts incoming c"
  by (simp add: evaluateDuplicate_def split: if_splits)

text \<open>Two rows that may be one payment: nothing that both of them say is different.\<close>

definition conflict_free :: "dup_row \<Rightarrow> dup_row \<Rightarrow> bool" where
  "conflict_free a b \<longleftrightarrow> kind_of a = kind_of b
     \<and> \<not> both_differ (du_card a) (du_card b) \<and> \<not> both_differ (du_account a) (du_account b)
     \<and> \<not> both_differ (referenceOf a) (referenceOf b)
     \<and> (instrument_of a = instrument_of b \<or> instrument_of a = ''other'' \<or> instrument_of b = ''other'')"

text \<open>
  Evidence strong enough to suppress a row without asking: amounts less than half a paisa apart, and the same bank
  reference at known times, or, for spends, two alerts of one card and merchant delivered within 15 minutes.
\<close>

definition reference_evidence :: "dup_row \<Rightarrow> dup_row \<Rightarrow> bool" where
  "reference_evidence a b \<longleftrightarrow> same_reference a b
     \<and> comparisonTime a (sourceFamily (du_source a)) \<noteq> None \<and> comparisonTime b (sourceFamily (du_source b)) \<noteq> None"

definition alert_evidence :: "dup_row \<Rightarrow> dup_row \<Rightarrow> bool" where
  "alert_evidence a b \<longleftrightarrow> kind_of a = ''spend'' \<and> same_sms_family a b \<and> present (du_card a) \<and> du_card a = du_card b
     \<and> compareMerchants (du_merchant a) (du_merchant b) = Some ExactMerchant
     \<and> (case (du_observed a, du_observed b) of (Some i, Some j) \<Rightarrow> jabs (i - j) \<le> Fin 900000 | _ \<Rightarrow> False)"

definition strong_evidence :: "dup_row \<Rightarrow> dup_row \<Rightarrow> bool" where
  "strong_evidence a b \<longleftrightarrow> amount_difference a b < lit (5 / 1000) \<and> (reference_evidence a b \<or> alert_evidence a b)"

lemma finite_cases: "is_finite v \<Longrightarrow> \<exists>x. v = Fin x"
  by (cases v) auto

lemma less_half_paisa:
  "\<not> contradicts a b \<Longrightarrow> \<not> lit (5 / 1000) \<le> amount_difference a b \<Longrightarrow> amount_difference a b < lit (5 / 1000)"
proof -
  assume c: "\<not> contradicts a b" and n: "\<not> lit (5 / 1000) \<le> amount_difference a b"
  have "amount_difference a b \<noteq> NaN" using c by (auto simp: contradicts_def)
  moreover have "lit (5 / 1000) \<noteq> NaN" by (simp add: lit_def)
  ultimately show ?thesis using n jnot_le by blast
qed

lemma asMillis_Some: "asMillis v = Some t \<Longrightarrow> v = Some t \<and> is_finite t"
  by (auto simp: asMillis_def split: option.splits if_splits)

lemma half_paisa: "\<exists>h. lit (5 / 1000) = Fin h"
  unfolding lit_def by (rule exI, rule rnd_finite) simp

lemma small_difference:
  assumes "amount_difference a b < lit (5 / 1000)"
  shows "is_finite (amount_difference a b)" "\<not> AMOUNT_TOLERANCE_INR < amount_difference a b"
    "\<not> lit (5 / 1000) \<le> amount_difference a b"
proof -
  obtain h where h: "lit (5 / 1000) = Fin h" using half_paisa by blast
  have "\<exists>d. amount_difference a b = Fin d \<and> d < h"
    using assms unfolding amount_difference_def h by (cases "du_amount a - du_amount b") auto
  then show "is_finite (amount_difference a b)" "\<not> AMOUNT_TOLERANCE_INR < amount_difference a b"
    "\<not> lit (5 / 1000) \<le> amount_difference a b" unfolding AMOUNT_TOLERANCE_INR_def h by auto
qed

lemma near_finite: "jabs (i - j) \<le> Fin x \<Longrightarrow> is_finite i \<and> is_finite j"
  by (cases i; cases j) (auto simp: minus_jsnum_def)

lemma asMillis_finite: "is_finite t \<Longrightarrow> asMillis (Some t) = Some t"
  by (simp add: asMillis_def)

lemma consistent_conflict_free: "\<not> contradicts a b \<Longrightarrow> conflict_free a b"
  by (auto simp: contradicts_def conflict_free_def)

lemma strong_consistent:
  assumes "conflict_free a b" and "strong_evidence a b"
  shows "\<not> contradicts a b"
proof -
  note d = small_difference[of a b]
  have "same_reference a b \<or> kind_of a = ''spend'' \<and> same_sms_family a b"
    using assms(2) by (auto simp: strong_evidence_def reference_evidence_def alert_evidence_def)
  then show ?thesis using assms d by (auto simp: contradicts_def conflict_free_def strong_evidence_def)
qed

lemma automatic_strong:
  assumes "evaluateDuplicate incoming c = Some m" and "dm_automatic m"
  shows "strong_evidence incoming c"
proof (cases "same_sms_family incoming c \<and> \<not> same_reference incoming c")
  case True
  then have sms: "sms_duplicate incoming c = Some m"
    using assms(1) evaluate_consistent[OF assms(1)] by (simp add: evaluateDuplicate_def)
  have spend: "kind_of incoming = ''spend''" using True evaluate_consistent[OF assms(1)] by (auto simp: contradicts_def)
  obtain i j where ij: "asMillis (du_observed incoming) = Some i" "asMillis (du_observed c) = Some j"
    using sms by (auto simp: sms_duplicate_def split: option.splits)
  have far: "\<not> Fin 900000 < jabs (i - j)" and rest: "\<not> lit (5 / 1000) \<le> amount_difference incoming c"
      "compareMerchants (du_merchant incoming) (du_merchant c) = Some ExactMerchant"
      "present (du_card incoming)" "du_card incoming = du_card c"
    using sms by (auto simp: sms_duplicate_def ij Let_def MAX_SMS_NOTIFICATION_DISTANCE_MS_def split: if_splits)
  have "jabs (i - j) \<noteq> NaN"
    using finite_cases asMillis_Some[OF ij(1)] asMillis_Some[OF ij(2)] rnd_not_NaN
    by (metis jabs.elims jsnum.distinct(1,3,5) minus_Fin)
  then have "jabs (i - j) \<le> Fin 900000" using far jnot_less by blast
  then show ?thesis
    using rest True spend asMillis_Some[OF ij(1)] asMillis_Some[OF ij(2)] less_half_paisa[OF evaluate_consistent[OF assms(1)]]
    by (auto simp: strong_evidence_def alert_evidence_def)
next
  case False
  then have "reference_evidence incoming c \<and> \<not> lit (5 / 1000) \<le> amount_difference incoming c"
    using assms evaluate_consistent[OF assms(1)]
    by (auto simp: evaluateDuplicate_def fuzzy_duplicate_def reference_evidence_def Let_def split: option.splits if_splits)
  then show ?thesis
    using less_half_paisa[OF evaluate_consistent[OF assms(1)]] by (simp add: strong_evidence_def)
qed

lemma strong_automatic:
  assumes c: "conflict_free a b" and s: "strong_evidence a b"
  shows "\<exists>m. evaluateDuplicate a b = Some m \<and> dm_automatic m"
proof -
  note ok = strong_consistent[OF c s]
  have small: "\<not> lit (5 / 1000) \<le> amount_difference a b"
    using s small_difference(3) by (simp add: strong_evidence_def)
  have alert: "\<exists>i j. du_observed a = Some i \<and> du_observed b = Some j \<and> asMillis (Some i) = Some i \<and> asMillis (Some j) = Some j
      \<and> jabs (i - j) \<le> Fin 900000" if "alert_evidence a b"
    using that near_finite asMillis_finite by (fastforce simp: alert_evidence_def split: option.splits)
  show ?thesis
  proof (cases "same_reference a b")
    case True
    have "comparisonTime a (sourceFamily (du_source a)) \<noteq> None \<and> comparisonTime b (sourceFamily (du_source b)) \<noteq> None"
    proof (cases "reference_evidence a b")
      case False
      then have al: "alert_evidence a b" using s by (simp add: strong_evidence_def)
      from alert[OF al] show ?thesis using al by (auto simp: alert_evidence_def same_sms_family_def comparisonTime_def Let_def)
    qed (simp add: reference_evidence_def)
    then show ?thesis using ok True small by (auto simp: evaluateDuplicate_def Let_def)
  next
    case False
    then have al: "alert_evidence a b" using s by (auto simp: strong_evidence_def reference_evidence_def)
    obtain i j where ij: "du_observed a = Some i" "du_observed b = Some j" "asMillis (Some i) = Some i" "asMillis (Some j) = Some j"
      "jabs (i - j) \<le> Fin 900000" using alert[OF al] by blast
    have "\<not> Fin 900000 < jabs (i - j)" using ij(5) by (cases "jabs (i - j)") auto
    then show ?thesis using ok False al small ij(1-4)
      by (auto simp: evaluateDuplicate_def sms_duplicate_def alert_evidence_def Let_def MAX_SMS_NOTIFICATION_DISTANCE_MS_def)
  qed
qed

lemma automatic_iff: "(\<exists>m. evaluateDuplicate a b = Some m \<and> dm_automatic m) \<longleftrightarrow> conflict_free a b \<and> strong_evidence a b"
  using strong_automatic automatic_strong consistent_conflict_free evaluate_consistent by blast

lemma ranked_mset:
  "mset (rank_candidates incoming candidates) =
     mset (List.map_filter (\<lambda>c. map_option (\<lambda>m. (c, m)) (evaluateDuplicate incoming c)) candidates)"
  by (simp add: rank_candidates_def)

lemma ranked_member:
  "(c, m) \<in> set (rank_candidates incoming candidates) \<longleftrightarrow> c \<in> set candidates \<and> evaluateDuplicate incoming c = Some m"
proof -
  have "set (rank_candidates incoming candidates) =
      set (List.map_filter (\<lambda>c. map_option (\<lambda>m. (c, m)) (evaluateDuplicate incoming c)) candidates)"
    by (simp add: rank_candidates_def)
  then show ?thesis by (force simp: List.map_filter_def)
qed

text \<open>The number of candidates that are free of conflicts and have strong evidence.\<close>

definition strong_count :: "dup_row \<Rightarrow> dup_row list \<Rightarrow> nat" where
  "strong_count incoming candidates =
     length (filter (\<lambda>c. conflict_free incoming c \<and> strong_evidence incoming c) candidates)"

lemma automatic_ranked:
  "length (filter (dm_automatic \<circ> snd) (rank_candidates incoming candidates)) = strong_count incoming candidates"
proof -
  let ?found = "List.map_filter (\<lambda>c. map_option (\<lambda>m. (c, m)) (evaluateDuplicate incoming c)) candidates"
  have "length (filter (dm_automatic \<circ> snd) (rank_candidates incoming candidates)) =
      size (filter_mset (dm_automatic \<circ> snd) (mset (rank_candidates incoming candidates)))"
    by (simp only: size_mset flip: mset_filter)
  also have "\<dots> = length (filter (dm_automatic \<circ> snd) ?found)"
    unfolding ranked_mset by (simp only: size_mset flip: mset_filter)
  also have "\<dots> = strong_count incoming candidates"
  proof (induction candidates)
    case Nil
    show ?case by (simp add: strong_count_def map_filter_simps)
  next
    case (Cons c cs)
    then show ?case by (cases "evaluateDuplicate incoming c") (simp_all add: strong_count_def map_filter_simps flip: automatic_iff)
  qed
  finally show ?thesis .
qed


text \<open>A statement row and the alert of the same transfer.\<close>

definition sample_transfer :: "string \<Rightarrow> dup_row" where
  "sample_transfer source = \<lparr>du_kind = None, du_source = Some source, du_reference = Some ''UTR-123456'',
     du_merchant = Some ''Landlord'', du_instrument = None, du_card = None, du_account = None, du_amount = Fin 100,
     du_occurred = Some (Fin 0), du_observed = None, du_precise = False\<rparr>"

lemma same_reference_evidence:
  assumes "referenceOf a = Some r" and "referenceOf b = Some r" and "r \<noteq> []" and "kind_of a = kind_of b"
    and "instrument_of a = instrument_of b" and "\<not> both_differ (du_card a) (du_card b)"
    and "\<not> both_differ (du_account a) (du_account b)" and "du_amount a = Fin x" and "du_amount b = Fin x"
    and "comparisonTime a (sourceFamily (du_source a)) = Some t" and "comparisonTime b (sourceFamily (du_source b)) = Some u"
  shows "\<exists>m. evaluateDuplicate a b = Some m \<and> dm_automatic m"
proof -
  have same: "same_reference a b" using assms(1-3) by (simp add: same_reference_def present_def)
  have amount: "amount_difference a b = Fin 0" using assms(8,9) by (simp add: amount_difference_def minus_Fin)
  have "rnd (1 / 256) = Fin (1 / 256)" by (rule rnd_dyadic[of _ 8 1]) simp_all
  then have "Fin (1 / 256) \<le> lit (5 / 1000)" using rnd_mono[of "1 / 256" "5 / 1000"] by (simp add: lit_def)
  then have not_less: "\<not> lit (5 / 1000) < Fin 0" "\<not> lit (5 / 1000) \<le> Fin 0"
    by (cases "lit (5 / 1000)"; simp)+
  have "\<not> contradicts a b"
    using assms same amount not_less by (simp add: contradicts_def both_differ_def AMOUNT_TOLERANCE_INR_def)
  then show ?thesis
    using same amount not_less assms(10,11) by (simp add: evaluateDuplicate_def Let_def)
qed


section \<open>A word that is taken for a bank reference\<close>

definition stall_payment :: "rat \<Rightarrow> rat \<Rightarrow> dup_row" where
  "stall_payment amount time = \<lparr>du_kind = None, du_source = Some ''statement'', du_reference = None,
     du_merchant = Some ''Refreshment Stall'', du_instrument = None, du_card = None, du_account = None,
     du_amount = Fin amount, du_occurred = Some (Fin time), du_observed = None, du_precise = False\<rparr>"

text \<open>The pattern that looks for a bank reference in the merchant text has no word boundary in
  front of its labels, so in Refreshment it reads the label REF and the reference reshment. Two payments
  of the same amount at such a merchant, from the same statement and any time apart, are therefore
  reported as one payment with the same bank reference, and automatically.\<close>

theorem word_taken_for_reference:
  "\<forall>amount t u. \<exists>m. evaluateDuplicate (stall_payment amount t) (stall_payment amount u) = Some m \<and> dm_automatic m"
proof (intro allI)
  fix amount t u
  have "search_reference ''Refreshment Stall'' = Some ''reshment''" by code_simp
  then have ref: "referenceOf (stall_payment amount v) = Some (plain_reference ''reshment'')" for v
    by (simp add: referenceOf_def stall_payment_def or_else_def)
  have "plain_reference ''reshment'' \<noteq> []" by code_simp
  then show "\<exists>m. evaluateDuplicate (stall_payment amount t) (stall_payment amount u) = Some m \<and> dm_automatic m"
    by (intro same_reference_evidence[OF ref ref])
      (simp_all add: stall_payment_def kind_of_def instrument_of_def both_differ_def comparisonTime_def asMillis_def
        Let_def sourceFamily_def or_else_def)
qed

end
