(* ===== verification/SelfTransfer.thy ===== *)
theory SelfTransfer
  imports JsVal
begin

text \<open>
  \<open>api/src/self_transfer.js\<close>: transfers between a person's own accounts, recognised only from
  relationships the person confirmed. The state is the part of the database the module touches: the
  rules (\<open>None\<close> while the migration that creates their table has not run), the transactions and
  their observations. Text is 8-bit; the sender names \<open>constructor\<close> and \<open>__proto__\<close>, which a
  plain object used as a table inherits, are outside the model. An error is \<open>Inl\<close> with its message.
\<close>

section \<open>Identities\<close>

record identity =
  sourceSender :: string
  sourceAccountLast4 :: string
  party :: string

record destination =
  de_bank :: string
  de_account :: string

record transfer_rule =
  tr_identity :: identity
  tr_destination :: "destination option"

definition text_or :: "string option \<Rightarrow> string" where
  "text_or v = (case v of None \<Rightarrow> [] | Some s \<Rightarrow> s)"

definition given :: "string option \<Rightarrow> bool" where
  "given v \<longleftrightarrow> text_or v \<noteq> []"

text \<open>\<open>^[a-z0-9]{2}-\<close> and \<open>-[a-z]$\<close> are cut off.\<close>

definition cut_route :: "string \<Rightarrow> string" where
  "cut_route s = (case s of a # b # c # t \<Rightarrow>
       if is_lower_alnum a \<and> is_lower_alnum b \<and> c = CHR ''-'' then t else s
     | _ \<Rightarrow> s)"

definition cut_kind :: "string \<Rightarrow> string" where
  "cut_kind s = (case rev s of a # c # t \<Rightarrow>
       if is_lower_alnum a \<and> \<not> is_digit a \<and> c = CHR ''-'' then rev t else s
     | _ \<Rightarrow> s)"

definition sender_table :: "(string \<times> string) list" where
  "sender_table = [(''hdfcbk'', ''hdfc''), (''canbnk'', ''canara''), (''canbk'', ''canara''), (''kotakb'', ''kotak''),
     (''icicib'', ''icici''), (''unionb'', ''union''), (''axisbnk'', ''axis''), (''axisb'', ''axis''),
     (''sbibnk'', ''sbi''), (''sbibk'', ''sbi''), (''idbibk'', ''idbi''), (''yesbnk'', ''yes''),
     (''yesbank'', ''yes''), (''ucob'', ''uco''), (''eqt'', ''equitas''), (''pytm'', ''paytm'')]"

definition senderFamily :: "string option \<Rightarrow> string" where
  "senderFamily sender =
     (let family = cut_kind (cut_route (js_lower (js_trim (text_or sender)))) in
      case map_of sender_table family of None \<Rightarrow> family | Some bank \<Rightarrow> bank)"

definition is_last4 :: "string \<Rightarrow> bool" where
  "is_last4 s \<longleftrightarrow> length s = 4 \<and> list_all is_digit s"

definition is_bank_code :: "string \<Rightarrow> bool" where
  "is_bank_code s \<longleftrightarrow> 2 \<le> length s \<and> length s \<le> 30 \<and> list_all is_lower_alnum s"

text \<open>\<open>replace(/\s+/g, ' ')\<close>.\<close>

fun one_space :: "string \<Rightarrow> string" where
  "one_space [] = []"
| "one_space (c # s) =
     (if is_space c then (case s of [] \<Rightarrow> '' '' | d # _ \<Rightarrow> if is_space d then one_space s else CHR '' '' # one_space s)
      else c # one_space s)"

text \<open>The name a transaction shows: a merchant, or the label of a transfer to an own account.\<close>

datatype shown_name = Merchant "string option" | SelfTransferTo string string

definition bank_table :: "(string \<times> string) list" where
  "bank_table = [(''slcbnk'', ''Slice''), (''hdfc'', ''HDFC Bank''), (''canara'', ''Canara Bank''),
     (''kotak'', ''Kotak Bank''), (''union'', ''Union Bank''), (''axis'', ''Axis Bank''), (''icici'', ''ICICI Bank''),
     (''sbi'', ''SBI''), (''idbi'', ''IDBI Bank''), (''yes'', ''Yes Bank''), (''equitas'', ''Equitas Bank''),
     (''paytm'', ''Paytm Bank'')]"

definition selfTransferLabel :: "destination \<Rightarrow> shown_name" where
  "selfTransferLabel d = SelfTransferTo
     (case map_of bank_table (de_bank d) of None \<Rightarrow> map upper_ascii_char (de_bank d) | Some b \<Rightarrow> b) (de_account d)"

section \<open>Applying a rule to a parsed message\<close>

record parsed_fields =
  pf_instrument :: "string option"
  pf_kind :: "string option"
  pf_account :: "string option"
  pf_party :: "string option"
  pf_destination :: "string option"
  pf_transfer_kind :: "string option"
  pf_subtype :: "string option"
  pf_rule :: "transfer_rule option"
  pf_merchant :: shown_name

definition transferIdentity :: "string option \<Rightarrow> parsed_fields \<Rightarrow> identity option" where
  "transferIdentity sender f =
     (if pf_instrument f \<noteq> Some ''upi_bank'' \<or> pf_kind f \<noteq> Some ''spend''
         \<or> \<not> is_last4 (text_or (pf_account f)) \<or> \<not> given (pf_party f) then None
      else Some \<lparr>sourceSender = senderFamily sender, sourceAccountLast4 = text_or (pf_account f),
        party = js_lower (one_space (js_trim (text_or (pf_party f))))\<rparr>)"

text \<open>A parsed message: \<open>ok\<close> and the fields.\<close>

definition applySelfTransferRule :: "bool \<times> parsed_fields \<Rightarrow> string option \<Rightarrow> transfer_rule list \<Rightarrow> bool \<times> parsed_fields" where
  "applySelfTransferRule parsed sender rules =
     (case (if fst parsed then transferIdentity sender (snd parsed) else None) of
        None \<Rightarrow> parsed
      | Some i \<Rightarrow>
          let matching = filter (\<lambda>r. tr_identity r = i) rules in
          if length (dedup (map tr_destination matching)) \<noteq> 1 then parsed
          else (case tr_destination (hd matching) of
             None \<Rightarrow> parsed
           | Some d \<Rightarrow>
               if \<not> is_last4 (de_account d) \<or> \<not> is_bank_code (de_bank d) then parsed
               else if given (pf_destination (snd parsed)) \<and> pf_destination (snd parsed) \<noteq> Some (de_account d) then parsed
               else (fst parsed, (snd parsed)\<lparr>pf_kind := Some ''transfer'', pf_transfer_kind := Some ''account_to_account'',
                  pf_destination := Some (de_account d), pf_subtype := Some ''self_transfer'',
                  pf_rule := Some \<lparr>tr_identity = i, tr_destination = Some d\<rparr>, pf_merchant := selfTransferLabel d\<rparr>)))"

section \<open>The stored rules and the past transactions\<close>

record stored_rule =
  ru_profile :: string
  ru_identity :: identity
  ru_destination :: destination
  ru_active :: bool
  ru_version :: nat

record evidence =
  ev_sender :: "string option"
  ev_is_bank :: bool
  ev_account :: "string option"
  ev_party :: "string option"
  ev_destination :: "string option"
  ev_locked :: bool
  ev_subtype :: "string option"
  ev_rule :: "transfer_rule option"
  ev_remembered :: "bool option"
  ev_source :: "string option"
  ev_version :: "nat option"

record st_txn =
  st_id :: string
  st_profile :: string
  st_active :: bool
  st_kind :: string
  st_instrument :: string
  st_name :: shown_name
  st_occurred :: int

record observation =
  ob_txn :: "string option"
  ob_profile :: string
  ob_source :: string
  ob_observed :: int
  ob_metadata :: evidence

record st_db =
  st_rules :: "stored_rule list option"
  st_txns :: "st_txn list"
  st_obs :: "observation list"

definition confirmedSelfTransferRules :: "st_db \<Rightarrow> string \<Rightarrow> transfer_rule list" where
  "confirmedSelfTransferRules db user = (case st_rules db of
     None \<Rightarrow> []
   | Some rows \<Rightarrow> map (\<lambda>r. \<lparr>tr_identity = ru_identity r, tr_destination = Some (ru_destination r)\<rparr>)
       (filter (\<lambda>r. ru_profile r = user \<and> ru_active r) rows))"

definition complete_rule :: "transfer_rule \<Rightarrow> bool" where
  "complete_rule r \<longleftrightarrow> sourceSender (tr_identity r) \<noteq> [] \<and> sourceAccountLast4 (tr_identity r) \<noteq> []
     \<and> party (tr_identity r) \<noteq> [] \<and> tr_destination r \<noteq> None"

definition rule_key :: "string \<Rightarrow> transfer_rule \<Rightarrow> stored_rule \<Rightarrow> bool" where
  "rule_key user r row \<longleftrightarrow> ru_profile row = user \<and> ru_identity row = tr_identity r
     \<and> Some (ru_destination row) = tr_destination r"

text \<open>The checks on the columns of the table; \<open>btrim\<close> cuts spaces only.\<close>

definition is_sender_code :: "string \<Rightarrow> bool" where
  "is_sender_code s \<longleftrightarrow> 2 \<le> length s \<and> length s \<le> 30 \<and> list_all (\<lambda>c. is_lower_alnum c \<or> c \<in> set ''_.-'') s"

definition btrim :: "string \<Rightarrow> string" where
  "btrim s = rev (dropWhile (\<lambda>c. c = CHR '' '') (rev (dropWhile (\<lambda>c. c = CHR '' '') s)))"

definition column_checks :: "identity \<Rightarrow> destination \<Rightarrow> bool" where
  "column_checks i d \<longleftrightarrow> is_sender_code (sourceSender i) \<and> is_last4 (sourceAccountLast4 i)
     \<and> 2 \<le> length (btrim (party i)) \<and> length (btrim (party i)) \<le> 160
     \<and> is_sender_code (de_bank d) \<and> is_last4 (de_account d)"

text \<open>\<open>INSERT ... ON CONFLICT DO UPDATE\<close>; without the table the statement fails, and a row that
  breaks a check is refused before the conflict is looked at.\<close>

definition saveSelfTransferRule :: "st_db \<Rightarrow> string \<Rightarrow> transfer_rule \<Rightarrow> string + st_db" where
  "saveSelfTransferRule db user r =
     (if \<not> complete_rule r then Inl ''Invalid self-transfer relationship''
      else (case st_rules db of
         None \<Rightarrow> Inl ''undefined_table''
       | Some rows \<Rightarrow>
           if \<not> column_checks (tr_identity r) (the (tr_destination r)) then Inl ''check_violation''
           else if \<exists>row \<in> set rows. rule_key user r row
           then Inr (db\<lparr>st_rules := Some (map (\<lambda>row. if rule_key user r row
                  then row\<lparr>ru_active := True, ru_version := ru_version row + 1\<rparr> else row) rows)\<rparr>)
           else Inr (db\<lparr>st_rules := Some (rows @ [\<lparr>ru_profile = user, ru_identity = tr_identity r,
                  ru_destination = the (tr_destination r), ru_active = True, ru_version = 1\<rparr>])\<rparr>)))"

definition disableSelfTransferRule :: "st_db \<Rightarrow> string \<Rightarrow> transfer_rule \<Rightarrow> string + st_db" where
  "disableSelfTransferRule db user r =
     (if \<not> complete_rule r then Inr db
      else (case st_rules db of
         None \<Rightarrow> Inl ''undefined_table''
       | Some rows \<Rightarrow> Inr (db\<lparr>st_rules := Some (map (\<lambda>row. if rule_key user r row
            then row\<lparr>ru_active := False, ru_version := ru_version row + 1\<rparr> else row) rows)\<rparr>)))"

definition from_sms :: "observation \<Rightarrow> bool" where
  "from_sms ob \<longleftrightarrow> ob_source ob = ''sms'' \<or> ob_source ob = ''sms_bulk''"

text \<open>Evidence as the fields of a spend over UPI.\<close>

definition fields_of :: "evidence \<Rightarrow> parsed_fields" where
  "fields_of ev = \<lparr>pf_instrument = Some ''upi_bank'', pf_kind = Some ''spend'', pf_account = ev_account ev,
     pf_party = ev_party ev, pf_destination = ev_destination ev, pf_transfer_kind = None, pf_subtype = ev_subtype ev,
     pf_rule = None, pf_merchant = Merchant None\<rparr>"

text \<open>The joined rows, oldest first.\<close>

definition candidate_rows :: "st_db \<Rightarrow> string \<Rightarrow> identity \<Rightarrow> (st_txn \<times> evidence) list" where
  "candidate_rows db user i =
     jsort (\<lambda>a b. st_occurred (fst a) < st_occurred (fst b)
         \<or> (st_occurred (fst a) = st_occurred (fst b) \<and> str_le (st_id (fst a)) (st_id (fst b))))
       (concat (map (\<lambda>t. map (\<lambda>ob. (t, ob_metadata ob))
          (filter (\<lambda>ob. ob_txn ob = Some (st_id t) \<and> ob_profile ob = st_profile t \<and> from_sms ob
              \<and> ev_account (ob_metadata ob) = Some (sourceAccountLast4 i)) (st_obs db)))
        (filter (\<lambda>t. st_profile t = user \<and> st_active t \<and> st_kind t = ''spend'' \<and> st_instrument t = ''upi_bank'') (st_txns db))))"

text \<open>The row is passed over: locked by another classification, or not this relationship.\<close>

definition passes_over :: "transfer_rule \<Rightarrow> destination \<Rightarrow> evidence \<Rightarrow> bool" where
  "passes_over r d ev \<longleftrightarrow> (ev_locked ev \<and> ev_subtype ev \<noteq> Some ''self_transfer'')
     \<or> transferIdentity (ev_sender ev) (fields_of ev) \<noteq> Some (tr_identity r)
     \<or> (given (ev_destination ev) \<and> ev_destination ev \<noteq> Some (de_account d))"

definition remember :: "transfer_rule \<Rightarrow> bool \<Rightarrow> evidence \<Rightarrow> evidence" where
  "remember r remembered ev = ev\<lparr>ev_rule := Some r, ev_remembered := Some remembered, ev_subtype := Some ''self_transfer'',
     ev_locked := True, ev_source := Some ''remembered_self_transfer'', ev_version := Some 1\<rparr>"

definition spend_row :: "string \<Rightarrow> string \<Rightarrow> st_txn \<Rightarrow> bool" where
  "spend_row user i t \<longleftrightarrow> st_id t = i \<and> st_profile t = user \<and> st_kind t = ''spend''"

definition convert_row ::
    "string \<Rightarrow> transfer_rule \<Rightarrow> destination \<Rightarrow> bool \<Rightarrow> string \<Rightarrow> st_db \<times> nat \<Rightarrow> st_db \<times> nat" where
  "convert_row user r d remembered i st =
     (let db = fst st; hit = length (filter (spend_row user i) (st_txns db));
          db1 = db\<lparr>st_txns := map (\<lambda>t. if spend_row user i t
                 then t\<lparr>st_kind := ''transfer'', st_name := selfTransferLabel d\<rparr> else t) (st_txns db)\<rparr> in
      if hit \<noteq> 1 then (db1, snd st)
      else (db1\<lparr>st_obs := map (\<lambda>ob. if ob_profile ob = user \<and> ob_txn ob = Some i
                 then ob\<lparr>ob_metadata := remember r remembered (ob_metadata ob)\<rparr> else ob) (st_obs db1)\<rparr>, snd st + 1))"

definition historical_row ::
    "string \<Rightarrow> transfer_rule \<Rightarrow> destination \<Rightarrow> bool \<Rightarrow> string option \<Rightarrow> st_db \<times> nat \<Rightarrow> st_txn \<times> evidence \<Rightarrow> st_db \<times> nat" where
  "historical_row user r d remembered excluded st row =
     (if given excluded \<and> Some (st_id (fst row)) = excluded then st
      else if passes_over r d (snd row) then st
      else convert_row user r d remembered (st_id (fst row)) st)"

definition applySelfTransferRuleHistorically ::
    "st_db \<Rightarrow> string \<Rightarrow> transfer_rule \<Rightarrow> string option \<Rightarrow> bool \<Rightarrow> string + (st_db \<times> nat)" where
  "applySelfTransferRuleHistorically db user r excluded remembered =
     (if \<not> complete_rule r then Inl ''Invalid self-transfer relationship''
      else Inr (foldl (historical_row user r (the (tr_destination r)) remembered excluded) (db, 0)
             (candidate_rows db user (tr_identity r))))"

section \<open>Confirming a transfer\<close>

text \<open>The evidence of the profile, newest first.\<close>

definition confirm_rows :: "st_db \<Rightarrow> string \<Rightarrow> string \<Rightarrow> destination \<Rightarrow> observation list" where
  "confirm_rows db user txn d = jsort (\<lambda>a b. ob_observed b \<le> ob_observed a)
     (filter (\<lambda>ob. ob_profile ob = user \<and> from_sms ob
        \<and> (ob_txn ob = Some txn \<or> ev_account (ob_metadata ob) = Some (de_account d))) (st_obs db))"

definition confirmSelfTransfer :: "st_db \<Rightarrow> string \<Rightarrow> string \<Rightarrow> destination option \<Rightarrow> string + transfer_rule" where
  "confirmSelfTransfer db user txn dest = (case dest of
     None \<Rightarrow> Inl ''Choose a valid destination bank account''
   | Some d \<Rightarrow>
       if \<not> is_last4 (de_account d) \<or> \<not> is_bank_code (de_bank d) then Inl ''Choose a valid destination bank account''
       else
         let rows = confirm_rows db user txn d;
             source = find (\<lambda>ob. ob_txn ob = Some txn \<and> ev_is_bank (ob_metadata ob) \<and> given (ev_party (ob_metadata ob))) rows;
             target = find (\<lambda>ob. ev_is_bank (ob_metadata ob) \<and> ev_account (ob_metadata ob) = Some (de_account d)
                \<and> senderFamily (ev_sender (ob_metadata ob)) = de_bank d) rows in
         (case Option.bind source (\<lambda>ob. transferIdentity (ev_sender (ob_metadata ob)) (fields_of (ob_metadata ob))) of
            None \<Rightarrow> Inl ''This SMS does not identify a bank-transfer source and recipient''
          | Some i \<Rightarrow>
              if target = None \<or> (sourceAccountLast4 i = de_account d \<and> sourceSender i = de_bank d)
              then Inl ''Choose a different destination bank account from your accounts''
              else Inr \<lparr>tr_identity = i, tr_destination = Some d\<rparr>))"

end
