(* ===== verification/SelfTransferProps.thy ===== *)
theory SelfTransferProps
  imports SelfTransfer
begin

text \<open>
  What \<open>SelfTransfer\<close> guarantees: applying a rule to the past changes exactly the transactions the
  rule identifies and finds nothing to do a second time; the stored rules are a set that saving and
  disabling add to and remove from; a confirmed transfer names two accounts of the person.
\<close>

section \<open>Past transactions\<close>

text \<open>The transactions a rule identifies, without the joins, the order and the updates.\<close>

text \<open>A message that stands for a payment of the relationship, spelled out.\<close>

definition message_identifies :: "transfer_rule \<Rightarrow> evidence \<Rightarrow> bool" where
  "message_identifies r ev \<longleftrightarrow>
     \<not> (ev_locked ev \<and> ev_subtype ev \<noteq> Some ''self_transfer'')
     \<and> ev_account ev = Some (sourceAccountLast4 (tr_identity r)) \<and> is_last4 (sourceAccountLast4 (tr_identity r))
     \<and> senderFamily (ev_sender ev) = sourceSender (tr_identity r)
     \<and> (case ev_party ev of None \<Rightarrow> False
         | Some name \<Rightarrow> name \<noteq> [] \<and> js_lower (one_space (js_trim name)) = party (tr_identity r))
     \<and> (ev_destination ev = None \<or> ev_destination ev = Some []
         \<or> ev_destination ev = Some (de_account (the (tr_destination r))))"

definition rule_identifies :: "st_db \<Rightarrow> string \<Rightarrow> transfer_rule \<Rightarrow> string option \<Rightarrow> st_txn \<Rightarrow> bool" where
  "rule_identifies db user r excluded t \<longleftrightarrow>
     st_profile t = user \<and> st_active t \<and> st_kind t = ''spend'' \<and> st_instrument t = ''upi_bank''
     \<and> \<not> (given excluded \<and> Some (st_id t) = excluded)
     \<and> (\<exists>ob \<in> set (st_obs db). ob_txn ob = Some (st_id t) \<and> ob_profile ob = user \<and> from_sms ob
          \<and> message_identifies r (ob_metadata ob))"

lemma message_identifies_iff: "message_identifies r ev \<longleftrightarrow> \<not> passes_over r (the (tr_destination r)) ev"
proof -
  have acc: "is_last4 (text_or a) \<Longrightarrow> a = Some (text_or a)" for a by (cases a) (auto simp: text_or_def is_last4_def)
  have given: "given v \<longleftrightarrow> v \<noteq> None \<and> v \<noteq> Some []" for v by (cases v) (auto simp: given_def text_or_def)
  show ?thesis
    using acc[of "ev_account ev"]
    by (cases "tr_identity r"; cases "ev_party ev")
      (auto simp: message_identifies_def passes_over_def transferIdentity_def fields_of_def given text_or_def)
qed

definition as_transfer :: "destination \<Rightarrow> st_txn \<Rightarrow> st_txn" where
  "as_transfer d t = t\<lparr>st_kind := ''transfer'', st_name := selfTransferLabel d\<rparr>"

definition converted :: "string \<Rightarrow> destination \<Rightarrow> string set \<Rightarrow> st_txn \<Rightarrow> st_txn" where
  "converted user d S t = (if st_profile t = user \<and> st_kind t = ''spend'' \<and> st_id t \<in> S then as_transfer d t else t)"

lemma transferIdentity_account:
  assumes "transferIdentity sender f = Some i"
  shows "pf_account f = Some (sourceAccountLast4 i)"
  using assms by (cases "pf_account f")
    (auto simp: transferIdentity_def text_or_def is_last4_def split: if_splits)

lemma not_passed_account:
  assumes "\<not> passes_over r d ev"
  shows "ev_account ev = Some (sourceAccountLast4 (tr_identity r))"
  using assms transferIdentity_account[of "ev_sender ev" "fields_of ev" "tr_identity r"]
  by (simp add: passes_over_def fields_of_def)

lemma set_candidate_rows:
  "(t, ev) \<in> set (candidate_rows db user i) \<longleftrightarrow>
     t \<in> set (st_txns db) \<and> st_profile t = user \<and> st_active t \<and> st_kind t = ''spend'' \<and> st_instrument t = ''upi_bank''
     \<and> (\<exists>ob \<in> set (st_obs db). ob_txn ob = Some (st_id t) \<and> ob_profile ob = user \<and> from_sms ob
          \<and> ev_account ev = Some (sourceAccountLast4 i) \<and> ob_metadata ob = ev)"
  by (auto simp: candidate_rows_def)

text \<open>The rows of the joined query that lead to an update.\<close>

definition selected :: "transfer_rule \<Rightarrow> string option \<Rightarrow> st_txn \<times> evidence \<Rightarrow> bool" where
  "selected r excluded row \<longleftrightarrow> \<not> (given excluded \<and> Some (st_id (fst row)) = excluded)
     \<and> \<not> passes_over r (the (tr_destination r)) (snd row)"

lemma rule_identifies_selected:
  assumes "t \<in> set (st_txns db)"
  shows "rule_identifies db user r excluded t \<longleftrightarrow>
    (\<exists>ev. (t, ev) \<in> set (candidate_rows db user (tr_identity r)) \<and> selected r excluded (t, ev))"
proof -
  have "(\<exists>ob \<in> set (st_obs db). P ob \<and> \<not> passes_over r d (ob_metadata ob)) \<longleftrightarrow>
      (\<exists>ev. (\<exists>ob \<in> set (st_obs db). P ob \<and> ev_account ev = Some (sourceAccountLast4 (tr_identity r)) \<and> ob_metadata ob = ev)
        \<and> \<not> passes_over r d ev)" for P d
    using not_passed_account by blast
  from this[of "\<lambda>ob. ob_txn ob = Some (st_id t) \<and> ob_profile ob = user \<and> from_sms ob"] show ?thesis
    using assms by (simp add: rule_identifies_def message_identifies_iff set_candidate_rows selected_def conj_assoc) blast
qed

lemma converted_step:
  "(\<lambda>t. if spend_row user i t then t\<lparr>st_kind := ''transfer'', st_name := selfTransferLabel d\<rparr> else t)
     \<circ> converted user d S = converted user d (insert i S)"
  by (rule ext) (simp add: converted_def as_transfer_def spend_row_def)

lemma spend_row_converted:
  "spend_row user i (converted user d S t) \<longleftrightarrow> spend_row user i t \<and> i \<notin> S"
  by (auto simp: converted_def as_transfer_def spend_row_def)

definition hits :: "string \<Rightarrow> string set \<Rightarrow> st_txn list \<Rightarrow> nat" where
  "hits user S ts = length (filter (\<lambda>t. st_profile t = user \<and> st_kind t = ''spend'' \<and> st_id t \<in> S) ts)"

lemma hits_insert:
  "i \<notin> S \<Longrightarrow> hits user (insert i S) ts = hits user S ts + length (filter (spend_row user i) ts)"
  by (induction ts) (auto simp: hits_def spend_row_def)

lemma spend_row_single:
  "distinct (map st_id ts) \<Longrightarrow> length (filter (spend_row user i) ts) \<le> 1"
proof (induction ts)
  case (Cons t ts)
  have "filter (spend_row user i) ts = []" if same: "st_id t = i"
  proof -
    have "\<not> spend_row user i t'" if other: "t' \<in> set ts" for t'
    proof -
      have "st_id t' \<noteq> st_id t" using Cons.prems other by (simp add: image_iff) metis
      then show ?thesis using same by (auto simp: spend_row_def)
    qed
    then show ?thesis by (simp add: filter_empty_conv)
  qed
  then show ?case using Cons by (cases "spend_row user i t") (auto simp: spend_row_def[of user i t])
qed simp

text \<open>The database after the ids \<open>S\<close> were converted.\<close>

definition done_to :: "st_db \<Rightarrow> string \<Rightarrow> destination \<Rightarrow> string set \<Rightarrow> st_db \<times> nat \<Rightarrow> bool" where
  "done_to db user d S st \<longleftrightarrow>
     st_txns (fst st) = map (converted user d S) (st_txns db) \<and> snd st = hits user S (st_txns db)
     \<and> (\<forall>ob \<in> set (st_obs (fst st)). ob \<in> set (st_obs db) \<or> (\<exists>i \<in> S. ob_txn ob = Some i \<and> ob_profile ob = user))"

lemma done_to_start: "done_to db user d {} (db, 0)"
  by (simp add: done_to_def converted_def[abs_def] hits_def)

lemma done_to_convert:
  assumes "distinct (map st_id (st_txns db))" "done_to db user d S st"
  shows "done_to db user d (insert i S) (convert_row user r d remembered i st)"
proof -
  have ts: "st_txns (fst st) = map (converted user d S) (st_txns db)"
    and n: "snd st = hits user S (st_txns db)"
    and obs: "\<forall>ob \<in> set (st_obs (fst st)). ob \<in> set (st_obs db) \<or> (\<exists>i \<in> S. ob_txn ob = Some i \<and> ob_profile ob = user)"
    using assms(2) by (simp_all add: done_to_def)
  have hit: "length (filter (spend_row user i) (st_txns (fst st))) =
      (if i \<in> S then 0 else length (filter (spend_row user i) (st_txns db)))"
    by (simp add: ts filter_map comp_def spend_row_converted)
  have one: "length (filter (spend_row user i) (st_txns db)) \<le> 1"
    by (rule spend_row_single[OF assms(1)])
  have count: "hits user (insert i S) (st_txns db) =
      hits user S (st_txns db) + length (filter (spend_row user i) (st_txns (fst st)))"
    by (cases "i \<in> S") (simp_all add: hit insert_absorb hits_insert)
  have moved: "map (\<lambda>t. if spend_row user i t then t\<lparr>st_kind := ''transfer'', st_name := selfTransferLabel d\<rparr> else t)
      (st_txns (fst st)) = map (converted user d (insert i S)) (st_txns db)"
    by (simp only: ts map_map converted_step)
  show ?thesis
  proof (cases "length (filter (spend_row user i) (st_txns (fst st))) = 1")
    case True
    show ?thesis
      using obs by (auto simp: done_to_def convert_row_def Let_def True moved n count)
  next
    case False
    then have "length (filter (spend_row user i) (st_txns (fst st))) = 0" using one hit by presburger
    then show ?thesis
      using obs count by (auto simp: done_to_def convert_row_def Let_def False moved n)
  qed
qed

lemma historical_row_selected:
  "historical_row user r (the (tr_destination r)) remembered excluded st row =
     (if selected r excluded row then convert_row user r (the (tr_destination r)) remembered (st_id (fst row)) st else st)"
  by (auto simp: historical_row_def selected_def)

lemma historical_rows:
  assumes "distinct (map st_id (st_txns db))" "done_to db user (the (tr_destination r)) S st"
  shows "done_to db user (the (tr_destination r)) (S \<union> st_id ` fst ` set (filter (selected r excluded) rows))
     (foldl (historical_row user r (the (tr_destination r)) remembered excluded) st rows)"
  using assms(2)
proof (induction rows arbitrary: S st)
  case (Cons row rows)
  show ?case
  proof (cases "selected r excluded row")
    case True
    then show ?thesis
      using Cons.IH[OF done_to_convert[OF assms(1) Cons.prems]] by (simp add: historical_row_selected)
  next
    case False
    then show ?thesis using Cons.IH[OF Cons.prems] by (simp add: historical_row_selected)
  qed
qed simp

lemma historical_skips:
  assumes "\<And>row. row \<in> set rows \<Longrightarrow> \<not> selected r excluded row"
  shows "foldl (historical_row user r (the (tr_destination r)) remembered excluded) st rows = st"
  using assms
  by (induction rows) (simp_all add: historical_row_selected)

text \<open>
  C38: applying a confirmed relationship to the past turns exactly the transactions it identifies into
  transfers, whatever the number of messages behind each and their order: active UPI spends of the
  profile, other than the excluded one, with an SMS message of the same account, sender and party that names no
  other destination account than that of the relationship and is not locked by another classification; every
  other transaction stays as it is. The number returned
  is the number of transactions changed, and a second application finds nothing left to change.
\<close>

theorem historical_rule_once:
  assumes "distinct (map st_id (st_txns db))"
    and "applySelfTransferRuleHistorically db user r excluded remembered = Inr (db', n)"
  shows "st_txns db' = map (\<lambda>t. if rule_identifies db user r excluded t
           then t\<lparr>st_kind := ''transfer'', st_name := selfTransferLabel (the (tr_destination r))\<rparr> else t) (st_txns db)
      \<and> n = length (filter (rule_identifies db user r excluded) (st_txns db))
      \<and> applySelfTransferRuleHistorically db' user r excluded remembered' = Inr (db', 0)"
proof -
  let ?d = "the (tr_destination r)"
  let ?sel = "filter (selected r excluded) (candidate_rows db user (tr_identity r))"
  define S where "S = st_id ` fst ` set ?sel"
  have complete: "complete_rule r"
    and run: "foldl (historical_row user r ?d remembered excluded) (db, 0) (candidate_rows db user (tr_identity r)) = (db', n)"
    using assms(2) by (simp_all add: applySelfTransferRuleHistorically_def split: if_splits)
  have d: "done_to db user ?d S (db', n)"
    using historical_rows[OF assms(1) done_to_start, of user r excluded
        "candidate_rows db user (tr_identity r)" remembered] run
    by (simp add: S_def)
  have S: "st_profile t = user \<and> st_kind t = ''spend'' \<and> st_id t \<in> S \<longleftrightarrow> rule_identifies db user r excluded t"
    if t: "t \<in> set (st_txns db)" for t
  proof
    assume "st_profile t = user \<and> st_kind t = ''spend'' \<and> st_id t \<in> S"
    then obtain t' ev where "(t', ev) \<in> set (candidate_rows db user (tr_identity r))"
        "selected r excluded (t', ev)" "st_id t' = st_id t"
      by (auto simp: S_def)
    moreover from this have "t' = t"
      using t assms(1) by (auto simp: set_candidate_rows distinct_map inj_on_def)
    ultimately show "rule_identifies db user r excluded t" using rule_identifies_selected[OF t] by blast
  next
    assume i: "rule_identifies db user r excluded t"
    then have "st_id t \<in> S" using rule_identifies_selected[OF t] by (force simp: S_def)
    with i show "st_profile t = user \<and> st_kind t = ''spend'' \<and> st_id t \<in> S" by (simp add: rule_identifies_def)
  qed
  have txns: "st_txns db' = map (converted user ?d S) (st_txns db)" using d by (simp add: done_to_def)
  have rest: "\<not> selected r excluded row" if here: "row \<in> set (candidate_rows db' user (tr_identity r))" for row
  proof
    assume sel: "selected r excluded row"
    obtain t ev where row: "row = (t, ev)" by (cases row)
    have t: "t \<in> converted user ?d S ` set (st_txns db)" "st_profile t = user" "st_kind t = ''spend''"
      using that by (simp_all add: row set_candidate_rows txns)
    then obtain x where x: "x \<in> set (st_txns db)" "t = converted user ?d S x" by blast
    have unmoved: "\<not> (st_profile x = user \<and> st_kind x = ''spend'' \<and> st_id x \<in> S)"
    proof
      assume "st_profile x = user \<and> st_kind x = ''spend'' \<and> st_id x \<in> S"
      with x(2) have "st_kind t = ''transfer''" by (simp add: converted_def as_transfer_def)
      with t(3) show False by simp
    qed
    then have "t = x" using x(2) by (simp only: converted_def if_False)
    with unmoved t x have fresh: "st_id t \<notin> S" and old: "t \<in> set (st_txns db)" by simp_all
    obtain ob where ob: "ob \<in> set (st_obs db')" "ob_txn ob = Some (st_id t)" "ob_profile ob = user" "from_sms ob"
        "ev_account ev = Some (sourceAccountLast4 (tr_identity r))" "ob_metadata ob = ev"
      using here unfolding row set_candidate_rows by blast
    have "ob \<in> set (st_obs db)" using d ob(1,2) fresh by (auto simp: done_to_def)
    then have "(t, ev) \<in> set (candidate_rows db user (tr_identity r))"
      using that old ob by (auto simp: row set_candidate_rows)
    then have "st_id t \<in> S" using sel by (force simp: S_def row)
    with fresh show False by simp
  qed
  have "applySelfTransferRuleHistorically db' user r excluded remembered' = Inr (db', 0)"
    using complete historical_skips[OF rest] by (simp add: applySelfTransferRuleHistorically_def)
  moreover have "st_txns db' = map (\<lambda>t. if rule_identifies db user r excluded t
      then t\<lparr>st_kind := ''transfer'', st_name := selfTransferLabel ?d\<rparr> else t) (st_txns db)"
    using S by (simp add: txns converted_def as_transfer_def)
  moreover have "n = length (filter (rule_identifies db user r excluded) (st_txns db))"
    using d S by (simp add: done_to_def hits_def cong: filter_cong)
  ultimately show ?thesis by simp
qed

text \<open>Two messages behind one payment to an own account, and a payment to somebody else.\<close>

definition sample_message :: "string \<Rightarrow> string \<Rightarrow> observation" where
  "sample_message txn to = \<lparr>ob_txn = Some txn, ob_profile = ''u'', ob_source = ''sms'', ob_observed = 5,
     ob_metadata = \<lparr>ev_sender = Some ''AD-HDFCBK-S'', ev_is_bank = True, ev_account = Some ''1234'', ev_party = Some to,
       ev_destination = None, ev_locked = False, ev_subtype = None, ev_rule = None, ev_remembered = None,
       ev_source = None, ev_version = None\<rparr>\<rparr>"

definition sample_upi_payment :: "string \<Rightarrow> st_txn" where
  "sample_upi_payment i = \<lparr>st_id = i, st_profile = ''u'', st_active = True, st_kind = ''spend'', st_instrument = ''upi_bank'',
     st_name = Merchant None, st_occurred = 3\<rparr>"

definition sample_target :: observation where
  "sample_target = \<lparr>ob_txn = None, ob_profile = ''u'', ob_source = ''sms_bulk'', ob_observed = 6,
     ob_metadata = \<lparr>ev_sender = Some ''JM-SLCBNK-S'', ev_is_bank = True, ev_account = Some ''9876'', ev_party = None,
       ev_destination = None, ev_locked = False, ev_subtype = None, ev_rule = None, ev_remembered = None,
       ev_source = None, ev_version = None\<rparr>\<rparr>"

definition sample_transfers :: st_db where
  "sample_transfers = \<lparr>st_rules = Some [], st_txns = [sample_upi_payment ''a'', sample_upi_payment ''b''],
     st_obs = [sample_message ''a'' ''Me  Myself'', sample_message ''b'' ''Shop'', sample_message ''a'' '' me MYSELF'',
       sample_target]\<rparr>"

definition sample_own_rule :: transfer_rule where
  "sample_own_rule = \<lparr>tr_identity = \<lparr>sourceSender = ''hdfc'', sourceAccountLast4 = ''1234'', party = ''me myself''\<rparr>,
     tr_destination = Some \<lparr>de_bank = ''slcbnk'', de_account = ''9876''\<rparr>\<rparr>"

lemma historical_rule_once_witness:
  "case applySelfTransferRuleHistorically sample_transfers ''u'' sample_own_rule None True of
     Inl e \<Rightarrow> False
   | Inr (db', n) \<Rightarrow> n = 1 \<and> map st_kind (st_txns db') = [''transfer'', ''spend'']
       \<and> applySelfTransferRuleHistorically db' ''u'' sample_own_rule None True = Inr (db', 0)"
proof -
  have distinct: "distinct (map st_id (st_txns sample_transfers))" by code_simp
  have txns: "st_txns sample_transfers = [sample_upi_payment ''a'', sample_upi_payment ''b'']" by (simp add: sample_transfers_def)
  have kinds: "st_kind (sample_upi_payment i) = ''spend''" for i by (simp add: sample_upi_payment_def)
  have own: "rule_identifies sample_transfers ''u'' sample_own_rule None (sample_upi_payment ''a'')" by code_simp
  have shop: "\<not> rule_identifies sample_transfers ''u'' sample_own_rule None (sample_upi_payment ''b'')" by code_simp
  have whole: "complete_rule sample_own_rule" by code_simp
  then obtain db' n where run:
      "applySelfTransferRuleHistorically sample_transfers ''u'' sample_own_rule None True = Inr (db', n)"
    unfolding applySelfTransferRuleHistorically_def by (metis surj_pair)
  show ?thesis
    using historical_rule_once[OF distinct run, of True] by (simp add: run txns own shop kinds)
qed

section \<open>Remembered relationships\<close>

definition rule_of :: "stored_rule \<Rightarrow> transfer_rule" where
  "rule_of row = \<lparr>tr_identity = ru_identity row, tr_destination = Some (ru_destination row)\<rparr>"

lemma set_confirmed:
  "st_rules db = Some rows \<Longrightarrow>
    set (confirmedSelfTransferRules db u) = rule_of ` {row \<in> set rows. ru_profile row = u \<and> ru_active row}"
  by (simp add: confirmedSelfTransferRules_def rule_of_def[abs_def])

lemma rule_key_alt: "rule_key user r row \<longleftrightarrow> ru_profile row = user \<and> rule_of row = r"
  by (cases r) (auto simp: rule_key_def rule_of_def)

definition switched :: "string \<Rightarrow> transfer_rule \<Rightarrow> bool \<Rightarrow> stored_rule \<Rightarrow> stored_rule" where
  "switched user r b row = (if rule_key user r row then row\<lparr>ru_active := b, ru_version := ru_version row + 1\<rparr> else row)"

lemma switched_fields [simp]:
  "ru_profile (switched user r b row) = ru_profile row" "rule_of (switched user r b row) = rule_of row"
  "ru_active (switched user r b row) = (if rule_key user r row then b else ru_active row)"
  by (simp_all add: switched_def rule_of_def)

lemma switched_rows:
  "rule_of ` {row \<in> switched user r b ` R. ru_profile row = u \<and> ru_active row} =
     rule_of ` {row \<in> R. ru_profile row = u \<and> (if rule_key user r row then b else ru_active row)}"
  by (rule set_eqI) (auto simp: image_iff)

text \<open>
  The remembered relationships are a set. Saving one adds it and disabling one takes it away, for
  this profile only: rows that are switched off and on again, or saved twice, show as one relationship,
  and transactions and messages are not touched.
\<close>

theorem remembered_rules:
  assumes "complete_rule r"
  shows "(\<forall>db'. saveSelfTransferRule db user r = Inr db' \<longrightarrow>
        set (confirmedSelfTransferRules db' u) = (if u = user then insert r (set (confirmedSelfTransferRules db u))
          else set (confirmedSelfTransferRules db u)) \<and> st_txns db' = st_txns db \<and> st_obs db' = st_obs db)
    \<and> (\<forall>db'. disableSelfTransferRule db user r = Inr db' \<longrightarrow>
        set (confirmedSelfTransferRules db' u) = (if u = user then set (confirmedSelfTransferRules db u) - {r}
          else set (confirmedSelfTransferRules db u)) \<and> st_txns db' = st_txns db \<and> st_obs db' = st_obs db)"
proof (intro conjI allI impI)
  fix db'
  assume run: "saveSelfTransferRule db user r = Inr db'"
  then obtain rows where rows: "st_rules db = Some rows"
    using assms by (auto simp: saveSelfTransferRule_def split: option.splits if_splits)
  show "st_txns db' = st_txns db" "st_obs db' = st_obs db"
    using run assms by (auto simp: saveSelfTransferRule_def rows split: if_splits)
  show "set (confirmedSelfTransferRules db' u) = (if u = user then insert r (set (confirmedSelfTransferRules db u))
      else set (confirmedSelfTransferRules db u))"
  proof (cases "\<exists>row \<in> set rows. rule_key user r row")
    case True
    then have "st_rules db' = Some (map (switched user r True) rows)"
      using run assms by (auto simp: saveSelfTransferRule_def rows switched_def[abs_def] split: if_splits)
    note here = set_confirmed[OF this, of u, unfolded set_map switched_rows]
    show ?thesis using True unfolding here set_confirmed[OF rows] by (auto simp: rule_key_alt)
  next
    case False
    define new where "new = \<lparr>ru_profile = user, ru_identity = tr_identity r,
        ru_destination = the (tr_destination r), ru_active = True, ru_version = 1\<rparr>"
    have new: "rule_of new = r" "ru_profile new = user" "ru_active new"
      using assms by (cases r; auto simp: new_def rule_of_def complete_rule_def)+
    have "st_rules db' = Some (rows @ [new])"
      using run assms False by (auto simp: saveSelfTransferRule_def rows new_def split: if_splits)
    note here = set_confirmed[OF this, of u]
    show ?thesis unfolding here set_confirmed[OF rows] using new by auto
  qed
next
  fix db'
  assume run: "disableSelfTransferRule db user r = Inr db'"
  then obtain rows where rows: "st_rules db = Some rows"
    using assms by (auto simp: disableSelfTransferRule_def split: option.splits)
  have db': "db' = db\<lparr>st_rules := Some (map (switched user r False) rows)\<rparr>"
    using run assms by (simp add: disableSelfTransferRule_def rows switched_def[abs_def])
  then show "st_txns db' = st_txns db" "st_obs db' = st_obs db" by simp_all
  have "st_rules db' = Some (map (switched user r False) rows)" by (simp add: db')
  note here = set_confirmed[OF this, of u, unfolded set_map switched_rows]
  show "set (confirmedSelfTransferRules db' u) = (if u = user then set (confirmedSelfTransferRules db u) - {r}
      else set (confirmedSelfTransferRules db u))"
    unfolding here set_confirmed[OF rows] by (auto simp: rule_key_alt)
qed

lemma remembered_rules_witness:
  "\<exists>db1 db2. saveSelfTransferRule sample_transfers ''u'' sample_own_rule = Inr db1
     \<and> set (confirmedSelfTransferRules db1 ''u'') = {sample_own_rule}
     \<and> disableSelfTransferRule db1 ''u'' sample_own_rule = Inr db2
     \<and> set (confirmedSelfTransferRules db2 ''u'') = {}"
proof -
  have whole: "complete_rule sample_own_rule" by code_simp
  have none: "confirmedSelfTransferRules sample_transfers ''u'' = []"
    by (simp add: confirmedSelfTransferRules_def sample_transfers_def)
  have checks: "column_checks (tr_identity sample_own_rule) (the (tr_destination sample_own_rule))" by code_simp
  then obtain db1 where save: "saveSelfTransferRule sample_transfers ''u'' sample_own_rule = Inr db1"
      and rows: "st_rules db1 \<noteq> None"
    using whole by (simp add: saveSelfTransferRule_def sample_transfers_def)
  then obtain db2 where disable: "disableSelfTransferRule db1 ''u'' sample_own_rule = Inr db2"
    using whole by (auto simp: disableSelfTransferRule_def)
  show ?thesis
    using remembered_rules[OF whole, of sample_transfers "''u''" "''u''"] save none
      remembered_rules[OF whole, of db1 "''u''" "''u''"] disable by simp
qed

section \<open>Confirming a transfer\<close>

text \<open>
  A confirmed transfer rests on the profile's own messages: the source is read from a bank message
  of the transaction itself, the destination is an account some bank message of the profile names under
  the same bank, and the two are not the same account at the same bank.
\<close>

theorem confirmed_between_own_accounts:
  assumes "confirmSelfTransfer db user txn dest = Inr r"
  shows "\<exists>d source target. dest = Some d \<and> tr_destination r = Some d
      \<and> source \<in> set (st_obs db) \<and> target \<in> set (st_obs db)
      \<and> ob_profile source = user \<and> ob_profile target = user \<and> from_sms source \<and> from_sms target
      \<and> ob_txn source = Some txn \<and> ev_is_bank (ob_metadata source) \<and> ev_is_bank (ob_metadata target)
      \<and> ev_account (ob_metadata source) = Some (sourceAccountLast4 (tr_identity r))
      \<and> senderFamily (ev_sender (ob_metadata source)) = sourceSender (tr_identity r)
      \<and> ev_account (ob_metadata target) = Some (de_account d)
      \<and> senderFamily (ev_sender (ob_metadata target)) = de_bank d
      \<and> (sourceSender (tr_identity r), sourceAccountLast4 (tr_identity r)) \<noteq> (de_bank d, de_account d)"
proof -
  obtain d where d: "dest = Some d" using assms by (cases dest) (simp_all add: confirmSelfTransfer_def)
  let ?rows = "confirm_rows db user txn d"
  have rows: "ob \<in> set (st_obs db) \<and> ob_profile ob = user \<and> from_sms ob" if "ob \<in> set ?rows" for ob
    using that by (simp add: confirm_rows_def)
  obtain source i target where
    source: "find (\<lambda>ob. ob_txn ob = Some txn \<and> ev_is_bank (ob_metadata ob) \<and> given (ev_party (ob_metadata ob))) ?rows = Some source"
    and i: "transferIdentity (ev_sender (ob_metadata source)) (fields_of (ob_metadata source)) = Some i"
    and target: "find (\<lambda>ob. ev_is_bank (ob_metadata ob) \<and> ev_account (ob_metadata ob) = Some (de_account d)
        \<and> senderFamily (ev_sender (ob_metadata ob)) = de_bank d) ?rows = Some target"
    and apart: "\<not> (sourceAccountLast4 i = de_account d \<and> sourceSender i = de_bank d)"
    and r: "r = \<lparr>tr_identity = i, tr_destination = Some d\<rparr>"
    using assms by (auto simp: confirmSelfTransfer_def d Let_def bind_eq_Some_conv split: if_splits option.splits)
  have s: "source \<in> set ?rows" "ob_txn source = Some txn" "ev_is_bank (ob_metadata source)"
    using source by (auto simp: find_Some_iff)
  have t: "target \<in> set ?rows" "ev_is_bank (ob_metadata target)" "ev_account (ob_metadata target) = Some (de_account d)"
    "senderFamily (ev_sender (ob_metadata target)) = de_bank d"
    using target by (auto simp: find_Some_iff)
  have "ev_account (ob_metadata source) = Some (sourceAccountLast4 i)"
    using transferIdentity_account[OF i] by (simp add: fields_of_def)
  moreover have "senderFamily (ev_sender (ob_metadata source)) = sourceSender i"
    using i by (auto simp: transferIdentity_def split: if_splits)
  ultimately show ?thesis
    using rows[OF s(1)] rows[OF t(1)] s t apart unfolding d r
    by (intro exI[of _ d] exI[of _ source] exI[of _ target]) auto
qed

lemma confirmed_between_own_accounts_witness:
  "confirmSelfTransfer sample_transfers ''u'' ''a'' (tr_destination sample_own_rule) = Inr sample_own_rule
   \<and> (''hdfc'', ''1234'') \<noteq> (''slcbnk'', ''9876'')"
proof -
  have run: "confirmSelfTransfer sample_transfers ''u'' ''a'' (tr_destination sample_own_rule) = Inr sample_own_rule"
    by code_simp
  show ?thesis using confirmed_between_own_accounts[OF run] run by (auto simp: sample_own_rule_def)
qed

end
