(* ===== verification/SharedCanonical.thy ===== *)
theory SharedCanonical
  imports SharedValidation JsonText
begin

text \<open>
  \<open>api/src/shared_expenses/canonical.js\<close>: the canonical text of a command, which is hashed and
  executed. A value is a \<open>jsval\<close>, a finite JSON tree: what the code refuses because only objects
  in memory can have it (cycles, holes in arrays, accessors, symbols, foreign prototypes, the number
  \<open>-0\<close>, lone surrogates) has no \<open>jsval\<close>. The state of the closure is the number of bytes, the
  number of nodes and the text appended so far.
\<close>

definition MAX_COMMAND_BYTES :: nat where
  "MAX_COMMAND_BYTES = 65536"

text \<open>\<open>Buffer.byteLength(text, 'utf8')\<close>.\<close>

definition utf8_length :: "string \<Rightarrow> nat" where
  "utf8_length s = sum_list (map (\<lambda>c. if code c < 128 then 1 else 2) s)"

type_synonym writer = "nat \<times> nat \<times> string"

definition append_text :: "string \<Rightarrow> writer \<Rightarrow> failure + writer" where
  "append_text t st = (case st of (bytes, nodes, parts) \<Rightarrow>
     if bytes + utf8_length t > MAX_COMMAND_BYTES then Inl (Failure ''PAYLOAD_TOO_LARGE'' ''$'')
     else Inr (bytes + utf8_length t, nodes, parts @ t))"

definition safe_integer :: "jsnum \<Rightarrow> bool" where
  "safe_integer n = (case n of Fin q \<Rightarrow> q = of_int \<lfloor>q\<rfloor> \<and> \<bar>\<lfloor>q\<rfloor>\<bar> \<le> 9007199254740991 | _ \<Rightarrow> False)"

text \<open>The key grammar \<open>^[A-Za-z][A-Za-z0-9_]*$\<close>, at most 128 long.\<close>

definition is_key :: "string \<Rightarrow> bool" where
  "is_key k \<longleftrightarrow> length k \<le> 128 \<and> k \<noteq> [] \<and> is_alpha (hd k) \<and> list_all (\<lambda>c. is_alnum c \<or> c = CHR ''_'') (tl k)"

definition key_le :: "string \<times> jsval \<Rightarrow> string \<times> jsval \<Rightarrow> bool" where
  "key_le p q \<longleftrightarrow> str_le (fst p) (fst q)"

abbreviation not_json :: "failure + 'a" where
  "not_json \<equiv> Inl (Failure ''INVALID_INPUT'' ''$'')"

definition separate :: "nat \<Rightarrow> writer \<Rightarrow> failure + writer" where
  "separate i st = (if i = 0 then Inr st else append_text '','' st)"

definition visit_item :: "(jsval \<Rightarrow> writer \<Rightarrow> failure + writer) \<Rightarrow> writer \<Rightarrow> nat \<Rightarrow> jsval \<Rightarrow> failure + writer" where
  "visit_item f st i x = ebind (separate i st) (f x)"

definition visit_member ::
    "(jsval \<Rightarrow> writer \<Rightarrow> failure + writer) \<Rightarrow> writer \<Rightarrow> nat \<Rightarrow> string \<times> jsval \<Rightarrow> failure + writer" where
  "visit_member f st i p =
     ebind (echeck (is_key (fst p)) (Failure ''INVALID_INPUT'' ''$'')) (\<lambda>_.
     ebind (separate i st) (\<lambda>st.
     ebind (append_text (json_quote (fst p)) st) (\<lambda>st.
     ebind (append_text '':'' st) (f (snd p)))))"

text \<open>\<open>visit(input, depth)\<close>; the first argument is \<open>17 - depth\<close>.\<close>

fun visit :: "nat \<Rightarrow> jsval \<Rightarrow> writer \<Rightarrow> failure + writer" where
  "visit 0 v st = not_json"
| "visit (Suc n) v (bytes, nodes, parts) =
     (if nodes + 1 > 8192 then not_json
      else let st = (bytes, nodes + 1, parts) in
      (case v of
         JUndef \<Rightarrow> not_json
       | JNull \<Rightarrow> append_text ''null'' st
       | JBool b \<Rightarrow> append_text (if b then ''true'' else ''false'') st
       | JNum x \<Rightarrow> if safe_integer x then append_text (json_scalar v) st else not_json
       | JStr s \<Rightarrow> if length s > MAX_COMMAND_BYTES then Inl (Failure ''PAYLOAD_TOO_LARGE'' ''$'')
                  else append_text (json_quote s) st
       | JArr xs \<Rightarrow> if length xs > 1000 then not_json
           else ebind (append_text ''['' st) (\<lambda>st. ebind (efoldi 0 (visit_item (visit n)) st xs) (append_text '']''))
       | JObj m \<Rightarrow> if length m > 128 then not_json
           else ebind (append_text ''{'' st) (\<lambda>st.
                ebind (efoldi 0 (visit_member (visit n)) st (jsort key_le m)) (append_text ''}''))))"

definition canonicalJson :: "jsval \<Rightarrow> failure + string" where
  "canonicalJson v = ebind (visit 17 v (0, 0, [])) (\<lambda>st. Inr (snd (snd st)))"

definition commandHash :: "(string \<Rightarrow> string) \<Rightarrow> jsval \<Rightarrow> failure + string" where
  "commandHash sha256 v = ebind (canonicalJson v) (\<lambda>s. Inr (sha256 s))"

text \<open>\<open>JSON.parse(canonicalJson(value))\<close>: the value with the keys of its objects in order.\<close>

fun by_keys :: "jsval \<Rightarrow> jsval" where
  "by_keys (JArr xs) = JArr (map by_keys xs)"
| "by_keys (JObj m) = JObj (jsort key_le (map (\<lambda>p. (fst p, by_keys (snd p))) m))"
| "by_keys v = v"

section \<open>The text without its limits\<close>

definition member_pair_text :: "(jsval \<Rightarrow> string) \<Rightarrow> string \<times> jsval \<Rightarrow> string" where
  "member_pair_text f p = json_quote (fst p) @ CHR '':'' # f (snd p)"

fun render :: "nat \<Rightarrow> jsval \<Rightarrow> string" where
  "render 0 v = []"
| "render (Suc n) v = (case v of
      JArr xs \<Rightarrow> json_array (map (render n) xs)
    | JObj m \<Rightarrow> ''{'' @ json_join (map (member_pair_text (render n)) (jsort key_le m)) @ ''}''
    | _ \<Rightarrow> json_scalar v)"

text \<open>A value the traversal accepts: what remains of the checks besides the budgets.\<close>

fun plain :: "nat \<Rightarrow> jsval \<Rightarrow> bool" where
  "plain 0 v = False"
| "plain (Suc n) v = (case v of
      JUndef \<Rightarrow> False
    | JNum x \<Rightarrow> safe_integer x
    | JArr xs \<Rightarrow> list_all (plain n) xs
    | JObj m \<Rightarrow> list_all (\<lambda>p. plain n (snd p)) m
    | _ \<Rightarrow> True)"

lemma append_text_Inr:
  "append_text t st = Inr st' \<Longrightarrow> snd (snd st') = snd (snd st) @ t"
  by (cases st) (auto simp: append_text_def split: if_splits)

definition joined :: "nat \<Rightarrow> string list \<Rightarrow> string" where
  "joined i ss = (if i = 0 then json_join ss else concat (map ((#) CHR '','') ss))"

lemma joined_Cons: "joined i (s # ss) = (if i = 0 then [] else '','') @ s @ joined (Suc i) ss"
  by (simp add: joined_def json_join_Cons)

lemma separate_Inr:
  "separate i st = Inr st' \<Longrightarrow> snd (snd st') = snd (snd st) @ (if i = 0 then [] else '','')"
  by (auto simp: separate_def dest!: append_text_Inr split: if_splits)

text \<open>A loop whose body appends the separator and the text of one element appends the joined text.\<close>

lemma fold_joined:
  assumes "efoldi i f st xs = Inr st'"
    and "\<And>st j x st'. x \<in> set xs \<Longrightarrow> f st j x = Inr st' \<Longrightarrow>
      P x \<and> snd (snd st') = snd (snd st) @ (if j = 0 then [] else '','') @ t x"
  shows "(\<forall>x \<in> set xs. P x) \<and> snd (snd st') = snd (snd st) @ joined i (map t xs)"
  using assms
proof (induction xs arbitrary: i st)
  case Nil
  then show ?case by (simp add: joined_def)
next
  case (Cons x xs)
  from Cons.prems(1) obtain mid where mid: "f st i x = Inr mid" and rest: "efoldi (Suc i) f mid xs = Inr st'"
    by (auto elim: ebind_InrE)
  have "P x \<and> snd (snd mid) = snd (snd st) @ (if i = 0 then [] else '','') @ t x"
    by (rule Cons.prems(2)[OF _ mid]) simp
  moreover have "(\<forall>x \<in> set xs. P x) \<and> snd (snd st') = snd (snd mid) @ joined (Suc i) (map t xs)"
    by (rule Cons.IH[OF rest]) (use Cons.prems(2) in auto)
  ultimately show ?case by (simp add: joined_Cons)
qed

lemma visit_render:
  "visit n v st = Inr st' \<Longrightarrow> plain n v \<and> snd (snd st') = snd (snd st) @ render n v"
proof (induction n arbitrary: v st st')
  case (Suc n)
  obtain bytes nodes parts where st: "st = (bytes, nodes, parts)" by (cases st)
  let ?st = "(bytes, nodes + 1, parts)"
  have nodes: "\<not> nodes + 1 > 8192" using Suc.prems by (auto simp: st split: if_splits)
  show ?case
  proof (cases v)
    case (JArr xs)
    then have run: "ebind (append_text ''['' ?st) (\<lambda>st. ebind (efoldi 0 (visit_item (visit n)) st xs) (append_text '']'')) = Inr st'"
      using Suc.prems nodes by (simp add: st split: if_splits)
    then obtain a b where a: "append_text ''['' ?st = Inr a" and b: "efoldi 0 (visit_item (visit n)) a xs = Inr b"
        and c: "append_text '']'' b = Inr st'"
      by (elim ebind_InrE)
    have "(\<forall>x \<in> set xs. plain n x) \<and> snd (snd b) = snd (snd a) @ joined 0 (map (render n) xs)"
      by (rule fold_joined[OF b]) (auto simp: visit_item_def elim!: ebind_InrE dest!: Suc.IH separate_Inr)
    then show ?thesis
      using append_text_Inr[OF a] append_text_Inr[OF c]
      by (simp add: JArr st joined_def json_array_def list_all_iff)
  next
    case (JObj m)
    then have run: "ebind (append_text ''{'' ?st) (\<lambda>st. ebind (efoldi 0 (visit_member (visit n)) st (jsort key_le m)) (append_text ''}'')) = Inr st'"
      using Suc.prems nodes by (simp add: st split: if_splits)
    then obtain a b where a: "append_text ''{'' ?st = Inr a"
        and b: "efoldi 0 (visit_member (visit n)) a (jsort key_le m) = Inr b" and c: "append_text ''}'' b = Inr st'"
      by (elim ebind_InrE)
    have "(\<forall>p \<in> set (jsort key_le m). plain n (snd p))
        \<and> snd (snd b) = snd (snd a) @ joined 0 (map (member_pair_text (render n)) (jsort key_le m))"
      by (rule fold_joined[OF b])
        (auto simp: visit_member_def member_pair_text_def elim!: ebind_InrE dest!: Suc.IH separate_Inr append_text_Inr)
    then show ?thesis
      using append_text_Inr[OF a] append_text_Inr[OF c] by (simp add: JObj st joined_def list_all_iff)
  qed (use Suc.prems nodes in \<open>auto simp: st dest!: append_text_Inr split: if_splits\<close>)
qed simp

end
