(* ===== verification/SharedCommands.thy ===== *)
theory SharedCommands
  imports SharedCanonical SharedDomain Referral
begin

text \<open>
  The commands of the shared expenses: \<open>source_reference.js\<close>, \<open>bill.js\<close> and \<open>commands.js\<close> of
  \<open>api/src/shared_expenses\<close>. A failed check is the failure of \<open>SharedValidation\<close>; an exception the
  code does not throw on purpose (a property of \<open>null\<close>, \<open>entries\<close> of something that is no array,
  \<open>BigInt\<close> of something that is no amount) is \<open>JsTypeError\<close>. SHA-256 and the database client are
  arguments.
\<close>

section \<open>Helpers\<close>

definition own :: "jsval \<Rightarrow> string \<Rightarrow> bool" where
  "own v k = (case v of JObj m \<Rightarrow> k \<in> fst ` set m | _ \<Rightarrow> False)"

text \<open>\<open>Object.hasOwn(value, key)\<close>: of \<open>undefined\<close> and \<open>null\<close> it is a \<open>TypeError\<close>.\<close>

definition has_own :: "jsval \<Rightarrow> string \<Rightarrow> failure + bool" where
  "has_own v k = (if nullish v then Inl JsTypeError else Inr (own v k))"

text \<open>\<open>value.entries()\<close> and \<open>value.map\<close>.\<close>

definition array_entries :: "jsval \<Rightarrow> failure + jsval list" where
  "array_entries v = (case v of JArr xs \<Rightarrow> Inr xs | _ \<Rightarrow> Inl JsTypeError)"

text \<open>\<open>BigInt(value)\<close>, used on amounts that were accepted before.\<close>

definition amount_bigint :: "jsval \<Rightarrow> failure + int" where
  "amount_bigint v = (case v of JStr s \<Rightarrow> if is_decimal s then Inr (int (parse_nat s)) else Inl JsTypeError | _ \<Rightarrow> Inl JsTypeError)"

definition invalid_if :: "bool \<Rightarrow> string \<Rightarrow> failure + unit" where
  "invalid_if bad field = echeck (\<not> bad) (Failure ''INVALID_INPUT'' field)"

text \<open>\<open>v.matches(pattern, value)\<close>.\<close>

definition matches :: "(string \<Rightarrow> bool) \<Rightarrow> jsval \<Rightarrow> bool" where
  "matches p v = (case v of JStr s \<Rightarrow> p s | _ \<Rightarrow> False)"

definition lower_uuid :: "string \<Rightarrow> bool" where
  "lower_uuid s \<longleftrightarrow> length s = 36 \<and>
     list_all (\<lambda>i. if i \<in> {8, 13, 18, 23} then s ! i = CHR ''-'' else is_hex_lower (s ! i)) [0..<36]"

definition hex64 :: "string \<Rightarrow> bool" where
  "hex64 s \<longleftrightarrow> length s = 64 \<and> list_all is_hex_lower s"

text \<open>The grammar \<open>^[A-Za-z0-9][A-Za-z0-9:._-]*$\<close>, at most 128 long.\<close>

definition is_token :: "string \<Rightarrow> bool" where
  "is_token s \<longleftrightarrow> length s \<le> 128 \<and> s \<noteq> [] \<and> is_alnum (hd s) \<and> list_all (\<lambda>c. is_alnum c \<or> c \<in> set '':._-'') (tl s)"

definition check_uuid :: "jsval \<Rightarrow> string \<Rightarrow> failure + unit" where
  "check_uuid v field = echeck (matches lower_uuid v) (Failure ''INVALID_INPUT'' field)"

definition check_text :: "jsval \<Rightarrow> string \<Rightarrow> nat \<Rightarrow> failure + unit" where
  "check_text v field mx = echeck (matches (\<lambda>s. js_trim s \<noteq> [] \<and> length s \<le> mx
       \<and> list_all (\<lambda>c. 32 \<le> code c \<and> code c \<noteq> 127) s) v) (Failure ''INVALID_INPUT'' field)"

text \<open>A date the calendar has: printing the parsed day gives the text back.\<close>

definition is_day :: "string \<Rightarrow> bool" where
  "is_day s \<longleftrightarrow> take 4 s \<noteq> ''0000'' \<and> (case parse_day s of None \<Rightarrow> False | Some d \<Rightarrow> iso_day d = s)"

definition check_day :: "jsval \<Rightarrow> string \<Rightarrow> failure + unit" where
  "check_day v field = echeck (matches is_day v) (Failure ''INVALID_INPUT'' field)"

definition requireEnum :: "jsval \<Rightarrow> string list \<Rightarrow> string \<Rightarrow> failure + unit" where
  "requireEnum v choices field = echeck (matches (\<lambda>s. s \<in> set choices) v) (Failure ''INVALID_INPUT'' field)"

definition is_bool :: "jsval \<Rightarrow> bool" where
  "is_bool v = (case v of JBool _ \<Rightarrow> True | _ \<Rightarrow> False)"

section \<open>Source references\<close>

abbreviation "SOURCE_ERROR \<equiv> ''INVALID_SOURCE_REFERENCE''"

definition token :: "jsval \<Rightarrow> string \<Rightarrow> (string \<Rightarrow> bool) \<Rightarrow> failure + unit" where
  "token v field p = echeck (matches p v) (Failure SOURCE_ERROR field)"

definition check_token :: "jsval \<Rightarrow> string \<Rightarrow> (string \<Rightarrow> bool) \<Rightarrow> failure + unit" where
  "check_token v key p = ebind (has_own v key) (\<lambda>b. if b then ebind (get v key) (\<lambda>x. token x key p) else Inr ())"

text \<open>\<open>Object.hasOwn(v, 'localProjectionId') && v.localProjectionId !== `v2:${v.eventId}`\<close>.\<close>

definition check_projection :: "jsval \<Rightarrow> failure + unit" where
  "check_projection v = ebind (has_own v ''localProjectionId'') (\<lambda>b. if \<not> b then Inr () else
     ebind (get v ''localProjectionId'') (\<lambda>local. ebind (get v ''eventId'') (\<lambda>event.
     echeck (local = JStr (''v2:'' @ str_of event)) (Failure SOURCE_ERROR ''localProjectionId''))))"

definition reference_keys :: "jsval \<Rightarrow> failure + (string list \<times> string list)" where
  "reference_keys kind =
     (if kind = JStr ''legacy_transaction''
      then Inr ([''kind'', ''ownerAccountId'', ''canonicalTransactionId'', ''sourceVersion''], [''sourceKey''])
      else if kind = JStr ''sms_v2_event''
      then Inr ([''kind'', ''ownerAccountId'', ''eventId''],
        [''localProjectionId'', ''canonicalTransactionId'', ''sourceVersion'', ''sourceKey''])
      else if kind = JStr ''confirmed_foreign_payment''
      then Inr ([''kind'', ''ownerAccountId'', ''foreignPaymentId'', ''canonicalTransactionId'', ''sourceVersion''], [''sourceKey''])
      else Inl (Failure SOURCE_ERROR ''kind''))"

definition parseSharedExpenseSourceReference :: "jsval \<Rightarrow> failure + jsval" where
  "parseSharedExpenseSourceReference v =
     ebind (v_record v [''kind'', ''ownerAccountId''] ''$'' SOURCE_ERROR
       [''canonicalTransactionId'', ''sourceVersion'', ''sourceKey'', ''eventId'', ''localProjectionId'', ''foreignPaymentId'']) (\<lambda>_.
     ebind (get v ''kind'') (\<lambda>kind.
     ebind (reference_keys kind) (\<lambda>(required, optional).
     ebind (v_record v required ''$'' SOURCE_ERROR optional) (\<lambda>_.
     ebind (efold (\<lambda>_ key. check_token v key lower_uuid) () [''ownerAccountId'', ''canonicalTransactionId'', ''foreignPaymentId'']) (\<lambda>_.
     ebind (efold (\<lambda>_ key. check_token v key is_token) () [''sourceVersion'', ''sourceKey'']) (\<lambda>_.
     if kind = JStr ''sms_v2_event'' then
       ebind (ebind (get v ''eventId'') (\<lambda>x. token x ''eventId'' hex64)) (\<lambda>_.
       ebind (check_projection v) (\<lambda>_.
       ebind (has_own v ''canonicalTransactionId'') (\<lambda>transaction. ebind (has_own v ''sourceVersion'') (\<lambda>version.
       ebind (echeck (transaction = version) (Failure SOURCE_ERROR ''canonicalTransactionId'')) (\<lambda>_. Inr v)))))
     else Inr v))))))"

definition canonicalLegacySplitTarget :: "jsval \<Rightarrow> failure + jsval" where
  "canonicalLegacySplitTarget v = ebind (parseSharedExpenseSourceReference v) (\<lambda>r.
     ebind (get r ''canonicalTransactionId'') (\<lambda>t. Inr (if nullish t then JNull else t)))"

section \<open>Bills\<close>

definition bill_row :: "(string \<times> int) list \<Rightarrow> nat \<Rightarrow> jsval \<Rightarrow> failure + (string \<times> int) list" where
  "bill_row full index row =
     (let field = at_index ''payload.bill.contributions'' index in
      ebind (v_record0 row [''memberId'', ''amountMinor''] field) (\<lambda>_.
      ebind (get row ''memberId'') (\<lambda>mid.
      ebind (echeck (matches lower_uuid mid) (Failure ''INVALID_MEMBER_ID'' (at_key field ''memberId''))) (\<lambda>_.
      ebind (echeck (str_of mid \<notin> fst ` set full) (Failure ''DUPLICATE_MEMBER'' (at_key field ''memberId''))) (\<lambda>_.
      ebind (ebind (get row ''amountMinor'') (\<lambda>x. v_amount0 x (at_key field ''amountMinor'') True)) (\<lambda>n.
      Inr (mset_put (str_of mid) n full)))))))"

definition covered :: "(string \<times> int) list \<Rightarrow> unit \<Rightarrow> jsval \<Rightarrow> failure + unit" where
  "covered full u row =
     ebind (get row ''memberId'') (\<lambda>mid. ebind (get row ''amountMinor'') (\<lambda>a. ebind (amount_bigint a) (\<lambda>n.
     echeck (\<not> mget full (str_of mid) 0 < n) (Failure ''BILL_CONTRIBUTION_MISMATCH'' ''payload.bill.contributions''))))"

definition share_entry :: "(jsval \<times> jsval) list \<Rightarrow> jsval \<Rightarrow> failure + (jsval \<times> jsval) list" where
  "share_entry actual row =
     ebind (get row ''memberId'') (\<lambda>mid. ebind (get row ''amountMinor'') (\<lambda>a. Inr (mset_put mid a actual)))"

definition obj_members :: "jsval \<Rightarrow> (string \<times> jsval) list" where
  "obj_members v = (case v of JObj m \<Rightarrow> m | _ \<Rightarrow> [])"

definition bill_expense :: "jsval \<Rightarrow> jsval \<Rightarrow> jsval" where
  "bill_expense tot alloc = JObj ([(''currency'', JStr ''INR''), (''totalMinor'', tot)] @ obj_members alloc)"

definition same_shares :: "allocation list \<Rightarrow> (jsval \<times> jsval) list \<Rightarrow> bool" where
  "same_shares allocs actual \<longleftrightarrow> length allocs = length actual
     \<and> list_all (\<lambda>a. map_of actual (JStr (al_memberId a)) = Some (JStr (al_amountMinor a))) allocs"

definition validateBill :: "jsval \<Rightarrow> jsval \<Rightarrow> failure + unit" where
  "validateBill bill snapshot =
     ebind (v_record0 bill [''currency'', ''totalMinor'', ''contributions'', ''allocation''] ''payload.bill'') (\<lambda>_.
     ebind (ebind (get bill ''currency'') v_currency) (\<lambda>_.
     ebind (ebind (get bill ''totalMinor'') (\<lambda>x. v_amount0 x ''payload.bill.totalMinor'' True)) (\<lambda>total.
     ebind (ebind (get snapshot ''totalMinor'') amount_bigint) (\<lambda>linked.
     ebind (echeck (\<not> total < linked) (Failure ''BILL_TOTAL_MISMATCH'' ''payload.bill.totalMinor'')) (\<lambda>_.
     ebind (ebind (get bill ''contributions'') (\<lambda>x. v_count x 8 ''INVALID_PAYER_COUNT'' ''payload.bill.contributions'')) (\<lambda>rows.
     ebind (efoldi 0 bill_row [] rows) (\<lambda>full.
     ebind (echeck (sum_list (map snd full) = total) (Failure ''BILL_TOTAL_MISMATCH'' ''payload.bill.contributions'')) (\<lambda>_.
     ebind (ebind (get snapshot ''contributions'') array_entries) (\<lambda>paid.
     ebind (efold (covered full) () paid) (\<lambda>_.
     ebind (ebind (get bill ''allocation'') (\<lambda>x. v_record0 x [''mode'', ''participants'', ''tieOrder''] ''payload.bill.allocation'')) (\<lambda>_.
     ebind (get snapshot ''totalMinor'') (\<lambda>total. ebind (get bill ''allocation'') (\<lambda>allocation.
     ebind (allocateExpense (bill_expense total allocation)) (\<lambda>result.
     ebind (ebind (get snapshot ''shares'') array_entries) (\<lambda>shares.
     ebind (efold share_entry [] shares) (\<lambda>actual.
     echeck (same_shares (ar_allocations result) actual)
       (Failure ''BILL_ALLOCATION_MISMATCH'' ''payload.bill.allocation'')))))))))))))))))"

section \<open>Commands\<close>

definition uuid_rows :: "jsval \<Rightarrow> string \<Rightarrow> failure + unit" where
  "uuid_rows snapshot key =
     ebind (ebind (get snapshot key) array_entries) (\<lambda>rows.
     efoldi 0 (\<lambda>_ i row. ebind (get row ''memberId'') (\<lambda>mid.
       check_uuid mid (at_key (at_index (''payload.snapshot.'' @ key) i) ''memberId''))) () rows)"

definition validateSnapshot :: "jsval \<Rightarrow> failure + unit" where
  "validateSnapshot snapshot =
     ebind (projectExpense snapshot) (\<lambda>_.
     ebind (uuid_rows snapshot ''contributions'') (\<lambda>_.
     ebind (uuid_rows snapshot ''shares'') (\<lambda>_.
     ebind (ebind (get snapshot ''memberOrder'') array_entries) (\<lambda>ids.
     efoldi 0 (\<lambda>_ i v. check_uuid v (at_index ''payload.snapshot.memberOrder'' i)) () ids))))"

definition paid_entry :: "(jsval \<times> int) list \<Rightarrow> jsval \<Rightarrow> failure + (jsval \<times> int) list" where
  "paid_entry paid row =
     ebind (get row ''memberId'') (\<lambda>mid. ebind (get row ''amountMinor'') (\<lambda>a. ebind (amount_bigint a) (\<lambda>n.
     Inr (mset_put mid n paid))))"

text \<open>\<open>p.snapshot?.contributions ?? []\<close> as a map.\<close>

definition paid_map :: "jsval \<Rightarrow> failure + (jsval \<times> int) list" where
  "paid_map snapshot =
     ebind (if nullish snapshot then Inr JUndef else get snapshot ''contributions'') (\<lambda>rows.
     if nullish rows then Inr [] else ebind (array_entries rows) (efold paid_entry []))"

definition source_row :: "(jsval \<times> int) list \<Rightarrow> (jsval \<times> int) list \<Rightarrow> nat \<Rightarrow> jsval \<Rightarrow> failure + (jsval \<times> int) list" where
  "source_row paid sources i row =
     (let path = at_index ''payload.sources'' i in
      ebind (v_record0 row [''payerMemberId'', ''amountMinor'', ''reference''] path) (\<lambda>_.
      ebind (get row ''payerMemberId'') (\<lambda>payer.
      ebind (check_uuid payer (at_key path ''payerMemberId'')) (\<lambda>_.
      ebind (ebind (get row ''amountMinor'') (\<lambda>x. v_amount0 x (at_key path ''amountMinor'') True)) (\<lambda>n.
      ebind (get row ''reference'') (\<lambda>ref.
      ebind (parseSharedExpenseSourceReference ref) (\<lambda>_.
      ebind (get ref ''sourceVersion'') (\<lambda>version.
      ebind (echeck (version = JUndef \<or> matches hex64 version)
        (Failure SOURCE_ERROR (at_key (at_key path ''reference'') ''sourceVersion''))) (\<lambda>_.
      let sources' = mset_put payer (mget sources payer 0 + n) sources in
      ebind (echeck (payer \<in> fst ` set paid \<and> mget sources' payer 0 \<le> mget paid payer 0) (Failure ''SOURCE_OVERALLOCATED'' path)) (\<lambda>_.
      Inr sources'))))))))))"

text \<open>The second half of a proposal: the bill and the sources.\<close>

definition proposal_details :: "jsval \<Rightarrow> bool \<Rightarrow> jsval \<Rightarrow> failure + unit" where
  "proposal_details p voided snapshot =
      ebind (ebind (has_own p ''bill'') (\<lambda>billed. if billed
             then ebind (invalid_if voided ''payload.bill'') (\<lambda>_. ebind (get p ''bill'') (\<lambda>bill. validateBill bill snapshot))
             else Inr ())) (\<lambda>_.
      ebind (ebind (get p ''sources'') (\<lambda>sources. case sources of
          JArr rows \<Rightarrow> ebind (invalid_if (length rows > 8 \<or> (voided \<and> rows \<noteq> [])) ''payload.sources'') (\<lambda>_. Inr rows)
        | _ \<Rightarrow> Inl (Failure ''INVALID_INPUT'' ''payload.sources''))) (\<lambda>rows.
      ebind (paid_map snapshot) (\<lambda>paid.
      ebind (efoldi 0 (source_row paid) [] rows) (\<lambda>_. Inr ()))))"

definition proposal :: "jsval \<Rightarrow> failure + unit" where
  "proposal p =
      ebind (v_record p [''contextId'', ''expenseId'', ''revisionId'', ''expectedHeadRevisionId'', ''snapshot'', ''title'',
        ''occurredOn'', ''sources'', ''void''] ''payload'' ''INVALID_INPUT'' [''bill'']) (\<lambda>_.
      ebind (ebind (get p ''expenseId'') (\<lambda>x. check_uuid x ''payload.expenseId'')) (\<lambda>_.
      ebind (ebind (get p ''revisionId'') (\<lambda>x. check_uuid x ''payload.revisionId'')) (\<lambda>_.
      ebind (ebind (get p ''expectedHeadRevisionId'') (\<lambda>x. if x = JNull then Inr ()
             else check_uuid x ''payload.expectedHeadRevisionId'')) (\<lambda>_.
      ebind (ebind (get p ''title'') (\<lambda>x. check_text x ''payload.title'' 200)) (\<lambda>_.
      ebind (ebind (get p ''occurredOn'') (\<lambda>x. check_day x ''payload.occurredOn'')) (\<lambda>_.
      ebind (get p ''void'') (\<lambda>void. ebind (get p ''snapshot'') (\<lambda>snapshot.
      let voided = (void = JBool True) in
      ebind (invalid_if (\<not> is_bool void \<or> (if voided then snapshot \<noteq> JNull else snapshot = JNull)) ''payload.snapshot'') (\<lambda>_.
      ebind (if voided then Inr () else validateSnapshot snapshot) (\<lambda>_.
      proposal_details p voided snapshot))))))))))"

definition settlement_report :: "jsval \<Rightarrow> failure + unit" where
  "settlement_report p =
     ebind (v_record p [''contextId'', ''settlementId'', ''payerMemberId'', ''receiverMemberId'', ''amountMinor'', ''currency'',
       ''method'', ''paidOn''] ''payload'' ''INVALID_INPUT'' [''reference'']) (\<lambda>_.
     ebind (efold (\<lambda>_ key. ebind (get p key) (\<lambda>x. check_uuid x (''payload.'' @ key))) ()
       [''settlementId'', ''payerMemberId'', ''receiverMemberId'']) (\<lambda>_.
     ebind (get p ''payerMemberId'') (\<lambda>payer. ebind (get p ''receiverMemberId'') (\<lambda>receiver.
     ebind (echeck (payer \<noteq> receiver) (Failure ''INVALID_SETTLEMENT'' ''payload.receiverMemberId'')) (\<lambda>_.
     ebind (ebind (get p ''amountMinor'') (\<lambda>x. v_amount0 x ''payload.amountMinor'' True)) (\<lambda>_.
     ebind (ebind (get p ''currency'') v_currency) (\<lambda>_.
     ebind (ebind (get p ''method'') (\<lambda>x. requireEnum x [''upi'', ''cash'', ''bank''] ''payload.method'')) (\<lambda>_.
     ebind (ebind (get p ''paidOn'') (\<lambda>x. check_day x ''payload.paidOn'')) (\<lambda>_.
     ebind (has_own p ''reference'') (\<lambda>given.
     if given then ebind (get p ''reference'') (\<lambda>x. invalid_if (\<not> matches is_token x) ''payload.reference'') else Inr ()))))))))))"

definition payload_check :: "jsval \<Rightarrow> jsval \<Rightarrow> failure + unit" where
  "payload_check kind p =
     (let uuid_at = (\<lambda>key. ebind (get p key) (\<lambda>x. check_uuid x (''payload.'' @ key))) in
      if kind = JStr ''context.create'' then
        ebind (v_record0 p [''contextId'', ''contextKind'', ''name''] ''payload'') (\<lambda>_.
        ebind (ebind (get p ''contextKind'') (\<lambda>x. requireEnum x [''group'', ''direct''] ''payload.contextKind'')) (\<lambda>_.
        ebind (get p ''name'') (\<lambda>x. check_text x ''payload.name'' 120)))
      else if kind = JStr ''membership.respond'' then
        ebind (v_record0 p [''contextId'', ''memberId'', ''accept''] ''payload'') (\<lambda>_.
        ebind (uuid_at ''memberId'') (\<lambda>_.
        ebind (get p ''accept'') (\<lambda>x. invalid_if (\<not> is_bool x) ''payload.accept'')))
      else if kind = JStr ''member.invite'' then
        ebind (v_record p [''contextId'', ''memberId'', ''displayName''] ''payload'' ''INVALID_INPUT'' [''profileId'']) (\<lambda>_.
        ebind (uuid_at ''memberId'') (\<lambda>_.
        ebind (ebind (get p ''displayName'') (\<lambda>x. check_text x ''payload.displayName'' 120)) (\<lambda>_.
        ebind (has_own p ''profileId'') (\<lambda>given. if given then uuid_at ''profileId'' else Inr ()))))
      else if kind = JStr ''expense.propose'' then proposal p
      else if kind = JStr ''expense.respond'' then
        ebind (v_record0 p [''contextId'', ''expenseId'', ''revisionId'', ''decision''] ''payload'') (\<lambda>_.
        ebind (uuid_at ''expenseId'') (\<lambda>_.
        ebind (uuid_at ''revisionId'') (\<lambda>_.
        ebind (get p ''decision'') (\<lambda>x. requireEnum x [''approve'', ''reject''] ''payload.decision''))))
      else if kind = JStr ''settlement.report'' then settlement_report p
      else if kind = JStr ''settlement.respond'' then
        ebind (v_record0 p [''contextId'', ''settlementId'', ''decision''] ''payload'') (\<lambda>_.
        ebind (uuid_at ''settlementId'') (\<lambda>_.
        ebind (get p ''decision'') (\<lambda>x. requireEnum x [''confirm'', ''reject''] ''payload.decision'')))
      else Inl (Failure ''INVALID_COMMAND'' ''kind''))"

definition validateCommand :: "(string \<Rightarrow> string) \<Rightarrow> jsval \<Rightarrow> failure + (jsval \<times> string)" where
  "validateCommand sha256 v =
     ebind (canonicalJson v) (\<lambda>_.
     let command = by_keys v in
     ebind (v_record0 command [''schemaVersion'', ''operationId'', ''kind'', ''payload''] ''$'') (\<lambda>_.
     ebind (ebind (get command ''schemaVersion'') (\<lambda>x. invalid_if (x \<noteq> JNum (Fin 1)) ''schemaVersion'')) (\<lambda>_.
     ebind (ebind (get command ''operationId'') (\<lambda>x. check_uuid x ''operationId'')) (\<lambda>_.
     ebind (get command ''payload'') (\<lambda>p.
     ebind (v_record p [''contextId''] ''payload'' ''INVALID_INPUT'' (map fst (obj_members p))) (\<lambda>_.
     ebind (ebind (get p ''contextId'') (\<lambda>x. check_uuid x ''payload.contextId'')) (\<lambda>_.
     ebind (get command ''kind'') (\<lambda>kind.
     ebind (payload_check kind p) (\<lambda>_.
     ebind (commandHash sha256 command) (\<lambda>h. Inr (command, h)))))))))))"

text \<open>The database function called and its parameters, one for each kind.\<close>

definition command_query :: "jsval \<Rightarrow> string \<Rightarrow> string \<times> jsval list" where
  "command_query command h =
     (let p = jprop command ''payload''; kind = jprop command ''kind''; ids = [jprop command ''operationId'', JStr h] in
      if kind = JStr ''context.create'' then
        (''create_context'', [jprop p ''contextId'', jprop p ''contextKind'', jprop p ''name''] @ ids)
      else if kind = JStr ''membership.respond'' then
        (''respond_membership'', [jprop p ''contextId'', jprop p ''memberId'', jprop p ''accept''] @ ids)
      else
        (if kind = JStr ''member.invite'' then ''invite_member''
         else if kind = JStr ''expense.propose'' then ''submit_proposal''
         else if kind = JStr ''expense.respond'' then ''respond_expense''
         else if kind = JStr ''settlement.report'' then ''report_settlement''
         else if kind = JStr ''settlement.respond'' then ''respond_settlement'' else ''undefined'',
         JStr (render 17 p) # ids))"

datatype 'e command_error = Refused failure | ClientError 'e | ResultInvalid

record command_result =
  cr_operationId :: jsval
  cr_kind :: jsval
  cr_requestHash :: string
  cr_contextId :: jsval
  cr_result :: jsval

definition is_object :: "jsval \<Rightarrow> bool" where
  "is_object v = (case v of JObj _ \<Rightarrow> True | JArr _ \<Rightarrow> True | _ \<Rightarrow> False)"

definition executeCommand ::
    "(string \<Rightarrow> string) \<Rightarrow> (string \<Rightarrow> jsval list \<Rightarrow> 'e + jsval list) \<Rightarrow> jsval \<Rightarrow> 'e command_error + command_result" where
  "executeCommand sha256 client v = (case validateCommand sha256 v of
     Inl e \<Rightarrow> Inl (Refused e)
   | Inr (command, h) \<Rightarrow> (case command_query command h of (function, params) \<Rightarrow>
       (case client function params of
          Inl e \<Rightarrow> Inl (ClientError e)
        | Inr rows \<Rightarrow>
            if rows = [] \<or> \<not> is_object (jprop (hd rows) ''result'') then Inl ResultInvalid
            else Inr \<lparr>cr_operationId = jprop command ''operationId'', cr_kind = jprop command ''kind'', cr_requestHash = h,
              cr_contextId = jprop (jprop command ''payload'') ''contextId'', cr_result = jprop (hd rows) ''result''\<rparr>)))"

section \<open>Source identities\<close>

definition validateSourceIdentity :: "jsval \<Rightarrow> failure + jsval" where
  "validateSourceIdentity v =
     ebind (canonicalJson v) (\<lambda>_.
     let i = by_keys v; uuid_at = (\<lambda>key. ebind (get i key) (\<lambda>x. check_uuid x key)) in
     ebind (v_record i [''kind'', ''ownerAccountId''] ''$'' SOURCE_ERROR
       [''canonicalTransactionId'', ''eventId'', ''foreignPaymentId'', ''localProjectionId'']) (\<lambda>_.
     ebind (uuid_at ''ownerAccountId'') (\<lambda>_.
     ebind (get i ''kind'') (\<lambda>kind.
     ebind (if kind = JStr ''legacy_transaction'' then
         ebind (v_record i [''kind'', ''ownerAccountId'', ''canonicalTransactionId''] ''$'' SOURCE_ERROR []) (\<lambda>_.
         uuid_at ''canonicalTransactionId'')
       else if kind = JStr ''sms_v2_event'' then
         ebind (v_record i [''kind'', ''ownerAccountId'', ''eventId''] ''$'' SOURCE_ERROR
           [''canonicalTransactionId'', ''localProjectionId'']) (\<lambda>_.
         ebind (ebind (get i ''eventId'') (\<lambda>x. token x ''eventId'' hex64)) (\<lambda>_.
         ebind (ebind (has_own i ''canonicalTransactionId'') (\<lambda>given. if given
                then uuid_at ''canonicalTransactionId'' else Inr ())) (\<lambda>_.
         check_projection i)))
       else if kind = JStr ''confirmed_foreign_payment'' then
         ebind (v_record i [''kind'', ''ownerAccountId'', ''foreignPaymentId'', ''canonicalTransactionId''] ''$'' SOURCE_ERROR []) (\<lambda>_.
         ebind (uuid_at ''foreignPaymentId'') (\<lambda>_.
         uuid_at ''canonicalTransactionId''))
       else Inl (Failure SOURCE_ERROR ''kind'')) (\<lambda>_. Inr i)))))"

end
