(* ===== verification/SharedCanonicalProps.thy ===== *)
theory SharedCanonicalProps
  imports SharedCanonical
begin

text \<open>
  The canonical text of \<open>SharedCanonical\<close> identifies the value: two accepted values have the same text
  exactly when they are the same up to the order of their keys.
\<close>

section \<open>Reading rendered text back\<close>

definition number_char :: "char \<Rightarrow> bool" where
  "number_char c \<longleftrightarrow> is_digit c \<or> c = CHR ''-''"

text \<open>Text after a value: it does not continue a number.\<close>

definition stops :: "string \<Rightarrow> bool" where
  "stops r \<longleftrightarrow> (case r of [] \<Rightarrow> True | c # _ \<Rightarrow> \<not> number_char c)"

lemma stops_simps [simp]:
  "stops []" "stops (CHR '','' # r)" "stops (CHR '']'' # r)" "stops (CHR ''}'' # r)"
  by (simp_all add: stops_def number_char_def is_digit_def)

lemma number_chars: "\<forall>c \<in> set (dec_int z). number_char c"
  using dec_digits_all by (auto simp: dec_int_def number_char_def)

lemma dec_int_prefix:
  assumes "dec_int a @ r = dec_int b @ r'" "stops r" "stops r'"
  shows "a = b \<and> r = r'"
proof -
  have "takeWhile number_char (dec_int z @ s) = dec_int z" if "stops s" for z s
    using that number_chars[of z] by (simp add: takeWhile_append2 stops_def split: list.splits)
  then have "dec_int a = dec_int b" using assms by metis
  then show ?thesis using assms(1) dec_int_inj by auto
qed

text \<open>The first character tells the kind of the value.\<close>

definition lead :: "char \<Rightarrow> nat" where
  "lead c = (if number_char c then 0 else code c)"

fun tag :: "jsval \<Rightarrow> nat" where
  "tag JUndef = 1"
| "tag JNull = 110"
| "tag (JBool b) = (if b then 116 else 102)"
| "tag (JNum _) = 0"
| "tag (JStr _) = 34"
| "tag (JArr _) = 91"
| "tag (JObj _) = 123"

lemma dec_int_ne: "dec_int z \<noteq> []"
  by (simp add: dec_int_def)

lemma render_lead:
  assumes "plain n v"
  shows "render n v \<noteq> [] \<and> lead (hd (render n v)) = tag v"
proof (cases n)
  case 0
  then show ?thesis using assms by simp
next
  case (Suc k)
  show ?thesis
  proof (cases v)
    case (JNum x)
    then obtain q where q: "x = Fin q" using assms Suc by (auto simp: safe_integer_def split: jsnum.splits)
    have "number_char (hd (dec_int \<lfloor>q\<rfloor>))"
      using number_chars dec_int_ne by (metis list.set_sel(1))
    then show ?thesis by (simp add: Suc JNum q dec_int_ne lead_def)
  qed (use assms Suc in \<open>simp_all add: json_quote_def quote_char json_array_def lead_def number_char_def is_digit_def\<close>)
qed

lemma plain_no_closing:
  "plain n v \<Longrightarrow> render n v @ r \<noteq> CHR '']'' # r'"
proof
  assume "plain n v" "render n v @ r = CHR '']'' # r'"
  then have "tag v = 93" using render_lead[of n v] by (cases "render n v") (auto simp: lead_def number_char_def is_digit_def)
  then show False by (cases v) (auto split: if_splits)
qed

text \<open>If the elements of two lists can be told apart, so can their joined texts.\<close>

lemma tails_prefix:
  assumes "concat (map (\<lambda>x. CHR '','' # f x) xs) @ e # r = concat (map (\<lambda>y. CHR '','' # f y) ys) @ e # r'"
    and "e = CHR '']'' \<or> e = CHR ''}''"
    and "\<And>x y s s'. x \<in> set xs \<Longrightarrow> y \<in> set ys \<Longrightarrow> f x @ s = f y @ s' \<Longrightarrow> stops s \<Longrightarrow> stops s' \<Longrightarrow> k x = k y \<and> s = s'"
  shows "map k xs = map k ys \<and> r = r'"
  using assms(1,3)
proof (induction xs arbitrary: ys)
  case Nil
  then show ?case using assms(2) by (cases ys) auto
next
  case (Cons x xs)
  have after: "stops (concat (map (\<lambda>x. CHR '','' # f x) zs) @ e # s)" for zs s
    using assms(2) by (cases zs) auto
  show ?case
  proof (cases ys)
    case Nil
    then show ?thesis using Cons.prems(1) assms(2) by auto
  next
    case ys: (Cons y ys')
    have "f x @ concat (map (\<lambda>x. CHR '','' # f x) xs) @ e # r = f y @ concat (map (\<lambda>x. CHR '','' # f x) ys') @ e # r'"
      using Cons.prems(1) by (simp add: ys)
    then have first: "k x = k y \<and> concat (map (\<lambda>x. CHR '','' # f x) xs) @ e # r = concat (map (\<lambda>x. CHR '','' # f x) ys') @ e # r'"
      by (rule Cons.prems(2)[OF _ _ _ after after, rotated 2]) (simp_all add: ys)
    have "map k xs = map k ys' \<and> r = r'"
      by (rule Cons.IH[OF conjunct2[OF first]]) (use Cons.prems(2) ys in auto)
    then show ?thesis using first by (simp add: ys)
  qed
qed

lemma join_prefix:
  assumes "json_join (map f xs) @ e # r = json_join (map f ys) @ e # r'"
    and "e = CHR '']'' \<or> e = CHR ''}''"
    and "\<And>x y s s'. x \<in> set xs \<Longrightarrow> y \<in> set ys \<Longrightarrow> f x @ s = f y @ s' \<Longrightarrow> stops s \<Longrightarrow> stops s' \<Longrightarrow> k x = k y \<and> s = s'"
    and "\<And>x s s'. x \<in> set xs \<union> set ys \<Longrightarrow> f x @ s \<noteq> e # s'"
  shows "map k xs = map k ys \<and> r = r'"
proof (cases xs)
  case Nil
  then show ?thesis
    using assms(1) assms(4)[of "hd ys", symmetric] by (cases ys) (simp_all add: json_join_Cons)
next
  case xs: (Cons x xs')
  show ?thesis
  proof (cases ys)
    case Nil
    then show ?thesis using assms(1) assms(4)[of x] by (simp add: xs json_join_Cons)
  next
    case ys: (Cons y ys')
    have after: "stops (concat (map (\<lambda>x. CHR '','' # f x) zs) @ e # s)" for zs s
      using assms(2) by (cases zs) auto
    have "f x @ concat (map (\<lambda>x. CHR '','' # f x) xs') @ e # r = f y @ concat (map (\<lambda>x. CHR '','' # f x) ys') @ e # r'"
      using assms(1) by (simp add: xs ys json_join_Cons comp_def)
    then have first: "k x = k y \<and> concat (map (\<lambda>x. CHR '','' # f x) xs') @ e # r = concat (map (\<lambda>x. CHR '','' # f x) ys') @ e # r'"
      by (rule assms(3)[OF _ _ _ after after, rotated 2]) (simp_all add: xs ys)
    have "map k xs' = map k ys' \<and> r = r'"
      by (rule tails_prefix[OF conjunct2[OF first] assms(2)]) (use assms(3) xs ys in auto)
    then show ?thesis using first by (simp add: xs ys)
  qed
qed

lemma jinsert_map_key: "jinsert le (f x) (map f xs) = map f (jinsert (\<lambda>a b. le (f a) (f b)) x xs)"
  by (induction xs) simp_all

lemma jsort_map_key: "jsort le (map f xs) = map f (jsort (\<lambda>a b. le (f a) (f b)) xs)"
  by (induction xs) (simp_all add: jsort_Cons jinsert_map_key)

lemma by_keys_JObj: "by_keys (JObj m) = JObj (map (\<lambda>p. (fst p, by_keys (snd p))) (jsort key_le m))"
  by (simp add: jsort_map_key key_le_def[abs_def])

lemma render_prefix:
  "plain n v \<Longrightarrow> plain n w \<Longrightarrow> render n v @ r = render n w @ r' \<Longrightarrow> stops r \<Longrightarrow> stops r' \<Longrightarrow> by_keys v = by_keys w \<and> r = r'"
proof (induction n arbitrary: v w r r')
  case (Suc n)
  have "tag v = tag w"
    using render_lead[OF Suc.prems(1)] render_lead[OF Suc.prems(2)] Suc.prems(3) by (metis hd_append2)
  note same = this Suc.prems
  show ?case
  proof (cases v)
    case JUndef
    then show ?thesis using Suc.prems(1) by simp
  next
    case JNull
    then show ?thesis using same by (cases w) (auto split: if_splits)
  next
    case (JBool b)
    then show ?thesis using same by (cases w) (auto split: if_splits)
  next
    case (JNum x)
    then obtain y where w: "w = JNum y" using same(1) by (cases w) (auto split: if_splits)
    obtain p q where "x = Fin p" "p = of_int \<lfloor>p\<rfloor>" "y = Fin q" "q = of_int \<lfloor>q\<rfloor>"
      using Suc.prems(1,2) by (auto simp: JNum w safe_integer_def split: jsnum.splits)
    then show ?thesis using dec_int_prefix[of "\<lfloor>p\<rfloor>" r "\<lfloor>q\<rfloor>" r'] Suc.prems by (simp add: JNum w)
  next
    case (JStr s)
    then obtain t where w: "w = JStr t" using same(1) by (cases w) (auto split: if_splits)
    show ?thesis using json_quote_prefix[of s r t r'] Suc.prems(3) by (simp add: JStr w)
  next
    case (JArr xs)
    then obtain ys where w: "w = JArr ys" using same(1) by (cases w) (auto split: if_splits)
    have "map by_keys xs = map by_keys ys \<and> r = r'"
    proof (rule join_prefix[where f = "render n" and e = "CHR '']''"])
      show "json_join (map (render n) xs) @ CHR '']'' # r = json_join (map (render n) ys) @ CHR '']'' # r'"
        using Suc.prems(3) by (simp add: JArr w json_array_def)
      show "by_keys x = by_keys y \<and> s = s'"
        if "x \<in> set xs" "y \<in> set ys" "render n x @ s = render n y @ s'" "stops s" "stops s'" for x y s s'
        using that Suc.prems(1,2) by (intro Suc.IH) (auto simp: JArr w list_all_iff)
      show "render n x @ s \<noteq> CHR '']'' # s'" if "x \<in> set xs \<union> set ys" for x s s'
        using that Suc.prems(1,2) by (intro plain_no_closing) (auto simp: JArr w list_all_iff)
    qed simp
    then show ?thesis by (simp add: JArr w)
  next
    case (JObj m)
    then obtain m' where w: "w = JObj m'" using same(1) by (cases w) (auto split: if_splits)
    let ?k = "\<lambda>p. (fst p, by_keys (snd p))" and ?t = "member_pair_text (render n)"
    have "map ?k (jsort key_le m) = map ?k (jsort key_le m') \<and> r = r'"
    proof (rule join_prefix[where f = ?t and e = "CHR ''}''"])
      show "json_join (map ?t (jsort key_le m)) @ CHR ''}'' # r = json_join (map ?t (jsort key_le m')) @ CHR ''}'' # r'"
        using Suc.prems(3) by (simp add: JObj w)
      show "?k p = ?k q \<and> s = s'"
        if "p \<in> set (jsort key_le m)" "q \<in> set (jsort key_le m')" and eq: "?t p @ s = ?t q @ s'" and "stops s" "stops s'"
        for p q s s'
      proof -
        have "json_quote (fst p) @ CHR '':'' # render n (snd p) @ s = json_quote (fst q) @ CHR '':'' # render n (snd q) @ s'"
          using eq by (simp add: member_pair_text_def)
        from json_quote_prefix[OF this] have "fst p = fst q" "render n (snd p) @ s = render n (snd q) @ s'" by simp_all
        moreover have "plain n (snd p)" "plain n (snd q)"
          using that(1,2) Suc.prems(1,2) by (auto simp: JObj w list_all_iff)
        ultimately show ?thesis using Suc.IH[of "snd p" "snd q" s s'] that(4,5) by simp
      qed
      show "?t p @ s \<noteq> CHR ''}'' # s'" if "p \<in> set (jsort key_le m) \<union> set (jsort key_le m')" for p s s'
        by (simp add: member_pair_text_def json_quote_def quote_char)
    qed simp
    then show ?thesis unfolding JObj w by_keys_JObj by simp
  qed
qed simp

section \<open>The order of the keys\<close>

context comparator
begin

lemma jsort_sorted: "sorted_wrt le xs \<Longrightarrow> jsort le xs = xs"
proof (induction xs)
  case (Cons x xs)
  then have "jsort le (x # xs) = jinsert le x xs" by (simp add: jsort_Cons)
  moreover have "jinsert le x xs = x # xs" using Cons.prems by (cases xs) auto
  ultimately show ?case by simp
qed simp

lemma jsort_twice: "jsort le (jsort le xs) = jsort le xs"
  by (rule jsort_sorted[OF sorted_jsort])

end

interpretation by_key: comparator key_le
  by unfold_locales (use str_le_total str_le_trans in \<open>auto simp: key_le_def\<close>)

lemma efoldi_map: "efoldi i f st (map g xs) = efoldi i (\<lambda>st i x. f st i (g x)) st xs"
  by (induction xs arbitrary: i st) simp_all

lemma jsort_by_keys:
  "jsort key_le (map (\<lambda>p. (fst p, by_keys (snd p))) m) = map (\<lambda>p. (fst p, by_keys (snd p))) (jsort key_le m)"
  by (simp add: jsort_map_key key_le_def[abs_def])

lemma visit_by_keys: "visit n (by_keys v) st = visit n v st"
proof (induction n arbitrary: v st)
  case (Suc n)
  obtain bytes nodes parts where st: "st = (bytes, nodes, parts)" by (cases st)
  have f: "visit n (by_keys x) = visit n x" for x by (rule ext) (rule Suc.IH)
  have items: "(\<lambda>st i x. visit_item (visit n) st i (by_keys x)) = visit_item (visit n)"
    by (intro ext) (simp add: visit_item_def f)
  have members: "(\<lambda>st i p. visit_member (visit n) st i (fst p, by_keys (snd p))) = visit_member (visit n)"
    by (intro ext) (simp add: visit_member_def f)
  show ?case
    by (cases v) (simp_all add: st by_key.jsort_twice jsort_by_keys efoldi_map items members length_jsort)
qed simp

lemma canonical_by_keys: "canonicalJson (by_keys v) = canonicalJson v"
  by (simp add: canonicalJson_def visit_by_keys)

text \<open>
  C19: the canonical text, and with it the hash of a command, identifies the command: a second value has
  the same text exactly when it is the same value up to the order of the keys of its objects. Quoting,
  numbers and nesting cannot make two different commands print alike, and reordering keys cannot make
  one command print differently or fail.
\<close>

theorem canonical_text_identifies:
  assumes "canonicalJson v = Inr s"
  shows "canonicalJson w = Inr s \<longleftrightarrow> by_keys w = by_keys v"
proof
  assume w: "canonicalJson w = Inr s"
  obtain a b where a: "visit 17 v (0, 0, []) = Inr a" "s = snd (snd a)"
      and b: "visit 17 w (0, 0, []) = Inr b" "s = snd (snd b)"
    using assms w by (auto simp: canonicalJson_def elim!: ebind_InrE)
  have "plain 17 v" "plain 17 w" "render 17 v @ [] = render 17 w @ []"
    using visit_render[OF a(1)] visit_render[OF b(1)] a(2) b(2) by simp_all
  from render_prefix[OF this] show "by_keys w = by_keys v" by simp
next
  assume "by_keys w = by_keys v"
  then show "canonicalJson w = Inr s" using canonical_by_keys[of v] canonical_by_keys[of w] assms by simp
qed

definition sample_command :: jsval where
  "sample_command = JObj [(''b'', JBool True), (''a'', JArr [JNull, JStr ''x''])]"

lemmas visit_depths = visit.simps(2)[of 16, simplified] visit.simps(2)[of 15, simplified] visit.simps(2)[of 14, simplified]

lemma quote_letters: "json_quote ''a'' = [CHR 0x22, CHR ''a'', CHR 0x22]" "json_quote ''b'' = [CHR 0x22, CHR ''b'', CHR 0x22]"
    "json_quote ''x'' = [CHR 0x22, CHR ''x'', CHR 0x22]"
  by code_simp+

lemma canonical_text_identifies_witness:
  "canonicalJson sample_command = Inr (''{'' @ json_quote ''a'' @ '':[null,'' @ json_quote ''x'' @ ''],'' @ json_quote ''b'' @ '':true}'')
   \<and> canonicalJson (JObj [(''a'', JArr [JNull, JStr ''x'']), (''b'', JBool True)]) = canonicalJson sample_command
   \<and> canonicalJson (JObj [(''a'', JArr [JStr ''null'', JStr ''x'']), (''b'', JBool True)]) \<noteq> canonicalJson sample_command"
proof -
  have s: "canonicalJson sample_command
      = Inr (''{'' @ json_quote ''a'' @ '':[null,'' @ json_quote ''x'' @ ''],'' @ json_quote ''b'' @ '':true}'')"
    by (simp add: canonicalJson_def sample_command_def visit_depths visit_item_def visit_member_def append_text_def
        separate_def utf8_length_def MAX_COMMAND_BYTES_def quote_letters jsort_Cons key_le_def str_le_def is_key_def is_alpha_def)
  have same: "by_keys (JObj [(''a'', JArr [JNull, JStr ''x'']), (''b'', JBool True)]) = by_keys sample_command"
    by code_simp
  have other: "by_keys (JObj [(''a'', JArr [JStr ''null'', JStr ''x'']), (''b'', JBool True)]) \<noteq> by_keys sample_command"
    by code_simp
  show ?thesis
    using s canonical_text_identifies[OF s] same other by metis
qed

end
