(* ===== verification/SharedCommandsProps.thy ===== *)
theory SharedCommandsProps
  imports SharedCommands SharedCanonicalProps SharedJournal
begin

text \<open>
  What an accepted command guarantees (\<open>SharedCommands\<close>): validation answers every JSON value with a
  command or a coded failure, never with another exception; a proposed expense balances, its sources
  stay within what their payers contribute, and its bill covers the contributions and allocates
  exactly the shares.
\<close>

section \<open>Rows of an accepted snapshot\<close>

text \<open>A row \<open>{memberId, amountMinor}\<close> and the pair it stands for.\<close>

definition row_pair :: "jsval \<Rightarrow> string \<times> int" where
  "row_pair row = (str_of (jprop row ''memberId''), int (parse_nat (str_of (jprop row ''amountMinor''))))"

definition well_row :: "jsval \<Rightarrow> bool" where
  "well_row row \<longleftrightarrow> \<not> nullish row \<and> is_str (jprop row ''memberId'')
     \<and> (\<exists>s. jprop row ''amountMinor'' = JStr s \<and> is_decimal s)"

lemma well_rowD:
  assumes "well_row row"
  shows "get row ''memberId'' = Inr (JStr (fst (row_pair row)))"
    and "ebind (get row ''amountMinor'') amount_bigint = Inr (snd (row_pair row))"
    and "jprop row ''memberId'' = JStr (fst (row_pair row))"
    and "\<not> nullish row"
  using assms by (auto simp: well_row_def get_def amount_bigint_def row_pair_def nullish_def elim: is_str.elims)

text \<open>A loop that adds one new pair for each row collects the pairs.\<close>

lemma loop_collects:
  assumes "efoldi i f acc xs = Inr out" and "distinct (map fst acc)"
    and "\<And>acc j x out. f acc j x = Inr out \<Longrightarrow> out = acc @ [row_pair x] \<and> fst (row_pair x) \<notin> fst ` set acc \<and> P x"
  shows "out = acc @ map row_pair xs \<and> distinct (map fst out) \<and> (\<forall>x \<in> set xs. P x)"
  using assms(1,2)
proof (induction xs arbitrary: i acc)
  case (Cons x xs)
  then obtain mid where mid: "f acc i x = Inr mid" and rest: "efoldi (Suc i) f mid xs = Inr out"
    by (auto elim: ebind_InrE)
  note step = assms(3)[OF mid]
  have "distinct (map fst mid)" using step Cons.prems(2) by auto
  note ih = Cons.IH[OF rest this]
  have "out = acc @ map row_pair (x # xs)" using ih step by simp
  moreover have "distinct (map fst out)" using ih by blast
  moreover have "\<forall>y \<in> set (x # xs). P y" using ih step by simp
  ultimately show ?case by blast
qed simp

lemma money_row_collects:
  assumes "money_row field acc i row = Inr out"
  shows "out = acc @ [row_pair row] \<and> fst (row_pair row) \<notin> fst ` set acc \<and> well_row row"
proof -
  obtain mid n where r: "v_record0 row [''memberId'', ''amountMinor''] (at_index field i) = Inr ()"
    and m: "v_member (jprop row ''memberId'') (at_key (at_index field i) ''memberId'') = Inr mid"
    and new: "mid \<notin> fst ` set acc"
    and a: "v_amount0 (jprop row ''amountMinor'') (at_key (at_index field i) ''amountMinor'') False = Inr n"
    and out: "out = mset_put mid n acc"
    using assms by (auto simp: money_row_def ebind_eq_Inr)
  have "row_pair row = (mid, n)" "well_row row"
    using v_member_Inr[OF m] v_amount_Inr[OF a] v_record_Inr[OF r]
    by (auto simp: row_pair_def well_row_def nullish_def)
  then show ?thesis using new mset_put_absent[OF new] by (simp add: out)
qed

lemma money_rows_collects:
  assumes "money_rows v field mx cd = Inr out"
  shows "\<exists>rows. v = JArr rows \<and> out = map row_pair rows \<and> distinct (map fst out) \<and> (\<forall>row \<in> set rows. well_row row)"
proof -
  obtain rows where v: "v_count v mx cd field = Inr rows" and run: "efoldi 0 (money_row field) [] rows = Inr out"
    using assms by (auto simp: money_rows_def ebind_eq_Inr)
  show ?thesis using loop_collects[OF run, where P = well_row] money_row_collects v_count_Inr[OF v] by auto
qed

text \<open>What the rest of the validation relies on.\<close>

definition snapshot_ok :: "jsval \<Rightarrow> jsval list \<Rightarrow> jsval list \<Rightarrow> bool" where
  "snapshot_ok snapshot paid shares \<longleftrightarrow> \<not> nullish snapshot
     \<and> (\<exists>s. jprop snapshot ''totalMinor'' = JStr s \<and> is_decimal s)
     \<and> jprop snapshot ''contributions'' = JArr paid \<and> jprop snapshot ''shares'' = JArr shares
     \<and> (\<forall>row \<in> set paid \<union> set shares. well_row row)
     \<and> distinct (map (fst \<circ> row_pair) paid) \<and> distinct (map (fst \<circ> row_pair) shares)
     \<and> (\<exists>ids. jprop snapshot ''memberOrder'' = JArr ids)
     \<and> sum_list (map (snd \<circ> row_pair) paid) = int (parse_nat (str_of (jprop snapshot ''totalMinor'')))
     \<and> sum_list (map (snd \<circ> row_pair) shares) = int (parse_nat (str_of (jprop snapshot ''totalMinor'')))"

lemma projected_snapshot:
  assumes "projectExpense snapshot = Inr pr"
  obtains paid shares where "snapshot_ok snapshot paid shares"
proof -
  obtain tot mp ms ord where r: "v_record0 snapshot [''currency'', ''totalMinor'', ''contributions'', ''shares'', ''memberOrder''] ''$'' = Inr ()"
    and t: "v_amount0 (jprop snapshot ''totalMinor'') ''totalMinor'' True = Inr tot"
    and p: "money_rows (jprop snapshot ''contributions'') ''contributions'' 8 ''INVALID_PAYER_COUNT'' = Inr mp"
    and s: "money_rows (jprop snapshot ''shares'') ''shares'' 50 ''INVALID_PARTICIPANT_COUNT'' = Inr ms"
    and sums: "sum_list (map snd mp) = tot" "sum_list (map snd ms) = tot"
    and o: "v_order (jprop snapshot ''memberOrder'') (dedup (map fst mp @ map fst ms)) ''memberOrder'' = Inr ord"
    using assms unfolding projectExpense_def by (auto simp: ebind_eq_Inr)
  obtain paid shares where "jprop snapshot ''contributions'' = JArr paid" "mp = map row_pair paid" "distinct (map fst mp)"
      "\<forall>row \<in> set paid. well_row row" "jprop snapshot ''shares'' = JArr shares" "ms = map row_pair shares"
      "distinct (map fst ms)" "\<forall>row \<in> set shares. well_row row"
    using money_rows_collects[OF p] money_rows_collects[OF s] by blast
  then have "snapshot_ok snapshot paid shares"
    using v_record_Inr[OF r] v_amount_Inr[OF t] v_order_Inr[OF o] sums by (auto simp: snapshot_ok_def nullish_def)
  then show thesis by (rule that)
qed

section \<open>No other exception\<close>

lemma no_crash_efold [no_crash_intros]: "(\<And>s x. x \<in> set xs \<Longrightarrow> no_crash (f s x)) \<Longrightarrow> no_crash (efold f s xs)"
  by (induction xs arbitrary: s) (auto intro!: no_crash_ebind)

lemma no_crash_efoldi_set: "(\<And>s i x. x \<in> set xs \<Longrightarrow> no_crash (f s i x)) \<Longrightarrow> no_crash (efoldi n f s xs)"
  by (induction xs arbitrary: n s) (auto intro!: no_crash_ebind)

lemma no_crash_command_checks [simp, no_crash_intros]:
  "no_crash (check_uuid v field)" "no_crash (check_text v field mx)" "no_crash (check_day v field)"
  "no_crash (requireEnum v cs field)" "no_crash (invalid_if bad field)" "no_crash (token v field p)"
  "no_crash (reference_keys v)" "no_crash (append_text t st)" "no_crash (separate i st)"
  by (auto simp: no_crash_def check_uuid_def check_text_def check_day_def requireEnum_def invalid_if_def token_def
      reference_keys_def append_text_def separate_def split: prod.splits)

text \<open>What an accepted object can be asked for.\<close>

lemma has_own_Inr [simp]: "\<not> nullish v \<Longrightarrow> has_own v k = Inr (own v k)"
  by (simp add: has_own_def)

lemma has_own_eq_Inr [simp]: "has_own v k = Inr b \<longleftrightarrow> \<not> nullish v \<and> b = own v k"
  by (auto simp: has_own_def)

lemma no_crash_object [no_crash_intros]:
  assumes "v_record v ks field cd opt = Inr u"
  shows "no_crash (has_own v k)" "no_crash (check_token v k p)" "no_crash (check_projection v)"
  using v_record_object[OF assms] by (auto simp: check_token_def check_projection_def intro!: no_crash_intros)

lemma parsed_reference: "parseSharedExpenseSourceReference v = Inr r \<Longrightarrow> \<not> nullish v"
  by (auto simp: parseSharedExpenseSourceReference_def ebind_eq_Inr dest: v_record_object)

lemma no_crash_read_reference [no_crash_intros]: "parseSharedExpenseSourceReference v = Inr r \<Longrightarrow> no_crash (get v k)"
  using parsed_reference by simp

lemma no_crash_visit: "no_crash (visit n v st)"
proof (induction n arbitrary: v st)
  case (Suc n)
  obtain bytes nodes parts where "st = (bytes, nodes, parts)" by (cases st)
  then show ?case
    by (cases v) (auto simp: visit_item_def visit_member_def intro!: no_crash_intros Suc.IH)
qed simp

lemma no_crash_canonical [simp]: "no_crash (canonicalJson v)"
  unfolding canonicalJson_def by (intro no_crash_intros no_crash_visit)

lemma no_crash_reference [simp]: "no_crash (parseSharedExpenseSourceReference v)"
  unfolding parseSharedExpenseSourceReference_def
  by (intro no_crash_intros) (auto split: prod.splits intro!: no_crash_intros)

lemma no_crash_money_rows [simp]: "no_crash (money_rows v field mx cd)"
  unfolding money_rows_def money_row_def by (intro no_crash_intros)

lemma no_crash_project [simp]: "no_crash (projectExpense v)"
  unfolding projectExpense_def by (intro no_crash_intros no_crash_money_rows)

lemma no_crash_allocate [simp]: "no_crash (allocateExpense v)"
  using allocateExpense_no_crash by (simp add: no_crash_def)

lemma array_entries_JArr [simp]: "array_entries (JArr xs) = Inr xs"
  by (simp add: array_entries_def)

lemma snapshot_reads:
  assumes "snapshot_ok snapshot paid shares"
  shows "ebind (get snapshot ''contributions'') array_entries = Inr paid" "ebind (get snapshot ''shares'') array_entries = Inr shares"
    "no_crash (ebind (get snapshot ''memberOrder'') array_entries)" "no_crash (ebind (get snapshot ''totalMinor'') amount_bigint)"
    "paid_map snapshot = efold paid_entry [] paid"
  using assms by (auto simp: snapshot_ok_def get_def amount_bigint_def paid_map_def nullish_def)

lemma no_crash_uuid_rows:
  assumes "ebind (get snapshot key) array_entries = Inr rows" "\<forall>row \<in> set rows. well_row row"
  shows "no_crash (uuid_rows snapshot key)"
  unfolding uuid_rows_def assms(1) ebind_Inr
  by (intro no_crash_efoldi_set no_crash_ebind) (use assms(2) well_rowD(4) in auto)

lemma no_crash_validateSnapshot: "no_crash (validateSnapshot snapshot)"
  unfolding validateSnapshot_def
proof (intro no_crash_ebind no_crash_project)
  fix pr assume "projectExpense snapshot = Inr pr"
  then obtain paid shares where ok: "snapshot_ok snapshot paid shares" by (rule projected_snapshot)
  show "no_crash (uuid_rows snapshot ''contributions'')" "no_crash (uuid_rows snapshot ''shares'')"
    using ok snapshot_reads[OF ok] by (auto simp: snapshot_ok_def intro!: no_crash_uuid_rows)
  show "no_crash (get snapshot ''memberOrder'')" using ok by (simp add: snapshot_ok_def)
  show "no_crash (array_entries a)" if "get snapshot ''memberOrder'' = Inr a" for a
    using ok that by (auto simp: snapshot_ok_def get_def)
qed (auto intro!: no_crash_intros)

lemma no_crash_row_loops:
  assumes "\<forall>row \<in> set rows. well_row row"
  shows "no_crash (efold (covered full) () rows)" "no_crash (efold share_entry acc' rows)" "no_crash (efold paid_entry acc rows)"
proof -
  have bigint: "no_crash (amount_bigint a)" if "row \<in> set rows" "get row ''amountMinor'' = Inr a" for row a
    using that well_rowD(2)[of row] assms by simp
  have reads: "no_crash (get row k)" if "row \<in> set rows" for row k
    using that well_rowD(4)[of row] assms by simp
  show "no_crash (efold (covered full) () rows)" "no_crash (efold share_entry acc' rows)" "no_crash (efold paid_entry acc rows)"
    by (auto simp: covered_def share_entry_def paid_entry_def intro!: no_crash_intros bigint reads)
qed

lemma no_crash_validateBill:
  assumes ok: "snapshot_ok snapshot paid shares"
  shows "no_crash (validateBill bill snapshot)"
proof -
  have rows: "\<forall>row \<in> set paid. well_row row" "\<forall>row \<in> set shares. well_row row" using ok by (auto simp: snapshot_ok_def)
  have bills: "no_crash (bill_row full i row)" for full i row
    unfolding bill_row_def Let_def by (intro no_crash_intros)
  show ?thesis
    unfolding validateBill_def snapshot_reads(1,2)[OF ok] ebind_Inr
    by (intro no_crash_ebind no_crash_checks no_crash_echeck no_crash_efoldi no_crash_allocate snapshot_reads(4)[OF ok]
        no_crash_row_loops rows bills) (use ok in \<open>auto simp: snapshot_ok_def dest: v_record_object\<close>)
qed

lemma no_crash_source_row: "no_crash (source_row paid acc i row)"
  unfolding source_row_def Let_def by (intro no_crash_intros no_crash_reference)

lemma no_crash_proposal_details:
  assumes shape: "(voided \<and> snapshot = JNull) \<or> (\<not> voided \<and> (\<exists>paid shares. snapshot_ok snapshot paid shares))"
    and p: "\<not> nullish p"
  shows "no_crash (proposal_details p voided snapshot)"
proof -
  have bill: "no_crash (validateBill b snapshot)" if "\<not> voided" for b
    using shape that no_crash_validateBill by auto
  have paid: "no_crash (paid_map snapshot)"
    using shape snapshot_reads(5) no_crash_row_loops(3)
    by (auto simp: paid_map_def nullish_def snapshot_ok_def)
  show ?thesis
    unfolding proposal_details_def get_Inr[OF p] has_own_Inr[OF p] ebind_Inr
    by (intro no_crash_ebind no_crash_if no_crash_efoldi no_crash_source_row paid no_crash_Inr)
      (auto simp: invalid_if_def intro!: bill no_crash_intros split: jsval.splits)
qed

lemma no_crash_proposal: "no_crash (proposal p)"
proof -
  have details: "no_crash (ebind (if void = JBool True then Inr () else validateSnapshot snapshot)
      (\<lambda>_. proposal_details p (void = JBool True) snapshot))"
    if r: "v_record p ks field cd opt = Inr u"
      and i: "invalid_if (\<not> is_bool void \<or> (if void = JBool True then snapshot \<noteq> JNull else snapshot = JNull)) f = Inr u'"
    for void snapshot ks field cd opt u f u'
  proof (cases "void = JBool True")
    case True
    then show ?thesis using i v_record_object[OF r] by (auto simp: invalid_if_def intro: no_crash_proposal_details)
  next
    case False
    have "no_crash (proposal_details p False snapshot)" if "validateSnapshot snapshot = Inr u" for u
      using that v_record_object[OF r]
      by (auto simp: validateSnapshot_def ebind_eq_Inr elim!: projected_snapshot intro!: no_crash_proposal_details)
    then show ?thesis using False by (auto intro!: no_crash_ebind no_crash_validateSnapshot)
  qed
  show ?thesis
    unfolding proposal_def Let_def
    by (intro no_crash_ebind no_crash_if no_crash_checks no_crash_command_checks no_crash_get no_crash_Inr details)
qed

lemma no_crash_payload: "no_crash (payload_check kind p)"
  unfolding payload_check_def settlement_report_def Let_def
  by (intro no_crash_intros no_crash_proposal)

text \<open>
  C30: whatever JSON value a client sends, validating it as a command or as a source identity gives an
  accepted value or a failure with a code and a field. No other exception is possible: reading a property of
  \<open>null\<close> or \<open>undefined\<close>, the entries of something that is no array, \<open>BigInt\<close> of text that is no amount, and
  an index past the end of the quotas are exceptions of the model that no input reaches, because the checks
  before exclude them.
\<close>

theorem validation_never_crashes:
  "validateCommand sha256 v \<noteq> Inl JsTypeError \<and> validateSourceIdentity v \<noteq> Inl JsTypeError"
proof
  have "no_crash (validateCommand sha256 v)"
    unfolding validateCommand_def commandHash_def Let_def by (intro no_crash_intros no_crash_payload no_crash_canonical)
  then show "validateCommand sha256 v \<noteq> Inl JsTypeError" by (simp add: no_crash_def)
  have "no_crash (validateSourceIdentity v)"
    unfolding validateSourceIdentity_def Let_def by (intro no_crash_intros no_crash_canonical)
  then show "validateSourceIdentity v \<noteq> Inl JsTypeError" by (simp add: no_crash_def)
qed

section \<open>Accepted proposals\<close>

text \<open>What the rows give to one member, whose id is under \<open>key\<close>.\<close>

definition amounts :: "string \<Rightarrow> jsval list \<Rightarrow> jsval \<Rightarrow> int" where
  "amounts key rows payer =
     sum_list (map (\<lambda>row. int (parse_nat (str_of (jprop row ''amountMinor'')))) (filter (\<lambda>row. jprop row key = payer) rows))"

lemma amounts_simps [simp]:
  "amounts key [] payer = 0"
  "amounts key (row # rows) payer =
     (if jprop row key = payer then snd (row_pair row) else 0) + amounts key rows payer"
  by (simp_all add: amounts_def row_pair_def)

lemma amounts_nonneg: "0 \<le> amounts key rows payer"
  by (induction rows) (simp_all add: row_pair_def)

lemma source_row_step:
  assumes "source_row paid acc i row = Inr out"
  shows "out = mset_put (jprop row ''payerMemberId'') (mget acc (jprop row ''payerMemberId'') 0 + snd (row_pair row)) acc
    \<and> mget out (jprop row ''payerMemberId'') 0 \<le> mget paid (jprop row ''payerMemberId'') 0"
proof -
  let ?path = "at_index ''payload.sources'' i"
  obtain n where n: "v_amount0 (jprop row ''amountMinor'') (at_key ?path ''amountMinor'') True = Inr n"
      and out: "out = mset_put (jprop row ''payerMemberId'') (mget acc (jprop row ''payerMemberId'') 0 + n) acc"
      and le: "mget out (jprop row ''payerMemberId'') 0 \<le> mget paid (jprop row ''payerMemberId'') 0"
    using assms by (auto simp: source_row_def Let_def ebind_eq_Inr simp del: mget_mset_put)
  have "n = snd (row_pair row)" using v_amount_Inr[OF n] by (auto simp: row_pair_def)
  then show ?thesis using out le by simp
qed

lemma source_rows_funded:
  assumes "efoldi i (source_row paid) acc rows = Inr out"
    and "\<And>payer. mget acc payer 0 \<le> mget paid payer 0"
  shows "mget acc payer 0 + amounts ''payerMemberId'' rows payer \<le> mget paid payer 0"
  using assms
proof (induction rows arbitrary: i acc)
  case (Cons row rows)
  then obtain mid where mid: "source_row paid acc i row = Inr mid" and rest: "efoldi (Suc i) (source_row paid) mid rows = Inr out"
    by (auto elim: ebind_InrE)
  note step = source_row_step[OF mid]
  have "mget mid x 0 \<le> mget paid x 0" for x using step Cons.prems(2)[of x] by auto
  from Cons.IH[OF rest this] step show ?case by auto
qed simp

lemma mget_pairs:
  assumes "distinct (map (fst \<circ> row_pair) rows)" "\<forall>row \<in> set rows. well_row row"
  shows "mget (map row_pair rows) m 0 = amounts ''memberId'' rows (JStr m)"
  using assms
proof (induction rows)
  case (Cons row rows)
  have rest: "mget (map row_pair rows) m 0 = amounts ''memberId'' rows (JStr m)" using Cons by simp
  have here: "jprop row ''memberId'' = JStr m \<longleftrightarrow> fst (row_pair row) = m" using Cons.prems(2) well_rowD(3)[of row] by simp
  show ?case
  proof (cases "fst (row_pair row) = m")
    case True
    then have "m \<notin> fst ` set (map row_pair rows)" using Cons.prems(1) by auto
    then have "mget (map row_pair rows) m 0 = 0" by (rule mget_notin)
    then show ?thesis using rest True here by (cases "row_pair row") (simp add: mget_def)
  next
    case False
    then show ?thesis using rest here by (cases "row_pair row") (simp add: mget_def)
  qed
qed (simp add: mget_def)

lemma paid_entries:
  assumes "distinct (map fst acc @ map (\<lambda>row. jprop row ''memberId'') rows)" "\<forall>row \<in> set rows. well_row row"
  shows "efold paid_entry acc rows = Inr (acc @ map (\<lambda>row. (JStr (fst (row_pair row)), snd (row_pair row))) rows)"
  using assms
proof (induction rows arbitrary: acc)
  case (Cons row rows)
  have w: "well_row row" using Cons.prems(2) by simp
  have id: "jprop row ''memberId'' = JStr (fst (row_pair row))" by (rule well_rowD(3)[OF w])
  have "JStr (fst (row_pair row)) \<notin> fst ` set acc" using Cons.prems(1) id by auto
  then have step: "paid_entry acc row = Inr (acc @ [(JStr (fst (row_pair row)), snd (row_pair row))])"
    using well_rowD(1,2)[OF w] by (auto simp: paid_entry_def ebind_eq_Inr mset_put_absent elim!: ebind_InrE)
  have "distinct (map fst (acc @ [(JStr (fst (row_pair row)), snd (row_pair row))]) @ map (\<lambda>row. jprop row ''memberId'') rows)"
    using Cons.prems(1) id by auto
  from Cons.IH[OF this] step Cons.prems(2) show ?case by simp
qed simp

lemma map_of_inj_keys: "map_of (map (\<lambda>row. (JStr (fst (row_pair row)), snd (row_pair row))) rows) (JStr m) = map_of (map row_pair rows) m"
  by (induction rows) auto

lemma paid_map_amounts:
  assumes "snapshot_ok snapshot paid shares" "paid_map snapshot = Inr out"
  shows "mget out payer 0 = amounts ''memberId'' paid payer"
proof -
  have well: "\<forall>row \<in> set paid. well_row row" and d: "distinct (map (fst \<circ> row_pair) paid)"
    using assms(1) by (auto simp: snapshot_ok_def)
  have ids: "map (\<lambda>row. jprop row ''memberId'') paid = map JStr (map (fst \<circ> row_pair) paid)"
    using well well_rowD(3) by simp
  have "distinct (map (\<lambda>row. jprop row ''memberId'') paid)"
    unfolding ids using d by (simp only: distinct_map[of JStr]) (simp add: inj_on_def)
  then have out: "out = map (\<lambda>row. (JStr (fst (row_pair row)), snd (row_pair row))) paid"
    using assms(2) paid_entries[of "[]" paid] well snapshot_reads(5)[OF assms(1)] by simp
  show ?thesis
  proof (cases "\<exists>m. payer = JStr m")
    case True
    then show ?thesis using mget_pairs[OF d well] by (auto simp: out mget_def map_of_inj_keys)
  next
    case False
    have "filter (\<lambda>row. jprop row ''memberId'' = payer) paid = []"
      using well well_rowD(3) False by (auto simp: filter_empty_conv)
    moreover have "payer \<notin> fst ` set out" using False by (auto simp: out)
    ultimately show ?thesis by (simp add: amounts_def mget_notin)
  qed
qed

lemma bill_row_collects:
  assumes "bill_row acc i row = Inr out"
  shows "out = acc @ [row_pair row] \<and> fst (row_pair row) \<notin> fst ` set acc \<and> well_row row"
proof -
  let ?field = "at_index ''payload.bill.contributions'' i"
  obtain n where r: "v_record0 row [''memberId'', ''amountMinor''] ?field = Inr ()"
    and m: "matches lower_uuid (jprop row ''memberId'')"
    and new: "str_of (jprop row ''memberId'') \<notin> fst ` set acc"
    and a: "v_amount0 (jprop row ''amountMinor'') (at_key ?field ''amountMinor'') True = Inr n"
    and out: "out = mset_put (str_of (jprop row ''memberId'')) n acc"
    using assms by (auto simp: bill_row_def Let_def ebind_eq_Inr)
  have "row_pair row = (str_of (jprop row ''memberId''), n)" "well_row row"
    using m v_amount_Inr[OF a] v_record_Inr[OF r]
    by (auto simp: row_pair_def well_row_def nullish_def matches_def split: jsval.splits)
  then show ?thesis using new mset_put_absent[OF new] by (simp add: out)
qed

lemma covered_rows:
  assumes "efold (covered full) u rows = Inr u'" "\<forall>row \<in> set rows. well_row row" "row \<in> set rows"
  shows "snd (row_pair row) \<le> mget full (fst (row_pair row)) 0"
  using assms
proof (induction rows arbitrary: u)
  case (Cons x rows)
  have w: "well_row x" using Cons.prems(2) by simp
  obtain a where a: "get x ''amountMinor'' = Inr a" "amount_bigint a = Inr (snd (row_pair x))"
    using well_rowD(2)[OF w] by (rule ebind_InrE)
  have "snd (row_pair x) \<le> mget full (fst (row_pair x)) 0" "efold (covered full) () rows = Inr u'"
    using Cons.prems(1) well_rowD(1)[OF w] a by (auto simp: covered_def[of full _ x] ebind_eq_Inr)
  then show ?case using Cons.IH[of "()"] Cons.prems(2,3) by auto
qed simp

lemma covered_amounts:
  assumes "\<And>row. row \<in> set paid \<Longrightarrow> snd (row_pair row) \<le> mget full (fst (row_pair row)) 0"
    and "distinct (map (fst \<circ> row_pair) paid)" "\<forall>row \<in> set paid. well_row row" "0 \<le> mget full m 0"
  shows "amounts ''memberId'' paid (JStr m) \<le> mget full m 0"
proof (cases "m \<in> fst ` row_pair ` set paid")
  case True
  then obtain row where row: "row \<in> set paid" "fst (row_pair row) = m" by auto
  have "mget (map row_pair paid) m 0 = snd (row_pair row)"
    by (rule mget_in) (use assms(2) row in \<open>auto simp: prod_eq_iff intro!: image_eqI[of _ _ row]\<close>)
  then show ?thesis using assms(1)[OF row(1)] row(2) mget_pairs[OF assms(2,3), of m] by simp
next
  case False
  then have "mget (map row_pair paid) m 0 = 0" by (intro mget_notin) simp
  then show ?thesis using assms(4) mget_pairs[OF assms(2,3), of m] by simp
qed

lemma share_entries:
  assumes "efold share_entry acc rows = Inr out" "distinct (map fst acc @ map (\<lambda>row. jprop row ''memberId'') rows)"
    "\<forall>row \<in> set rows. well_row row"
  shows "out = acc @ map (\<lambda>row. (jprop row ''memberId'', jprop row ''amountMinor'')) rows"
  using assms
proof (induction rows arbitrary: acc)
  case (Cons row rows)
  have w: "\<not> nullish row" using Cons.prems(3) well_rowD(4) by simp
  have "jprop row ''memberId'' \<notin> fst ` set acc" using Cons.prems(2) by auto
  then have step: "share_entry acc row = Inr (acc @ [(jprop row ''memberId'', jprop row ''amountMinor'')])"
    using w by (simp add: share_entry_def get_def mset_put_absent)
  have "distinct (map fst (acc @ [(jprop row ''memberId'', jprop row ''amountMinor'')]) @ map (\<lambda>row. jprop row ''memberId'') rows)"
    using Cons.prems(2) by auto
  from Cons.IH[OF _ this] step Cons.prems(1,3) show ?case by simp
qed simp

lemma distinct_ids:
  assumes "distinct (map (fst \<circ> row_pair) rows)" "\<forall>row \<in> set rows. well_row row"
  shows "distinct (map (\<lambda>row. jprop row ''memberId'') rows)"
proof -
  have ids: "map (\<lambda>row. jprop row ''memberId'') rows = map JStr (map (fst \<circ> row_pair) rows)"
    using assms(2) well_rowD(3) by simp
  show ?thesis unfolding ids using assms(1) by (simp only: distinct_map[of JStr]) (simp add: inj_on_def)
qed

text \<open>The bill of a proposal: it covers every contribution and allocates the shares.\<close>

definition bill_agrees :: "jsval \<Rightarrow> jsval \<Rightarrow> jsval list \<Rightarrow> jsval list \<Rightarrow> bool" where
  "bill_agrees bill snapshot paid shares \<longleftrightarrow> (\<exists>rows result. jprop bill ''contributions'' = JArr rows
     \<and> (\<forall>m. amounts ''memberId'' paid (JStr m) \<le> amounts ''memberId'' rows (JStr m))
     \<and> sum_list (map (snd \<circ> row_pair) rows) = int (parse_nat (str_of (jprop bill ''totalMinor'')))
     \<and> allocateExpense (bill_expense (jprop snapshot ''totalMinor'') (jprop bill ''allocation'')) = Inr result
     \<and> length (ar_allocations result) = length shares
     \<and> (\<forall>a \<in> set (ar_allocations result). \<exists>row \<in> set shares.
          jprop row ''memberId'' = JStr (al_memberId a) \<and> jprop row ''amountMinor'' = JStr (al_amountMinor a)))"

lemma validated_bill:
  assumes "validateBill bill snapshot = Inr u" and ok: "snapshot_ok snapshot paid shares"
  shows "bill_agrees bill snapshot paid shares"
proof -
  have well: "\<forall>row \<in> set paid. well_row row" "\<forall>row \<in> set shares. well_row row"
    and d: "distinct (map (fst \<circ> row_pair) paid)" "distinct (map (fst \<circ> row_pair) shares)"
    using ok by (auto simp: snapshot_ok_def)
  obtain total rows full result actual u where
    t: "v_amount0 (jprop bill ''totalMinor'') ''payload.bill.totalMinor'' True = Inr total"
    and r: "v_count (jprop bill ''contributions'') 8 ''INVALID_PAYER_COUNT'' ''payload.bill.contributions'' = Inr rows"
    and f: "efoldi 0 bill_row [] rows = Inr full" and sum: "sum_list (map snd full) = total"
    and c: "efold (covered full) () paid = Inr u"
    and a: "allocateExpense (bill_expense (jprop snapshot ''totalMinor'') (jprop bill ''allocation'')) = Inr result"
    and s: "efold share_entry [] shares = Inr actual" and same: "same_shares (ar_allocations result) actual"
    using assms(1) unfolding validateBill_def snapshot_reads(1,2)[OF ok] ebind_Inr by (auto simp: ebind_eq_Inr)
  have full: "full = map row_pair rows" "distinct (map (fst \<circ> row_pair) rows)" "\<forall>row \<in> set rows. well_row row"
    using loop_collects[OF f, where P = well_row] bill_row_collects by auto
  have actual: "actual = map (\<lambda>row. (jprop row ''memberId'', jprop row ''amountMinor'')) shares"
    using share_entries[OF s] distinct_ids[OF d(2) well(2)] well(2) by simp
  have "amounts ''memberId'' paid (JStr m) \<le> amounts ''memberId'' rows (JStr m)" for m
    using covered_amounts[OF covered_rows[OF c well(1)] d(1) well(1)] mget_pairs[OF full(2,3)] amounts_nonneg
    by (simp add: full(1))
  moreover have "\<exists>row \<in> set shares. jprop row ''memberId'' = JStr (al_memberId x) \<and> jprop row ''amountMinor'' = JStr (al_amountMinor x)"
    if "x \<in> set (ar_allocations result)" for x
  proof -
    have "map_of actual (JStr (al_memberId x)) = Some (JStr (al_amountMinor x))"
      using same that by (simp add: same_shares_def list_all_iff)
    from map_of_SomeD[OF this] show ?thesis by (auto simp: actual)
  qed
  moreover have "total = int (parse_nat (str_of (jprop bill ''totalMinor'')))" using v_amount_Inr[OF t] by auto
  ultimately show ?thesis
    using v_count_Inr[OF r] a same sum by (auto simp: bill_agrees_def same_shares_def actual full(1) comp_def)
qed

text \<open>
  C18: a proposed expense that validation accepts is sound as a whole. Contributions and shares both add
  up to its total; what a payer's bank payments are claimed to have covered, added over all sources,
  stays within what that payer contributes; and a bill, when there is one, adds up to its own total,
  covers every contribution and allocates exactly the shares, computed by the same allocation.
\<close>

theorem accepted_proposal_funded:
  assumes "validateCommand sha256 v = Inr (command, h)"
    and "p = jprop command ''payload''" and "snapshot = jprop p ''snapshot''"
    and "jprop command ''kind'' = JStr ''expense.propose''" and "jprop p ''void'' = JBool False"
  shows "\<exists>paid shares sources. jprop snapshot ''contributions'' = JArr paid \<and> jprop snapshot ''shares'' = JArr shares
      \<and> jprop p ''sources'' = JArr sources \<and> length sources \<le> 8
      \<and> sum_list (map (snd \<circ> row_pair) paid) = int (parse_nat (str_of (jprop snapshot ''totalMinor'')))
      \<and> sum_list (map (snd \<circ> row_pair) shares) = int (parse_nat (str_of (jprop snapshot ''totalMinor'')))
      \<and> (\<forall>payer. amounts ''payerMemberId'' sources payer \<le> amounts ''memberId'' paid payer)
      \<and> (own p ''bill'' \<longrightarrow> bill_agrees (jprop p ''bill'') snapshot paid shares)"
proof -
  have "payload_check (jprop command ''kind'') p = Inr ()"
    using assms(1,2) by (auto simp: validateCommand_def Let_def ebind_eq_Inr)
  then have p: "proposal p = Inr ()" by (simp add: payload_check_def assms(4))
  obtain u where snap: "validateSnapshot snapshot = Inr u" and details: "proposal_details p False snapshot = Inr ()"
    using p by (auto simp: proposal_def Let_def ebind_eq_Inr assms(3,5))
  obtain pr where "projectExpense snapshot = Inr pr" using snap by (auto simp: validateSnapshot_def ebind_eq_Inr)
  then obtain paid shares where ok: "snapshot_ok snapshot paid shares" by (rule projected_snapshot)
  obtain sources funds out where sources: "jprop p ''sources'' = JArr sources" "length sources \<le> 8"
      and funds: "paid_map snapshot = Inr funds" and run: "efoldi 0 (source_row funds) [] sources = Inr out"
      and bill: "own p ''bill'' \<longrightarrow> validateBill (jprop p ''bill'') snapshot = Inr ()"
    using details by (auto simp: proposal_details_def ebind_eq_Inr invalid_if_def split: jsval.splits if_splits)
  have funded: "amounts ''payerMemberId'' sources payer \<le> amounts ''memberId'' paid payer" for payer
    using source_rows_funded[OF run, of payer] paid_map_amounts[OF ok funds] amounts_nonneg by (simp add: mget_def)
  have "bill_agrees (jprop p ''bill'') snapshot paid shares" if "own p ''bill''"
    using bill that validated_bill[OF _ ok] by blast
  then show ?thesis using ok sources funded unfolding snapshot_ok_def by blast
qed

section \<open>A command that is accepted\<close>

text \<open>The budgets of the canonical text, and when a value stays within the others.\<close>

fun node_count :: "nat \<Rightarrow> jsval \<Rightarrow> nat" where
  "node_count 0 v = 0"
| "node_count (Suc n) v = 1 + (case v of
      JArr xs \<Rightarrow> sum_list (map (node_count n) xs)
    | JObj m \<Rightarrow> sum_list (map (node_count n \<circ> snd) m)
    | _ \<Rightarrow> 0)"

fun fits_json :: "nat \<Rightarrow> jsval \<Rightarrow> bool" where
  "fits_json 0 v = False"
| "fits_json (Suc n) v = (case v of
      JUndef \<Rightarrow> False
    | JNum x \<Rightarrow> safe_integer x
    | JStr s \<Rightarrow> length s \<le> 1000
    | JArr xs \<Rightarrow> length xs \<le> 1000 \<and> list_all (fits_json n) xs
    | JObj m \<Rightarrow> length m \<le> 128 \<and> list_all (\<lambda>p. is_key (fst p) \<and> fits_json n (snd p)) m
    | _ \<Rightarrow> True)"

definition grown :: "writer \<Rightarrow> nat \<Rightarrow> string \<Rightarrow> writer" where
  "grown st k t = (fst st + utf8_length t, fst (snd st) + k, snd (snd st) @ t)"

definition room :: "writer \<Rightarrow> nat \<Rightarrow> string \<Rightarrow> bool" where
  "room st k t \<longleftrightarrow> fst st + utf8_length t \<le> MAX_COMMAND_BYTES \<and> fst (snd st) + k \<le> 8192"

lemma utf8_length_append [simp]: "utf8_length (s @ t) = utf8_length s + utf8_length t" "utf8_length [] = 0"
  by (simp_all add: utf8_length_def)

lemma append_text_room: "room st 0 t \<Longrightarrow> append_text t st = Inr (grown st 0 t)"
  by (cases st) (simp add: append_text_def room_def grown_def)

lemma grown_grown: "grown (grown st j s) k t = grown st (j + k) (s @ t)"
  by (simp add: grown_def)

lemma room_append: "room st (j + k) (s @ t) \<longleftrightarrow> room st j s \<and> room (grown st j s) k t"
  by (auto simp: room_def grown_def)

lemma loop_room:
  assumes "\<And>st i x. x \<in> set xs \<Longrightarrow> room st (c x) ((if i = 0 then [] else '','') @ t x) \<Longrightarrow>
      f st i x = Inr (grown st (c x) ((if i = 0 then [] else '','') @ t x))"
    and "room st (sum_list (map c xs)) (joined i (map t xs))"
  shows "efoldi i f st xs = Inr (grown st (sum_list (map c xs)) (joined i (map t xs)))"
  using assms
proof (induction xs arbitrary: i st)
  case Nil
  then show ?case by (cases st) (simp add: joined_def grown_def)
next
  case (Cons x xs)
  let ?s = "(if i = 0 then [] else '','') @ t x"
  have split: "joined i (map t (x # xs)) = ?s @ joined (Suc i) (map t xs)" by (simp add: joined_Cons)
  have r: "room st (c x) ?s" "room (grown st (c x) ?s) (sum_list (map c xs)) (joined (Suc i) (map t xs))"
    using Cons.prems(2) room_append[of st "c x" "sum_list (map c xs)" ?s "joined (Suc i) (map t xs)"]
    unfolding split by (simp_all only: list.map sum_list.Cons)
  have "f st i x = Inr (grown st (c x) ?s)" by (rule Cons.prems(1)[OF _ r(1)]) simp
  moreover have "efoldi (Suc i) f (grown st (c x) ?s) xs
      = Inr (grown (grown st (c x) ?s) (sum_list (map c xs)) (joined (Suc i) (map t xs)))"
    by (rule Cons.IH[OF _ r(2)]) (use Cons.prems(1) in auto)
  ultimately show ?case unfolding split by (simp add: grown_grown)
qed

lemma room_less: "room st (j + k) (s @ t) \<Longrightarrow> room st j s"
  by (simp add: room_append)

lemma room_no_nodes: "room st k t \<Longrightarrow> room st 0 t"
  by (simp add: room_def)

lemma separate_room:
  "room st 0 (if i = 0 then [] else '','') \<Longrightarrow> separate i st = Inr (grown st 0 (if i = 0 then [] else '',''))"
  by (cases st) (auto simp: separate_def append_text_room grown_def)

lemma append_node: "room st 1 t \<Longrightarrow> append_text t (grown st 1 []) = Inr (grown st 1 t)"
  by (simp add: append_text_def room_def grown_def)

lemma loop_wrapped:
  assumes loop: "\<And>st i x. x \<in> set xs \<Longrightarrow> room st (c x) ((if i = 0 then [] else '','') @ t x) \<Longrightarrow>
        f st i x = Inr (grown st (c x) ((if i = 0 then [] else '','') @ t x))"
    and r: "room st (1 + sum_list (map c xs)) (a @ json_join (map t xs) @ b)"
  shows "ebind (append_text a (grown st 1 [])) (\<lambda>st. ebind (efoldi 0 f st xs) (append_text b))
    = Inr (grown st (1 + sum_list (map c xs)) (a @ json_join (map t xs) @ b))"
proof -
  have r1: "room st 1 a" "room (grown st 1 a) (sum_list (map c xs)) (json_join (map t xs))"
    "room (grown st (1 + sum_list (map c xs)) (a @ json_join (map t xs))) 0 b"
    using r by (auto simp: room_def grown_def)
  have "efoldi 0 f (grown st 1 a) xs = Inr (grown (grown st 1 a) (sum_list (map c xs)) (json_join (map t xs)))"
    using loop_room[where f = f and c = c and t = t and i = 0, OF loop] r1(2) by (simp add: joined_def)
  then show ?thesis
    using append_node[OF r1(1)] append_text_room[OF r1(3)] by (simp add: grown_grown)
qed

lemma visit_room:
  "fits_json n v \<Longrightarrow> room st (node_count n v) (render n v) \<Longrightarrow>
    visit n v st = Inr (grown st (node_count n v) (render n v))"
proof (induction n arbitrary: v st)
  case (Suc n)
  obtain bytes nodes parts where st: "st = (bytes, nodes, parts)" by (cases st)
  let ?st = "(bytes, nodes + 1, parts)"
  have st': "?st = grown st 1 []" by (simp add: st grown_def)
  have one: "nodes + 1 \<le> 8192" using Suc.prems(2) by (auto simp: room_def st)
  have leaf: "append_text t ?st = Inr (grown st 1 t)" if "room st 1 t" for t
    unfolding st' by (rule append_node[OF that])
  show ?case
  proof (cases v)
    case (JArr xs)
    have "visit_item (visit n) st i x = Inr (grown st (node_count n x) ((if i = 0 then [] else '','') @ render n x))"
      if "x \<in> set xs" "room st (node_count n x) ((if i = 0 then [] else '','') @ render n x)" for st i x
    proof -
      let ?sep = "if i = 0 then [] else '',''"
      have r: "room st 0 ?sep" "room (grown st 0 ?sep) (node_count n x) (render n x)"
        using that(2) room_append[of st 0 "node_count n x" ?sep "render n x"] by simp_all
      have "fits_json n x" using Suc.prems(1) that(1) by (simp add: JArr list_all_iff)
      from Suc.IH[OF this r(2)] show ?thesis
        using separate_room[OF r(1)] by (simp only: visit_item_def ebind_Inr grown_grown add_0)
    qed
    from loop_wrapped[where xs = xs and st = st and a = "''[''" and b = "'']''", OF this] show ?thesis
      using Suc.prems one unfolding st'[symmetric] by (simp add: JArr st json_array_def)
  next
    case (JObj m)
    have member: "visit_member (visit n) st i p = Inr (grown st (node_count n (snd p)) ((if i = 0 then [] else '','') @ member_pair_text (render n) p))"
      if "p \<in> set (jsort key_le m)" "room st (node_count n (snd p)) ((if i = 0 then [] else '','') @ member_pair_text (render n) p)"
      for st i p
    proof -
      let ?sep = "if i = 0 then [] else '',''" and ?q = "json_quote (fst p)" and ?v = "render n (snd p)" and ?k = "node_count n (snd p)"
      have whole: "?sep @ member_pair_text (render n) p = ?sep @ ?q @ '':'' @ ?v" by (simp add: member_pair_text_def)
      have r: "room st 0 ?sep" "room (grown st 0 ?sep) 0 ?q" "room (grown st 0 (?sep @ ?q)) 0 '':''"
          "room (grown st 0 (?sep @ ?q @ '':'')) ?k ?v"
        using that(2) utf8_length_append(1)[of "'':''" ?v] unfolding whole by (auto simp: room_def grown_def)
      have fit: "is_key (fst p)" "fits_json n (snd p)" using Suc.prems(1) that(1) by (auto simp: JObj list_all_iff)
      show ?thesis
        unfolding whole visit_member_def separate_room[OF r(1)] ebind_Inr append_text_room[OF r(2)] grown_grown add_0
        using append_text_room[OF r(3)] Suc.IH[OF fit(2) r(4)] fit(1) by (simp add: grown_grown)
    qed
    have sum: "sum_list (map (\<lambda>p. node_count n (snd p)) m) = sum_list (map (node_count n \<circ> snd) m)"
      by (simp add: comp_def)
    from loop_wrapped[where f = "visit_member (visit n)" and c = "\<lambda>p. node_count n (snd p)"
        and t = "member_pair_text (render n)" and xs = "jsort key_le m" and st = st and a = "''{''" and b = "''}''", OF member] show ?thesis
      using Suc.prems one unfolding st'[symmetric] by (simp add: JObj st sum)
  qed (use Suc.prems one leaf in \<open>auto simp: st MAX_COMMAND_BYTES_def\<close>)
qed simp

lemma canonical_fits:
  assumes "fits_json 17 v" "node_count 17 v \<le> 8192" "utf8_length (render 17 v) \<le> 65536"
  shows "canonicalJson v = Inr (render 17 v)"
  using visit_room[OF assms(1), of "(0, 0, [])"] assms(2,3)
  by (simp add: canonicalJson_def room_def grown_def MAX_COMMAND_BYTES_def)

text \<open>Two members share 100 rupees; one paid, 60 rupees of it from a bank payment.\<close>

definition member_a :: string where "member_a = ''aaaaaaaa-0000-0000-0000-000000000001''"
definition member_b :: string where "member_b = ''bbbbbbbb-0000-0000-0000-000000000002''"

definition money_entry :: "string \<Rightarrow> string \<Rightarrow> jsval" where
  "money_entry m n = JObj [(''memberId'', JStr m), (''amountMinor'', JStr n)]"

definition sample_proposal :: jsval where
  "sample_proposal = JObj
     [(''contextId'', JStr member_a), (''expenseId'', JStr member_a), (''revisionId'', JStr member_b),
      (''expectedHeadRevisionId'', JNull), (''title'', JStr ''Dinner''), (''occurredOn'', JStr ''2024-02-29''),
      (''void'', JBool False),
      (''snapshot'', JObj [(''currency'', JStr ''INR''), (''totalMinor'', JStr ''10000''),
        (''contributions'', JArr [money_entry member_a ''10000'']),
        (''shares'', JArr [money_entry member_a ''5000'', money_entry member_b ''5000'']),
        (''memberOrder'', JArr [JStr member_b, JStr member_a])]),
      (''bill'', JObj [(''currency'', JStr ''INR''), (''totalMinor'', JStr ''12000''),
        (''contributions'', JArr [money_entry member_a ''12000'']),
        (''allocation'', JObj [(''mode'', JStr ''equal''),
          (''participants'', JArr [JObj [(''memberId'', JStr member_a)], JObj [(''memberId'', JStr member_b)]]),
          (''tieOrder'', JArr [JStr member_a, JStr member_b])])]),
      (''sources'', JArr [JObj [(''payerMemberId'', JStr member_a), (''amountMinor'', JStr ''6000''),
        (''reference'', JObj [(''kind'', JStr ''legacy_transaction''), (''ownerAccountId'', JStr member_a),
          (''canonicalTransactionId'', JStr member_b), (''sourceVersion'', JStr (replicate 64 (CHR ''0'')))])]])]"

definition sample_request :: jsval where
  "sample_request = JObj [(''schemaVersion'', JNum (Fin 1)), (''operationId'', JStr member_a),
     (''kind'', JStr ''expense.propose''), (''payload'', sample_proposal)]"

lemma sample_fits: "fits_json 17 sample_request"
  by code_simp

lemma sample_payload: "proposal (by_keys sample_proposal) = Inr ()"
  by code_simp

lemma utf8_length_code [code]: "utf8_length s = nat (sum_list (map (\<lambda>c. if digit7 c then 2 else 1 :: int) s))"
proof -
  have "int (utf8_length s) = sum_list (map (\<lambda>c. if digit7 c then 2 else 1 :: int) s)"
    by (induction s) (simp_all add: utf8_length_def code_ascii)
  then show ?thesis by (simp flip: nat_int)
qed

lemma sample_size: "node_count 17 sample_request < 200" "utf8_length (render 17 sample_request) < 2500"
proof -
  show "node_count 17 sample_request < 200" by code_simp
  have "sum_list (map (\<lambda>c. if digit7 c then 2 else 1 :: int) (render 17 sample_request)) < 2500" by code_simp
  then show "utf8_length (render 17 sample_request) < 2500" by (simp add: utf8_length_code nat_less_iff)
qed

lemma sample_command: "by_keys sample_request = JObj [(''kind'', JStr ''expense.propose''),
    (''operationId'', JStr member_a), (''payload'', by_keys sample_proposal), (''schemaVersion'', JNum (Fin 1))]"
  by code_simp

lemma sample_accepted: "validateCommand sha256 sample_request = Inr (by_keys sample_request, sha256 (render 17 sample_request))"
proof -
  have c: "canonicalJson sample_request = Inr (render 17 sample_request)"
    by (rule canonical_fits) (use sample_fits sample_size in simp_all)
  have hash: "commandHash sha256 (by_keys sample_request) = Inr (sha256 (render 17 sample_request))"
    by (simp add: commandHash_def canonical_by_keys c)
  have ids: "check_uuid (JStr member_a) f = Inr ()" for f
    unfolding check_uuid_def echeck_eq_Inr by code_simp
  have shape: "v_record (by_keys sample_proposal) [''contextId''] ''payload'' ''INVALID_INPUT''
      (map fst (obj_members (by_keys sample_proposal))) = Inr ()"
    by code_simp
  have ctx: "get (by_keys sample_proposal) ''contextId'' = Inr (JStr member_a)" unfolding get_eq_Inr by code_simp
  have whole: "v_record0 (JObj [(''kind'', JStr ''expense.propose''), (''operationId'', JStr member_a),
      (''payload'', by_keys sample_proposal), (''schemaVersion'', JNum (Fin 1))])
      [''schemaVersion'', ''operationId'', ''kind'', ''payload''] ''$'' = Inr ()"
    by (simp add: v_record_def)
  show ?thesis
    unfolding validateCommand_def c hash ebind_Inr Let_def sample_command
    by (simp add: whole invalid_if_def ids shape ctx payload_check_def sample_payload hash[unfolded sample_command])
qed

lemma accepted_proposal_funded_witness:
  "\<exists>sources paid. jprop (by_keys sample_proposal) ''sources'' = JArr sources
     \<and> amounts ''payerMemberId'' sources (JStr member_a) = 6000
     \<and> jprop (jprop (by_keys sample_proposal) ''snapshot'') ''contributions'' = JArr paid
     \<and> amounts ''payerMemberId'' sources (JStr member_a) \<le> amounts ''memberId'' paid (JStr member_a)
     \<and> own (by_keys sample_proposal) ''bill''"
proof -
  have payload: "by_keys sample_proposal = jprop (by_keys sample_request) ''payload''"
    and kind: "jprop (by_keys sample_request) ''kind'' = JStr ''expense.propose''"
    by (simp_all add: sample_command)
  have standing: "jprop (by_keys sample_proposal) ''void'' = JBool False" by code_simp
  have bill: "own (by_keys sample_proposal) ''bill''" by code_simp
  have six: "amounts ''payerMemberId'' (jarr (jprop (by_keys sample_proposal) ''sources'')) (JStr member_a) = 6000"
    by code_simp
  obtain paid shares sources where c: "jprop (jprop (by_keys sample_proposal) ''snapshot'') ''contributions'' = JArr paid"
      and s: "jprop (by_keys sample_proposal) ''sources'' = JArr sources"
      and le: "\<forall>payer. amounts ''payerMemberId'' sources payer \<le> amounts ''memberId'' paid payer"
    using accepted_proposal_funded[OF sample_accepted payload refl kind standing] by blast
  have "amounts ''payerMemberId'' sources (JStr member_a) = 6000" using six by (simp add: s)
  then show ?thesis using c s le bill by blast
qed

text \<open>The same proposal with \<open>sources: [null]\<close>: it reaches the sources and is refused there with a code.\<close>

definition null_source_proposal :: jsval where
  "null_source_proposal = JObj (map (\<lambda>(k, x). (k, if k = ''sources'' then JArr [JNull] else x)) (obj_members sample_proposal))"

definition null_source_request :: jsval where
  "null_source_request = JObj [(''schemaVersion'', JNum (Fin 1)), (''operationId'', JStr member_a),
     (''kind'', JStr ''expense.propose''), (''payload'', null_source_proposal)]"

lemma null_source_canonical: "canonicalJson null_source_request = Inr (render 17 null_source_request)"
proof (rule canonical_fits)
  show "fits_json 17 null_source_request" by code_simp
  show "node_count 17 null_source_request \<le> 8192" by code_simp
  have "sum_list (map (\<lambda>c. if digit7 c then 2 else 1 :: int) (render 17 null_source_request)) \<le> 65536" by code_simp
  then show "utf8_length (render 17 null_source_request) \<le> 65536" by (simp add: utf8_length_code)
qed

lemma validation_never_crashes_witness:
  "\<forall>sha256. validateCommand sha256 null_source_request = Inl (Failure ''INVALID_INPUT'' ''payload.sources[0]'')
     \<and> validateCommand sha256 null_source_request \<noteq> Inl JsTypeError"
proof (intro allI conjI)
  fix sha256
  let ?p = "by_keys null_source_proposal"
  have ids: "check_uuid (JStr member_a) f = Inr ()" for f
    unfolding check_uuid_def echeck_eq_Inr by code_simp
  have command: "by_keys null_source_request = JObj [(''kind'', JStr ''expense.propose''), (''operationId'', JStr member_a),
      (''payload'', ?p), (''schemaVersion'', JNum (Fin 1))]" by code_simp
  have whole: "v_record0 (JObj [(''kind'', JStr ''expense.propose''), (''operationId'', JStr member_a),
      (''payload'', ?p), (''schemaVersion'', JNum (Fin 1))])
      [''schemaVersion'', ''operationId'', ''kind'', ''payload''] ''$'' = Inr ()"
    by (simp add: v_record_def)
  have shape: "v_record ?p [''contextId''] ''payload'' ''INVALID_INPUT'' (map fst (obj_members ?p)) = Inr ()"
    by code_simp
  have ctx: "get ?p ''contextId'' = Inr (JStr member_a)" unfolding get_eq_Inr by code_simp
  have bad: "proposal ?p = Inl (Failure ''INVALID_INPUT'' ''payload.sources[0]'')" by code_simp
  show "validateCommand sha256 null_source_request = Inl (Failure ''INVALID_INPUT'' ''payload.sources[0]'')"
    unfolding validateCommand_def null_source_canonical ebind_Inr Let_def command
    by (simp add: whole invalid_if_def ids shape ctx payload_check_def bad)
  show "validateCommand sha256 null_source_request \<noteq> Inl JsTypeError"
    using validation_never_crashes by blast
qed

end
