(* ===== verification/Csv.thy ===== *)
theory Csv
  imports JsVal
begin

text \<open>
  \<open>api/src/csv.js\<close>: the CSV writer of the spend report, and what a reader makes of its output. Fields
  are \<open>null\<close> or the text of \<open>String(value)\<close>, over 8-bit text; the byte order mark the document
  starts with is one character outside that range, so \<open>csvDocument\<close> is the text after it.
\<close>

section \<open>Writing\<close>

definition formula_start :: "char \<Rightarrow> bool" where
  "formula_start c \<longleftrightarrow> c \<in> {CHR ''='', CHR ''+'', CHR ''-'', CHR ''@'', CHR 0x09, CHR 0x0D}"

definition guarded :: "string \<Rightarrow> string" where
  "guarded t = (case t of c # _ \<Rightarrow> if formula_start c then CHR 0x27 # t else t | [] \<Rightarrow> t)"

definition needs_quotes :: "char \<Rightarrow> bool" where
  "needs_quotes c \<longleftrightarrow> c \<in> {CHR 0x22, CHR '','', CHR 0x0A, CHR 0x0D}"

definition double_quotes :: "string \<Rightarrow> string" where
  "double_quotes t = concat (map (\<lambda>c. if c = CHR 0x22 then [c, c] else [c]) t)"

definition csvField :: "string option \<Rightarrow> string" where
  "csvField v = (case v of None \<Rightarrow> []
     | Some s \<Rightarrow> let t = guarded s in
         if list_ex needs_quotes t then CHR 0x22 # double_quotes t @ [CHR 0x22] else t)"

fun join :: "char \<Rightarrow> string list \<Rightarrow> string" where
  "join c [] = []"
| "join c [s] = s"
| "join c (s # ss) = s @ c # join c ss"

definition csvRow :: "string option list \<Rightarrow> string" where
  "csvRow values = join (CHR '','') (map csvField values)"

definition csvDocument :: "string option list \<Rightarrow> string option list list \<Rightarrow> string" where
  "csvDocument header rows = join (CHR 0x0A) (csvRow header # map csvRow rows) @ [CHR 0x0A]"

section \<open>Reading\<close>

text \<open>
  RFC 4180 with line feeds: a reader is inside a quoted field or not; a doubled quote inside quotes is
  a quote; a comma ends a field and a line feed ends a row, outside quotes.
\<close>

fun read_csv :: "bool \<Rightarrow> string \<Rightarrow> string list \<Rightarrow> string \<Rightarrow> string list list" where
  "read_csv quoted field row [] = (if row = [] \<and> field = [] then [] else [row @ [field]])"
| "read_csv True field row [c] = [row @ [if c = CHR 0x22 then field else field @ [c]]]"
| "read_csv True field row (c # d # s) =
     (if c = CHR 0x22 then
        (if d = CHR 0x22 then read_csv True (field @ [d]) row s else read_csv False field row (d # s))
      else read_csv True (field @ [c]) row (d # s))"
| "read_csv False field row (c # s) =
     (if c = CHR 0x22 \<and> field = [] then read_csv True [] row s
      else if c = CHR '','' then read_csv False [] (row @ [field]) s
      else if c = CHR 0x0A then (row @ [field]) # read_csv False [] [] s
      else read_csv False (field @ [c]) row s)"

definition cell :: "string option \<Rightarrow> string" where
  "cell v = (case v of None \<Rightarrow> [] | Some s \<Rightarrow> guarded s)"

lemma read_quoted:
  assumes "s = [] \<or> hd s \<noteq> CHR 0x22"
  shows "read_csv True field row (double_quotes t @ CHR 0x22 # s) = (if s = [] then [row @ [field @ t]] else read_csv False (field @ t) row s)"
  using assms
proof (induction t arbitrary: field)
  case Nil
  then show ?case by (cases s) (simp_all add: double_quotes_def)
next
  case (Cons c t)
  have rest: "double_quotes t @ CHR 0x22 # s \<noteq> []" by simp
  then obtain d r where dr: "double_quotes t @ CHR 0x22 # s = d # r" by (cases "double_quotes t @ CHR 0x22 # s") auto
  show ?case
  proof (cases "c = CHR 0x22")
    case True
    then show ?thesis using Cons by (simp add: double_quotes_def)
  next
    case False
    then have "read_csv True field row (double_quotes (c # t) @ CHR 0x22 # s)
        = read_csv True (field @ [c]) row (double_quotes t @ CHR 0x22 # s)"
      by (simp add: double_quotes_def dr[unfolded double_quotes_def])
    then show ?thesis using Cons.IH[OF Cons.prems] by simp
  qed
qed

lemma read_plain:
  assumes "\<not> list_ex needs_quotes t" "s \<noteq> []" "field \<noteq> [] \<or> t \<noteq> [] \<or> hd s \<noteq> CHR 0x22"
  shows "read_csv False field row (t @ s) = read_csv False (field @ t) row s"
  using assms
proof (induction t arbitrary: field)
  case (Cons c t)
  then show ?case by (simp add: needs_quotes_def)
qed simp

definition ends_field :: "char \<Rightarrow> bool" where
  "ends_field c \<longleftrightarrow> c = CHR '','' \<or> c = CHR 0x0A"

lemma read_field:
  assumes "ends_field c"
  shows "read_csv False [] row (csvField v @ c # s) = read_csv False (cell v) row (c # s)"
proof -
  have c: "c \<noteq> CHR 0x22" using assms by (auto simp: ends_field_def)
  show ?thesis
  proof (cases "v = None \<or> \<not> list_ex needs_quotes (cell v)")
    case True
    then have "csvField v = cell v" "\<not> list_ex needs_quotes (cell v)"
      by (auto simp: csvField_def cell_def split: option.splits)
    then show ?thesis using read_plain[of "cell v" "c # s" "[]" row] c by simp
  next
    case False
    then have "csvField v = CHR 0x22 # double_quotes (cell v) @ [CHR 0x22]"
      by (auto simp: csvField_def cell_def split: option.splits)
    then show ?thesis using read_quoted[of "c # s" "[]" row "cell v"] c by simp
  qed
qed

lemma read_row:
  "read_csv False [] row (csvRow (v # vs) @ CHR 0x0A # s) = (row @ map cell (v # vs)) # read_csv False [] [] s"
proof (induction vs arbitrary: v row)
  case Nil
  then show ?case using read_field[of "CHR 0x0A" row v s] by (simp add: csvRow_def ends_field_def)
next
  case (Cons w vs)
  have "csvRow (v # w # vs) @ CHR 0x0A # s = csvField v @ CHR '','' # (csvRow (w # vs) @ CHR 0x0A # s)"
    by (simp add: csvRow_def)
  then show ?case
    using read_field[of "CHR '',''" row v "csvRow (w # vs) @ CHR 0x0A # s"] Cons.IH[of "row @ [cell v]" w]
    by (simp add: ends_field_def)
qed

lemma read_rows:
  assumes "\<forall>row \<in> set (first # rows). row \<noteq> []"
  shows "read_csv False [] [] (join (CHR 0x0A) (map csvRow (first # rows)) @ [CHR 0x0A]) = map (map cell) (first # rows)"
  using assms
proof (induction rows arbitrary: first)
  case Nil
  then show ?case using read_row[of "[]" "hd first" "tl first" "[]"] by simp
next
  case (Cons row rows)
  have "read_csv False [] [] (csvRow first @ CHR 0x0A # (join (CHR 0x0A) (map csvRow (row # rows)) @ [CHR 0x0A]))
      = map cell first # read_csv False [] [] (join (CHR 0x0A) (map csvRow (row # rows)) @ [CHR 0x0A])"
    using read_row[of "[]" "hd first" "tl first"] Cons.prems by simp
  then show ?case using Cons by simp
qed

text \<open>
  C35: a reader of the report gets back exactly the rows that were written, whatever commas, quotes and
  line breaks the merchant names contain: no field shifts into another column or row. The one change is
  the guard, and after it no cell a spreadsheet opens begins like a formula.
\<close>

theorem csv_reads_back:
  assumes "\<forall>row \<in> set (header # rows). row \<noteq> []"
  shows "read_csv False [] [] (csvDocument header rows) = map (map cell) (header # rows)
    \<and> (\<forall>line \<in> set (read_csv False [] [] (csvDocument header rows)). \<forall>c \<in> set line.
         c \<noteq> [] \<longrightarrow> \<not> formula_start (hd c))"
proof -
  have guard: "cell v \<noteq> [] \<Longrightarrow> \<not> formula_start (hd (cell v))" for v
    by (auto simp: cell_def guarded_def formula_start_def split: option.splits list.splits)
  have "read_csv False [] [] (csvDocument header rows) = map (map cell) (header # rows)"
    using read_rows[OF assms] by (simp add: csvDocument_def)
  then show ?thesis using guard by auto
qed

lemma csv_reads_back_witness:
  "read_csv False [] [] (csvDocument [Some ''Merchant'', Some ''Note''] [[Some ''=A1, Ltd'', None], [Some [CHR 0x22, CHR 0x0A], Some ''x'']])
   = [[''Merchant'', ''Note''], [CHR 0x27 # ''=A1, Ltd'', []], [[CHR 0x22, CHR 0x0A], ''x'']]"
proof -
  have "\<forall>row \<in> set ([Some ''Merchant'', Some ''Note''] # [[Some ''=A1, Ltd'', None], [Some [CHR 0x22, CHR 0x0A], Some ''x'']]). row \<noteq> []"
    by simp
  from csv_reads_back[OF this] show ?thesis by (simp add: cell_def guarded_def formula_start_def)
qed

end
