(* ===== verification/ForeignExchange.thy ===== *)
theory ForeignExchange
  imports JsDate Referral
begin

text \<open>
  The decimal arithmetic of \<open>api/src/foreign_exchange.js\<close>: amounts and rates are decimal text, computed
  with as BigInts. A value is the text it prints as (\<open>String(value)\<close>, for the two types the code lets
  through); the table of currencies, a file of data, is an argument. The service that fetches and
  stores rates is not modelled.
\<close>

section \<open>Decimal text\<close>

record decimal =
  coefficient :: int
  dec_scale :: nat
  dec_text :: string

text \<open>The grammar \<open>^(\d{1,16})(?:\.(\d{1,14}))?$\<close> after trimming.\<close>

definition decimalParts :: "string \<Rightarrow> nat \<Rightarrow> decimal option" where
  "decimalParts v maxScale =
     (let t = js_trim v; (whole, r) = split_digits t in
      if length whole < 1 \<or> 16 < length whole then None
      else (case r of
        [] \<Rightarrow> Some \<lparr>coefficient = int (parse_nat whole), dec_scale = 0, dec_text = t\<rparr>
      | c # fraction \<Rightarrow>
          if c \<noteq> CHR ''.'' \<or> length fraction < 1 \<or> 14 < length fraction \<or> \<not> list_all is_digit fraction
             \<or> maxScale < length fraction then None
          else Some \<lparr>coefficient = int (parse_nat (whole @ fraction)), dec_scale = length fraction, dec_text = t\<rparr>))"

definition drop_zeros :: "string \<Rightarrow> string" where
  "drop_zeros s = rev (dropWhile (\<lambda>c. c = CHR ''0'') (rev s))"

definition canonicalDecimal :: "string \<Rightarrow> nat \<Rightarrow> string option" where
  "canonicalDecimal v maxScale = (case decimalParts v maxScale of
     None \<Rightarrow> None
   | Some p \<Rightarrow>
       let (whole, r) = split_digits (dec_text p); fraction = drop_zeros (tl r) in
       Some (dec_int (int (parse_nat whole)) @ (if fraction = [] then [] else CHR ''.'' # fraction)))"

definition currencyPrecision :: "(string \<Rightarrow> nat option) \<Rightarrow> string \<Rightarrow> nat option" where
  "currencyPrecision minor_units currency = minor_units currency"

definition originalAmount :: "(string \<Rightarrow> nat option) \<Rightarrow> string \<Rightarrow> string option \<Rightarrow> string option" where
  "originalAmount minor_units v currency =
     (case (case currency of None \<Rightarrow> Some 4 | Some c \<Rightarrow> if c = [] then Some 4 else currencyPrecision minor_units c) of
        None \<Rightarrow> None
      | Some precision \<Rightarrow>
          (case canonicalDecimal v 4 of
             None \<Rightarrow> None
           | Some normalized \<Rightarrow>
               (case decimalParts normalized precision of
                  None \<Rightarrow> None
                | Some p \<Rightarrow> if coefficient p \<le> 0 \<or> 9999999999999999 < coefficient p then None
                    else canonicalDecimal normalized precision)))"

section \<open>Rupees\<close>

definition MAX_INR_MINOR :: int where
  "MAX_INR_MINOR = 999999999999"

definition minorToInr :: "int \<Rightarrow> string" where
  "minorToInr v = (let a = \<bar>v\<bar> in (if v < 0 then ''-'' else []) @ dec_int (a div 100) @ ''.'' @ pad (a mod 100))"

definition inrMinor :: "string \<Rightarrow> int option" where
  "inrMinor v = map_option (\<lambda>p. coefficient p * 10 ^ (2 - dec_scale p)) (decimalParts v 2)"

definition inrAmount :: "string \<Rightarrow> string option" where
  "inrAmount v = (case decimalParts v 2 of
     None \<Rightarrow> None
   | Some p \<Rightarrow> if coefficient p \<le> 0 then None
       else let paise = coefficient p * 10 ^ (2 - dec_scale p) in
            if paise \<le> MAX_INR_MINOR then Some (minorToInr paise) else None)"

definition convertToInr :: "string \<Rightarrow> string \<Rightarrow> string option" where
  "convertToInr amount rate = (case (decimalParts amount 4, decimalParts rate 14) of
     (Some a, Some r) \<Rightarrow>
       if coefficient a \<le> 0 \<or> coefficient r \<le> 0 then None
       else
         let numerator = coefficient a * coefficient r * 100;
             denominator = 10 ^ (dec_scale a + dec_scale r);
             paise = (numerator + denominator div 2) div denominator in
         if 0 < paise \<and> paise \<le> MAX_INR_MINOR then Some (minorToInr paise) else None
   | _ \<Rightarrow> None)"

section \<open>Reference rates\<close>

definition fxCalendarDay :: "string \<Rightarrow> bool" where
  "fxCalendarDay v = (case parse_day v of None \<Rightarrow> False | Some d \<Rightarrow> iso_day d = v)"

record fx_rate =
  fx_rate_text :: string
  fx_rate_date :: string

text \<open>The payload by its four fields, as text, and a requested day of the calendar; the bounds 1e-12 and 1e12 are
  compared as Numbers.\<close>

definition validateRate :: "string \<Rightarrow> string \<Rightarrow> string \<Rightarrow> string \<Rightarrow> string \<Rightarrow> string \<Rightarrow> fx_rate option" where
  "validateRate base quote date rate currency requestedDay =
     (if map upper_ascii_char base \<noteq> currency \<or> map upper_ascii_char quote \<noteq> ''INR'' \<or> \<not> fxCalendarDay date
         \<or> str_less requestedDay date then None
      else if (case (parse_day requestedDay, parse_day date) of (Some asked, Some quoted) \<Rightarrow> 31 < asked - quoted | _ \<Rightarrow> False) then None
      else (case canonicalDecimal rate 14 of
          None \<Rightarrow> None
        | Some t \<Rightarrow> (case decimalParts t 14 of
            None \<Rightarrow> None
          | Some p \<Rightarrow>
              if coefficient p \<le> 0 \<or> string_to_number t < rnd (1 / 10 ^ 12) \<or> rnd (10 ^ 12) < string_to_number t
              then None else Some \<lparr>fx_rate_text = t, fx_rate_date = date\<rparr>)))"

end
