(* ===== verification/ForeignExchangeProps.thy ===== *)
theory ForeignExchangeProps
  imports ForeignExchange SplitsProps ReferralProps
begin

text \<open>
  What \<open>ForeignExchange\<close> computes, against exact rational arithmetic: a conversion is the product
  rounded half up to a paisa, and the printed amount reads back as that number of paise.
\<close>

definition dec_value :: "decimal \<Rightarrow> rat" where
  "dec_value p = of_int (coefficient p) / 10 ^ dec_scale p"

lemma not_digit_dot: "\<not> is_digit (CHR ''.'')"
  by (simp add: is_digit_def)

text \<open>The exact value is the one \<open>Number\<close> would round.\<close>

lemma decimal_value:
  assumes "decimalParts v m = Some p"
  shows "parse_decimal (js_trim v) = Some (dec_value p) \<and> dec_scale p \<le> m"
proof -
  obtain whole r where split: "split_digits (js_trim v) = (whole, r)" by (cases "split_digits (js_trim v)")
  have whole: "whole \<noteq> []" using assms by (auto simp: decimalParts_def split Let_def split: if_splits)
  show ?thesis
  proof (cases r)
    case Nil
    then show ?thesis using assms whole
      by (auto simp: decimalParts_def split Let_def parse_decimal_def dec_value_def split: if_splits)
  next
    case (Cons c fraction)
    then have f: "c = CHR ''.''" "list_all is_digit fraction" "length fraction \<le> m"
        and p: "p = \<lparr>coefficient = int (parse_nat (whole @ fraction)), dec_scale = length fraction, dec_text = js_trim v\<rparr>"
      using assms by (auto simp: decimalParts_def split Let_def split: if_splits)
    have "split_digits fraction = (fraction, [])" by (rule takeWhile_digits(2)[OF f(2) not_digit_dot])
    then have "parse_decimal (js_trim v) = Some (of_nat (parse_nat (whole @ fraction)) * 10 powi (- int (length fraction)))"
      using whole by (simp add: parse_decimal_def split Cons f(1))
    moreover have "(10 :: rat) powi (- int k) = 1 / 10 ^ k" for k
      by (simp add: power_int_minus divide_inverse)
    ultimately show ?thesis using f(3) by (simp add: p dec_value_def)
  qed
qed

lemma parse_nat_append: "parse_nat (s @ t) = parse_nat s * 10 ^ length t + parse_nat t"
proof (induction s)
  case (Cons c s)
  then show ?case by (simp add: parse_nat_Cons power_add algebra_simps)
qed (simp add: parse_nat_def)

lemma inr_text_reads_back:
  assumes "0 \<le> n" "n \<le> MAX_INR_MINOR"
  shows "inrMinor (minorToInr n) = Some n"
proof -
  let ?w = "dec_digits (nat (n div 100))" and ?f = "pad (n mod 100)"
  have b: "0 \<le> n mod 100" "n mod 100 \<le> 99" by simp_all
  note f = pad_props[OF b]
  have wd: "list_all is_digit ?w" using dec_digits_all by (simp add: list_all_iff)
  have "nat (n div 100) < 10 ^ 10" using assms by (simp add: MAX_INR_MINOR_def nat_less_iff)
  then have wl: "length ?w \<le> 16" using length_dec_digits_below[of "nat (n div 100)" 10] by simp
  obtain d t where dt: "?w = d # t" "is_digit d" using wd by (cases ?w) auto
  obtain a b where ab: "?f = [a, b]" using f(1) by (auto simp: length_Suc_conv numeral_2_eq_2)
  have shown: "minorToInr n = ?w @ CHR ''.'' # ?f" using assms by (simp add: minorToInr_def Let_def dec_int_nonneg)
  have trim: "js_trim (minorToInr n) = minorToInr n"
    by (rule trim_digits[of _ d "t @ [CHR ''.'', a]" b]) (use f(2) in \<open>simp_all add: shown dt ab\<close>)
  have split: "split_digits (minorToInr n) = (?w, CHR ''.'' # ?f)"
    unfolding shown by (rule takeWhile_digits(1)[OF wd not_digit_dot])
  have "int (parse_nat (?w @ ?f)) = n div 100 * 100 + n mod 100"
    using assms f(1,3) pos_imp_zdiv_nonneg_iff[of 100 n] by (simp add: parse_nat_append)
  then have num: "int (parse_nat (?w @ ?f)) = n" by simp
  have "decimalParts (minorToInr n) 2 = Some \<lparr>coefficient = n, dec_scale = 2, dec_text = minorToInr n\<rparr>"
    unfolding decimalParts_def trim split Let_def prod.case using wl f num by (simp add: Suc_le_eq ab)
  then show ?thesis by (simp add: inrMinor_def)
qed

lemma half_up_div:
  fixes x :: int
  shows "(x + 10 ^ k div 2) div 10 ^ k = \<lfloor>(of_int x :: rat) / 10 ^ k + 1 / 2\<rfloor>"
proof (cases k)
  case 0
  have "\<lfloor>(of_int x :: rat) + 1 / 2\<rfloor> = x" by (simp add: floor_unique)
  then show ?thesis by (simp add: 0)
next
  case (Suc j)
  have half: "(10 :: int) ^ k = 2 * (10 ^ k div 2)" by (simp add: Suc)
  have "(of_int x :: rat) / 10 ^ k + 1 / 2 = of_int (x + 10 ^ k div 2) / of_int (10 ^ k)"
  proof -
    have h: "(of_int (10 ^ k div 2) :: rat) = 10 ^ k / 2"
      using arg_cong[OF half, of "of_int :: int \<Rightarrow> rat"] by simp
    show ?thesis unfolding of_int_add h by (simp add: add_divide_distrib)
  qed
  then show ?thesis by (simp only: floor_divide_of_int_eq)
qed

text \<open>
  Converting an amount with a reference rate gives the exact product of the two decimals rounded
  half up to a paisa, with no binary rounding in between, and nothing when that is no paisa or too
  large; the amount it prints reads back as exactly that number of paise. The decimals are the values
  their text has.
\<close>

theorem conversion_rounds_half_up:
  assumes "decimalParts amount 4 = Some a" and "decimalParts rate 14 = Some r"
    and "0 < coefficient a" and "0 < coefficient r"
    and "n = \<lfloor>dec_value a * dec_value r * 100 + 1 / 2\<rfloor>"
  shows "parse_decimal (js_trim amount) = Some (dec_value a) \<and> parse_decimal (js_trim rate) = Some (dec_value r)
    \<and> convertToInr amount rate = (if 0 < n \<and> n \<le> MAX_INR_MINOR then Some (minorToInr n) else None)
    \<and> (0 < n \<and> n \<le> MAX_INR_MINOR \<longrightarrow> inrMinor (minorToInr n) = Some n)"
proof -
  let ?k = "dec_scale a + dec_scale r" and ?x = "coefficient a * coefficient r * 100"
  have "dec_value a * dec_value r * 100 = of_int ?x / 10 ^ ?k"
    by (simp add: dec_value_def power_add)
  then have "(?x + 10 ^ ?k div 2) div 10 ^ ?k = n" by (simp only: half_up_div assms(5))
  then have "convertToInr amount rate = (if 0 < n \<and> n \<le> MAX_INR_MINOR then Some (minorToInr n) else None)"
    using assms(1-4) by (simp add: convertToInr_def Let_def)
  then show ?thesis
    using decimal_value[OF assms(1)] decimal_value[OF assms(2)] inr_text_reads_back by auto
qed

lemma conversion_rounds_half_up_witness:
  "convertToInr ''12.50'' ''83.1234'' = Some (minorToInr 103904) \<and> inrMinor (minorToInr 103904) = Some 103904"
proof -
  have a: "decimalParts ''12.50'' 4 = Some \<lparr>coefficient = 1250, dec_scale = 2, dec_text = ''12.50''\<rparr>"
    by (simp add: decimalParts_def js_trim_def split_digits_def is_space_def is_digit_def parse_nat_def digit_val_def)
  have r: "decimalParts ''83.1234'' 14 = Some \<lparr>coefficient = 831234, dec_scale = 4, dec_text = ''83.1234''\<rparr>"
    by (simp add: decimalParts_def js_trim_def split_digits_def is_space_def is_digit_def parse_nat_def digit_val_def)
  have n: "(103904 :: int) = \<lfloor>dec_value \<lparr>coefficient = 1250, dec_scale = 2, dec_text = ''12.50''\<rparr>
      * dec_value \<lparr>coefficient = 831234, dec_scale = 4, dec_text = ''83.1234''\<rparr> * 100 + 1 / 2\<rfloor>"
    by (simp add: dec_value_def floor_unique)
  from conversion_rounds_half_up[OF a r _ _ n] show ?thesis by (simp add: MAX_INR_MINOR_def)
qed

end
