(* ===== verification/OtpAdmission.thy ===== *)
theory OtpAdmission
  imports JsVal
begin

text \<open>
  \<open>auth/src/services/otpWorkAdmission.js\<close>: the bound on concurrent work of one server process. \<open>run\<close>
  is two steps, since the operation in between is awaited: \<open>admit\<close> checks and claims a slot, \<open>settle\<close>
  is the \<open>finally\<close> (with the count of failures). Counters saturate at the largest safe integer.
\<close>

record limits =
  workMaxConcurrent :: int
  emailMaxConcurrent :: int
  smsMaxConcurrent :: int

definition DEFAULT_LIMITS :: limits where
  "DEFAULT_LIMITS = \<lparr>workMaxConcurrent = 2, emailMaxConcurrent = 2, smsMaxConcurrent = 2\<rparr>"

definition limit_ok :: "int \<Rightarrow> bool" where
  "limit_ok n \<longleftrightarrow> 1 \<le> n \<and> n \<le> 16"

definition validateLimits :: "limits \<Rightarrow> limits option" where
  "validateLimits l = (if limit_ok (workMaxConcurrent l) \<and> limit_ok (emailMaxConcurrent l) \<and> limit_ok (smsMaxConcurrent l)
     then Some l else None)"

text \<open>A variable of the environment: unset or empty takes the fallback, otherwise \<open>^(?:[1-9]|1[0-6])$\<close>.\<close>

definition admission_limit :: "int \<Rightarrow> string option \<Rightarrow> int option" where
  "admission_limit fallback raw = (case raw of
     None \<Rightarrow> Some fallback
   | Some s \<Rightarrow> if s = [] then Some fallback
       else if s \<in> set (map (\<lambda>n. dec_int n) [1..16]) then Some (int (parse_nat s)) else None)"

definition readAdmissionLimits :: "(string \<Rightarrow> string option) \<Rightarrow> limits option" where
  "readAdmissionLimits env =
     (case (admission_limit (workMaxConcurrent DEFAULT_LIMITS) (env ''OTP_WORK_MAX_CONCURRENT''),
            admission_limit (emailMaxConcurrent DEFAULT_LIMITS) (env ''OTP_EMAIL_MAX_CONCURRENT''),
            admission_limit (smsMaxConcurrent DEFAULT_LIMITS) (env ''OTP_SMS_MAX_CONCURRENT'')) of
        (Some w, Some e, Some s) \<Rightarrow> validateLimits \<lparr>workMaxConcurrent = w, emailMaxConcurrent = e, smsMaxConcurrent = s\<rparr>
      | _ \<Rightarrow> None)"

record stage =
  maximum :: int
  active :: int
  admitted :: int
  rejected :: int
  failed :: int

type_synonym stages = "string \<Rightarrow> stage option"

definition new_stage :: "int \<Rightarrow> stage" where
  "new_stage m = \<lparr>maximum = m, active = 0, admitted = 0, rejected = 0, failed = 0\<rparr>"

definition createOtpWorkAdmission :: "limits \<Rightarrow> stages option" where
  "createOtpWorkAdmission l = map_option (\<lambda>l. [''work'' \<mapsto> new_stage (workMaxConcurrent l),
     ''email'' \<mapsto> new_stage (emailMaxConcurrent l), ''sms'' \<mapsto> new_stage (smsMaxConcurrent l)]) (validateLimits l)"

definition MAX_SAFE :: int where "MAX_SAFE = 9007199254740991"

definition increment :: "int \<Rightarrow> int" where
  "increment n = min MAX_SAFE (n + 1)"

datatype admission = Admitted | Busy | BadStage

definition admit :: "string \<Rightarrow> stages \<Rightarrow> admission \<times> stages" where
  "admit name st = (case st name of
     None \<Rightarrow> (BadStage, st)
   | Some s \<Rightarrow>
       if maximum s \<le> active s then (Busy, st(name \<mapsto> s\<lparr>rejected := increment (rejected s)\<rparr>))
       else (Admitted, st(name \<mapsto> s\<lparr>active := active s + 1, admitted := increment (admitted s)\<rparr>)))"

definition settle_stage :: "string \<Rightarrow> bool \<Rightarrow> stages \<Rightarrow> stages" where
  "settle_stage name threw st = (case st name of
     None \<Rightarrow> st
   | Some s \<Rightarrow> st(name \<mapsto> s\<lparr>failed := (if threw then increment (failed s) else failed s), active := active s - 1\<rparr>))"

end
