(* ===== verification/AbuseStore.thy ===== *)
theory AbuseStore
  imports Prelude
begin

text \<open>
  \<open>auth/src/services/authAbuseStore.js\<close>: counters and markers that expire, kept in a Map (local runs) or in
  the table \<open>auth_abuse_buckets\<close> (hosted). Times are milliseconds, durations are whole seconds (what
  every caller passes), and an operation reads the clock once. An operation returns its answer and the
  new store; a throw (\<open>Inl\<close>) leaves the store as it was, in the table because the transaction is
  rolled back. The row and advisory locks of the table make each operation atomic. The keyed digest
  (HMAC-SHA-256) is an argument.
\<close>

section \<open>Checks\<close>

datatype store_error = TypeErr string | StorageErr string | CapacityErr

datatype bucket_kind = CounterKind | MarkerKind

definition MAX_COUNTER :: int where "MAX_COUNTER = 1000000"

definition CLEANUP_BATCH :: nat where "CLEANUP_BATCH = 200"

definition validateTtlSeconds :: "int \<Rightarrow> store_error + unit" where
  "validateTtlSeconds ttl = echeck (1 \<le> ttl \<and> ttl \<le> 86400 * 30)
     (TypeErr ''Rate limit TTL must be between 0.05 seconds and 30 days'')"

definition validateSaturation :: "int \<Rightarrow> store_error + unit" where
  "validateSaturation s = echeck (1 \<le> s \<and> s \<le> MAX_COUNTER)
     (TypeErr ''Rate limit counter saturation is out of range'')"

definition validateMarker :: "string \<Rightarrow> store_error + unit" where
  "validateMarker v = echeck (length v \<le> 128) (TypeErr ''Rate limit marker value is too long'')"

definition kind_mismatch :: store_error where
  "kind_mismatch = StorageErr ''bucket_kind_mismatch''"

definition toBucketKey :: "(string \<Rightarrow> string) \<Rightarrow> nat \<Rightarrow> string \<Rightarrow> store_error + string" where
  "toBucketKey hmac keyLength rawKey =
     (if rawKey = [] \<or> keyLength < 32 then Inl (TypeErr ''Invalid auth abuse bucket key configuration'')
      else Inr (hmac (''pandapay-auth-abuse-bucket-v1'' @ CHR 0x00 # rawKey)))"

section \<open>The store in memory\<close>

datatype bucket = Counter int int | Marker string int

type_synonym mem_store = "string \<Rightarrow> bucket option"

primrec expires_at :: "bucket \<Rightarrow> int" where
  "expires_at (Counter n e) = e"
| "expires_at (Marker v e) = e"

text \<open>\<open>live\<close> also drops an expired entry, here \<open>forget\<close>.\<close>

definition live :: "mem_store \<Rightarrow> int \<Rightarrow> string \<Rightarrow> bucket option" where
  "live m now k = (case m k of Some b \<Rightarrow> if expires_at b \<le> now then None else Some b | None \<Rightarrow> None)"

definition forget :: "mem_store \<Rightarrow> int \<Rightarrow> string \<Rightarrow> mem_store" where
  "forget m now k = (case m k of Some b \<Rightarrow> if expires_at b \<le> now then m(k := None) else m | None \<Rightarrow> m)"

definition mem_increment :: "mem_store \<Rightarrow> int \<Rightarrow> string \<Rightarrow> int \<Rightarrow> int \<Rightarrow> store_error + int \<times> mem_store" where
  "mem_increment m now k ttl saturation =
     ebind (validateTtlSeconds ttl) (\<lambda>_. ebind (validateSaturation saturation) (\<lambda>_.
       (case live m now k of
          Some (Counter n e) \<Rightarrow> let n' = min saturation (n + 1) in Inr (n', m(k \<mapsto> Counter n' e))
        | Some (Marker v e) \<Rightarrow> Inl kind_mismatch
        | None \<Rightarrow> let n' = min saturation 1 in Inr (n', (forget m now k)(k \<mapsto> Counter n' (now + ttl * 1000))))))"

definition mem_get :: "mem_store \<Rightarrow> int \<Rightarrow> string \<Rightarrow> store_error + int \<times> mem_store" where
  "mem_get m now k = (case live m now k of
     None \<Rightarrow> Inr (0, forget m now k) | Some (Counter n e) \<Rightarrow> Inr (n, m) | Some (Marker v e) \<Rightarrow> Inl kind_mismatch)"

definition mem_exists :: "mem_store \<Rightarrow> int \<Rightarrow> string \<Rightarrow> store_error + bool \<times> mem_store" where
  "mem_exists m now k = Inr (live m now k \<noteq> None, forget m now k)"

definition mem_setWithTTL :: "mem_store \<Rightarrow> int \<Rightarrow> string \<Rightarrow> string \<Rightarrow> int \<Rightarrow> store_error + bool \<times> mem_store" where
  "mem_setWithTTL m now k v ttl =
     ebind (validateTtlSeconds ttl) (\<lambda>_. ebind (validateMarker v) (\<lambda>_. Inr (True, m(k \<mapsto> Marker v (now + ttl * 1000)))))"

definition mem_claimMarker :: "mem_store \<Rightarrow> int \<Rightarrow> string \<Rightarrow> string \<Rightarrow> int \<Rightarrow> store_error + bool \<times> mem_store" where
  "mem_claimMarker m now k v ttl =
     ebind (validateTtlSeconds ttl) (\<lambda>_. ebind (validateMarker v) (\<lambda>_.
       (case live m now k of
          Some (Marker w e) \<Rightarrow> Inr (False, m)
        | Some (Counter n e) \<Rightarrow> Inl kind_mismatch
        | None \<Rightarrow> Inr (True, (forget m now k)(k \<mapsto> Marker v (now + ttl * 1000))))))"

definition mem_compareDelete :: "mem_store \<Rightarrow> int \<Rightarrow> string \<Rightarrow> string \<Rightarrow> store_error + bool \<times> mem_store" where
  "mem_compareDelete m now k expected =
     ebind (validateMarker expected) (\<lambda>_.
       (case live m now k of
          Some (Marker v e) \<Rightarrow> if v = expected then Inr (True, m(k := None)) else Inr (False, m)
        | _ \<Rightarrow> Inr (False, forget m now k)))"

section \<open>The store in the database\<close>

record pg_bucket =
  pb_key :: string
  pb_kind :: bucket_kind
  pb_counter :: int
  pb_marker :: "string option"
  pb_expires :: int

type_synonym pg_store = "pg_bucket list"

definition pg_row :: "pg_store \<Rightarrow> string \<Rightarrow> pg_bucket option" where
  "pg_row t d = List.find (\<lambda>r. pb_key r = d) t"

definition update_row :: "string \<Rightarrow> (pg_bucket \<Rightarrow> pg_bucket) \<Rightarrow> pg_store \<Rightarrow> pg_store" where
  "update_row d f t = map (\<lambda>r. if pb_key r = d then f r else r) t"

text \<open>The cleanup takes the oldest expired rows that no other transaction has locked.\<close>

definition expired_keys :: "nat \<Rightarrow> (string \<Rightarrow> bool) \<Rightarrow> int \<Rightarrow> pg_store \<Rightarrow> string list" where
  "expired_keys batch locked now t =
     map pb_key (take batch (jsort (\<lambda>a b. pb_expires a \<le> pb_expires b)
       (filter (\<lambda>r. pb_expires r \<le> now \<and> \<not> locked (pb_key r)) t)))"

definition cleanup_expired :: "nat \<Rightarrow> (string \<Rightarrow> bool) \<Rightarrow> int \<Rightarrow> pg_store \<Rightarrow> pg_store" where
  "cleanup_expired batch locked now t =
     filter (\<lambda>r. \<not> (pb_key r \<in> set (expired_keys batch locked now t) \<and> pb_expires r \<le> now)) t"

text \<open>The room of the table, and which rows other transactions hold locked at a moment.\<close>

record pg_env =
  pg_capacity :: nat
  pg_batch :: nat
  pg_locked :: "int \<Rightarrow> string \<Rightarrow> bool"

definition blank_row :: "int \<Rightarrow> string \<Rightarrow> bucket_kind \<Rightarrow> pg_bucket" where
  "blank_row now d kind = \<lparr>pb_key = d, pb_kind = kind, pb_counter = 0,
     pb_marker = (if kind = MarkerKind then Some [] else None), pb_expires = now\<rparr>"

text \<open>The answer is whether the row found is live.\<close>

definition locked_row :: "int \<Rightarrow> bucket_kind \<Rightarrow> pg_bucket \<Rightarrow> pg_store \<Rightarrow> store_error + bool \<times> pg_store" where
  "locked_row now kind r t = (if pb_kind r \<noteq> kind then Inl kind_mismatch else Inr (now < pb_expires r, t))"

definition lockOrCreate :: "pg_env \<Rightarrow> pg_store \<Rightarrow> int \<Rightarrow> string \<Rightarrow> bucket_kind \<Rightarrow> store_error + bool \<times> pg_store" where
  "lockOrCreate env t now d kind =
     (case pg_row t d of
        Some r \<Rightarrow> locked_row now kind r t
      | None \<Rightarrow>
          let t' = cleanup_expired (pg_batch env) (pg_locked env now) now t in
          (case pg_row t' d of
             Some r \<Rightarrow> locked_row now kind r t'
           | None \<Rightarrow> if pg_capacity env \<le> length t' then Inl CapacityErr
                     else Inr (False, t' @ [blank_row now d kind])))"

definition counted :: "int \<Rightarrow> int \<Rightarrow> int \<Rightarrow> pg_bucket \<Rightarrow> pg_bucket" where
  "counted now ttl saturation r =
     (if pb_expires r \<le> now
      then r\<lparr>pb_counter := min 1 saturation, pb_marker := None, pb_expires := now + ttl * 1000\<rparr>
      else r\<lparr>pb_counter := min (pb_counter r + 1) saturation, pb_marker := None\<rparr>)"

definition marked :: "int \<Rightarrow> string \<Rightarrow> int \<Rightarrow> pg_bucket \<Rightarrow> pg_bucket" where
  "marked now v ttl r = r\<lparr>pb_marker := Some v, pb_counter := 0, pb_expires := now + ttl * 1000\<rparr>"

definition pg_increment :: "pg_env \<Rightarrow> pg_store \<Rightarrow> int \<Rightarrow> string \<Rightarrow> int \<Rightarrow> int \<Rightarrow> store_error + int \<times> pg_store" where
  "pg_increment env t now d ttl saturation =
     ebind (validateTtlSeconds ttl) (\<lambda>_. ebind (validateSaturation saturation) (\<lambda>_.
       ebind (lockOrCreate env t now d CounterKind) (\<lambda>(is_live, t').
         let t'' = update_row d (counted now ttl saturation) t' in
         (case pg_row t'' d of Some r \<Rightarrow> Inr (pb_counter r, t'') | None \<Rightarrow> Inl (StorageErr ''storage_unavailable'')))))"

definition pg_get :: "pg_store \<Rightarrow> int \<Rightarrow> string \<Rightarrow> store_error + int \<times> pg_store" where
  "pg_get t now d =
     (case filter (\<lambda>r. pb_key r = d \<and> pb_kind r = CounterKind \<and> now < pb_expires r) t of
        r # _ \<Rightarrow> Inr (pb_counter r, t) | [] \<Rightarrow> Inr (0, t))"

definition pg_exists :: "pg_store \<Rightarrow> int \<Rightarrow> string \<Rightarrow> store_error + bool \<times> pg_store" where
  "pg_exists t now d =
     Inr (filter (\<lambda>r. pb_key r = d \<and> pb_kind r = MarkerKind \<and> now < pb_expires r) t \<noteq> [], t)"

definition pg_setWithTTL :: "pg_env \<Rightarrow> pg_store \<Rightarrow> int \<Rightarrow> string \<Rightarrow> string \<Rightarrow> int \<Rightarrow> store_error + bool \<times> pg_store" where
  "pg_setWithTTL env t now d v ttl =
     ebind (validateTtlSeconds ttl) (\<lambda>_. ebind (validateMarker v) (\<lambda>_.
       ebind (lockOrCreate env t now d MarkerKind) (\<lambda>(is_live, t'). Inr (True, update_row d (marked now v ttl) t'))))"

definition pg_claimMarker :: "pg_env \<Rightarrow> pg_store \<Rightarrow> int \<Rightarrow> string \<Rightarrow> string \<Rightarrow> int \<Rightarrow> store_error + bool \<times> pg_store" where
  "pg_claimMarker env t now d v ttl =
     ebind (validateTtlSeconds ttl) (\<lambda>_. ebind (validateMarker v) (\<lambda>_.
       ebind (lockOrCreate env t now d MarkerKind) (\<lambda>(is_live, t').
         if is_live then Inr (False, t') else Inr (True, update_row d (marked now v ttl) t'))))"

definition pg_compareDelete :: "pg_store \<Rightarrow> string \<Rightarrow> string \<Rightarrow> store_error + bool \<times> pg_store" where
  "pg_compareDelete t d expected =
     ebind (validateMarker expected) (\<lambda>_.
       let t' = filter (\<lambda>r. \<not> (pb_key r = d \<and> pb_kind r = MarkerKind \<and> pb_marker r = Some expected)) t in
       Inr (length t' < length t, t'))"

end
