(* ===== verification/OtpService.thy ===== *)
theory OtpService
  imports OtpAdmission AbuseStore
begin

text \<open>
  \<open>auth/src/services/otpService.js\<close> with the marker functions of
  \<open>auth/src/middleware/rateLimitMiddleware.js\<close> and the digest of \<open>utils/encryptedPhoneSearch.js\<close>: one-time
  codes. Many calls run at once: a call is suspended at every \<open>await\<close>, and the system moves by letting one
  call do the statement it waits for, by a new call, by the passing of time, or by the periodic cleanup.
  Each SQL statement is one step. Any statement may fail, which is an exception at that point.

  bcrypt, the keyed digests and the marker store are arguments; the encrypted phone number of a row is
  only written, and left out.
\<close>

section \<open>Text\<close>

definition code_between :: "nat \<Rightarrow> nat \<Rightarrow> char \<Rightarrow> bool" where
  "code_between lo hi c \<longleftrightarrow> lo \<le> code c \<and> code c \<le> hi"

text \<open>\<open>[A-Za-z0-9:_-]{4,128}\<close> and the pattern of a version 4 UUID.\<close>

definition device_char :: "char \<Rightarrow> bool" where
  "device_char c \<longleftrightarrow> code_between 65 90 c \<or> code_between 97 122 c \<or> is_digit c \<or> c \<in> {CHR '':'', CHR ''_'', CHR ''-''}"

definition valid_device :: "string \<Rightarrow> bool" where
  "valid_device s \<longleftrightarrow> 4 \<le> length s \<and> length s \<le> 128 \<and> list_all device_char s"

definition hex_char :: "char \<Rightarrow> bool" where
  "hex_char c \<longleftrightarrow> is_digit c \<or> code_between 97 102 c \<or> code_between 65 70 c"

definition uuid_v4 :: "string \<Rightarrow> bool" where
  "uuid_v4 s \<longleftrightarrow> length s = 36 \<and> list_all (\<lambda>i.
     if i \<in> {8, 13, 18, 23} then s ! i = CHR ''-'' else if i = 14 then s ! i = CHR ''4''
     else if i = 19 then lower_char (s ! i) \<in> {CHR ''8'', CHR ''9'', CHR ''a'', CHR ''b''} else hex_char (s ! i)) [0..<36]"

definition six_digits :: "string \<Rightarrow> bool" where
  "six_digits s \<longleftrightarrow> length s = 6 \<and> list_all is_digit s"

text \<open>Phone numbers: the text that is hashed for the lookup, and the text used in the keys of limits and
  markers.\<close>

definition canonicalizePhone :: "string \<Rightarrow> string option" where
  "canonicalizePhone p =
     (let s = filter (\<lambda>c. \<not> (is_space c \<or> c \<in> {CHR ''('', CHR '')'', CHR ''.'', CHR ''-''})) (js_trim p);
          n = (if length s = 10 \<and> list_all is_digit s then ''+91'' @ s else s) in
      if 3 \<le> length n \<and> length n \<le> 16 \<and> hd n = CHR ''+'' \<and> code_between 49 57 (n ! 1) \<and> list_all is_digit (drop 2 n)
      then Some n else None)"

definition phoneLookupHash :: "(string \<Rightarrow> string) \<Rightarrow> string \<Rightarrow> string option" where
  "phoneLookupHash hmac p = map_option (\<lambda>n. hmac (''pandapay-phone-lookup:v1:'' @ n)) (canonicalizePhone p)"

definition normalizePhoneForOtp :: "string \<Rightarrow> string option" where
  "normalizePhoneForOtp phone =
     (if phone = [] then None
      else let p = filter (\<lambda>c. \<not> is_space c) (js_trim phone) in
           if p \<noteq> [] \<and> hd p = CHR ''+'' then Some p
           else if length p = 10 then Some (''+91'' @ p) else Some p)"

text \<open>The digits after the plus sign, at most three.\<close>

definition extractCountryCode :: "string \<Rightarrow> string" where
  "extractCountryCode p = (case p of
     c # s \<Rightarrow> (let d = takeWhile is_digit (take 3 s) in if c = CHR ''+'' \<and> d \<noteq> [] then CHR ''+'' # d else ''+91'')
   | [] \<Rightarrow> ''+91'')"

section \<open>Requests\<close>

record binding =
  bind_device :: string
  bind_request :: "string option"

text \<open>What a caller asks with; \<open>rq_device\<close> is set by the routes of the second protocol.\<close>

record otp_request =
  rq_identifier :: string
  rq_type :: string
  rq_purpose :: string
  rq_device :: "(string \<times> string option) option"

definition v2Binding :: "(string \<Rightarrow> string) \<Rightarrow> string \<Rightarrow> string option \<Rightarrow> binding option" where
  "v2Binding sha256 deviceId requestId =
     (if \<not> valid_device deviceId then None
      else if (case requestId of None \<Rightarrow> False | Some r \<Rightarrow> \<not> uuid_v4 r) then None
      else Some \<lparr>bind_device = sha256 (''pandapay-otp-device-v2'' @ CHR 0x00 # deviceId), bind_request = requestId\<rparr>)"

definition validateOtpScope :: "string \<Rightarrow> string \<Rightarrow> bool" where
  "validateOtpScope type purpose \<longleftrightarrow> type \<in> {''phone'', ''email''} \<and> purpose \<in> {''signin'', ''recovery'', ''replacement''}"

section \<open>The table\<close>

record otp_row =
  or_id :: string
  or_phone_hash :: "string option"
  or_email :: "string option"
  or_type :: string
  or_country :: string
  or_hash :: string
  or_expires :: int
  or_consumed :: "int option"
  or_deleted :: bool
  or_attempts :: int
  or_created :: int
  or_purpose :: "string option"
  or_version :: int
  or_device :: "string option"

definition purposePredicate :: "string \<Rightarrow> otp_row \<Rightarrow> bool" where
  "purposePredicate purpose r \<longleftrightarrow> or_purpose r = Some purpose \<or> purpose = ''signin'' \<and> or_purpose r = None"

text \<open>Ids are compared as uuids, whatever their letters; an absent challenge is NULL and equals nothing.\<close>

definition protocolPredicate :: "binding option \<Rightarrow> otp_row \<Rightarrow> bool" where
  "protocolPredicate b r = (case b of
     None \<Rightarrow> or_version r = 1
   | Some x \<Rightarrow> or_version r = 2 \<and> or_device r = Some (bind_device x)
       \<and> (case bind_request x of None \<Rightarrow> False | Some i \<Rightarrow> or_id r = js_lower i))"

text \<open>The checked request: the owner as the table knows it.\<close>

record otp_scope =
  sc_identifier :: string
  sc_type :: string
  sc_owner :: string
  sc_purpose :: string
  sc_binding :: "binding option"

definition owned_by :: "otp_scope \<Rightarrow> otp_row \<Rightarrow> bool" where
  "owned_by sc r \<longleftrightarrow> or_type r = sc_type sc
     \<and> (if sc_type sc = ''phone'' then or_phone_hash r = Some (sc_owner sc) else or_email r = Some (sc_owner sc))"

definition in_scope :: "otp_scope \<Rightarrow> otp_row \<Rightarrow> bool" where
  "in_scope sc r \<longleftrightarrow> purposePredicate (sc_purpose sc) r \<and> protocolPredicate (sc_binding sc) r"

definition unused :: "otp_row \<Rightarrow> bool" where
  "unused r \<longleftrightarrow> \<not> or_deleted r \<and> or_consumed r = None"

text \<open>The rows the SELECT may return: the newest unused ones.\<close>

definition candidates :: "otp_scope \<Rightarrow> otp_row list \<Rightarrow> otp_row list" where
  "candidates sc t = filter (\<lambda>r. owned_by sc r \<and> unused r \<and> in_scope sc r) t"

definition newest :: "otp_row list \<Rightarrow> otp_row list" where
  "newest t = filter (\<lambda>r. list_all (\<lambda>q. or_created q \<le> or_created r) t) t"

text \<open>The updates; \<open>row_hit\<close> is the WHERE clause they share.\<close>

definition row_hit :: "otp_scope \<Rightarrow> string \<Rightarrow> otp_row \<Rightarrow> bool" where
  "row_hit sc i r \<longleftrightarrow> or_id r = i \<and> unused r \<and> in_scope sc r"

definition consume_row :: "otp_scope \<Rightarrow> int \<Rightarrow> string \<Rightarrow> otp_row list \<Rightarrow> otp_row list" where
  "consume_row sc now i t = map (\<lambda>r. if row_hit sc i r then r\<lparr>or_consumed := Some now\<rparr> else r) t"

definition count_attempt :: "otp_scope \<Rightarrow> string \<Rightarrow> otp_row list \<Rightarrow> otp_row list" where
  "count_attempt sc i t = map (\<lambda>r. if row_hit sc i r then r\<lparr>or_attempts := or_attempts r + 1\<rparr> else r) t"

definition counted_attempts :: "otp_scope \<Rightarrow> string \<Rightarrow> otp_row list \<Rightarrow> int" where
  "counted_attempts sc i t = (case filter (row_hit sc i) t of r # _ \<Rightarrow> or_attempts r + 1 | [] \<Rightarrow> 0)"

definition acceptable :: "otp_scope \<Rightarrow> int \<Rightarrow> int \<Rightarrow> string \<Rightarrow> otp_row \<Rightarrow> bool" where
  "acceptable sc now maxAttempts i r \<longleftrightarrow> row_hit sc i r \<and> now < or_expires r \<and> or_attempts r < maxAttempts"

definition accept_row :: "otp_scope \<Rightarrow> int \<Rightarrow> int \<Rightarrow> string \<Rightarrow> otp_row list \<Rightarrow> otp_row list" where
  "accept_row sc now maxAttempts i t =
     map (\<lambda>r. if acceptable sc now maxAttempts i r then r\<lparr>or_consumed := Some now\<rparr> else r) t"

text \<open>Retiring the earlier codes when a new one is made: same owner, purpose and protocol version.\<close>

definition retire_rows :: "otp_scope \<Rightarrow> otp_row list \<Rightarrow> otp_row list" where
  "retire_rows sc t = map (\<lambda>r. if owned_by sc r \<and> \<not> or_deleted r \<and> purposePredicate (sc_purpose sc) r
       \<and> or_version r = (if sc_binding sc = None then 1 else 2)
     then r\<lparr>or_deleted := True\<rparr> else r) t"

definition discard_row :: "otp_scope \<Rightarrow> string \<Rightarrow> otp_row list \<Rightarrow> otp_row list" where
  "discard_row sc i t = map (\<lambda>r. if owned_by sc r \<and> row_hit sc i r then r\<lparr>or_deleted := True\<rparr> else r) t"

definition cleanupExpiredOtps :: "int \<Rightarrow> otp_row list \<Rightarrow> otp_row list" where
  "cleanupExpiredOtps now t = map (\<lambda>r. if or_expires r < now \<and> unused r then r\<lparr>or_consumed := Some now\<rparr> else r) t"

section \<open>The service around it\<close>

record 's otp_env =
  max_attempts :: int
  otp_ttl :: int
  test_identifiers :: bool
  bcrypt_hash :: "string \<Rightarrow> string \<Rightarrow> string"
  bcrypt_compare :: "string \<Rightarrow> string \<Rightarrow> bool"
  phone_hmac :: "string \<Rightarrow> string"
  sha256 :: "string \<Rightarrow> string"
  claim_marker :: "'s \<Rightarrow> int \<Rightarrow> string \<Rightarrow> string \<Rightarrow> int \<Rightarrow> store_error + bool \<times> 's"
  compare_delete :: "'s \<Rightarrow> int \<Rightarrow> string \<Rightarrow> string \<Rightarrow> store_error + bool \<times> 's"

definition V2_TTL_SECONDS :: int where "V2_TTL_SECONDS = 120"

definition V2_MAX_ATTEMPTS :: int where "V2_MAX_ATTEMPTS = 5"

definition scope_attempts :: "'s otp_env \<Rightarrow> otp_scope \<Rightarrow> int" where
  "scope_attempts env sc = (if sc_binding sc = None then max_attempts env else V2_MAX_ATTEMPTS)"

text \<open>The checks before any work: \<open>None\<close> is a TypeError.\<close>

definition request_binding :: "'s otp_env \<Rightarrow> otp_request \<Rightarrow> binding option option" where
  "request_binding env rq =
     (case (case rq_device rq of None \<Rightarrow> Some None
        | Some (device, challenge) \<Rightarrow> map_option Some (v2Binding (sha256 env) device challenge)) of
        None \<Rightarrow> None
      | Some b \<Rightarrow> if validateOtpScope (rq_type rq) (rq_purpose rq) \<and> js_trim (rq_identifier rq) \<noteq> [] then Some b else None)"

definition request_owner :: "'s otp_env \<Rightarrow> otp_request \<Rightarrow> string option" where
  "request_owner env rq = (if rq_type rq = ''phone'' then phoneLookupHash (phone_hmac env) (rq_identifier rq)
     else Some (js_lower (js_trim (rq_identifier rq))))"

definition otp_scope_of :: "otp_request \<Rightarrow> binding option \<Rightarrow> string \<Rightarrow> otp_scope" where
  "otp_scope_of rq b w = \<lparr>sc_identifier = rq_identifier rq, sc_type = rq_type rq, sc_owner = w, sc_purpose = rq_purpose rq, sc_binding = b\<rparr>"

definition request_scope :: "'s otp_env \<Rightarrow> otp_request \<Rightarrow> otp_scope option" where
  "request_scope env rq = (case request_binding env rq of None \<Rightarrow> None | Some b \<Rightarrow> map_option (otp_scope_of rq b) (request_owner env rq))"

text \<open>The marker that stops a second code: one key for each identifier and purpose.\<close>

definition active_key :: "string \<Rightarrow> string \<Rightarrow> string option" where
  "active_key identifier purpose =
     (let email = CHR ''@'' \<in> set identifier;
          n = (if email then Some (js_lower (js_trim identifier)) else normalizePhoneForOtp identifier) in
      case n of None \<Rightarrow> None
      | Some t \<Rightarrow> if \<not> email \<and> t = [] then None
          else Some (''otp_active:'' @ (if email then ''email'' else ''phone'') @ '':'' @ t @ '':'' @ purpose))"

definition markActiveOtp :: "'s otp_env \<Rightarrow> 's \<Rightarrow> int \<Rightarrow> string \<Rightarrow> int \<Rightarrow> string \<Rightarrow> string \<Rightarrow> store_error + bool \<times> 's" where
  "markActiveOtp env s now identifier ttl requestId purpose =
     (case active_key identifier purpose of None \<Rightarrow> Inr (True, s)
      | Some k \<Rightarrow> claim_marker env s now k requestId ttl)"

definition clearActiveOtp :: "'s otp_env \<Rightarrow> 's \<Rightarrow> int \<Rightarrow> string \<Rightarrow> string \<Rightarrow> string \<Rightarrow> store_error + 's" where
  "clearActiveOtp env s now identifier requestId purpose =
     (if requestId = [] then Inr s
      else case active_key identifier purpose of None \<Rightarrow> Inr s
      | Some k \<Rightarrow> map_sum id snd (compare_delete env s now k requestId))"

section \<open>Verifying a code\<close>

datatype refusal = NotFound | Expired | MaxAttempts | Invalid | ConsumedOrExpired

datatype verdict = Accepted | Refused refusal | Threw

text \<open>
  Where a verification is suspended: the statement or the comparison it does next. \<open>Fetched\<close> is the
  moment the rows have arrived; the two flags are \<open>isExpired\<close> and \<open>isMaxAttempts\<close>. The row read is
  the local variable \<open>otpRecord\<close>, kept beside.
\<close>

datatype verify_pc =
    Dummy
  | Selecting
  | Fetched
  | Comparing bool bool
  | Expiring refusal
  | Counting
  | Closing
  | Consuming
  | Clearing
  | VDone verdict

definition verify_start :: "binding option \<Rightarrow> string \<Rightarrow> verify_pc" where
  "verify_start b otp = (if b \<noteq> None \<and> \<not> six_digits otp then Dummy else Selecting)"

text \<open>\<open>otpRecord.id\<close>; the stand-in for a missing row has none.\<close>

definition record_id :: "otp_row option \<Rightarrow> string" where
  "record_id f = (case f of None \<Rightarrow> [] | Some r \<Rightarrow> or_id r)"

fun verify_next :: "'s otp_env \<Rightarrow> int \<Rightarrow> bool \<Rightarrow> otp_scope \<Rightarrow> string \<Rightarrow> otp_row option \<Rightarrow> verify_pc
    \<Rightarrow> otp_row list \<Rightarrow> 's \<Rightarrow> verify_pc \<times> otp_row list \<times> 's" where
  "verify_next env now fails sc otp f Dummy t s = (VDone (if fails then Threw else Refused Invalid), t, s)"
| "verify_next env now fails sc otp f Selecting t s = (if fails then VDone Threw else Fetched, t, s)"
| "verify_next env now fails sc otp f Fetched t s =
     ((case f of None \<Rightarrow> Comparing False False
       | Some r \<Rightarrow> Comparing (or_expires r < now) (scope_attempts env sc \<le> or_attempts r)), t, s)"
| "verify_next env now fails sc otp f (Comparing isExpired isMaxAttempts) t s =
     ((if fails then VDone Threw
       else case f of None \<Rightarrow> VDone (Refused NotFound)
       | Some r \<Rightarrow>
           if isExpired then Expiring Expired
           else if isMaxAttempts then Expiring MaxAttempts
           else if \<not> bcrypt_compare env (js_trim otp) (or_hash r) then Counting
           else Consuming), t, s)"
| "verify_next env now fails sc otp f (Expiring why) t s =
     (if fails then (VDone Threw, t, s) else (VDone (Refused why), consume_row sc now (record_id f) t, s))"
| "verify_next env now fails sc otp f Counting t s =
     (if fails then (VDone Threw, t, s)
      else (if scope_attempts env sc \<le> counted_attempts sc (record_id f) t then Closing else VDone (Refused Invalid),
            count_attempt sc (record_id f) t, s))"
| "verify_next env now fails sc otp f Closing t s =
     (if fails then (VDone Threw, t, s) else (VDone (Refused Invalid), consume_row sc now (record_id f) t, s))"
| "verify_next env now fails sc otp f Consuming t s =
     (if fails then (VDone Threw, t, s)
      else if length (filter (acceptable sc now (scope_attempts env sc) (record_id f)) t) \<noteq> 1
        then (VDone (Refused ConsumedOrExpired), t, s)
      else (Clearing, accept_row sc now (scope_attempts env sc) (record_id f) t, s))"
| "verify_next env now fails sc otp f Clearing t s =
     (VDone Accepted, t,
      if fails then s else case clearActiveOtp env s now (sc_identifier sc) (record_id f) (sc_purpose sc) of Inl e \<Rightarrow> s | Inr s' \<Rightarrow> s')"
| "verify_next env now fails sc otp f (VDone v) t s = (VDone v, t, s)"

section \<open>Making and discarding a code\<close>

definition isTestOtpIdentifier :: "bool \<Rightarrow> string \<Rightarrow> bool" where
  "isTestOtpIdentifier enabled identifier \<longleftrightarrow> enabled
     \<and> js_lower (js_trim identifier) \<in> {''1234567890'', ''+911234567890'', ''test@example.com'', ''newuser4@example.com''}"

text \<open>The draw is the number \<open>randomInt\<close> returns.\<close>

definition generateOtpCode :: "bool \<Rightarrow> bool \<Rightarrow> string \<Rightarrow> int \<Rightarrow> string" where
  "generateOtpCode enabled v2 identifier draw =
     (if isTestOtpIdentifier enabled (js_lower (js_trim identifier)) then if v2 then ''123456'' else ''1234'' else dec_int draw)"

definition draw_ok :: "bool \<Rightarrow> int \<Rightarrow> bool" where
  "draw_ok v2 draw \<longleftrightarrow> (if v2 then 100000 \<le> draw \<and> draw < 1000000 else 1000 \<le> draw \<and> draw < 10000)"

record new_otp =
  no_code :: string
  no_id :: string
  no_expires :: int
  no_hash :: string

definition otp_ttl_of :: "'s otp_env \<Rightarrow> binding option \<Rightarrow> int" where
  "otp_ttl_of env b = (if b = None then otp_ttl env else V2_TTL_SECONDS)"

definition new_row :: "otp_scope \<Rightarrow> new_otp \<Rightarrow> int \<Rightarrow> otp_row" where
  "new_row sc n now =
     \<lparr>or_id = no_id n,
      or_phone_hash = (if sc_type sc = ''phone'' then Some (sc_owner sc) else None),
      or_email = (if sc_type sc = ''email'' then Some (sc_owner sc) else None),
      or_type = sc_type sc,
      or_country = (if sc_type sc = ''phone'' then extractCountryCode (sc_identifier sc) else ''+91''),
      or_hash = no_hash n, or_expires = no_expires n, or_consumed = None, or_deleted = False, or_attempts = 0,
      or_created = now, or_purpose = Some (sc_purpose sc),
      or_version = (if sc_binding sc = None then 1 else 2), or_device = map_option bind_device (sc_binding sc)\<rparr>"

datatype create_pc = Hashing | Claiming | Retiring | Inserting | Undoing | CDone "string option"

text \<open>A scope that is \<open>None\<close> is a phone number that cannot be hashed, found out after the code is hashed.\<close>

fun create_next :: "'s otp_env \<Rightarrow> int \<Rightarrow> bool \<Rightarrow> otp_scope option \<Rightarrow> new_otp \<Rightarrow> create_pc \<Rightarrow> otp_row list \<Rightarrow> 's
    \<Rightarrow> create_pc \<times> otp_row list \<times> 's" where
  "create_next env now fails None n pc t s = (CDone None, t, s)"
| "create_next env now fails (Some sc) n Hashing t s = (if fails then CDone None else Claiming, t, s)"
| "create_next env now fails (Some sc) n Claiming t s =
     (if fails then (CDone None, t, s)
      else case markActiveOtp env s now (sc_identifier sc) (otp_ttl_of env (sc_binding sc)) (no_id n) (sc_purpose sc) of
        Inl e \<Rightarrow> (CDone None, t, s)
      | Inr (claimed, s') \<Rightarrow> (if claimed then Retiring else CDone None, t, s'))"
| "create_next env now fails (Some sc) n Retiring t s =
     (if fails then (Undoing, t, s) else (Inserting, retire_rows sc t, s))"
| "create_next env now fails (Some sc) n Inserting t s =
     (if fails \<or> no_id n \<in> set (map or_id t) then (Undoing, t, s) else (CDone (Some (no_id n)), t @ [new_row sc n now], s))"
| "create_next env now fails (Some sc) n Undoing t s =
     (CDone None, t, if fails then s else case clearActiveOtp env s now (sc_identifier sc) (no_id n) (sc_purpose sc) of
        Inl e \<Rightarrow> s | Inr s' \<Rightarrow> s')"
| "create_next env now fails (Some sc) n (CDone v) t s = (CDone v, t, s)"

datatype discard_pc = Deleting | Unmarking | DDone bool

fun discard_next :: "'s otp_env \<Rightarrow> int \<Rightarrow> bool \<Rightarrow> otp_scope \<Rightarrow> string \<Rightarrow> discard_pc \<Rightarrow> otp_row list \<Rightarrow> 's
    \<Rightarrow> discard_pc \<times> otp_row list \<times> 's" where
  "discard_next env now fails sc i Deleting t s = (if fails then (DDone False, t, s) else (Unmarking, discard_row sc (js_lower i) t, s))"
| "discard_next env now fails sc i Unmarking t s =
     (if fails then (DDone False, t, s)
      else case clearActiveOtp env s now (sc_identifier sc) i (sc_purpose sc) of
        Inl e \<Rightarrow> (DDone False, t, s) | Inr s' \<Rightarrow> (DDone True, t, s'))"
| "discard_next env now fails sc i (DDone b) t s = (DDone b, t, s)"

section \<open>The system\<close>

datatype call =
    Verify otp_scope string "otp_row option" verify_pc
  | Create "otp_scope option" new_otp create_pc
  | Discard otp_scope string discard_pc
  | TurnedAway

record 's otp_system =
  sys_clock :: int
  sys_rows :: "otp_row list"
  sys_store :: 's
  sys_stages :: stages
  sys_calls :: "call list"

text \<open>A call that holds a slot of the admission, and how it ended.\<close>

fun working :: "call \<Rightarrow> bool" where
  "working (Verify sc otp f (VDone v)) = False"
| "working (Verify sc otp f pc) = True"
| "working (Create sc n (CDone v)) = False"
| "working (Create sc n pc) = True"
| "working _ = False"

fun threw :: "call \<Rightarrow> bool" where
  "threw (Verify sc otp f (VDone Threw)) = True"
| "threw (Create sc n (CDone None)) = True"
| "threw _ = False"

text \<open>\<open>otpAdmission.run('work', ...)\<close>: no slot, an exception before the first \<open>await\<close>, or a call at work.\<close>

definition run_work :: "call option \<Rightarrow> 's otp_system \<Rightarrow> 's otp_system" where
  "run_work c sys = (case admit ''work'' (sys_stages sys) of
     (Admitted, st) \<Rightarrow> (case c of
        None \<Rightarrow> sys\<lparr>sys_stages := settle_stage ''work'' True st, sys_calls := sys_calls sys @ [TurnedAway]\<rparr>
      | Some c \<Rightarrow> sys\<lparr>sys_stages := st, sys_calls := sys_calls sys @ [c]\<rparr>)
   | (_, st) \<Rightarrow> sys\<lparr>sys_stages := st, sys_calls := sys_calls sys @ [TurnedAway]\<rparr>)"

definition verifyOtp :: "'s otp_env \<Rightarrow> otp_request \<Rightarrow> string \<Rightarrow> 's otp_system \<Rightarrow> 's otp_system" where
  "verifyOtp env rq otp = run_work
     (case request_binding env rq of
        None \<Rightarrow> None
      | Some b \<Rightarrow>
          if verify_start b otp = Dummy then Some (Verify (otp_scope_of rq b []) otp None Dummy)
          else map_option (\<lambda>sc. Verify sc otp None Selecting) (request_scope env rq))"

definition createOtp :: "'s otp_env \<Rightarrow> otp_request \<Rightarrow> int \<Rightarrow> string \<Rightarrow> string \<Rightarrow> 's otp_system \<Rightarrow> 's otp_system" where
  "createOtp env rq draw requestId salt sys = run_work
     (case request_binding env rq of
        None \<Rightarrow> None
      | Some b \<Rightarrow>
          let c = generateOtpCode (test_identifiers env) (b \<noteq> None) (rq_identifier rq) draw in
          Some (Create (request_scope env rq)
            \<lparr>no_code = c, no_id = requestId, no_expires = sys_clock sys + otp_ttl_of env b * 1000, no_hash = bcrypt_hash env salt c\<rparr>
            Hashing)) sys"

definition discardUndeliveredOtp :: "'s otp_env \<Rightarrow> otp_request \<Rightarrow> string \<Rightarrow> 's otp_system \<Rightarrow> 's otp_system" where
  "discardUndeliveredOtp env rq requestId sys =
     (let c = (if requestId = [] then TurnedAway
        else case request_scope env (rq\<lparr>rq_device := map_option (\<lambda>(d, _). (d, Some requestId)) (rq_device rq)\<rparr>) of
          None \<Rightarrow> TurnedAway | Some sc \<Rightarrow> Discard sc requestId Deleting) in
      sys\<lparr>sys_calls := sys_calls sys @ [c]\<rparr>)"

fun move_call :: "'s otp_env \<Rightarrow> int \<Rightarrow> bool \<Rightarrow> otp_row option \<Rightarrow> call \<Rightarrow> otp_row list \<Rightarrow> 's \<Rightarrow> call \<times> otp_row list \<times> 's" where
  "move_call env now fails choice (Verify sc otp f pc) t s =
     (let (pc', t', s') = verify_next env now fails sc otp f pc t s in
      (Verify sc otp (if pc = Selecting \<and> \<not> fails then choice else f) pc', t', s'))"
| "move_call env now fails choice (Create sc n pc) t s =
     (let (pc', t', s') = create_next env now fails sc n pc t s in (Create sc n pc', t', s'))"
| "move_call env now fails choice (Discard sc i pc) t s =
     (let (pc', t', s') = discard_next env now fails sc i pc t s in (Discard sc i pc', t', s'))"
| "move_call env now fails choice TurnedAway t s = (TurnedAway, t, s)"

definition move :: "'s otp_env \<Rightarrow> bool \<Rightarrow> otp_row option \<Rightarrow> nat \<Rightarrow> 's otp_system \<Rightarrow> 's otp_system" where
  "move env fails choice i sys =
     (let c = sys_calls sys ! i;
          (c', t, s) = move_call env (sys_clock sys) fails choice c (sys_rows sys) (sys_store sys) in
      sys\<lparr>sys_rows := t, sys_store := s, sys_calls := (sys_calls sys)[i := c'],
          sys_stages := (if working c \<and> \<not> working c' then settle_stage ''work'' (threw c') (sys_stages sys) else sys_stages sys)\<rparr>)"

text \<open>The SELECT takes a newest candidate when there is one.\<close>

definition choice_ok :: "'s otp_system \<Rightarrow> nat \<Rightarrow> otp_row option \<Rightarrow> bool" where
  "choice_ok sys i choice = (case sys_calls sys ! i of
     Verify sc otp f Selecting \<Rightarrow> (let rows = candidates sc (sys_rows sys) in
       case choice of None \<Rightarrow> rows = [] | Some r \<Rightarrow> r \<in> set (newest rows))
   | _ \<Rightarrow> True)"

text \<open>The routes discard the code they have just made, with what they asked it for.\<close>

definition created_by :: "'s otp_env \<Rightarrow> 's otp_system \<Rightarrow> otp_request \<Rightarrow> string \<Rightarrow> bool" where
  "created_by env sys rq requestId \<longleftrightarrow>
     (\<exists>sc n. Create (Some sc) n (CDone (Some requestId)) \<in> set (sys_calls sys)
        \<and> sc_identifier sc = rq_identifier rq \<and> sc_type sc = rq_type rq \<and> sc_purpose sc = rq_purpose rq
        \<and> map_option bind_device (sc_binding sc)
          = map_option (\<lambda>(d, _). sha256 env (''pandapay-otp-device-v2'' @ CHR 0x00 # d)) (rq_device rq))"

text \<open>A random UUID is a new one.\<close>

definition used_ids :: "'s otp_system \<Rightarrow> string set" where
  "used_ids sys = set (map or_id (sys_rows sys)) \<union> {no_id n |sc n pc. Create sc n pc \<in> set (sys_calls sys)}"

inductive otp_step :: "'s otp_env \<Rightarrow> 's otp_system \<Rightarrow> 's otp_system \<Rightarrow> bool" for env where
  wait: "sys_clock sys \<le> now \<Longrightarrow> otp_step env sys (sys\<lparr>sys_clock := now\<rparr>)"
| call_verify: "otp_step env sys (verifyOtp env rq otp sys)"
| call_create: "draw_ok (rq_device rq \<noteq> None) draw \<Longrightarrow> uuid_v4 requestId \<Longrightarrow> js_lower requestId = requestId
    \<Longrightarrow> requestId \<notin> used_ids sys \<Longrightarrow> otp_step env sys (createOtp env rq draw requestId salt sys)"
| call_discard: "created_by env sys rq requestId \<Longrightarrow> otp_step env sys (discardUndeliveredOtp env rq requestId sys)"
| moves: "i < length (sys_calls sys) \<Longrightarrow> choice_ok sys i choice \<Longrightarrow> otp_step env sys (move env fails choice i sys)"
| cleans: "otp_step env sys (sys\<lparr>sys_rows := cleanupExpiredOtps (sys_clock sys) (sys_rows sys)\<rparr>)"

inductive_cases otp_stepE: "otp_step env sys sys'"

definition otp_init :: "'s \<Rightarrow> limits \<Rightarrow> int \<Rightarrow> 's otp_system" where
  "otp_init s l now = \<lparr>sys_clock = now, sys_rows = [], sys_store = s,
     sys_stages = (case createOtpWorkAdmission l of Some st \<Rightarrow> st | None \<Rightarrow> Map.empty), sys_calls = []\<rparr>"

inductive otp_reachable :: "'s otp_env \<Rightarrow> 's otp_system \<Rightarrow> 's otp_system \<Rightarrow> bool" for env and sys0 where
  start: "otp_reachable env sys0 sys0"
| step: "otp_reachable env sys0 sys \<Longrightarrow> otp_step env sys sys' \<Longrightarrow> otp_reachable env sys0 sys'"

end
