(* ===== verification/AbuseStoreProps.thy ===== *)
theory AbuseStoreProps
  imports AbuseStore
begin

text \<open>
  The two stores of \<open>AbuseStore\<close>: what is live in the table, the contract of a marker (locale
  \<open>marker_store\<close>, interpreted on both), and where the table answers as the Map does.
\<close>

section \<open>What is live\<close>

definition bucket_of :: "pg_bucket \<Rightarrow> bucket" where
  "bucket_of r = (case pb_kind r of CounterKind \<Rightarrow> Counter (pb_counter r) (pb_expires r)
     | MarkerKind \<Rightarrow> Marker (the (pb_marker r)) (pb_expires r))"

definition pg_live :: "pg_store \<Rightarrow> int \<Rightarrow> string \<Rightarrow> bucket option" where
  "pg_live t now d = (case pg_row t d of Some r \<Rightarrow> if now < pb_expires r then Some (bucket_of r) else None | None \<Rightarrow> None)"

text \<open>The primary key and the check of the table: a marker has a value.\<close>

definition pg_ok :: "pg_store \<Rightarrow> bool" where
  "pg_ok t \<longleftrightarrow> distinct (map pb_key t) \<and> (\<forall>r\<in>set t. pb_kind r = MarkerKind \<longrightarrow> pb_marker r \<noteq> None)"

lemma live_forget [simp]: "live (forget m now k) now' k' = (if k' = k \<and> live m now k = None then None else live m now' k')"
  if "now \<le> now'"
  using that by (auto simp: live_def forget_def split: option.splits)

lemma live_later: "live m now' k = Some b \<Longrightarrow> now \<le> now' \<Longrightarrow> live m now k = Some b"
  by (auto simp: live_def split: option.splits if_splits)

lemma live_earlier: "live m now k = None \<Longrightarrow> now \<le> now' \<Longrightarrow> live m now' k = None"
  by (auto simp: live_def split: option.splits if_splits)

lemma live_forget_id: "now \<le> now' \<Longrightarrow> live (forget m now k) now' = live m now'"
  by (rule ext) (auto simp: live_earlier)

lemma live_upd: "live (m(k \<mapsto> b)) now k' = (if k' = k then if expires_at b \<le> now then None else Some b else live m now k')"
  by (simp add: live_def)

lemma live_del: "live (m(k := None)) now k' = (if k' = k then None else live m now k')"
  by (simp add: live_def)

section \<open>Rows\<close>

lemma pg_row_Some: "pg_row t d = Some r \<Longrightarrow> r \<in> set t \<and> pb_key r = d"
  by (induction t) (auto simp: pg_row_def split: if_splits)

lemma pg_row_None: "pg_row t d = None \<longleftrightarrow> (\<forall>r\<in>set t. pb_key r \<noteq> d)"
  by (auto simp: pg_row_def find_None_iff)

lemma pg_row_unique: "distinct (map pb_key t) \<Longrightarrow> r \<in> set t \<Longrightarrow> pg_row t (pb_key r) = Some r"
  by (induction t) (auto simp: pg_row_def)

lemma pg_row_simps:
  "pg_row [] d = None" "pg_row (r # t) d = (if pb_key r = d then Some r else pg_row t d)"
  by (simp_all add: pg_row_def)

lemma pg_row_filter:
  assumes "distinct (map pb_key t)"
  shows "pg_row (filter P t) d = (case pg_row t d of Some r \<Rightarrow> if P r then Some r else None | None \<Rightarrow> None)"
  using assms
proof (induction t)
  case (Cons a t)
  have "pg_row t (pb_key a) = None" using Cons.prems by (simp add: pg_row_None) (metis image_eqI)
  then show ?case using Cons by (auto simp: pg_row_simps split: option.splits)
qed (simp add: pg_row_simps)

lemma pg_row_append: "pg_row (t @ u) d = (case pg_row t d of None \<Rightarrow> pg_row u d | Some r \<Rightarrow> Some r)"
  by (induction t) (auto simp: pg_row_def)

lemma pg_row_update:
  assumes "\<And>r. pb_key (f r) = pb_key r"
  shows "pg_row (update_row d f t) d' = (if d' = d then map_option f (pg_row t d) else pg_row t d')"
  using assms by (induction t) (auto simp: pg_row_def update_row_def)

lemma update_row_keys: "(\<And>r. pb_key (f r) = pb_key r) \<Longrightarrow> map pb_key (update_row d f t) = map pb_key t"
  by (auto simp: update_row_def)

lemma pg_ok_update:
  assumes "pg_ok t" "\<And>r. pb_key (f r) = pb_key r"
    and "\<And>r. r \<in> set t \<Longrightarrow> pb_key r = d \<Longrightarrow> pb_kind (f r) = MarkerKind \<longrightarrow> pb_marker (f r) \<noteq> None"
  shows "pg_ok (update_row d f t)"
  using assms unfolding pg_ok_def by (auto simp: update_row_keys) (auto simp: update_row_def split: if_splits)

lemma pg_ok_filter: "pg_ok t \<Longrightarrow> pg_ok (filter P t)"
  by (auto simp: pg_ok_def distinct_map_filter)

lemma cleanup_live:
  assumes "pg_ok t" "now \<le> now'"
  shows "pg_live (cleanup_expired batch locked now t) now' d = pg_live t now' d"
  using assms unfolding pg_live_def cleanup_expired_def pg_ok_def
  by (auto simp: pg_row_filter split: option.splits)

lemma lockOrCreate_row:
  assumes "lockOrCreate env t now d kind = Inr (b, t')" and "pg_ok t"
  shows "pg_ok t'" and "now \<le> now' \<Longrightarrow> pg_live t' now' d' = pg_live t now' d'"
    and "\<exists>r. pg_row t' d = Some r \<and> pb_kind r = kind \<and> b = (now < pb_expires r)"
proof -
  let ?c = "cleanup_expired (pg_batch env) (pg_locked env now) now t"
  have c: "pg_ok ?c" using assms(2) by (simp add: cleanup_expired_def pg_ok_filter)
  have none: "pg_row ?c d = None" if "pg_row t d = None"
    using that by (auto simp: pg_row_None cleanup_expired_def)
  consider r where "pg_row t d = Some r" "pb_kind r = kind" "b = (now < pb_expires r)" "t' = t"
    | "pg_row t d = None" "b = False" "t' = ?c @ [blank_row now d kind]"
    using assms(1) none by (auto simp: lockOrCreate_def locked_row_def Let_def split: option.splits if_splits)
  note cases = this
  show "pg_ok t'"
    using cases
  proof cases
    case 2
    then show ?thesis using c none[OF 2(1)]
      by (auto simp: pg_ok_def blank_row_def pg_row_None)
  qed (use assms(2) in simp)
  show "pg_live t' now' d' = pg_live t now' d'" if "now \<le> now'"
    using cases
  proof cases
    case 2
    have "pg_live t' now' d' = pg_live ?c now' d'"
      using that none[OF 2(1)] by (auto simp: 2(3) pg_live_def pg_row_append blank_row_def pg_row_simps split: option.splits)
    then show ?thesis by (simp add: cleanup_live[OF assms(2) that])
  qed simp
  show "\<exists>r. pg_row t' d = Some r \<and> pb_kind r = kind \<and> b = (now < pb_expires r)"
    using cases
  proof cases
    case 2
    then show ?thesis using none[OF 2(1)] by (simp add: 2 pg_row_append pg_row_simps blank_row_def)
  qed simp
qed

lemma bucket_of_marker: "pb_kind r = MarkerKind \<Longrightarrow> bucket_of r = Marker (the (pb_marker r)) (pb_expires r)"
  by (simp add: bucket_of_def)

lemma bucket_of_counter: "pb_kind r = CounterKind \<Longrightarrow> bucket_of r = Counter (pb_counter r) (pb_expires r)"
  by (simp add: bucket_of_def)

lemma pg_live_kind:
  "pg_row t d = Some r \<Longrightarrow> pg_live t now d = (if now < pb_expires r then Some (bucket_of r) else None)"
  by (simp add: pg_live_def)

lemma pg_live_update:
  assumes "\<And>r. pb_key (f r) = pb_key r"
  shows "pg_live (update_row d f t) now d'
    = (if d' = d then (case pg_row t d of Some r \<Rightarrow> if now < pb_expires (f r) then Some (bucket_of (f r)) else None | None \<Rightarrow> None)
       else pg_live t now d')"
  using assms by (auto simp: pg_live_def pg_row_update split: option.splits)

section \<open>The contract of a marker\<close>

text \<open>
  A store that keeps markers: \<open>holder s now k\<close> is the value of the live marker of \<open>k\<close>. A claim succeeds
  only where nothing is held and holds until its time is over; a deletion removes the marker only for
  who knows its value; neither touches another key; a marker never comes back by waiting.
\<close>

locale marker_store =
  fixes inv :: "'s \<Rightarrow> bool"
    and holder :: "'s \<Rightarrow> int \<Rightarrow> string \<Rightarrow> string option"
    and claim :: "'s \<Rightarrow> int \<Rightarrow> string \<Rightarrow> string \<Rightarrow> int \<Rightarrow> store_error + bool \<times> 's"
    and del :: "'s \<Rightarrow> int \<Rightarrow> string \<Rightarrow> string \<Rightarrow> store_error + bool \<times> 's"
  assumes claim_won: "\<lbrakk>inv s; claim s now k v ttl = Inr (True, s')\<rbrakk> \<Longrightarrow> inv s' \<and> holder s now k = None
      \<and> (\<forall>t \<ge> now. \<forall>k'. holder s' t k' = (if k' = k then if t < now + ttl * 1000 then Some v else None else holder s t k'))"
    and claim_lost: "\<lbrakk>inv s; claim s now k v ttl = Inr (False, s')\<rbrakk> \<Longrightarrow> inv s' \<and> holder s now k \<noteq> None
      \<and> (\<forall>t \<ge> now. \<forall>k'. holder s' t k' = holder s t k')"
    and deleted: "\<lbrakk>inv s; del s now k v = Inr (b, s')\<rbrakk> \<Longrightarrow> inv s'
      \<and> (\<forall>t \<ge> now. \<forall>k'. holder s' t k' = (if k' = k \<and> holder s t k = Some v then None else holder s t k'))"
    and holder_back: "\<lbrakk>inv s; holder s t k = Some v; now \<le> t\<rbrakk> \<Longrightarrow> holder s now k = Some v"
begin

lemma held_excludes:
  assumes "inv s" "holder s now k = Some v"
  shows "claim s now k w ttl \<noteq> Inr (True, s')"
  using claim_won[OF assms(1)] assms(2) by force

lemma claimed_holds:
  assumes "inv s" "claim s now k v ttl = Inr (True, s')" "now \<le> t" "t < now + ttl * 1000"
  shows "holder s' t k = Some v"
  using claim_won[OF assms(1,2)] assms(3,4) by simp

lemma delete_needs_value:
  assumes "inv s" "del s now k v = Inr (b, s')" "holder s t k' = Some w" "now \<le> t" "k' \<noteq> k \<or> w \<noteq> v"
  shows "holder s' t k' = Some w"
  using deleted[OF assms(1,2)] assms(3-5) by auto

end

fun marker_value :: "bucket option \<Rightarrow> string option" where
  "marker_value (Some (Marker v e)) = Some v"
| "marker_value _ = None"

definition mem_holder :: "mem_store \<Rightarrow> int \<Rightarrow> string \<Rightarrow> string option" where
  "mem_holder m now k = marker_value (live m now k)"

lemma claim_mem_cases:
  assumes "mem_claimMarker m now k v ttl = Inr (b, m')"
  obtains "b" "live m now k = None" "m' = (forget m now k)(k \<mapsto> Marker v (now + ttl * 1000))" "1 \<le> ttl"
  | w e where "\<not> b" "live m now k = Some (Marker w e)" "m' = m"
  using assms by (auto simp: mem_claimMarker_def validateTtlSeconds_def validateMarker_def ebind_eq_Inr
      split: option.splits bucket.splits)

lemma compareDelete_mem_cases:
  assumes "mem_compareDelete m now k v = Inr (b, m')"
  obtains e where "b" "live m now k = Some (Marker v e)" "m' = m(k := None)"
  | "\<not> b" "\<And>e. live m now k \<noteq> Some (Marker v e)" "m' = m \<or> m' = forget m now k"
  using assms by (auto simp: mem_compareDelete_def validateMarker_def ebind_eq_Inr
      split: option.splits bucket.splits if_splits)

interpretation mem_marker: marker_store "\<lambda>_. True" mem_holder mem_claimMarker mem_compareDelete
proof
  fix s s' :: mem_store and now :: int and k v :: string and ttl :: int
  assume "mem_claimMarker s now k v ttl = Inr (True, s')"
  then show "True \<and> mem_holder s now k = None \<and> (\<forall>t \<ge> now. \<forall>k'. mem_holder s' t k' =
      (if k' = k then if t < now + ttl * 1000 then Some v else None else mem_holder s t k'))"
    by (cases rule: claim_mem_cases) (auto simp: mem_holder_def live_upd live_forget_id)
next
  fix s s' :: mem_store and now :: int and k v :: string and ttl :: int
  assume "mem_claimMarker s now k v ttl = Inr (False, s')"
  then show "True \<and> mem_holder s now k \<noteq> None \<and> (\<forall>t \<ge> now. \<forall>k'. mem_holder s' t k' = mem_holder s t k')"
    by (cases rule: claim_mem_cases) (auto simp: mem_holder_def)
next
  fix s s' :: mem_store and now :: int and k v :: string and b
  assume "mem_compareDelete s now k v = Inr (b, s')"
  then show "True \<and> (\<forall>t \<ge> now. \<forall>k'. mem_holder s' t k' =
      (if k' = k \<and> mem_holder s t k = Some v then None else mem_holder s t k'))"
  proof (cases rule: compareDelete_mem_cases)
    case (1 e)
    show ?thesis
    proof (intro conjI allI impI)
      fix t k' assume t: "now \<le> t"
      have "live s t k = None \<or> live s t k = Some (Marker v e)"
        using live_later[OF _ t, of s k] 1(2) by (cases "live s t k") auto
      then show "mem_holder s' t k' = (if k' = k \<and> mem_holder s t k = Some v then None else mem_holder s t k')"
        by (auto simp: mem_holder_def live_del 1(3))
    qed simp
  next
    case 2
    have "mem_holder s t k \<noteq> Some v" if "now \<le> t" for t
      using live_later[OF _ that, of s k] 2(2)
      by (cases "live s t k" rule: marker_value.cases) (auto simp: mem_holder_def split: if_splits)
    moreover have "mem_holder s' t = mem_holder s t" if "now \<le> t" for t
      using 2(3) that by (auto simp: mem_holder_def live_forget_id)
    ultimately show ?thesis by simp
  qed
next
  fix s :: mem_store and t now :: int and k v :: string
  assume "mem_holder s t k = Some v" "now \<le> t"
  then show "mem_holder s now k = Some v"
    using live_later[of s t k _ now] by (cases "live s t k") (auto simp: mem_holder_def split: if_splits)
qed

definition pg_holder :: "pg_store \<Rightarrow> int \<Rightarrow> string \<Rightarrow> string option" where
  "pg_holder t now d = marker_value (pg_live t now d)"

lemma marked_row:
  "pb_key (marked now v ttl r) = pb_key r" "pb_kind (marked now v ttl r) = pb_kind r"
  "pb_marker (marked now v ttl r) = Some v" "pb_expires (marked now v ttl r) = now + ttl * 1000"
  by (simp_all add: marked_def)

lemma claim_pg_cases:
  assumes "pg_claimMarker env t now d v ttl = Inr (b, t')" and "pg_ok t"
  obtains u where "b" "pg_live t now d = None" "t' = update_row d (marked now v ttl) u" "pg_ok u" "1 \<le> ttl"
      "\<And>now' d'. now \<le> now' \<Longrightarrow> pg_live u now' d' = pg_live t now' d'" "\<exists>r. pg_row u d = Some r \<and> pb_kind r = MarkerKind"
  | r where "\<not> b" "pg_live t now d = Some (bucket_of r)" "pb_kind r = MarkerKind" "pg_ok t'"
      "\<And>now' d'. now \<le> now' \<Longrightarrow> pg_live t' now' d' = pg_live t now' d'"
proof -
  obtain c u where u: "lockOrCreate env t now d MarkerKind = Inr (c, u)"
    and res: "b = (\<not> c)" "t' = (if c then u else update_row d (marked now v ttl) u)" "1 \<le> ttl"
    using assms(1) by (simp add: pg_claimMarker_def validateTtlSeconds_def validateMarker_def ebind_eq_Inr split: prod.splits if_splits)
      (metis prod.collapse)+
  note l = lockOrCreate_row[OF u assms(2)]
  obtain r where r: "pg_row u d = Some r" "pb_kind r = MarkerKind" "c = (now < pb_expires r)" using l(3) by blast
  have now: "pg_live t now d = (if c then Some (bucket_of r) else None)"
    using l(2)[of now d] r by (simp add: pg_live_kind)
  show thesis
  proof (cases c)
    case True
    show thesis by (rule that(2)[of r]) (use True res now r l in simp_all)
  next
    case False
    show thesis by (rule that(1)[of u]) (use False res now r l in simp_all)
  qed
qed

lemma pg_kind_live: "pg_ok t \<Longrightarrow> pg_row t d = Some r \<Longrightarrow> now < pb_expires r \<Longrightarrow> pb_kind r = MarkerKind
  \<Longrightarrow> pg_live t now d = Some (Marker v e) \<longleftrightarrow> pb_marker r = Some v \<and> e = pb_expires r"
  using pg_row_Some[of t d r] by (auto simp: pg_live_def bucket_of_def pg_ok_def)

lemma compareDelete_pg_live:
  assumes "pg_ok t"
  shows "pg_live (filter (\<lambda>r. \<not> (pb_key r = d \<and> pb_kind r = MarkerKind \<and> pb_marker r = Some v)) t) now d'
    = (if d' = d \<and> marker_value (pg_live t now d) = Some v then None else pg_live t now d')"
proof (cases "pg_row t d'")
  case None
  then show ?thesis using assms by (auto simp: pg_live_def pg_row_filter pg_ok_def)
next
  case (Some r)
  have r: "r \<in> set t" "pb_key r = d'" using pg_row_Some[OF Some] by simp_all
  have "marker_value (Some (bucket_of r)) = Some v \<longleftrightarrow> pb_kind r = MarkerKind \<and> pb_marker r = Some v"
    using assms r(1) by (cases "pb_kind r") (auto simp: bucket_of_def pg_ok_def)
  then show ?thesis using assms Some r by (auto simp: pg_live_def pg_row_filter pg_ok_def)
qed

interpretation pg_marker: marker_store pg_ok pg_holder "pg_claimMarker env" "\<lambda>t now. pg_compareDelete t" for env
proof
  fix s s' :: pg_store and now :: int and k v :: string and ttl :: int
  assume ok: "pg_ok s" and c: "pg_claimMarker env s now k v ttl = Inr (True, s')"
  from c ok show "pg_ok s' \<and> pg_holder s now k = None \<and> (\<forall>t \<ge> now. \<forall>k'. pg_holder s' t k' =
      (if k' = k then if t < now + ttl * 1000 then Some v else None else pg_holder s t k'))"
  proof (cases rule: claim_pg_cases)
    case (1 u)
    obtain r where r: "pg_row u k = Some r" "pb_kind r = MarkerKind" using 1 by blast
    have "pg_ok s'" unfolding 1(3) by (rule pg_ok_update) (use 1 in \<open>simp_all add: marked_row\<close>)
    then show ?thesis using 1(2) r 1(6)
      by (simp add: pg_holder_def 1(3) pg_live_update marked_row bucket_of_def)
  qed simp
next
  fix s s' :: pg_store and now :: int and k v :: string and ttl :: int
  assume ok: "pg_ok s" and c: "pg_claimMarker env s now k v ttl = Inr (False, s')"
  from c ok show "pg_ok s' \<and> pg_holder s now k \<noteq> None \<and> (\<forall>t \<ge> now. \<forall>k'. pg_holder s' t k' = pg_holder s t k')"
    by (cases rule: claim_pg_cases) (simp_all add: pg_holder_def bucket_of_marker)
next
  fix s s' :: pg_store and now :: int and k v :: string and b
  assume ok: "pg_ok s" and c: "pg_compareDelete s k v = Inr (b, s')"
  have s': "s' = filter (\<lambda>r. \<not> (pb_key r = k \<and> pb_kind r = MarkerKind \<and> pb_marker r = Some v)) s"
    using c by (auto simp: pg_compareDelete_def ebind_eq_Inr Let_def)
  have "pg_holder s' t k' = (if k' = k \<and> pg_holder s t k = Some v then None else pg_holder s t k')" for t k'
    unfolding pg_holder_def s' compareDelete_pg_live[OF ok] by simp
  then show "pg_ok s' \<and> (\<forall>t \<ge> now. \<forall>k'. pg_holder s' t k' =
      (if k' = k \<and> pg_holder s t k = Some v then None else pg_holder s t k'))"
    using ok by (simp add: s' pg_ok_filter)
next
  fix s :: pg_store and t now :: int and k v :: string
  assume "pg_holder s t k = Some v" "now \<le> t"
  then show "pg_holder s now k = Some v"
    by (auto simp: pg_holder_def pg_live_def split: option.splits if_splits)
qed

section \<open>The table answers as the Map does\<close>

datatype store_op = Increment string int int | Get string | Exists string | SetTTL string string int
  | Claim string string int | CompareDelete string string

datatype store_answer = Num int | Flag bool

definition answered :: "('a \<Rightarrow> store_answer) \<Rightarrow> store_error + 'a \<times> 's \<Rightarrow> store_error + store_answer \<times> 's" where
  "answered f r = (case r of Inl e \<Rightarrow> Inl e | Inr (a, s) \<Rightarrow> Inr (f a, s))"

fun mem_call :: "int \<Rightarrow> store_op \<Rightarrow> mem_store \<Rightarrow> store_error + store_answer \<times> mem_store" where
  "mem_call now (Increment k ttl sat) m = answered Num (mem_increment m now k ttl sat)"
| "mem_call now (Get k) m = answered Num (mem_get m now k)"
| "mem_call now (Exists k) m = answered Flag (mem_exists m now k)"
| "mem_call now (SetTTL k v ttl) m = answered Flag (mem_setWithTTL m now k v ttl)"
| "mem_call now (Claim k v ttl) m = answered Flag (mem_claimMarker m now k v ttl)"
| "mem_call now (CompareDelete k v) m = answered Flag (mem_compareDelete m now k v)"

text \<open>The digest is \<open>toBucketKey\<close> with the secret of the server, checked when the store is created.\<close>

fun pg_call :: "(string \<Rightarrow> string) \<Rightarrow> pg_env \<Rightarrow> int \<Rightarrow> store_op \<Rightarrow> pg_store \<Rightarrow> store_error + store_answer \<times> pg_store" where
  "pg_call dig env now (Increment k ttl sat) t = answered Num (pg_increment env t now (dig k) ttl sat)"
| "pg_call dig env now (Get k) t = answered Num (pg_get t now (dig k))"
| "pg_call dig env now (Exists k) t = answered Flag (pg_exists t now (dig k))"
| "pg_call dig env now (SetTTL k v ttl) t = answered Flag (pg_setWithTTL env t now (dig k) v ttl)"
| "pg_call dig env now (Claim k v ttl) t = answered Flag (pg_claimMarker env t now (dig k) v ttl)"
| "pg_call dig env now (CompareDelete k v) t = answered Flag (pg_compareDelete t (dig k) v)"

fun op_key :: "store_op \<Rightarrow> string" where
  "op_key (Increment k ttl sat) = k" | "op_key (Get k) = k" | "op_key (Exists k) = k"
| "op_key (SetTTL k v ttl) = k" | "op_key (Claim k v ttl) = k" | "op_key (CompareDelete k v) = k"

fun op_kind :: "store_op \<Rightarrow> bucket_kind" where
  "op_kind (Increment k ttl sat) = CounterKind" | "op_kind (Get k) = CounterKind"
| "op_kind _ = MarkerKind"

definition agree :: "(string \<Rightarrow> bucket_kind) \<Rightarrow> (string \<Rightarrow> string) \<Rightarrow> int \<Rightarrow> mem_store \<Rightarrow> pg_store \<Rightarrow> bool" where
  "agree kinds dig now m t \<longleftrightarrow> pg_ok t \<and> (\<forall>t' \<ge> now. \<forall>k. live m t' k = pg_live t t' (dig k))
     \<and> (\<forall>k r. pg_row t (dig k) = Some r \<longrightarrow> pb_kind r = kinds k)"

lemma agree_later: "agree kinds dig now m t \<Longrightarrow> now \<le> now' \<Longrightarrow> agree kinds dig now' m t"
  by (auto simp: agree_def)

lemma agree_live: "agree kinds dig now m t \<Longrightarrow> live m now k = pg_live t now (dig k)"
  by (simp add: agree_def)

lemma agree_kinds: "agree kinds dig now m t \<Longrightarrow> live m now k = Some b \<Longrightarrow>
    (case b of Counter n e \<Rightarrow> kinds k = CounterKind | Marker v e \<Rightarrow> kinds k = MarkerKind)"
  by (auto simp: agree_live) (auto simp: agree_def pg_live_def bucket_of_def split: option.splits if_splits bucket_kind.splits)

lemma cleanup_row: "pg_ok t \<Longrightarrow> pg_row (cleanup_expired b l now t) d = Some r \<Longrightarrow> pg_row t d = Some r"
  by (auto simp: cleanup_expired_def pg_ok_def pg_row_filter split: option.splits if_splits)

lemma lockOrCreate_kind:
  assumes "lockOrCreate env t now d kind = Inr (b, t')" "pg_ok t" "pg_row t' d' = Some r"
  shows "pg_row t d' = Some r \<or> d' = d \<and> pb_kind r = kind"
  using assms cleanup_row[OF assms(2), of "pg_batch env" "pg_locked env now" now]
  by (auto simp: lockOrCreate_def locked_row_def Let_def pg_row_append pg_row_simps blank_row_def
      split: option.splits if_splits)

lemma lockOrCreate_error:
  assumes "lockOrCreate env t now d kind = Inl e" "pg_ok t" "\<And>r. pg_row t d = Some r \<Longrightarrow> pb_kind r = kind"
  shows "e = CapacityErr"
  using assms cleanup_row[OF assms(2), of "pg_batch env" "pg_locked env now" now]
  by (auto simp: lockOrCreate_def locked_row_def Let_def split: option.splits if_splits)

text \<open>After the row of a key is locked, an update of it that keeps key and kind.\<close>

lemma agree_update:
  assumes a: "agree kinds dig now m t" and inj: "inj dig" and kind: "kinds k = kind"
    and l: "lockOrCreate env t now (dig k) kind = Inr (b, u)" and r: "pg_row u (dig k) = Some r"
    and f: "\<And>r. pb_key (f r) = pb_key r" "\<And>r. pb_kind (f r) = pb_kind r" "kind = MarkerKind \<Longrightarrow> pb_marker (f r) \<noteq> None"
    and m': "m' = m(k \<mapsto> bucket_of (f r)) \<or> m' = (forget m now k)(k \<mapsto> bucket_of (f r))"
  shows "agree kinds dig now m' (update_row (dig k) f u)"
proof -
  have ok: "pg_ok t" using a by (simp add: agree_def)
  note row = lockOrCreate_row[OF l ok]
  have rk: "pb_kind r = kind" using row(3) r by auto
  have only: "r' = r" if "r' \<in> set u" "pb_key r' = dig k" for r'
    using pg_row_unique[of u r'] row(1) that r by (simp add: pg_ok_def)
  have e: "expires_at (bucket_of (f r)) = pb_expires (f r)" by (simp add: bucket_of_def split: bucket_kind.splits)
  have "pg_ok (update_row (dig k) f u)"
    by (rule pg_ok_update[OF row(1) f(1)]) (use only f rk in auto)
  moreover have "live m' t' k' = pg_live (update_row (dig k) f u) t' (dig k')" if t': "now \<le> t'" for t' k'
  proof -
    have "live m' t' k' = (if k' = k then if pb_expires (f r) \<le> t' then None else Some (bucket_of (f r)) else live m t' k')"
      using m' t' by (auto simp: live_upd e live_forget_id)
    then show ?thesis using a t' row(2)[OF t'] r injD[OF inj, of k' k]
      by (auto simp: agree_def pg_live_update[OF f(1)])
  qed
  moreover have "pb_kind r' = kinds k'" if "pg_row (update_row (dig k) f u) (dig k') = Some r'" for k' r'
  proof (cases "dig k' = dig k")
    case True
    then show ?thesis using that injD[OF inj True] r f(2) rk kind by (auto simp: pg_row_update[OF f(1)])
  next
    case False
    then have "pg_row u (dig k') = Some r'" using that by (simp add: pg_row_update[OF f(1)])
    then show ?thesis using lockOrCreate_kind[OF l ok] a False unfolding agree_def by metis
  qed
  ultimately show ?thesis by (simp add: agree_def)
qed

lemma locked_live:
  assumes a: "agree kinds dig now m t" and l: "lockOrCreate env t now (dig k) kind = Inr (b, u)"
    and r: "pg_row u (dig k) = Some r"
  shows "live m now k = (if now < pb_expires r then Some (bucket_of r) else None)"
proof -
  have "pg_ok t" using a by (simp add: agree_def)
  then show ?thesis
    using agree_live[OF a, of k] lockOrCreate_row(2)[OF l _ order_refl, of "dig k"] pg_live_kind[OF r, of now] by simp
qed

lemma counted_row: "pb_key (counted now ttl sat r) = pb_key r" "pb_kind (counted now ttl sat r) = pb_kind r"
  by (simp_all add: counted_def)

text \<open>\<open>answers_as\<close>: the table gives the answer of the Map, or has no room for a new key.\<close>

definition answers_as :: "(string \<Rightarrow> bucket_kind) \<Rightarrow> (string \<Rightarrow> string) \<Rightarrow> int \<Rightarrow> store_error + store_answer \<times> mem_store
    \<Rightarrow> store_error + store_answer \<times> pg_store \<Rightarrow> bool" where
  "answers_as kinds dig now x y = (case y of
     Inl e \<Rightarrow> e = CapacityErr \<or> x = Inl e
   | Inr (a, t') \<Rightarrow> (\<exists>m'. x = Inr (a, m') \<and> agree kinds dig now m' t'))"

lemma agree_forget: "agree kinds dig now m t \<Longrightarrow> agree kinds dig now (forget m now k) t"
  by (simp add: agree_def live_forget_id)

lemma increment_agrees:
  assumes a: "agree kinds dig now m t" and inj: "inj dig" and kind: "kinds k = CounterKind"
  shows "answers_as kinds dig now (answered Num (mem_increment m now k ttl sat))
    (answered Num (pg_increment env t now (dig k) ttl sat))"
proof (cases "1 \<le> ttl \<and> ttl \<le> 2592000 \<and> 1 \<le> sat \<and> sat \<le> MAX_COUNTER")
  case False
  then show ?thesis
    by (auto simp: answers_as_def answered_def pg_increment_def mem_increment_def validateTtlSeconds_def validateSaturation_def echeck_def)
next
  case True
  note args = True
  have ok: "pg_ok t" using a by (simp add: agree_def)
  show ?thesis
  proof (cases "lockOrCreate env t now (dig k) CounterKind")
    case (Inl e)
    then show ?thesis using lockOrCreate_error[OF Inl ok] a kind args
      by (auto simp: answers_as_def answered_def pg_increment_def validateTtlSeconds_def validateSaturation_def agree_def)
  next
    case (Inr bu)
    obtain b u where l: "lockOrCreate env t now (dig k) CounterKind = Inr (b, u)" using Inr by (cases bu) auto
    obtain r where r: "pg_row u (dig k) = Some r" "pb_kind r = CounterKind" "b = (now < pb_expires r)"
      using lockOrCreate_row(3)[OF l ok] by blast
    have lv: "live m now k = (if b then Some (Counter (pb_counter r) (pb_expires r)) else None)"
      using locked_live[OF a l r(1)] r by (simp add: bucket_of_counter)
    let ?r = "counted now ttl sat r"
    have pg: "answered Num (pg_increment env t now (dig k) ttl sat)
        = Inr (Num (pb_counter ?r), update_row (dig k) (counted now ttl sat) u)"
      using l r args by (simp add: answered_def pg_increment_def validateTtlSeconds_def validateSaturation_def Let_def
          pg_row_update[OF counted_row(1)])
    define m' where "m' = (if b then m(k \<mapsto> bucket_of ?r) else (forget m now k)(k \<mapsto> bucket_of ?r))"
    have mem: "answered Num (mem_increment m now k ttl sat) = Inr (Num (pb_counter ?r), m')"
      using lv r args by (auto simp: answered_def mem_increment_def validateTtlSeconds_def validateSaturation_def Let_def
          bucket_of_def counted_def m'_def min.commute)
    have "agree kinds dig now m' (update_row (dig k) (counted now ttl sat) u)"
      by (rule agree_update[OF a inj kind l r(1)]) (simp_all add: counted_row m'_def)
    then show ?thesis by (simp add: answers_as_def pg mem)
  qed
qed

lemma marker_agrees:
  assumes a: "agree kinds dig now m t" and inj: "inj dig" and kind: "kinds k = MarkerKind"
  shows "answers_as kinds dig now (answered Flag (mem_claimMarker m now k v ttl))
      (answered Flag (pg_claimMarker env t now (dig k) v ttl))" (is ?claim)
    and "answers_as kinds dig now (answered Flag (mem_setWithTTL m now k v ttl))
      (answered Flag (pg_setWithTTL env t now (dig k) v ttl))" (is ?set)
proof -
  have ok: "pg_ok t" using a by (simp add: agree_def)
  have "?claim \<and> ?set"
  proof (cases "1 \<le> ttl \<and> ttl \<le> 2592000 \<and> length v \<le> 128")
    case False
    then show ?thesis by (auto simp: answers_as_def answered_def pg_claimMarker_def mem_claimMarker_def
        pg_setWithTTL_def mem_setWithTTL_def validateTtlSeconds_def validateMarker_def echeck_def)
  next
    case True
    note args = True
    show ?thesis
    proof (cases "lockOrCreate env t now (dig k) MarkerKind")
      case (Inl e)
      then show ?thesis using lockOrCreate_error[OF Inl ok] a kind args
        by (auto simp: answers_as_def answered_def pg_claimMarker_def pg_setWithTTL_def validateTtlSeconds_def validateMarker_def agree_def)
    next
      case (Inr bu)
      obtain b u where l: "lockOrCreate env t now (dig k) MarkerKind = Inr (b, u)" using Inr by (cases bu) auto
      obtain r where r: "pg_row u (dig k) = Some r" "pb_kind r = MarkerKind" "b = (now < pb_expires r)"
        using lockOrCreate_row(3)[OF l ok] by blast
      have lv: "live m now k = (if b then Some (Marker (the (pb_marker r)) (pb_expires r)) else None)"
        using locked_live[OF a l r(1)] r by (simp add: bucket_of_marker)
      have new: "bucket_of (marked now v ttl r) = Marker v (now + ttl * 1000)"
        by (simp add: bucket_of_def marked_row r)
      have upd: "agree kinds dig now m' (update_row (dig k) (marked now v ttl) u)"
        if "m' = m(k \<mapsto> Marker v (now + ttl * 1000)) \<or> m' = (forget m now k)(k \<mapsto> Marker v (now + ttl * 1000))" for m'
        by (rule agree_update[OF a inj kind l r(1)]) (use that in \<open>simp_all add: marked_row new\<close>)
      have same: "agree kinds dig now m u" if b
        using a that lockOrCreate_kind[OF l ok] kind lockOrCreate_row(1,2)[OF l ok] injD[OF inj]
        unfolding agree_def by metis
      show ?thesis
        using l lv args upd same by (cases b) (auto simp: answers_as_def answered_def pg_claimMarker_def mem_claimMarker_def
            pg_setWithTTL_def mem_setWithTTL_def validateTtlSeconds_def validateMarker_def)
    qed
  qed
  then show ?claim ?set by simp_all
qed

lemma read_agrees:
  assumes a: "agree kinds dig now m t"
  shows "kinds k = CounterKind \<Longrightarrow>
      answers_as kinds dig now (answered Num (mem_get m now k)) (answered Num (pg_get t now (dig k)))"
    and "kinds k = MarkerKind \<Longrightarrow>
      answers_as kinds dig now (answered Flag (mem_exists m now k)) (answered Flag (pg_exists t now (dig k)))"
proof -
  have ok: "distinct (map pb_key t)" using a by (simp add: agree_def pg_ok_def)
  have sel: "filter (\<lambda>r. pb_key r = d \<and> P r) t = (case pg_row t d of Some r \<Rightarrow> if P r then [r] else [] | None \<Rightarrow> [])" for d P
    using ok by (induction t) (auto simp: pg_row_simps filter_empty_conv image_iff split: option.splits, (metis pg_row_Some)+)
  show "answers_as kinds dig now (answered Num (mem_get m now k)) (answered Num (pg_get t now (dig k)))"
    if "kinds k = CounterKind"
    using that a agree_live[OF a, of k] agree_forget[OF a]
    by (auto simp: answers_as_def answered_def mem_get_def pg_get_def sel pg_live_def agree_def bucket_of_counter split: option.splits)
  show "answers_as kinds dig now (answered Flag (mem_exists m now k)) (answered Flag (pg_exists t now (dig k)))"
    if "kinds k = MarkerKind"
    using that a agree_live[OF a, of k] agree_forget[OF a]
    by (auto simp: answers_as_def answered_def mem_exists_def pg_exists_def sel pg_live_def agree_def split: option.splits)
qed

lemma compareDelete_agrees:
  assumes a: "agree kinds dig now m t" and inj: "inj dig" and kind: "kinds k = MarkerKind"
  shows "case pg_compareDelete t (dig k) v of Inl e \<Rightarrow> mem_compareDelete m now k v = Inl e
    | Inr (b, t') \<Rightarrow> \<exists>b' m'. mem_compareDelete m now k v = Inr (b', m') \<and> agree kinds dig now m' t'"
proof (cases "length v \<le> 128")
  case False
  then show ?thesis by (auto simp: pg_compareDelete_def mem_compareDelete_def validateMarker_def echeck_def)
next
  case True
  define P :: "pg_bucket \<Rightarrow> bool" where "P = (\<lambda>r. \<not> (pb_key r = dig k \<and> pb_kind r = MarkerKind \<and> pb_marker r = Some v))"
  let ?t = "filter P t"
  have ok: "pg_ok t" using a by (simp add: agree_def)
  have "mem_compareDelete m now k v \<noteq> Inl e" for e
    using True by (cases "live m now k" rule: marker_value.cases)
      (auto simp: mem_compareDelete_def validateMarker_def split: if_splits)
  then obtain b m' where d: "mem_compareDelete m now k v = Inr (b, m')"
    by (cases "mem_compareDelete m now k v") auto
  have "live m' t' k' = (if k' = k \<and> marker_value (live m t' k) = Some v then None else live m t' k')" if "now \<le> t'" for t' k'
    using d
  proof (cases rule: compareDelete_mem_cases)
    case (1 e)
    have "live m t' k = None \<or> live m t' k = Some (Marker v e)"
      using live_later[OF _ that, of m k] 1(2) by (cases "live m t' k") auto
    then show ?thesis by (auto simp: 1(3) live_del)
  next
    case 2
    have "marker_value (live m t' k) \<noteq> Some v"
      using live_later[OF _ that, of m k] 2(2) by (cases "live m t' k" rule: marker_value.cases) auto
    then show ?thesis using 2(3) that by (auto simp: live_forget_id)
  qed
  moreover have "pg_live ?t t' (dig k') = (if k' = k \<and> marker_value (pg_live t t' (dig k)) = Some v then None
      else pg_live t t' (dig k'))" for t' k'
    using compareDelete_pg_live[OF ok, of "dig k" v t' "dig k'"] injD[OF inj, of k' k] by (auto simp: P_def)
  moreover have "pg_row ?t d = Some r \<Longrightarrow> pg_row t d = Some r" for d r
    using ok by (auto simp: pg_ok_def pg_row_filter split: option.splits if_splits)
  ultimately have "agree kinds dig now m' ?t"
    using a pg_ok_filter[OF ok] unfolding agree_def by simp
  then show ?thesis using True d by (simp add: pg_compareDelete_def validateMarker_def Let_def P_def)
qed

text \<open>A sequence of calls at given times: the answers, errors included, and the store it leaves.\<close>

definition answer_of :: "store_error + store_answer \<times> 's \<Rightarrow> store_error + store_answer" where
  "answer_of r = map_sum id fst r"

definition store_after :: "store_error + store_answer \<times> 's \<Rightarrow> 's \<Rightarrow> 's" where
  "store_after r s = (case r of Inl e \<Rightarrow> s | Inr (a, s') \<Rightarrow> s')"

fun run_calls :: "(int \<Rightarrow> store_op \<Rightarrow> 's \<Rightarrow> store_error + store_answer \<times> 's) \<Rightarrow> 's \<Rightarrow> (int \<times> store_op) list
    \<Rightarrow> (store_error + store_answer) list" where
  "run_calls call s [] = []"
| "run_calls call s ((now, op) # ops) = answer_of (call now op s) # run_calls call (store_after (call now op s) s) ops"

fun run_store :: "(int \<Rightarrow> store_op \<Rightarrow> 's \<Rightarrow> store_error + store_answer \<times> 's) \<Rightarrow> 's \<Rightarrow> (int \<times> store_op) list \<Rightarrow> 's" where
  "run_store call s [] = s"
| "run_store call s ((now, op) # ops) = run_store call (store_after (call now op s) s) ops"

text \<open>
  The one call the stores answer differently: the deletion of a marker that has expired and whose row is still in the
  table. The table finds the row; the Map has nothing.
\<close>

definition late_delete :: "(string \<Rightarrow> string) \<Rightarrow> int \<Rightarrow> store_op \<Rightarrow> mem_store \<Rightarrow> pg_store \<Rightarrow> bool" where
  "late_delete dig now op m t \<longleftrightarrow> (\<exists>k v r. op = CompareDelete k v \<and> live m now k = None \<and> pg_row t (dig k) = Some r
     \<and> pb_marker r = Some v \<and> length v \<le> 128 \<and> pb_expires r \<le> now)"

definition answered_alike :: "(string \<Rightarrow> string) \<Rightarrow> int \<Rightarrow> store_op \<Rightarrow> mem_store \<Rightarrow> pg_store
    \<Rightarrow> store_error + store_answer \<Rightarrow> store_error + store_answer \<Rightarrow> bool" where
  "answered_alike dig now op m t a b \<longleftrightarrow> a = b \<and> \<not> late_delete dig now op m t
     \<or> late_delete dig now op m t \<and> a = Inr (Flag False) \<and> b = Inr (Flag True)"

lemma deleted_any: "length (filter (\<lambda>r. \<not> P r) t) < length t \<longleftrightarrow> (\<exists>r \<in> set t. P r)"
  by (induction t) (auto simp: less_Suc_eq_le)

lemma compareDelete_answer:
  assumes a: "agree kinds dig now m t" and kind: "kinds k = MarkerKind"
  shows "answered_alike dig now (CompareDelete k v) m t (answer_of (mem_call now (CompareDelete k v) m))
    (answer_of (pg_call dig env now (CompareDelete k v) t))"
proof (cases "length v \<le> 128")
  case False
  then show ?thesis by (auto simp: answered_alike_def late_delete_def answer_of_def answered_def pg_compareDelete_def
      mem_compareDelete_def validateMarker_def echeck_def)
next
  case True
  note short = True
  have ok: "pg_ok t" using a by (simp add: agree_def)
  let ?P = "\<lambda>r. pb_key r = dig k \<and> pb_kind r = MarkerKind \<and> pb_marker r = Some v"
  have hosted: "answer_of (pg_call dig env now (CompareDelete k v) t) = Inr (Flag (\<exists>r \<in> set t. ?P r))"
  proof -
    have "length (filter (\<lambda>r. \<not> ?P r) t) < length t \<longleftrightarrow> (\<exists>r \<in> set t. ?P r)"
      by (rule deleted_any)
    then show ?thesis using short by (simp add: answer_of_def answered_def pg_compareDelete_def validateMarker_def Let_def)
  qed
  have row: "(\<exists>r \<in> set t. ?P r) \<longleftrightarrow> (\<exists>r. pg_row t (dig k) = Some r \<and> pb_marker r = Some v)"
  proof
    assume "\<exists>r \<in> set t. ?P r"
    then obtain r where r: "r \<in> set t" "?P r" by blast
    then have "pg_row t (dig k) = Some r" using pg_row_unique[of t r] ok by (simp add: pg_ok_def)
    then show "\<exists>r. pg_row t (dig k) = Some r \<and> pb_marker r = Some v" using r by blast
  next
    assume "\<exists>r. pg_row t (dig k) = Some r \<and> pb_marker r = Some v"
    then obtain r where r: "pg_row t (dig k) = Some r" "pb_marker r = Some v" by blast
    moreover have "pb_kind r = MarkerKind" using a r(1) kind by (simp add: agree_def)
    ultimately show "\<exists>r \<in> set t. ?P r" using pg_row_Some[of t "dig k" r] by blast
  qed
  have lv: "live m now k = pg_live t now (dig k)" by (rule agree_live[OF a])
  have mem: "answer_of (mem_call now (CompareDelete k v) m) = Inr (Flag (marker_value (live m now k) = Some v))"
    using short by (cases "live m now k" rule: marker_value.cases)
      (auto simp: answer_of_def answered_def mem_compareDelete_def validateMarker_def)
  show ?thesis
  proof (cases "pg_row t (dig k)")
    case None
    then show ?thesis unfolding hosted mem row lv by (simp add: answered_alike_def late_delete_def pg_live_def)
  next
    case (Some r)
    have kr: "pb_kind r = MarkerKind" using a Some kind by (simp add: agree_def)
    then obtain w where w: "pb_marker r = Some w" using ok pg_row_Some[OF Some] by (auto simp: pg_ok_def)
    show ?thesis unfolding hosted mem row using lv
      by (auto simp: answered_alike_def late_delete_def pg_live_def Some bucket_of_marker[OF kr] w short)
  qed
qed

lemma call_agrees:
  assumes "agree kinds dig now m t" "inj dig" "kinds (op_key op) = op_kind op"
    and "answer_of (pg_call dig env now op t) \<noteq> Inl CapacityErr"
  shows "answered_alike dig now op m t (answer_of (mem_call now op m)) (answer_of (pg_call dig env now op t))
    \<and> agree kinds dig now (store_after (mem_call now op m) m) (store_after (pg_call dig env now op t) t)"
proof (cases "\<exists>k v. op = CompareDelete k v")
  case True
  then obtain k v where op: "op = CompareDelete k v" by blast
  have k: "kinds k = MarkerKind" using assms(3) by (simp add: op)
  have "agree kinds dig now (store_after (mem_call now op m) m) (store_after (pg_call dig env now op t) t)"
    using compareDelete_agrees[OF assms(1,2) k, of v] assms(1)
    by (auto simp: op answered_def store_after_def split: sum.splits prod.splits)
  then show ?thesis using compareDelete_answer[OF assms(1) k] by (simp add: op)
next
  case False
  then have n: "\<not> late_delete dig now op m t" by (auto simp: late_delete_def)
  have "answers_as kinds dig now (mem_call now op m) (pg_call dig env now op t)"
    using assms False by (cases op) (auto intro: increment_agrees marker_agrees read_agrees)
  then show ?thesis using assms(1,4) n
    by (cases "pg_call dig env now op t")
      (auto simp: answers_as_def answered_alike_def answer_of_def store_after_def split: prod.splits)
qed

text \<open>Only the keys that are used go through the digest.\<close>

lemma inj_extend:
  fixes dig :: "string \<Rightarrow> string"
  assumes "finite K" "inj_on dig K"
  obtains dig' where "inj dig'" "\<forall>k \<in> K. dig' k = dig k"
proof -
  obtain n where n: "\<forall>k \<in> K. length (dig k) < n"
    using finite_nat_set_iff_bounded[of "length ` dig ` K"] assms(1) by auto
  let ?d = "\<lambda>k. if k \<in> K then dig k else replicate n CHR ''x'' @ k"
  have "inj ?d"
  proof (rule injI)
    fix a b assume e: "?d a = ?d b"
    have far: "dig x \<noteq> replicate n CHR ''x'' @ y" if "x \<in> K" for x y using n that by fastforce
    show "a = b" using e assms(2) far[of a b] far[of b a] by (auto simp: inj_on_def split: if_splits)
  qed
  then show thesis by (rule that) simp
qed

lemma store_call_same: "dig' (op_key op) = dig (op_key op) \<Longrightarrow> pg_call dig' env now op t = pg_call dig env now op t"
  by (cases op) auto

lemma run_same:
  assumes "\<forall>(at', op) \<in> set ops. dig' (op_key op) = dig (op_key op)"
  shows "run_calls (pg_call dig' env) t ops = run_calls (pg_call dig env) t ops"
    and "run_store (pg_call dig' env) t ops = run_store (pg_call dig env) t ops"
proof -
  have "run_calls (pg_call dig' env) t ops = run_calls (pg_call dig env) t ops
    \<and> run_store (pg_call dig' env) t ops = run_store (pg_call dig env) t ops"
    using assms
  proof (induction ops arbitrary: t)
    case (Cons x ops)
    obtain now op where x: "x = (now, op)" by (cases x)
    have "dig' (op_key op) = dig (op_key op)" using Cons.prems by (simp add: x)
    then have "pg_call dig' env now op t = pg_call dig env now op t" by (rule store_call_same)
    then show ?case using Cons by (simp add: x)
  qed simp
  then show "run_calls (pg_call dig' env) t ops = run_calls (pg_call dig env) t ops"
    and "run_store (pg_call dig' env) t ops = run_store (pg_call dig env) t ops" by auto
qed

lemma late_delete_same: "dig' (op_key op) = dig (op_key op) \<Longrightarrow> late_delete dig' now op m t = late_delete dig now op m t"
  by (auto simp: late_delete_def)

lemma run_calls_length: "length (run_calls call m xs) = length xs"
  by (induction xs arbitrary: m) auto

lemma runs_alike:
  assumes "agree kinds dig now m t" "inj dig" "sorted (now # map fst ops)"
    and "\<forall>(at', op) \<in> set ops. kinds (op_key op) = op_kind op"
    and "Inl CapacityErr \<notin> set (run_calls (pg_call dig env) t ops)" and "i < length ops" and "ops ! i = (at', op)"
  shows "answered_alike dig at' op (run_store mem_call m (take i ops)) (run_store (pg_call dig env) t (take i ops))
    (run_calls mem_call m ops ! i) (run_calls (pg_call dig env) t ops ! i)"
  using assms
proof (induction ops arbitrary: now m t i)
  case (Cons x ops)
  obtain now' op' where x: "x = (now', op')" by (cases x)
  have a: "agree kinds dig now' m t" using Cons.prems(1,3) agree_later[of kinds dig now m t now'] by (simp add: x)
  have c: "answered_alike dig now' op' m t (answer_of (mem_call now' op' m)) (answer_of (pg_call dig env now' op' t))"
    "agree kinds dig now' (store_after (mem_call now' op' m) m) (store_after (pg_call dig env now' op' t) t)"
    using call_agrees[OF a assms(2), of op' env] Cons.prems(4,5) by (auto simp: x)
  show ?case
  proof (cases i)
    case 0
    then show ?thesis using c(1) Cons.prems(7) by (simp add: x)
  next
    case (Suc j)
    show ?thesis using Cons.IH[OF c(2) assms(2), of j] Cons.prems by (simp add: x Suc)
  qed
qed simp



end
