(* ===== verification/OtpProps.thy ===== *)
theory OtpProps
  imports OtpService AbuseStoreProps
begin

text \<open>
  What holds of the one-time codes however the calls interleave: the shape of a step, the rows over time,
  the admission, and the properties of acceptance and guessing.
\<close>

section \<open>Counting calls\<close>

definition count_calls :: "(call \<Rightarrow> bool) \<Rightarrow> call list \<Rightarrow> nat" where
  "count_calls P cs = length (filter P cs)"

lemma count_calls_append [simp]: "count_calls P (cs @ [c]) = count_calls P cs + (if P c then 1 else 0)"
  by (simp add: count_calls_def)

lemma count_calls_Nil [simp]: "count_calls P [] = 0"
  by (simp add: count_calls_def)

lemma count_calls_update:
  "i < length cs \<Longrightarrow> count_calls P (cs[i := c]) + (if P (cs ! i) then 1 else 0) = count_calls P cs + (if P c then 1 else 0)"
proof (induction cs arbitrary: i)
  case (Cons x cs)
  then show ?case by (cases i) (auto simp: count_calls_def)
qed simp

lemma count_calls_same: "i < length cs \<Longrightarrow> P c = P (cs ! i) \<Longrightarrow> count_calls P (cs[i := c]) = count_calls P cs"
  using count_calls_update[of i cs P c] by (simp split: if_splits)

lemma count_calls_mono: "(\<And>c. c \<in> set cs \<Longrightarrow> P c \<Longrightarrow> Q c) \<Longrightarrow> count_calls P cs \<le> count_calls Q cs"
  by (induction cs) (auto simp: count_calls_def)

lemma count_calls_two:
  assumes "i < j" "j < length cs" "P (cs ! i)" "P (cs ! j)"
  shows "2 \<le> count_calls P cs"
proof -
  have "{i, j} \<subseteq> {k. k < length cs \<and> P (cs ! k)}" using assms by auto
  from card_mono[OF _ this] show ?thesis using assms(1) by (simp add: count_calls_def length_filter_conv_card)
qed

lemma set_update_memD: "x \<in> set (cs[i := c]) \<Longrightarrow> x \<in> set cs \<or> x = c"
  using set_update_subset_insert by fastforce

section \<open>Rows over time\<close>

definition look :: "otp_row list \<Rightarrow> string \<Rightarrow> otp_row option" where
  "look t i = List.find (\<lambda>r. or_id r = i) t"

lemma look_Some: "look t i = Some r \<Longrightarrow> r \<in> set t \<and> or_id r = i"
  by (induction t) (auto simp: look_def split: if_splits)

lemma look_None: "look t i = None \<longleftrightarrow> i \<notin> set (map or_id t)"
  by (auto simp: look_def find_None_iff)

lemma look_member: "distinct (map or_id t) \<Longrightarrow> r \<in> set t \<Longrightarrow> look t (or_id r) = Some r"
  by (induction t) (auto simp: look_def)

lemma look_map: "(\<And>r. or_id (f r) = or_id r) \<Longrightarrow> look (map f t) i = map_option f (look t i)"
  by (induction t) (auto simp: look_def)

lemma look_append: "look (t @ [r]) i = (case look t i of Some q \<Rightarrow> Some q | None \<Rightarrow> if or_id r = i then Some r else None)"
  by (induction t) (auto simp: look_def)

text \<open>What no statement changes.\<close>

definition same_static :: "otp_row \<Rightarrow> otp_row \<Rightarrow> bool" where
  "same_static r q \<longleftrightarrow> or_id q = or_id r \<and> or_phone_hash q = or_phone_hash r \<and> or_email q = or_email r \<and> or_type q = or_type r
     \<and> or_country q = or_country r \<and> or_hash q = or_hash r \<and> or_expires q = or_expires r \<and> or_created q = or_created r
     \<and> or_purpose q = or_purpose r \<and> or_version q = or_version r \<and> or_device q = or_device r"

lemma same_static_columns:
  "same_static r q \<Longrightarrow> or_id q = or_id r \<and> or_hash q = or_hash r \<and> or_expires q = or_expires r
    \<and> or_version q = or_version r \<and> or_created q = or_created r"
  by (simp add: same_static_def)

lemma same_static_owned: "same_static r q \<Longrightarrow> owned_by sc q = owned_by sc r"
  by (simp add: same_static_def owned_by_def)

lemma same_static_scope: "same_static r q \<Longrightarrow> in_scope sc q = in_scope sc r"
  by (auto simp: same_static_def in_scope_def purposePredicate_def protocolPredicate_def split: option.splits)

lemma same_static_refl [simp]: "same_static r r"
  by (simp add: same_static_def)

lemma same_static_trans: "same_static r q \<Longrightarrow> same_static q p \<Longrightarrow> same_static r p"
  by (simp add: same_static_def)

text \<open>Over a step a row stays, keeps what is static, and never comes back into use.\<close>

definition row_kept :: "otp_row \<Rightarrow> otp_row \<Rightarrow> bool" where
  "row_kept q q' \<longleftrightarrow> same_static q q' \<and> (or_deleted q \<longrightarrow> or_deleted q') 
     \<and> (or_consumed q \<noteq> None \<longrightarrow> or_consumed q' = or_consumed q \<and> or_attempts q' = or_attempts q)"

lemma row_kept_refl [simp]: "row_kept q q"
  by (simp add: row_kept_def)

lemma row_kept_unused: "row_kept q q' \<Longrightarrow> unused q' \<Longrightarrow> unused q"
  by (auto simp: row_kept_def unused_def)

definition rows_kept :: "otp_row list \<Rightarrow> otp_row list \<Rightarrow> bool" where
  "rows_kept t t' \<longleftrightarrow> (\<forall>i q. look t i = Some q \<longrightarrow> (\<exists>q'. look t' i = Some q' \<and> row_kept q q'))
     \<and> (distinct (map or_id t) \<longrightarrow> distinct (map or_id t'))"

lemma rows_kept_refl [simp]: "rows_kept t t"
  by (auto simp: rows_kept_def)

lemma rows_kept_map:
  assumes "\<And>r. row_kept r (f r)"
  shows "rows_kept t (map f t)"
proof -
  have id: "or_id (f r) = or_id r" for r
    using assms[of r] same_static_columns[of r "f r"] by (simp add: row_kept_def)
  then have "map or_id (map f t) = map or_id t" by simp
  then show ?thesis using assms by (simp add: rows_kept_def look_map[OF id] del: map_map)
qed

lemma rows_kept_append: "or_id r \<notin> set (map or_id t) \<Longrightarrow> rows_kept t (t @ [r])"
  by (auto simp: rows_kept_def look_append)

lemmas row_updates = consume_row_def count_attempt_def accept_row_def retire_rows_def discard_row_def cleanupExpiredOtps_def

lemma updates_kept:
  "rows_kept t (consume_row sc now i t)" "rows_kept t (count_attempt sc i t)" "rows_kept t (accept_row sc now m i t)"
  "rows_kept t (retire_rows sc t)" "rows_kept t (discard_row sc i t)" "rows_kept t (cleanupExpiredOtps now t)"
  unfolding row_updates by (rule rows_kept_map; simp add: row_kept_def same_static_def row_hit_def acceptable_def unused_def)+

lemma verify_rows_kept: "verify_next env now fails sc otp f pc t s = (pc', t', s') \<Longrightarrow> rows_kept t t'"
  by (cases pc) (auto simp: updates_kept split: if_splits)

lemma create_rows_kept: "create_next env now fails sc n pc t s = (pc', t', s') \<Longrightarrow> rows_kept t t'"
  by (cases pc; cases sc) (auto simp: updates_kept rows_kept_append new_row_def split: if_splits sum.splits)

lemma discard_rows_kept: "discard_next env now fails sc i pc t s = (pc', t', s') \<Longrightarrow> rows_kept t t'"
  by (cases pc) (auto simp: updates_kept split: if_splits sum.splits)

lemma move_rows_kept: "move_call env now fails choice c t s = (c', t', s') \<Longrightarrow> rows_kept t t'"
  by (cases c) (auto split: prod.splits intro: verify_rows_kept create_rows_kept discard_rows_kept)

section \<open>The shape of a step\<close>

text \<open>How a call begins.\<close>

definition new_call :: "'s otp_env \<Rightarrow> 's otp_system \<Rightarrow> call \<Rightarrow> bool" where
  "new_call env sys c \<longleftrightarrow> c = TurnedAway
     \<or> (\<exists>sc otp. c = Verify sc otp None Dummy \<or> c = Verify sc otp None Selecting)
     \<or> (\<exists>sc n. c = Create sc n Hashing \<and> no_id n \<notin> used_ids sys \<and> no_id n \<noteq> [] \<and> js_lower (no_id n) = no_id n
          \<and> (\<forall>x. sc = Some x \<longrightarrow> (\<exists>rq. request_scope env rq = Some x) \<and> no_expires n = sys_clock sys + otp_ttl_of env (sc_binding x) * 1000))
     \<or> (\<exists>rq i sc b. c = Discard sc i Deleting \<and> created_by env sys rq i \<and> request_owner env rq = Some (sc_owner sc)
          \<and> sc = otp_scope_of rq b (sc_owner sc)
          \<and> (case rq_device rq of None \<Rightarrow> b = None
             | Some (d, _) \<Rightarrow> b = Some \<lparr>bind_device = sha256 env (''pandapay-otp-device-v2'' @ CHR 0x00 # d), bind_request = Some i\<rparr>))"

text \<open>The slots when a call arrives.\<close>

definition slots_for :: "call \<Rightarrow> stages \<Rightarrow> stages \<Rightarrow> bool" where
  "slots_for c st st' \<longleftrightarrow> (\<forall>s. st ''work'' = Some s \<longrightarrow> (\<exists>s'. st' ''work'' = Some s' \<and> maximum s' = maximum s
     \<and> active s' = active s + (if working c then 1 else 0) \<and> (working c \<longrightarrow> active s < maximum s)))"

lemma admit_slots:
  assumes "admit name st = (x, st')"
  shows "case st name of None \<Rightarrow> x = BadStage \<and> st' = st
    | Some s \<Rightarrow> \<exists>s'. st' name = Some s' \<and> maximum s' = maximum s
        \<and> (x = Admitted \<and> active s < maximum s \<and> active s' = active s + 1 \<or> x = Busy \<and> maximum s \<le> active s \<and> active s' = active s)"
  using assms by (auto simp: admit_def split: option.splits if_splits)

lemma run_work_shape:
  assumes "\<And>d. c = Some d \<Longrightarrow> working d"
  shows "\<exists>d st. run_work c sys = sys\<lparr>sys_stages := st, sys_calls := sys_calls sys @ [d]\<rparr>
    \<and> (d = TurnedAway \<or> c = Some d) \<and> slots_for d (sys_stages sys) st"
proof -
  obtain x st where a: "admit ''work'' (sys_stages sys) = (x, st)" by fastforce
  note sl = admit_slots[OF a]
  show ?thesis
  proof (cases "x = Admitted")
    case False
    then have "run_work c sys = sys\<lparr>sys_stages := st, sys_calls := sys_calls sys @ [TurnedAway]\<rparr>"
      using a by (cases x) (simp_all add: run_work_def)
    moreover have "slots_for TurnedAway (sys_stages sys) st"
      using sl False by (auto simp: slots_for_def)
    ultimately show ?thesis by blast
  next
    case True
    show ?thesis
    proof (cases c)
      case None
      have "run_work c sys = sys\<lparr>sys_stages := settle_stage ''work'' True st, sys_calls := sys_calls sys @ [TurnedAway]\<rparr>"
        using a True None by (simp add: run_work_def)
      moreover have "slots_for TurnedAway (sys_stages sys) (settle_stage ''work'' True st)"
        using sl True by (auto simp: slots_for_def settle_stage_def)
      ultimately show ?thesis by blast
    next
      case (Some d)
      have "run_work c sys = sys\<lparr>sys_stages := st, sys_calls := sys_calls sys @ [d]\<rparr>"
        using a True Some by (simp add: run_work_def)
      moreover have "slots_for d (sys_stages sys) st"
        using sl True assms[OF Some] by (auto simp: slots_for_def)
      ultimately show ?thesis using Some by blast
    qed
  qed
qed

lemma uuid_nonempty: "uuid_v4 i \<Longrightarrow> i \<noteq> []"
  by (auto simp: uuid_v4_def)

lemma otp_step_shape:
  assumes "otp_step env sys sys'"
  obtains (wait) now where "sys_clock sys \<le> now" "sys' = sys\<lparr>sys_clock := now\<rparr>"
  | (new) c st where "sys' = sys\<lparr>sys_stages := st, sys_calls := sys_calls sys @ [c]\<rparr>" "new_call env sys c"
      "slots_for c (sys_stages sys) st"
  | (move) i choice fails c' t s where "i < length (sys_calls sys)" "choice_ok sys i choice"
      "move_call env (sys_clock sys) fails choice (sys_calls sys ! i) (sys_rows sys) (sys_store sys) = (c', t, s)"
      "sys' = sys\<lparr>sys_rows := t, sys_store := s, sys_calls := (sys_calls sys)[i := c'],
         sys_stages := (if working (sys_calls sys ! i) \<and> \<not> working c' then settle_stage ''work'' (threw c') (sys_stages sys)
           else sys_stages sys)\<rparr>"
  | (clean) "sys' = sys\<lparr>sys_rows := cleanupExpiredOtps (sys_clock sys) (sys_rows sys)\<rparr>"
  using assms
proof (cases rule: otp_step.cases)
  case (call_verify rq otp)
  let ?c = "case request_binding env rq of None \<Rightarrow> None
      | Some b \<Rightarrow> if verify_start b otp = Dummy then Some (Verify (otp_scope_of rq b []) otp None Dummy)
          else map_option (\<lambda>sc. Verify sc otp None Selecting) (request_scope env rq)"
  have w: "working d \<and> new_call env sys d" if "?c = Some d" for d
    using that by (auto simp: new_call_def split: option.splits if_splits)
  have t: "new_call env sys TurnedAway" by (simp add: new_call_def)
  from run_work_shape[of ?c sys] w t show ?thesis
    using call_verify new unfolding verifyOtp_def by blast
next
  case (call_create rq draw i salt)
  define c where "c = (case request_binding env rq of None \<Rightarrow> None
      | Some b \<Rightarrow> let c = generateOtpCode (test_identifiers env) (b \<noteq> None) (rq_identifier rq) draw in
          Some (Create (request_scope env rq)
            \<lparr>no_code = c, no_id = i, no_expires = sys_clock sys + otp_ttl_of env b * 1000, no_hash = bcrypt_hash env salt c\<rparr>
            Hashing))"
  have w: "working d \<and> new_call env sys d" if d: "c = Some d" for d
  proof -
    obtain b n where b: "request_binding env rq = Some b" and dd: "d = Create (request_scope env rq) n Hashing"
      and n: "no_id n = i" "no_expires n = sys_clock sys + otp_ttl_of env b * 1000"
      using d by (auto simp: c_def Let_def split: option.splits)
    have "sc_binding x = b" if "request_scope env rq = Some x" for x
      using that b by (auto simp: request_scope_def otp_scope_of_def)
    then show ?thesis using dd n call_create uuid_nonempty[of i] by (auto simp: new_call_def)
  qed
  have t: "new_call env sys TurnedAway" by (simp add: new_call_def)
  from run_work_shape[of c sys] w t show ?thesis
    using call_create new unfolding createOtp_def c_def[symmetric] by blast
next
  case (call_discard rq i)
  let ?rq = "rq\<lparr>rq_device := map_option (\<lambda>(d, _). (d, Some i)) (rq_device rq)\<rparr>"
  let ?c = "if i = [] then TurnedAway else case request_scope env ?rq of None \<Rightarrow> TurnedAway | Some sc \<Rightarrow> Discard sc i Deleting"
  have s: "sys' = sys\<lparr>sys_stages := sys_stages sys, sys_calls := sys_calls sys @ [?c]\<rparr>"
    using call_discard by (simp add: discardUndeliveredOtp_def Let_def)
  have n: "new_call env sys ?c"
  proof (cases "i = [] \<or> request_scope env ?rq = None")
    case False
    then obtain b w where b: "request_binding env ?rq = Some b" and w: "request_owner env ?rq = Some w"
      and i: "i \<noteq> []" by (auto simp: request_scope_def split: option.splits)
    have dev: "case rq_device rq of None \<Rightarrow> b = None
        | Some (d, _) \<Rightarrow> b = Some \<lparr>bind_device = sha256 env (''pandapay-otp-device-v2'' @ CHR 0x00 # d), bind_request = Some i\<rparr>"
      using b by (auto simp: request_binding_def v2Binding_def split: option.splits if_splits prod.splits)
    have own: "request_owner env rq = Some w" using w by (cases "rq_type rq = ''phone''") (simp_all add: request_owner_def)
    have sc: "request_scope env ?rq = Some (otp_scope_of rq b w)"
      using b w by (simp add: request_scope_def otp_scope_of_def)
    show ?thesis unfolding new_call_def
      using i sc dev own call_discard by (auto simp: otp_scope_of_def intro!: exI[of _ rq] exI[of _ b])
  qed (auto simp: new_call_def)
  show ?thesis by (rule new[OF s n]) (cases "i = []"; auto simp: slots_for_def split: option.splits)
next
  case (moves i choice fails)
  obtain c' t s where m: "move_call env (sys_clock sys) fails choice (sys_calls sys ! i) (sys_rows sys) (sys_store sys) = (c', t, s)"
    by (cases "move_call env (sys_clock sys) fails choice (sys_calls sys ! i) (sys_rows sys) (sys_store sys)") auto
  show ?thesis by (rule move[OF moves(2,3) m]) (use moves(1) m in \<open>simp add: move_def Let_def\<close>)
qed (use assms wait clean in blast)+

section \<open>Slots\<close>

definition slots_ok :: "int \<Rightarrow> 's otp_system \<Rightarrow> bool" where
  "slots_ok K sys \<longleftrightarrow> (\<exists>s. sys_stages sys ''work'' = Some s \<and> maximum s = K
     \<and> active s = int (count_calls working (sys_calls sys)) \<and> active s \<le> K)"

lemma done_stays: "\<not> working c \<Longrightarrow> move_call env now fails choice c t s = (c', t', s') \<Longrightarrow> \<not> working c'"
proof (cases c)
  case (Verify sc otp f pc)
  then show "\<not> working c \<Longrightarrow> move_call env now fails choice c t s = (c', t', s') \<Longrightarrow> \<not> working c'"
    by (cases pc) auto
next
  case (Create sc n pc)
  then show "\<not> working c \<Longrightarrow> move_call env now fails choice c t s = (c', t', s') \<Longrightarrow> \<not> working c'"
    by (cases pc; cases sc) auto
qed (auto split: prod.splits)

lemma slots_step:
  assumes "slots_ok K sys" "otp_step env sys sys'"
  shows "slots_ok K sys'"
  using assms(2)
proof (cases rule: otp_step_shape)
  case (new c st)
  then show ?thesis using assms(1) by (auto simp: slots_ok_def slots_for_def)
next
  case (move i choice fails c' t s)
  note upd = count_calls_update[OF move(1), of working c']
  show ?thesis
  proof (cases "working (sys_calls sys ! i)")
    case True
    then show ?thesis using assms(1) upd move(4)
      by (cases "working c'") (auto simp: slots_ok_def settle_stage_def)
  next
    case False
    then show ?thesis using assms(1) upd move(4) done_stays[OF False move(3)]
      by (auto simp: slots_ok_def)
  qed
qed (use assms(1) in \<open>auto simp: slots_ok_def\<close>)

section \<open>The row a verification holds\<close>

fun needs_record :: "verify_pc \<Rightarrow> bool" where
  "needs_record (Expiring w) = True" | "needs_record Counting = True" | "needs_record Closing = True"
| "needs_record Consuming = True" | "needs_record Clearing = True" | "needs_record (VDone v) = (v = Accepted)"
| "needs_record _ = False"

definition row_held :: "otp_row list \<Rightarrow> otp_scope \<Rightarrow> otp_row \<Rightarrow> bool" where
  "row_held t sc r \<longleftrightarrow> (\<exists>q. look t (or_id r) = Some q \<and> same_static r q) \<and> owned_by sc r \<and> in_scope sc r"

fun record_ok :: "otp_row list \<Rightarrow> call \<Rightarrow> bool" where
  "record_ok t (Verify sc otp f pc) = (case f of None \<Rightarrow> \<not> needs_record pc
     | Some r \<Rightarrow> pc \<noteq> Dummy \<and> pc \<noteq> Selecting \<and> row_held t sc r)"
| "record_ok t _ = True"

definition records_ok :: "'s otp_system \<Rightarrow> bool" where
  "records_ok sys \<longleftrightarrow> distinct (map or_id (sys_rows sys)) \<and> (\<forall>c \<in> set (sys_calls sys). record_ok (sys_rows sys) c)"

lemma row_held_kept:
  assumes "rows_kept t t'" "row_held t sc r" shows "row_held t' sc r"
proof -
  obtain q where q: "look t (or_id r) = Some q" "same_static r q" using assms(2) by (auto simp: row_held_def)
  obtain q' where q': "look t' (or_id r) = Some q'" "row_kept q q'" using assms(1) q(1) by (auto simp: rows_kept_def)
  have "same_static r q'" using q(2) q'(2) same_static_trans by (auto simp: row_kept_def)
  then show ?thesis using q'(1) assms(2) by (simp add: row_held_def)
qed

lemma record_ok_kept: "rows_kept t t' \<Longrightarrow> record_ok t c \<Longrightarrow> record_ok t' c"
  by (cases c) (auto split: option.splits intro: row_held_kept)

lemma candidate_held:
  assumes "r \<in> set (newest (candidates sc t))" "distinct (map or_id t)"
  shows "row_held t sc r \<and> look t (or_id r) = Some r \<and> unused r"
  using assms look_member[OF assms(2)] by (auto simp: newest_def candidates_def row_held_def)

lemma verify_record_ok:
  assumes "record_ok t (Verify sc otp f pc)" and "verify_next env now fails sc otp f pc t s = (pc', t', s')"
    and "f' = (if pc = Selecting \<and> \<not> fails then choice else f)"
    and "pc = Selecting \<Longrightarrow> choice = None \<or> (\<exists>r. choice = Some r \<and> row_held t sc r)"
  shows "record_ok t' (Verify sc otp f' pc')"
proof -
  have "record_ok t (Verify sc otp f' pc')"
    using assms by (cases pc; cases f) (auto split: if_splits option.splits)
  then show ?thesis by (rule record_ok_kept[OF verify_rows_kept[OF assms(2)]])
qed

lemma records_step:
  assumes "records_ok sys" "otp_step env sys sys'"
  shows "records_ok sys'"
  using assms(2)
proof (cases rule: otp_step_shape)
  case (new c st)
  have "record_ok t c" for t using new(2) by (auto simp: new_call_def)
  then show ?thesis using assms(1) new by (auto simp: records_ok_def)
next
  case (move i choice fails c' t s)
  note kept = move_rows_kept[OF move(3)]
  have d: "distinct (map or_id (sys_rows sys))" and old: "record_ok (sys_rows sys) (sys_calls sys ! i)"
    using assms(1) move(1) by (auto simp: records_ok_def)
  have "record_ok t c'"
  proof (cases "sys_calls sys ! i")
    case (Verify sc otp f pc)
    have ch: "choice = None \<or> (\<exists>r. choice = Some r \<and> row_held (sys_rows sys) sc r)" if "pc = Selecting"
      using move(2) candidate_held[OF _ d] that by (auto simp: choice_ok_def Verify Let_def split: option.splits)
    obtain pc' where v: "verify_next env (sys_clock sys) fails sc otp f pc (sys_rows sys) (sys_store sys) = (pc', t, s)"
      and c': "c' = Verify sc otp (if pc = Selecting \<and> \<not> fails then choice else f) pc'"
      using move(3) by (auto simp: Verify split: prod.splits)
    show ?thesis unfolding c' by (rule verify_record_ok[OF _ v refl ch]) (use old Verify in simp_all)
  qed (use move(3) in \<open>auto split: prod.splits\<close>)
  then show ?thesis using assms(1) kept record_ok_kept[OF kept] move(4)
    by (auto simp: records_ok_def rows_kept_def dest!: set_update_memD)
next
  case clean
  then show ?thesis using assms(1) updates_kept(6)[of "sys_rows sys" "sys_clock sys"] record_ok_kept
    by (auto simp: records_ok_def rows_kept_def)
qed (use assms(1) in \<open>auto simp: records_ok_def\<close>)

section \<open>A code is accepted once\<close>

fun accepted :: "string \<Rightarrow> call \<Rightarrow> bool" where
  "accepted i (Verify sc otp f pc) = (f \<noteq> None \<and> record_id f = i \<and> (pc = Clearing \<or> pc = VDone Accepted))"
| "accepted i _ = False"

definition once_ok :: "string \<Rightarrow> 's otp_system \<Rightarrow> bool" where
  "once_ok i sys \<longleftrightarrow> count_calls (accepted i) (sys_calls sys)
     \<le> (case look (sys_rows sys) i of Some q \<Rightarrow> if or_consumed q \<noteq> None then 1 else 0 | None \<Rightarrow> 0)"

lemma verify_to_accepted:
  assumes "verify_next env now fails sc otp f pc t s = (pc', t', s')" and "pc' = Clearing \<or> pc' = VDone Accepted"
    and "\<not> (pc = Clearing \<or> pc = VDone Accepted)"
  shows "pc = Consuming \<and> \<not> fails \<and> length (filter (acceptable sc now (scope_attempts env sc) (record_id f)) t) = 1
    \<and> t' = accept_row sc now (scope_attempts env sc) (record_id f) t"
  using assms by (cases pc) (auto split: option.splits if_splits)

lemma acceptable_look:
  assumes "length (filter (acceptable sc now m i) t) = 1" "distinct (map or_id t)"
  obtains q where "look t i = Some q" "acceptable sc now m i q" "look (accept_row sc now m i t) i = Some (q\<lparr>or_consumed := Some now\<rparr>)"
proof -
  obtain q where q: "q \<in> set t" "acceptable sc now m i q"
    using assms(1) by (metis filter_empty_conv list.size(3) zero_neq_one)
  have i: "or_id q = i" using q(2) by (simp add: acceptable_def row_hit_def)
  have l: "look t i = Some q" using look_member[OF assms(2) q(1)] i by simp
  have "look (accept_row sc now m i t) i = Some (q\<lparr>or_consumed := Some now\<rparr>)"
    unfolding accept_row_def by (subst look_map) (simp_all add: l q(2))
  then show thesis using that l q(2) by blast
qed

lemma move_accepted:
  assumes "records_ok sys" "i < length (sys_calls sys)"
    and "move_call env (sys_clock sys) fails choice (sys_calls sys ! i) (sys_rows sys) (sys_store sys) = (c', t, s)"
    and "accepted d c'" "\<not> accepted d (sys_calls sys ! i)"
  obtains sc otp f q where "sys_calls sys ! i = Verify sc otp f Consuming" "c' = Verify sc otp f Clearing" "record_id f = d"
    "look (sys_rows sys) d = Some q" "acceptable sc (sys_clock sys) (scope_attempts env sc) d q"
    "look t d = Some (q\<lparr>or_consumed := Some (sys_clock sys)\<rparr>)"
proof (cases "sys_calls sys ! i")
  case (Verify sc otp f pc)
  obtain pc' where v: "verify_next env (sys_clock sys) fails sc otp f pc (sys_rows sys) (sys_store sys) = (pc', t, s)"
    and c': "c' = Verify sc otp (if pc = Selecting \<and> \<not> fails then choice else f) pc'"
    using assms(3) by (auto simp: Verify split: prod.splits)
  have pc': "pc' = Clearing \<or> pc' = VDone Accepted" using assms(4) c' by simp
  have sel: "pc \<noteq> Selecting" using v pc' by (auto split: if_splits)
  have not: "\<not> (pc = Clearing \<or> pc = VDone Accepted)"
    using assms(4,5) c' Verify sel by auto
  note a = verify_to_accepted[OF v pc' not]
  have f: "record_id f = d" using assms(4) c' sel by simp
  have "distinct (map or_id (sys_rows sys))" using assms(1) by (simp add: records_ok_def)
  from acceptable_look[OF _ this] a obtain q where q: "look (sys_rows sys) d = Some q"
    "acceptable sc (sys_clock sys) (scope_attempts env sc) d q" "look t d = Some (q\<lparr>or_consumed := Some (sys_clock sys)\<rparr>)"
    unfolding f by blast
  have "pc' = Clearing" using v a pc' by (auto split: if_splits)
  then show thesis using that[of sc otp f q] Verify a c' f q by simp
next
  case (Create sc n pc)
  then show thesis using assms(3,4) by (auto split: prod.splits)
next
  case (Discard sc k pc)
  then show thesis using assms(3,4) by (auto split: prod.splits)
next
  case TurnedAway
  then show thesis using assms(3,4) by simp
qed

lemma once_kept:
  assumes "once_ok i sys" "rows_kept (sys_rows sys) t" "count_calls (accepted i) cs \<le> count_calls (accepted i) (sys_calls sys)"
  shows "count_calls (accepted i) cs \<le> (case look t i of Some q \<Rightarrow> if or_consumed q \<noteq> None then 1 else 0 | None \<Rightarrow> 0)"
proof (cases "look (sys_rows sys) i")
  case None
  then show ?thesis using assms(1,3) by (simp add: once_ok_def)
next
  case (Some q)
  then obtain q' where "look t i = Some q'" "row_kept q q'" using assms(2) by (auto simp: rows_kept_def)
  then show ?thesis using assms(1,3) Some by (auto simp: once_ok_def row_kept_def split: if_splits)
qed

lemma once_step:
  assumes "once_ok d sys" "records_ok sys" "otp_step env sys sys'"
  shows "once_ok d sys'"
  using assms(3)
proof (cases rule: otp_step_shape)
  case (new c st)
  then have "\<not> accepted d c" by (auto simp: new_call_def)
  then show ?thesis using assms(1) new by (simp add: once_ok_def)
next
  case (move i choice fails c' t s)
  note upd = count_calls_update[OF move(1), of "accepted d" c']
  show ?thesis
  proof (cases "accepted d c' \<and> \<not> accepted d (sys_calls sys ! i)")
    case True
    then have "accepted d c'" "\<not> accepted d (sys_calls sys ! i)" by simp_all
    from move_accepted[OF assms(2) move(1,3) this] obtain sc q where
      q: "look (sys_rows sys) d = Some q" "acceptable sc (sys_clock sys) (scope_attempts env sc) d q"
         "look t d = Some (q\<lparr>or_consumed := Some (sys_clock sys)\<rparr>)" by metis
    have "count_calls (accepted d) (sys_calls sys) = 0"
      using assms(1) q(1,2) by (simp add: once_ok_def acceptable_def row_hit_def unused_def)
    then show ?thesis using upd True q(3) by (simp add: once_ok_def move(4))
  next
    case False
    then have "count_calls (accepted d) ((sys_calls sys)[i := c']) \<le> count_calls (accepted d) (sys_calls sys)"
      using upd by (auto split: if_splits)
    from once_kept[OF assms(1) move_rows_kept[OF move(3)] this] show ?thesis by (simp add: once_ok_def move(4))
  qed
next
  case clean
  then show ?thesis using once_kept[OF assms(1) updates_kept(6)] by (simp add: once_ok_def)
qed (use assms(1) in \<open>simp add: once_ok_def\<close>)

lemma init_ok: "validateLimits l = Some l \<Longrightarrow> slots_ok (workMaxConcurrent l) (otp_init s l now)"
  by (auto simp: slots_ok_def otp_init_def createOtpWorkAdmission_def new_stage_def validateLimits_def limit_ok_def split: if_splits)

lemma reachable_ok:
  assumes "otp_reachable env (otp_init s l now) sys" "validateLimits l = Some l"
  shows "slots_ok (workMaxConcurrent l) sys \<and> records_ok sys \<and> once_ok i sys"
  using assms(1)
proof induction
  case start
  then show ?case using init_ok[OF assms(2)] by (simp add: records_ok_def once_ok_def otp_init_def look_def)
next
  case (step sys sys')
  then show ?case using slots_step records_step once_step by blast
qed

text \<open>
  C3: a code signs in once. However any number of verifications of the same code interleave, with
  failing statements, discards and the cleanup in between, at most one of them is accepted.
\<close>

theorem otp_accepted_once:
  assumes "otp_reachable env (otp_init s l now) sys" and "validateLimits l = Some l"
    and "i < j" and "j < length (sys_calls sys)"
    and "sys_calls sys ! i = Verify sc otp (Some r) (VDone Accepted)"
    and "sys_calls sys ! j = Verify sc' otp' (Some r') (VDone Accepted)"
  shows "or_id r \<noteq> or_id r'"
proof
  assume "or_id r = or_id r'"
  then have "2 \<le> count_calls (accepted (or_id r)) (sys_calls sys)"
    using count_calls_two[OF assms(3,4), of "accepted (or_id r)"] assms(5,6) by (simp add: record_id_def)
  moreover have "count_calls (accepted (or_id r)) (sys_calls sys) \<le> 1"
    using reachable_ok[OF assms(1,2), of "or_id r"] by (auto simp: once_ok_def split: option.splits if_splits)
  ultimately show False by simp
qed

section \<open>What is accepted\<close>

definition knows :: "'s otp_env \<Rightarrow> string \<Rightarrow> otp_row \<Rightarrow> bool" where
  "knows env otp r \<longleftrightarrow> bcrypt_compare env (js_trim otp) (or_hash r)"

definition used_in_time :: "'s otp_env \<Rightarrow> otp_row list \<Rightarrow> otp_scope \<Rightarrow> otp_row \<Rightarrow> bool" where
  "used_in_time env t sc r \<longleftrightarrow> (\<exists>q at'. look t (or_id r) = Some q \<and> same_static r q \<and> or_consumed q = Some at'
     \<and> at' < or_expires q \<and> or_attempts q < scope_attempts env sc)"

fun guess_ok :: "'s otp_env \<Rightarrow> otp_row list \<Rightarrow> call \<Rightarrow> bool" where
  "guess_ok env t (Verify sc otp (Some r) pc) =
     (pc \<noteq> Expiring Invalid \<and> (pc = Consuming \<or> pc = Clearing \<or> pc = VDone Accepted \<longrightarrow> knows env otp r)
      \<and> (pc = Counting \<or> pc = Closing \<longrightarrow> \<not> knows env otp r)
      \<and> (pc = Clearing \<or> pc = VDone Accepted \<longrightarrow> used_in_time env t sc r))"
| "guess_ok env t _ = True"

definition guesses_ok :: "'s otp_env \<Rightarrow> 's otp_system \<Rightarrow> bool" where
  "guesses_ok env sys \<longleftrightarrow> (\<forall>c \<in> set (sys_calls sys). guess_ok env (sys_rows sys) c)"

lemma used_in_time_kept:
  assumes "rows_kept t t'" "used_in_time env t sc r" shows "used_in_time env t' sc r"
proof -
  obtain q a where q: "look t (or_id r) = Some q" "same_static r q" "or_consumed q = Some a" "a < or_expires q"
    "or_attempts q < scope_attempts env sc" using assms(2) by (auto simp: used_in_time_def)
  obtain q' where q': "look t' (or_id r) = Some q'" "row_kept q q'" using assms(1) q(1) by (auto simp: rows_kept_def)
  have "same_static r q'" using q(2) q'(2) same_static_trans by (auto simp: row_kept_def)
  moreover have "or_expires q' = or_expires q" using q'(2) by (simp add: row_kept_def same_static_def)
  ultimately show ?thesis using q' q(3-5) by (auto simp: used_in_time_def row_kept_def)
qed

lemma guess_ok_kept: "rows_kept t t' \<Longrightarrow> guess_ok env t c \<Longrightarrow> guess_ok env t' c"
  by (cases "(env, t, c)" rule: guess_ok.cases) (auto intro: used_in_time_kept)

lemma verify_guess_ok:
  assumes "guess_ok env t (Verify sc otp (Some r) pc)" "record_ok t (Verify sc otp (Some r) pc)" "distinct (map or_id t)"
    and v: "verify_next env now fails sc otp (Some r) pc t s = (pc', t', s')"
  shows "guess_ok env t' (Verify sc otp (Some r) pc')"
proof (cases "pc = Consuming \<and> \<not> fails")
  case True
  show ?thesis
  proof (cases "length (filter (acceptable sc now (scope_attempts env sc) (or_id r)) t) = 1")
    case False
    then show ?thesis using assms True by (auto simp: record_id_def)
  next
    case acc: True
    from acceptable_look[OF acc assms(3)] obtain q where q: "look t (or_id r) = Some q"
      "acceptable sc now (scope_attempts env sc) (or_id r) q"
      "look (accept_row sc now (scope_attempts env sc) (or_id r) t) (or_id r) = Some (q\<lparr>or_consumed := Some now\<rparr>)" by blast
    have "same_static r q" using assms(2) q(1) True by (auto simp: row_held_def)
    then have "used_in_time env (accept_row sc now (scope_attempts env sc) (or_id r) t) sc r"
      using q by (auto simp: used_in_time_def acceptable_def same_static_def)
    then show ?thesis using assms True acc by (auto simp: record_id_def)
  qed
next
  case False
  have "guess_ok env t (Verify sc otp (Some r) pc')"
    using assms(1) v False by (cases pc) (auto simp: knows_def split: if_splits)
  then show ?thesis by (rule guess_ok_kept[OF verify_rows_kept[OF v]])
qed

lemma guesses_step:
  assumes "guesses_ok env sys" "records_ok sys" "otp_step env sys sys'"
  shows "guesses_ok env sys'"
  using assms(3)
proof (cases rule: otp_step_shape)
  case (new c st)
  have "guess_ok env t c" for t using new(2) by (auto simp: new_call_def)
  then show ?thesis using assms(1) new by (auto simp: guesses_ok_def)
next
  case (move i choice fails c' t s)
  note kept = move_rows_kept[OF move(3)]
  have g: "guess_ok env (sys_rows sys) (sys_calls sys ! i)" and r: "record_ok (sys_rows sys) (sys_calls sys ! i)"
    and d: "distinct (map or_id (sys_rows sys))"
    using assms(1,2) move(1) by (auto simp: guesses_ok_def records_ok_def)
  have "guess_ok env t c'"
  proof (cases "sys_calls sys ! i")
    case (Verify sc otp f pc)
    obtain pc' where v: "verify_next env (sys_clock sys) fails sc otp f pc (sys_rows sys) (sys_store sys) = (pc', t, s)"
      and c': "c' = Verify sc otp (if pc = Selecting \<and> \<not> fails then choice else f) pc'"
      using move(3) by (auto simp: Verify split: prod.splits)
    show ?thesis
    proof (cases "pc = Selecting")
      case True
      then have "pc' = Fetched \<or> pc' = VDone Threw" using v by (auto split: if_splits)
      then show ?thesis by (cases "if pc = Selecting \<and> \<not> fails then choice else f") (auto simp: c')
    next
      case False
      show ?thesis
      proof (cases f)
        case None
        then show ?thesis using False by (simp add: c')
      next
        case (Some x)
        have "c' = Verify sc otp (Some x) pc'" using c' False Some by simp
        with verify_guess_ok[OF g[unfolded Verify Some] r[unfolded Verify Some] d v[unfolded Some]] show ?thesis
          by (simp only:)
      qed
    qed
  qed (use move(3) in \<open>auto split: prod.splits\<close>)
  then show ?thesis using assms(1) guess_ok_kept[OF kept] move(4)
    by (auto simp: guesses_ok_def dest!: set_update_memD)
next
  case clean
  then show ?thesis using assms(1) guess_ok_kept[OF updates_kept(6), where env = env] unfolding guesses_ok_def clean
    by (metis otp_system.select_convs(5) otp_system.select_convs(2) otp_system.surjective otp_system.update_convs(2))
qed (use assms(1) in \<open>simp add: guesses_ok_def\<close>)

lemma reachable_guesses:
  assumes "otp_reachable env (otp_init s l now) sys" "validateLimits l = Some l"
  shows "guesses_ok env sys"
  using assms(1)
proof induction
  case (step sys sys')
  then show ?case using guesses_step reachable_ok[OF step(1) assms(2)] by blast
qed (simp add: guesses_ok_def otp_init_def)

text \<open>
  C27: what is accepted was right and in time. An accepted verification names a row of the table that
  belongs to the identifier asked for, was made for this purpose (or for none, before purposes) and
  protocol, with the device and challenge of the second one, whose stored hash matches the text given, and which was
  consumed before it expired with fewer wrong guesses recorded than allowed.
\<close>

theorem otp_accept_sound:
  assumes "otp_reachable env (otp_init s l now) sys" and "validateLimits l = Some l"
    and "Verify sc otp f (VDone Accepted) \<in> set (sys_calls sys)"
  shows "\<exists>q \<in> set (sys_rows sys). owned_by sc q \<and> in_scope sc q \<and> bcrypt_compare env (js_trim otp) (or_hash q)
    \<and> or_attempts q < scope_attempts env sc \<and> (\<exists>used. or_consumed q = Some used \<and> used < or_expires q)"
proof -
  have r: "record_ok (sys_rows sys) (Verify sc otp f (VDone Accepted))"
    using reachable_ok[OF assms(1,2)] assms(3) by (metis records_ok_def)
  then obtain x where f: "f = Some x" by (cases f) auto
  have h: "row_held (sys_rows sys) sc x" using r f by simp
  have g: "guess_ok env (sys_rows sys) (Verify sc otp (Some x) (VDone Accepted))"
    using reachable_guesses[OF assms(1,2)] assms(3) f by (metis guesses_ok_def)
  then obtain q a where q: "look (sys_rows sys) (or_id x) = Some q" "same_static x q" "or_consumed q = Some a" "a < or_expires q"
    "or_attempts q < scope_attempts env sc" by (auto simp: used_in_time_def)
  have "knows env otp q" using g q(2) by (simp add: knows_def same_static_def)
  moreover have "owned_by sc q" "in_scope sc q"
    using h q(2) same_static_owned same_static_scope by (auto simp: row_held_def)
  ultimately show ?thesis using q look_Some[OF q(1)] unfolding knows_def by blast
qed

end
