(* ===== verification/OtpBounds.thy ===== *)
theory OtpBounds
  imports OtpProps
begin

text \<open>
  How many guesses a code survives, and that every call ends: bounds and progress of the one-time codes.
\<close>

section \<open>Wrong guesses\<close>

text \<open>
  A wrong guess at the code with id \<open>d\<close>: on its way (it read the row while guesses were left, and its text
  does not match), or answered as invalid.
\<close>

fun guessing :: "'s otp_env \<Rightarrow> string \<Rightarrow> call \<Rightarrow> bool" where
  "guessing env d (Verify sc otp (Some r) pc) = (or_id r = d \<and> \<not> knows env otp r
     \<and> (pc = Fetched \<and> or_attempts r < scope_attempts env sc \<or> pc = Comparing False False \<or> pc = Counting))"
| "guessing env d _ = False"

fun guessed :: "'s otp_env \<Rightarrow> string \<Rightarrow> call \<Rightarrow> bool" where
  "guessed env d (Verify sc otp (Some r) pc) = (or_id r = d \<and> \<not> knows env otp r \<and> (pc = Closing \<or> pc = VDone (Refused Invalid)))"
| "guessed env d _ = False"

definition allowed_attempts :: "'s otp_env \<Rightarrow> otp_row \<Rightarrow> int" where
  "allowed_attempts env q = (if or_version q = 1 then max_attempts env else V2_MAX_ATTEMPTS)"

lemma scope_allows: "in_scope sc q \<Longrightarrow> scope_attempts env sc = allowed_attempts env q"
  by (auto simp: in_scope_def protocolPredicate_def scope_attempts_def allowed_attempts_def split: option.splits)

definition bound_ok :: "'s otp_env \<Rightarrow> int \<Rightarrow> string \<Rightarrow> 's otp_system \<Rightarrow> bool" where
  "bound_ok env K d sys \<longleftrightarrow> (case look (sys_rows sys) d of
     None \<Rightarrow> count_calls (guessed env d) (sys_calls sys) = 0 \<and> count_calls (guessing env d) (sys_calls sys) = 0
   | Some q \<Rightarrow> (unused q \<longrightarrow> int (count_calls (guessed env d) (sys_calls sys)) \<le> or_attempts q)
       \<and> int (count_calls (guessed env d) (sys_calls sys)) + int (count_calls (guessing env d) (sys_calls sys))
           \<le> max 0 (allowed_attempts env q - 1) + K)"

lemma guessing_working: "guessing env d c \<Longrightarrow> working c"
  by (cases "(env, d, c)" rule: guessing.cases) auto

text \<open>A row that is in use after a statement was so before, with the guesses it had.\<close>

definition same_count :: "string \<Rightarrow> otp_row list \<Rightarrow> otp_row list \<Rightarrow> bool" where
  "same_count d t t' \<longleftrightarrow> (case look t d of
     Some q \<Rightarrow> (\<exists>q'. look t' d = Some q' \<and> or_version q' = or_version q \<and> (unused q' \<longrightarrow> unused q \<and> or_attempts q' = or_attempts q))
   | None \<Rightarrow> (\<forall>q'. look t' d = Some q' \<longrightarrow> or_attempts q' = 0))"

lemma same_count_refl [simp]: "same_count d t t"
  by (simp add: same_count_def split: option.splits)

lemma same_count_map:
  assumes "\<And>r. or_id (f r) = or_id r \<and> or_version (f r) = or_version r \<and> or_attempts (f r) = or_attempts r \<and> (unused (f r) \<longrightarrow> unused r)"
  shows "same_count d t (map f t)"
  using assms look_map[of f t d] by (auto simp: same_count_def split: option.splits)

lemma updates_same_count:
  "same_count d t (consume_row sc now i t)" "same_count d t (accept_row sc now m i t)"
  "same_count d t (retire_rows sc t)" "same_count d t (discard_row sc i t)" "same_count d t (cleanupExpiredOtps now t)"
  unfolding row_updates by (rule same_count_map; simp add: row_hit_def acceptable_def unused_def)+

lemma append_same_count: "or_attempts r = 0 \<Longrightarrow> same_count d t (t @ [r])"
  by (auto simp: same_count_def look_append split: option.splits)

lemma verify_same_count:
  assumes "verify_next env now fails sc otp f pc t s = (pc', t', s')" "\<not> (pc = Counting \<and> \<not> fails \<and> record_id f = d)"
  shows "same_count d t t'"
proof (cases "pc = Counting \<and> \<not> fails")
  case True
  have "look (count_attempt sc i t) d = look t d" if "i \<noteq> d" for i
    unfolding count_attempt_def using that look_Some[of t d]
    by (subst look_map) (cases "look t d"; simp add: row_hit_def)+
  then show ?thesis using assms True by (auto simp: same_count_def split: option.splits)
next
  case False
  then show ?thesis using assms(1) by (cases pc) (auto simp: updates_same_count split: if_splits)
qed

lemma create_same_count: "create_next env now fails sc n pc t s = (pc', t', s') \<Longrightarrow> same_count d t t'"
  by (cases pc; cases sc) (auto simp: updates_same_count append_same_count new_row_def split: if_splits sum.splits)

lemma discard_same_count: "discard_next env now fails sc i pc t s = (pc', t', s') \<Longrightarrow> same_count d t t'"
  by (cases pc) (auto simp: updates_same_count split: if_splits sum.splits)

lemma bound_keep:
  assumes "bound_ok env K d sys" "0 \<le> K" "same_count d (sys_rows sys) (sys_rows sys')"
    and "count_calls (guessed env d) (sys_calls sys') \<le> count_calls (guessed env d) (sys_calls sys)"
    and "count_calls (guessing env d) (sys_calls sys') \<le> count_calls (guessing env d) (sys_calls sys)"
  shows "bound_ok env K d sys'"
proof (cases "look (sys_rows sys) d")
  case None
  then show ?thesis using assms by (auto simp: bound_ok_def same_count_def split: option.splits)
next
  case (Some q)
  then obtain q' where q': "look (sys_rows sys') d = Some q'" "or_version q' = or_version q"
    "unused q' \<longrightarrow> unused q \<and> or_attempts q' = or_attempts q" using assms(3) by (auto simp: same_count_def)
  have "allowed_attempts env q' = allowed_attempts env q" using q'(2) by (simp add: allowed_attempts_def)
  then show ?thesis using assms(1,4,5) Some q' by (auto simp: bound_ok_def)
qed

lemma count_calls_le: "i < length cs \<Longrightarrow> (P c \<longrightarrow> P (cs ! i)) \<Longrightarrow> count_calls P (cs[i := c]) \<le> count_calls P cs"
  using count_calls_update[of i cs P c] by (auto split: if_splits)

lemma verify_guess_moves:
  assumes "verify_next env now fails sc otp f pc t s = (pc', t', s')"
    and "\<not> (pc = Counting \<and> \<not> fails)" "pc \<noteq> Selecting" "f \<noteq> None \<Longrightarrow> pc \<noteq> Dummy \<and> pc \<noteq> Expiring Invalid"
  shows "(guessing env d (Verify sc otp f pc') \<longrightarrow> guessing env d (Verify sc otp f pc))
    \<and> (guessed env d (Verify sc otp f pc') \<longrightarrow> guessed env d (Verify sc otp f pc))"
  using assms by (cases f; cases pc) (auto simp: knows_def split: if_splits)

text \<open>A count: the call leaves the guesses under way and joins the answered ones, and the row, in use, counts it.\<close>

lemma bound_counting:
  assumes b: "bound_ok env K d sys" and i: "i < length (sys_calls sys)"
    and c: "sys_calls sys ! i = Verify sc otp (Some r) Counting" and d: "or_id r = d"
    and ok: "record_ok (sys_rows sys) (sys_calls sys ! i)" "guess_ok env (sys_rows sys) (sys_calls sys ! i)"
    and pc': "pc' = Closing \<or> pc' = VDone (Refused Invalid)"
    and s': "sys_rows sys' = count_attempt sc d (sys_rows sys)" "sys_calls sys' = (sys_calls sys)[i := Verify sc otp (Some r) pc']"
  shows "bound_ok env K d sys'"
proof -
  obtain q where q: "look (sys_rows sys) d = Some q" "same_static r q" using ok(1) d by (auto simp: c row_held_def)
  have scp: "in_scope sc q" using ok(1) same_static_scope[OF q(2)] by (simp add: c row_held_def)
  have "not_known": "\<not> knows env otp r" using ok(2) by (simp add: c)
  have g: "count_calls (guessed env d) (sys_calls sys') = Suc (count_calls (guessed env d) (sys_calls sys))"
    "Suc (count_calls (guessing env d) (sys_calls sys')) = count_calls (guessing env d) (sys_calls sys)"
    using count_calls_update[OF i, of "guessed env d" "Verify sc otp (Some r) pc'"]
      count_calls_update[OF i, of "guessing env d" "Verify sc otp (Some r) pc'"] "not_known" pc' d
    by (auto simp: s' c split: if_splits)
  have "row_hit sc d q \<longleftrightarrow> unused q" using look_Some[OF q(1)] scp by (simp add: row_hit_def)
  then have l: "look (sys_rows sys') d = Some (if unused q then q\<lparr>or_attempts := or_attempts q + 1\<rparr> else q)"
    unfolding s' count_attempt_def by (subst look_map) (simp_all add: q(1))
  show ?thesis using b g by (auto simp: bound_ok_def q(1) l allowed_attempts_def unused_def)
qed

text \<open>A call that reads a code with guesses left is one of at most \<open>K\<close> calls at work.\<close>

lemma bound_reading:
  assumes b: "bound_ok env K d sys" and sl: "slots_ok K sys" and i: "i < length (sys_calls sys)"
    and c: "sys_calls sys ! i = Verify sc otp f Selecting"
    and l: "look (sys_rows sys) d = Some r" and u: "unused r" and a: "or_attempts r < scope_attempts env sc" and scp: "in_scope sc r"
    and s': "sys_rows sys' = sys_rows sys" "sys_calls sys' = (sys_calls sys)[i := Verify sc otp (Some r) Fetched]"
  shows "bound_ok env K d sys'"
proof -
  have "guessing env d x \<Longrightarrow> working x" for x by (rule guessing_working)
  moreover have notyet: "\<not> guessing env d (Verify sc otp f Selecting)" "\<not> guessed env d (Verify sc otp f Selecting)"
    by (cases f; simp)+
  have "count_calls (guessing env d) (sys_calls sys) = count_calls (\<lambda>x. guessing env d x) ((sys_calls sys)[i := TurnedAway])"
    using count_calls_same[OF i, of "guessing env d" TurnedAway] notyet c by simp
  moreover have "Suc (count_calls working ((sys_calls sys)[i := TurnedAway])) = count_calls working (sys_calls sys)"
    using count_calls_update[OF i, of working TurnedAway] c by simp
  moreover have "count_calls (guessing env d) ((sys_calls sys)[i := TurnedAway]) \<le> count_calls working ((sys_calls sys)[i := TurnedAway])"
    by (rule count_calls_mono) (rule guessing_working)
  ultimately have few: "int (count_calls (guessing env d) (sys_calls sys)) \<le> K - 1"
    using sl by (auto simp: slots_ok_def)
  have "count_calls (guessing env d) (sys_calls sys') \<le> Suc (count_calls (guessing env d) (sys_calls sys))"
    "count_calls (guessed env d) (sys_calls sys') = count_calls (guessed env d) (sys_calls sys)"
    using count_calls_update[OF i, of "guessing env d" "Verify sc otp (Some r) Fetched"]
      count_calls_update[OF i, of "guessed env d" "Verify sc otp (Some r) Fetched"] notyet c
    by (auto simp: s' split: if_splits)
  then show ?thesis using b l u a scope_allows[OF scp, of env] few by (auto simp: bound_ok_def s')
qed

lemma bound_move:
  assumes b: "bound_ok env K d sys" and sl: "slots_ok K sys" and rec: "records_ok sys" and g: "guesses_ok env sys" and K: "0 \<le> K"
    and i: "i < length (sys_calls sys)" and ch: "choice_ok sys i choice"
    and m: "move_call env (sys_clock sys) fails choice (sys_calls sys ! i) (sys_rows sys) (sys_store sys) = (c', t, s)"
    and s': "sys_rows sys' = t" "sys_calls sys' = (sys_calls sys)[i := c']"
  shows "bound_ok env K d sys'"
proof (cases "sys_calls sys ! i")
  case (Verify sc otp f pc)
  have ok: "record_ok (sys_rows sys) (sys_calls sys ! i)" "guess_ok env (sys_rows sys) (sys_calls sys ! i)"
    and dist: "distinct (map or_id (sys_rows sys))"
    using rec g i by (auto simp: records_ok_def guesses_ok_def)
  obtain pc' where v: "verify_next env (sys_clock sys) fails sc otp f pc (sys_rows sys) (sys_store sys) = (pc', t, s)"
    and c': "c' = Verify sc otp (if pc = Selecting \<and> \<not> fails then choice else f) pc'"
    using m by (auto simp: Verify split: prod.splits)
  consider (count) "pc = Counting" "\<not> fails" | (select) "pc = Selecting" | (other) "pc \<noteq> Selecting" "\<not> (pc = Counting \<and> \<not> fails)"
    by blast
  then show ?thesis
  proof cases
    case count
    obtain r where f: "f = Some r" using ok(1) count by (cases f) (auto simp: Verify)
    have pc': "pc' = Closing \<or> pc' = VDone (Refused Invalid)" and t: "t = count_attempt sc (or_id r) (sys_rows sys)"
      using v count f by (auto simp: record_id_def split: if_splits)
    show ?thesis
    proof (cases "or_id r = d")
      case True
      show ?thesis
        by (rule bound_counting[OF b i Verify[unfolded f count(1)] True ok pc']) (use s' t True c' count f in simp_all)
    next
      case False
      have "same_count d (sys_rows sys) t" by (rule verify_same_count[OF v]) (simp add: f record_id_def False)
      moreover have "\<not> guessing env d c'" "\<not> guessed env d c'" using False c' count f by auto
      ultimately show ?thesis using bound_keep[OF b K, of sys'] count_calls_le[OF i, of _ c'] by (simp add: s')
    qed
  next
    case select
    then have t: "t = sys_rows sys" and pc': "pc' = (if fails then VDone Threw else Fetched)" using v by (auto split: if_splits)
    show ?thesis
    proof (cases "guessing env d c'")
      case False
      moreover have "\<not> guessed env d c'" using c' pc' by (cases choice; cases f) auto
      ultimately show ?thesis using bound_keep[OF b K, of sys'] count_calls_le[OF i, of _ c'] by (simp add: s' t)
    next
      case True
      obtain r where r: "choice = Some r" "\<not> fails" "or_id r = d" "or_attempts r < scope_attempts env sc"
        using True c' pc' select by (cases choice; cases f) (auto split: if_splits)
      have r_in: "r \<in> set (newest (candidates sc (sys_rows sys)))"
        using ch r(1) select by (auto simp: choice_ok_def Verify Let_def)
      have h: "row_held (sys_rows sys) sc r" "look (sys_rows sys) d = Some r" "unused r"
        using candidate_held[OF r_in dist] r(3) by auto
      have scp: "in_scope sc r" using h(1) by (simp add: row_held_def)
      show ?thesis
        by (rule bound_reading[OF b sl i Verify[unfolded select] h(2,3) r(4) scp]) (use s' t c' pc' r select in simp_all)
    qed
  next
    case other
    have "same_count d (sys_rows sys) t" by (rule verify_same_count[OF v]) (use other in blast)
    moreover have "f \<noteq> None \<Longrightarrow> pc \<noteq> Dummy \<and> pc \<noteq> Expiring Invalid" using ok by (cases f) (auto simp: Verify)
    note mv = verify_guess_moves[OF v other(2,1) this, of d]
    ultimately show ?thesis
      using bound_keep[OF b K, of sys'] count_calls_le[OF i, of _ c'] mv other c' Verify by (simp add: s')
  qed
next
  case (Create sc n pc)
  obtain pc' where v: "create_next env (sys_clock sys) fails sc n pc (sys_rows sys) (sys_store sys) = (pc', t, s)"
    and c': "c' = Create sc n pc'" using m by (auto simp: Create split: prod.splits)
  show ?thesis using bound_keep[OF b K, of sys'] count_calls_le[OF i, of _ c'] create_same_count[OF v, of d]
    by (simp add: s' c')
next
  case (Discard sc k pc)
  obtain pc' where v: "discard_next env (sys_clock sys) fails sc k pc (sys_rows sys) (sys_store sys) = (pc', t, s)"
    and c': "c' = Discard sc k pc'" using m by (auto simp: Discard split: prod.splits)
  show ?thesis using bound_keep[OF b K, of sys'] count_calls_le[OF i, of _ c'] discard_same_count[OF v, of d]
    by (simp add: s' c')
next
  case TurnedAway
  then show ?thesis using bound_keep[OF b K, of sys'] count_calls_le[OF i, of _ c'] m s' by simp
qed

lemma bound_step:
  assumes "bound_ok env K d sys" "slots_ok K sys" "records_ok sys" "guesses_ok env sys" "0 \<le> K" "otp_step env sys sys'"
  shows "bound_ok env K d sys'"
  using assms(6)
proof (cases rule: otp_step_shape)
  case (wait now)
  then show ?thesis using bound_keep[OF assms(1,5), of sys'] by simp
next
  case (new c st)
  have "\<not> guessing env d c" "\<not> guessed env d c" using new(2) by (auto simp: new_call_def)
  then show ?thesis using bound_keep[OF assms(1,5), of sys'] new(1) by simp
next
  case (move i choice fails c' t s)
  show ?thesis by (rule bound_move[OF assms(1-5) move(1-3)]) (simp_all add: move(4))
next
  case clean
  then show ?thesis using bound_keep[OF assms(1,5), of sys'] updates_same_count(5) by simp
qed

lemma reachable_bound:
  assumes "otp_reachable env (otp_init s l now) sys" "validateLimits l = Some l"
  shows "bound_ok env (workMaxConcurrent l) d sys"
  using assms(1)
proof induction
  case start
  then show ?case by (simp add: bound_ok_def otp_init_def look_def)
next
  case (step sys sys')
  have "0 \<le> workMaxConcurrent l" using assms(2) by (simp add: validateLimits_def limit_ok_def split: if_splits)
  then show ?case using bound_step step reachable_ok[OF step(1) assms(2)] reachable_guesses[OF step(1) assms(2)] by blast
qed

text \<open>
  C9: how far guessing gets. Wrong guesses at one code, whatever runs at the same time and whatever fails,
  are answered as invalid at most as often as attempts are allowed, less one, plus the number of calls
  the server works on at once: the attempts are counted after the comparison, so that many calls
  may be past the check when the last allowed attempt is recorded, but no more.
\<close>

theorem otp_guesses_bounded:
  assumes "otp_reachable env (otp_init s l now) sys" and "validateLimits l = Some l"
    and "look (sys_rows sys) d = Some q" and "1 \<le> max_attempts env"
  shows "int (count_calls (guessed env d) (sys_calls sys))
    \<le> (if or_version q = 1 then max_attempts env else V2_MAX_ATTEMPTS) - 1 + workMaxConcurrent l"
proof -
  have "int (count_calls (guessed env d) (sys_calls sys)) \<le> max 0 (allowed_attempts env q - 1) + workMaxConcurrent l"
    using reachable_bound[OF assms(1,2), of d] assms(3) by (simp add: bound_ok_def)
  then show ?thesis using assms(4) by (auto simp: allowed_attempts_def V2_MAX_ATTEMPTS_def split: if_splits)
qed

section \<open>Every call ends\<close>

text \<open>The database picks a newest row; here the first.\<close>

definition pick :: "'s otp_system \<Rightarrow> nat \<Rightarrow> otp_row option" where
  "pick sys i = (case sys_calls sys ! i of
     Verify sc otp f Selecting \<Rightarrow> List.find (\<lambda>r. True) (newest (candidates sc (sys_rows sys)))
   | _ \<Rightarrow> None)"

text \<open>A schedule: who moves next, and whether its statement fails.\<close>

fun run_moves :: "'s otp_env \<Rightarrow> (bool \<times> nat) list \<Rightarrow> 's otp_system \<Rightarrow> 's otp_system" where
  "run_moves env [] sys = sys"
| "run_moves env ((fails, i) # ms) sys =
     run_moves env ms (if i < length (sys_calls sys) then move env fails (pick sys i) i sys else sys)"

lemma newest_exists: "t \<noteq> [] \<Longrightarrow> newest t \<noteq> []"
proof -
  assume t: "t \<noteq> []"
  have "Max (or_created ` set t) \<in> or_created ` set t" using t by (intro Max_in) auto
  then obtain r where "r \<in> set t" "or_created r = Max (or_created ` set t)" by auto
  then have "r \<in> set (newest t)" by (auto simp: newest_def list_all_iff)
  then show ?thesis by auto
qed

lemma pick_ok: "choice_ok sys i (pick sys i)"
proof (cases "sys_calls sys ! i")
  case (Verify sc otp f pc)
  show ?thesis
  proof (cases "pc = Selecting")
    case True
    show ?thesis
    proof (cases "newest (candidates sc (sys_rows sys))")
      case Nil
      then have "candidates sc (sys_rows sys) = []" using newest_exists by blast
      then show ?thesis by (simp add: choice_ok_def pick_def Verify True newest_def)
    next
      case (Cons r rs)
      then show ?thesis by (simp add: choice_ok_def pick_def Verify True)
    qed
  qed (auto simp: choice_ok_def Verify split: verify_pc.splits)
qed (auto simp: choice_ok_def)

lemma run_moves_reachable: "otp_reachable env sys0 sys \<Longrightarrow> otp_reachable env sys0 (run_moves env ms sys)"
proof (induction ms arbitrary: sys)
  case (Cons m ms)
  obtain fails i where m: "m = (fails, i)" by (cases m)
  have "otp_reachable env sys0 (move env fails (pick sys i) i sys)" if "i < length (sys_calls sys)"
    by (rule otp_reachable.step[OF Cons.prems]) (rule otp_step.moves[OF that pick_ok])
  then show ?case using Cons by (simp add: m)
qed simp

fun verify_left :: "verify_pc \<Rightarrow> nat" where
  "verify_left Dummy = 1" | "verify_left Selecting = 5" | "verify_left Fetched = 4" | "verify_left (Comparing e m) = 3"
| "verify_left (Expiring w) = 1" | "verify_left Counting = 2" | "verify_left Closing = 1" | "verify_left Consuming = 2"
| "verify_left Clearing = 1" | "verify_left (VDone v) = 0"

fun create_left :: "create_pc \<Rightarrow> nat" where
  "create_left Hashing = 5" | "create_left Claiming = 4" | "create_left Retiring = 3" | "create_left Inserting = 2"
| "create_left Undoing = 1" | "create_left (CDone v) = 0"

fun steps_left :: "call \<Rightarrow> nat" where
  "steps_left (Verify sc otp f pc) = verify_left pc"
| "steps_left (Create sc n pc) = create_left pc"
| "steps_left _ = 0"

lemma steps_left_bound: "steps_left c \<le> 5"
proof (cases c)
  case (Verify sc otp f pc) then show ?thesis by (cases pc) auto
next
  case (Create sc n pc) then show ?thesis by (cases pc) auto
qed auto

lemma working_left: "working c \<longleftrightarrow> 0 < steps_left c"
proof (cases c)
  case (Verify sc otp f pc) then show ?thesis by (cases pc) auto
next
  case (Create sc n pc) then show ?thesis by (cases pc) auto
qed auto

lemma move_left: "move_call env now fails choice c t s = (c', t', s') \<Longrightarrow> steps_left c' \<le> steps_left c - 1"
proof (cases c)
  case (Verify sc otp f pc)
  then show "move_call env now fails choice c t s = (c', t', s') \<Longrightarrow> steps_left c' \<le> steps_left c - 1"
    by (cases pc) (auto split: if_splits option.splits)
next
  case (Create sc n pc)
  then show "move_call env now fails choice c t s = (c', t', s') \<Longrightarrow> steps_left c' \<le> steps_left c - 1"
    by (cases pc; cases sc) (auto split: if_splits sum.splits)
qed (auto split: prod.splits)

lemma move_calls:
  "\<exists>c t s. move_call env (sys_clock sys) fails choice (sys_calls sys ! i) (sys_rows sys) (sys_store sys) = (c, t, s)
    \<and> sys_calls (move env fails choice i sys) = (sys_calls sys)[i := c]"
  by (auto simp: move_def Let_def split: prod.splits)

lemma run_moves_left:
  "length (sys_calls (run_moves env ms sys)) = length (sys_calls sys) \<and>
   (\<forall>i < length (sys_calls sys). steps_left (sys_calls (run_moves env ms sys) ! i) \<le> steps_left (sys_calls sys ! i) - count_list (map snd ms) i)"
proof (induction ms arbitrary: sys)
  case (Cons m ms)
  obtain fails k where m: "m = (fails, k)" by (cases m)
  define sys1 where "sys1 = (if k < length (sys_calls sys) then move env fails (pick sys k) k sys else sys)"
  obtain c t s where c: "move_call env (sys_clock sys) fails (pick sys k) (sys_calls sys ! k) (sys_rows sys) (sys_store sys) = (c, t, s)"
    "sys_calls (move env fails (pick sys k) k sys) = (sys_calls sys)[k := c]"
    using move_calls[of env sys fails "pick sys k" k] by blast
  have len: "length (sys_calls sys1) = length (sys_calls sys)" by (simp add: sys1_def c(2))
  have "steps_left (sys_calls sys1 ! i) \<le> steps_left (sys_calls sys ! i) - (if i = k then 1 else 0)" if "i < length (sys_calls sys)" for i
    using that move_left[OF c(1)] by (auto simp: sys1_def c(2) nth_list_update)
  then have "steps_left (sys_calls (run_moves env ms sys1) ! i) \<le> steps_left (sys_calls sys ! i) - count_list (map snd (m # ms)) i"
    if "i < length (sys_calls sys)" for i
    using Cons.IH[of sys1] len that by (fastforce simp: m)
  then show ?case using Cons.IH[of sys1] len by (simp add: m sys1_def[symmetric])
qed simp

text \<open>
  C24: no call keeps its slot. From every reachable state, a schedule that lets every call move five times,
  in any order and with any of the statements failing, ends all of them, and the next call is admitted.
\<close>

theorem otp_slot_freed:
  assumes "otp_reachable env (otp_init s l now) sys" and "validateLimits l = Some l"
    and "\<forall>i < length (sys_calls sys). 5 \<le> count_list (map snd ms) i"
  shows "(\<forall>c \<in> set (sys_calls (run_moves env ms sys)). \<not> working c)
    \<and> fst (admit ''work'' (sys_stages (run_moves env ms sys))) = Admitted"
proof -
  let ?sys = "run_moves env ms sys"
  have ended: "\<not> working (sys_calls ?sys ! i)" if "i < length (sys_calls ?sys)" for i
  proof -
    have "i < length (sys_calls sys)" using that run_moves_left[of env ms sys] by simp
    then have "steps_left (sys_calls ?sys ! i) \<le> steps_left (sys_calls sys ! i) - count_list (map snd ms) i"
      and "5 \<le> count_list (map snd ms) i" using run_moves_left[of env ms sys] assms(3) by simp_all
    then show ?thesis using steps_left_bound[of "sys_calls sys ! i"] by (simp add: working_left)
  qed
  from ended have none: "count_calls working (sys_calls ?sys) = 0"
    by (auto simp: count_calls_def filter_empty_conv in_set_conv_nth)
  have "slots_ok (workMaxConcurrent l) ?sys"
    using reachable_ok[OF run_moves_reachable[OF assms(1)] assms(2)] by blast
  moreover have "1 \<le> workMaxConcurrent l"
    using assms(2) by (simp add: validateLimits_def limit_ok_def split: if_splits)
  ultimately show ?thesis using ended none by (auto simp: slots_ok_def admit_def in_set_conv_nth)
qed

end
