(* ===== verification/OtpMarkers.thy ===== *)
theory OtpMarkers
  imports OtpBounds
begin

text \<open>
  At most one usable code for an identifier and a purpose. The client side of the locale
  \<open>marker_store\<close>: the resend marker of a code is held as long as the code can be used.
\<close>

section \<open>Codes and their rows\<close>

definition usable :: "int \<Rightarrow> otp_row \<Rightarrow> bool" where
  "usable now q \<longleftrightarrow> unused q \<and> now < or_expires q"

text \<open>The row a call has made, whatever happened to it since.\<close>

definition row_made :: "otp_scope \<Rightarrow> new_otp \<Rightarrow> otp_row \<Rightarrow> bool" where
  "row_made sc n q \<longleftrightarrow> (\<exists>at'. same_static (new_row sc n at') q)"

definition inserted :: "otp_row list \<Rightarrow> string \<Rightarrow> bool" where
  "inserted t i \<longleftrightarrow> look t i \<noteq> None"

definition row_unused :: "otp_row list \<Rightarrow> string \<Rightarrow> bool" where
  "row_unused t i \<longleftrightarrow> (case look t i of None \<Rightarrow> False | Some q \<Rightarrow> unused q)"

text \<open>A marker is due while its code is being stored and while the stored row is in use.\<close>

fun marker_due :: "otp_row list \<Rightarrow> new_otp \<Rightarrow> create_pc \<Rightarrow> bool" where
  "marker_due t n Retiring = True"
| "marker_due t n Inserting = True"
| "marker_due t n (CDone (Some i)) = row_unused t i"
| "marker_due t n _ = False"

fun erases :: "call \<Rightarrow> string set" where
  "erases (Verify sc otp f Clearing) = {record_id f}"
| "erases (Create sc n Undoing) = {no_id n}"
| "erases (Discard sc i Unmarking) = {i}"
| "erases _ = {}"

fun ids_made :: "call list \<Rightarrow> string list" where
  "ids_made [] = []"
| "ids_made (Create sc n pc # cs) = no_id n # ids_made cs"
| "ids_made (_ # cs) = ids_made cs"

lemma ids_made_append: "ids_made (cs @ ds) = ids_made cs @ ids_made ds"
  by (induction cs rule: ids_made.induct) auto

lemma ids_made_set: "set (ids_made cs) = {no_id n |sc n pc. Create sc n pc \<in> set cs}"
  by (induction cs rule: ids_made.induct) auto

fun made_id :: "call \<Rightarrow> string option" where
  "made_id (Create sc n pc) = Some (no_id n)"
| "made_id _ = None"

lemma ids_made_filter: "ids_made cs = List.map_filter made_id cs"
  by (induction cs rule: ids_made.induct) (auto simp: List.map_filter_simps)

lemma ids_made_update: "i < length cs \<Longrightarrow> made_id c = made_id (cs ! i) \<Longrightarrow> ids_made (cs[i := c]) = ids_made cs"
  by (induction cs arbitrary: i) (auto simp: ids_made_filter List.map_filter_simps split: nat.splits option.splits)

lemma move_made_id: "move_call env now fails choice c t s = (c', t', s') \<Longrightarrow> made_id c' = made_id c"
  by (cases c) (auto split: prod.splits)

lemma ids_made_distinct:
  assumes "distinct (ids_made cs)" "i < length cs" "j < length cs" "i \<noteq> j" "made_id (cs ! i) = Some a" "made_id (cs ! j) = Some b"
  shows "a \<noteq> b"
  using assms
proof (induction cs arbitrary: i j)
  case (Cons c cs)
  have mem: "x \<in> set (ids_made cs)" if "k < length cs" "made_id (cs ! k) = Some x" for k x
    using that by (induction cs arbitrary: k) (auto simp: ids_made_filter List.map_filter_simps nth_Cons split: nat.splits option.splits)
  show ?case
  proof (cases i; cases j)
    fix j' assume "i = 0" "j = Suc j'"
    then show ?thesis using Cons.prems mem by (auto simp: ids_made_filter List.map_filter_simps)
  next
    fix i' assume "i = Suc i'" "j = 0"
    then show ?thesis using Cons.prems mem by (auto simp: ids_made_filter List.map_filter_simps)
  next
    fix i' j' assume "i = Suc i'" "j = Suc j'"
    moreover have "distinct (ids_made cs)" using Cons.prems(1)
      by (cases "made_id c") (auto simp: ids_made_filter List.map_filter_simps)
    ultimately show ?thesis using Cons.IH[of i' j'] Cons.prems by auto
  qed (use Cons.prems in simp)
qed simp

section \<open>What a call says of the table\<close>

fun call_static :: "'s otp_env \<Rightarrow> int \<Rightarrow> otp_row list \<Rightarrow> call \<Rightarrow> bool" where
  "call_static env now t (Create sc n pc) =
     (js_lower (no_id n) = no_id n \<and> (\<forall>x. sc = Some x \<longrightarrow> (\<exists>rq. request_scope env rq = Some x) \<and> no_expires n \<le> now + otp_ttl_of env (sc_binding x) * 1000)
      \<and> (case pc of
           CDone (Some i) \<Rightarrow> i = no_id n \<and> (\<exists>x q. sc = Some x \<and> look t i = Some q \<and> row_made x n q)
         | _ \<Rightarrow> \<not> inserted t (no_id n)))"
| "call_static env now t (Discard sc i pc) =
     ((pc = Deleting \<longrightarrow> js_lower i = i \<and> (\<exists>q. look t i = Some q \<and> owned_by sc q \<and> in_scope sc q))
      \<and> (pc = Unmarking \<longrightarrow> (\<exists>q. look t i = Some q \<and> \<not> unused q)))"
| "call_static env now t c = True"

definition statics_ok :: "'s otp_env \<Rightarrow> 's otp_system \<Rightarrow> bool" where
  "statics_ok env sys \<longleftrightarrow> distinct (ids_made (sys_calls sys))
     \<and> (\<forall>c \<in> set (sys_calls sys). call_static env (sys_clock sys) (sys_rows sys) c)"

lemma look_kept: "rows_kept t t' \<Longrightarrow> look t i = Some q \<Longrightarrow> \<exists>q'. look t' i = Some q' \<and> row_kept q q'"
  by (simp add: rows_kept_def)

lemma row_kept_cols: "row_kept q q' \<Longrightarrow> owned_by sc q' = owned_by sc q \<and> in_scope sc q' = in_scope sc q \<and> or_expires q' = or_expires q"
  using same_static_owned same_static_scope same_static_columns unfolding row_kept_def by blast

lemma row_made_kept: "row_made sc n q \<Longrightarrow> row_kept q q' \<Longrightarrow> row_made sc n q'"
  using same_static_trans by (auto simp: row_made_def row_kept_def)

lemma row_unused_kept: "rows_kept t t' \<Longrightarrow> inserted t i \<Longrightarrow> row_unused t' i \<Longrightarrow> row_unused t i"
  using row_kept_unused by (auto simp: row_unused_def inserted_def dest!: look_kept split: option.splits)

lemma call_static_kept:
  assumes "call_static env now t c" "rows_kept t t'" "now \<le> now'" "\<And>i. made_id c = Some i \<Longrightarrow> inserted t' i \<Longrightarrow> inserted t i"
  shows "call_static env now' t' c"
proof (cases c)
  case (Create sc n pc)
  show ?thesis
  proof (cases "\<exists>i. pc = CDone (Some i)")
    case True
    then obtain i x q where pc: "pc = CDone (Some i)" and x: "sc = Some x" "look t i = Some q" "row_made x n q" "i = no_id n"
      using assms(1) by (auto simp: Create)
    obtain q' where "look t' i = Some q'" "row_made x n q'" using look_kept[OF assms(2) x(2)] row_made_kept[OF x(3)] by blast
    then show ?thesis using assms(1,3) pc x by (auto simp: Create)
  next
    case False
    then show ?thesis using assms by (cases pc) (auto simp: Create split: option.splits)
  qed
next
  case (Discard sc i pc)
  then show ?thesis using assms(1) look_kept[OF assms(2)] row_kept_cols row_kept_unused by (auto simp: Discard) blast+
qed auto

lemma move_inserted:
  assumes "move_call env now fails choice c t s = (c', t', s')" "inserted t' i" "\<not> inserted t i"
  shows "\<exists>sc n. c = Create (Some sc) n Inserting \<and> i = no_id n \<and> c' = Create (Some sc) n (CDone (Some i)) \<and> t' = t @ [new_row sc n now]"
proof -
  have same: "inserted (map f t) i = inserted t i" if "\<And>r. or_id (f r) = or_id r" for f
    using that by (simp add: inserted_def look_map)
  have upd: "inserted (consume_row sc w d t) i = inserted t i" "inserted (count_attempt sc d t) i = inserted t i"
    "inserted (accept_row sc w m d t) i = inserted t i" "inserted (retire_rows sc t) i = inserted t i"
    "inserted (discard_row sc d t) i = inserted t i" for sc w m d
    unfolding row_updates by (rule same; simp)+
  show ?thesis
  proof (cases c)
    case (Verify sc otp f pc)
    then show ?thesis using assms by (cases pc) (auto simp: upd split: if_splits option.splits)
  next
    case (Create sc n pc)
    have app: "inserted (t @ [r]) i \<longleftrightarrow> or_id r = i" for r
      using assms(3) by (auto simp: inserted_def look_append)
    show ?thesis using assms Create by (cases pc; cases sc) (auto simp: upd app new_row_def split: if_splits sum.splits)
  next
    case (Discard sc d pc)
    then show ?thesis using assms by (cases pc) (auto simp: upd split: if_splits sum.splits)
  next
    case TurnedAway
    then show ?thesis using assms by simp
  qed
qed

text \<open>The row of the moving call itself.\<close>

lemma create_static:
  assumes "call_static env now t (Create sc n pc)" and m: "create_next env now fails sc n pc t s = (pc', t', s')"
  shows "call_static env now t' (Create sc n pc')"
proof (cases "\<exists>x. sc = Some x \<and> pc = Inserting \<and> \<not> fails \<and> \<not> inserted t (no_id n)")
  case True
  then obtain x where x: "sc = Some x" "pc = Inserting" "\<not> fails" "\<not> inserted t (no_id n)" by blast
  have "no_id n \<notin> set (map or_id t)" using x(4) look_None[of t "no_id n"] by (simp add: inserted_def)
  then have pc': "pc' = CDone (Some (no_id n))" and t': "t' = t @ [new_row x n now]" using m x by auto
  have "look t' (no_id n) = Some (new_row x n now)" using x(4) by (simp add: t' look_append inserted_def new_row_def)
  moreover have "row_made x n (new_row x n now)" by (auto simp: row_made_def intro: exI[of _ now])
  ultimately show ?thesis using assms(1) by (simp add: pc' x(1))
next
  case False
  have cases: "(\<exists>i. pc = CDone (Some i)) \<or> pc' \<noteq> CDone (Some j)" for j
    using m assms(1) False by (cases pc; cases sc) (auto simp: inserted_def look_None split: if_splits sum.splits)
  have ins: "inserted t' (no_id n) \<longrightarrow> inserted t (no_id n)"
    using move_inserted[of env now fails None "Create sc n pc" t s "Create sc n pc'" t' s' "no_id n"] m cases False by auto
  show ?thesis
  proof (cases "\<exists>i. pc = CDone (Some i)")
    case True
    then have "pc' = pc \<and> t' = t" using m assms(1) by (cases sc) auto
    then show ?thesis using assms(1) by simp
  next
    case ndone: False
    have "\<not> inserted t (no_id n)" using assms(1) ndone by (cases pc) (auto split: option.splits)
    then show ?thesis using assms(1) cases ndone ins by (cases pc') (auto split: option.splits)
  qed
qed

lemma discard_static:
  assumes "call_static env now t (Discard sc i pc)" "discard_next env now fails sc i pc t s = (pc', t', s')"
  shows "call_static env now t' (Discard sc i pc')"
proof (cases "pc = Deleting \<and> \<not> fails")
  case True
  then obtain q where q: "look t i = Some q" "owned_by sc q" "in_scope sc q" and i: "js_lower i = i" using assms(1) by auto
  have hit: "row_hit sc i q \<longleftrightarrow> unused q" using look_Some[OF q(1)] q(3) by (simp add: row_hit_def)
  have "look (discard_row sc i t) i = Some (if unused q then q\<lparr>or_deleted := True\<rparr> else q)"
    unfolding discard_row_def by (subst look_map) (simp_all add: q hit)
  then show ?thesis using assms(2) True i by (auto simp: unused_def)
next
  case False
  then show ?thesis using assms by (cases pc) (auto split: if_splits sum.splits)
qed

lemma discard_matches:
  assumes made: "row_made sc0 n q" and i: "or_id q = i" "js_lower i = i"
    and same: "sc_identifier sc0 = rq_identifier rq" "sc_type sc0 = rq_type rq" "sc_purpose sc0 = rq_purpose rq"
      "map_option bind_device (sc_binding sc0)
        = map_option (\<lambda>(d, _). sha256 env (''pandapay-otp-device-v2'' @ CHR 0x00 # d)) (rq_device rq)"
    and own: "request_owner env rq = Some (sc_owner sc)" "sc_owner sc0 = sc_owner sc"
    and sc: "sc = otp_scope_of rq b (sc_owner sc)"
    and b: "case rq_device rq of None \<Rightarrow> b = None
       | Some (d, _) \<Rightarrow> b = Some \<lparr>bind_device = sha256 env (''pandapay-otp-device-v2'' @ CHR 0x00 # d), bind_request = Some i\<rparr>"
    and type: "sc_type sc0 = ''phone'' \<or> sc_type sc0 = ''email''"
  shows "owned_by sc q \<and> in_scope sc q"
proof -
  obtain a where a: "same_static (new_row sc0 n a) q" using made by (auto simp: row_made_def)
  have f: "sc_type sc = rq_type rq" "sc_purpose sc = rq_purpose rq" "sc_binding sc = b"
    by (subst sc, simp add: otp_scope_of_def)+
  have "owned_by sc q" using a same(2) own(2) type f by (auto simp: same_static_def new_row_def owned_by_def)
  moreover have "in_scope sc q"
    using a same(3,4) i b f
    by (cases "rq_device rq"; cases "sc_binding sc0")
      (auto simp: same_static_def new_row_def in_scope_def purposePredicate_def protocolPredicate_def)
  ultimately show ?thesis by blast
qed

lemma request_scope_facts:
  "request_scope env rq = Some sc \<Longrightarrow> (sc_type sc = ''phone'' \<or> sc_type sc = ''email'')
    \<and> request_owner env rq = Some (sc_owner sc) \<and> sc_identifier sc = rq_identifier rq \<and> sc_type sc = rq_type rq"
  by (auto simp: request_scope_def request_binding_def validateOtpScope_def otp_scope_of_def split: option.splits if_splits)

lemma same_owner: "rq_identifier rq = rq_identifier rq' \<Longrightarrow> rq_type rq = rq_type rq' \<Longrightarrow> request_owner env rq = request_owner env rq'"
  by (simp add: request_owner_def)

lemma static_new:
  assumes st: "statics_ok env sys" and new: "new_call env sys c"
  shows "call_static env (sys_clock sys) (sys_rows sys) c"
proof (cases c)
  case (Create sc n pc)
  then show ?thesis using new by (auto simp: new_call_def used_ids_def inserted_def look_None)
next
  case (Discard sc i pc)
  then obtain rq b where pc: "pc = Deleting" and by': "created_by env sys rq i" and own: "request_owner env rq = Some (sc_owner sc)"
    and sc: "sc = otp_scope_of rq b (sc_owner sc)"
    and b: "case rq_device rq of None \<Rightarrow> b = None
       | Some (d, _) \<Rightarrow> b = Some \<lparr>bind_device = sha256 env (''pandapay-otp-device-v2'' @ CHR 0x00 # d), bind_request = Some i\<rparr>"
    using new by (auto simp: new_call_def)
  obtain sc0 n where c0: "Create (Some sc0) n (CDone (Some i)) \<in> set (sys_calls sys)"
    and same: "sc_identifier sc0 = rq_identifier rq" "sc_type sc0 = rq_type rq" "sc_purpose sc0 = rq_purpose rq"
      "map_option bind_device (sc_binding sc0)
        = map_option (\<lambda>(d, _). sha256 env (''pandapay-otp-device-v2'' @ CHR 0x00 # d)) (rq_device rq)"
    using by' by (auto simp: created_by_def)
  have s0: "call_static env (sys_clock sys) (sys_rows sys) (Create (Some sc0) n (CDone (Some i)))"
    using st c0 by (simp only: statics_ok_def)
  then obtain q rq0 where q: "look (sys_rows sys) i = Some q" "row_made sc0 n q" and i: "js_lower i = i"
    and rq0: "request_scope env rq0 = Some sc0" by auto
  note f0 = request_scope_facts[OF rq0]
  have "sc_owner sc0 = sc_owner sc" using f0 own same(1,2) same_owner[of rq0 rq env] by simp
  from discard_matches[OF q(2) _ i same own this sc b] f0 look_Some[OF q(1)]
  have "owned_by sc q \<and> in_scope sc q" by blast
  then show ?thesis using q(1) i pc by (simp add: Discard)
qed simp_all

lemma statics_step:
  assumes st: "statics_ok env sys" and step: "otp_step env sys sys'"
  shows "statics_ok env sys'"
  using step
proof (cases rule: otp_step_shape)
  case (wait now)
  have "call_static env now (sys_rows sys) c" if "c \<in> set (sys_calls sys)" for c
    by (rule call_static_kept[OF _ rows_kept_refl wait(1)]) (use st that in \<open>auto simp: statics_ok_def\<close>)
  then show ?thesis using st wait(2) by (simp add: statics_ok_def)
next
  case (new c st')
  have "made_id c = Some i \<Longrightarrow> i \<notin> set (ids_made (sys_calls sys))" for i
    using new(2) by (auto simp: new_call_def used_ids_def ids_made_set)
  then have "distinct (ids_made (sys_calls sys @ [c]))" using st
    by (cases c) (auto simp: statics_ok_def ids_made_append)
  then show ?thesis using st static_new[OF st new(2)] new(1) by (auto simp: statics_ok_def)
next
  case (move i choice fails c' t s)
  note kept = move_rows_kept[OF move(3)]
  have me: "call_static env (sys_clock sys) (sys_rows sys) (sys_calls sys ! i)"
    using st move(1) by (simp add: statics_ok_def)
  have d: "distinct (ids_made (sys_calls sys))" using st by (simp add: statics_ok_def)
  have ids: "ids_made ((sys_calls sys)[i := c']) = ids_made (sys_calls sys)"
    by (rule ids_made_update[OF move(1) move_made_id[OF move(3)]])
  have mine: "call_static env (sys_clock sys) t c'"
  proof (cases "sys_calls sys ! i")
    case (Create sc n pc)
    obtain pc' where v: "create_next env (sys_clock sys) fails sc n pc (sys_rows sys) (sys_store sys) = (pc', t, s)"
      and c': "c' = Create sc n pc'" using move(3) by (auto simp: Create split: prod.splits)
    show ?thesis unfolding c' by (rule create_static[OF me[unfolded Create] v])
  next
    case (Discard sc k pc)
    obtain pc' where v: "discard_next env (sys_clock sys) fails sc k pc (sys_rows sys) (sys_store sys) = (pc', t, s)"
      and c': "c' = Discard sc k pc'" using move(3) by (auto simp: Discard split: prod.splits)
    show ?thesis unfolding c' by (rule discard_static[OF me[unfolded Discard] v])
  qed (use move(3) in \<open>auto split: prod.splits\<close>)
  have others: "call_static env (sys_clock sys) t (sys_calls sys ! j)" if j: "j < length (sys_calls sys)" "j \<noteq> i" for j
  proof (rule call_static_kept[OF _ kept order_refl])
    show "call_static env (sys_clock sys) (sys_rows sys) (sys_calls sys ! j)" using st j by (simp add: statics_ok_def)
    fix x assume x: "made_id (sys_calls sys ! j) = Some x" "inserted t x"
    show "inserted (sys_rows sys) x"
    proof (rule ccontr)
      assume "\<not> inserted (sys_rows sys) x"
      from move_inserted[OF move(3) x(2) this] have "made_id (sys_calls sys ! i) = Some x" by auto
      then show False using ids_made_distinct[OF d j(1) move(1) j(2) x(1)] by blast
    qed
  qed
  have "call_static env (sys_clock sys) t c" if cin: "c \<in> set ((sys_calls sys)[i := c'])" for c
  proof -
    obtain j where j: "j < length ((sys_calls sys)[i := c'])" "(sys_calls sys)[i := c'] ! j = c"
      using cin unfolding in_set_conv_nth by blast
    show ?thesis
    proof (cases "j = i")
      case True
      then show ?thesis using mine j by simp
    next
      case False
      then show ?thesis using others[of j] j by simp
    qed
  qed
  then show ?thesis using d ids move(4) by (simp add: statics_ok_def)
next
  case clean
  have i: "inserted (cleanupExpiredOtps w t) x = inserted t x" for w t x
    unfolding inserted_def cleanupExpiredOtps_def by (subst look_map) simp_all
  have "call_static env (sys_clock sys) (cleanupExpiredOtps (sys_clock sys) (sys_rows sys)) c" if "c \<in> set (sys_calls sys)" for c
    by (rule call_static_kept[OF _ updates_kept(6) order_refl]) (use st that i in \<open>auto simp: statics_ok_def\<close>)
  then show ?thesis using st clean by (simp add: statics_ok_def)
qed

section \<open>The marker is held\<close>

text \<open>\<open>k\<close> is held for \<open>v\<close> from now until \<open>e\<close>; a change of the store is tame when it only takes away what
  the values in \<open>D\<close> hold.\<close>

definition held :: "('s \<Rightarrow> int \<Rightarrow> string \<Rightarrow> string option) \<Rightarrow> 's \<Rightarrow> int \<Rightarrow> string \<Rightarrow> string \<Rightarrow> int \<Rightarrow> bool" where
  "held holder s now k v e \<longleftrightarrow> (\<forall>t \<ge> now. t < e \<longrightarrow> holder s t k = Some v)"

definition tame :: "('s \<Rightarrow> int \<Rightarrow> string \<Rightarrow> string option) \<Rightarrow> int \<Rightarrow> string set \<Rightarrow> 's \<Rightarrow> 's \<Rightarrow> bool" where
  "tame holder now D s s' \<longleftrightarrow> (\<forall>k v e. v \<notin> D \<longrightarrow> held holder s now k v e \<longrightarrow> held holder s' now k v e)"

lemma tame_refl [simp]: "tame holder now D s s"
  by (simp add: tame_def)

definition markers_held :: "('s \<Rightarrow> int \<Rightarrow> string \<Rightarrow> string option) \<Rightarrow> 's otp_system \<Rightarrow> bool" where
  "markers_held holder sys \<longleftrightarrow> (\<forall>sc n pc k. Create (Some sc) n pc \<in> set (sys_calls sys) \<longrightarrow>
     active_key (sc_identifier sc) (sc_purpose sc) = Some k \<longrightarrow> marker_due (sys_rows sys) n pc \<longrightarrow>
     held holder (sys_store sys) (sys_clock sys) k (no_id n) (no_expires n))"

definition store_of :: "('s \<Rightarrow> int \<Rightarrow> string \<Rightarrow> string \<Rightarrow> int \<Rightarrow> store_error + bool \<times> 's)
    \<Rightarrow> ('s \<Rightarrow> int \<Rightarrow> string \<Rightarrow> string \<Rightarrow> store_error + bool \<times> 's) \<Rightarrow> 's otp_env \<Rightarrow> bool" where
  "store_of claim del env \<longleftrightarrow> claim_marker env = claim \<and> compare_delete env = del"

context marker_store
begin

lemma claim_tame:
  assumes "inv s" "claim s now k v ttl = Inr (b, s')"
  shows "inv s' \<and> tame holder now {} s s'"
proof (cases b)
  case True
  have c: "inv s'" "holder s now k = None"
    "\<And>t k'. now \<le> t \<Longrightarrow> holder s' t k' = (if k' = k then if t < now + ttl * 1000 then Some v else None else holder s t k')"
    using claim_won[OF assms(1)] assms(2) True by auto
  show ?thesis unfolding tame_def held_def
  proof (intro conjI allI impI c(1))
    fix k' v' e t
    assume h: "\<forall>t \<ge> now. t < e \<longrightarrow> holder s t k' = Some v'" and t: "now \<le> t" "t < e"
    have "holder s now k' = Some v'" using h t by simp
    then have "k' \<noteq> k" using c(2) by auto
    then show "holder s' t k' = Some v'" using c(3)[OF t(1)] h t by simp
  qed
next
  case False
  then show ?thesis using claim_lost[OF assms(1)] assms(2) by (auto simp: tame_def held_def)
qed

lemma delete_tame:
  assumes "inv s" "del s now k v = Inr (b, s')"
  shows "inv s' \<and> tame holder now {v} s s'"
  using deleted[OF assms] by (auto simp: tame_def held_def)

lemma clear_tame:
  assumes "store_of claim del env" "inv s" "clearActiveOtp env s now identifier i purpose = Inr s'"
  shows "inv s' \<and> tame holder now {i} s s'"
proof (cases "i = [] \<or> active_key identifier purpose = None")
  case True
  then have "s' = s" using assms(3) by (cases "i = []") (simp_all add: clearActiveOtp_def)
  then show ?thesis using assms(2) by simp
next
  case False
  then obtain k where k: "active_key identifier purpose = Some k" "i \<noteq> []" by blast
  then obtain b where "del s now k i = Inr (b, s')"
    using assms(1,3) by (cases "del s now k i") (simp_all add: clearActiveOtp_def store_of_def prod_eq_iff)
  then show ?thesis by (rule delete_tame[OF assms(2)])
qed

lemma mark_tame:
  assumes "store_of claim del env" "inv s" "markActiveOtp env s now identifier ttl i purpose = Inr (b, s')"
  shows "inv s' \<and> tame holder now {} s s'"
  using assms claim_tame by (auto simp: markActiveOtp_def store_of_def split: option.splits)

lemma mark_holds:
  assumes "store_of claim del env" "inv s" "markActiveOtp env s now identifier ttl i purpose = Inr (True, s')"
    and "active_key identifier purpose = Some k" "e \<le> now + ttl * 1000"
  shows "held holder s' now k i e"
  using assms claimed_holds[of s now k i ttl s'] by (auto simp: markActiveOtp_def store_of_def held_def)

lemma move_tame:
  assumes "store_of claim del env" "inv s" "move_call env now fails choice c t s = (c', t', s')"
  shows "inv s' \<and> tame holder now (erases c) s s'"
proof (cases c)
  case (Verify sc otp f pc)
  show ?thesis
  proof (cases "pc = Clearing")
    case True
    have "s' = s \<or> clearActiveOtp env s now (sc_identifier sc) (record_id f) (sc_purpose sc) = Inr s'"
      using assms(3) True by (auto simp: Verify split: if_splits sum.splits)
    then show ?thesis using assms(2) True clear_tame[OF assms(1,2)] by (auto simp: Verify)
  next
    case False
    then show ?thesis using assms by (cases pc) (auto simp: Verify split: if_splits)
  qed
next
  case (Create sc n pc)
  show ?thesis
  proof (cases sc)
    case (Some x)
    consider "pc = Claiming" | "pc = Undoing" | "pc \<noteq> Claiming" "pc \<noteq> Undoing" by blast
    then show ?thesis
    proof cases
      case 1
      have "s' = s \<or> (\<exists>b. markActiveOtp env s now (sc_identifier x) (otp_ttl_of env (sc_binding x)) (no_id n) (sc_purpose x) = Inr (b, s'))"
        using assms(3) 1 by (auto simp: Create Some split: if_splits sum.splits)
      then show ?thesis using assms(2) 1 mark_tame[OF assms(1,2)] by (auto simp: Create)
    next
      case 2
      have "s' = s \<or> clearActiveOtp env s now (sc_identifier x) (no_id n) (sc_purpose x) = Inr s'"
        using assms(3) 2 by (auto simp: Create Some split: if_splits sum.splits)
      then show ?thesis using assms(2) 2 clear_tame[OF assms(1,2)] by (auto simp: Create)
    next
      case 3
      then show ?thesis using assms by (cases pc) (auto simp: Create Some split: if_splits)
    qed
  qed (use assms Create in simp)
next
  case (Discard sc i pc)
  show ?thesis
  proof (cases "pc = Unmarking")
    case True
    have "s' = s \<or> clearActiveOtp env s now (sc_identifier sc) i (sc_purpose sc) = Inr s'"
      using assms(3) True by (auto simp: Discard split: if_splits sum.splits)
    then show ?thesis using assms(2) True clear_tame[OF assms(1,2)] by (auto simp: Discard)
  next
    case False
    then show ?thesis using assms by (cases pc) (auto simp: Discard split: if_splits)
  qed
next
  case TurnedAway
  then show ?thesis using assms by simp
qed

end

text \<open>Nothing erases the marker of another code that is due.\<close>

lemma erased_not_due:
  assumes "record_ok t c" "guess_ok env t c" "call_static env now t c" "call_static env now t (Create sc n pc)"
    and "no_id n \<in> erases c" "made_id c \<noteq> Some (no_id n)"
  shows "\<not> marker_due t n pc"
proof -
  have "inserted t (no_id n) \<and> \<not> row_unused t (no_id n)"
    using assms(5)
  proof (cases c)
    case (Verify sc' otp f pc')
    then have pc': "pc' = Clearing" and f: "record_id f = no_id n" using assms(5) by (cases pc'; simp)+
    obtain r where r: "f = Some r" using assms(1) by (cases f) (auto simp: Verify pc')
    then have "used_in_time env t sc' r" "or_id r = no_id n" using assms(2) f by (auto simp: Verify pc' record_id_def)
    then show ?thesis by (auto simp: used_in_time_def inserted_def row_unused_def unused_def)
  next
    case (Create sc' n' pc')
    then show ?thesis using assms(5,6) by (cases pc') auto
  next
    case (Discard sc' i pc')
    then have "pc' = Unmarking" "i = no_id n" using assms(5) by (cases pc'; simp)+
    then show ?thesis using assms(3) by (auto simp: Discard inserted_def row_unused_def)
  qed simp
  then show ?thesis using assms(4) by (cases "(t, n, pc)" rule: marker_due.cases) auto
qed

lemma due_before:
  assumes "rows_kept t t'" "call_static env now t (Create sc n pc)" "marker_due t' n pc"
  shows "marker_due t n pc"
proof (cases "\<exists>i. pc = CDone (Some i)")
  case True
  then obtain i where i: "pc = CDone (Some i)" by blast
  have "inserted t i" using assms(2) by (auto simp: i inserted_def)
  then show ?thesis using row_unused_kept[OF assms(1), of i] assms(3) by (simp add: i)
next
  case False
  then show ?thesis using assms(3) by (cases "(t', n, pc)" rule: marker_due.cases) auto
qed

lemma held_tame: "tame holder now D s s' \<Longrightarrow> v \<notin> D \<Longrightarrow> held holder s now k v e \<Longrightarrow> held holder s' now k v e"
  by (simp add: tame_def)

lemma create_due:
  assumes "create_next env now fails (Some sc) n pc t s = (pc', t', s')" "marker_due t' n pc'"
    and "call_static env now t (Create (Some sc) n pc)"
  shows "pc = Claiming \<and> pc' = Retiring \<or> marker_due t n pc \<and> s' = s"
  using assms by (cases pc) (auto split: if_splits sum.splits)

context marker_store
begin

lemma markers_step:
  assumes st: "store_of claim del env" and i0: "inv (sys_store sys)" and m: "markers_held holder sys"
    and rec: "records_ok sys" and g: "guesses_ok env sys" and stat: "statics_ok env sys" and step: "otp_step env sys sys'"
  shows "inv (sys_store sys') \<and> markers_held holder sys'"
  using step
proof (cases rule: otp_step_shape)
  case (wait now)
  then show ?thesis using i0 m by (auto simp: markers_held_def held_def)
next
  case (new c st')
  then have "pc = Hashing" if "c = Create sc n pc" for sc n pc using that by (auto simp: new_call_def)
  then show ?thesis using i0 m new(1) by (auto simp: markers_held_def)
next
  case (move i choice fails c' t s)
  let ?c = "sys_calls sys ! i"
  note kept = move_rows_kept[OF move(3)]
  have mem: "?c \<in> set (sys_calls sys)" using move(1) by simp
  have me: "record_ok (sys_rows sys) ?c" "guess_ok env (sys_rows sys) ?c" "call_static env (sys_clock sys) (sys_rows sys) ?c"
    using rec g stat mem by (simp_all add: records_ok_def guesses_ok_def statics_ok_def)
  have tm: "inv s" "tame holder (sys_clock sys) (erases ?c) (sys_store sys) s"
    using move_tame[OF st i0 move(3)] by simp_all
  have "held holder s (sys_clock sys) k (no_id n) (no_expires n)"
    if x: "Create (Some sc) n pc \<in> set ((sys_calls sys)[i := c'])" and k: "active_key (sc_identifier sc) (sc_purpose sc) = Some k"
      and due: "marker_due t n pc" for sc n pc k
  proof -
    obtain j where j: "j < length (sys_calls sys)" "(sys_calls sys)[i := c'] ! j = Create (Some sc) n pc"
      using x by (metis in_set_conv_nth length_list_update)
    show ?thesis
    proof (cases "j = i")
      case False
      then have c: "sys_calls sys ! j = Create (Some sc) n pc" using j by simp
      then have cm: "Create (Some sc) n pc \<in> set (sys_calls sys)" using j(1) nth_mem by metis
      have cs: "call_static env (sys_clock sys) (sys_rows sys) (Create (Some sc) n pc)"
        using stat cm by (simp only: statics_ok_def)
      note before = due_before[OF kept cs due]
      have h: "held holder (sys_store sys) (sys_clock sys) k (no_id n) (no_expires n)"
        using m cm k before unfolding markers_held_def by blast
      have "distinct (ids_made (sys_calls sys))" using stat by (simp add: statics_ok_def)
      then have "made_id ?c \<noteq> Some (no_id n)" using ids_made_distinct[OF _ j(1) move(1) False, of "no_id n" "no_id n"] c by auto
      then have "no_id n \<notin> erases ?c" using erased_not_due[OF me cs] before by blast
      then show ?thesis by (rule held_tame[OF tm(2) _ h])
    next
      case True
      then have c': "c' = Create (Some sc) n pc" using j by simp
      then obtain pc0 where c: "?c = Create (Some sc) n pc0"
        and v: "create_next env (sys_clock sys) fails (Some sc) n pc0 (sys_rows sys) (sys_store sys) = (pc, t, s)"
        using move(3) by (cases ?c) (auto split: prod.splits)
      from create_due[OF v due me(3)[unfolded c]] show ?thesis
      proof
        assume "marker_due (sys_rows sys) n pc0 \<and> s = sys_store sys"
        then show ?thesis using m k c mem by (auto simp: markers_held_def)
      next
        assume p: "pc0 = Claiming \<and> pc = Retiring"
        then have "markActiveOtp env (sys_store sys) (sys_clock sys) (sc_identifier sc) (otp_ttl_of env (sc_binding sc)) (no_id n) (sc_purpose sc)
            = Inr (True, s)"
          using v by (auto split: if_splits sum.splits)
        from mark_holds[OF st i0 this k] me(3) show ?thesis by (simp add: c p)
      qed
    qed
  qed
  then show ?thesis using tm(1) move(4) by (simp add: markers_held_def)
next
  case clean
  have "row_unused (sys_rows sys) i" if "row_unused (cleanupExpiredOtps w (sys_rows sys)) i" for w i
    using that unfolding row_unused_def cleanupExpiredOtps_def
    by (subst (asm) look_map) (auto simp: unused_def split: option.splits if_splits)
  then have due: "marker_due (sys_rows sys) n pc" if "marker_due (cleanupExpiredOtps w (sys_rows sys)) n pc" for w n pc
    using that by (cases "(sys_rows sys, n, pc)" rule: marker_due.cases) auto
  show ?thesis using i0 m due by (auto simp: clean markers_held_def)
qed

lemma reachable_markers:
  assumes "store_of claim del env" "inv s" "otp_reachable env (otp_init s l now) sys" "validateLimits l = Some l"
  shows "inv (sys_store sys) \<and> markers_held holder sys \<and> statics_ok env sys"
  using assms(3)
proof induction
  case start
  then show ?case using assms(2) by (simp add: markers_held_def statics_ok_def otp_init_def)
next
  case (step sys sys')
  note ok = reachable_ok[OF step(1) assms(4)] reachable_guesses[OF step(1) assms(4)]
  show ?case using markers_step[OF assms(1)] statics_step step ok by blast
qed

lemma one_usable:
  assumes "store_of claim del env" "inv s" "otp_reachable env (otp_init s l now) sys" "validateLimits l = Some l"
    and a: "Create (Some sc) n (CDone (Some i)) \<in> set (sys_calls sys)" "look (sys_rows sys) i = Some q" "usable (sys_clock sys) q"
    and b: "Create (Some sc') n' (CDone (Some i')) \<in> set (sys_calls sys)" "look (sys_rows sys) i' = Some q'" "usable (sys_clock sys) q'"
    and k: "active_key (sc_identifier sc) (sc_purpose sc) = Some k" "active_key (sc_identifier sc') (sc_purpose sc') = Some k"
  shows "i = i'"
proof -
  note r = reachable_markers[OF assms(1-4)]
  have stat: "call_static env (sys_clock sys) (sys_rows sys) (Create (Some sc) n (CDone (Some i)))"
    "call_static env (sys_clock sys) (sys_rows sys) (Create (Some sc') n' (CDone (Some i')))"
    using r a(1) b(1) by (simp_all only: statics_ok_def)
  have e: "or_expires q = no_expires n" "or_expires q' = no_expires n'" "i = no_id n" "i' = no_id n'"
    using stat a(2) b(2) by (auto simp: row_made_def same_static_def new_row_def)
  have "held holder (sys_store sys) (sys_clock sys) k i (no_expires n)" "held holder (sys_store sys) (sys_clock sys) k i' (no_expires n')"
    using r a b k e by (auto simp: markers_held_def row_unused_def usable_def)
  then have "holder (sys_store sys) (sys_clock sys) k = Some i" "holder (sys_store sys) (sys_clock sys) k = Some i'"
    using a(3) b(3) e by (auto simp: held_def usable_def)
  then show ?thesis by simp
qed

end

section \<open>On the hosted store\<close>

lemma pg_marker_keys:
  assumes "inj dig"
  shows "marker_store pg_ok (\<lambda>s t k. pg_holder s t (dig k)) (\<lambda>s now k. pg_claimMarker penv s now (dig k))
    (\<lambda>s now k. pg_compareDelete s (dig k))"
proof
  note d = inj_eq[OF assms]
  fix s s' :: pg_store and now :: int and k v :: string and ttl :: int
  assume "pg_ok s" "pg_claimMarker penv s now (dig k) v ttl = Inr (True, s')"
  from pg_marker.claim_won[OF this] show "pg_ok s' \<and> pg_holder s now (dig k) = None \<and> (\<forall>t \<ge> now. \<forall>k'. pg_holder s' t (dig k') =
      (if k' = k then if t < now + ttl * 1000 then Some v else None else pg_holder s t (dig k')))"
    by (simp add: d)
next
  fix s s' :: pg_store and now :: int and k v :: string and ttl :: int
  assume "pg_ok s" "pg_claimMarker penv s now (dig k) v ttl = Inr (False, s')"
  from pg_marker.claim_lost[OF this] show "pg_ok s' \<and> pg_holder s now (dig k) \<noteq> None \<and> (\<forall>t \<ge> now. \<forall>k'. pg_holder s' t (dig k') = pg_holder s t (dig k'))"
    by simp
next
  note d = inj_eq[OF assms]
  fix s s' :: pg_store and now :: int and k v :: string and b
  assume "pg_ok s" "pg_compareDelete s (dig k) v = Inr (b, s')"
  from pg_marker.deleted[OF this] show "pg_ok s' \<and> (\<forall>t \<ge> now. \<forall>k'. pg_holder s' t (dig k') =
      (if k' = k \<and> pg_holder s t (dig k) = Some v then None else pg_holder s t (dig k')))"
    by (simp add: d)
next
  fix s :: pg_store and t now :: int and k v :: string
  assume "pg_ok s" "pg_holder s t (dig k) = Some v" "now \<le> t"
  then show "pg_holder s now (dig k) = Some v" by (rule pg_marker.holder_back)
qed

text \<open>A run depends on the digest only at the keys of its calls.\<close>

fun call_scope :: "call \<Rightarrow> otp_scope option" where
  "call_scope (Verify sc otp f pc) = Some sc"
| "call_scope (Create sc n pc) = sc"
| "call_scope (Discard sc i pc) = Some sc"
| "call_scope TurnedAway = None"

definition call_keys :: "call \<Rightarrow> string set" where
  "call_keys c = (case call_scope c of None \<Rightarrow> {} | Some sc \<Rightarrow> set_option (active_key (sc_identifier sc) (sc_purpose sc)))"

definition keys_used :: "'s otp_system \<Rightarrow> string set" where
  "keys_used sys = (\<Union>c \<in> set (sys_calls sys). call_keys c)"

lemma keys_used_finite: "finite (keys_used sys)"
  by (auto simp: keys_used_def call_keys_def split: option.splits)

definition same_but_store :: "string set \<Rightarrow> 's otp_env \<Rightarrow> 's otp_env \<Rightarrow> bool" where
  "same_but_store K env env' \<longleftrightarrow> (\<exists>cl dl. env' = env\<lparr>claim_marker := cl, compare_delete := dl\<rparr>
     \<and> (\<forall>k \<in> K. \<forall>s now v ttl. cl s now k v ttl = claim_marker env s now k v ttl)
     \<and> (\<forall>k \<in> K. \<forall>s now v. dl s now k v = compare_delete env s now k v))"

lemma same_fields:
  assumes "same_but_store K env env'"
  shows "scope_attempts env' = scope_attempts env" "bcrypt_compare env' = bcrypt_compare env" "bcrypt_hash env' = bcrypt_hash env"
    "otp_ttl_of env' = otp_ttl_of env" "request_binding env' = request_binding env" "request_scope env' = request_scope env"
    "test_identifiers env' = test_identifiers env" "sha256 env' = sha256 env"
proof -
  have base: "max_attempts env' = max_attempts env" "otp_ttl env' = otp_ttl env" "phone_hmac env' = phone_hmac env"
    and sha: "sha256 env' = sha256 env" "bcrypt_compare env' = bcrypt_compare env" "bcrypt_hash env' = bcrypt_hash env"
      "test_identifiers env' = test_identifiers env"
    using assms by (auto simp: same_but_store_def)
  have binding: "request_binding env' = request_binding env" unfolding request_binding_def sha ..
  have owner: "request_owner env' = request_owner env" unfolding request_owner_def base ..
  show "scope_attempts env' = scope_attempts env" unfolding scope_attempts_def base ..
  show "otp_ttl_of env' = otp_ttl_of env" unfolding otp_ttl_of_def base ..
  show "request_scope env' = request_scope env" unfolding request_scope_def binding owner ..
qed (use assms in \<open>auto simp: same_but_store_def request_binding_def fun_eq_iff split: option.splits\<close>)

lemma same_markers:
  assumes "same_but_store K env env'" "set_option (active_key d p) \<subseteq> K"
  shows "markActiveOtp env' s now d ttl i p = markActiveOtp env s now d ttl i p"
    and "clearActiveOtp env' s now d i p = clearActiveOtp env s now d i p"
  using assms unfolding same_but_store_def markActiveOtp_def clearActiveOtp_def by (auto split: option.splits)

lemma same_call:
  assumes e: "same_but_store K env env'" and k: "call_keys c \<subseteq> K"
  shows "move_call env' now fails choice c t s = move_call env now fails choice c t s"
proof -
  note f = same_fields[OF e]
  note m = same_markers[OF e]
  show ?thesis
  proof (cases c)
    case (Verify sc otp f pc)
    have "verify_next env' now fails sc otp f pc t s = verify_next env now fails sc otp f pc t s"
      using k m[of "sc_identifier sc" "sc_purpose sc"] by (cases pc) (simp_all add: f Verify call_keys_def split: option.split)
    then show ?thesis by (simp add: Verify)
  next
    case (Create sc n pc)
    have "create_next env' now fails sc n pc t s = create_next env now fails sc n pc t s"
    proof (cases sc)
      case (Some x)
      show ?thesis using k m[of "sc_identifier x" "sc_purpose x"] by (cases pc) (simp_all add: f Create Some call_keys_def)
    qed simp
    then show ?thesis by (simp add: Create)
  next
    case (Discard sc i pc)
    have "discard_next env' now fails sc i pc t s = discard_next env now fails sc i pc t s"
      using k m[of "sc_identifier sc" "sc_purpose sc"] by (cases pc) (simp_all add: f Discard call_keys_def)
    then show ?thesis by (simp add: Discard)
  qed simp
qed

lemma move_scope: "move_call env now fails choice c t s = (c', t', s') \<Longrightarrow> call_keys c' = call_keys c"
  by (cases c) (auto simp: call_keys_def split: prod.splits)

lemma run_work_calls: "\<exists>c'. sys_calls (run_work c sys) = sys_calls sys @ [c']"
  by (auto simp: run_work_def split: prod.splits admission.splits option.splits)

lemma keys_append: "sys_calls sys' = sys_calls sys @ cs \<Longrightarrow> keys_used sys \<subseteq> keys_used sys'"
  by (auto simp: keys_used_def)

lemma run_work_keys: "keys_used sys \<subseteq> keys_used (run_work c sys)"
  using run_work_calls[of c sys] keys_append by blast

lemma keys_grow:
  assumes "otp_step env sys sys'"
  shows "keys_used sys \<subseteq> keys_used sys'"
  using assms
proof (cases rule: otp_step.cases)
  case (moves i choice fails)
  have "call_keys c \<subseteq> keys_used sys'" if c: "c \<in> set (sys_calls sys)" for c
  proof -
    obtain j where j: "j < length (sys_calls sys)" "sys_calls sys ! j = c" using c by (metis in_set_conv_nth)
    obtain c' t' s' where m: "move_call env (sys_clock sys) fails choice (sys_calls sys ! i) (sys_rows sys) (sys_store sys) = (c', t', s')"
      by (metis prod_cases3)
    have "sys_calls sys' = (sys_calls sys)[i := c']" using moves(1) m by (simp add: move_def Let_def)
    then have "sys_calls sys' ! j \<in> set (sys_calls sys')" "call_keys (sys_calls sys' ! j) = call_keys c"
      using j moves(2) move_scope[OF m] nth_mem[of j "sys_calls sys'"] by (auto simp: nth_list_update)
    then show ?thesis by (auto simp: keys_used_def)
  qed
  then show ?thesis by (auto simp: keys_used_def)
next
  case (call_verify rq otp)
  then show ?thesis using run_work_keys by (simp add: verifyOtp_def)
next
  case (call_create rq draw i salt)
  then show ?thesis using run_work_keys by (simp add: createOtp_def)
next
  case (call_discard rq i)
  then have "sys_calls sys' = sys_calls sys @ drop (length (sys_calls sys)) (sys_calls sys')"
    by (simp add: discardUndeliveredOtp_def Let_def)
  then show ?thesis by (rule keys_append)
qed (auto simp: keys_used_def)

lemma same_step:
  assumes e: "same_but_store K env env'" and k: "keys_used sys' \<subseteq> K" and st: "otp_step env sys sys'"
  shows "otp_step env' sys sys'"
  using st
proof (cases rule: otp_step.cases)
  case (moves i choice fails)
  have "call_keys (sys_calls sys ! i) \<subseteq> K"
    using keys_grow[OF st] k moves(2) unfolding keys_used_def by (meson UN_upper nth_mem order_trans)
  then have "move env' fails choice i sys = move env fails choice i sys" by (simp add: move_def same_call[OF e])
  then show ?thesis using otp_step.moves[of i sys choice env' fails] moves by simp
next
  case (call_verify rq otp)
  have "verifyOtp env' rq otp sys = verifyOtp env rq otp sys" unfolding verifyOtp_def same_fields[OF e] ..
  then show ?thesis using otp_step.call_verify[of env' sys rq otp] call_verify by simp
next
  case (call_create rq draw i salt)
  have "createOtp env' rq draw i salt sys = createOtp env rq draw i salt sys" unfolding createOtp_def same_fields[OF e] ..
  then show ?thesis using otp_step.call_create[of rq draw i sys env' salt] call_create by simp
next
  case (call_discard rq i)
  have "discardUndeliveredOtp env' rq i sys = discardUndeliveredOtp env rq i sys"
    unfolding discardUndeliveredOtp_def same_fields[OF e] ..
  moreover have "created_by env' sys rq i" using call_discard by (simp add: created_by_def same_fields[OF e])
  ultimately show ?thesis using otp_step.call_discard[of env' sys rq i] call_discard by simp
qed (auto intro: otp_step.intros)

lemma same_run:
  assumes "same_but_store K env env'" "otp_reachable env sys0 sys" "keys_used sys \<subseteq> K"
  shows "otp_reachable env' sys0 sys"
  using assms(2,3)
proof induction
  case (step sys sys')
  then show ?case using keys_grow[OF step(2)] same_step[OF assms(1) _ step(2)] by (meson order_trans otp_reachable.step)
qed (rule otp_reachable.start)

text \<open>
  C5: one usable code at a time. Whatever runs at once, two codes made for the same identifier and purpose
  (of either protocol) are never both unused and unexpired: the marker claimed before a code is stored
  outlives it, and only the use or the removal of the code takes the marker away. On the hosted store,
  whose digest is assumed not to collide on the keys of the calls made.
\<close>

theorem one_usable_code:
  assumes "inj_on dig (keys_used sys)"
    and "store_of (\<lambda>s now k. pg_claimMarker penv s now (dig k)) (\<lambda>s now k. pg_compareDelete s (dig k)) env"
    and "otp_reachable env (otp_init [] l now) sys" and "validateLimits l = Some l"
    and "Create (Some sc) n (CDone (Some i)) \<in> set (sys_calls sys)" and "look (sys_rows sys) i = Some q" and "usable (sys_clock sys) q"
    and "Create (Some sc') n' (CDone (Some i')) \<in> set (sys_calls sys)" and "look (sys_rows sys) i' = Some q'" and "usable (sys_clock sys) q'"
    and "active_key (sc_identifier sc) (sc_purpose sc) = Some k" and "active_key (sc_identifier sc') (sc_purpose sc') = Some k"
  shows "i = i'"
proof -
  obtain dig' where d: "inj dig'" "\<forall>k \<in> keys_used sys. dig' k = dig k"
    using inj_extend[OF keys_used_finite assms(1)] by blast
  let ?cl = "\<lambda>s now k. pg_claimMarker penv s now (dig' k)" and ?dl = "\<lambda>s (now :: int) k. pg_compareDelete s (dig' k)"
  let ?env = "env\<lparr>claim_marker := ?cl, compare_delete := ?dl\<rparr>"
  have "same_but_store (keys_used sys) env ?env"
    unfolding same_but_store_def by (intro exI conjI, rule refl) (use assms(2) d(2) in \<open>simp_all add: store_of_def\<close>)
  then have "otp_reachable ?env (otp_init [] l now) sys" using assms(3) by (rule same_run) simp
  moreover have "store_of ?cl ?dl ?env" using assms(2) by (simp add: store_of_def)
  ultimately show ?thesis
    by (intro marker_store.one_usable[OF pg_marker_keys[OF d(1)] _ _ _ assms(4-12)]) (simp_all add: pg_ok_def)
qed

end
