(* ===== verification/OtpSamples.thy ===== *)
theory OtpSamples
  imports OtpMarkers
begin

text \<open>A concrete run of the one-time codes on the hosted store: two codes made and used, a third one guessed at.\<close>

definition sample_penv :: pg_env where
  "sample_penv = \<lparr>pg_capacity = 1000, pg_batch = CLEANUP_BATCH, pg_locked = \<lambda>_ _. False\<rparr>"

definition sample_otp_env :: "pg_store otp_env" where
  "sample_otp_env = \<lparr>max_attempts = 5, otp_ttl = 120, test_identifiers = False, bcrypt_hash = \<lambda>salt c. c,
     bcrypt_compare = \<lambda>c h. c = h, phone_hmac = \<lambda>s. s, sha256 = \<lambda>s. s,
     claim_marker = \<lambda>s now k. pg_claimMarker sample_penv s now (id k), compare_delete = \<lambda>s now k. pg_compareDelete s (id k)\<rparr>"

definition sample_rq :: otp_request where
  "sample_rq = \<lparr>rq_identifier = ''Ann@x.in '', rq_type = ''email'', rq_purpose = ''signin'', rq_device = None\<rparr>"

definition sample_uuid :: "char \<Rightarrow> string" where
  "sample_uuid c = ''0f0f0f0f-0f0f-4f0f-8f0f-0f0f0f0f0f0'' @ [c]"

definition turns :: "nat \<Rightarrow> nat \<Rightarrow> (bool \<times> nat) list" where
  "turns k i = replicate k (False, i)"

definition sample_start :: "pg_store otp_system" where
  "sample_start = otp_init [] DEFAULT_LIMITS 1000"

definition sample_made :: "pg_store otp_system" where
  "sample_made = run_moves sample_otp_env (turns 4 0) (createOtp sample_otp_env sample_rq 4321 (sample_uuid CHR ''a'') [] sample_start)"

definition sample_used :: "pg_store otp_system" where
  "sample_used = run_moves sample_otp_env (turns 5 3)
     (verifyOtp sample_otp_env sample_rq ''5678'' (run_moves sample_otp_env (turns 4 2)
       (createOtp sample_otp_env sample_rq 5678 (sample_uuid CHR ''b'') [] (run_moves sample_otp_env (turns 5 1)
         (verifyOtp sample_otp_env sample_rq '' 4321'' sample_made)))))"

definition sample_guess :: "pg_store otp_system" where
  "sample_guess = run_moves sample_otp_env (turns 4 1) (verifyOtp sample_otp_env sample_rq ''9999'' sample_made)"

lemma sample_limits: "validateLimits DEFAULT_LIMITS = Some DEFAULT_LIMITS"
  by (simp add: validateLimits_def DEFAULT_LIMITS_def limit_ok_def)

definition sample_sc :: otp_scope where
  "sample_sc = \<lparr>sc_identifier = ''Ann@x.in '', sc_type = ''email'', sc_owner = ''ann@x.in'', sc_purpose = ''signin'', sc_binding = None\<rparr>"

definition sample_new :: "char \<Rightarrow> string \<Rightarrow> new_otp" where
  "sample_new c otp = \<lparr>no_code = otp, no_id = sample_uuid c, no_expires = 121000, no_hash = otp\<rparr>"

lemma sample_made_calls: "sys_calls sample_made = [Create (Some sample_sc) (sample_new CHR ''a'' ''4321'') (CDone (Some (sample_uuid CHR ''a'')))]"
  by code_simp

lemma sample_made_rows: "sys_rows sample_made = [new_row sample_sc (sample_new CHR ''a'' ''4321'') 1000]"
  by code_simp

lemma sample_used_calls:
  "sys_calls sample_used ! 1 = Verify sample_sc '' 4321'' (Some (new_row sample_sc (sample_new CHR ''a'' ''4321'') 1000)) (VDone Accepted)"
  "sys_calls sample_used ! 3 = Verify sample_sc ''5678'' (Some (new_row sample_sc (sample_new CHR ''b'' ''5678'') 1000)) (VDone Accepted)"
  "length (sys_calls sample_used) = 4"
  by code_simp+

lemma sample_guess_counted:
  "count_calls (guessed sample_otp_env (sample_uuid CHR ''a'')) (sys_calls sample_guess) = 1"
  "look (sys_rows sample_guess) (sample_uuid CHR ''a'')
     = Some ((new_row sample_sc (sample_new CHR ''a'' ''4321'') 1000)\<lparr>or_attempts := 1\<rparr>)"
  by code_simp+

lemma used_ids_list: "used_ids sys = set (map or_id (sys_rows sys) @ ids_made (sys_calls sys))"
  by (simp add: used_ids_def ids_made_set)

lemma reach_create:
  assumes "otp_reachable env sys0 sys" "draw_ok (rq_device rq \<noteq> None) draw" "uuid_v4 i" "js_lower i = i"
    and "i \<notin> set (map or_id (sys_rows sys) @ ids_made (sys_calls sys))"
  shows "otp_reachable env sys0 (createOtp env rq draw i salt sys)"
  by (rule otp_reachable.step[OF assms(1)], rule otp_step.call_create) (use assms in \<open>simp_all add: used_ids_list\<close>)

lemma reach_verify: "otp_reachable env sys0 sys \<Longrightarrow> otp_reachable env sys0 (verifyOtp env rq otp sys)"
  by (rule otp_reachable.step) (auto intro: otp_step.call_verify)

lemma sample_uuid_ok: "uuid_v4 (sample_uuid CHR ''a'')" "js_lower (sample_uuid CHR ''a'') = sample_uuid CHR ''a''"
  "uuid_v4 (sample_uuid CHR ''b'')" "js_lower (sample_uuid CHR ''b'') = sample_uuid CHR ''b''"
  by code_simp+

lemma sample_made_reachable: "otp_reachable sample_otp_env sample_start sample_made"
  unfolding sample_made_def
  by (intro run_moves_reachable reach_create otp_reachable.start sample_uuid_ok)
    (simp_all add: draw_ok_def sample_rq_def sample_start_def otp_init_def)

lemma sample_used_reachable: "otp_reachable sample_otp_env sample_start sample_used"
proof -
  let ?s = "run_moves sample_otp_env (turns 5 1) (verifyOtp sample_otp_env sample_rq '' 4321'' sample_made)"
  have "sample_uuid CHR ''b'' \<notin> set (map or_id (sys_rows ?s) @ ids_made (sys_calls ?s))" by code_simp
  then show ?thesis unfolding sample_used_def
    by (intro run_moves_reachable reach_verify reach_create sample_made_reachable sample_uuid_ok)
      (simp_all add: draw_ok_def sample_rq_def)
qed

lemma sample_guess_reachable: "otp_reachable sample_otp_env sample_start sample_guess"
  unfolding sample_guess_def by (intro run_moves_reachable reach_verify sample_made_reachable)

lemmas sample_run = sample_used_reachable[unfolded sample_start_def] sample_made_reachable[unfolded sample_start_def]
  sample_guess_reachable[unfolded sample_start_def]

lemma otp_accepted_once_witness:
  "or_id (new_row sample_sc (sample_new CHR ''a'' ''4321'') 1000) \<noteq> or_id (new_row sample_sc (sample_new CHR ''b'' ''5678'') 1000)"
  by (rule otp_accepted_once[OF sample_run(1) sample_limits _ _ sample_used_calls(1,2)]) (simp_all add: sample_used_calls(3))

lemma otp_accept_sound_witness:
  "\<exists>q \<in> set (sys_rows sample_used). owned_by sample_sc q \<and> in_scope sample_sc q \<and> bcrypt_compare sample_otp_env (js_trim '' 4321'') (or_hash q)
    \<and> or_attempts q < scope_attempts sample_otp_env sample_sc \<and> (\<exists>used. or_consumed q = Some used \<and> used < or_expires q)"
proof (rule otp_accept_sound[OF sample_run(1) sample_limits])
  show "Verify sample_sc '' 4321'' (Some (new_row sample_sc (sample_new CHR ''a'' ''4321'') 1000)) (VDone Accepted) \<in> set (sys_calls sample_used)"
    using sample_used_calls(1,3) nth_mem[of 1 "sys_calls sample_used"] by simp
qed

lemma otp_guesses_bounded_witness:
  "int (count_calls (guessed sample_otp_env (sample_uuid CHR ''a'')) (sys_calls sample_guess)) \<le> 5 - 1 + 2"
  using otp_guesses_bounded[OF sample_run(3) sample_limits sample_guess_counted(2)]
  by (simp add: sample_otp_env_def new_row_def sample_sc_def DEFAULT_LIMITS_def)

lemma otp_slot_freed_witness:
  "fst (admit ''work'' (sys_stages (run_moves sample_otp_env (turns 5 0) sample_made))) = Admitted"
proof -
  have "\<forall>i < length (sys_calls sample_made). 5 \<le> count_list (map snd (turns 5 0)) i"
    by (simp add: sample_made_calls turns_def numeral_eq_Suc)
  from otp_slot_freed[OF sample_run(2) sample_limits this] show ?thesis by blast
qed

lemma sample_made_clock: "sys_clock sample_made = 1000"
  by code_simp

lemma sample_key: "active_key (sc_identifier sample_sc) (sc_purpose sample_sc) = Some ''otp_active:email:ann@x.in:signin''"
  by code_simp

lemma one_usable_code_witness:
  "\<exists>!i. \<exists>sc n q. Create (Some sc) n (CDone (Some i)) \<in> set (sys_calls sample_made) \<and> look (sys_rows sample_made) i = Some q
     \<and> usable (sys_clock sample_made) q \<and> active_key (sc_identifier sc) (sc_purpose sc) = Some ''otp_active:email:ann@x.in:signin''"
  (is "\<exists>!i. ?P i")
proof (rule ex1I)
  show "?P (sample_uuid CHR ''a'')"
    by (intro exI[of _ sample_sc] exI[of _ "sample_new CHR ''a'' ''4321''"] exI[of _ "new_row sample_sc (sample_new CHR ''a'' ''4321'') 1000"])
      (simp add: sample_made_calls sample_made_rows sample_made_clock sample_key look_def new_row_def sample_new_def usable_def unused_def)
  then obtain sc n q where a: "Create (Some sc) n (CDone (Some (sample_uuid CHR ''a''))) \<in> set (sys_calls sample_made)"
    "look (sys_rows sample_made) (sample_uuid CHR ''a'') = Some q" "usable (sys_clock sample_made) q"
    "active_key (sc_identifier sc) (sc_purpose sc) = Some ''otp_active:email:ann@x.in:signin''" by blast
  have st: "store_of (\<lambda>s now k. pg_claimMarker sample_penv s now (id k)) (\<lambda>s now k. pg_compareDelete s (id k)) sample_otp_env"
    by (simp add: store_of_def sample_otp_env_def)
  fix i assume "?P i"
  then show "i = sample_uuid CHR ''a''"
    using one_usable_code[OF inj_on_id st sample_run(2) sample_limits _ _ _ a(1-3) _ a(4)] by blast
qed

end
