(* ===== verification/OtpLimits.thy ===== *)
theory OtpLimits
  imports OtpService AbuseStoreProps
begin

text \<open>
  The limits of \<open>auth/src/middleware/rateLimitMiddleware.js\<close> (its marker functions are in
  \<open>OtpService\<close>). The store is the function \<open>call\<close> that does one operation; a middleware passes the
  request on, refuses it (429) or answers that the store is unavailable (503). The numbers of the
  configuration are a record.
\<close>

record otp_limits =
  phone_10min :: int
  phone_day :: int
  email_10min :: int
  email_day :: int
  ip_10min :: int
  ip_day :: int
  failed_per_hour :: int
  enumeration_10min :: int
  enumeration_hour :: int
  enumeration_block :: int

definition default_otp_limits :: otp_limits where
  "default_otp_limits = \<lparr>phone_10min = 3, phone_day = 10, email_10min = 3, email_day = 10, ip_10min = 20, ip_day = 100,
     failed_per_hour = 10, enumeration_10min = 2, enumeration_hour = 5, enumeration_block = 3600\<rparr>"

datatype gate = Pass | TooMany | Unavailable

type_synonym 's store_call = "int \<Rightarrow> store_op \<Rightarrow> 's \<Rightarrow> store_error + store_answer \<times> 's"

definition incrementCounter :: "'s store_call \<Rightarrow> int \<Rightarrow> string \<Rightarrow> int \<Rightarrow> int \<Rightarrow> 's \<Rightarrow> (int option) \<times> 's" where
  "incrementCounter call now k ttl saturation s = (case call now (Increment k ttl saturation) s of
     Inr (Num n, s') \<Rightarrow> (Some n, s') | Inr (Flag b, s') \<Rightarrow> (None, s') | Inl e \<Rightarrow> (None, s))"

definition getCounter :: "'s store_call \<Rightarrow> int \<Rightarrow> string \<Rightarrow> 's \<Rightarrow> (int option) \<times> 's" where
  "getCounter call now k s = (case call now (Get k) s of
     Inr (Num n, s') \<Rightarrow> (Some n, s') | Inr (Flag b, s') \<Rightarrow> (None, s') | Inl e \<Rightarrow> (None, s))"

definition key_exists :: "'s store_call \<Rightarrow> int \<Rightarrow> string \<Rightarrow> 's \<Rightarrow> (bool option) \<times> 's" where
  "key_exists call now k s = (case call now (Exists k) s of
     Inr (Flag b, s') \<Rightarrow> (Some b, s') | Inr (Num n, s') \<Rightarrow> (None, s') | Inl e \<Rightarrow> (None, s))"

text \<open>Count first, compare after: the counter saturates one above the limit.\<close>

definition limited :: "'s store_call \<Rightarrow> int \<Rightarrow> string \<Rightarrow> int \<Rightarrow> int \<Rightarrow> 's \<Rightarrow> gate \<times> 's" where
  "limited call now k ttl limit s = (case incrementCounter call now k ttl (limit + 1) s of
     (None, s') \<Rightarrow> (Unavailable, s') | (Some n, s') \<Rightarrow> (if limit < n then TooMany else Pass, s'))"

definition and_then :: "('s \<Rightarrow> gate \<times> 's) \<Rightarrow> ('s \<Rightarrow> gate \<times> 's) \<Rightarrow> 's \<Rightarrow> gate \<times> 's" where
  "and_then g h s = (case g s of (Pass, s') \<Rightarrow> h s' | r \<Rightarrow> r)"

definition otpPurpose :: "bool \<Rightarrow> string" where
  "otpPurpose recovery_only = (if recovery_only then ''recovery'' else ''signin'')"

definition on_phone :: "string \<Rightarrow> (string \<Rightarrow> 's \<Rightarrow> gate \<times> 's) \<Rightarrow> 's \<Rightarrow> gate \<times> 's" where
  "on_phone phone f s = (case normalizePhoneForOtp phone of None \<Rightarrow> (Pass, s) | Some p \<Rightarrow> if p = [] then (Pass, s) else f p s)"

definition on_email :: "string \<Rightarrow> (string \<Rightarrow> 's \<Rightarrow> gate \<times> 's) \<Rightarrow> 's \<Rightarrow> gate \<times> 's" where
  "on_email email f s = (if email = [] then (Pass, s) else f (js_lower (js_trim email)) s)"

definition active_gate :: "'s store_call \<Rightarrow> int \<Rightarrow> string \<Rightarrow> 's \<Rightarrow> gate \<times> 's" where
  "active_gate call now k s = (case key_exists call now k s of
     (None, s') \<Rightarrow> (Unavailable, s') | (Some b, s') \<Rightarrow> (if b then TooMany else Pass, s'))"

definition checkActiveOtpForPhone :: "'s store_call \<Rightarrow> int \<Rightarrow> string \<Rightarrow> string \<Rightarrow> 's \<Rightarrow> gate \<times> 's" where
  "checkActiveOtpForPhone call now phone purpose =
     on_phone phone (\<lambda>p. active_gate call now (''otp_active:phone:'' @ p @ '':'' @ purpose))"

definition checkActiveOtpForEmail :: "'s store_call \<Rightarrow> int \<Rightarrow> string \<Rightarrow> string \<Rightarrow> 's \<Rightarrow> gate \<times> 's" where
  "checkActiveOtpForEmail call now email purpose =
     on_email email (\<lambda>e. active_gate call now (''otp_active:email:'' @ e @ '':'' @ purpose))"

definition two_limits :: "'s store_call \<Rightarrow> int \<Rightarrow> string \<Rightarrow> int \<Rightarrow> int \<Rightarrow> 's \<Rightarrow> gate \<times> 's" where
  "two_limits call now prefix short day =
     and_then (limited call now (prefix @ '':10min'') 600 short) (limited call now (prefix @ '':day'') 86400 day)"

definition rateLimitRequestOtpByPhone :: "otp_limits \<Rightarrow> 's store_call \<Rightarrow> int \<Rightarrow> string \<Rightarrow> string \<Rightarrow> 's \<Rightarrow> gate \<times> 's" where
  "rateLimitRequestOtpByPhone L call now phone purpose =
     on_phone phone (\<lambda>p. two_limits call now (''otp_req:phone:'' @ p @ '':'' @ purpose) (phone_10min L) (phone_day L))"

definition rateLimitRequestOtpByEmail :: "otp_limits \<Rightarrow> 's store_call \<Rightarrow> int \<Rightarrow> string \<Rightarrow> string \<Rightarrow> 's \<Rightarrow> gate \<times> 's" where
  "rateLimitRequestOtpByEmail L call now email purpose =
     on_email email (\<lambda>e. two_limits call now (''otp_req:email:'' @ e @ '':'' @ purpose) (email_10min L) (email_day L))"

definition rateLimitRequestOtpByIp :: "otp_limits \<Rightarrow> 's store_call \<Rightarrow> int \<Rightarrow> string \<Rightarrow> 's \<Rightarrow> gate \<times> 's" where
  "rateLimitRequestOtpByIp L call now ip = two_limits call now (''otp_req:ip:'' @ ip) (ip_10min L) (ip_day L)"

definition failed_gate :: "otp_limits \<Rightarrow> 's store_call \<Rightarrow> int \<Rightarrow> string \<Rightarrow> 's \<Rightarrow> gate \<times> 's" where
  "failed_gate L call now k s = (case getCounter call now k s of
     (None, s') \<Rightarrow> (Unavailable, s') | (Some n, s') \<Rightarrow> (if failed_per_hour L \<le> n then TooMany else Pass, s'))"

definition rateLimitVerifyOtpByPhone :: "otp_limits \<Rightarrow> 's store_call \<Rightarrow> int \<Rightarrow> string \<Rightarrow> string \<Rightarrow> 's \<Rightarrow> gate \<times> 's" where
  "rateLimitVerifyOtpByPhone L call now phone purpose =
     on_phone phone (\<lambda>p. failed_gate L call now (''otp_verify_failed:phone:'' @ p @ '':'' @ purpose @ '':hour''))"

definition rateLimitVerifyOtpByEmail :: "otp_limits \<Rightarrow> 's store_call \<Rightarrow> int \<Rightarrow> string \<Rightarrow> string \<Rightarrow> 's \<Rightarrow> gate \<times> 's" where
  "rateLimitVerifyOtpByEmail L call now email purpose =
     on_email email (\<lambda>e. failed_gate L call now (''otp_verify_failed:email:'' @ e @ '':'' @ purpose @ '':hour''))"

definition incrementFailedVerify :: "otp_limits \<Rightarrow> 's store_call \<Rightarrow> int \<Rightarrow> string \<Rightarrow> string \<Rightarrow> 's \<Rightarrow> 's" where
  "incrementFailedVerify L call now identifier purpose s =
     (let email = CHR ''@'' \<in> set identifier;
          n = (if email then Some (js_lower (js_trim identifier)) else normalizePhoneForOtp identifier) in
      case n of None \<Rightarrow> s
      | Some t \<Rightarrow> if \<not> email \<and> t = [] then s
          else snd (incrementCounter call now (''otp_verify_failed:'' @ (if email then ''email'' else ''phone'') @ '':'' @ t @ '':'' @ purpose @ '':hour'')
            3600 (failed_per_hour L + 1) s))"

text \<open>Enumeration of accounts from one address.\<close>

definition isIpBlockedForEnumeration :: "'s store_call \<Rightarrow> int \<Rightarrow> string \<Rightarrow> 's \<Rightarrow> (bool option) \<times> 's" where
  "isIpBlockedForEnumeration call now ip = key_exists call now (''enumeration:blocked:ip:'' @ ip)"

definition blockIpForEnumeration :: "otp_limits \<Rightarrow> 's store_call \<Rightarrow> int \<Rightarrow> string \<Rightarrow> int option \<Rightarrow> 's \<Rightarrow> (unit option) \<times> 's" where
  "blockIpForEnumeration L call now ip duration s =
     (let d = (case duration of None \<Rightarrow> enumeration_block L | Some d \<Rightarrow> if d = 0 then enumeration_block L else d) in
      case call now (SetTTL (''enumeration:blocked:ip:'' @ ip) ''1'' d) s of Inl e \<Rightarrow> (None, s) | Inr (a, s') \<Rightarrow> (Some (), s'))"

definition checkEnumerationRateLimit :: "otp_limits \<Rightarrow> 's store_call \<Rightarrow> int \<Rightarrow> string \<Rightarrow> 's \<Rightarrow> gate \<times> 's" where
  "checkEnumerationRateLimit L call now ip s =
     (case isIpBlockedForEnumeration call now ip s of
        (None, s1) \<Rightarrow> (Unavailable, s1)
      | (Some True, s1) \<Rightarrow> (TooMany, s1)
      | (Some False, s1) \<Rightarrow>
          (case incrementCounter call now (''enumeration:rate_limit:ip:'' @ ip @ '':10min'') 600 (enumeration_10min L + 1) s1 of
             (None, s2) \<Rightarrow> (Unavailable, s2)
           | (Some count10min, s2) \<Rightarrow>
               (case incrementCounter call now (''enumeration:rate_limit:ip:'' @ ip @ '':hour'') 3600 (enumeration_hour L + 1) s2 of
                  (None, s3) \<Rightarrow> (Unavailable, s3)
                | (Some countHour, s3) \<Rightarrow>
                    if enumeration_10min L < count10min \<or> enumeration_hour L < countHour
                    then (case blockIpForEnumeration L call now ip None s3 of
                        (None, s4) \<Rightarrow> (Unavailable, s4) | (Some u, s4) \<Rightarrow> (TooMany, s4)) else (Pass, s3))))"

text \<open>The budget of an account that replaces its phone or email; both counters count before either is compared.\<close>

definition validateReplacementBudgetInput :: "string \<Rightarrow> string \<Rightarrow> string \<Rightarrow> bool" where
  "validateReplacementBudgetInput userId channel action \<longleftrightarrow>
     (case userId of [] \<Rightarrow> False
      | c # s \<Rightarrow> let alnum = (\<lambda>c. code_between 65 90 c \<or> code_between 97 122 c \<or> is_digit c) in
          alnum c \<and> length s \<le> 127 \<and> list_all (\<lambda>c. alnum c \<or> c \<in> {CHR ''.'', CHR ''_'', CHR '':'', CHR ''-''}) s)
     \<and> channel \<in> {''phone'', ''email''} \<and> action \<in> {''request'', ''verify''}"

definition consumeReplacementBudget :: "otp_limits \<Rightarrow> 's store_call \<Rightarrow> int \<Rightarrow> string \<Rightarrow> string \<Rightarrow> string \<Rightarrow> 's \<Rightarrow> gate option \<times> 's" where
  "consumeReplacementBudget L call now userId channel action s =
     (if \<not> validateReplacementBudgetInput userId channel action then (None, s)
      else if action = ''verify'' then
        (case limited call now (''replacement:verify:user:'' @ userId @ '':'' @ channel @ '':hour'') 3600 (failed_per_hour L) s of
           (g, s') \<Rightarrow> (Some g, s'))
      else
        let shortLimit = (if channel = ''phone'' then phone_10min L else email_10min L);
            dayLimit = (if channel = ''phone'' then phone_day L else email_day L) in
        (case limited call now (''replacement:request:user:'' @ userId @ '':'' @ channel @ '':hour'') 600 shortLimit s of
           (Unavailable, s1) \<Rightarrow> (Some Unavailable, s1)
         | (g1, s1) \<Rightarrow>
             (case limited call now (''replacement:request:user:'' @ userId @ '':'' @ channel @ '':day'') 86400 dayLimit s1 of
                (Unavailable, s2) \<Rightarrow> (Some Unavailable, s2)
              | (g2, s2) \<Rightarrow> (Some (if g1 = TooMany \<or> g2 = TooMany then TooMany else Pass), s2))))"

end
