(* ===== verification/OtpLimitsProps.thy ===== *)
theory OtpLimitsProps
  imports OtpLimits
begin

text \<open>How often a limit lets a caller through, and what the keys of the limits tell apart.\<close>

section \<open>Windows\<close>

text \<open>
  A request for a code as one of the three middlewares sees it, and the counters it is counted under: the key, how long
  the window is and the limit. A request without an identifier is passed on for the validation to refuse, uncounted.
\<close>

datatype otp_request = ByPhone string string | ByEmail string string | ByIp string

datatype limit_event = Request otp_request | Other store_op

fun request_gate :: "otp_limits \<Rightarrow> 's store_call \<Rightarrow> int \<Rightarrow> otp_request \<Rightarrow> 's \<Rightarrow> gate \<times> 's" where
  "request_gate L call now (ByPhone phone purpose) s = rateLimitRequestOtpByPhone L call now phone purpose s"
| "request_gate L call now (ByEmail email purpose) s = rateLimitRequestOtpByEmail L call now email purpose s"
| "request_gate L call now (ByIp ip) s = rateLimitRequestOtpByIp L call now ip s"

fun request_limits :: "otp_limits \<Rightarrow> otp_request \<Rightarrow> (string \<times> int \<times> int) list" where
  "request_limits L (ByPhone phone purpose) = (case normalizePhoneForOtp phone of
     None \<Rightarrow> []
   | Some p \<Rightarrow> if p = [] then []
       else [(''otp_req:phone:'' @ p @ '':'' @ purpose @ '':10min'', 600, phone_10min L),
             (''otp_req:phone:'' @ p @ '':'' @ purpose @ '':day'', 86400, phone_day L)])"
| "request_limits L (ByEmail email purpose) = (if email = [] then []
     else [(''otp_req:email:'' @ js_lower (js_trim email) @ '':'' @ purpose @ '':10min'', 600, email_10min L),
           (''otp_req:email:'' @ js_lower (js_trim email) @ '':'' @ purpose @ '':day'', 86400, email_day L)])"
| "request_limits L (ByIp ip) =
     [(''otp_req:ip:'' @ ip @ '':10min'', 600, ip_10min L), (''otp_req:ip:'' @ ip @ '':day'', 86400, ip_day L)]"

fun event_keys :: "otp_limits \<Rightarrow> limit_event \<Rightarrow> string list" where
  "event_keys L (Request r) = map fst (request_limits L r)"
| "event_keys L (Other op) = [op_key op]"

text \<open>Requests and other calls of the store, in order; the answer to each request.\<close>

fun run_requests :: "otp_limits \<Rightarrow> 's store_call \<Rightarrow> 's \<Rightarrow> (int \<times> limit_event) list \<Rightarrow> (otp_request \<times> gate) list" where
  "run_requests L call s [] = []"
| "run_requests L call s ((now, Request r) # es) = (case request_gate L call now r s of
     (g, s') \<Rightarrow> (r, g) # run_requests L call s' es)"
| "run_requests L call s ((now, Other op) # es) = run_requests L call (store_after (call now op s) s) es"

definition let_through :: "otp_limits \<Rightarrow> string \<Rightarrow> (otp_request \<times> gate) list \<Rightarrow> (otp_request \<times> gate) list" where
  "let_through L k answers = filter (\<lambda>(r, g). k \<in> fst ` set (request_limits L r) \<and> g = Pass) answers"

text \<open>The key of a counter tells its window and its limit.\<close>

lemma limits_by_key:
  assumes "(k, ttl, limit) \<in> set (request_limits L r)"
  shows "ttl = (if last k = CHR ''n'' then 600 else 86400)"
    and "limit = (if k ! 8 = CHR ''p'' then if last k = CHR ''n'' then phone_10min L else phone_day L
      else if k ! 8 = CHR ''e'' then if last k = CHR ''n'' then email_10min L else email_day L
      else if last k = CHR ''n'' then ip_10min L else ip_day L)"
  using assms by (cases r; auto simp: last_append split: option.splits if_splits)+

lemma key_tells:
  assumes "(k, ttl, limit) \<in> set (request_limits L r)" "(k, ttl', limit') \<in> set (request_limits L r')"
  shows "ttl' = ttl \<and> limit' = limit"
  using limits_by_key[OF assms(1)] limits_by_key[OF assms(2)] by simp

text \<open>What a call does to a key that is not its own, and what a count does to its own.\<close>

lemma pg_ok_counted:
  assumes "pg_ok u" "pg_row u d = Some r" "pb_kind r = CounterKind"
  shows "pg_ok (update_row d (counted now ttl sat) u)"
proof (rule pg_ok_update)
  fix r' assume "r' \<in> set u" "pb_key r' = d"
  then have "r' = r" using pg_row_unique[of u r'] assms by (simp add: pg_ok_def)
  then show "pb_kind (counted now ttl sat r') = MarkerKind \<longrightarrow> pb_marker (counted now ttl sat r') \<noteq> None"
    using assms(3) by (simp add: counted_row)
qed (simp_all add: assms(1) counted_row)

lemma increment_pg_cases:
  assumes "pg_increment env t now d ttl sat = Inr (n, t')" and "pg_ok t"
  obtains u r where "pg_row u d = Some r" "pb_kind r = CounterKind" "t' = update_row d (counted now ttl sat) u"
    "n = pb_counter (counted now ttl sat r)" "1 \<le> ttl" "pg_ok t'" "\<And>now' d'. now \<le> now' \<Longrightarrow> pg_live u now' d' = pg_live t now' d'"
proof -
  obtain b u where u: "lockOrCreate env t now d CounterKind = Inr (b, u)"
    and res: "(case pg_row (update_row d (counted now ttl sat) u) d of
      Some r \<Rightarrow> Inr (pb_counter r, update_row d (counted now ttl sat) u) | None \<Rightarrow> Inl (StorageErr ''storage_unavailable''))
      = (Inr (n, t') :: store_error + int \<times> pg_store)"
    and ttl: "1 \<le> ttl"
    using assms(1) by (auto simp: pg_increment_def ebind_eq_Inr Let_def validateTtlSeconds_def)
  note l = lockOrCreate_row[OF u assms(2)]
  obtain r where r: "pg_row u d = Some r" "pb_kind r = CounterKind" using l(3) by blast
  have t': "t' = update_row d (counted now ttl sat) u" "n = pb_counter (counted now ttl sat r)"
    using res by (simp_all add: pg_row_update counted_row r(1))
  show thesis by (rule that[OF r t']) (use l r t' ttl pg_ok_counted in auto)
qed

lemma marked_other:
  assumes "lockOrCreate env t now d' MarkerKind = Inr (b, u)" "pg_ok t" "d' \<noteq> d"
  shows "pg_ok u" "pg_ok (update_row d' (marked now v ttl) u)"
    and "now \<le> now' \<Longrightarrow> pg_live u now' d = pg_live t now' d"
    and "now \<le> now' \<Longrightarrow> pg_live (update_row d' (marked now v ttl) u) now' d = pg_live t now' d"
proof -
  note l = lockOrCreate_row[OF assms(1,2)]
  show "pg_ok u" by (rule l(1))
  show "pg_ok (update_row d' (marked now v ttl) u)" by (rule pg_ok_update) (simp_all add: l(1) marked_row)
  show same: "pg_live u now' d = pg_live t now' d" if "now \<le> now'" by (rule l(2)[OF that])
  show "pg_live (update_row d' (marked now v ttl) u) now' d = pg_live t now' d" if "now \<le> now'"
    using same[OF that] assms(3) by (simp add: pg_live_update marked_row)
qed

lemma other_call:
  assumes "pg_call dig env now op t = Inr (a, t')" "pg_ok t" "dig (op_key op) \<noteq> d"
  shows "pg_ok t' \<and> (\<forall>now' \<ge> now. pg_live t' now' d = pg_live t now' d)"
proof (cases op)
  case (Increment k ttl sat)
  from assms(1) obtain n where "pg_increment env t now (dig k) ttl sat = Inr (n, t')"
    by (auto simp: Increment answered_def split: sum.splits)
  from increment_pg_cases[OF this assms(2)] obtain u r where u: "t' = update_row (dig k) (counted now ttl sat) u" "pg_ok t'"
    "\<And>now' d'. now \<le> now' \<Longrightarrow> pg_live u now' d' = pg_live t now' d'" by metis
  then show ?thesis using assms(3) by (simp add: Increment pg_live_update counted_row)
next
  case (Get k)
  then show ?thesis using assms by (auto simp: answered_def pg_get_def split: sum.splits list.splits)
next
  case (Exists k)
  then show ?thesis using assms by (auto simp: answered_def pg_exists_def)
next
  case (SetTTL k v ttl)
  from assms(1) obtain b u where u: "lockOrCreate env t now (dig k) MarkerKind = Inr (b, u)" "t' = update_row (dig k) (marked now v ttl) u"
    by (auto simp: SetTTL answered_def pg_setWithTTL_def ebind_eq_Inr split: sum.splits)
  have "dig k \<noteq> d" using assms(3) by (simp add: SetTTL)
  from marked_other[OF u(1) assms(2) this] show ?thesis by (simp add: u(2))
next
  case (Claim k v ttl)
  from assms(1) obtain b u where u: "lockOrCreate env t now (dig k) MarkerKind = Inr (b, u)" "t' = u \<or> t' = update_row (dig k) (marked now v ttl) u"
    by (auto simp: Claim answered_def pg_claimMarker_def ebind_eq_Inr split: sum.splits if_splits)
  have "dig k \<noteq> d" using assms(3) by (simp add: Claim)
  from marked_other[OF u(1) assms(2) this] show ?thesis using u(2) by auto
next
  case (CompareDelete k v)
  from assms(1) have t': "t' = filter (\<lambda>r. \<not> (pb_key r = dig k \<and> pb_kind r = MarkerKind \<and> pb_marker r = Some v)) t"
    by (auto simp: CompareDelete answered_def pg_compareDelete_def ebind_eq_Inr Let_def split: sum.splits)
  then show ?thesis using assms(3) compareDelete_pg_live[OF assms(2), of "dig k" v _ d] pg_ok_filter[OF assms(2)]
    by (simp add: CompareDelete)
qed

text \<open>How many more requests a counter lets through before \<open>E\<close>: what is left of its window, and another one if it ends.\<close>

definition passes_left :: "int \<Rightarrow> int \<Rightarrow> bucket option \<Rightarrow> nat" where
  "passes_left limit E b = (case b of Some (Counter n e) \<Rightarrow> nat (limit - n) + (if e < E then nat limit else 0) | _ \<Rightarrow> nat limit)"

lemma left_later:
  assumes "now \<le> now'" "now' < E"
  shows "passes_left limit E (pg_live t now' d) \<le> passes_left limit E (pg_live t now d)"
proof (cases "pg_row t d")
  case (Some r)
  then show ?thesis using assms by (auto simp: passes_left_def pg_live_def bucket_of_def split: bucket_kind.splits)
qed (simp add: pg_live_def)

lemma limited_left:
  assumes "limited (pg_call dig env) now k ttl limit t = (g, t')" "pg_ok t" "0 \<le> limit" "E \<le> now + ttl * 1000"
  shows "pg_ok t' \<and> (if g = Pass then 1 else 0) + passes_left limit E (pg_live t' now (dig k)) \<le> passes_left limit E (pg_live t now (dig k))"
proof (cases "pg_increment env t now (dig k) ttl (limit + 1)")
  case (Inl e)
  then show ?thesis using assms(1,2) by (simp add: limited_def incrementCounter_def answered_def)
next
  case (Inr x)
  obtain n where n: "pg_increment env t now (dig k) ttl (limit + 1) = Inr (n, t')" and g: "g = (if limit < n then TooMany else Pass)"
    using Inr assms(1) by (cases x) (auto simp: limited_def incrementCounter_def answered_def)
  from increment_pg_cases[OF n assms(2)] obtain u r where u: "pg_row u (dig k) = Some r" "pb_kind r = CounterKind"
    "t' = update_row (dig k) (counted now ttl (limit + 1)) u" "n = pb_counter (counted now ttl (limit + 1) r)" "pg_ok t'" "1 \<le> ttl"
    "pg_live u now (dig k) = pg_live t now (dig k)" by (metis order_refl)
  let ?r = "counted now ttl (limit + 1) r"
  have after: "pg_live t' now (dig k) = (if now < pb_expires ?r then Some (Counter n (pb_expires ?r)) else None)"
    using u(1,2) by (simp add: u(3,4) pg_live_update counted_row bucket_of_def)
  have before: "pg_live t now (dig k) = (if now < pb_expires r then Some (Counter (pb_counter r) (pb_expires r)) else None)"
    unfolding u(7)[symmetric] using u(1,2) by (simp add: pg_live_def bucket_of_def)
  show ?thesis
  proof (cases "now < pb_expires r")
    case True
    then have "pb_expires ?r = pb_expires r" "n = min (pb_counter r + 1) (limit + 1)" by (simp_all add: counted_def u(4))
    then show ?thesis unfolding after before g using True u(5) by (auto simp: passes_left_def)
  next
    case False
    then have "pb_expires ?r = now + ttl * 1000" "n = min 1 (limit + 1)" by (simp_all add: counted_def u(4))
    then show ?thesis unfolding after before g using False u(5,6) assms(3,4) by (auto simp: passes_left_def)
  qed
qed

lemma limited_other:
  assumes "limited (pg_call dig env) now k ttl limit t = (g, t')" "pg_ok t" "dig k \<noteq> d"
  shows "pg_ok t' \<and> (\<forall>now' \<ge> now. pg_live t' now' d = pg_live t now' d)"
  using assms other_call[of dig env now "Increment k ttl (limit + 1)" t _ t' d]
  by (auto simp: limited_def incrementCounter_def split: sum.splits prod.splits store_answer.splits)

text \<open>A request is two counts, one after the other, if the first lets it through.\<close>

lemma request_two:
  assumes "request_limits L r = [(k1, t1, l1), (k2, t2, l2)]"
  shows "request_gate L call now r s = and_then (limited call now k1 t1 l1) (limited call now k2 t2 l2) s"
  using assms by (cases r) (auto simp: rateLimitRequestOtpByPhone_def rateLimitRequestOtpByEmail_def rateLimitRequestOtpByIp_def
      on_phone_def on_email_def two_limits_def split: option.splits if_splits)

lemma request_none: "request_limits L r = [] \<Longrightarrow> request_gate L call now r s = (Pass, s)"
  by (cases r) (auto simp: rateLimitRequestOtpByPhone_def rateLimitRequestOtpByEmail_def on_phone_def on_email_def
      split: option.splits if_splits)

lemma request_shape:
  obtains "request_limits L r = []"
  | k1 t1 l1 k2 t2 l2 where "request_limits L r = [(k1, t1, l1), (k2, t2, l2)]" "k1 \<noteq> k2"
proof (cases r)
  case (ByPhone p q)
  then show thesis using that by (cases "normalizePhoneForOtp p"; cases "normalizePhoneForOtp p = Some []") auto
next
  case (ByEmail e q)
  then show thesis using that by (cases "e = []") auto
qed (use that in auto)

lemma request_left:
  assumes "request_gate L (pg_call dig env) now r t = (g, t')" "pg_ok t" "0 \<le> limit" "now < E" "E \<le> now + ttl * 1000"
    and "\<forall>k' \<in> set (map fst (request_limits L r)). dig k' = dig k \<longrightarrow> k' = k"
    and "\<forall>x. (k, x) \<in> set (request_limits L r) \<longrightarrow> x = (ttl, limit)"
  shows "pg_ok t' \<and> (if k \<in> fst ` set (request_limits L r) \<and> g = Pass then 1 else 0) + passes_left limit E (pg_live t' now (dig k))
    \<le> passes_left limit E (pg_live t now (dig k))"
proof (cases rule: request_shape[of L r])
  case 1
  then show ?thesis using assms(1,2) by (simp add: request_none)
next
  case (2 k1 t1 l1 k2 t2 l2)
  obtain g1 s where f: "limited (pg_call dig env) now k1 t1 l1 t = (g1, s)" by (cases "limited (pg_call dig env) now k1 t1 l1 t")
  obtain g2 s' where f': "limited (pg_call dig env) now k2 t2 l2 s = (g2, s')" by (cases "limited (pg_call dig env) now k2 t2 l2 s")
  have res: "g = (if g1 = Pass then g2 else g1)" "t' = (if g1 = Pass then s' else s)"
    using assms(1) f f' by (cases g1; simp add: request_two[OF 2(1)] and_then_def)+
  have own: "pg_ok b \<and> (if h = Pass then 1 else 0) + passes_left limit E (pg_live b now (dig k)) \<le> passes_left limit E (pg_live a now (dig k))"
    if "limited (pg_call dig env) now k ttl limit a = (h, b)" "pg_ok a" for a b h
    by (rule limited_left[OF that assms(3,5)])
  have other: "pg_ok b \<and> passes_left limit E (pg_live b now (dig k)) = passes_left limit E (pg_live a now (dig k))"
    if "limited (pg_call dig env) now k' x l a = (h, b)" "pg_ok a" "k' \<in> {k1, k2}" "k' \<noteq> k" for a b h k' x l
    using limited_other[OF that(1,2), of "dig k"] that(3,4) assms(6) 2(1) by auto
  consider "k = k1" | "k = k2" "k \<noteq> k1" | "k \<noteq> k1" "k \<noteq> k2" by blast
  then show ?thesis
  proof cases
    case 1
    then have "(t1, l1) = (ttl, limit)" using assms(7) 2(1) by simp
    with own[of t g1 s] other[of k2 t2 l2 s g2 s'] f f' 1 2 assms(2) show ?thesis by (auto simp: res)
  next
    case c: 2
    then have "(t2, l2) = (ttl, limit)" using assms(7) 2(1) by simp
    with own[of s g2 s'] other[of k1 t1 l1 t g1 s] f f' c assms(2) show ?thesis by (auto simp: res)
  next
    case 3
    then show ?thesis using other[OF f assms(2)] other[OF f'] 2(1) by (auto simp: res)
  qed
qed

lemma run_left:
  assumes "pg_ok t" "0 \<le> limit" "sorted (now # map fst es)" "\<forall>(now', e) \<in> set es. now' < E" "E \<le> now + ttl * 1000"
    and "\<forall>(now', e) \<in> set es. \<forall>k' \<in> set (event_keys L e). dig k' = dig k \<longrightarrow> k' = k"
    and "\<forall>(now', e) \<in> set es. case e of Request r \<Rightarrow> \<forall>x. (k, x) \<in> set (request_limits L r) \<longrightarrow> x = (ttl, limit)
      | Other op \<Rightarrow> op_key op \<noteq> k"
  shows "length (let_through L k (run_requests L (pg_call dig env) t es)) \<le> passes_left limit E (pg_live t now (dig k))"
  using assms
proof (induction es arbitrary: t now)
  case (Cons x es)
  obtain at' e where x: "x = (at', e)" by (cases x)
  have at': "now \<le> at'" "at' < E" "E \<le> at' + ttl * 1000" using Cons.prems by (auto simp: x)
  have sub: "sorted (at' # map fst es)" "\<forall>(now', e) \<in> set es. now' < E"
    "\<forall>(now', e) \<in> set es. \<forall>k' \<in> set (event_keys L e). dig k' = dig k \<longrightarrow> k' = k"
    "\<forall>(now', e) \<in> set es. case e of Request r \<Rightarrow> \<forall>x. (k, x) \<in> set (request_limits L r) \<longrightarrow> x = (ttl, limit)
      | Other op \<Rightarrow> op_key op \<noteq> k"
    using Cons.prems by (simp_all add: x del: split_paired_All)
  note later = left_later[OF at'(1,2), of limit t "dig k"]
  note ih = Cons.IH[OF _ Cons.prems(2) sub(1,2) at'(3) sub(3,4)]
  show ?case
  proof (cases e)
    case (Request r)
    obtain g t' where g: "request_gate L (pg_call dig env) at' r t = (g, t')" by (cases "request_gate L (pg_call dig env) at' r t")
    have "pg_ok t' \<and> (if k \<in> fst ` set (request_limits L r) \<and> g = Pass then 1 else 0) + passes_left limit E (pg_live t' at' (dig k))
      \<le> passes_left limit E (pg_live t at' (dig k))"
      by (rule request_left[OF g Cons.prems(1,2) at'(2,3)]) (use Cons.prems(6,7) in \<open>simp_all add: x Request\<close>)
    then show ?thesis using ih[of t'] later
      by (cases "k \<in> fst ` set (request_limits L r)"; cases "g = Pass") (simp_all add: x Request g let_through_def)
  next
    case (Other op)
    let ?t = "store_after (pg_call dig env at' op t) t"
    have "dig (op_key op) \<noteq> dig k" using Cons.prems(6,7) by (auto simp: x Other)
    then have "pg_ok ?t \<and> pg_live ?t at' (dig k) = pg_live t at' (dig k)"
      using other_call[of dig env at' op t _ _ "dig k"] Cons.prems(1)
      by (cases "pg_call dig env at' op t") (auto simp: store_after_def)
    then show ?thesis using ih[of ?t] later by (simp add: x Other)
  qed
qed (simp add: let_through_def)

text \<open>
  C26: a limit on requests for codes holds in every window. On the hosted store, from any table that meets its
  checks and for limits that are not negative, with requests by phone, by email and by address and any other calls of the store in between: of the requests that are counted under one
  key (a phone and purpose, an email and purpose, or an address; in ten minutes or in a day), during a span as long as
  that window the middleware passes at most twice the limit: what a window that is open at the start has left, and a second window. A
  request runs its two counts at one time and without another call between them. The digest of the key is assumed not to collide with that of another key in use, and no other caller to use the key.
\<close>

theorem limit_in_any_window:
  assumes "pg_ok t" and "\<forall>r \<in> set t. 0 \<le> pb_counter r" and "0 \<le> limit"
    and "sorted (start # map fst es)" and "\<forall>(now, e) \<in> set es. now < start + ttl * 1000"
    and "(key, ttl, limit) \<in> set (request_limits L r)"
    and "\<forall>(now, e) \<in> set es. \<forall>k \<in> set (event_keys L e). dig k = dig key \<longrightarrow> k = key"
    and "\<forall>(now, e) \<in> set es. \<forall>op. e = Other op \<longrightarrow> op_key op \<noteq> key"
  shows "length (filter (\<lambda>(r, g). key \<in> fst ` set (request_limits L r) \<and> g = Pass)
    (run_requests L (pg_call dig env) t es)) \<le> 2 * nat limit"
proof -
  have own: "\<forall>(now, e) \<in> set es. case e of Request r' \<Rightarrow> \<forall>x. (key, x) \<in> set (request_limits L r') \<longrightarrow> x = (ttl, limit)
      | Other op \<Rightarrow> op_key op \<noteq> key"
    using assms(8) key_tells[OF assms(6)] by (fastforce split: limit_event.splits)
  have "0 \<le> n" if "pg_live t start (dig key) = Some (Counter n e)" for n e
    using that assms(2) pg_row_Some[of t "dig key"] by (auto simp: pg_live_def bucket_of_def split: option.splits bucket_kind.splits if_splits)
  then have "passes_left limit (start + ttl * 1000) (pg_live t start (dig key)) \<le> 2 * nat limit"
    by (auto simp: passes_left_def split: option.splits bucket.splits)
  then show ?thesis using run_left[OF assms(1,3,4,5) order_refl assms(7) own, of env] by (simp add: let_through_def)
qed

lemma limit_in_any_window_witness:
  "let key = ''otp_req:phone:+911234567890:signin:10min''; r = ByPhone ''1234567890'' ''signin'';
     t = [\<lparr>pb_key = key, pb_kind = CounterKind, pb_counter = 1, pb_marker = None, pb_expires = 600000\<rparr>];
     es = [(599000, Request r), (599500, Request r), (599600, Other (Claim ''m'' ''v'' 60)), (600000, Request r), (600001, Request r), (600002, Request r)];
     env = \<lparr>pg_capacity = 9, pg_batch = 1, pg_locked = \<lambda>_ _. False\<rparr>;
     answers = run_requests (default_otp_limits\<lparr>phone_10min := 2\<rparr>) (pg_call id env) t es
   in map snd answers = [Pass, TooMany, Pass, Pass, TooMany]
     \<and> length (filter (\<lambda>(r, g). key \<in> fst ` set (request_limits (default_otp_limits\<lparr>phone_10min := 2\<rparr>) r) \<and> g = Pass) answers) \<le> 4"
proof -
  let ?key = "''otp_req:phone:+911234567890:signin:10min''" and ?r = "ByPhone ''1234567890'' ''signin''"
  let ?t = "[\<lparr>pb_key = ?key, pb_kind = CounterKind, pb_counter = 1, pb_marker = None, pb_expires = 600000\<rparr>]"
  let ?es = "[(599000 :: int, Request ?r), (599500, Request ?r), (599600, Other (Claim ''m'' ''v'' 60)), (600000, Request ?r), (600001, Request ?r), (600002, Request ?r)]"
  let ?env = "\<lparr>pg_capacity = 9, pg_batch = 1, pg_locked = \<lambda>_ _. False\<rparr>" and ?L = "default_otp_limits\<lparr>phone_10min := 2\<rparr>"
  have norm: "normalizePhoneForOtp ''1234567890'' = Some ''+911234567890''" by code_simp
  have lims: "request_limits ?L ?r = [(?key, 600, 2), (''otp_req:phone:+911234567890:signin:day'', 86400, 10)]"
    by (simp add: norm default_otp_limits_def)
  have "map snd (run_requests ?L (pg_call id ?env) ?t ?es) = [Pass, TooMany, Pass, Pass, TooMany]"
    by (simp add: request_two[OF lims] and_then_def limited_def incrementCounter_def answered_def pg_increment_def pg_claimMarker_def
        validateTtlSeconds_def validateSaturation_def validateMarker_def MAX_COUNTER_def lockOrCreate_def pg_row_def Let_def
        cleanup_expired_def expired_keys_def blank_row_def update_row_def counted_def marked_def locked_row_def store_after_def
        del: request_gate.simps request_limits.simps)
  moreover have "length (filter (\<lambda>(r, g). ?key \<in> fst ` set (request_limits ?L r) \<and> g = Pass)
      (run_requests ?L (pg_call id ?env) ?t ?es)) \<le> 2 * nat 2"
    by (rule limit_in_any_window[where start = 599000 and ttl = 600 and r = ?r])
      (simp_all add: lims pg_ok_def del: request_limits.simps)
  ultimately show ?thesis by simp
qed

section \<open>Spellings of a phone number\<close>

text \<open>
  The hourly limit on failed verifications counts spellings, not numbers. \<open>+91-9876543210\<close> and
  \<open>+919876543210\<close> are looked up as the same number, whatever the digest; yet after ten failures under the one
  spelling, which is then refused, the other is let through.
\<close>

theorem failed_limit_per_spelling:
  "(let plain = ''+919876543210''; dashed = ''+91-9876543210'';
      m = ((incrementFailedVerify default_otp_limits mem_call 1000 plain ''signin'') ^^ 10) Map.empty in
    phoneLookupHash hmac plain = phoneLookupHash hmac dashed \<and> phoneLookupHash hmac plain \<noteq> None
    \<and> fst (rateLimitVerifyOtpByPhone default_otp_limits mem_call 2000 plain ''signin'' m) = TooMany
    \<and> fst (rateLimitVerifyOtpByPhone default_otp_limits mem_call 2000 dashed ''signin'' m) = Pass)"
proof -
  let ?p = "''+919876543210''" and ?d = "''+91-9876543210''"
  have canon: "canonicalizePhone ?p = Some ?p" "canonicalizePhone ?d = Some ?p"
    by code_simp+
  have norm: "normalizePhoneForOtp ?p = Some ?p" "normalizePhoneForOtp ?d = Some ?d" by code_simp+
  let ?k = "''otp_verify_failed:phone:+919876543210:signin:hour''"
  have inc: "incrementFailedVerify default_otp_limits mem_call 1000 ?p ''signin'' [?k \<mapsto> Counter n 3601000]
      = [?k \<mapsto> Counter (min 11 (n + 1)) 3601000]" for n
    using norm(1) by (simp add: incrementFailedVerify_def default_otp_limits_def incrementCounter_def answered_def mem_increment_def
        validateTtlSeconds_def validateSaturation_def MAX_COUNTER_def live_def Let_def)
  have first: "incrementFailedVerify default_otp_limits mem_call 1000 ?p ''signin'' Map.empty = [?k \<mapsto> Counter 1 3601000]"
    using norm(1) by (simp add: incrementFailedVerify_def default_otp_limits_def incrementCounter_def answered_def mem_increment_def
        validateTtlSeconds_def validateSaturation_def MAX_COUNTER_def live_def forget_def Let_def)
  have m: "((incrementFailedVerify default_otp_limits mem_call 1000 ?p ''signin'') ^^ 10) Map.empty = [?k \<mapsto> Counter 10 3601000]"
    by (simp add: eval_nat_numeral funpow_Suc_right first inc del: funpow.simps)
  show ?thesis unfolding Let_def m
    by (simp add: phoneLookupHash_def canon norm rateLimitVerifyOtpByPhone_def on_phone_def failed_gate_def getCounter_def answered_def
        mem_get_def live_def forget_def default_otp_limits_def)
qed

end
