(* ===== verification/TokenService.thy ===== *)
theory TokenService
  imports JsVal
begin

text \<open>
  \<open>auth/src/services/tokenService.js\<close>: refresh tokens and their rotation. Calls run at once; a call is
  suspended at every \<open>await\<close>, each SQL statement is a step, and any of them may fail. Two things of
  PostgreSQL (READ COMMITTED) are written out. A transaction that locks its row with \<open>FOR UPDATE\<close> is one step, and
  what it wrote appears when it commits. A statement that updates many rows sees the rows committed when it began,
  waits for locks, and then checks each of them again: it is two steps, \<open>snapshot\<close> and \<open>apply\<close>.

  JWT signing (HS256 is a function of the claims), bcrypt and the HMAC are arguments.
\<close>

section \<open>Rows and claims\<close>

record claims =
  cl_sub :: string
  cl_device :: string
  cl_jti :: string
  cl_exp :: int

record rt_row =
  rt_id :: string
  rt_user :: string
  rt_device :: string
  rt_token_id :: string
  rt_hash :: string
  rt_expires :: int
  rt_last_used :: "int option"
  rt_revoked :: "int option"
  rt_reuse :: "int option"
  rt_parent :: "string option"

record token_env =
  jwt_sign :: "claims \<Rightarrow> string"
  jwt_verify :: "int \<Rightarrow> string \<Rightarrow> claims option"
  token_hash :: "string \<Rightarrow> string \<Rightarrow> string"
  token_compare :: "string \<Rightarrow> string \<Rightarrow> bool"
  rotation_hmac :: "string \<Rightarrow> string"
  refresh_ttl :: int
  max_idle_ms :: int

definition row_with_id :: "string \<Rightarrow> rt_row list \<Rightarrow> rt_row option" where
  "row_with_id i t = List.find (\<lambda>r. rt_id r = i) t"

definition row_with_token :: "string \<Rightarrow> rt_row list \<Rightarrow> rt_row option" where
  "row_with_token i t = List.find (\<lambda>r. rt_token_id r = i) t"

section \<open>Issuing\<close>

text \<open>\<open>issueRefreshToken\<close> and \<open>storeRefreshToken\<close>; the column \<open>token_id\<close> is unique. The id of the row is
  drawn by the database.\<close>

definition issued_claims :: "token_env \<Rightarrow> int \<Rightarrow> string \<Rightarrow> string \<Rightarrow> string \<Rightarrow> claims" where
  "issued_claims env now user device tokenId =
     \<lparr>cl_sub = user, cl_device = device, cl_jti = tokenId, cl_exp = now div 1000 + refresh_ttl env\<rparr>"

definition issueRefreshToken :: "token_env \<Rightarrow> int \<Rightarrow> string \<Rightarrow> string \<Rightarrow> string \<Rightarrow> string \<Rightarrow> string option \<Rightarrow> string
    \<Rightarrow> rt_row list \<Rightarrow> (string \<times> rt_row list) option" where
  "issueRefreshToken env now rowId salt user device rotatedFrom tokenId t =
     (let c = issued_claims env now user device tokenId; token = jwt_sign env c in
      if tokenId \<in> set (map rt_token_id t) \<or> rowId \<in> set (map rt_id t) then None
      else Some (token, t @ [\<lparr>rt_id = rowId, rt_user = user, rt_device = device, rt_token_id = tokenId,
        rt_hash = token_hash env salt token, rt_expires = cl_exp c * 1000, rt_last_used = Some now, rt_revoked = None,
        rt_reuse = None, rt_parent = rotatedFrom\<rparr>]))"

section \<open>Rotation\<close>

definition successorId :: "token_env \<Rightarrow> rt_row \<Rightarrow> string option \<Rightarrow> string option" where
  "successorId env r requestId = (case requestId of None \<Rightarrow> None
     | Some q \<Rightarrow> if q = [] then None
         else let h = rotation_hmac env (''refresh-rotation-v1:'' @ rt_token_id r @ '':'' @ q); cut = (\<lambda>a b. drop a (take b h)) in
           Some (cut 0 8 @ ''-'' @ cut 8 12 @ ''-'' @ cut 12 16 @ ''-'' @ cut 16 20 @ ''-'' @ cut 20 32))"

definition idle :: "token_env \<Rightarrow> int \<Rightarrow> rt_row \<Rightarrow> bool" where
  "idle env now r = (case rt_last_used r of None \<Rightarrow> False | Some u \<Rightarrow> max_idle_ms env < now - u)"

definition recoverRotation :: "token_env \<Rightarrow> int \<Rightarrow> rt_row \<Rightarrow> string option \<Rightarrow> rt_row list \<Rightarrow> string option" where
  "recoverRotation env now r requestId t = (case successorId env r requestId of None \<Rightarrow> None
     | Some tid \<Rightarrow> (case List.find (\<lambda>c. rt_token_id c = tid \<and> rt_parent c = Some (rt_id r)) t of
         None \<Rightarrow> None
       | Some c \<Rightarrow>
           if rt_revoked c \<noteq> None \<or> rt_expires c \<le> now \<or> rt_user c \<noteq> rt_user r \<or> rt_device c \<noteq> rt_device r \<or> idle env now c then None
           else let token = jwt_sign env \<lparr>cl_sub = rt_user c, cl_device = rt_device c, cl_jti = rt_token_id c, cl_exp = rt_expires c div 1000\<rparr> in
             if token_compare env token (rt_hash c) then Some token else None))"

definition revoke_id :: "int \<Rightarrow> string \<Rightarrow> rt_row list \<Rightarrow> rt_row list" where
  "revoke_id now i t = map (\<lambda>r. if rt_id r = i then r\<lparr>rt_revoked := Some now\<rparr> else r) t"

text \<open>The transaction: an error rolls it back. \<open>fresh\<close> is the random id of a request without its own.\<close>

definition rotateRefreshToken :: "token_env \<Rightarrow> int \<Rightarrow> string \<Rightarrow> string \<Rightarrow> string \<Rightarrow> string \<Rightarrow> string option \<Rightarrow> rt_row list
    \<Rightarrow> (string \<times> rt_row list) option" where
  "rotateRefreshToken env now rowId fresh salt i requestId t = (case row_with_id i t of
     None \<Rightarrow> None
   | Some r \<Rightarrow>
       if rt_expires r \<le> now then None
       else if rt_revoked r \<noteq> None then map_option (\<lambda>token. (token, t)) (recoverRotation env now r requestId t)
       else
         let tid = (case successorId env r requestId of Some tid \<Rightarrow> tid | None \<Rightarrow> fresh) in
         map_option (\<lambda>(token, t'). (token, revoke_id now i t')) (issueRefreshToken env now rowId salt (rt_user r) (rt_device r) (Some i) tid t))"

section \<open>Revocation\<close>

definition revokeToken :: "int \<Rightarrow> string \<Rightarrow> rt_row list \<Rightarrow> rt_row list" where
  "revokeToken now i t = map (\<lambda>r. if rt_id r = i \<and> rt_revoked r = None then r\<lparr>rt_revoked := Some now\<rparr> else r) t"

text \<open>\<open>revokeDeviceTokens\<close>: the rows seen, and then the update of those still unrevoked.\<close>

definition device_snapshot :: "string \<Rightarrow> string \<Rightarrow> rt_row list \<Rightarrow> string list" where
  "device_snapshot user device t = map rt_id (filter (\<lambda>r. rt_user r = user \<and> rt_device r = device) t)"

definition user_snapshot :: "string \<Rightarrow> rt_row list \<Rightarrow> string list" where
  "user_snapshot user t = map rt_id (filter (\<lambda>r. rt_user r = user) t)"

definition revoke_seen :: "int \<Rightarrow> string list \<Rightarrow> rt_row list \<Rightarrow> rt_row list" where
  "revoke_seen now ids t = map (\<lambda>r. if rt_id r \<in> set ids \<and> rt_revoked r = None then r\<lparr>rt_revoked := Some now\<rparr> else r) t"

definition flag_reuse :: "int \<Rightarrow> string \<Rightarrow> rt_row list \<Rightarrow> rt_row list" where
  "flag_reuse now i t = map (\<lambda>r. if rt_id r = i
     then r\<lparr>rt_reuse := Some now, rt_revoked := (case rt_revoked r of None \<Rightarrow> Some now | Some x \<Rightarrow> Some x)\<rparr> else r) t"

definition touch :: "int \<Rightarrow> string \<Rightarrow> rt_row list \<Rightarrow> rt_row list" where
  "touch now i t = map (\<lambda>r. if rt_id r = i then r\<lparr>rt_last_used := Some now\<rparr> else r) t"

section \<open>Verifying\<close>

datatype token_verdict = NoToken | ReuseDetected | Fine | Recovered string | TokenThrew

text \<open>Where a verification is suspended; the row it read is the local variable \<open>tokenRow\<close>, the ids are
  what the device-wide update has seen.\<close>

datatype token_pc =
    TSelect | TCompare | TRecover | TFlag | TSnapshot | TRevoke | TExpire | TTouch | TDone token_verdict

fun token_next :: "token_env \<Rightarrow> int \<Rightarrow> bool \<Rightarrow> claims \<Rightarrow> string \<Rightarrow> string option \<Rightarrow> rt_row option \<times> string list \<Rightarrow> token_pc
    \<Rightarrow> rt_row list \<Rightarrow> (rt_row option \<times> string list) \<times> token_pc \<times> rt_row list" where
  "token_next env now True c raw requestId v pc t = (v, TDone TokenThrew, t)"
| "token_next env now False c raw requestId (f, ids) TSelect t = (case row_with_token (cl_jti c) t of
     None \<Rightarrow> ((None, ids), TDone NoToken, t)
   | Some r \<Rightarrow> ((Some r, ids), if rt_user r \<noteq> cl_sub c \<or> rt_device r \<noteq> cl_device c then TFlag else TCompare, t))"
| "token_next env now False c raw requestId (None, ids) pc t = ((None, ids), TDone TokenThrew, t)"
| "token_next env now False c raw requestId (Some r, ids) TCompare t = ((Some r, ids),
     if \<not> token_compare env raw (rt_hash r) then TFlag
     else if rt_revoked r \<noteq> None then TRecover
     else if rt_expires r \<le> now \<or> idle env now r then TExpire
     else TTouch, t)"
| "token_next env now False c raw requestId (Some r, ids) TRecover t = ((Some r, ids),
     case recoverRotation env now r requestId t of Some token \<Rightarrow> TDone (Recovered token) | None \<Rightarrow> TFlag, t)"
| "token_next env now False c raw requestId (Some r, ids) TFlag t = ((Some r, ids), TSnapshot, flag_reuse now (rt_id r) t)"
| "token_next env now False c raw requestId (Some r, ids) TSnapshot t =
     ((Some r, device_snapshot (rt_user r) (rt_device r) t), TRevoke, t)"
| "token_next env now False c raw requestId (Some r, ids) TRevoke t = ((Some r, ids), TDone ReuseDetected, revoke_seen now ids t)"
| "token_next env now False c raw requestId (Some r, ids) TExpire t = ((Some r, ids), TDone NoToken, revokeToken now (rt_id r) t)"
| "token_next env now False c raw requestId (Some r, ids) TTouch t = ((Some r, ids), TDone Fine, touch now (rt_id r) t)"
| "token_next env now False c raw requestId (Some r, ids) (TDone v) t = ((Some r, ids), TDone v, t)"

section \<open>The system\<close>

text \<open>
  Where a revocation is suspended: \<open>revokeRefreshToken\<close> ends after the update, \<open>revokeAllUserTokens\<close>
  goes on to the devices and the version that access tokens are checked against. \<open>RThrew\<close>: it ended with an
  error. The version is a 32-bit column, whose overflow is an error of the database.
\<close>

datatype revoke_pc = RSnapshot | RApply "string list" | RDevices | RVersion | RDone | RThrew

datatype token_call =
    VerifyToken claims string "string option" "rt_row option \<times> string list" token_pc
  | RevokeMany string "string option" revoke_pc

record device_row =
  dv_user :: string
  dv_device :: string
  dv_active :: bool

record token_system =
  ts_clock :: int
  ts_rows :: "rt_row list"
  ts_devices :: "device_row list"
  ts_versions :: "(string \<times> int option) list"
  ts_calls :: "token_call list"

definition seen_by :: "string \<Rightarrow> string option \<Rightarrow> rt_row list \<Rightarrow> string list" where
  "seen_by user device t = (case device of None \<Rightarrow> user_snapshot user t | Some d \<Rightarrow> device_snapshot user d t)"

definition deactivate :: "string \<Rightarrow> device_row list \<Rightarrow> device_row list" where
  "deactivate user t = map (\<lambda>d. if dv_user d = user \<and> dv_active d then d\<lparr>dv_active := False\<rparr> else d) t"

definition bump_version :: "string \<Rightarrow> (string \<times> int option) list \<Rightarrow> (string \<times> int option) list" where
  "bump_version user t = map (\<lambda>(u, v). if u = user then (u, Some ((case v of None \<Rightarrow> 1 | Some n \<Rightarrow> n) + 1)) else (u, v)) t"

definition bump_overflows :: "string \<Rightarrow> (string \<times> int option) list \<Rightarrow> bool" where
  "bump_overflows user t \<longleftrightarrow> (\<exists>(u, v) \<in> set t. u = user \<and> 2147483647 < (case v of None \<Rightarrow> 1 | Some n \<Rightarrow> n) + 1)"

fun revoke_next :: "int \<Rightarrow> string \<Rightarrow> string option \<Rightarrow> revoke_pc \<Rightarrow> token_system \<Rightarrow> revoke_pc \<times> token_system" where
  "revoke_next now user device RSnapshot sys = (RApply (seen_by user device (ts_rows sys)), sys)"
| "revoke_next now user device (RApply ids) sys =
     (if device = None then RDevices else RDone, sys\<lparr>ts_rows := revoke_seen now ids (ts_rows sys)\<rparr>)"
| "revoke_next now user device RDevices sys = (RVersion, sys\<lparr>ts_devices := deactivate user (ts_devices sys)\<rparr>)"
| "revoke_next now user device RVersion sys =
     (if bump_overflows user (ts_versions sys) then (RThrew, sys)
      else (RDone, sys\<lparr>ts_versions := bump_version user (ts_versions sys)\<rparr>))"
| "revoke_next now user device RDone sys = (RDone, sys)"
| "revoke_next now user device RThrew sys = (RThrew, sys)"

text \<open>One step of a call; the call itself is put back by the system.\<close>

fun move_token :: "token_env \<Rightarrow> bool \<Rightarrow> token_call \<Rightarrow> token_system \<Rightarrow> token_call \<times> token_system" where
  "move_token env fails (VerifyToken c raw q v (TDone x)) sys = (VerifyToken c raw q v (TDone x), sys)"
| "move_token env fails (VerifyToken c raw q v pc) sys =
     (let (v', pc', t') = token_next env (ts_clock sys) fails c raw q v pc (ts_rows sys) in (VerifyToken c raw q v' pc', sys\<lparr>ts_rows := t'\<rparr>))"
| "move_token env fails (RevokeMany user device pc) sys =
     (if fails \<and> pc \<noteq> RDone then (RevokeMany user device RThrew, sys)
      else let (pc', sys') = revoke_next (ts_clock sys) user device pc sys in (RevokeMany user device pc', sys'))"

inductive token_step :: "token_env \<Rightarrow> token_system \<Rightarrow> token_system \<Rightarrow> bool" for env where
  passes: "ts_clock sys \<le> now \<Longrightarrow> token_step env sys (sys\<lparr>ts_clock := now\<rparr>)"
| verifies: "jwt_verify env (ts_clock sys) raw = Some c \<Longrightarrow> cl_jti c \<noteq> []
    \<Longrightarrow> token_step env sys (sys\<lparr>ts_calls := ts_calls sys @ [VerifyToken c raw q (None, []) TSelect]\<rparr>)"
| revokes: "token_step env sys (sys\<lparr>ts_calls := ts_calls sys @ [RevokeMany user device RSnapshot]\<rparr>)"
| goes_on: "i < length (ts_calls sys) \<Longrightarrow> move_token env fails (ts_calls sys ! i) sys = (c, sys')
    \<Longrightarrow> token_step env sys (sys'\<lparr>ts_calls := (ts_calls sys)[i := c]\<rparr>)"
| rotates: "rotateRefreshToken env (ts_clock sys) rowId fresh salt i q (ts_rows sys) = Some (token, t)
    \<Longrightarrow> token_step env sys (sys\<lparr>ts_rows := t\<rparr>)"
| signs_in: "issueRefreshToken env (ts_clock sys) rowId salt user device None fresh (ts_rows sys) = Some (token, t)
    \<Longrightarrow> token_step env sys (sys\<lparr>ts_rows := t\<rparr>)"

inductive token_reachable :: "token_env \<Rightarrow> token_system \<Rightarrow> token_system \<Rightarrow> bool" for env and sys0 where
  begins: "token_reachable env sys0 sys0"
| steps: "token_reachable env sys0 sys \<Longrightarrow> token_step env sys sys' \<Longrightarrow> token_reachable env sys0 sys'"

definition no_tokens :: "int \<Rightarrow> token_system" where
  "no_tokens now = \<lparr>ts_clock = now, ts_rows = [], ts_devices = [], ts_versions = [], ts_calls = []\<rparr>"

end
