(* ===== verification/AccessTokens.thy ===== *)
theory AccessTokens
  imports TokenService OtpService SharedCanonical
begin

text \<open>
  Access tokens of the auth server: \<open>jwtKeys.js\<close>, \<open>signAccessToken\<close> of \<open>tokenService.js\<close>,
  \<open>accessTokenVerification.js\<close>, \<open>middleware/authMiddleware.js\<close>, \<open>currentSessionVerification.js\<close> and the
  private endpoint of \<open>routes/internalRoutes.js\<close>. The library for signed tokens and the decryption of a phone
  number are arguments. A query may fail; which ones do, and how, is an argument too.
\<close>

definition js_or :: "jsval \<Rightarrow> jsval \<Rightarrow> jsval" where
  "js_or a b = (if truthy a then a else b)"

definition jstr :: "string option \<Rightarrow> jsval" where
  "jstr s = (case s of None \<Rightarrow> JNull | Some t \<Rightarrow> JStr t)"

section \<open>Keys\<close>

record key_set =
  ks_keys :: "(string \<times> string) list"
  ks_active :: string
  ks_issuer :: string
  ks_audience :: string

text \<open>\<open>process.env.X || d\<close>.\<close>

definition env_or :: "(string \<Rightarrow> string option) \<Rightarrow> string \<Rightarrow> string \<Rightarrow> string" where
  "env_or env name d = (case env name of None \<Rightarrow> d | Some s \<Rightarrow> if s = [] then d else s)"

fun usable_keys :: "(string \<times> jsval) list \<Rightarrow> (string \<times> string) list" where
  "usable_keys [] = []"
| "usable_keys ((k, JStr s) # m) = (if k \<noteq> [] \<and> s \<noteq> [] then (k, s) # usable_keys m else usable_keys m)"
| "usable_keys (_ # m) = usable_keys m"

definition configured_keys :: "(string \<Rightarrow> string option) \<Rightarrow> (string \<Rightarrow> jsval option) \<Rightarrow> string + (string \<times> string) list" where
  "configured_keys env parse =
     (let json = env_or env ''JWT_KEYS_JSON'' []; secret = env_or env ''JWT_ACCESS_SECRET'' [] in
      if json \<noteq> [] then
        (case parse json of
           None \<Rightarrow> Inl ''Invalid JWT_KEYS_JSON''
         | Some (JObj m) \<Rightarrow> if usable_keys m = [] then Inl ''JWT_KEYS_JSON must contain at least one signing key'' else Inr (usable_keys m)
         | Some _ \<Rightarrow> Inl ''JWT_KEYS_JSON must be a JSON object'')
      else Inr (if secret \<noteq> [] then [(''1'', secret)] else []))"

definition loadKeys :: "(string \<Rightarrow> string option) \<Rightarrow> (string \<Rightarrow> jsval option) \<Rightarrow> string + key_set" where
  "loadKeys env parse = ebind (configured_keys env parse) (\<lambda>keys.
     let active = env_or env ''JWT_ACTIVE_KEY_ID'' ''1'' in
     if keys = [] then Inl ''No JWT keys configured''
     else if map_of keys active = None then Inl ''JWT_ACTIVE_KEY_ID is not present in the configured key set''
     else Inr \<lparr>ks_keys = keys, ks_active = active, ks_issuer = env_or env ''JWT_ISSUER'' ''pandapay-auth'',
       ks_audience = env_or env ''JWT_AUDIENCE'' ''mobile-app''\<rparr>)"

definition getKeySecret :: "key_set \<Rightarrow> string \<Rightarrow> string option" where
  "getKeySecret ks k = map_of (ks_keys ks) k"

text \<open>Times are milliseconds; the claims are seconds. \<open>None\<close> is a valid answer, otherwise the reason.\<close>

definition seconds :: "int \<Rightarrow> jsval" where
  "seconds n = JNum (Fin (of_int n))"

definition validateTokenClaims :: "key_set \<Rightarrow> bool \<Rightarrow> int \<Rightarrow> bool \<Rightarrow> int \<Rightarrow> jsval \<Rightarrow> string option" where
  "validateTokenClaims ks allowExpired skew requireIssuerAudience now p =
     (let n = now div 1000; iss = jprop p ''iss''; aud = jprop p ''aud''; ex = jprop p ''exp''; iat = jprop p ''iat''; nbf = jprop p ''nbf'' in
      if requireIssuerAudience \<and> iss \<noteq> JStr (ks_issuer ks) then Some ''missing_or_invalid_issuer''
      else if truthy iss \<and> iss \<noteq> JStr (ks_issuer ks) then Some ''invalid_issuer''
      else if requireIssuerAudience \<and> aud \<noteq> JStr (ks_audience ks) then Some ''missing_or_invalid_audience''
      else if truthy aud \<and> aud \<noteq> JStr (ks_audience ks) then Some ''invalid_audience''
      else if truthy ex \<and> \<not> allowExpired \<and> to_number ex < Fin (of_int (n - skew)) then Some ''expired''
      else if truthy iat \<and> Fin (of_int (n + skew)) < to_number iat then Some ''issued_in_future''
      else if truthy nbf \<and> Fin (of_int (n + skew)) < to_number nbf then Some ''not_yet_valid''
      else None)"

section \<open>The library for signed tokens\<close>

text \<open>
  \<open>at_decode\<close> gives the algorithm and the key id of the header (as the property name it is used as, nothing when
  falsy); \<open>at_verify\<close> checks signature, issuer, audience and times; \<open>at_sign\<close> adds the key id to the
  header and issue time, expiry, issuer and audience to the claims.
\<close>

record token_lib =
  at_decode :: "string \<Rightarrow> (jsval \<times> string option) option"
  at_verify :: "int \<Rightarrow> string \<Rightarrow> string \<Rightarrow> string \<Rightarrow> string \<Rightarrow> jsval option"
  at_sign :: "int \<Rightarrow> string \<Rightarrow> string \<Rightarrow> string \<Rightarrow> string \<Rightarrow> string \<Rightarrow> (string \<times> jsval) list \<Rightarrow> string"
  at_decrypt :: "string \<Rightarrow> string option"

fun first_verified :: "('a \<Rightarrow> 'b option) \<Rightarrow> 'a list \<Rightarrow> 'b option" where
  "first_verified f [] = None"
| "first_verified f (x # xs) = (case f x of None \<Rightarrow> first_verified f xs | Some y \<Rightarrow> Some y)"

definition secrets_for :: "key_set \<Rightarrow> string option \<Rightarrow> string list" where
  "secrets_for ks kid = (case kid of None \<Rightarrow> map snd (ks_keys ks) | Some k \<Rightarrow> (case getKeySecret ks k of None \<Rightarrow> [] | Some s \<Rightarrow> [s]))"

definition verifyAccessToken :: "token_lib \<Rightarrow> key_set \<Rightarrow> int \<Rightarrow> string \<Rightarrow> jsval option" where
  "verifyAccessToken lib ks now token =
     (if token = [] \<or> 8192 < length token then None
      else case at_decode lib token of None \<Rightarrow> None
      | Some (alg, kid) \<Rightarrow>
          if alg \<noteq> JStr ''HS256'' then None
          else case first_verified (\<lambda>s. at_verify lib now s (ks_issuer ks) (ks_audience ks) token) (secrets_for ks kid) of
            None \<Rightarrow> None
          | Some p \<Rightarrow> if \<not> is_str (jprop p ''sub'') \<or> validateTokenClaims ks False 60 True now p \<noteq> None then None else Some p)"

section \<open>Signing\<close>

record account =
  ac_id :: string
  ac_email :: "string option"
  ac_phone :: "string option"
  ac_email_verified :: bool
  ac_phone_verified :: bool
  ac_role :: string
  ac_version :: "int option"
  ac_active :: bool
  ac_deleted :: bool
  ac_guest :: bool

record sign_options =
  so_device :: string
  so_high_assurance :: bool
  so_channel :: string
  so_factor_at :: jsval
  so_recovery :: string
  so_expires :: string

definition canonicalPhoneClaim :: "token_lib \<Rightarrow> string option \<Rightarrow> jsval option" where
  "canonicalPhoneClaim lib stored = (case stored of None \<Rightarrow> Some JNull
     | Some c \<Rightarrow> (case at_decrypt lib c of None \<Rightarrow> None | Some p \<Rightarrow> map_option JStr (canonicalizePhone p)))"

definition js_integer :: "jsval \<Rightarrow> bool" where
  "js_integer v = (case v of JNum n \<Rightarrow> is_integer n | _ \<Rightarrow> False)"

definition access_claims :: "int \<Rightarrow> jsval \<Rightarrow> account \<Rightarrow> sign_options \<Rightarrow> (string \<times> jsval) list" where
  "access_claims now phone u opt =
     [(''sub'', JStr (ac_id u)), (''phone_number'', phone), (''role'', JStr ''authenticated''), (''user_role'', JStr (ac_role u)),
      (''token_version'', js_or (case ac_version u of None \<Rightarrow> JUndef | Some n \<Rightarrow> seconds n) (seconds 1)), (''is_guest'', JBool (ac_guest u))]
     @ (if so_device opt \<noteq> [] then [(''device_id'', JStr (so_device opt))] else [])
     @ (if so_high_assurance opt then [(''high_assurance'', JBool True)] else [])
     @ (if so_channel opt \<in> {''email'', ''phone'', ''google''} then [(''verified_channel'', JStr (so_channel opt)),
          (''factor_verified_at'', if js_integer (so_factor_at opt) then so_factor_at opt else seconds (now div 1000))] else [])
     @ (if so_recovery opt \<in> {''email'', ''phone''} then [(''recovery_channel'', JStr (so_recovery opt)),
          (''recovery_verified_at'', seconds (now div 1000))] else [])"

definition signAccessToken :: "token_lib \<Rightarrow> key_set \<Rightarrow> string \<Rightarrow> int \<Rightarrow> account \<Rightarrow> sign_options \<Rightarrow> string option" where
  "signAccessToken lib ks ttl now u opt = (case canonicalPhoneClaim lib (ac_phone u) of None \<Rightarrow> None
     | Some phone \<Rightarrow> (case getKeySecret ks (ks_active ks) of None \<Rightarrow> None
        | Some secret \<Rightarrow> Some (at_sign lib now secret (ks_active ks) (ks_issuer ks) (ks_audience ks)
            (if so_expires opt = [] then ttl else so_expires opt) (access_claims now phone u opt))))"

section \<open>The middleware of the auth server\<close>

datatype db_error = NoVersionColumn | BadUuid | DbDown

record query_errors =
  first_query :: "db_error option"
  second_query :: "db_error option"
  third_query :: "db_error option"

record auth_db =
  au_users :: "account list"
  au_devices :: "device_row list"

definition find_account :: "auth_db \<Rightarrow> jsval \<Rightarrow> account option" where
  "find_account db sub = List.find (\<lambda>u. JStr (ac_id u) = sub) (au_users db)"

definition current_version :: "account \<Rightarrow> jsval" where
  "current_version u = seconds (case ac_version u of None \<Rightarrow> 1 | Some n \<Rightarrow> n)"

definition version_matches :: "jsval \<Rightarrow> account \<Rightarrow> bool" where
  "version_matches p u \<longleftrightarrow> js_or (jprop p ''token_version'') (seconds 1) = current_version u"

definition device_active :: "auth_db \<Rightarrow> jsval \<Rightarrow> bool" where
  "device_active db p \<longleftrightarrow> (\<exists>d \<in> set (au_devices db). JStr (dv_user d) = jprop p ''sub'' \<and> JStr (dv_device d) = jprop p ''device_id'' \<and> dv_active d)"

definition request_user :: "jsval \<Rightarrow> (string \<times> jsval) list" where
  "request_user p = [(''id'', jprop p ''sub''), (''device_id'', jprop p ''device_id''), (''phone_number'', jprop p ''phone_number''),
     (''role'', js_or (jprop p ''user_role'') (jprop p ''role'')), (''user_type'', jprop p ''user_type''),
     (''high_assurance'', js_or (jprop p ''high_assurance'') (JBool False)), (''recovery_channel'', jprop p ''recovery_channel''),
     (''recovery_verified_at'', jprop p ''recovery_verified_at''), (''verified_channel'', jprop p ''verified_channel''),
     (''factor_verified_at'', jprop p ''factor_verified_at'')]"

datatype auth_answer = Deny nat string | Allow "(string \<times> jsval) list"

definition invalid_token :: auth_answer where
  "invalid_token = Deny 401 ''Invalid or expired token''"

definition usable_account :: "account \<Rightarrow> bool" where
  "usable_account u \<longleftrightarrow> ac_active u \<and> \<not> ac_deleted u"

text \<open>The version column may be missing in an old database: then the status alone is checked.\<close>

definition without_version :: "query_errors \<Rightarrow> auth_db \<Rightarrow> jsval \<Rightarrow> auth_answer" where
  "without_version err db p = (case third_query err of Some e \<Rightarrow> Deny 500 ''Internal server error''
     | None \<Rightarrow> (case find_account db (jprop p ''sub'') of None \<Rightarrow> invalid_token
        | Some u \<Rightarrow> if usable_account u then Allow (request_user p) else invalid_token))"

definition query_failed :: "db_error \<Rightarrow> query_errors \<Rightarrow> auth_db \<Rightarrow> jsval \<Rightarrow> auth_answer" where
  "query_failed e err db p = (if e = NoVersionColumn then without_version err db p else Deny 500 ''Internal server error'')"

definition check_account :: "query_errors \<Rightarrow> auth_db \<Rightarrow> jsval \<Rightarrow> auth_answer" where
  "check_account err db p = (case first_query err of Some e \<Rightarrow> query_failed e err db p
     | None \<Rightarrow> (case find_account db (jprop p ''sub'') of None \<Rightarrow> Deny 401 ''User not found''
        | Some u \<Rightarrow>
            if \<not> usable_account u \<or> \<not> version_matches p u then invalid_token
            else if truthy (jprop p ''device_id'') then
              (case second_query err of Some e \<Rightarrow> query_failed e err db p
               | None \<Rightarrow> if device_active db p then Allow (request_user p) else invalid_token)
            else Allow (request_user p)))"

definition bearer :: "string \<Rightarrow> string" where
  "bearer h = (if starts_with h ''Bearer '' then drop 7 h else [])"

definition authMiddleware :: "token_lib \<Rightarrow> key_set \<Rightarrow> int \<Rightarrow> query_errors \<Rightarrow> auth_db \<Rightarrow> string \<Rightarrow> auth_answer" where
  "authMiddleware lib ks now err db header =
     (if bearer header = [] then Deny 401 ''Missing Authorization header''
      else case verifyAccessToken lib ks now (bearer header) of None \<Rightarrow> invalid_token | Some p \<Rightarrow> check_account err db p)"

section \<open>The verification for other services\<close>

record session_report =
  sr_token_valid :: bool
  sr_valid :: bool
  sr_subject :: "string option"
  sr_guest :: bool
  sr_active :: bool
  sr_revoked :: bool
  sr_expires :: "jsval option"
  sr_revocation :: "string option"
  sr_channel :: "string option"
  sr_verified_at :: "jsval option"
  sr_email :: "bool \<times> string option"
  sr_phone :: "bool \<times> string option"

definition base_report :: "jsval \<Rightarrow> session_report" where
  "base_report p = \<lparr>sr_token_valid = True, sr_valid = False,
     sr_subject = (case jprop p ''sub'' of JStr s \<Rightarrow> Some s | _ \<Rightarrow> None),
     sr_guest = (jprop p ''is_guest'' = JBool True), sr_active = False, sr_revoked = False,
     sr_expires = (if js_integer (jprop p ''exp'') then Some (jprop p ''exp'') else None), sr_revocation = None,
     sr_channel = (case jprop p ''verified_channel'' of JStr c \<Rightarrow> if c \<in> {''phone'', ''email'', ''google''} then Some c else None | _ \<Rightarrow> None),
     sr_verified_at = (if js_integer (jprop p ''factor_verified_at'') then Some (jprop p ''factor_verified_at'') else None),
     sr_email = (False, None), sr_phone = (False, None)\<rparr>"

definition revocation :: "bool \<Rightarrow> jsval \<Rightarrow> account option \<Rightarrow> string option" where
  "revocation deviceActive p user = (case user of None \<Rightarrow> Some ''subject_not_found''
     | Some u \<Rightarrow> if ac_deleted u then Some ''account_deleted''
         else if \<not> ac_active u then Some ''account_inactive''
         else if \<not> version_matches p u then Some ''token_version_changed''
         else if \<not> deviceActive then Some ''device_inactive'' else None)"

definition nonempty :: "string option \<Rightarrow> bool" where
  "nonempty s \<longleftrightarrow> s \<noteq> None \<and> s \<noteq> Some []"

definition contacts :: "token_lib \<Rightarrow> bool \<Rightarrow> account option \<Rightarrow> session_report \<Rightarrow> session_report option" where
  "contacts lib act user r = (case user of None \<Rightarrow> Some r
     | Some u \<Rightarrow>
         let e = nonempty (ac_email u) \<and> ac_email_verified u; f = nonempty (ac_phone u) \<and> ac_phone_verified u;
             r' = r\<lparr>sr_email := (e, if act \<and> e then ac_email u else None)\<rparr> in
         if act \<and> f then map_option (\<lambda>n. r'\<lparr>sr_phone := (f, Some n)\<rparr>) (at_decrypt lib (the (ac_phone u)))
         else Some (r'\<lparr>sr_phone := (f, None)\<rparr>))"

text \<open>A query error and a phone number that cannot be decrypted are thrown: \<open>None\<close>.\<close>

definition current_session :: "token_lib \<Rightarrow> query_errors \<Rightarrow> auth_db \<Rightarrow> jsval \<Rightarrow> session_report option" where
  "current_session lib err db p =
     (if sr_guest (base_report p) then Some ((base_report p)\<lparr>sr_valid := True, sr_active := True,
        sr_revocation := Some ''stateless_guest_expires_with_token''\<rparr>)
      else if first_query err \<noteq> None \<and> first_query err \<noteq> Some BadUuid then None
      else
        let user = (if first_query err = None then find_account db (jprop p ''sub'') else None);
            asks = (user \<noteq> None \<and> truthy (jprop p ''device_id'')) in
        if asks \<and> second_query err \<noteq> None then None
        else
          let deviceActive = (\<not> asks \<or> device_active db p);
              act = (case user of None \<Rightarrow> False | Some u \<Rightarrow> usable_account u \<and> version_matches p u \<and> deviceActive) in
          contacts lib act user ((base_report p)\<lparr>sr_valid := act, sr_active := act, sr_revoked := \<not> act,
            sr_revocation := revocation deviceActive p user\<rparr>))"

definition invalid_report :: session_report where
  "invalid_report = \<lparr>sr_token_valid = False, sr_valid = False, sr_subject = None, sr_guest = False, sr_active = False, sr_revoked = False,
     sr_expires = None, sr_revocation = None, sr_channel = None, sr_verified_at = None, sr_email = (False, None), sr_phone = (False, None)\<rparr>"

definition verifyCurrentSession :: "token_lib \<Rightarrow> key_set \<Rightarrow> int \<Rightarrow> query_errors \<Rightarrow> auth_db \<Rightarrow> string \<Rightarrow> session_report option" where
  "verifyCurrentSession lib ks now err db token = (case verifyAccessToken lib ks now token of
     None \<Rightarrow> Some invalid_report | Some p \<Rightarrow> current_session lib err db p)"

text \<open>The endpoint for the other services; \<open>Inl\<close> is a status without a report. The two secrets are compared by their
  digests, here by equality; a secret that is not configured is the empty one.\<close>

definition session_endpoint :: "string \<Rightarrow> string option \<Rightarrow> token_lib \<Rightarrow> key_set \<Rightarrow> int \<Rightarrow> query_errors \<Rightarrow> auth_db \<Rightarrow> string \<Rightarrow> nat + session_report" where
  "session_endpoint secret provided lib ks now err db header =
     (if utf8_length secret < 32 then Inl 503
      else if provided \<noteq> Some secret then Inl 401
      else if bearer header = [] then Inl 400
      else case verifyCurrentSession lib ks now err db (bearer header) of None \<Rightarrow> Inl 503 | Some r \<Rightarrow> Inr r)"

end
