(* ===== verification/TokenProps.thy ===== *)
theory TokenProps
  imports TokenService
begin

text \<open>
  Refresh tokens over time: rotation keeps one live token of a family, a retried rotation gives the
  same token again, what detected reuse revokes and what it can miss, and what the stored hash checks.
\<close>

section \<open>Rows over time\<close>

definition token_kept :: "rt_row \<Rightarrow> rt_row \<Rightarrow> bool" where
  "token_kept r q \<longleftrightarrow> rt_id q = rt_id r \<and> rt_parent q = rt_parent r \<and> rt_token_id q = rt_token_id r \<and> rt_user q = rt_user r
     \<and> rt_device q = rt_device r \<and> (rt_revoked r \<noteq> None \<longrightarrow> rt_revoked q \<noteq> None)"

lemma token_kept_refl [simp]: "token_kept r r"
  by (simp add: token_kept_def)

definition tokens_updated :: "rt_row list \<Rightarrow> rt_row list \<Rightarrow> bool" where
  "tokens_updated t t' \<longleftrightarrow> (\<exists>f. t' = map f t \<and> (\<forall>r. token_kept r (f r)))"

lemma tokens_updated_refl [simp]: "tokens_updated t t"
  unfolding tokens_updated_def by (intro exI[of _ "\<lambda>r. r"]) simp

lemma token_updates:
  "tokens_updated t (flag_reuse now i t)" "tokens_updated t (revoke_seen now ids t)" "tokens_updated t (revokeToken now i t)"
  "tokens_updated t (touch now i t)" "tokens_updated t (revoke_id now i t)"
  unfolding tokens_updated_def flag_reuse_def revoke_seen_def revokeToken_def touch_def revoke_id_def
  by (rule exI, rule conjI[OF refl], simp add: token_kept_def split: option.splits)+

lemma tokens_updatedD: "tokens_updated t t' \<Longrightarrow> r \<in> set t \<Longrightarrow> \<exists>q \<in> set t'. token_kept r q"
  by (auto simp: tokens_updated_def)

lemma tokens_updated_back: "tokens_updated t t' \<Longrightarrow> q \<in> set t' \<Longrightarrow> \<exists>r \<in> set t. token_kept r q"
  unfolding tokens_updated_def by (elim exE conjE) (metis imageE list.set_map)

lemma tokens_updated_ids: "tokens_updated t t' \<Longrightarrow> map rt_id t' = map rt_id t"
  by (auto simp: tokens_updated_def token_kept_def)

section \<open>Families\<close>

text \<open>
  A token that was rotated has one successor, and is revoked.
\<close>

definition families_ok :: "rt_row list \<Rightarrow> bool" where
  "families_ok t \<longleftrightarrow> distinct (map rt_id t)
     \<and> (\<forall>r \<in> set t. \<forall>p. rt_parent r = Some p \<longrightarrow> (\<exists>q \<in> set t. rt_id q = p \<and> rt_revoked q \<noteq> None))
     \<and> (\<forall>r \<in> set t. \<forall>r' \<in> set t. \<forall>p. rt_parent r = Some p \<longrightarrow> rt_parent r' = Some p \<longrightarrow> rt_id r = rt_id r')"

lemma families_distinct: "families_ok t \<Longrightarrow> distinct (map rt_id t)"
  unfolding families_ok_def by blast

lemma families_parent:
  assumes "families_ok t" "r \<in> set t" "rt_parent r = Some p"
  obtains q where "q \<in> set t" "rt_id q = p" "rt_revoked q \<noteq> None"
  using assms unfolding families_ok_def by blast

lemma families_unique:
  "families_ok t \<Longrightarrow> r \<in> set t \<Longrightarrow> r' \<in> set t \<Longrightarrow> rt_parent r = Some p \<Longrightarrow> rt_parent r' = Some p \<Longrightarrow> rt_id r = rt_id r'"
  unfolding families_ok_def by blast

lemma familiesI:
  assumes "distinct (map rt_id t)"
    and "\<And>r p. r \<in> set t \<Longrightarrow> rt_parent r = Some p \<Longrightarrow> \<exists>q \<in> set t. rt_id q = p \<and> rt_revoked q \<noteq> None"
    and "\<And>r r' p. r \<in> set t \<Longrightarrow> r' \<in> set t \<Longrightarrow> rt_parent r = Some p \<Longrightarrow> rt_parent r' = Some p \<Longrightarrow> rt_id r = rt_id r'"
  shows "families_ok t"
  unfolding families_ok_def
proof (intro conjI ballI allI impI assms(1))
  fix r p assume "r \<in> set t" "rt_parent r = Some p"
  then show "\<exists>q \<in> set t. rt_id q = p \<and> rt_revoked q \<noteq> None" by (rule assms(2))
next
  fix r r' p assume "r \<in> set t" "r' \<in> set t" "rt_parent r = Some p" "rt_parent r' = Some p"
  then show "rt_id r = rt_id r'" by (rule assms(3))
qed

definition successor :: "rt_row list \<Rightarrow> (string \<times> string) set" where
  "successor t = {(p, rt_id r) |p r. r \<in> set t \<and> rt_parent r = Some p}"

lemma row_with_id_Some: "row_with_id i t = Some r \<Longrightarrow> r \<in> set t \<and> rt_id r = i"
  by (induction t) (auto simp: row_with_id_def split: if_splits)

lemma distinct_id: "distinct (map rt_id t) \<Longrightarrow> r \<in> set t \<Longrightarrow> q \<in> set t \<Longrightarrow> rt_id r = rt_id q \<Longrightarrow> r = q"
  by (meson distinct_map inj_onD)

lemma token_keptD:
  assumes "token_kept r q"
  shows "rt_id q = rt_id r" "rt_parent q = rt_parent r" "rt_user q = rt_user r" "rt_device q = rt_device r"
    "rt_revoked r \<noteq> None \<Longrightarrow> rt_revoked q \<noteq> None"
  using assms unfolding token_kept_def by simp_all

lemma families_updated:
  assumes "families_ok t" "tokens_updated t t'"
  shows "families_ok t'"
proof (rule familiesI)
  show "distinct (map rt_id t')" using families_distinct[OF assms(1)] tokens_updated_ids[OF assms(2)] by simp
  fix q p assume q: "q \<in> set t'" "rt_parent q = Some p"
  obtain r where r: "r \<in> set t" "token_kept r q" using tokens_updated_back[OF assms(2) q(1)] by blast
  obtain x where x: "x \<in> set t" "rt_id x = p" "rt_revoked x \<noteq> None"
    by (rule families_parent[OF assms(1) r(1)]) (use q token_keptD[OF r(2)] in simp)
  obtain y where "y \<in> set t'" "token_kept x y" using tokens_updatedD[OF assms(2) x(1)] by blast
  then show "\<exists>q \<in> set t'. rt_id q = p \<and> rt_revoked q \<noteq> None" using x token_keptD[of x y] by auto
next
  fix q q' p assume q: "q \<in> set t'" "q' \<in> set t'" "rt_parent q = Some p" "rt_parent q' = Some p"
  obtain r where r: "r \<in> set t" "token_kept r q" using tokens_updated_back[OF assms(2) q(1)] by blast
  obtain r' where r': "r' \<in> set t" "token_kept r' q'" using tokens_updated_back[OF assms(2) q(2)] by blast
  have "rt_id r = rt_id r'"
    by (rule families_unique[OF assms(1) r(1) r'(1)]) (use q token_keptD[OF r(2)] token_keptD[OF r'(2)] in simp_all)
  then show "rt_id q = rt_id q'" using token_keptD[OF r(2)] token_keptD[OF r'(2)] by simp
qed

lemma issue_row:
  assumes "issueRefreshToken env now rowId salt user device parent tid t = Some (token, t')"
  obtains r where "t' = t @ [r]" "rt_id r = rowId" "rowId \<notin> set (map rt_id t)" "tid \<notin> set (map rt_token_id t)"
    "rt_parent r = parent" "rt_user r = user" "rt_device r = device" "rt_revoked r = None" "rt_token_id r = tid"
    "rt_hash r = token_hash env salt token" "token = jwt_sign env (issued_claims env now user device tid)"
    "rt_expires r = (now div 1000 + refresh_ttl env) * 1000" "rt_last_used r = Some now"
proof -
  let ?c = "issued_claims env now user device tid"
  have h: "tid \<notin> set (map rt_token_id t)" "rowId \<notin> set (map rt_id t)" "token = jwt_sign env ?c"
    using assms by (simp_all only: issueRefreshToken_def Let_def split: if_splits) auto
  have "t' = t @ [\<lparr>rt_id = rowId, rt_user = user, rt_device = device, rt_token_id = tid,
      rt_hash = token_hash env salt token, rt_expires = cl_exp ?c * 1000, rt_last_used = Some now, rt_revoked = None,
      rt_reuse = None, rt_parent = parent\<rparr>]"
    using assms h by (simp add: issueRefreshToken_def Let_def)
  then show thesis by (rule that) (use h in \<open>simp_all add: issued_claims_def\<close>)
qed

lemma families_sign_in:
  assumes "families_ok t" "issueRefreshToken env now rowId salt user device None tid t = Some (token, t')"
  shows "families_ok t'"
proof -
  obtain r where r: "t' = t @ [r]" "rt_id r = rowId" "rowId \<notin> set (map rt_id t)" "rt_parent r = None"
    using assms(2) by (rule issue_row)
  show ?thesis
  proof (rule familiesI)
    show "distinct (map rt_id t')" using families_distinct[OF assms(1)] r by simp
    fix x p assume x: "x \<in> set t'" "rt_parent x = Some p"
    then have "x \<in> set t" using r by auto
    from families_parent[OF assms(1) this x(2)] show "\<exists>q \<in> set t'. rt_id q = p \<and> rt_revoked q \<noteq> None" using r(1) by auto
  next
    fix x x' p assume "x \<in> set t'" "x' \<in> set t'" "rt_parent x = Some p" "rt_parent x' = Some p"
    then show "rt_id x = rt_id x'" using families_unique[OF assms(1), of x x' p] r by auto
  qed
qed

lemma rotate_cases:
  assumes "rotateRefreshToken env now rowId fresh salt i q t = Some (token, t')"
  obtains (again) r where "row_with_id i t = Some r" "rt_revoked r \<noteq> None" "t' = t" "recoverRotation env now r q t = Some token"
  | (new) r u tid where "row_with_id i t = Some r" "rt_revoked r = None" "now < rt_expires r"
      "tid = (case successorId env r q of Some tid \<Rightarrow> tid | None \<Rightarrow> fresh)"
      "issueRefreshToken env now rowId salt (rt_user r) (rt_device r) (Some i) tid t = Some (token, u)" "t' = revoke_id now i u"
  using assms by (auto simp: rotateRefreshToken_def Let_def split: option.splits if_splits)

text \<open>A new last row whose parent is unrevoked so far, and then revoked.\<close>

lemma families_successor:
  assumes ok: "families_ok t" and r: "r \<in> set t" "rt_revoked r = None" and c: "rt_id c \<notin> set (map rt_id t)" "rt_parent c = Some (rt_id r)"
  shows "families_ok (revoke_id now (rt_id r) (t @ [c]))"
proof (rule familiesI)
  let ?t = "revoke_id now (rt_id r) (t @ [c])"
  have up: "tokens_updated (t @ [c]) ?t" by (rule token_updates(5))
  have child: "rt_parent x \<noteq> Some (rt_id r)" if x: "x \<in> set t" for x
  proof
    assume "rt_parent x = Some (rt_id r)"
    from families_parent[OF ok x this] obtain y where y: "y \<in> set t" "rt_id y = rt_id r" "rt_revoked y \<noteq> None" .
    from distinct_id[OF families_distinct[OF ok] y(1) r(1) y(2)] show False using r(2) y(3) by simp
  qed
  show "distinct (map rt_id ?t)" using families_distinct[OF ok] c tokens_updated_ids[OF up] by simp
  fix x p assume x: "x \<in> set ?t" "rt_parent x = Some p"
  obtain y where y: "y \<in> set (t @ [c])" "token_kept y x" using tokens_updated_back[OF up x(1)] by blast
  have yp: "rt_parent y = Some p" using token_keptD[OF y(2)] x(2) by simp
  show "\<exists>q \<in> set ?t. rt_id q = p \<and> rt_revoked q \<noteq> None"
  proof (cases "y \<in> set t")
    case True
    obtain z where z: "z \<in> set t" "rt_id z = p" "rt_revoked z \<noteq> None" by (rule families_parent[OF ok True yp])
    obtain w where "w \<in> set ?t" "token_kept z w" using tokens_updatedD[OF up, of z] z(1) by auto
    then show ?thesis using z token_keptD[of z w] by auto
  next
    case False
    then have "p = rt_id r" using y(1) yp c(2) by auto
    moreover have "r\<lparr>rt_revoked := Some now\<rparr> \<in> set ?t" using r(1) by (force simp: revoke_id_def)
    ultimately show ?thesis by (intro bexI[of _ "r\<lparr>rt_revoked := Some now\<rparr>"]) simp_all
  qed
  fix x' assume x': "x' \<in> set ?t" "rt_parent x' = Some p"
  obtain y' where y': "y' \<in> set (t @ [c])" "token_kept y' x'" using tokens_updated_back[OF up x'(1)] by blast
  have yp': "rt_parent y' = Some p" using token_keptD[OF y'(2)] x'(2) by simp
  have "rt_id y = rt_id y'"
  proof (cases "y = c \<or> y' = c")
    case True
    then have "p = rt_id r" using yp yp' c(2) by auto
    then have "y = c" "y' = c" using y(1) y'(1) yp yp' child by auto
    then show ?thesis by simp
  next
    case False
    then show ?thesis using families_unique[OF ok _ _ yp yp'] y(1) y'(1) by auto
  qed
  then show "rt_id x = rt_id x'" using token_keptD[OF y(2)] token_keptD[OF y'(2)] by simp
qed

lemma families_rotate:
  assumes ok: "families_ok t" and rot: "rotateRefreshToken env now rowId fresh salt i q t = Some (token, t')"
  shows "families_ok t'"
  using rot
proof (cases rule: rotate_cases)
  case (new r u tid)
  have r: "r \<in> set t" "rt_id r = i" using row_with_id_Some[OF new(1)] by simp_all
  obtain c where c: "u = t @ [c]" "rt_id c = rowId" "rowId \<notin> set (map rt_id t)" "rt_parent c = Some i"
    using new(5) by (rule issue_row)
  show ?thesis using families_successor[OF ok r(1) new(2), of c now] c r(2) new(6) by simp
qed (use ok in simp)

lemma token_next_updates: "token_next env now fails c raw q v pc t = (v', pc', t') \<Longrightarrow> tokens_updated t t'"
  by (cases "(env, now, fails, c, raw, q, v, pc, t)" rule: token_next.cases) (auto simp: token_updates split: option.splits)

lemma move_verify: "\<forall>x. pc \<noteq> TDone x \<Longrightarrow> move_token env fails (VerifyToken c raw q v pc) sys =
    (let (v', pc', t') = token_next env (ts_clock sys) fails c raw q v pc (ts_rows sys) in (VerifyToken c raw q v' pc', sys\<lparr>ts_rows := t'\<rparr>))"
  by (cases pc) simp_all

lemma move_token_updates:
  assumes "move_token env fails c sys = (c', sys')"
  shows "tokens_updated (ts_rows sys) (ts_rows sys') \<and> ts_clock sys' = ts_clock sys"
proof (cases c)
  case (VerifyToken cl raw q v pc)
  show ?thesis
  proof (cases "\<exists>x. pc = TDone x")
    case False
    obtain v' pc' t' where n: "token_next env (ts_clock sys) fails cl raw q v pc (ts_rows sys) = (v', pc', t')"
      by (cases "token_next env (ts_clock sys) fails cl raw q v pc (ts_rows sys)") auto
    then have "sys' = sys\<lparr>ts_rows := t'\<rparr>" using assms False by (simp add: VerifyToken move_verify)
    then show ?thesis using token_next_updates[OF n] by simp
  qed (use assms VerifyToken in auto)
next
  case (RevokeMany user device pc)
  then show ?thesis using assms by (cases pc) (auto simp: token_updates split: if_splits)
qed

lemma families_step: "token_step env sys sys' \<Longrightarrow> families_ok (ts_rows sys) \<Longrightarrow> families_ok (ts_rows sys')"
proof (induction rule: token_step.induct)
  case (goes_on i sys fails c sys')
  then show ?case using families_updated move_token_updates[OF goes_on(2)] by auto
qed (auto intro: families_rotate families_sign_in)

lemma families_reachable: "token_reachable env (no_tokens now) sys \<Longrightarrow> families_ok (ts_rows sys)"
proof (induction rule: token_reachable.induct)
  case begins
  then show ?case by (simp add: no_tokens_def families_ok_def)
qed (use families_step in blast)

text \<open>
  C7: a family of tokens has one live member. From the first token of a sign-in, however rotations, retries, revocations
  and verifications interleave and fail, at most one token reached by rotation is not revoked.
\<close>

theorem one_live_token:
  assumes "token_reachable env (no_tokens now) sys"
    and "x \<in> set (ts_rows sys)" and "y \<in> set (ts_rows sys)" and "rt_revoked x = None" and "rt_revoked y = None"
    and "(origin, rt_id x) \<in> (successor (ts_rows sys))\<^sup>*" and "(origin, rt_id y) \<in> (successor (ts_rows sys))\<^sup>*"
  shows "x = y"
proof -
  let ?t = "ts_rows sys"
  have ok: "families_ok ?t" by (rule families_reachable[OF assms(1)])
  have "single_valued (successor ?t)"
    unfolding single_valued_def successor_def using families_unique[OF ok] by blast
  from single_valued_confluent[OF this assms(6,7)]
  have "(rt_id x, rt_id y) \<in> (successor ?t)\<^sup>* \<or> (rt_id y, rt_id x) \<in> (successor ?t)\<^sup>*" .
  moreover have last: "rt_id a = rt_id b" if ab: "(rt_id a, rt_id b) \<in> (successor ?t)\<^sup>*" and a: "a \<in> set ?t" "rt_revoked a = None" for a b
    using ab
  proof (cases rule: converse_rtranclE)
    case (step z)
    then obtain r where "r \<in> set ?t" "rt_parent r = Some (rt_id a)" by (auto simp: successor_def)
    then obtain q where q: "q \<in> set ?t" "rt_id q = rt_id a" "rt_revoked q \<noteq> None" by (rule families_parent[OF ok])
    then show ?thesis using distinct_id[OF families_distinct[OF ok] q(1) a(1) q(2)] a(2) by simp
  qed simp
  ultimately have "rt_id x = rt_id y" using last[of x y] last[of y x] assms(2-5) by auto
  then show ?thesis using distinct_id[OF families_distinct[OF ok] assms(2,3)] by simp
qed

section \<open>A retried rotation\<close>

lemma successorId_cong: "rt_token_id r' = rt_token_id r \<Longrightarrow> successorId env r' q = successorId env r q"
  by (simp only: successorId_def)

lemma find_last: "\<forall>r \<in> set t. \<not> P r \<Longrightarrow> P c \<Longrightarrow> List.find P (t @ [c]) = Some c"
  by (induction t) auto

lemma find_map: "(\<And>r. P (f r) = P r) \<Longrightarrow> List.find P (map f t) = map_option f (List.find P t)"
  by (induction t) auto

text \<open>
  C15: a lost answer is not a lost session. When a rotation asked with a request id has committed and its answer
  never arrived, asking again with the same id, while neither token has expired and the new one has not been idle
  too long, gives the very same token and changes nothing; bcrypt is assumed to accept what it hashed.
\<close>

theorem retried_rotation_recovers:
  assumes "rotateRefreshToken env now rowId fresh salt i (Some q) t = Some (token, t')"
    and "row_with_id i t = Some r" and "rt_revoked r = None" and "q \<noteq> []"
    and "token_compare env token (token_hash env salt token)"
    and "now \<le> now'" and "now' < rt_expires r" and "now' < (now div 1000 + refresh_ttl env) * 1000" and "now' - now \<le> max_idle_ms env"
  shows "rotateRefreshToken env now' rowId' fresh' salt' i (Some q) t' = Some (token, t')"
  using assms(1)
proof (cases rule: rotate_cases)
  case (again r')
  then show ?thesis using assms(2,3) by simp
next
  case (new r' u tid)
  have r': "r' = r" using new(1) assms(2) by simp
  have tid: "successorId env r (Some q) = Some tid" using new(4) assms(4) by (simp add: successorId_def r' Let_def)
  obtain c where c: "u = t @ [c]" "rt_id c = rowId" "rowId \<notin> set (map rt_id t)" "tid \<notin> set (map rt_token_id t)"
    "rt_parent c = Some i" "rt_user c = rt_user r" "rt_device c = rt_device r" "rt_revoked c = None" "rt_token_id c = tid"
    "rt_hash c = token_hash env salt token" "token = jwt_sign env (issued_claims env now (rt_user r) (rt_device r) tid)"
    "rt_expires c = (now div 1000 + refresh_ttl env) * 1000" "rt_last_used c = Some now"
    using new(5) unfolding r' by (rule issue_row)
  let ?f = "\<lambda>x. if rt_id x = i then x\<lparr>rt_revoked := Some now\<rparr> else x"
  have t': "t' = map ?f (t @ [c])" by (simp add: new(6) c(1) revoke_id_def)
  have i: "r \<in> set t" "rt_id r = i" using row_with_id_Some[OF assms(2)] by simp_all
  then have ci: "rt_id c \<noteq> i" using c(2,3) by auto
  have "row_with_id i (t @ [c]) = Some r" using assms(2) ci by (induction t) (auto simp: row_with_id_def split: if_splits)
  then have parent: "row_with_id i t' = Some (r\<lparr>rt_revoked := Some now\<rparr>)"
    unfolding row_with_id_def t' by (subst find_map) (simp_all add: i(2))
  have "List.find (\<lambda>x. rt_token_id x = tid \<and> rt_parent x = Some i) (t @ [c]) = Some c"
    by (rule find_last) (use c in \<open>auto simp: image_iff\<close>)
  then have child: "List.find (\<lambda>x. rt_token_id x = tid \<and> rt_parent x = Some i) t' = Some c"
    unfolding t' by (subst find_map) (simp_all add: ci)
  have same: "successorId env (r\<lparr>rt_revoked := Some now\<rparr>) (Some q) = Some tid"
    using tid successorId_cong[of "r\<lparr>rt_revoked := Some now\<rparr>" r env "Some q"] by simp
  have claims: "\<lparr>cl_sub = rt_user c, cl_device = rt_device c, cl_jti = rt_token_id c, cl_exp = rt_expires c div 1000\<rparr>
      = issued_claims env now (rt_user r) (rt_device r) tid"
    by (simp add: issued_claims_def c(6,7,9,12))
  have "recoverRotation env now' (r\<lparr>rt_revoked := Some now\<rparr>) (Some q) t' = Some token"
    using child i(2) c(8) assms(5,6,8,9) c(10) claims[folded c(11)] c(11)
    by (simp add: recoverRotation_def same idle_def c(6,7,12,13) Let_def)
  then show ?thesis using parent assms(7) by (simp add: rotateRefreshToken_def)
qed

section \<open>What detected reuse revokes\<close>

text \<open>The call \<open>i\<close> after its device-wide update has seen \<open>ids\<close>.\<close>

definition sweeping :: "nat \<Rightarrow> rt_row \<Rightarrow> string list \<Rightarrow> token_system \<Rightarrow> bool" where
  "sweeping i r ids sys \<longleftrightarrow> i < length (ts_calls sys) \<and> (\<exists>c raw q pc. ts_calls sys ! i = VerifyToken c raw q (Some r, ids) pc
     \<and> (pc = TRevoke \<or> pc = TDone TokenThrew
        \<or> pc = TDone ReuseDetected \<and> (\<forall>x \<in> set (ts_rows sys). rt_id x \<in> set ids \<longrightarrow> rt_revoked x \<noteq> None)))"

lemma revoked_stays:
  assumes "tokens_updated t t'" "\<forall>x \<in> set t. rt_id x \<in> S \<longrightarrow> rt_revoked x \<noteq> None"
  shows "\<forall>x \<in> set t'. rt_id x \<in> S \<longrightarrow> rt_revoked x \<noteq> None"
proof (intro ballI impI)
  fix x assume x: "x \<in> set t'" "rt_id x \<in> S"
  obtain y where "y \<in> set t" "token_kept y x" using tokens_updated_back[OF assms(1) x(1)] by blast
  then show "rt_revoked x \<noteq> None" using assms(2) x(2) token_keptD[of y x] by metis
qed

lemma revoke_seen_all: "\<forall>x \<in> set (revoke_seen now ids t). rt_id x \<in> set ids \<longrightarrow> rt_revoked x \<noteq> None"
  by (auto simp: revoke_seen_def)

text \<open>New rows have new ids.\<close>

definition rows_grow :: "rt_row list \<Rightarrow> rt_row list \<Rightarrow> bool" where
  "rows_grow t t' \<longleftrightarrow> (\<exists>u new. tokens_updated t u \<and> t' = u @ new \<and> (\<forall>x \<in> set new. rt_id x \<notin> set (map rt_id t)))"

lemma grow_refl: "rows_grow t t"
  unfolding rows_grow_def by (intro exI[of _ t] exI[of _ "[]"]) simp

lemma grow_updated: "tokens_updated t t' \<Longrightarrow> rows_grow t t'"
  unfolding rows_grow_def by (intro exI[of _ t'] exI[of _ "[]"]) simp

lemma grow_issue: "issueRefreshToken env now rowId salt user device p tid t = Some (token, t') \<Longrightarrow> rows_grow t t'"
  unfolding rows_grow_def by (erule issue_row) (rule exI[of _ t], rule exI, rule conjI[OF tokens_updated_refl], rule conjI, assumption, simp)

lemma grow_rotate:
  assumes "rotateRefreshToken env now rowId fresh salt i q t = Some (token, t')"
  shows "rows_grow t t'"
  using assms
proof (cases rule: rotate_cases)
  case (again r)
  then show ?thesis by (simp add: grow_refl)
next
  case (new r u tid)
  obtain c where c: "u = t @ [c]" "rt_id c = rowId" "rowId \<notin> set (map rt_id t)" using new(5) by (rule issue_row)
  have "t' = revoke_id now i t @ revoke_id now i [c]" by (simp add: new(6) c(1) revoke_id_def)
  moreover have "\<forall>x \<in> set (revoke_id now i [c]). rt_id x \<notin> set (map rt_id t)" using c by (auto simp: revoke_id_def)
  ultimately show ?thesis unfolding rows_grow_def using token_updates(5)[of t now i] by blast
qed

lemma step_grows: "token_step env sys sys' \<Longrightarrow> rows_grow (ts_rows sys) (ts_rows sys')"
proof (induction rule: token_step.induct)
  case (goes_on i sys fails c sys')
  then show ?case using grow_updated move_token_updates[OF goes_on(2)] by simp
qed (auto intro: grow_refl grow_rotate grow_issue)

lemma grow_revoked:
  assumes g: "rows_grow t t'" and S: "S \<subseteq> set (map rt_id t)" and old: "\<forall>x \<in> set t. rt_id x \<in> S \<longrightarrow> rt_revoked x \<noteq> None"
  shows "\<forall>x \<in> set t'. rt_id x \<in> S \<longrightarrow> rt_revoked x \<noteq> None"
proof -
  obtain u new where u: "tokens_updated t u" "t' = u @ new" "\<forall>x \<in> set new. rt_id x \<notin> set (map rt_id t)"
    using g by (auto simp: rows_grow_def)
  show ?thesis using revoked_stays[OF u(1) old] u(2,3) S by auto
qed

lemma grow_ids: "rows_grow t t' \<Longrightarrow> set (map rt_id t) \<subseteq> set (map rt_id t')"
  unfolding rows_grow_def using tokens_updated_ids by (metis Un_upper1 map_append set_append)

lemma sweep_call:
  assumes m: "move_token env fails (VerifyToken c raw q (Some r, ids) pc) sys = (c', sys')" and pc: "pc = TRevoke \<or> (\<exists>x. pc = TDone x)"
  shows "\<exists>pc'. c' = VerifyToken c raw q (Some r, ids) pc' \<and> (pc' = pc \<and> sys' = sys \<or> pc' = TDone TokenThrew
    \<or> pc = TRevoke \<and> pc' = TDone ReuseDetected \<and> ts_rows sys' = revoke_seen (ts_clock sys) ids (ts_rows sys))"
  using assms by (cases fails) auto

lemma sweeping_step:
  assumes sw: "sweeping i r ids sys" and ids: "set ids \<subseteq> set (map rt_id (ts_rows sys))" and step: "token_step env sys sys'"
  shows "sweeping i r ids sys'"
proof -
  obtain c raw q pc where i: "i < length (ts_calls sys)" "ts_calls sys ! i = VerifyToken c raw q (Some r, ids) pc"
    and pc: "pc = TRevoke \<or> pc = TDone TokenThrew
      \<or> pc = TDone ReuseDetected \<and> (\<forall>x \<in> set (ts_rows sys). rt_id x \<in> set ids \<longrightarrow> rt_revoked x \<noteq> None)"
    using sw by (auto simp: sweeping_def)
  have stays: "pc = TRevoke \<or> pc = TDone TokenThrew
      \<or> pc = TDone ReuseDetected \<and> (\<forall>x \<in> set (ts_rows sys'). rt_id x \<in> set ids \<longrightarrow> rt_revoked x \<noteq> None)"
    using pc grow_revoked[OF step_grows[OF step] ids] by blast
  from step show ?thesis
  proof (cases rule: token_step.cases)
    case (goes_on j fails c' s')
    show ?thesis
    proof (cases "j = i")
      case False
      then have "ts_calls sys' ! i = VerifyToken c raw q (Some r, ids) pc" "i < length (ts_calls sys')" using goes_on i by simp_all
      then show ?thesis unfolding sweeping_def using stays by blast
    next
      case True
      have m: "move_token env fails (VerifyToken c raw q (Some r, ids) pc) sys = (c', s')" using goes_on True i(2) by simp
      have "pc = TRevoke \<or> (\<exists>x. pc = TDone x)" using pc by blast
      from sweep_call[OF m this] obtain pc' where c': "c' = VerifyToken c raw q (Some r, ids) pc'" and
        pc': "pc' = pc \<and> s' = sys \<or> pc' = TDone TokenThrew
          \<or> pc = TRevoke \<and> pc' = TDone ReuseDetected \<and> ts_rows s' = revoke_seen (ts_clock sys) ids (ts_rows sys)" by blast
      have "ts_calls sys' ! i = VerifyToken c raw q (Some r, ids) pc'" "i < length (ts_calls sys')" "ts_rows sys' = ts_rows s'"
        using goes_on True i c' by simp_all
      then show ?thesis unfolding sweeping_def using pc' pc revoke_seen_all by metis
    qed
  qed (use i stays in \<open>auto simp: sweeping_def nth_append\<close>)
qed

lemma sweeping_reachable:
  assumes "token_reachable env sys sys'" "sweeping i r ids sys" "set ids \<subseteq> set (map rt_id (ts_rows sys))"
  shows "sweeping i r ids sys' \<and> set ids \<subseteq> set (map rt_id (ts_rows sys'))"
  using assms(1)
proof induction
  case begins
  then show ?case using assms by blast
next
  case (steps s s')
  then show ?case using sweeping_step grow_ids[OF step_grows[OF steps(2)]] by blast
qed

text \<open>
  C23: reuse ends the device, as far as it was seen. When a verification has found a token used twice and its
  device-wide update has seen the tokens of that user and device, then once it answers reuse every one of those
  tokens is revoked, and stays so whatever else runs.
\<close>

theorem reuse_revokes_seen:
  assumes "token_reachable env sys sys'"
    and "i < length (ts_calls sys)"
    and "ts_calls sys ! i = VerifyToken c raw q (Some r, device_snapshot (rt_user r) (rt_device r) (ts_rows sys)) TRevoke"
    and "ts_calls sys' ! i = VerifyToken c raw q (Some r, device_snapshot (rt_user r) (rt_device r) (ts_rows sys)) (TDone ReuseDetected)"
    and "x \<in> set (ts_rows sys)" and "rt_user x = rt_user r" and "rt_device x = rt_device r"
    and "y \<in> set (ts_rows sys')" and "rt_id y = rt_id x"
  shows "rt_revoked y \<noteq> None"
proof -
  let ?ids = "device_snapshot (rt_user r) (rt_device r) (ts_rows sys)"
  have "sweeping i r ?ids sys" using assms(2,3) unfolding sweeping_def by blast
  moreover have "set ?ids \<subseteq> set (map rt_id (ts_rows sys))" by (auto simp: device_snapshot_def)
  ultimately have "sweeping i r ?ids sys'" using sweeping_reachable[OF assms(1)] by blast
  then have "\<forall>z \<in> set (ts_rows sys'). rt_id z \<in> set ?ids \<longrightarrow> rt_revoked z \<noteq> None"
    using assms(4) by (auto simp: sweeping_def)
  moreover have "rt_id x \<in> set ?ids" using assms(5-7) by (auto simp: device_snapshot_def)
  ultimately show ?thesis using assms(8,9) by simp
qed

section \<open>What it can miss\<close>

text \<open>A run as a list of events, for concrete systems.\<close>

datatype token_event =
    SignIn string string string
  | Rotate string string string "string option"
  | Present string "string option"
  | Go nat

definition present_rows :: "(string \<times> rt_row list) option \<Rightarrow> token_system \<Rightarrow> token_system option" where
  "present_rows r sys = map_option (\<lambda>(token, t). sys\<lparr>ts_rows := t\<rparr>) r"

fun do_event :: "token_env \<Rightarrow> token_event \<Rightarrow> token_system \<Rightarrow> token_system option" where
  "do_event env (SignIn rowId user fresh) sys =
     present_rows (issueRefreshToken env (ts_clock sys) rowId [] user ''phone'' None fresh (ts_rows sys)) sys"
| "do_event env (Rotate i rowId fresh q) sys =
     present_rows (rotateRefreshToken env (ts_clock sys) rowId fresh [] i q (ts_rows sys)) sys"
| "do_event env (Present raw q) sys = (case jwt_verify env (ts_clock sys) raw of
     None \<Rightarrow> None
   | Some c \<Rightarrow> if cl_jti c = [] then None
       else Some (sys\<lparr>ts_calls := ts_calls sys @ [VerifyToken c raw q (None, []) TSelect]\<rparr>))"
| "do_event env (Go i) sys = (if i < length (ts_calls sys)
     then (case move_token env False (ts_calls sys ! i) sys of (c, sys') \<Rightarrow> Some (sys'\<lparr>ts_calls := (ts_calls sys)[i := c]\<rparr>))
     else None)"

fun do_events :: "token_env \<Rightarrow> token_event list \<Rightarrow> token_system \<Rightarrow> token_system option" where
  "do_events env [] sys = Some sys"
| "do_events env (e # es) sys = (case do_event env e sys of None \<Rightarrow> None | Some sys' \<Rightarrow> do_events env es sys')"

lemma do_event_step: "do_event env e sys = Some sys' \<Longrightarrow> token_step env sys sys'"
  by (cases e) (auto simp: present_rows_def intro: token_step.intros split: option.splits if_splits prod.splits)

lemma do_events_reachable:
  "do_events env es sys = Some sys' \<Longrightarrow> token_reachable env sys0 sys \<Longrightarrow> token_reachable env sys0 sys'"
proof (induction es arbitrary: sys)
  case (Cons e es)
  obtain s where "do_event env e sys = Some s" "do_events env es s = Some sys'"
    using Cons.prems(1) by (auto split: option.splits)
  then show ?case using Cons.IH token_reachable.steps[OF Cons.prems(2) do_event_step] by blast
qed simp

definition sample_token_env :: token_env where
  "sample_token_env = \<lparr>jwt_sign = cl_jti, jwt_verify = \<lambda>now raw. Some \<lparr>cl_sub = ''ann'', cl_device = ''phone'', cl_jti = raw, cl_exp = 2000\<rparr>,
     token_hash = \<lambda>salt t. t, token_compare = \<lambda>t h. t = h, rotation_hmac = \<lambda>s. s, refresh_ttl = 1000, max_idle_ms = 60000\<rparr>"

definition missed_run :: "token_event list" where
  "missed_run = [SignIn ''a'' ''ann'' ''A'', Rotate ''a'' ''b'' ''B'' None,
     Present ''A'' None, Go 0, Go 0, Go 0, Go 0, Go 0, Rotate ''b'' ''c'' ''C'' None, Go 0]"

definition missed_end :: token_system where
  "missed_end = the (do_events sample_token_env missed_run (no_tokens 0))"

lemma successor_kept:
  assumes "tokens_updated t t'"
  shows "successor t \<subseteq> successor t'"
proof
  fix e assume "e \<in> successor t"
  then obtain p r where e: "e = (p, rt_id r)" "r \<in> set t" "rt_parent r = Some p" by (auto simp: successor_def)
  obtain q where "q \<in> set t'" "token_kept r q" using tokens_updatedD[OF assms e(2)] by blast
  then show "e \<in> successor t'" using e(1,3) token_keptD(1,2)[of r q] by (auto simp: successor_def intro!: exI[of _ q])
qed

text \<open>
  C32: detected reuse leaves a live token behind when a rotation is under way. Take any moment at which a verification has
  detected reuse of a token and its device-wide update has seen the tokens of the device, and let a rotation of a live
  descendant of the reused token, on the same device, commit now. Then the update, when it is applied, completes the
  verification with its answer that reuse was detected, and the successor that the rotation issued, a descendant of the
  reused token on that device, is still live: the update had not seen it, and the rotation does not look for a detected
  reuse of its family.
\<close>

theorem reuse_misses_successor:
  assumes "i < length (ts_calls sys)"
    and "ts_calls sys ! i = VerifyToken c raw q (Some r, device_snapshot (rt_user r) (rt_device r) (ts_rows sys)) TRevoke"
    and "row_with_id p (ts_rows sys) = Some pr" and "rt_revoked pr = None" and "rt_user pr = rt_user r" and "rt_device pr = rt_device r"
    and "(rt_id r, p) \<in> (successor (ts_rows sys))\<^sup>*"
    and "rotateRefreshToken env (ts_clock sys) rowId fresh salt p requestId (ts_rows sys) = Some (token, t)"
  shows "token_step env sys (sys\<lparr>ts_rows := t\<rparr>)
    \<and> (\<exists>sys' x. token_step env (sys\<lparr>ts_rows := t\<rparr>) sys'
      \<and> ts_calls sys' ! i = VerifyToken c raw q (Some r, device_snapshot (rt_user r) (rt_device r) (ts_rows sys)) (TDone ReuseDetected)
      \<and> ts_rows sys' = revoke_seen (ts_clock sys) (device_snapshot (rt_user r) (rt_device r) (ts_rows sys)) t
      \<and> x \<in> set (ts_rows sys') \<and> rt_id x = rowId \<and> rt_parent x = Some p \<and> (rt_id r, rowId) \<in> (successor (ts_rows sys'))\<^sup>+
      \<and> rt_user x = rt_user r \<and> rt_device x = rt_device r \<and> rt_revoked x = None)"
proof
  let ?ids = "device_snapshot (rt_user r) (rt_device r) (ts_rows sys)"
  let ?s = "sys\<lparr>ts_rows := t\<rparr>"
  let ?c = "VerifyToken c raw q (Some r, ?ids) (TDone ReuseDetected)"
  let ?rows = "revoke_seen (ts_clock sys) ?ids t"
  let ?e = "?s\<lparr>ts_rows := ?rows, ts_calls := (ts_calls sys)[i := ?c]\<rparr>"
  show "token_step env sys ?s" by (rule rotates[OF assms(8)])
  have "token_step env ?s ((?s\<lparr>ts_rows := ?rows\<rparr>)\<lparr>ts_calls := (ts_calls ?s)[i := ?c]\<rparr>)"
    by (rule goes_on[where fails = False]) (use assms(1,2) in simp_all)
  then have step: "token_step env ?s ?e" by simp
  obtain t' where new: "issueRefreshToken env (ts_clock sys) rowId salt (rt_user pr) (rt_device pr) (Some p)
        (case successorId env pr requestId of Some tid \<Rightarrow> tid | None \<Rightarrow> fresh) (ts_rows sys) = Some (token, t')"
      and t: "t = revoke_id (ts_clock sys) p t'"
    using assms(8) by (auto simp: rotateRefreshToken_def assms(3,4) Let_def split: if_splits)
  obtain n where n: "t' = ts_rows sys @ [n]" "rt_id n = rowId" "rowId \<notin> set (map rt_id (ts_rows sys))" "rt_parent n = Some p"
      "rt_user n = rt_user r" "rt_device n = rt_device r" "rt_revoked n = None"
    using issue_row[OF new] assms(5,6) by metis
  have "p \<in> set (map rt_id (ts_rows sys))" using row_with_id_Some[OF assms(3)] by force
  then have "n \<in> set t" using n by (auto simp: t revoke_id_def)
  moreover have "rowId \<notin> set ?ids" using n(3) by (auto simp: device_snapshot_def)
  ultimately have x: "n \<in> set ?rows" using n(2) by (auto simp: revoke_seen_def)
  have keep: "successor (ts_rows sys) \<subseteq> successor ?rows"
  proof -
    have "successor (ts_rows sys) \<subseteq> successor t'" by (auto simp: successor_def n(1))
    also have "\<dots> \<subseteq> successor t" unfolding t by (rule successor_kept) (rule token_updates)
    also have "\<dots> \<subseteq> successor ?rows" by (rule successor_kept) (rule token_updates)
    finally show ?thesis .
  qed
  have "(p, rowId) \<in> successor ?rows" using x n by (auto simp: successor_def)
  then have chain: "(rt_id r, rowId) \<in> (successor ?rows)\<^sup>+"
    using rtrancl_into_trancl1[OF rtrancl_mono[OF keep, THEN subsetD, OF assms(7)]] by blast
  show "\<exists>sys' x. token_step env ?s sys' \<and> ts_calls sys' ! i = ?c \<and> ts_rows sys' = ?rows
      \<and> x \<in> set (ts_rows sys') \<and> rt_id x = rowId \<and> rt_parent x = Some p \<and> (rt_id r, rowId) \<in> (successor (ts_rows sys'))\<^sup>+
      \<and> rt_user x = rt_user r \<and> rt_device x = rt_device r \<and> rt_revoked x = None"
    by (rule exI[of _ ?e], rule exI[of _ n]) (use step x n chain assms(1) in simp)
qed

section \<open>What the stored hash checks\<close>

text \<open>A signed token is three parts of base64url text joined by dots, the second one the claims in the order they are
  given, and bcrypt looks at the first 72 bytes of what it is given.\<close>

definition b64_char :: "nat \<Rightarrow> char" where
  "b64_char n = (''ABCDEFGHIJKLMNOPQRSTUVWXYZabcdefghijklmnopqrstuvwxyz0123456789-_'') ! (n mod 64)"

fun base64url :: "nat list \<Rightarrow> string" where
  "base64url (a # b # c # s) = [b64_char (a div 4), b64_char (a mod 4 * 16 + b div 16), b64_char (b mod 16 * 4 + c div 64), b64_char (c mod 64)]
     @ base64url s"
| "base64url [a, b] = [b64_char (a div 4), b64_char (a mod 4 * 16 + b div 16), b64_char (b mod 16 * 4)]"
| "base64url [a] = [b64_char (a div 4), b64_char (a mod 4 * 16)]"
| "base64url [] = []"

definition claims_json :: "claims \<Rightarrow> string \<Rightarrow> string" where
  "claims_json c rest = ''{'' @ [CHR 0x22] @ ''sub'' @ [CHR 0x22, CHR '':'', CHR 0x22] @ cl_sub c @ CHR 0x22 # rest"

definition jwt_layout :: "token_env \<Rightarrow> bool" where
  "jwt_layout env \<longleftrightarrow> (\<forall>c. \<exists>rest signature. jwt_sign env c = base64url (map of_char (''{'' @ [CHR 0x22] @ ''alg'' @ [CHR 0x22, CHR '':'', CHR 0x22]
       @ ''HS256'' @ [CHR 0x22, CHR '','', CHR 0x22] @ ''typ'' @ [CHR 0x22, CHR '':'', CHR 0x22] @ ''JWT'' @ [CHR 0x22] @ ''}''))
     @ CHR ''.'' # base64url (map of_char (claims_json c rest)) @ CHR ''.'' # signature)"

definition bcrypt_72 :: "token_env \<Rightarrow> bool" where
  "bcrypt_72 env \<longleftrightarrow> (\<forall>salt t t'. token_compare env t' (token_hash env salt t) = (take 72 t' = take 72 t))"

lemma base64_append: "length xs mod 3 = 0 \<Longrightarrow> base64url (xs @ ys) = base64url xs @ base64url ys"
  by (induction xs rule: base64url.induct) auto

lemma base64_length: "length xs mod 3 = 0 \<Longrightarrow> length (base64url xs) = length xs div 3 * 4"
  by (induction xs rule: base64url.induct) auto

lemma user_prefix:
  assumes "length (cl_sub c) = 36"
  obtains rest' where "map of_char (claims_json c rest)
      = (map of_char (''{'' @ [CHR 0x22] @ ''sub'' @ [CHR 0x22, CHR '':'', CHR 0x22] @ take 34 (cl_sub c)) :: nat list) @ rest'"
proof -
  have "cl_sub c = take 34 (cl_sub c) @ drop 34 (cl_sub c)" by simp
  then have "claims_json c rest = (''{'' @ [CHR 0x22] @ ''sub'' @ [CHR 0x22, CHR '':'', CHR 0x22] @ take 34 (cl_sub c)) @ drop 34 (cl_sub c) @ CHR 0x22 # rest"
    unfolding claims_json_def by (metis append.assoc)
  then show thesis by (intro that[of "map of_char (drop 34 (cl_sub c) @ CHR 0x22 # rest)"]) (simp only: map_append)
qed

lemma same_user_same_prefix:
  assumes "jwt_layout env" "length (cl_sub c) = 36" "cl_sub c' = cl_sub c"
  shows "take 72 (jwt_sign env c) = take 72 (jwt_sign env c')"
proof -
  let ?p = "map of_char (''{'' @ [CHR 0x22] @ ''sub'' @ [CHR 0x22, CHR '':'', CHR 0x22] @ take 34 (cl_sub c)) :: nat list"
  have p: "length ?p = 42" using assms(2) by simp
  obtain h where h: "length h = 36" "\<And>c. \<exists>rest signature. jwt_sign env c = h @ CHR ''.'' # base64url (map of_char (claims_json c rest)) @ CHR ''.'' # signature"
  proof -
    let ?h = "base64url (map of_char (''{'' @ [CHR 0x22] @ ''alg'' @ [CHR 0x22, CHR '':'', CHR 0x22]
       @ ''HS256'' @ [CHR 0x22, CHR '','', CHR 0x22] @ ''typ'' @ [CHR 0x22, CHR '':'', CHR 0x22] @ ''JWT'' @ [CHR 0x22] @ ''}''))"
    have "length ?h = 36" by (subst base64_length) simp_all
    then show thesis using assms(1) unfolding jwt_layout_def by (intro that[of ?h]) simp_all
  qed
  have cut: "take 72 (jwt_sign env d) = h @ CHR ''.'' # take 35 (base64url ?p)" if d: "cl_sub d = cl_sub c" for d
  proof -
    obtain rest sig where s: "jwt_sign env d = h @ CHR ''.'' # base64url (map of_char (claims_json d rest)) @ CHR ''.'' # sig" using h(2) by blast
    obtain rest' where r: "map of_char (claims_json d rest) = (map of_char (''{'' @ [CHR 0x22] @ ''sub'' @ [CHR 0x22, CHR '':'', CHR 0x22] @ take 34 (cl_sub d)) :: nat list) @ rest'"
      by (rule user_prefix[of d rest]) (use assms(2) d in simp)
    have "base64url (map of_char (claims_json d rest)) = base64url ?p @ base64url rest'"
      unfolding r d by (rule base64_append) (simp add: assms(2))
    moreover have "length (base64url ?p) = 56" using p by (subst base64_length) simp_all
    ultimately show ?thesis using h(1) s by simp
  qed
  show ?thesis using cut[of c] cut[of c'] assms(3) by simp
qed

text \<open>
  The stored hash does not tell the tokens of a user apart. bcrypt reads 72 bytes, and the first 72 of a signed token are
  its header and part of the user's id; so the comparison with the hash of any other token of the user succeeds, and a
  presented token is never found to be reused because its hash differs.
\<close>

theorem hash_same_for_user:
  assumes "jwt_layout env" and "bcrypt_72 env" and "length (cl_sub c) = 36" and "cl_sub c' = cl_sub c"
    and "rt_hash r = token_hash env salt (jwt_sign env c')"
  shows "fst (snd (token_next env now False c (jwt_sign env c) q (Some r, ids) TCompare t)) \<noteq> TFlag"
proof -
  have "token_compare env (jwt_sign env c) (rt_hash r)"
    using same_user_same_prefix[OF assms(1,3,4)] assms(2,5) by (simp add: bcrypt_72_def)
  then show ?thesis by simp
qed

definition layout_env :: token_env where
  "layout_env = \<lparr>jwt_sign = \<lambda>c. base64url (map of_char (''{'' @ [CHR 0x22] @ ''alg'' @ [CHR 0x22, CHR '':'', CHR 0x22]
       @ ''HS256'' @ [CHR 0x22, CHR '','', CHR 0x22] @ ''typ'' @ [CHR 0x22, CHR '':'', CHR 0x22] @ ''JWT'' @ [CHR 0x22] @ ''}''))
     @ CHR ''.'' # base64url (map of_char (claims_json c (CHR '','' # cl_jti c))) @ CHR ''.'' # cl_jti c,
     jwt_verify = \<lambda>now raw. None, token_hash = \<lambda>salt t. take 72 t, token_compare = \<lambda>t h. take 72 t = h, rotation_hmac = \<lambda>s. s,
     refresh_ttl = 1000, max_idle_ms = 60000\<rparr>"

end
