(* ===== verification/TokenSamples.thy ===== *)
theory TokenSamples
  imports TokenProps
begin

text \<open>Concrete runs of the refresh tokens, on which the properties of \<open>TokenProps\<close> apply.\<close>

lemma missed_end_Some: "do_events sample_token_env missed_run (no_tokens 0) = Some missed_end"
proof -
  have "do_events sample_token_env missed_run (no_tokens 0) \<noteq> None" by code_simp
  then show ?thesis by (simp add: missed_end_def)
qed

lemma missed_end_reachable: "token_reachable sample_token_env (no_tokens 0) missed_end"
  by (rule do_events_reachable[OF missed_end_Some token_reachable.begins])

definition row_a :: rt_row where
  "row_a = \<lparr>rt_id = ''a'', rt_user = ''ann'', rt_device = ''phone'', rt_token_id = ''A'', rt_hash = ''A'', rt_expires = 1000000,
     rt_last_used = Some 0, rt_revoked = Some 0, rt_reuse = None, rt_parent = None\<rparr>"

definition row_a_flagged :: rt_row where
  "row_a_flagged = \<lparr>rt_id = ''a'', rt_user = ''ann'', rt_device = ''phone'', rt_token_id = ''A'', rt_hash = ''A'', rt_expires = 1000000,
     rt_last_used = Some 0, rt_revoked = Some 0, rt_reuse = Some 0, rt_parent = None\<rparr>"

definition row_b :: "int option \<Rightarrow> rt_row" where
  "row_b revoked = \<lparr>rt_id = ''b'', rt_user = ''ann'', rt_device = ''phone'', rt_token_id = ''B'', rt_hash = ''B'', rt_expires = 1000000,
     rt_last_used = Some 0, rt_revoked = revoked, rt_reuse = None, rt_parent = Some ''a''\<rparr>"

definition row_c :: rt_row where
  "row_c = \<lparr>rt_id = ''c'', rt_user = ''ann'', rt_device = ''phone'', rt_token_id = ''C'', rt_hash = ''C'', rt_expires = 1000000,
     rt_last_used = Some 0, rt_revoked = None, rt_reuse = None, rt_parent = Some ''b''\<rparr>"

lemma missed_rows: "ts_rows missed_end = [row_a_flagged, row_b (Some 0), row_c]"
  by code_simp

lemma missed_family: "(''a'', ''c'') \<in> (successor (ts_rows missed_end))\<^sup>*"
proof -
  have "(''a'', ''b'') \<in> successor (ts_rows missed_end)" "(''b'', ''c'') \<in> successor (ts_rows missed_end)"
    unfolding successor_def missed_rows mem_Collect_eq
    by (rule exI[of _ "''a''"], rule exI[of _ "row_b (Some 0)"], simp add: row_b_def)
      (rule exI[of _ "''b''"], rule exI[of _ row_c], simp add: row_c_def)
  then show ?thesis by (meson rtrancl.rtrancl_refl rtrancl_into_rtrancl)
qed

lemma one_live_token_witness:
  "token_reachable sample_token_env (no_tokens 0) missed_end \<and> rt_revoked row_c = None
    \<and> (''a'', rt_id row_c) \<in> (successor (ts_rows missed_end))\<^sup>* \<and> row_c = last (ts_rows missed_end)"
proof -
  have "row_c = last (ts_rows missed_end)"
    by (rule one_live_token[OF missed_end_reachable, where origin = "''a''"])
      (use missed_family in \<open>simp_all add: missed_rows row_c_def\<close>)
  moreover have "rt_revoked row_c = None" "rt_id row_c = ''c''" by (simp_all add: row_c_def)
  ultimately show ?thesis using missed_end_reachable missed_family by simp
qed

definition signed_in :: "rt_row list" where
  "signed_in = [row_a\<lparr>rt_revoked := None\<rparr>]"

definition rotated_rows :: "rt_row list" where
  "rotated_rows = (case rotateRefreshToken sample_token_env 7 ''b'' ''B'' [] ''a'' (Some ''Q'') signed_in of Some (x, t) \<Rightarrow> t | None \<Rightarrow> [])"

lemma first_rotation: "rotateRefreshToken sample_token_env 7 ''b'' ''B'' [] ''a'' (Some ''Q'') signed_in
    = Some (''refresh--rota-tion--v1:-A:Q'', rotated_rows)"
  by code_simp

lemma retried_rotation_recovers_witness:
  "rotateRefreshToken sample_token_env 9 ''x'' ''X'' [] ''a'' (Some ''Q'') rotated_rows = Some (''refresh--rota-tion--v1:-A:Q'', rotated_rows)"
proof -
  have "row_with_id ''a'' signed_in = Some (row_a\<lparr>rt_revoked := None\<rparr>)" by code_simp
  from retried_rotation_recovers[OF first_rotation this] show ?thesis
    by (simp add: row_a_def sample_token_env_def)
qed

definition sweep_start :: token_system where
  "sweep_start = the (do_events sample_token_env (take 8 missed_run) (no_tokens 0))"

lemma sweep_start_Some: "do_events sample_token_env (take 8 missed_run) (no_tokens 0) = Some sweep_start"
proof -
  have "do_events sample_token_env (take 8 missed_run) (no_tokens 0) \<noteq> None" by code_simp
  then show ?thesis by (simp add: sweep_start_def)
qed

lemma sweep_to_end: "token_reachable sample_token_env sweep_start missed_end"
proof -
  have "do_events sample_token_env (drop 8 missed_run) sweep_start \<noteq> None"
    "do_events sample_token_env (drop 8 missed_run) sweep_start \<noteq> None \<Longrightarrow> the (do_events sample_token_env (drop 8 missed_run) sweep_start) = missed_end"
    by code_simp+
  then have "do_events sample_token_env (drop 8 missed_run) sweep_start = Some missed_end" by auto
  then show ?thesis by (rule do_events_reachable) (rule token_reachable.begins)
qed

lemma reuse_revokes_seen_witness:
  "row_b None \<in> set (ts_rows sweep_start) \<and> row_b (Some 0) \<in> set (ts_rows missed_end) \<and> rt_revoked (row_b (Some 0)) \<noteq> None"
proof -
  let ?c = "\<lparr>cl_sub = ''ann'', cl_device = ''phone'', cl_jti = ''A'', cl_exp = 2000\<rparr>"
  have len: "0 < length (ts_calls sweep_start)" by code_simp
  have pre: "ts_calls sweep_start ! 0 = VerifyToken ?c ''A'' None
    (Some row_a, device_snapshot (rt_user row_a) (rt_device row_a) (ts_rows sweep_start)) TRevoke" by code_simp
  have post: "ts_calls missed_end ! 0 = VerifyToken ?c ''A'' None
    (Some row_a, device_snapshot (rt_user row_a) (rt_device row_a) (ts_rows sweep_start)) (TDone ReuseDetected)" by code_simp
  have rows: "ts_rows sweep_start = [row_a_flagged, row_b None]" by code_simp
  have "rt_revoked (row_b (Some 0)) \<noteq> None"
    by (rule reuse_revokes_seen[OF sweep_to_end len pre post, where x = "row_b None"])
      (simp_all add: rows missed_rows row_a_def row_b_def)
  then show ?thesis by (simp add: rows missed_rows)
qed

text \<open>A run from an empty table: the used token ''A'' is presented again while ''B'', its successor, is rotated to ''C''.\<close>

lemma reuse_misses_successor_witness:
  "token_reachable sample_token_env (no_tokens 0) sweep_start \<and> row_a_flagged \<in> set (ts_rows sweep_start)
    \<and> (\<exists>sys'. token_reachable sample_token_env (no_tokens 0) sys'
      \<and> (\<exists>v. ts_calls sys' ! 0 = VerifyToken \<lparr>cl_sub = ''ann'', cl_device = ''phone'', cl_jti = ''A'', cl_exp = 2000\<rparr> ''A'' None v (TDone ReuseDetected))
      \<and> (\<exists>x \<in> set (ts_rows sys'). rt_id x = ''c'' \<and> (''a'', ''c'') \<in> (successor (ts_rows sys'))\<^sup>+ \<and> rt_revoked x = None))"
proof -
  let ?c = "\<lparr>cl_sub = ''ann'', cl_device = ''phone'', cl_jti = ''A'', cl_exp = 2000\<rparr>"
  have start: "token_reachable sample_token_env (no_tokens 0) sweep_start"
    by (rule do_events_reachable[OF sweep_start_Some]) (rule token_reachable.begins)
  have len: "0 < length (ts_calls sweep_start)" by code_simp
  have pre: "ts_calls sweep_start ! 0 = VerifyToken ?c ''A'' None
    (Some row_a, device_snapshot (rt_user row_a) (rt_device row_a) (ts_rows sweep_start)) TRevoke" by code_simp
  have rows: "ts_rows sweep_start = [row_a_flagged, row_b None]" by code_simp
  have row: "row_with_id ''b'' (ts_rows sweep_start) = Some (row_b None)" by (simp add: rows row_with_id_def row_a_flagged_def row_b_def)
  have fields: "rt_revoked (row_b None) = None" "rt_user (row_b None) = rt_user row_a" "rt_device (row_b None) = rt_device row_a"
    by (simp_all add: row_a_def row_b_def)
  have "(rt_id row_a, ''b'') \<in> successor (ts_rows sweep_start)" unfolding successor_def mem_Collect_eq rows
    by (intro exI[of _ "''a''"] exI[of _ "row_b None"]) (simp add: row_a_def row_b_def)
  then have chain: "(rt_id row_a, ''b'') \<in> (successor (ts_rows sweep_start))\<^sup>*" by (rule r_into_rtrancl)
  have "rotateRefreshToken sample_token_env (ts_clock sweep_start) ''c'' ''C'' [] ''b'' None (ts_rows sweep_start) \<noteq> None"
    by code_simp
  then obtain token t where rot: "rotateRefreshToken sample_token_env (ts_clock sweep_start) ''c'' ''C'' [] ''b'' None (ts_rows sweep_start) = Some (token, t)"
    by auto
  have id: "rt_id row_a = ''a''" by (simp add: row_a_def)
  from reuse_misses_successor[OF len pre row fields chain rot] obtain sys' x where
    steps: "token_step sample_token_env sweep_start (sweep_start\<lparr>ts_rows := t\<rparr>)" "token_step sample_token_env (sweep_start\<lparr>ts_rows := t\<rparr>) sys'"
    and res: "ts_calls sys' ! 0 = VerifyToken ?c ''A'' None
        (Some row_a, device_snapshot (rt_user row_a) (rt_device row_a) (ts_rows sweep_start)) (TDone ReuseDetected)"
      "x \<in> set (ts_rows sys')" "rt_id x = ''c''" "(''a'', ''c'') \<in> (successor (ts_rows sys'))\<^sup>+" "rt_revoked x = None"
    unfolding id by blast
  have "token_reachable sample_token_env (no_tokens 0) sys'"
    by (rule token_reachable.steps[OF token_reachable.steps[OF start steps(1)] steps(2)])
  then show ?thesis using start res rows by auto
qed

definition ann_claims :: "string \<Rightarrow> claims" where
  "ann_claims j = \<lparr>cl_sub = replicate 36 CHR ''7'', cl_device = ''phone'', cl_jti = j, cl_exp = 2000\<rparr>"

lemma layout_env_ok: "jwt_layout layout_env" "bcrypt_72 layout_env"
proof -
  show "jwt_layout layout_env" unfolding jwt_layout_def
  proof
    fix c :: claims
    show "\<exists>rest signature. jwt_sign layout_env c = base64url (map of_char (''{'' @ [CHR 0x22] @ ''alg'' @ [CHR 0x22, CHR '':'', CHR 0x22]
       @ ''HS256'' @ [CHR 0x22, CHR '','', CHR 0x22] @ ''typ'' @ [CHR 0x22, CHR '':'', CHR 0x22] @ ''JWT'' @ [CHR 0x22] @ ''}''))
     @ CHR ''.'' # base64url (map of_char (claims_json c rest)) @ CHR ''.'' # signature"
      by (rule exI[of _ "CHR '','' # cl_jti c"], rule exI[of _ "cl_jti c"]) (simp only: layout_env_def token_env.simps)
  qed
  show "bcrypt_72 layout_env" by (simp add: bcrypt_72_def layout_env_def)
qed

lemma hash_same_for_user_witness:
  "fst (snd (token_next layout_env 0 False (ann_claims ''A'') (jwt_sign layout_env (ann_claims ''A'')) None
      (Some (row_a\<lparr>rt_hash := token_hash layout_env [] (jwt_sign layout_env (ann_claims ''B''))\<rparr>), []) TCompare [])) \<noteq> TFlag"
  by (rule hash_same_for_user[OF layout_env_ok, where c' = "ann_claims ''B''" and salt = "[]"]) (simp_all add: ann_claims_def)

end
