(* ===== verification/AccessProps.thy ===== *)
theory AccessProps
  imports AccessTokens TokenSamples
begin

text \<open>
  Access tokens: a signed token is accepted until it expires, also across a rotation of keys; both checks of a
  session agree; and after a logout everywhere every earlier token is refused.
\<close>

section \<open>Versions only grow\<close>

definition version_num :: "int option \<Rightarrow> int" where
  "version_num v = (case v of None \<Rightarrow> 1 | Some n \<Rightarrow> n)"

text \<open>The same users, their versions at least as high, that of \<open>user\<close> higher by at least \<open>k\<close>.\<close>

definition versions_grown :: "string \<Rightarrow> int \<Rightarrow> (string \<times> int option) list \<Rightarrow> (string \<times> int option) list \<Rightarrow> bool" where
  "versions_grown user k t t' \<longleftrightarrow> list_all2 (\<lambda>a b. fst a = fst b \<and> version_num (snd a) + (if fst a = user then k else 0) \<le> version_num (snd b)) t t'"

lemma versions_refl: "versions_grown user 0 t t"
  by (simp add: versions_grown_def list_all2_same)

lemma versions_trans: "versions_grown user k t u \<Longrightarrow> versions_grown user l u v \<Longrightarrow> versions_grown user (k + l) t v"
  unfolding versions_grown_def by (rule list_all2_trans[rotated 1]) (assumption | auto split: if_splits)+

lemma versions_bump: "versions_grown user (if u = user then 1 else 0) t (bump_version u t)"
proof -
  let ?b = "\<lambda>(w, v). if w = u then (w, Some (version_num v + 1)) else (w, v)"
  have "bump_version u t = map ?b t" by (auto simp: bump_version_def version_num_def)
  then show ?thesis by (simp add: versions_grown_def list.rel_map list_all2_same) (auto simp: version_num_def)
qed

lemma versions_weak: "versions_grown user k t u \<Longrightarrow> l \<le> k \<Longrightarrow> versions_grown user l t u"
  unfolding versions_grown_def by (erule list_all2_mono) (auto split: if_splits)

lemma revoke_next_grows:
  assumes "revoke_next now u d pc sys = (pc', sys')"
  shows "versions_grown user (if u = user \<and> pc' = RDone \<and> d = None \<and> pc \<noteq> RDone then 1 else 0) (ts_versions sys) (ts_versions sys')"
  using assms versions_bump[of user u "ts_versions sys"]
  by (cases pc) (auto simp: versions_refl split: if_splits intro: versions_weak)

text \<open>What a step does to the revocation \<open>i\<close> of a user and to the versions.\<close>

definition logout_pc :: "nat \<Rightarrow> string \<Rightarrow> token_system \<Rightarrow> revoke_pc option" where
  "logout_pc i user sys = (if i < length (ts_calls sys)
     then (case ts_calls sys ! i of RevokeMany u None pc \<Rightarrow> if u = user then Some pc else None | _ \<Rightarrow> None) else None)"

lemma logout_pc_Some: "logout_pc i user sys = Some pc \<longleftrightarrow> i < length (ts_calls sys) \<and> ts_calls sys ! i = RevokeMany user None pc"
  by (auto simp: logout_pc_def split: token_call.splits option.splits)

definition raised :: "revoke_pc \<Rightarrow> int" where
  "raised pc = (if pc = RDone then 1 else 0)"

lemma move_versions:
  assumes "move_token env fails c sys = (c', sys')"
  shows "versions_grown user 0 (ts_versions sys) (ts_versions sys')"
    and "c = RevokeMany user None pc \<Longrightarrow> \<exists>pc'. c' = RevokeMany user None pc' \<and> versions_grown user (raised pc' - raised pc) (ts_versions sys) (ts_versions sys')"
proof -
  show "versions_grown user 0 (ts_versions sys) (ts_versions sys')"
  proof (cases c)
    case (VerifyToken cl raw q v pc)
    then show ?thesis using assms by (cases "\<exists>x. pc = TDone x") (auto simp: move_verify versions_refl split: prod.splits)
  next
    case (RevokeMany u d pc)
    then show ?thesis using assms
      by (auto simp: versions_refl split: if_splits prod.splits dest!: revoke_next_grows[of _ _ _ _ _ _ _ user] intro: versions_weak)
  qed
  show "\<exists>pc'. c' = RevokeMany user None pc' \<and> versions_grown user (raised pc' - raised pc) (ts_versions sys) (ts_versions sys')"
    if "c = RevokeMany user None pc"
  proof (cases "fails \<and> pc \<noteq> RDone")
    case True
    then show ?thesis using assms that by (auto simp: raised_def versions_refl)
  next
    case False
    obtain pc' s where n: "revoke_next (ts_clock sys) user None pc sys = (pc', s)" by fastforce
    then have c': "c' = RevokeMany user None pc'" "s = sys'" using assms that False by auto
    note n = n[unfolded c'(2)]
    from revoke_next_grows[OF n, of user] have "versions_grown user (raised pc' - raised pc) (ts_versions sys) (ts_versions sys')"
      by (rule versions_weak) (use n in \<open>cases pc; auto simp: raised_def split: if_splits\<close>)
    then show ?thesis using c'(1) by blast
  qed
qed

lemma step_versions:
  assumes "token_step env sys sys'"
  shows "versions_grown user 0 (ts_versions sys) (ts_versions sys')"
    and "logout_pc i user sys = Some pc \<Longrightarrow> \<exists>pc'. logout_pc i user sys' = Some pc' \<and> versions_grown user (raised pc' - raised pc) (ts_versions sys) (ts_versions sys')"
proof -
  show "versions_grown user 0 (ts_versions sys) (ts_versions sys')"
    using assms by (cases rule: token_step.cases) (auto simp: versions_refl dest: move_versions(1)[of _ _ _ _ _ _ user])
  show "\<exists>pc'. logout_pc i user sys' = Some pc' \<and> versions_grown user (raised pc' - raised pc) (ts_versions sys) (ts_versions sys')"
    if pc: "logout_pc i user sys = Some pc"
    using assms
  proof (cases rule: token_step.cases)
    case (goes_on j fails c s)
    show ?thesis
    proof (cases "j = i")
      case True
      then show ?thesis using goes_on pc move_versions(2)[OF goes_on(3), of user pc] by (auto simp: logout_pc_Some)
    next
      case False
      then show ?thesis using goes_on pc move_versions(1)[OF goes_on(3), of user] by (auto simp: logout_pc_Some)
    qed
  qed (use pc in \<open>auto simp: logout_pc_Some versions_refl nth_append\<close>)
qed

lemma run_versions: "token_reachable env sys sys' \<Longrightarrow> versions_grown user 0 (ts_versions sys) (ts_versions sys')"
  by (induction rule: token_reachable.induct) (use versions_refl versions_trans[of user 0 _ _ 0] step_versions(1) in \<open>fastforce+\<close>)

lemma run_logout:
  assumes "token_reachable env sys sys'" "logout_pc i user sys = Some pc"
  shows "\<exists>pc'. logout_pc i user sys' = Some pc' \<and> versions_grown user (raised pc' - raised pc) (ts_versions sys) (ts_versions sys')"
  using assms(1)
proof induction
  case begins
  then show ?case using assms(2) by (simp add: versions_refl)
next
  case (steps s s')
  then obtain p where p: "logout_pc i user s = Some p" "versions_grown user (raised p - raised pc) (ts_versions sys) (ts_versions s)" by blast
  obtain p' where "logout_pc i user s' = Some p'" "versions_grown user (raised p' - raised p) (ts_versions s) (ts_versions s')"
    using step_versions(2)[OF steps(2) p(1)] by blast
  then show ?case using versions_trans[OF p(2)] by fastforce
qed

section \<open>Checks that agree\<close>

lemma bearer_token: "bearer (''Bearer '' @ t) = t"
  by (simp add: bearer_def)

lemmas bearer_simps [simp] = bearer_token bearer_token [simplified]

lemma contacts_keep: "contacts lib act user r = Some r' \<Longrightarrow> sr_valid r' = sr_valid r \<and> sr_subject r' = sr_subject r \<and> sr_guest r' = sr_guest r"
  by (auto simp: contacts_def Let_def split: option.splits if_splits)

lemma verified_subject: "verifyAccessToken lib ks now token = Some p \<Longrightarrow> \<exists>s. jprop p ''sub'' = JStr s"
  by (auto simp: verifyAccessToken_def split: option.splits if_splits elim!: is_str.elims)

lemma session_of:
  assumes "current_session lib err db p = Some r" "\<not> sr_guest r" "first_query err = None" "second_query err = None"
  shows "sr_valid r = (case find_account db (jprop p ''sub'') of None \<Rightarrow> False
      | Some u \<Rightarrow> usable_account u \<and> version_matches p u \<and> (truthy (jprop p ''device_id'') \<longrightarrow> device_active db p))"
    and "sr_subject r = (case jprop p ''sub'' of JStr s \<Rightarrow> Some s | _ \<Rightarrow> None)"
proof -
  have g: "\<not> sr_guest (base_report p)"
    using assms(1,2) by (auto simp: current_session_def)
  obtain x where "contacts lib (sr_valid x) (find_account db (jprop p ''sub'')) x = Some r"
    and x: "sr_valid x = (case find_account db (jprop p ''sub'') of None \<Rightarrow> False
      | Some u \<Rightarrow> usable_account u \<and> version_matches p u \<and> (truthy (jprop p ''device_id'') \<longrightarrow> device_active db p))"
      "sr_subject x = sr_subject (base_report p)"
    using assms(1,3,4) g by (auto simp: current_session_def Let_def split: option.splits)
  from contacts_keep[OF this(1)] x show "sr_valid r = (case find_account db (jprop p ''sub'') of None \<Rightarrow> False
      | Some u \<Rightarrow> usable_account u \<and> version_matches p u \<and> (truthy (jprop p ''device_id'') \<longrightarrow> device_active db p))"
    and "sr_subject r = (case jprop p ''sub'' of JStr s \<Rightarrow> Some s | _ \<Rightarrow> None)"
    by (simp_all add: base_report_def)
qed

text \<open>
  C20: the two checks of a session agree. When the queries answer, the verification for the other services calls
  the session of a user's token valid exactly when the middleware of the auth server lets the same token through,
  and for the same user; an invalid token is refused by both. (A guest's token is not asked for in the table.)
\<close>

theorem session_check_agrees:
  assumes "first_query err = None" and "second_query err = None"
    and "verifyCurrentSession lib ks now err db token = Some r" and "\<not> sr_guest r"
  shows "case authMiddleware lib ks now err db (''Bearer '' @ token) of
      Allow u \<Rightarrow> sr_valid r \<and> map_of u ''id'' = map_option JStr (sr_subject r)
    | Deny status why \<Rightarrow> \<not> sr_valid r"
proof (cases "verifyAccessToken lib ks now token")
  case None
  then show ?thesis using assms(3) by (auto simp: authMiddleware_def verifyCurrentSession_def invalid_report_def invalid_token_def)
next
  case (Some p)
  then have c: "current_session lib err db p = Some r" using assms(3) by (simp add: verifyCurrentSession_def)
  have "token \<noteq> []" using Some by (auto simp: verifyAccessToken_def)
  then have m: "authMiddleware lib ks now err db (''Bearer '' @ token) = check_account err db p" using Some by (simp add: authMiddleware_def)
  show ?thesis unfolding m using session_of[OF c assms(4,1,2)] verified_subject[OF Some] assms(1,2)
    by (auto simp: check_account_def invalid_token_def request_user_def split: option.splits)
qed

section \<open>Logout everywhere\<close>

text \<open>The users as the revocation sees them, and the claims of a token that are those of a signing.\<close>

definition versions_of :: "auth_db \<Rightarrow> (string \<times> int option) list" where
  "versions_of db = map (\<lambda>u. (ac_id u, ac_version u)) (au_users db)"

definition carries :: "jsval \<Rightarrow> (string \<times> jsval) list \<Rightarrow> bool" where
  "carries p claims \<longleftrightarrow> (\<forall>(k, v) \<in> set claims. jprop p k = v)"

lemma carries_account:
  assumes "carries p (access_claims t phone u opt)"
  shows "jprop p ''sub'' = JStr (ac_id u)" "jprop p ''is_guest'' = JBool (ac_guest u)"
    "version_num (ac_version u) \<noteq> 0 \<Longrightarrow> js_or (jprop p ''token_version'') (seconds 1) = seconds (version_num (ac_version u))"
proof -
  show "jprop p ''sub'' = JStr (ac_id u)" "jprop p ''is_guest'' = JBool (ac_guest u)"
    using assms by (simp_all add: carries_def access_claims_def)
  have "jprop p ''token_version'' = js_or (case ac_version u of None \<Rightarrow> JUndef | Some n \<Rightarrow> seconds n) (seconds 1)"
    using assms by (simp add: carries_def access_claims_def)
  then show "version_num (ac_version u) \<noteq> 0 \<Longrightarrow> js_or (jprop p ''token_version'') (seconds 1) = seconds (version_num (ac_version u))"
    by (auto simp: js_or_def seconds_def version_num_def split: option.splits)
qed

lemma seconds_inj [simp]: "seconds a = seconds b \<longleftrightarrow> a = b"
  by (simp add: seconds_def)

lemma find_account_Some: "find_account db (JStr i) = Some u \<Longrightarrow> u \<in> set (au_users db) \<and> ac_id u = i"
  by (auto simp: find_account_def find_Some_iff)

lemma versions_version:
  assumes "versions_grown user k (versions_of db) (versions_of db')" "distinct (map ac_id (au_users db))"
    and "u \<in> set (au_users db)" "ac_id u = user" "find_account db' (JStr user) = Some u'"
  shows "version_num (ac_version u) + k \<le> version_num (ac_version u')"
proof -
  have u': "u' \<in> set (au_users db')" "ac_id u' = user" using find_account_Some[OF assms(5)] by simp_all
  then obtain j where j: "j < length (au_users db')" "au_users db' ! j = u'" by (metis in_set_conv_nth)
  have len: "length (au_users db) = length (au_users db')"
    using assms(1) list_all2_lengthD by (fastforce simp: versions_grown_def versions_of_def)
  have rel: "ac_id (au_users db ! j) = ac_id (au_users db' ! j)
      \<and> version_num (ac_version (au_users db ! j)) + (if ac_id (au_users db ! j) = user then k else 0) \<le> version_num (ac_version (au_users db' ! j))"
    using assms(1) j(1) len by (auto simp: versions_grown_def versions_of_def list_all2_conv_all_nth)
  have "au_users db ! j = u"
  proof -
    have "au_users db ! j \<in> set (au_users db)" using j(1) len by simp
    moreover have "inj_on ac_id (set (au_users db))" using assms(2) by (simp add: distinct_map)
    moreover have "ac_id (au_users db ! j) = ac_id u" using rel j(2) u'(2) assms(4) by simp
    ultimately show ?thesis using assms(3) by (blast dest: inj_onD)
  qed
  then show ?thesis using rel j(2) assms(4) by simp
qed

text \<open>A token signed before a logout everywhere that has ended, whatever ran in between.\<close>

lemma logged_out_version:
  assumes "token_reachable env signed sys" and "token_reachable env sys sys'"
    and "logout_pc i user sys = Some RSnapshot" and "logout_pc i user sys' = Some RDone"
    and "versions_of db = ts_versions signed" and "distinct (map ac_id (au_users db))"
    and "u \<in> set (au_users db)" and "ac_id u = user" and "1 \<le> version_num (ac_version u)"
    and "carries p (access_claims t phone u opt)" and "versions_of db' = ts_versions sys'"
    and "find_account db' (jprop p ''sub'') = Some v"
  shows "\<not> version_matches p v"
proof -
  obtain pc where pc: "logout_pc i user sys' = Some pc" "versions_grown user (raised pc - raised RSnapshot) (ts_versions sys) (ts_versions sys')"
    using run_logout[OF assms(2,3)] by blast
  then have "versions_grown user 1 (versions_of db) (versions_of db')"
    using versions_trans[OF run_versions[OF assms(1)] pc(2)] assms(4,5,11) by (simp add: raised_def)
  note g = versions_version[OF this assms(6-8)]
  have "js_or (jprop p ''token_version'') (seconds 1) = seconds (version_num (ac_version u))"
    using carries_account(3)[OF assms(10)] assms(9) by simp
  then show ?thesis using g[of v] assms(12) carries_account(1)[OF assms(10)] assms(8)
    by (simp add: version_matches_def current_version_def version_num_def[symmetric])
qed

lemma refused_session:
  assumes "verifyCurrentSession lib ks now err db token = Some r"
    and "\<And>p v. verifyAccessToken lib ks now token = Some p \<Longrightarrow> find_account db (jprop p ''sub'') = Some v \<Longrightarrow> \<not> version_matches p v"
    and "\<And>p. verifyAccessToken lib ks now token = Some p \<Longrightarrow> jprop p ''is_guest'' \<noteq> JBool True"
  shows "\<not> sr_valid r"
proof (cases "verifyAccessToken lib ks now token")
  case (Some p)
  then have "current_session lib err db p = Some r" using assms(1) by (simp add: verifyCurrentSession_def)
  then show ?thesis using assms(2,3)[OF Some]
    by (auto simp: current_session_def base_report_def Let_def split: if_splits option.splits dest!: contacts_keep)
qed (use assms(1) in \<open>auto simp: verifyCurrentSession_def invalid_report_def\<close>)

text \<open>
  C12: a logout everywhere reaches every earlier token. A token was signed for a user from the row of some state. Later the
  user logs out everywhere, and the call ends without an error, with any other calls interleaved. From
  then on the middleware refuses the token, and the session is not valid for the other services.
\<close>

theorem logout_everywhere:
  assumes "token_reachable env signed sys" and "token_reachable env sys sys'"
    and "logout_pc i user sys = Some RSnapshot" and "logout_pc i user sys' = Some RDone"
    and "versions_of db = ts_versions signed" and "distinct (map ac_id (au_users db))"
    and "u \<in> set (au_users db)" and "ac_id u = user" and "\<not> ac_guest u" and "1 \<le> version_num (ac_version u)"
    and "carries p (access_claims t phone u opt)"
    and "versions_of db' = ts_versions sys'" and "verifyAccessToken lib ks now token = Some p"
    and "first_query err \<noteq> Some NoVersionColumn"
  shows "(\<forall>x. authMiddleware lib ks now err db' (''Bearer '' @ token) \<noteq> Allow x)
    \<and> (\<forall>r. verifyCurrentSession lib ks now err db' token = Some r \<longrightarrow> \<not> sr_valid r)"
proof -
  note old = logged_out_version[OF assms(1-8,10-12)]
  have "token \<noteq> []" using assms(13) by (auto simp: verifyAccessToken_def)
  then have "authMiddleware lib ks now err db' (''Bearer '' @ token) = check_account err db' p" using assms(13) by (simp add: authMiddleware_def)
  moreover have "check_account err db' p \<noteq> Allow x" for x
    using old assms(14) by (auto simp: check_account_def query_failed_def invalid_token_def split: option.splits)
  moreover have "\<not> sr_valid r" if "verifyCurrentSession lib ks now err db' token = Some r" for r
    by (rule refused_session[OF that]) (use old assms(9,13) carries_account(2)[OF assms(11)] in auto)
  ultimately show ?thesis by simp
qed

section \<open>A signed token is accepted\<close>

text \<open>What the library promises of one token: signed at \<open>t\<close> for \<open>life\<close> seconds, it is decoded and, until then, verified.\<close>

definition issued :: "int \<Rightarrow> int \<Rightarrow> string \<Rightarrow> string \<Rightarrow> (string \<times> jsval) list \<Rightarrow> jsval" where
  "issued t life iss aud claims = JObj (claims @ [(''iat'', seconds (t div 1000)), (''exp'', seconds (t div 1000 + life)),
     (''aud'', JStr aud), (''iss'', JStr iss)])"

definition token_sound :: "token_lib \<Rightarrow> int \<Rightarrow> int \<Rightarrow> key_set \<Rightarrow> string \<Rightarrow> (string \<times> jsval) list \<Rightarrow> string \<Rightarrow> bool" where
  "token_sound lib t life ks secret claims token \<longleftrightarrow> token \<noteq> [] \<and> at_decode lib token = Some (JStr ''HS256'', Some (ks_active ks))
     \<and> (\<forall>now. t \<le> now \<and> now div 1000 < t div 1000 + life
        \<longrightarrow> at_verify lib now secret (ks_issuer ks) (ks_audience ks) token = Some (issued t life (ks_issuer ks) (ks_audience ks) claims))"

lemma access_keys: "map fst (access_claims t phone u opt) =
    [''sub'', ''phone_number'', ''role'', ''user_role'', ''token_version'', ''is_guest''] @ (if so_device opt \<noteq> [] then [''device_id''] else [])
    @ (if so_high_assurance opt then [''high_assurance''] else [])
    @ (if so_channel opt \<in> {''email'', ''phone'', ''google''} then [''verified_channel'', ''factor_verified_at''] else [])
    @ (if so_recovery opt \<in> {''email'', ''phone''} then [''recovery_channel'', ''recovery_verified_at''] else [])"
  unfolding access_claims_def by (simp del: insert_iff)

lemma issued_keys: "distinct (map fst (access_claims t phone u opt @ [(''iat'', a), (''exp'', b), (''aud'', c), (''iss'', d)]))"
  unfolding map_append access_keys
  by (cases "so_device opt = []"; cases "so_high_assurance opt"; cases "so_channel opt \<in> {''email'', ''phone'', ''google''}";
      cases "so_recovery opt \<in> {''email'', ''phone''}"; simp only: if_True if_False simp_thms; simp)

lemma issued_prop:
  "(k, v) \<in> set (access_claims t phone u opt @ [(''iat'', seconds (t div 1000)), (''exp'', seconds (t div 1000 + life)), (''aud'', JStr aud), (''iss'', JStr iss)])
    \<Longrightarrow> jprop (issued t life iss aud (access_claims t phone u opt)) k = v"
  using map_of_is_SomeI[OF issued_keys] by (simp only: issued_def jprop.simps option.simps)

lemma issued_absent:
  "k \<notin> set (map fst (access_claims t phone u opt @ [(''iat'', seconds (t div 1000)), (''exp'', seconds (t div 1000 + life)), (''aud'', JStr aud), (''iss'', JStr iss)]))
    \<Longrightarrow> jprop (issued t life iss aud (access_claims t phone u opt)) k = JUndef"
  unfolding issued_def jprop.simps set_map map_of_eq_None_iff[symmetric] by (simp only: option.simps)

lemma issued_props:
  assumes "issued t life iss aud (access_claims t phone u opt) = p"
  shows "carries p (access_claims t phone u opt)" "jprop p ''iss'' = JStr iss" "jprop p ''aud'' = JStr aud"
    "jprop p ''iat'' = seconds (t div 1000)" "jprop p ''exp'' = seconds (t div 1000 + life)" "jprop p ''nbf'' = JUndef"
    "jprop p ''device_id'' = (if so_device opt \<noteq> [] then JStr (so_device opt) else JUndef)"
    "jprop p ''high_assurance'' = (if so_high_assurance opt then JBool True else JUndef)"
    "jprop p ''user_role'' = JStr (ac_role u)"
proof -
  note is_at = issued_prop[where t = t and phone = phone and u = u and opt = opt and life = life and iss = iss and aud = aud, unfolded assms]
  note absent = issued_absent[where t = t and phone = phone and u = u and opt = opt and life = life and iss = iss and aud = aud, unfolded assms]
  show "carries p (access_claims t phone u opt)" unfolding carries_def using is_at by auto
  show "jprop p ''iss'' = JStr iss" "jprop p ''aud'' = JStr aud" "jprop p ''iat'' = seconds (t div 1000)"
    "jprop p ''exp'' = seconds (t div 1000 + life)" by (rule is_at, simp)+
  show "jprop p ''user_role'' = JStr (ac_role u)" by (rule is_at) (simp add: access_claims_def)
  show "jprop p ''nbf'' = JUndef" by (rule absent) (simp add: access_keys)
  show "jprop p ''device_id'' = (if so_device opt \<noteq> [] then JStr (so_device opt) else JUndef)"
  proof (cases "so_device opt = []")
    case True
    have "jprop p ''device_id'' = JUndef" by (rule absent) (simp add: access_keys True)
    then show ?thesis by (simp add: True)
  next
    case False
    have "jprop p ''device_id'' = JStr (so_device opt)" by (rule is_at) (simp add: access_claims_def False)
    then show ?thesis by (simp add: False)
  qed
  show "jprop p ''high_assurance'' = (if so_high_assurance opt then JBool True else JUndef)"
  proof (cases "so_high_assurance opt")
    case True
    have "jprop p ''high_assurance'' = JBool True" by (rule is_at) (simp add: access_claims_def True)
    then show ?thesis by (simp add: True)
  next
    case False
    have "jprop p ''high_assurance'' = JUndef" by (rule absent) (simp add: access_keys False)
    then show ?thesis by (simp add: False)
  qed
qed

lemma issued_valid:
  assumes "t \<le> now" "now div 1000 < t div 1000 + life"
  shows "validateTokenClaims ks False 60 True now (issued t life (ks_issuer ks) (ks_audience ks) (access_claims t phone u opt)) = None"
proof -
  note i = issued_props[OF refl, of t life "ks_issuer ks" "ks_audience ks" phone u opt]
  have "t div 1000 \<le> now div 1000" using assms(1) by (rule zdiv_mono1) simp
  then show ?thesis using assms(2) by (simp add: validateTokenClaims_def Let_def i seconds_def del: of_int_add of_int_diff)
qed

text \<open>
  C22: a signed token works until it expires. A token signed for a user, of at most 8192 characters, is let through by the
  middleware at any time before its expiry as long as the account is usable, its version is unchanged and the
  device, if the token names one, is active; also when the keys have been rotated meanwhile, if the key it was
  signed with is still configured. The request then carries the user, the role and the assurance it was signed with.
\<close>

theorem signed_token_accepted:
  assumes "signAccessToken lib ks ttl t u opt = Some token" and "length token \<le> 8192"
    and "canonicalPhoneClaim lib (ac_phone u) = Some phone" and "getKeySecret ks (ks_active ks) = Some secret"
    and "token_sound lib t life ks secret (access_claims t phone u opt) token"
    and "t \<le> now" and "now div 1000 < t div 1000 + life"
    and "getKeySecret ks' (ks_active ks) = Some secret" and "ks_issuer ks' = ks_issuer ks" and "ks_audience ks' = ks_audience ks"
    and "find_account db (JStr (ac_id u)) = Some v" and "usable_account v"
    and "version_num (ac_version v) = version_num (ac_version u)" and "1 \<le> version_num (ac_version u)"
    and "so_device opt \<noteq> [] \<Longrightarrow> \<exists>d \<in> set (au_devices db). dv_user d = ac_id u \<and> dv_device d = so_device opt \<and> dv_active d"
    and "first_query err = None" and "second_query err = None" and "ac_role u \<noteq> []"
  shows "\<exists>x. authMiddleware lib ks' now err db (''Bearer '' @ token) = Allow x \<and> map_of x ''id'' = Some (JStr (ac_id u))
    \<and> map_of x ''role'' = Some (JStr (ac_role u)) \<and> map_of x ''high_assurance'' = Some (JBool (so_high_assurance opt))"
proof -
  let ?p = "issued t life (ks_issuer ks) (ks_audience ks) (access_claims t phone u opt)"
  note i = issued_props[OF refl, of t life "ks_issuer ks" "ks_audience ks" phone u opt]
  note a = carries_account[OF i(1)]
  have ne: "token \<noteq> []" and dec: "at_decode lib token = Some (JStr ''HS256'', Some (ks_active ks))"
    and ver: "at_verify lib now secret (ks_issuer ks) (ks_audience ks) token = Some ?p"
    using assms(5-7) by (simp_all add: token_sound_def)
  have "validateTokenClaims ks' False 60 True now ?p = None"
    using issued_valid[OF assms(6,7), of ks'] assms(9,10) by simp
  then have v: "verifyAccessToken lib ks' now token = Some ?p"
    using ne dec ver assms(2,8-10) a(1) by (simp add: verifyAccessToken_def secrets_for_def)
  have m: "version_matches ?p v"
    using a(3) assms(13,14) by (simp add: version_matches_def current_version_def version_num_def[symmetric])
  have d: "truthy (jprop ?p ''device_id'') \<Longrightarrow> device_active db ?p"
    using assms(15) a(1) i(7) by (auto simp: device_active_def split: if_splits)
  have "check_account err db ?p = Allow (request_user ?p)"
    using assms(11,12,16,17) a(1) m d by (simp add: check_account_def)
  moreover have "map_of (request_user ?p) ''role'' = Some (JStr (ac_role u))" "map_of (request_user ?p) ''id'' = Some (JStr (ac_id u))"
    "map_of (request_user ?p) ''high_assurance'' = Some (JBool (so_high_assurance opt))"
    using assms(18) a(1) i(8,9) by (simp_all add: request_user_def js_or_def)
  ultimately show ?thesis using v ne by (simp add: authMiddleware_def)
qed

end
