(* ===== verification/ApiSession.thy ===== *)
theory ApiSession
  imports AccessProps
begin

text \<open>
  \<open>api/src/auth.js\<close>: how the API checks a request. A valid signature is only a first filter; the session is asked
  of the auth server and remembered for five seconds. A check is suspended while the answer is awaited, at most four
  seconds (\<open>AbortSignal.timeout\<close>), and other requests run meanwhile. The answer of the auth server to a token, as it
  reads its tables at a moment, is a function \<open>auth\<close>; \<open>None\<close> is any failure to answer.
\<close>

definition SESSION_CACHE_TTL_MS :: int where "SESSION_CACHE_TTL_MS = 5000"

definition SESSION_CACHE_MAX_ENTRIES :: nat where "SESSION_CACHE_MAX_ENTRIES = 1000"

definition FETCH_TIMEOUT_MS :: int where "FETCH_TIMEOUT_MS = 4000"

record api_config =
  api_keys :: "(string \<times> string) list"
  api_issuer :: string
  api_audience :: string
  api_auth_url :: "string option"
  api_auth_secret :: "string option"

section \<open>The filter\<close>

definition api_verifyAccessToken :: "token_lib \<Rightarrow> api_config \<Rightarrow> int \<Rightarrow> string \<Rightarrow> jsval option" where
  "api_verifyAccessToken lib cfg now token = (case at_decode lib token of None \<Rightarrow> None
     | Some (alg, kid) \<Rightarrow>
         (let check = (\<lambda>s. at_verify lib now s (api_issuer cfg) (api_audience cfg) token) in
          case kid of None \<Rightarrow> first_verified check (map snd (api_keys cfg))
          | Some k \<Rightarrow> (case map_of (api_keys cfg) k of None \<Rightarrow> None | Some s \<Rightarrow> check s)))"

text \<open>The fields of a request: its access token and its user.\<close>

definition optionalAuth :: "token_lib \<Rightarrow> api_config \<Rightarrow> int \<Rightarrow> string option \<Rightarrow> (string \<times> jsval) option" where
  "optionalAuth lib cfg now header = (case header of None \<Rightarrow> None
     | Some h \<Rightarrow> if starts_with h ''Bearer ''
         then map_option (\<lambda>p. (drop 7 h, jprop p ''sub'')) (api_verifyAccessToken lib cfg now (drop 7 h)) else None)"

definition requireValidJwt :: "token_lib \<Rightarrow> api_config \<Rightarrow> int \<Rightarrow> string option \<Rightarrow> nat + string \<times> jsval" where
  "requireValidJwt lib cfg now header = (case optionalAuth lib cfg now header of None \<Rightarrow> Inl 401 | Some r \<Rightarrow> Inr r)"

section \<open>The session and its cache\<close>

record api_session =
  as_token_valid :: bool
  as_valid :: bool
  as_subject :: "string option"
  as_guest :: bool
  as_active :: bool
  as_revoked :: bool
  as_email :: "bool \<times> string option"
  as_phone :: "bool \<times> string option"
  as_channel :: "string option"
  as_verified_at :: "jsval option"

definition session_from :: "session_report \<Rightarrow> api_session" where
  "session_from r = \<lparr>as_token_valid = sr_token_valid r, as_valid = sr_valid r, as_subject = sr_subject r, as_guest = sr_guest r,
     as_active = sr_active r, as_revoked = sr_revoked r, as_email = sr_email r, as_phone = sr_phone r,
     as_channel = sr_channel r, as_verified_at = sr_verified_at r\<rparr>"

type_synonym session_cache = "(string \<times> api_session \<times> int) list"

text \<open>A Map keeps the order of insertion: the oldest entries are dropped from the front.\<close>

definition cacheSession :: "int \<Rightarrow> string \<Rightarrow> api_session \<Rightarrow> session_cache \<Rightarrow> session_cache" where
  "cacheSession now k v cache =
     (let kept = (if SESSION_CACHE_MAX_ENTRIES \<le> length cache then filter (\<lambda>(k, v, e). now < e) cache else cache) in
      mset_put k (v, now + SESSION_CACHE_TTL_MS) (drop (length kept - (SESSION_CACHE_MAX_ENTRIES - 1)) kept))"

datatype cache_lookup = Unconfigured | Cached api_session | Ask

text \<open>The first part of \<open>fetchCurrentSession\<close>, up to the request.\<close>

definition fetch_start :: "api_config \<Rightarrow> (string \<Rightarrow> string) \<Rightarrow> int \<Rightarrow> string \<Rightarrow> session_cache \<Rightarrow> cache_lookup \<times> session_cache" where
  "fetch_start cfg dig now token cache =
     (if api_auth_url cfg = None \<or> api_auth_secret cfg = None then (Unconfigured, cache)
      else case map_of cache (dig token) of
        None \<Rightarrow> (Ask, cache)
      | Some (s, e) \<Rightarrow> if now < e then (Cached s, cache) else (Ask, filter (\<lambda>x. fst x \<noteq> dig token) cache))"

definition fetch_end :: "(string \<Rightarrow> string) \<Rightarrow> int \<Rightarrow> string \<Rightarrow> session_report option \<Rightarrow> session_cache \<Rightarrow> api_session option \<times> session_cache" where
  "fetch_end dig now token answer cache = (case answer of None \<Rightarrow> (None, cache)
     | Some r \<Rightarrow> (Some (session_from r), cacheSession now (dig token) (session_from r) cache))"

definition session_ok :: "api_session \<Rightarrow> jsval \<Rightarrow> bool" where
  "session_ok s user \<longleftrightarrow> as_token_valid s \<and> as_valid s \<and> as_active s \<and> \<not> as_revoked s \<and> jstr (as_subject s) = user"

datatype session_answer = Granted api_session int | Rejected nat

definition judge :: "int \<Rightarrow> jsval \<Rightarrow> api_session \<Rightarrow> session_answer" where
  "judge now user s = (if session_ok s user then Granted s now else Rejected 401)"

text \<open>\<open>verifyMemberRequest\<close> goes on with a granted session; the product database says whether the user is a member.\<close>

definition verifyMemberRequest :: "bool option \<Rightarrow> session_answer \<Rightarrow> session_answer" where
  "verifyMemberRequest member a = (case a of Rejected n \<Rightarrow> Rejected n
     | Granted s t \<Rightarrow> if as_guest s then Rejected 403
         else case member of None \<Rightarrow> Rejected 503 | Some m \<Rightarrow> if m then Granted s t else Rejected 403)"

section \<open>Requests over time\<close>

datatype api_call = Asking string jsval int | Answered string jsval session_answer

record api_system =
  api_clock :: int
  api_cache :: session_cache
  api_calls :: "api_call list"

text \<open>\<open>verifyRequestSession\<close> up to its first wait.\<close>

definition verifyRequestSession :: "api_config \<Rightarrow> (string \<Rightarrow> string) \<Rightarrow> string \<Rightarrow> jsval \<Rightarrow> api_system \<Rightarrow> api_system" where
  "verifyRequestSession cfg dig token user sys =
     (if token = [] \<or> \<not> truthy user then sys\<lparr>api_calls := api_calls sys @ [Answered token user (Rejected 401)]\<rparr>
      else let (found, cache) = fetch_start cfg dig (api_clock sys) token (api_cache sys);
               c = (case found of Unconfigured \<Rightarrow> Answered token user (Rejected 503)
                 | Cached s \<Rightarrow> Answered token user (judge (api_clock sys) user s)
                 | Ask \<Rightarrow> Asking token user (api_clock sys)) in
        sys\<lparr>api_cache := cache, api_calls := api_calls sys @ [c]\<rparr>)"

definition session_arrives :: "(string \<Rightarrow> string) \<Rightarrow> nat \<Rightarrow> string \<Rightarrow> jsval \<Rightarrow> session_report option \<Rightarrow> api_system \<Rightarrow> api_system" where
  "session_arrives dig i token user answer sys =
     (let (s, cache) = fetch_end dig (api_clock sys) token answer (api_cache sys);
          a = (case s of None \<Rightarrow> Rejected 503 | Some s \<Rightarrow> judge (api_clock sys) user s) in
      sys\<lparr>api_cache := cache, api_calls := (api_calls sys)[i := Answered token user a]\<rparr>)"

inductive api_step :: "(int \<Rightarrow> string \<Rightarrow> session_report option) \<Rightarrow> api_config \<Rightarrow> (string \<Rightarrow> string) \<Rightarrow> api_system \<Rightarrow> api_system \<Rightarrow> bool"
  for auth cfg dig where
  api_waits: "api_clock sys \<le> now \<Longrightarrow> api_step auth cfg dig sys (sys\<lparr>api_clock := now\<rparr>)"
| api_asked: "api_step auth cfg dig sys (verifyRequestSession cfg dig token user sys)"
| api_fails: "i < length (api_calls sys) \<Longrightarrow> api_calls sys ! i = Asking token user sent
    \<Longrightarrow> api_step auth cfg dig sys (session_arrives dig i token user None sys)"
| api_answer: "i < length (api_calls sys) \<Longrightarrow> api_calls sys ! i = Asking token user sent
    \<Longrightarrow> sent \<le> read \<Longrightarrow> read \<le> api_clock sys \<Longrightarrow> api_clock sys \<le> sent + FETCH_TIMEOUT_MS
    \<Longrightarrow> api_step auth cfg dig sys (session_arrives dig i token user (auth read token) sys)"

inductive api_reachable :: "(int \<Rightarrow> string \<Rightarrow> session_report option) \<Rightarrow> api_config \<Rightarrow> (string \<Rightarrow> string) \<Rightarrow> int \<Rightarrow> api_system \<Rightarrow> bool"
  for auth cfg dig now where
  api_starts: "api_reachable auth cfg dig now \<lparr>api_clock = now, api_cache = [], api_calls = []\<rparr>"
| api_steps: "api_reachable auth cfg dig now sys \<Longrightarrow> api_step auth cfg dig sys sys' \<Longrightarrow> api_reachable auth cfg dig now sys'"

section \<open>How old an answer can be\<close>

fun call_token :: "api_call \<Rightarrow> string" where
  "call_token (Asking token user sent) = token"
| "call_token (Answered token user a) = token"

definition tokens_seen :: "api_system \<Rightarrow> string set" where
  "tokens_seen sys = call_token ` set (api_calls sys)"

definition recent :: "(int \<Rightarrow> string \<Rightarrow> session_report option) \<Rightarrow> string \<Rightarrow> api_session \<Rightarrow> int \<Rightarrow> int \<Rightarrow> bool" where
  "recent auth token s from until \<longleftrightarrow> (\<exists>read r. auth read token = Some r \<and> s = session_from r \<and> from \<le> read \<and> read \<le> until)"

definition cache_ok :: "(int \<Rightarrow> string \<Rightarrow> session_report option) \<Rightarrow> (string \<Rightarrow> string) \<Rightarrow> api_system \<Rightarrow> bool" where
  "cache_ok auth dig sys \<longleftrightarrow> length (api_cache sys) \<le> SESSION_CACHE_MAX_ENTRIES \<and> distinct (map fst (api_cache sys))
     \<and> (\<forall>(k, s, e) \<in> set (api_cache sys). \<exists>token \<in> tokens_seen sys. k = dig token \<and> e \<le> api_clock sys + 5000 \<and> recent auth token s (e - 9000) (e - 5000))"

definition answers_ok :: "(int \<Rightarrow> string \<Rightarrow> session_report option) \<Rightarrow> api_system \<Rightarrow> bool" where
  "answers_ok auth sys \<longleftrightarrow> (\<forall>token user s t. Answered token user (Granted s t) \<in> set (api_calls sys)
     \<longrightarrow> session_ok s user \<and> t \<le> api_clock sys \<and> recent auth token s (t - 9000) t)"

lemma recent_mono: "recent auth token s a b \<Longrightarrow> a' \<le> a \<Longrightarrow> b \<le> b' \<Longrightarrow> recent auth token s a' b'"
  unfolding recent_def by fastforce

lemma cache_entry:
  assumes "cache_ok auth dig sys" "(k, s, e) \<in> set (api_cache sys)"
  obtains token where "token \<in> tokens_seen sys" "k = dig token" "e \<le> api_clock sys + 5000" "recent auth token s (e - 9000) (e - 5000)"
  using assms unfolding cache_ok_def by blast

lemma cacheSession_size:
  assumes "distinct (map fst c)"
  shows "length (cacheSession now k v c) \<le> SESSION_CACHE_MAX_ENTRIES" "distinct (map fst (cacheSession now k v c))"
proof -
  define kept where "kept = (if SESSION_CACHE_MAX_ENTRIES \<le> length c then filter (\<lambda>(k, v, e). now < e) c else c)"
  let ?d = "drop (length kept - (SESSION_CACHE_MAX_ENTRIES - 1)) kept"
  have put: "cacheSession now k v c = mset_put k (v, now + SESSION_CACHE_TTL_MS) ?d" by (simp add: cacheSession_def kept_def Let_def)
  have "length (map fst (mset_put k (v, now + SESSION_CACHE_TTL_MS) ?d)) \<le> length ?d + 1" by (subst keys_mset_put) simp
  moreover have "length ?d \<le> SESSION_CACHE_MAX_ENTRIES - 1" by simp
  ultimately show "length (cacheSession now k v c) \<le> SESSION_CACHE_MAX_ENTRIES" unfolding put by (simp add: SESSION_CACHE_MAX_ENTRIES_def)
  have "distinct (map fst kept)" using assms by (simp add: kept_def distinct_map_filter)
  then show "distinct (map fst (cacheSession now k v c))" unfolding put by (simp add: drop_map[symmetric] distinct_drop)
qed

lemma cacheSession_entries:
  assumes "distinct (map fst c)" "(k', s, e) \<in> set (cacheSession now k v c)"
  shows "(k', s, e) \<in> set c \<or> (k' = k \<and> s = v \<and> e = now + 5000)"
proof -
  define d where "d = (let kept = (if SESSION_CACHE_MAX_ENTRIES \<le> length c then filter (\<lambda>(k, v, e). now < e) c else c) in
    drop (length kept - (SESSION_CACHE_MAX_ENTRIES - 1)) kept)"
  have put: "cacheSession now k v c = mset_put k (v, now + 5000) d" by (simp add: cacheSession_def d_def Let_def SESSION_CACHE_TTL_MS_def)
  have "set (mset_put k w m) \<subseteq> insert (k, w) (set m)" for w and m :: session_cache
    by (induction m) (auto split: if_splits)
  moreover have "set d \<subseteq> set c" by (auto simp: d_def Let_def dest!: in_set_dropD split: if_splits)
  ultimately show ?thesis using assms(2) unfolding put by fastforce
qed

lemma arrives_tokens:
  assumes "i < length (api_calls sys)" "api_calls sys ! i = Asking token user sent"
  shows "tokens_seen (session_arrives dig i token user answer sys) = tokens_seen sys"
proof -
  have "map call_token ((api_calls sys)[i := Answered token user a]) = map call_token (api_calls sys)" for a
    using assms by (simp add: map_update list_update_same_conv)
  then have "call_token ` set ((api_calls sys)[i := Answered token user a]) = call_token ` set (api_calls sys)" for a
    by (metis set_map)
  then show ?thesis by (simp add: tokens_seen_def session_arrives_def split: prod.splits)
qed

lemma asked_tokens: "tokens_seen sys \<subseteq> tokens_seen (verifyRequestSession cfg dig token user sys)"
  by (auto simp: tokens_seen_def verifyRequestSession_def split: prod.splits)

lemma step_tokens: "api_step auth cfg dig sys sys' \<Longrightarrow> tokens_seen sys \<subseteq> tokens_seen sys'"
proof (induction rule: api_step.induct)
  case (api_waits sys now)
  show ?case by (simp add: tokens_seen_def)
qed (simp_all add: arrives_tokens asked_tokens)

lemma cache_okI:
  assumes "length (api_cache sys) \<le> SESSION_CACHE_MAX_ENTRIES" "distinct (map fst (api_cache sys))"
    and "\<And>k s e. (k, s, e) \<in> set (api_cache sys) \<Longrightarrow>
      \<exists>token \<in> tokens_seen sys. k = dig token \<and> e \<le> api_clock sys + 5000 \<and> recent auth token s (e - 9000) (e - 5000)"
  shows "cache_ok auth dig sys"
  using assms unfolding cache_ok_def by blast

lemma cache_kept:
  assumes "cache_ok auth dig sys" "set (api_cache sys') \<subseteq> set (api_cache sys)" "length (api_cache sys') \<le> length (api_cache sys)"
    and "distinct (map fst (api_cache sys'))" "tokens_seen sys \<subseteq> tokens_seen sys'" "api_clock sys \<le> api_clock sys'"
  shows "cache_ok auth dig sys'"
proof (rule cache_okI)
  show "length (api_cache sys') \<le> SESSION_CACHE_MAX_ENTRIES" using assms(1,3) by (simp add: cache_ok_def)
  show "distinct (map fst (api_cache sys'))" by (rule assms(4))
  fix k s e assume "(k, s, e) \<in> set (api_cache sys')"
  then have "(k, s, e) \<in> set (api_cache sys)" using assms(2) by blast
  from cache_entry[OF assms(1) this] obtain token where "token \<in> tokens_seen sys" "k = dig token"
    "e \<le> api_clock sys + 5000" "recent auth token s (e - 9000) (e - 5000)" .
  then show "\<exists>token \<in> tokens_seen sys'. k = dig token \<and> e \<le> api_clock sys' + 5000 \<and> recent auth token s (e - 9000) (e - 5000)"
    using assms(5,6) by (intro bexI[of _ token]) auto
qed

lemma cache_asked:
  assumes "cache_ok auth dig sys"
  shows "cache_ok auth dig (verifyRequestSession cfg dig token user sys)"
proof -
  let ?s = "verifyRequestSession cfg dig token user sys"
  obtain f c where f: "fetch_start cfg dig (api_clock sys) token (api_cache sys) = (f, c)" by fastforce
  have "c = filter (\<lambda>_. True) (api_cache sys) \<or> c = filter (\<lambda>x. fst x \<noteq> dig token) (api_cache sys)"
    using f by (auto simp: fetch_start_def split: if_splits option.splits)
  then obtain P where "c = filter P (api_cache sys)" by blast
  then have "api_cache ?s = filter (\<lambda>x. token = [] \<or> \<not> truthy user \<or> P x) (api_cache sys)"
    using f by (cases "token = [] \<or> \<not> truthy user") (auto simp: verifyRequestSession_def)
  then obtain P where "api_cache ?s = filter P (api_cache sys)" by blast
  moreover have "distinct (map fst (api_cache sys))" using assms by (simp add: cache_ok_def)
  moreover have "api_clock ?s = api_clock sys" using f by (simp add: verifyRequestSession_def)
  ultimately show ?thesis
    by (intro cache_kept[OF assms]) (simp_all add: asked_tokens distinct_map_filter)
qed

lemma cache_arrived:
  assumes ok: "cache_ok auth dig sys" and i: "i < length (api_calls sys)" "api_calls sys ! i = Asking token user sent"
    and answer: "\<And>r. answer = Some r \<Longrightarrow> recent auth token (session_from r) (api_clock sys - 4000) (api_clock sys)"
  shows "cache_ok auth dig (session_arrives dig i token user answer sys)"
proof (cases answer)
  case None
  then show ?thesis using ok arrives_tokens[OF i, of dig answer]
    by (intro cache_kept[OF ok]) (simp_all add: session_arrives_def fetch_end_def cache_ok_def)
next
  case (Some r)
  let ?s = "session_arrives dig i token user answer sys"
  have s: "api_cache ?s = cacheSession (api_clock sys) (dig token) (session_from r) (api_cache sys)" "api_clock ?s = api_clock sys"
    by (simp_all add: Some session_arrives_def fetch_end_def)
  have d: "distinct (map fst (api_cache sys))" using ok by (simp add: cache_ok_def)
  have here: "token \<in> tokens_seen sys" using nth_mem[OF i(1)] i(2) by (force simp: tokens_seen_def)
  show ?thesis
  proof (rule cache_okI)
    fix k v e assume "(k, v, e) \<in> set (api_cache ?s)"
    then consider "(k, v, e) \<in> set (api_cache sys)" | "k = dig token" "v = session_from r" "e = api_clock sys + 5000"
      using cacheSession_entries[OF d] unfolding s by blast
    then show "\<exists>token \<in> tokens_seen ?s. k = dig token \<and> e \<le> api_clock ?s + 5000 \<and> recent auth token v (e - 9000) (e - 5000)"
    proof cases
      case 1
      from cache_entry[OF ok this] show ?thesis unfolding arrives_tokens[OF i] s(2) by blast
    next
      case 2
      then show ?thesis using answer[OF Some] here unfolding arrives_tokens[OF i] s(2) by (intro bexI[of _ token]) simp_all
    qed
  qed (simp_all only: s cacheSession_size[OF d])
qed

lemma cache_step:
  assumes "cache_ok auth dig sys" "api_step auth cfg dig sys sys'"
  shows "cache_ok auth dig sys'"
  using assms(2)
proof (cases rule: api_step.cases)
  case (api_waits now)
  then show ?thesis using assms(1) by (intro cache_kept[OF assms(1)]) (simp_all add: cache_ok_def tokens_seen_def)
next
  case (api_answer i token user sent read)
  have "recent auth token (session_from r) (api_clock sys - 4000) (api_clock sys)" if "auth read token = Some r" for r
    using that api_answer(4-6) unfolding recent_def FETCH_TIMEOUT_MS_def by (intro exI[of _ read] exI[of _ r]) simp
  then show ?thesis using cache_arrived[OF assms(1) api_answer(2,3)] api_answer(1) by simp
next
  case (api_fails i token user sent)
  then show ?thesis using cache_arrived[OF assms(1) api_fails(2,3), of None] by simp
qed (simp add: cache_asked assms(1))

lemma reachable_cache: "api_reachable auth cfg dig now sys \<Longrightarrow> cache_ok auth dig sys"
proof (induction rule: api_reachable.induct)
  case api_starts
  show ?case by (simp add: cache_ok_def)
qed (use cache_step in blast)

lemma answers_asked:
  assumes "answers_ok auth sys" "cache_ok auth dig sys" "inj_on dig (tokens_seen (verifyRequestSession cfg dig token user sys))"
  shows "answers_ok auth (verifyRequestSession cfg dig token user sys)"
proof (cases "token = [] \<or> \<not> truthy user")
  case True
  then show ?thesis using assms(1) by (auto simp: answers_ok_def verifyRequestSession_def)
next
  case False
  let ?s = "verifyRequestSession cfg dig token user sys"
  obtain f c where f: "fetch_start cfg dig (api_clock sys) token (api_cache sys) = (f, c)" by fastforce
  define call where "call = (case f of Unconfigured \<Rightarrow> Answered token user (Rejected 503)
      | Cached s \<Rightarrow> Answered token user (judge (api_clock sys) user s) | Ask \<Rightarrow> Asking token user (api_clock sys))"
  have s: "api_calls ?s = api_calls sys @ [call]" "api_clock ?s = api_clock sys"
    using False f by (simp_all add: verifyRequestSession_def call_def)
  have new: "session_ok x u \<and> t \<le> api_clock sys \<and> recent auth tok x (t - 9000) t" if a: "call = Answered tok u (Granted x t)" for tok u x t
  proof -
    have cached: "f = Cached x" "session_ok x user" "t = api_clock sys" "tok = token" "u = user"
      using a by (auto simp: call_def judge_def split: cache_lookup.splits if_splits)
    then obtain e where e: "(dig token, x, e) \<in> set (api_cache sys)" "api_clock sys < e"
      using f by (auto simp: fetch_start_def split: if_splits option.splits dest: map_of_SomeD)
    obtain tok' where tok': "tok' \<in> tokens_seen sys" "dig token = dig tok'" "e \<le> api_clock sys + 5000" "recent auth tok' x (e - 9000) (e - 5000)"
      by (rule cache_entry[OF assms(2) e(1)])
    have "token \<in> tokens_seen ?s"
      using s(1) a cached(4) by (force simp: tokens_seen_def)
    then have "tok' = token" using assms(3) tok'(1,2) asked_tokens by (metis inj_onD subsetD)
    then show ?thesis using cached tok'(3) e(2) recent_mono[OF tok'(4), of "t - 9000" t] by simp
  qed
  show ?thesis using assms(1) new unfolding answers_ok_def s by auto
qed

lemma answers_arrived:
  assumes "answers_ok auth sys" and i: "i < length (api_calls sys)"
    and answer: "\<And>r. answer = Some r \<Longrightarrow> recent auth token (session_from r) (api_clock sys - 4000) (api_clock sys)"
  shows "answers_ok auth (session_arrives dig i token user answer sys)"
proof -
  let ?s = "session_arrives dig i token user answer sys"
  have c: "api_clock ?s = api_clock sys" by (simp add: session_arrives_def split: prod.splits)
  show ?thesis unfolding answers_ok_def c
  proof (intro allI impI)
    fix tok u x t assume "Answered tok u (Granted x t) \<in> set (api_calls ?s)"
    then consider "Answered tok u (Granted x t) \<in> set (api_calls sys)"
      | r where "answer = Some r" "x = session_from r" "session_ok x u" "tok = token" "t = api_clock sys"
      by (cases answer) (auto simp: session_arrives_def fetch_end_def judge_def dest!: set_update_subset_insert[THEN subsetD] split: if_splits)
    then show "session_ok x u \<and> t \<le> api_clock sys \<and> recent auth tok x (t - 9000) t"
    proof cases
      case 1
      then show ?thesis using assms(1) by (simp add: answers_ok_def)
    next
      case 2
      then show ?thesis using recent_mono[OF answer[OF 2(1)], of "t - 9000" t] by simp
    qed
  qed
qed

lemma reachable_answers:
  assumes "api_reachable auth cfg dig now sys" "inj_on dig (tokens_seen sys)"
  shows "answers_ok auth sys"
  using assms
proof (induction rule: api_reachable.induct)
  case api_starts
  show ?case by (simp add: answers_ok_def)
next
  case (api_steps sys sys')
  have ok: "answers_ok auth sys" using api_steps inj_on_subset[OF _ step_tokens[OF api_steps(2)]] by blast
  note cache = reachable_cache[OF api_steps(1)]
  from api_steps(2) show ?case
  proof (cases rule: api_step.cases)
    case (api_waits t)
    then show ?thesis using ok by (fastforce simp: answers_ok_def)
  next
    case (api_asked token user)
    then show ?thesis using answers_asked[OF ok cache] api_steps(4) by simp
  next
    case (api_answer i token user sent read)
    have "recent auth token (session_from r) (api_clock sys - 4000) (api_clock sys)" if "auth read token = Some r" for r
      using that api_answer(4-6) unfolding recent_def FETCH_TIMEOUT_MS_def by (intro exI[of _ read] exI[of _ r]) simp
    then show ?thesis using answers_arrived[OF ok api_answer(2)] api_answer(1) by simp
  next
    case (api_fails i token user sent)
    then show ?thesis using answers_arrived[OF ok api_fails(2), of None] by simp
  qed
qed

end
