(* ===== verification/AccessSamples.thy ===== *)
theory AccessSamples
  imports AccessProps
begin

text \<open>A user, a token and a logout, on which the properties of \<open>AccessProps\<close> apply.\<close>

definition sample_account :: account where
  "sample_account = \<lparr>ac_id = ''ann'', ac_email = Some ''ann@x.in'', ac_phone = None, ac_email_verified = True, ac_phone_verified = False,
     ac_role = ''user'', ac_version = Some 1, ac_active = True, ac_deleted = False, ac_guest = False\<rparr>"

definition sample_opts :: sign_options where
  "sample_opts = \<lparr>so_device = ''phone'', so_high_assurance = True, so_channel = ''phone'', so_factor_at = JUndef, so_recovery = [], so_expires = []\<rparr>"

definition sample_lib :: token_lib where
  "sample_lib = \<lparr>at_decode = \<lambda>token. if token = ''tok'' then Some (JStr ''HS256'', Some ''1'') else None,
     at_verify = \<lambda>now secret iss aud token. if secret = ''s'' \<and> token = ''tok'' \<and> now div 1000 < 905
       then Some (issued 5000 900 iss aud (access_claims 5000 JNull sample_account sample_opts)) else None,
     at_sign = \<lambda>now secret kid iss aud ttl claims. ''tok'', at_decrypt = Some\<rparr>"

definition sample_keys :: key_set where
  "sample_keys = \<lparr>ks_keys = [(''1'', ''s'')], ks_active = ''1'', ks_issuer = ''pandapay-auth'', ks_audience = ''mobile-app''\<rparr>"

definition rotated_keys :: key_set where
  "rotated_keys = \<lparr>ks_keys = [(''2'', ''z''), (''1'', ''s'')], ks_active = ''2'', ks_issuer = ''pandapay-auth'', ks_audience = ''mobile-app''\<rparr>"

definition sample_auth_db :: auth_db where
  "sample_auth_db = \<lparr>au_users = [sample_account], au_devices = [\<lparr>dv_user = ''ann'', dv_device = ''phone'', dv_active = True\<rparr>]\<rparr>"

definition no_errors :: query_errors where
  "no_errors = \<lparr>first_query = None, second_query = None, third_query = None\<rparr>"

lemma no_errors [simp]: "first_query no_errors = None" "second_query no_errors = None"
  by (simp_all add: no_errors_def)

lemma signed_token_accepted_witness:
  "\<exists>x. authMiddleware sample_lib rotated_keys 900000 no_errors sample_auth_db (''Bearer '' @ ''tok'') = Allow x
     \<and> map_of x ''id'' = Some (JStr ''ann'') \<and> map_of x ''role'' = Some (JStr ''user'') \<and> map_of x ''high_assurance'' = Some (JBool True)"
proof -
  have s: "signAccessToken sample_lib sample_keys ''15m'' 5000 sample_account sample_opts = Some ''tok''" by code_simp
  have sound: "token_sound sample_lib 5000 900 sample_keys ''s'' (access_claims 5000 JNull sample_account sample_opts) ''tok''"
    by (simp add: token_sound_def sample_lib_def sample_keys_def)
  have "\<exists>x. authMiddleware sample_lib rotated_keys 900000 no_errors sample_auth_db (''Bearer '' @ ''tok'') = Allow x
     \<and> map_of x ''id'' = Some (JStr (ac_id sample_account)) \<and> map_of x ''role'' = Some (JStr (ac_role sample_account))
     \<and> map_of x ''high_assurance'' = Some (JBool (so_high_assurance sample_opts))"
    by (rule signed_token_accepted[OF s _ _ _ sound, where v = sample_account])
      (simp_all add: sample_account_def sample_opts_def sample_keys_def rotated_keys_def sample_auth_db_def canonicalPhoneClaim_def
        getKeySecret_def find_account_def usable_account_def version_num_def)
  then show ?thesis by (simp add: sample_account_def sample_opts_def)
qed

definition sample_report :: session_report where
  "sample_report = the (verifyCurrentSession sample_lib sample_keys 6000 no_errors sample_auth_db ''tok'')"

lemma sample_report_Some: "verifyCurrentSession sample_lib sample_keys 6000 no_errors sample_auth_db ''tok'' = Some sample_report"
  and sample_report_user: "\<not> sr_guest sample_report"
proof -
  have "verifyCurrentSession sample_lib sample_keys 6000 no_errors sample_auth_db ''tok'' \<noteq> None" by code_simp
  then show "verifyCurrentSession sample_lib sample_keys 6000 no_errors sample_auth_db ''tok'' = Some sample_report"
    by (simp add: sample_report_def)
  show "\<not> sr_guest sample_report" by code_simp
qed

lemma session_check_agrees_witness:
  "case authMiddleware sample_lib sample_keys 6000 no_errors sample_auth_db (''Bearer '' @ ''tok'') of
      Allow u \<Rightarrow> sr_valid sample_report \<and> map_of u ''id'' = map_option JStr (sr_subject sample_report)
    | Deny status why \<Rightarrow> \<not> sr_valid sample_report"
  by (rule session_check_agrees[OF _ _ sample_report_Some sample_report_user]) simp_all

definition before_logout :: token_system where
  "before_logout = (no_tokens 0)\<lparr>ts_versions := [(''ann'', Some 1)]\<rparr>"

definition logging_out :: token_system where
  "logging_out = before_logout\<lparr>ts_calls := [RevokeMany ''ann'' None RSnapshot]\<rparr>"

definition logged_out :: token_system where
  "logged_out = logging_out\<lparr>ts_calls := [RevokeMany ''ann'' None RDone], ts_versions := [(''ann'', Some 2)]\<rparr>"

definition later_db :: auth_db where
  "later_db = \<lparr>au_users = [sample_account\<lparr>ac_version := Some 2\<rparr>], au_devices = [\<lparr>dv_user = ''ann'', dv_device = ''phone'', dv_active = True\<rparr>]\<rparr>"

lemma logout_starts: "token_reachable sample_token_env before_logout logging_out"
proof -
  have "token_step sample_token_env before_logout (before_logout\<lparr>ts_calls := ts_calls before_logout @ [RevokeMany ''ann'' None RSnapshot]\<rparr>)"
    by (rule token_step.revokes)
  then have "token_step sample_token_env before_logout logging_out"
    by (simp add: logging_out_def before_logout_def no_tokens_def)
  then show ?thesis by (rule token_reachable.steps[OF token_reachable.begins])
qed

lemma logout_ends: "token_reachable sample_token_env logging_out logged_out"
proof -
  have "do_events sample_token_env [Go 0, Go 0, Go 0, Go 0] logging_out = Some logged_out" by code_simp
  then show ?thesis by (rule do_events_reachable) (rule token_reachable.begins)
qed

lemma logout_everywhere_witness:
  "(\<forall>x. authMiddleware sample_lib sample_keys 6000 no_errors later_db (''Bearer '' @ ''tok'') \<noteq> Allow x)
    \<and> \<not> sr_valid (the (verifyCurrentSession sample_lib sample_keys 6000 no_errors later_db ''tok''))"
proof -
  let ?p = "issued 5000 900 ''pandapay-auth'' ''mobile-app'' (access_claims 5000 JNull sample_account sample_opts)"
  have p: "verifyAccessToken sample_lib sample_keys 6000 ''tok'' = Some ?p" by code_simp
  have "verifyCurrentSession sample_lib sample_keys 6000 no_errors later_db ''tok'' \<noteq> None" by code_simp
  moreover have "(\<forall>x. authMiddleware sample_lib sample_keys 6000 no_errors later_db (''Bearer '' @ ''tok'') \<noteq> Allow x)
      \<and> (\<forall>r. verifyCurrentSession sample_lib sample_keys 6000 no_errors later_db ''tok'' = Some r \<longrightarrow> \<not> sr_valid r)"
    by (rule logout_everywhere[OF logout_starts logout_ends _ _ _ _ _ _ _ _ issued_props(1)[OF refl] _ p,
          where i = 0 and user = "''ann''" and db = sample_auth_db])
      (simp_all add: logout_pc_Some logging_out_def logged_out_def before_logout_def no_tokens_def versions_of_def
        sample_auth_db_def later_db_def sample_account_def version_num_def)
  ultimately show ?thesis by auto
qed

end
