(* ===== verification/ApiProps.thy ===== *)
theory ApiProps
  imports ApiSession AccessSamples
begin

text \<open>The API behind the auth server: how old the answer behind a granted request is, and a logout seen from the API.\<close>

text \<open>
  C16: a request is granted only on a recent answer. However requests, answers, failures and time interleave, a granted
  request rests on an answer the auth server gave to this very token from tables read at most nine seconds
  before (four for the answer to arrive and five in the cache): the token was valid, its session active and not revoked, and
  its subject the user of the request. The digest of the cache is assumed not to collide on the tokens seen.
\<close>

theorem granted_session_recent:
  assumes "api_reachable auth cfg dig now sys" and "inj_on dig (tokens_seen sys)"
    and "Answered token user (Granted s t) \<in> set (api_calls sys)"
  shows "\<exists>read r. auth read token = Some r \<and> t - 9000 \<le> read \<and> read \<le> t
    \<and> sr_token_valid r \<and> sr_valid r \<and> sr_active r \<and> \<not> sr_revoked r \<and> jstr (sr_subject r) = user"
proof -
  have "session_ok s user" "recent auth token s (t - 9000) t"
    using reachable_answers[OF assms(1,2)] assms(3) unfolding answers_ok_def by blast+
  then obtain read r where "auth read token = Some r" "s = session_from r" "t - 9000 \<le> read" "read \<le> t" "session_ok s user"
    by (auto simp: recent_def)
  then show ?thesis by (intro exI[of _ read] exI[of _ r]) (simp add: session_ok_def session_from_def)
qed

text \<open>
  C2: nine seconds after a logout everywhere, no request of an earlier token is granted. A token was signed for a
  user; from the time \<open>ended\<close> on, the auth server reads tables in which a later logout everywhere of the user has
  ended, whatever else ran. A request granted by the API with that token was granted before \<open>ended\<close> plus nine seconds.
\<close>

theorem logout_reaches_api:
  assumes "api_reachable (\<lambda>read. verifyCurrentSession lib ks read (errs read) (db' read)) cfg dig now api"
    and "inj_on dig (tokens_seen api)" and "Answered token who (Granted s t) \<in> set (api_calls api)"
    and "token_reachable env signed sys" and "logout_pc i user sys = Some RSnapshot"
    and "\<forall>read. ended \<le> read \<longrightarrow> (\<exists>sys'. token_reachable env sys sys' \<and> logout_pc i user sys' = Some RDone
      \<and> versions_of (db' read) = ts_versions sys')"
    and "versions_of db = ts_versions signed" and "distinct (map ac_id (au_users db))"
    and "u \<in> set (au_users db)" and "ac_id u = user" and "\<not> ac_guest u" and "1 \<le> version_num (ac_version u)"
    and "\<forall>read p. verifyAccessToken lib ks read token = Some p \<longrightarrow> carries p (access_claims at' phone u opt)"
  shows "t < ended + 9000"
proof -
  have "session_ok s who" "recent (\<lambda>read. verifyCurrentSession lib ks read (errs read) (db' read)) token s (t - 9000) t"
    using reachable_answers[OF assms(1,2)] assms(3) unfolding answers_ok_def by blast+
  then obtain read r where r: "verifyCurrentSession lib ks read (errs read) (db' read) token = Some r" "t - 9000 \<le> read" "sr_valid r"
    by (auto simp: recent_def session_ok_def session_from_def)
  have "read < ended"
  proof (rule ccontr)
    assume "\<not> read < ended"
    then obtain sys' where s: "token_reachable env sys sys'" "logout_pc i user sys' = Some RDone" "versions_of (db' read) = ts_versions sys'"
      using assms(6) by (metis linorder_not_less)
    have "\<not> sr_valid r"
    proof (rule refused_session[OF r(1)])
      fix p v assume p: "verifyAccessToken lib ks read token = Some p" and v: "find_account (db' read) (jprop p ''sub'') = Some v"
      have "carries p (access_claims at' phone u opt)" using assms(13) p by blast
      from logged_out_version[OF assms(4) s(1) assms(5) s(2) assms(7-10,12) this s(3) v] show "\<not> version_matches p v" .
    next
      fix p assume "verifyAccessToken lib ks read token = Some p"
      then show "jprop p ''is_guest'' \<noteq> JBool True" using assms(11,13) carries_account(2) by fastforce
    qed
    then show False using r(3) by simp
  qed
  then show ?thesis using r(2) by simp
qed

section \<open>A run\<close>

definition sample_api_config :: api_config where
  "sample_api_config = \<lparr>api_keys = [(''1'', ''s'')], api_issuer = ''pandapay-auth'', api_audience = ''mobile-app'',
     api_auth_url = Some ''http://auth'', api_auth_secret = Some ''shared''\<rparr>"

definition db_over_time :: "int \<Rightarrow> auth_db" where
  "db_over_time read = (if read < 8000 then sample_auth_db else later_db)"

definition sample_auth :: "int \<Rightarrow> string \<Rightarrow> session_report option" where
  "sample_auth = (\<lambda>read. verifyCurrentSession sample_lib sample_keys read no_errors (db_over_time read))"

definition api_begin :: api_system where
  "api_begin = \<lparr>api_clock = 6000, api_cache = [], api_calls = []\<rparr>"

definition api_asks :: api_system where
  "api_asks = verifyRequestSession sample_api_config id ''tok'' (JStr ''ann'') api_begin"

definition api_gets :: api_system where
  "api_gets = session_arrives id 0 ''tok'' (JStr ''ann'') (sample_auth 6000 ''tok'') api_asks"

text \<open>At nine seconds, one second after the logout, the remembered session is used.\<close>

definition api_later :: api_system where
  "api_later = verifyRequestSession sample_api_config id ''tok'' (JStr ''ann'') (api_gets\<lparr>api_clock := 9000\<rparr>)"

lemma api_later_reachable: "api_reachable sample_auth sample_api_config id 6000 api_later"
proof -
  have "api_reachable sample_auth sample_api_config id 6000 api_begin"
    unfolding api_begin_def by (rule api_reachable.api_starts)
  then have 1: "api_reachable sample_auth sample_api_config id 6000 api_asks"
    unfolding api_asks_def by (rule api_reachable.api_steps) (rule api_step.api_asked)
  have c: "0 < length (api_calls api_asks)" "api_calls api_asks ! 0 = Asking ''tok'' (JStr ''ann'') 6000" "api_clock api_asks = 6000"
    by code_simp+
  have "api_step sample_auth sample_api_config id api_asks api_gets"
    unfolding api_gets_def by (rule api_step.api_answer[OF c(1,2)]) (simp_all add: c(3) FETCH_TIMEOUT_MS_def)
  then have 2: "api_reachable sample_auth sample_api_config id 6000 api_gets" by (rule api_reachable.api_steps[OF 1])
  have "api_clock api_gets = 6000" by code_simp
  then have "api_step sample_auth sample_api_config id api_gets (api_gets\<lparr>api_clock := 9000\<rparr>)" by (intro api_step.api_waits) simp
  then have "api_reachable sample_auth sample_api_config id 6000 (api_gets\<lparr>api_clock := 9000\<rparr>)" by (rule api_reachable.api_steps[OF 2])
  then show ?thesis unfolding api_later_def by (rule api_reachable.api_steps) (rule api_step.api_asked)
qed

definition granted_session :: api_session where
  "granted_session = session_from (the (sample_auth 6000 ''tok''))"

lemma api_later_calls: "Answered ''tok'' (JStr ''ann'') (Granted granted_session 9000) \<in> set (api_calls api_later)"
proof -
  have "1 < length (api_calls api_later)" "api_calls api_later ! 1 = Answered ''tok'' (JStr ''ann'') (Granted granted_session 9000)"
    by code_simp+
  then show ?thesis by (metis nth_mem)
qed

lemma granted_session_recent_witness:
  "\<exists>read r. sample_auth read ''tok'' = Some r \<and> 0 \<le> read \<and> read \<le> 9000
    \<and> sr_token_valid r \<and> sr_valid r \<and> sr_active r \<and> \<not> sr_revoked r \<and> jstr (sr_subject r) = JStr ''ann''"
  using granted_session_recent[OF api_later_reachable inj_on_id api_later_calls] by simp

lemma logout_reaches_api_witness:
  "Answered ''tok'' (JStr ''ann'') (Granted granted_session 9000) \<in> set (api_calls api_later) \<and> (9000 :: int) < 8000 + 9000"
proof (rule conjI[OF api_later_calls], rule logout_reaches_api[OF _ inj_on_id api_later_calls logout_starts])
  show "api_reachable (\<lambda>read. verifyCurrentSession sample_lib sample_keys read no_errors (db_over_time read)) sample_api_config id 6000 api_later"
    using api_later_reachable unfolding sample_auth_def .
  show "logout_pc 0 ''ann'' logging_out = Some RSnapshot" by (simp add: logout_pc_Some logging_out_def)
  show "\<forall>read. 8000 \<le> read \<longrightarrow> (\<exists>sys'. token_reachable sample_token_env logging_out sys' \<and> logout_pc 0 ''ann'' sys' = Some RDone
      \<and> versions_of (db_over_time read) = ts_versions sys')"
  proof (intro allI impI)
    fix read :: int assume "8000 \<le> read"
    then show "\<exists>sys'. token_reachable sample_token_env logging_out sys' \<and> logout_pc 0 ''ann'' sys' = Some RDone
        \<and> versions_of (db_over_time read) = ts_versions sys'"
      by (intro exI[of _ logged_out]) (simp add: logout_ends[unfolded logged_out_def] logout_pc_Some logged_out_def db_over_time_def versions_of_def later_db_def sample_account_def)
  qed
  show "versions_of sample_auth_db = ts_versions before_logout"
    by (simp add: versions_of_def sample_auth_db_def sample_account_def before_logout_def)
  show "\<forall>read p. verifyAccessToken sample_lib sample_keys read ''tok'' = Some p
      \<longrightarrow> carries p (access_claims 5000 JNull sample_account sample_opts)"
    using issued_props(1)[OF refl]
    by (auto simp: verifyAccessToken_def sample_lib_def secrets_for_def getKeySecret_def sample_keys_def split: if_splits)
qed (simp_all add: sample_auth_db_def sample_account_def version_num_def)

end
