(* ===== verification/Spec2Isabelle.thy ===== *)
theory Spec2Isabelle
  imports SharedDomain SharedJournal Cycles RewardV1 MerchantDirectory CardSamples2 ReferralProps SplitsProps SyncProps DedupProps SelfTransferProps SharedCommandsProps
    Csv ForeignExchangeProps OtpSamples OtpLimitsProps ApiProps
begin

text \<open>
  A verification library for the core of PandaPay: of the API (\<open>src/api/src\<close>) the code that
  computes rewards, keeps card counters, splits shared expenses and decides what a change to a
  transaction does; of the auth server (\<open>src/auth/src\<close>) one-time codes, their limits, refresh and access tokens, and how
  the API asks for a session.

  \<^bold>\<open>The program\<close> is a Node service over PostgreSQL. A recorded purchase goes through the reward
  engine of its card (\<open>reward_math.js\<close> for first-generation cards, \<open>reward_math_v2.js\<close> for
  second-generation ones), which picks a rule, splits the spend at the caps and returns what was
  earned. \<open>card_state_v2.js\<close> stores the outcome: counters per cap, milestone and fee-waiver
  period, a record on the transaction of what it added, and rows of the points ledger; it also
  undoes and rebuilds them. The periods come from \<open>cycles.js\<close>, the merchant a rule asks for from
  \<open>merchant_directory.js\<close>. \<open>sync_transaction_state.js\<close> applies a change made offline and moves
  the card state with it; \<open>transaction_splits.js\<close> replaces the split of a transaction, and
  \<open>transaction_dedup.js\<close> decides whether two rows are one payment;
  \<open>self_transfer.js\<close> recognises payments between a person's own accounts. The shared
  expenses (\<open>shared_expenses/validation.js\<close>, \<open>domain.js\<close>, \<open>journal.js\<close>) allocate, net
  and settle amounts between members; their
  clients send commands (\<open>canonical.js\<close>, \<open>source_reference.js\<close>, \<open>bill.js\<close>, \<open>commands.js\<close>), which are
  validated, hashed and handed to the database. \<open>referral_rules.js\<close> draws prizes and counts streaks, \<open>foreign_exchange.js\<close>
  converts amounts to rupees and \<open>csv.js\<close> writes reports.

  The auth server signs a person in with a code sent by SMS or mail. \<open>otpService.js\<close> makes and verifies
  codes under the admission of \<open>otpWorkAdmission.js\<close>; the middleware of \<open>rateLimitMiddleware.js\<close>
  keeps counters and the marker that stops a second code in a store, a Map or a table of PostgreSQL
  (\<open>authAbuseStore.js\<close>). \<open>tokenService.js\<close> issues, rotates and revokes the refresh tokens of the session
  and signs access tokens, which \<open>authMiddleware.js\<close> checks against the user's row. The API asks the
  auth server the same (\<open>currentSessionVerification.js\<close>, \<open>internalRoutes.js\<close>) and remembers the answer for five
  seconds (\<open>api/src/auth.js\<close>).

  \<^bold>\<open>Theories and code.\<close>
  \<^item> \<open>Prelude\<close>: lemma collections, results with an error branch (a throw is \<open>Inl\<close>), the stable
    sort (locale \<open>comparator\<close>), sets and maps of the source, decimal text.
  \<^item> \<open>JsNum\<close>, \<open>JsRange\<close>: Numbers as binary64 with round-to-nearest-even (\<open>fl\<close>), \<open>NaN\<close>
    and infinities; locale \<open>rounding\<close> states the laws the numeric proofs use. The sign of zero is
    not represented. \<open>JsVal\<close>: dynamic values, 8-bit text, \<open>Number(x)\<close>. \<open>JsDate\<close>: the
    calendar of ECMA-262. \<open>JsError\<close>: the exceptions of BigInt conversions.
  \<^item> \<open>SharedValidation\<close>, \<open>SharedDomain\<close>, \<open>Accumulator\<close>, \<open>SharedJournal\<close>: the three
    files of \<open>shared_expenses\<close>. Amounts are BigInts, hence \<open>int\<close>. The journal state is the pair
    of Maps of the source; its two counters implement the locale of \<open>Accumulator\<close>.
  \<^item> \<open>JsonText\<close>: the text \<open>JSON.stringify\<close> prints. \<open>SharedCanonical\<close>, \<open>SharedCanonicalProps\<close>:
    \<open>canonical.js\<close>. \<open>SharedCommands\<close>, \<open>SharedCommandsProps\<close>: source references, bills and
    commands; the depth of a value (at most 16) is the fuel of the traversal, as in the code.
  \<^item> \<open>Cycles\<close>: \<open>cycles.js\<close>, both generations of windows; the server's time zone is an
    argument.
  \<^item> \<open>RewardRows\<close>, \<open>RewardV1\<close>: the catalogue rows and \<open>reward_math.js\<close>.
    \<open>RewardV2\<close>, \<open>RewardV2Props\<close>: \<open>reward_math_v2.js\<close> and its properties.
  \<^item> \<open>MerchantDirectory\<close>: \<open>merchant_directory.js\<close>.
  \<^item> \<open>CardRecord\<close>, \<open>CardReplay\<close>, \<open>CardState\<close>: \<open>card_state_v2.js\<close>: the records, the
    replay behind a rebuild, and the operations on the database state \<open>db\<close> (each table an
    association list, each SQL statement a record update). \<open>Money\<close>: amounts of whole hundredths
    survive rounding and storing. \<open>CardBooks\<close>, \<open>CardInvariant\<close>, \<open>CardCache\<close>,
    \<open>CardRebuild\<close>: its properties; \<open>CardSamples\<close>, \<open>CardSamples2\<close>: concrete runs.
  \<^item> \<open>Referral\<close>, \<open>ReferralProps\<close>: \<open>referral_rules.js\<close>.
  \<^item> \<open>Splits\<close>, \<open>SplitsProps\<close>: \<open>transaction_splits.js\<close> with its two routes.
  \<^item> \<open>SyncTransaction\<close>, \<open>SyncProps\<close>: \<open>sync_transaction_state.js\<close>; the stored procedure
    and the callbacks the module is created with are arguments, with their contracts
    (\<open>rpc_edits\<close>, \<open>callbacks_record\<close>) as hypotheses.
  \<^item> \<open>Dedup\<close>, \<open>DedupProps\<close>: \<open>transaction_dedup.js\<close>; its reference pattern is a matcher
    that lists the remaining inputs in the order the engine tries them.
  \<^item> \<open>SelfTransfer\<close>, \<open>SelfTransferProps\<close>: \<open>self_transfer.js\<close> and the checks of its table.

  \<^item> \<open>Csv\<close>: \<open>csv.js\<close>. \<open>ForeignExchange\<close>, \<open>ForeignExchangeProps\<close>: the exact part of
    \<open>foreign_exchange.js\<close>.
  \<^item> \<open>AbuseStore\<close>, \<open>AbuseStoreProps\<close>: both stores; the locale \<open>marker_store\<close> is what the code
    relies on of a marker, interpreted on each of them.
  \<^item> \<open>OtpAdmission\<close>, \<open>OtpService\<close>: the admission and the codes. A call is suspended at
    every \<open>await\<close>: its program counter names the next statement, the system holds the table, the
    store and all calls, and \<open>otp_step\<close> moves one of them, with the statement failing or not.
    \<open>OtpProps\<close>, \<open>OtpBounds\<close>, \<open>OtpMarkers\<close>: the properties; \<open>OtpSamples\<close>: runs.
  \<^item> \<open>OtpLimits\<close>, \<open>OtpLimitsProps\<close>: the middleware over the operations of the store.
  \<^item> \<open>TokenService\<close>, \<open>TokenProps\<close>, \<open>TokenSamples\<close>: refresh tokens, as a step relation of the
    same kind; an \<open>UPDATE\<close> of many rows is two steps, since it changes only rows it saw when it began.
  \<^item> \<open>AccessTokens\<close>, \<open>AccessProps\<close>, \<open>AccessSamples\<close>: keys, access tokens and both checks of a
    session, as functions of the tables and of which queries fail.
  \<^item> \<open>ApiSession\<close>, \<open>ApiProps\<close>: the checks of the API as a step relation over its cache and the
    requests that wait for the auth server, whose answers are a function of the moment it reads its tables.

  \<^bold>\<open>What the lemmas show.\<close>
  \<^item> Card state: the invariant \<open>books\<close> says that every counter is the sum of what the
    transactions' records claim; recording and reversing keep it, reversing undoes recording,
    recording twice counts once, a failure inside the hook keeps it, a rebuild computes the exact sum,
    and the cache of first-generation shapes never hides a second-generation card. The three kinds of
    counter are interpretations of the locales \<open>clamped_rows\<close> and \<open>posted_rows\<close>.
  \<^item> Rewards: caps are never overrun, accrual is monotone and never throws, an exclusion
    that applies comes before the category a card excludes, before the first base or earn rule by priority, value and
    id, before the base rate of the card; rewards are not negative.
  \<^item> Shared expenses: allocations add up exactly and do not depend on the order of members, the
    projected edges settle every balance, journal deltas add, and a reversed settlement is undone.
  \<^item> Commands: the canonical text identifies a command up to the order of keys, validation answers
    every JSON value with a command or a coded failure (reading a property of \<open>null\<close> is an exception
    of the model, which is never reached), and an accepted proposal balances, with its
    sources within the contributions and its bill allocating exactly the shares.
  \<^item> Periods: second-generation statement cycles tile the calendar and every window contains its
    day; the first generation has a gap, which is proved.
  \<^item> Synced changes: the card state keeps holding exactly the rows marked as applied; the category
    of a private category is its nearest public parent within 33 levels, and every broken, cyclic
    or longer chain is rejected.
  \<^item> Splits: the rows of a transaction never add up to more than its amount, and a retry changes
    nothing. Referrals: the draw gives each prize exactly its weight; streaks are runs of days.
  \<^item> Duplicates: a reported duplicate contradicts the row in nothing and is suppressed without asking
    only on strong evidence, which no other candidate free of conflicts has; a word such as Refreshment is taken for a bank reference.
  \<^item> Self transfers: a rule changes exactly the past payments it identifies, once; remembered rules
    form a set; a confirmed transfer joins two different accounts of the profile.
  \<^item> Reports and exchange: a document is read back cell by cell, with formulas defused; a conversion
    is the product rounded half up.
  \<^item> One-time codes: a code signs in once and only if it was right, unexpired and within its attempts; wrong
    guesses are bounded by the attempts and the calls admitted at once; two usable codes for one
    identifier and purpose never coexist; every call ends and gives its slot back.
  \<^item> Limits: the table answers as the Map does, except that it still finds an expired marker to delete; of the
    requests counted under one key the middleware passes at most twice the limit in any span as long as the window. The limit on failed verifications is kept per spelling of a number, which is proved.
  \<^item> Refresh tokens: a family has one live token; a retried rotation gives the same token; detected reuse revokes
    every token it saw and misses the successor of a rotation that commits meanwhile; the stored hash cannot tell the tokens of a user apart.
  \<^item> Sessions: a signed token is accepted until it expires, across a rotation of keys; both checks agree; a logout
    everywhere makes the auth server refuse every earlier token, and the API nine seconds later at most.

  \<^bold>\<open>Bounds and fuel.\<close> Loops of the source are structural recursion or \<open>function\<close>s with a measure.
  Where the code itself bounds a loop the bound is the fuel: \<open>MAX_PERIODS_PER_CAP\<close> (5000) periods
  per cap in a rebuild, 32 further levels of private categories, the depth of the merchant and cap
  parents. A call of the code service ends within five of its own steps, failures included. \<open>exact_loop\<close> is proved to end for every finite Number. Money theorems assume
  amounts below \<open>10^12\<close> hundredths, the range of a \<open>numeric(12,2)\<close> column.

  \<^bold>\<open>Modelling decisions.\<close> In the API a database transaction is a function of the state; an error returns no
  new state, which is the rollback; locks, connection failures and row timestamps are not modelled. In the auth
  server calls interleave and statements fail; one clock serves the server and the database. bcrypt, the signing of
  tokens and the digest of the store's keys are arguments; where a property needs that the digest does not
  collide, it is asked only of the keys in use.
  \<open>numeric\<close> columns are integers of hundredths; uuids are lower-case text. SHA-256, the random
  source, the stored procedure and the callbacks are arguments.

  \<^bold>\<open>Not modelled.\<close> The HTTP routes of \<open>index.js\<close> and of the admin and auth servers
  (\<open>authRoutes.js\<close>), which mostly translate requests to SQL; the step-up check and risk scores; the fetching and caching of exchange rates; SMS, statement and mail parsing (\<open>sms_parser.js\<close>,
  \<open>sms_v2\<close>, \<open>statement_import.js\<close>, \<open>imap_*\<close>), whose grammars are large regular
  expressions over Unicode text; catalogue import scripts; notification workers, telemetry and
  backups, which are input and output; the SQL migrations; the web and mobile front ends.
  \<open>formatDateInZone\<close> and \<open>getYearWindow\<close> of \<open>referral_rules.js\<close> only wrap
  \<open>Intl.DateTimeFormat\<close>.
\<close>

end
